(* ===== verification/Sarena_Prelude.thy ===== *)
theory Sarena_Prelude
  imports Main "HOL-Library.Word"
begin

text \<open>
  What every component shares: the machine integers of the Rust sources, \<open>Result\<close>, the parts
  of \<open>core::str\<close> and \<open>core::num\<close> the sources call (splitting, suffix stripping, printing and
  parsing of unsigned numbers in a radix), the generic lemmas on lists and options the component
  proofs use, and the \<^theory_text>\<open>named_theorems\<close> collections of the development.
  \<open>usize\<close> is 64 bits wide; a \<open>usize\<close> that only indexes or counts is a \<open>nat\<close> with its
  bound written where the source depends on it.
\<close>

unbundle bit_operations_syntax

named_theorems result_simps \<open>rewriting \<open>Result\<close> and its combinators\<close>
named_theorems inv_intros \<open>preservation of the component invariants\<close>
named_theorems frame_simps \<open>fields an operation leaves unchanged\<close>

type_synonym u8 = "8 word"
type_synonym u16 = "16 word"
type_synonym u32 = "32 word"
type_synonym u64 = "64 word"
type_synonym u128 = "128 word"

section \<open>Result\<close>

datatype ('a, 'e) result = Ok 'a | Err 'e

fun is_ok :: "('a, 'e) result \<Rightarrow> bool" where
  "is_ok (Ok _) = True"
| "is_ok (Err _) = False"

definition ok_or :: "'a option \<Rightarrow> 'e \<Rightarrow> ('a, 'e) result" where
  "ok_or x e = (case x of Some a \<Rightarrow> Ok a | None \<Rightarrow> Err e)"

fun map_err :: "('e \<Rightarrow> 'f) \<Rightarrow> ('a, 'e) result \<Rightarrow> ('a, 'f) result" where
  "map_err f (Ok a) = Ok a"
| "map_err f (Err e) = Err (f e)"

lemma ok_or_simps [simp, result_simps]:
  "ok_or (Some a) e = Ok a" "ok_or None e = Err e"
  by (simp_all add: ok_or_def)

lemma ok_or_eq_Ok [result_simps]: "ok_or x e = Ok a \<longleftrightarrow> x = Some a"
  by (cases x) auto

lemma is_ok_iff [result_simps]: "is_ok r \<longleftrightarrow> (\<exists>a. r = Ok a)"
  by (cases r) auto

section \<open>Strings: splitting, joining, suffixes\<close>

text \<open>\<open>str::split(c)\<close>: the pieces between the separators, always at least one.\<close>

fun split_on :: "char \<Rightarrow> string \<Rightarrow> string list" where
  "split_on c [] = [[]]"
| "split_on c (x # xs) =
     (if x = c then [] # split_on c xs
      else (case split_on c xs of [] \<Rightarrow> [[x]] | p # ps \<Rightarrow> (x # p) # ps))"

fun join_with :: "string \<Rightarrow> string list \<Rightarrow> string" where
  "join_with sep [] = []"
| "join_with sep [p] = p"
| "join_with sep (p # q # ps) = p @ sep @ join_with sep (q # ps)"

text \<open>\<open>str::split_once(c)\<close>: around the first separator.\<close>

fun split_once :: "char \<Rightarrow> string \<Rightarrow> (string \<times> string) option" where
  "split_once c [] = None"
| "split_once c (x # xs) =
     (if x = c then Some ([], xs)
      else (case split_once c xs of None \<Rightarrow> None | Some (a, b) \<Rightarrow> Some (x # a, b)))"

definition strip_suffix :: "string \<Rightarrow> string \<Rightarrow> string option" where
  "strip_suffix suf s =
     (if length suf \<le> length s \<and> drop (length s - length suf) s = suf
      then Some (take (length s - length suf) s) else None)"

lemma split_on_nonempty [simp]: "split_on c s \<noteq> []"
  by (induction s) (auto split: list.splits)

lemma split_on_no_sep: "c \<notin> set s \<Longrightarrow> split_on c s = [s]"
  by (induction s) auto

lemma split_on_append_sep:
  "c \<notin> set a \<Longrightarrow> split_on c (a @ c # b) = a # split_on c b"
  by (induction a) (auto split: list.splits)

lemma split_on_join:
  assumes "ps \<noteq> []" and "\<forall>p \<in> set ps. c \<notin> set p"
  shows "split_on c (join_with [c] ps) = ps"
  using assms
proof (induction "[c]" ps rule: join_with.induct)
  case (2 p)
  then show ?case by (simp add: split_on_no_sep)
next
  case (3 p q ps)
  then show ?case by (simp add: split_on_append_sep)
qed simp

lemma set_join_with:
  "set (join_with sep ps) \<subseteq> set sep \<union> (\<Union>p \<in> set ps. set p)"
  by (induction sep ps rule: join_with.induct) auto

lemma join_with_inject:
  assumes "join_with [c] ps = join_with [c] qs" "ps \<noteq> []" "qs \<noteq> []"
    and "\<forall>p \<in> set ps. c \<notin> set p" "\<forall>q \<in> set qs. c \<notin> set q"
  shows "ps = qs"
  using assms by (metis split_on_join)

lemma split_once_append:
  "c \<notin> set a \<Longrightarrow> split_once c (a @ c # b) = Some (a, b)"
  by (induction a) auto

lemma split_once_None: "split_once c s = None \<longleftrightarrow> c \<notin> set s"
  by (induction s) (auto split: option.splits)

lemma split_once_Some_iff:
  "split_once c s = Some (a, b) \<longleftrightarrow> s = a @ c # b \<and> c \<notin> set a"
proof
  show "split_once c s = Some (a, b) \<Longrightarrow> s = a @ c # b \<and> c \<notin> set a"
    by (induction s arbitrary: a) (auto split: if_splits option.splits)
qed (auto simp: split_once_append)

lemma strip_suffix_append [simp]: "strip_suffix suf (s @ suf) = Some s"
  by (simp add: strip_suffix_def)

lemma strip_suffix_Some_iff: "strip_suffix suf s = Some b \<longleftrightarrow> s = b @ suf"
  by (auto simp: strip_suffix_def) (metis append_take_drop_id)

lemma strip_suffix_None_last:
  "suf \<noteq> [] \<Longrightarrow> s = [] \<or> last s \<noteq> last suf \<Longrightarrow> strip_suffix suf s = None"
  by (cases "strip_suffix suf s") (auto simp: strip_suffix_Some_iff)

section \<open>Numbers in a radix\<close>

definition digit_char :: "nat \<Rightarrow> char" where
  "digit_char d = (if d < 10 then char_of (48 + d) else char_of (87 + d))"

text \<open>\<open>char::to_digit\<close>: decimal digits, then letters of either case, below the radix.\<close>

definition char_digit :: "nat \<Rightarrow> char \<Rightarrow> nat option" where
  "char_digit r c =
     (let k = of_char c :: nat;
          d = (if 48 \<le> k \<and> k \<le> 57 then Some (k - 48)
               else if 97 \<le> k \<and> k \<le> 122 then Some (k - 87)
               else if 65 \<le> k \<and> k \<le> 90 then Some (k - 55) else None)
      in case d of Some v \<Rightarrow> if v < r then Some v else None | None \<Rightarrow> None)"

text \<open>Display of an unsigned number: no sign, no leading zero.\<close>

fun radix_str :: "nat \<Rightarrow> nat \<Rightarrow> string" where
  "radix_str r n =
     (if n < r \<or> r < 2 then [digit_char n] else radix_str r (n div r) @ [digit_char (n mod r)])"

declare radix_str.simps [simp del]

abbreviation dec_str :: "nat \<Rightarrow> string" where
  "dec_str \<equiv> radix_str 10"

abbreviation hex_str :: "nat \<Rightarrow> string" where
  "hex_str \<equiv> radix_str 16"

fun parse_digits :: "nat \<Rightarrow> nat \<Rightarrow> nat \<Rightarrow> string \<Rightarrow> nat option" where
  "parse_digits r mx acc [] = Some acc"
| "parse_digits r mx acc (c # cs) =
     (case char_digit r c of None \<Rightarrow> None
      | Some d \<Rightarrow> if acc * r + d \<le> mx then parse_digits r mx (acc * r + d) cs else None)"

text \<open>\<open>from_str_radix\<close> of an unsigned type with largest value \<open>mx\<close>: an optional plus sign,
  then at least one digit, failing on overflow.\<close>

definition from_str_radix :: "nat \<Rightarrow> nat \<Rightarrow> string \<Rightarrow> nat option" where
  "from_str_radix r mx s =
     (case s of [] \<Rightarrow> None
      | c # cs \<Rightarrow> if c = CHR ''+'' then (if cs = [] then None else parse_digits r mx 0 cs)
                  else parse_digits r mx 0 s)"

lemma of_char_digit_char:
  "d < 36 \<Longrightarrow> of_char (digit_char d) = (if d < 10 then 48 + d else 87 + d :: nat)"
  by (simp add: digit_char_def)

lemma char_digit_digit_char [simp]: "r \<le> 36 \<Longrightarrow> d < r \<Longrightarrow> char_digit r (digit_char d) = Some d"
  by (auto simp: char_digit_def Let_def of_char_digit_char)

lemma digit_char_inject: "d < 36 \<Longrightarrow> e < 36 \<Longrightarrow> digit_char d = digit_char e \<Longrightarrow> d = e"
  by (metis char_digit_digit_char le_refl option.inject)

lemma parse_digits_append:
  "parse_digits r mx acc (xs @ ys) =
     (case parse_digits r mx acc xs of None \<Rightarrow> None | Some a \<Rightarrow> parse_digits r mx a ys)"
  by (induction xs arbitrary: acc) (auto split: option.splits)

lemma radix_str_nonempty [simp]: "radix_str r n \<noteq> []"
  by (subst radix_str.simps) simp

lemma radix_str_digits:
  assumes "2 \<le> r" shows "c \<in> set (radix_str r n) \<Longrightarrow> \<exists>d < r. c = digit_char d"
  using assms
proof (induction r n rule: radix_str.induct)
  case (1 r n)
  then show ?case
    by (cases "n < r") (auto simp: radix_str.simps [of r n] intro: exI [of _ "n mod r"])
qed

lemma parse_digits_radix_str:
  assumes "2 \<le> r" "r \<le> 36" "n \<le> mx"
  shows "parse_digits r mx 0 (radix_str r n) = Some n"
  using assms
proof (induction r n rule: radix_str.induct)
  case (1 r n)
  show ?case
  proof (cases "n < r")
    case True
    with "1.prems" show ?thesis by (simp add: radix_str.simps [of r n])
  next
    case False
    have "n div r \<le> mx" using "1.prems" by (meson div_le_dividend le_trans)
    with "1.IH" "1.prems" False
    have "parse_digits r mx 0 (radix_str r (n div r)) = Some (n div r)" by simp
    with False "1.prems" show ?thesis
      by (simp add: radix_str.simps [of r n] parse_digits_append)
  qed
qed

lemma digit_char_not:
  assumes "d < 36" shows "digit_char d \<noteq> CHR ''+''" "digit_char d \<noteq> CHR '':''"
    "digit_char d \<noteq> CHR ''.''" "digit_char d \<noteq> CHR ''_''" "digit_char d \<noteq> CHR ''/''"
  using of_char_digit_char [OF assms] by (auto split: if_splits)

lemma radix_str_no_punct:
  assumes "2 \<le> r" "r \<le> 36"
  shows "CHR ''+'' \<notin> set (radix_str r n)" "CHR '':'' \<notin> set (radix_str r n)"
    "CHR ''.'' \<notin> set (radix_str r n)" "CHR ''_'' \<notin> set (radix_str r n)"
    "CHR ''/'' \<notin> set (radix_str r n)"
  using radix_str_digits [OF assms(1)] digit_char_not assms(2)
  by (metis (no_types, lifting) order.strict_trans2)+

lemma from_str_radix_radix_str:
  assumes "2 \<le> r" "r \<le> 36" "n \<le> mx"
  shows "from_str_radix r mx (radix_str r n) = Some n"
proof (cases "radix_str r n")
  case (Cons c cs)
  then have "c \<noteq> CHR ''+''" using radix_str_no_punct(1) [OF assms(1,2), of n] by auto
  with Cons parse_digits_radix_str [OF assms] show ?thesis by (simp add: from_str_radix_def)
qed simp

lemma radix_str_inject:
  assumes "2 \<le> r" "r \<le> 36" shows "radix_str r m = radix_str r n \<longleftrightarrow> m = n"
  by (metis assms from_str_radix_radix_str linear option.inject)

lemma parse_digits_bound: "parse_digits r mx acc s = Some n \<Longrightarrow> acc \<le> mx \<Longrightarrow> n \<le> mx"
  by (induction s arbitrary: acc) (auto split: option.splits if_splits)

lemma from_str_radix_bound: "from_str_radix r mx s = Some n \<Longrightarrow> n \<le> mx"
  unfolding from_str_radix_def
  by (auto simp del: parse_digits.simps dest: parse_digits_bound split: list.splits if_splits)

section \<open>Lists and words\<close>

text \<open>\<open>Iterator::find\<close> over indices: the first index with the property.\<close>

lemma find_SomeD: "List.find P xs = Some x \<Longrightarrow> P x \<and> x \<in> set xs"
  by (auto simp: find_Some_iff)

lemma find_Some_ex: "x \<in> set xs \<Longrightarrow> P x \<Longrightarrow> \<exists>y. List.find P xs = Some y"
  by (metis find_None_iff not_None_eq)

lemma nth_list_update_if:
  "i < length xs \<Longrightarrow> (xs[j := v]) ! i = (if i = j then v else xs ! i)"
  by (simp add: nth_list_update)

lemma unat_bound: "unat (w :: 'a::len word) < 2 ^ LENGTH('a)"
  by (rule unsigned_less)

lemma unat_ucast_up:
  "LENGTH('a) \<le> LENGTH('b) \<Longrightarrow> unat (ucast (w :: 'a::len word) :: 'b::len word) = unat w"
  by (simp add: unsigned_ucast_eq take_bit_nat_eq_self_iff)
    (meson less_le_trans one_le_numeral power_increasing unat_bound)

lemma unat_ucast_down:
  "unat (ucast (w :: 'a::len word) :: 'b::len word) = unat w mod 2 ^ LENGTH('b)"
  by (simp add: unsigned_ucast_eq take_bit_eq_mod)

lemma block_div: "d < 2 ^ h \<Longrightarrow> (k * 2 ^ h + d) div 2 ^ h = (k :: nat)"
  by simp

lemma word_bit_and_1: "(w AND 1 = 1) \<longleftrightarrow> bit w 0" for w :: "'a::len word"
  by (simp add: and_one_eq odd_iff_mod_2_eq_one bit_0)

section \<open>Big-endian bytes\<close>

text \<open>\<open>to_be_bytes\<close> and \<open>from_be_bytes\<close> of an \<open>n\<close>-byte unsigned integer.\<close>

fun be_bytes :: "nat \<Rightarrow> 'a::len word \<Rightarrow> u8 list" where
  "be_bytes 0 w = []"
| "be_bytes (Suc n) w = be_bytes n (drop_bit 8 w) @ [ucast w]"

definition from_be :: "u8 list \<Rightarrow> 'a::len word" where
  "from_be bs = foldl (\<lambda>acc b. push_bit 8 acc OR ucast b) 0 bs"

lemma length_be_bytes [simp]: "length (be_bytes n w) = n"
  by (induction n arbitrary: w) simp_all

lemma from_be_simps [simp]: "from_be [] = 0" "from_be (bs @ [b]) = push_bit 8 (from_be bs) OR ucast b"
  by (simp_all add: from_be_def)

lemma from_be_be_bytes_take: "from_be (be_bytes n w) = take_bit (8 * n) (w :: 'a::len word)"
proof (induction n arbitrary: w)
  case (Suc n)
  show ?case
  proof (rule bit_word_eqI)
    fix i assume "i < LENGTH('a)"
    then show "bit (from_be (be_bytes (Suc n) w) :: 'a word) i = bit (take_bit (8 * Suc n) w) i"
      by (auto simp: Suc bit_simps not_le)
  qed
qed simp

lemma from_be_be_bytes:
  "LENGTH('a) \<le> 8 * n \<Longrightarrow> from_be (be_bytes n w) = (w :: 'a::len word)"
  by (simp add: from_be_be_bytes_take take_bit_word_eq_self)

lemma be_bytes_inject:
  "LENGTH('a) \<le> 8 * n \<Longrightarrow> be_bytes n a = be_bytes n b \<longleftrightarrow> a = (b :: 'a::len word)"
  by (metis from_be_be_bytes)

lemma from_be_high: "bit (from_be bs :: 'a::len word) i \<Longrightarrow> i < 8 * length bs"
proof (induction bs arbitrary: i rule: rev_induct)
  case (snoc b bs)
  have "i - 8 < 8 * length bs \<or> i < 8"
    using snoc.prems snoc.IH [of "i - 8"] bit_imp_le_length [of b i]
    by (auto simp: bit_simps)
  then show ?case by auto
qed simp

lemma be_bytes_from_be:
  "8 * length bs \<le> LENGTH('a) \<Longrightarrow> be_bytes (length bs) (from_be bs :: 'a::len word) = bs"
proof (induction bs rule: rev_induct)
  case (snoc b bs)
  let ?w = "from_be (bs @ [b]) :: 'a word"
  have "drop_bit 8 ?w = from_be bs"
  proof (rule bit_word_eqI)
    fix i assume "i < LENGTH('a)"
    then show "bit (drop_bit 8 ?w) i = bit (from_be bs :: 'a word) i"
      using from_be_high [of bs i, where ?'a = 'a] bit_imp_le_length [of b "8 + i"] snoc.prems
      by (auto simp: bit_simps)
  qed
  moreover have "ucast ?w = b"
  proof (rule bit_word_eqI)
    fix i assume "i < LENGTH(8)"
    then show "bit (ucast ?w :: u8) i = bit b i" using snoc.prems by (auto simp: bit_simps)
  qed
  ultimately show ?case using snoc by simp
qed simp

end
