(* ===== verification/Net_Types.thy ===== *)
theory Net_Types
  imports Sarena_Prelude
begin

text \<open>
  Addresses. \<open>std::net::IpAddr\<close> with its \<open>Display\<close> (dotted decimal for IPv4; lower-case hex
  segments with the longest run of zero segments compressed for IPv6), the network type of the
  \<open>ipnet\<close> crate, and \<open>MacAddress\<close> of \<open>sarena-infra/src/mac_address.rs\<close>.
  The functions of the third-party crate \<open>ipnet\<close> are the fields of a record \<open>ipnet_lib\<close> that the
  definitions take as an argument; \<open>ipnet_docs\<close> states what its documentation promises and
  \<open>ipnet_ref\<close> is one concrete instance. The main result on \<open>Display\<close> is that it is injective:
  the services key their tables by the printed address.
\<close>

section \<open>IP addresses and their Display\<close>

datatype ip_addr = V4 u32 | V6 u128

definition v4_octets :: "u32 \<Rightarrow> u8 list" where
  "v4_octets w = map (\<lambda>i. ucast (drop_bit i w)) [24, 16, 8, 0]"

definition v6_segments :: "u128 \<Rightarrow> u16 list" where
  "v6_segments w = map (\<lambda>i. ucast (drop_bit i w)) [112, 96, 80, 64, 48, 32, 16, 0]"

definition v4_str :: "u32 \<Rightarrow> string" where
  "v4_str w = join_with ''.'' (map (\<lambda>b. dec_str (unat b)) (v4_octets w))"

text \<open>The scan for the longest run of zero segments: \<open>(start, len)\<close>, the first one on a tie.\<close>

fun span_loop :: "nat \<Rightarrow> nat \<times> nat \<Rightarrow> nat \<times> nat \<Rightarrow> u16 list \<Rightarrow> nat \<times> nat" where
  "span_loop i cur best [] = best"
| "span_loop i cur best (x # xs) =
     (if x = 0 then
        (let cur' = (if snd cur = 0 then (i, 1) else (fst cur, snd cur + 1));
             best' = (if snd best < snd cur' then cur' else best)
         in span_loop (i + 1) cur' best' xs)
      else span_loop (i + 1) (0, 0) best xs)"

definition zero_span :: "u16 list \<Rightarrow> nat \<times> nat" where
  "zero_span segs = span_loop 0 (0, 0) (0, 0) segs"

definition segs_str :: "u16 list \<Rightarrow> string" where
  "segs_str segs = join_with '':'' (map (\<lambda>s. hex_str (unat s)) segs)"

definition v4_mapped :: "u128 \<Rightarrow> u32 option" where
  "v4_mapped w = (if drop_bit 32 w = 0xffff then Some (ucast w) else None)"

definition v6_str :: "u128 \<Rightarrow> string" where
  "v6_str w =
     (case v4_mapped w of
        Some v4 \<Rightarrow> ''::ffff:'' @ v4_str v4
      | None \<Rightarrow>
          (let segs = v6_segments w; (start, len) = zero_span segs
           in if 1 < len then segs_str (take start segs) @ ''::'' @ segs_str (drop (start + len) segs)
              else segs_str segs))"

fun ip_str :: "ip_addr \<Rightarrow> string" where
  "ip_str (V4 w) = v4_str w"
| "ip_str (V6 w) = v6_str w"

fun is_v4 :: "ip_addr \<Rightarrow> bool" where
  "is_v4 (V4 _) = True"
| "is_v4 (V6 _) = False"

section \<open>Display is injective\<close>

lemma v4_octets_inject: "v4_octets a = v4_octets b \<longleftrightarrow> a = b"
proof
  assume eq: "v4_octets a = v4_octets b"
  have oct: "\<forall>i \<in> set [24, 16, 8, 0]. ucast (drop_bit i a) = (ucast (drop_bit i b) :: u8)"
    using eq unfolding v4_octets_def by (simp only: map_eq_conv)
  show "a = b"
  proof (rule bit_word_eqI)
    fix n assume n: "n < LENGTH(32)"
    let ?i = "n div 8 * 8"
    have "n div 8 = 0 \<or> n div 8 = 1 \<or> n div 8 = 2 \<or> n div 8 = 3" using n by simp arith
    then have "?i \<in> set [24, 16, 8, 0]" by (elim disjE) simp_all
    from bspec [OF oct this] have "bit (ucast (drop_bit ?i a) :: u8) (n mod 8) =
        bit (ucast (drop_bit ?i b) :: u8) (n mod 8)" by simp
    then show "bit a n = bit b n" by (simp add: bit_simps)
  qed
qed simp

lemma v6_segments_inject: "v6_segments a = v6_segments b \<longleftrightarrow> a = b"
proof
  assume eq: "v6_segments a = v6_segments b"
  have seg: "\<forall>i \<in> set [112, 96, 80, 64, 48, 32, 16, 0].
      ucast (drop_bit i a) = (ucast (drop_bit i b) :: u16)"
    using eq unfolding v6_segments_def by (simp only: map_eq_conv)
  show "a = b"
  proof (rule bit_word_eqI)
    fix n assume n: "n < LENGTH(128)"
    let ?i = "n div 16 * 16"
    have "n div 16 = 0 \<or> n div 16 = 1 \<or> n div 16 = 2 \<or> n div 16 = 3 \<or>
        n div 16 = 4 \<or> n div 16 = 5 \<or> n div 16 = 6 \<or> n div 16 = 7" using n by simp arith
    then have "?i \<in> set [112, 96, 80, 64, 48, 32, 16, 0]" by (elim disjE) simp_all
    from bspec [OF seg this] have "bit (ucast (drop_bit ?i a) :: u16) (n mod 16) =
        bit (ucast (drop_bit ?i b) :: u16) (n mod 16)" by simp
    then show "bit a n = bit b n" by (simp add: bit_simps)
  qed
qed simp

lemma v4_str_inject: "v4_str a = v4_str b \<longleftrightarrow> a = b"
proof
  assume eq: "v4_str a = v4_str b"
  let ?p = "\<lambda>w. map (\<lambda>b. dec_str (unat b)) (v4_octets w)"
  have "?p a = ?p b"
    using eq unfolding v4_str_def
    by (rule join_with_inject) (auto simp: v4_octets_def radix_str_no_punct)
  then have "v4_octets a = v4_octets b"
    by (rule list.inj_map_strong [rotated]) (simp add: radix_str_inject word_unat_eq_iff)
  then show "a = b" by (simp add: v4_octets_inject)
qed simp

lemma v4_str_chars: "CHR '':'' \<notin> set (v4_str w)" "CHR ''.'' \<in> set (v4_str w)"
  by (auto simp: v4_str_def v4_octets_def radix_str_no_punct)

lemma segs_str_chars: "CHR ''.'' \<notin> set (segs_str segs)"
  using set_join_with [of "'':''" "map (\<lambda>s. hex_str (unat s)) segs"]
  by (auto simp: segs_str_def radix_str_no_punct)


text \<open>The zero run the scan reports really is one, inside the list.\<close>

definition zero_run :: "u16 list \<Rightarrow> nat \<times> nat \<Rightarrow> bool" where
  "zero_run segs r \<longleftrightarrow>
     fst r + snd r \<le> length segs \<and> (\<forall>k < snd r. segs ! (fst r + k) = 0)"

lemma span_loop_zero_run:
  assumes "zero_run (pre @ xs) best" "zero_run (pre @ xs) cur"
    and "snd cur \<noteq> 0 \<longrightarrow> fst cur + snd cur = length pre" "fst cur + snd cur \<le> length pre"
  shows "zero_run (pre @ xs) (span_loop (length pre) cur best xs)"
  using assms
proof (induction xs arbitrary: pre cur best)
  case (Cons x xs)
  show ?case
  proof (cases "x = 0")
    case False
    with Cons.IH [of "pre @ [x]" best "(0, 0)"] Cons.prems show ?thesis
      by (simp add: zero_run_def)
  next
    case True
    let ?cur = "if snd cur = 0 then (length pre, 1) else (fst cur, snd cur + 1)"
    have "zero_run (pre @ x # xs) ?cur"
      using Cons.prems(2,3) True by (auto simp: zero_run_def nth_append less_Suc_eq)
    with Cons.IH [of "pre @ [x]" "if snd best < snd ?cur then ?cur else best" ?cur] Cons.prems True
    show ?thesis by (simp add: Let_def split: if_splits)
  qed
qed simp

lemma zero_span_split:
  assumes "zero_span segs = (s, l)"
  shows "segs = take s segs @ replicate l 0 @ drop (s + l) segs" "s + l \<le> length segs"
proof -
  have run: "zero_run segs (s, l)"
    using span_loop_zero_run [of "[]" segs "(0, 0)" "(0, 0)"] assms
    by (simp add: zero_span_def zero_run_def)
  then show "s + l \<le> length segs" by (simp add: zero_run_def)
  have "take l (drop s segs) = replicate l 0"
    using run by (intro nth_equalityI) (auto simp: zero_run_def)
  then show "segs = take s segs @ replicate l 0 @ drop (s + l) segs"
    by (metis append_take_drop_id drop_drop add.commute)
qed

text \<open>What splitting a printed IPv6 address at the colons gives back: the segments before and
  after the compressed run are the longest non-empty prefix and suffix of the pieces.\<close>

definition hexs :: "u16 list \<Rightarrow> string list" where
  "hexs segs = map (\<lambda>s. hex_str (unat s)) segs"

lemma hexs_no_colon: "\<forall>p \<in> set (hexs segs). CHR '':'' \<notin> set p"
  by (auto simp: hexs_def radix_str_no_punct)

lemma hexs_nonempty: "\<forall>p \<in> set (hexs segs). p \<noteq> []"
  by (auto simp: hexs_def)

lemma hexs_inject: "hexs a = hexs b \<longleftrightarrow> a = b"
proof
  assume "hexs a = hexs b"
  then show "a = b" unfolding hexs_def
    by (rule list.inj_map_strong [rotated]) (simp add: radix_str_inject word_unat_eq_iff)
qed simp

lemma segs_str_split:
  "split_on CHR '':'' (segs_str segs) = (if segs = [] then [[]] else hexs segs)"
  using split_on_join [of "hexs segs" "CHR '':''"] hexs_no_colon [of segs]
  by (auto simp: segs_str_def hexs_def)

lemma split_on_append:
  "split_on c (a @ c # b) = split_on c a @ split_on c b"
  by (induction a) (auto split: list.splits)

lemma compressed_split:
  "split_on CHR '':'' (segs_str xs @ ''::'' @ segs_str ys) =
     (if xs = [] then [[]] else hexs xs) @ [] # (if ys = [] then [[]] else hexs ys)"
  by (simp add: split_on_append segs_str_split)

abbreviation nonempty_prefix :: "string list \<Rightarrow> string list" where
  "nonempty_prefix ps \<equiv> takeWhile (\<lambda>p. p \<noteq> []) ps"

lemma compressed_parts:
  fixes xs ys :: "u16 list"
  defines "ps \<equiv> split_on CHR '':'' (segs_str xs @ ''::'' @ segs_str ys)"
  shows "nonempty_prefix ps = hexs xs" "nonempty_prefix (rev ps) = rev (hexs ys)" "[] \<in> set ps"
  using hexs_nonempty [of xs] hexs_nonempty [of ys] unfolding ps_def compressed_split
  by (auto simp: takeWhile_append hexs_def)

lemma compressed_inject:
  assumes "segs_str xs @ ''::'' @ segs_str ys = segs_str xs' @ ''::'' @ segs_str ys'"
  shows "xs = xs' \<and> ys = ys'"
  using assms compressed_parts(1,2) [of xs ys] compressed_parts(1,2) [of xs' ys']
  by (simp add: hexs_inject del: append.simps)

lemma compressed_not_plain:
  assumes "segs \<noteq> []" shows "segs_str xs @ ''::'' @ segs_str ys \<noteq> segs_str segs"
proof
  assume "segs_str xs @ ''::'' @ segs_str ys = segs_str segs"
  then show False
    using compressed_parts(3) [of xs ys] hexs_nonempty [of segs] assms by (auto simp: segs_str_split)
qed

lemma segs_str_inject:
  "a \<noteq> [] \<Longrightarrow> b \<noteq> [] \<Longrightarrow> segs_str a = segs_str b \<longleftrightarrow> a = b"
  by (metis segs_str_split hexs_inject)

lemma v4_mapped_inject: "v4_mapped a = Some v \<Longrightarrow> v4_mapped b = Some v \<Longrightarrow> a = b"
proof (rule bit_word_eqI)
  fix n assume a: "v4_mapped a = Some v" "v4_mapped b = Some v" and n: "n < LENGTH(128)"
  have "drop_bit 32 a = drop_bit 32 b" "ucast a = (ucast b :: u32)"
    using a by (auto simp: v4_mapped_def split: if_splits)
  then have "bit (drop_bit 32 a) (n - 32) = bit (drop_bit 32 b) (n - 32)"
    "bit (ucast a :: u32) n = bit (ucast b :: u32) n" by simp_all
  then show "bit a n = bit b n" by (cases "n < 32") (auto simp: bit_simps)
qed

lemma v6_segments_length [simp]: "length (v6_segments w) = 8"
  by (simp add: v6_segments_def)

lemma v6_segments_ne [simp]: "v6_segments w \<noteq> []"
  by (simp add: v6_segments_def)

text \<open>The three shapes a printed IPv6 address can have.\<close>

lemma v6_str_cases:
  obtains (mapped) v where "v4_mapped w = Some v" "v6_str w = ''::ffff:'' @ v4_str v"
  | (compressed) s l where "v4_mapped w = None" "zero_span (v6_segments w) = (s, l)"
      "v6_str w = segs_str (take s (v6_segments w)) @ ''::'' @ segs_str (drop (s + l) (v6_segments w))"
  | (plain) "v4_mapped w = None" "v6_str w = segs_str (v6_segments w)"
  by (cases "v4_mapped w"; cases "zero_span (v6_segments w)"; cases "1 < snd (zero_span (v6_segments w))")
    (simp_all add: v6_str_def Let_def)

lemma v6_str_dot: "CHR ''.'' \<in> set (v6_str w) \<longleftrightarrow> v4_mapped w \<noteq> None"
  by (cases w rule: v6_str_cases) (auto simp: segs_str_chars v4_str_chars)

lemma v6_str_colon: "CHR '':'' \<in> set (v6_str w)"
proof (cases w rule: v6_str_cases)
  case plain
  have "split_on CHR '':'' (segs_str (v6_segments w)) \<noteq> [segs_str (v6_segments w)]"
    using arg_cong [of _ _ length] by (fastforce simp: segs_str_split hexs_def v6_segments_def)
  then show ?thesis using plain split_on_no_sep by metis
qed auto

lemma compressed_determines:
  assumes "zero_span a = (s, l)" "zero_span b = (s', l')" "length a = length b"
    and "take s a = take s' b" "drop (s + l) a = drop (s' + l') b"
  shows "a = b"
proof -
  have "s = s'" using arg_cong [OF assms(4), of length] zero_span_split(2) [OF assms(1)]
      zero_span_split(2) [OF assms(2)] assms(3) by simp
  moreover have "s + l = s' + l'" using arg_cong [OF assms(5), of length] zero_span_split(2) [OF assms(1)]
      zero_span_split(2) [OF assms(2)] assms(3) by simp
  ultimately show ?thesis
    using zero_span_split(1) [OF assms(1)] zero_span_split(1) [OF assms(2)] assms(4,5)
    by (metis add_left_cancel)
qed

lemma v6_str_inject: "v6_str a = v6_str b \<longleftrightarrow> a = b"
proof
  assume eq: "v6_str a = v6_str b"
  then have m: "v4_mapped a = None \<longleftrightarrow> v4_mapped b = None" by (metis v6_str_dot)
  show "a = b"
  proof (cases a rule: v6_str_cases)
    case (mapped v)
    with m eq show ?thesis
      by (cases b rule: v6_str_cases) (auto simp: v4_str_inject intro: v4_mapped_inject)
  next
    case ca: (compressed s l)
    show ?thesis
    proof (cases b rule: v6_str_cases)
      case cb: (compressed s' l')
      have "take s (v6_segments a) = take s' (v6_segments b) \<and>
          drop (s + l) (v6_segments a) = drop (s' + l') (v6_segments b)"
        by (rule compressed_inject) (use eq ca(3) cb(3) in simp)
      then have "v6_segments a = v6_segments b"
        using compressed_determines [OF ca(2) cb(2)] by simp
      then show ?thesis by (simp add: v6_segments_inject)
    next
      case plain
      with ca eq show ?thesis by (metis compressed_not_plain v6_segments_ne)
    qed (use ca m in auto)
  next
    case plain
    show ?thesis
    proof (cases b rule: v6_str_cases)
      case (compressed s l)
      with plain eq show ?thesis by (metis compressed_not_plain v6_segments_ne)
    next
      case p: plain
      with plain eq show ?thesis by (simp add: segs_str_inject v6_segments_inject)
    qed (use plain m in auto)
  qed
qed simp

lemma ip_str_inject [simp]: "ip_str a = ip_str b \<longleftrightarrow> a = b"
  by (cases a; cases b)
    (auto simp: v4_str_inject v6_str_inject, (metis v4_str_chars(1) v6_str_colon)+)

lemma inj_ip_str: "inj_on ip_str A"
  by (simp add: inj_on_def)

section \<open>Networks: the ipnet crate\<close>

text \<open>\<open>IpNet\<close>: an address with its prefix length (host bits are kept).\<close>

datatype ip_net = NetV4 u32 nat | NetV6 u128 nat

fun net_addr :: "ip_net \<Rightarrow> ip_addr" where
  "net_addr (NetV4 a _) = V4 a"
| "net_addr (NetV6 a _) = V6 a"

fun prefix_len :: "ip_net \<Rightarrow> nat" where
  "prefix_len (NetV4 _ p) = p"
| "prefix_len (NetV6 _ p) = p"

fun max_prefix_len :: "ip_net \<Rightarrow> nat" where
  "max_prefix_len (NetV4 _ _) = 32"
| "max_prefix_len (NetV6 _ _) = 128"

text \<open>The crate's constructors refuse a prefix longer than the address.\<close>

definition net_wf :: "ip_net \<Rightarrow> bool" where
  "net_wf n \<longleftrightarrow> prefix_len n \<le> max_prefix_len n"

abbreviation host_bits :: "ip_net \<Rightarrow> nat" where
  "host_bits n \<equiv> max_prefix_len n - prefix_len n"

record ipnet_lib =
  lib_network :: "ip_net \<Rightarrow> ip_addr"
  lib_contains :: "ip_net \<Rightarrow> ip_addr \<Rightarrow> bool"
  lib_net_str :: "ip_net \<Rightarrow> string"

text \<open>The documented behaviour of \<open>network\<close> (the address with its host bits cleared) and of
  \<open>contains\<close> (same family and same network bits), for well-formed networks.\<close>

definition ipnet_docs :: "ipnet_lib \<Rightarrow> bool" where
  "ipnet_docs L \<longleftrightarrow>
     (\<forall>a p. p \<le> 32 \<longrightarrow>
        lib_network L (NetV4 a p) = V4 (of_nat (unat a div 2 ^ (32 - p) * 2 ^ (32 - p))) \<and>
        (\<forall>b. lib_contains L (NetV4 a p) (V4 b) \<longleftrightarrow>
              unat b div 2 ^ (32 - p) = unat a div 2 ^ (32 - p)) \<and>
        (\<forall>b. \<not> lib_contains L (NetV4 a p) (V6 b))) \<and>
     (\<forall>a p. p \<le> 128 \<longrightarrow>
        lib_network L (NetV6 a p) = V6 (of_nat (unat a div 2 ^ (128 - p) * 2 ^ (128 - p))) \<and>
        (\<forall>b. lib_contains L (NetV6 a p) (V6 b) \<longleftrightarrow>
              unat b div 2 ^ (128 - p) = unat a div 2 ^ (128 - p)) \<and>
        (\<forall>b. \<not> lib_contains L (NetV6 a p) (V4 b)))"

fun ref_network :: "ip_net \<Rightarrow> ip_addr" where
  "ref_network (NetV4 a p) = V4 (of_nat (unat a div 2 ^ (32 - p) * 2 ^ (32 - p)))"
| "ref_network (NetV6 a p) = V6 (of_nat (unat a div 2 ^ (128 - p) * 2 ^ (128 - p)))"

fun ref_contains :: "ip_net \<Rightarrow> ip_addr \<Rightarrow> bool" where
  "ref_contains (NetV4 a p) (V4 b) = (unat b div 2 ^ (32 - p) = unat a div 2 ^ (32 - p))"
| "ref_contains (NetV6 a p) (V6 b) = (unat b div 2 ^ (128 - p) = unat a div 2 ^ (128 - p))"
| "ref_contains _ _ = False"

definition ipnet_ref :: ipnet_lib where
  "ipnet_ref = \<lparr>lib_network = ref_network, lib_contains = ref_contains,
     lib_net_str = (\<lambda>n. ip_str (net_addr n) @ ''/'' @ dec_str (prefix_len n))\<rparr>"

lemma ipnet_docs_ref: "ipnet_docs ipnet_ref"
  by (simp add: ipnet_docs_def ipnet_ref_def)

section \<open>MAC addresses\<close>

text \<open>\<open>MacAddress([u8; 6])\<close>.\<close>

datatype mac_address = MacAddress (mac_bytes: "u8 list")

definition mac_wf :: "mac_address \<Rightarrow> bool" where
  "mac_wf m \<longleftrightarrow> length (mac_bytes m) = 6"

text \<open>\<open>{:02x}\<close> of a byte.\<close>

definition hex2 :: "u8 \<Rightarrow> string" where
  "hex2 b = (if unat b < 16 then CHR ''0'' # hex_str (unat b) else hex_str (unat b))"

definition mac_display :: "mac_address \<Rightarrow> string" where
  "mac_display m = join_with '':'' (map hex2 (mac_bytes m))"

definition byte_of_hex :: "string \<Rightarrow> u8 option" where
  "byte_of_hex s = map_option of_nat (from_str_radix 16 255 s)"

definition mac_parse :: "string \<Rightarrow> mac_address option" where
  "mac_parse s =
     (let parts = List.map_filter byte_of_hex (split_on CHR '':'' s)
      in if length parts = 6 then Some (MacAddress parts) else None)"

definition mac_try_from :: "u8 list \<Rightarrow> (mac_address, nat) result" where
  "mac_try_from b = (if length b \<noteq> 6 then Err (length b) else Ok (MacAddress b))"

text \<open>\<open>generate_rand\<close>, on the six bytes the random source returns.\<close>

definition mac_generate_rand :: "u8 list \<Rightarrow> mac_address" where
  "mac_generate_rand mac = MacAddress (mac[0 := (mac ! 0 OR 0x02) AND 0xfe])"

datatype mac_de_error = BadSegmentLen | BadHexByte | BadByteCount nat

fun collect_bytes :: "string list \<Rightarrow> (u8 list, mac_de_error) result" where
  "collect_bytes [] = Ok []"
| "collect_bytes (p # ps) =
     (if length p \<noteq> 2 then Err BadSegmentLen
      else case byte_of_hex p of None \<Rightarrow> Err BadHexByte
      | Some b \<Rightarrow> (case collect_bytes ps of Err e \<Rightarrow> Err e | Ok bs \<Rightarrow> Ok (b # bs)))"

definition mac_deserialize :: "string \<Rightarrow> (mac_address, mac_de_error) result" where
  "mac_deserialize s =
     (case collect_bytes (split_on CHR '':'' s) of Err e \<Rightarrow> Err e
      | Ok bs \<Rightarrow> if length bs = 6 then Ok (MacAddress bs) else Err (BadByteCount (length bs)))"

lemma hex2_no_colon: "CHR '':'' \<notin> set (hex2 b)"
  by (simp add: hex2_def radix_str_no_punct)

lemma hex_str_two: "16 \<le> n \<Longrightarrow> n < 256 \<Longrightarrow> length (hex_str n) = 2"
  by (subst radix_str.simps, subst radix_str.simps) (simp add: less_mult_imp_div_less)

lemma hex2_length [simp]: "length (hex2 b) = 2"
  using hex_str_two [of "unat b"] unat_bound [of b]
  by (auto simp: hex2_def radix_str.simps [of 16 "unat b"])

lemma byte_of_hex_hex2 [simp]: "byte_of_hex (hex2 b) = Some b"
proof -
  have b: "unat b \<le> 255" using unat_bound [of b] by simp
  have "parse_digits 16 255 0 (CHR ''0'' # hex_str (unat b)) = Some (unat b)"
    using parse_digits_radix_str [of 16 "unat b" 255] b
    by (simp add: char_digit_def)
  then have "from_str_radix 16 255 (hex2 b) = Some (unat b)"
    using from_str_radix_radix_str [of 16 "unat b" 255] b
    by (auto simp: hex2_def from_str_radix_def simp del: parse_digits.simps)
  then show ?thesis by (simp add: byte_of_hex_def)
qed

lemma mac_display_split:
  assumes "mac_wf m" shows "split_on CHR '':'' (mac_display m) = map hex2 (mac_bytes m)"
  unfolding mac_display_def
  by (rule split_on_join) (use assms in \<open>auto simp: mac_wf_def hex2_no_colon\<close>)

lemma map_filter_hex2: "List.map_filter byte_of_hex (map hex2 bs) = bs"
  by (induction bs) (simp_all add: List.map_filter_simps)

lemma collect_bytes_hex2: "collect_bytes (map hex2 bs) = Ok bs"
  by (induction bs) simp_all

lemma mac_parse_display: "mac_wf m \<Longrightarrow> mac_parse (mac_display m) = Some m"
  by (cases m) (simp add: mac_parse_def mac_display_split map_filter_hex2, simp add: mac_wf_def)

lemma mac_deserialize_display: "mac_wf m \<Longrightarrow> mac_deserialize (mac_display m) = Ok m"
  by (cases m) (simp add: mac_deserialize_def mac_display_split collect_bytes_hex2, simp add: mac_wf_def)

lemma mac_parse_wf: "mac_parse s = Some m \<Longrightarrow> mac_wf m"
  by (auto simp: mac_parse_def mac_wf_def Let_def split: if_splits)

section \<open>Properties\<close>

lemma mac_parse_skips_segment:
  assumes "CHR '':'' \<notin> set junk" "byte_of_hex junk = None"
  shows "mac_parse (junk @ '':'' @ s) = mac_parse s"
  using assms by (simp add: mac_parse_def split_on_append_sep List.map_filter_simps)

text \<open>Printing a MAC address and reading it back is the identity for every reader of the
  program: the parser, the deserialiser and the conversion from a byte slice.\<close>

lemma mac_text_roundtrip:
  assumes "mac_wf m"
  shows "mac_parse (mac_display m) = Some m \<and> mac_deserialize (mac_display m) = Ok m \<and>
    mac_try_from (mac_bytes m) = Ok m"
  using assms by (cases m) (simp add: mac_parse_display mac_deserialize_display mac_try_from_def mac_wf_def)

lemma mac_text_roundtrip_witness:
  "mac_parse ''02:00:0a:ff:10:01'' = Some (MacAddress [0x02, 0x00, 0x0a, 0xff, 0x10, 0x01])"
proof -
  have "mac_display (MacAddress [0x02, 0x00, 0x0a, 0xff, 0x10, 0x01]) = ''02:00:0a:ff:10:01''" by code_simp
  then show ?thesis
    using mac_text_roundtrip [of "MacAddress [0x02, 0x00, 0x0a, 0xff, 0x10, 0x01]"] by (simp add: mac_wf_def)
qed

text \<open>\<open>MacAddress::parse\<close> does not reject a text with a segment that is not a byte: it
  drops the segment, so any such segment in front of a printed address is accepted, where the
  deserialiser refuses the same text.\<close>

lemma mac_parse_accepts_junk:
  assumes "mac_wf m" "CHR '':'' \<notin> set junk" "byte_of_hex junk = None"
  shows "mac_parse (junk @ '':'' @ mac_display m) = Some m \<and>
    \<not> is_ok (mac_deserialize (junk @ '':'' @ mac_display m))"
  using assms mac_parse_skips_segment [OF assms(2,3)]
  by (simp add: mac_parse_display mac_deserialize_def split_on_append_sep)

lemma mac_parse_accepts_junk_witness:
  "mac_parse (''zz'' @ '':'' @ mac_display (MacAddress [2, 0, 0, 0, 0, 1])) = Some (MacAddress [2, 0, 0, 0, 0, 1])"
proof -
  have "byte_of_hex ''zz'' = None" by code_simp
  then show ?thesis
    using mac_parse_accepts_junk [of "MacAddress [2, 0, 0, 0, 0, 1]" "''zz''"] by (simp add: mac_wf_def)
qed

end
