(* ===== verification/Resource_Pool.thy ===== *)
theory Resource_Pool
  imports Sarena_Prelude
begin

text \<open>
  The contract the three allocators of Sarena share (bitmap offsets, host-scope addresses and
  endpoint ids): a pool of available items from which \<open>acquire\<close> takes one and to which
  \<open>release\<close> returns one. Where the source leaves the choice of the item to a random number or
  to the iteration order of a hash table, that choice is an argument of \<open>acquire\<close>, and \<open>legal\<close>
  says which choices can occur. The clients' lemmas (successive acquisitions are distinct, a pool
  of \<open>n\<close> items serves exactly \<open>n\<close> requests) are proved here once; each allocator interprets the
  locale in its own theory.
\<close>

text \<open>Serving a list of requests, each with its own choice.\<close>

fun acquire_many :: "('c \<Rightarrow> 's \<Rightarrow> 'a option \<times> 's) \<Rightarrow> 'c list \<Rightarrow> 's \<Rightarrow> 'a option list \<times> 's" where
  "acquire_many acq [] s = ([], s)"
| "acquire_many acq (c # cs) s =
     (case acq c s of (r, s') \<Rightarrow> case acquire_many acq cs s' of (rs, t) \<Rightarrow> (r # rs, t))"

fun legal_many :: "('c \<Rightarrow> 's \<Rightarrow> bool) \<Rightarrow> ('c \<Rightarrow> 's \<Rightarrow> 'a option \<times> 's) \<Rightarrow> 'c list \<Rightarrow> 's \<Rightarrow> bool" where
  "legal_many lg acq [] s = True"
| "legal_many lg acq (c # cs) s = (lg c s \<and> legal_many lg acq cs (snd (acq c s)))"

definition granted :: "'a option list \<Rightarrow> 'a list" where
  "granted rs = List.map_filter (\<lambda>r. r) rs"

lemma granted_simps [simp]:
  "granted [] = []" "granted (Some x # rs) = x # granted rs" "granted (None # rs) = granted rs"
  by (simp_all add: granted_def List.map_filter_simps)

locale resource_pool =
  fixes inv :: "'s \<Rightarrow> bool"
    and avail :: "'s \<Rightarrow> 'a set"
    and legal :: "'c \<Rightarrow> 's \<Rightarrow> bool"
    and acquire :: "'c \<Rightarrow> 's \<Rightarrow> 'a option \<times> 's"
  assumes finite_avail: "inv s \<Longrightarrow> finite (avail s)"
    and acquire_None: "inv s \<Longrightarrow> legal c s \<Longrightarrow> acquire c s = (None, t) \<Longrightarrow> avail s = {} \<and> t = s"
    and acquire_Some: "inv s \<Longrightarrow> legal c s \<Longrightarrow> acquire c s = (Some x, t) \<Longrightarrow>
          x \<in> avail s \<and> avail t = avail s - {x} \<and> inv t"
begin

lemma acquire_grants: "inv s \<Longrightarrow> legal c s \<Longrightarrow> avail s \<noteq> {} \<Longrightarrow> \<exists>x t. acquire c s = (Some x, t)"
  by (metis acquire_None not_None_eq surj_pair)

lemma acquire_many_granted:
  assumes "inv s" "legal_many legal acquire cs s" "acquire_many acquire cs s = (rs, t)"
  shows "distinct (granted rs) \<and> set (granted rs) \<subseteq> avail s \<and>
    avail t = avail s - set (granted rs) \<and> inv t \<and>
    length (granted rs) = min (length cs) (card (avail s))"
  using assms
proof (induction cs arbitrary: s rs)
  case (Cons c cs)
  obtain r s' where a: "acquire c s = (r, s')" by fastforce
  obtain rs' where m: "acquire_many acquire cs s' = (rs', t)" and rs: "rs = r # rs'"
    using Cons.prems(3) a by (auto split: prod.splits)
  have lg: "legal c s" "legal_many legal acquire cs s'" using Cons.prems(2) a by simp_all
  show ?case
  proof (cases r)
    case None
    with a lg Cons.prems have "avail s = {} \<and> s' = s" by (blast dest: acquire_None)
    with Cons.IH [OF _ lg(2) m] Cons.prems(1) show ?thesis unfolding None rs by simp
  next
    case (Some x)
    with a lg Cons.prems have x: "x \<in> avail s" "avail s' = avail s - {x}" "inv s'"
      by (blast dest: acquire_Some)+
    have ih: "distinct (granted rs')" "set (granted rs') \<subseteq> avail s'"
      "avail t = avail s' - set (granted rs')" "inv t"
      "length (granted rs') = min (length cs) (card (avail s'))"
      using Cons.IH [OF x(3) lg(2) m] by auto
    have card: "card (avail s) = Suc (card (avail s'))"
      unfolding x(2) using finite_avail [OF Cons.prems(1)] x(1) by (rule card.remove)
    have len: "length (granted rs) = min (length (c # cs)) (card (avail s))"
      unfolding Some rs card by (simp add: ih(5))
    have "distinct (granted rs)" "set (granted rs) \<subseteq> avail s" "avail t = avail s - set (granted rs)"
      using ih(1,2,3) x(1,2) unfolding Some rs by auto
    with len ih(4) show ?thesis by blast
  qed
qed simp

text \<open>Enough requests hand out every available item exactly once and leave the pool empty.\<close>

lemma acquire_many_exhausts:
  assumes "inv s" "legal_many legal acquire cs s" "acquire_many acquire cs s = (rs, t)"
    and "card (avail s) \<le> length cs"
  shows "distinct (granted rs) \<and> set (granted rs) = avail s \<and> avail t = {}"
proof -
  note g = acquire_many_granted [OF assms(1,2,3)]
  have "card (set (granted rs)) = card (avail s)"
    using g assms(4) by (simp add: distinct_card)
  with g finite_avail [OF assms(1)] have "set (granted rs) = avail s"
    by (metis card_subset_eq)
  with g show ?thesis by auto
qed

end

text \<open>A pool that also takes items back.\<close>

locale recycling_pool = resource_pool inv avail legal acquire
  for inv :: "'s \<Rightarrow> bool" and avail :: "'s \<Rightarrow> 'a set" and legal :: "'c \<Rightarrow> 's \<Rightarrow> bool"
    and acquire :: "'c \<Rightarrow> 's \<Rightarrow> 'a option \<times> 's" +
  fixes owned :: "'s \<Rightarrow> 'a set" and release :: "'a \<Rightarrow> 's \<Rightarrow> 's"
  assumes acquire_owned: "inv s \<Longrightarrow> legal c s \<Longrightarrow> acquire c s = (Some x, t) \<Longrightarrow> x \<in> owned t"
    and release_avail: "inv s \<Longrightarrow> x \<in> owned s \<Longrightarrow> avail (release x s) = insert x (avail s)"
    and release_inv: "inv s \<Longrightarrow> x \<in> owned s \<Longrightarrow> inv (release x s)"
begin

text \<open>Giving an item back undoes taking it.\<close>

lemma acquire_release:
  assumes "inv s" "legal c s" "acquire c s = (Some x, t)"
  shows "avail (release x t) = avail s \<and> inv (release x t)"
  using acquire_Some [OF assms] acquire_owned [OF assms]
  by (auto simp: release_avail release_inv)

text \<open>An exhausted pool that gets one item back serves that item next.\<close>

lemma release_reacquire:
  assumes "inv s" "avail s = {}" "x \<in> owned s" "legal c (release x s)"
  shows "fst (acquire c (release x s)) = Some x"
proof -
  have av: "avail (release x s) = {x}" and i: "inv (release x s)"
    using assms release_avail release_inv by auto
  then obtain y t where "acquire c (release x s) = (Some y, t)"
    using acquire_grants [OF i assms(4)] by auto
  with acquire_Some [OF i assms(4) this] av show ?thesis by auto
qed

end

end
