(* ===== verification/Bitmap.thy ===== *)
theory Bitmap
  imports Resource_Pool
begin

text \<open>
  \<open>AllocationBitmap\<close> of \<open>sarena-services/src/ipam/bitmap.rs\<close>: a vector of 64-bit words with one
  bit per offset and a count of the bits set. The mutex serialises the operations, so each is a
  function from state to state. The random start of \<open>allocate_bit\<close> is an argument.
  \<open>bm_used\<close> is the set of offsets the words represent, \<open>bm_inv\<close> the representation invariant
  (right number of words, no stray bit at or above \<open>max\<close>, \<open>count\<close> equal to the number of bits
  set). Every index into \<open>words\<close> is in range under it (\<open>bm_index\<close>), so no operation panics.
\<close>

record bitmap =
  bm_max :: nat
  bm_words :: "u64 list"
  bm_count :: nat

section \<open>Operations\<close>

definition get_bit :: "u64 list \<Rightarrow> nat \<Rightarrow> bool" where
  "get_bit ws off \<longleftrightarrow> drop_bit (off mod 64) (ws ! (off div 64)) AND 1 = 1"

definition set_bit :: "u64 list \<Rightarrow> nat \<Rightarrow> u64 list" where
  "set_bit ws off = ws[off div 64 := ws ! (off div 64) OR push_bit (off mod 64) 1]"

definition clear_bit :: "u64 list \<Rightarrow> nat \<Rightarrow> u64 list" where
  "clear_bit ws off = ws[off div 64 := ws ! (off div 64) AND NOT (push_bit (off mod 64) 1)]"

definition bm_new :: "nat \<Rightarrow> bitmap" where
  "bm_new mx = \<lparr>bm_max = mx, bm_words = replicate ((mx + 63) div 64) 0, bm_count = 0\<rparr>"

definition bm_allocate :: "bitmap \<Rightarrow> nat \<Rightarrow> bool \<times> bitmap" where
  "bm_allocate b off =
     (if bm_max b \<le> off then (False, b)
      else if get_bit (bm_words b) off then (False, b)
      else (True, b\<lparr>bm_words := set_bit (bm_words b) off, bm_count := bm_count b + 1\<rparr>))"

definition allocate_bit :: "nat \<Rightarrow> u64 list \<Rightarrow> nat \<Rightarrow> nat \<Rightarrow> nat option" where
  "allocate_bit rnd ws mx cnt =
     (if mx \<le> cnt then None
      else List.find (\<lambda>at. \<not> get_bit ws at) (map (\<lambda>i. (rnd + i) mod mx) [0..<mx]))"

definition bm_allocate_next :: "nat \<Rightarrow> bitmap \<Rightarrow> nat option \<times> bitmap" where
  "bm_allocate_next rnd b =
     (case allocate_bit rnd (bm_words b) (bm_max b) (bm_count b) of
        None \<Rightarrow> (None, b)
      | Some next \<Rightarrow>
          (Some next, b\<lparr>bm_words := set_bit (bm_words b) next, bm_count := bm_count b + 1\<rparr>))"

definition bm_release :: "nat \<Rightarrow> bitmap \<Rightarrow> bitmap" where
  "bm_release off b =
     (if bm_max b \<le> off then b
      else if \<not> get_bit (bm_words b) off then b
      else b\<lparr>bm_words := clear_bit (bm_words b) off, bm_count := bm_count b - 1\<rparr>)"

text \<open>The inner loop of \<open>for_each\<close>: the offsets it calls the closure with, in order.\<close>

function word_offsets :: "nat \<Rightarrow> nat \<Rightarrow> u64 \<Rightarrow> nat list" where
  "word_offsets idx i w =
     (if 0 < w then
        (if w AND 1 \<noteq> 0 then [idx * 64 + i] else []) @ word_offsets idx (i + 1) (drop_bit 1 w)
      else [])"
  by pat_completeness auto

lemma drop_bit_1_less: "0 < w \<Longrightarrow> unat (drop_bit (Suc 0) w) < unat w" for w :: u64
  by (simp add: drop_bit_Suc unat_div unat_gt_0 flip: word_neq_0_conv)

termination word_offsets
  by (relation "measure (\<lambda>(idx, i, w). unat w)") (auto simp: drop_bit_1_less)

declare word_offsets.simps [simp del]

definition bm_for_each :: "bitmap \<Rightarrow> nat list" where
  "bm_for_each b = concat (map (\<lambda>(idx, w). word_offsets idx 0 w) (List.enumerate 0 (bm_words b)))"

definition bm_has :: "bitmap \<Rightarrow> nat \<Rightarrow> bool" where
  "bm_has b off \<longleftrightarrow> off < bm_max b \<and> get_bit (bm_words b) off"

definition bm_free :: "bitmap \<Rightarrow> nat" where
  "bm_free b = bm_max b - bm_count b"

section \<open>The set of offsets a bitmap stands for\<close>

definition bm_used :: "bitmap \<Rightarrow> nat set" where
  "bm_used b = {off. off < 64 * length (bm_words b) \<and> get_bit (bm_words b) off}"

definition bm_inv :: "bitmap \<Rightarrow> bool" where
  "bm_inv b \<longleftrightarrow> length (bm_words b) = (bm_max b + 63) div 64 \<and>
     bm_used b \<subseteq> {..<bm_max b} \<and> bm_count b = card (bm_used b)"

definition bm_avail :: "bitmap \<Rightarrow> nat set" where
  "bm_avail b = {..<bm_max b} - bm_used b"

lemma get_bit_bit: "get_bit ws off \<longleftrightarrow> bit (ws ! (off div 64)) (off mod 64)"
  by (simp add: get_bit_def word_bit_and_1 bit_drop_bit_eq)

lemma bm_index: "bm_inv b \<Longrightarrow> off < bm_max b \<Longrightarrow> off div 64 < length (bm_words b)"
  by (simp add: bm_inv_def)

lemma bm_index_64: "bm_inv b \<Longrightarrow> off < bm_max b \<Longrightarrow> off < 64 * length (bm_words b)"
  by (simp add: bm_inv_def)

lemma bm_used_iff: "bm_inv b \<Longrightarrow> off < bm_max b \<Longrightarrow> off \<in> bm_used b \<longleftrightarrow> get_bit (bm_words b) off"
  using bm_index_64 by (auto simp: bm_used_def)

lemma finite_bm_used [simp]: "finite (bm_used b)"
  by (simp add: bm_used_def)

lemma div_mod_64_eq: "(a div 64 = b div 64 \<and> a mod 64 = b mod 64) \<longleftrightarrow> a = (b :: nat)"
  by (metis div_mult_mod_eq)

lemma get_bit_update:
  assumes "off div 64 < length ws" "o' < 64 * length ws"
  shows "get_bit (set_bit ws off) o' \<longleftrightarrow> o' = off \<or> get_bit ws o'"
    and "get_bit (clear_bit ws off) o' \<longleftrightarrow> o' \<noteq> off \<and> get_bit ws o'"
proof -
  have i: "o' div 64 < length ws" using assms(2) by (simp add: less_mult_imp_div_less)
  have same: "o' = off \<longleftrightarrow> off div 64 = o' div 64 \<and> off mod 64 = o' mod 64"
    using div_mod_64_eq [of o' off] by auto
  show "get_bit (set_bit ws off) o' \<longleftrightarrow> o' = off \<or> get_bit ws o'"
    using i unfolding same
    by (cases "off div 64 = o' div 64") (auto simp: get_bit_bit set_bit_def bit_simps)
  show "get_bit (clear_bit ws off) o' \<longleftrightarrow> o' \<noteq> off \<and> get_bit ws o'"
    using i unfolding same
    by (cases "off div 64 = o' div 64") (auto simp: get_bit_bit clear_bit_def bit_simps)
qed

lemma length_set_clear [simp]:
  "length (set_bit ws off) = length ws" "length (clear_bit ws off) = length ws"
  by (simp_all add: set_bit_def clear_bit_def)

lemma used_set_bit:
  assumes "bm_inv b" "off < bm_max b"
  shows "bm_used (b\<lparr>bm_words := set_bit (bm_words b) off, bm_count := n\<rparr>) = insert off (bm_used b)"
  using bm_index [OF assms] bm_index_64 [OF assms] by (auto simp: bm_used_def get_bit_update)

lemma used_clear_bit:
  assumes "bm_inv b" "off < bm_max b"
  shows "bm_used (b\<lparr>bm_words := clear_bit (bm_words b) off, bm_count := n\<rparr>) = bm_used b - {off}"
  using bm_index [OF assms] bm_index_64 [OF assms] by (auto simp: bm_used_def get_bit_update)

section \<open>Every operation in terms of the set\<close>

lemma bm_new_correct [inv_intros]: "bm_inv (bm_new mx)" "bm_used (bm_new mx) = {}" "bm_max (bm_new mx) = mx"
proof -
  show "bm_used (bm_new mx) = {}"
    by (auto simp: bm_used_def bm_new_def get_bit_bit less_mult_imp_div_less)
  then show "bm_inv (bm_new mx)" by (simp add: bm_inv_def) (simp add: bm_new_def)
qed (simp add: bm_new_def)

lemma bm_inv_set_bit:
  assumes "bm_inv b" "off < bm_max b" "off \<notin> bm_used b"
  shows "bm_inv (b\<lparr>bm_words := set_bit (bm_words b) off, bm_count := bm_count b + 1\<rparr>)"
  using assms used_set_bit [OF assms(1,2)] by (simp add: bm_inv_def)

lemma bm_inv_clear_bit:
  assumes "bm_inv b" "off < bm_max b" "off \<in> bm_used b"
  shows "bm_inv (b\<lparr>bm_words := clear_bit (bm_words b) off, bm_count := bm_count b - 1\<rparr>)"
  using assms used_clear_bit [OF assms(1,2)] by (auto simp: bm_inv_def card_Diff_singleton)

lemma bm_allocate_correct:
  assumes "bm_inv b" "bm_allocate b off = (ok, b')"
  shows "ok \<longleftrightarrow> off < bm_max b \<and> off \<notin> bm_used b"
    and "bm_used b' = (if ok then insert off (bm_used b) else bm_used b)"
    and "bm_inv b'" and "bm_max b' = bm_max b"
  using assms bm_used_iff [OF assms(1), of off] used_set_bit [OF assms(1), of off]
    bm_inv_set_bit [OF assms(1), of off]
  by (auto simp: bm_allocate_def split: if_splits)

lemma bm_release_correct:
  assumes "bm_inv b"
  shows "bm_used (bm_release off b) = bm_used b - {off}"
    and "bm_inv (bm_release off b)" and "bm_max (bm_release off b) = bm_max b"
  using assms bm_used_iff [OF assms, of off] used_clear_bit [OF assms, of off]
    bm_inv_clear_bit [OF assms, of off]
  by (auto simp: bm_release_def bm_inv_def not_le)

text \<open>The scan starts anywhere and still meets every offset below \<open>max\<close>.\<close>

lemma rotated_range:
  assumes "0 < m" shows "(\<lambda>i. (r + i) mod m) ` {0..<m} = {..<m :: nat}"
proof
  show "{..<m} \<subseteq> (\<lambda>i. (r + i) mod m) ` {0..<m}"
  proof
    fix j assume "j \<in> {..<m}"
    then have "j < m" by simp
    have "(r + (j + (m - r mod m)) mod m) mod m = (r mod m + (j + (m - r mod m))) mod m"
      by (simp add: mod_simps)
    also have "r mod m + (j + (m - r mod m)) = j + m"
      using mod_less_divisor [OF assms, of r] by simp
    finally have "(r + (j + (m - r mod m)) mod m) mod m = j" using \<open>j < m\<close> by simp
    then show "j \<in> (\<lambda>i. (r + i) mod m) ` {0..<m}"
      using assms by (intro image_eqI [of _ _ "(j + (m - r mod m)) mod m"]) auto
  qed
qed (use assms in auto)

lemma allocate_bit_correct:
  assumes "bm_inv b"
  shows "case allocate_bit r (bm_words b) (bm_max b) (bm_count b) of
      None \<Rightarrow> bm_avail b = {} | Some off \<Rightarrow> off \<in> bm_avail b"
proof -
  let ?cand = "map (\<lambda>i. (r + i) mod bm_max b) [0..<bm_max b]"
  have sub: "bm_used b \<subseteq> {..<bm_max b}" and cnt: "bm_count b = card (bm_used b)"
    using assms by (simp_all add: bm_inv_def)
  have full: "bm_avail b = {} \<longleftrightarrow> bm_max b \<le> bm_count b"
    unfolding bm_avail_def cnt using sub
    by (metis card_lessThan card_mono card_seteq Diff_eq_empty_iff finite_bm_used finite_lessThan)
  have "List.find (\<lambda>at. \<not> get_bit (bm_words b) at) ?cand \<noteq> None" if "bm_count b < bm_max b"
  proof -
    from that full obtain off where off: "off < bm_max b" "off \<notin> bm_used b"
      by (auto simp: bm_avail_def)
    then have "off \<in> set ?cand" using rotated_range [of "bm_max b" r] that by simp
    with off show ?thesis
      using find_Some_ex [of off ?cand "\<lambda>at. \<not> get_bit (bm_words b) at"] bm_used_iff [OF assms off(1)]
      by auto
  qed
  moreover have "off \<in> bm_avail b" if "List.find (\<lambda>at. \<not> get_bit (bm_words b) at) ?cand = Some off" for off
    using find_SomeD [OF that] bm_used_iff [OF assms] by (auto simp: bm_avail_def)
  ultimately show ?thesis
    using full by (auto simp: allocate_bit_def not_le split: option.splits)
qed

lemma bm_allocate_next_correct:
  assumes "bm_inv b" "bm_allocate_next r b = (res, b')"
  shows "(case res of None \<Rightarrow> bm_avail b = {} \<and> b' = b
      | Some off \<Rightarrow> off \<in> bm_avail b \<and> bm_used b' = insert off (bm_used b) \<and> bm_inv b' \<and>
          bm_max b' = bm_max b)"
  using assms allocate_bit_correct [OF assms(1), of r] used_set_bit [OF assms(1)] bm_inv_set_bit [OF assms(1)]
  by (auto simp: bm_allocate_next_def bm_avail_def split: option.splits)

interpretation bm_pool: recycling_pool bm_inv bm_avail "\<lambda>r b. True" bm_allocate_next bm_used bm_release
proof (unfold_locales, goal_cases)
  case (1 s)
  then show ?case by (simp add: bm_avail_def)
next
  case (2 s c t)
  then show ?case using bm_allocate_next_correct [OF 2(1,3)] by simp
next
  case (3 s c x t)
  then show ?case using bm_allocate_next_correct [OF 3(1,3)] by (auto simp: bm_avail_def)
next
  case (4 s c x t)
  then show ?case using bm_allocate_next_correct [OF 4(1,3)] by simp
next
  case (5 s x)
  then show ?case using bm_release_correct [OF 5(1), of x] by (auto simp: bm_avail_def bm_inv_def)
next
  case (6 s x)
  then show ?case by (simp add: bm_release_correct)
qed

section \<open>Iteration\<close>

lemma filter_bit_shift:
  fixes w :: u64
  shows "filter (bit w) [0..<64] =
    (if bit w 0 then [0] else []) @ map Suc (filter (bit (drop_bit 1 w)) [0..<64])"
proof -
  have 64: "[0..<64] = 0 # map Suc [0..<63]"
    by (simp add: map_Suc_upt upt_conv_Cons)
  have "filter (bit (drop_bit 1 w)) [0..<64] = filter (bit (drop_bit 1 w)) [0..<63]"
    using upt_add_eq_append [of 0 63 1] bit_imp_le_length [of w 64] by (auto simp: bit_simps)
  then show ?thesis unfolding 64
    by (simp add: filter_map comp_def bit_simps flip: Suc_eq_plus1)
qed

lemma word_offsets_eq:
  "word_offsets idx i w = map (\<lambda>k. idx * 64 + i + k) (filter (bit w) [0..<64])"
proof (induction idx i w rule: word_offsets.induct)
  case (1 idx i w)
  show ?case
  proof (cases "w = 0")
    case True
    then show ?thesis by (simp add: word_offsets.simps)
  next
    case False
    have "w AND 1 \<noteq> 0 \<longleftrightarrow> bit w 0" by (simp add: and_one_eq bit_0 odd_iff_mod_2_eq_one)
    with 1 False show ?thesis
      by (subst word_offsets.simps, subst filter_bit_shift) (simp add: word_neq_0_conv comp_def)
  qed
qed

lemma for_each_words:
  "concat (map (\<lambda>(idx, w). word_offsets idx 0 w) (List.enumerate 0 ws)) =
     filter (get_bit ws) [0..<64 * length ws]"
proof (induction ws rule: rev_induct)
  case (snoc w ws)
  let ?n = "length ws"
  have "[64 * ?n..<64 * ?n + 64] = map (\<lambda>k. ?n * 64 + k) [0..<64]"
    by (simp add: map_add_upt add.commute mult.commute)
  moreover have "filter (get_bit (ws @ [w])) (map (\<lambda>k. ?n * 64 + k) [0..<64]) = word_offsets ?n 0 w"
    by (auto simp: word_offsets_eq filter_map comp_def get_bit_bit nth_append intro!: filter_cong)
  moreover have "filter (get_bit (ws @ [w])) [0..<64 * ?n] = filter (get_bit ws) [0..<64 * ?n]"
    by (rule filter_cong) (auto simp: get_bit_bit nth_append less_mult_imp_div_less)
  ultimately show ?case
    using snoc.IH
    by (simp add: enumerate_append_eq upt_add_eq_append [of 0 "64 * ?n" 64] add.commute [of 64])
qed simp

lemma bm_for_each_sorted: "bm_for_each b = sorted_list_of_set (bm_used b)"
proof (rule sorted_distinct_set_unique)
  show "set (bm_for_each b) = set (sorted_list_of_set (bm_used b))"
    by (auto simp: bm_for_each_def for_each_words bm_used_def)
qed (simp_all add: bm_for_each_def for_each_words sorted_wrt_filter)

section \<open>Refinement of a set of offsets\<close>

text \<open>The abstract allocator is a subset of \<open>{0..<mx}\<close>; its \<open>SNext\<close> may pick any free offset.\<close>

datatype bm_op = SAllocate nat | SNext nat | SRelease nat

fun bm_step :: "bm_op \<Rightarrow> bitmap \<Rightarrow> nat option \<times> bitmap" where
  "bm_step (SAllocate off) b = (case bm_allocate b off of (ok, b') \<Rightarrow> (if ok then Some off else None, b'))"
| "bm_step (SNext rnd) b = bm_allocate_next rnd b"
| "bm_step (SRelease off) b = (None, bm_release off b)"

fun set_step :: "nat \<Rightarrow> bm_op \<Rightarrow> nat set \<Rightarrow> nat option \<Rightarrow> nat set \<Rightarrow> bool" where
  "set_step mx (SAllocate off) S res T =
     (if off < mx \<and> off \<notin> S then res = Some off \<and> T = insert off S else res = None \<and> T = S)"
| "set_step mx (SNext _) S res T =
     (case res of None \<Rightarrow> {..<mx} \<subseteq> S \<and> T = S
      | Some off \<Rightarrow> off < mx \<and> off \<notin> S \<and> T = insert off S)"
| "set_step mx (SRelease off) S res T = (res = None \<and> T = S - {off})"

fun bm_run :: "bm_op list \<Rightarrow> bitmap \<Rightarrow> nat option list \<times> bitmap" where
  "bm_run [] b = ([], b)"
| "bm_run (c # cs) b =
     (case bm_step c b of (r, b1) \<Rightarrow> case bm_run cs b1 of (rs, b2) \<Rightarrow> (r # rs, b2))"

fun set_run :: "nat \<Rightarrow> bm_op list \<Rightarrow> nat set \<Rightarrow> nat option list \<Rightarrow> nat set \<Rightarrow> bool" where
  "set_run mx [] S rs T = (rs = [] \<and> T = S)"
| "set_run mx (c # cs) S rs T =
     (\<exists>r rs' S'. rs = r # rs' \<and> set_step mx c S r S' \<and> set_run mx cs S' rs' T)"

lemma bm_step_refines:
  assumes "bm_inv b" "bm_step c b = (r, b')"
  shows "set_step (bm_max b) c (bm_used b) r (bm_used b')" "bm_inv b'" "bm_max b' = bm_max b"
proof -
  have "set_step (bm_max b) c (bm_used b) r (bm_used b') \<and> bm_inv b' \<and> bm_max b' = bm_max b"
  proof (cases c)
    case (SAllocate off)
    obtain ok b1 where a: "bm_allocate b off = (ok, b1)" by fastforce
    with assms(2) SAllocate show ?thesis
      using bm_allocate_correct [OF assms(1) a] by (auto split: if_splits)
  next
    case (SNext rnd)
    with assms show ?thesis
      using bm_allocate_next_correct [OF assms(1), of rnd r b']
      by (auto simp: bm_avail_def split: option.splits)
  next
    case (SRelease off)
    with assms show ?thesis using bm_release_correct [OF assms(1), of off] by auto
  qed
  then show "set_step (bm_max b) c (bm_used b) r (bm_used b')" "bm_inv b'" "bm_max b' = bm_max b" by blast+
qed

lemma bm_run_refines:
  "bm_inv b \<Longrightarrow> bm_run cs b = (rs, b') \<Longrightarrow>
     set_run (bm_max b) cs (bm_used b) rs (bm_used b') \<and> bm_inv b' \<and> bm_max b' = bm_max b"
proof (induction cs arbitrary: b rs)
  case (Cons c cs)
  obtain r b1 where s: "bm_step c b = (r, b1)" by fastforce
  obtain rs' where r: "bm_run cs b1 = (rs', b')" "rs = r # rs'"
    using Cons.prems(2) s by (auto split: prod.splits)
  note step = bm_step_refines [OF Cons.prems(1) s]
  show ?case using Cons.IH [OF step(2) r(1)] step r(2) by auto
qed auto

section \<open>Properties\<close>

text \<open>C13: the word-packed bitmap implements a set of offsets below \<open>max\<close>. Every sequence of
  operations on a fresh bitmap returns what the set returns (for \<open>allocate_next\<close>: some free
  offset, and none exactly when all are taken), \<open>has\<close> is membership, \<open>free\<close> counts the rest, and
  \<open>for_each\<close> visits the members once each in increasing order.\<close>

theorem bitmap_implements_set:
  "case bm_run cs (bm_new mx) of (rs, b) \<Rightarrow>
     set_run mx cs {} rs (bm_used b) \<and> bm_used b \<subseteq> {..<mx} \<and> (bm_has b off \<longleftrightarrow> off \<in> bm_used b) \<and>
     bm_free b = mx - card (bm_used b) \<and> bm_for_each b = sorted_list_of_set (bm_used b)"
proof -
  obtain rs b where r: "bm_run cs (bm_new mx) = (rs, b)" by fastforce
  have ref: "set_run mx cs {} rs (bm_used b)" "bm_inv b" "bm_max b = mx"
    using bm_run_refines [OF bm_new_correct(1) r] by (simp_all add: bm_new_correct)
  then have "bm_used b \<subseteq> {..<mx}" "bm_free b = mx - card (bm_used b)"
    by (simp_all add: bm_inv_def bm_free_def)
  moreover have "bm_has b off \<longleftrightarrow> off \<in> bm_used b"
    using ref(2) bm_used_iff [OF ref(2)] by (auto simp: bm_has_def bm_inv_def)
  ultimately show ?thesis using ref(1) by (simp add: r bm_for_each_sorted)
qed

end
