(* ===== verification/Host_Scope.thy ===== *)
theory Host_Scope
  imports Net_Types Bitmap "HOL-Library.AList"
begin

text \<open>
  \<open>HostScopeAllocator\<close> of \<open>sarena-services/src/ipam/host_scope.rs\<close>: an \<open>AllocationBitmap\<close> over
  the usable addresses of one CIDR. \<open>hs_contains\<close> and \<open>offset_to_ip\<close> translate between addresses
  and bitmap offsets; the central lemma \<open>hs_contains_iff\<close> says they are inverse bijections between
  the offsets below \<open>max\<close> and the usable addresses, so the 128-bit arithmetic never wraps and the
  truncation to 32 bits never loses a bit. A \<open>HashMap\<close> is an association list (its order is
  irrelevant); \<open>count_ips_in_cidr\<close> is \<open>None\<close> where the source's shift or subtraction overflows.
\<close>

datatype ipam_error =
    Ipv4Disabled
  | Ipv6Disabled
  | ExcludedError string string
  | PoolRequiredForAllocate string string
  | PoolRequiredForRelease string
  | RangeFull
  | AlreadyAllocated
  | MismatchedNetwork
  | NotInRange string
  | PoolDeterminationUnavailable string

definition POOL_DEFAULT :: string where
  "POOL_DEFAULT = ''default''"

record host_scope =
  hs_net :: ip_net
  hs_base :: u128
  hs_max :: nat
  hs_alloc :: bitmap

section \<open>Operations\<close>

fun ip_to_u128 :: "ip_addr \<Rightarrow> u128" where
  "ip_to_u128 (V4 v4) = ucast v4"
| "ip_to_u128 (V6 v6) = v6"

definition offset_to_ip :: "u128 \<Rightarrow> nat \<Rightarrow> ip_net \<Rightarrow> ip_addr" where
  "offset_to_ip base off net =
     (let value = base + of_nat off
      in case net of NetV4 _ _ \<Rightarrow> V4 (ucast value) | NetV6 _ _ \<Rightarrow> V6 value)"

definition count_ips_in_cidr :: "ip_net \<Rightarrow> nat option" where
  "count_ips_in_cidr n =
     (let ones = prefix_len n; bits = max_prefix_len n
      in if ones = bits then Some 0
         else if 128 \<le> bits - ones then None else Some (2 ^ (bits - ones) - 2))"

definition hs_size :: "ip_net \<Rightarrow> nat" where
  "hs_size n =
     (let ones = prefix_len n; bits = max_prefix_len n; hbits = bits - ones
      in if (bits = 32 \<and> 31 \<le> hbits) \<or> (bits = 128 \<and> 127 \<le> hbits) then 0
         else if bits = 128 \<and> 16 \<le> hbits then 2 ^ 16 else 2 ^ hbits)"

definition hs_new :: "ipnet_lib \<Rightarrow> ip_net \<Rightarrow> host_scope" where
  "hs_new L cidr =
     (let base = ip_to_u128 (lib_network L cidr);
          size = hs_size cidr;
          mx = (if 2 < size then size - 2 else size);
          base = (if 2 < size then base + 1 else base)
      in \<lparr>hs_net = cidr, hs_base = base, hs_max = mx, hs_alloc = bm_new mx\<rparr>)"

definition hs_contains :: "ipnet_lib \<Rightarrow> host_scope \<Rightarrow> ip_addr \<Rightarrow> nat option" where
  "hs_contains L hs ip =
     (if \<not> lib_contains L (hs_net hs) ip then None
      else if ip_to_u128 ip < hs_base hs then None
      else let off = unat (ip_to_u128 ip - hs_base hs)
           in if 2 ^ 64 \<le> off then None else if off < hs_max hs then Some off else None)"

definition hs_allocate ::
  "ipnet_lib \<Rightarrow> host_scope \<Rightarrow> ip_addr \<Rightarrow> (ip_addr, ipam_error) result \<times> host_scope" where
  "hs_allocate L hs ip =
     (case hs_contains L hs ip of
        None \<Rightarrow> (Err (NotInRange (lib_net_str L (hs_net hs))), hs)
      | Some off \<Rightarrow>
          (case bm_allocate (hs_alloc hs) off of
             (ok, b) \<Rightarrow> if \<not> ok then (Err AlreadyAllocated, hs\<lparr>hs_alloc := b\<rparr>)
                         else (Ok ip, hs\<lparr>hs_alloc := b\<rparr>)))"

definition hs_allocate_next :: "nat \<Rightarrow> host_scope \<Rightarrow> (ip_addr, ipam_error) result \<times> host_scope" where
  "hs_allocate_next rnd hs =
     (case bm_allocate_next rnd (hs_alloc hs) of
        (None, b) \<Rightarrow> (Err RangeFull, hs\<lparr>hs_alloc := b\<rparr>)
      | (Some off, b) \<Rightarrow> (Ok (offset_to_ip (hs_base hs) off (hs_net hs)), hs\<lparr>hs_alloc := b\<rparr>))"

definition hs_release :: "ipnet_lib \<Rightarrow> ip_addr \<Rightarrow> host_scope \<Rightarrow> host_scope" where
  "hs_release L ip hs =
     (case hs_contains L hs ip of None \<Rightarrow> hs
      | Some off \<Rightarrow> hs\<lparr>hs_alloc := bm_release off (hs_alloc hs)\<rparr>)"

definition hs_for_each :: "host_scope \<Rightarrow> ip_addr list" where
  "hs_for_each hs = map (\<lambda>off. offset_to_ip (hs_base hs) off (hs_net hs)) (bm_for_each (hs_alloc hs))"

definition hs_dump ::
  "ipnet_lib \<Rightarrow> host_scope \<Rightarrow> ((string \<times> (string \<times> string) list) list \<times> string) option" where
  "hs_dump L hs =
     (let alloc = fold (\<lambda>ip m. AList.update (ip_str ip) [] m) (hs_for_each hs) []
      in case count_ips_in_cidr (hs_net hs) of None \<Rightarrow> None
         | Some max_ips \<Rightarrow>
             Some ([(POOL_DEFAULT, alloc)],
               dec_str (length alloc) @ ''/'' @ dec_str max_ips @ '' allocated from '' @
               lib_net_str L (hs_net hs)))"

section \<open>The address range\<close>

fun ip_val :: "ip_addr \<Rightarrow> nat" where
  "ip_val (V4 w) = unat w"
| "ip_val (V6 w) = unat w"

fun same_family :: "ip_net \<Rightarrow> ip_addr \<Rightarrow> bool" where
  "same_family (NetV4 _ _) (V4 _) = True"
| "same_family (NetV6 _ _) (V6 _) = True"
| "same_family _ _ = False"

text \<open>The lowest address of the network and the first usable one, as numbers.\<close>

definition net_low :: "ip_net \<Rightarrow> nat" where
  "net_low n = ip_val (net_addr n) div 2 ^ host_bits n * 2 ^ host_bits n"

definition first_usable :: "ip_net \<Rightarrow> nat" where
  "first_usable n = net_low n + (if 2 < hs_size n then 1 else 0)"

definition usable_count :: "ip_net \<Rightarrow> nat" where
  "usable_count n = (if 2 < hs_size n then hs_size n - 2 else hs_size n)"

lemma unat_ip_to_u128 [simp]: "unat (ip_to_u128 ip) = ip_val ip"
  by (cases ip) (simp_all add: unat_ucast_up)

lemma ip_val_bound: "same_family n ip \<Longrightarrow> ip_val ip < 2 ^ max_prefix_len n"
  using unat_bound [where ?'a = 32] unat_bound [where ?'a = 128] by (cases n; cases ip) simp_all

lemma same_family_net_addr [simp]: "same_family n (net_addr n)"
  by (cases n) simp_all

lemma net_low_bound:
  assumes "net_wf n" shows "net_low n + 2 ^ host_bits n \<le> 2 ^ max_prefix_len n"
proof -
  let ?a = "ip_val (net_addr n)" and ?h = "host_bits n"
  have pow: "2 ^ max_prefix_len n = 2 ^ prefix_len n * (2 :: nat) ^ ?h"
    using assms by (simp add: net_wf_def flip: power_add)
  have "?a div 2 ^ ?h < 2 ^ prefix_len n"
    using ip_val_bound [of n "net_addr n"] by (intro less_mult_imp_div_less) (simp add: pow)
  then have "(?a div 2 ^ ?h + 1) * 2 ^ ?h \<le> 2 ^ prefix_len n * 2 ^ ?h"
    by (intro mult_le_mono1) simp
  then show ?thesis by (simp add: net_low_def pow)
qed

lemma hs_size_bound: "hs_size n \<le> 2 ^ host_bits n"
  using power_increasing [of 16 "host_bits n" "2 :: nat"] by (auto simp: hs_size_def Let_def)

lemma usable_in_block:
  assumes "off < usable_count n"
  shows "(if 2 < hs_size n then 1 else 0) + off < 2 ^ host_bits n"
  using assms hs_size_bound [of n] by (auto simp: usable_count_def split: if_splits)

lemma usable_count_small: "usable_count n < 2 ^ 64"
proof -
  have p: "k \<le> 30 \<Longrightarrow> (2 :: nat) ^ k \<le> 2 ^ 30" for k
    by (rule power_increasing) auto
  have "hs_size n \<le> 2 ^ 30"
    using p [of "host_bits n"] by (cases n) (auto simp: hs_size_def Let_def)
  then show ?thesis by (auto simp: usable_count_def)
qed

text \<open>What the documentation of \<open>ipnet\<close> gives for a well-formed network.\<close>

lemma docs_network:
  assumes "ipnet_docs L" "net_wf n"
  shows "ip_val (lib_network L n) = net_low n" "same_family n (lib_network L n)"
proof -
  have low: "net_low n < 2 ^ max_prefix_len n"
    using net_low_bound [OF assms(2)] zero_less_power [of "2 :: nat" "host_bits n"] by linarith
  show "ip_val (lib_network L n) = net_low n"
  proof (cases n)
    case (NetV4 a p)
    with assms have "lib_network L n = V4 (of_nat (net_low n))"
      by (simp add: ipnet_docs_def net_wf_def net_low_def)
    with low NetV4 show ?thesis by (simp add: unat_of_nat)
  next
    case (NetV6 a p)
    with assms have "lib_network L n = V6 (of_nat (net_low n))"
      by (simp add: ipnet_docs_def net_wf_def net_low_def)
    with low NetV6 show ?thesis by (simp add: unat_of_nat)
  qed
  show "same_family n (lib_network L n)"
    using assms by (cases n) (simp_all add: ipnet_docs_def net_wf_def)
qed

lemma docs_contains:
  assumes "ipnet_docs L" "net_wf n"
  shows "lib_contains L n ip \<longleftrightarrow>
    same_family n ip \<and> ip_val ip div 2 ^ host_bits n = net_low n div 2 ^ host_bits n"
  using assms by (cases n; cases ip) (auto simp: ipnet_docs_def net_wf_def net_low_def)

section \<open>Invariant\<close>

definition hs_inv :: "host_scope \<Rightarrow> bool" where
  "hs_inv hs \<longleftrightarrow> net_wf (hs_net hs) \<and> unat (hs_base hs) = first_usable (hs_net hs) \<and>
     hs_max hs = usable_count (hs_net hs) \<and> bm_inv (hs_alloc hs) \<and> bm_max (hs_alloc hs) = hs_max hs"

text \<open>The addresses that can be handed out, and those handed out at the moment.\<close>

definition hs_usable :: "host_scope \<Rightarrow> ip_addr set" where
  "hs_usable hs = {ip. same_family (hs_net hs) ip \<and>
     first_usable (hs_net hs) \<le> ip_val ip \<and>
     ip_val ip < first_usable (hs_net hs) + usable_count (hs_net hs)}"

definition hs_used :: "host_scope \<Rightarrow> ip_addr set" where
  "hs_used hs = (\<lambda>off. offset_to_ip (hs_base hs) off (hs_net hs)) ` bm_used (hs_alloc hs)"

definition hs_avail :: "host_scope \<Rightarrow> ip_addr set" where
  "hs_avail hs = hs_usable hs - hs_used hs"

lemma first_usable_bound:
  assumes "net_wf n" "off < usable_count n"
  shows "first_usable n + off < 2 ^ max_prefix_len n"
  using net_low_bound [OF assms(1)] usable_in_block [OF assms(2)] by (simp add: first_usable_def)

lemma offset_to_ip_val:
  assumes "hs_inv hs" "off < hs_max hs"
  shows "ip_val (offset_to_ip (hs_base hs) off (hs_net hs)) = first_usable (hs_net hs) + off"
    and "same_family (hs_net hs) (offset_to_ip (hs_base hs) off (hs_net hs))"
proof -
  have b: "first_usable (hs_net hs) + off < 2 ^ max_prefix_len (hs_net hs)"
    using assms by (intro first_usable_bound) (auto simp: hs_inv_def)
  moreover have "2 ^ max_prefix_len (hs_net hs) \<le> (2 :: nat) ^ 128" by (cases "hs_net hs") simp_all
  ultimately have "first_usable (hs_net hs) + off < 2 ^ 128" by linarith
  then have "unat (hs_base hs + of_nat off) = first_usable (hs_net hs) + off"
    using assms by (simp add: hs_inv_def unat_word_ariths unat_of_nat mod_simps)
  with b show "ip_val (offset_to_ip (hs_base hs) off (hs_net hs)) = first_usable (hs_net hs) + off"
    by (cases "hs_net hs") (simp_all add: offset_to_ip_def Let_def unat_ucast_down)
  show "same_family (hs_net hs) (offset_to_ip (hs_base hs) off (hs_net hs))"
    by (cases "hs_net hs") (simp_all add: offset_to_ip_def Let_def)
qed

lemma ip_val_inject:
  "same_family n a \<Longrightarrow> same_family n b \<Longrightarrow> ip_val a = ip_val b \<Longrightarrow> a = b"
  by (cases n; cases a; cases b) (auto simp: word_unat_eq_iff)

lemma hs_contains_iff:
  assumes "ipnet_docs L" "hs_inv hs"
  shows "hs_contains L hs ip = Some off \<longleftrightarrow>
    off < hs_max hs \<and> ip = offset_to_ip (hs_base hs) off (hs_net hs)"
proof
  have wf: "net_wf (hs_net hs)" and base: "unat (hs_base hs) = first_usable (hs_net hs)"
    using assms(2) by (simp_all add: hs_inv_def)
  note val = docs_contains [OF assms(1) wf]
  {
    assume c: "hs_contains L hs ip = Some off"
    then have fam: "same_family (hs_net hs) ip" and off: "off < hs_max hs"
      and ge: "hs_base hs \<le> ip_to_u128 ip" and eq: "off = unat (ip_to_u128 ip - hs_base hs)"
      by (auto simp: hs_contains_def Let_def val not_less split: if_splits)
    from ge eq have "ip_val ip = first_usable (hs_net hs) + off"
      by (simp add: unat_sub base word_le_nat_alt)
    with offset_to_ip_val [OF assms(2) off] fam off
    show "off < hs_max hs \<and> ip = offset_to_ip (hs_base hs) off (hs_net hs)"
      by (auto intro: ip_val_inject)
  next
    assume r: "off < hs_max hs \<and> ip = offset_to_ip (hs_base hs) off (hs_net hs)"
    with offset_to_ip_val [OF assms(2)] have v: "ip_val ip = first_usable (hs_net hs) + off"
      and fam: "same_family (hs_net hs) ip" by auto
    have small: "off < 2 ^ 64" and cnt: "off < usable_count (hs_net hs)"
      using r usable_count_small [of "hs_net hs"] assms(2) by (auto simp: hs_inv_def)
    have "ip_val ip div 2 ^ host_bits (hs_net hs) = net_low (hs_net hs) div 2 ^ host_bits (hs_net hs)"
      using block_div [OF usable_in_block [OF cnt]] unfolding v
      by (simp add: first_usable_def net_low_def add.assoc)
    moreover have "hs_base hs \<le> ip_to_u128 ip" "unat (ip_to_u128 ip - hs_base hs) = off"
      using v by (simp_all add: word_le_nat_alt base unat_sub)
    ultimately show "hs_contains L hs ip = Some off"
      using conjunct1 [OF r] small fam unfolding hs_contains_def val Let_def by simp
  }
qed

lemma hs_contains_None_iff:
  assumes "ipnet_docs L" "hs_inv hs"
  shows "hs_contains L hs ip = None \<longleftrightarrow> ip \<notin> hs_usable hs"
proof -
  have "(\<exists>off. hs_contains L hs ip = Some off) \<longleftrightarrow> ip \<in> hs_usable hs"
  proof
    assume "\<exists>off. hs_contains L hs ip = Some off"
    then show "ip \<in> hs_usable hs"
      using assms by (auto simp: hs_contains_iff [OF assms] hs_usable_def offset_to_ip_val hs_inv_def)
  next
    assume u: "ip \<in> hs_usable hs"
    let ?off = "ip_val ip - first_usable (hs_net hs)"
    have off: "?off < hs_max hs" using u assms(2) by (auto simp: hs_usable_def hs_inv_def)
    have "ip = offset_to_ip (hs_base hs) ?off (hs_net hs)"
      using u offset_to_ip_val [OF assms(2) off]
      by (intro ip_val_inject [of "hs_net hs"]) (auto simp: hs_usable_def)
    with off show "\<exists>off. hs_contains L hs ip = Some off"
      unfolding hs_contains_iff [OF assms] by blast
  qed
  then show ?thesis by (metis not_None_eq)
qed

lemma offset_to_ip_inj:
  assumes "hs_inv hs" "a < hs_max hs" "b < hs_max hs"
  shows "offset_to_ip (hs_base hs) a (hs_net hs) = offset_to_ip (hs_base hs) b (hs_net hs) \<longleftrightarrow> a = b"
  by (metis add_left_cancel assms offset_to_ip_val(1))

lemma used_below_max: "hs_inv hs \<Longrightarrow> off \<in> bm_used (hs_alloc hs) \<Longrightarrow> off < hs_max hs"
  by (auto simp: hs_inv_def bm_inv_def)

lemma hs_used_iff:
  assumes "hs_inv hs" "off < hs_max hs"
  shows "offset_to_ip (hs_base hs) off (hs_net hs) \<in> hs_used hs \<longleftrightarrow> off \<in> bm_used (hs_alloc hs)"
  unfolding hs_used_def image_iff by (metis assms used_below_max offset_to_ip_inj)

lemma offset_usable:
  assumes "hs_inv hs" "off < hs_max hs"
  shows "offset_to_ip (hs_base hs) off (hs_net hs) \<in> hs_usable hs"
  using assms offset_to_ip_val [OF assms] by (simp add: hs_usable_def hs_inv_def)

lemma hs_used_usable: "hs_inv hs \<Longrightarrow> hs_used hs \<subseteq> hs_usable hs"
  using offset_usable used_below_max by (auto simp: hs_used_def)

lemma hs_usable_alloc [frame_simps]:
  "hs_usable (hs\<lparr>hs_alloc := b\<rparr>) = hs_usable hs"
  by (simp add: hs_usable_def)

lemma hs_inv_alloc:
  "hs_inv hs \<Longrightarrow> bm_inv b \<Longrightarrow> bm_max b = bm_max (hs_alloc hs) \<Longrightarrow> hs_inv (hs\<lparr>hs_alloc := b\<rparr>)"
  by (simp add: hs_inv_def)

lemma hs_usable_image:
  assumes "hs_inv hs"
  shows "hs_usable hs = (\<lambda>off. offset_to_ip (hs_base hs) off (hs_net hs)) ` {..<hs_max hs}"
proof
  show "hs_usable hs \<subseteq> (\<lambda>off. offset_to_ip (hs_base hs) off (hs_net hs)) ` {..<hs_max hs}"
  proof
    fix ip assume "ip \<in> hs_usable hs"
    then obtain off where "hs_contains ipnet_ref hs ip = Some off"
      using hs_contains_None_iff [OF ipnet_docs_ref assms, of ip] by (cases "hs_contains ipnet_ref hs ip") auto
    then show "ip \<in> (\<lambda>off. offset_to_ip (hs_base hs) off (hs_net hs)) ` {..<hs_max hs}"
      by (simp add: hs_contains_iff [OF ipnet_docs_ref assms])
  qed
qed (use offset_usable [OF assms] in auto)

lemma card_hs_usable: "hs_inv hs \<Longrightarrow> card (hs_usable hs) = hs_max hs"
  by (simp add: hs_usable_image card_image inj_on_def offset_to_ip_inj)

lemma finite_hs_usable: "hs_inv hs \<Longrightarrow> finite (hs_usable hs)"
  by (simp add: hs_usable_image)

section \<open>Operations on the range\<close>

lemma hs_new_correct:
  assumes "ipnet_docs L" "net_wf n"
  shows "hs_inv (hs_new L n)" "hs_used (hs_new L n) = {}" "hs_net (hs_new L n) = n"
proof -
  let ?b = "ip_to_u128 (lib_network L n)"
  have low: "unat ?b = net_low n" using docs_network [OF assms] by simp
  have "2 < hs_size n \<Longrightarrow> unat (?b + 1) = net_low n + 1"
  proof -
    assume "2 < hs_size n"
    then have "net_low n + 1 < 2 ^ max_prefix_len n"
      using first_usable_bound [OF assms(2), of 0] by (simp add: first_usable_def usable_count_def)
    moreover have "2 ^ max_prefix_len n \<le> (2 :: nat) ^ 128" by (cases n) simp_all
    ultimately have "unat ?b + 1 < 2 ^ 128" unfolding low by linarith
    then show ?thesis by (simp add: unat_word_ariths docs_network [OF assms])
  qed
  then show "hs_inv (hs_new L n)"
    using assms low bm_new_correct
    by (auto simp: hs_inv_def hs_new_def Let_def first_usable_def usable_count_def)
qed (simp_all add: hs_used_def hs_new_def Let_def bm_new_correct)

lemma hs_allocate_correct:
  assumes "ipnet_docs L" "hs_inv hs" "hs_allocate L hs ip = (res, hs')"
  shows "res = (if ip \<notin> hs_usable hs then Err (NotInRange (lib_net_str L (hs_net hs)))
      else if ip \<in> hs_used hs then Err AlreadyAllocated else Ok ip)"
    and "hs_used hs' = (if ip \<in> hs_avail hs then insert ip (hs_used hs) else hs_used hs)"
    and "hs_inv hs'" and "hs_usable hs' = hs_usable hs" and "hs_net hs' = hs_net hs"
proof -
  have "res = (if ip \<notin> hs_usable hs then Err (NotInRange (lib_net_str L (hs_net hs)))
      else if ip \<in> hs_used hs then Err AlreadyAllocated else Ok ip) \<and>
    hs_used hs' = (if ip \<in> hs_avail hs then insert ip (hs_used hs) else hs_used hs) \<and>
    hs_inv hs' \<and> hs_usable hs' = hs_usable hs \<and> hs_net hs' = hs_net hs"
  proof (cases "hs_contains L hs ip")
    case None
    then have "ip \<notin> hs_usable hs" by (simp add: hs_contains_None_iff [OF assms(1,2)])
    moreover from None have "res = Err (NotInRange (lib_net_str L (hs_net hs)))" "hs' = hs"
      using assms(3) by (auto simp: hs_allocate_def)
    ultimately show ?thesis using assms(2) by (simp add: hs_avail_def)
  next
    case (Some off)
    then have off: "off < hs_max hs" and ip: "ip = offset_to_ip (hs_base hs) off (hs_net hs)"
      by (simp_all add: hs_contains_iff [OF assms(1,2)])
    obtain ok b where a: "bm_allocate (hs_alloc hs) off = (ok, b)" by fastforce
    have inv: "bm_inv (hs_alloc hs)" "bm_max (hs_alloc hs) = hs_max hs"
      using assms(2) by (simp_all add: hs_inv_def)
    note b = bm_allocate_correct [OF inv(1) a]
    have hs': "hs' = hs\<lparr>hs_alloc := b\<rparr>" "res = (if ok then Ok ip else Err AlreadyAllocated)"
      using assms(3) by (auto simp: hs_allocate_def Some a split: if_splits)
    have ok: "ok \<longleftrightarrow> ip \<notin> hs_used hs"
      unfolding b(1) inv(2) ip using off hs_used_iff [OF assms(2) off] by simp
    have us: "ip \<in> hs_usable hs" unfolding ip using assms(2) off by (rule offset_usable)
    have "hs_used hs' = (if ok then insert ip (hs_used hs) else hs_used hs)"
      unfolding hs' hs_used_def using b(2) by (simp add: ip)
    then show ?thesis
      using ok us b(3,4) hs_inv_alloc [OF assms(2)] unfolding hs'
      by (simp add: hs_avail_def hs_usable_alloc)
  qed
  then show "res = (if ip \<notin> hs_usable hs then Err (NotInRange (lib_net_str L (hs_net hs)))
      else if ip \<in> hs_used hs then Err AlreadyAllocated else Ok ip)"
    and "hs_used hs' = (if ip \<in> hs_avail hs then insert ip (hs_used hs) else hs_used hs)"
    and "hs_inv hs'" and "hs_usable hs' = hs_usable hs" and "hs_net hs' = hs_net hs"
    by blast+
qed

lemma hs_allocate_next_correct:
  assumes "hs_inv hs" "hs_allocate_next r hs = (res, hs')"
  shows "(res = Err RangeFull \<and> hs_avail hs = {} \<and> hs' = hs) \<or>
    (\<exists>ip. res = Ok ip \<and> ip \<in> hs_avail hs \<and> hs_used hs' = insert ip (hs_used hs) \<and> hs_inv hs' \<and>
      hs_usable hs' = hs_usable hs \<and> hs_net hs' = hs_net hs)"
proof -
  obtain o' b where a: "bm_allocate_next r (hs_alloc hs) = (o', b)" by fastforce
  have inv: "bm_inv (hs_alloc hs)" "bm_max (hs_alloc hs) = hs_max hs"
    using assms(1) by (simp_all add: hs_inv_def)
  note n = bm_allocate_next_correct [OF inv(1) a]
  show ?thesis
  proof (cases o')
    case None
    with n have "bm_avail (hs_alloc hs) = {}" "b = hs_alloc hs" by simp_all
    then have "hs_avail hs = {}"
      using hs_usable_image [OF assms(1)] inv(2) by (auto simp: hs_avail_def bm_avail_def hs_used_def)
    with None \<open>b = hs_alloc hs\<close> show ?thesis using assms(2) a by (auto simp: hs_allocate_next_def)
  next
    case (Some off)
    let ?ip = "offset_to_ip (hs_base hs) off (hs_net hs)"
    from Some n have off: "off < hs_max hs" "off \<notin> bm_used (hs_alloc hs)"
      and b: "bm_used b = insert off (bm_used (hs_alloc hs))" "bm_inv b" "bm_max b = hs_max hs"
      using inv(2) by (auto simp: bm_avail_def)
    have "?ip \<in> hs_avail hs"
      using offset_usable [OF assms(1) off(1)] hs_used_iff [OF assms(1) off(1)] off(2)
      by (simp add: hs_avail_def)
    moreover have "hs_inv (hs\<lparr>hs_alloc := b\<rparr>)" using assms(1) b inv(2) by (intro hs_inv_alloc) auto
    moreover have "res = Ok ?ip" "hs' = hs\<lparr>hs_alloc := b\<rparr>"
      using assms(2) a Some by (auto simp: hs_allocate_next_def)
    moreover have "hs_used (hs\<lparr>hs_alloc := b\<rparr>) = insert ?ip (hs_used hs)"
      by (simp add: hs_used_def b(1))
    ultimately show ?thesis by (simp add: hs_usable_alloc)
  qed
qed

lemma hs_release_correct:
  assumes "ipnet_docs L" "hs_inv hs"
  shows "hs_used (hs_release L ip hs) = hs_used hs - {ip}" "hs_inv (hs_release L ip hs)"
    "hs_usable (hs_release L ip hs) = hs_usable hs" "hs_net (hs_release L ip hs) = hs_net hs"
proof -
  have inv: "bm_inv (hs_alloc hs)" using assms(2) by (simp add: hs_inv_def)
  have "hs_used (hs_release L ip hs) = hs_used hs - {ip} \<and> hs_inv (hs_release L ip hs)"
  proof (cases "hs_contains L hs ip")
    case None
    then have "ip \<notin> hs_used hs"
      using hs_contains_None_iff [OF assms, of ip] hs_used_usable [OF assms(2)] by auto
    with None show ?thesis using assms(2) by (simp add: hs_release_def)
  next
    case (Some off)
    then have off: "off < hs_max hs" "ip = offset_to_ip (hs_base hs) off (hs_net hs)"
      by (simp_all add: hs_contains_iff [OF assms])
    let ?b = "bm_release off (hs_alloc hs)"
    have "hs_used (hs\<lparr>hs_alloc := ?b\<rparr>) = hs_used hs - {ip}"
      using used_below_max [OF assms(2)] offset_to_ip_inj [OF assms(2) _ off(1)] off(2)
      by (auto simp: hs_used_def bm_release_correct [OF inv])
    moreover have "hs_inv (hs\<lparr>hs_alloc := ?b\<rparr>)"
      using bm_release_correct [OF inv] assms(2) by (intro hs_inv_alloc) auto
    ultimately show ?thesis by (simp add: hs_release_def Some)
  qed
  then show "hs_used (hs_release L ip hs) = hs_used hs - {ip}" "hs_inv (hs_release L ip hs)" by auto
  show "hs_usable (hs_release L ip hs) = hs_usable hs" "hs_net (hs_release L ip hs) = hs_net hs"
    by (auto simp: hs_release_def hs_usable_alloc split: option.splits)
qed

lemma hs_for_each_correct:
  assumes "hs_inv hs"
  shows "set (hs_for_each hs) = hs_used hs" "distinct (hs_for_each hs)"
  using assms used_below_max offset_to_ip_inj
  by (auto simp: hs_for_each_def hs_used_def bm_for_each_sorted distinct_map inj_on_def)

section \<open>The allocator is a recycling pool\<close>

text \<open>The view of the allocator as a pool of addresses; the library it was built with is part of
  the state, since \<open>release\<close> consults it.\<close>

definition hs_take :: "nat \<Rightarrow> ipnet_lib \<times> host_scope \<Rightarrow> ip_addr option \<times> (ipnet_lib \<times> host_scope)" where
  "hs_take r s = (case hs_allocate_next r (snd s) of
     (Ok ip, hs) \<Rightarrow> (Some ip, (fst s, hs)) | (Err _, hs) \<Rightarrow> (None, (fst s, hs)))"

interpretation hs_pool: recycling_pool
  "\<lambda>s. ipnet_docs (fst s) \<and> hs_inv (snd s)" "\<lambda>s. hs_avail (snd s)" "\<lambda>r s. True" hs_take
  "\<lambda>s. hs_used (snd s)" "\<lambda>ip s. (fst s, hs_release (fst s) ip (snd s))"
proof (unfold_locales, goal_cases)
  case (1 s)
  then show ?case by (auto simp: hs_avail_def finite_hs_usable)
next
  case (2 s c t)
  then show ?case
    using hs_allocate_next_correct [of "snd s" c]
    by (auto simp: hs_take_def prod_eq_iff split: prod.splits result.splits)
next
  case (3 s c x t)
  then show ?case
    using hs_allocate_next_correct [of "snd s" c]
    by (fastforce simp: hs_take_def hs_avail_def split: prod.splits result.splits)
next
  case (4 s c x t)
  then show ?case
    using hs_allocate_next_correct [of "snd s" c]
    by (fastforce simp: hs_take_def split: prod.splits result.splits)
next
  case (5 s x)
  then show ?case
    using hs_release_correct [of "fst s" "snd s" x] hs_used_usable [of "snd s"]
    by (auto simp: hs_avail_def)
next
  case (6 s x)
  then show ?case by (simp add: hs_release_correct)
qed

section \<open>Properties\<close>

lemma legal_many_True [simp]: "legal_many (\<lambda>c s. True) acq cs s"
  by (induction cs arbitrary: s) simp_all

lemma hs_avail_new: "ipnet_docs L \<Longrightarrow> net_wf n \<Longrightarrow> hs_avail (hs_new L n) = hs_usable (hs_new L n)"
  by (simp add: hs_avail_def hs_new_correct)

text \<open>C12: a fresh allocator asked often enough hands out every usable address of the network (all
  but the first and the last one when the range has more than two) exactly once, whatever the
  random starts, and is then exhausted.\<close>

theorem hs_serves_each_address_once:
  assumes "ipnet_docs L" "net_wf n" "usable_count n \<le> length rs"
    "acquire_many hs_take rs (L, hs_new L n) = (out, s)"
  shows "distinct (granted out) \<and>
    set (granted out) = {ip. same_family n ip \<and> first_usable n \<le> ip_val ip \<and>
      ip_val ip < first_usable n + usable_count n} \<and>
    hs_avail (snd s) = {}"
proof -
  have inv: "ipnet_docs (fst (L, hs_new L n)) \<and> hs_inv (snd (L, hs_new L n))"
    using assms(1,2) by (simp add: hs_new_correct)
  have us: "hs_avail (snd (L, hs_new L n)) = hs_usable (hs_new L n)"
    using assms(1,2) by (simp add: hs_avail_new)
  have card: "card (hs_avail (snd (L, hs_new L n))) \<le> length rs"
    unfolding us using inv assms(3) hs_new_correct [OF assms(1,2)]
    by (simp add: card_hs_usable hs_inv_def)
  show ?thesis
    using hs_pool.acquire_many_exhausts [OF inv legal_many_True assms(4) card]
    unfolding us by (simp add: hs_usable_def hs_new_correct [OF assms(1,2)])
qed

theorem hs_serves_each_address_once_witness:
  "distinct (granted (fst (acquire_many hs_take [9, 5] (ipnet_ref, hs_new ipnet_ref (NetV4 0x0A000004 30)))))"
  using hs_serves_each_address_once
    [OF ipnet_docs_ref, of "NetV4 0x0A000004 30" "[9, 5]", OF _ _ prod.collapse [symmetric]]
  by (simp add: net_wf_def usable_count_def hs_size_def)

text \<open>An address given back to a full range is the next one handed out.\<close>

lemma hs_release_serves_next:
  assumes "ipnet_docs L" "hs_inv hs" "hs_avail hs = {}" "ip \<in> hs_used hs"
  shows "fst (hs_allocate_next rnd (hs_release L ip hs)) = Ok ip"
  using hs_pool.release_reacquire [of "(L, hs)" ip rnd] assms
  by (auto simp: hs_take_def split: prod.splits result.splits)

text \<open>A range of one address, taken.\<close>

definition hs_full :: host_scope where
  "hs_full = snd (hs_allocate_next 0 (hs_new ipnet_ref (NetV4 0 32)))"

lemma hs_full_correct: "hs_inv hs_full" "hs_avail hs_full = {}" "V4 0 \<in> hs_used hs_full"
proof -
  have wf: "net_wf (NetV4 0 32)" by (simp add: net_wf_def)
  note new = hs_new_correct [OF ipnet_docs_ref wf]
  have us: "hs_usable (hs_new ipnet_ref (NetV4 0 32)) = {V4 0}"
    by (auto simp: hs_usable_def new(3) first_usable_def net_low_def usable_count_def hs_size_def
        elim!: same_family.elims simp: unat_eq_0)
  have av: "hs_avail (hs_new ipnet_ref (NetV4 0 32)) = {V4 0}"
    by (simp add: hs_avail_new [OF ipnet_docs_ref wf] us)
  have "hs_inv hs_full \<and> hs_used hs_full = {V4 0} \<and> hs_usable hs_full = {V4 0}"
    using hs_allocate_next_correct [OF new(1) prod.collapse [symmetric], of 0] av us new(2)
    unfolding hs_full_def by auto
  then show "hs_inv hs_full" "hs_avail hs_full = {}" "V4 0 \<in> hs_used hs_full"
    by (simp_all add: hs_avail_def)
qed

lemma hs_release_serves_next_witness:
  "fst (hs_allocate_next 3 (hs_release ipnet_ref (V4 0) hs_full)) = Ok (V4 0)"
  by (rule hs_release_serves_next [OF ipnet_docs_ref hs_full_correct])

end
