(* ===== verification/Ipam_Service.thy ===== *)
theory Ipam_Service
  imports Host_Scope
begin

text \<open>
  \<open>DefaultIpamService\<close> of \<open>sarena-services/src/ipam/service.rs\<close> with its \<open>State\<close>: one
  \<open>HostScopeAllocator\<close> per address family, the owner of every address per pool, and the
  excluded addresses. Every operation runs under the state's lock, so each is a function on the
  state; \<open>rnd i\<close> is the \<open>i\<close>-th random start the bitmap draws inside one call. The retry loop of
  \<open>allocate_next_family\<close> is a recursive function whose termination proof is that every
  round consumes a free address. \<open>HashMap\<close>s are association lists.
\<close>

record alloc_result =
  ar_ip :: ip_addr
  ip_pool_name :: string

datatype family = Ipv4 | Ipv6

type_synonym owner_map = "(string \<times> (string \<times> string) list) list"

record ipam_state =
  ipv4_allocator :: "host_scope option"
  ipv6_allocator :: "host_scope option"
  owner :: owner_map
  excluded_ips :: "(string \<times> string) list"

record ipam_service =
  svc_state :: ipam_state
  gateway_ip :: ip_addr

section \<open>State\<close>

definition register_ip_owner :: "ip_addr \<Rightarrow> string \<Rightarrow> string \<Rightarrow> ipam_state \<Rightarrow> ipam_state" where
  "register_ip_owner ip own pool st =
     (let m = (case map_of (owner st) pool of None \<Rightarrow> [] | Some m \<Rightarrow> m)
      in st\<lparr>owner := AList.update pool (AList.update (ip_str ip) own m) (owner st)\<rparr>)"

definition get_ip_owner :: "string \<Rightarrow> string \<Rightarrow> ipam_state \<Rightarrow> string" where
  "get_ip_owner ip pool st =
     (case map_of (owner st) pool of None \<Rightarrow> []
      | Some m \<Rightarrow> (case map_of m ip of None \<Rightarrow> [] | Some own \<Rightarrow> own))"

definition release_ip_owner :: "ip_addr \<Rightarrow> string \<Rightarrow> ipam_state \<Rightarrow> string \<times> ipam_state" where
  "release_ip_owner ip pool st =
     (case map_of (owner st) pool of None \<Rightarrow> ([], st)
      | Some m \<Rightarrow>
          (let own = (case map_of m (ip_str ip) of None \<Rightarrow> [] | Some own \<Rightarrow> own);
               m' = AList.delete (ip_str ip) m
           in (own, st\<lparr>owner := (if m' = [] then AList.delete pool (owner st)
                                else AList.update pool m' (owner st))\<rparr>)))"

fun allocator_of :: "family \<Rightarrow> ipam_state \<Rightarrow> host_scope option" where
  "allocator_of Ipv4 st = ipv4_allocator st"
| "allocator_of Ipv6 st = ipv6_allocator st"

fun set_allocator :: "family \<Rightarrow> host_scope \<Rightarrow> ipam_state \<Rightarrow> ipam_state" where
  "set_allocator Ipv4 hs st = st\<lparr>ipv4_allocator := Some hs\<rparr>"
| "set_allocator Ipv6 hs st = st\<lparr>ipv6_allocator := Some hs\<rparr>"

fun disabled :: "family \<Rightarrow> ipam_error" where
  "disabled Ipv4 = Ipv4Disabled"
| "disabled Ipv6 = Ipv6Disabled"

fun family_of :: "ip_addr \<Rightarrow> family" where
  "family_of (V4 _) = Ipv4"
| "family_of (V6 _) = Ipv6"

definition release_ip_locked ::
  "ipnet_lib \<Rightarrow> ip_addr \<Rightarrow> string \<Rightarrow> ipam_state \<Rightarrow> (unit, ipam_error) result \<times> ipam_state" where
  "release_ip_locked L ip pool st =
     (case allocator_of (family_of ip) st of
        None \<Rightarrow> (Err (disabled (family_of ip)), st)
      | Some hs \<Rightarrow>
          (Ok (), snd (release_ip_owner ip pool (set_allocator (family_of ip) (hs_release L ip hs) st))))"

section \<open>Service\<close>

definition excl_key :: "string \<Rightarrow> ip_addr \<Rightarrow> string" where
  "excl_key pool ip = pool @ '':'' @ ip_str ip"

definition ipam_new :: "ipnet_lib \<Rightarrow> ip_addr \<Rightarrow> ip_net option \<Rightarrow> ip_net option \<Rightarrow> ipam_service" where
  "ipam_new L gw ipv4 ipv6 =
     \<lparr>svc_state = \<lparr>ipv4_allocator = map_option (hs_new L) ipv4,
        ipv6_allocator = map_option (hs_new L) ipv6, owner = [], excluded_ips = []\<rparr>,
      gateway_ip = gw\<rparr>"

definition exclude_ip :: "ip_addr \<Rightarrow> string \<Rightarrow> string \<Rightarrow> ipam_state \<Rightarrow> ipam_state" where
  "exclude_ip ip own pool st =
     st\<lparr>excluded_ips := AList.update (excl_key pool ip) own (excluded_ips st)\<rparr>"

definition allocate_ip ::
  "ipnet_lib \<Rightarrow> ip_addr \<Rightarrow> string \<Rightarrow> string \<Rightarrow> ipam_state \<Rightarrow>
     (alloc_result, ipam_error) result \<times> ipam_state" where
  "allocate_ip L ip own pool st =
     (if pool = [] then (Err (PoolRequiredForAllocate (ip_str ip) own), st)
      else case map_of (excluded_ips st) (excl_key pool ip) of
        Some owned_by \<Rightarrow> (Err (ExcludedError (ip_str ip) owned_by), st)
      | None \<Rightarrow>
          (case allocator_of (family_of ip) st of
             None \<Rightarrow> (Err (disabled (family_of ip)), st)
           | Some hs \<Rightarrow>
               (case hs_allocate L hs ip of
                  (Err e, hs') \<Rightarrow> (Err e, set_allocator (family_of ip) hs' st)
                | (Ok ip', hs') \<Rightarrow>
                    (Ok \<lparr>ar_ip = ip', ip_pool_name = POOL_DEFAULT\<rparr>,
                     register_ip_owner ip' own pool (set_allocator (family_of ip) hs' st)))))"

definition release_ip ::
  "ipnet_lib \<Rightarrow> ip_addr \<Rightarrow> string \<Rightarrow> ipam_state \<Rightarrow> (unit, ipam_error) result \<times> ipam_state" where
  "release_ip L ip pool st =
     (if pool = [] then (Err (PoolRequiredForRelease (ip_str ip)), st)
      else release_ip_locked L ip pool st)"

text \<open>The loop of \<open>allocate_next_family\<close>.\<close>

function anf_loop ::
  "(nat \<Rightarrow> nat) \<Rightarrow> nat \<Rightarrow> family \<Rightarrow> string \<Rightarrow> string \<Rightarrow> ipam_state \<Rightarrow>
     (alloc_result, ipam_error) result \<times> ipam_state" where
  "anf_loop rnd i fam own pool st =
     (case allocator_of fam st of
        None \<Rightarrow> (Err (disabled fam), st)
      | Some hs \<Rightarrow>
          (case hs_allocate_next (rnd i) hs of
             (Err e, hs') \<Rightarrow> (Err e, set_allocator fam hs' st)
           | (Ok ip, hs') \<Rightarrow>
               (if map_of (excluded_ips st) (excl_key pool ip) = None then
                  (Ok \<lparr>ar_ip = ip, ip_pool_name = POOL_DEFAULT\<rparr>,
                   register_ip_owner ip own pool (set_allocator fam hs' st))
                else anf_loop rnd (i + 1) fam own pool
                  (register_ip_owner ip (own @ '' (excluded)'') pool (set_allocator fam hs' st)))))"
  by pat_completeness auto

text \<open>Each round marks one more offset, and it only starts while some are left.\<close>

definition free_slots :: "host_scope \<Rightarrow> nat" where
  "free_slots hs = bm_max (hs_alloc hs) - bm_count (hs_alloc hs)"

lemma hs_allocate_next_uses_slot:
  "hs_allocate_next r hs = (Ok ip, hs') \<Longrightarrow> free_slots hs' < free_slots hs"
  by (auto simp: hs_allocate_next_def bm_allocate_next_def allocate_bit_def free_slots_def
      split: option.splits if_splits)

lemma allocator_of_set [simp]:
  "allocator_of fam (set_allocator fam' hs st) = (if fam = fam' then Some hs else allocator_of fam st)"
  by (cases fam; cases fam') simp_all

lemma allocator_of_register [simp]:
  "allocator_of fam (register_ip_owner ip own pool st) = allocator_of fam st"
  by (cases fam) (simp_all add: register_ip_owner_def Let_def)

termination anf_loop
  by (relation "measure (\<lambda>(rnd, i, fam, own, pool, st).
        case allocator_of fam st of None \<Rightarrow> 0 | Some hs \<Rightarrow> free_slots hs)")
    (auto intro: hs_allocate_next_uses_slot [OF sym])

declare anf_loop.simps [simp del]

definition allocate_next_family ::
  "(nat \<Rightarrow> nat) \<Rightarrow> family \<Rightarrow> string \<Rightarrow> string \<Rightarrow> ipam_state \<Rightarrow>
     (alloc_result, ipam_error) result \<times> ipam_state" where
  "allocate_next_family rnd fam own pool st =
     (if pool = [] then (Err (PoolDeterminationUnavailable own), st)
      else anf_loop rnd 0 fam own pool st)"

definition allocate_next ::
  "ipnet_lib \<Rightarrow> (nat \<Rightarrow> nat) \<Rightarrow> (nat \<Rightarrow> nat) \<Rightarrow> family option \<Rightarrow> string \<Rightarrow> string \<Rightarrow> ipam_state \<Rightarrow>
     (alloc_result option \<times> alloc_result option, ipam_error) result \<times> ipam_state" where
  "allocate_next L rnd6 rnd4 fam own pool st =
     (let want_ipv6 = (fam = None \<or> fam = Some Ipv6);
          want_ipv4 = (fam = None \<or> fam = Some Ipv4);
          v6 = (if want_ipv6 \<and> ipv6_allocator st \<noteq> None
                then (case allocate_next_family rnd6 Ipv6 own pool st of
                        (Err e, st1) \<Rightarrow> (Err e, st1) | (Ok r, st1) \<Rightarrow> (Ok (Some r), st1))
                else (Ok None, st))
      in case v6 of
           (Err e, st1) \<Rightarrow> (Err e, st1)
         | (Ok r6, st1) \<Rightarrow>
             (if want_ipv4 \<and> ipv4_allocator st \<noteq> None
              then (case allocate_next_family rnd4 Ipv4 own pool st1 of
                      (Ok r4, st2) \<Rightarrow> (Ok (Some r4, r6), st2)
                    | (Err e, st2) \<Rightarrow>
                        (Err e, (case r6 of None \<Rightarrow> st2
                           | Some r \<Rightarrow> snd (release_ip L (ar_ip r) (ip_pool_name r) st2))))
              else (Ok (None, r6), st1)))"

section \<open>The service trait\<close>

record container_addressing =
  ca_ip :: string
  ca_pool :: "string option"

record ipam_allocate_response =
  host_ipv4 :: "string option"
  host_ipv6 :: "string option"
  resp_ipv4 :: "container_addressing option"
  resp_ipv6 :: "container_addressing option"

definition unwrap_or :: "'a \<Rightarrow> 'a option \<Rightarrow> 'a" where
  "unwrap_or d x = (case x of None \<Rightarrow> d | Some a \<Rightarrow> a)"

definition to_addressing :: "alloc_result \<Rightarrow> container_addressing" where
  "to_addressing r = \<lparr>ca_ip = ip_str (ar_ip r), ca_pool = Some (ip_pool_name r)\<rparr>"

definition ipam_allocate ::
  "ipnet_lib \<Rightarrow> (nat \<Rightarrow> nat) \<Rightarrow> (nat \<Rightarrow> nat) \<Rightarrow> string option \<Rightarrow> string option \<Rightarrow> string option \<Rightarrow>
     ipam_service \<Rightarrow> (ipam_allocate_response, ipam_error) result \<times> ipam_service" where
  "ipam_allocate L rnd6 rnd4 fam own pool svc =
     (let own = unwrap_or [] own; pool = unwrap_or POOL_DEFAULT pool;
          fam = (if fam = Some ''ipv4'' then Some Ipv4
                 else if fam = Some ''ipv6'' then Some Ipv6 else None)
      in case allocate_next L rnd6 rnd4 fam own pool (svc_state svc) of
           (Err e, st) \<Rightarrow> (Err e, svc\<lparr>svc_state := st\<rparr>)
         | (Ok (r4, r6), st) \<Rightarrow>
             (Ok \<lparr>host_ipv4 = Some (ip_str (gateway_ip svc)), host_ipv6 = None,
                resp_ipv4 = map_option to_addressing r4, resp_ipv6 = map_option to_addressing r6\<rparr>,
              svc\<lparr>svc_state := st\<rparr>))"

definition ipam_allocate_ip ::
  "ipnet_lib \<Rightarrow> ip_addr \<Rightarrow> string option \<Rightarrow> string option \<Rightarrow> ipam_service \<Rightarrow>
     (unit, ipam_error) result \<times> ipam_service" where
  "ipam_allocate_ip L ip own pool svc =
     (case allocate_ip L ip (unwrap_or [] own) (unwrap_or POOL_DEFAULT pool) (svc_state svc) of
        (Err e, st) \<Rightarrow> (Err e, svc\<lparr>svc_state := st\<rparr>)
      | (Ok _, st) \<Rightarrow> (Ok (), svc\<lparr>svc_state := st\<rparr>))"

definition ipam_release ::
  "ipnet_lib \<Rightarrow> ip_addr \<Rightarrow> string option \<Rightarrow> ipam_service \<Rightarrow> (unit, ipam_error) result \<times> ipam_service" where
  "ipam_release L ip pool svc =
     (case release_ip L ip (unwrap_or POOL_DEFAULT pool) (svc_state svc) of
        (res, st) \<Rightarrow> (res, svc\<lparr>svc_state := st\<rparr>))"

text \<open>One family of \<open>dump\<close>: the addresses with their owners, and the status line.\<close>

definition dump_family ::
  "ipnet_lib \<Rightarrow> string \<Rightarrow> ipam_state \<Rightarrow> host_scope option \<Rightarrow> ((string \<times> string) list \<times> string) option" where
  "dump_family L label st a =
     (case a of None \<Rightarrow> Some ([], [])
      | Some hs \<Rightarrow>
          (case hs_dump L hs of None \<Rightarrow> None
           | Some (per_pool, status) \<Rightarrow>
               Some (fold (\<lambda>(pool, alloc) m.
                        fold (\<lambda>ip m. AList.update
                               ((if pool = POOL_DEFAULT then [] else pool @ ''/'') @ ip)
                               (get_ip_owner ip pool st) m)
                          (map fst alloc) m) per_pool [],
                     label @ status)))"

definition ipam_dump ::
  "ipnet_lib \<Rightarrow> ipam_service \<Rightarrow> ((string \<times> string) list \<times> (string \<times> string) list \<times> string) option" where
  "ipam_dump L svc =
     (let st = svc_state svc
      in case (dump_family L ''IPv4: '' st (ipv4_allocator st), dump_family L ''IPv6: '' st (ipv6_allocator st)) of
           (Some (alloc4, st4), Some (alloc6, st6)) \<Rightarrow>
             (let status = st4 @ '', '' @ st6
              in Some (alloc4, alloc6, if status = [] then ''Not running'' else status))
         | _ \<Rightarrow> None)"

section \<open>Invariant and the sets of addresses\<close>

text \<open>Each allocator is a sound host-scope range of its own family. \<open>ipam_new\<close> establishes it
  when it is given well-formed networks of the right family.\<close>

fun net_family :: "ip_net \<Rightarrow> family" where
  "net_family (NetV4 _ _) = Ipv4"
| "net_family (NetV6 _ _) = Ipv6"

definition ipam_inv :: "ipam_state \<Rightarrow> bool" where
  "ipam_inv st \<longleftrightarrow>
     (\<forall>fam hs. allocator_of fam st = Some hs \<longrightarrow> hs_inv hs \<and> net_family (hs_net hs) = fam)"

definition ipam_used :: "ipam_state \<Rightarrow> ip_addr set" where
  "ipam_used st = {ip. \<exists>hs. allocator_of (family_of ip) st = Some hs \<and> ip \<in> hs_used hs}"

definition ipam_usable :: "ipam_state \<Rightarrow> ip_addr set" where
  "ipam_usable st = {ip. \<exists>hs. allocator_of (family_of ip) st = Some hs \<and> ip \<in> hs_usable hs}"

definition excluded :: "string \<Rightarrow> ipam_state \<Rightarrow> ip_addr \<Rightarrow> bool" where
  "excluded pool st ip \<longleftrightarrow> map_of (excluded_ips st) (excl_key pool ip) \<noteq> None"

text \<open>Same configuration: allocators present for the same families with the same ranges, and the
  same exclusions.\<close>

definition same_config :: "ipam_state \<Rightarrow> ipam_state \<Rightarrow> bool" where
  "same_config st st' \<longleftrightarrow> excluded_ips st' = excluded_ips st \<and> ipam_usable st' = ipam_usable st \<and>
     (\<forall>fam. (allocator_of fam st' = None) = (allocator_of fam st = None))"

lemma same_config_refl [simp]: "same_config st st"
  by (simp add: same_config_def)

lemma same_config_trans: "same_config a b \<Longrightarrow> same_config b c \<Longrightarrow> same_config a c"
  by (simp add: same_config_def)

lemma same_config_excluded: "same_config st st' \<Longrightarrow> excluded pool st' ip = excluded pool st ip"
  by (simp add: same_config_def excluded_def)

lemma family_of_usable:
  "net_family (hs_net hs) = fam \<Longrightarrow> ip \<in> hs_usable hs \<Longrightarrow> family_of ip = fam"
  by (cases "hs_net hs"; cases ip) (auto simp: hs_usable_def)

lemma family_of_used:
  assumes "ipam_inv st" "allocator_of fam st = Some hs" "ip \<in> hs_used hs"
  shows "family_of ip = fam"
  using assms hs_used_usable family_of_usable unfolding ipam_inv_def by blast

lemma register_frame [simp, frame_simps]:
  "excluded_ips (register_ip_owner ip own pool st) = excluded_ips st"
  "ipv4_allocator (register_ip_owner ip own pool st) = ipv4_allocator st"
  "ipv6_allocator (register_ip_owner ip own pool st) = ipv6_allocator st"
  by (simp_all add: register_ip_owner_def Let_def)

lemma set_allocator_frame [simp, frame_simps]:
  "excluded_ips (set_allocator fam hs st) = excluded_ips st" "owner (set_allocator fam hs st) = owner st"
  by (cases fam; simp)+

lemma used_register [simp]:
  "ipam_used (register_ip_owner ip own pool st) = ipam_used st"
  "ipam_usable (register_ip_owner ip own pool st) = ipam_usable st"
  "ipam_inv (register_ip_owner ip own pool st) = ipam_inv st"
  "excluded p (register_ip_owner ip own pool st) x = excluded p st x"
  by (simp_all add: ipam_used_def ipam_usable_def ipam_inv_def excluded_def)

lemma release_owner_frame [simp, frame_simps]:
  "allocator_of fam (snd (release_ip_owner ip pool st)) = allocator_of fam st"
  "excluded_ips (snd (release_ip_owner ip pool st)) = excluded_ips st"
  by (cases fam; auto simp: release_ip_owner_def Let_def split: option.splits)+

lemma used_release_owner [simp]:
  "ipam_used (snd (release_ip_owner ip pool st)) = ipam_used st"
  "ipam_usable (snd (release_ip_owner ip pool st)) = ipam_usable st"
  "ipam_inv (snd (release_ip_owner ip pool st)) = ipam_inv st"
  by (simp_all add: ipam_used_def ipam_usable_def ipam_inv_def)

text \<open>Replacing one allocator by a state of itself.\<close>

lemma set_allocator_correct:
  assumes "ipam_inv st" "allocator_of fam st = Some hs" "hs_inv hs'" "hs_net hs' = hs_net hs"
    "hs_usable hs' = hs_usable hs"
  shows "ipam_inv (set_allocator fam hs' st)" "same_config st (set_allocator fam hs' st)"
    "ipam_used (set_allocator fam hs' st) = ipam_used st - hs_used hs \<union> hs_used hs'"
proof -
  have fam: "net_family (hs_net hs) = fam" "hs_inv hs" using assms(1,2) by (auto simp: ipam_inv_def)
  show "ipam_inv (set_allocator fam hs' st)"
    using assms fam unfolding ipam_inv_def by auto
  show "same_config st (set_allocator fam hs' st)"
  proof -
    have "ipam_usable (set_allocator fam hs' st) = ipam_usable st"
      using assms(2,5) unfolding ipam_usable_def allocator_of_set by (metis option.inject)
    with assms(2) show ?thesis by (simp add: same_config_def)
  qed
  have "hs_used hs \<subseteq> {ip. family_of ip = fam}" "hs_used hs' \<subseteq> {ip. family_of ip = fam}"
    using hs_used_usable [OF fam(2)] hs_used_usable [OF assms(3)] family_of_usable [OF fam(1)] assms(5)
    by auto
  then show "ipam_used (set_allocator fam hs' st) = ipam_used st - hs_used hs \<union> hs_used hs'"
    using assms(2) by (auto simp: ipam_used_def split: if_splits)
qed

lemma ipam_new_inv:
  assumes "ipnet_docs L" "\<And>n. ipv4 = Some n \<Longrightarrow> net_wf n \<and> net_family n = Ipv4"
    "\<And>n. ipv6 = Some n \<Longrightarrow> net_wf n \<and> net_family n = Ipv6"
  shows "ipam_inv (svc_state (ipam_new L gw ipv4 ipv6))"
    "ipam_used (svc_state (ipam_new L gw ipv4 ipv6)) = {}"
proof -
  have inv: "hs_inv hs \<and> net_family (hs_net hs) = fam \<and> hs_used hs = {}"
    if "allocator_of fam (svc_state (ipam_new L gw ipv4 ipv6)) = Some hs" for fam hs
    using that hs_new_correct [OF assms(1) conjunct1 [OF assms(2)]]
      hs_new_correct [OF assms(1) conjunct1 [OF assms(3)]] assms(2,3)
    by (cases fam) (auto simp: ipam_new_def)
  then show "ipam_inv (svc_state (ipam_new L gw ipv4 ipv6))"
    unfolding ipam_inv_def by blast
  show "ipam_used (svc_state (ipam_new L gw ipv4 ipv6)) = {}"
    using inv unfolding ipam_used_def by blast
qed

lemma get_owner_register [simp]:
  "get_ip_owner (ip_str x) p (register_ip_owner ip own pool st) =
     (if x = ip \<and> p = pool then own else get_ip_owner (ip_str x) p st)"
  by (auto simp: get_ip_owner_def register_ip_owner_def Let_def update_conv' split: option.splits)

lemma get_owner_set_allocator [simp]:
  "get_ip_owner x p (set_allocator fam hs st) = get_ip_owner x p st"
  by (simp add: get_ip_owner_def)

section \<open>Specific addresses\<close>

lemma allocate_ip_correct:
  assumes "ipnet_docs L" "ipam_inv st" "pool \<noteq> []" "\<not> excluded pool st ip"
    "allocator_of (family_of ip) st = Some hs" "allocate_ip L ip own pool st = (res, st')"
  shows "ipam_inv st'" "same_config st st'"
    "(case res of
        Ok r \<Rightarrow> ar_ip r = ip \<and> ip \<in> ipam_usable st - ipam_used st \<and>
          ipam_used st' = insert ip (ipam_used st) \<and> get_ip_owner (ip_str ip) pool st' = own
      | Err e \<Rightarrow> ipam_used st' = ipam_used st \<and>
          e = (if ip \<in> ipam_used st then AlreadyAllocated else NotInRange (lib_net_str L (hs_net hs))))"
proof -
  obtain r hs' where a: "hs_allocate L hs ip = (r, hs')" by fastforce
  have hinv: "hs_inv hs" and fam: "net_family (hs_net hs) = family_of ip"
    using assms(2,5) by (auto simp: ipam_inv_def)
  note h = hs_allocate_correct [OF assms(1) hinv a]
  note s = set_allocator_correct [OF assms(2,5) h(3,5,4)]
  have loc: "ip \<in> ipam_used st \<longleftrightarrow> ip \<in> hs_used hs" "ip \<in> ipam_usable st \<longleftrightarrow> ip \<in> hs_usable hs"
    using assms(5) by (auto simp: ipam_used_def ipam_usable_def)
  have sub: "hs_used hs \<subseteq> ipam_used st"
    using family_of_used [OF assms(2,5)] assms(5) by (auto simp: ipam_used_def)
  have "allocate_ip L ip own pool st = (case r of Err e \<Rightarrow> (Err e, set_allocator (family_of ip) hs' st)
      | Ok ip' \<Rightarrow> (Ok \<lparr>ar_ip = ip', ip_pool_name = POOL_DEFAULT\<rparr>,
          register_ip_owner ip' own pool (set_allocator (family_of ip) hs' st)))"
    using assms(3-5) by (auto simp: allocate_ip_def a excluded_def split: result.splits)
  with assms(6) have st': "case r of Err e \<Rightarrow> res = Err e \<and> st' = set_allocator (family_of ip) hs' st
      | Ok ip' \<Rightarrow> res = Ok \<lparr>ar_ip = ip', ip_pool_name = POOL_DEFAULT\<rparr> \<and>
          st' = register_ip_owner ip' own pool (set_allocator (family_of ip) hs' st)"
    by (auto split: result.splits)
  then show "ipam_inv st'" "same_config st st'"
    using s(1,2) by (auto simp: same_config_def split: result.splits)
  show "(case res of
        Ok r \<Rightarrow> ar_ip r = ip \<and> ip \<in> ipam_usable st - ipam_used st \<and>
          ipam_used st' = insert ip (ipam_used st) \<and> get_ip_owner (ip_str ip) pool st' = own
      | Err e \<Rightarrow> ipam_used st' = ipam_used st \<and>
          e = (if ip \<in> ipam_used st then AlreadyAllocated else NotInRange (lib_net_str L (hs_net hs))))"
    using st' h(1,2) s(3) sub hs_used_usable [OF hinv]
    by (auto simp: loc hs_avail_def split: result.splits if_splits)
qed

lemma release_ip_correct:
  assumes "ipnet_docs L" "ipam_inv st" "pool \<noteq> []" "allocator_of (family_of ip) st = Some hs"
    "release_ip L ip pool st = (res, st')"
  shows "res = Ok ()" "ipam_inv st'" "same_config st st'" "ipam_used st' = ipam_used st - {ip}"
proof -
  have hinv: "hs_inv hs" using assms(2,4) by (auto simp: ipam_inv_def)
  note h = hs_release_correct [OF assms(1) hinv, of ip]
  note s = set_allocator_correct [OF assms(2,4) h(2,4,3)]
  have sub: "hs_used hs \<subseteq> ipam_used st"
    using family_of_used [OF assms(2,4)] assms(4) by (auto simp: ipam_used_def)
  have ip: "ip \<in> ipam_used st \<longleftrightarrow> ip \<in> hs_used hs" using assms(4) by (auto simp: ipam_used_def)
  have "res = Ok () \<and> st' = snd (release_ip_owner ip pool (set_allocator (family_of ip) (hs_release L ip hs) st))"
    using assms(3-5) by (auto simp: release_ip_def release_ip_locked_def)
  then show "res = Ok ()" "ipam_inv st'" "same_config st st'" "ipam_used st' = ipam_used st - {ip}"
    using s h(1) sub ip by (auto simp: same_config_def)
qed

section \<open>The next free address\<close>

text \<open>What one call of \<open>allocate_next_family\<close> promises: the invariant and the configuration are
  kept, nothing is freed, the other family is untouched; a granted address was free, is not
  excluded and now has the owner, and everything else that was consumed on the way is excluded;
  the only failure is a full range, and then every address still free at the start was excluded.\<close>

definition ipam_avail :: "family \<Rightarrow> ipam_state \<Rightarrow> ip_addr set" where
  "ipam_avail fam st = {ip \<in> ipam_usable st - ipam_used st. family_of ip = fam}"

definition next_post ::
  "family \<Rightarrow> string \<Rightarrow> string \<Rightarrow> ipam_state \<Rightarrow> (alloc_result, ipam_error) result \<Rightarrow> ipam_state \<Rightarrow> bool" where
  "next_post fam own pool st res st' \<longleftrightarrow>
     ipam_inv st' \<and> same_config st st' \<and> ipam_used st \<subseteq> ipam_used st' \<and>
     ipam_used st' - ipam_used st \<subseteq> ipam_avail fam st \<and>
     (\<forall>f. f \<noteq> fam \<longrightarrow> allocator_of f st' = allocator_of f st) \<and>
     (\<forall>ip p. ip \<notin> ipam_used st' - ipam_used st \<longrightarrow>
        get_ip_owner (ip_str ip) p st' = get_ip_owner (ip_str ip) p st) \<and>
     (case res of
        Ok r \<Rightarrow> ip_pool_name r = POOL_DEFAULT \<and> ar_ip r \<in> ipam_used st' - ipam_used st \<and>
          \<not> excluded pool st (ar_ip r) \<and> get_ip_owner (ip_str (ar_ip r)) pool st' = own \<and>
          (\<forall>ip \<in> ipam_used st' - ipam_used st. ip \<noteq> ar_ip r \<longrightarrow> excluded pool st ip)
      | Err e \<Rightarrow> e = RangeFull \<and> (\<forall>ip \<in> ipam_avail fam st. excluded pool st ip))"

text \<open>One draw from the family's range.\<close>

lemma draw_correct:
  assumes "ipam_inv st" "allocator_of fam st = Some hs" "hs_allocate_next r hs = (res, hs')"
  shows "(res = Err RangeFull \<and> ipam_avail fam st = {} \<and> set_allocator fam hs' st = st) \<or>
    (\<exists>ip. res = Ok ip \<and> ip \<in> ipam_avail fam st \<and>
       ipam_used (set_allocator fam hs' st) = insert ip (ipam_used st) \<and>
       ipam_inv (set_allocator fam hs' st) \<and> same_config st (set_allocator fam hs' st))"
proof -
  have hinv: "hs_inv hs" "net_family (hs_net hs) = fam" using assms(1,2) by (auto simp: ipam_inv_def)
  have av: "ipam_avail fam st = hs_avail hs"
  proof (rule set_eqI)
    fix x
    show "x \<in> ipam_avail fam st \<longleftrightarrow> x \<in> hs_avail hs"
      using assms(2) family_of_usable [OF hinv(2), of x]
      by (cases "family_of x = fam")
        (simp_all add: ipam_avail_def ipam_usable_def ipam_used_def hs_avail_def, blast)
  qed
  have sub: "hs_used hs \<subseteq> ipam_used st"
    using family_of_used [OF assms(1,2)] assms(2) by (auto simp: ipam_used_def)
  have noop: "set_allocator fam hs st = st" using assms(2) by (cases fam) simp_all
  from hs_allocate_next_correct [OF hinv(1) assms(3)] show ?thesis
  proof (elim disjE exE conjE)
    fix ip assume h: "res = Ok ip" "ip \<in> hs_avail hs" "hs_used hs' = insert ip (hs_used hs)"
      "hs_inv hs'" "hs_usable hs' = hs_usable hs" "hs_net hs' = hs_net hs"
    note s = set_allocator_correct [OF assms(1,2) h(4,6,5)]
    have "ipam_used (set_allocator fam hs' st) = insert ip (ipam_used st)"
      unfolding s(3) h(3) using sub by auto
    with s h(1,2) show ?thesis unfolding av by blast
  qed (simp add: av noop)
qed

lemma next_post_refl_Err:
  "ipam_inv st \<Longrightarrow> ipam_avail fam st = {} \<Longrightarrow> next_post fam own pool st (Err RangeFull) st"
  by (simp add: next_post_def)

lemma next_post_step:
  assumes "next_post fam own pool st1 res st'" "ip \<in> ipam_avail fam st"
    "ipam_used st1 = insert ip (ipam_used st)" "same_config st st1" "excluded pool st ip"
    "\<And>f. f \<noteq> fam \<Longrightarrow> allocator_of f st1 = allocator_of f st"
    "\<And>x p. x \<noteq> ip \<Longrightarrow> get_ip_owner (ip_str x) p st1 = get_ip_owner (ip_str x) p st"
  shows "next_post fam own pool st res st'"
proof -
  have av: "ipam_avail fam st = insert ip (ipam_avail fam st1)" "ip \<notin> ipam_used st"
    using assms(2,3,4) by (auto simp: ipam_avail_def same_config_def)
  have ex: "excluded pool st1 x = excluded pool st x" for x
    using assms(4) by (rule same_config_excluded)
  have tr: "same_config st st'" using assms(1,4) same_config_trans by (auto simp: next_post_def)
  have ow: "get_ip_owner (ip_str x) p st' = get_ip_owner (ip_str x) p st"
    if "x \<notin> ipam_used st' - ipam_used st" for x p
  proof -
    have "x \<noteq> ip" "x \<notin> ipam_used st' - ipam_used st1"
      using that assms(1,3) av(2) by (auto simp: next_post_def)
    then show ?thesis using assms(1,7) by (simp add: next_post_def)
  qed
  show ?thesis
    using assms(1) av tr assms(3,5,6) unfolding next_post_def ex
    by (cases res) (auto simp: ow)
qed

lemma anf_loop_correct:
  assumes "ipam_inv st" "allocator_of fam st \<noteq> None" "anf_loop rnd i fam own pool st = (res, st')"
  shows "next_post fam own pool st res st'"
  using assms
proof (induction rnd i fam own pool st arbitrary: res st' rule: anf_loop.induct)
  case (1 rnd i fam own pool st)
  obtain hs where hs: "allocator_of fam st = Some hs" using "1.prems"(2) by auto
  obtain r hs' where a: "hs_allocate_next (rnd i) hs = (r, hs')" by fastforce
  note d = draw_correct [OF "1.prems"(1) hs a]
  note unf = "1.prems"(3) [unfolded anf_loop.simps [of rnd i fam own pool st], simplified hs a prod.case option.case]
  show ?case
  proof (cases r)
    case (Err e)
    with d unf show ?thesis using next_post_refl_Err "1.prems"(1) by auto
  next
    case (Ok ip)
    let ?st = "set_allocator fam hs' st"
    from Ok d have ip: "ip \<in> ipam_avail fam st" "ipam_used ?st = insert ip (ipam_used st)"
      "ipam_inv ?st" "same_config st ?st" by auto
    have cfg: "same_config st (register_ip_owner ip own' pool ?st)" for own'
      using ip(4) by (simp add: same_config_def)
    show ?thesis
    proof (cases "excluded pool st ip")
      case False
      then have "res = Ok \<lparr>ar_ip = ip, ip_pool_name = POOL_DEFAULT\<rparr>" "st' = register_ip_owner ip own pool ?st"
        using unf Ok by (auto simp: excluded_def)
      with ip cfg False show ?thesis by (auto simp: next_post_def ipam_avail_def)
    next
      case True
      let ?st1 = "register_ip_owner ip (own @ '' (excluded)'') pool ?st"
      have "anf_loop rnd (i + 1) fam own pool ?st1 = (res, st')"
        using unf Ok True by (auto simp: excluded_def)
      then have "next_post fam own pool ?st1 res st'"
        using "1.IH" [OF hs a [symmetric] Ok] True ip(3) by (auto simp: excluded_def)
      then show ?thesis
        using ip cfg True by (intro next_post_step [of fam own pool ?st1 res st' ip st]) simp_all
    qed
  qed
qed

lemma allocate_next_family_correct:
  assumes "ipam_inv st" "allocator_of fam st \<noteq> None" "pool \<noteq> []"
    "allocate_next_family rnd fam own pool st = (res, st')"
  shows "next_post fam own pool st res st'"
  using assms by (auto simp: allocate_next_family_def intro: anf_loop_correct)

text \<open>Both families: what was asked for and is configured is granted, or nothing is: an address
  that was granted for one family before the other one failed is given back.\<close>

definition wanted :: "family option \<Rightarrow> ipam_state \<Rightarrow> family \<Rightarrow> bool" where
  "wanted req st fam \<longleftrightarrow> (req = None \<or> req = Some fam) \<and> allocator_of fam st \<noteq> None"

definition grant_ok ::
  "string \<Rightarrow> string \<Rightarrow> ipam_state \<Rightarrow> ipam_state \<Rightarrow> family \<Rightarrow> alloc_result \<Rightarrow> bool" where
  "grant_ok own pool st st' fam r \<longleftrightarrow> ar_ip r \<in> ipam_avail fam st \<and> ar_ip r \<in> ipam_used st' \<and>
     \<not> excluded pool st (ar_ip r) \<and> get_ip_owner (ip_str (ar_ip r)) pool st' = own"

definition both_post ::
  "family option \<Rightarrow> string \<Rightarrow> string \<Rightarrow> ipam_state \<Rightarrow>
     (alloc_result option \<times> alloc_result option, ipam_error) result \<Rightarrow> ipam_state \<Rightarrow> bool" where
  "both_post req own pool st res st' \<longleftrightarrow>
     ipam_inv st' \<and> same_config st st' \<and> ipam_used st \<subseteq> ipam_used st' \<and>
     (case res of
        Ok (r4, r6) \<Rightarrow>
          (r4 \<noteq> None \<longleftrightarrow> wanted req st Ipv4) \<and> (\<forall>r. r4 = Some r \<longrightarrow> grant_ok own pool st st' Ipv4 r) \<and>
          (r6 \<noteq> None \<longleftrightarrow> wanted req st Ipv6) \<and> (\<forall>r. r6 = Some r \<longrightarrow> grant_ok own pool st st' Ipv6 r)
      | Err e \<Rightarrow> e = RangeFull \<and> (\<forall>ip \<in> ipam_used st' - ipam_used st. excluded pool st ip) \<and>
          (\<exists>fam. wanted req st fam \<and> (\<forall>ip \<in> ipam_avail fam st. excluded pool st ip)))"

lemma next_post_grant:
  "next_post fam own pool st (Ok r) st' \<Longrightarrow> grant_ok own pool st st' fam r"
  by (auto simp: next_post_def grant_ok_def)

lemma next_post_avail_other:
  assumes "next_post fam own pool st res st'" "f \<noteq> fam"
  shows "ipam_avail f st' = ipam_avail f st"
proof -
  have u: "ipam_usable st' = ipam_usable st" and d: "ipam_used st' - ipam_used st \<subseteq> ipam_avail fam st"
    and m: "ipam_used st \<subseteq> ipam_used st'"
    using assms(1) by (simp_all add: next_post_def same_config_def)
  show ?thesis unfolding ipam_avail_def u using d m assms(2) by (auto simp: ipam_avail_def)
qed

text \<open>A second draw for another family keeps the first grant.\<close>

lemma grant_ok_later:
  assumes "grant_ok own pool st st1 fam r" "next_post f own pool st1 res st2" "same_config st st1"
  shows "grant_ok own pool st st2 fam r"
  using assms by (auto simp: grant_ok_def next_post_def)

lemma grant_ok_earlier:
  assumes "grant_ok own pool st1 st2 fam r" "next_post f own pool st (Ok r') st1" "fam \<noteq> f"
  shows "grant_ok own pool st st2 fam r"
  using assms next_post_avail_other [OF assms(2,3)]
  by (auto simp: grant_ok_def next_post_def same_config_excluded)

lemma both_post_rollback:
  assumes docs: "ipnet_docs L" and p6: "next_post Ipv6 own pool st (Ok r) st1"
    and p4: "next_post Ipv4 own pool st1 (Err e) st2" and w: "wanted req st Ipv4"
  shows "both_post req own pool st (Err e) (snd (release_ip L (ar_ip r) (ip_pool_name r) st2))"
proof -
  have g: "grant_ok own pool st st1 Ipv6 r" using p6 by (rule next_post_grant)
  have pool: "ip_pool_name r \<noteq> []" and cfg: "same_config st st1" "same_config st1 st2" and inv: "ipam_inv st2"
    using p6 p4 by (auto simp: next_post_def POOL_DEFAULT_def)
  have fam: "family_of (ar_ip r) = Ipv6" using g by (simp add: grant_ok_def ipam_avail_def)
  obtain hs where hs: "allocator_of (family_of (ar_ip r)) st2 = Some hs"
    using g p4 by (auto simp: grant_ok_def next_post_def ipam_used_def)
  obtain res st' where rel: "release_ip L (ar_ip r) (ip_pool_name r) st2 = (res, st')" by fastforce
  note rc = release_ip_correct [OF docs inv pool hs rel]
  have av: "ipam_avail Ipv4 st1 = ipam_avail Ipv4 st" using p6 next_post_avail_other by blast
  have ex: "excluded pool st1 x = excluded pool st x" for x using cfg(1) by (rule same_config_excluded)
  have same: "same_config st st'" using cfg rc(3) by (blast intro: same_config_trans)
  have sub: "ipam_used st \<subseteq> ipam_used st'"
    using p6 p4 unfolding rc(4) next_post_def by auto
  have "\<forall>ip \<in> ipam_used st' - ipam_used st. excluded pool st ip"
    using p6 p4 unfolding rc(4) next_post_def ex by (auto simp: av)
  moreover have "e = RangeFull" "\<forall>ip \<in> ipam_avail Ipv4 st. excluded pool st ip"
    using p4 unfolding next_post_def av ex by auto
  ultimately show ?thesis
    using same sub rc(2) w unfolding both_post_def rel by auto
qed

lemma both_post_v6_failed:
  "next_post Ipv6 own pool st (Err e) st' \<Longrightarrow> wanted req st Ipv6 \<Longrightarrow> both_post req own pool st (Err e) st'"
  by (auto simp: next_post_def both_post_def)

lemma both_post_v4_failed:
  "next_post Ipv4 own pool st (Err e) st' \<Longrightarrow> wanted req st Ipv4 \<Longrightarrow> both_post req own pool st (Err e) st'"
  by (auto simp: next_post_def both_post_def)

lemma both_post_v6_only:
  "next_post Ipv6 own pool st (Ok r) st' \<Longrightarrow> wanted req st Ipv6 \<Longrightarrow> \<not> wanted req st Ipv4 \<Longrightarrow>
     both_post req own pool st (Ok (None, Some r)) st'"
  using next_post_grant [of Ipv6 own pool st r st'] by (auto simp: next_post_def both_post_def)

lemma both_post_v4_only:
  "next_post Ipv4 own pool st (Ok r) st' \<Longrightarrow> wanted req st Ipv4 \<Longrightarrow> \<not> wanted req st Ipv6 \<Longrightarrow>
     both_post req own pool st (Ok (Some r, None)) st'"
  using next_post_grant [of Ipv4 own pool st r st'] by (auto simp: next_post_def both_post_def)

lemma both_post_both:
  assumes "next_post Ipv6 own pool st (Ok r6) st1" "next_post Ipv4 own pool st1 (Ok r4) st2"
    "wanted req st Ipv4" "wanted req st Ipv6"
  shows "both_post req own pool st (Ok (Some r4, Some r6)) st2"
proof -
  have cfg: "same_config st st1" "same_config st1 st2" using assms(1,2) by (simp_all add: next_post_def)
  have "grant_ok own pool st st2 Ipv6 r6"
    using next_post_grant [OF assms(1)] assms(2) cfg(1) by (rule grant_ok_later)
  moreover have "grant_ok own pool st st2 Ipv4 r4"
    using next_post_grant [OF assms(2)] assms(1) by (rule grant_ok_earlier) simp
  moreover have "ipam_inv st2" "ipam_used st \<subseteq> ipam_used st2" "same_config st st2"
    using assms(1,2) same_config_trans [OF cfg] by (auto simp: next_post_def)
  ultimately show ?thesis using assms(3,4) by (simp add: both_post_def)
qed

lemma allocate_next_correct:
  assumes "ipnet_docs L" "ipam_inv st" "pool \<noteq> []"
    "allocate_next L rnd6 rnd4 req own pool st = (res, st')"
  shows "both_post req own pool st res st'"
proof -
  obtain a6 s6 where n6: "allocate_next_family rnd6 Ipv6 own pool st = (a6, s6)" by fastforce
  obtain a4 s4 where n4: "allocate_next_family rnd4 Ipv4 own pool st = (a4, s4)" by fastforce
  obtain b4 t4 where m4: "allocate_next_family rnd4 Ipv4 own pool s6 = (b4, t4)" by fastforce
  have p6: "wanted req st Ipv6 \<Longrightarrow> next_post Ipv6 own pool st a6 s6"
    using allocate_next_family_correct [OF assms(2) _ assms(3) n6] by (simp add: wanted_def)
  have p4: "wanted req st Ipv4 \<Longrightarrow> next_post Ipv4 own pool st a4 s4"
    using allocate_next_family_correct [OF assms(2) _ assms(3) n4] by (simp add: wanted_def)
  have q4: "next_post Ipv4 own pool s6 b4 t4" if "wanted req st Ipv6" "wanted req st Ipv4"
  proof -
    have "ipam_inv s6" "same_config st s6" using p6 [OF that(1)] by (simp_all add: next_post_def)
    moreover from this have "allocator_of Ipv4 s6 \<noteq> None"
      using that(2) unfolding same_config_def wanted_def by metis
    ultimately show ?thesis using allocate_next_family_correct [OF _ _ assms(3) m4] by blast
  qed
  have w: "wanted req st Ipv6 \<longleftrightarrow> (req = None \<or> req = Some Ipv6) \<and> ipv6_allocator st \<noteq> None"
    "wanted req st Ipv4 \<longleftrightarrow> (req = None \<or> req = Some Ipv4) \<and> ipv4_allocator st \<noteq> None"
    by (simp_all add: wanted_def)
  note def = assms(4) [unfolded allocate_next_def Let_def w [symmetric]]
  consider "wanted req st Ipv6" "wanted req st Ipv4" | "wanted req st Ipv6" "\<not> wanted req st Ipv4"
    | "\<not> wanted req st Ipv6" "wanted req st Ipv4" | "\<not> wanted req st Ipv6" "\<not> wanted req st Ipv4"
    by blast
  then show ?thesis
  proof cases
    case 1
    with def show ?thesis
      using p6 q4 both_post_v6_failed both_post_rollback [OF assms(1)] both_post_both
      by (auto simp: n6 m4 split: result.splits)
  next
    case 2
    with def show ?thesis
      using p6 both_post_v6_failed both_post_v6_only by (auto simp: n6 split: result.splits)
  next
    case 3
    with def show ?thesis
      using p4 both_post_v4_failed both_post_v4_only by (auto simp: n4 split: result.splits)
  next
    case 4
    with def assms(2) show ?thesis by (auto simp: both_post_def)
  qed
qed

text \<open>What a successful allocation consumes besides what it grants is excluded, and every grant names the default pool.\<close>

lemma next_post_consumes:
  "next_post fam own pool st (Ok r) st' \<Longrightarrow> ipam_used st' - ipam_used st \<subseteq> insert (ar_ip r) {ip. excluded pool st ip} \<and> ip_pool_name r = POOL_DEFAULT"
  by (auto simp: next_post_def)

lemma allocate_next_consumes:
  assumes "ipam_inv st" "pool \<noteq> []" "allocate_next L rnd6 rnd4 None own pool st = (Ok (r4, r6), st')"
  shows "ipam_used st' - ipam_used st \<subseteq> ar_ip ` (set_option r4 \<union> set_option r6) \<union> {ip. excluded pool st ip} \<and>
    (\<forall>r \<in> set_option r4 \<union> set_option r6. ip_pool_name r = POOL_DEFAULT)"
proof -
  obtain a6 s6 where n6: "allocate_next_family rnd6 Ipv6 own pool st = (a6, s6)" by fastforce
  obtain s1 where s1: "ipam_used s1 - ipam_used st \<subseteq> ar_ip ` set_option r6 \<union> {ip. excluded pool st ip}"
    "\<forall>r \<in> set_option r6. ip_pool_name r = POOL_DEFAULT" "ipam_inv s1" "same_config st s1"
    "(if ipv4_allocator st = None then r4 = None \<and> st' = s1
      else \<exists>r. r4 = Some r \<and> allocate_next_family rnd4 Ipv4 own pool s1 = (Ok r, st'))"
  proof (cases "ipv6_allocator st = None")
    case True
    then show ?thesis using assms that [of st] by (auto simp: allocate_next_def Let_def split: result.splits prod.splits if_splits)
  next
    case False
    then have p: "next_post Ipv6 own pool st a6 s6" using allocate_next_family_correct [OF assms(1) _ assms(2) n6] by simp
    obtain r where r: "a6 = Ok r" "r6 = Some r" using assms(3) False
      by (auto simp: allocate_next_def Let_def n6 split: result.splits prod.splits if_splits)
    show ?thesis using next_post_consumes [OF p [unfolded r]] p assms(3) False
      by (intro that [of s6]) (auto simp: r n6 next_post_def allocate_next_def Let_def split: result.splits prod.splits if_splits)
  qed
  show ?thesis
  proof (cases "ipv4_allocator st = None")
    case True
    then show ?thesis using s1 by simp
  next
    case False
    then obtain r where r: "r4 = Some r" "allocate_next_family rnd4 Ipv4 own pool s1 = (Ok r, st')" using s1(5) by auto
    have "allocator_of Ipv4 s1 \<noteq> None" using s1(4) False unfolding same_config_def by (metis allocator_of.simps(1))
    from next_post_consumes [OF allocate_next_family_correct [OF s1(3) this assms(2) r(2)]]
    have "ipam_used st' - ipam_used s1 \<subseteq> insert (ar_ip r) {ip. excluded pool st ip}" "ip_pool_name r = POOL_DEFAULT"
      using same_config_excluded [OF s1(4)] by auto
    then show ?thesis using s1(1,2) r(1) by auto
  qed
qed

lemma ipam_release_frees:
  assumes "ipnet_docs L" "ipam_inv (svc_state svc)" "pool \<noteq> Some []" "ipam_release L a pool svc = (res, svc')"
  shows "ipam_inv (svc_state svc') \<and> ipam_used (svc_state svc') = ipam_used (svc_state svc) - {a} \<and>
    same_config (svc_state svc) (svc_state svc')"
proof -
  have p: "unwrap_or POOL_DEFAULT pool \<noteq> []" using assms(3) by (cases pool) (auto simp: unwrap_or_def POOL_DEFAULT_def)
  obtain st' where r: "release_ip L a (unwrap_or POOL_DEFAULT pool) (svc_state svc) = (res, st')" "svc_state svc' = st'"
    using assms(4) by (auto simp: ipam_release_def split: prod.splits)
  show ?thesis
  proof (cases "allocator_of (family_of a) (svc_state svc)")
    case None
    then show ?thesis using r p assms(2) by (auto simp: release_ip_def release_ip_locked_def ipam_used_def)
  next
    case (Some hs)
    then show ?thesis using release_ip_correct [OF assms(1,2) p Some r(1)] r(2) by simp
  qed
qed

section \<open>Sequences of requests\<close>

text \<open>A client of the service: requests in any order, with the events they cause. An address is
  identified in the events by its printed form, which is what responses carry.\<close>

datatype ipam_op =
    OpAllocate "nat \<Rightarrow> nat" "nat \<Rightarrow> nat" "string option" "string option" "string option"
  | OpAllocateIp ip_addr "string option" "string option"
  | OpRelease ip_addr "string option"
  | OpExclude ip_addr string string

datatype ipam_event = Granted string | Released string

definition resp_events :: "ipam_allocate_response \<Rightarrow> ipam_event list" where
  "resp_events r = map Granted (map ca_ip (granted [resp_ipv6 r, resp_ipv4 r]))"

fun ipam_step :: "ipnet_lib \<Rightarrow> ipam_op \<Rightarrow> ipam_service \<Rightarrow> ipam_event list \<times> ipam_service" where
  "ipam_step L (OpAllocate rnd6 rnd4 fam own pool) svc =
     (case ipam_allocate L rnd6 rnd4 fam own pool svc of
        (Ok r, svc') \<Rightarrow> (resp_events r, svc') | (Err _, svc') \<Rightarrow> ([], svc'))"
| "ipam_step L (OpAllocateIp ip own pool) svc =
     (case ipam_allocate_ip L ip own pool svc of
        (Ok _, svc') \<Rightarrow> ([Granted (ip_str ip)], svc') | (Err _, svc') \<Rightarrow> ([], svc'))"
| "ipam_step L (OpRelease ip pool) svc =
     (case ipam_release L ip pool svc of
        (Ok _, svc') \<Rightarrow> ([Released (ip_str ip)], svc') | (Err _, svc') \<Rightarrow> ([], svc'))"
| "ipam_step L (OpExclude ip own pool) svc = ([], svc\<lparr>svc_state := exclude_ip ip own pool (svc_state svc)\<rparr>)"

fun ipam_run :: "ipnet_lib \<Rightarrow> ipam_op list \<Rightarrow> ipam_service \<Rightarrow> ipam_event list \<times> ipam_service" where
  "ipam_run L [] svc = ([], svc)"
| "ipam_run L (c # cs) svc =
     (case ipam_step L c svc of (es, svc1) \<Rightarrow> case ipam_run L cs svc1 of (fs, svc2) \<Rightarrow> (es @ fs, svc2))"

text \<open>No address is granted while it is held.\<close>

fun exclusive :: "string set \<Rightarrow> ipam_event list \<Rightarrow> bool" where
  "exclusive held [] = True"
| "exclusive held (Granted ip # es) = (ip \<notin> held \<and> exclusive (insert ip held) es)"
| "exclusive held (Released ip # es) = exclusive (held - {ip}) es"

fun held_after :: "string set \<Rightarrow> ipam_event list \<Rightarrow> string set" where
  "held_after held [] = held"
| "held_after held (Granted ip # es) = held_after (insert ip held) es"
| "held_after held (Released ip # es) = held_after (held - {ip}) es"

lemma exclusive_append:
  "exclusive held (es @ fs) = (exclusive held es \<and> exclusive (held_after held es) fs)"
  "held_after held (es @ fs) = held_after (held_after held es) fs"
  by (induction held es rule: exclusive.induct) auto

definition holds_used :: "string set \<Rightarrow> ipam_service \<Rightarrow> bool" where
  "holds_used held svc \<longleftrightarrow> ipam_inv (svc_state svc) \<and> held \<subseteq> ip_str ` ipam_used (svc_state svc)"

lemma step_allocate:
  assumes "ipnet_docs L" "holds_used held svc" "ipam_step L (OpAllocate rnd6 rnd4 fam own pool) svc = (es, svc')"
  shows "exclusive held es \<and> holds_used (held_after held es) svc'"
proof -
  let ?req = "if fam = Some ''ipv4'' then Some Ipv4 else if fam = Some ''ipv6'' then Some Ipv6 else None"
  let ?own = "unwrap_or [] own" and ?pool = "unwrap_or POOL_DEFAULT pool" and ?st = "svc_state svc"
  obtain res st' where a: "allocate_next L rnd6 rnd4 ?req ?own ?pool ?st = (res, st')" by fastforce
  have svc': "svc_state svc' = st'" and es: "es = (case res of Err _ \<Rightarrow> []
      | Ok (r4, r6) \<Rightarrow> map (Granted \<circ> ip_str \<circ> ar_ip) (granted [r6, r4]))"
    using assms(3) a
    by (auto simp: ipam_allocate_def Let_def resp_events_def to_addressing_def granted_def
        List.map_filter_def split: result.splits option.splits)
  have inv: "ipam_inv ?st" "held \<subseteq> ip_str ` ipam_used ?st" using assms(2) by (simp_all add: holds_used_def)
  show ?thesis
  proof (cases "?pool = []")
    case True
    with a have "st' = ?st \<and> (case res of Err _ \<Rightarrow> True | Ok (r4, r6) \<Rightarrow> r4 = None \<and> r6 = None)"
      by (auto simp: allocate_next_def allocate_next_family_def Let_def split: if_splits)
    then show ?thesis
      using inv svc' es by (auto simp: holds_used_def split: result.splits prod.splits)
  next
    case False
    note post = allocate_next_correct [OF assms(1) inv(1) False a]
    show ?thesis
    proof (cases res)
      case (Err e)
      with post es svc' inv show ?thesis by (auto simp: both_post_def holds_used_def)
    next
      case (Ok rr)
      obtain r4 r6 where rr: "rr = (r4, r6)" by fastforce
      have new: "ip_str (ar_ip r) \<notin> held \<and> ar_ip r \<in> ipam_used st' \<and> family_of (ar_ip r) = f"
        if "grant_ok ?own ?pool ?st st' f r" for f r
        using that inv(2) by (auto simp: grant_ok_def ipam_avail_def)
      have ne: "ar_ip a \<noteq> ar_ip b"
        if "grant_ok ?own ?pool ?st st' Ipv4 a" "grant_ok ?own ?pool ?st st' Ipv6 b" for a b
        using new [OF that(1)] new [OF that(2)] by auto
      have "held \<subseteq> ip_str ` ipam_used st'" "ipam_inv st'"
        using post inv(2) by (auto simp: both_post_def)
      with post new ne show ?thesis
        by (cases r4; cases r6) (auto simp: es Ok rr both_post_def holds_used_def svc')
    qed
  qed
qed

lemma step_allocate_ip:
  assumes "ipnet_docs L" "holds_used held svc" "ipam_step L (OpAllocateIp ip own pool) svc = (es, svc')"
  shows "exclusive held es \<and> holds_used (held_after held es) svc'"
proof -
  let ?own = "unwrap_or [] own" and ?pool = "unwrap_or POOL_DEFAULT pool" and ?st = "svc_state svc"
  obtain res st' where a: "allocate_ip L ip ?own ?pool ?st = (res, st')" by fastforce
  have svc': "svc_state svc' = st'" and es: "es = (case res of Err _ \<Rightarrow> [] | Ok _ \<Rightarrow> [Granted (ip_str ip)])"
    using assms(3) a by (auto simp: ipam_allocate_ip_def split: result.splits)
  have inv: "ipam_inv ?st" "held \<subseteq> ip_str ` ipam_used ?st" using assms(2) by (simp_all add: holds_used_def)
  show ?thesis
  proof (cases "?pool = [] \<or> excluded ?pool ?st ip \<or> allocator_of (family_of ip) ?st = None")
    case True
    with a have "st' = ?st \<and> (\<exists>e. res = Err e)"
      by (auto simp: allocate_ip_def excluded_def split: if_splits option.splits)
    with inv svc' es show ?thesis by (auto simp: holds_used_def)
  next
    case False
    then obtain hs where "allocator_of (family_of ip) ?st = Some hs" by auto
    note post = allocate_ip_correct [OF assms(1) inv(1) _ _ this a]
    from False post inv svc' es show ?thesis
      by (cases res) (auto simp: holds_used_def)
  qed
qed

lemma step_release:
  assumes "ipnet_docs L" "holds_used held svc" "ipam_step L (OpRelease ip pool) svc = (es, svc')"
  shows "exclusive held es \<and> holds_used (held_after held es) svc'"
proof -
  let ?pool = "unwrap_or POOL_DEFAULT pool" and ?st = "svc_state svc"
  obtain res st' where a: "release_ip L ip ?pool ?st = (res, st')" by fastforce
  have svc': "svc_state svc' = st'" and es: "es = (case res of Err _ \<Rightarrow> [] | Ok _ \<Rightarrow> [Released (ip_str ip)])"
    using assms(3) a by (auto simp: ipam_release_def split: result.splits)
  have inv: "ipam_inv ?st" "held \<subseteq> ip_str ` ipam_used ?st" using assms(2) by (simp_all add: holds_used_def)
  show ?thesis
  proof (cases "?pool = [] \<or> allocator_of (family_of ip) ?st = None")
    case True
    with a have "st' = ?st \<and> (\<exists>e. res = Err e)"
      by (auto simp: release_ip_def release_ip_locked_def split: if_splits option.splits)
    with inv svc' es show ?thesis by (auto simp: holds_used_def)
  next
    case False
    then obtain hs where "allocator_of (family_of ip) ?st = Some hs" by auto
    note post = release_ip_correct [OF assms(1) inv(1) _ this a]
    from False post inv svc' es show ?thesis by (auto simp: holds_used_def)
  qed
qed

lemma exclude_frame [simp, frame_simps]:
  "allocator_of fam (exclude_ip ip own pool st) = allocator_of fam st"
  by (cases fam) (simp_all add: exclude_ip_def)

lemma ipam_step_correct:
  assumes "ipnet_docs L" "holds_used held svc" "ipam_step L c svc = (es, svc')"
  shows "exclusive held es \<and> holds_used (held_after held es) svc'"
proof (cases c)
  case (OpExclude ip own pool)
  with assms show ?thesis by (auto simp: holds_used_def ipam_inv_def ipam_used_def)
next
  case (OpAllocate rnd6 rnd4 fam own pool)
  show ?thesis by (rule step_allocate [OF assms(1,2) assms(3) [unfolded OpAllocate]])
next
  case (OpAllocateIp ip own pool)
  show ?thesis by (rule step_allocate_ip [OF assms(1,2) assms(3) [unfolded OpAllocateIp]])
next
  case (OpRelease ip pool)
  show ?thesis by (rule step_release [OF assms(1,2) assms(3) [unfolded OpRelease]])
qed

lemma ipam_run_correct:
  assumes "ipnet_docs L" "holds_used held svc"
  shows "exclusive held (fst (ipam_run L cs svc)) \<and>
    holds_used (held_after held (fst (ipam_run L cs svc))) (snd (ipam_run L cs svc))"
  using assms(2)
proof (induction cs arbitrary: held svc)
  case (Cons c cs)
  obtain es svc1 where st: "ipam_step L c svc = (es, svc1)" by fastforce
  note s = ipam_step_correct [OF assms(1) Cons.prems st]
  show ?case
    using s Cons.IH [of "held_after held es" svc1]
    by (auto simp: st exclusive_append split: prod.splits)
qed simp

section \<open>What the dump reports\<close>

lemma map_of_fold_update:
  "map_of (fold (\<lambda>x m. AList.update (f x) (g x) m) xs m) k =
     (if k \<in> f ` set xs then map_of (fold (\<lambda>x m. AList.update (f x) (g x) m) xs []) k else map_of m k)"
  for g :: "'x \<Rightarrow> 'v"
proof (induction xs arbitrary: m)
  case (Cons x xs)
  note ih = Cons.IH [of "AList.update (f x) (g x) m"] Cons.IH [of "AList.update (f x) (g x) []"]
  show ?case by (simp add: ih [simplified] update_conv')
qed simp

lemma map_of_fold_update_inj:
  assumes "x \<in> set xs" "inj_on f (set xs)"
  shows "map_of (fold (\<lambda>x m. AList.update (f x) (g x) m) xs m) (f x) = Some (g x)"
  using assms
proof (induction xs arbitrary: m)
  case (Cons y ys)
  show ?case
  proof (cases "x \<in> set ys")
    case True
    then show ?thesis using Cons by simp
  next
    case False
    with Cons.prems have "f x \<notin> f ` set ys" "x = y" by (auto simp: inj_on_def)
    then show ?thesis by (simp add: map_of_fold_update [of f g ys "AList.update _ _ _"] update_conv')
  qed
qed simp

lemma distinct_fold_update:
  "distinct (map fst m) \<Longrightarrow> distinct (map fst (fold (\<lambda>x m. AList.update (f x) (g x) m) xs m))"
  by (induction xs arbitrary: m) (simp_all add: distinct_update)

lemma keys_fold_update:
  "set (map fst (fold (\<lambda>x m. AList.update (f x) (g x) m) xs m)) = f ` set xs \<union> set (map fst m)"
  by (induction xs arbitrary: m) (simp_all add: AList.dom_update)

lemma hs_dump_correct:
  assumes "hs_inv hs" "hs_dump L hs = Some (per_pool, status)"
  obtains alloc where "per_pool = [(POOL_DEFAULT, alloc)]" "distinct (map fst alloc)"
    "set (map fst alloc) = ip_str ` hs_used hs" "length alloc = card (hs_used hs)"
proof -
  let ?alloc = "fold (\<lambda>ip m. AList.update (ip_str ip) [] m) (hs_for_each hs) [] :: (string \<times> string) list"
  have p: "per_pool = [(POOL_DEFAULT, ?alloc)]"
    using assms(2) by (auto simp: hs_dump_def Let_def split: option.splits)
  have d: "distinct (map fst ?alloc)" by (rule distinct_fold_update) simp
  have k: "set (map fst ?alloc) = ip_str ` hs_used hs"
    by (simp add: keys_fold_update [simplified] hs_for_each_correct [OF assms(1)])
  have "length ?alloc = card (set (map fst ?alloc))" by (subst distinct_card [OF d]) simp
  also have "\<dots> = card (hs_used hs)" unfolding k by (rule card_image) (rule inj_ip_str)
  finally show ?thesis using that [OF p d k] by blast
qed

lemma dump_family_correct:
  assumes "ipam_inv st" "allocator_of fam st = Some hs" "dump_family L label st (Some hs) = Some (m, status)"
  shows "map_of m = (\<lambda>k. if k \<in> ip_str ` hs_used hs then Some (get_ip_owner k POOL_DEFAULT st) else None)"
proof -
  have hinv: "hs_inv hs" using assms(1,2) by (auto simp: ipam_inv_def)
  obtain per_pool status' where dump: "hs_dump L hs = Some (per_pool, status')"
    using assms(3) by (auto simp: dump_family_def split: option.splits)
  from hinv dump obtain alloc where a: "per_pool = [(POOL_DEFAULT, alloc)]" "distinct (map fst alloc)"
    "set (map fst alloc) = ip_str ` hs_used hs" by (rule hs_dump_correct)
  have m: "m = fold (\<lambda>ip m. AList.update ip (get_ip_owner ip POOL_DEFAULT st) m) (map fst alloc) []"
    using assms(3) dump a(1) by (auto simp: dump_family_def)
  show ?thesis
  proof
    fix k
    show "map_of m k = (if k \<in> ip_str ` hs_used hs then Some (get_ip_owner k POOL_DEFAULT st) else None)"
      using map_of_fold_update_inj [of k "map fst alloc" "\<lambda>x. x" "\<lambda>ip. get_ip_owner ip POOL_DEFAULT st" "[]"]
        map_of_fold_update [of "\<lambda>x. x" "\<lambda>ip. get_ip_owner ip POOL_DEFAULT st" "map fst alloc" "[]" k]
      unfolding m a(3) [symmetric] by auto
  qed
qed

section \<open>Properties\<close>

text \<open>C1: mutual exclusion of addresses. Start the service on well-formed networks and let clients
  send it any sequence of requests (allocate the next address, allocate a given address, release,
  exclude), with any random starts: no address that a response granted is granted again before it
  was released.\<close>

theorem ipam_exclusive:
  assumes "ipnet_docs L" "\<forall>n. ipv4 = Some n \<longrightarrow> net_wf n \<and> net_family n = Ipv4"
    "\<forall>n. ipv6 = Some n \<longrightarrow> net_wf n \<and> net_family n = Ipv6"
  shows "exclusive {} (fst (ipam_run L cs (ipam_new L gw ipv4 ipv6)))"
  using ipam_run_correct [OF assms(1), of "{}" "ipam_new L gw ipv4 ipv6" cs] ipam_new_inv [OF assms(1)] assms
  by (simp add: holds_used_def)

theorem ipam_exclusive_witness:
  "exclusive {} (fst (ipam_run ipnet_ref
     [OpAllocateIp (V4 0x0A000001) None None, OpAllocate (\<lambda>_. 0) (\<lambda>_. 0) None None None,
      OpRelease (V4 0x0A000001) None, OpAllocate (\<lambda>_. 0) (\<lambda>_. 0) None None None]
     (ipam_new ipnet_ref (V4 0x0A000001) (Some (NetV4 0x0A000000 30)) None)))"
  by (rule ipam_exclusive) (simp_all add: ipnet_docs_ref net_wf_def)

text \<open>C2: \<open>allocate_next\<close> is all or nothing. Each family that was asked for and is configured gets an
  address that was free and is not excluded, and its owner is recorded; otherwise the call fails
  with \<open>RangeFull\<close>, some wanted family really had no address left that is not excluded, and no
  address stays taken by the failed call except excluded ones, so a granted IPv6 address was
  given back.\<close>

theorem allocate_next_all_or_nothing:
  assumes "ipnet_docs L" "ipam_inv st" "pool \<noteq> []"
    "allocate_next L rnd6 rnd4 req own pool st = (res, st')"
  shows "case res of
      Ok (r4, r6) \<Rightarrow>
        (r4 \<noteq> None \<longleftrightarrow> wanted req st Ipv4) \<and> (\<forall>r. r4 = Some r \<longrightarrow> grant_ok own pool st st' Ipv4 r) \<and>
        (r6 \<noteq> None \<longleftrightarrow> wanted req st Ipv6) \<and> (\<forall>r. r6 = Some r \<longrightarrow> grant_ok own pool st st' Ipv6 r)
    | Err e \<Rightarrow> e = RangeFull \<and> (\<forall>ip \<in> ipam_used st' - ipam_used st. excluded pool st ip) \<and>
        (\<exists>fam. wanted req st fam \<and> (\<forall>ip \<in> ipam_avail fam st. excluded pool st ip))"
  using allocate_next_correct [OF assms] unfolding both_post_def by simp

text \<open>A dual-stack service whose only IPv4 address is taken, and what one request does on it.\<close>

definition dual_fresh :: ipam_state where
  "dual_fresh = svc_state (ipam_new ipnet_ref (V4 1) (Some (NetV4 0 32)) (Some (NetV6 0 126)))"

definition dual_stack :: ipam_state where
  "dual_stack = snd (allocate_next_family (\<lambda>_. 0) Ipv4 ''host'' ''default'' dual_fresh)"

lemma dual_stack_post:
  "next_post Ipv4 ''host'' ''default'' dual_fresh
     (fst (allocate_next_family (\<lambda>_. 0) Ipv4 ''host'' ''default'' dual_fresh)) dual_stack"
proof (rule allocate_next_family_correct)
  show "ipam_inv dual_fresh"
    unfolding dual_fresh_def by (rule ipam_new_inv) (simp_all add: ipnet_docs_ref net_wf_def)
qed (simp_all add: dual_stack_def dual_fresh_def ipam_new_def)

lemma dual_stack_inv: "ipam_inv dual_stack"
  using dual_stack_post by (simp add: next_post_def)

lemma dual_stack_configured: "allocator_of fam dual_stack \<noteq> None"
proof -
  have "allocator_of fam dual_fresh \<noteq> None" by (cases fam) (simp_all add: dual_fresh_def ipam_new_def)
  with dual_stack_post show ?thesis unfolding next_post_def same_config_def by metis
qed

definition dual_v6 :: "(alloc_result, ipam_error) result \<times> ipam_state" where
  "dual_v6 = allocate_next_family (\<lambda>_. 0) Ipv6 ''pod'' ''custom'' dual_stack"

definition dual_v4 :: "(alloc_result, ipam_error) result \<times> ipam_state" where
  "dual_v4 = allocate_next_family (\<lambda>_. 0) Ipv4 ''pod'' ''custom'' (snd dual_v6)"

lemma dual_v6_result: "fst dual_v6 = Ok \<lparr>ar_ip = V6 1, ip_pool_name = ''default''\<rparr>"
  by code_simp

lemma dual_v4_result: "fst dual_v4 = Err RangeFull"
  by code_simp

theorem allocate_next_all_or_nothing_witness:
  "case fst (allocate_next ipnet_ref (\<lambda>_. 0) (\<lambda>_. 0) (Some Ipv6) ''pod'' ''custom'' dual_stack) of
      Ok (r4, r6) \<Rightarrow> (r4 \<noteq> None \<longleftrightarrow> wanted (Some Ipv6) dual_stack Ipv4) \<and>
        (r6 \<noteq> None \<longleftrightarrow> wanted (Some Ipv6) dual_stack Ipv6)
    | Err e \<Rightarrow> e = RangeFull"
  using allocate_next_all_or_nothing
    [OF ipnet_docs_ref dual_stack_inv, of "''custom''" "\<lambda>_. 0" "\<lambda>_. 0" "Some Ipv6" "''pod''", OF _ prod.collapse [symmetric]]
  by (auto split: result.splits)

text \<open>C15: what the roll back leaves behind. When the IPv4 range fails after an IPv6 address was
  granted in a pool other than the default one, the address itself is free again, but it is
  released under the pool name of the result, which is always \<open>default\<close>, so the requester
  stays recorded as its owner in the requested pool.\<close>

theorem rollback_keeps_owner_entry:
  assumes "ipnet_docs L" "ipam_inv st" "ipv4_allocator st \<noteq> None" "ipv6_allocator st \<noteq> None"
    "pool \<noteq> []" "pool \<noteq> POOL_DEFAULT"
    "allocate_next_family rnd6 Ipv6 own pool st = (Ok r, st1)"
    "allocate_next_family rnd4 Ipv4 own pool st1 = (Err e, st2)"
    "allocate_next L rnd6 rnd4 None own pool st = (res, st')"
  shows "ar_ip r \<notin> ipam_used st' \<and> get_ip_owner (ip_str (ar_ip r)) pool st' = own"
proof -
  have p6: "next_post Ipv6 own pool st (Ok r) st1"
    using allocate_next_family_correct [OF assms(2) _ assms(5,7)] assms(4) by simp
  then have "allocator_of Ipv4 st1 = allocator_of Ipv4 st" by (simp add: next_post_def del: allocator_of.simps)
  with p6 have a1: "ipam_inv st1" "allocator_of Ipv4 st1 \<noteq> None" and g: "grant_ok own pool st st1 Ipv6 r"
    and name: "ip_pool_name r = POOL_DEFAULT"
    using assms(3) by (simp_all add: next_post_def next_post_grant)
  have p4: "next_post Ipv4 own pool st1 (Err e) st2"
    using allocate_next_family_correct [OF a1 assms(5,8)] .
  have g2: "grant_ok own pool st st2 Ipv6 r"
    using g p4 by (rule grant_ok_later) (use p6 in \<open>simp add: next_post_def\<close>)
  have sn: "st' = snd (release_ip L (ar_ip r) POOL_DEFAULT st2)"
    using assms(3,4,9) name by (auto simp: allocate_next_def Let_def assms(7,8))
  obtain hs where hs: "allocator_of (family_of (ar_ip r)) st2 = Some hs"
    using g2 by (auto simp: grant_ok_def ipam_used_def)
  have pne: "POOL_DEFAULT \<noteq> []" by (simp add: POOL_DEFAULT_def)
  have "ipam_inv st2" using p4 by (simp add: next_post_def)
  note rc = release_ip_correct [OF assms(1) this pne hs prod.collapse [symmetric]]
  have st': "release_ip L (ar_ip r) POOL_DEFAULT st2 = (Ok (), st')"
    using rc(1) sn by (simp add: prod_eq_iff)
  have "get_ip_owner k pool st' = get_ip_owner k pool st2" for k
    using st' hs assms(6) pne
    by (auto simp: release_ip_def release_ip_locked_def release_ip_owner_def get_ip_owner_def
        Let_def update_conv' delete_conv' split: option.splits if_splits)
  then show ?thesis using rc(4) st' g2 by (simp add: grant_ok_def)
qed

theorem rollback_keeps_owner_entry_witness:
  "V6 1 \<notin> ipam_used (snd (allocate_next ipnet_ref (\<lambda>_. 0) (\<lambda>_. 0) None ''pod'' ''custom'' dual_stack)) \<and>
   get_ip_owner ''::1'' ''custom''
     (snd (allocate_next ipnet_ref (\<lambda>_. 0) (\<lambda>_. 0) None ''pod'' ''custom'' dual_stack)) = ''pod''"
proof -
  have v6: "allocate_next_family (\<lambda>_. 0) Ipv6 ''pod'' ''custom'' dual_stack =
      (Ok \<lparr>ar_ip = V6 1, ip_pool_name = ''default''\<rparr>, snd dual_v6)"
    using dual_v6_result by (simp add: dual_v6_def prod_eq_iff)
  have v4: "allocate_next_family (\<lambda>_. 0) Ipv4 ''pod'' ''custom'' (snd dual_v6) = (Err RangeFull, snd dual_v4)"
    using dual_v4_result by (simp add: dual_v4_def prod_eq_iff)
  have conf: "ipv4_allocator dual_stack \<noteq> None" "ipv6_allocator dual_stack \<noteq> None"
    using dual_stack_configured [of Ipv4] dual_stack_configured [of Ipv6] by simp_all
  have str: "ip_str (V6 1) = ''::1''" by code_simp
  show ?thesis
    using rollback_keeps_owner_entry
      [OF ipnet_docs_ref dual_stack_inv conf _ _ v6 v4 prod.collapse [symmetric]]
    by (simp add: POOL_DEFAULT_def str [simplified])
qed

text \<open>C14: the dump lists exactly the addresses in use, each with the owner recorded for it in the
  default pool, for both families.\<close>

theorem ipam_dump_correct:
  assumes "ipam_inv (svc_state svc)" "ipam_dump L svc = Some (alloc4, alloc6, status)"
  shows "\<forall>ip. map_of (case ip of V4 _ \<Rightarrow> alloc4 | V6 _ \<Rightarrow> alloc6) (ip_str ip) =
    (if ip \<in> ipam_used (svc_state svc)
     then Some (get_ip_owner (ip_str ip) POOL_DEFAULT (svc_state svc)) else None)"
proof
  fix ip
  let ?st = "svc_state svc"
  let ?alloc = "case ip of V4 _ \<Rightarrow> alloc4 | V6 _ \<Rightarrow> alloc6"
  obtain label st' where d: "dump_family L label ?st (allocator_of (family_of ip) ?st) = Some (?alloc, st')"
    using assms(2) by (cases ip) (auto simp: ipam_dump_def Let_def split: option.splits prod.splits)
  show "map_of ?alloc (ip_str ip) =
    (if ip \<in> ipam_used ?st then Some (get_ip_owner (ip_str ip) POOL_DEFAULT ?st) else None)"
  proof (cases "allocator_of (family_of ip) ?st")
    case None
    with d have "?alloc = []" by (simp add: dump_family_def)
    with None show ?thesis by (simp add: ipam_used_def)
  next
    case (Some hs)
    then have "ip \<in> ipam_used ?st \<longleftrightarrow> ip \<in> hs_used hs" by (simp add: ipam_used_def)
    with dump_family_correct [OF assms(1) Some d [unfolded Some]] show ?thesis
      by (auto simp: image_iff)
  qed
qed

theorem ipam_dump_correct_witness:
  "\<exists>alloc4 alloc6 status.
     ipam_dump ipnet_ref (ipam_new ipnet_ref (V4 1) (Some (NetV4 0 30)) None) = Some (alloc4, alloc6, status) \<and>
     map_of alloc4 (ip_str (V4 1)) = None"
proof -
  let ?svc = "ipam_new ipnet_ref (V4 1) (Some (NetV4 0 30)) None"
  have new: "ipam_inv (svc_state ?svc)" "ipam_used (svc_state ?svc) = {}"
    by (rule ipam_new_inv; simp add: ipnet_docs_ref net_wf_def)+
  obtain d where d: "ipam_dump ipnet_ref ?svc = Some d"
    by (auto simp: ipam_dump_def Let_def dump_family_def ipam_new_def hs_dump_def count_ips_in_cidr_def
        hs_new_def split: option.splits)
  obtain a b c where dd: "d = (a, b, c)" by (cases d)
  show ?thesis
    using ipam_dump_correct [OF new(1), of ipnet_ref a b c] new(2) d dd by (auto dest: spec [of _ "V4 1"])
qed

end
