(* ===== verification/Ipam_Concurrent.thy ===== *)
theory Ipam_Concurrent
  imports Ipam_Service
begin

text \<open>Allocations that overlap. \<open>DefaultIpamService::allocate_next\<close> (\<open>src/sarena-services/src/ipam/service.rs\<close>) does not
  hold the lock of its state from beginning to end: it reads the configuration under two read locks, allocates each family
  under a write lock of its own, and gives the IPv6 address back under another one when IPv4 fails. Here a call is a task that
  takes one of these critical sections per step, and the steps of any number of calls and of the operations with a single
  section (a given address, a release, an exclusion) interleave. \<open>next_steps_alone\<close>: a call whose steps are not interrupted is
  \<open>allocate_next\<close>. \<open>sections_exclusive\<close>: in every interleaving no address is handed out twice without a release in between.\<close>

section \<open>A call, one critical section at a time\<close>

datatype next_task =
    ReadV6 "family option" string string
  | ReadV4 "family option" string string bool
  | TakeV6 "family option" string string bool bool
  | TakeV4 "family option" string string "alloc_result option" bool
  | GiveBack alloc_result ipam_error
  | NextDone "(alloc_result option \<times> alloc_result option, ipam_error) result"

fun next_step ::
  "ipnet_lib \<Rightarrow> (nat \<Rightarrow> nat) \<Rightarrow> next_task \<Rightarrow> ipam_state \<Rightarrow> next_task \<times> ipam_event list \<times> ipam_state" where
  "next_step L rnd (ReadV6 req own pool) st = (ReadV4 req own pool (ipv6_allocator st \<noteq> None), [], st)"
| "next_step L rnd (ReadV4 req own pool c6) st = (TakeV6 req own pool c6 (ipv4_allocator st \<noteq> None), [], st)"
| "next_step L rnd (TakeV6 req own pool c6 c4) st =
     (if (req = None \<or> req = Some Ipv6) \<and> c6
      then (case allocate_next_family rnd Ipv6 own pool st of
              (Ok r, st') \<Rightarrow> (TakeV4 req own pool (Some r) c4, [Granted (ip_str (ar_ip r))], st')
            | (Err e, st') \<Rightarrow> (NextDone (Err e), [], st'))
      else (TakeV4 req own pool None c4, [], st))"
| "next_step L rnd (TakeV4 req own pool r6 c4) st =
     (if (req = None \<or> req = Some Ipv4) \<and> c4
      then (case allocate_next_family rnd Ipv4 own pool st of
              (Ok r, st') \<Rightarrow> (NextDone (Ok (Some r, r6)), [Granted (ip_str (ar_ip r))], st')
            | (Err e, st') \<Rightarrow> ((case r6 of Some r \<Rightarrow> GiveBack r e | None \<Rightarrow> NextDone (Err e)), [], st'))
      else (NextDone (Ok (None, r6)), [], st))"
| "next_step L rnd (GiveBack r e) st =
     (case release_ip L (ar_ip r) (ip_pool_name r) st of
        (res, st') \<Rightarrow> (NextDone (Err e), if res = Ok () then [Released (ip_str (ar_ip r))] else [], st'))"
| "next_step L rnd (NextDone res) st = (NextDone res, [], st)"

definition next_alone ::
  "ipnet_lib \<Rightarrow> (nat \<Rightarrow> nat \<Rightarrow> nat) \<Rightarrow> next_task \<Rightarrow> ipam_state \<Rightarrow> next_task \<times> ipam_state" where
  "next_alone L rnd t st = fold (\<lambda>i (t, st). case next_step L (rnd i) t st of (t', _, st') \<Rightarrow> (t', st')) [0..<5] (t, st)"

text \<open>Uninterrupted, the sections are the call: the definition \<open>allocate_next\<close> that the sequential properties speak of.\<close>

lemma next_steps_alone:
  "next_alone L rnd (ReadV6 req own pool) st =
    (case allocate_next L (rnd 2) (rnd 3) req own pool st of (res, st') \<Rightarrow> (NextDone res, st'))"
proof -
  have "[0..<5] = [0, 1, 2, 3, 4::nat]" by (simp add: upt_rec)
  then show ?thesis
    by (auto simp: next_alone_def allocate_next_def Let_def split: result.splits prod.splits option.splits)
qed

section \<open>Interleavings\<close>

datatype ipam_act =
    NextCall "family option" string string
  | NextSection nat "nat \<Rightarrow> nat"
  | OneSection ipam_op

text \<open>A request whose operation is one section is the step of the sequential model; an allocation of the next address enters as
  a task instead.\<close>

fun single_section :: "ipam_op \<Rightarrow> bool" where
  "single_section (OpAllocate _ _ _ _ _) = False"
| "single_section _ = True"

fun ipam_act_step ::
  "ipnet_lib \<Rightarrow> ipam_act \<Rightarrow> next_task list \<times> ipam_service \<Rightarrow> ipam_event list \<times> next_task list \<times> ipam_service" where
  "ipam_act_step L (NextCall req own pool) (ts, svc) = ([], ts @ [ReadV6 req own pool], svc)"
| "ipam_act_step L (NextSection i rnd) (ts, svc) =
     (if i < length ts
      then (case next_step L rnd (ts ! i) (svc_state svc) of (t, es, st) \<Rightarrow> (es, ts[i := t], svc\<lparr>svc_state := st\<rparr>))
      else ([], ts, svc))"
| "ipam_act_step L (OneSection c) (ts, svc) =
     (if single_section c then (case ipam_step L c svc of (es, svc') \<Rightarrow> (es, ts, svc')) else ([], ts, svc))"

fun ipam_act_run ::
  "ipnet_lib \<Rightarrow> ipam_act list \<Rightarrow> next_task list \<times> ipam_service \<Rightarrow> ipam_event list \<times> next_task list \<times> ipam_service" where
  "ipam_act_run L [] s = ([], s)"
| "ipam_act_run L (a # as) s =
     (case ipam_act_step L a s of (es, s1) \<Rightarrow> case ipam_act_run L as s1 of (fs, s2) \<Rightarrow> (es @ fs, s2))"

lemma family_section:
  assumes "holds_used held svc" "allocate_next_family rnd fam own pool (svc_state svc) = (res, st')"
  shows "holds_used held (svc\<lparr>svc_state := st'\<rparr>)"
    "res = Ok r \<Longrightarrow> ip_str (ar_ip r) \<notin> held \<and> ar_ip r \<in> ipam_used st'"
proof -
  have inv: "ipam_inv (svc_state svc)" "held \<subseteq> ip_str ` ipam_used (svc_state svc)"
    using assms(1) by (simp_all add: holds_used_def)
  have post: "next_post fam own pool (svc_state svc) res st'" if "pool \<noteq> []" "allocator_of fam (svc_state svc) \<noteq> None"
    using allocate_next_family_correct [OF inv(1) that(2,1) assms(2)] .
  have stay: "st' = svc_state svc \<and> (\<exists>e. res = Err e)" if "pool = [] \<or> allocator_of fam (svc_state svc) = None"
    using that assms(2) by (auto simp: allocate_next_family_def anf_loop.simps split: if_splits)
  show "holds_used held (svc\<lparr>svc_state := st'\<rparr>)"
  proof (cases "pool = [] \<or> allocator_of fam (svc_state svc) = None")
    case True
    with stay inv show ?thesis by (auto simp: holds_used_def)
  next
    case False
    with post inv show ?thesis by (fastforce simp: holds_used_def next_post_def)
  qed
  assume r: "res = Ok r"
  then have "next_post fam own pool (svc_state svc) res st'" using stay post by auto
  with r inv(2) show "ip_str (ar_ip r) \<notin> held \<and> ar_ip r \<in> ipam_used st'"
    by (auto simp: next_post_def)
qed

lemma give_back_section:
  assumes "ipnet_docs L" "holds_used held svc" "release_ip L ip pool (svc_state svc) = (res, st')"
  shows "holds_used (if res = Ok () then held - {ip_str ip} else held) (svc\<lparr>svc_state := st'\<rparr>)"
proof -
  have inv: "ipam_inv (svc_state svc)" "held \<subseteq> ip_str ` ipam_used (svc_state svc)"
    using assms(2) by (simp_all add: holds_used_def)
  show ?thesis
  proof (cases "pool = [] \<or> allocator_of (family_of ip) (svc_state svc) = None")
    case True
    with assms(3) have "st' = svc_state svc \<and> (\<exists>e. res = Err e)"
      by (auto simp: release_ip_def release_ip_locked_def split: if_splits option.splits)
    with inv show ?thesis by (auto simp: holds_used_def)
  next
    case False
    then obtain hs where "allocator_of (family_of ip) (svc_state svc) = Some hs" by auto
    note post = release_ip_correct [OF assms(1) inv(1) _ this assms(3)]
    from False post inv show ?thesis by (auto simp: holds_used_def)
  qed
qed

lemma next_step_exclusive:
  assumes "ipnet_docs L" "holds_used held svc" "next_step L rnd t (svc_state svc) = (t', es, st')"
  shows "exclusive held es \<and> holds_used (held_after held es) (svc\<lparr>svc_state := st'\<rparr>)"
proof -
  have ins: "holds_used (insert (ip_str (ar_ip r)) held) (svc\<lparr>svc_state := s\<rparr>) \<and> ip_str (ar_ip r) \<notin> held"
    if "allocate_next_family rnd fam own pool (svc_state svc) = (Ok r, s)" for fam own pool r s
    using family_section [OF assms(2) that] by (auto simp: holds_used_def)
  note keep = family_section(1) [OF assms(2)]
  have same: "holds_used held (svc\<lparr>svc_state := svc_state svc\<rparr>)" using assms(2) by simp
  show ?thesis
  proof (cases t)
    case (GiveBack r e)
    obtain res s where rel: "release_ip L (ar_ip r) (ip_pool_name r) (svc_state svc) = (res, s)" by fastforce
    with give_back_section [OF assms(1,2) rel] assms(3) GiveBack show ?thesis by (auto split: if_splits)
  qed (use assms(2,3) ins keep same in \<open>auto split: if_splits result.splits prod.splits\<close>)
qed

lemma act_step_exclusive:
  assumes "ipnet_docs L" "holds_used held svc" "ipam_act_step L a (ts, svc) = (es, ts', svc')"
  shows "exclusive held es \<and> holds_used (held_after held es) svc'"
proof (cases a)
  case (NextSection i rnd)
  obtain t' es' st' where n: "next_step L rnd (ts ! i) (svc_state svc) = (t', es', st')" by (metis prod_cases3)
  show ?thesis using next_step_exclusive [OF assms(1,2) n] assms(2,3) by (auto simp: NextSection n split: if_splits)
next
  case (OneSection c)
  then show ?thesis using ipam_step_correct [OF assms(1,2), of c] assms(2,3) by (auto split: if_splits prod.splits)
qed (use assms in auto)

lemma act_run_exclusive:
  assumes "ipnet_docs L" "holds_used held svc"
  shows "exclusive held (fst (ipam_act_run L as (ts, svc)))"
  using assms(2)
proof (induction as arbitrary: held ts svc)
  case (Cons a as)
  obtain es ts1 svc1 where st: "ipam_act_step L a (ts, svc) = (es, ts1, svc1)" by (metis prod_cases3)
  note s = act_step_exclusive [OF assms(1) Cons.prems st]
  show ?case using s Cons.IH [of "held_after held es" svc1 ts1] by (auto simp: st exclusive_append split: prod.splits)
qed simp

text \<open>Mutual exclusion without atomic calls: however the critical sections of the requests interleave, an address that one of
  them took is not taken again before it was released.\<close>

lemma sections_exclusive:
  assumes "ipnet_docs L" "\<forall>n. ipv4 = Some n \<longrightarrow> net_wf n \<and> net_family n = Ipv4"
    "\<forall>n. ipv6 = Some n \<longrightarrow> net_wf n \<and> net_family n = Ipv6"
  shows "exclusive {} (fst (ipam_act_run L as ([], ipam_new L gw ipv4 ipv6)))"
  using act_run_exclusive [OF assms(1), of "{}" "ipam_new L gw ipv4 ipv6" as "[]"] ipam_new_inv [OF assms(1)] assms
  by (simp add: holds_used_def)

end
