(* ===== verification/Dataplane_Types.thy ===== *)
theory Dataplane_Types
  imports Net_Types "HOL-Library.AList" "HOL-Library.Sublist"
begin

text \<open>
  The types the data plane shares: \<open>EndpointId\<close>, the persisted endpoint (\<open>endpoint/persist.rs\<close>),
  \<open>DataPlaneError\<close> (\<open>error.rs\<close>), the kinds of loader endpoint with their hooks and maps
  (\<open>loader/loader_endpoint.rs\<close>, \<open>loader/manifest.rs\<close>, \<open>maps/mod.rs\<close>), the pin layout
  (\<open>loader/pin.rs\<close>) and the map entries of \<open>sarena-shared/src/endpoint.rs\<close>. A \<open>PathBuf\<close> is its text;
  \<open>path_join\<close> and \<open>components\<close> are the standard library's on Unix.
\<close>

type_synonym endpoint_id = u16

record endpoint_spec =
  container_name :: "string option"
  container_id :: "string option"
  docker_network_id :: "string option"
  docker_endpoint :: "string option"
  host_iface_name :: string
  host_iface_index :: u32
  container_mac :: mac_address
  host_mac :: mac_address
  ep_ipv4 :: "u32 option"
  ep_ipv6 :: "u128 option"
  k8s_ns :: "string option"
  k8s_pod_name :: "string option"

record endpoint_persist =
  ep_id :: endpoint_id
  ep_spec :: endpoint_spec

definition k8s_ns_and_pod_name :: "endpoint_spec \<Rightarrow> string option" where
  "k8s_ns_and_pod_name s =
     (case k8s_ns s of None \<Rightarrow> None
      | Some ns \<Rightarrow> (case k8s_pod_name s of None \<Rightarrow> None | Some pod \<Rightarrow> Some (ns @ ''/'' @ pod)))"

definition ips :: "endpoint_spec \<Rightarrow> ip_addr list" where
  "ips s = (case ep_ipv4 s of None \<Rightarrow> [] | Some a \<Rightarrow> [V4 a]) @ (case ep_ipv6 s of None \<Rightarrow> [] | Some a \<Rightarrow> [V6 a])"

section \<open>Errors\<close>

datatype dp_error =
    LinkLookup string string
  | CouldNotCreateVethPair string
  | PrefixLengthError
  | InfraError string
  | ObjectLoad string
  | ProgramNotFound string
  | ProgramLoad string string
  | AttachError string string string
  | UnpinError string string
  | LinkResolve string string
  | ListPins string string
  | MapNotFound string
  | MapOpen string string
  | MapAccess string string
  | Partial "(string \<times> string) list"
  | ActorGone
  | ActorCancelled
  | StillShared
  | JsonError string
  | FileError string
  | GeneralError string
  | Injected string

section \<open>Paths\<close>

datatype component = RootDir | CurDir | ParentDir | Normal string

definition path_join :: "string \<Rightarrow> string \<Rightarrow> string" where
  "path_join p s =
     (if s \<noteq> [] \<and> hd s = CHR ''/'' then s
      else if p = [] \<or> last p = CHR ''/'' then p @ s else p @ ''/'' @ s)"

fun comp_of :: "string \<Rightarrow> component list" where
  "comp_of s = (if s = [] \<or> s = ''.'' then [] else if s = ''..'' then [ParentDir] else [Normal s])"

definition components :: "string \<Rightarrow> component list" where
  "components p =
     (let parts = split_on CHR ''/'' p
      in (if p \<noteq> [] \<and> hd p = CHR ''/'' then [RootDir] else if hd parts = ''.'' then [CurDir] else []) @
         concat (map comp_of parts))"

fun comp_str :: "component \<Rightarrow> string" where
  "comp_str RootDir = ''/''"
| "comp_str CurDir = ''.''"
| "comp_str ParentDir = ''..''"
| "comp_str (Normal s) = s"

definition path_starts_with :: "string \<Rightarrow> string \<Rightarrow> bool" where
  "path_starts_with p d = prefix (components d) (components p)"

text \<open>A name that is one path component: what file and interface names are.\<close>

definition plain_name :: "string \<Rightarrow> bool" where
  "plain_name s \<longleftrightarrow> s \<noteq> [] \<and> CHR ''/'' \<notin> set s \<and> s \<noteq> ''.'' \<and> s \<noteq> ''..''"

lemma split_on_snoc_sep: "split_on c (p @ c # s) = split_on c p @ split_on c s"
  by (rule split_on_append)

lemma components_join:
  assumes "plain_name s"
  shows "components (path_join p s) = components p @ [Normal s]"
proof -
  have s: "hd s \<noteq> CHR ''/''" "s \<noteq> []" "CHR ''/'' \<notin> set s" "comp_of s = [Normal s]"
    using assms by (cases s; auto simp: plain_name_def)+
  have sp: "split_on CHR ''/'' s = [s]" using s(3) by (rule split_on_no_sep)
  consider "p = []" | "p \<noteq> []" "last p = CHR ''/''" | "p \<noteq> []" "last p \<noteq> CHR ''/''" by blast
  then show ?thesis
  proof cases
    case 1
    with s sp assms show ?thesis by (simp add: path_join_def components_def Let_def plain_name_def)
  next
    case 2
    then obtain q where q: "p = q @ ''/''" by (metis append_butlast_last_id)
    have pj: "path_join (q @ ''/'') s = q @ CHR ''/'' # s" using s by (simp add: path_join_def)
    have spl: "split_on CHR ''/'' (q @ CHR ''/'' # s) = split_on CHR ''/'' q @ [s]"
      "split_on CHR ''/'' (q @ ''/'') = split_on CHR ''/'' q @ [[]]"
      using sp by (simp_all add: split_on_append)
    have "hd (q @ CHR ''/'' # s) = hd (q @ ''/'')" by (cases q) auto
    then show ?thesis
      unfolding pj components_def Let_def spl q using s(4) by (simp add: hd_append)
  next
    case 3
    have pj: "path_join p s = p @ CHR ''/'' # s" using 3 s by (simp add: path_join_def)
    have spl: "split_on CHR ''/'' (p @ CHR ''/'' # s) = split_on CHR ''/'' p @ [s]"
      using sp by (simp add: split_on_append)
    show ?thesis
      unfolding pj components_def Let_def spl using 3 s(4) by (simp add: hd_append)
  qed
qed

section \<open>Loader endpoints\<close>

datatype loader_endpoint_kind = KContainer | KHost | KNetDev | KOverlay | KWireguard

fun kind_str :: "loader_endpoint_kind \<Rightarrow> string" where
  "kind_str KContainer = ''container''"
| "kind_str KHost = ''host''"
| "kind_str KNetDev = ''netdev''"
| "kind_str KOverlay = ''overlay''"
| "kind_str KWireguard = ''wireguard''"

definition from_kind_str :: "string \<Rightarrow> loader_endpoint_kind option" where
  "from_kind_str s =
     (if s = ''container'' then Some KContainer else if s = ''host'' then Some KHost
      else if s = ''netdev'' then Some KNetDev else if s = ''overlay'' then Some KOverlay
      else if s = ''wireguard'' then Some KWireguard else None)"

datatype hook = TcxIngress | TcxEgress

record hook_spec =
  hs_hook :: hook
  program_name :: string
  required :: bool

definition required_hook :: "hook \<Rightarrow> string \<Rightarrow> hook_spec" where
  "required_hook h p = \<lparr>hs_hook = h, program_name = p, required = True\<rparr>"

fun hooks :: "loader_endpoint_kind \<Rightarrow> hook_spec list" where
  "hooks KContainer = [required_hook TcxIngress ''from_container'', required_hook TcxEgress ''to_container'']"
| "hooks KHost = [required_hook TcxEgress ''from_host'', required_hook TcxIngress ''to_host'']"
| "hooks KNetDev = [required_hook TcxIngress ''from_netdev'', required_hook TcxEgress ''to_netdev'']"
| "hooks KOverlay = [required_hook TcxIngress ''from_overlay'', required_hook TcxEgress ''to_overlay'']"
| "hooks KWireguard = [required_hook TcxIngress ''from_wireguard'', required_hook TcxEgress ''to_wireguard'']"

datatype global_map = LxcMap | MetricsMap

datatype endpoint_map = CallsMap | EndpointConfigMap

fun global_wire_name :: "global_map \<Rightarrow> string" where
  "global_wire_name LxcMap = ''lxc_map''"
| "global_wire_name MetricsMap = ''metrics_map''"

fun endpoint_wire_name :: "endpoint_map \<Rightarrow> string" where
  "endpoint_wire_name CallsMap = ''calls_map''"
| "endpoint_wire_name EndpointConfigMap = ''endpoint_config''"

fun per_endpoint_map_names :: "loader_endpoint_kind \<Rightarrow> endpoint_map list" where
  "per_endpoint_map_names KContainer = [CallsMap, EndpointConfigMap]"
| "per_endpoint_map_names KHost = [CallsMap, EndpointConfigMap]"
| "per_endpoint_map_names KNetDev = [CallsMap]"
| "per_endpoint_map_names KOverlay = [CallsMap]"
| "per_endpoint_map_names KWireguard = [CallsMap]"

definition GLOBAL_MAPS :: "global_map list" where
  "GLOBAL_MAPS = [LxcMap, MetricsMap]"

datatype loader_endpoint =
    Container endpoint_persist
  | Host string
  | NetDev string
  | Overlay string
  | Wireguard string

fun le_kind :: "loader_endpoint \<Rightarrow> loader_endpoint_kind" where
  "le_kind (Container _) = KContainer"
| "le_kind (Host _) = KHost"
| "le_kind (NetDev _) = KNetDev"
| "le_kind (Overlay _) = KOverlay"
| "le_kind (Wireguard _) = KWireguard"

fun le_link :: "loader_endpoint \<Rightarrow> string" where
  "le_link (Container ep) = host_iface_name (ep_spec ep)"
| "le_link (Host link) = link"
| "le_link (NetDev link) = link"
| "le_link (Overlay link) = link"
| "le_link (Wireguard link) = link"

section \<open>Pin layout\<close>

definition links_dir :: "string \<Rightarrow> string" where
  "links_dir root = path_join root ''links''"

definition globals_dir :: "string \<Rightarrow> string" where
  "globals_dir root = path_join root ''globals''"

definition pin_subpath :: "loader_endpoint_kind \<Rightarrow> string \<Rightarrow> string" where
  "pin_subpath kind link = path_join (kind_str kind) link"

definition endpoint_link_dir :: "string \<Rightarrow> loader_endpoint_kind \<Rightarrow> string \<Rightarrow> string" where
  "endpoint_link_dir root kind link = path_join (links_dir root) (pin_subpath kind link)"

definition per_endpoint_map_dir :: "string \<Rightarrow> endpoint_map \<Rightarrow> string \<Rightarrow> string" where
  "per_endpoint_map_dir root m link = path_join (globals_dir root) (endpoint_wire_name m @ ''_'' @ link)"

definition global_map_dir :: "string \<Rightarrow> global_map \<Rightarrow> string" where
  "global_map_dir root m = path_join (globals_dir root) (global_wire_name m)"

text \<open>\<open>parse_pin_subpath\<close> on the components of a path.\<close>

definition parse_pin_subpath :: "component list \<Rightarrow> (loader_endpoint_kind \<times> string) option" where
  "parse_pin_subpath cs =
     (case cs of c # d # _ \<Rightarrow>
        (case from_kind_str (comp_str c) of None \<Rightarrow> None | Some kind \<Rightarrow> Some (kind, comp_str d))
      | _ \<Rightarrow> None)"

lemma from_kind_str_kind_str [simp]: "from_kind_str (kind_str k) = Some k"
  by (cases k) (simp_all add: from_kind_str_def)

lemma kind_str_inject [simp]: "kind_str a = kind_str b \<longleftrightarrow> a = b"
  by (cases a; cases b) simp_all

lemma plain_kind_str [simp]: "plain_name (kind_str k)"
  by (cases k) (simp_all add: plain_name_def)

lemma components_kind [simp]: "components (kind_str k) = [Normal (kind_str k)]"
  by (cases k) (simp_all add: components_def Let_def)

lemma components_links_dir: "components (links_dir root) = components root @ [Normal ''links'']"
  unfolding links_dir_def by (rule components_join) (simp add: plain_name_def)

lemma components_globals_dir: "components (globals_dir root) = components root @ [Normal ''globals'']"
  unfolding globals_dir_def by (rule components_join) (simp add: plain_name_def)

lemma path_join_assoc:
  assumes "plain_name a" "plain_name b"
  shows "path_join p (path_join a b) = path_join (path_join p a) b"
proof -
  have a: "a \<noteq> []" "hd a \<noteq> CHR ''/''" "last a \<noteq> CHR ''/''"
    using assms(1) last_in_set [of a] by (cases a; force simp: plain_name_def)+
  have b: "b \<noteq> []" "hd b \<noteq> CHR ''/''"
    using assms(2) by (cases b; auto simp: plain_name_def)+
  show ?thesis using a b by (simp add: path_join_def)
qed

lemma components_endpoint_link_dir:
  assumes "plain_name link"
  shows "components (endpoint_link_dir root kind link) =
    components root @ [Normal ''links'', Normal (kind_str kind), Normal link]"
  using assms
  by (simp add: endpoint_link_dir_def pin_subpath_def path_join_assoc components_join components_links_dir)

lemma plain_wire_name: "CHR ''/'' \<notin> set link \<Longrightarrow> plain_name (endpoint_wire_name m @ ''_'' @ link)"
  by (cases m) (simp_all add: plain_name_def)

lemma plain_global_name: "plain_name (global_wire_name m)"
  by (cases m) (simp_all add: plain_name_def)

lemma components_map_dirs:
  "CHR ''/'' \<notin> set link \<Longrightarrow> components (per_endpoint_map_dir root m link) =
     components root @ [Normal ''globals'', Normal (endpoint_wire_name m @ ''_'' @ link)]"
  "components (global_map_dir root g) = components root @ [Normal ''globals'', Normal (global_wire_name g)]"
  using components_join [OF plain_wire_name, of link "globals_dir root" m]
    components_join [OF plain_global_name, of "globals_dir root" g]
  by (simp_all add: per_endpoint_map_dir_def global_map_dir_def components_globals_dir)

lemma endpoint_wire_inject:
  "endpoint_wire_name a @ ''_'' @ l = endpoint_wire_name b @ ''_'' @ k \<longleftrightarrow> a = b \<and> l = k"
  by (cases a; cases b) auto

lemma wire_names_disjoint: "endpoint_wire_name a @ ''_'' @ l \<noteq> global_wire_name g"
  by (cases a; cases g) auto

section \<open>Map entries shared with the programs\<close>

record endpoint_key =
  key_ip :: "u8 list"
  key_family :: u8
  key_pad :: "u8 list"

record endpoint_config =
  cfg_endpoint_id :: u16
  cfg_host_mac :: "u8 list"
  cfg_ipv4 :: "u32 option"
  cfg_ipv6 :: "u128 option"

record endpoint_info =
  info_endpoint_id :: u16
  info_if_index :: u32
  info_container_mac :: "u8 list"
  info_host_mac :: "u8 list"

definition from_ipv4_octets :: "u8 list \<Rightarrow> endpoint_key" where
  "from_ipv4_octets os = \<lparr>key_ip = os @ replicate 12 0, key_family = 1, key_pad = replicate 3 0\<rparr>"

definition from_ipv6_octets :: "u8 list \<Rightarrow> endpoint_key" where
  "from_ipv6_octets os = \<lparr>key_ip = os, key_family = 2, key_pad = replicate 3 0\<rparr>"

fun key_of_ip :: "ip_addr \<Rightarrow> endpoint_key" where
  "key_of_ip (V4 a) = from_ipv4_octets (be_bytes 4 a)"
| "key_of_ip (V6 a) = from_ipv6_octets (be_bytes 16 a)"

definition ip_of_key :: "endpoint_key \<Rightarrow> (ip_addr, string) result" where
  "ip_of_key k =
     (if key_family k = 1 then Ok (V4 (from_be (take 4 (key_ip k))))
      else if key_family k = 2 then Ok (V6 (from_be (key_ip k)))
      else Err ''Invalid endpoint key address family'')"

lemma ip_of_key_of_ip: "ip_of_key (key_of_ip ip) = Ok ip"
  by (cases ip) (simp_all add: ip_of_key_def from_ipv4_octets_def from_ipv6_octets_def from_be_be_bytes)

section \<open>Properties\<close>

text \<open>Every address has one key in the endpoint table and is recovered from it, so two
  addresses never share an entry.\<close>

lemma endpoint_key_roundtrip:
  "ip_of_key (key_of_ip ip) = Ok ip \<and> (key_of_ip ip = key_of_ip ip' \<longleftrightarrow> ip = ip')"
  by (metis ip_of_key_of_ip result.inject(1))

text \<open>The pin layout has no collisions. For interface names that are single path components,
  the kind and the link are recovered from the sub-path, two endpoints share a link directory only
  if kind and link agree, and the pins of per-endpoint maps never coincide with each other or with
  those of the global maps.\<close>

lemma pin_layout_injective:
  assumes "plain_name link" "plain_name link'"
  shows "parse_pin_subpath (components (pin_subpath kind link)) = Some (kind, link) \<and>
    (endpoint_link_dir root kind link = endpoint_link_dir root kind' link' \<longleftrightarrow> kind = kind' \<and> link = link') \<and>
    (per_endpoint_map_dir root m link = per_endpoint_map_dir root m' link' \<longleftrightarrow> m = m' \<and> link = link') \<and>
    per_endpoint_map_dir root m link \<noteq> global_map_dir root g"
proof -
  have sep: "CHR ''/'' \<notin> set link" "CHR ''/'' \<notin> set link'" using assms by (simp_all add: plain_name_def)
  have sub: "components (pin_subpath kind link) = [Normal (kind_str kind), Normal link]"
    by (simp add: pin_subpath_def components_join [OF assms(1)])
  have dir: "endpoint_link_dir root kind link = endpoint_link_dir root kind' link' \<Longrightarrow> kind = kind' \<and> link = link'"
    by (drule arg_cong [of _ _ components]) (simp add: components_endpoint_link_dir assms)
  have maps: "per_endpoint_map_dir root m link = per_endpoint_map_dir root m' link' \<Longrightarrow> m = m' \<and> link = link'"
    by (drule arg_cong [of _ _ components])
      (simp add: components_map_dirs sep endpoint_wire_inject [simplified])
  have "per_endpoint_map_dir root m link \<noteq> global_map_dir root g"
    by (rule notI, drule arg_cong [of _ _ components])
      (simp add: components_map_dirs sep wire_names_disjoint [simplified])
  with sub dir maps show ?thesis by (auto simp: parse_pin_subpath_def)
qed

lemma pin_layout_injective_witness:
  "parse_pin_subpath (components (pin_subpath KHost ''eth0'')) = Some (KHost, ''eth0'')"
  using pin_layout_injective [of "''eth0''" "''eth1''" KHost "''/sys/fs/bpf''" KHost CallsMap CallsMap LxcMap]
  by (simp add: plain_name_def)

end
