(* ===== verification/Id_Allocator.thy ===== *)
theory Id_Allocator
  imports Dataplane_Types Resource_Pool
begin

text \<open>
  \<open>IdAllocator\<close>, \<open>IdCache\<close> and \<open>IdLease\<close> of \<open>sarena-data-plane/src/endpoint/id_allocator.rs\<close>. A
  \<open>HashSet\<close> is a set; \<open>allocate_id\<close> takes the first id of the set's iteration order, which the
  source leaves open, so \<open>pick\<close> stands for it: a function that returns some member of a non-empty
  set. The lock makes every operation a function on the cache.
\<close>

definition MIN_ID :: endpoint_id where
  "MIN_ID = 1"

definition MAX_ID :: endpoint_id where
  "MAX_ID = 4095"

definition endpoint_id_str :: "endpoint_id \<Rightarrow> string" where
  "endpoint_id_str eid = dec_str (unat eid)"

definition endpoint_id_from_str :: "string \<Rightarrow> endpoint_id option" where
  "endpoint_id_from_str s = map_option of_nat (from_str_radix 10 65535 s)"

record id_cache =
  ids :: "endpoint_id set"
  leased :: "endpoint_id set"

definition cache_new :: "endpoint_id \<Rightarrow> endpoint_id \<Rightarrow> id_cache" where
  "cache_new min_id max_id = \<lparr>ids = of_nat ` set [unat min_id..<Suc (unat max_id)], leased = {}\<rparr>"

definition allocate_id :: "(endpoint_id set \<Rightarrow> endpoint_id) \<Rightarrow> id_cache \<Rightarrow> endpoint_id option \<times> id_cache" where
  "allocate_id pick c =
     (if ids c = {} then (None, c)
      else let eid = pick (ids c) in (Some eid, c\<lparr>ids := ids c - {eid}\<rparr>))"

definition cache_insert :: "endpoint_id \<Rightarrow> id_cache \<Rightarrow> bool \<times> id_cache" where
  "cache_insert eid c =
     (if eid \<in> leased c then (False, c) else (eid \<notin> ids c, c\<lparr>ids := insert eid (ids c)\<rparr>))"

definition cache_remove :: "endpoint_id \<Rightarrow> id_cache \<Rightarrow> bool \<times> id_cache" where
  "cache_remove eid c = (eid \<in> ids c, c\<lparr>ids := ids c - {eid}, leased := leased c - {eid}\<rparr>)"

definition id_new :: id_cache where
  "id_new = cache_new MIN_ID MAX_ID"

definition id_allocate :: "(endpoint_id set \<Rightarrow> endpoint_id) \<Rightarrow> id_cache \<Rightarrow> endpoint_id option \<times> id_cache" where
  "id_allocate pick c = allocate_id pick c"

definition id_reuse :: "endpoint_id \<Rightarrow> id_cache \<Rightarrow> (unit, dp_error) result \<times> id_cache" where
  "id_reuse eid c =
     (if eid < MIN_ID then
        (Err (GeneralError (''unable to reuse EndpointId: '' @ endpoint_id_str eid @ '' < '' @ endpoint_id_str MIN_ID)), c)
      else if MAX_ID < eid then (Ok (), c)
      else case cache_remove eid c of
        (True, c') \<Rightarrow> (Ok (), c')
      | (False, c') \<Rightarrow> (Err (GeneralError (''EndpointId '' @ endpoint_id_str eid @ '' is already in use'')), c'))"

definition id_release :: "endpoint_id \<Rightarrow> id_cache \<Rightarrow> (unit, dp_error) result \<times> id_cache" where
  "id_release eid c =
     (case cache_insert eid c of
        (True, c') \<Rightarrow> (Ok (), c')
      | (False, c') \<Rightarrow> (Err (GeneralError (''unable to release EndpointId '' @ endpoint_id_str eid)), c'))"

text \<open>\<open>IdLease\<close>: the id until it is committed; dropping a lease that still has one releases it.\<close>

type_synonym id_lease = "endpoint_id option"

definition lease_new :: "endpoint_id \<Rightarrow> id_lease" where
  "lease_new eid = Some eid"

definition lease_commit :: "id_lease \<Rightarrow> (endpoint_id \<times> id_lease) option" where
  "lease_commit l = (case l of None \<Rightarrow> None | Some eid \<Rightarrow> Some (eid, None))"

definition lease_drop :: "id_lease \<Rightarrow> id_cache \<Rightarrow> id_cache" where
  "lease_drop l c = (case l of None \<Rightarrow> c | Some eid \<Rightarrow> snd (id_release eid c))"

section \<open>The allocator is a recycling pool\<close>

definition id_range :: "endpoint_id set" where
  "id_range = {MIN_ID..MAX_ID}"

definition id_inv :: "id_cache \<Rightarrow> bool" where
  "id_inv c \<longleftrightarrow> ids c \<subseteq> id_range \<and> leased c = {}"

definition pick_ok :: "(endpoint_id set \<Rightarrow> endpoint_id) \<Rightarrow> id_cache \<Rightarrow> bool" where
  "pick_ok pick c \<longleftrightarrow> ids c \<noteq> {} \<longrightarrow> pick (ids c) \<in> ids c"

lemma id_range_iff: "eid \<in> id_range \<longleftrightarrow> 1 \<le> unat eid \<and> unat eid \<le> 4095"
  by (simp add: id_range_def MIN_ID_def MAX_ID_def word_le_nat_alt)

lemma cache_new_ids: "ids (cache_new a b) = {a..b}"
proof (rule set_eqI)
  fix x :: endpoint_id
  show "x \<in> ids (cache_new a b) \<longleftrightarrow> x \<in> {a..b}"
  proof
    assume "x \<in> ids (cache_new a b)"
    then obtain n where n: "x = of_nat n" "unat a \<le> n" "n \<le> unat b" by (auto simp: cache_new_def)
    then have "unat x = n" using unat_bound [of b] by (simp add: unat_of_nat)
    with n show "x \<in> {a..b}" by (simp add: word_le_nat_alt)
  next
    assume "x \<in> {a..b}"
    then have "unat a \<le> unat x" "unat x \<le> unat b" by (simp_all add: word_le_nat_alt)
    then have "unat x \<in> set [unat a..<Suc (unat b)]" by auto
    then have "of_nat (unat x) \<in> ids (cache_new a b)"
      unfolding cache_new_def id_cache.simps by (rule imageI)
    then show "x \<in> ids (cache_new a b)" by simp
  qed
qed

lemma id_new_inv [inv_intros]: "id_inv id_new" "ids id_new = id_range"
  by (simp_all add: id_new_def id_inv_def cache_new_ids id_range_def) (simp add: cache_new_def)

lemma card_id_range: "card id_range = 4095"
proof -
  have "id_range = of_nat ` {1..<4096::nat}"
    using cache_new_ids [of MIN_ID MAX_ID] by (simp add: cache_new_def id_range_def MIN_ID_def MAX_ID_def)
  then have "card id_range = card (of_nat ` {1..<4096::nat} :: endpoint_id set)" by (rule arg_cong)
  moreover have "inj_on (of_nat :: nat \<Rightarrow> endpoint_id) {1..<4096}"
  proof (rule inj_onI)
    fix x y :: nat
    assume r: "x \<in> {1..<4096}" "y \<in> {1..<4096}" and eq: "(of_nat x :: endpoint_id) = of_nat y"
    have "unat (of_nat x :: endpoint_id) = x" "unat (of_nat y :: endpoint_id) = y"
      using r by (simp_all add: unat_of_nat)
    then show "x = y" unfolding eq by simp
  qed
  then have "card (of_nat ` {1..<4096::nat} :: endpoint_id set) = card {1..<4096::nat}" by (rule card_image)
  ultimately show ?thesis by simp
qed

interpretation id_pool: recycling_pool id_inv ids pick_ok id_allocate
  "\<lambda>c. id_range - ids c" "\<lambda>eid c. snd (id_release eid c)"
  by unfold_locales
    (auto simp: id_inv_def pick_ok_def id_allocate_def allocate_id_def id_release_def cache_insert_def
      Let_def split: if_splits)

lemma id_release_effect:
  assumes "id_inv c"
  shows "id_release eid c = (if eid \<in> ids c
    then (Err (GeneralError (''unable to release EndpointId '' @ endpoint_id_str eid)), c)
    else (Ok (), c\<lparr>ids := insert eid (ids c)\<rparr>))"
  using assms by (auto simp: id_release_def cache_insert_def id_inv_def insert_absorb)

lemma id_reuse_effect:
  assumes "id_inv c" "eid \<in> id_range"
  shows "id_reuse eid c = (if eid \<in> ids c then (Ok (), c\<lparr>ids := ids c - {eid}\<rparr>)
    else (Err (GeneralError (''EndpointId '' @ endpoint_id_str eid @ '' is already in use'')), c))"
  using assms by (auto simp: id_reuse_def cache_remove_def id_inv_def id_range_def)

section \<open>Histories of calls\<close>

text \<open>The calls of the allocator's clients, in any order and with any id: an allocation with the order the
  hash set then has, a reuse, a release, the drop of a lease. With them the set of the ids that were
  granted and not released since.\<close>

datatype id_op = IAllocate "endpoint_id set \<Rightarrow> endpoint_id" | IReuse endpoint_id | IRelease endpoint_id | IDrop id_lease

fun id_step :: "id_op \<Rightarrow> endpoint_id set \<times> id_cache \<Rightarrow> endpoint_id set \<times> id_cache" where
  "id_step (IAllocate pick) (held, c) =
     (case id_allocate pick c of (Some eid, c') \<Rightarrow> (insert eid held, c') | (None, c') \<Rightarrow> (held, c'))"
| "id_step (IReuse eid) (held, c) =
     (case id_reuse eid c of (Ok _, c') \<Rightarrow> (insert eid held, c') | (Err _, c') \<Rightarrow> (held, c'))"
| "id_step (IRelease eid) (held, c) =
     (case id_release eid c of (Ok _, c') \<Rightarrow> (held - {eid}, c') | (Err _, c') \<Rightarrow> (held, c'))"
| "id_step (IDrop l) (held, c) = (held - set_option l, lease_drop l c)"

fun picks_member :: "id_op \<Rightarrow> bool" where
  "picks_member (IAllocate pick) = (\<forall>S. S \<noteq> {} \<longrightarrow> pick S \<in> S)"
| "picks_member _ = True"

fun given_back :: "id_op \<Rightarrow> endpoint_id set" where
  "given_back (IRelease eid) = {eid}"
| "given_back (IDrop l) = set_option l"
| "given_back _ = {}"

definition id_split :: "endpoint_id set \<Rightarrow> endpoint_id set \<times> id_cache \<Rightarrow> bool" where
  "id_split R s \<longleftrightarrow> leased (snd s) = {} \<and> ids (snd s) \<subseteq> id_range \<union> R \<and>
     (\<forall>eid \<in> id_range. eid \<in> ids (snd s) \<longleftrightarrow> eid \<notin> fst s)"

lemma id_release_cases:
  assumes "leased c = {}"
  shows "id_release eid c = (if eid \<in> ids c
    then (Err (GeneralError (''unable to release EndpointId '' @ endpoint_id_str eid)), c)
    else (Ok (), c\<lparr>ids := insert eid (ids c)\<rparr>))"
  using assms by (auto simp: id_release_def cache_insert_def insert_absorb)

lemma id_reuse_cases:
  assumes "leased c = {}"
  shows "id_reuse eid c = (if eid < MIN_ID then
      (Err (GeneralError (''unable to reuse EndpointId: '' @ endpoint_id_str eid @ '' < '' @ endpoint_id_str MIN_ID)), c)
    else if MAX_ID < eid then (Ok (), c)
    else if eid \<in> ids c then (Ok (), c\<lparr>ids := ids c - {eid}\<rparr>)
    else (Err (GeneralError (''EndpointId '' @ endpoint_id_str eid @ '' is already in use'')), c))"
  using assms by (auto simp: id_reuse_def cache_remove_def)

lemma id_step_split:
  assumes "id_split R s" "picks_member x"
  shows "id_split (R \<union> given_back x) (id_step x s)"
proof -
  obtain held c where s: "s = (held, c)" by fastforce
  have sp: "leased c = {}" "ids c \<subseteq> id_range \<union> R" "\<forall>eid \<in> id_range. eid \<in> ids c \<longleftrightarrow> eid \<notin> held"
    using assms(1) s by (simp_all add: id_split_def)
  show ?thesis
  proof (cases x)
    case (IAllocate pick)
    then have "ids c \<noteq> {} \<Longrightarrow> pick (ids c) \<in> ids c" using assms(2) by simp
    with IAllocate sp show ?thesis by (auto simp: s id_split_def id_allocate_def allocate_id_def Let_def)
  next
    case (IReuse eid)
    have "MAX_ID < eid \<Longrightarrow> eid \<notin> id_range" by (auto simp: id_range_def)
    with IReuse sp show ?thesis by (auto simp: s id_split_def id_reuse_cases [OF sp(1)])
  next
    case (IRelease eid)
    with sp show ?thesis by (auto simp: s id_split_def id_release_cases [OF sp(1)])
  next
    case (IDrop l)
    with sp show ?thesis
      by (cases l) (auto simp: s id_split_def lease_drop_def id_release_cases [OF sp(1)])
  qed
qed

lemma id_run_split:
  "id_split R s \<Longrightarrow> list_all picks_member xs \<Longrightarrow> id_split (R \<union> \<Union> (given_back ` set xs)) (fold id_step xs s)"
proof (induction xs arbitrary: R s)
  case (Cons x xs)
  then have "id_split (R \<union> given_back x) (id_step x s)" using id_step_split [of R s x] by simp
  from Cons.IH [OF this] Cons.prems(2) show ?case by (simp add: Un_assoc)
qed simp

section \<open>Properties\<close>

text \<open>C22: conservation of ids. After any calls with any ids, every id from 1 to 4095 is either free or held
  (granted and not released since), never both and never lost; reusing it succeeds exactly when it
  is free, releasing it exactly when it is held. An id outside that range is in the pool only if a
  client released it.\<close>

theorem endpoint_ids_conserved:
  assumes "list_all picks_member xs" "fold id_step xs ({}, id_new) = (held, c)"
  shows "(\<forall>eid \<in> id_range. (eid \<in> ids c \<longleftrightarrow> eid \<notin> held) \<and>
      (is_ok (fst (id_reuse eid c)) \<longleftrightarrow> eid \<notin> held) \<and> (is_ok (fst (id_release eid c)) \<longleftrightarrow> eid \<in> held)) \<and>
    ids c \<subseteq> id_range \<union> \<Union> (given_back ` set xs)"
proof -
  have "id_split {} ({}, id_new)" using id_new_inv by (simp add: id_split_def id_inv_def)
  from id_run_split [OF this assms(1)] have sp: "leased c = {}" "ids c \<subseteq> id_range \<union> \<Union> (given_back ` set xs)"
    "\<forall>eid \<in> id_range. eid \<in> ids c \<longleftrightarrow> eid \<notin> held" unfolding assms(2) id_split_def by simp_all
  then show ?thesis
    by (auto simp: id_reuse_cases [OF sp(1)] id_release_cases [OF sp(1)] id_range_def)
qed

theorem endpoint_ids_conserved_witness:
  "\<exists>c. fold id_step [IAllocate Min, IReuse 7, IReuse 5000, IRelease 1, IDrop (Some 5000)] ({}, id_new) = ({7}, c) \<and>
     1 \<in> ids c \<and> 7 \<notin> ids c \<and> \<not> is_ok (fst (id_reuse 7 c)) \<and> ids c \<subseteq> id_range \<union> {1, 5000}"
proof -
  let ?xs = "[IAllocate Min, IReuse 7, IReuse 5000, IRelease 1, IDrop (Some 5000)]"
  have m: "Min id_range = MIN_ID" by (rule Min_eqI) (auto simp: id_range_def MIN_ID_def MAX_ID_def)
  have r: "1 \<in> id_range" "7 \<in> id_range" "5000 \<notin> id_range" by (simp_all add: id_range_def MIN_ID_def MAX_ID_def)
  have i: "ids id_new = id_range" "leased id_new = {}" using id_new_inv by (simp_all add: id_inv_def)
  have "id_range \<noteq> {}" using r(1) by blast
  then have s: "id_step (IAllocate Min) ({}, id_new) = ({1}, id_new\<lparr>ids := id_range - {1}\<rparr>)"
    by (simp add: id_allocate_def allocate_id_def Let_def i m MIN_ID_def)
  obtain c where f: "fold id_step ?xs ({}, id_new) = ({7}, c)"
    using i r by (simp add: s MIN_ID_def MAX_ID_def id_reuse_cases id_release_cases lease_drop_def del: id_step.simps(1)) (auto simp: insert_Diff_if)
  have "list_all picks_member ?xs" by simp
  from endpoint_ids_conserved [OF this f] r show ?thesis using f by auto
qed

text \<open>A new allocator serves exactly 4095 requests with the ids 1 to 4095, each once, in
  whatever order the hash set yields them.\<close>

lemma endpoint_ids_exhausted:
  assumes "legal_many pick_ok id_allocate ps id_new" "4095 \<le> length ps"
    "acquire_many id_allocate ps id_new = (out, c)"
  shows "distinct (granted out) \<and> set (granted out) = {MIN_ID..MAX_ID} \<and> ids c = {}"
proof -
  have "card (ids id_new) \<le> length ps" using assms(2) by (simp add: id_new_inv card_id_range)
  from id_pool.acquire_many_exhausts [OF id_new_inv(1) assms(1,3) this] show ?thesis
    by (simp add: id_new_inv id_range_def)
qed

lemma legal_many_least:
  "legal_many pick_ok id_allocate (replicate n (\<lambda>S. LEAST x. x \<in> S)) c"
proof (induction n arbitrary: c)
  case (Suc n)
  have "pick_ok (\<lambda>S. LEAST x. x \<in> S) c" unfolding pick_ok_def by (meson LeastI_ex ex_in_conv)
  with Suc show ?case by simp
qed simp

lemma endpoint_ids_exhausted_witness:
  "set (granted (fst (acquire_many id_allocate (replicate 4095 (\<lambda>S. LEAST x. x \<in> S)) id_new))) = {MIN_ID..MAX_ID}"
  using endpoint_ids_exhausted [OF legal_many_least _ prod.collapse [symmetric], of 4095] by simp

text \<open>An id above the range is accepted by \<open>reuse\<close> without a record, and releasing it, as a
  dropped lease does, puts it into the pool, from which \<open>allocate\<close> then hands it out although it
  is not an allocatable id.\<close>

lemma out_of_range_id_enters_pool:
  assumes "id_inv c" "MAX_ID < eid" "pick (insert eid (ids c)) = eid"
  shows "fst (id_reuse eid c) = Ok () \<and>
    fst (id_allocate pick (lease_drop (lease_new eid) (snd (id_reuse eid c)))) = Some eid \<and> eid \<notin> id_range"
proof -
  have out: "eid \<notin> id_range" and "eid \<notin> ids c" using assms(1,2) by (force simp: id_range_def id_inv_def)+
  have "\<not> eid < MIN_ID" using assms(2) by (simp add: MIN_ID_def MAX_ID_def word_less_nat_alt)
  then have "id_reuse eid c = (Ok (), c)" using assms(2) by (simp add: id_reuse_def)
  with out \<open>eid \<notin> ids c\<close> assms(1,3) show ?thesis
    by (simp add: lease_drop_def lease_new_def id_release_effect id_allocate_def allocate_id_def Let_def)
qed

lemma out_of_range_id_enters_pool_witness:
  "fst (id_allocate (\<lambda>S. Max S) (lease_drop (lease_new 5000) (snd (id_reuse 5000 id_new)))) = Some 5000"
proof -
  have "Max (insert 5000 id_range) = 5000"
    by (rule Max_eqI) (auto simp: id_range_def MAX_ID_def word_le_nat_alt)
  then show ?thesis
    using out_of_range_id_enters_pool [OF id_new_inv(1), of 5000 "\<lambda>S. Max S"]
    by (simp add: id_new_inv MAX_ID_def)
qed

end
