(* ===== verification/Ip_Parse.thy ===== *)
theory Ip_Parse
  imports Net_Types
begin

text \<open>
  The standard library's \<open>FromStr\<close> for \<open>Ipv4Addr\<close> and \<open>Ipv6Addr\<close>, which \<open>EndpointIdentification\<close> and
  the endpoint service rely on: readers that consume a prefix of the text or fail and consume
  nothing. The main lemma is that parsing the printed form of an IPv4 address gives it back.
\<close>

type_synonym 'a reader = "string \<Rightarrow> ('a \<times> string) option"

fun read_digits :: "nat \<Rightarrow> nat \<Rightarrow> nat \<Rightarrow> nat \<Rightarrow> string \<Rightarrow> (nat \<times> nat \<times> string) option" where
  "read_digits r mx cnt acc [] = Some (acc, cnt, [])"
| "read_digits r mx cnt acc (c # cs) =
     (case char_digit r c of None \<Rightarrow> Some (acc, cnt, c # cs)
      | Some d \<Rightarrow> if mx < cnt + 1 then None else read_digits r mx (cnt + 1) (acc * r + d) cs)"

text \<open>\<open>read_number(radix, Some(max_digits), allow_zero_prefix)\<close> into a type with largest value \<open>ub\<close>.\<close>

definition read_number :: "nat \<Rightarrow> nat \<Rightarrow> bool \<Rightarrow> nat \<Rightarrow> nat reader" where
  "read_number r mx allow_zero ub s =
     (case read_digits r mx 0 0 s of None \<Rightarrow> None
      | Some (v, cnt, rest) \<Rightarrow>
          if cnt = 0 then None
          else if \<not> allow_zero \<and> hd s = CHR ''0'' \<and> 1 < cnt then None
          else if ub < v then None else Some (v, rest))"

fun read_given_char :: "char \<Rightarrow> unit reader" where
  "read_given_char c [] = None"
| "read_given_char c (x # xs) = (if x = c then Some ((), xs) else None)"

definition read_separator :: "char \<Rightarrow> nat \<Rightarrow> 'a reader \<Rightarrow> 'a reader" where
  "read_separator sep index f s =
     (if 0 < index then (case read_given_char sep s of None \<Rightarrow> None | Some (_, s') \<Rightarrow> f s') else f s)"

fun read_v4_octets :: "nat \<Rightarrow> nat \<Rightarrow> nat list reader" where
  "read_v4_octets i 0 s = Some ([], s)"
| "read_v4_octets i (Suc k) s =
     (case read_separator CHR ''.'' i (read_number 10 3 False 255) s of None \<Rightarrow> None
      | Some (v, s') \<Rightarrow>
          (case read_v4_octets (i + 1) k s' of None \<Rightarrow> None | Some (vs, s'') \<Rightarrow> Some (v # vs, s'')))"

definition read_ipv4_addr :: "u8 list reader" where
  "read_ipv4_addr s = map_option (\<lambda>(vs, r). (map of_nat vs, r)) (read_v4_octets 0 4 s)"

definition parse_v4 :: "string \<Rightarrow> u32 option" where
  "parse_v4 s =
     (if 15 < length s then None
      else case read_ipv4_addr s of Some (os, []) \<Rightarrow> Some (from_be os) | _ \<Rightarrow> None)"

text \<open>\<open>read_groups\<close>: the groups read, and whether the last two came from an embedded IPv4 address.\<close>

fun read_groups :: "nat \<Rightarrow> nat \<Rightarrow> string \<Rightarrow> u16 list \<times> bool \<times> string" where
  "read_groups i 0 s = ([], False, s)"
| "read_groups i (Suc k) s =
     (case (if 0 < k then read_separator CHR '':'' i read_ipv4_addr s else None) of
        Some (os, s') \<Rightarrow> ([from_be (take 2 os), from_be (drop 2 os)], True, s')
      | None \<Rightarrow>
          (case read_separator CHR '':'' i (read_number 16 4 True 65535) s of
             None \<Rightarrow> ([], False, s)
           | Some (g, s') \<Rightarrow>
               (case read_groups (i + 1) k s' of (gs, v4, s'') \<Rightarrow> (of_nat g # gs, v4, s''))))"

definition v6_of_segments :: "u16 list \<Rightarrow> u128" where
  "v6_of_segments gs = from_be (concat (map (be_bytes 2) gs))"

definition read_ipv6_addr :: "u128 reader" where
  "read_ipv6_addr s =
     (case read_groups 0 8 s of (hs, head_v4, s1) \<Rightarrow>
        if length hs = 8 then Some (v6_of_segments hs, s1)
        else if head_v4 then None
        else case read_given_char CHR '':'' s1 of None \<Rightarrow> None
        | Some (_, s2) \<Rightarrow>
            (case read_given_char CHR '':'' s2 of None \<Rightarrow> None
             | Some (_, s3) \<Rightarrow>
                 (case read_groups 0 (8 - (length hs + 1)) s3 of (ts, _, s4) \<Rightarrow>
                    Some (v6_of_segments (hs @ replicate (8 - length hs - length ts) 0 @ ts), s4))))"

definition parse_v6 :: "string \<Rightarrow> u128 option" where
  "parse_v6 s = (case read_ipv6_addr s of Some (w, []) \<Rightarrow> Some w | _ \<Rightarrow> None)"

section \<open>Reading a printed number\<close>

definition digits_val :: "nat \<Rightarrow> nat \<Rightarrow> nat list \<Rightarrow> nat" where
  "digits_val r acc ds = foldl (\<lambda>a d. a * r + d) acc ds"

definition stops :: "nat \<Rightarrow> string \<Rightarrow> bool" where
  "stops r rest \<longleftrightarrow> rest = [] \<or> char_digit r (hd rest) = None"

lemma read_digits_map:
  assumes "\<forall>d \<in> set ds. d < r" "r \<le> 36" "stops r rest" "cnt + length ds \<le> mx"
  shows "read_digits r mx cnt acc (map digit_char ds @ rest) = Some (digits_val r acc ds, cnt + length ds, rest)"
  using assms
proof (induction ds arbitrary: cnt acc)
  case Nil
  then show ?case by (cases rest) (auto simp: digits_val_def stops_def)
next
  case (Cons d ds)
  then show ?case by (simp add: digits_val_def)
qed

lemma radix_str_as_digits:
  assumes "2 \<le> r"
  shows "\<exists>ds. radix_str r n = map digit_char ds \<and> ds \<noteq> [] \<and> (\<forall>d \<in> set ds. d < r) \<and> digits_val r 0 ds = n \<and>
    (1 < length ds \<longrightarrow> hd ds \<noteq> 0) \<and> (\<forall>k. 0 < k \<longrightarrow> n < r ^ k \<longrightarrow> length ds \<le> k)"
  using assms
proof (induction r n rule: radix_str.induct)
  case (1 r n)
  show ?case
  proof (cases "n < r")
    case True
    then show ?thesis by (intro exI [of _ "[n]"]) (auto simp: radix_str.simps [of r n] digits_val_def)
  next
    case False
    with 1 obtain ds where ds: "radix_str r (n div r) = map digit_char ds" "ds \<noteq> []" "\<forall>d \<in> set ds. d < r"
      "digits_val r 0 ds = n div r" "1 < length ds \<longrightarrow> hd ds \<noteq> 0"
      "\<forall>k. 0 < k \<longrightarrow> n div r < r ^ k \<longrightarrow> length ds \<le> k" by auto
    have hd: "hd ds \<noteq> 0"
    proof (cases "length ds = 1")
      case True
      then obtain d where "ds = [d]" by (cases ds) auto
      moreover have "n div r \<noteq> 0" using False "1.prems" by (simp add: div_eq_0_iff)
      ultimately show ?thesis using ds(4) by (simp add: digits_val_def)
    qed (use ds(2,5) in \<open>cases ds; auto\<close>)
    have len: "length ds + 1 \<le> k" if "0 < k" "n < r ^ k" for k
    proof (cases k)
      case (Suc j)
      have "j \<noteq> 0" using that(2) False Suc by (cases j) auto
      moreover have "n div r < r ^ j" using that(2) Suc "1.prems" by (simp add: less_mult_imp_div_less mult.commute)
      ultimately show ?thesis using ds(6) Suc by simp
    qed (use that in simp)
    show ?thesis
      using ds hd len False "1.prems"
      by (intro exI [of _ "ds @ [n mod r]"]) (auto simp: radix_str.simps [of r n] digits_val_def)
  qed
qed

lemma read_number_printed:
  assumes "2 \<le> r" "r \<le> 36" "n < r ^ k" "0 < k" "n \<le> ub" "stops r rest"
  shows "read_number r k z ub (radix_str r n @ rest) = Some (n, rest)"
proof -
  obtain ds where ds: "radix_str r n = map digit_char ds" "ds \<noteq> []" "\<forall>d \<in> set ds. d < r" "digits_val r 0 ds = n"
    "1 < length ds \<longrightarrow> hd ds \<noteq> 0" "length ds \<le> k"
    using radix_str_as_digits [OF assms(1), of n] assms(3,4) by blast
  have rd: "read_digits r k 0 0 (radix_str r n @ rest) = Some (n, length ds, rest)"
    using read_digits_map [OF ds(3) assms(2,6), of 0 k 0] ds(1,4,6) by simp
  have "hd (radix_str r n @ rest) \<noteq> CHR ''0''" if "1 < length ds"
  proof -
    have "hd ds < r" using ds(2,3) by simp
    then have "digit_char (hd ds) \<noteq> digit_char 0"
      using digit_char_inject [of "hd ds" 0] ds(5) that assms(2) by force
    moreover have "digit_char 0 = CHR ''0''" by code_simp
    ultimately show ?thesis using ds(1,2) by (simp add: hd_map)
  qed
  with rd ds(2) assms(5) show ?thesis by (auto simp: read_number_def)
qed

section \<open>IPv4 round trip\<close>

lemma stops_dot: "stops 10 (CHR ''.'' # s)" "stops r []"
  by (simp_all add: stops_def char_digit_def)

lemma read_octet:
  "stops 10 rest \<Longrightarrow> read_number 10 3 False 255 (dec_str (unat (b :: u8)) @ rest) = Some (unat b, rest)"
  using unat_bound [of b] by (intro read_number_printed) simp_all

lemma dec_str_length: "n < 10 ^ k \<Longrightarrow> 0 < k \<Longrightarrow> length (dec_str n) \<le> k"
  using radix_str_as_digits [of 10 n] by auto

lemma v4_octets_be: "v4_octets w = be_bytes 4 w"
  by (simp add: v4_octets_def numeral_eq_Suc)

lemma four_Suc: "4 = Suc (Suc (Suc (Suc 0)))"
  by simp

lemma parse_v4_str: "parse_v4 (v4_str w) = Some w"
proof -
  obtain a b c d where o: "v4_octets w = [a, b, c, d]" by (simp add: v4_octets_def)
  have str: "v4_str w = dec_str (unat a) @ ''.'' @ dec_str (unat b) @ ''.'' @ dec_str (unat c) @ ''.'' @ dec_str (unat d)"
    by (simp add: v4_str_def o)
  have len: "length (dec_str (unat x)) \<le> 3" for x :: u8
    using unat_bound [of x] by (intro dec_str_length) simp_all
  have "length (v4_str w) \<le> 15" unfolding str using len [of a] len [of b] len [of c] len [of d] by simp
  moreover have "read_ipv4_addr (v4_str w) = Some ([a, b, c, d], [])"
    using read_octet [OF stops_dot(2), of d]
    unfolding read_ipv4_addr_def str four_Suc by (simp add: read_separator_def read_octet stops_dot)
  ultimately show ?thesis
    using from_be_be_bytes [of 4 w] by (simp add: parse_v4_def o [symmetric] v4_octets_be)
qed

section \<open>IPv6 round trip\<close>

lemma read_digits_rest:
  "read_digits r mx cnt acc s = Some (v, c, rest) \<Longrightarrow> rest = dropWhile (\<lambda>x. char_digit r x \<noteq> None) s"
  by (induction s arbitrary: cnt acc) (auto split: option.splits if_splits)

lemma read_number_rest:
  "read_number r mx z ub s = Some (v, rest) \<Longrightarrow> rest = dropWhile (\<lambda>x. char_digit r x \<noteq> None) s"
  by (auto simp: read_number_def dest: read_digits_rest split: option.splits if_splits)

lemma dropWhile_no_dot:
  assumes "CHR ''.'' \<notin> set xs" "rest = [] \<or> hd rest = CHR '':''"
  shows "dropWhile (\<lambda>x. char_digit 10 x \<noteq> None) (xs @ rest) \<noteq> CHR ''.'' # ys"
  using assms
proof (induction xs)
  case Nil
  have "char_digit 10 CHR '':'' = None" by (simp add: char_digit_def)
  with Nil show ?case by (cases rest) auto
qed auto

lemma read_ipv4_not_hex:
  assumes "rest = [] \<or> hd rest = CHR '':''"
  shows "read_ipv4_addr (hex_str n @ rest) = None"
proof (cases "read_number 10 3 False 255 (hex_str n @ rest)")
  case None
  then show ?thesis by (simp add: read_ipv4_addr_def four_Suc read_separator_def)
next
  case (Some p)
  obtain v s' where p: "p = (v, s')" by fastforce
  have nd: "s' \<noteq> CHR ''.'' # ys" for ys
    using read_number_rest [OF Some [unfolded p]] dropWhile_no_dot [OF radix_str_no_punct(3) assms] by simp
  have "read_given_char CHR ''.'' s' = None" using nd by (cases s') auto
  with Some p show ?thesis by (simp add: read_ipv4_addr_def four_Suc read_separator_def)
qed

lemma read_group:
  "stops 16 rest \<Longrightarrow> read_number 16 4 True 65535 (hex_str (unat (g :: u16)) @ rest) = Some (unat g, rest)"
  using unat_bound [of g] by (intro read_number_printed) simp_all

fun gtext :: "nat \<Rightarrow> u16 list \<Rightarrow> string" where
  "gtext i [] = []"
| "gtext i (g # gs) = (if 0 < i then '':'' else []) @ hex_str (unat g) @ gtext (i + 1) gs"

lemma gtext_hd: "0 < i \<Longrightarrow> gs \<noteq> [] \<Longrightarrow> hd (gtext i gs @ rest) = CHR '':''"
  by (cases gs) auto

lemma stops_colon: "stops 16 (CHR '':'' # s)"
  by (simp add: stops_def char_digit_def)

lemma read_groups_gtext:
  assumes "length gs \<le> k" "rest = [] \<or> hd rest = CHR '':''"
  shows "read_groups i k (gtext i gs @ rest) =
    (case read_groups (i + length gs) (k - length gs) rest of (ts, v4, s) \<Rightarrow> (gs @ ts, v4, s))"
  using assms(1)
proof (induction gs arbitrary: i k)
  case (Cons g gs)
  then obtain j where k: "k = Suc j" by (cases k) auto
  let ?t = "gtext (i + 1) gs @ rest"
  have t: "?t = [] \<or> hd ?t = CHR '':''"
    using assms(2) gtext_hd [of "i + 1" gs rest] by (cases gs) auto
  have st: "stops 16 ?t"
    using t stops_colon by (cases ?t) (auto simp: stops_def)
  have v4: "read_separator CHR '':'' i read_ipv4_addr (gtext i (g # gs) @ rest) = None"
    using read_ipv4_not_hex [OF t, of "unat g"] by (cases i) (simp_all add: read_separator_def)
  have num: "read_separator CHR '':'' i (read_number 16 4 True 65535) (gtext i (g # gs) @ rest) = Some (unat g, ?t)"
    using read_group [OF st, of g] by (cases i) (simp_all add: read_separator_def)
  have len: "length gs \<le> j" using Cons.prems k by simp
  show ?case
    unfolding k read_groups.simps v4 num using Cons.IH [OF len, of "i + 1"]
    by (auto split: prod.splits)
qed simp

lemma read_groups_end: "read_groups i k [] = ([], False, [])"
  by (cases k) (simp_all add: read_separator_def read_ipv4_addr_def four_Suc read_number_def)

lemma read_number_colon: "read_number r mx z ub (CHR '':'' # s) = None" if "char_digit r CHR '':'' = None"
  using that by (simp add: read_number_def)

lemma read_groups_double_colon: "read_groups i k (CHR '':'' # CHR '':'' # s) = ([], False, CHR '':'' # CHR '':'' # s)"
proof -
  have c: "char_digit r CHR '':'' = None" for r by (simp add: char_digit_def)
  show ?thesis
    by (cases k) (simp_all add: read_separator_def read_ipv4_addr_def four_Suc read_number_colon c)
qed

lemma segs_str_gtext: "segs_str gs = gtext 0 gs"
proof -
  have tail: "0 < i \<Longrightarrow> gs \<noteq> [] \<Longrightarrow> gtext i gs = CHR '':'' # join_with '':'' (map (\<lambda>s. hex_str (unat s)) gs)" for i gs
  proof (induction gs arbitrary: i)
    case (Cons g gs)
    then show ?case by (cases gs) auto
  qed simp
  show ?thesis
  proof (cases gs)
    case (Cons g hs)
    then show ?thesis using tail [of 1 hs] by (cases hs) (auto simp: segs_str_def)
  qed (simp add: segs_str_def)
qed

lemma v6_segments_bytes: "concat (map (be_bytes 2) (v6_segments w)) = be_bytes 16 w"
proof -
  have u: "(ucast (drop_bit n (ucast x :: u16)) :: u8) = ucast (drop_bit n x)" if "n \<le> 8" for n and x :: u128
    using that by (intro bit_word_eqI) (auto simp: bit_simps)
  have u0: "(ucast (ucast x :: u16) :: u8) = ucast x" for x :: u128
    using u [of 0 x] by simp
  show ?thesis by (simp add: v6_segments_def numeral_eq_Suc u u0)
qed

lemma v6_of_segments_segments: "v6_of_segments (v6_segments w) = w"
  by (simp add: v6_of_segments_def v6_segments_bytes from_be_be_bytes)

lemma parse_v6_plain:
  assumes "length gs = 8"
  shows "read_ipv6_addr (segs_str gs) = Some (v6_of_segments gs, [])"
  using read_groups_gtext [of gs 8 "[]" 0] assms
  by (simp add: read_ipv6_addr_def segs_str_gtext)

lemma parse_v6_compressed:
  assumes "length hs + length ts \<le> 6"
  shows "read_ipv6_addr (segs_str hs @ ''::'' @ segs_str ts) =
    Some (v6_of_segments (hs @ replicate (8 - length hs - length ts) 0 @ ts), [])"
proof -
  have h: "read_groups 0 8 (gtext 0 hs @ ''::'' @ gtext 0 ts) = (hs, False, ''::'' @ gtext 0 ts)"
    using read_groups_gtext [of hs 8 "''::'' @ gtext 0 ts" 0] assms by (simp add: read_groups_double_colon)
  have t: "read_groups 0 (7 - length hs) (gtext 0 ts) = (ts, False, [])"
    using read_groups_gtext [of ts "7 - length hs" "[]" 0] assms by (simp add: read_groups_end)
  show ?thesis using h t assms by (simp add: read_ipv6_addr_def segs_str_gtext)
qed

lemma read_ipv4_printed: "read_ipv4_addr (v4_str w) = Some (v4_octets w, [])"
proof -
  obtain os rest where r: "read_ipv4_addr (v4_str w) = Some (os, rest)" "rest = []" "from_be os = w"
    using parse_v4_str [of w] by (auto simp: parse_v4_def split: option.splits if_splits list.splits)
  have "length os = 4"
    using r(1) by (auto simp: read_ipv4_addr_def four_Suc split: option.splits)
  then have "os = be_bytes 4 w" using be_bytes_from_be [of os, where ?'a = 32] r(3) by simp
  with r show ?thesis by (simp add: v4_octets_be)
qed

lemma mapped_segments:
  assumes "v4_mapped w = Some v"
  shows "v6_segments w = replicate 5 0 @ [0xffff, from_be (take 2 (v4_octets v)), from_be (drop 2 (v4_octets v))]"
proof -
  have hi: "drop_bit 32 w = 0xffff" and v: "v = ucast w" using assms by (auto simp: v4_mapped_def split: if_splits)
  have d: "drop_bit n w = drop_bit (n - 32) 0xffff" if "32 \<le> n" for n
    using hi that by (metis drop_bit_drop_bit le_add_diff_inverse2)
  have lo: "(from_be [ucast (drop_bit (n + 8) v), ucast (drop_bit n v)] :: u16) = ucast (drop_bit n w)"
    if "n = 0 \<or> n = 16" for n
  proof (rule bit_word_eqI)
    fix i assume "i < LENGTH(16)"
    with that show "bit (from_be [ucast (drop_bit (n + 8) v), ucast (drop_bit n v)] :: u16) i = bit (ucast (drop_bit n w) :: u16) i"
      by (auto simp: from_be_def bit_simps v)
  qed
  have z: "ucast (drop_bit 112 w) = (0 :: u16)" "ucast (drop_bit 96 w) = (0 :: u16)"
    "ucast (drop_bit 80 w) = (0 :: u16)" "ucast (drop_bit 64 w) = (0 :: u16)" "ucast (drop_bit 48 w) = (0 :: u16)"
    "ucast (drop_bit 32 w) = (0xffff :: u16)"
    unfolding d [of 112, simplified] d [of 96, simplified] d [of 80, simplified] d [of 64, simplified]
      d [of 48, simplified] hi by code_simp+
  have five: "replicate 5 (0 :: u16) = [0, 0, 0, 0, 0]" by code_simp
  have "from_be (take 2 (v4_octets v)) = (ucast (drop_bit 16 w) :: u16)"
    "from_be (drop 2 (v4_octets v)) = (ucast w :: u16)"
    using lo [of 0] lo [of 16] by (simp_all add: v4_octets_def)
  then show ?thesis by (simp add: v6_segments_def z five)
qed

lemma hex_ffff: "hex_str 65535 = ''ffff''"
proof -
  have "digit_char 15 = CHR ''f''" by code_simp
  then show ?thesis by (simp add: radix_str.simps)
qed

lemma parse_v6_mapped:
  assumes "v4_mapped w = Some v"
  shows "read_ipv6_addr (''::ffff:'' @ v4_str v) = Some (w, [])"
proof -
  let ?lo = "[from_be (take 2 (v4_octets v)), from_be (drop 2 (v4_octets v))] :: u16 list"
  have ff: "''ffff:'' @ v4_str v = gtext 0 [0xffff] @ CHR '':'' # v4_str v"
    by (simp add: hex_ffff)
  have "read_separator CHR '':'' 1 read_ipv4_addr (CHR '':'' # v4_str v) = Some (v4_octets v, [])"
    by (simp add: read_separator_def read_ipv4_printed)
  then have "read_groups 1 (Suc 5) (CHR '':'' # v4_str v) = (?lo, True, [])"
    unfolding read_groups.simps by simp
  then have v4: "read_groups 1 6 (CHR '':'' # v4_str v) = (?lo, True, [])" by simp
  have t: "read_groups 0 7 (''ffff:'' @ v4_str v) = (0xffff # ?lo, True, [])"
    unfolding ff using read_groups_gtext [of "[0xffff]" 7 "CHR '':'' # v4_str v" 0] v4 by simp
  have h: "read_groups 0 8 (''::ffff:'' @ v4_str v) = ([], False, ''::ffff:'' @ v4_str v)"
    using read_groups_double_colon [of 0 8] by simp
  show ?thesis
    using t h v6_of_segments_segments [of w] mapped_segments [OF assms]
    by (simp add: read_ipv6_addr_def)
qed

lemma parse_v6_str: "parse_v6 (v6_str w) = Some w"
proof (cases "v4_mapped w")
  case (Some v)
  with parse_v6_mapped [OF Some] show ?thesis by (simp add: parse_v6_def v6_str_def)
next
  case None
  obtain s l where z: "zero_span (v6_segments w) = (s, l)" by fastforce
  note sp = zero_span_split [OF z]
  have seg: "v6_of_segments (v6_segments w) = w" by (rule v6_of_segments_segments)
  show ?thesis
  proof (cases "1 < l")
    case False
    with None z parse_v6_plain [of "v6_segments w"] seg show ?thesis by (simp add: parse_v6_def v6_str_def)
  next
    case True
    let ?hs = "take s (v6_segments w)" and ?ts = "drop (s + l) (v6_segments w)"
    have len: "length ?hs = s" "length ?ts = 8 - (s + l)" "s + l \<le> 8" using sp(2) by simp_all
    then have "8 - length ?hs - length ?ts = l" by linarith
    with parse_v6_compressed [of ?hs ?ts] len True sp(1) seg
    have "read_ipv6_addr (segs_str ?hs @ ''::'' @ segs_str ?ts) = Some (w, [])" by simp
    with True None z show ?thesis by (simp add: parse_v6_def v6_str_def Let_def)
  qed
qed

end
