(* ===== verification/Endpoint_Id.thy ===== *)
theory Endpoint_Id
  imports Id_Allocator Ip_Parse
begin

text \<open>
  \<open>EndpointIdentification\<close> of \<open>sarena-data-plane/src/endpoint/id.rs\<close>: the \<open>type:value\<close> names of
  endpoints, their \<open>Display\<close> and \<open>FromStr\<close>. The error text of a failed address or number parse is
  the prefix the source adds; the standard library's own description is left out.
\<close>

datatype endpoint_identification =
    ContainerId string
  | ContainerName string
  | DockerEndpoint string
  | EpIpv4 u32
  | EpIpv6 u128
  | Local endpoint_id
  | PodName string

fun ident_str :: "endpoint_identification \<Rightarrow> string" where
  "ident_str (ContainerId v) = ''container_id:'' @ v"
| "ident_str (ContainerName v) = ''container_name:'' @ v"
| "ident_str (DockerEndpoint v) = ''docker_endpoint:'' @ v"
| "ident_str (EpIpv4 v) = ''ipv4:'' @ v4_str v"
| "ident_str (EpIpv6 v) = ''ipv6:'' @ v6_str v"
| "ident_str (Local v) = ''local:'' @ endpoint_id_str v"
| "ident_str (PodName v) = ''pod_name:'' @ v"

definition ident_from_str :: "string \<Rightarrow> (endpoint_identification, string) result" where
  "ident_from_str s =
     (case split_once CHR '':'' s of
        None \<Rightarrow> Err ''Expected a type:value string''
      | Some (kind, value) \<Rightarrow>
          if kind = ''container_id'' then Ok (ContainerId value)
          else if kind = ''container_name'' then Ok (ContainerName value)
          else if kind = ''docker_endpoint'' then Ok (DockerEndpoint value)
          else if kind = ''ipv4'' then
            (case parse_v4 value of Some a \<Rightarrow> Ok (EpIpv4 a) | None \<Rightarrow> Err ''Invalid IPv4 address: '')
          else if kind = ''ipv6'' then
            (case parse_v6 value of Some a \<Rightarrow> Ok (EpIpv6 a) | None \<Rightarrow> Err ''Invalid IPv6 address: '')
          else if kind = ''local'' then
            (case endpoint_id_from_str value of Some a \<Rightarrow> Ok (Local a)
             | None \<Rightarrow> Err ''Invalid local endpoint ID: '')
          else if kind = ''pod_name'' then Ok (PodName value)
          else Err (''Unknown endpoint identification type: '' @ kind))"

lemma endpoint_id_str_roundtrip [simp]: "endpoint_id_from_str (endpoint_id_str n) = Some n"
proof -
  have "unat n \<le> 65535" using unat_bound [of n] by simp
  then show ?thesis
    using from_str_radix_radix_str [of 10 "unat n" 65535]
    by (simp add: endpoint_id_from_str_def endpoint_id_str_def)
qed

lemma endpoint_id_str_inject [simp]: "endpoint_id_str a = endpoint_id_str b \<longleftrightarrow> a = b"
  by (metis endpoint_id_str_roundtrip option.inject)

section \<open>Properties\<close>

text \<open>Every identification is recovered from its printed form, also when the value itself
  holds colons (IPv6 addresses, container names).\<close>

lemma identification_roundtrip: "ident_from_str (ident_str ident) = Ok ident"
proof (cases ident)
  case (ContainerId v)
  then show ?thesis using split_once_append [of "CHR '':''" "''container_id''" v] by (simp add: ident_from_str_def)
next
  case (ContainerName v)
  then show ?thesis using split_once_append [of "CHR '':''" "''container_name''" v] by (simp add: ident_from_str_def)
next
  case (DockerEndpoint v)
  then show ?thesis using split_once_append [of "CHR '':''" "''docker_endpoint''" v] by (simp add: ident_from_str_def)
next
  case (EpIpv4 v)
  then show ?thesis
    using split_once_append [of "CHR '':''" "''ipv4''" "v4_str v"] by (simp add: ident_from_str_def parse_v4_str)
next
  case (EpIpv6 v)
  then show ?thesis
    using split_once_append [of "CHR '':''" "''ipv6''" "v6_str v"] by (simp add: ident_from_str_def parse_v6_str)
next
  case (Local v)
  then show ?thesis
    using split_once_append [of "CHR '':''" "''local''" "endpoint_id_str v"] by (simp add: ident_from_str_def)
next
  case (PodName v)
  then show ?thesis using split_once_append [of "CHR '':''" "''pod_name''" v] by (simp add: ident_from_str_def)
qed

end
