(* ===== verification/Endpoint_Directory.thy ===== *)
theory Endpoint_Directory
  imports Endpoint_Id
begin

text \<open>
  The state directories of endpoints: \<open>sarena-data-plane/src/endpoint/directory.rs\<close> and the reading
  and writing of \<open>ep_config.json\<close> in \<open>persist.rs\<close>. The file system is the map from the entry names
  under the daemon's state directory to their contents, together with a clock that counts the
  system calls; \<open>flt\<close> says which of them fail. A failed \<open>remove_dir_all\<close> may have removed nothing
  or all the files of the directory. \<open>serde_json\<close> is a parameter: \<open>json_docs\<close> is the round trip its
  documentation gives for a type with derived \<open>Serialize\<close> and \<open>Deserialize\<close>.
\<close>

section \<open>File system\<close>

record dirent =
  cfg_file :: "string option"
  tmp_file :: "string option"

definition empty_dir :: dirent where
  "empty_dir = \<lparr>cfg_file = None, tmp_file = None\<rparr>"

record file_system =
  dirs :: "string \<Rightarrow> dirent option"
  clock :: nat

datatype fault = Fine | Fail | FailPartial

datatype io_error = NotFound | IoOther

type_synonym faults = "nat \<Rightarrow> fault"

definition io_tick :: "file_system \<Rightarrow> file_system" where
  "io_tick s = s\<lparr>clock := clock s + 1\<rparr>"

definition fs_rename ::
  "faults \<Rightarrow> string \<Rightarrow> string \<Rightarrow> file_system \<Rightarrow> (unit, io_error) result \<times> file_system" where
  "fs_rename flt a b s =
     (if flt (clock s) \<noteq> Fine then (Err IoOther, io_tick s)
      else case dirs s a of None \<Rightarrow> (Err NotFound, io_tick s)
      | Some d \<Rightarrow>
          if (case dirs s b of None \<Rightarrow> True | Some e \<Rightarrow> e = empty_dir)
          then (Ok (), (io_tick s)\<lparr>dirs := (dirs s)(b \<mapsto> d, a := None)\<rparr>)
          else (Err IoOther, io_tick s))"

definition fs_remove_dir_all :: "faults \<Rightarrow> string \<Rightarrow> file_system \<Rightarrow> (unit, io_error) result \<times> file_system" where
  "fs_remove_dir_all flt d s =
     (case flt (clock s) of
        Fail \<Rightarrow> (Err IoOther, io_tick s)
      | FailPartial \<Rightarrow>
          (Err IoOther, (case dirs s d of None \<Rightarrow> io_tick s | Some _ \<Rightarrow> (io_tick s)\<lparr>dirs := (dirs s)(d \<mapsto> empty_dir)\<rparr>))
      | Fine \<Rightarrow> (case dirs s d of None \<Rightarrow> (Err NotFound, io_tick s)
          | Some _ \<Rightarrow> (Ok (), (io_tick s)\<lparr>dirs := (dirs s)(d := None)\<rparr>)))"

definition fs_create_dir_all :: "faults \<Rightarrow> string \<Rightarrow> file_system \<Rightarrow> (unit, io_error) result \<times> file_system" where
  "fs_create_dir_all flt d s =
     (if flt (clock s) \<noteq> Fine then (Err IoOther, io_tick s)
      else case dirs s d of None \<Rightarrow> (Ok (), (io_tick s)\<lparr>dirs := (dirs s)(d \<mapsto> empty_dir)\<rparr>)
      | Some _ \<Rightarrow> (Ok (), io_tick s))"

text \<open>A system call on an existing directory that changes nothing the model records.\<close>

definition fs_touch :: "faults \<Rightarrow> string \<Rightarrow> file_system \<Rightarrow> (unit, io_error) result \<times> file_system" where
  "fs_touch flt d s =
     (if flt (clock s) \<noteq> Fine then (Err IoOther, io_tick s)
      else if dirs s d = None then (Err NotFound, io_tick s) else (Ok (), io_tick s))"

definition fs_set_file ::
  "faults \<Rightarrow> string \<Rightarrow> (dirent \<Rightarrow> dirent) \<Rightarrow> file_system \<Rightarrow> (unit, io_error) result \<times> file_system" where
  "fs_set_file flt d f s =
     (if flt (clock s) \<noteq> Fine then (Err IoOther, io_tick s)
      else case dirs s d of None \<Rightarrow> (Err NotFound, io_tick s)
      | Some e \<Rightarrow> (Ok (), (io_tick s)\<lparr>dirs := (dirs s)(d \<mapsto> f e)\<rparr>))"

definition fs_read :: "faults \<Rightarrow> string \<Rightarrow> file_system \<Rightarrow> (string, io_error) result \<times> file_system" where
  "fs_read flt d s =
     (if flt (clock s) \<noteq> Fine then (Err IoOther, io_tick s)
      else case dirs s d of None \<Rightarrow> (Err NotFound, io_tick s)
      | Some e \<Rightarrow> (case cfg_file e of None \<Rightarrow> (Err NotFound, io_tick s) | Some c \<Rightarrow> (Ok c, io_tick s)))"

text \<open>Sequencing of fallible system calls, the \<open>?\<close> operator.\<close>

definition then_do ::
  "('a, 'e) result \<times> 's \<Rightarrow> ('a \<Rightarrow> 's \<Rightarrow> ('b, 'e) result \<times> 's) \<Rightarrow> ('b, 'e) result \<times> 's" where
  "then_do rs f = (case rs of (Ok a, s) \<Rightarrow> f a s | (Err e, s) \<Rightarrow> (Err e, s))"

lemma then_do_simps [simp]: "then_do (Ok a, s) f = f a s" "then_do (Err e, s) f = (Err e, s)"
  by (simp_all add: then_do_def)

section \<open>The persisted state\<close>

record json_lib =
  to_json :: "endpoint_persist \<Rightarrow> string"
  from_json :: "string \<Rightarrow> endpoint_persist option"

text \<open>The documented round trip, for one value.\<close>

definition json_docs :: "json_lib \<Rightarrow> endpoint_persist \<Rightarrow> bool" where
  "json_docs J p \<longleftrightarrow> from_json J (to_json J p) = Some p"

definition read_state ::
  "json_lib \<Rightarrow> faults \<Rightarrow> string \<Rightarrow> file_system \<Rightarrow> (endpoint_persist, dp_error) result \<times> file_system" where
  "read_state J flt d s =
     (case fs_read flt d s of
        (Err _, s') \<Rightarrow> (Err (FileError ''read''), s')
      | (Ok c, s') \<Rightarrow> (ok_or (from_json J c) (JsonError ''parse''), s'))"

definition write_state ::
  "json_lib \<Rightarrow> faults \<Rightarrow> endpoint_persist \<Rightarrow> string \<Rightarrow> file_system \<Rightarrow> (unit, io_error) result \<times> file_system" where
  "write_state J flt p d s =
     then_do (fs_set_file flt d (\<lambda>e. e\<lparr>tmp_file := Some []\<rparr>) s) (\<lambda>_ s.
     then_do (fs_set_file flt d (\<lambda>e. e\<lparr>tmp_file := Some (to_json J p)\<rparr>) s) (\<lambda>_ s.
     then_do (fs_touch flt d s) (\<lambda>_ s.
     then_do (fs_set_file flt d (\<lambda>e. e\<lparr>cfg_file := tmp_file e, tmp_file := None\<rparr>) s) (\<lambda>_ s.
     fs_touch flt d s))))"

section \<open>Directories\<close>

definition NEXT_DIRECTORY_SUFFIX :: string where
  "NEXT_DIRECTORY_SUFFIX = ''_next''"

definition NEXT_FAILED_DIRECTORY_SUFFIX :: string where
  "NEXT_FAILED_DIRECTORY_SUFFIX = ''_next_fail''"

definition BACKUP_DIRECTORY_SUFFIX :: string where
  "BACKUP_DIRECTORY_SUFFIX = ''_stale''"

definition state_directory_path :: "endpoint_id \<Rightarrow> string" where
  "state_directory_path eid = endpoint_id_str eid"

definition next_directory_path :: "endpoint_id \<Rightarrow> string" where
  "next_directory_path eid = endpoint_id_str eid @ NEXT_DIRECTORY_SUFFIX"

definition failed_directory_path :: "endpoint_id \<Rightarrow> string" where
  "failed_directory_path eid = endpoint_id_str eid @ NEXT_FAILED_DIRECTORY_SUFFIX"

definition backup_directory_path :: "endpoint_id \<Rightarrow> string" where
  "backup_directory_path eid = endpoint_id_str eid @ BACKUP_DIRECTORY_SUFFIX"

definition remove_dir_if_exists :: "faults \<Rightarrow> string \<Rightarrow> file_system \<Rightarrow> (unit, io_error) result \<times> file_system" where
  "remove_dir_if_exists flt d s =
     (case fs_remove_dir_all flt d s of (Err NotFound, s') \<Rightarrow> (Ok (), s') | other \<Rightarrow> other)"

definition remove_directories :: "faults \<Rightarrow> endpoint_id \<Rightarrow> file_system \<Rightarrow> file_system" where
  "remove_directories flt eid s =
     fold (\<lambda>d s. snd (remove_dir_if_exists flt d s))
       [state_directory_path eid, next_directory_path eid, failed_directory_path eid, backup_directory_path eid] s"

definition synchronize_directories ::
  "faults \<Rightarrow> endpoint_id \<Rightarrow> file_system \<Rightarrow> (unit, io_error) result \<times> file_system" where
  "synchronize_directories flt eid s =
     (let current_dir = state_directory_path eid; next_dir = next_directory_path eid;
          backup_dir = backup_directory_path eid
      in then_do (remove_dir_if_exists flt backup_dir s) (\<lambda>_ s.
         then_do (case fs_rename flt current_dir backup_dir s of
                    (Ok _, s1) \<Rightarrow> (Ok True, s1)
                  | (Err NotFound, s1) \<Rightarrow> (Ok False, s1)
                  | (Err e, s1) \<Rightarrow> (Err e, s1)) (\<lambda>had_current s.
         case fs_rename flt next_dir current_dir s of
           (Err e, s1) \<Rightarrow>
             (Err e, if had_current then snd (fs_rename flt backup_dir current_dir s1) else s1)
         | (Ok _, s1) \<Rightarrow> (Ok (), snd (remove_dir_if_exists flt backup_dir s1)))))"

datatype dir_kind = Current | Next | Backup | NextFailed

fun dir_rank :: "dir_kind \<Rightarrow> nat" where
  "dir_rank Current = 0"
| "dir_rank Next = 1"
| "dir_rank Backup = 2"
| "dir_rank NextFailed = 3"

definition dir_base :: "string \<Rightarrow> string \<times> dir_kind" where
  "dir_base name =
     (case strip_suffix NEXT_FAILED_DIRECTORY_SUFFIX name of Some base \<Rightarrow> (base, NextFailed)
      | None \<Rightarrow> (case strip_suffix NEXT_DIRECTORY_SUFFIX name of Some base \<Rightarrow> (base, Next)
      | None \<Rightarrow> (case strip_suffix BACKUP_DIRECTORY_SUFFIX name of Some base \<Rightarrow> (base, Backup)
      | None \<Rightarrow> (name, Current))))"

definition parse_dir_name :: "string \<Rightarrow> (endpoint_id \<times> dir_kind) option" where
  "parse_dir_name name =
     (case dir_base name of (base, kind) \<Rightarrow>
        (case endpoint_id_from_str base of None \<Rightarrow> None
         | Some eid \<Rightarrow> if endpoint_id_str eid = base \<and> MIN_ID \<le> eid \<and> eid \<le> MAX_ID then Some (eid, kind) else None))"

text \<open>\<open>collect_endpoint_dirs\<close> over the entries \<open>read_dir\<close> lists (name, and whether it is a directory):
  the candidates of each endpoint, in the order they were listed.\<close>

definition collect_endpoint_dirs :: "(string \<times> bool) list \<Rightarrow> (endpoint_id \<times> (dir_kind \<times> string) list) list" where
  "collect_endpoint_dirs entries =
     fold (\<lambda>(name, is_dir) m.
        if \<not> is_dir then m
        else case parse_dir_name name of None \<Rightarrow> m
        | Some (eid, kind) \<Rightarrow>
            AList.update eid ((case map_of m eid of None \<Rightarrow> [] | Some cs \<Rightarrow> cs) @ [(kind, name)]) m)
       entries []"

definition read_endpoint_dir ::
  "json_lib \<Rightarrow> faults \<Rightarrow> endpoint_id \<Rightarrow> string \<Rightarrow> file_system \<Rightarrow> (endpoint_persist, dp_error) result \<times> file_system" where
  "read_endpoint_dir J flt eid d s =
     then_do (read_state J flt d s) (\<lambda>p s.
       if ep_id p \<noteq> eid
       then (Err (GeneralError (''state file has endpoint id '' @ endpoint_id_str (ep_id p) @ '', expected '' @ endpoint_id_str eid)), s)
       else (Ok p, s))"

text \<open>The first candidate that can be read, and the ones before and after it.\<close>

fun choose_dir ::
  "json_lib \<Rightarrow> faults \<Rightarrow> endpoint_id \<Rightarrow> string list \<Rightarrow> string list \<Rightarrow> file_system \<Rightarrow>
     (endpoint_persist \<times> string list) option \<times> file_system" where
  "choose_dir J flt eid seen [] s = (None, s)"
| "choose_dir J flt eid seen (d # ds) s =
     (case read_endpoint_dir J flt eid d s of
        (Ok p, s') \<Rightarrow> (Some (p, seen @ ds), s')
      | (Err _, s') \<Rightarrow> choose_dir J flt eid (seen @ [d]) ds s')"

definition restore_one ::
  "json_lib \<Rightarrow> faults \<Rightarrow> endpoint_id \<Rightarrow> (dir_kind \<times> string) list \<Rightarrow> file_system \<Rightarrow>
     endpoint_persist option \<times> file_system" where
  "restore_one J flt eid candidates s =
     (case choose_dir J flt eid [] (map snd (sort_key (dir_rank \<circ> fst) candidates)) s of
        (None, s') \<Rightarrow> (None, s')
      | (Some (p, others), s') \<Rightarrow> (Some p, fold (\<lambda>d s. snd (remove_dir_if_exists flt d s)) others s'))"

text \<open>\<open>listing\<close> is what \<open>read_dir\<close> returns for the state directory.\<close>

definition read_endpoints ::
  "json_lib \<Rightarrow> faults \<Rightarrow> ((string \<times> bool) list, io_error) result \<Rightarrow> file_system \<Rightarrow>
     ((endpoint_id \<times> endpoint_persist) list, dp_error) result \<times> file_system" where
  "read_endpoints J flt listing s =
     (case listing of
        Err NotFound \<Rightarrow> (Ok [], s)
      | Err IoOther \<Rightarrow> (Err (FileError ''read_dir''), s)
      | Ok entries \<Rightarrow>
          (case fold (\<lambda>(eid, candidates) (m, s).
             case restore_one J flt eid candidates s of
               (None, s') \<Rightarrow> (m, s') | (Some p, s') \<Rightarrow> (AList.update eid p m, s'))
             (collect_endpoint_dirs entries) ([], s) of (m, s') \<Rightarrow> (Ok m, s')))"

section \<open>Directory names\<close>

fun dir_path :: "dir_kind \<Rightarrow> endpoint_id \<Rightarrow> string" where
  "dir_path Current eid = state_directory_path eid"
| "dir_path Next eid = next_directory_path eid"
| "dir_path Backup eid = backup_directory_path eid"
| "dir_path NextFailed eid = failed_directory_path eid"

lemmas path_defs = state_directory_path_def next_directory_path_def failed_directory_path_def
  backup_directory_path_def NEXT_DIRECTORY_SUFFIX_def NEXT_FAILED_DIRECTORY_SUFFIX_def
  BACKUP_DIRECTORY_SUFFIX_def

lemma id_str_chars: "c \<in> set (endpoint_id_str eid) \<Longrightarrow> \<exists>d < 10. c = digit_char d"
  using radix_str_digits [of 10] by (simp add: endpoint_id_str_def)

lemma id_str_last: "endpoint_id_str eid \<noteq> []" "last (endpoint_id_str eid) \<notin> {CHR ''l'', CHR ''t'', CHR ''e''}"
proof -
  show ne: "endpoint_id_str eid \<noteq> []" by (simp add: endpoint_id_str_def)
  obtain d where d: "d < 10" "last (endpoint_id_str eid) = digit_char d"
    using id_str_chars [OF last_in_set [OF ne]] by blast
  have "of_char (digit_char d) = (48 + d :: nat)" using of_char_digit_char [of d] d(1) by simp
  with d show "last (endpoint_id_str eid) \<notin> {CHR ''l'', CHR ''t'', CHR ''e''}" by auto
qed

lemma parse_dir_name_dir_path:
  assumes "eid \<in> id_range"
  shows "parse_dir_name (dir_path kind eid) = Some (eid, kind)"
proof -
  have r: "MIN_ID \<le> eid" "eid \<le> MAX_ID" using assms by (simp_all add: id_range_def)
  have no: "strip_suffix s (endpoint_id_str eid) = None" if "s \<noteq> []" "last s \<in> {CHR ''l'', CHR ''t'', CHR ''e''}" for s
    using id_str_last [of eid] that by (intro strip_suffix_None_last) auto
  have nx: "strip_suffix ''_next_fail'' (endpoint_id_str eid @ ''_next'') = None"
    "strip_suffix ''_next_fail'' (endpoint_id_str eid @ ''_stale'') = None"
    "strip_suffix ''_next'' (endpoint_id_str eid @ ''_stale'') = None"
    by (rule strip_suffix_None_last; simp)+
  show ?thesis
    using r no [of "''_next_fail''"] no [of "''_next''"] no [of "''_stale''"] nx
    by (cases kind) (simp_all add: parse_dir_name_def dir_base_def path_defs)
qed

lemma parse_dir_name_SomeD:
  assumes "parse_dir_name name = Some (eid, kind)"
  shows "name = dir_path kind eid \<and> eid \<in> id_range"
proof -
  obtain base k where bk: "dir_base name = (base, k)" by fastforce
  obtain n where n: "endpoint_id_from_str base = Some n"
    using assms unfolding parse_dir_name_def bk by (cases "endpoint_id_from_str base") simp_all
  have "endpoint_id_str n = base \<and> MIN_ID \<le> n \<and> n \<le> MAX_ID \<and> n = eid \<and> k = kind"
    using assms unfolding parse_dir_name_def bk prod.case n option.case by (simp split: if_splits)
  then have b: "dir_base name = (base, kind)" and e: "endpoint_id_str eid = base" "eid \<in> id_range"
    using bk unfolding id_range_def by auto
  from b have "name = (case kind of Current \<Rightarrow> base | Next \<Rightarrow> base @ NEXT_DIRECTORY_SUFFIX
      | Backup \<Rightarrow> base @ BACKUP_DIRECTORY_SUFFIX | NextFailed \<Rightarrow> base @ NEXT_FAILED_DIRECTORY_SUFFIX)"
    unfolding dir_base_def by (auto simp: strip_suffix_Some_iff split: option.splits)
  with e show ?thesis
    by (cases kind)
      (simp_all add: next_directory_path_def failed_directory_path_def backup_directory_path_def state_directory_path_def)
qed

lemma dir_path_inject [simp]:
  assumes "a \<in> id_range" "b \<in> id_range"
  shows "dir_path k a = dir_path l b \<longleftrightarrow> k = l \<and> a = b"
  using parse_dir_name_dir_path [OF assms(1), of k] parse_dir_name_dir_path [OF assms(2), of l]
  by (metis option.inject prod.inject)

lemma dir_path_kinds: "k \<noteq> l \<Longrightarrow> dir_path k eid \<noteq> dir_path l eid"
  by (cases k; cases l) (auto simp: path_defs)

lemma path_distinct [simp]:
  "state_directory_path eid \<noteq> next_directory_path eid" "next_directory_path eid \<noteq> state_directory_path eid"
  "state_directory_path eid \<noteq> backup_directory_path eid" "backup_directory_path eid \<noteq> state_directory_path eid"
  "state_directory_path eid \<noteq> failed_directory_path eid" "failed_directory_path eid \<noteq> state_directory_path eid"
  "next_directory_path eid \<noteq> backup_directory_path eid" "backup_directory_path eid \<noteq> next_directory_path eid"
  "next_directory_path eid \<noteq> failed_directory_path eid" "failed_directory_path eid \<noteq> next_directory_path eid"
  "backup_directory_path eid \<noteq> failed_directory_path eid" "failed_directory_path eid \<noteq> backup_directory_path eid"
  by (auto simp: path_defs)

section \<open>Synchronisation keeps a committed state\<close>

lemma tick_dirs [simp]: "dirs (io_tick s) = dirs s" "clock (io_tick s) = clock s + 1"
  by (simp_all add: io_tick_def)

lemma remove_dir_cases:
  assumes "remove_dir_if_exists flt d s = (r, s')"
  shows "(r = Ok () \<and> dirs s' = (dirs s)(d := None)) \<or>
    (r = Err IoOther \<and> (dirs s' = dirs s \<or> dirs s' = (dirs s)(d \<mapsto> empty_dir)))"
  using assms
  by (auto simp: remove_dir_if_exists_def fs_remove_dir_all_def fun_upd_idem split: fault.splits option.splits)

lemma rename_cases:
  assumes "fs_rename flt a b s = (r, s')"
  shows "(r = Ok () \<and> dirs s a \<noteq> None \<and> dirs s' = (dirs s)(b := dirs s a, a := None)) \<or>
    (r = Err NotFound \<and> dirs s a = None \<and> dirs s' = dirs s) \<or> (r = Err IoOther \<and> dirs s' = dirs s)"
  using assms by (auto simp: fs_rename_def split: option.splits if_splits)

lemma synchronize_cases:
  assumes "synchronize_directories flt eid s = (r, s')"
  shows "(r = Ok () \<and> dirs s (dir_path Next eid) \<noteq> None \<and> dirs s' (dir_path Current eid) = dirs s (dir_path Next eid)) \<or>
    (r \<noteq> Ok () \<and> dirs s' (dir_path Next eid) = dirs s (dir_path Next eid) \<and>
      (dirs s' (dir_path Current eid) = dirs s (dir_path Current eid) \<or>
       dirs s' (dir_path Current eid) = None \<and> dirs s' (dir_path Backup eid) = dirs s (dir_path Current eid)))"
proof -
  let ?c = "state_directory_path eid" and ?n = "next_directory_path eid" and ?b = "backup_directory_path eid"
  obtain r1 s1 where e1: "remove_dir_if_exists flt ?b s = (r1, s1)" by fastforce
  obtain r2 s2 where e2: "fs_rename flt ?c ?b s1 = (r2, s2)" by fastforce
  obtain r3 s3 where e3: "fs_rename flt ?n ?c s2 = (r3, s3)" by fastforce
  obtain r4 s4 where e4: "fs_rename flt ?b ?c s3 = (r4, s4)" by fastforce
  obtain r5 s5 where e5: "remove_dir_if_exists flt ?b s3 = (r5, s5)" by fastforce
  note def = assms [unfolded synchronize_directories_def Let_def e1]
  consider (stop) "r1 = Err IoOther" "dirs s1 = dirs s \<or> dirs s1 = (dirs s)(?b \<mapsto> empty_dir)"
    | (go) "r1 = Ok ()" "dirs s1 = (dirs s)(?b := None)"
    using remove_dir_cases [OF e1] by blast
  then show ?thesis
  proof cases
    case stop
    with def show ?thesis by auto
  next
    case go
    note def = def [unfolded go(1) then_do_simps e2]
    have fin: "dirs s5 ?c = dirs s3 ?c" using remove_dir_cases [OF e5] by auto
    have undo: "dirs s4 ?n = dirs s3 ?n"
      "dirs s4 ?c = dirs s3 ?b \<or> (dirs s4 ?c = dirs s3 ?c \<and> dirs s4 ?b = dirs s3 ?b)"
      using rename_cases [OF e4] by auto
    have mv: "(r3 = Ok () \<and> dirs s2 ?n \<noteq> None \<and> dirs s3 ?c = dirs s2 ?n) \<or>
        ((\<exists>e. r3 = Err e) \<and> dirs s3 = dirs s2)"
      using rename_cases [OF e3] by auto
    show ?thesis
      using rename_cases [OF e2]
    proof (elim disjE conjE)
      assume had: "r2 = Ok ()" "dirs s2 = (dirs s1)(?b := dirs s1 ?c, ?c := None)"
      have "(r, s') = (case r3 of Ok _ \<Rightarrow> (Ok (), s5) | Err e \<Rightarrow> (Err e, s4))"
        using def had(1) by (cases r3) (auto simp: e3 e4 e5)
      with mv fin undo had(2) go(2) show ?thesis by (elim disjE conjE exE) auto
    next
      assume none: "r2 = Err NotFound" "dirs s1 ?c = None" "dirs s2 = dirs s1"
      have "(r, s') = (case r3 of Ok _ \<Rightarrow> (Ok (), s5) | Err e \<Rightarrow> (Err e, s3))"
        using def none(1) by (cases r3) (auto simp: e3 e5)
      with mv fin none(2,3) go(2) show ?thesis by (elim disjE conjE exE) auto
    next
      assume "r2 = Err IoOther" "dirs s2 = dirs s1"
      with def go show ?thesis by auto
    qed
  qed
qed

section \<open>What a restart restores\<close>

definition readable :: "json_lib \<Rightarrow> endpoint_id \<Rightarrow> dirent option \<Rightarrow> endpoint_persist option" where
  "readable J eid e =
     (case e of None \<Rightarrow> None
      | Some d \<Rightarrow> (case cfg_file d of None \<Rightarrow> None
          | Some c \<Rightarrow> (case from_json J c of None \<Rightarrow> None | Some p \<Rightarrow> if ep_id p = eid then Some p else None)))"

fun first_some :: "'a option list \<Rightarrow> 'a option" where
  "first_some [] = None"
| "first_some (Some x # xs) = Some x"
| "first_some (None # xs) = first_some xs"

definition all_kinds :: "dir_kind list" where
  "all_kinds = [Current, Next, Backup, NextFailed]"

definition restored :: "json_lib \<Rightarrow> file_system \<Rightarrow> endpoint_id \<Rightarrow> endpoint_persist option" where
  "restored J s eid = first_some (map (\<lambda>k. readable J eid (dirs s (dir_path k eid))) all_kinds)"

definition no_faults :: faults where
  "no_faults = (\<lambda>_. Fine)"

lemma readable_None [simp]: "readable J eid None = None"
  by (simp add: readable_def)

lemma read_endpoint_dir_fine:
  assumes "read_endpoint_dir J no_faults eid d s = (r, s')"
  shows "dirs s' = dirs s" "readable J eid (dirs s d) = (case r of Ok p \<Rightarrow> Some p | Err _ \<Rightarrow> None)"
proof -
  have "dirs s' = dirs s \<and> readable J eid (dirs s d) = (case r of Ok p \<Rightarrow> Some p | Err _ \<Rightarrow> None)"
  proof (cases "dirs s d")
    case None
    with assms show ?thesis by (auto simp: read_endpoint_dir_def read_state_def fs_read_def no_faults_def)
  next
    case (Some e)
    show ?thesis
    proof (cases "cfg_file e")
      case None
      with Some assms show ?thesis
        by (auto simp: read_endpoint_dir_def read_state_def fs_read_def no_faults_def readable_def)
    next
      case (Some c)
      with \<open>dirs s d = Some e\<close> assms show ?thesis
        by (cases "from_json J c")
          (auto simp: read_endpoint_dir_def read_state_def fs_read_def no_faults_def readable_def split: if_splits)
    qed
  qed
  then show "dirs s' = dirs s" "readable J eid (dirs s d) = (case r of Ok p \<Rightarrow> Some p | Err _ \<Rightarrow> None)"
    by blast+
qed

lemma choose_dir_fine:
  assumes "choose_dir J no_faults eid seen ds s = (r, s')"
  shows "dirs s' = dirs s \<and>
    (case r of None \<Rightarrow> \<forall>d \<in> set ds. readable J eid (dirs s d) = None
     | Some (p, others) \<Rightarrow> \<exists>pre d post. ds = pre @ d # post \<and> others = seen @ pre @ post \<and>
         (\<forall>x \<in> set pre. readable J eid (dirs s x) = None) \<and> readable J eid (dirs s d) = Some p)"
  using assms
proof (induction ds arbitrary: seen s)
  case (Cons d ds)
  obtain r1 s1 where e: "read_endpoint_dir J no_faults eid d s = (r1, s1)" by fastforce
  note f = read_endpoint_dir_fine [OF e]
  show ?case
  proof (cases r1)
    case (Ok p)
    with Cons.prems e have "r = Some (p, seen @ ds)" "s' = s1" by simp_all
    moreover have "d # ds = [] @ d # ds" "seen @ ds = seen @ [] @ ds" by simp_all
    ultimately show ?thesis using f Ok by (fastforce intro: exI [of _ "[] :: string list"])
  next
    case (Err x)
    with Cons.prems e have "choose_dir J no_faults eid (seen @ [d]) ds s1 = (r, s')" by simp
    note ih = Cons.IH [OF this]
    show ?thesis
    proof (cases r)
      case None
      with ih f Err show ?thesis by simp
    next
      case (Some po)
      obtain p others where po: "po = (p, others)" by fastforce
      from ih Some po f(1) obtain pre d' post where
        "ds = pre @ d' # post" "others = seen @ (d # pre) @ post"
        "\<forall>x \<in> set pre. readable J eid (dirs s x) = None" "readable J eid (dirs s d') = Some p"
        by auto
      then have "\<exists>pre d' post. d # ds = pre @ d' # post \<and> others = seen @ pre @ post \<and>
          (\<forall>x \<in> set pre. readable J eid (dirs s x) = None) \<and> readable J eid (dirs s d') = Some p"
        using f Err by (intro exI [of _ "d # pre"] exI [of _ d'] exI [of _ post]) simp
      with ih f(1) Some po show ?thesis by simp
    qed
  qed
qed simp

lemma remove_fine [simp]: "dirs (snd (remove_dir_if_exists no_faults d s)) = (dirs s)(d := None)"
  by (auto simp: remove_dir_if_exists_def fs_remove_dir_all_def no_faults_def fun_upd_idem split: option.splits)

lemma fold_remove_fine:
  "dirs (fold (\<lambda>d s. snd (remove_dir_if_exists no_faults d s)) ds s) = (\<lambda>x. if x \<in> set ds then None else dirs s x)"
  by (induction ds arbitrary: s) (auto simp: fun_eq_iff)

lemma first_some_append: "first_some (xs @ ys) = (case first_some xs of None \<Rightarrow> first_some ys | Some x \<Rightarrow> Some x)"
  by (induction xs rule: first_some.induct) auto

lemma first_some_None [simp]: "first_some xs = None \<longleftrightarrow> (\<forall>x \<in> set xs. x = None)"
  by (induction xs rule: first_some.induct) auto

text \<open>The candidates of one endpoint: each of its existing directories once, in any order.\<close>

definition candidates_of :: "endpoint_id \<Rightarrow> file_system \<Rightarrow> (dir_kind \<times> string) list \<Rightarrow> bool" where
  "candidates_of eid s cs \<longleftrightarrow> distinct cs \<and>
     set cs = {(k, dir_path k eid) | k. dirs s (dir_path k eid) \<noteq> None}"

lemma sorted_kinds:
  assumes "sorted (map dir_rank ks)" "distinct ks"
  shows "ks = filter (\<lambda>k. k \<in> set ks) all_kinds"
proof -
  have inj: "inj dir_rank"
  proof (rule injI)
    fix x y show "dir_rank x = dir_rank y \<Longrightarrow> x = y" by (cases x; cases y) simp_all
  qed
  have "sorted (map dir_rank (filter (\<lambda>k. k \<in> set ks) all_kinds))"
    by (rule sorted_filter) (simp add: all_kinds_def)
  moreover have "distinct (filter (\<lambda>k. k \<in> set ks) all_kinds)" by (simp add: all_kinds_def)
  moreover have "set (filter (\<lambda>k. k \<in> set ks) all_kinds) = set ks"
  proof -
    have "k \<in> set all_kinds" for k by (cases k) (simp_all add: all_kinds_def)
    then show ?thesis by auto
  qed
  ultimately have "map dir_rank ks = map dir_rank (filter (\<lambda>k. k \<in> set ks) all_kinds)"
    using assms inj by (intro sorted_distinct_set_unique) (auto simp: distinct_map inj_on_def inj_def)
  then show ?thesis using inj by (metis inj_map_eq_map)
qed

lemma candidates_sorted:
  assumes "candidates_of eid s cs"
  shows "map snd (sort_key (dir_rank \<circ> fst) cs) =
    map (\<lambda>k. dir_path k eid) (filter (\<lambda>k. dirs s (dir_path k eid) \<noteq> None) all_kinds)"
proof -
  let ?cs = "sort_key (dir_rank \<circ> fst) cs"
  have st: "set ?cs = {(k, dir_path k eid) | k. dirs s (dir_path k eid) \<noteq> None}" "distinct ?cs"
    using assms by (auto simp: candidates_of_def)
  have form: "?cs = map (\<lambda>k. (k, dir_path k eid)) (map fst ?cs)"
    unfolding map_map by (rule sym, rule map_idI) (use st(1) in auto)
  then have d: "distinct (map fst ?cs)" using st(2) by (metis distinct_map)
  have "sorted (map dir_rank (map fst ?cs))"
    using sorted_sort_key [of "dir_rank \<circ> fst" cs] by simp
  from sorted_kinds [OF this d] have "map fst ?cs = filter (\<lambda>k. k \<in> fst ` set ?cs) all_kinds" by simp
  also have "fst ` set ?cs = {k. dirs s (dir_path k eid) \<noteq> None}" unfolding st(1) by force
  finally have ks: "map fst ?cs = filter (\<lambda>k. dirs s (dir_path k eid) \<noteq> None) all_kinds"
    unfolding mem_Collect_eq .
  show ?thesis by (subst form) (simp add: ks [simplified])
qed

lemma first_some_map_filter:
  "(\<And>k. k \<in> set ks \<Longrightarrow> \<not> P k \<Longrightarrow> f k = None) \<Longrightarrow> first_some (map f (filter P ks)) = first_some (map f ks)"
proof (induction ks)
  case (Cons k ks)
  then show ?case by (cases "f k") auto
qed simp

lemma restored_upd_other:
  assumes "eid \<in> id_range" "\<And>k. dirs s' (dir_path k eid) = dirs s (dir_path k eid)"
  shows "restored J s' eid = restored J s eid"
  by (simp add: restored_def assms(2) del: dir_path.simps)

lemma restore_one_fine:
  assumes "candidates_of eid s cs" "restore_one J no_faults eid cs s = (r, s')"
  shows "r = restored J s eid"
    and "case r of None \<Rightarrow> dirs s' = dirs s
      | Some p \<Rightarrow> (\<exists>k. readable J eid (dirs s (dir_path k eid)) = Some p \<and>
          (\<forall>l. dirs s' (dir_path l eid) = (if l = k then dirs s (dir_path k eid) else None)))"
    and "\<forall>d. (\<forall>k. d \<noteq> dir_path k eid) \<longrightarrow> dirs s' d = dirs s d"
proof -
  let ?ks = "filter (\<lambda>k. dirs s (dir_path k eid) \<noteq> None) all_kinds"
  let ?ds = "map (\<lambda>k. dir_path k eid) ?ks"
  obtain c s1 where ch: "choose_dir J no_faults eid [] ?ds s = (c, s1)" by fastforce
  note f = choose_dir_fine [OF ch]
  have res: "restored J s eid = first_some (map (\<lambda>d. readable J eid (dirs s d)) ?ds)"
    unfolding restored_def map_map by (subst first_some_map_filter [symmetric, of all_kinds
        "\<lambda>k. dirs s (dir_path k eid) \<noteq> None"]) (auto simp del: dir_path.simps simp: comp_def)
  have "r = restored J s eid \<and>
    (case r of None \<Rightarrow> dirs s' = dirs s
      | Some p \<Rightarrow> (\<exists>k. readable J eid (dirs s (dir_path k eid)) = Some p \<and>
          (\<forall>l. dirs s' (dir_path l eid) = (if l = k then dirs s (dir_path k eid) else None)))) \<and>
    (\<forall>d. (\<forall>k. d \<noteq> dir_path k eid) \<longrightarrow> dirs s' d = dirs s d)"
  proof (cases c)
    case None
    with assms(2) ch have "r = None" "s' = s1" by (simp_all add: restore_one_def candidates_sorted [OF assms(1)])
    moreover have "restored J s eid = None" unfolding res using f None by auto
    ultimately show ?thesis using f by simp
  next
    case (Some po)
    obtain p others where po: "po = (p, others)" by fastforce
    obtain pre d post where sp: "?ds = pre @ d # post" "others = pre @ post"
      "\<forall>x \<in> set pre. readable J eid (dirs s x) = None" "readable J eid (dirs s d) = Some p"
      using f Some po by auto
    have r: "r = Some p" and s': "dirs s' = (\<lambda>x. if x \<in> set others then None else dirs s x)"
      using assms(2) ch Some po f
      by (auto simp: restore_one_def candidates_sorted [OF assms(1)] fold_remove_fine)
    have dist: "distinct ?ds"
      using dir_path_kinds by (auto simp: distinct_map inj_on_def all_kinds_def simp del: dir_path.simps)
    have d: "d \<in> set ?ds" "d \<notin> set others" using sp(1,2) dist unfolding sp(1) by auto
    then obtain k where k: "d = dir_path k eid" by auto
    have others: "dir_path l eid \<in> set others \<longleftrightarrow> l \<noteq> k \<and> dirs s (dir_path l eid) \<noteq> None" for l
    proof -
      have "dir_path l eid \<in> set ?ds \<longleftrightarrow> dirs s (dir_path l eid) \<noteq> None"
        using dir_path_kinds [of l _ eid] by (cases l; force simp: all_kinds_def simp del: dir_path.simps)
      moreover have "set ?ds = insert d (set others)" unfolding sp(1,2) by auto
      ultimately show ?thesis using d(2) k dir_path_kinds [of l k eid] by (cases "l = k") auto
    qed
    have "restored J s eid = Some p"
    proof -
      have none: "first_some (map (\<lambda>d. readable J eid (dirs s d)) pre) = None" using sp(3) by simp
      show ?thesis unfolding res sp(1) by (simp add: first_some_append none sp(4))
    qed
    moreover have "set others \<subseteq> {dir_path k eid | k. True}"
    proof -
      have "set ?ds \<subseteq> {dir_path k eid | k. True}" by auto
      then show ?thesis unfolding sp(1,2) by auto
    qed
    then have "\<forall>x. (\<forall>k. x \<noteq> dir_path k eid) \<longrightarrow> dirs s' x = dirs s x" unfolding s' by auto
    moreover have "\<forall>l. dirs s' (dir_path l eid) = (if l = k then dirs s (dir_path k eid) else None)"
      unfolding s' others by auto
    ultimately show ?thesis using r sp(4) k by auto
  qed
  then show "r = restored J s eid"
    "case r of None \<Rightarrow> dirs s' = dirs s
      | Some p \<Rightarrow> (\<exists>k. readable J eid (dirs s (dir_path k eid)) = Some p \<and>
          (\<forall>l. dirs s' (dir_path l eid) = (if l = k then dirs s (dir_path k eid) else None)))"
    "\<forall>d. (\<forall>k. d \<noteq> dir_path k eid) \<longrightarrow> dirs s' d = dirs s d"
    by blast+
qed

text \<open>Grouping the listing.\<close>

fun cand_of :: "endpoint_id \<Rightarrow> string \<times> bool \<Rightarrow> (dir_kind \<times> string) option" where
  "cand_of eid (name, is_dir) =
     (if is_dir then (case parse_dir_name name of None \<Rightarrow> None
        | Some (e, k) \<Rightarrow> if e = eid then Some (k, name) else None) else None)"

lemma collect_snoc:
  "collect_endpoint_dirs (xs @ [(name, is_dir)]) =
     (if \<not> is_dir then collect_endpoint_dirs xs
      else case parse_dir_name name of None \<Rightarrow> collect_endpoint_dirs xs
      | Some (eid, kind) \<Rightarrow>
          AList.update eid ((case map_of (collect_endpoint_dirs xs) eid of None \<Rightarrow> [] | Some cs \<Rightarrow> cs) @ [(kind, name)])
            (collect_endpoint_dirs xs))"
  unfolding collect_endpoint_dirs_def by simp

lemma map_filter_snoc: "List.map_filter f (xs @ [x]) = List.map_filter f xs @ (case f x of None \<Rightarrow> [] | Some y \<Rightarrow> [y])"
  by (cases "f x") (simp_all add: List.map_filter_def)

lemma collect_correct:
  "distinct (map fst (collect_endpoint_dirs entries)) \<and>
   map_of (collect_endpoint_dirs entries) eid =
     (let cs = List.map_filter (cand_of eid) entries in if cs = [] then None else Some cs)"
proof (induction entries arbitrary: eid rule: rev_induct)
  case (snoc x xs)
  obtain name is_dir where x: "x = (name, is_dir)" by fastforce
  have d: "distinct (map fst (collect_endpoint_dirs xs))" using snoc by blast
  have m: "map_of (collect_endpoint_dirs xs) e =
      (if List.map_filter (cand_of e) xs = [] then None else Some (List.map_filter (cand_of e) xs))" for e
    using snoc [of e] by (simp add: Let_def)
  show ?case
  proof (cases "is_dir \<and> parse_dir_name name \<noteq> None")
    case False
    then have "collect_endpoint_dirs (xs @ [x]) = collect_endpoint_dirs xs" "cand_of eid x = None"
      by (cases "parse_dir_name name"; auto simp: x collect_snoc)+
    with d m show ?thesis by (simp add: map_filter_snoc Let_def)
  next
    case True
    then obtain e k where p: "parse_dir_name name = Some (e, k)" "is_dir" by auto
    then have c: "collect_endpoint_dirs (xs @ [x]) =
        AList.update e (List.map_filter (cand_of e) xs @ [(k, name)]) (collect_endpoint_dirs xs)"
      by (auto simp: x collect_snoc m)
    show ?thesis
      using d m p unfolding c by (auto simp: x map_filter_snoc Let_def update_conv' distinct_update)
  qed
qed (simp add: collect_endpoint_dirs_def List.map_filter_simps)

text \<open>A listing of the state directory: every directory once, in any order, maybe with files.\<close>

definition listing_ok :: "(string \<times> bool) list \<Rightarrow> file_system \<Rightarrow> bool" where
  "listing_ok entries s \<longleftrightarrow> distinct (map fst entries) \<and> (\<forall>d. (d, True) \<in> set entries \<longleftrightarrow> dirs s d \<noteq> None)"

lemma set_map_filter_cand:
  "set (List.map_filter (cand_of eid) entries) =
     {(k, name) | k name. (name, True) \<in> set entries \<and> parse_dir_name name = Some (eid, k)}"
proof (induction entries)
  case (Cons x xs)
  obtain name is_dir where x: "x = (name, is_dir)" by fastforce
  show ?case
    using Cons by (cases "parse_dir_name name"; cases is_dir)
      (auto simp: List.map_filter_simps x split: if_splits)
qed (simp add: List.map_filter_simps)

lemma distinct_map_filter_cand:
  "distinct (map fst entries) \<Longrightarrow> distinct (List.map_filter (cand_of eid) entries)"
proof (induction entries)
  case (Cons x xs)
  obtain name is_dir where x: "x = (name, is_dir)" by fastforce
  have new: "(k, name) \<notin> set (List.map_filter (cand_of eid) xs)" for k
    using Cons.prems by (force simp: x set_map_filter_cand)
  show ?case
    using Cons new by (cases "cand_of eid x") (auto simp: List.map_filter_simps x split: if_splits option.splits)
qed (simp add: List.map_filter_simps)

lemma collect_candidates:
  assumes "listing_ok entries s" "(eid, cs) \<in> set (collect_endpoint_dirs entries)"
  shows "eid \<in> id_range \<and> candidates_of eid s cs"
proof -
  have "map_of (collect_endpoint_dirs entries) eid = Some cs"
    using conjunct1 [OF collect_correct [of entries eid]] assms(2) by (rule map_of_is_SomeI)
  then have cs: "cs = List.map_filter (cand_of eid) entries" "cs \<noteq> []"
    using collect_correct [of entries eid] by (auto simp: Let_def split: if_splits)
  then obtain k name where "parse_dir_name name = Some (eid, k)"
  proof -
    obtain c where "c \<in> set cs" using cs(2) by (cases cs) auto
    then have "c \<in> {(k, name) | k name. (name, True) \<in> set entries \<and> parse_dir_name name = Some (eid, k)}"
      unfolding cs(1) set_map_filter_cand .
    then show ?thesis using that by auto
  qed
  then have eid: "eid \<in> id_range" using parse_dir_name_SomeD by blast
  have "set cs = {(k, dir_path k eid) | k. dirs s (dir_path k eid) \<noteq> None}"
    unfolding cs(1) set_map_filter_cand
    using assms(1) eid parse_dir_name_SomeD parse_dir_name_dir_path unfolding listing_ok_def by blast
  with eid assms(1) show ?thesis
    by (simp add: candidates_of_def cs(1) distinct_map_filter_cand listing_ok_def)
qed

lemma candidates_of_other:
  assumes "candidates_of eid s cs" "\<And>k. dirs s' (dir_path k eid) = dirs s (dir_path k eid)"
  shows "candidates_of eid s' cs"
  using assms(1) by (simp add: candidates_of_def assms(2) del: dir_path.simps)

abbreviation restore_step ::
  "json_lib \<Rightarrow> faults \<Rightarrow> endpoint_id \<times> (dir_kind \<times> string) list \<Rightarrow>
     (endpoint_id \<times> endpoint_persist) list \<times> file_system \<Rightarrow> (endpoint_id \<times> endpoint_persist) list \<times> file_system" where
  "restore_step J flt \<equiv> (\<lambda>(eid, candidates) (m, s).
     case restore_one J flt eid candidates s of
       (None, s') \<Rightarrow> (m, s') | (Some p, s') \<Rightarrow> (AList.update eid p m, s'))"

lemma restore_fold:
  assumes "distinct (map fst xs)" "\<forall>(eid, cs) \<in> set xs. eid \<in> id_range \<and> candidates_of eid s cs"
    "fold (restore_step J no_faults) xs (m, s) = (m', s')" "e \<in> id_range"
  shows "map_of m' e = (if e \<in> fst ` set xs then (case restored J s e of None \<Rightarrow> map_of m e | Some p \<Rightarrow> Some p) else map_of m e)"
  using assms(1-3)
proof (induction xs arbitrary: m s)
  case (Cons x xs)
  obtain eid cs where x: "x = (eid, cs)" by fastforce
  obtain r s1 where r: "restore_one J no_faults eid cs s = (r, s1)" by fastforce
  have eid: "eid \<in> id_range" "candidates_of eid s cs" using Cons.prems(2) x by auto
  note one = restore_one_fine [OF eid(2) r]
  have other: "dirs s1 (dir_path k e') = dirs s (dir_path k e')" if "e' \<in> id_range" "e' \<noteq> eid" for k e'
  proof -
    have "\<forall>l. dir_path k e' \<noteq> dir_path l eid"
      using that eid(1) by (simp del: dir_path.simps)
    with one(3) show ?thesis by blast
  qed
  let ?m = "case r of None \<Rightarrow> m | Some p \<Rightarrow> AList.update eid p m"
  have f: "fold (restore_step J no_faults) xs (?m, s1) = (m', s')"
    using Cons.prems(3) r by (simp add: x split: option.splits)
  have new: "eid \<notin> fst ` set xs" using Cons.prems(1) x by simp
  have pre: "\<forall>(e', cs') \<in> set xs. e' \<in> id_range \<and> candidates_of e' s1 cs'"
  proof (rule ballI, rule case_prodI2)
    fix y e' cs' assume y: "y \<in> set xs" "y = (e', cs')"
    then have e': "e' \<in> id_range" "candidates_of e' s cs'" "e' \<noteq> eid"
      using Cons.prems(2) new by (auto simp: image_iff)
    show "e' \<in> id_range \<and> candidates_of e' s1 cs'"
      using e' candidates_of_other [OF e'(2), of s1] other by blast
  qed
  have "distinct (map fst xs)" using Cons.prems(1) by simp
  note ih = Cons.IH [OF this pre f]
  show ?case
  proof (cases "e = eid")
    case True
    with ih new one(1) x show ?thesis by (auto simp: update_conv' split: option.splits)
  next
    case False
    have "restored J s1 e = restored J s e"
      using assms(4) other [OF assms(4) False] by (rule restored_upd_other)
    with ih False x show ?thesis by (auto simp: update_conv' split: option.splits)
  qed
qed simp

lemma read_endpoints_restores_map:
  assumes "listing_ok entries s" "eid \<in> id_range"
  shows "\<exists>m s'. read_endpoints J no_faults (Ok entries) s = (Ok m, s') \<and> map_of m eid = restored J s eid"
proof -
  let ?xs = "collect_endpoint_dirs entries"
  obtain m s' where f: "fold (restore_step J no_faults) ?xs ([], s) = (m, s')" by fastforce
  have d: "distinct (map fst ?xs)" using collect_correct by blast
  have pre: "\<forall>(eid, cs) \<in> set ?xs. eid \<in> id_range \<and> candidates_of eid s cs"
    using collect_candidates [OF assms(1)] by blast
  have m: "map_of m eid = (if eid \<in> fst ` set ?xs then restored J s eid else None)"
    using restore_fold [OF d pre f assms(2)] by (auto split: option.splits)
  have "restored J s eid = None" if "eid \<notin> fst ` set ?xs"
  proof -
    have "map_of ?xs eid = None" using that by (simp add: map_of_eq_None_iff)
    then have none: "List.map_filter (cand_of eid) entries = []"
      using collect_correct [of entries eid] by (auto simp: Let_def split: if_splits)
    have "dirs s (dir_path k eid) = None" for k
    proof (rule ccontr)
      assume "dirs s (dir_path k eid) \<noteq> None"
      then have "(k, dir_path k eid) \<in> set (List.map_filter (cand_of eid) entries)"
        unfolding set_map_filter_cand
        using assms parse_dir_name_dir_path [OF assms(2)] by (auto simp: listing_ok_def simp del: dir_path.simps)
      with none show False by simp
    qed
    then show ?thesis by (simp add: restored_def del: dir_path.simps)
  qed
  with m have "map_of m eid = restored J s eid" by auto
  with f show ?thesis by (simp add: read_endpoints_def)
qed

section \<open>Properties\<close>

text \<open>\<open>parse_dir_name\<close> recognises exactly the names the program writes: a name parses to an
  id and a kind if and only if it is the path of that kind of directory for that allocatable id.\<close>

lemma parse_dir_name_exact:
  "parse_dir_name name = Some (eid, kind) \<longleftrightarrow> name = dir_path kind eid \<and> MIN_ID \<le> eid \<and> eid \<le> MAX_ID"
  using parse_dir_name_SomeD [of name eid kind] parse_dir_name_dir_path [of eid kind]
  by (auto simp: id_range_def simp del: dir_path.simps)

text \<open>C20: \<open>read_endpoints\<close> restores, for every allocatable id and whatever the order of the
  directory listing, the first readable state in the order committed, next, backup, failed, and
  nothing when none can be read.\<close>

theorem read_endpoints_restores:
  assumes "listing_ok entries s" "eid \<in> id_range"
  shows "\<exists>m s'. read_endpoints J no_faults (Ok entries) s = (Ok m, s') \<and> map_of m eid = restored J s eid"
  using assms by (rule read_endpoints_restores_map)

definition no_entries :: file_system where
  "no_entries = \<lparr>dirs = (\<lambda>_. None), clock = 0\<rparr>"

definition one_entry :: file_system where
  "one_entry = no_entries\<lparr>dirs := [''7_next'' \<mapsto> \<lparr>cfg_file = Some ''{}'', tmp_file = None\<rparr>]\<rparr>"

definition sample_spec :: endpoint_spec where
  "sample_spec = \<lparr>container_name = None, container_id = Some ''c1'', docker_network_id = None, docker_endpoint = None,
     host_iface_name = ''lxc1'', host_iface_index = 3, container_mac = MacAddress (replicate 6 1),
     host_mac = MacAddress (replicate 6 2), ep_ipv4 = Some 7, ep_ipv6 = None, k8s_ns = None, k8s_pod_name = None\<rparr>"

definition sample_persist :: endpoint_persist where
  "sample_persist = \<lparr>ep_id = 7, ep_spec = sample_spec\<rparr>"

definition sample_json :: json_lib where
  "sample_json = \<lparr>to_json = (\<lambda>_. ''{}''), from_json = (\<lambda>_. Some sample_persist)\<rparr>"

theorem read_endpoints_restores_witness:
  "\<exists>m s'. read_endpoints sample_json no_faults (Ok [(''lost+found'', False), (''7_next'', True)]) one_entry = (Ok m, s') \<and>
     map_of m 7 = Some sample_persist"
proof -
  have ok: "listing_ok [(''lost+found'', False), (''7_next'', True)] one_entry"
    by (auto simp: listing_ok_def one_entry_def no_entries_def)
  have "endpoint_id_str 7 = ''7''" by code_simp
  then have "restored sample_json one_entry 7 = Some sample_persist"
    by (simp add: restored_def all_kinds_def readable_def one_entry_def no_entries_def path_defs sample_json_def sample_persist_def)
  then show ?thesis
    using read_endpoints_restores [OF ok, of 7 sample_json] by (simp add: id_range_def MIN_ID_def MAX_ID_def)
qed

end
