(* ===== verification/Endpoint_Worker.thy ===== *)
theory Endpoint_Worker
  imports Endpoint_Directory
begin

text \<open>
  \<open>EndpointWorker\<close> of \<open>sarena-data-plane/src/endpoint/worker.rs\<close> with \<open>regenerate\<close> and
  \<open>regenerate_bpf\<close> of \<open>regenerate.rs\<close>. The worker owns the endpoint's state and runs its commands one
  at a time, so it is a record and a command is a function on it. The loader is called through
  \<open>add\<close>, the \<open>add_loader_endpoint\<close> of the \<open>DataplaneLoader\<close> trait, on a loader state \<open>'l\<close>;
  \<open>err_str\<close> is the \<open>Display\<close> of errors that the \<open>thiserror\<close> derive generates.
\<close>

datatype endpoint_phase = Created | Regenerating | Ready | Failed string

record endpoint_state =
  es_persist :: endpoint_persist
  es_phase :: endpoint_phase
  es_generation :: u64

definition es_id :: "endpoint_state \<Rightarrow> endpoint_id" where
  "es_id st = ep_id (es_persist st)"

text \<open>\<open>wk_status\<close> is the last snapshot sent to the status channel.\<close>

record 'l worker =
  wk_state :: endpoint_state
  wk_fs :: file_system
  wk_loader :: 'l
  wk_status :: endpoint_state

type_synonym 'l add_fn = "loader_endpoint \<Rightarrow> 'l \<Rightarrow> (unit, dp_error) result \<times> 'l"

definition publish :: "'l worker \<Rightarrow> 'l worker" where
  "publish w = w\<lparr>wk_status := wk_state w\<rparr>"

text \<open>A file system call of the worker, with the conversion of its error by \<open>?\<close>.\<close>

definition io ::
  "(file_system \<Rightarrow> (unit, io_error) result \<times> file_system) \<Rightarrow> 'l worker \<Rightarrow> (unit, dp_error) result \<times> 'l worker" where
  "io f w =
     (case f (wk_fs w) of
        (Ok _, s) \<Rightarrow> (Ok (), w\<lparr>wk_fs := s\<rparr>)
      | (Err _, s) \<Rightarrow> (Err (FileError ''io''), w\<lparr>wk_fs := s\<rparr>))"

definition regenerate_bpf ::
  "json_lib \<Rightarrow> faults \<Rightarrow> 'l add_fn \<Rightarrow> 'l worker \<Rightarrow> (u64, dp_error) result \<times> 'l worker" where
  "regenerate_bpf J flt add w =
     (let persist = es_persist (wk_state w); next_dir = next_directory_path (es_id (wk_state w))
      in then_do (io (write_state J flt persist next_dir) w) (\<lambda>_ w.
         case add (Container persist) (wk_loader w) of
           (Ok _, l) \<Rightarrow> (Ok 0, w\<lparr>wk_loader := l\<rparr>)
         | (Err e, l) \<Rightarrow> (Err e, w\<lparr>wk_loader := l\<rparr>)))"

text \<open>The \<open>match\<close> on the result of \<open>regenerate_bpf\<close>.\<close>

definition regenerate_commit ::
  "json_lib \<Rightarrow> faults \<Rightarrow> (dp_error \<Rightarrow> string) \<Rightarrow> 'l add_fn \<Rightarrow> 'l worker \<Rightarrow> (unit, dp_error) result \<times> 'l worker" where
  "regenerate_commit J flt err_str add w =
     (let eid = es_id (wk_state w); next_dir = next_directory_path eid; fail_dir = failed_directory_path eid
      in case regenerate_bpf J flt add w of
           (Ok _, w) \<Rightarrow>
             then_do (io (synchronize_directories flt eid) w) (\<lambda>_ w.
               (Ok (), w\<lparr>wk_state := (wk_state w)
                  \<lparr>es_phase := Ready, es_generation := es_generation (wk_state w) + 1\<rparr>\<rparr>))
         | (Err e, w) \<Rightarrow>
             (let w = w\<lparr>wk_state := (wk_state w)\<lparr>es_phase := Failed (err_str e)\<rparr>\<rparr>
              in then_do (io (remove_dir_if_exists flt fail_dir) w) (\<lambda>_ w.
                 io (fs_rename flt next_dir fail_dir) w)))"

definition regenerate ::
  "json_lib \<Rightarrow> faults \<Rightarrow> (dp_error \<Rightarrow> string) \<Rightarrow> 'l add_fn \<Rightarrow> 'l worker \<Rightarrow> (unit, dp_error) result \<times> 'l worker" where
  "regenerate J flt err_str add w =
     (let next_dir = next_directory_path (es_id (wk_state w))
      in then_do (io (remove_dir_if_exists flt next_dir) w) (\<lambda>_ w.
         then_do (io (fs_create_dir_all flt next_dir) w) (\<lambda>_ w.
         then_do (io (fs_touch flt next_dir) w) (\<lambda>_ w.
         then_do (regenerate_commit J flt err_str add w) (\<lambda>_ w.
         then_do (io (remove_dir_if_exists flt next_dir) w) (\<lambda>_ w.
         (Ok (), publish w)))))))"

text \<open>\<open>run\<close>: the commands queued before the stop are all handled, in order; each reply is the
  result of its regeneration.\<close>

fun worker_run ::
  "json_lib \<Rightarrow> faults \<Rightarrow> (dp_error \<Rightarrow> string) \<Rightarrow> 'l add_fn \<Rightarrow> nat \<Rightarrow> 'l worker \<Rightarrow> (unit, dp_error) result list \<times> 'l worker" where
  "worker_run J flt err_str add 0 w = ([], w)"
| "worker_run J flt err_str add (Suc n) w =
     (case regenerate J flt err_str add w of (r, w1) \<Rightarrow>
        (case worker_run J flt err_str add n w1 of (rs, w2) \<Rightarrow> (r # rs, w2)))"

section \<open>Effects on the directories\<close>

lemma io_simps [simp]:
  "wk_state (snd (io f w)) = wk_state w" "wk_loader (snd (io f w)) = wk_loader w"
  "wk_status (snd (io f w)) = wk_status w" "wk_fs (snd (io f w)) = snd (f (wk_fs w))"
  by (simp_all add: io_def split: prod.splits result.splits)

lemma io_Ok: "fst (io f w) = Ok u \<longleftrightarrow> fst (f (wk_fs w)) = Ok ()"
  by (auto simp: io_def split: prod.splits result.splits)

lemma set_file_other: "x \<noteq> d \<Longrightarrow> dirs (snd (fs_set_file flt d f s)) x = dirs s x"
  by (auto simp: fs_set_file_def split: option.splits)

lemma touch_dirs [simp]: "dirs (snd (fs_touch flt d s)) = dirs s"
  by (simp add: fs_touch_def)

lemma create_other: "x \<noteq> d \<Longrightarrow> dirs (snd (fs_create_dir_all flt d s)) x = dirs s x"
  by (auto simp: fs_create_dir_all_def split: option.splits)

lemma remove_other: "x \<noteq> d \<Longrightarrow> dirs (snd (remove_dir_if_exists flt d s)) x = dirs s x"
  using remove_dir_cases [of flt d s "fst (remove_dir_if_exists flt d s)" "snd (remove_dir_if_exists flt d s)"] by auto

lemma rename_other: "x \<noteq> a \<Longrightarrow> x \<noteq> b \<Longrightarrow> dirs (snd (fs_rename flt a b s)) x = dirs s x"
  using rename_cases [of flt a b s "fst (fs_rename flt a b s)" "snd (fs_rename flt a b s)"] by auto

lemma then_do_inv:
  assumes "P s" "\<And>a. P s \<Longrightarrow> P (snd (f a s))"
  shows "P (snd (then_do (r, s) f))"
  using assms by (cases r) simp_all

lemma then_do_snd:
  "snd (then_do x f) = (case fst x of Ok a \<Rightarrow> snd (f a (snd x)) | Err _ \<Rightarrow> snd x)"
  by (cases x; cases "fst x") auto

lemma then_do_Ok:
  "fst (then_do x f) = Ok b \<longleftrightarrow> (\<exists>a. fst x = Ok a \<and> fst (f a (snd x)) = Ok b)"
  by (cases x; cases "fst x") auto

lemma write_state_other: "x \<noteq> d \<Longrightarrow> dirs (snd (write_state J flt p d s)) x = dirs s x"
  by (simp add: write_state_def then_do_snd set_file_other split: result.splits)

lemma set_file_Ok:
  "fst (fs_set_file flt d f s) = Ok u \<Longrightarrow>
     (\<exists>e. dirs s d = Some e \<and> dirs (snd (fs_set_file flt d f s)) d = Some (f e))"
  by (auto simp: fs_set_file_def split: option.splits if_splits)

lemma write_state_Ok:
  assumes "fst (write_state J flt p d s) = Ok u"
  shows "\<exists>e. dirs (snd (write_state J flt p d s)) d = Some e \<and> cfg_file e = Some (to_json J p)"
proof -
  let ?s1 = "snd (fs_set_file flt d (\<lambda>e. e\<lparr>tmp_file := Some []\<rparr>) s)"
  let ?s2 = "snd (fs_set_file flt d (\<lambda>e. e\<lparr>tmp_file := Some (to_json J p)\<rparr>) ?s1)"
  let ?s3 = "snd (fs_touch flt d ?s2)"
  let ?f = "\<lambda>e. e\<lparr>cfg_file := tmp_file e, tmp_file := None\<rparr>"
  from assms have ok: "fst (fs_set_file flt d (\<lambda>e. e\<lparr>tmp_file := Some []\<rparr>) s) = Ok ()"
    "fst (fs_set_file flt d (\<lambda>e. e\<lparr>tmp_file := Some (to_json J p)\<rparr>) ?s1) = Ok ()"
    "fst (fs_touch flt d ?s2) = Ok ()" "fst (fs_set_file flt d ?f ?s3) = Ok ()"
    by (auto simp: write_state_def then_do_Ok)
  have fin: "dirs (snd (write_state J flt p d s)) d = dirs (snd (fs_set_file flt d ?f ?s3)) d"
    using ok by (simp add: write_state_def then_do_snd)
  from set_file_Ok [OF ok(2)] obtain e where "dirs ?s2 d = Some (e\<lparr>tmp_file := Some (to_json J p)\<rparr>)" by blast
  with set_file_Ok [OF ok(4)] show ?thesis unfolding fin by auto
qed

lemma readable_written:
  assumes "json_docs J p" "cfg_file e = Some (to_json J p)" "ep_id p = eid"
  shows "readable J eid (Some e) = Some p"
  using assms by (simp add: readable_def json_docs_def)

lemma regenerate_bpf_dirs:
  "x \<noteq> next_directory_path (es_id (wk_state w)) \<Longrightarrow>
     dirs (wk_fs (snd (regenerate_bpf J flt add w))) x = dirs (wk_fs w) x"
  "wk_state (snd (regenerate_bpf J flt add w)) = wk_state w"
  by (auto simp: regenerate_bpf_def Let_def then_do_snd write_state_other split: result.splits prod.splits)

lemma regenerate_bpf_written:
  assumes "fst (regenerate_bpf J flt add w) = Ok n"
  shows "\<exists>e. dirs (wk_fs (snd (regenerate_bpf J flt add w))) (next_directory_path (es_id (wk_state w))) = Some e \<and>
    cfg_file e = Some (to_json J (es_persist (wk_state w)))"
proof -
  let ?d = "next_directory_path (es_id (wk_state w))" and ?p = "es_persist (wk_state w)"
  have ok: "fst (write_state J flt ?p ?d (wk_fs w)) = Ok ()"
    using assms by (auto simp: regenerate_bpf_def Let_def then_do_Ok io_Ok)
  have "wk_fs (snd (regenerate_bpf J flt add w)) = snd (write_state J flt ?p ?d (wk_fs w))"
    by (auto simp: regenerate_bpf_def Let_def then_do_snd split: result.splits prod.splits)
  with write_state_Ok [OF ok] show ?thesis by simp
qed

text \<open>Where the committed state of the endpoint is after a step that may have replaced it.\<close>

definition kept_or_new :: "json_lib \<Rightarrow> endpoint_persist \<Rightarrow> dirent option \<Rightarrow> file_system \<Rightarrow> bool" where
  "kept_or_new J p old s \<longleftrightarrow>
     dirs s (dir_path Current (ep_id p)) = old \<or>
     (\<exists>e. cfg_file e = Some (to_json J p) \<and>
        (dirs s (dir_path Current (ep_id p)) = Some e \<or>
         dirs s (dir_path Current (ep_id p)) = None \<and> dirs s (dir_path Next (ep_id p)) = Some e))"

lemma regenerate_commit_keeps:
  assumes "dirs (wk_fs w) (dir_path Current (es_id (wk_state w))) = old"
  shows "kept_or_new J (es_persist (wk_state w)) old (wk_fs (snd (regenerate_commit J flt err_str add w)))"
    and "fst (regenerate_commit J flt err_str add w) = Ok () \<Longrightarrow>
      dirs (wk_fs (snd (regenerate_commit J flt err_str add w))) (dir_path Current (es_id (wk_state w))) = old \<or>
      (\<exists>e. cfg_file e = Some (to_json J (es_persist (wk_state w))) \<and>
         dirs (wk_fs (snd (regenerate_commit J flt err_str add w))) (dir_path Current (es_id (wk_state w))) = Some e)"
proof -
  let ?p = "es_persist (wk_state w)" and ?eid = "es_id (wk_state w)"
  let ?c = "state_directory_path ?eid" and ?n = "next_directory_path ?eid"
  obtain r b where bpf: "regenerate_bpf J flt add w = (r, b)" by fastforce
  have b: "wk_state b = wk_state w" "dirs (wk_fs b) ?c = old"
    using regenerate_bpf_dirs(1) [of ?c w J flt add] regenerate_bpf_dirs(2) [of J flt add w] assms bpf by auto
  have "kept_or_new J ?p old (wk_fs (snd (regenerate_commit J flt err_str add w))) \<and>
    (fst (regenerate_commit J flt err_str add w) = Ok () \<longrightarrow>
      dirs (wk_fs (snd (regenerate_commit J flt err_str add w))) ?c = old \<or>
      (\<exists>e. cfg_file e = Some (to_json J ?p) \<and>
         dirs (wk_fs (snd (regenerate_commit J flt err_str add w))) ?c = Some e))"
  proof (cases r)
    case (Err e)
    have "dirs (wk_fs (snd (regenerate_commit J flt err_str add w))) ?c = old"
      using b by (auto simp: regenerate_commit_def Let_def bpf Err then_do_snd remove_other rename_other
          split: result.splits)
    then show ?thesis by (simp add: kept_or_new_def es_id_def)
  next
    case (Ok v)
    obtain e where e: "dirs (wk_fs b) ?n = Some e" "cfg_file e = Some (to_json J ?p)"
      using regenerate_bpf_written [of J flt add w] bpf Ok by auto
    obtain sr s' where sy: "synchronize_directories flt ?eid (wk_fs b) = (sr, s')" by fastforce
    have fs: "wk_fs (snd (regenerate_commit J flt err_str add w)) = s'"
      "fst (regenerate_commit J flt err_str add w) = Ok () \<longleftrightarrow> sr = Ok ()"
      by (cases sr; simp add: regenerate_commit_def Let_def bpf Ok io_def sy)+
    show ?thesis
      using synchronize_cases [OF sy] e b(2) unfolding fs kept_or_new_def es_id_def [symmetric] by auto
  qed
  then show "kept_or_new J ?p old (wk_fs (snd (regenerate_commit J flt err_str add w)))"
    "fst (regenerate_commit J flt err_str add w) = Ok () \<Longrightarrow>
      dirs (wk_fs (snd (regenerate_commit J flt err_str add w))) (dir_path Current ?eid) = old \<or>
      (\<exists>e. cfg_file e = Some (to_json J ?p) \<and>
         dirs (wk_fs (snd (regenerate_commit J flt err_str add w))) (dir_path Current ?eid) = Some e)"
    by auto
qed

lemma regenerate_keeps:
  assumes "dirs (wk_fs w) (dir_path Current (es_id (wk_state w))) = old"
  shows "kept_or_new J (es_persist (wk_state w)) old (wk_fs (snd (regenerate J flt err_str add w)))"
proof -
  let ?n = "next_directory_path (es_id (wk_state w))"
  let ?w1 = "snd (io (remove_dir_if_exists flt ?n) w)"
  let ?w2 = "snd (io (fs_create_dir_all flt ?n) ?w1)"
  let ?w3 = "snd (io (fs_touch flt ?n) ?w2)"
  let ?w4 = "snd (regenerate_commit J flt err_str add ?w3)"
  have c: "dirs (wk_fs ?w1) (dir_path Current (es_id (wk_state w))) = old"
    "dirs (wk_fs ?w2) (dir_path Current (es_id (wk_state w))) = old"
    "dirs (wk_fs ?w3) (dir_path Current (es_id (wk_state w))) = old"
    using assms by (simp_all add: remove_other create_other)
  have st: "wk_state ?w3 = wk_state w" by simp
  note k = regenerate_commit_keeps [of ?w3 old J flt err_str add, unfolded st, OF c(3)]
  have fin: "kept_or_new J (es_persist (wk_state w)) old (snd (remove_dir_if_exists flt ?n (wk_fs ?w4)))"
    if "fst (regenerate_commit J flt err_str add ?w3) = Ok ()"
    using k(2) [OF that] by (auto simp: kept_or_new_def remove_other es_id_def)
  have early: "kept_or_new J (es_persist (wk_state w)) old (wk_fs ?w1)"
    "kept_or_new J (es_persist (wk_state w)) old (wk_fs ?w2)"
    "kept_or_new J (es_persist (wk_state w)) old (wk_fs ?w3)"
    using c by (simp_all add: kept_or_new_def es_id_def)
  show ?thesis
    using early k(1) fin
    by (auto simp: regenerate_def Let_def then_do_snd publish_def split: result.splits)
qed

section \<open>Without faults\<close>

lemma fine_io [simp]:
  "dirs s a = Some d \<Longrightarrow> dirs s b = None \<Longrightarrow>
     fs_rename no_faults a b s = (Ok (), (io_tick s)\<lparr>dirs := (dirs s)(b \<mapsto> d, a := None)\<rparr>)"
  "dirs s a = None \<Longrightarrow> fs_rename no_faults a b s = (Err NotFound, io_tick s)"
  "dirs s d' = Some e \<Longrightarrow> fs_touch no_faults d' s = (Ok (), io_tick s)"
  "dirs s d' = Some e \<Longrightarrow> fs_set_file no_faults d' f s = (Ok (), (io_tick s)\<lparr>dirs := (dirs s)(d' \<mapsto> f e)\<rparr>)"
  "dirs s d' = None \<Longrightarrow> fs_create_dir_all no_faults d' s = (Ok (), (io_tick s)\<lparr>dirs := (dirs s)(d' \<mapsto> empty_dir)\<rparr>)"
  by (simp_all add: fs_rename_def fs_touch_def fs_set_file_def fs_create_dir_all_def no_faults_def)

lemma fine_remove: "\<exists>s'. remove_dir_if_exists no_faults d s = (Ok (), s') \<and> dirs s' = (dirs s)(d := None)"
  by (cases "dirs s d") (simp_all add: remove_dir_if_exists_def fs_remove_dir_all_def no_faults_def fun_upd_idem)

lemma fine_write:
  assumes "dirs s d = Some e"
  shows "\<exists>s'. write_state J no_faults p d s = (Ok (), s') \<and>
    dirs s' = (dirs s)(d \<mapsto> \<lparr>cfg_file = Some (to_json J p), tmp_file = None\<rparr>)"
  using assms by (cases e) (simp add: write_state_def)

lemma fine_synchronize:
  assumes "dirs s (next_directory_path eid) = Some e"
  shows "\<exists>s'. synchronize_directories no_faults eid s = (Ok (), s') \<and>
    dirs s' = (dirs s)(backup_directory_path eid := None, state_directory_path eid \<mapsto> e, next_directory_path eid := None)"
proof -
  obtain s1 where s1: "remove_dir_if_exists no_faults (backup_directory_path eid) s = (Ok (), s1)"
    "dirs s1 = (dirs s)(backup_directory_path eid := None)" using fine_remove by blast
  show ?thesis
  proof (cases "dirs s (state_directory_path eid)")
    case None
    obtain s2 where s2: "fs_rename no_faults (next_directory_path eid) (state_directory_path eid) (io_tick s1) = (Ok (), s2)"
      "dirs s2 = (dirs s1)(state_directory_path eid \<mapsto> e, next_directory_path eid := None)"
      using s1 None assms by simp
    obtain s3 where s3: "remove_dir_if_exists no_faults (backup_directory_path eid) s2 = (Ok (), s3)"
      "dirs s3 = (dirs s2)(backup_directory_path eid := None)" using fine_remove by blast
    have "synchronize_directories no_faults eid s = (Ok (), s3)"
      using s1 s2(1) s3(1) None by (simp add: synchronize_directories_def Let_def)
    moreover have "dirs s3 = (dirs s)(backup_directory_path eid := None, state_directory_path eid \<mapsto> e, next_directory_path eid := None)"
      by (rule ext) (simp add: s1 s2 s3)
    ultimately show ?thesis by blast
  next
    case (Some c)
    obtain s2 where s2: "fs_rename no_faults (state_directory_path eid) (backup_directory_path eid) s1 = (Ok (), s2)"
      "dirs s2 = (dirs s1)(backup_directory_path eid \<mapsto> c, state_directory_path eid := None)"
      using s1 Some by simp
    obtain s3 where s3: "fs_rename no_faults (next_directory_path eid) (state_directory_path eid) s2 = (Ok (), s3)"
      "dirs s3 = (dirs s2)(state_directory_path eid \<mapsto> e, next_directory_path eid := None)"
      using s1 s2 assms by simp
    obtain s4 where s4: "remove_dir_if_exists no_faults (backup_directory_path eid) s3 = (Ok (), s4)"
      "dirs s4 = (dirs s3)(backup_directory_path eid := None)" using fine_remove by blast
    have "synchronize_directories no_faults eid s = (Ok (), s4)"
      using s1(1) s2(1) s3(1) s4(1) by (simp add: synchronize_directories_def Let_def)
    moreover have "dirs s4 = (dirs s)(backup_directory_path eid := None, state_directory_path eid \<mapsto> e, next_directory_path eid := None)"
      by (rule ext) (simp add: s1 s2 s3 s4)
    ultimately show ?thesis by blast
  qed
qed

lemma io_step:
  assumes "f (wk_fs w) = (Ok (), s')"
  shows "io f w = (Ok (), w\<lparr>wk_fs := s'\<rparr>)"
  using assms by (simp add: io_def)

text \<open>The three calls that prepare the next directory.\<close>

lemma fine_prepare:
  "\<exists>s3. dirs s3 = (dirs (wk_fs w))(n \<mapsto> empty_dir) \<and>
     then_do (io (remove_dir_if_exists no_faults n) w) (\<lambda>_ w.
       then_do (io (fs_create_dir_all no_faults n) w) (\<lambda>_ w.
       then_do (io (fs_touch no_faults n) w) F)) = F () (w\<lparr>wk_fs := s3\<rparr>)"
proof -
  obtain s1 where s1: "remove_dir_if_exists no_faults n (wk_fs w) = (Ok (), s1)" "dirs s1 = (dirs (wk_fs w))(n := None)"
    using fine_remove by blast
  have "then_do (io (remove_dir_if_exists no_faults n) w) (\<lambda>_ w.
       then_do (io (fs_create_dir_all no_faults n) w) (\<lambda>_ w.
       then_do (io (fs_touch no_faults n) w) F)) =
     F () (w\<lparr>wk_fs := io_tick ((io_tick s1)\<lparr>dirs := (dirs s1)(n \<mapsto> empty_dir)\<rparr>)\<rparr>)"
    using s1 by (simp add: io_def)
  moreover have "dirs (io_tick ((io_tick s1)\<lparr>dirs := (dirs s1)(n \<mapsto> empty_dir)\<rparr>)) = (dirs (wk_fs w))(n \<mapsto> empty_dir)"
    by (simp add: s1(2))
  ultimately show ?thesis by blast
qed

lemma fine_regenerate_bpf:
  assumes "dirs (wk_fs w) (next_directory_path (es_id (wk_state w))) = Some e"
    "add (Container (es_persist (wk_state w))) (wk_loader w) = (r, l)"
  shows "\<exists>s'. regenerate_bpf J no_faults add w = ((case r of Ok _ \<Rightarrow> Ok 0 | Err x \<Rightarrow> Err x), w\<lparr>wk_fs := s', wk_loader := l\<rparr>) \<and>
    dirs s' = (dirs (wk_fs w))(next_directory_path (es_id (wk_state w)) \<mapsto>
      \<lparr>cfg_file = Some (to_json J (es_persist (wk_state w))), tmp_file = None\<rparr>)"
  using fine_write [OF assms(1), of J "es_persist (wk_state w)"] assms(2)
  by (auto simp: regenerate_bpf_def Let_def io_def split: result.splits)

definition written :: "json_lib \<Rightarrow> endpoint_persist \<Rightarrow> dirent" where
  "written J p = \<lparr>cfg_file = Some (to_json J p), tmp_file = None\<rparr>"

lemma fine_commit_Ok:
  assumes "dirs (wk_fs w) (next_directory_path (es_id (wk_state w))) = Some e"
    "add (Container (es_persist (wk_state w))) (wk_loader w) = (Ok u, l)"
  shows "\<exists>s'. regenerate_commit J no_faults err_str add w =
      (Ok (), w\<lparr>wk_state := (wk_state w)\<lparr>es_phase := Ready, es_generation := es_generation (wk_state w) + 1\<rparr>,
        wk_fs := s', wk_loader := l\<rparr>) \<and>
    dirs s' = (dirs (wk_fs w))(backup_directory_path (es_id (wk_state w)) := None,
      state_directory_path (es_id (wk_state w)) \<mapsto> written J (es_persist (wk_state w)),
      next_directory_path (es_id (wk_state w)) := None)"
proof -
  let ?eid = "es_id (wk_state w)"
  obtain s1 where s1: "regenerate_bpf J no_faults add w = (Ok 0, w\<lparr>wk_fs := s1, wk_loader := l\<rparr>)"
    "dirs s1 = (dirs (wk_fs w))(next_directory_path ?eid \<mapsto> written J (es_persist (wk_state w)))"
    using fine_regenerate_bpf [where J = J and add = add, OF assms] by (auto simp: written_def)
  then have "dirs s1 (next_directory_path ?eid) = Some (written J (es_persist (wk_state w)))" by simp
  from fine_synchronize [OF this] obtain s2 where s2: "synchronize_directories no_faults ?eid s1 = (Ok (), s2)"
    "dirs s2 = (dirs s1)(backup_directory_path ?eid := None,
       state_directory_path ?eid \<mapsto> written J (es_persist (wk_state w)), next_directory_path ?eid := None)" by blast
  have "dirs s2 = (dirs (wk_fs w))(backup_directory_path ?eid := None,
      state_directory_path ?eid \<mapsto> written J (es_persist (wk_state w)), next_directory_path ?eid := None)"
    by (rule ext) (simp add: s2(2) s1(2))
  moreover have "regenerate_commit J no_faults err_str add w =
      (Ok (), w\<lparr>wk_state := (wk_state w)\<lparr>es_phase := Ready, es_generation := es_generation (wk_state w) + 1\<rparr>,
        wk_fs := s2, wk_loader := l\<rparr>)"
    using s1(1) s2(1) by (simp add: regenerate_commit_def Let_def io_def)
  ultimately show ?thesis by blast
qed

lemma fine_commit_Err:
  assumes "dirs (wk_fs w) (next_directory_path (es_id (wk_state w))) = Some e"
    "add (Container (es_persist (wk_state w))) (wk_loader w) = (Err x, l)"
  shows "\<exists>s'. regenerate_commit J no_faults err_str add w =
      (Ok (), w\<lparr>wk_state := (wk_state w)\<lparr>es_phase := Failed (err_str x)\<rparr>, wk_fs := s', wk_loader := l\<rparr>) \<and>
    dirs s' = (dirs (wk_fs w))(failed_directory_path (es_id (wk_state w)) \<mapsto> written J (es_persist (wk_state w)),
      next_directory_path (es_id (wk_state w)) := None)"
proof -
  let ?n = "next_directory_path (es_id (wk_state w))" and ?f = "failed_directory_path (es_id (wk_state w))"
  obtain s1 where s1: "regenerate_bpf J no_faults add w = (Err x, w\<lparr>wk_fs := s1, wk_loader := l\<rparr>)"
    "dirs s1 = (dirs (wk_fs w))(?n \<mapsto> written J (es_persist (wk_state w)))"
    using fine_regenerate_bpf [where J = J and add = add, OF assms] by (auto simp: written_def)
  obtain s2 where s2: "remove_dir_if_exists no_faults ?f s1 = (Ok (), s2)" "dirs s2 = (dirs s1)(?f := None)"
    using fine_remove by blast
  have r: "fs_rename no_faults ?n ?f s2 =
      (Ok (), (io_tick s2)\<lparr>dirs := (dirs s2)(?f \<mapsto> written J (es_persist (wk_state w)), ?n := None)\<rparr>)"
    by (rule fine_io(1)) (simp_all add: s1 s2)
  have "(dirs s2)(?f \<mapsto> written J (es_persist (wk_state w)), ?n := None) =
      (dirs (wk_fs w))(?f \<mapsto> written J (es_persist (wk_state w)), ?n := None)"
    by (rule ext) (simp add: s1 s2)
  moreover have "regenerate_commit J no_faults err_str add w =
      (Ok (), w\<lparr>wk_state := (wk_state w)\<lparr>es_phase := Failed (err_str x)\<rparr>,
        wk_fs := (io_tick s2)\<lparr>dirs := (dirs s2)(?f \<mapsto> written J (es_persist (wk_state w)), ?n := None)\<rparr>, wk_loader := l\<rparr>)"
    using s1(1) s2(1) r by (simp add: regenerate_commit_def Let_def io_def)
  ultimately show ?thesis by fastforce
qed

lemma fine_regenerate:
  assumes "add (Container (es_persist (wk_state w))) (wk_loader w) = (r, l)"
  shows "\<exists>s'. regenerate J no_faults err_str add w =
      (Ok (), publish (w\<lparr>wk_state := (case r of
          Ok _ \<Rightarrow> (wk_state w)\<lparr>es_phase := Ready, es_generation := es_generation (wk_state w) + 1\<rparr>
        | Err x \<Rightarrow> (wk_state w)\<lparr>es_phase := Failed (err_str x)\<rparr>), wk_fs := s', wk_loader := l\<rparr>)) \<and>
    dirs s' = (case r of
        Ok _ \<Rightarrow> (dirs (wk_fs w))(backup_directory_path (es_id (wk_state w)) := None,
          state_directory_path (es_id (wk_state w)) \<mapsto> written J (es_persist (wk_state w)),
          next_directory_path (es_id (wk_state w)) := None)
      | Err _ \<Rightarrow> (dirs (wk_fs w))(failed_directory_path (es_id (wk_state w)) \<mapsto> written J (es_persist (wk_state w)),
          next_directory_path (es_id (wk_state w)) := None))"
proof -
  let ?n = "next_directory_path (es_id (wk_state w))"
  let ?F = "\<lambda>_ v. then_do (regenerate_commit J no_faults err_str add v) (\<lambda>_ v.
    then_do (io (remove_dir_if_exists no_faults ?n) v) (\<lambda>_ v. (Ok (), publish v)))"
  obtain s3 where s3: "dirs s3 = (dirs (wk_fs w))(?n \<mapsto> empty_dir)"
    "regenerate J no_faults err_str add w = ?F () (w\<lparr>wk_fs := s3\<rparr>)"
    using fine_prepare [of w ?n ?F] by (auto simp: regenerate_def Let_def)
  let ?w = "w\<lparr>wk_fs := s3\<rparr>"
  have e: "dirs (wk_fs ?w) (next_directory_path (es_id (wk_state ?w))) = Some empty_dir" using s3(1) by simp
  have a: "add (Container (es_persist (wk_state ?w))) (wk_loader ?w) = (r, l)" using assms by simp
  show ?thesis
  proof (cases r)
    case (Ok u)
    obtain s4 where s4: "regenerate_commit J no_faults err_str add ?w =
        (Ok (), w\<lparr>wk_state := (wk_state w)\<lparr>es_phase := Ready, es_generation := es_generation (wk_state w) + 1\<rparr>,
          wk_fs := s4, wk_loader := l\<rparr>)"
      "dirs s4 = (dirs s3)(backup_directory_path (es_id (wk_state w)) := None,
        state_directory_path (es_id (wk_state w)) \<mapsto> written J (es_persist (wk_state w)), ?n := None)"
      using fine_commit_Ok [where add = add, OF e a [unfolded Ok], of J err_str] by auto
    obtain s5 where s5: "remove_dir_if_exists no_faults ?n s4 = (Ok (), s5)" "dirs s5 = (dirs s4)(?n := None)"
      using fine_remove by blast
    have "dirs s5 = (dirs (wk_fs w))(backup_directory_path (es_id (wk_state w)) := None,
        state_directory_path (es_id (wk_state w)) \<mapsto> written J (es_persist (wk_state w)), ?n := None)"
      by (rule ext) (simp add: s3 s4 s5)
    moreover have "regenerate J no_faults err_str add w =
        (Ok (), publish (w\<lparr>wk_state := (wk_state w)\<lparr>es_phase := Ready, es_generation := es_generation (wk_state w) + 1\<rparr>,
          wk_fs := s5, wk_loader := l\<rparr>))"
      using s3(2) s4(1) s5(1)
      by (simp add: io_def publish_def)
    ultimately show ?thesis unfolding Ok by auto
  next
    case (Err x)
    obtain s4 where s4: "regenerate_commit J no_faults err_str add ?w =
        (Ok (), w\<lparr>wk_state := (wk_state w)\<lparr>es_phase := Failed (err_str x)\<rparr>, wk_fs := s4, wk_loader := l\<rparr>)"
      "dirs s4 = (dirs s3)(failed_directory_path (es_id (wk_state w)) \<mapsto> written J (es_persist (wk_state w)), ?n := None)"
      using fine_commit_Err [where add = add, OF e a [unfolded Err], of J err_str] by auto
    obtain s5 where s5: "remove_dir_if_exists no_faults ?n s4 = (Ok (), s5)" "dirs s5 = (dirs s4)(?n := None)"
      using fine_remove by blast
    have "dirs s5 = (dirs (wk_fs w))(failed_directory_path (es_id (wk_state w)) \<mapsto> written J (es_persist (wk_state w)), ?n := None)"
      by (rule ext) (simp add: s3 s4 s5)
    moreover have "regenerate J no_faults err_str add w =
        (Ok (), publish (w\<lparr>wk_state := (wk_state w)\<lparr>es_phase := Failed (err_str x)\<rparr>, wk_fs := s5, wk_loader := l\<rparr>))"
      using s3(2) s4(1) s5(1)
      by (simp add: io_def publish_def)
    ultimately show ?thesis unfolding Err by auto
  qed
qed

section \<open>Properties\<close>

text \<open>C16: a regeneration never loses the endpoint. Whatever system calls fail, in whatever
  combination (a crash is the case that all calls after some point fail), and whatever the loader
  answers: if the committed state was readable before, a restart afterwards restores either that
  state or the one being regenerated.\<close>

theorem regenerate_never_loses_state:
  assumes "json_docs J (es_persist (wk_state w))"
    "readable J (es_id (wk_state w)) (dirs (wk_fs w) (dir_path Current (es_id (wk_state w)))) = Some old"
  shows "restored J (wk_fs (snd (regenerate J flt err_str add w))) (es_id (wk_state w)) = Some old \<or>
    restored J (wk_fs (snd (regenerate J flt err_str add w))) (es_id (wk_state w)) = Some (es_persist (wk_state w))"
  using regenerate_keeps [OF refl, of J w flt err_str add] assms readable_written [OF assms(1)]
  by (auto simp: kept_or_new_def es_id_def [symmetric] restored_def all_kinds_def)

definition idle_worker :: "nat worker" where
  "idle_worker = \<lparr>wk_state = \<lparr>es_persist = sample_persist, es_phase = Created, es_generation = 0\<rparr>,
     wk_fs = \<lparr>dirs = [''7'' \<mapsto> written sample_json sample_persist], clock = 0\<rparr>, wk_loader = 0,
     wk_status = \<lparr>es_persist = sample_persist, es_phase = Created, es_generation = 0\<rparr>\<rparr>"

lemma idle_worker_simps [simp]:
  "wk_state idle_worker = \<lparr>es_persist = sample_persist, es_phase = Created, es_generation = 0\<rparr>"
  "es_id \<lparr>es_persist = sample_persist, es_phase = ph, es_generation = g\<rparr> = 7" "json_docs sample_json sample_persist"
  by (simp_all add: idle_worker_def es_id_def sample_persist_def json_docs_def sample_json_def)

lemma id_str_7: "endpoint_id_str 7 = ''7''"
  by code_simp

theorem regenerate_never_loses_state_witness:
  "restored sample_json (wk_fs (snd (regenerate sample_json (\<lambda>n. if 5 < n then Fail else Fine) (\<lambda>_. [])
     (\<lambda>_ l. (Ok (), l)) idle_worker))) 7 = Some sample_persist"
proof -
  have "readable sample_json 7 (dirs (wk_fs idle_worker) (dir_path Current 7)) = Some sample_persist"
    by (simp add: readable_def idle_worker_def written_def path_defs id_str_7 sample_json_def sample_persist_def)
  then show ?thesis
    using regenerate_never_loses_state [of sample_json idle_worker sample_persist
        "\<lambda>n. if 5 < n then Fail else Fine" "\<lambda>_. []" "\<lambda>_ l. (Ok (), l)"] by simp
qed

text \<open>C17: what a regeneration does when no system call fails. If the loader accepts the endpoint,
  the new state is the committed one, the next and backup directories are gone, and the worker
  publishes the phase \<open>Ready\<close> with the next generation; if the loader fails, the committed state
  is untouched, the attempted one is kept in the failed directory, and the worker publishes the
  phase \<open>Failed\<close> with the error. The reply is \<open>Ok\<close> in both cases.\<close>

theorem regenerate_outcome:
  assumes "add (Container (es_persist (wk_state w))) (wk_loader w) = (r, l)"
    "regenerate J no_faults err_str add w = (reply, w')"
  shows "reply = Ok () \<and> wk_status w' = wk_state w' \<and> dirs (wk_fs w') (dir_path Next (es_id (wk_state w))) = None \<and>
    (case r of
       Ok _ \<Rightarrow> wk_state w' = (wk_state w)\<lparr>es_phase := Ready, es_generation := es_generation (wk_state w) + 1\<rparr> \<and>
         dirs (wk_fs w') (dir_path Current (es_id (wk_state w))) = Some (written J (es_persist (wk_state w))) \<and>
         dirs (wk_fs w') (dir_path Backup (es_id (wk_state w))) = None
     | Err x \<Rightarrow> wk_state w' = (wk_state w)\<lparr>es_phase := Failed (err_str x)\<rparr> \<and>
         dirs (wk_fs w') (dir_path Current (es_id (wk_state w))) = dirs (wk_fs w) (dir_path Current (es_id (wk_state w))) \<and>
         dirs (wk_fs w') (dir_path NextFailed (es_id (wk_state w))) = Some (written J (es_persist (wk_state w))))"
  using fine_regenerate [where add = add, OF assms(1), of J err_str] assms(2)
  by (cases r) (auto simp: publish_def)

theorem regenerate_outcome_witness:
  "es_phase (wk_status (snd (regenerate sample_json no_faults (\<lambda>_. ''boom'') (\<lambda>_ l. (Err (Injected ''x''), l)) idle_worker))) =
     Failed ''boom''"
  using regenerate_outcome [of "\<lambda>_ l. (Err (Injected ''x''), l)" idle_worker _ _ sample_json "\<lambda>_. ''boom''",
      OF refl prod.collapse [symmetric]]
  by simp

end
