(* ===== verification/Endpoint_Manager.thy ===== *)
theory Endpoint_Manager
  imports Endpoint_Worker
begin

text \<open>
  \<open>EndpointManager\<close> of \<open>sarena-data-plane/src/endpoint/manager.rs\<close> and the \<open>Endpoint\<close> handle of
  \<open>handle.rs\<close>. The maps of \<open>EndpointManagerInner\<close> are association lists (a \<open>HashMap\<close>), the id
  allocator, the state directory and the loader are part of the manager's state, and an endpoint is
  its worker's state with the number of regenerations still queued. The operations of the
  \<open>DataplaneLoader\<close> trait are arguments (\<open>add\<close>, \<open>rem\<close>, \<open>lst\<close>); how far a worker gets before its
  shutdown times out is the argument \<open>drain\<close> of \<open>delete_endpoint\<close>.
\<close>

record ep_handle =
  h_state :: endpoint_state
  h_is_host :: bool
  h_status :: endpoint_state
  h_queue :: nat

record 'l manager =
  mg_endpoints :: "(endpoint_id \<times> ep_handle) list"
  ix_container_name :: "(string \<times> endpoint_id) list"
  ix_container_id :: "(string \<times> endpoint_id) list"
  ix_docker_endpoint :: "(string \<times> endpoint_id) list"
  ix_ipv4 :: "(u32 \<times> endpoint_id) list"
  ix_ipv6 :: "(u128 \<times> endpoint_id) list"
  ix_pod_name :: "(string \<times> endpoint_id) list"
  mg_ids :: id_cache
  mg_loader :: 'l
  mg_fs :: file_system

section \<open>Handles\<close>

definition endpoint_new :: "endpoint_persist \<Rightarrow> ep_handle" where
  "endpoint_new p =
     (let st = \<lparr>es_persist = p, es_phase = Created, es_generation = 0\<rparr>
      in \<lparr>h_state = st, h_is_host = False, h_status = st, h_queue = 0\<rparr>)"

definition h_id :: "ep_handle \<Rightarrow> endpoint_id" where
  "h_id h = ep_id (es_persist (h_state h))"

text \<open>\<open>Endpoint::regenerate\<close> sends one command.\<close>

definition h_send :: "ep_handle \<Rightarrow> ep_handle" where
  "h_send h = h\<lparr>h_queue := h_queue h + 1\<rparr>"

datatype drain = Drained | AbortedAfter nat

text \<open>\<open>wait_for_shutdown\<close>: the worker runs what is queued, all of it or as far as it gets before it is
  aborted.\<close>

definition wait_for_shutdown ::
  "json_lib \<Rightarrow> faults \<Rightarrow> (dp_error \<Rightarrow> string) \<Rightarrow> 'l add_fn \<Rightarrow> drain \<Rightarrow> ep_handle \<Rightarrow> 'l manager \<Rightarrow>
     (unit, dp_error) result \<times> ep_handle \<times> 'l manager" where
  "wait_for_shutdown J flt err_str add d h m =
     (let n = (case d of Drained \<Rightarrow> h_queue h | AbortedAfter k \<Rightarrow> min k (h_queue h));
          w = snd (worker_run J flt err_str add n
                \<lparr>wk_state = h_state h, wk_fs = mg_fs m, wk_loader = mg_loader m, wk_status = h_status h\<rparr>)
      in (case d of Drained \<Rightarrow> Ok ()
          | AbortedAfter _ \<Rightarrow>
              Err (GeneralError (''endpoint '' @ endpoint_id_str (h_id h) @ '' did not drain, aborted'')),
          \<lparr>h_state = wk_state w, h_is_host = h_is_host h, h_status = wk_status w, h_queue = 0\<rparr>,
          m\<lparr>mg_fs := wk_fs w, mg_loader := wk_loader w\<rparr>))"

section \<open>The maps\<close>

definition manager_new :: "'l \<Rightarrow> file_system \<Rightarrow> 'l manager" where
  "manager_new l s =
     \<lparr>mg_endpoints = [], ix_container_name = [], ix_container_id = [], ix_docker_endpoint = [], ix_ipv4 = [],
      ix_ipv6 = [], ix_pod_name = [], mg_ids = id_new, mg_loader = l, mg_fs = s\<rparr>"

definition inner_add_endpoint :: "endpoint_id \<Rightarrow> ep_handle \<Rightarrow> 'l manager \<Rightarrow> 'l manager" where
  "inner_add_endpoint eid h m = m\<lparr>mg_endpoints := AList.update eid h (mg_endpoints m)\<rparr>"

definition remove_id :: "endpoint_id \<Rightarrow> 'l manager \<Rightarrow> ep_handle option \<times> 'l manager" where
  "remove_id eid m = (map_of (mg_endpoints m) eid, m\<lparr>mg_endpoints := AList.delete eid (mg_endpoints m)\<rparr>)"

definition inner_remove_all :: "'l manager \<Rightarrow> 'l manager" where
  "inner_remove_all m = m\<lparr>mg_endpoints := [], ix_container_name := []\<rparr>"

definition insert_opt :: "'k option \<Rightarrow> 'v \<Rightarrow> ('k \<times> 'v) list \<Rightarrow> ('k \<times> 'v) list" where
  "insert_opt k v al = (case k of None \<Rightarrow> al | Some x \<Rightarrow> AList.update x v al)"

definition retain_not :: "endpoint_id \<Rightarrow> (string \<times> endpoint_id) list \<Rightarrow> (string \<times> endpoint_id) list" where
  "retain_not eid al = filter (\<lambda>(_, aux_id). aux_id \<noteq> eid) al"

definition update_references :: "endpoint_id \<Rightarrow> endpoint_persist \<Rightarrow> 'l manager \<Rightarrow> 'l manager" where
  "update_references eid p m =
     (let sp = ep_spec p
      in m\<lparr>ix_container_name := insert_opt (container_name sp) eid (retain_not eid (ix_container_name m)),
           ix_container_id := insert_opt (container_id sp) eid (ix_container_id m),
           ix_docker_endpoint := insert_opt (container_id sp) eid (ix_docker_endpoint m),
           ix_ipv4 := insert_opt (ep_ipv4 sp) eid (ix_ipv4 m),
           ix_ipv6 := insert_opt (ep_ipv6 sp) eid (ix_ipv6 m),
           ix_pod_name := insert_opt (k8s_ns_and_pod_name sp) eid (ix_pod_name m)\<rparr>)"

definition remove_references :: "endpoint_id \<Rightarrow> 'l manager \<Rightarrow> 'l manager" where
  "remove_references eid m = m\<lparr>ix_container_name := retain_not eid (ix_container_name m)\<rparr>"

definition lookup_container_name :: "string \<Rightarrow> 'l manager \<Rightarrow> endpoint_id option" where
  [simp]: "lookup_container_name x m = map_of (ix_container_name m) x"

definition lookup_container_id :: "string \<Rightarrow> 'l manager \<Rightarrow> endpoint_id option" where
  [simp]: "lookup_container_id x m = map_of (ix_container_id m) x"

definition lookup_docker_endpoint :: "string \<Rightarrow> 'l manager \<Rightarrow> endpoint_id option" where
  [simp]: "lookup_docker_endpoint x m = map_of (ix_docker_endpoint m) x"

definition lookup_ipv4 :: "u32 \<Rightarrow> 'l manager \<Rightarrow> endpoint_id option" where
  [simp]: "lookup_ipv4 x m = map_of (ix_ipv4 m) x"

definition lookup_ipv6 :: "u128 \<Rightarrow> 'l manager \<Rightarrow> endpoint_id option" where
  [simp]: "lookup_ipv6 x m = map_of (ix_ipv6 m) x"

definition lookup_pod_name :: "string \<Rightarrow> 'l manager \<Rightarrow> endpoint_id option" where
  [simp]: "lookup_pod_name x m = map_of (ix_pod_name m) x"

definition lookup_ip :: "ip_addr \<Rightarrow> 'l manager \<Rightarrow> endpoint_id option" where
  "lookup_ip ip m = (case ip of V4 a \<Rightarrow> lookup_ipv4 a m | V6 a \<Rightarrow> lookup_ipv6 a m)"

fun lookup_ep :: "endpoint_identification \<Rightarrow> 'l manager \<Rightarrow> endpoint_id option" where
  "lookup_ep (ContainerId c) m = lookup_container_id c m"
| "lookup_ep (ContainerName c) m = lookup_container_name c m"
| "lookup_ep (DockerEndpoint c) m = lookup_docker_endpoint c m"
| "lookup_ep (EpIpv4 a) m = lookup_ipv4 a m"
| "lookup_ep (EpIpv6 a) m = lookup_ipv6 a m"
| "lookup_ep (Local eid) m = Some eid"
| "lookup_ep (PodName c) m = lookup_pod_name c m"

section \<open>Operations\<close>

definition endpoint_exists :: "endpoint_id \<Rightarrow> 'l manager \<Rightarrow> bool" where
  "endpoint_exists eid m \<longleftrightarrow> map_of (mg_endpoints m) eid \<noteq> None"

definition endpoint :: "endpoint_id \<Rightarrow> 'l manager \<Rightarrow> ep_handle option" where
  "endpoint eid m = map_of (mg_endpoints m) eid"

definition endpoints :: "'l manager \<Rightarrow> ep_handle list" where
  "endpoints m = map snd (mg_endpoints m)"

definition host_endpoint_id :: "'l manager \<Rightarrow> endpoint_id option" where
  "host_endpoint_id m = map_option h_id (List.find h_is_host (map snd (mg_endpoints m)))"

definition host_endpoint_exists :: "'l manager \<Rightarrow> bool" where
  "host_endpoint_exists m \<longleftrightarrow> host_endpoint_id m \<noteq> None"

definition add_endpoint :: "endpoint_persist \<Rightarrow> 'l manager \<Rightarrow> (ep_handle, dp_error) result \<times> 'l manager" where
  "add_endpoint p m =
     (let eid = ep_id p
      in if map_of (mg_endpoints m) eid \<noteq> None
         then (Err (GeneralError (''endpoint '' @ endpoint_id_str eid @ '' already exists'')), m)
         else let h = endpoint_new p
              in (Ok h, update_references eid p (inner_add_endpoint eid h m)))"

text \<open>\<open>add_host_endpoint\<close> does nothing.\<close>

definition add_host_endpoint :: "endpoint_persist \<Rightarrow> 'l manager \<Rightarrow> (unit, dp_error) result \<times> 'l manager" where
  "add_host_endpoint p m = (Ok (), m)"

definition result_and :: "('a, 'e) result \<Rightarrow> ('b, 'e) result \<Rightarrow> ('b, 'e) result" where
  "result_and a b = (case a of Ok _ \<Rightarrow> b | Err e \<Rightarrow> Err e)"

definition delete_endpoint ::
  "json_lib \<Rightarrow> faults \<Rightarrow> (dp_error \<Rightarrow> string) \<Rightarrow> 'l add_fn \<Rightarrow> 'l add_fn \<Rightarrow> drain \<Rightarrow> endpoint_id \<Rightarrow> 'l manager \<Rightarrow>
     (unit, dp_error) result \<times> 'l manager" where
  "delete_endpoint J flt err_str add rem d eid m =
     (case remove_id eid (remove_references eid m) of (ep, m) \<Rightarrow>
        (case (case ep of
                 None \<Rightarrow> (Ok (), m)
               | Some h \<Rightarrow>
                   (case wait_for_shutdown J flt err_str add d h m of (drained, h, m) \<Rightarrow>
                      if h_is_host h then (result_and drained (Ok ()), m)
                      else (case rem (Container (es_persist (h_status h))) (mg_loader m) of
                              (removed, l) \<Rightarrow> (result_and drained removed, m\<lparr>mg_loader := l\<rparr>)))) of
           (res, m) \<Rightarrow> (res, m\<lparr>mg_ids := snd (id_release eid (mg_ids m))\<rparr>)))"

text \<open>\<open>remove_all\<close> stops every worker and forgets the endpoints; it returns the stopped handles.\<close>

definition remove_all :: "'l manager \<Rightarrow> ep_handle list \<times> 'l manager" where
  "remove_all m = (map snd (mg_endpoints m), inner_remove_all m)"

definition allocate_new_id ::
  "(endpoint_id set \<Rightarrow> endpoint_id) \<Rightarrow> 'l manager \<Rightarrow> (id_lease, dp_error) result \<times> 'l manager" where
  "allocate_new_id pick m =
     (case id_allocate pick (mg_ids m) of
        (None, c) \<Rightarrow> (Err (GeneralError ''no more EndpointId's available''), m\<lparr>mg_ids := c\<rparr>)
      | (Some eid, c) \<Rightarrow> (Ok (lease_new eid), m\<lparr>mg_ids := c\<rparr>))"

definition allocate_reuse_id :: "endpoint_id \<Rightarrow> 'l manager \<Rightarrow> (id_lease, dp_error) result \<times> 'l manager" where
  "allocate_reuse_id eid m =
     (case id_reuse eid (mg_ids m) of
        (Err _, c) \<Rightarrow> (Err (GeneralError ''unable to reuse EndpointId''), m\<lparr>mg_ids := c\<rparr>)
      | (Ok _, c) \<Rightarrow> (Ok (lease_new eid), m\<lparr>mg_ids := c\<rparr>))"

fun restore_ids :: "(endpoint_id \<times> endpoint_persist) list \<Rightarrow> 'l manager \<Rightarrow> endpoint_persist list \<times> 'l manager" where
  "restore_ids [] m = ([], m)"
| "restore_ids ((eid, p) # xs) m =
     (case allocate_reuse_id eid m of
        (Err _, m1) \<Rightarrow> restore_ids xs m1
      | (Ok _, m1) \<Rightarrow> (case restore_ids xs m1 of (ps, m2) \<Rightarrow> (p # ps, m2)))"

text \<open>\<open>restore_old_endpoints\<close>; \<open>lxc\<close> is the outcome of opening and reading the pinned \<open>lxc_map\<close>, \<open>lst\<close>
  the loader's listing. The second component, the endpoints to clean, is always empty.\<close>

definition restore_old_endpoints ::
  "json_lib \<Rightarrow> faults \<Rightarrow> ((string \<times> bool) list, io_error) result \<Rightarrow> (unit, dp_error) result \<Rightarrow>
     ('l \<Rightarrow> ((loader_endpoint_kind \<times> string) list, dp_error) result) \<Rightarrow> 'l manager \<Rightarrow>
     (endpoint_persist list \<times> endpoint_persist list, dp_error) result \<times> 'l manager" where
  "restore_old_endpoints J flt listing lxc lst m =
     (case read_endpoints J flt listing (mg_fs m) of
        (Err e, s) \<Rightarrow> (Err e, m\<lparr>mg_fs := s\<rparr>)
      | (Ok possible, s) \<Rightarrow>
          (let m = m\<lparr>mg_fs := s\<rparr>
           in if possible = [] then (Ok ([], []), m)
              else case lxc of Err e \<Rightarrow> (Err e, m)
              | Ok _ \<Rightarrow>
                  (case lst (mg_loader m) of Err e \<Rightarrow> (Err e, m)
                   | Ok _ \<Rightarrow> (case restore_ids possible m of (ps, m) \<Rightarrow> (Ok (ps, []), m)))))"

section \<open>Lookups\<close>

lemma map_of_insert_opt [simp]:
  "map_of (insert_opt k v al) x = (if k = Some x then Some v else map_of al x)"
  by (auto simp: insert_opt_def update_conv' split: option.splits)

lemma retain_not_value: "map_of (retain_not eid al) x \<noteq> Some eid"
  unfolding retain_not_def by (auto dest!: map_of_SomeD)

lemma manager_frame [simp]:
  "mg_endpoints (update_references eid p m) = mg_endpoints m" "mg_ids (update_references eid p m) = mg_ids m"
  "mg_endpoints (remove_references eid m) = mg_endpoints m" "mg_ids (remove_references eid m) = mg_ids m"
  "ix_container_id (remove_references eid m) = ix_container_id m" "ix_ipv4 (remove_references eid m) = ix_ipv4 m"
  "ix_ipv6 (remove_references eid m) = ix_ipv6 m" "ix_pod_name (remove_references eid m) = ix_pod_name m"
  "ix_docker_endpoint (remove_references eid m) = ix_docker_endpoint m"
  by (simp_all add: update_references_def remove_references_def Let_def)

lemma wait_for_shutdown_frame:
  assumes "wait_for_shutdown J flt err_str add d h m = (r, h', m')"
  shows "\<exists>s l. m' = m\<lparr>mg_fs := s, mg_loader := l\<rparr>" "h_is_host h' = h_is_host h"
    "(r = Ok ()) = (d = Drained)"
  using assms by (cases d; auto simp: wait_for_shutdown_def Let_def)+

text \<open>Everything \<open>delete_endpoint\<close> leaves unchanged, and the maps it changes.\<close>

lemma delete_endpoint_frame:
  assumes "delete_endpoint J flt err_str add rem d eid m = (r, m')"
  shows "mg_endpoints m' = AList.delete eid (mg_endpoints m)"
    "ix_container_name m' = retain_not eid (ix_container_name m)"
    "ix_container_id m' = ix_container_id m" "ix_docker_endpoint m' = ix_docker_endpoint m"
    "ix_ipv4 m' = ix_ipv4 m" "ix_ipv6 m' = ix_ipv6 m" "ix_pod_name m' = ix_pod_name m"
    "mg_ids m' = snd (id_release eid (mg_ids m))"
proof -
  let ?m = "snd (remove_id eid (remove_references eid m))"
  have base: "mg_endpoints ?m = AList.delete eid (mg_endpoints m)"
    "ix_container_name ?m = retain_not eid (ix_container_name m)" "ix_container_id ?m = ix_container_id m"
    "ix_docker_endpoint ?m = ix_docker_endpoint m" "ix_ipv4 ?m = ix_ipv4 m" "ix_ipv6 ?m = ix_ipv6 m"
    "ix_pod_name ?m = ix_pod_name m" "mg_ids ?m = mg_ids m"
    by (simp_all add: remove_id_def remove_references_def)
  have "\<exists>s l. m' = ?m\<lparr>mg_fs := s, mg_loader := l, mg_ids := snd (id_release eid (mg_ids ?m))\<rparr>"
  proof (cases "map_of (mg_endpoints m) eid")
    case None
    then have "m' = ?m\<lparr>mg_ids := snd (id_release eid (mg_ids ?m))\<rparr>"
      using assms by (simp add: delete_endpoint_def remove_id_def)
    then have "m' = ?m\<lparr>mg_fs := mg_fs ?m, mg_loader := mg_loader ?m, mg_ids := snd (id_release eid (mg_ids ?m))\<rparr>" by simp
    then show ?thesis by blast
  next
    case (Some h)
    obtain r1 h1 m1 where w: "wait_for_shutdown J flt err_str add d h ?m = (r1, h1, m1)" by (metis prod_cases3)
    obtain r2 l2 where rm: "rem (Container (es_persist (h_status h1))) (mg_loader m1) = (r2, l2)" by fastforce
    obtain s1 l1 where m1: "m1 = ?m\<lparr>mg_fs := s1, mg_loader := l1\<rparr>"
      using wait_for_shutdown_frame(1) [OF w] by blast
    have "m' = m1\<lparr>mg_loader := (if h_is_host h1 then mg_loader m1 else l2), mg_ids := snd (id_release eid (mg_ids m1))\<rparr>"
      using assms Some w rm by (auto simp: delete_endpoint_def remove_id_def split: if_splits)
    then have "m' = ?m\<lparr>mg_fs := s1, mg_loader := (if h_is_host h1 then mg_loader m1 else l2),
        mg_ids := snd (id_release eid (mg_ids ?m))\<rparr>"
      unfolding m1 by simp
    then show ?thesis by blast
  qed
  then obtain s l where m': "m' = ?m\<lparr>mg_fs := s, mg_loader := l, mg_ids := snd (id_release eid (mg_ids ?m))\<rparr>" by blast
  show "mg_endpoints m' = AList.delete eid (mg_endpoints m)"
    "ix_container_name m' = retain_not eid (ix_container_name m)"
    "ix_container_id m' = ix_container_id m" "ix_docker_endpoint m' = ix_docker_endpoint m"
    "ix_ipv4 m' = ix_ipv4 m" "ix_ipv6 m' = ix_ipv6 m" "ix_pod_name m' = ix_pod_name m"
    "mg_ids m' = snd (id_release eid (mg_ids m))"
    using base unfolding m' by simp_all
qed

section \<open>The container-name index\<close>

definition index_sound :: "'l manager \<Rightarrow> bool" where
  "index_sound m \<longleftrightarrow> (\<forall>name eid. map_of (ix_container_name m) name = Some eid \<longrightarrow>
     (\<exists>h. map_of (mg_endpoints m) eid = Some h \<and> container_name (ep_spec (es_persist (h_state h))) = Some name))"

datatype mgr_op = MAdd endpoint_persist | MDelete endpoint_id drain | MRegenerate endpoint_id | MRemoveAll

definition manager_step ::
  "json_lib \<Rightarrow> faults \<Rightarrow> (dp_error \<Rightarrow> string) \<Rightarrow> 'l add_fn \<Rightarrow> 'l add_fn \<Rightarrow> mgr_op \<Rightarrow> 'l manager \<Rightarrow> 'l manager" where
  "manager_step J flt err_str add rem x m =
     (case x of
        MAdd p \<Rightarrow> snd (add_endpoint p m)
      | MDelete eid d \<Rightarrow> snd (delete_endpoint J flt err_str add rem d eid m)
      | MRegenerate eid \<Rightarrow>
          (case map_of (mg_endpoints m) eid of None \<Rightarrow> m
           | Some h \<Rightarrow> m\<lparr>mg_endpoints := AList.update eid (h_send h) (mg_endpoints m)\<rparr>)
      | MRemoveAll \<Rightarrow> snd (remove_all m))"

lemma retain_not_Some: "distinct (map fst al) \<Longrightarrow> map_of (retain_not eid al) x = Some e \<longleftrightarrow> map_of al x = Some e \<and> e \<noteq> eid"
  unfolding retain_not_def
  by (induction al) (auto simp: image_iff split: if_splits dest: map_of_SomeD)

lemma distinct_retain: "distinct (map fst al) \<Longrightarrow> distinct (map fst (retain_not eid al))"
  unfolding retain_not_def by (rule distinct_map_filter)

lemma distinct_insert_opt: "distinct (map fst al) \<Longrightarrow> distinct (map fst (insert_opt k v al))"
  by (simp add: insert_opt_def distinct_update split: option.splits)

definition names_ok :: "'l manager \<Rightarrow> bool" where
  "names_ok m \<longleftrightarrow> index_sound m \<and> distinct (map fst (ix_container_name m))"

lemma names_ok_add:
  assumes "names_ok m" shows "names_ok (snd (add_endpoint p m))"
proof (cases "map_of (mg_endpoints m) (ep_id p)")
  case None
  let ?m = "update_references (ep_id p) p (inner_add_endpoint (ep_id p) (endpoint_new p) m)"
  have m: "snd (add_endpoint p m) = ?m" using None by (simp add: add_endpoint_def Let_def)
  have ix: "ix_container_name ?m = insert_opt (container_name (ep_spec p)) (ep_id p) (retain_not (ep_id p) (ix_container_name m))"
    "mg_endpoints ?m = AList.update (ep_id p) (endpoint_new p) (mg_endpoints m)"
    by (simp_all add: update_references_def inner_add_endpoint_def Let_def)
  have d: "distinct (map fst (ix_container_name m))" using assms by (simp add: names_ok_def)
  have "index_sound ?m"
    unfolding index_sound_def ix
  proof (intro allI impI)
    fix name eid
    assume a: "map_of (insert_opt (container_name (ep_spec p)) (ep_id p) (retain_not (ep_id p) (ix_container_name m))) name = Some eid"
    show "\<exists>h. map_of (AList.update (ep_id p) (endpoint_new p) (mg_endpoints m)) eid = Some h \<and>
        container_name (ep_spec (es_persist (h_state h))) = Some name"
    proof (cases "container_name (ep_spec p) = Some name")
      case True
      with a have "eid = ep_id p" by simp
      with True show ?thesis by (simp add: update_conv' endpoint_new_def Let_def)
    next
      case False
      with a have "map_of (ix_container_name m) name = Some eid" "eid \<noteq> ep_id p"
        using retain_not_Some [OF d] by auto
      with assms show ?thesis by (auto simp: names_ok_def index_sound_def update_conv')
    qed
  qed
  with d show ?thesis unfolding m by (simp add: names_ok_def ix distinct_insert_opt distinct_retain)
qed (use assms in \<open>simp add: add_endpoint_def Let_def\<close>)

lemma names_ok_delete:
  assumes "names_ok m" shows "names_ok (snd (delete_endpoint J flt err_str add rem d eid m))"
proof -
  obtain r m' where del: "delete_endpoint J flt err_str add rem d eid m = (r, m')" by fastforce
  note f = delete_endpoint_frame [OF del]
  have dd: "distinct (map fst (ix_container_name m))" using assms by (simp add: names_ok_def)
  have "names_ok m'"
    using assms unfolding names_ok_def index_sound_def f(1,2)
    by (auto simp: retain_not_Some [OF dd] delete_conv' distinct_retain)
  with del show ?thesis by simp
qed

lemma names_ok_step: "names_ok m \<Longrightarrow> names_ok (manager_step J flt err_str add rem x m)"
proof (cases x)
  case (MRegenerate eid)
  assume ok: "names_ok m"
  show ?thesis
  proof (cases "map_of (mg_endpoints m) eid")
    case None
    with ok MRegenerate show ?thesis by (simp add: manager_step_def)
  next
    case (Some h)
    have "index_sound (m\<lparr>mg_endpoints := AList.update eid (h_send h) (mg_endpoints m)\<rparr>)"
      unfolding index_sound_def
    proof (intro allI impI)
      fix name e
      assume "map_of (ix_container_name (m\<lparr>mg_endpoints := AList.update eid (h_send h) (mg_endpoints m)\<rparr>)) name = Some e"
      then have "map_of (ix_container_name m) name = Some e" by simp
      then obtain g where "map_of (mg_endpoints m) e = Some g" "container_name (ep_spec (es_persist (h_state g))) = Some name"
        using ok unfolding names_ok_def index_sound_def by blast
      with Some show "\<exists>g. map_of (mg_endpoints (m\<lparr>mg_endpoints := AList.update eid (h_send h) (mg_endpoints m)\<rparr>)) e = Some g \<and>
          container_name (ep_spec (es_persist (h_state g))) = Some name"
        by (cases "e = eid") (simp_all add: update_conv' h_send_def)
    qed
    with ok Some MRegenerate show ?thesis by (simp add: manager_step_def names_ok_def)
  qed
next
  case MRemoveAll
  then show ?thesis
    by (simp add: manager_step_def remove_all_def inner_remove_all_def names_ok_def index_sound_def)
qed (simp_all add: manager_step_def names_ok_add names_ok_delete)

lemma names_ok_run: "names_ok m \<Longrightarrow> names_ok (fold (manager_step J flt err_str add rem) xs m)"
  by (induction xs arbitrary: m) (simp_all add: names_ok_step)

section \<open>Restoring\<close>

lemma restore_fold_keys:
  assumes "fold (restore_step J flt) xs (m, s) = (m', s')" "distinct (map fst m)"
  shows "distinct (map fst m') \<and> fst ` set m' \<subseteq> fst ` set xs \<union> fst ` set m"
  using assms
proof (induction xs arbitrary: m s)
  case (Cons x xs)
  obtain eid cs where x: "x = (eid, cs)" by fastforce
  obtain r s1 where r: "restore_one J flt eid cs s = (r, s1)" by fastforce
  let ?m = "case r of None \<Rightarrow> m | Some p \<Rightarrow> AList.update eid p m"
  have f: "fold (restore_step J flt) xs (?m, s1) = (m', s')"
    using Cons.prems(1) r by (simp add: x split: option.splits)
  have "distinct (map fst ?m)" using Cons.prems(2) by (simp add: distinct_update split: option.splits)
  from Cons.IH [OF f this] show ?case
    by (cases r) (auto simp: x AList.dom_update)
qed simp

lemma restore_ids_all:
  assumes "distinct (map fst xs)" "fst ` set xs \<subseteq> ids (mg_ids m) \<inter> id_range" "id_inv (mg_ids m)"
    "restore_ids xs m = (ps, m')"
  shows "ps = map snd xs \<and> ids (mg_ids m') = ids (mg_ids m) - fst ` set xs"
  using assms
proof (induction xs arbitrary: m ps m')
  case (Cons x xs)
  obtain eid p where x: "x = (eid, p)" by fastforce
  have eid: "eid \<in> ids (mg_ids m)" "eid \<in> id_range" using Cons.prems(2) x by auto
  let ?m = "m\<lparr>mg_ids := (mg_ids m)\<lparr>ids := ids (mg_ids m) - {eid}\<rparr>\<rparr>"
  have a: "allocate_reuse_id eid m = (Ok (lease_new eid), ?m)"
    using eid by (simp add: allocate_reuse_id_def id_reuse_effect [OF Cons.prems(3)])
  obtain qs m2 where q: "restore_ids xs ?m = (qs, m2)" by fastforce
  have "ps = p # qs" "m' = m2" using Cons.prems(4) a q by (simp_all add: x)
  moreover have "qs = map snd xs \<and> ids (mg_ids m2) = ids (mg_ids ?m) - fst ` set xs"
    by (rule Cons.IH [OF _ _ _ q]) (use Cons.prems x in \<open>auto simp: id_inv_def\<close>)
  ultimately show ?case using x by auto
qed simp

section \<open>Properties\<close>

text \<open>C21: a lookup by container name is always sound. After any sequence of additions,
  regenerations, deletions (drained or aborted) and \<open>remove_all\<close>, with any failures of the loader
  and of the file system, a container name that resolves to an id belongs to an existing endpoint
  with that id and that name.\<close>

theorem container_name_lookup_sound:
  assumes "lookup_ep (ContainerName name) (fold (manager_step J flt err_str add rem) xs (manager_new l s)) = Some eid"
  shows "\<exists>h. map_of (mg_endpoints (fold (manager_step J flt err_str add rem) xs (manager_new l s))) eid = Some h \<and>
    container_name (ep_spec (es_persist (h_state h))) = Some name"
proof -
  have "names_ok (manager_new l s)" by (simp add: names_ok_def index_sound_def manager_new_def)
  from names_ok_run [OF this, of J flt err_str add rem xs] assms show ?thesis
    by (simp add: names_ok_def index_sound_def)
qed

definition named_persist :: endpoint_persist where
  "named_persist = sample_persist\<lparr>ep_spec := sample_spec\<lparr>container_name := Some ''web'', docker_endpoint := Some ''d1''\<rparr>\<rparr>"

theorem container_name_lookup_sound_witness:
  "\<exists>h. map_of (mg_endpoints (fold (manager_step sample_json no_faults (\<lambda>_. []) (\<lambda>_ l. (Ok (), l)) (\<lambda>_ l. (Ok (), l)))
     [MAdd named_persist] (manager_new () no_entries))) 7 = Some h \<and>
     container_name (ep_spec (es_persist (h_state h))) = Some ''web''"
  by (rule container_name_lookup_sound)
    (simp add: manager_step_def add_endpoint_def manager_new_def Let_def update_references_def inner_add_endpoint_def
      named_persist_def sample_persist_def)

text \<open>Adding an endpoint makes it reachable under its id and every name it has, except that the
  docker-endpoint index is filled from the container id: a docker endpoint resolves through the
  container id, and the endpoint's own docker-endpoint name stays unresolved on a fresh manager
  when it differs.\<close>

lemma add_endpoint_lookups:
  assumes "map_of (mg_endpoints m) (ep_id p) = None" "add_endpoint p m = (r, m')"
  shows "is_ok r \<and> endpoint_exists (ep_id p) m' \<and>
    (\<forall>x. container_name (ep_spec p) = Some x \<longrightarrow> lookup_ep (ContainerName x) m' = Some (ep_id p)) \<and>
    (\<forall>x. container_id (ep_spec p) = Some x \<longrightarrow> lookup_ep (ContainerId x) m' = Some (ep_id p)) \<and>
    (\<forall>x. k8s_ns_and_pod_name (ep_spec p) = Some x \<longrightarrow> lookup_ep (PodName x) m' = Some (ep_id p)) \<and>
    (\<forall>ip \<in> set (ips (ep_spec p)). lookup_ip ip m' = Some (ep_id p)) \<and>
    (\<forall>x. container_id (ep_spec p) = Some x \<longrightarrow> lookup_ep (DockerEndpoint x) m' = Some (ep_id p)) \<and>
    (\<forall>x. container_id (ep_spec p) \<noteq> Some x \<longrightarrow> lookup_ep (DockerEndpoint x) m' = lookup_ep (DockerEndpoint x) m)"
  using assms
  by (auto simp: add_endpoint_def Let_def update_references_def inner_add_endpoint_def endpoint_exists_def update_conv'
      lookup_ip_def ips_def split: option.splits)

lemma add_endpoint_lookups_witness:
  "lookup_ep (DockerEndpoint ''d1'') (snd (add_endpoint named_persist (manager_new () no_entries))) = None"
proof -
  have "map_of (mg_endpoints (manager_new () no_entries)) (ep_id named_persist) = None" by (simp add: manager_new_def)
  from add_endpoint_lookups [OF this prod.collapse [symmetric]] show ?thesis
    by (simp add: named_persist_def sample_spec_def manager_new_def)
qed

text \<open>Deleting an endpoint removes it and its container name and returns its id to the
  allocator, but leaves the other indexes as they are: its container id, addresses and pod name
  still resolve to the id, which may meanwhile belong to another endpoint.\<close>

lemma delete_endpoint_leaves_stale_names:
  assumes "id_inv (mg_ids m)" "delete_endpoint J flt err_str add rem d eid m = (r, m')"
  shows "\<not> endpoint_exists eid m' \<and> lookup_ep (ContainerName x) m' \<noteq> Some eid \<and> eid \<in> ids (mg_ids m') \<and>
    lookup_ep (ContainerId x) m' = lookup_ep (ContainerId x) m \<and> lookup_ip ip m' = lookup_ip ip m \<and>
    lookup_ep (PodName x) m' = lookup_ep (PodName x) m"
  using delete_endpoint_frame [OF assms(2)] retain_not_value [of eid "ix_container_name m" x]
  by (simp add: endpoint_exists_def delete_conv' lookup_ip_def id_release_effect [OF assms(1)] split: ip_addr.splits)

lemma delete_endpoint_leaves_stale_names_witness:
  "lookup_ep (ContainerId ''c1'') (snd (delete_endpoint sample_json no_faults (\<lambda>_. []) (\<lambda>_ l. (Ok (), l)) (\<lambda>_ l. (Ok (), l))
     Drained 7 (snd (add_endpoint named_persist (manager_new () no_entries))))) = Some 7"
proof -
  let ?m = "snd (add_endpoint named_persist (manager_new () no_entries))"
  have inv: "id_inv (mg_ids ?m)"
    by (simp add: add_endpoint_def Let_def manager_new_def inner_add_endpoint_def id_new_inv)
  have "lookup_ep (ContainerId ''c1'') ?m = Some 7"
    by (simp add: add_endpoint_def Let_def manager_new_def update_references_def inner_add_endpoint_def named_persist_def
        sample_persist_def sample_spec_def)
  then show ?thesis
    using delete_endpoint_leaves_stale_names [OF inv prod.collapse [symmetric]] by simp
qed

text \<open>A restart restores every endpoint whose state can be read, and takes its id out of the
  allocator, so no id of a restored endpoint is given to a new one.\<close>

lemma restore_keeps_ids:
  assumes "listing_ok entries s" "lst l = Ok x"
    "restore_old_endpoints J no_faults (Ok entries) (Ok ()) lst (manager_new l s) = (r, m')"
    "eid \<in> id_range" "restored J s eid = Some p"
  shows "\<exists>ps. r = Ok (ps, []) \<and> p \<in> set ps \<and> eid \<notin> ids (mg_ids m')"
proof -
  let ?xs = "collect_endpoint_dirs entries"
  obtain m s' where f: "fold (restore_step J no_faults) ?xs ([], s) = (m, s')" by fastforce
  have pre: "\<forall>(eid, cs) \<in> set ?xs. eid \<in> id_range \<and> candidates_of eid s cs"
    using collect_candidates [OF assms(1)] by blast
  have rd: "read_endpoints J no_faults (Ok entries) s = (Ok m, s')" using f by (simp add: read_endpoints_def)
  have "distinct (map fst m)" "fst ` set m \<subseteq> id_range"
    using restore_fold_keys [OF f] pre by force+
  moreover have "map_of m eid = Some p"
    using read_endpoints_restores_map [OF assms(1,4), of J] rd assms(5) by simp
  then have mem: "(eid, p) \<in> set m" by (rule map_of_SomeD)
  obtain ps m2 where q: "restore_ids m ((manager_new l s)\<lparr>mg_fs := s'\<rparr>) = (ps, m2)" by fastforce
  ultimately have "ps = map snd m \<and> ids (mg_ids m2) = ids (mg_ids ((manager_new l s)\<lparr>mg_fs := s'\<rparr>)) - fst ` set m"
    by (intro restore_ids_all [OF _ _ _ q]) (auto simp: manager_new_def id_new_inv)
  moreover have "m \<noteq> []" using mem by auto
  then have "r = Ok (ps, [])" "m' = m2"
    using assms(2,3) rd q by (auto simp: restore_old_endpoints_def Let_def manager_new_def)
  ultimately show ?thesis using mem by force
qed

lemma restore_keeps_ids_witness:
  "\<exists>ps. fst (restore_old_endpoints sample_json no_faults (Ok [(''7_next'', True)]) (Ok ()) (\<lambda>_. Ok [])
      (manager_new () one_entry)) = Ok (ps, []) \<and> sample_persist \<in> set ps"
proof -
  have ok: "listing_ok [(''7_next'', True)] one_entry"
    by (auto simp: listing_ok_def one_entry_def no_entries_def)
  have "restored sample_json one_entry 7 = Some sample_persist"
    by (simp add: restored_def all_kinds_def readable_def one_entry_def no_entries_def path_defs id_str_7 sample_json_def sample_persist_def)
  then show ?thesis
    using restore_keeps_ids [OF ok, of "\<lambda>_. Ok []" "()" "[]" sample_json, OF _ prod.collapse [symmetric], of 7 sample_persist]
    by (auto simp: id_range_def MIN_ID_def MAX_ID_def)
qed

end
