(* ===== verification/Interface_Address.thy ===== *)
theory Interface_Address
  imports Ip_Parse "HOL-Library.Multiset"
begin

text \<open>
  Interface addresses and routes: \<open>sarena-infra/src/address.rs\<close>, \<open>route.rs\<close> and the error type of
  \<open>lib.rs\<close>, with the route tables of \<open>sarena-cni-plugin/src/ipam.rs\<close> and the interface names of
  \<open>names.rs\<close>. \<open>IpNet\<close>'s parser is the argument \<open>P\<close>; \<open>net_parse_docs\<close> states what its documentation
  promises: the printed form of a network is read back, and a text without a slash is none. A prefix
  length is a natural number. A panic is \<open>None\<close>.
\<close>

section \<open>Parsing addresses and networks\<close>

text \<open>\<open>FromStr\<close> of \<open>IpAddr\<close>: IPv4 first, and what is left over is not tried as IPv6.\<close>

definition parse_ip :: "string \<Rightarrow> ip_addr option" where
  "parse_ip s =
     (case read_ipv4_addr s of
        Some (os, rest) \<Rightarrow> if rest = [] then Some (V4 (from_be os)) else None
      | None \<Rightarrow> (case read_ipv6_addr s of Some (w, []) \<Rightarrow> Some (V6 w) | _ \<Rightarrow> None))"

definition net_str :: "ip_net \<Rightarrow> string" where
  "net_str n = ip_str (net_addr n) @ ''/'' @ dec_str (prefix_len n)"

definition net_parse_docs :: "(string \<Rightarrow> ip_net option) \<Rightarrow> bool" where
  "net_parse_docs P \<longleftrightarrow> (\<forall>n. net_wf n \<longrightarrow> P (net_str n) = Some n) \<and> (\<forall>s. CHR ''/'' \<notin> set s \<longrightarrow> P s = None)"

fun net_of :: "ip_addr \<Rightarrow> nat \<Rightarrow> ip_net" where
  "net_of (V4 a) p = NetV4 a p"
| "net_of (V6 a) p = NetV6 a p"

fun ip_bits :: "ip_addr \<Rightarrow> nat" where
  "ip_bits (V4 _) = 32"
| "ip_bits (V6 _) = 128"

text \<open>A parser that keeps the documented behaviour.\<close>

definition ref_net_parse :: "string \<Rightarrow> ip_net option" where
  "ref_net_parse s =
     (case split_once CHR ''/'' s of None \<Rightarrow> None
      | Some (a, p) \<Rightarrow>
          (case parse_ip a of None \<Rightarrow> None
           | Some ip \<Rightarrow> map_option (net_of ip) (from_str_radix 10 (ip_bits ip) p)))"

section \<open>Errors\<close>

datatype infra_error =
    InvalidMac nat
  | OpenNamespace string
  | SetNs string
  | RestoreNamespace string
  | RuntimeError string
  | ThreadPanicked
  | SpawnThread string
  | NetlinkError string
  | LinkNotFound string
  | NamespaceExists string
  | NamespaceNotFound string
  | TcxRequiresLocalLink string string
  | CreateNamespace string
  | MountError string
  | UnmountError string
  | FlockError string
  | InfraIo string
  | BpfQuery string int
  | InfraProgramError string
  | LinkError string
  | NotExist string
  | NoLink string
  | PinError string
  | InvalidRoute string
  | PrefixLenError nat nat
  | InterfaceAddressParseError string

section \<open>Interface addresses\<close>

datatype address_family = FamV4 | FamV6

fun family_matches :: "address_family \<Rightarrow> ip_addr \<Rightarrow> bool" where
  "family_matches FamV4 (V4 _) = True"
| "family_matches FamV6 (V6 _) = True"
| "family_matches FamV4 (V6 _) = False"
| "family_matches FamV6 (V4 _) = False"

record interface_address =
  ia_ip :: ip_addr
  ia_prefix_len :: nat

definition ia_new :: "ip_addr \<Rightarrow> nat \<Rightarrow> (interface_address, infra_error) result" where
  "ia_new ip p =
     (let mx = ip_bits ip in if mx < p then Err (PrefixLenError p mx) else Ok \<lparr>ia_ip = ip, ia_prefix_len = p\<rparr>)"

definition to_ip_net :: "interface_address \<Rightarrow> ip_net option" where
  "to_ip_net a = (if ia_prefix_len a \<le> ip_bits (ia_ip a) then Some (net_of (ia_ip a) (ia_prefix_len a)) else None)"

definition ia_from_net :: "ip_net \<Rightarrow> interface_address" where
  "ia_from_net n = \<lparr>ia_ip = net_addr n, ia_prefix_len = prefix_len n\<rparr>"

definition ia_from_str :: "(string \<Rightarrow> ip_net option) \<Rightarrow> string \<Rightarrow> (interface_address, infra_error) result" where
  "ia_from_str P s =
     (case P s of
        Some prefix \<Rightarrow> ia_new (net_addr prefix) (prefix_len prefix)
      | None \<Rightarrow>
          (case parse_ip s of
             None \<Rightarrow> Err (InterfaceAddressParseError ''invalid IP address syntax'')
           | Some addr \<Rightarrow> ia_new addr (case addr of V4 _ \<Rightarrow> 32 | V6 _ \<Rightarrow> 128)))"

definition ia_str :: "interface_address \<Rightarrow> string" where
  "ia_str a = ip_str (ia_ip a) @ ''/'' @ dec_str (ia_prefix_len a)"

section \<open>Routes\<close>

text \<open>The protocol, scope and type of a route are netlink numbers.\<close>

record ip_route =
  ro_prefix :: ip_net
  ro_nexthop :: "ip_addr option"
  ro_local :: "ip_addr option"
  ro_device :: "string option"
  ro_mtu :: "u32 option"
  ro_priority :: "u32 option"
  ro_proto :: "nat option"
  ro_scope :: "nat option"
  ro_table :: "u32 option"
  ro_kind :: "nat option"

definition route_default :: ip_route where
  "route_default = \<lparr>ro_prefix = NetV4 0 0, ro_nexthop = None, ro_local = None, ro_device = None, ro_mtu = None,
     ro_priority = None, ro_proto = None, ro_scope = None, ro_table = None, ro_kind = None\<rparr>"

definition sort_by_mask_narrowest_first :: "ip_route list \<Rightarrow> ip_route list" where
  "sort_by_mask_narrowest_first rs = sort_key (\<lambda>r. - int (prefix_len (ro_prefix r))) rs"

definition ipv4_routes :: "u32 \<Rightarrow> u32 \<Rightarrow> ip_route list" where
  "ipv4_routes ip mtu = [route_default\<lparr>ro_prefix := NetV4 ip 32\<rparr>,
     route_default\<lparr>ro_prefix := NetV4 0 0, ro_nexthop := Some (V4 ip), ro_mtu := Some mtu\<rparr>]"

definition ipv6_routes :: "u128 \<Rightarrow> u32 \<Rightarrow> ip_route list" where
  "ipv6_routes ip mtu = [route_default\<lparr>ro_prefix := NetV6 ip 128\<rparr>,
     route_default\<lparr>ro_prefix := NetV6 0 0, ro_nexthop := Some (V6 ip), ro_mtu := Some mtu\<rparr>]"

section \<open>Interface names\<close>

definition IFNAMSIZ :: nat where
  "IFNAMSIZ = 16"

text \<open>A string is its UTF-8 bytes; a byte starts a character unless its top bits are 10.\<close>

definition is_char_boundary :: "string \<Rightarrow> nat \<Rightarrow> bool" where
  "is_char_boundary s i \<longleftrightarrow> i = 0 \<or> i = length s \<or>
     (i < length s \<and> (of_char (s ! i) :: nat) div 64 \<noteq> 2)"

fun boundary_down :: "string \<Rightarrow> nat \<Rightarrow> nat" where
  "boundary_down s 0 = 0"
| "boundary_down s (Suc n) = (if is_char_boundary s (Suc n) then Suc n else boundary_down s n)"

definition truncate_str :: "string \<Rightarrow> nat \<Rightarrow> string" where
  "truncate_str s mx = (if length s \<le> mx then s else take (boundary_down s mx) s)"

text \<open>\<open>sha\<close> is the hexadecimal SHA-256 of the id.\<close>

definition endpoint_to_ifname :: "(string \<Rightarrow> string) \<Rightarrow> string \<Rightarrow> string" where
  "endpoint_to_ifname sha eid = ''lxc'' @ truncate_str (sha eid) (IFNAMSIZ - length ''tmp'' - 1)"

definition endpoint_to_temp_ifname :: "string \<Rightarrow> string" where
  "endpoint_to_temp_ifname eid = ''tmp'' @ truncate_str eid 5"

section \<open>Lemmas\<close>

lemma boundary_down_le: "boundary_down s n \<le> n"
  by (induction n) auto

lemma truncate_str_length: "length (truncate_str s n) \<le> n"
  using boundary_down_le [of s n] by (auto simp: truncate_str_def)

text \<open>Both interface names fit into the kernel's limit with its terminating zero.\<close>

lemma ifnames_fit:
  "length (endpoint_to_ifname sha eid) < IFNAMSIZ" "length (endpoint_to_temp_ifname eid) < IFNAMSIZ"
  using truncate_str_length [of "sha eid" 12] truncate_str_length [of eid 5]
  by (simp_all add: endpoint_to_ifname_def endpoint_to_temp_ifname_def IFNAMSIZ_def)

lemma read_ipv4_dot:
  assumes "read_ipv4_addr s = Some (os, rest)" shows "CHR ''.'' \<in> set s \<and> s \<noteq> [] \<and> hd s \<noteq> CHR '':''"
proof -
  obtain v s1 where n: "read_number 10 3 False 255 s = Some (v, s1)" "read_given_char CHR ''.'' s1 \<noteq> None"
    using assms by (auto simp: read_ipv4_addr_def four_Suc read_separator_def split: option.splits)
  have "s1 = dropWhile (\<lambda>x. char_digit 10 x \<noteq> None) s" using read_number_rest [OF n(1)] .
  then have "set s1 \<subseteq> set s" by (auto dest: set_dropWhileD)
  moreover have "s1 \<noteq> [] \<and> hd s1 = CHR ''.''" using n(2) by (cases s1) (auto split: if_splits)
  ultimately have d: "CHR ''.'' \<in> set s" by (metis hd_in_set subsetD)
  have "s \<noteq> [] \<and> hd s \<noteq> CHR '':''"
  proof (rule ccontr)
    assume "\<not> ?thesis"
    then have "s = [] \<or> (\<exists>xs. s = CHR '':'' # xs)" by (cases s) auto
    then show False using n(1) d by (auto simp: read_number_def char_digit_def)
  qed
  with d show ?thesis by simp
qed

lemma parse_ip_str: "parse_ip (ip_str a) = Some a"
proof (cases a)
  case (V4 w)
  then show ?thesis
    by (simp add: parse_ip_def read_ipv4_printed v4_octets_be from_be_be_bytes)
next
  case (V6 w)
  have "read_ipv4_addr (v6_str w) = None"
  proof (rule ccontr)
    assume "read_ipv4_addr (v6_str w) \<noteq> None"
    then obtain os rest where "read_ipv4_addr (v6_str w) = Some (os, rest)" by auto
    from read_ipv4_dot [OF this] have d: "CHR ''.'' \<in> set (v6_str w)" "hd (v6_str w) \<noteq> CHR '':''" by auto
    then obtain v where "v4_mapped w = Some v" using v6_str_dot by blast
    then show False using d(2) by (simp add: v6_str_def)
  qed
  moreover have "read_ipv6_addr (v6_str w) = Some (w, [])"
    using parse_v6_str [of w] by (auto simp: parse_v6_def split: option.splits list.splits prod.splits)
  ultimately show ?thesis using V6 by (simp add: parse_ip_def)
qed

lemma segs_str_no_slash: "CHR ''/'' \<notin> set (segs_str gs)"
  using set_join_with [of "'':''" "map (\<lambda>s. hex_str (unat s)) gs"] by (auto simp: segs_str_def radix_str_no_punct)

lemma v4_str_no_slash: "CHR ''/'' \<notin> set (v4_str w)"
  by (auto simp: v4_str_def v4_octets_def radix_str_no_punct)

lemma ip_str_no_slash: "CHR ''/'' \<notin> set (ip_str a)"
proof (cases a)
  case (V6 w)
  then show ?thesis by (cases w rule: v6_str_cases) (auto simp: segs_str_no_slash v4_str_no_slash)
qed (simp add: v4_str_no_slash)

lemma net_of_addr [simp]: "net_of (net_addr n) (prefix_len n) = n" "net_addr (net_of ip p) = ip" "prefix_len (net_of ip p) = p"
  by (cases n; simp) (cases ip; simp)+

lemma net_wf_of [simp]: "net_wf (net_of ip p) \<longleftrightarrow> p \<le> ip_bits ip"
  by (cases ip) (simp_all add: net_wf_def)

lemma ref_net_parse_docs: "net_parse_docs ref_net_parse"
proof -
  have "ref_net_parse (net_str n) = Some n" if "net_wf n" for n
  proof -
    have p: "prefix_len n \<le> ip_bits (net_addr n)" using that net_wf_of [of "net_addr n" "prefix_len n"] by simp
    have s: "split_once CHR ''/'' (net_str n) = Some (ip_str (net_addr n), dec_str (prefix_len n))"
      using split_once_append [OF ip_str_no_slash] by (simp add: net_str_def)
    show ?thesis using from_str_radix_radix_str [of 10 "prefix_len n", OF _ _ p] by (simp add: ref_net_parse_def s parse_ip_str)
  qed
  moreover have "ref_net_parse s = None" if "CHR ''/'' \<notin> set s" for s
    using that split_once_None [of "CHR ''/''" s] by (simp add: ref_net_parse_def)
  ultimately show ?thesis by (simp add: net_parse_docs_def)
qed

definition ia_wf :: "interface_address \<Rightarrow> bool" where
  "ia_wf a \<longleftrightarrow> ia_prefix_len a \<le> ip_bits (ia_ip a)"

lemma ia_str_net: "ia_str a = net_str (net_of (ia_ip a) (ia_prefix_len a))"
  by (simp add: ia_str_def net_str_def)

lemma ia_roundtrip: "net_parse_docs P \<Longrightarrow> ia_wf a \<Longrightarrow> ia_from_str P (ia_str a) = Ok a"
  by (simp add: ia_from_str_def ia_str_net net_parse_docs_def ia_wf_def ia_new_def)

text \<open>An address without a prefix length is a host address.\<close>

lemma ia_from_ip_str:
  assumes "net_parse_docs P"
  shows "ia_from_str P (ip_str a) = Ok \<lparr>ia_ip = a, ia_prefix_len = ip_bits a\<rparr>"
proof -
  have "P (ip_str a) = None" using assms ip_str_no_slash by (simp add: net_parse_docs_def)
  then show ?thesis by (cases a) (simp_all add: ia_from_str_def parse_ip_str ia_new_def del: ip_str.simps)
qed

lemma ia_from_str_wf: "ia_from_str P s = Ok a \<Longrightarrow> ia_wf a"
  by (auto simp: ia_from_str_def ia_new_def ia_wf_def Let_def split: option.splits if_splits)

lemma to_ip_net_wf: "ia_wf a \<Longrightarrow> \<exists>n. to_ip_net a = Some n \<and> ia_from_net n = a"
  by (simp add: to_ip_net_def ia_wf_def ia_from_net_def)

text \<open>Sorting keeps the routes, orders them by falling prefix length and keeps equal ones in order.\<close>

lemma sort_routes:
  "mset (sort_by_mask_narrowest_first rs) = mset rs"
  "sorted_wrt (\<lambda>a b. prefix_len (ro_prefix b) \<le> prefix_len (ro_prefix a)) (sort_by_mask_narrowest_first rs)"
  "filter (\<lambda>r. prefix_len (ro_prefix r) = k) (sort_by_mask_narrowest_first rs) = filter (\<lambda>r. prefix_len (ro_prefix r) = k) rs"
proof -
  have "sorted (map (\<lambda>r. - int (prefix_len (ro_prefix r))) (sort_by_mask_narrowest_first rs))"
    by (simp add: sort_by_mask_narrowest_first_def)
  then show "sorted_wrt (\<lambda>a b. prefix_len (ro_prefix b) \<le> prefix_len (ro_prefix a)) (sort_by_mask_narrowest_first rs)"
    unfolding sorted_map by simp
  show "filter (\<lambda>r. prefix_len (ro_prefix r) = k) (sort_by_mask_narrowest_first rs) = filter (\<lambda>r. prefix_len (ro_prefix r) = k) rs"
    using sort_key_stable [of "\<lambda>r. - int (prefix_len (ro_prefix r))" "- int k" rs] by (simp add: sort_by_mask_narrowest_first_def)
qed (simp add: sort_by_mask_narrowest_first_def)

end
