(* ===== verification/Endpoint_Service.thy ===== *)
theory Endpoint_Service
  imports Endpoint_Manager Interface_Address
begin

text \<open>
  The endpoint service of the daemon, \<open>sarena-services/src/endpoint/service.rs\<close>, over the endpoint
  manager: \<open>create\<close>, \<open>delete\<close> and \<open>health\<close>. A panic (\<open>expect\<close> on a MAC address) is \<open>None\<close>, with the state
  it leaves. \<open>service_create\<close> is a call that no other call interrupts; the sections in which \<open>create\<close> takes
  the locks, and their interleavings, are in \<open>Endpoint_Concurrent\<close>.
\<close>

record addressing =
  ad_ip :: string
  ad_pool :: "string option"

record endpoint_create_request =
  rq_container_id :: string
  rq_container_mac :: string
  rq_container_iface_name :: string
  rq_host_mac :: string
  rq_host_iface_name :: string
  rq_host_iface_index :: u32
  rq_k8s_namespace :: string
  rq_k8s_pod_name :: string
  rq_k8s_uid :: string
  rq_ipv4 :: "addressing option"
  rq_ipv6 :: "addressing option"

datatype endpoint_error = GenericError string | EpDataPlaneError dp_error

datatype endpoint_health_status = HealthOk | HealthFailure

definition parse_addr :: "(string \<Rightarrow> ip_net option) \<Rightarrow> string \<Rightarrow> (ip_addr, endpoint_error) result" where
  "parse_addr P s =
     (case P s of
        Some n \<Rightarrow> Ok (net_addr n)
      | None \<Rightarrow>
          (case parse_ip s of
             Some a \<Rightarrow> Ok a
           | None \<Rightarrow> Err (GenericError (''error parsing ip address '' @ s @ '': invalid IP address syntax''))))"

definition parse_ipv4_addr :: "(string \<Rightarrow> ip_net option) \<Rightarrow> addressing option \<Rightarrow> (u32 option, endpoint_error) result" where
  "parse_ipv4_addr P addr =
     (case addr of None \<Rightarrow> Ok None
      | Some a \<Rightarrow>
          (case parse_addr P (ad_ip a) of
             Err e \<Rightarrow> Err e
           | Ok (V4 ip) \<Rightarrow> Ok (Some ip)
           | Ok (V6 _) \<Rightarrow> Err (GenericError ''error parsing ipv4 address'')))"

definition parse_ipv6_addr :: "(string \<Rightarrow> ip_net option) \<Rightarrow> addressing option \<Rightarrow> (u128 option, endpoint_error) result" where
  "parse_ipv6_addr P addr =
     (case addr of None \<Rightarrow> Ok None
      | Some a \<Rightarrow>
          (case parse_addr P (ad_ip a) of
             Err e \<Rightarrow> Err e
           | Ok (V4 _) \<Rightarrow> Err (GenericError ''error parsing ipv6 address'')
           | Ok (V6 ip) \<Rightarrow> Ok (Some ip)))"

definition request_spec :: "endpoint_create_request \<Rightarrow> mac_address \<Rightarrow> mac_address \<Rightarrow> u32 option \<Rightarrow> u128 option \<Rightarrow> endpoint_spec" where
  "request_spec req hm cm v4 v6 =
     \<lparr>container_name = None, container_id = Some (rq_container_id req), docker_network_id = None, docker_endpoint = None,
      host_iface_name = rq_host_iface_name req, host_iface_index = rq_host_iface_index req, container_mac = cm, host_mac = hm,
      ep_ipv4 = v4, ep_ipv6 = v6, k8s_ns = Some (rq_k8s_namespace req), k8s_pod_name = Some (rq_k8s_pod_name req)\<rparr>"

text \<open>\<open>ep.regenerate().await\<close>: the worker handles what is queued before the command, then the command,
  whose result is the reply.\<close>

definition regenerate_and_wait ::
  "json_lib \<Rightarrow> faults \<Rightarrow> (dp_error \<Rightarrow> string) \<Rightarrow> 'l add_fn \<Rightarrow> endpoint_id \<Rightarrow> 'l manager \<Rightarrow> (unit, dp_error) result \<times> 'l manager" where
  "regenerate_and_wait J flt err_str add eid m =
     (case map_of (mg_endpoints m) eid of
        None \<Rightarrow> (Err (ActorGone), m)
      | Some h \<Rightarrow>
          (case worker_run J flt err_str add (h_queue h + 1)
                  \<lparr>wk_state = h_state h, wk_fs = mg_fs m, wk_loader = mg_loader m, wk_status = h_status h\<rparr> of (rs, w) \<Rightarrow>
             (last rs,
              m\<lparr>mg_endpoints := AList.update eid
                   \<lparr>h_state = wk_state w, h_is_host = h_is_host h, h_status = wk_status w, h_queue = 0\<rparr> (mg_endpoints m),
                mg_fs := wk_fs w, mg_loader := wk_loader w\<rparr>)))"

definition in_use :: "('a \<Rightarrow> 'l manager \<Rightarrow> endpoint_id option) \<Rightarrow> 'a option \<Rightarrow> 'l manager \<Rightarrow> bool" where
  "in_use lookup x m = (case x of None \<Rightarrow> False | Some ip \<Rightarrow> lookup ip m \<noteq> None)"

text \<open>From the lease to the regeneration.\<close>

definition create_endpoint ::
  "json_lib \<Rightarrow> faults \<Rightarrow> (dp_error \<Rightarrow> string) \<Rightarrow> 'l add_fn \<Rightarrow> (endpoint_id set \<Rightarrow> endpoint_id) \<Rightarrow>
     endpoint_spec \<Rightarrow> 'l manager \<Rightarrow> (unit, endpoint_error) result \<times> 'l manager" where
  "create_endpoint J flt err_str add pick sp m =
     (case allocate_new_id pick m of
        (Err e, m) \<Rightarrow> (Err (EpDataPlaneError e), m)
      | (Ok lease, m) \<Rightarrow>
          (case add_endpoint \<lparr>ep_id = the lease, ep_spec = sp\<rparr> m of
             (Err e, m) \<Rightarrow> (Err (EpDataPlaneError e), m\<lparr>mg_ids := lease_drop lease (mg_ids m)\<rparr>)
           | (Ok _, m) \<Rightarrow>
               (case regenerate_and_wait J flt err_str add (the lease) m of
                  (Err e, m) \<Rightarrow> (Err (EpDataPlaneError e), m)
                | (Ok _, m) \<Rightarrow> (Ok (), m))))"

definition service_create ::
  "json_lib \<Rightarrow> faults \<Rightarrow> (dp_error \<Rightarrow> string) \<Rightarrow> 'l add_fn \<Rightarrow> (endpoint_id set \<Rightarrow> endpoint_id) \<Rightarrow> (string \<Rightarrow> ip_net option) \<Rightarrow>
     string \<Rightarrow> endpoint_create_request \<Rightarrow> 'l manager \<Rightarrow> (unit, endpoint_error) result option \<times> 'l manager" where
  "service_create J flt err_str add pick P attachment req m =
     (if lookup_container_id (rq_container_id req) m \<noteq> None
      then (Some (Err (GenericError (''endpoint for container '' @ rq_container_id req @ '' already exists''))), m)
      else case parse_ipv4_addr P (rq_ipv4 req) of Err e \<Rightarrow> (Some (Err e), m)
      | Ok v4 \<Rightarrow>
          (case parse_ipv6_addr P (rq_ipv6 req) of Err e \<Rightarrow> (Some (Err e), m)
           | Ok v6 \<Rightarrow>
               if in_use lookup_ipv4 v4 m
               then (Some (Err (GenericError (''Ipv4 '' @ v4_str (the v4) @ '' is already in use''))), m)
               else if in_use lookup_ipv6 v6 m
               then (Some (Err (GenericError (''Ipv6 '' @ v6_str (the v6) @ '' is already in use''))), m)
               else (case mac_parse (rq_host_mac req) of None \<Rightarrow> (None, m)
                     | Some hm \<Rightarrow>
                         (case mac_parse (rq_container_mac req) of None \<Rightarrow> (None, m)
                          | Some cm \<Rightarrow>
                              (case create_endpoint J flt err_str add pick (request_spec req hm cm v4 v6) m of
                                 (r, m) \<Rightarrow> (Some r, m))))))"

text \<open>\<open>delete\<close> only logs, \<open>health\<close> is always fine.\<close>

definition service_delete :: "string \<Rightarrow> 'l manager \<Rightarrow> (unit, endpoint_error) result \<times> 'l manager" where
  "service_delete attachment m = (Ok (), m)"

definition service_health :: "string \<Rightarrow> 'l manager \<Rightarrow> (endpoint_health_status, endpoint_error) result" where
  "service_health attachment m = Ok HealthOk"

section \<open>The effect of a creation\<close>

definition persisted :: "'l manager \<Rightarrow> endpoint_id \<Rightarrow> endpoint_persist option" where
  "persisted m eid = map_option (es_persist \<circ> h_state) (map_of (mg_endpoints m) eid)"

text \<open>Every endpoint is found under its container id and addresses, and holds an id that is not free.\<close>

definition indexed :: "'l manager \<Rightarrow> bool" where
  "indexed m \<longleftrightarrow> id_inv (mg_ids m) \<and>
     (\<forall>eid p. persisted m eid = Some p \<longrightarrow>
        ep_id p = eid \<and> eid \<notin> ids (mg_ids m) \<and>
        (\<forall>c. container_id (ep_spec p) = Some c \<longrightarrow> lookup_container_id c m = Some eid) \<and>
        (\<forall>a. ep_ipv4 (ep_spec p) = Some a \<longrightarrow> lookup_ipv4 a m = Some eid) \<and>
        (\<forall>a. ep_ipv6 (ep_spec p) = Some a \<longrightarrow> lookup_ipv6 a m = Some eid))"

lemma regenerate_commit_persist:
  "es_persist (wk_state (snd (regenerate_commit J flt err_str add w))) = es_persist (wk_state w)"
proof -
  obtain r b where b: "regenerate_bpf J flt add w = (r, b)" by fastforce
  then have "wk_state b = wk_state w" using regenerate_bpf_dirs(2) [of J flt add w] by simp
  then show ?thesis
    by (cases r) (simp_all add: regenerate_commit_def Let_def b then_do_snd split: result.splits)
qed

lemma regenerate_persist: "es_persist (wk_state (snd (regenerate J flt err_str add w))) = es_persist (wk_state w)"
  by (simp add: regenerate_def Let_def then_do_snd publish_def regenerate_commit_persist split: result.splits)

lemma worker_run_persist: "es_persist (wk_state (snd (worker_run J flt err_str add n w))) = es_persist (wk_state w)"
proof (induction n arbitrary: w)
  case (Suc n)
  show ?case using Suc.IH regenerate_persist [of J flt err_str add w]
    by (simp split: prod.splits) (metis snd_conv)
qed simp

text \<open>A regeneration changes nothing but the endpoint's own progress, the file system and the loader.\<close>

lemma regenerate_and_wait_frame:
  assumes "regenerate_and_wait J flt err_str add eid m = (r, m')"
  shows "mg_ids m' = mg_ids m \<and> ix_container_id m' = ix_container_id m \<and> ix_ipv4 m' = ix_ipv4 m \<and> ix_ipv6 m' = ix_ipv6 m \<and>
    ix_pod_name m' = ix_pod_name m \<and>
    (\<forall>x. map_option (es_persist \<circ> h_state) (map_of (mg_endpoints m') x) = map_option (es_persist \<circ> h_state) (map_of (mg_endpoints m) x))"
proof (cases "map_of (mg_endpoints m) eid")
  case (Some h)
  let ?w = "\<lparr>wk_state = h_state h, wk_fs = mg_fs m, wk_loader = mg_loader m, wk_status = h_status h\<rparr>"
  obtain rs w where w: "worker_run J flt err_str add (h_queue h + 1) ?w = (rs, w)" by fastforce
  have "es_persist (wk_state w) = es_persist (h_state h)"
    using worker_run_persist [of J flt err_str add "h_queue h + 1" ?w] w by simp
  then show ?thesis using assms Some w by (auto simp: regenerate_and_wait_def update_conv')
qed (use assms in \<open>simp add: regenerate_and_wait_def\<close>)

lemma persisted_ids [simp]: "persisted (m\<lparr>mg_ids := c\<rparr>) = persisted m"
  by (simp add: persisted_def fun_eq_iff)

lemma add_endpoint_fields:
  assumes "map_of (mg_endpoints m) (ep_id p) = None"
  shows "fst (add_endpoint p m) = Ok (endpoint_new p)"
    "persisted (snd (add_endpoint p m)) = (persisted m)(ep_id p \<mapsto> p)" "mg_ids (snd (add_endpoint p m)) = mg_ids m"
    "ix_container_id (snd (add_endpoint p m)) = insert_opt (container_id (ep_spec p)) (ep_id p) (ix_container_id m)"
    "ix_ipv4 (snd (add_endpoint p m)) = insert_opt (ep_ipv4 (ep_spec p)) (ep_id p) (ix_ipv4 m)"
    "ix_ipv6 (snd (add_endpoint p m)) = insert_opt (ep_ipv6 (ep_spec p)) (ep_id p) (ix_ipv6 m)"
    "ix_pod_name (snd (add_endpoint p m)) = insert_opt (k8s_ns_and_pod_name (ep_spec p)) (ep_id p) (ix_pod_name m)"
  using assms
  by (auto simp: add_endpoint_def Let_def update_references_def inner_add_endpoint_def persisted_def update_conv'
      endpoint_new_def fun_eq_iff)

text \<open>What a creation that gets an id does, whatever the regeneration answers.\<close>

lemma create_endpoint_effect:
  assumes "indexed m" "pick_ok pick (mg_ids m)" "ids (mg_ids m) \<noteq> {}" "create_endpoint J flt err_str add pick sp m = (r, m')"
  defines "eid \<equiv> pick (ids (mg_ids m))"
  defines "p \<equiv> \<lparr>ep_id = eid, ep_spec = sp\<rparr>"
  shows "eid \<in> ids (mg_ids m)" "mg_ids m' = (mg_ids m)\<lparr>ids := ids (mg_ids m) - {eid}\<rparr>" "persisted m' = (persisted m)(eid \<mapsto> p)"
    "ix_container_id m' = insert_opt (container_id sp) eid (ix_container_id m)"
    "ix_ipv4 m' = insert_opt (ep_ipv4 sp) eid (ix_ipv4 m)" "ix_ipv6 m' = insert_opt (ep_ipv6 sp) eid (ix_ipv6 m)"
    "ix_pod_name m' = insert_opt (k8s_ns_and_pod_name sp) eid (ix_pod_name m)"
proof -
  show e: "eid \<in> ids (mg_ids m)" using assms(2,3) by (simp add: pick_ok_def eid_def)
  let ?c = "(mg_ids m)\<lparr>ids := ids (mg_ids m) - {eid}\<rparr>"
  have al: "allocate_new_id pick m = (Ok (Some eid), m\<lparr>mg_ids := ?c\<rparr>)"
    using assms(1,3) by (simp add: allocate_new_id_def id_allocate_def allocate_id_def lease_new_def eid_def Let_def)
  have n: "map_of (mg_endpoints (m\<lparr>mg_ids := ?c\<rparr>)) (ep_id p) = None"
  proof -
    have "persisted m eid = None"
    proof (rule ccontr)
      assume "persisted m eid \<noteq> None"
      then obtain q where "persisted m eid = Some q" by blast
      then show False using assms(1) e unfolding indexed_def by blast
    qed
    then show ?thesis by (simp add: persisted_def p_def)
  qed
  note a = add_endpoint_fields [OF n]
  obtain m2 where m2: "add_endpoint p (m\<lparr>mg_ids := ?c\<rparr>) = (Ok (endpoint_new p), m2)"
    using a(1) by (cases "add_endpoint p (m\<lparr>mg_ids := ?c\<rparr>)") auto
  obtain r3 m3 where m3: "regenerate_and_wait J flt err_str add eid m2 = (r3, m3)" by fastforce
  have m': "m' = m3" using assms(4) by (cases r3) (auto simp: create_endpoint_def al m2 [unfolded p_def] m3)
  note f = regenerate_and_wait_frame [OF m3]
  have "persisted m3 = persisted m2" using f unfolding persisted_def by auto
  then show "mg_ids m' = ?c" "persisted m' = (persisted m)(eid \<mapsto> p)"
    "ix_container_id m' = insert_opt (container_id sp) eid (ix_container_id m)"
    "ix_ipv4 m' = insert_opt (ep_ipv4 sp) eid (ix_ipv4 m)" "ix_ipv6 m' = insert_opt (ep_ipv6 sp) eid (ix_ipv6 m)"
    "ix_pod_name m' = insert_opt (k8s_ns_and_pod_name sp) eid (ix_pod_name m)"
    using f a m2 unfolding m' by (simp_all add: p_def persisted_def)
qed

lemma create_endpoint_exhausted:
  "ids (mg_ids m) = {} \<Longrightarrow> create_endpoint J flt err_str add pick sp m =
     (Err (EpDataPlaneError (GeneralError ''no more EndpointId's available'')), m)"
  by (simp add: create_endpoint_def allocate_new_id_def id_allocate_def allocate_id_def)

lemma indexed_create:
  assumes "indexed m" "pick_ok pick (mg_ids m)" "create_endpoint J flt err_str add pick sp m = (r, m')"
    "\<forall>c. container_id sp = Some c \<longrightarrow> lookup_container_id c m = None"
    "\<not> in_use lookup_ipv4 (ep_ipv4 sp) m" "\<not> in_use lookup_ipv6 (ep_ipv6 sp) m"
  shows "indexed m'"
proof (cases "ids (mg_ids m) = {}")
  case True
  then show ?thesis using assms(1,3) create_endpoint_exhausted by (metis prod.inject)
next
  case False
  note e = create_endpoint_effect [OF assms(1,2) False assms(3)]
  let ?eid = "pick (ids (mg_ids m))"
  have old: "x \<noteq> ?eid" if "persisted m x = Some p" for x p using that assms(1) e(1) by (auto simp: indexed_def)
  have u4: "ep_ipv4 sp = Some a \<Longrightarrow> lookup_ipv4 a m = None" for a using assms(5) by (simp add: in_use_def)
  have u6: "ep_ipv6 sp = Some a \<Longrightarrow> lookup_ipv6 a m = None" for a using assms(6) by (simp add: in_use_def)
  have "id_inv (mg_ids m')" using assms(1) by (auto simp: indexed_def id_inv_def e(2))
  moreover have "ep_id p = x \<and> x \<notin> ids (mg_ids m') \<and>
      (\<forall>c. container_id (ep_spec p) = Some c \<longrightarrow> lookup_container_id c m' = Some x) \<and>
      (\<forall>a. ep_ipv4 (ep_spec p) = Some a \<longrightarrow> lookup_ipv4 a m' = Some x) \<and>
      (\<forall>a. ep_ipv6 (ep_spec p) = Some a \<longrightarrow> lookup_ipv6 a m' = Some x)" if p: "persisted m' x = Some p" for x p
  proof (cases "x = ?eid")
    case True
    then show ?thesis using p e(1) by (auto simp: e(2-7))
  next
    case False
    then have "persisted m x = Some p" using p by (simp add: e(3))
    then show ?thesis using assms(1,4) u4 u6 unfolding indexed_def by (fastforce simp: e(2-7))
  qed
  ultimately show ?thesis by (simp add: indexed_def)
qed

section \<open>Requests\<close>

lemma service_create_cases:
  assumes "service_create J flt err_str add pick P att req m = (r, m')"
  obtains (refused) "m' = m" "r = None \<or> (\<exists>e. r = Some (Err e))"
  | (created) v4 v6 hm cm r' where "lookup_container_id (rq_container_id req) m = None"
      "parse_ipv4_addr P (rq_ipv4 req) = Ok v4" "parse_ipv6_addr P (rq_ipv6 req) = Ok v6"
      "\<not> in_use lookup_ipv4 v4 m" "\<not> in_use lookup_ipv6 v6 m" "r = Some r'"
      "create_endpoint J flt err_str add pick (request_spec req hm cm v4 v6) m = (r', m')"
  using assms unfolding service_create_def
  by (auto split: if_splits result.splits option.splits prod.splits)

lemma indexed_service_create:
  assumes "indexed m" "pick_ok pick (mg_ids m)"
  shows "indexed (snd (service_create J flt err_str add pick P att req m))"
proof -
  obtain r m' where c: "service_create J flt err_str add pick P att req m = (r, m')" by fastforce
  then have "indexed m'"
  proof (cases rule: service_create_cases)
    case refused
    then show ?thesis using assms(1) by simp
  next
    case (created v4 v6 hm cm r')
    then show ?thesis using indexed_create [OF assms created(7)] by (simp add: request_spec_def)
  qed
  then show ?thesis using c by simp
qed

lemma indexed_new: "indexed (manager_new l s)"
  by (simp add: indexed_def persisted_def manager_new_def id_new_inv)

text \<open>A regeneration of an idle endpoint when no system call fails.\<close>

lemma fine_regenerate_and_wait:
  assumes "map_of (mg_endpoints m) eid = Some h" "h_queue h = 0"
    "add (Container (es_persist (h_state h))) (mg_loader m) = (res, l)"
    "regenerate_and_wait J no_faults err_str add eid m = (r, m')"
  shows "r = Ok () \<and> map_option (es_phase \<circ> h_status) (map_of (mg_endpoints m') eid) =
      Some (case res of Ok _ \<Rightarrow> Ready | Err x \<Rightarrow> Failed (err_str x)) \<and> mg_loader m' = l \<and>
    (is_ok res \<longrightarrow> dirs (mg_fs m') (dir_path Current (h_id h)) = Some (written J (es_persist (h_state h))))"
proof -
  let ?w = "\<lparr>wk_state = h_state h, wk_fs = mg_fs m, wk_loader = mg_loader m, wk_status = h_status h\<rparr>"
  have "add (Container (es_persist (wk_state ?w))) (wk_loader ?w) = (res, l)" using assms(3) by simp
  from fine_regenerate [where add = add, OF this, of J err_str] assms
  show ?thesis by (cases res) (auto simp: regenerate_and_wait_def update_conv' publish_def h_id_def es_id_def)
qed

lemma create_endpoint_outcome:
  assumes "indexed m" "pick_ok pick (mg_ids m)" "ids (mg_ids m) \<noteq> {}"
    "add (Container \<lparr>ep_id = pick (ids (mg_ids m)), ep_spec = sp\<rparr>) (mg_loader m) = (res, l)"
    "create_endpoint J no_faults err_str add pick sp m = (r, m')"
  defines "eid \<equiv> pick (ids (mg_ids m))"
  shows "r = Ok () \<and> map_option (es_phase \<circ> h_status) (map_of (mg_endpoints m') eid) =
      Some (case res of Ok _ \<Rightarrow> Ready | Err x \<Rightarrow> Failed (err_str x)) \<and>
    (is_ok res \<longrightarrow> dirs (mg_fs m') (dir_path Current eid) = Some (written J \<lparr>ep_id = eid, ep_spec = sp\<rparr>))"
proof -
  let ?c = "(mg_ids m)\<lparr>ids := ids (mg_ids m) - {eid}\<rparr>" and ?p = "\<lparr>ep_id = eid, ep_spec = sp\<rparr>"
  let ?m1 = "m\<lparr>mg_ids := ?c\<rparr>"
  have al: "allocate_new_id pick m = (Ok (Some eid), ?m1)"
    using assms(3) by (simp add: allocate_new_id_def id_allocate_def allocate_id_def lease_new_def eid_def Let_def)
  have "persisted m eid = None"
    using create_endpoint_effect(1) [OF assms(1-3,5)] assms(1) unfolding indexed_def eid_def
    by (metis not_None_eq)
  then have n: "map_of (mg_endpoints ?m1) (ep_id ?p) = None" by (simp add: persisted_def)
  obtain m2 where m2: "add_endpoint ?p ?m1 = (Ok (endpoint_new ?p), m2)"
    "map_of (mg_endpoints m2) eid = Some (endpoint_new ?p)" "mg_loader m2 = mg_loader m"
    using n by (auto simp: add_endpoint_def Let_def update_references_def inner_add_endpoint_def update_conv')
  obtain r3 m3 where m3: "regenerate_and_wait J no_faults err_str add eid m2 = (r3, m3)" by fastforce
  have "add (Container (es_persist (h_state (endpoint_new ?p)))) (mg_loader m2) = (res, l)"
    using assms(4) m2(3) by (simp add: endpoint_new_def Let_def eid_def)
  from fine_regenerate_and_wait [OF m2(2) _ this m3]
  have f: "r3 = Ok ()" "map_option (es_phase \<circ> h_status) (map_of (mg_endpoints m3) eid) =
      Some (case res of Ok _ \<Rightarrow> Ready | Err x \<Rightarrow> Failed (err_str x))"
    "is_ok res \<longrightarrow> dirs (mg_fs m3) (dir_path Current eid) = Some (written J ?p)"
    by (auto simp: endpoint_new_def Let_def h_id_def)
  have "(r, m') = (Ok (), m3)" using assms(5) f(1) by (simp add: create_endpoint_def al m2(1) m3)
  then show ?thesis using f by simp
qed

section \<open>Properties\<close>

definition sample_request :: endpoint_create_request where
  "sample_request = \<lparr>rq_container_id = ''c1'', rq_container_mac = ''02:00:00:00:00:01'', rq_container_iface_name = ''eth0'',
     rq_host_mac = ''02:00:00:00:00:02'', rq_host_iface_name = ''lxc1'', rq_host_iface_index = 5, rq_k8s_namespace = ''ns'',
     rq_k8s_pod_name = ''pod'', rq_k8s_uid = ''u'', rq_ipv4 = None, rq_ipv6 = None\<rparr>"

text \<open>The manager after one creation with a loader that refuses every endpoint.\<close>

abbreviation "refuse \<equiv> (\<lambda>_ l. (Err (Injected ''x''), l)) :: unit add_fn"

definition sample_manager :: "unit manager" where
  "sample_manager = snd (service_create sample_json no_faults (\<lambda>_. ''boom'') refuse Min ref_net_parse ''a'' sample_request
     (manager_new () no_entries))"

lemma Min_pick: "\<forall>S :: endpoint_id set. S \<noteq> {} \<longrightarrow> Min S \<in> S"
  by (simp add: Min_in)

lemma sample_hyps:
  "lookup_container_id (rq_container_id sample_request) (manager_new () no_entries) = None"
  "parse_ipv4_addr ref_net_parse (rq_ipv4 sample_request) = Ok None" "parse_ipv6_addr ref_net_parse (rq_ipv6 sample_request) = Ok None"
  "\<not> in_use lookup_ipv4 None (manager_new () no_entries)" "\<not> in_use lookup_ipv6 None (manager_new () no_entries)"
  "mac_parse (rq_host_mac sample_request) = Some (MacAddress [2, 0, 0, 0, 0, 2])"
  "mac_parse (rq_container_mac sample_request) = Some (MacAddress [2, 0, 0, 0, 0, 1])"
  "pick_ok Min (mg_ids (manager_new () no_entries))" "ids (mg_ids (manager_new () no_entries)) \<noteq> {}"
proof -
  show "mac_parse (rq_host_mac sample_request) = Some (MacAddress [2, 0, 0, 0, 0, 2])"
    "mac_parse (rq_container_mac sample_request) = Some (MacAddress [2, 0, 0, 0, 0, 1])" by code_simp+
  have "id_range \<noteq> {}" using card_id_range by auto
  then show "ids (mg_ids (manager_new () no_entries)) \<noteq> {}" by (simp add: manager_new_def id_new_inv)
qed (use Min_pick in \<open>simp_all add: sample_request_def manager_new_def parse_ipv4_addr_def parse_ipv6_addr_def in_use_def pick_ok_def\<close>)

definition sample_eid :: endpoint_id where
  "sample_eid = Min (ids (mg_ids (manager_new () no_entries)))"

lemma sample_created:
  "persisted sample_manager sample_eid = Some \<lparr>ep_id = sample_eid, ep_spec = request_spec sample_request
     (MacAddress [2, 0, 0, 0, 0, 2]) (MacAddress [2, 0, 0, 0, 0, 1]) None None\<rparr>"
  "lookup_container_id ''c1'' sample_manager = Some sample_eid"
proof -
  let ?m = "manager_new () no_entries"
  let ?sp = "request_spec sample_request (MacAddress [2, 0, 0, 0, 0, 2]) (MacAddress [2, 0, 0, 0, 0, 1]) None None"
  obtain r m' where rm: "create_endpoint sample_json no_faults (\<lambda>_. ''boom'') refuse Min ?sp ?m = (r, m')" by fastforce
  have "sample_manager = m'" using sample_hyps by (simp add: sample_manager_def service_create_def rm)
  then have c: "create_endpoint sample_json no_faults (\<lambda>_. ''boom'') refuse Min ?sp ?m = (r, sample_manager)" using rm by simp
  note e = create_endpoint_effect [OF indexed_new sample_hyps(8,9) c, folded sample_eid_def]
  show "persisted sample_manager sample_eid = Some \<lparr>ep_id = sample_eid, ep_spec = ?sp\<rparr>"
    "lookup_container_id ''c1'' sample_manager = Some sample_eid"
    using e by (simp_all add: request_spec_def sample_request_def)
qed

text \<open>A creation whose container and addresses are not in use, when no system call fails. It answers \<open>Ok\<close>, the
  endpoint holds an id that was free, and its container id, addresses and pod name lead to it. The answer is \<open>Ok\<close> also when
  the loader refuses the endpoint, which then stays in the phase \<open>Failed\<close>.\<close>

lemma create_registers_endpoint:
  assumes "indexed m" "pick_ok pick (mg_ids m)" "ids (mg_ids m) \<noteq> {}" "lookup_container_id (rq_container_id req) m = None"
    "parse_ipv4_addr P (rq_ipv4 req) = Ok v4" "parse_ipv6_addr P (rq_ipv6 req) = Ok v6"
    "\<not> in_use lookup_ipv4 v4 m" "\<not> in_use lookup_ipv6 v6 m"
    "mac_parse (rq_host_mac req) = Some hm" "mac_parse (rq_container_mac req) = Some cm"
    "eid = pick (ids (mg_ids m))" "sp = request_spec req hm cm v4 v6"
    "add (Container \<lparr>ep_id = eid, ep_spec = sp\<rparr>) (mg_loader m) = (res, l)"
    "service_create J no_faults err_str add pick P att req m = (r, m')"
  shows "r = Some (Ok ()) \<and> eid \<in> ids (mg_ids m) \<and> eid \<notin> ids (mg_ids m') \<and> persisted m' eid = Some \<lparr>ep_id = eid, ep_spec = sp\<rparr> \<and>
    lookup_container_id (rq_container_id req) m' = Some eid \<and>
    lookup_pod_name (rq_k8s_namespace req @ ''/'' @ rq_k8s_pod_name req) m' = Some eid \<and>
    (\<forall>ip \<in> set (ips sp). lookup_ip ip m' = Some eid) \<and>
    map_option (es_phase \<circ> h_status) (map_of (mg_endpoints m') eid) =
      Some (case res of Ok _ \<Rightarrow> Ready | Err x \<Rightarrow> Failed (err_str x))"
proof -
  obtain r' where c: "create_endpoint J no_faults err_str add pick sp m = (r', m')" "r = Some r'"
    using assms(4-10,12,14) by (auto simp: service_create_def split: prod.splits)
  note e = create_endpoint_effect [OF assms(1-3) c(1), folded assms(11)]
  note o = create_endpoint_outcome [OF assms(1-3) _ c(1), folded assms(11), OF assms(13)]
  show ?thesis using e o c(2)
    by (auto simp: assms(12) request_spec_def k8s_ns_and_pod_name_def ips_def lookup_ip_def split: option.splits)
qed

lemma create_registers_endpoint_witness:
  "fst (service_create sample_json no_faults (\<lambda>_. ''boom'') refuse Min ref_net_parse ''a'' sample_request (manager_new () no_entries)) = Some (Ok ()) \<and>
   map_option (es_phase \<circ> h_status) (map_of (mg_endpoints sample_manager) sample_eid) = Some (Failed ''boom'')"
proof -
  obtain r where c: "service_create sample_json no_faults (\<lambda>_. ''boom'') refuse Min ref_net_parse ''a'' sample_request (manager_new () no_entries) = (r, sample_manager)"
    by (simp add: sample_manager_def prod_eq_iff)
  from create_registers_endpoint [OF indexed_new sample_hyps(8,9,1-7) sample_eid_def refl refl c] show ?thesis by (simp add: c)
qed

text \<open>Deletion does nothing. After a container's endpoint is deleted through the service it still exists under its id,
  container id and addresses, and creating an endpoint for the same container again is refused.\<close>

lemma deleted_endpoint_stays:
  assumes "lookup_container_id (rq_container_id req) m = Some eid" "service_delete att m = (r, m')"
  shows "r = Ok () \<and> persisted m' = persisted m \<and> lookup_ip ip m' = lookup_ip ip m \<and>
    service_create J flt err_str add pick P att2 req m' =
      (Some (Err (GenericError (''endpoint for container '' @ rq_container_id req @ '' already exists''))), m')"
  using assms by (simp add: service_delete_def service_create_def)

lemma deleted_endpoint_stays_witness:
  "fst (service_create sample_json no_faults (\<lambda>_. []) refuse Min ref_net_parse ''b'' sample_request (snd (service_delete ''a'' sample_manager))) =
     Some (Err (GenericError ''endpoint for container c1 already exists''))"
proof -
  have l: "lookup_container_id (rq_container_id sample_request) sample_manager = Some sample_eid"
    using sample_created(2) by (simp add: sample_request_def)
  show ?thesis
    using deleted_endpoint_stays [OF l, of "''a''" "Ok ()" sample_manager "V4 0" sample_json no_faults "\<lambda>_. []" refuse Min ref_net_parse "''b''"]
    by (simp add: service_delete_def) (simp add: sample_request_def)
qed

end
