(* ===== verification/Endpoint_Concurrent.thy ===== *)
theory Endpoint_Concurrent
  imports Endpoint_Service
begin

text \<open>
  \<open>DefaultEndpointService::create\<close> of \<open>sarena-services/src/endpoint/service.rs\<close> as concurrent handlers run it. The
  function takes the manager's locks one after the other: for the lookup of the container id, of the
  IPv4 and of the IPv6 address, for the id (the allocator's own lock), for the insertion, and it then
  waits for the endpoint's worker. A task is a call between two of these sections; a step runs one section.
  Alone, the steps of a call are \<open>service_create\<close>; with other calls in between, two calls may both pass
  a check before either of them has inserted its endpoint.
\<close>

section \<open>A call, section by section\<close>

text \<open>Where a call is: before the lookup of the container id, before those of the addresses, before the
  allocation of the id, before the insertion (with a lease), before the drop of its lease,
  before the regeneration, returned or ended by a panic.\<close>

datatype create_task =
    AtContainer endpoint_create_request
  | AtIpv4 endpoint_create_request "u32 option" "u128 option"
  | AtIpv6 endpoint_create_request "u32 option" "u128 option"
  | AtLease endpoint_spec
  | AtInsert endpoint_persist
  | AtDrop endpoint_id dp_error
  | AtRegenerate endpoint_id
  | Returned "(unit, endpoint_error) result"
  | Panicked

fun create_step ::
  "json_lib \<Rightarrow> (dp_error \<Rightarrow> string) \<Rightarrow> 'l add_fn \<Rightarrow> (string \<Rightarrow> ip_net option) \<Rightarrow> faults \<Rightarrow> (endpoint_id set \<Rightarrow> endpoint_id) \<Rightarrow>
     create_task \<times> 'l manager \<Rightarrow> create_task \<times> 'l manager" where
  "create_step J err_str add P flt pick (AtContainer req, m) =
     (if lookup_container_id (rq_container_id req) m \<noteq> None
      then (Returned (Err (GenericError (''endpoint for container '' @ rq_container_id req @ '' already exists''))), m)
      else case parse_ipv4_addr P (rq_ipv4 req) of Err e \<Rightarrow> (Returned (Err e), m)
      | Ok v4 \<Rightarrow>
          (case parse_ipv6_addr P (rq_ipv6 req) of Err e \<Rightarrow> (Returned (Err e), m)
           | Ok v6 \<Rightarrow> (AtIpv4 req v4 v6, m)))"
| "create_step J err_str add P flt pick (AtIpv4 req v4 v6, m) =
     (if in_use lookup_ipv4 v4 m
      then (Returned (Err (GenericError (''Ipv4 '' @ v4_str (the v4) @ '' is already in use''))), m)
      else (AtIpv6 req v4 v6, m))"
| "create_step J err_str add P flt pick (AtIpv6 req v4 v6, m) =
     (if in_use lookup_ipv6 v6 m
      then (Returned (Err (GenericError (''Ipv6 '' @ v6_str (the v6) @ '' is already in use''))), m)
      else case mac_parse (rq_host_mac req) of None \<Rightarrow> (Panicked, m)
      | Some hm \<Rightarrow>
          (case mac_parse (rq_container_mac req) of None \<Rightarrow> (Panicked, m)
           | Some cm \<Rightarrow> (AtLease (request_spec req hm cm v4 v6), m)))"
| "create_step J err_str add P flt pick (AtLease sp, m) =
     (case allocate_new_id pick m of
        (Err e, m) \<Rightarrow> (Returned (Err (EpDataPlaneError e)), m)
      | (Ok lease, m) \<Rightarrow> (AtInsert \<lparr>ep_id = the lease, ep_spec = sp\<rparr>, m))"
| "create_step J err_str add P flt pick (AtInsert p, m) =
     (case add_endpoint p m of
        (Err e, m) \<Rightarrow> (AtDrop (ep_id p) e, m)
      | (Ok _, m) \<Rightarrow> (AtRegenerate (ep_id p), m))"
| "create_step J err_str add P flt pick (AtDrop eid e, m) =
     (Returned (Err (EpDataPlaneError e)), m\<lparr>mg_ids := lease_drop (lease_new eid) (mg_ids m)\<rparr>)"
| "create_step J err_str add P flt pick (AtRegenerate eid, m) =
     (case regenerate_and_wait J flt err_str add eid m of
        (Err e, m) \<Rightarrow> (Returned (Err (EpDataPlaneError e)), m)
      | (Ok _, m) \<Rightarrow> (Returned (Ok ()), m))"
| "create_step J err_str add P flt pick (Returned r, m) = (Returned r, m)"
| "create_step J err_str add P flt pick (Panicked, m) = (Panicked, m)"

fun answer_of :: "create_task \<Rightarrow> (unit, endpoint_error) result option" where
  "answer_of (Returned r) = Some r"
| "answer_of _ = None"

fun finished :: "create_task \<Rightarrow> bool" where
  "finished (Returned _) = True"
| "finished Panicked = True"
| "finished _ = False"

lemma create_step_finished: "finished t \<Longrightarrow> (create_step J err_str add P flt pick ^^ n) (t, m) = (t, m)"
  by (induction n; cases t) auto

text \<open>A call that no other call interrupts: six steps run \<open>service_create\<close> to its end.\<close>

lemma create_steps_alone:
  assumes "(create_step J err_str add P flt pick ^^ 6) (AtContainer req, m) = (t, m')"
  shows "finished t \<and> service_create J flt err_str add pick P att req m = (answer_of t, m')"
  using assms
  by (auto simp: numeral_eq_Suc service_create_def create_endpoint_def lease_new_def
      allocate_new_id_def split: if_splits result.splits option.splits prod.splits)

section \<open>Concurrent calls\<close>

text \<open>The daemon's view: a request arrives, a call in progress runs its next section (with the system-call
  failures and the order of the hash set at that moment), or an endpoint is deleted.\<close>

datatype svc_act =
    Arrives endpoint_create_request
  | Advances nat faults "endpoint_id set \<Rightarrow> endpoint_id"
  | Deletes string

fun svc_act_step ::
  "json_lib \<Rightarrow> (dp_error \<Rightarrow> string) \<Rightarrow> 'l add_fn \<Rightarrow> (string \<Rightarrow> ip_net option) \<Rightarrow> svc_act \<Rightarrow>
     create_task list \<times> 'l manager \<Rightarrow> create_task list \<times> 'l manager" where
  "svc_act_step J err_str add P (Arrives req) (ts, m) = (ts @ [AtContainer req], m)"
| "svc_act_step J err_str add P (Advances i flt pick) (ts, m) =
     (if i < length ts then case create_step J err_str add P flt pick (ts ! i, m) of (t, m') \<Rightarrow> (ts[i := t], m')
      else (ts, m))"
| "svc_act_step J err_str add P (Deletes att) (ts, m) = (ts, snd (service_delete att m))"

definition svc_run ::
  "json_lib \<Rightarrow> (dp_error \<Rightarrow> string) \<Rightarrow> 'l add_fn \<Rightarrow> (string \<Rightarrow> ip_net option) \<Rightarrow> svc_act list \<Rightarrow> 'l manager \<Rightarrow> create_task list \<times> 'l manager" where
  "svc_run J err_str add P acts m = fold (svc_act_step J err_str add P) acts ([], m)"

fun order_ok :: "svc_act \<Rightarrow> bool" where
  "order_ok (Advances _ _ pick) = (\<forall>S. S \<noteq> {} \<longrightarrow> pick S \<in> S)"
| "order_ok _ = True"

text \<open>What identifies an endpoint, and what a call in progress has found to be unused.\<close>

definition idents :: "endpoint_spec \<Rightarrow> endpoint_identification set" where
  "idents sp = ContainerId ` set_option (container_id sp) \<union> EpIpv4 ` set_option (ep_ipv4 sp) \<union> EpIpv6 ` set_option (ep_ipv6 sp)"

fun checked :: "create_task \<Rightarrow> endpoint_identification set" where
  "checked (AtIpv4 req v4 v6) = {ContainerId (rq_container_id req)}"
| "checked (AtIpv6 req v4 v6) = insert (ContainerId (rq_container_id req)) (EpIpv4 ` set_option v4)"
| "checked (AtLease sp) = idents sp"
| "checked (AtInsert p) = idents (ep_spec p)"
| "checked _ = {}"

fun lease_of :: "create_task \<Rightarrow> endpoint_id option" where
  "lease_of (AtInsert p) = Some (ep_id p)"
| "lease_of (AtDrop eid _) = Some eid"
| "lease_of _ = None"

fun is_drop :: "create_task \<Rightarrow> bool" where
  "is_drop (AtDrop _ _) = True"
| "is_drop _ = False"

section \<open>Invariants\<close>

text \<open>Ids: an endpoint's id and the id of a lease are not free, no two of them are the same, and so no
  insertion ever fails.\<close>

definition ids_apart :: "create_task list \<Rightarrow> 'l manager \<Rightarrow> bool" where
  "ids_apart ts m \<longleftrightarrow> id_inv (mg_ids m) \<and> list_all (\<lambda>t. \<not> is_drop t) ts \<and>
     (\<forall>eid p. persisted m eid = Some p \<longrightarrow> ep_id p = eid \<and> eid \<notin> ids (mg_ids m)) \<and>
     (\<forall>i < length ts. \<forall>eid. lease_of (ts ! i) = Some eid \<longrightarrow>
        eid \<notin> ids (mg_ids m) \<and> persisted m eid = None \<and> (\<forall>j < length ts. lease_of (ts ! j) = Some eid \<longrightarrow> j = i))"

text \<open>One identity: what calls have checked is not in the index, what endpoints have leads to them.\<close>

definition ident_ok :: "endpoint_identification \<Rightarrow> create_task list \<Rightarrow> 'l manager \<Rightarrow> bool" where
  "ident_ok x ts m \<longleftrightarrow> (\<forall>t \<in> set ts. x \<in> checked t \<longrightarrow> lookup_ep x m = None) \<and>
     (\<forall>eid p. persisted m eid = Some p \<longrightarrow> x \<in> idents (ep_spec p) \<longrightarrow> lookup_ep x m = Some eid)"

text \<open>Two calls have both passed the check of an identity.\<close>

definition overlap :: "endpoint_identification \<Rightarrow> create_task list \<Rightarrow> bool" where
  "overlap x ts \<longleftrightarrow> (\<exists>i < length ts. \<exists>j < length ts. i \<noteq> j \<and> x \<in> checked (ts ! i) \<and> x \<in> checked (ts ! j))"

text \<open>Nothing but the ids, the maps of the manager and its endpoints matter.\<close>

definition same_maps :: "'l manager \<Rightarrow> 'l manager \<Rightarrow> bool" where
  "same_maps m m' \<longleftrightarrow> persisted m' = persisted m \<and> ix_container_id m' = ix_container_id m \<and> ix_ipv4 m' = ix_ipv4 m \<and> ix_ipv6 m' = ix_ipv6 m"

lemma same_maps_refl [simp]: "same_maps m m" "same_maps m (m\<lparr>mg_ids := c\<rparr>)"
  by (simp_all add: same_maps_def)

lemma idents_cases:
  assumes "x \<in> idents sp"
  obtains c where "x = ContainerId c" "container_id sp = Some c" | a where "x = EpIpv4 a" "ep_ipv4 sp = Some a"
    | a where "x = EpIpv6 a" "ep_ipv6 sp = Some a"
  using assms by (auto simp: idents_def)

lemma checked_idents: "x \<in> checked t \<Longrightarrow> (\<exists>c. x = ContainerId c) \<or> (\<exists>a. x = EpIpv4 a) \<or> (\<exists>a. x = EpIpv6 a)"
  by (cases t) (auto simp: idents_def)

lemma lookup_same_maps: "same_maps m m' \<Longrightarrow> x \<in> idents sp \<Longrightarrow> lookup_ep x m' = lookup_ep x m"
  by (auto simp: same_maps_def idents_def)

lemma lookup_same_checked: "same_maps m m' \<Longrightarrow> x \<in> checked t \<Longrightarrow> lookup_ep x m' = lookup_ep x m"
  by (drule checked_idents) (auto simp: same_maps_def)

text \<open>What one step does: a call that passes a check has found the identity unused; a lease takes a
  free id; only an insertion changes the maps, and it succeeds.\<close>

definition step_effect :: "create_task \<Rightarrow> 'l manager \<Rightarrow> create_task \<Rightarrow> 'l manager \<Rightarrow> bool" where
  "step_effect t m t' m' \<longleftrightarrow>
     same_maps m m' \<and> mg_ids m' = mg_ids m \<and> lease_of t' = None \<and>
       (\<forall>x \<in> checked t'. x \<in> checked t \<or> lookup_ep x m = None)
   \<or> (\<exists>sp eid. t = AtLease sp \<and> t' = AtInsert \<lparr>ep_id = eid, ep_spec = sp\<rparr> \<and> eid \<in> ids (mg_ids m) \<and>
       m' = m\<lparr>mg_ids := (mg_ids m)\<lparr>ids := ids (mg_ids m) - {eid}\<rparr>\<rparr>)
   \<or> (\<exists>p. t = AtInsert p \<and> t' = AtRegenerate (ep_id p) \<and> m' = snd (add_endpoint p m))
"

lemma create_step_effect:
  assumes "create_step J err_str add P flt pick (t, m) = (t', m')" "\<forall>S. S \<noteq> {} \<longrightarrow> pick S \<in> S"
    "\<And>p. t = AtInsert p \<Longrightarrow> persisted m (ep_id p) = None" "\<not> is_drop t"
  shows "step_effect t m t' m'"
proof (cases t)
  case (AtLease sp)
  show ?thesis
  proof (cases "ids (mg_ids m) = {}")
    case True
    then show ?thesis using assms(1) AtLease
      by (auto simp: step_effect_def allocate_new_id_def id_allocate_def allocate_id_def)
  next
    case False
    then show ?thesis using assms(1,2) AtLease
      by (auto simp: step_effect_def allocate_new_id_def id_allocate_def allocate_id_def lease_new_def Let_def)
  qed
next
  case (AtInsert p)
  then have "map_of (mg_endpoints m) (ep_id p) = None" using assms(3) by (simp add: persisted_def)
  from add_endpoint_fields(1) [OF this] show ?thesis using assms(1) AtInsert
    by (cases "add_endpoint p m") (auto simp: step_effect_def)
next
  case (AtRegenerate eid)
  obtain r m1 where r: "regenerate_and_wait J flt err_str add eid m = (r, m1)" by fastforce
  then have "same_maps m m1 \<and> mg_ids m1 = mg_ids m"
    using regenerate_and_wait_frame [OF r] by (auto simp: same_maps_def persisted_def)
  then show ?thesis using assms(1) AtRegenerate r by (cases r) (auto simp: step_effect_def)
qed (use assms(1,4) in \<open>auto simp: step_effect_def in_use_def idents_def request_spec_def
      split: if_splits result.splits option.splits\<close>)

lemma list_all_update: "list_all P xs \<Longrightarrow> P x \<Longrightarrow> list_all P (xs[i := x])"
  by (auto simp: list_all_iff dest: set_update_subset_insert [THEN subsetD])

lemma ids_apartD:
  assumes "ids_apart ts m" "i < length ts" "ts ! i = AtInsert p"
  shows "ep_id p \<notin> ids (mg_ids m)" "persisted m (ep_id p) = None"
    "j < length ts \<Longrightarrow> lease_of (ts ! j) = Some (ep_id p) \<Longrightarrow> j = i"
proof -
  have "lease_of (ts ! i) = Some (ep_id p)" by (simp add: assms(3))
  then show "ep_id p \<notin> ids (mg_ids m)" "persisted m (ep_id p) = None"
    "j < length ts \<Longrightarrow> lease_of (ts ! j) = Some (ep_id p) \<Longrightarrow> j = i"
    using assms(1,2) unfolding ids_apart_def by blast+
qed

lemma step_ids:
  assumes "ids_apart ts m" "i < length ts" "step_effect (ts ! i) m t' m'"
  shows "ids_apart (ts[i := t']) m'"
  using assms(3) unfolding step_effect_def
proof (elim disjE exE conjE)
  assume a: "same_maps m m'" "mg_ids m' = mg_ids m" "lease_of t' = None"
  then have "\<not> is_drop t'" by (cases t') auto
  then show ?thesis using assms(1,2) a by (auto simp: ids_apart_def same_maps_def nth_list_update list_all_update)
next
  fix sp eid
  assume a: "ts ! i = AtLease sp" "t' = AtInsert \<lparr>ep_id = eid, ep_spec = sp\<rparr>" "eid \<in> ids (mg_ids m)"
    "m' = m\<lparr>mg_ids := (mg_ids m)\<lparr>ids := ids (mg_ids m) - {eid}\<rparr>\<rparr>"
  have "persisted m eid = None" using assms(1) a(3) by (metis ids_apart_def not_None_eq)
  moreover have "id_inv (mg_ids m')" using assms(1) by (auto simp: ids_apart_def id_inv_def a(4))
  ultimately show ?thesis using assms(1,2) a by (auto simp: ids_apart_def nth_list_update list_all_update)
next
  fix p
  assume a: "ts ! i = AtInsert p" "t' = AtRegenerate (ep_id p)" "m' = snd (add_endpoint p m)"
  note l = ids_apartD [OF assms(1,2) a(1)]
  have f: "persisted m' = (persisted m)(ep_id p \<mapsto> p)" "mg_ids m' = mg_ids m"
    using add_endpoint_fields(2,3) [of m p] l(2) by (simp_all add: a(3) persisted_def)
  have "j \<noteq> i \<and> lease_of (ts ! j) = Some eid \<and> eid \<noteq> ep_id p" if "j < length ts" "lease_of (ts[i := t'] ! j) = Some eid" for j eid
  proof -
    have "j \<noteq> i" using that(2) assms(2) unfolding a(2) by auto
    then have "lease_of (ts ! j) = Some eid" using that(2) by simp
    then show ?thesis using l(3) [OF that(1)] \<open>j \<noteq> i\<close> by blast
  qed
  moreover have "list_all (\<lambda>t. \<not> is_drop t) (ts[i := t'])" using assms(1) a(2) by (simp add: ids_apart_def list_all_update)
  moreover have "\<forall>eid q. persisted m' eid = Some q \<longrightarrow> ep_id q = eid \<and> eid \<notin> ids (mg_ids m')"
    using assms(1) l(1) unfolding f ids_apart_def by simp
  ultimately show ?thesis using assms(1) unfolding ids_apart_def f length_list_update fun_upd_apply by metis
qed

lemma step_ident:
  assumes "ident_ok x ts m" "ids_apart ts m" "\<not> overlap x ts" "i < length ts" "step_effect (ts ! i) m t' m'"
  shows "ident_ok x (ts[i := t']) m'"
  using assms(5) unfolding step_effect_def
proof (elim disjE exE conjE)
  assume a: "same_maps m m'" "\<forall>x \<in> checked t'. x \<in> checked (ts ! i) \<or> lookup_ep x m = None"
  have "lookup_ep x m' = None" if "t \<in> set (ts[i := t'])" "x \<in> checked t" for t
  proof -
    have "t \<in> set ts \<or> t = t'" using that(1) set_update_subset_insert by fastforce
    then have "lookup_ep x m = None" using assms(1,4) a(2) that(2) unfolding ident_ok_def by (metis nth_mem)
    then show ?thesis using lookup_same_checked [OF a(1) that(2)] by simp
  qed
  moreover have "lookup_ep x m' = Some eid" if "persisted m' eid = Some p" "x \<in> idents (ep_spec p)" for eid p
    using assms(1) that lookup_same_maps [OF a(1) that(2)] a(1) by (simp add: ident_ok_def same_maps_def)
  ultimately show ?thesis by (simp add: ident_ok_def)
next
  fix sp eid
  assume a: "ts ! i = AtLease sp" "t' = AtInsert \<lparr>ep_id = eid, ep_spec = sp\<rparr>" "m' = m\<lparr>mg_ids := (mg_ids m)\<lparr>ids := ids (mg_ids m) - {eid}\<rparr>\<rparr>"
  have c: "\<exists>u \<in> set ts. checked t = checked u" if "t \<in> set (ts[i := t'])" for t
  proof (cases "t = t'")
    case True
    then have "checked t = checked (ts ! i)" using a by simp
    then show ?thesis using assms(4) nth_mem by blast
  qed (use that set_update_subset_insert in fastforce)
  have s: "same_maps m m'" by (simp add: a(3))
  have "lookup_ep x m' = None" if "t \<in> set (ts[i := t'])" "x \<in> checked t" for t
    using c [OF that(1)] that(2) assms(1) lookup_same_checked [OF s that(2)] by (auto simp: ident_ok_def)
  moreover have "lookup_ep x m' = Some eid" if "persisted m' eid = Some p" "x \<in> idents (ep_spec p)" for eid p
    using assms(1) that lookup_same_maps [OF s that(2)] s by (simp add: ident_ok_def same_maps_def)
  ultimately show ?thesis by (simp add: ident_ok_def)
next
  fix p
  assume a: "ts ! i = AtInsert p" "t' = AtRegenerate (ep_id p)" "m' = snd (add_endpoint p m)"
  have "map_of (mg_endpoints m) (ep_id p) = None" using ids_apartD(2) [OF assms(2,4) a(1)] by (simp add: persisted_def)
  note f = add_endpoint_fields(2-6) [OF this, folded a(3)]
  have new: "lookup_ep x m' = Some (ep_id p)" if "x \<in> idents (ep_spec p)"
    using that by (auto simp: idents_def f insert_opt_def update_conv')
  have old: "lookup_ep x m' = lookup_ep x m" if "x \<notin> idents (ep_spec p)" "x \<in> idents sp \<or> x \<in> checked t" for sp t
    using that checked_idents [of x t] by (auto simp: idents_def f insert_opt_def update_conv' split: option.splits)
  have "lookup_ep x m' = None" if c: "t \<in> set (ts[i := t'])" "x \<in> checked t" for t
  proof -
    obtain j where j: "j < length ts" "ts[i := t'] ! j = t" using c(1) unfolding in_set_conv_nth by auto
    have "j \<noteq> i" using that(2) assms(4) j(2) unfolding a(2) by auto
    then have t: "t = ts ! j" using j(2) by simp
    then have "x \<notin> checked (ts ! i)" using assms(3,4) j(1) \<open>j \<noteq> i\<close> that(2) unfolding overlap_def by blast
    then have "x \<notin> idents (ep_spec p)" by (simp add: a(1))
    from old [OF this] that(2) have "lookup_ep x m' = lookup_ep x m" by blast
    then show ?thesis using assms(1) nth_mem [OF j(1)] t that(2) by (auto simp: ident_ok_def)
  qed
  moreover have "lookup_ep x m' = Some eid" if q: "persisted m' eid = Some q" "x \<in> idents (ep_spec q)" for eid q
  proof (cases "eid = ep_id p")
    case True
    then show ?thesis using q f(1) new by auto
  next
    case False
    then have o: "lookup_ep x m = Some eid" using q f(1) assms(1) by (simp add: ident_ok_def)
    have "x \<notin> idents (ep_spec p)" using assms(1,4) a(1) o nth_mem [OF assms(4)] by (auto simp: ident_ok_def)
    from old [OF this] q(2) o show ?thesis by metis
  qed
  ultimately show ?thesis by (simp add: ident_ok_def)
qed

section \<open>Every interleaving\<close>

lemma act_keeps:
  assumes "ids_apart ts m" "order_ok a" "svc_act_step J err_str add P a (ts, m) = (ts', m')"
  shows "ids_apart ts' m'" "ident_ok x ts m \<Longrightarrow> \<not> overlap x ts \<Longrightarrow> ident_ok x ts' m'"
proof -
  have "ids_apart ts' m' \<and> (ident_ok x ts m \<longrightarrow> \<not> overlap x ts \<longrightarrow> ident_ok x ts' m')"
  proof (cases a)
    case (Arrives req)
    then show ?thesis using assms by (auto simp: ids_apart_def ident_ok_def nth_append less_Suc_eq)
  next
    case (Deletes att)
    then show ?thesis using assms by (simp add: service_delete_def)
  next
    case (Advances i flt pick)
    show ?thesis
    proof (cases "i < length ts")
      case True
      obtain t' where t: "create_step J err_str add P flt pick (ts ! i, m) = (t', m')" "ts' = ts[i := t']"
        using assms(3) Advances True by (auto split: prod.splits)
      have "step_effect (ts ! i) m t' m'"
      proof (rule create_step_effect [OF t(1)])
        show "\<forall>S. S \<noteq> {} \<longrightarrow> pick S \<in> S" using assms(2) Advances by simp
        show "\<not> is_drop (ts ! i)" using assms(1) True by (simp add: ids_apart_def list_all_length)
      qed (rule ids_apartD(2) [OF assms(1) True])
      then show ?thesis using step_ids [OF assms(1) True] step_ident [OF _ assms(1) _ True] t(2) by blast
    qed (use assms Advances in simp)
  qed
  then show "ids_apart ts' m'" "ident_ok x ts m \<Longrightarrow> \<not> overlap x ts \<Longrightarrow> ident_ok x ts' m'" by blast+
qed

lemma run_ids:
  assumes "ids_apart ts m" "list_all order_ok acts" "fold (svc_act_step J err_str add P) acts (ts, m) = (ts', m')"
  shows "ids_apart ts' m'"
  using assms
proof (induction acts arbitrary: ts m)
  case (Cons a acts)
  obtain ts1 m1 where s: "svc_act_step J err_str add P a (ts, m) = (ts1, m1)" by fastforce
  then show ?case using Cons.IH [of ts1 m1] act_keeps(1) [OF Cons.prems(1) _ s] Cons.prems(2,3) by simp
qed simp

lemma run_keeps:
  assumes "ids_apart ts m" "ident_ok x ts m" "list_all order_ok acts"
    "\<forall>k < length acts. \<not> overlap x (fst (fold (svc_act_step J err_str add P) (take k acts) (ts, m)))"
    "fold (svc_act_step J err_str add P) acts (ts, m) = (ts', m')"
  shows "ids_apart ts' m' \<and> ident_ok x ts' m'"
  using assms
proof (induction acts arbitrary: ts m)
  case (Cons a acts)
  obtain ts1 m1 where s: "svc_act_step J err_str add P a (ts, m) = (ts1, m1)" by fastforce
  have n: "\<not> overlap x ts" using Cons.prems(4) by (metis fold_simps(1) fst_conv length_greater_0_conv list.discI take0)
  have "\<forall>k < length acts. \<not> overlap x (fst (fold (svc_act_step J err_str add P) (take k acts) (ts1, m1)))"
  proof (intro allI impI)
    fix k assume "k < length acts"
    then show "\<not> overlap x (fst (fold (svc_act_step J err_str add P) (take k acts) (ts1, m1)))"
      using Cons.prems(4) [rule_format, of "Suc k"] s by simp
  qed
  then show ?case using Cons.IH [of ts1 m1] act_keeps [OF Cons.prems(1) _ s] n Cons.prems(2,3,5) s by simp
qed simp

section \<open>Properties\<close>

text \<open>C23: identities under concurrency. After any interleaving of creations and deletions, with any failures of the
  file system and the loader, every endpoint is found under its own id, which no other endpoint and no call in
  progress holds, and two endpoints share a container id or an address only if at some moment two calls had
  both found that identity unused and neither had inserted its endpoint yet. In particular they share nothing when
  creations of the same identity do not overlap.\<close>

theorem endpoints_share_identity_only_by_race:
  assumes "list_all order_ok acts" "svc_run J err_str add P acts (manager_new l s) = (ts, m)"
    "persisted m a = Some p" "persisted m b = Some q" "x \<in> idents (ep_spec p)" "x \<in> idents (ep_spec q)"
  shows "ep_id p = a \<and> a \<notin> ids (mg_ids m) \<and> (\<forall>t \<in> set ts. lease_of t \<noteq> Some a) \<and>
    (a = b \<or> (\<exists>k < length acts. overlap x (fst (svc_run J err_str add P (take k acts) (manager_new l s)))))"
proof -
  have z: "ids_apart [] (manager_new l s)" "ident_ok x [] (manager_new l s)"
    by (simp_all add: ids_apart_def ident_ok_def persisted_def manager_new_def id_new_inv)
  have f: "fold (svc_act_step J err_str add P) acts ([], manager_new l s) = (ts, m)" using assms(2) by (simp add: svc_run_def)
  have i: "ids_apart ts m" by (rule run_ids [OF z(1) assms(1) f])
  have "lease_of t \<noteq> Some a" if "t \<in> set ts" for t
    using i that assms(3) unfolding ids_apart_def by (metis in_set_conv_nth option.distinct(1))
  moreover have "a = b" if "\<forall>k < length acts. \<not> overlap x (fst (svc_run J err_str add P (take k acts) (manager_new l s)))"
  proof -
    have "ident_ok x ts m" using run_keeps [OF z assms(1) _ f] that by (simp add: svc_run_def)
    then have "lookup_ep x m = Some a" "lookup_ep x m = Some b" using assms(3-6) unfolding ident_ok_def by blast+
    then show ?thesis by simp
  qed
  ultimately show ?thesis using i assms(3) unfolding ids_apart_def by blast
qed

text \<open>The race exists. Two requests for the same container and addresses that run their checks before either has
  inserted its endpoint both insert one: two endpoints with different ids and the same identities.\<close>

abbreviation "adv i \<equiv> Advances i no_faults Min"

definition race :: "endpoint_create_request \<Rightarrow> svc_act list" where
  "race req = [Arrives req, Arrives req, adv 0, adv 0, adv 0, adv 1, adv 1, adv 1, adv 0, adv 0, adv 1, adv 1]"

lemma creations_race:
  assumes "parse_ipv4_addr P (rq_ipv4 req) = Ok v4" "parse_ipv6_addr P (rq_ipv6 req) = Ok v6"
    "mac_parse (rq_host_mac req) = Some hm" "mac_parse (rq_container_mac req) = Some cm"
  defines "sp \<equiv> request_spec req hm cm v4 v6"
  shows "\<exists>a b m. svc_run J err_str add P (race req) (manager_new l s) = ([AtRegenerate a, AtRegenerate b], m) \<and> a \<noteq> b \<and>
    persisted m a = Some \<lparr>ep_id = a, ep_spec = sp\<rparr> \<and> persisted m b = Some \<lparr>ep_id = b, ep_spec = sp\<rparr>"
proof -
  let ?m = "manager_new l s" and ?f = "fold (svc_act_step J err_str add P)"
  define a where "a = Min id_range"
  define b where "b = Min (id_range - {a})"
  let ?pa = "\<lparr>ep_id = a, ep_spec = sp\<rparr>" and ?pb = "\<lparr>ep_id = b, ep_spec = sp\<rparr>"
  have "card (id_range - {a}) \<noteq> 0" using card_id_range by (simp add: card_Diff_singleton_if)
  then have ne: "id_range \<noteq> {}" "id_range - {a} \<noteq> {}" by auto
  have b: "b \<in> id_range - {a}" unfolding b_def using ne(2) by (intro Min_in) simp_all
  have e: "map_of (ix_container_id ?m) k = None" "map_of (ix_ipv4 ?m) k4 = None" "map_of (ix_ipv6 ?m) k6 = None"
    "map_of (mg_endpoints ?m) eid = None" "mg_ids ?m = id_new" "ids id_new = id_range" for k k4 k6 eid
    by (simp_all add: manager_new_def id_new_inv)
  have 1: "?f (take 8 (race req)) ([], ?m) = ([AtLease sp, AtLease sp], ?m)"
    by (cases v4; cases v6) (simp_all add: race_def assms in_use_def e)
  define m1 where "m1 = ?m\<lparr>mg_ids := id_new\<lparr>ids := id_range - {a}\<rparr>\<rparr>"
  obtain m2 where m2: "add_endpoint ?pa m1 = (Ok (endpoint_new ?pa), m2)" "persisted m2 = (persisted m1)(a \<mapsto> ?pa)" "mg_ids m2 = mg_ids m1"
    using add_endpoint_fields(1-3) [of m1 ?pa] by (cases "add_endpoint ?pa m1") (auto simp: m1_def e)
  have "svc_act_step J err_str add P (adv 0) ([AtLease sp, AtLease sp], ?m) = ([AtInsert ?pa, AtLease sp], m1)"
    using ne(1) by (simp add: allocate_new_id_def id_allocate_def allocate_id_def Let_def e lease_new_def m1_def a_def)
  then have 2: "?f [adv 0, adv 0] ([AtLease sp, AtLease sp], ?m) = ([AtRegenerate a, AtLease sp], m2)"
    by (simp add: m2(1))
  define m3 where "m3 = m2\<lparr>mg_ids := (mg_ids m2)\<lparr>ids := id_range - {a} - {b}\<rparr>\<rparr>"
  have p1: "persisted m1 = Map.empty" by (simp add: m1_def persisted_def manager_new_def fun_eq_iff)
  have "persisted m3 b = None" using b by (auto simp: m3_def m2(2) p1)
  then have "map_of (mg_endpoints m3) b = None" by (simp add: persisted_def)
  then obtain m4 where m4: "add_endpoint ?pb m3 = (Ok (endpoint_new ?pb), m4)" "persisted m4 = (persisted m3)(b \<mapsto> ?pb)"
    using add_endpoint_fields(1-3) [of m3 ?pb] by (cases "add_endpoint ?pb m3") auto
  have "svc_act_step J err_str add P (adv 1) ([AtRegenerate a, AtLease sp], m2) = ([AtRegenerate a, AtInsert ?pb], m3)"
    using ne(2) by (simp add: allocate_new_id_def id_allocate_def allocate_id_def Let_def m2(3) lease_new_def m3_def b_def m1_def)
  then have 3: "?f [adv 1, adv 1] ([AtRegenerate a, AtLease sp], m2) = ([AtRegenerate a, AtRegenerate b], m4)"
    by (simp add: m4(1))
  have "race req = take 8 (race req) @ [adv 0, adv 0] @ [adv 1, adv 1]" by (simp add: race_def)
  then have "svc_run J err_str add P (race req) ?m = ([AtRegenerate a, AtRegenerate b], m4)"
    unfolding svc_run_def by (metis 1 2 3 fold_append o_apply)
  moreover have "a \<noteq> b" using b by auto
  ultimately show ?thesis using m4(2) m2(2) by (auto simp: m3_def)
qed

theorem endpoints_share_identity_only_by_race_witness:
  "\<exists>k < length (race sample_request). overlap (ContainerId ''c1'')
     (fst (svc_run sample_json (\<lambda>_. ''boom'') refuse ref_net_parse (take k (race sample_request)) (manager_new () no_entries)))"
proof -
  let ?sp = "request_spec sample_request (MacAddress [2, 0, 0, 0, 0, 2]) (MacAddress [2, 0, 0, 0, 0, 1]) None None"
  obtain a b m where r: "svc_run sample_json (\<lambda>_. ''boom'') refuse ref_net_parse (race sample_request) (manager_new () no_entries) =
      ([AtRegenerate a, AtRegenerate b], m)" "a \<noteq> b"
    "persisted m a = Some \<lparr>ep_id = a, ep_spec = ?sp\<rparr>" "persisted m b = Some \<lparr>ep_id = b, ep_spec = ?sp\<rparr>"
    using creations_race [where J = sample_json and err_str = "\<lambda>_. ''boom''" and add = refuse and l = "()" and s = no_entries,
        OF sample_hyps(2,3,6,7)] by (elim exE conjE) (rule that)
  have x: "ContainerId ''c1'' \<in> idents ?sp" by (simp add: idents_def request_spec_def sample_request_def)
  have "list_all order_ok (race sample_request)" using Min_pick by (simp add: race_def)
  from endpoints_share_identity_only_by_race [OF this r(1,3,4)] x r(2) show ?thesis by simp
qed

end
