(* ===== verification/Api.thy ===== *)
theory Api
  imports Endpoint_Service Ipam_Service
begin

text \<open>
  The REST interface between the daemon and its clients: the error mapping and handlers of
  \<open>sarena-api/server\<close>, and the client of \<open>sarena-api/client\<close> with its retries. A response is its status
  and its body; a JSON body is the value it encodes. The transport is the argument \<open>d\<close>: it says of each
  attempt whether the request reaches the server and whether the answer comes back.
\<close>

section \<open>Errors and responses of the server\<close>

datatype api_error = ApiNotFound string | ApiBadRequest string | ApiInternal string | ApiNotImplemented string

fun api_message :: "api_error \<Rightarrow> string" where
  "api_message (ApiNotFound m) = m"
| "api_message (ApiBadRequest m) = m"
| "api_message (ApiInternal m) = m"
| "api_message (ApiNotImplemented m) = m"

fun api_error_status :: "api_error \<Rightarrow> nat" where
  "api_error_status (ApiNotFound _) = 404"
| "api_error_status (ApiBadRequest _) = 400"
| "api_error_status (ApiInternal _) = 500"
| "api_error_status (ApiNotImplemented _) = 501"

text \<open>\<open>msg\<close> is the \<open>Display\<close> the \<open>thiserror\<close> derive generates.\<close>

fun api_of_ipam :: "(ipam_error \<Rightarrow> string) \<Rightarrow> ipam_error \<Rightarrow> api_error" where
  "api_of_ipam msg (ExcludedError a b) = ApiBadRequest (msg (ExcludedError a b))"
| "api_of_ipam msg (PoolRequiredForAllocate a b) = ApiBadRequest (msg (PoolRequiredForAllocate a b))"
| "api_of_ipam msg (PoolRequiredForRelease a) = ApiBadRequest (msg (PoolRequiredForRelease a))"
| "api_of_ipam msg AlreadyAllocated = ApiBadRequest (msg AlreadyAllocated)"
| "api_of_ipam msg (NotInRange a) = ApiBadRequest (msg (NotInRange a))"
| "api_of_ipam msg (PoolDeterminationUnavailable a) = ApiNotImplemented (msg (PoolDeterminationUnavailable a))"
| "api_of_ipam msg e = ApiInternal (msg e)"

definition api_of_endpoint :: "(endpoint_error \<Rightarrow> string) \<Rightarrow> endpoint_error \<Rightarrow> api_error" where
  "api_of_endpoint msg e = ApiInternal (msg e)"

datatype error_code = CodeNotFound | CodeBadRequest | CodeInternal | CodeNotImplemented

fun api_error_code :: "api_error \<Rightarrow> error_code" where
  "api_error_code (ApiNotFound _) = CodeNotFound"
| "api_error_code (ApiBadRequest _) = CodeBadRequest"
| "api_error_code (ApiInternal _) = CodeInternal"
| "api_error_code (ApiNotImplemented _) = CodeNotImplemented"

text \<open>The serde name of a code, and the text of \<open>ErrorResponse\<close>: a JSON object with the code and the escaped message.\<close>

fun error_code_text :: "error_code \<Rightarrow> string" where
  "error_code_text CodeNotFound = ''NOT_FOUND''"
| "error_code_text CodeBadRequest = ''BAD_REQUEST''"
| "error_code_text CodeInternal = ''INTERNAL''"
| "error_code_text CodeNotImplemented = ''NOT_IMPLEMENTED''"

definition json_char :: "char \<Rightarrow> string" where
  "json_char c =
     (let n = of_char c :: nat
      in if n = 0x22 \<or> n = 0x5C then [CHR 0x5C, c]
         else if n = 8 then [CHR 0x5C, CHR ''b''] else if n = 9 then [CHR 0x5C, CHR ''t'']
         else if n = 10 then [CHR 0x5C, CHR ''n''] else if n = 12 then [CHR 0x5C, CHR ''f'']
         else if n = 13 then [CHR 0x5C, CHR ''r'']
         else if n < 0x20 then CHR 0x5C # ''u00'' @ [digit_char (n div 16), digit_char (n mod 16)]
         else [c])"

definition json_string :: "string \<Rightarrow> string" where
  "json_string s = [CHR 0x22] @ concat (map json_char s) @ [CHR 0x22]"

definition error_json :: "error_code \<Rightarrow> string \<Rightarrow> string" where
  "error_json c m = ''{'' @ json_string ''code'' @ '':'' @ json_string (error_code_text c) @ '','' @
     json_string ''message'' @ '':'' @ json_string m @ ''}''"

datatype 'a body = JsonBody 'a | ErrorBody string | EmptyBody

type_synonym 'a response = "nat \<times> 'a body"

definition api_response :: "api_error \<Rightarrow> 'a response" where
  "api_response e = (api_error_status e, ErrorBody (error_json (api_error_code e) (api_message e)))"

datatype api_status = StatusOk | StatusNoContent

fun status_response :: "api_status \<Rightarrow> 'a response" where
  "status_response StatusOk = (200, EmptyBody)"
| "status_response StatusNoContent = (204, EmptyBody)"

text \<open>A handler: the response and the new state, or a panic, which closes the connection.\<close>

type_synonym ('s, 'a) handler = "'s \<Rightarrow> 'a response option \<times> 's"

section \<open>The daemon\<close>

record 'l daemon =
  dm_ipam :: ipam_service
  dm_manager :: "'l manager"

definition handle_allocate ::
  "ipnet_lib \<Rightarrow> (ipam_error \<Rightarrow> string) \<Rightarrow> (nat \<Rightarrow> nat) \<Rightarrow> (nat \<Rightarrow> nat) \<Rightarrow> string option \<Rightarrow> string option \<Rightarrow> string option \<Rightarrow>
     ('l daemon, ipam_allocate_response) handler" where
  "handle_allocate L msg rnd6 rnd4 fam own pool s =
     (case ipam_allocate L rnd6 rnd4 fam own pool (dm_ipam s) of
        (Ok r, svc) \<Rightarrow> (Some (200, JsonBody r), s\<lparr>dm_ipam := svc\<rparr>)
      | (Err e, svc) \<Rightarrow> (Some (api_response (api_of_ipam msg e)), s\<lparr>dm_ipam := svc\<rparr>))"

definition handle_allocate_ip ::
  "ipnet_lib \<Rightarrow> (ipam_error \<Rightarrow> string) \<Rightarrow> string \<Rightarrow> string option \<Rightarrow> string option \<Rightarrow> ('l daemon, unit) handler" where
  "handle_allocate_ip L msg ip own pool s =
     (case parse_ip ip of
        None \<Rightarrow> (Some (api_response (ApiBadRequest (''Invalid IP address: '' @ ip))), s)
      | Some a \<Rightarrow>
          (case ipam_allocate_ip L a own pool (dm_ipam s) of
             (Ok _, svc) \<Rightarrow> (Some (status_response StatusOk), s\<lparr>dm_ipam := svc\<rparr>)
           | (Err e, svc) \<Rightarrow> (Some (api_response (api_of_ipam msg e)), s\<lparr>dm_ipam := svc\<rparr>)))"

definition handle_release ::
  "ipnet_lib \<Rightarrow> (ipam_error \<Rightarrow> string) \<Rightarrow> string \<Rightarrow> string option \<Rightarrow> ('l daemon, unit) handler" where
  "handle_release L msg ip pool s =
     (case parse_ip ip of
        None \<Rightarrow> (Some (api_response (ApiBadRequest (''Invalid IP address: '' @ ip))), s)
      | Some a \<Rightarrow>
          (case ipam_release L a pool (dm_ipam s) of
             (Ok _, svc) \<Rightarrow> (Some (status_response StatusNoContent), s\<lparr>dm_ipam := svc\<rparr>)
           | (Err e, svc) \<Rightarrow> (Some (api_response (api_of_ipam msg e)), s\<lparr>dm_ipam := svc\<rparr>)))"

definition handle_dump ::
  "ipnet_lib \<Rightarrow> ('l daemon, (string \<times> string) list \<times> (string \<times> string) list \<times> string) handler" where
  "handle_dump L s = (map_option (\<lambda>r. (200, JsonBody r)) (ipam_dump L (dm_ipam s)), s)"

text \<open>Creating an endpoint; \<open>create\<close> is \<open>service_create\<close> with its parameters, in the client one per attempt.\<close>

definition handle_create ::
  "(endpoint_error \<Rightarrow> string) \<Rightarrow> ('l manager \<Rightarrow> (unit, endpoint_error) result option \<times> 'l manager) \<Rightarrow> ('l daemon, unit) handler" where
  "handle_create msg create s =
     (case create (dm_manager s) of
        (None, m) \<Rightarrow> (None, s\<lparr>dm_manager := m\<rparr>)
      | (Some (Ok _), m) \<Rightarrow> (Some (200, JsonBody ()), s\<lparr>dm_manager := m\<rparr>)
      | (Some (Err e), m) \<Rightarrow> (Some (api_response (api_of_endpoint msg e)), s\<lparr>dm_manager := m\<rparr>))"

definition handle_delete :: "(endpoint_error \<Rightarrow> string) \<Rightarrow> string \<Rightarrow> ('l daemon, unit) handler" where
  "handle_delete msg att s =
     (case service_delete att (dm_manager s) of
        (Ok _, m) \<Rightarrow> (Some (status_response StatusNoContent), s\<lparr>dm_manager := m\<rparr>)
      | (Err e, m) \<Rightarrow> (Some (api_response (api_of_endpoint msg e)), s\<lparr>dm_manager := m\<rparr>))"

definition handle_health :: "(endpoint_error \<Rightarrow> string) \<Rightarrow> string \<Rightarrow> ('l daemon, endpoint_health_status) handler" where
  "handle_health msg att s =
     (case service_health att (dm_manager s) of
        Ok r \<Rightarrow> (Some (200, JsonBody r), s)
      | Err e \<Rightarrow> (Some (api_response (api_of_endpoint msg e)), s))"

record daemon_config =
  device_mtu :: u32
  route_mtu :: u32

definition handle_config :: "('l daemon, daemon_config) handler" where
  "handle_config s = (Some (200, JsonBody \<lparr>device_mtu = 1500, route_mtu = 1500\<rparr>), s)"

definition handle_daemon_health :: "('l daemon, unit) handler" where
  "handle_daemon_health s = (Some (status_response StatusOk), s)"

section \<open>The client\<close>

datatype transport_error =
    NetworkError
  | HttpError
  | InvalidUri
  | JsonError
  | InvalidHost string
  | InvalidScheme string
  | ResourceNotExist string
  | UnexpectedStatus string nat string
  | TransportTimeout

text \<open>What happens to one attempt: the request cannot be built, the server cannot be reached, the answer is
  lost, or both arrive.\<close>

datatype delivery = NotBuilt | NotDelivered | ReplyLost | Delivered

record retry_policy =
  max_attempts :: u32
  retry_interval :: nat

definition retry_default :: retry_policy where
  "retry_default = \<lparr>max_attempts = 3, retry_interval = 500\<rparr>"

definition retry_none :: retry_policy where
  "retry_none = \<lparr>max_attempts = 1, retry_interval = 0\<rparr>"

text \<open>Where the client sends its requests. \<open>uri_ok\<close> says which texts parse as a \<open>Uri\<close>; \<open>sock\<close> is the variable
  \<open>SARENA_SOCKET\<close> of the environment.\<close>

definition DEFAULT_BASE_PATH :: string where
  "DEFAULT_BASE_PATH = ''/v1''"

datatype transport_kind = TcpTransport | UnixTransport string

fun split_once_str :: "string \<Rightarrow> string \<Rightarrow> (string \<times> string) option" where
  "split_once_str sep [] = (if sep = [] then Some ([], []) else None)"
| "split_once_str sep (x # xs) =
     (if take (length sep) (x # xs) = sep then Some ([], drop (length sep) (x # xs))
      else map_option (\<lambda>(a, b). (x # a, b)) (split_once_str sep xs))"

definition ascii_lower :: "string \<Rightarrow> string" where
  "ascii_lower = map (\<lambda>c. let n = of_char c :: nat in if 65 \<le> n \<and> n \<le> 90 then char_of (n + 32) else c)"

definition default_socket_path :: "string option \<Rightarrow> string" where
  "default_socket_path sock = (case sock of Some (c # cs) \<Rightarrow> c # cs | _ \<Rightarrow> ''/tmp/sarena.sock'')"

definition default_socket_path_protocol :: "string option \<Rightarrow> string" where
  "default_socket_path_protocol sock = ''unix://'' @ default_socket_path sock"

definition new_client_with_retry ::
  "(string \<Rightarrow> bool) \<Rightarrow> string option \<Rightarrow> string option \<Rightarrow> (transport_kind \<times> string, transport_error) result" where
  "new_client_with_retry uri_ok sock raw_host =
     (let raw = (case raw_host of Some h \<Rightarrow> h | None \<Rightarrow> default_socket_path_protocol sock);
          client = (\<lambda>kind host. let uri = host @ DEFAULT_BASE_PATH in if uri_ok uri then Ok (kind, uri) else Err InvalidUri)
      in case split_once_str ''://'' raw of
           None \<Rightarrow> Err (InvalidHost raw)
         | Some (scheme, host) \<Rightarrow>
             (if ascii_lower scheme = ''unix'' then client (UnixTransport host) ''http://localhost''
              else if ascii_lower scheme = ''tcp'' then client TcpTransport (''http://'' @ host)
              else Err (InvalidScheme scheme)))"

fun error_body :: "'a body \<Rightarrow> string" where
  "error_body (ErrorBody m) = m"
| "error_body _ = []"

definition status_error :: "string \<Rightarrow> 'a response \<Rightarrow> transport_error" where
  "status_error ep r =
     (if fst r = 404 then ResourceNotExist ep else UnexpectedStatus ep (fst r) (error_body (snd r)))"

fun is_retryable :: "transport_error \<Rightarrow> bool" where
  "is_retryable NetworkError = True"
| "is_retryable (UnexpectedStatus _ status _) = (500 \<le> status \<and> status \<le> 599)"
| "is_retryable _ = False"

text \<open>One attempt. The server handles every request that is delivered, whether or not the client learns of it.\<close>

definition try_send ::
  "delivery \<Rightarrow> string \<Rightarrow> ('s, 'a) handler \<Rightarrow> 's \<Rightarrow> ('a response, transport_error) result \<times> 's" where
  "try_send d ep h s =
     (case d of
        NotBuilt \<Rightarrow> (Err HttpError, s)
      | NotDelivered \<Rightarrow> (Err NetworkError, s)
      | ReplyLost \<Rightarrow> (Err NetworkError, snd (h s))
      | Delivered \<Rightarrow>
          (case h s of
             (None, s') \<Rightarrow> (Err NetworkError, s')
           | (Some r, s') \<Rightarrow>
               (if 200 \<le> fst r \<and> fst r \<le> 299 then Ok r else Err (status_error ep r), s')))"

text \<open>The loop of \<open>send_and_check\<close>, \<open>k\<close> attempts before the last one; \<open>h i\<close> is the handler at attempt \<open>i\<close>.\<close>

fun send_loop ::
  "nat \<Rightarrow> nat \<Rightarrow> (nat \<Rightarrow> delivery) \<Rightarrow> string \<Rightarrow> (nat \<Rightarrow> ('s, 'a) handler) \<Rightarrow> 's \<Rightarrow> ('a response, transport_error) result \<times> 's" where
  "send_loop 0 i d ep h s = try_send (d i) ep (h i) s"
| "send_loop (Suc k) i d ep h s =
     (case try_send (d i) ep (h i) s of
        (Ok r, s') \<Rightarrow> (Ok r, s')
      | (Err e, s') \<Rightarrow> if is_retryable e then send_loop k (i + 1) d ep h s' else (Err e, s'))"

definition send_and_check ::
  "retry_policy \<Rightarrow> (nat \<Rightarrow> delivery) \<Rightarrow> string \<Rightarrow> (nat \<Rightarrow> ('s, 'a) handler) \<Rightarrow> 's \<Rightarrow> ('a response, transport_error) result \<times> 's" where
  "send_and_check rp d ep h s = send_loop (max (unat (max_attempts rp)) 1 - 1) 0 d ep h s"

text \<open>\<open>get_api_data\<close>, \<open>put_api_data\<close> and \<open>put_api_data_with_headers\<close> decode the body, \<open>delete_api_data_no_body\<close>
  ignores it. An empty text is not JSON.\<close>

fun decode_body :: "'a body \<Rightarrow> ('a, transport_error) result" where
  "decode_body (JsonBody v) = Ok v"
| "decode_body _ = Err JsonError"

definition api_data ::
  "retry_policy \<Rightarrow> (nat \<Rightarrow> delivery) \<Rightarrow> string \<Rightarrow> (nat \<Rightarrow> ('s, 'a) handler) \<Rightarrow> 's \<Rightarrow> ('a, transport_error) result \<times> 's" where
  "api_data rp d ep h s =
     (case send_and_check rp d ep h s of
        (Err e, s') \<Rightarrow> (Err e, s')
      | (Ok r, s') \<Rightarrow> (decode_body (snd r), s'))"

definition api_no_body ::
  "retry_policy \<Rightarrow> (nat \<Rightarrow> delivery) \<Rightarrow> string \<Rightarrow> (nat \<Rightarrow> ('s, 'a) handler) \<Rightarrow> 's \<Rightarrow> (unit, transport_error) result \<times> 's" where
  "api_no_body rp d ep h s =
     (case send_and_check rp d ep h s of
        (Err e, s') \<Rightarrow> (Err e, s')
      | (Ok _, s') \<Rightarrow> (Ok (), s'))"

text \<open>\<open>PathBuilder\<close>: a path and its query. \<open>enc\<close> is the encoding of \<open>form_urlencoded\<close>.\<close>

record path_builder =
  pb_path :: string
  pb_query :: string

definition pb_new :: "string \<Rightarrow> path_builder" where
  "pb_new p = \<lparr>pb_path = p, pb_query = []\<rparr>"

definition query_opt :: "(string \<Rightarrow> string) \<Rightarrow> string \<Rightarrow> string option \<Rightarrow> path_builder \<Rightarrow> path_builder" where
  "query_opt enc key v p =
     (case v of None \<Rightarrow> p
      | Some x \<Rightarrow> p\<lparr>pb_query := pb_query p @ (if pb_query p = [] then [] else ''&'') @ enc key @ ''='' @ enc x\<rparr>)"

definition pb_build :: "path_builder \<Rightarrow> string" where
  "pb_build p = (if pb_query p = [] then pb_path p else pb_path p @ ''?'' @ pb_query p)"

definition client_allocate where
  "client_allocate enc rp d L msg rnd6 rnd4 fam own pool s =
     api_data rp d (pb_build (query_opt enc ''pool'' pool (query_opt enc ''owner'' own (query_opt enc ''family'' fam (pb_new ''/ipam'')))))
       (\<lambda>i. handle_allocate L msg (rnd6 i) (rnd4 i) fam own pool) s"

definition client_allocate_ip where
  "client_allocate_ip enc rp d L msg ip own pool s =
     api_data rp d (pb_build (query_opt enc ''pool'' pool (query_opt enc ''owner'' own (pb_new (''/ipam/'' @ ip)))))
       (\<lambda>_. handle_allocate_ip L msg ip own pool) s"

definition client_release where
  "client_release enc rp d L msg ip pool s =
     api_no_body rp d (pb_build (query_opt enc ''pool'' pool (pb_new (''/ipam/'' @ ip)))) (\<lambda>_. handle_release L msg ip pool) s"

definition attachment_id :: "string \<Rightarrow> string \<Rightarrow> string" where
  "attachment_id container ifname = ''cni-attachment-id:'' @ container @ '':'' @ ifname"

definition client_create where
  "client_create rp d msg att create s = api_data rp d (''/endpoint/'' @ att) (\<lambda>i. handle_create msg (create i)) s"

definition client_delete where
  "client_delete rp d msg att s = api_no_body rp d (''/endpoint/'' @ att) (\<lambda>_. handle_delete msg att) s"

definition client_health where
  "client_health rp d msg att s = api_data rp d (''/endpoint/'' @ att @ ''/health'') (\<lambda>_. handle_health msg att) s"

definition client_config where
  "client_config rp d s = api_data rp d ''/daemon/config'' (\<lambda>_. handle_config) s"

definition client_daemon_health where
  "client_daemon_health rp d s = api_no_body rp d ''/daemon/health'' (\<lambda>_. handle_daemon_health) s"

section \<open>Retries\<close>

text \<open>The state after the server has handled the request at the attempts \<open>js\<close>.\<close>

definition handled :: "(nat \<Rightarrow> ('s, 'a) handler) \<Rightarrow> nat list \<Rightarrow> 's \<Rightarrow> 's" where
  "handled h js s = fold (\<lambda>j s. snd (h j s)) js s"

definition retry_post ::
  "nat \<Rightarrow> nat \<Rightarrow> (nat \<Rightarrow> ('s, 'a) handler) \<Rightarrow> 's \<Rightarrow> ('a response, transport_error) result \<Rightarrow> 's \<Rightarrow> bool" where
  "retry_post i n h s res s' \<longleftrightarrow> (\<exists>js. sorted_wrt (<) js \<and> set js \<subseteq> {i..i + n} \<and> s' = handled h js s \<and>
     (\<forall>r. res = Ok r \<longrightarrow> js \<noteq> [] \<and> fst (h (last js) (handled h (butlast js) s)) = Some r \<and> 200 \<le> fst r \<and> fst r \<le> 299))"

lemma try_send_post:
  assumes "try_send d ep (h i) s = (res, s')"
  shows "\<exists>js. (js = [] \<or> js = [i]) \<and> s' = handled h js s \<and>
     (\<forall>r. res = Ok r \<longrightarrow> js = [i] \<and> fst (h i s) = Some r \<and> 200 \<le> fst r \<and> fst r \<le> 299)"
proof (cases d)
  case Delivered
  then show ?thesis using assms
    by (intro exI [of _ "[i]"]) (auto simp: try_send_def handled_def split: prod.splits option.splits if_splits)
next
  case NotDelivered
  then show ?thesis using assms by (intro exI [of _ "[]"]) (auto simp: try_send_def handled_def)
next
  case NotBuilt
  then show ?thesis using assms by (intro exI [of _ "[]"]) (auto simp: try_send_def handled_def)
next
  case ReplyLost
  then show ?thesis using assms by (intro exI [of _ "[i]"]) (auto simp: try_send_def handled_def)
qed

lemma send_loop_post: "send_loop k i d ep h s = (res, s') \<Longrightarrow> retry_post i k h s res s'"
proof (induction k arbitrary: i s)
  case 0
  then obtain js where "js = [] \<or> js = [i]" "s' = handled h js s"
    "\<forall>r. res = Ok r \<longrightarrow> js = [i] \<and> fst (h i s) = Some r \<and> 200 \<le> fst r \<and> fst r \<le> 299"
    using try_send_post [of "d i" ep h i s res s'] by auto
  then show ?case unfolding retry_post_def by (intro exI [of _ js]) (auto simp: handled_def)
next
  case (Suc k)
  obtain r1 s1 where t: "try_send (d i) ep (h i) s = (r1, s1)" by fastforce
  obtain js where js: "js = [] \<or> js = [i]" "s1 = handled h js s"
    "\<forall>r. r1 = Ok r \<longrightarrow> js = [i] \<and> fst (h i s) = Some r \<and> 200 \<le> fst r \<and> fst r \<le> 299"
    using try_send_post [of "d i" ep h i s r1 s1] t by blast
  show ?case
  proof (cases "\<exists>e. r1 = Err e \<and> is_retryable e")
    case True
    then have "send_loop k (i + 1) d ep h s1 = (res, s')" using Suc.prems t by auto
    from Suc.IH [OF this] obtain ks where ks: "sorted_wrt (<) ks" "set ks \<subseteq> {i + 1..i + 1 + k}" "s' = handled h ks s1"
      "\<forall>r. res = Ok r \<longrightarrow> ks \<noteq> [] \<and> fst (h (last ks) (handled h (butlast ks) s1)) = Some r \<and> 200 \<le> fst r \<and> fst r \<le> 299"
      unfolding retry_post_def by blast
    have "handled h (js @ ks) s = s'" "handled h (js @ butlast ks) s = handled h (butlast ks) s1"
      using js(2) ks(3) by (simp_all add: handled_def)
    moreover have "sorted_wrt (<) (js @ ks)" "set (js @ ks) \<subseteq> {i..i + Suc k}" using js(1) ks(1,2) by (auto simp: sorted_wrt_append)
    ultimately show ?thesis unfolding retry_post_def using ks(4)
      by (intro exI [of _ "js @ ks"]) (auto simp: butlast_append)
  next
    case False
    then have "res = r1 \<and> s' = s1" using Suc.prems t by (cases r1) auto
    then show ?thesis unfolding retry_post_def using js
      by (intro exI [of _ js]) (auto simp: handled_def)
  qed
qed

abbreviation success :: "'a response \<Rightarrow> bool" where
  "success r \<equiv> 200 \<le> fst r \<and> fst r \<le> 299"

text \<open>Every handled attempt keeps what the handler keeps.\<close>

lemma handled_keeps:
  "(\<And>j s. I s \<Longrightarrow> I (snd (h j s))) \<Longrightarrow> I s \<Longrightarrow> I (handled h js s)"
  by (induction js arbitrary: s) (simp_all add: handled_def)

lemma send_and_check_keeps:
  assumes "\<And>j s. I s \<Longrightarrow> I (snd (h j s))" "I s" "send_and_check rp d ep h s = (res, s')"
  shows "I s'"
  using send_loop_post [OF assms(3) [unfolded send_and_check_def]] handled_keeps [of I h, OF assms(1,2)]
  unfolding retry_post_def by blast

lemma send_and_check_answer:
  assumes "\<And>j s. I s \<Longrightarrow> I (snd (h j s))" "I s" "send_and_check rp d ep h s = (Ok r, s')"
  shows "\<exists>j t. I t \<and> h j t = (Some r, s') \<and> success r"
proof -
  from send_loop_post [OF assms(3) [unfolded send_and_check_def]]
  obtain js where js: "s' = handled h js s" "js \<noteq> []" "fst (h (last js) (handled h (butlast js) s)) = Some r" "success r"
    unfolding retry_post_def by blast
  have "s' = snd (h (last js) (handled h (butlast js) s))"
    using js(1,2) unfolding handled_def by (metis (no_types, lifting) append_butlast_last_id comp_apply fold_Cons fold_Nil fold_append id_apply)
  then show ?thesis using js(3,4) handled_keeps [of I h, OF assms(1,2)] by (metis prod.collapse)
qed

text \<open>When no answer is lost, the attempts before a success failed.\<close>

lemma send_loop_no_loss:
  assumes "\<And>j. d j \<noteq> ReplyLost" "\<And>j s r s'. I s \<Longrightarrow> h j s = (r, s') \<Longrightarrow> \<forall>x. r = Some x \<longrightarrow> \<not> success x \<Longrightarrow> I s'"
    "\<And>j s r s'. I s \<Longrightarrow> h j s = (Some r, s') \<Longrightarrow> success r \<Longrightarrow> Q r s'"
    "send_loop k i d ep h s = (res, s')" "I s"
  shows "case res of Ok r \<Rightarrow> Q r s' | Err _ \<Rightarrow> I s'"
proof -
  have one: "case r of Ok x \<Rightarrow> Q x t' | Err _ \<Rightarrow> I t'" if "try_send (d j) ep (h j) t = (r, t')" "I t" for j t r t'
  proof (cases "d j")
    case Delivered
    obtain a u where a: "h j t = (a, u)" by fastforce
    show ?thesis
    proof (cases "\<exists>x. a = Some x \<and> success x")
      case True
      then show ?thesis using assms(3) [OF that(2), of j] a that(1) Delivered by (auto simp: try_send_def)
    next
      case False
      then show ?thesis using assms(2) [OF that(2) a] a that(1) Delivered
        by (cases a) (auto simp: try_send_def)
    qed
  qed (use that assms(1) [of j] in \<open>auto simp: try_send_def\<close>)
  show ?thesis using assms(4,5)
  proof (induction k arbitrary: i s)
    case 0
    then show ?case using one by simp
  next
    case (Suc k)
    obtain r t where t: "try_send (d i) ep (h i) s = (r, t)" by fastforce
    show ?case
    proof (cases r)
      case (Ok x)
      then show ?thesis using one [OF t Suc.prems(2)] Suc.prems(1) t by auto
    next
      case (Err e)
      then have "I t" using one [OF t Suc.prems(2)] by simp
      then show ?thesis using Suc t Err by (auto split: if_splits)
    qed
  qed
qed

lemma max_attempts_default: "max (unat (max_attempts retry_default)) 1 - 1 = 2"
  by (simp add: retry_default_def)

lemma send_and_check_no_loss:
  assumes "\<And>j. d j \<noteq> ReplyLost" "\<And>j s r s'. I s \<Longrightarrow> h j s = (r, s') \<Longrightarrow> \<forall>x. r = Some x \<longrightarrow> \<not> success x \<Longrightarrow> I s'"
    "\<And>j s r s'. I s \<Longrightarrow> h j s = (Some r, s') \<Longrightarrow> success r \<Longrightarrow> Q r s'"
    "send_and_check rp d ep h s = (res, s')" "I s"
  shows "case res of Ok r \<Rightarrow> Q r s' | Err _ \<Rightarrow> I s'"
  using send_loop_no_loss [of d I h Q, OF assms(1-3) assms(4) [unfolded send_and_check_def] assms(5)] .

text \<open>A request arrives when one of its attempts reaches the server before the client gives up.\<close>

definition arrives :: "(nat \<Rightarrow> delivery) \<Rightarrow> bool" where
  "arrives d \<longleftrightarrow> d 0 = Delivered \<or> d 0 = ReplyLost \<or> d 0 = NotDelivered \<and>
     (d 1 = Delivered \<or> d 1 = ReplyLost \<or> d 1 = NotDelivered \<and> (d 2 = Delivered \<or> d 2 = ReplyLost))"

lemma try_send_NotDelivered: "try_send NotDelivered ep h s = (Err NetworkError, s)"
  by (simp add: try_send_def)

lemma send_loop_reached:
  assumes "d i = Delivered \<or> d i = ReplyLost" "\<And>j s. I s \<Longrightarrow> J (snd (h j s))" "\<And>s. J s \<Longrightarrow> I s"
    "send_loop k i d ep h s = (res, s')" "I s"
  shows "J s'"
proof -
  obtain r t where t: "try_send (d i) ep (h i) s = (r, t)" by fastforce
  have "t = snd (h i s)" using assms(1) t by (auto simp: try_send_def split: prod.splits option.splits)
  then have jt: "J t" using assms(2,5) by simp
  have keep: "J (snd (h j s))" if "J s" for j s using that assms(2,3) by blast
  show ?thesis
  proof (cases k)
    case 0
    then show ?thesis using assms(4) t jt by simp
  next
    case (Suc k')
    show ?thesis
    proof (cases "\<exists>e. r = Err e \<and> is_retryable e")
      case True
      then have "send_loop k' (i + 1) d ep h t = (res, s')" using assms(4) Suc t by auto
      from send_loop_post [OF this] show ?thesis using handled_keeps [of J h, OF keep jt] unfolding retry_post_def by blast
    next
      case False
      then show ?thesis using assms(4) Suc t jt by (cases r) auto
    qed
  qed
qed

lemma send_and_check_reached:
  assumes "arrives d" "\<And>j s. I s \<Longrightarrow> J (snd (h j s))" "\<And>s. J s \<Longrightarrow> I s"
    "send_and_check retry_default d ep h s = (res, s')" "I s"
  shows "J s'"
proof -
  note r = send_loop_reached [where I = I and J = J and h = h and d = d, OF _ assms(2,3) _ assms(5)]
  have l: "send_loop 2 0 d ep h s = (res, s')" using assms(4) unfolding send_and_check_def max_attempts_default .
  have n0: "send_loop 1 1 d ep h s = (res, s')" if "d 0 = NotDelivered"
    using l that by (simp add: numeral_2_eq_2 try_send_NotDelivered)
  have n1: "send_loop 0 2 d ep h s = (res, s')" if "d 0 = NotDelivered" "d 1 = NotDelivered"
    using n0 [OF that(1)] that(2) by (simp add: try_send_NotDelivered numeral_2_eq_2)
  show ?thesis using assms(1) unfolding arrives_def using r l n0 n1 by blast
qed

section \<open>Grants\<close>

definition granted_texts :: "ipam_allocate_response \<Rightarrow> string set" where
  "granted_texts r = ca_ip ` (set_option (resp_ipv4 r) \<union> set_option (resp_ipv6 r))"

abbreviation daemon_used :: "'l daemon \<Rightarrow> ip_addr set" where
  "daemon_used s \<equiv> ipam_used (svc_state (dm_ipam s))"

abbreviation daemon_inv :: "'l daemon \<Rightarrow> bool" where
  "daemon_inv s \<equiv> ipam_inv (svc_state (dm_ipam s))"

lemma ipam_allocate_grants:
  assumes "ipnet_docs L" "ipam_inv (svc_state svc)" "pool \<noteq> Some []" "ipam_allocate L rnd6 rnd4 fam own pool svc = (res, svc')"
  shows "ipam_inv (svc_state svc') \<and> ipam_used (svc_state svc) \<subseteq> ipam_used (svc_state svc') \<and> gateway_ip svc' = gateway_ip svc \<and>
    same_config (svc_state svc) (svc_state svc') \<and>
    (\<forall>r. res = Ok r \<longrightarrow> granted_texts r \<subseteq> ip_str ` (ipam_used (svc_state svc') - ipam_used (svc_state svc)))"
proof -
  let ?req = "if fam = Some ''ipv4'' then Some Ipv4 else if fam = Some ''ipv6'' then Some Ipv6 else None"
  let ?own = "unwrap_or [] own" and ?pool = "unwrap_or POOL_DEFAULT pool" and ?st = "svc_state svc"
  obtain r st' where a: "allocate_next L rnd6 rnd4 ?req ?own ?pool ?st = (r, st')" by fastforce
  have p: "?pool \<noteq> []" using assms(3) by (cases pool) (auto simp: unwrap_or_def POOL_DEFAULT_def)
  note post = allocate_next_correct [OF assms(1,2) p a]
  have s: "svc' = svc\<lparr>svc_state := st'\<rparr>" using assms(4) a by (auto simp: ipam_allocate_def Let_def split: result.splits)
  have "granted_texts x \<subseteq> ip_str ` (ipam_used st' - ipam_used ?st)" if x: "res = Ok x" for x
  proof -
    obtain r4 r6 where r: "r = Ok (r4, r6)" "resp_ipv4 x = map_option to_addressing r4" "resp_ipv6 x = map_option to_addressing r6"
      using assms(4) a x by (auto simp: ipam_allocate_def Let_def split: result.splits)
    have "ar_ip y \<in> ipam_used st' - ipam_used ?st" if "r4 = Some y \<or> r6 = Some y" for y
      using post that unfolding r(1) both_post_def by (auto simp: grant_ok_def ipam_avail_def)
    then show ?thesis by (auto simp: granted_texts_def r(2,3) to_addressing_def)
  qed
  then show ?thesis using post by (simp add: s both_post_def)
qed

lemma handle_allocate_grants:
  assumes "ipnet_docs L" "daemon_inv s" "pool \<noteq> Some []" "handle_allocate L msg rnd6 rnd4 fam own pool s = (resp, s')"
  shows "daemon_inv s' \<and> daemon_used s \<subseteq> daemon_used s' \<and>
    (\<forall>r. resp = Some (200, JsonBody r) \<longrightarrow> granted_texts r \<subseteq> ip_str ` (daemon_used s' - daemon_used s))"
proof -
  obtain res svc where a: "ipam_allocate L rnd6 rnd4 fam own pool (dm_ipam s) = (res, svc)" by fastforce
  have "s' = s\<lparr>dm_ipam := svc\<rparr>" "\<forall>r. resp = Some (200, JsonBody r) \<longrightarrow> res = Ok r"
    using assms(4) a by (auto simp: handle_allocate_def api_response_def split: result.splits)
  then show ?thesis using ipam_allocate_grants [OF assms(1-3) a] by auto
qed

section \<open>Properties\<close>

text \<open>What the retries of the client amount to. The server handles a request at most as often as the
  policy allows attempts, in order, and the state it ends in is that of these attempts alone; a success the client sees is the
  server's answer to the last of them.\<close>

lemma retries_bounded:
  assumes "send_and_check rp d ep h s = (res, s')"
  shows "\<exists>js. length js \<le> max (unat (max_attempts rp)) 1 \<and> sorted_wrt (<) js \<and>
    set js \<subseteq> {..<max (unat (max_attempts rp)) 1} \<and> s' = handled h js s \<and>
    (\<forall>r. res = Ok r \<longrightarrow> js \<noteq> [] \<and> fst (h (last js) (handled h (butlast js) s)) = Some r \<and> 200 \<le> fst r \<and> fst r \<le> 299)"
proof -
  let ?n = "max (unat (max_attempts rp)) 1"
  have "retry_post 0 (?n - 1) h s res s'" using assms unfolding send_and_check_def by (rule send_loop_post)
  then obtain js where js: "sorted_wrt (<) js" "set js \<subseteq> {0..0 + (?n - 1)}" "s' = handled h js s"
    "\<forall>r. res = Ok r \<longrightarrow> js \<noteq> [] \<and> fst (h (last js) (handled h (butlast js) s)) = Some r \<and> 200 \<le> fst r \<and> fst r \<le> 299"
    unfolding retry_post_def by blast
  have sub: "set js \<subseteq> {..<?n}" using js(2) by auto
  have "distinct js" using js(1) by (simp add: strict_sorted_iff)
  then have "length js \<le> ?n" using card_mono [OF _ sub] distinct_card [of js] by simp
  then show ?thesis using js sub by blast
qed

lemma retries_bounded_witness:
  "\<exists>js. length js \<le> 3 \<and> snd (send_and_check retry_default (\<lambda>_. Delivered) ''x'' (\<lambda>_ n. (Some (500, EmptyBody :: unit body), n + 1)) (0 :: nat)) =
     handled (\<lambda>_ n. (Some (500, EmptyBody :: unit body), n + 1)) js 0"
proof -
  have m: "max (unat (max_attempts retry_default)) 1 = 3" by (simp add: retry_default_def)
  show ?thesis
    using retries_bounded [of retry_default "\<lambda>_. Delivered" "''x''" "\<lambda>_ n. (Some (500, EmptyBody :: unit body), n + 1)" "0 :: nat", OF prod.collapse [symmetric]]
    unfolding m by blast
qed

definition sample_ipam :: ipam_service where
  "sample_ipam = ipam_new ipnet_ref (V4 1) None (Some (NetV6 0 126))"

definition sample_daemon :: "unit daemon" where
  "sample_daemon = \<lparr>dm_ipam = sample_ipam, dm_manager = manager_new () no_entries\<rparr>"

lemma sample_daemon_ipam: "dm_ipam sample_daemon = sample_ipam"
  by (simp add: sample_daemon_def)

lemma sample_daemon_inv: "daemon_inv sample_daemon"
  unfolding sample_daemon_def sample_ipam_def daemon.simps by (rule ipam_new_inv) (simp_all add: ipnet_docs_ref net_wf_def)

abbreviation "lossy \<equiv> (\<lambda>n :: nat. if n = 0 then ReplyLost else Delivered)"

text \<open>C36: a lost answer leaks an address. When the answer to an allocation is lost and the client asks again, the server grants
  a second address: both are in use afterwards, and the client knows only the second.\<close>

theorem lost_answer_leaks_address:
  assumes "ipnet_docs L" "daemon_inv s" "pool \<noteq> Some []" "d 0 = ReplyLost" "d 1 = Delivered"
    "ipam_allocate L (rnd6 0) (rnd4 0) fam own pool (dm_ipam s) = (Ok r0, svc0)"
    "ipam_allocate L (rnd6 1) (rnd4 1) fam own pool svc0 = (Ok r, svc1)"
    "client_allocate enc retry_default d L msg rnd6 rnd4 fam own pool s = (res, s')"
  shows "res = Ok r \<and> granted_texts r0 \<inter> granted_texts r = {} \<and>
    granted_texts r0 \<union> granted_texts r \<subseteq> ip_str ` (daemon_used s' - daemon_used s)"
proof -
  note g0 = ipam_allocate_grants [OF assms(1-3,6)]
  note g1 = ipam_allocate_grants [OF assms(1) _ assms(3,7)]
  have k: "max (unat (max_attempts retry_default)) 1 - 1 = Suc (Suc 0)" by (simp add: retry_default_def)
  have s': "res = Ok r" "s' = s\<lparr>dm_ipam := svc1\<rparr>"
    using assms(4-8) unfolding client_allocate_def api_data_def send_and_check_def k
    by (auto simp: try_send_def handle_allocate_def)
  have 0: "granted_texts r0 \<subseteq> ip_str ` (ipam_used (svc_state svc0) - ipam_used (svc_state (dm_ipam s)))"
    and 1: "granted_texts r \<subseteq> ip_str ` (ipam_used (svc_state svc1) - ipam_used (svc_state svc0))"
    and m: "ipam_used (svc_state (dm_ipam s)) \<subseteq> ipam_used (svc_state svc0)" "ipam_used (svc_state svc0) \<subseteq> ipam_used (svc_state svc1)"
    using g0 g1 by auto
  let ?A = "ipam_used (svc_state svc0) - ipam_used (svc_state (dm_ipam s))"
    and ?B = "ipam_used (svc_state svc1) - ipam_used (svc_state svc0)"
  have "?A \<inter> ?B = {}" by auto
  then have "ip_str ` ?A \<inter> ip_str ` ?B = {}" by (simp only: image_Int [OF inj_ip_str, symmetric] image_empty)
  then have "granted_texts r0 \<inter> granted_texts r = {}" using 0 1 by (metis Int_mono subset_empty)
  moreover have "granted_texts r0 \<union> granted_texts r \<subseteq> ip_str ` (daemon_used s' - daemon_used s)"
  proof -
    have "?A \<union> ?B \<subseteq> daemon_used s' - daemon_used s" unfolding s'(2) using m by auto
    then have "ip_str ` ?A \<union> ip_str ` ?B \<subseteq> ip_str ` (daemon_used s' - daemon_used s)" by (metis image_Un image_mono)
    then show ?thesis using 0 1 by (meson Un_mono order_trans)
  qed
  ultimately show ?thesis using s'(1) by blast
qed

theorem lost_answer_leaks_address_witness:
  "\<exists>r0 r s'. client_allocate (\<lambda>x. x) retry_default lossy ipnet_ref (\<lambda>_. []) (\<lambda>_ _. 0) (\<lambda>_ _. 0) None None None sample_daemon = (Ok r, s') \<and>
     granted_texts r0 = {''::1''} \<and> granted_texts r = {''::2''} \<and>
     granted_texts r0 \<union> granted_texts r \<subseteq> ip_str ` (daemon_used s' - daemon_used sample_daemon)"
proof -
  let ?al = "ipam_allocate ipnet_ref (\<lambda>_. 0) (\<lambda>_. 0) None None None"
  have v: "map_option ca_ip (case fst (?al sample_ipam) of Ok r \<Rightarrow> resp_ipv6 r | Err _ \<Rightarrow> None) = Some ''::1''"
    "map_option ca_ip (case fst (?al sample_ipam) of Ok r \<Rightarrow> resp_ipv4 r | Err _ \<Rightarrow> None) = None"
    "is_ok (fst (?al sample_ipam))"
    "map_option ca_ip (case fst (?al (snd (?al sample_ipam))) of Ok r \<Rightarrow> resp_ipv6 r | Err _ \<Rightarrow> None) = Some ''::2''"
    "map_option ca_ip (case fst (?al (snd (?al sample_ipam))) of Ok r \<Rightarrow> resp_ipv4 r | Err _ \<Rightarrow> None) = None"
    "is_ok (fst (?al (snd (?al sample_ipam))))"
    by code_simp+
  obtain r0 svc0 where 0: "?al sample_ipam = (Ok r0, svc0)" using v(3) by (metis is_ok_iff prod.collapse)
  obtain r svc1 where 1: "?al svc0 = (Ok r, svc1)" using v(6) 0 by (metis is_ok_iff prod.collapse snd_conv)
  obtain res s' where c: "client_allocate (\<lambda>x. x) retry_default lossy ipnet_ref (\<lambda>_. []) (\<lambda>_ _. 0) (\<lambda>_ _. 0) None None None sample_daemon = (res, s')"
    by fastforce
  have g: "granted_texts r0 = {''::1''}" "granted_texts r = {''::2''}"
    using v 0 1 by (auto simp: granted_texts_def)
  from lost_answer_leaks_address [OF ipnet_docs_ref sample_daemon_inv _ _ _ 0 [folded sample_daemon_ipam] 1 c] have
    "res = Ok r" "granted_texts r0 \<union> granted_texts r \<subseteq> ip_str ` (daemon_used s' - daemon_used sample_daemon)" by simp_all
  with c g show ?thesis by blast
qed

text \<open>\<open>allocate_ip\<close> of the client never succeeds. The server answers a granted address with an empty body, which the client
  cannot decode: it reports an error although the address is in use.\<close>

lemma client_allocate_ip_fails:
  assumes "client_allocate_ip enc rp d L msg (ip_str ip) own pool s = (res, s')"
  shows "res \<noteq> Ok () \<and>
    (d 0 = Delivered \<and> fst (ipam_allocate_ip L ip own pool (dm_ipam s)) = Ok () \<longrightarrow>
       res = Err JsonError \<and> dm_ipam s' = snd (ipam_allocate_ip L ip own pool (dm_ipam s)))"
proof -
  let ?h = "\<lambda>_ :: nat. handle_allocate_ip L msg (ip_str ip) own pool"
    and ?ep = "pb_build (query_opt enc ''pool'' pool (query_opt enc ''owner'' own (pb_new (''/ipam/'' @ ip_str ip))))"
  obtain r1 s1 where c: "send_and_check rp d ?ep ?h s = (r1, s1)" by fastforce
  have b: "fst (handle_allocate_ip L msg (ip_str ip) own pool t) = Some r \<Longrightarrow> decode_body (snd r) = Err JsonError"
    for t :: "'a daemon" and r
    by (auto simp: handle_allocate_ip_def api_response_def parse_ip_str split: result.splits prod.splits)
  have "decode_body (snd r) = Err JsonError" if "r1 = Ok r" for r
    using send_loop_post [OF c [unfolded send_and_check_def]] that b unfolding retry_post_def by blast
  then have 1: "res \<noteq> Ok ()" using assms c by (cases r1) (auto simp: client_allocate_ip_def api_data_def)
  have "res = Err JsonError \<and> dm_ipam s' = snd (ipam_allocate_ip L ip own pool (dm_ipam s))"
    if d: "d 0 = Delivered" "fst (ipam_allocate_ip L ip own pool (dm_ipam s)) = Ok ()"
  proof -
    obtain svc where a: "ipam_allocate_ip L ip own pool (dm_ipam s) = (Ok (), svc)" using d(2) by (metis prod.collapse)
    have t: "try_send (d 0) ?ep (?h 0) s = (Ok (200, EmptyBody), s\<lparr>dm_ipam := svc\<rparr>)"
      using d(1) a by (simp add: try_send_def handle_allocate_ip_def parse_ip_str)
    have "send_loop k 0 d ?ep ?h s = (Ok (200, EmptyBody), s\<lparr>dm_ipam := svc\<rparr>)" for k
      using t by (cases k) simp_all
    then have "(res, s') = (Err JsonError, s\<lparr>dm_ipam := svc\<rparr>)"
      using assms by (simp add: client_allocate_ip_def api_data_def send_and_check_def)
    then show ?thesis using a by simp
  qed
  with 1 show ?thesis by blast
qed

lemma client_allocate_ip_fails_witness:
  "fst (client_allocate_ip (\<lambda>x. x) retry_default (\<lambda>_. Delivered) ipnet_ref (\<lambda>_. []) (ip_str (V6 2)) None None sample_daemon) = Err JsonError"
proof -
  have "fst (ipam_allocate_ip ipnet_ref (V6 2) None None (dm_ipam sample_daemon)) = Ok ()"
    by (simp add: sample_daemon_ipam sample_ipam_def ipam_new_def hs_new_def hs_size_def bm_new_def ipam_allocate_ip_def allocate_ip_def
        hs_allocate_def hs_contains_def bm_allocate_def get_bit_def ipnet_ref_def unwrap_or_def POOL_DEFAULT_def)
  then show ?thesis
    using client_allocate_ip_fails [of "\<lambda>x. x" retry_default "\<lambda>_. Delivered" ipnet_ref "\<lambda>_. []" "V6 2" None None sample_daemon, OF prod.collapse [symmetric]]
    by blast
qed

end
