(* ===== verification/Network.thy ===== *)
theory Network
  imports Interface_Address Dataplane_Types
begin

text \<open>
  Links and their provisioner: the traits \<open>NetworkProvisioner\<close>, \<open>Link\<close> and \<open>TcxAttach\<close> of
  \<open>sarena-infra/src/lib.rs\<close>, and the implementation in memory of \<open>mock_link.rs\<close> and
  \<open>mock_provisioner.rs\<close>, which records the calls made on it. The operations the CNI plugin uses are the
  fields of \<open>net_ops\<close>; a link is a handle \<open>'k\<close>, the network a state \<open>'n\<close>. Counters are 32-bit words.
\<close>

section \<open>The operations of a network\<close>

record veth_spec =
  vs_host_ifname :: string
  vs_host_mac :: "mac_address option"
  vs_peer_ifname :: string
  vs_peer_mac :: "mac_address option"

record 'k veth_pair =
  vp_host :: 'k
  vp_peer :: 'k

type_synonym ('n, 'k) link_op = "'k \<Rightarrow> 'n \<Rightarrow> ('k, infra_error) result \<times> 'n"

text \<open>\<open>Netns::open_path\<close> is the only call on a namespace: a namespace is its path. An operation on a link returns
  the handle after it.\<close>

record ('n, 'k) net_ops =
  open_ns :: "string \<Rightarrow> 'n \<Rightarrow> (unit, infra_error) result"
  create_veth :: "veth_spec \<Rightarrow> 'n \<Rightarrow> ('k veth_pair, infra_error) result \<times> 'n"
  delete_link_in_ns :: "string \<Rightarrow> string \<Rightarrow> 'n \<Rightarrow> (unit, infra_error) result \<times> 'n"
  get_link_in_ns :: "string \<Rightarrow> string \<Rightarrow> 'n \<Rightarrow> ('k, infra_error) result"
  lk_ifname :: "'k \<Rightarrow> string"
  lk_ifindex :: "'k \<Rightarrow> u32"
  lk_mac :: "'k \<Rightarrow> mac_address option"
  lk_addresses :: "address_family option \<Rightarrow> 'k \<Rightarrow> 'n \<Rightarrow> (interface_address list, infra_error) result"
  lk_set_up :: "('n, 'k) link_op"
  lk_set_mtu :: "u32 \<Rightarrow> ('n, 'k) link_op"
  lk_set_ns :: "string \<Rightarrow> ('n, 'k) link_op"
  lk_rename :: "string \<Rightarrow> ('n, 'k) link_op"
  lk_add_addr :: "interface_address \<Rightarrow> ('n, 'k) link_op"
  lk_add_route :: "ip_route \<Rightarrow> ('n, 'k) link_op"
  lk_set_rp_filter :: "u8 \<Rightarrow> ('n, 'k) link_op"

section \<open>Links in memory\<close>

record mock_link =
  ml_ifname :: string
  ml_ifindex :: u32
  ml_mac :: mac_address
  ml_peer_ifname :: "string option"
  ml_up_calls :: u32
  ml_down_calls :: u32
  ml_mtu_calls :: "u32 list"
  ml_mac_calls :: "mac_address list"
  ml_addr_calls :: "interface_address list"
  ml_replace_addr_calls :: "interface_address list"
  ml_delete_addr_calls :: "interface_address list"
  ml_gateway_calls :: "u32 list"
  ml_route_calls :: "ip_route list"
  ml_ipv4_forwarding_calls :: "bool list"
  ml_ipv6_forwarding_calls :: "bool list"
  ml_ipv6_disable_calls :: "bool list"
  ml_rp_filter_calls :: "u8 list"
  ml_accept_local_calls :: "bool list"
  ml_send_redirects_calls :: "bool list"
  ml_arp_calls :: "bool list"
  ml_rename_calls :: "string list"
  ml_setns_calls :: "string list"
  ml_delete_calls :: u32
  ml_netns :: "string option"
  ml_tcx_upsert_calls :: "(string \<times> hook) list"
  ml_tcx_has_link_calls :: "(string \<times> hook) list"
  ml_has_tcx_link_result :: bool
  ml_next_link_id :: u32

definition mock_link_default :: mock_link where
  "mock_link_default = \<lparr>ml_ifname = [], ml_ifindex = 0, ml_mac = MacAddress (replicate 6 0), ml_peer_ifname = None,
     ml_up_calls = 0, ml_down_calls = 0, ml_mtu_calls = [], ml_mac_calls = [], ml_addr_calls = [], ml_replace_addr_calls = [],
     ml_delete_addr_calls = [], ml_gateway_calls = [], ml_route_calls = [], ml_ipv4_forwarding_calls = [],
     ml_ipv6_forwarding_calls = [], ml_ipv6_disable_calls = [], ml_rp_filter_calls = [], ml_accept_local_calls = [],
     ml_send_redirects_calls = [], ml_arp_calls = [], ml_rename_calls = [], ml_setns_calls = [], ml_delete_calls = 0,
     ml_netns = None, ml_tcx_upsert_calls = [], ml_tcx_has_link_calls = [], ml_has_tcx_link_result = False, ml_next_link_id = 0\<rparr>"

definition mock_set_up :: "mock_link \<Rightarrow> mock_link" where
  "mock_set_up k = k\<lparr>ml_up_calls := ml_up_calls k + 1\<rparr>"

definition mock_set_down :: "mock_link \<Rightarrow> mock_link" where
  "mock_set_down k = k\<lparr>ml_down_calls := ml_down_calls k + 1\<rparr>"

definition mock_set_mtu :: "u32 \<Rightarrow> mock_link \<Rightarrow> mock_link" where
  "mock_set_mtu mtu k = k\<lparr>ml_mtu_calls := ml_mtu_calls k @ [mtu]\<rparr>"

definition mock_set_mac :: "mac_address \<Rightarrow> mock_link \<Rightarrow> mock_link" where
  "mock_set_mac m k = k\<lparr>ml_mac_calls := ml_mac_calls k @ [m], ml_mac := m\<rparr>"

definition mock_set_ns :: "string \<Rightarrow> mock_link \<Rightarrow> mock_link" where
  "mock_set_ns p k = k\<lparr>ml_setns_calls := ml_setns_calls k @ [p], ml_netns := Some p\<rparr>"

definition mock_rename :: "string \<Rightarrow> mock_link \<Rightarrow> mock_link" where
  "mock_rename nm k = k\<lparr>ml_rename_calls := ml_rename_calls k @ [nm], ml_ifname := nm\<rparr>"

definition mock_delete :: "mock_link \<Rightarrow> mock_link" where
  "mock_delete k = k\<lparr>ml_delete_calls := ml_delete_calls k + 1\<rparr>"

definition mock_add_addr :: "interface_address \<Rightarrow> mock_link \<Rightarrow> mock_link" where
  "mock_add_addr a k = k\<lparr>ml_addr_calls := ml_addr_calls k @ [a]\<rparr>"

definition other_addr :: "interface_address \<Rightarrow> interface_address \<Rightarrow> bool" where
  "other_addr a x \<longleftrightarrow> \<not> (ia_ip x = ia_ip a \<and> ia_prefix_len x = ia_prefix_len a)"

definition mock_replace_addr :: "interface_address \<Rightarrow> mock_link \<Rightarrow> mock_link" where
  "mock_replace_addr a k = k\<lparr>ml_replace_addr_calls := ml_replace_addr_calls k @ [a],
     ml_addr_calls := filter (other_addr a) (ml_addr_calls k) @ [a]\<rparr>"

definition mock_delete_addr :: "interface_address \<Rightarrow> mock_link \<Rightarrow> mock_link" where
  "mock_delete_addr a k = k\<lparr>ml_delete_addr_calls := ml_delete_addr_calls k @ [a],
     ml_addr_calls := filter (other_addr a) (ml_addr_calls k)\<rparr>"

definition mock_addresses :: "address_family option \<Rightarrow> mock_link \<Rightarrow> interface_address list" where
  "mock_addresses fam k = filter (\<lambda>a. case fam of None \<Rightarrow> True | Some f \<Rightarrow> family_matches f (ia_ip a)) (ml_addr_calls k)"

definition mock_add_gateway :: "u32 \<Rightarrow> mock_link \<Rightarrow> mock_link" where
  "mock_add_gateway g k = k\<lparr>ml_gateway_calls := ml_gateway_calls k @ [g]\<rparr>"

definition mock_add_route :: "ip_route \<Rightarrow> mock_link \<Rightarrow> mock_link" where
  "mock_add_route r k = k\<lparr>ml_route_calls := ml_route_calls k @ [r]\<rparr>"

definition mock_set_ipv4_forwarding :: "bool \<Rightarrow> mock_link \<Rightarrow> mock_link" where
  "mock_set_ipv4_forwarding b k = k\<lparr>ml_ipv4_forwarding_calls := ml_ipv4_forwarding_calls k @ [b]\<rparr>"

definition mock_set_ipv6_forwarding :: "bool \<Rightarrow> mock_link \<Rightarrow> mock_link" where
  "mock_set_ipv6_forwarding b k = k\<lparr>ml_ipv6_forwarding_calls := ml_ipv6_forwarding_calls k @ [b]\<rparr>"

definition mock_set_ipv6_disable :: "bool \<Rightarrow> mock_link \<Rightarrow> mock_link" where
  "mock_set_ipv6_disable b k = k\<lparr>ml_ipv6_disable_calls := ml_ipv6_disable_calls k @ [b]\<rparr>"

definition mock_set_rp_filter :: "u8 \<Rightarrow> mock_link \<Rightarrow> mock_link" where
  "mock_set_rp_filter v k = k\<lparr>ml_rp_filter_calls := ml_rp_filter_calls k @ [v]\<rparr>"

definition mock_set_accept_local :: "bool \<Rightarrow> mock_link \<Rightarrow> mock_link" where
  "mock_set_accept_local b k = k\<lparr>ml_accept_local_calls := ml_accept_local_calls k @ [b]\<rparr>"

definition mock_set_send_redirects :: "bool \<Rightarrow> mock_link \<Rightarrow> mock_link" where
  "mock_set_send_redirects b k = k\<lparr>ml_send_redirects_calls := ml_send_redirects_calls k @ [b]\<rparr>"

definition mock_set_arp :: "bool \<Rightarrow> mock_link \<Rightarrow> mock_link" where
  "mock_set_arp b k = k\<lparr>ml_arp_calls := ml_arp_calls k @ [b]\<rparr>"

record pinned_tcx_program =
  pt_name :: string
  pt_link_id :: u32

definition mock_upsert_tcx_program :: "string \<Rightarrow> hook \<Rightarrow> mock_link \<Rightarrow> (pinned_tcx_program, infra_error) result \<times> mock_link" where
  "mock_upsert_tcx_program prog h k =
     (case ml_netns k of
        Some ns \<Rightarrow> (Err (TcxRequiresLocalLink (ml_ifname k) ns), k)
      | None \<Rightarrow>
          (let k' = k\<lparr>ml_tcx_upsert_calls := ml_tcx_upsert_calls k @ [(prog, h)], ml_next_link_id := ml_next_link_id k + 1\<rparr>
           in (Ok \<lparr>pt_name = prog, pt_link_id = ml_next_link_id k'\<rparr>, k')))"

definition mock_has_tcx_link :: "string \<Rightarrow> hook \<Rightarrow> mock_link \<Rightarrow> bool \<times> mock_link" where
  "mock_has_tcx_link prog h k = (ml_has_tcx_link_result k, k\<lparr>ml_tcx_has_link_calls := ml_tcx_has_link_calls k @ [(prog, h)]\<rparr>)"

section \<open>The provisioner in memory\<close>

record mock_provisioner =
  mp_netns_created :: "string list"
  mp_netns_deleted :: "string list"
  mp_ipv_forwarding_calls :: "bool list"
  mp_rp_filter_calls :: "u8 list"
  mp_veths_created :: "veth_spec list"
  mp_veths_deleted :: "mock_link veth_pair list"
  mp_links :: "mock_link list"
  mp_next_ifindex :: u32

definition mp_default :: mock_provisioner where
  "mp_default = \<lparr>mp_netns_created = [], mp_netns_deleted = [], mp_ipv_forwarding_calls = [], mp_rp_filter_calls = [],
     mp_veths_created = [], mp_veths_deleted = [], mp_links = [], mp_next_ifindex = 0\<rparr>"

definition mp_create_netns :: "string \<Rightarrow> mock_provisioner \<Rightarrow> mock_provisioner" where
  "mp_create_netns nm m = m\<lparr>mp_netns_created := mp_netns_created m @ [nm]\<rparr>"

definition mp_delete_netns :: "string \<Rightarrow> mock_provisioner \<Rightarrow> mock_provisioner" where
  "mp_delete_netns nm m = m\<lparr>mp_netns_deleted := mp_netns_deleted m @ [nm]\<rparr>"

definition mp_enable_ip_forwarding :: "bool \<Rightarrow> mock_provisioner \<Rightarrow> mock_provisioner" where
  "mp_enable_ip_forwarding v6 m = m\<lparr>mp_ipv_forwarding_calls := mp_ipv_forwarding_calls m @ [v6]\<rparr>"

definition mp_set_rp_filter :: "u8 \<Rightarrow> mock_provisioner \<Rightarrow> mock_provisioner" where
  "mp_set_rp_filter v m = m\<lparr>mp_rp_filter_calls := mp_rp_filter_calls m @ [v]\<rparr>"

definition mock_mac :: "u32 \<Rightarrow> mac_address" where
  "mock_mac i = MacAddress [2, 0, 0, 0, 0, ucast i]"

definition mp_create_veth :: "veth_spec \<Rightarrow> mock_provisioner \<Rightarrow> mock_link veth_pair \<times> mock_provisioner" where
  "mp_create_veth sp m =
     (let hix = mp_next_ifindex m + 1; pix = mp_next_ifindex m + 2;
          host = mock_link_default\<lparr>ml_ifname := vs_host_ifname sp, ml_ifindex := hix,
            ml_mac := (case vs_host_mac sp of Some x \<Rightarrow> x | None \<Rightarrow> mock_mac hix), ml_peer_ifname := Some (vs_peer_ifname sp)\<rparr>;
          peer = mock_link_default\<lparr>ml_ifname := vs_peer_ifname sp, ml_ifindex := pix,
            ml_mac := (case vs_peer_mac sp of Some x \<Rightarrow> x | None \<Rightarrow> mock_mac pix), ml_peer_ifname := Some (vs_host_ifname sp)\<rparr>
      in (\<lparr>vp_host = host, vp_peer = peer\<rparr>,
          m\<lparr>mp_links := mp_links m @ [host, peer], mp_veths_created := mp_veths_created m @ [sp], mp_next_ifindex := pix\<rparr>))"

definition mp_delete_veth :: "mock_link veth_pair \<Rightarrow> mock_provisioner \<Rightarrow> mock_link veth_pair \<times> mock_provisioner" where
  "mp_delete_veth p m = (\<lparr>vp_host = mock_delete (vp_host p), vp_peer = mock_delete (vp_peer p)\<rparr>,
     m\<lparr>mp_veths_deleted := mp_veths_deleted m @ [p]\<rparr>)"

definition mp_add_link :: "mock_link \<Rightarrow> mock_provisioner \<Rightarrow> mock_provisioner" where
  "mp_add_link k m = m\<lparr>mp_links := mp_links m @ [k]\<rparr>"

definition mp_get_link_in_ns :: "string option \<Rightarrow> string \<Rightarrow> mock_provisioner \<Rightarrow> (mock_link, infra_error) result" where
  "mp_get_link_in_ns ns nm m =
     (case find (\<lambda>l. ml_ifname l = nm \<and> ml_netns l = ns) (mp_links m) of
        None \<Rightarrow> Err (LinkNotFound nm) | Some l \<Rightarrow> Ok l)"

definition mp_list_links_in_ns :: "string option \<Rightarrow> mock_provisioner \<Rightarrow> mock_link list" where
  "mp_list_links_in_ns ns m = filter (\<lambda>l. ml_netns l = ns) (mp_links m)"

text \<open>\<open>delete_link\<close> deletes a copy of the link that \<open>get_link\<close> returns.\<close>

definition mp_delete_link_in_ns :: "string option \<Rightarrow> string \<Rightarrow> mock_provisioner \<Rightarrow> (unit, infra_error) result" where
  "mp_delete_link_in_ns ns nm m = (case mp_get_link_in_ns ns nm m of Err e \<Rightarrow> Err e | Ok k \<Rightarrow> let _ = mock_delete k in Ok ())"

text \<open>The operations of the plugin on it; \<open>exists\<close> says which namespace files can be opened.\<close>

definition mock_net :: "(string \<Rightarrow> bool) \<Rightarrow> (mock_provisioner, mock_link) net_ops" where
  "mock_net exists = \<lparr>
     open_ns = (\<lambda>p _. if exists p then Ok () else Err (OpenNamespace p)),
     create_veth = (\<lambda>sp m. case mp_create_veth sp m of (p, m') \<Rightarrow> (Ok p, m')),
     delete_link_in_ns = (\<lambda>ns nm m. (mp_delete_link_in_ns (Some ns) nm m, m)),
     get_link_in_ns = (\<lambda>ns nm m. mp_get_link_in_ns (Some ns) nm m),
     lk_ifname = ml_ifname, lk_ifindex = ml_ifindex, lk_mac = (\<lambda>k. Some (ml_mac k)),
     lk_addresses = (\<lambda>fam k _. Ok (mock_addresses fam k)),
     lk_set_up = (\<lambda>k m. (Ok (mock_set_up k), m)),
     lk_set_mtu = (\<lambda>x k m. (Ok (mock_set_mtu x k), m)),
     lk_set_ns = (\<lambda>x k m. (Ok (mock_set_ns x k), m)),
     lk_rename = (\<lambda>x k m. (Ok (mock_rename x k), m)),
     lk_add_addr = (\<lambda>x k m. (Ok (mock_add_addr x k), m)),
     lk_add_route = (\<lambda>x k m. (Ok (mock_add_route x k), m)),
     lk_set_rp_filter = (\<lambda>x k m. (Ok (mock_set_rp_filter x k), m))\<rparr>"

section \<open>Lemmas\<close>

text \<open>Replacing an address leaves it on the link exactly once, deleting it not at all; the others stay.\<close>

lemma mock_replace_addr_set:
  "set (mock_addresses None (mock_replace_addr a k)) = insert a (set (mock_addresses None k))"
  "count_list (mock_addresses None (mock_replace_addr a k)) a = 1"
proof -
  have o: "other_addr a x \<longleftrightarrow> x \<noteq> a" for x by (auto simp: other_addr_def)
  show "set (mock_addresses None (mock_replace_addr a k)) = insert a (set (mock_addresses None k))"
    by (auto simp: mock_addresses_def mock_replace_addr_def o)
  have "count_list (filter (other_addr a) xs) a = 0" for xs by (induction xs) (auto simp: o)
  then show "count_list (mock_addresses None (mock_replace_addr a k)) a = 1"
    by (simp add: mock_addresses_def mock_replace_addr_def)
qed

lemma mock_delete_addr_set:
  "set (mock_addresses None (mock_delete_addr a k)) = set (mock_addresses None k) - {a}"
  by (auto simp: mock_addresses_def mock_delete_addr_def other_addr_def)

text \<open>A program attaches only to a link in the caller's namespace.\<close>

lemma mock_tcx_local:
  "is_ok (fst (mock_upsert_tcx_program prog h k)) \<longleftrightarrow> ml_netns k = None"
  by (auto simp: mock_upsert_tcx_program_def Let_def is_ok_iff split: option.splits)

text \<open>A new pair is found by both its names in the caller's namespace, unless older links have them.\<close>

lemma mp_create_veth_found:
  assumes "mp_create_veth sp m = (p, m')" "vs_host_ifname sp \<noteq> vs_peer_ifname sp"
    "mp_get_link_in_ns None (vs_host_ifname sp) m = Err (LinkNotFound (vs_host_ifname sp))"
    "mp_get_link_in_ns None (vs_peer_ifname sp) m = Err (LinkNotFound (vs_peer_ifname sp))"
  shows "mp_get_link_in_ns None (vs_host_ifname sp) m' = Ok (vp_host p)"
    "mp_get_link_in_ns None (vs_peer_ifname sp) m' = Ok (vp_peer p)"
proof -
  have f: "find P (xs @ ys) = (case find P xs of None \<Rightarrow> find P ys | Some x \<Rightarrow> Some x)" for P and xs ys :: "mock_link list"
    by (induction xs) auto
  show "mp_get_link_in_ns None (vs_host_ifname sp) m' = Ok (vp_host p)"
    "mp_get_link_in_ns None (vs_peer_ifname sp) m' = Ok (vp_peer p)"
    using assms by (auto simp: mp_get_link_in_ns_def mp_create_veth_def Let_def f mock_link_default_def split: option.splits)
qed

end
