(* ===== verification/Cni.thy ===== *)
theory Cni
  imports Api Network
begin

text \<open>
  The CNI plugin, \<open>sarena-cni-plugin\<close>: its arguments (\<open>args.rs\<close>, \<open>client.rs\<close>) and the commands ADD, DEL, CHECK and
  STATUS (\<open>plugin.rs\<close>, \<open>cmd\<close>). A command runs on a world, the daemon behind the API client \<open>A\<close> and the network
  with the operations \<open>N\<close>; \<open>E\<close> is the environment of the process. A panic unwinds as an early return does, so it
  is one of the errors.
\<close>

section \<open>Arguments and results\<close>

datatype cni_error = InvalidNetworkConfig string | PluginNotAvailable string | CustomError nat string string | CniPanic

text \<open>Of a JSON value only its being a string matters.\<close>

datatype json_value = JsonString string | JsonOther

record args_spec =
  as_pod_name :: string
  as_pod_namespace :: string
  as_pod_uid :: string

definition args_default :: args_spec where
  "args_default = \<lparr>as_pod_name = [], as_pod_namespace = [], as_pod_uid = []\<rparr>"

definition is_blank :: "string \<Rightarrow> bool" where
  "is_blank s = list_all (\<lambda>c. let n = of_char c :: nat in n = 32 \<or> (9 \<le> n \<and> n \<le> 13)) s"

text \<open>\<open>jp\<close> reads a JSON text and \<open>jerr\<close> is the text of a failed deserialisation.\<close>

fun parse_pairs :: "(string \<Rightarrow> json_value option) \<Rightarrow> string list \<Rightarrow> (string \<rightharpoonup> json_value) \<Rightarrow> (string \<rightharpoonup> json_value, cni_error) result" where
  "parse_pairs jp [] m = Ok m"
| "parse_pairs jp (kv # kvs) m =
     (case split_once CHR ''='' kv of
        None \<Rightarrow> Err (InvalidNetworkConfig (''ARGS: missing value in '' @ [CHR 0x27] @ kv @ [CHR 0x27]))
      | Some (k, v) \<Rightarrow> parse_pairs jp kvs (m(k \<mapsto> (case jp v of Some j \<Rightarrow> j | None \<Rightarrow> JsonString v))))"

definition args_from_map :: "((string \<rightharpoonup> json_value) \<Rightarrow> string) \<Rightarrow> (string \<rightharpoonup> json_value) \<Rightarrow> (args_spec, cni_error) result" where
  "args_from_map jerr m =
     (case (m ''K8S_POD_NAME'', m ''K8S_POD_NAMESPACE'', m ''K8S_POD_UID'') of
        (Some (JsonString n), Some (JsonString ns), Some (JsonString u)) \<Rightarrow>
          Ok \<lparr>as_pod_name = n, as_pod_namespace = ns, as_pod_uid = u\<rparr>
      | _ \<Rightarrow> Err (InvalidNetworkConfig (''ARGS: deserialization error: '' @ jerr m)))"

definition load_args ::
  "(string \<Rightarrow> json_value option) \<Rightarrow> ((string \<rightharpoonup> json_value) \<Rightarrow> string) \<Rightarrow> string option \<Rightarrow> (args_spec, cni_error) result" where
  "load_args jp jerr a =
     (case a of None \<Rightarrow> Ok args_default
      | Some s \<Rightarrow>
          (if is_blank s then Ok args_default
           else case parse_pairs jp (split_on CHR '';'' s) Map.empty of Err e \<Rightarrow> Err e | Ok m \<Rightarrow> args_from_map jerr m))"

text \<open>The results of a command; the fields that are always empty are left out.\<close>

record cni_interface =
  ci_name :: string
  ci_mac :: string
  ci_sandbox :: "string option"

record ip_config =
  ic_interface :: "nat option"
  ic_address :: ip_net
  ic_gateway :: "ip_addr option"

record cni_route =
  cr_dst :: ip_net
  cr_mtu :: "u32 option"
  cr_gw :: "ip_addr option"

record cni_result =
  cn_interfaces :: "cni_interface list"
  cn_ips :: "ip_config list"
  cn_routes :: "cni_route list"

record cni_args =
  ca_netns :: "string option"
  ca_ifname :: "string option"
  ca_container_id :: "string option"
  ca_args :: "string option"
  ca_prev_result :: "cni_result option"
  ca_daemon_endpoint :: "string option"

section \<open>The daemon, the network and the process\<close>

record 's api_ops =
  api_config :: "'s \<Rightarrow> (daemon_config, transport_error) result \<times> 's"
  api_allocate :: "string option \<Rightarrow> string option \<Rightarrow> string option \<Rightarrow> 's \<Rightarrow> (ipam_allocate_response, transport_error) result \<times> 's"
  api_release :: "string \<Rightarrow> string option \<Rightarrow> 's \<Rightarrow> (unit, transport_error) result \<times> 's"
  api_create :: "string \<Rightarrow> endpoint_create_request \<Rightarrow> 's \<Rightarrow> (unit, transport_error) result \<times> 's"
  api_delete :: "string \<Rightarrow> 's \<Rightarrow> (unit, transport_error) result \<times> 's"
  api_endpoint_health :: "string \<Rightarrow> 's \<Rightarrow> (endpoint_health_status, transport_error) result \<times> 's"
  api_daemon_health :: "'s \<Rightarrow> (unit, transport_error) result \<times> 's"

text \<open>The process: the texts of errors, SHA-256, the random bytes of the two MAC addresses, the parser of \<open>IpNet\<close>, the
  parser of \<open>Uri\<close>, \<open>SARENA_SOCKET\<close>, and how many requests of the task that a dropped lease spawns are done when the process exits.\<close>

record cni_env =
  ev_show :: "infra_error \<Rightarrow> string"
  ev_sha :: "string \<Rightarrow> string"
  ev_host_rand :: "u8 list"
  ev_peer_rand :: "u8 list"
  ev_net_parse :: "string \<Rightarrow> ip_net option"
  ev_uri_ok :: "string \<Rightarrow> bool"
  ev_socket :: "string option"
  ev_releases :: nat

record ('s, 'n) cni_world =
  cw_daemon :: 's
  cw_net :: 'n

definition on_daemon :: "('s \<Rightarrow> 'r \<times> 's) \<Rightarrow> ('s, 'n) cni_world \<Rightarrow> 'r \<times> ('s, 'n) cni_world" where
  "on_daemon f w = (case f (cw_daemon w) of (r, s) \<Rightarrow> (r, w\<lparr>cw_daemon := s\<rparr>))"

definition on_net :: "('n \<Rightarrow> 'r \<times> 'n) \<Rightarrow> ('s, 'n) cni_world \<Rightarrow> 'r \<times> ('s, 'n) cni_world" where
  "on_net f w = (case f (cw_net w) of (r, n) \<Rightarrow> (r, w\<lparr>cw_net := n\<rparr>))"

text \<open>\<open>map_err(f)?\<close>\<close>

definition attempt :: "('e \<Rightarrow> 'f) \<Rightarrow> ('w \<Rightarrow> ('a, 'e) result \<times> 'w) \<Rightarrow> ('a \<Rightarrow> 'w \<Rightarrow> ('b, 'f) result \<times> 'w) \<Rightarrow> 'w \<Rightarrow> ('b, 'f) result \<times> 'w" where
  "attempt f m k w = (case m w of (Err e, w') \<Rightarrow> (Err (f e), w') | (Ok x, w') \<Rightarrow> k x w')"

definition build_api_client :: "cni_env \<Rightarrow> cni_args \<Rightarrow> (transport_kind \<times> string, cni_error) result" where
  "build_api_client E args =
     (case new_client_with_retry (ev_uri_ok E) (ev_socket E) (ca_daemon_endpoint args) of
        Ok c \<Rightarrow> Ok c | Err _ \<Rightarrow> Err (PluginNotAvailable ''DaemonDown''))"

definition infra_err :: "cni_env \<Rightarrow> infra_error \<Rightarrow> cni_error" where
  "infra_err E e = InvalidNetworkConfig (ev_show E e)"

section \<open>ADD\<close>

definition setup_veth ::
  "('n, 'k) net_ops \<Rightarrow> cni_env \<Rightarrow> string \<Rightarrow> string \<Rightarrow> string \<Rightarrow> u32 \<Rightarrow> 'n \<Rightarrow> ('k \<times> 'k, cni_error) result \<times> 'n" where
  "setup_veth N E cid ifname peer_netns mtu =
     (let eid = cid @ '':'' @ ifname; bad = (\<lambda>s e. InvalidNetworkConfig (s @ ev_show E e))
      in attempt (bad ''could not create veth pair: '')
           (create_veth N \<lparr>vs_host_ifname = endpoint_to_ifname (ev_sha E) eid, vs_host_mac = Some (mac_generate_rand (ev_host_rand E)),
              vs_peer_ifname = endpoint_to_temp_ifname eid, vs_peer_mac = Some (mac_generate_rand (ev_peer_rand E))\<rparr>) (\<lambda>pair.
         attempt (infra_err E) (\<lambda>n. (open_ns N peer_netns n, n)) (\<lambda>_.
         attempt (infra_err E) (lk_set_ns N peer_netns (vp_peer pair)) (\<lambda>peer.
         attempt (bad ''could not rename peer interface: '') (lk_rename N ifname peer) (\<lambda>peer.
         attempt (bad ''could not disable rp filter: '') (lk_set_rp_filter N 0 (vp_host pair)) (\<lambda>host.
         attempt (infra_err E) (lk_set_mtu N mtu host) (\<lambda>host.
         attempt (infra_err E) (lk_set_mtu N mtu peer) (\<lambda>peer.
         attempt (infra_err E) (lk_set_up N host) (\<lambda>host n. (Ok (host, peer), n))))))))))"

fun link_each :: "('e \<Rightarrow> 'f) \<Rightarrow> ('x \<Rightarrow> 'k \<Rightarrow> 'n \<Rightarrow> ('k, 'e) result \<times> 'n) \<Rightarrow> 'x list \<Rightarrow> 'k \<Rightarrow> 'n \<Rightarrow> ('k, 'f) result \<times> 'n" where
  "link_each f op [] k n = (Ok k, n)"
| "link_each f op (x # xs) k n = attempt f (op x k) (link_each f op xs) n"

definition configure_iface ::
  "('n, 'k) net_ops \<Rightarrow> cni_env \<Rightarrow> interface_address list \<Rightarrow> ip_route list \<Rightarrow> 'k \<Rightarrow> 'n \<Rightarrow> ('k, cni_error) result \<times> 'n" where
  "configure_iface N E addrs routes peer =
     attempt (infra_err E) (lk_set_up N peer) (\<lambda>peer.
     attempt (\<lambda>e. e) (link_each (infra_err E) (lk_add_addr N) addrs peer)
       (link_each (\<lambda>e. InvalidNetworkConfig (''failed to add route: '' @ ev_show E e)) (lk_add_route N)
          (sort_by_mask_narrowest_first routes)))"

definition convert_to_cni_routes :: "ip_route list \<Rightarrow> cni_route list" where
  "convert_to_cni_routes rs = map (\<lambda>r. \<lparr>cr_dst = ro_prefix r, cr_mtu = ro_mtu r, cr_gw = ro_nexthop r\<rparr>) rs"

text \<open>What ADD collects for the two families before it configures the interface.\<close>

record add_plan =
  pl_routes :: "ip_route list"
  pl_endpoints :: "interface_address list"
  pl_ipv4 :: "addressing option"
  pl_ipv6 :: "addressing option"
  pl_ips :: "ip_config list"
  pl_cni_routes :: "cni_route list"

definition plan_empty :: add_plan where
  "plan_empty = \<lparr>pl_routes = [], pl_endpoints = [], pl_ipv4 = None, pl_ipv6 = None, pl_ips = [], pl_cni_routes = []\<rparr>"

definition plan_address :: "ip_addr \<Rightarrow> ip_route list \<Rightarrow> interface_address \<Rightarrow> add_plan \<Rightarrow> (add_plan, cni_error) result" where
  "plan_address gw rs a p =
     (case to_ip_net a of None \<Rightarrow> Err CniPanic
      | Some net \<Rightarrow> Ok (p\<lparr>pl_routes := pl_routes p @ rs, pl_endpoints := pl_endpoints p @ [a],
          pl_ips := pl_ips p @ [\<lparr>ic_interface = Some 1, ic_address = net, ic_gateway = Some gw\<rparr>],
          pl_cni_routes := pl_cni_routes p @ convert_to_cni_routes rs\<rparr>))"

definition plan_ipv4 :: "cni_env \<Rightarrow> ipam_allocate_response \<Rightarrow> u32 \<Rightarrow> add_plan \<Rightarrow> (add_plan, cni_error) result" where
  "plan_ipv4 E resp mtu p =
     (case (host_ipv4 resp, resp_ipv4 resp) of
        (Some h, Some c) \<Rightarrow>
          (case parse_v4 h of
             None \<Rightarrow> Err (PluginNotAvailable ''could not parse host ipv4 address: invalid IPv4 address syntax'')
           | Some gw \<Rightarrow>
               (case ia_from_str (ev_net_parse E) (ca_ip c) of
                  Err _ \<Rightarrow> Err (PluginNotAvailable ''could not parse interface address'')
                | Ok a \<Rightarrow> plan_address (V4 gw) (ipv4_routes gw mtu) a (p\<lparr>pl_ipv4 := Some \<lparr>ad_ip = ia_str a, ad_pool = ca_pool c\<rparr>\<rparr>)))
      | _ \<Rightarrow> Ok p)"

definition plan_ipv6 :: "cni_env \<Rightarrow> ipam_allocate_response \<Rightarrow> u32 \<Rightarrow> add_plan \<Rightarrow> (add_plan, cni_error) result" where
  "plan_ipv6 E resp mtu p =
     (case (host_ipv6 resp, resp_ipv6 resp) of
        (Some h, Some c) \<Rightarrow>
          (case parse_v6 h of
             None \<Rightarrow> Err (PluginNotAvailable ''could not parse host ipv6 address: invalid IPv6 address syntax'')
           | Some gw \<Rightarrow>
               (case ia_from_str (ev_net_parse E) (ca_ip c) of
                  Err _ \<Rightarrow> Err (PluginNotAvailable ''could not parse interface address'')
                | Ok a \<Rightarrow> plan_address (V6 gw) (ipv6_routes gw mtu) a (p\<lparr>pl_ipv6 := Some \<lparr>ad_ip = ia_str a, ad_pool = ca_pool c\<rparr>\<rparr>)))
      | _ \<Rightarrow> Ok p)"

definition plan_addresses :: "cni_env \<Rightarrow> ipam_allocate_response \<Rightarrow> u32 \<Rightarrow> (add_plan, cni_error) result" where
  "plan_addresses E resp mtu = (case plan_ipv4 E resp mtu plan_empty of Err e \<Rightarrow> Err e | Ok p \<Rightarrow> plan_ipv6 E resp mtu p)"

text \<open>A lease that is dropped before it is disarmed spawns a task that releases its addresses, of which the requests
  up to the exit of the process are done.\<close>

definition lease_addresses :: "ipam_allocate_response \<Rightarrow> container_addressing list" where
  "lease_addresses resp = (case resp_ipv4 resp of None \<Rightarrow> [] | Some c \<Rightarrow> [c]) @ (case resp_ipv6 resp of None \<Rightarrow> [] | Some c \<Rightarrow> [c])"

definition drop_lease :: "'s api_ops \<Rightarrow> nat \<Rightarrow> ipam_allocate_response \<Rightarrow> 's \<Rightarrow> 's" where
  "drop_lease A k resp s = fold (\<lambda>c s. snd (api_release A (ca_ip c) (ca_pool c) s)) (take k (lease_addresses resp)) s"

text \<open>The hardware addresses of the two ends; \<open>mac\<close> of a link that has none panics.\<close>

definition link_macs :: "('n, 'k) net_ops \<Rightarrow> 'k \<Rightarrow> 'k \<Rightarrow> (mac_address \<times> mac_address, cni_error) result" where
  "link_macs N peer host =
     (case lk_mac N peer of None \<Rightarrow> Err CniPanic
      | Some pm \<Rightarrow> (case lk_mac N host of None \<Rightarrow> Err CniPanic | Some hm \<Rightarrow> Ok (pm, hm)))"

text \<open>What ADD does while it holds the lease.\<close>

definition add_with_lease ::
  "('n, 'k) net_ops \<Rightarrow> 's api_ops \<Rightarrow> cni_env \<Rightarrow> args_spec \<Rightarrow> string \<Rightarrow> string \<Rightarrow> string \<Rightarrow> daemon_config \<Rightarrow> ipam_allocate_response \<Rightarrow>
     ('s, 'n) cni_world \<Rightarrow> (cni_result, cni_error) result \<times> ('s, 'n) cni_world" where
  "add_with_lease N A E spec nsp ifname cid cfg resp w =
     (if host_ipv4 resp = None \<and> host_ipv6 resp = None
      then (Err (PluginNotAvailable ''ipam should return valid host addressing''), w)
      else attempt (\<lambda>e. e) (on_net (setup_veth N E cid ifname nsp (device_mtu cfg))) (\<lambda>(host, peer).
           attempt (\<lambda>e. e) (\<lambda>w. (plan_addresses E resp (route_mtu cfg), w)) (\<lambda>p.
           attempt (\<lambda>e. e) (on_net (configure_iface N E (pl_endpoints p) (pl_routes p) peer)) (\<lambda>peer.
           attempt (\<lambda>e. e) (\<lambda>w. (link_macs N peer host, w)) (\<lambda>(peer_mac, host_mac).
           attempt (\<lambda>_. PluginNotAvailable ''could not create endpoint'')
             (on_daemon (api_create A (attachment_id cid ifname)
                \<lparr>rq_container_id = cid, rq_container_mac = mac_display peer_mac, rq_container_iface_name = ifname,
                 rq_host_mac = mac_display host_mac, rq_host_iface_name = lk_ifname N host,
                 rq_host_iface_index = lk_ifindex N host, rq_k8s_namespace = as_pod_namespace spec,
                 rq_k8s_pod_name = as_pod_name spec, rq_k8s_uid = as_pod_uid spec, rq_ipv4 = pl_ipv4 p, rq_ipv6 = pl_ipv6 p\<rparr>))
             (\<lambda>_ w. (Ok \<lparr>cn_interfaces =
                  [\<lparr>ci_name = lk_ifname N host, ci_mac = mac_display host_mac, ci_sandbox = None\<rparr>,
                   \<lparr>ci_name = ifname, ci_mac = mac_display peer_mac, ci_sandbox = Some nsp\<rparr>],
                cn_ips = pl_ips p, cn_routes = pl_cni_routes p\<rparr>, w)))))) w)"

text \<open>The requests to the daemon, with the stale link removed before them.\<close>

definition add_checked ::
  "('n, 'k) net_ops \<Rightarrow> 's api_ops \<Rightarrow> cni_env \<Rightarrow> cni_args \<Rightarrow> args_spec \<Rightarrow> string \<Rightarrow> string \<Rightarrow> string \<Rightarrow>
     ('s, 'n) cni_world \<Rightarrow> (cni_result, cni_error) result \<times> ('s, 'n) cni_world" where
  "add_checked N A E args spec nsp ifname cid =
     attempt (\<lambda>e. InvalidNetworkConfig (''could not open namespace '' @ nsp @ '': '' @ ev_show E e))
       (on_net (\<lambda>n. (open_ns N nsp n, n))) (\<lambda>_.
     attempt (\<lambda>e. InvalidNetworkConfig (''could not delete link '' @ ifname @ '': '' @ ev_show E e))
       (on_net (\<lambda>n. case delete_link_in_ns N nsp ifname n of (Err (LinkNotFound _), n') \<Rightarrow> (Ok (), n') | r \<Rightarrow> r)) (\<lambda>_.
     attempt (\<lambda>e. e) (\<lambda>w. (build_api_client E args, w)) (\<lambda>_.
     attempt (\<lambda>_. PluginNotAvailable ''could not read config'') (on_daemon (api_config A)) (\<lambda>cfg.
     attempt (\<lambda>_. PluginNotAvailable ''could not allocate ip'')
       (on_daemon (api_allocate A None (Some (as_pod_namespace spec @ ''/'' @ as_pod_name spec)) None)) (\<lambda>resp w.
       if resp_ipv4 resp = None \<and> resp_ipv6 resp = None
       then (Err (PluginNotAvailable ''ipam should return valid addressing''), w)
       else (case add_with_lease N A E spec nsp ifname cid cfg resp w of
               (Ok r, w') \<Rightarrow> (Ok r, w')
             | (Err e, w') \<Rightarrow> (Err e, w'\<lparr>cw_daemon := drop_lease A (ev_releases E) resp (cw_daemon w')\<rparr>)))))))"

definition cni_add ::
  "('n, 'k) net_ops \<Rightarrow> 's api_ops \<Rightarrow> cni_env \<Rightarrow> cni_args \<Rightarrow> args_spec \<Rightarrow>
     ('s, 'n) cni_world \<Rightarrow> (cni_result, cni_error) result \<times> ('s, 'n) cni_world" where
  "cni_add N A E args spec w =
     (case ca_netns args of None \<Rightarrow> (Err (InvalidNetworkConfig ''missing CNI_NETNS''), w)
      | Some nsp \<Rightarrow>
     (case ca_ifname args of None \<Rightarrow> (Err (InvalidNetworkConfig ''missing CNI_IFNAME''), w)
      | Some ifname \<Rightarrow>
     (case ca_container_id args of None \<Rightarrow> (Err (InvalidNetworkConfig ''missing CNI_CONTAINERID''), w)
      | Some cid \<Rightarrow>
     (if ca_prev_result args \<noteq> None then (Err (InvalidNetworkConfig ''chaining is currently not supported''), w)
      else add_checked N A E args spec nsp ifname cid w))))"

section \<open>DEL, CHECK and STATUS\<close>

definition cni_del ::
  "('n, 'k) net_ops \<Rightarrow> 's api_ops \<Rightarrow> cni_env \<Rightarrow> cni_args \<Rightarrow> ('s, 'n) cni_world \<Rightarrow> (unit, cni_error) result \<times> ('s, 'n) cni_world" where
  "cni_del N A E args w =
     (case ca_netns args of None \<Rightarrow> (Err (InvalidNetworkConfig ''missing CNI_NETNS''), w)
      | Some nsp \<Rightarrow>
     (case ca_ifname args of None \<Rightarrow> (Err (InvalidNetworkConfig ''missing CNI_IFNAME''), w)
      | Some ifname \<Rightarrow>
     (case ca_container_id args of None \<Rightarrow> (Err (InvalidNetworkConfig ''missing CNI_CONTAINERID''), w)
      | Some cid \<Rightarrow>
        attempt (\<lambda>e. e) (\<lambda>w. (build_api_client E args, w)) (\<lambda>_.
        attempt (\<lambda>_. PluginNotAvailable ''could not delete endpoint'') (on_daemon (api_delete A (attachment_id cid ifname))) (\<lambda>_.
        attempt (\<lambda>e. InvalidNetworkConfig (''could not open namespace '' @ nsp @ '': '' @ ev_show E e))
          (on_net (\<lambda>n. (open_ns N nsp n, n))) (\<lambda>_ w.
          (Ok (), snd (on_net (delete_link_in_ns N nsp ifname) w))))) w)))"

text \<open>The addresses CHECK expects on the interface. The interfaces are counted from \<open>i\<close>.\<close>

fun want_addresses :: "string \<Rightarrow> ip_config list \<Rightarrow> nat \<Rightarrow> cni_interface list \<Rightarrow> interface_address list" where
  "want_addresses ifname cfgs i [] = []"
| "want_addresses ifname cfgs i (f # fs) =
     (if ci_sandbox f = None \<or> ci_name f \<noteq> ifname then []
      else map (\<lambda>c. ia_from_net (ic_address c)) (filter (\<lambda>c. ic_interface c = Some i) cfgs)) @
     want_addresses ifname cfgs (i + 1) fs"

definition verify_interface ::
  "('n, 'k) net_ops \<Rightarrow> cni_env \<Rightarrow> string \<Rightarrow> string \<Rightarrow> cni_result \<Rightarrow> 'n \<Rightarrow> (unit, cni_error) result" where
  "verify_interface N E nsp ifname prev n =
     (case open_ns N nsp n of
        Err e \<Rightarrow> Err (InvalidNetworkConfig (''could not open namespace '' @ nsp @ '': '' @ ev_show E e))
      | Ok _ \<Rightarrow>
     (case get_link_in_ns N nsp ifname n of
        Err e \<Rightarrow> Err (InvalidNetworkConfig (''could not open namespace '' @ nsp @ '': '' @ ev_show E e))
      | Ok link \<Rightarrow>
     (case lk_addresses N None link n of
        Err e \<Rightarrow> Err (InvalidNetworkConfig (''could not get address of interface '' @ ifname @ '': '' @ ev_show E e))
      | Ok addrs \<Rightarrow>
     (case find (\<lambda>a. a \<notin> set addrs) (want_addresses ifname (cn_ips prev) 0 (cn_interfaces prev)) of
        Some a \<Rightarrow> Err (InvalidNetworkConfig (''expected ip '' @ ia_str a @ '' on interface '' @ ifname))
      | None \<Rightarrow> Ok ()))))"

definition cni_check ::
  "('n, 'k) net_ops \<Rightarrow> 's api_ops \<Rightarrow> cni_env \<Rightarrow> cni_args \<Rightarrow> ('s, 'n) cni_world \<Rightarrow> (unit, cni_error) result \<times> ('s, 'n) cni_world" where
  "cni_check N A E args w =
     (case ca_netns args of None \<Rightarrow> (Err (InvalidNetworkConfig ''missing CNI_NETNS''), w)
      | Some nsp \<Rightarrow>
     (case ca_ifname args of None \<Rightarrow> (Err (InvalidNetworkConfig ''missing CNI_IFNAME''), w)
      | Some ifname \<Rightarrow>
     (case ca_container_id args of None \<Rightarrow> (Err (InvalidNetworkConfig ''missing CNI_CONTAINERID''), w)
      | Some cid \<Rightarrow>
     (case ca_prev_result args of None \<Rightarrow> (Err (InvalidNetworkConfig ''NetConf does not have a prev_result''), w)
      | Some prev \<Rightarrow>
        attempt (\<lambda>e. e) (\<lambda>w. (build_api_client E args, w)) (\<lambda>_.
        attempt (\<lambda>_. PluginNotAvailable ''could not get endpoint health'')
          (on_daemon (api_endpoint_health A (attachment_id cid ifname))) (\<lambda>h w.
          if h = HealthFailure then (Err (CustomError 100 ''unhealthy'' ''container is unhealthy in agent''), w)
          else (verify_interface N E nsp ifname prev (cw_net w), w))) w))))"

definition cni_status ::
  "'s api_ops \<Rightarrow> cni_env \<Rightarrow> cni_args \<Rightarrow> ('s, 'n) cni_world \<Rightarrow> (unit, cni_error) result \<times> ('s, 'n) cni_world" where
  "cni_status A E args =
     attempt (\<lambda>e. e) (\<lambda>w. (build_api_client E args, w)) (\<lambda>_.
     attempt (\<lambda>_. PluginNotAvailable ''could not get daemon health'') (on_daemon (api_daemon_health A)) (\<lambda>_ w. (Ok (), w)))"

text \<open>\<open>dispatch\<close>: the arguments are read before every command but GC, which does nothing.\<close>

definition cni_dispatch ::
  "(string \<Rightarrow> json_value option) \<Rightarrow> ((string \<rightharpoonup> json_value) \<Rightarrow> string) \<Rightarrow> cni_args \<Rightarrow>
     (args_spec \<Rightarrow> 'w \<Rightarrow> ('a, cni_error) result \<times> 'w) \<Rightarrow> 'w \<Rightarrow> ('a, cni_error) result \<times> 'w" where
  "cni_dispatch jp jerr args handler w =
     (case load_args jp jerr (ca_args args) of Err e \<Rightarrow> (Err e, w) | Ok spec \<Rightarrow> handler spec w)"

datatype cni_command = CmdAdd | CmdDel | CmdCheck | CmdStatus | CmdGc

definition plugin_run ::
  "(string \<Rightarrow> json_value option) \<Rightarrow> ((string \<rightharpoonup> json_value) \<Rightarrow> string) \<Rightarrow> ('n, 'k) net_ops \<Rightarrow> 's api_ops \<Rightarrow> cni_env \<Rightarrow>
     cni_command \<Rightarrow> cni_args \<Rightarrow> ('s, 'n) cni_world \<Rightarrow> (cni_result option, cni_error) result \<times> ('s, 'n) cni_world" where
  "plugin_run jp jerr N A E cmd args =
     (let no_result = (\<lambda>c spec w. case c w of (Ok _, w') \<Rightarrow> (Ok None, w') | (Err e, w') \<Rightarrow> (Err e, w'))
      in case cmd of
           CmdAdd \<Rightarrow> cni_dispatch jp jerr args (\<lambda>spec w. case cni_add N A E args spec w of (Ok r, w') \<Rightarrow> (Ok (Some r), w') | (Err e, w') \<Rightarrow> (Err e, w'))
         | CmdDel \<Rightarrow> cni_dispatch jp jerr args (no_result (cni_del N A E args))
         | CmdCheck \<Rightarrow> cni_dispatch jp jerr args (no_result (cni_check N A E args))
         | CmdStatus \<Rightarrow> cni_dispatch jp jerr args (no_result (cni_status A E args))
         | CmdGc \<Rightarrow> (\<lambda>w. (Ok None, w)))"

section \<open>The client of a daemon\<close>

text \<open>What the daemon is run with: the crates it calls and the random numbers and failures of each attempt.\<close>

record 'l daemon_env =
  de_lib :: ipnet_lib
  de_ipam_msg :: "ipam_error \<Rightarrow> string"
  de_endpoint_msg :: "endpoint_error \<Rightarrow> string"
  de_enc :: "string \<Rightarrow> string"
  de_rnd6 :: "nat \<Rightarrow> nat \<Rightarrow> nat"
  de_rnd4 :: "nat \<Rightarrow> nat \<Rightarrow> nat"
  de_json :: json_lib
  de_faults :: "nat \<Rightarrow> faults"
  de_err_str :: "dp_error \<Rightarrow> string"
  de_add :: "'l add_fn"
  de_pick :: "endpoint_id set \<Rightarrow> endpoint_id"
  de_net_parse :: "string \<Rightarrow> ip_net option"

datatype api_call = CallConfig | CallAllocate | CallRelease string | CallCreate | CallDelete | CallHealth | CallDaemonHealth

text \<open>The client the plugin builds, over a transport that treats attempt \<open>i\<close> of the call \<open>c\<close> as \<open>d c i\<close> says.\<close>

definition daemon_api :: "'l daemon_env \<Rightarrow> (api_call \<Rightarrow> nat \<Rightarrow> delivery) \<Rightarrow> 'l daemon api_ops" where
  "daemon_api D d = \<lparr>
     api_config = client_config retry_default (d CallConfig),
     api_allocate = client_allocate (de_enc D) retry_default (d CallAllocate) (de_lib D) (de_ipam_msg D) (de_rnd6 D) (de_rnd4 D),
     api_release = (\<lambda>ip pool. client_release (de_enc D) retry_default (d (CallRelease ip)) (de_lib D) (de_ipam_msg D) ip pool),
     api_create = (\<lambda>att req. client_create retry_default (d CallCreate) (de_endpoint_msg D) att
       (\<lambda>i. service_create (de_json D) (de_faults D i) (de_err_str D) (de_add D) (de_pick D) (de_net_parse D) att req)),
     api_delete = client_delete retry_default (d CallDelete) (de_endpoint_msg D),
     api_endpoint_health = client_health retry_default (d CallHealth) (de_endpoint_msg D),
     api_daemon_health = client_daemon_health retry_default (d CallDaemonHealth)\<rparr>"

end
