(* ===== verification/Cni_Lease.thy ===== *)
theory Cni_Lease
  imports Cni
begin

text \<open>
  What the commands of the CNI plugin do to the daemon, and the contract between them: the locales \<open>lossy_api\<close>, which holds whatever the
  transport loses, and \<open>lease_api\<close>, which holds when requests get through. The plugin's lemmas are proved in them
  once; the client over a daemon, with its retries, is shown to keep both.
\<close>

section \<open>What a command does to the daemon\<close>

lemma on_net_daemon [simp]: "cw_daemon (snd (on_net f w)) = cw_daemon w"
  by (simp add: on_net_def split: prod.splits)

lemma on_net_daemonD: "on_net f w = (r, w') \<Longrightarrow> cw_daemon w' = cw_daemon w"
  using on_net_daemon [of f w] by simp

lemma on_daemonD: "on_daemon f w = (r, w') \<Longrightarrow> f (cw_daemon w) = (r, cw_daemon w')"
  by (auto simp: on_daemon_def split: prod.splits)

lemma attemptE:
  assumes "attempt f m k w = (res, w')"
  obtains (failed) e where "m w = (Err e, w')" "res = Err (f e)"
  | (passed) x w1 where "m w = (Ok x, w1)" "k x w1 = (res, w')"
  using assms by (auto simp: attempt_def split: prod.splits result.splits)

text \<open>Up to the creation of the endpoint the daemon is not asked; the creation decides.\<close>

lemma add_with_lease_daemon:
  assumes "add_with_lease N A E spec nsp ifname cid cfg resp w = (res, w')"
  shows "(\<exists>x. res = Ok x \<and> (\<exists>att req. api_create A att req (cw_daemon w) = (Ok (), cw_daemon w'))) \<or>
    (\<exists>e. res = Err e) \<and> (cw_daemon w' = cw_daemon w \<or> (\<exists>att req x. api_create A att req (cw_daemon w) = (Err x, cw_daemon w')))"
proof (cases "host_ipv4 resp = None \<and> host_ipv6 resp = None")
  case True
  then show ?thesis using assms by (auto simp: add_with_lease_def)
next
  case False
  show ?thesis using assms unfolding add_with_lease_def if_not_P [OF False]
  proof (cases rule: attemptE)
    case (failed e)
    then show ?thesis using on_net_daemonD [OF failed(1)] by blast
  next
    case (passed x w1)
    obtain host peer where x: "x = (host, peer)" by fastforce
    note d1 = on_net_daemonD [OF passed(1)]
    show ?thesis using passed(2) unfolding x prod.case
    proof (cases rule: attemptE)
      case (failed e)
      then show ?thesis using d1 by auto
    next
      case (passed p w2)
      then have d2: "cw_daemon w2 = cw_daemon w" using d1 by simp
      show ?thesis using passed(2)
      proof (cases rule: attemptE)
        case (failed e)
        then show ?thesis using d2 on_net_daemonD by metis
      next
        case (passed peer w3)
        then have d3: "cw_daemon w3 = cw_daemon w" using d2 on_net_daemonD by metis
        show ?thesis using passed(2)
        proof (cases rule: attemptE)
          case (failed e)
          then show ?thesis using d3 by auto
        next
          case (passed macs w4)
          then have d4: "cw_daemon w4 = cw_daemon w" using d3 by simp
          show ?thesis using passed(2) unfolding prod.case_eq_if
          proof (cases rule: attemptE)
            case (failed e)
            then show ?thesis using on_daemonD [OF failed(1)] d4 by auto
          next
            case (passed y w5)
            then show ?thesis using on_daemonD [OF passed(1)] d4 by auto
          qed
        qed
      qed
    qed
  qed
qed

text \<open>An ADD that succeeds reports its plan and has created the endpoint with the addresses of the plan.\<close>

lemma add_with_lease_Ok:
  assumes "add_with_lease N A E spec nsp ifname cid cfg resp w = (Ok r, w')"
  obtains p hostif peerif req where "plan_addresses E resp (route_mtu cfg) = Ok p" "cn_ips r = pl_ips p"
    "cn_interfaces r = [hostif, peerif]" "ci_sandbox hostif = None" "ci_sandbox peerif = Some nsp" "ci_name peerif = ifname"
    "rq_container_id req = cid" "rq_ipv4 req = pl_ipv4 p" "rq_ipv6 req = pl_ipv6 p"
    "api_create A (attachment_id cid ifname) req (cw_daemon w) = (Ok (), cw_daemon w')"
proof -
  have h: "\<not> (host_ipv4 resp = None \<and> host_ipv6 resp = None)"
    using assms unfolding add_with_lease_def by (rule contrapos_pn) simp
  from assms [unfolded add_with_lease_def if_not_P [OF h]] show ?thesis
  proof (cases rule: attemptE)
    case (passed x w1)
    obtain host peer where x: "x = (host, peer)" by fastforce
    note d1 = on_net_daemonD [OF passed(1)]
    from passed(2) [unfolded x prod.case] show ?thesis
    proof (cases rule: attemptE)
      case (passed p w2)
      then have p: "plan_addresses E resp (route_mtu cfg) = Ok p" "w2 = w1" by auto
      from passed(2) show ?thesis
      proof (cases rule: attemptE)
        case (passed peer w3)
        have d3: "cw_daemon w3 = cw_daemon w" using on_net_daemonD [OF passed(1)] p(2) d1 by simp
        from passed(2) show ?thesis
        proof (cases rule: attemptE)
          case (passed macs w4)
          have d4: "cw_daemon w4 = cw_daemon w" using passed(1) d3 by simp
          from passed(2) [unfolded prod.case_eq_if] show ?thesis
          proof (cases rule: attemptE)
            case (passed y w5)
            then have "w5 = w'" by simp
            note c = on_daemonD [OF passed(1), unfolded d4 this]
            show ?thesis by (rule that [OF p(1) _ _ _ _ _ _ _ _ c [unfolded unit_eq [of y]]]) (use passed(2) in auto)
          qed simp
        qed simp
      qed simp
    qed simp
  qed simp
qed

text \<open>The requests of an ADD in order: the configuration, the allocation and what happens under the lease.\<close>

lemma cni_add_daemon:
  assumes "cni_add N A E args spec w = (res, w')"
  obtains (refused) e where "res = Err e" "cw_daemon w' = cw_daemon w"
  | (no_config) e x where "res = Err e" "api_config A (cw_daemon w) = (Err x, cw_daemon w')"
  | (no_address) e x cfg s1 own where "res = Err e" "api_config A (cw_daemon w) = (Ok cfg, s1)"
      "api_allocate A None own None s1 = (Err x, cw_daemon w')"
  | (no_grant) e cfg s1 own resp where "res = Err e" "api_config A (cw_daemon w) = (Ok cfg, s1)"
      "api_allocate A None own None s1 = (Ok resp, cw_daemon w')" "lease_addresses resp = []"
  | (gave_back) e cfg s1 own resp nsp ifname cid w2 w3 where "res = Err e" "api_config A (cw_daemon w) = (Ok cfg, s1)"
      "api_allocate A None own None s1 = (Ok resp, cw_daemon w2)"
      "add_with_lease N A E spec nsp ifname cid cfg resp w2 = (Err e, w3)"
      "cw_daemon w' = drop_lease A (ev_releases E) resp (cw_daemon w3)"
  | (added) r cfg s1 own resp nsp ifname cid w2 where "res = Ok r" "api_config A (cw_daemon w) = (Ok cfg, s1)"
      "api_allocate A None own None s1 = (Ok resp, cw_daemon w2)" "lease_addresses resp \<noteq> []"
      "add_with_lease N A E spec nsp ifname cid cfg resp w2 = (Ok r, w')"
      "ca_netns args = Some nsp" "ca_ifname args = Some ifname" "ca_container_id args = Some cid"
proof -
  consider (a) e where "res = Err e" "w' = w"
    | (b) nsp ifname cid where "add_checked N A E args spec nsp ifname cid w = (res, w')"
        "ca_netns args = Some nsp" "ca_ifname args = Some ifname" "ca_container_id args = Some cid"
    using assms by (auto simp: cni_add_def split: option.splits if_splits)
  then show ?thesis
  proof cases
    case a
    then show ?thesis using refused by simp
  next
    case b
    from b(1) [unfolded add_checked_def] show ?thesis
    proof (cases rule: attemptE)
      case (failed e)
      show ?thesis using refused [OF failed(2) on_net_daemonD [OF failed(1)]] .
    next
      case (passed x w1)
      have d1: "cw_daemon w1 = cw_daemon w" using on_net_daemonD [OF passed(1)] .
      from passed(2) show ?thesis
      proof (cases rule: attemptE)
        case (failed e)
        then show ?thesis using refused [OF failed(2)] on_net_daemonD [OF failed(1)] d1 by simp
      next
        case (passed x w2)
        have d2: "cw_daemon w2 = cw_daemon w" using on_net_daemonD [OF passed(1)] d1 by simp
        from passed(2) show ?thesis
        proof (cases rule: attemptE)
          case (failed e)
          then show ?thesis using refused [OF failed(2)] d2 by simp
        next
          case (passed x w3)
          then have d3: "cw_daemon w3 = cw_daemon w" using d2 by simp
          from passed(2) show ?thesis
          proof (cases rule: attemptE)
            case (failed e)
            then show ?thesis using no_config [OF failed(2)] on_daemonD [OF failed(1)] d3 by metis
          next
            case (passed cfg w4)
            note c = on_daemonD [OF passed(1), unfolded d3]
            from passed(2) show ?thesis
            proof (cases rule: attemptE)
              case (failed e)
              show ?thesis using no_address [OF failed(2) c on_daemonD [OF failed(1)]] .
            next
              case (passed resp w5)
              note al = on_daemonD [OF passed(1)]
              show ?thesis
              proof (cases "resp_ipv4 resp = None \<and> resp_ipv6 resp = None")
                case True
                then show ?thesis using no_grant [OF _ c, of _ _ resp] al passed(2) by (auto simp: lease_addresses_def)
              next
                case False
                then have ne: "lease_addresses resp \<noteq> []" by (auto simp: lease_addresses_def)
                obtain r w6 where r: "add_with_lease N A E spec nsp ifname cid cfg resp w5 = (r, w6)" by fastforce
                show ?thesis
                proof (cases r)
                  case (Ok x)
                  then have "res = Ok x" "w' = w6" using passed(2) False r by auto
                  then show ?thesis using added [OF _ c al ne _ b(2-4)] r Ok by blast
                next
                  case (Err e)
                  then have "res = Err e" "cw_daemon w' = drop_lease A (ev_releases E) resp (cw_daemon w6)"
                    using passed(2) False r by auto
                  then show ?thesis using gave_back [OF _ c al] r Err by blast
                qed
              qed
            qed
          qed
        qed
      qed
    qed
  qed
qed

section \<open>The contract with the daemon\<close>

text \<open>What the plugin relies on whatever the transport loses: \<open>used\<close> are the addresses in use, as the texts \<open>names\<close>.
  Only an allocation takes addresses, ones that were free, and only a release of an address frees it.\<close>

locale lossy_api =
  fixes A :: "'s api_ops" and used :: "'s \<Rightarrow> string set" and names :: "string set" and inv :: "'s \<Rightarrow> bool"
  assumes used_names: "inv s \<Longrightarrow> used s \<subseteq> names"
    and config: "inv s \<Longrightarrow> api_config A s = (rc, s') \<Longrightarrow> inv s' \<and> used s' = used s"
    and create: "inv s \<Longrightarrow> api_create A att req s = (ru, s') \<Longrightarrow> inv s' \<and> used s' = used s"
    and delete: "inv s \<Longrightarrow> api_delete A att s = (ru, s') \<Longrightarrow> inv s' \<and> used s' = used s"
    and health: "inv s \<Longrightarrow> api_endpoint_health A att s = (rh, s') \<Longrightarrow> inv s' \<and> used s' = used s"
    and daemon_health: "inv s \<Longrightarrow> api_daemon_health A s = (ru, s') \<Longrightarrow> inv s' \<and> used s' = used s"
    and allocate: "inv s \<Longrightarrow> api_allocate A None own None s = (ra, s') \<Longrightarrow> inv s' \<and> used s \<subseteq> used s' \<and>
      (\<forall>x. ra = Ok x \<longrightarrow> granted_texts x \<subseteq> used s' - used s \<and> (\<forall>c \<in> set (lease_addresses x). ca_pool c \<noteq> Some []))"
    and release: "inv s \<Longrightarrow> ip \<in> names \<Longrightarrow> pool \<noteq> Some [] \<Longrightarrow> api_release A ip pool s = (ru, s') \<Longrightarrow>
      inv s' \<and> used s - {ip} \<subseteq> used s' \<and> used s' \<subseteq> used s"

text \<open>What it relies on when its requests get through: an allocation takes nothing but its grants and excluded addresses, and a
  release frees its address.\<close>

locale lease_api = lossy_api +
  fixes excl :: "'a \<Rightarrow> string set"
  assumes config_excl: "inv s \<Longrightarrow> api_config A s = (rc, s') \<Longrightarrow> excl s' = excl s"
    and allocate_exact: "inv s \<Longrightarrow> api_allocate A None own None s = (ra, s') \<Longrightarrow>
      used s' \<subseteq> used s \<union> excl s \<union> (case ra of Ok x \<Rightarrow> granted_texts x | Err _ \<Rightarrow> {})"
    and release_exact: "inv s \<Longrightarrow> ip \<in> names \<Longrightarrow> pool \<noteq> Some [] \<Longrightarrow> api_release A ip pool s = (ru, s') \<Longrightarrow> used s' = used s - {ip}"

lemma granted_texts_lease: "granted_texts r = ca_ip ` set (lease_addresses r)"
  by (auto simp: granted_texts_def lease_addresses_def split: option.splits)

lemma lease_addresses_length: "length (lease_addresses r) \<le> 2"
  by (simp add: lease_addresses_def split: option.splits)

context lossy_api
begin

lemma released_keeps:
  assumes "inv s" "\<forall>c \<in> set cs. ca_ip c \<in> names \<and> ca_pool c \<noteq> Some []"
  shows "inv (fold (\<lambda>c s. snd (api_release A (ca_ip c) (ca_pool c) s)) cs s) \<and>
    used s - ca_ip ` set cs \<subseteq> used (fold (\<lambda>c s. snd (api_release A (ca_ip c) (ca_pool c) s)) cs s) \<and>
    used (fold (\<lambda>c s. snd (api_release A (ca_ip c) (ca_pool c) s)) cs s) \<subseteq> used s"
  using assms
proof (induction cs arbitrary: s)
  case (Cons c cs)
  obtain r s1 where r: "api_release A (ca_ip c) (ca_pool c) s = (r, s1)" by fastforce
  have "inv s1 \<and> used s - {ca_ip c} \<subseteq> used s1 \<and> used s1 \<subseteq> used s"
    using release [OF Cons.prems(1) _ _ r] Cons.prems(2) by simp
  with Cons.IH [of s1] Cons.prems(2) r show ?case by auto
qed simp

text \<open>A command never frees an address that was in use before it, and an ADD that succeeds has taken one.\<close>

lemma add_keeps:
  assumes "inv (cw_daemon w)" "cni_add N A E args spec w = (res, w')"
  shows "inv (cw_daemon w') \<and> used (cw_daemon w) \<subseteq> used (cw_daemon w') \<and>
    ((\<exists>x. res = Ok x) \<longrightarrow> used (cw_daemon w') \<noteq> used (cw_daemon w))"
  using assms(2)
proof (cases rule: cni_add_daemon)
  case (refused e)
  then show ?thesis using assms(1) by simp
next
  case (no_config e x)
  then show ?thesis using config [OF assms(1)] by auto
next
  case (no_address e x cfg s1 own)
  then show ?thesis using config [OF assms(1) no_address(2)] allocate [OF _ no_address(3)] by auto
next
  case (no_grant e cfg s1 own resp)
  then show ?thesis using config [OF assms(1) no_grant(2)] allocate [OF _ no_grant(3)] by auto
next
  case (gave_back e cfg s1 own resp nsp ifname cid w2 w3)
  note c = config [OF assms(1) gave_back(2)]
  note a = allocate [OF conjunct1 [OF c] gave_back(3)]
  have w3: "inv (cw_daemon w3) \<and> used (cw_daemon w3) = used (cw_daemon w2)"
    using add_with_lease_daemon [OF gave_back(4)] a create [of "cw_daemon w2"] by auto
  have l: "ca_ip c \<in> names \<and> ca_pool c \<noteq> Some []" if "c \<in> set (take (ev_releases E) (lease_addresses resp))" for c
    using in_set_takeD [OF that] a used_names [of "cw_daemon w2"] unfolding granted_texts_lease by blast
  have "used (cw_daemon w3) - granted_texts resp \<subseteq> used (cw_daemon w')" "inv (cw_daemon w')"
    using released_keeps [of "cw_daemon w3" "take (ev_releases E) (lease_addresses resp)"] w3 l
      image_mono [OF set_take_subset, of ca_ip "ev_releases E" "lease_addresses resp"]
    unfolding gave_back(5) drop_lease_def granted_texts_lease by blast+
  then show ?thesis using w3 a c gave_back(1) by auto
next
  case (added r cfg s1 own resp nsp ifname cid w2)
  note c = config [OF assms(1) added(2)]
  note a = allocate [OF conjunct1 [OF c] added(3)]
  have "inv (cw_daemon w') \<and> used (cw_daemon w') = used (cw_daemon w2)"
    using add_with_lease_daemon [OF added(5)] a create [of "cw_daemon w2"] by auto
  moreover have "granted_texts resp \<noteq> {}" using added(4) by (simp add: granted_texts_lease)
  ultimately show ?thesis using a c by auto
qed

lemma del_keeps:
  assumes "inv (cw_daemon w)" "cni_del N A E args w = (res, w')"
  shows "inv (cw_daemon w') \<and> used (cw_daemon w') = used (cw_daemon w)"
  using assms delete [of "cw_daemon w"]
  by (auto simp: cni_del_def attempt_def on_daemon_def on_net_def split: option.splits result.splits prod.splits if_splits)

lemma check_keeps:
  assumes "inv (cw_daemon w)" "cni_check N A E args w = (res, w')"
  shows "inv (cw_daemon w') \<and> used (cw_daemon w') = used (cw_daemon w)"
  using assms unfolding cni_check_def
  by (auto elim!: attemptE dest!: on_daemonD dest: health split: option.splits if_splits)

lemma status_keeps:
  assumes "inv (cw_daemon w)" "cni_status A E args w = (res, w')"
  shows "inv (cw_daemon w') \<and> used (cw_daemon w') = used (cw_daemon w)"
  using assms unfolding cni_status_def by (auto elim!: attemptE dest!: on_daemonD dest: daemon_health)

text \<open>So the addresses in use only grow, with every ADD that succeeds.\<close>

lemma plugin_grows:
  assumes "inv (cw_daemon w)" "plugin_run jp jerr N A E cmd args w = (res, w')"
  shows "inv (cw_daemon w') \<and> used (cw_daemon w) \<subseteq> used (cw_daemon w') \<and>
    ((\<exists>x. res = Ok (Some x)) \<longrightarrow> used (cw_daemon w') \<noteq> used (cw_daemon w))"
proof (cases "load_args jp jerr (ca_args args)")
  case (Err e)
  then show ?thesis using assms by (cases cmd) (auto simp: plugin_run_def cni_dispatch_def Let_def)
next
  case (Ok spec)
  show ?thesis
  proof (cases cmd)
    case CmdAdd
    obtain r v where a: "cni_add N A E args spec w = (r, v)" by fastforce
    then show ?thesis using add_keeps [OF assms(1) a] assms(2) CmdAdd Ok
      by (cases r) (auto simp: plugin_run_def cni_dispatch_def Let_def)
  next
    case CmdDel
    obtain r v where a: "cni_del N A E args w = (r, v)" by fastforce
    then show ?thesis using del_keeps [OF assms(1) a] assms(2) CmdDel Ok
      by (cases r) (auto simp: plugin_run_def cni_dispatch_def Let_def)
  next
    case CmdCheck
    obtain r v where a: "cni_check N A E args w = (r, v)" by fastforce
    then show ?thesis using check_keeps [OF assms(1) a] assms(2) CmdCheck Ok
      by (cases r) (auto simp: plugin_run_def cni_dispatch_def Let_def)
  next
    case CmdStatus
    obtain r v where a: "cni_status A E args w = (r, v)" by fastforce
    then show ?thesis using status_keeps [OF assms(1) a] assms(2) CmdStatus Ok
      by (cases r) (auto simp: plugin_run_def cni_dispatch_def Let_def)
  next
    case CmdGc
    then show ?thesis using assms by (auto simp: plugin_run_def cni_dispatch_def Let_def)
  qed
qed

end

context lease_api
begin

lemma released_exact:
  assumes "inv s" "\<forall>c \<in> set cs. ca_ip c \<in> names \<and> ca_pool c \<noteq> Some []"
  shows "used (fold (\<lambda>c s. snd (api_release A (ca_ip c) (ca_pool c) s)) cs s) = used s - ca_ip ` set cs"
  using assms
proof (induction cs arbitrary: s)
  case (Cons c cs)
  obtain r s1 where r: "api_release A (ca_ip c) (ca_pool c) s = (r, s1)" by fastforce
  have "inv s1" "used s1 = used s - {ca_ip c}"
    using release [OF Cons.prems(1) _ _ r] release_exact [OF Cons.prems(1) _ _ r] Cons.prems(2) by simp_all
  with Cons.IH [of s1] Cons.prems(2) r show ?case by auto
qed simp

text \<open>An ADD that fails keeps only the grants whose release its process did not live to finish.\<close>

lemma failed_add_leftover:
  assumes "inv (cw_daemon w)" "cni_add N A E args spec w = (Err e, w')"
  shows "\<exists>left. used (cw_daemon w') \<subseteq> used (cw_daemon w) \<union> excl (cw_daemon w) \<union> set left \<and> length left \<le> 2 - ev_releases E"
  using assms(2)
proof (cases rule: cni_add_daemon)
  case (no_config e x)
  then show ?thesis using config [OF assms(1)] by (intro exI [of _ "[]"]) auto
next
  case (no_address e x cfg s1 own)
  then show ?thesis using config [OF assms(1) no_address(2)] config_excl [OF assms(1) no_address(2)] allocate_exact [OF _ no_address(3)]
    by (intro exI [of _ "[]"]) auto
next
  case (no_grant e cfg s1 own resp)
  then show ?thesis using config [OF assms(1) no_grant(2)] config_excl [OF assms(1) no_grant(2)] allocate_exact [OF _ no_grant(3)]
    by (intro exI [of _ "[]"]) (auto simp: granted_texts_lease)
next
  case (gave_back e cfg s1 own resp nsp ifname cid w2 w3)
  note c = config [OF assms(1) gave_back(2)] and x = config_excl [OF assms(1) gave_back(2)]
  note a = allocate [OF conjunct1 [OF c] gave_back(3)] and b = allocate_exact [OF conjunct1 [OF c] gave_back(3)]
  have w3: "inv (cw_daemon w3) \<and> used (cw_daemon w3) = used (cw_daemon w2)"
    using add_with_lease_daemon [OF gave_back(4)] a create [of "cw_daemon w2"] by auto
  let ?given = "take (ev_releases E) (lease_addresses resp)" and ?left = "map ca_ip (drop (ev_releases E) (lease_addresses resp))"
  have l: "\<forall>c \<in> set (lease_addresses resp). ca_ip c \<in> names \<and> ca_pool c \<noteq> Some []"
    using a used_names [of "cw_daemon w2"] unfolding granted_texts_lease by blast
  have "\<forall>c \<in> set ?given. ca_ip c \<in> names \<and> ca_pool c \<noteq> Some []" using l by (meson in_set_takeD)
  from released_exact [OF conjunct1 [OF w3] this] have "used (cw_daemon w') = used (cw_daemon w2) - ca_ip ` set ?given"
    using w3 unfolding gave_back(5) drop_lease_def by simp
  moreover have "granted_texts resp = ca_ip ` set ?given \<union> set ?left"
    unfolding granted_texts_lease by (metis append_take_drop_id image_Un list.set_map set_append)
  ultimately have "used (cw_daemon w') \<subseteq> used (cw_daemon w) \<union> excl (cw_daemon w) \<union> set ?left" using b c x by auto
  moreover have "length ?left \<le> 2 - ev_releases E" using lease_addresses_length [of resp] by simp
  ultimately show ?thesis by blast
qed (auto intro: exI [of _ "[]"])

lemma failed_add_gives_back:
  assumes "inv (cw_daemon w)" "2 \<le> ev_releases E" "cni_add N A E args spec w = (Err e, w')"
  shows "used (cw_daemon w') \<subseteq> used (cw_daemon w) \<union> excl (cw_daemon w)"
  using failed_add_leftover [OF assms(1,3)] assms(2) by auto

end

section \<open>The daemon keeps the contract\<close>

definition used_texts :: "'l daemon \<Rightarrow> string set" where
  "used_texts s = ip_str ` daemon_used s"

definition excl_texts :: "'l daemon \<Rightarrow> string set" where
  "excl_texts s = ip_str ` {ip. excluded POOL_DEFAULT (svc_state (dm_ipam s)) ip}"

text \<open>A sound address manager with the ranges and exclusions of \<open>st\<close>.\<close>

definition of_config :: "ipam_state \<Rightarrow> 'l daemon \<Rightarrow> bool" where
  "of_config st s \<longleftrightarrow> daemon_inv s \<and> same_config st (svc_state (dm_ipam s))"

lemma of_config_ipam: "dm_ipam s' = dm_ipam s \<Longrightarrow> of_config st s' = of_config st s"
  by (simp add: of_config_def)

lemma used_texts_diff: "used_texts s' - used_texts s = ip_str ` (daemon_used s' - daemon_used s)"
  by (simp add: used_texts_def image_set_diff [OF inj_ip_str])

lemma api_response_fails: "\<not> success (api_response e)"
  by (cases e) (simp_all add: api_response_def)

lemma handle_allocate_post:
  assumes "ipnet_docs L" "daemon_inv s" "handle_allocate L msg rnd6 rnd4 None own None s = (resp, s')"
  shows "of_config (svc_state (dm_ipam s)) s'" "used_texts s \<subseteq> used_texts s'" "excl_texts s' = excl_texts s"
    "\<exists>r. resp = Some r \<and>
      (if success r then \<exists>x. r = (200, JsonBody x) \<and> granted_texts x \<subseteq> used_texts s' - used_texts s \<and>
           used_texts s' \<subseteq> used_texts s \<union> excl_texts s \<union> granted_texts x \<and> (\<forall>c \<in> set (lease_addresses x). ca_pool c \<noteq> Some [])
       else used_texts s' \<subseteq> used_texts s \<union> excl_texts s)"
proof -
  let ?st = "svc_state (dm_ipam s)" and ?own = "unwrap_or [] own"
  obtain res svc where al: "ipam_allocate L rnd6 rnd4 None own None (dm_ipam s) = (res, svc)" by fastforce
  obtain r st where a: "allocate_next L rnd6 rnd4 None ?own POOL_DEFAULT ?st = (r, st)" by fastforce
  have p: "POOL_DEFAULT \<noteq> []" by (simp add: POOL_DEFAULT_def)
  note post = allocate_next_correct [OF assms(1,2) p a]
  have svc: "svc_state svc = st" using al a by (auto simp: ipam_allocate_def Let_def unwrap_or_def split: result.splits)
  have s': "dm_ipam s' = svc" using assms(3) al by (auto simp: handle_allocate_def split: result.splits)
  have sc: "same_config ?st st" using post by (simp add: both_post_def)
  show 1: "of_config ?st s'" "used_texts s \<subseteq> used_texts s'" using post by (auto simp: both_post_def s' svc used_texts_def of_config_def)
  show 2: "excl_texts s' = excl_texts s" using same_config_excluded [OF sc] by (simp add: excl_texts_def s' svc)
  note g = ipam_allocate_grants [OF assms(1,2) _ al]
  show "\<exists>r. resp = Some r \<and>
      (if success r then \<exists>x. r = (200, JsonBody x) \<and> granted_texts x \<subseteq> used_texts s' - used_texts s \<and>
           used_texts s' \<subseteq> used_texts s \<union> excl_texts s \<union> granted_texts x \<and> (\<forall>c \<in> set (lease_addresses x). ca_pool c \<noteq> Some [])
       else used_texts s' \<subseteq> used_texts s \<union> excl_texts s)"
  proof (cases r)
    case (Err e)
    have "daemon_used s' \<subseteq> daemon_used s \<union> {ip. excluded POOL_DEFAULT ?st ip}"
      using post unfolding both_post_def Err by (auto simp: s' svc)
    then have "used_texts s' \<subseteq> used_texts s \<union> excl_texts s" by (auto simp: used_texts_def excl_texts_def)
    moreover have "\<exists>x. resp = Some (api_response x)" using assms(3) al a Err
      by (auto simp: handle_allocate_def ipam_allocate_def Let_def unwrap_or_def)
    ultimately show ?thesis using api_response_fails if_not_P by metis
  next
    case (Ok rr)
    obtain r4 r6 where rr: "rr = (r4, r6)" by fastforce
    obtain x where x: "res = Ok x" "resp = Some (200, JsonBody x)" "resp_ipv4 x = map_option to_addressing r4" "resp_ipv6 x = map_option to_addressing r6"
      using assms(3) al a Ok rr by (auto simp: handle_allocate_def ipam_allocate_def Let_def unwrap_or_def)
    note c = allocate_next_consumes [OF assms(2) p a [unfolded Ok rr]]
    have t: "granted_texts x = ip_str ` ar_ip ` (set_option r4 \<union> set_option r6)"
      by (cases r4; cases r6) (auto simp: granted_texts_def x(3,4) to_addressing_def)
    have "used_texts s' \<subseteq> used_texts s \<union> excl_texts s \<union> granted_texts x"
    proof -
      have "daemon_used s' \<subseteq> daemon_used s \<union> {ip. excluded POOL_DEFAULT ?st ip} \<union> ar_ip ` (set_option r4 \<union> set_option r6)"
        using c by (auto simp: s' svc)
      then show ?thesis unfolding t used_texts_def excl_texts_def by (metis image_Un image_mono)
    qed
    moreover have "granted_texts x \<subseteq> used_texts s' - used_texts s" using g x(1) by (simp add: used_texts_diff s')
    moreover have "\<forall>c \<in> set (lease_addresses x). ca_pool c \<noteq> Some []"
      using c by (auto simp: lease_addresses_def x(3,4) to_addressing_def POOL_DEFAULT_def split: option.splits)
    ultimately show ?thesis using x(2) by simp
  qed
qed

lemma handle_release_post:
  assumes "ipnet_docs L" "daemon_inv s" "ip \<in> range ip_str" "pool \<noteq> Some []" "handle_release L msg ip pool s = (resp, s')"
  shows "of_config (svc_state (dm_ipam s)) s'" "used_texts s' = used_texts s - {ip}"
proof -
  obtain a where a: "ip = ip_str a" using assms(3) by blast
  obtain res svc where r: "ipam_release L a pool (dm_ipam s) = (res, svc)" by fastforce
  have s': "dm_ipam s' = svc" using assms(5) r by (auto simp: handle_release_def a parse_ip_str split: result.splits)
  note f = ipam_release_frees [OF assms(1,2,4) r]
  then show "of_config (svc_state (dm_ipam s)) s'" by (simp add: s' of_config_def)
  have "daemon_used s' = daemon_used s - {a}" using f by (simp add: s')
  then show "used_texts s' = used_texts s - {ip}" by (simp add: used_texts_def a image_set_diff [OF inj_ip_str])
qed

lemma api_dataE:
  assumes "api_data rp d ep h s = (res, s')"
  obtains (ok) r where "send_and_check rp d ep h s = (Ok r, s')" "res = decode_body (snd r)"
  | (err) e where "send_and_check rp d ep h s = (Err e, s')" "res = Err e"
  using assms by (auto simp: api_data_def split: prod.splits result.splits)

lemma api_no_bodyE:
  assumes "api_no_body rp d ep h s = (res, s')"
  obtains r where "send_and_check rp d ep h s = (r, s')" "is_ok res = is_ok r"
  using assms by (auto simp: api_no_body_def split: prod.splits result.splits)

text \<open>Requests that are not about addresses leave the address manager alone.\<close>

lemma send_keeps_ipam:
  assumes "\<And>j s. dm_ipam (snd (h j s)) = dm_ipam s" "send_and_check rp d ep h s = (r, s')"
  shows "dm_ipam s' = dm_ipam s"
  using send_and_check_keeps [of "\<lambda>t. dm_ipam t = dm_ipam s" h, OF _ _ assms(2)] assms(1) by simp

lemma data_keeps_ipam:
  "(\<And>j s. dm_ipam (snd (h j s)) = dm_ipam s) \<Longrightarrow> api_data rp d ep h s = (r, s') \<Longrightarrow> dm_ipam s' = dm_ipam s"
  by (elim api_dataE) (use send_keeps_ipam in blast)+

lemma no_body_keeps_ipam:
  "(\<And>j s. dm_ipam (snd (h j s)) = dm_ipam s) \<Longrightarrow> api_no_body rp d ep h s = (r, s') \<Longrightarrow> dm_ipam s' = dm_ipam s"
  by (elim api_no_bodyE) (use send_keeps_ipam in blast)+

lemma handlers_keep_ipam:
  "dm_ipam (snd (handle_config s)) = dm_ipam s" "dm_ipam (snd (handle_daemon_health s)) = dm_ipam s"
  "dm_ipam (snd (handle_health emsg att s)) = dm_ipam s" "dm_ipam (snd (handle_delete emsg att s)) = dm_ipam s"
  "dm_ipam (snd (handle_create emsg create s)) = dm_ipam s"
  by (auto simp: handle_config_def handle_daemon_health_def handle_health_def handle_delete_def handle_create_def
      split: result.splits prod.splits option.splits)

lemma daemon_api_keeps_ipam:
  "api_config (daemon_api D d) s = (rc, s') \<Longrightarrow> dm_ipam s' = dm_ipam s"
  "api_create (daemon_api D d) att req s = (ru, s') \<Longrightarrow> dm_ipam s' = dm_ipam s"
  "api_delete (daemon_api D d) att s = (ru, s') \<Longrightarrow> dm_ipam s' = dm_ipam s"
  "api_endpoint_health (daemon_api D d) att s = (rh, s') \<Longrightarrow> dm_ipam s' = dm_ipam s"
  "api_daemon_health (daemon_api D d) s = (ru, s') \<Longrightarrow> dm_ipam s' = dm_ipam s"
  by (auto simp: daemon_api_def client_config_def client_create_def client_delete_def client_health_def client_daemon_health_def
      handlers_keep_ipam elim!: data_keeps_ipam [rotated] no_body_keeps_ipam [rotated])

lemma of_configD: "of_config st s \<Longrightarrow> daemon_inv s" "of_config st s \<Longrightarrow> same_config st (svc_state (dm_ipam s))"
  by (simp_all add: of_config_def)

lemma of_config_trans: "of_config st s \<Longrightarrow> of_config (svc_state (dm_ipam s)) s' \<Longrightarrow> of_config st s'"
  using same_config_trans by (auto simp: of_config_def)

lemma client_allocate_lossy:
  assumes "ipnet_docs L" "of_config st s" "client_allocate enc rp d L msg rnd6 rnd4 None own None s = (ra, s')"
  shows "of_config st s' \<and> used_texts s \<subseteq> used_texts s' \<and>
    (\<forall>x. ra = Ok x \<longrightarrow> granted_texts x \<subseteq> used_texts s' - used_texts s \<and> (\<forall>c \<in> set (lease_addresses x). ca_pool c \<noteq> Some []))"
proof -
  let ?I = "\<lambda>t. of_config st t \<and> used_texts s \<subseteq> used_texts t" and ?h = "\<lambda>i. handle_allocate L msg (rnd6 i) (rnd4 i) None own None"
  have k: "?I (snd (?h j t))" if "?I t" for j t
  proof -
    obtain r t' where h: "?h j t = (r, t')" by fastforce
    show ?thesis using handle_allocate_post(1,2) [OF assms(1) of_configD(1) [OF conjunct1 [OF that]] h] that h by (auto intro: of_config_trans)
  qed
  have s: "?I s" using assms(2) by simp
  from assms(3) [unfolded client_allocate_def] show ?thesis
  proof (cases rule: api_dataE)
    case (ok r)
    from send_and_check_answer [of ?I ?h, OF k s ok(1)]
    obtain j t where t: "?I t" "?h j t = (Some r, s')" "success r" by blast
    from handle_allocate_post [OF assms(1) of_configD(1) [OF conjunct1 [OF t(1)]] t(2)] t
    show ?thesis using ok(2) by (auto intro: of_config_trans)
  next
    case (err e)
    then show ?thesis using send_and_check_keeps [of ?I ?h, OF k s err(1)] by simp
  qed
qed

lemma client_release_lossy:
  assumes "ipnet_docs L" "of_config st s" "ip \<in> range ip_str" "pool \<noteq> Some []" "client_release enc rp d L msg ip pool s = (ru, s')"
  shows "of_config st s' \<and> used_texts s - {ip} \<subseteq> used_texts s' \<and> used_texts s' \<subseteq> used_texts s"
proof -
  let ?I = "\<lambda>t. of_config st t \<and> used_texts s - {ip} \<subseteq> used_texts t \<and> used_texts t \<subseteq> used_texts s"
    and ?h = "\<lambda>_. handle_release L msg ip pool"
  have k: "?I (snd (?h j t))" if "?I t" for j t
  proof -
    obtain r t' where h: "?h j t = (r, t')" by fastforce
    show ?thesis using handle_release_post [OF assms(1) of_configD(1) [OF conjunct1 [OF that]] assms(3,4) h] that h by (auto intro: of_config_trans)
  qed
  have s: "?I s" using assms(2) by auto
  from assms(5) [unfolded client_release_def] obtain r where "send_and_check rp d (pb_build (query_opt enc ''pool'' pool (pb_new (''/ipam/'' @ ip)))) ?h s = (r, s')"
    by (rule api_no_bodyE)
  from send_and_check_keeps [of ?I ?h, OF k s this] show ?thesis .
qed

lemma daemon_lossy_api:
  assumes "ipnet_docs (de_lib D)"
  shows "lossy_api (daemon_api D d) used_texts (range ip_str) (of_config st)"
proof
  fix s :: "'a daemon" and own ra s'
  assume "of_config st s" "api_allocate (daemon_api D d) None own None s = (ra, s')"
  then show "of_config st s' \<and> used_texts s \<subseteq> used_texts s' \<and>
      (\<forall>x. ra = Ok x \<longrightarrow> granted_texts x \<subseteq> used_texts s' - used_texts s \<and> (\<forall>c \<in> set (lease_addresses x). ca_pool c \<noteq> Some []))"
    using client_allocate_lossy [OF assms] by (simp add: daemon_api_def)
next
  fix s :: "'a daemon" and ip pool ru s'
  assume "of_config st s" "ip \<in> range ip_str" "pool \<noteq> Some []" "api_release (daemon_api D d) ip pool s = (ru, s')"
  then show "of_config st s' \<and> used_texts s - {ip} \<subseteq> used_texts s' \<and> used_texts s' \<subseteq> used_texts s"
    using client_release_lossy [OF assms] by (simp add: daemon_api_def)
qed ((drule daemon_api_keeps_ipam, simp add: of_config_def used_texts_def) | auto simp: used_texts_def)+

text \<open>A transport that loses no answer to an allocation and delivers every release to the daemon.\<close>

definition dependable :: "(api_call \<Rightarrow> nat \<Rightarrow> delivery) \<Rightarrow> bool" where
  "dependable d \<longleftrightarrow> (\<forall>i. d CallAllocate i \<noteq> ReplyLost) \<and> (\<forall>ip. arrives (d (CallRelease ip)))"

lemma client_allocate_exact:
  assumes "ipnet_docs L" "\<And>i. d i \<noteq> ReplyLost" "of_config st s" "client_allocate enc rp d L msg rnd6 rnd4 None own None s = (ra, s')"
  shows "used_texts s' \<subseteq> used_texts s \<union> excl_texts s \<union> (case ra of Ok x \<Rightarrow> granted_texts x | Err _ \<Rightarrow> {})"
proof -
  let ?I = "\<lambda>t. of_config st t \<and> used_texts t \<subseteq> used_texts s \<union> excl_texts s \<and> excl_texts t = excl_texts s"
    and ?h = "\<lambda>i. handle_allocate L msg (rnd6 i) (rnd4 i) None own None"
    and ?Q = "\<lambda>r t. \<exists>x. snd r = JsonBody x \<and> used_texts t \<subseteq> used_texts s \<union> excl_texts s \<union> granted_texts x"
  have f: "?I t'" if "?I t" "?h j t = (r, t')" "\<forall>x. r = Some x \<longrightarrow> \<not> success x" for j t r t'
  proof -
    note p = handle_allocate_post [OF assms(1) of_configD(1) [OF conjunct1 [OF that(1)]] that(2)]
    have "used_texts t' \<subseteq> used_texts t \<union> excl_texts t" using p(4) that(3) by (metis (no_types, lifting))
    then show ?thesis using p(1,3) that(1) of_config_trans by blast
  qed
  have q: "?Q r t'" if "?I t" "?h j t = (Some r, t')" "success r" for j t r t'
  proof -
    note post = handle_allocate_post(4) [OF assms(1) of_configD(1) [OF conjunct1 [OF that(1)]] that(2)] and sr = that(3) and it = that(1)
    obtain x where "r = (200, JsonBody x)" "used_texts t' \<subseteq> used_texts t \<union> excl_texts t \<union> granted_texts x"
      using post sr by auto
    then show ?thesis using it by (intro exI [of _ x]) (simp, blast)
  qed
  have s: "?I s" using assms(3) by auto
  have n: "case res of Ok r \<Rightarrow> ?Q r t | Err _ \<Rightarrow> ?I t" if "send_and_check rp d ep ?h s = (res, t)" for ep res t
    by (rule send_and_check_no_loss [of d ?I ?h ?Q, OF assms(2) _ _ that s]; (rule f | rule q); assumption)
  from assms(4) [unfolded client_allocate_def] show ?thesis
  proof (cases rule: api_dataE)
    case (ok r)
    show ?thesis using n [OF ok(1)] ok(2) by auto
  next
    case (err e)
    show ?thesis using n [OF err(1)] err(2) by simp
  qed
qed

lemma client_release_exact:
  assumes "ipnet_docs L" "arrives d" "of_config st s" "ip \<in> range ip_str" "pool \<noteq> Some []"
    "client_release enc retry_default d L msg ip pool s = (ru, s')"
  shows "used_texts s' = used_texts s - {ip}"
proof -
  let ?I = "\<lambda>t. of_config st t \<and> used_texts t - {ip} = used_texts s - {ip}" and ?J = "\<lambda>t. of_config st t \<and> used_texts t = used_texts s - {ip}"
    and ?h = "\<lambda>_. handle_release L msg ip pool"
  have k: "?J (snd (?h j t))" if "?I t" for j t
  proof -
    obtain r t' where h: "?h j t = (r, t')" by fastforce
    show ?thesis using handle_release_post [OF assms(1) of_configD(1) [OF conjunct1 [OF that]] assms(4,5) h] that h by (auto intro: of_config_trans)
  qed
  from assms(6) [unfolded client_release_def] obtain r where
    r: "send_and_check retry_default d (pb_build (query_opt enc ''pool'' pool (pb_new (''/ipam/'' @ ip)))) ?h s = (r, s')"
    by (rule api_no_bodyE)
  have "?J s'" using send_and_check_reached [of d ?I ?J ?h, OF assms(2) k _ r] assms(3) by blast
  then show ?thesis by blast
qed

lemma daemon_lease_api:
  assumes "ipnet_docs (de_lib D)" "dependable d"
  shows "lease_api (daemon_api D d) used_texts (range ip_str) (of_config st) excl_texts"
proof (rule lease_api.intro [OF daemon_lossy_api [OF assms(1)]], unfold_locales)
  fix s :: "'a daemon" and own ra s'
  assume "of_config st s" "api_allocate (daemon_api D d) None own None s = (ra, s')"
  then show "used_texts s' \<subseteq> used_texts s \<union> excl_texts s \<union> (case ra of Ok x \<Rightarrow> granted_texts x | Err _ \<Rightarrow> {})"
    using client_allocate_exact [OF assms(1), of "d CallAllocate"] assms(2) by (simp add: daemon_api_def dependable_def)
next
  fix s :: "'a daemon" and ip pool ru s'
  assume "of_config st s" "ip \<in> range ip_str" "pool \<noteq> Some []" "api_release (daemon_api D d) ip pool s = (ru, s')"
  then show "used_texts s' = used_texts s - {ip}"
    using client_release_exact [OF assms(1), of "d (CallRelease ip)"] assms(2) by (simp add: daemon_api_def dependable_def)
qed (auto simp: excl_texts_def dest!: daemon_api_keeps_ipam)

text \<open>A granted address was free and is not excluded.\<close>

lemma ipam_grant_free:
  assumes "ipnet_docs L" "ipam_inv (svc_state svc)" "ipam_allocate L rnd6 rnd4 None own None svc = (Ok resp, svc')"
    "resp_ipv4 resp = Some c" "ca_ip c = ip_str ip"
  shows "ip \<notin> ipam_used (svc_state svc) \<and> \<not> excluded POOL_DEFAULT (svc_state svc) ip"
proof -
  obtain r st where a: "allocate_next L rnd6 rnd4 None (unwrap_or [] own) POOL_DEFAULT (svc_state svc) = (r, st)" by fastforce
  have p: "POOL_DEFAULT \<noteq> []" by (simp add: POOL_DEFAULT_def)
  obtain y r6 where y: "r = Ok (Some y, r6)" "c = to_addressing y"
    using assms(3,4) a by (auto simp: ipam_allocate_def Let_def unwrap_or_def split: result.splits)
  have "ar_ip y = ip" using assms(5) y(2) inj_ip_str by (simp add: to_addressing_def inj_eq)
  then show ?thesis using allocate_next_correct [OF assms(1,2) p a] unfolding both_post_def y(1)
    by (auto simp: grant_ok_def ipam_avail_def)
qed

section \<open>Instances\<close>

interpretation lossy_daemon: lossy_api "daemon_api (D\<lparr>de_lib := ipnet_ref\<rparr>) d" used_texts "range ip_str" "of_config st" for D d st
  by (rule daemon_lossy_api) (simp add: ipnet_docs_ref)

interpretation reached_daemon: lease_api "daemon_api (D\<lparr>de_lib := ipnet_ref\<rparr>) (\<lambda>_ _. Delivered)" used_texts "range ip_str" "of_config st" excl_texts for D st
  by (rule daemon_lease_api) (simp_all add: ipnet_docs_ref dependable_def arrives_def)

end
