(* ===== verification/Cni_Add.thy ===== *)
theory Cni_Add
  imports Cni_Lease
begin

text \<open>
  ADD, DEL and CHECK over a daemon: what an ADD obtains and registers, ADD on the network in memory, and the properties of the
  plugin together with the address manager, the endpoint service, the REST client and its transport.
\<close>

section \<open>What an ADD obtains from the daemon\<close>

lemma handle_allocate_shape:
  assumes "ipnet_docs L" "of_config st s" "handle_allocate L msg rnd6 rnd4 None own None s = (Some (k, JsonBody x), s')"
  shows "dm_manager s' = dm_manager s" "host_ipv4 x \<noteq> None \<and> host_ipv6 x = None"
    "resp_ipv4 x \<noteq> None \<longleftrightarrow> allocator_of Ipv4 st \<noteq> None" "resp_ipv6 x \<noteq> None \<longleftrightarrow> allocator_of Ipv6 st \<noteq> None"
    "\<And>c. resp_ipv4 x = Some c \<Longrightarrow> \<exists>a. ca_ip c = ip_str (V4 a)" "\<And>c. resp_ipv6 x = Some c \<Longrightarrow> \<exists>a. ca_ip c = ip_str (V6 a)"
proof -
  let ?st = "svc_state (dm_ipam s)" and ?own = "unwrap_or [] own"
  obtain r st' where a: "allocate_next L rnd6 rnd4 None ?own POOL_DEFAULT ?st = (r, st')" by fastforce
  have p: "POOL_DEFAULT \<noteq> []" by (simp add: POOL_DEFAULT_def)
  note post = allocate_next_correct [OF assms(1) of_configD(1) [OF assms(2)] p a]
  obtain r4 r6 where r: "r = Ok (r4, r6)" "host_ipv4 x \<noteq> None \<and> host_ipv6 x = None" "resp_ipv4 x = map_option to_addressing r4" "resp_ipv6 x = map_option to_addressing r6"
    using assms(3) a by (auto simp: handle_allocate_def ipam_allocate_def Let_def unwrap_or_def api_response_def split: result.splits)
  show "dm_manager s' = dm_manager s" using assms(3) by (auto simp: handle_allocate_def split: prod.splits result.splits)
  show "host_ipv4 x \<noteq> None \<and> host_ipv6 x = None" by (rule r(2))
  have w: "wanted None ?st f \<longleftrightarrow> allocator_of f st \<noteq> None" for f
    using of_configD(2) [OF assms(2)] unfolding same_config_def wanted_def by simp
  have g: "r4 \<noteq> None \<longleftrightarrow> wanted None ?st Ipv4" "r6 \<noteq> None \<longleftrightarrow> wanted None ?st Ipv6"
    "\<forall>y. r4 = Some y \<longrightarrow> family_of (ar_ip y) = Ipv4" "\<forall>y. r6 = Some y \<longrightarrow> family_of (ar_ip y) = Ipv6"
    using post unfolding both_post_def r(1) by (auto simp: grant_ok_def ipam_avail_def)
  show "resp_ipv4 x \<noteq> None \<longleftrightarrow> allocator_of Ipv4 st \<noteq> None" "resp_ipv6 x \<noteq> None \<longleftrightarrow> allocator_of Ipv6 st \<noteq> None"
    using g(1,2) by (simp_all add: r(3,4) w)
  have f: "family_of i = Ipv4 \<Longrightarrow> \<exists>a. i = V4 a" "family_of i = Ipv6 \<Longrightarrow> \<exists>a. i = V6 a" for i
    by (cases i; simp)+
  show "\<exists>a. ca_ip c = ip_str (V4 a)" if rc: "resp_ipv4 x = Some c" for c
  proof -
    obtain y where y: "r4 = Some y" "c = to_addressing y" using rc by (auto simp: r(3))
    then show ?thesis using g(3) f(1) [of "ar_ip y"] by (auto simp: to_addressing_def)
  qed
  show "\<exists>a. ca_ip c = ip_str (V6 a)" if rc: "resp_ipv6 x = Some c" for c
  proof -
    obtain y where y: "r6 = Some y" "c = to_addressing y" using rc by (auto simp: r(4))
    then show ?thesis using g(4) f(2) [of "ar_ip y"] by (auto simp: to_addressing_def)
  qed
qed

lemma handle_allocate_manager: "dm_manager (snd (handle_allocate L msg rnd6 rnd4 fam own pool s)) = dm_manager s"
  by (auto simp: handle_allocate_def split: prod.splits result.splits)

text \<open>The answer to an allocation, through any retries.\<close>

definition allocated :: "ipam_state \<Rightarrow> ipam_allocate_response \<Rightarrow> bool" where
  "allocated st x \<longleftrightarrow> host_ipv4 x \<noteq> None \<and> host_ipv6 x = None \<and> (resp_ipv4 x \<noteq> None \<longleftrightarrow> allocator_of Ipv4 st \<noteq> None) \<and>
     (resp_ipv6 x \<noteq> None \<longleftrightarrow> allocator_of Ipv6 st \<noteq> None) \<and>
     (\<forall>c. resp_ipv4 x = Some c \<longrightarrow> (\<exists>a. ca_ip c = ip_str (V4 a))) \<and> (\<forall>c. resp_ipv6 x = Some c \<longrightarrow> (\<exists>a. ca_ip c = ip_str (V6 a)))"

lemma daemon_allocate_answer:
  assumes "ipnet_docs (de_lib D)" "of_config st s" "api_allocate (daemon_api D d) None own None s = (ra, s')"
  shows "dm_manager s' = dm_manager s" "ra = Ok x \<Longrightarrow> allocated st x"
proof -
  let ?I = "\<lambda>t. of_config st t \<and> dm_manager t = dm_manager s"
    and ?h = "\<lambda>i. handle_allocate (de_lib D) (de_ipam_msg D) (de_rnd6 D i) (de_rnd4 D i) None own None"
  have k: "?I (snd (?h j t))" if "?I t" for j t
  proof -
    obtain r t' where h: "?h j t = (r, t')" by fastforce
    show ?thesis using handle_allocate_post(1) [OF assms(1) of_configD(1) [OF conjunct1 [OF that]] h] that h
        handle_allocate_manager [of "de_lib D" "de_ipam_msg D" "de_rnd6 D j" "de_rnd4 D j" None own None t] by (auto intro: of_config_trans)
  qed
  have s: "?I s" using assms(2) by simp
  have call: "api_data retry_default (d CallAllocate) (pb_build (query_opt (de_enc D) ''pool'' None
      (query_opt (de_enc D) ''owner'' own (query_opt (de_enc D) ''family'' None (pb_new ''/ipam''))))) ?h s = (ra, s')"
    using assms(3) by (simp add: daemon_api_def client_allocate_def)
  from call show "dm_manager s' = dm_manager s"
    by (cases rule: api_dataE) (use send_and_check_keeps [of ?I ?h, OF k s] in blast)+
  show "allocated st x" if ra: "ra = Ok x"
    using call
  proof (cases rule: api_dataE)
    case (ok r)
    from send_and_check_answer [of ?I ?h, OF k s ok(1)]
    obtain j t where t: "?I t" "?h j t = (Some r, s')" "success r" by blast
    obtain k where r: "r = (k, JsonBody x)" using ok(2) ra by (cases r; cases "snd r") auto
    show ?thesis unfolding allocated_def
      using handle_allocate_shape [OF assms(1) conjunct1 [OF t(1)] t(2) [unfolded r]] by blast
  qed (use ra in simp)
qed

lemma daemon_config_answer:
  assumes "api_config (daemon_api D d) s = (rc, s')" shows "s' = s"
proof -
  have "api_data retry_default (d CallConfig) ''/daemon/config'' (\<lambda>_. handle_config) s = (rc, s')"
    using assms by (simp add: daemon_api_def client_config_def)
  then obtain r where "send_and_check retry_default (d CallConfig) ''/daemon/config'' (\<lambda>_. handle_config) s = (r, s')"
    by (cases rule: api_dataE) blast+
  from send_and_check_keeps [of "\<lambda>t. t = s", OF _ _ this] show ?thesis by (simp add: handle_config_def)
qed

text \<open>A creation that is answered with success.\<close>

lemma service_create_Ok:
  assumes "indexed m" "\<forall>S. S \<noteq> {} \<longrightarrow> pick S \<in> S" "service_create J flt err_str add pick P att req m = (Some (Ok ()), m')"
  obtains eid v4 v6 where "parse_ipv4_addr P (rq_ipv4 req) = Ok v4" "parse_ipv6_addr P (rq_ipv6 req) = Ok v6"
    "lookup_container_id (rq_container_id req) m' = Some eid" "\<And>a. v4 = Some a \<Longrightarrow> lookup_ipv4 a m' = Some eid"
    "\<And>a. v6 = Some a \<Longrightarrow> lookup_ipv6 a m' = Some eid"
  using assms(3)
proof (cases rule: service_create_cases)
  case (created v4 v6 hm cm r')
  have p: "pick_ok pick (mg_ids m)" using assms(2) by (simp add: pick_ok_def)
  have ne: "ids (mg_ids m) \<noteq> {}" using created(6,7) create_endpoint_exhausted [of m] by fastforce
  note e = create_endpoint_effect [OF assms(1) p ne created(7)]
  show ?thesis by (rule that [OF created(2,3), of "pick (ids (mg_ids m))"]) (simp_all add: e request_spec_def)
qed simp

lemma daemon_create_Ok:
  assumes "indexed (dm_manager s)" "\<forall>S. S \<noteq> {} \<longrightarrow> de_pick D S \<in> S" "api_create (daemon_api D d) att req s = (Ok (), s')"
  obtains eid v4 v6 where "parse_ipv4_addr (de_net_parse D) (rq_ipv4 req) = Ok v4" "parse_ipv6_addr (de_net_parse D) (rq_ipv6 req) = Ok v6"
    "lookup_container_id (rq_container_id req) (dm_manager s') = Some eid" "\<And>a. v4 = Some a \<Longrightarrow> lookup_ipv4 a (dm_manager s') = Some eid"
    "\<And>a. v6 = Some a \<Longrightarrow> lookup_ipv6 a (dm_manager s') = Some eid"
proof -
  let ?I = "\<lambda>t. indexed (dm_manager t)"
    and ?c = "\<lambda>i. service_create (de_json D) (de_faults D i) (de_err_str D) (de_add D) (de_pick D) (de_net_parse D) att req"
  let ?h = "\<lambda>i. handle_create (de_endpoint_msg D) (?c i)"
  have k: "?I (snd (?h j t))" if "?I t" for j and t :: "'a daemon"
  proof -
    have "pick_ok (de_pick D) (mg_ids (dm_manager t))" using assms(2) by (simp add: pick_ok_def)
    then have "indexed (snd (?c j (dm_manager t)))" using indexed_service_create [OF that] by blast
    then show ?thesis by (auto simp: handle_create_def split: prod.splits option.splits result.splits)
  qed
  have "api_data retry_default (d CallCreate) (''/endpoint/'' @ att) ?h s = (Ok (), s')"
    using assms(3) by (simp add: daemon_api_def client_create_def)
  then obtain r where "send_and_check retry_default (d CallCreate) (''/endpoint/'' @ att) ?h s = (Ok r, s')"
    by (cases rule: api_dataE) auto
  from send_and_check_answer [of ?I ?h, OF k assms(1) this]
  obtain j t where t: "?I t" "?h j t = (Some r, s')" "success r" by blast
  obtain res m where c: "?c j (dm_manager t) = (res, m)" by fastforce
  have "res = Some (Ok ())" "m = dm_manager s'"
    using t(2,3) api_response_fails by (auto simp: handle_create_def c split: option.splits result.splits)
  note sc = c [unfolded this]
  show ?thesis by (rule service_create_Ok [OF t(1) assms(2) sc], rule that)
qed

section \<open>ADD on the network in memory\<close>

lemma mock_link_each: "link_each f (\<lambda>x k m. (Ok (g x k), m)) xs k m = (Ok (fold g xs k), m)"
  by (induction xs arbitrary: k) (simp_all add: attempt_def)

lemma mock_fold_add:
  "fold mock_add_addr as k = k\<lparr>ml_addr_calls := ml_addr_calls k @ as\<rparr>"
  "fold mock_add_route rs k = k\<lparr>ml_route_calls := ml_route_calls k @ rs\<rparr>"
  by (induction as arbitrary: k) (simp_all add: mock_add_addr_def, induction rs arbitrary: k, simp_all add: mock_add_route_def)

text \<open>The interface gets its addresses and then its routes, the narrowest first.\<close>

lemma mock_configure_iface:
  "configure_iface (mock_net ex) E addrs routes k m =
     (Ok (k\<lparr>ml_up_calls := ml_up_calls k + 1, ml_addr_calls := ml_addr_calls k @ addrs,
        ml_route_calls := ml_route_calls k @ sort_by_mask_narrowest_first routes\<rparr>), m)"
  by (simp add: configure_iface_def attempt_def mock_net_def mock_link_each mock_fold_add mock_set_up_def)

lemma mock_setup_veth:
  assumes "ex nsp"
  obtains host peer m' where "setup_veth (mock_net ex) E cid ifname nsp mtu m = (Ok (host, peer), m')"
    "ml_mac host = mac_generate_rand (ev_host_rand E)" "ml_mac peer = mac_generate_rand (ev_peer_rand E)"
    "ml_netns peer = Some nsp" "ml_ifname peer = ifname"
  using that assms
  by (simp add: setup_veth_def Let_def attempt_def mock_net_def mp_create_veth_def mock_set_ns_def mock_rename_def
      mock_set_rp_filter_def mock_set_mtu_def mock_set_up_def)

lemma mock_add_with_lease:
  assumes "ex nsp" "host_ipv4 resp \<noteq> None" "plan_addresses E resp (route_mtu cfg) = Ok p"
  obtains req n' where "rq_container_id req = cid" "rq_ipv4 req = pl_ipv4 p" "rq_ipv6 req = pl_ipv6 p"
    "rq_host_mac req = mac_display (mac_generate_rand (ev_host_rand E))" "rq_container_mac req = mac_display (mac_generate_rand (ev_peer_rand E))"
    "\<forall>s'. api_create A (attachment_id cid ifname) req (cw_daemon w) = (Ok (), s') \<longrightarrow>
       (\<exists>r. add_with_lease (mock_net ex) A E spec nsp ifname cid cfg resp w = (Ok r, \<lparr>cw_daemon = s', cw_net = n'\<rparr>))"
    "\<forall>e s'. api_create A (attachment_id cid ifname) req (cw_daemon w) = (Err e, s') \<longrightarrow>
       add_with_lease (mock_net ex) A E spec nsp ifname cid cfg resp w =
         (Err (PluginNotAvailable ''could not create endpoint''), \<lparr>cw_daemon = s', cw_net = n'\<rparr>)"
proof -
  obtain host peer m' where s: "setup_veth (mock_net ex) E cid ifname nsp (device_mtu cfg) (cw_net w) = (Ok (host, peer), m')"
    "ml_mac host = mac_generate_rand (ev_host_rand E)" "ml_mac peer = mac_generate_rand (ev_peer_rand E)"
    by (rule mock_setup_veth [of ex nsp E cid ifname "device_mtu cfg" "cw_net w", OF assms(1)])
  let ?req = "\<lparr>rq_container_id = cid, rq_container_mac = mac_display (ml_mac peer), rq_container_iface_name = ifname,
     rq_host_mac = mac_display (ml_mac host), rq_host_iface_name = ml_ifname host,
     rq_host_iface_index = ml_ifindex host, rq_k8s_namespace = as_pod_namespace spec,
     rq_k8s_pod_name = as_pod_name spec, rq_k8s_uid = as_pod_uid spec, rq_ipv4 = pl_ipv4 p, rq_ipv6 = pl_ipv6 p\<rparr>"
  obtain h where h: "host_ipv4 resp = Some h" using assms(2) by blast
  have lk: "lk_mac (mock_net ex) = (\<lambda>k. Some (ml_mac k))" "lk_ifname (mock_net ex) = ml_ifname" "lk_ifindex (mock_net ex) = ml_ifindex"
    by (simp_all add: mock_net_def)
  have d: "add_with_lease (mock_net ex) A E spec nsp ifname cid cfg resp w =
      attempt (\<lambda>_. PluginNotAvailable ''could not create endpoint'') (on_daemon (api_create A (attachment_id cid ifname) ?req))
        (\<lambda>_ w. (Ok \<lparr>cn_interfaces = [\<lparr>ci_name = ml_ifname host, ci_mac = mac_display (ml_mac host), ci_sandbox = None\<rparr>,
             \<lparr>ci_name = ifname, ci_mac = mac_display (ml_mac peer), ci_sandbox = Some nsp\<rparr>],
           cn_ips = pl_ips p, cn_routes = pl_cni_routes p\<rparr>, w)) (w\<lparr>cw_net := m'\<rparr>)"
    using assms(3) h by (simp add: add_with_lease_def attempt_def on_net_def s(1) mock_configure_iface lk link_macs_def)
  show ?thesis
    by (rule that [of ?req m']) (simp_all add: s(2,3) d attempt_def on_daemon_def)
qed

text \<open>The requests up to the lease when they are delivered at once.\<close>

lemma delivered_config: "d CallConfig 0 = Delivered \<Longrightarrow> api_config (daemon_api D d) s = (Ok \<lparr>device_mtu = 1500, route_mtu = 1500\<rparr>, s)"
  unfolding daemon_api_def api_ops.simps client_config_def api_data_def send_and_check_def max_attempts_default numeral_2_eq_2
  by (simp add: try_send_def handle_config_def)

lemma delivered_allocate:
  assumes "d CallAllocate 0 = Delivered" "ipam_allocate (de_lib D) (de_rnd6 D 0) (de_rnd4 D 0) None own None (dm_ipam s) = (Ok resp, svc)"
  shows "api_allocate (daemon_api D d) None own None s = (Ok resp, s\<lparr>dm_ipam := svc\<rparr>)"
  unfolding daemon_api_def api_ops.simps client_allocate_def api_data_def send_and_check_def max_attempts_default numeral_2_eq_2
  using assms by (simp add: try_send_def handle_allocate_def)

lemma mock_add:
  assumes "ca_netns args = Some nsp" "ca_ifname args = Some ifname" "ca_container_id args = Some cid" "ca_prev_result args = None"
    "ex nsp" "build_api_client E args = Ok client" "d CallConfig 0 = Delivered" "d CallAllocate 0 = Delivered"
    "ipam_allocate (de_lib D) (de_rnd6 D 0) (de_rnd4 D 0) None (Some (as_pod_namespace spec @ ''/'' @ as_pod_name spec)) None (dm_ipam (cw_daemon w)) = (Ok resp, svc)"
    "lease_addresses resp \<noteq> []" "host_ipv4 resp \<noteq> None" "plan_addresses E resp 1500 = Ok p"
  obtains req where "rq_container_id req = cid" "rq_ipv4 req = pl_ipv4 p" "rq_ipv6 req = pl_ipv6 p"
    "rq_host_mac req = mac_display (mac_generate_rand (ev_host_rand E))" "rq_container_mac req = mac_display (mac_generate_rand (ev_peer_rand E))"
    "\<forall>s'. api_create (daemon_api D d) (attachment_id cid ifname) req ((cw_daemon w)\<lparr>dm_ipam := svc\<rparr>) = (Ok (), s') \<longrightarrow>
       (\<exists>r w'. cni_add (mock_net ex) (daemon_api D d) E args spec w = (Ok r, w') \<and> cw_daemon w' = s')"
    "\<forall>e s'. api_create (daemon_api D d) (attachment_id cid ifname) req ((cw_daemon w)\<lparr>dm_ipam := svc\<rparr>) = (Err e, s') \<longrightarrow>
       (\<exists>w'. cni_add (mock_net ex) (daemon_api D d) E args spec w = (Err (PluginNotAvailable ''could not create endpoint''), w') \<and>
         cw_daemon w' = drop_lease (daemon_api D d) (ev_releases E) resp s')"
proof -
  let ?A = "daemon_api D d" and ?cfg = "\<lparr>device_mtu = 1500, route_mtu = 1500\<rparr>"
  let ?w = "w\<lparr>cw_daemon := (cw_daemon w)\<lparr>dm_ipam := svc\<rparr>\<rparr>"
  have n: "open_ns (mock_net ex) nsp n = Ok ()" "(case delete_link_in_ns (mock_net ex) nsp ifname n of (Err (LinkNotFound _), n') \<Rightarrow> (Ok (), n') | r \<Rightarrow> r) = (Ok (), n)" for n
    using assms(5) by (simp_all add: mock_net_def mp_delete_link_in_ns_def mp_get_link_in_ns_def Let_def split: option.splits)
  have ne: "\<not> (resp_ipv4 resp = None \<and> resp_ipv6 resp = None)" using assms(10) by (auto simp: lease_addresses_def)
  have c: "cni_add (mock_net ex) ?A E args spec w =
      (case add_with_lease (mock_net ex) ?A E spec nsp ifname cid ?cfg resp ?w of
         (Ok r, w') \<Rightarrow> (Ok r, w')
       | (Err e, w') \<Rightarrow> (Err e, w'\<lparr>cw_daemon := drop_lease ?A (ev_releases E) resp (cw_daemon w')\<rparr>))"
    using ne by (cases "resp_ipv4 resp"; cases "resp_ipv6 resp")
      (simp_all add: cni_add_def add_checked_def attempt_def on_net_def on_daemon_def assms(1-4,6) n delivered_config [of d, OF assms(7)] delivered_allocate [of d D, OF assms(8,9), simplified])
  have p: "plan_addresses E resp (route_mtu ?cfg) = Ok p" using assms(12) by simp
  obtain req n' where r: "rq_container_id req = cid" "rq_ipv4 req = pl_ipv4 p" "rq_ipv6 req = pl_ipv6 p"
    "rq_host_mac req = mac_display (mac_generate_rand (ev_host_rand E))" "rq_container_mac req = mac_display (mac_generate_rand (ev_peer_rand E))"
    "\<forall>s'. api_create ?A (attachment_id cid ifname) req (cw_daemon ?w) = (Ok (), s') \<longrightarrow>
       (\<exists>r. add_with_lease (mock_net ex) ?A E spec nsp ifname cid ?cfg resp ?w = (Ok r, \<lparr>cw_daemon = s', cw_net = n'\<rparr>))"
    "\<forall>e s'. api_create ?A (attachment_id cid ifname) req (cw_daemon ?w) = (Err e, s') \<longrightarrow>
       add_with_lease (mock_net ex) ?A E spec nsp ifname cid ?cfg resp ?w =
         (Err (PluginNotAvailable ''could not create endpoint''), \<lparr>cw_daemon = s', cw_net = n'\<rparr>)"
    by (rule mock_add_with_lease [of ex nsp resp E ?cfg p cid ?A ifname ?w spec, OF assms(5,11) p])
  show ?thesis
    by (rule that [of req]) (use r c in auto)
qed

text \<open>The plan of an ADD has only the IPv4 address, as a host network.\<close>

lemma plan_allocated:
  assumes "net_parse_docs (ev_net_parse E)" "allocated st x" "plan_addresses E x mtu = Ok p"
  shows "pl_ipv6 p = None" "resp_ipv4 x = None \<Longrightarrow> pl_ips p = [] \<and> pl_ipv4 p = None"
    "resp_ipv4 x = Some c \<Longrightarrow> \<exists>a g. ca_ip c = ip_str (V4 a) \<and> pl_ips p = [\<lparr>ic_interface = Some 1, ic_address = NetV4 a 32, ic_gateway = Some (V4 g)\<rparr>] \<and>
       pl_ipv4 p = Some \<lparr>ad_ip = net_str (NetV4 a 32), ad_pool = ca_pool c\<rparr>"
proof -
  have 6: "plan_ipv6 E x mtu q = Ok q" for q using assms(2) by (simp add: plan_ipv6_def allocated_def)
  then have 4: "plan_ipv4 E x mtu plan_empty = Ok p" using assms(3) by (auto simp: plan_addresses_def split: result.splits)
  obtain h where h: "host_ipv4 x = Some h" using assms(2) by (auto simp: allocated_def)
  show n: "resp_ipv4 x = None \<Longrightarrow> pl_ips p = [] \<and> pl_ipv4 p = None" using 4 by (auto simp: plan_ipv4_def h plan_empty_def)
  have s: "\<exists>a g. ca_ip c = ip_str (V4 a) \<and> p = plan_empty\<lparr>pl_ipv4 := Some \<lparr>ad_ip = net_str (NetV4 a 32), ad_pool = ca_pool c\<rparr>,
      pl_routes := ipv4_routes g mtu, pl_endpoints := [\<lparr>ia_ip = V4 a, ia_prefix_len = 32\<rparr>],
      pl_ips := [\<lparr>ic_interface = Some 1, ic_address = NetV4 a 32, ic_gateway = Some (V4 g)\<rparr>],
      pl_cni_routes := convert_to_cni_routes (ipv4_routes g mtu)\<rparr>" if c: "resp_ipv4 x = Some c" for c
  proof -
    obtain a where a: "ca_ip c = ip_str (V4 a)" using assms(2) c unfolding allocated_def by blast
    have i: "ia_from_str (ev_net_parse E) (ca_ip c) = Ok \<lparr>ia_ip = V4 a, ia_prefix_len = 32\<rparr>"
      using ia_from_ip_str [OF assms(1), of "V4 a"] unfolding a by simp
    obtain g where "parse_v4 h = Some g" using 4 by (auto simp: plan_ipv4_def h c split: option.splits)
    then have "p = plan_empty\<lparr>pl_ipv4 := Some \<lparr>ad_ip = net_str (NetV4 a 32), ad_pool = ca_pool c\<rparr>,
      pl_routes := ipv4_routes g mtu, pl_endpoints := [\<lparr>ia_ip = V4 a, ia_prefix_len = 32\<rparr>],
      pl_ips := [\<lparr>ic_interface = Some 1, ic_address = NetV4 a 32, ic_gateway = Some (V4 g)\<rparr>],
      pl_cni_routes := convert_to_cni_routes (ipv4_routes g mtu)\<rparr>"
      using 4 by (simp add: plan_ipv4_def h c i plan_address_def to_ip_net_def ia_str_net plan_empty_def)
    with a show ?thesis by blast
  qed
  show "resp_ipv4 x = Some c \<Longrightarrow> \<exists>a g. ca_ip c = ip_str (V4 a) \<and> pl_ips p = [\<lparr>ic_interface = Some 1, ic_address = NetV4 a 32, ic_gateway = Some (V4 g)\<rparr>] \<and>
       pl_ipv4 p = Some \<lparr>ad_ip = net_str (NetV4 a 32), ad_pool = ca_pool c\<rparr>"
    using s by fastforce
  show "pl_ipv6 p = None"
    using s 4 by (cases "resp_ipv4 x") (auto simp: plan_ipv4_def h plan_empty_def)
qed

text \<open>A successful ADD over a daemon: its grant, its plan and its endpoint.\<close>

lemma daemon_added:
  assumes "ipnet_docs (de_lib D)" "net_parse_docs (ev_net_parse E)" "daemon_inv (cw_daemon w)"
    "cni_add N (daemon_api D d) E args spec w = (Ok r, w')"
  obtains resp mtu p req cid ifname s2 where "ca_container_id args = Some cid" "lease_addresses resp \<noteq> []"
    "allocated (svc_state (dm_ipam (cw_daemon w))) resp"
    "granted_texts resp \<subseteq> ip_str ` (daemon_used (cw_daemon w') - daemon_used (cw_daemon w))"
    "plan_addresses E resp mtu = Ok p" "cn_ips r = pl_ips p"
    "dm_manager s2 = dm_manager (cw_daemon w)" "rq_container_id req = cid" "rq_ipv4 req = pl_ipv4 p" "rq_ipv6 req = pl_ipv6 p"
    "api_create (daemon_api D d) (attachment_id cid ifname) req s2 = (Ok (), cw_daemon w')"
  using assms(4)
proof (cases rule: cni_add_daemon)
  case (added r' cfg s1 own resp nsp ifname cid w2)
  let ?st = "svc_state (dm_ipam (cw_daemon w))"
  have s1: "s1 = cw_daemon w" using daemon_config_answer [OF added(2)] .
  have oc: "of_config ?st s1" using assms(3) by (simp add: s1 of_config_def)
  note a = daemon_allocate_answer [OF assms(1) oc added(3)]
  have g: "granted_texts resp \<subseteq> used_texts (cw_daemon w2) - used_texts s1"
    using lossy_api.allocate [OF daemon_lossy_api [OF assms(1)] oc added(3)] by blast
  from added(5) show ?thesis
  proof (cases rule: add_with_lease_Ok)
    case (1 p hostif peerif req)
    have "dm_ipam (cw_daemon w') = dm_ipam (cw_daemon w2)" using daemon_api_keeps_ipam(2) [OF 1(10)] .
    then have "granted_texts resp \<subseteq> ip_str ` (daemon_used (cw_daemon w') - daemon_used (cw_daemon w))"
      using g unfolding used_texts_diff s1 by simp
    then show ?thesis
      using that [OF added(8,4) a(2) [OF refl] _ 1(1) _ _ 1(7-9) 1(10)] 1(2) added(1) a(1) s1 by simp
  qed
qed simp_all


section \<open>Creations through the transport\<close>

text \<open>What the service does with a request of ADD: the first creation registers the container, a second one is refused.\<close>

lemma service_create_refused:
  assumes "lookup_container_id (rq_container_id req) m \<noteq> None"
  shows "\<exists>e. service_create J flt err_str add pick P att req m = (Some (Err e), m)"
  using assms by (simp add: service_create_def)

lemma service_create_registers:
  assumes "indexed m" "pick_ok pick (mg_ids m)" "ids (mg_ids m) \<noteq> {}" "lookup_container_id (rq_container_id req) m = None"
    "parse_ipv4_addr P (rq_ipv4 req) = Ok v4" "rq_ipv6 req = None" "\<not> in_use lookup_ipv4 v4 m"
    "mac_parse (rq_host_mac req) = Some hm" "mac_parse (rq_container_mac req) = Some cm"
  obtains r m' eid where "service_create J flt err_str add pick P att req m = (Some r, m')"
    "lookup_container_id (rq_container_id req) m' = Some eid" "\<And>a. v4 = Some a \<Longrightarrow> lookup_ipv4 a m' = Some eid"
    "flt = no_faults \<Longrightarrow> r = Ok ()"
proof -
  let ?sp = "request_spec req hm cm v4 None" and ?eid = "pick (ids (mg_ids m))"
  obtain r m' where c: "create_endpoint J flt err_str add pick ?sp m = (r, m')" by fastforce
  have s: "service_create J flt err_str add pick P att req m = (Some r, m')"
    using assms(4-9) c by (simp add: service_create_def parse_ipv6_addr_def in_use_def)
  note e = create_endpoint_effect [OF assms(1-3) c]
  have ok: "r = Ok ()" if "flt = no_faults"
  proof -
    obtain res l where "add (Container \<lparr>ep_id = ?eid, ep_spec = ?sp\<rparr>) (mg_loader m) = (res, l)" by fastforce
    from create_endpoint_outcome [OF assms(1-3) this c [unfolded that]] show ?thesis by blast
  qed
  show ?thesis by (rule that [OF s, of ?eid]) (simp_all add: e request_spec_def ok)
qed

lemma handle_create_refused:
  assumes "\<exists>e. create (dm_manager s) = (Some (Err e), dm_manager s)"
  shows "\<exists>e. try_send Delivered ep (handle_create msg create) s = (Err e, s) \<and> is_retryable e"
proof -
  obtain e where "create (dm_manager s) = (Some (Err e), dm_manager s)" using assms by blast
  then show ?thesis by (simp add: try_send_def handle_create_def api_of_endpoint_def api_response_def status_error_def)
qed

lemma lost_creation:
  assumes "d CallCreate 0 = ReplyLost" "d CallCreate 1 = Delivered" "d CallCreate 2 = Delivered"
    "service_create (de_json D) (de_faults D 0) (de_err_str D) (de_add D) (de_pick D) (de_net_parse D) att req (dm_manager s) = (Some r, m)"
    "lookup_container_id (rq_container_id req) m \<noteq> None"
  shows "\<exists>e. api_create (daemon_api D d) att req s = (Err e, s\<lparr>dm_manager := m\<rparr>)"
proof -
  let ?c = "\<lambda>i. service_create (de_json D) (de_faults D i) (de_err_str D) (de_add D) (de_pick D) (de_net_parse D) att req"
  let ?h = "\<lambda>i. handle_create (de_endpoint_msg D) (?c i)" and ?s = "s\<lparr>dm_manager := m\<rparr>" and ?ep = "''/endpoint/'' @ att"
  have 0: "try_send (d CallCreate 0) ?ep (?h 0) s = (Err NetworkError, ?s)"
    using assms(1,4) by (cases r) (simp_all add: try_send_def handle_create_def)
  have n: "\<exists>e. try_send Delivered ?ep (?h i) ?s = (Err e, ?s) \<and> is_retryable e" for i
    by (rule handle_create_refused) (use service_create_refused [OF assms(5)] in simp)
  obtain e1 e2 where e: "try_send (d CallCreate 1) ?ep (?h 1) ?s = (Err e1, ?s)" "is_retryable e1"
    "try_send (d CallCreate 2) ?ep (?h 2) ?s = (Err e2, ?s)"
    using n [of 1] n [of 2] assms(2,3) by auto
  have "send_and_check retry_default (d CallCreate) ?ep ?h s = (Err e2, ?s)"
    unfolding send_and_check_def max_attempts_default
    using 0 e by (simp add: numeral_2_eq_2)
  then show ?thesis by (simp add: daemon_api_def client_create_def api_data_def)
qed

lemma delivered_creation:
  assumes "d CallCreate 0 = Delivered"
    "service_create (de_json D) (de_faults D 0) (de_err_str D) (de_add D) (de_pick D) (de_net_parse D) att req (dm_manager s) = (Some (Ok ()), m)"
  shows "api_create (daemon_api D d) att req s = (Ok (), s\<lparr>dm_manager := m\<rparr>)"
  unfolding daemon_api_def api_ops.simps client_create_def api_data_def send_and_check_def max_attempts_default numeral_2_eq_2
  using assms by (simp add: try_send_def handle_create_def)

lemma drop_lease_manager: "dm_manager (drop_lease (daemon_api D d) k resp s) = dm_manager s"
proof -
  have h: "dm_manager (snd (handle_release L msg ip pool t)) = dm_manager t" for L msg ip pool and t :: "'a daemon"
    by (auto simp: handle_release_def split: option.splits prod.splits result.splits)
  have "dm_manager (snd (api_release (daemon_api D d) ip pool t)) = dm_manager t" for ip pool t
  proof -
    obtain r t' where c: "api_release (daemon_api D d) ip pool t = (r, t')" by fastforce
    then obtain r' where "send_and_check retry_default (d (CallRelease ip)) (pb_build (query_opt (de_enc D) ''pool'' pool (pb_new (''/ipam/'' @ ip))))
        (\<lambda>_. handle_release (de_lib D) (de_ipam_msg D) ip pool) t = (r', t')"
      by (auto simp: daemon_api_def client_release_def elim: api_no_bodyE)
    from send_and_check_keeps [of "\<lambda>u. dm_manager u = dm_manager t", OF _ _ this] show ?thesis using c h by simp
  qed
  then have "dm_manager (fold (\<lambda>c s. snd (api_release (daemon_api D d) (ca_ip c) (ca_pool c) s)) cs t) = dm_manager t" for cs t
    by (induction cs arbitrary: t) simp_all
  then show ?thesis by (simp add: drop_lease_def)
qed

lemma generate_rand_wf: "length bs = 6 \<Longrightarrow> mac_parse (mac_display (mac_generate_rand bs)) = Some (mac_generate_rand bs)"
  by (rule mac_parse_display) (simp add: mac_wf_def mac_generate_rand_def)

lemma host_net_parse:
  "net_parse_docs P \<Longrightarrow> parse_ipv4_addr P (Some \<lparr>ad_ip = net_str (NetV4 a 32), ad_pool = x\<rparr>) = Ok (Some a)"
  by (simp add: parse_ipv4_addr_def parse_addr_def net_parse_docs_def net_wf_def)

text \<open>The request of an ADD that is granted an IPv4 address, on a daemon that does not know the container.\<close>

lemma mock_add_creates:
  assumes "ca_netns args = Some nsp" "ca_ifname args = Some ifname" "ca_container_id args = Some cid" "ca_prev_result args = None"
    "ex nsp" "build_api_client E args = Ok client" "d CallConfig 0 = Delivered" "d CallAllocate 0 = Delivered"
    "ipam_allocate (de_lib D) (de_rnd6 D 0) (de_rnd4 D 0) None (Some (as_pod_namespace spec @ ''/'' @ as_pod_name spec)) None (dm_ipam (cw_daemon w)) = (Ok resp, svc)"
    "ipnet_docs (de_lib D)" "net_parse_docs (ev_net_parse E)" "net_parse_docs (de_net_parse D)"
    "daemon_inv (cw_daemon w)" "gateway_ip (dm_ipam (cw_daemon w)) = V4 g" "resp_ipv4 resp = Some c" "ca_ip c = ip_str (V4 a)"
    "length (ev_host_rand E) = 6" "length (ev_peer_rand E) = 6"
    "indexed (dm_manager (cw_daemon w))" "pick_ok (de_pick D) (mg_ids (dm_manager (cw_daemon w)))" "ids (mg_ids (dm_manager (cw_daemon w))) \<noteq> {}"
    "lookup_container_id cid (dm_manager (cw_daemon w)) = None" "lookup_ipv4 a (dm_manager (cw_daemon w)) = None"
  obtains req r m eid where
    "service_create (de_json D) (de_faults D 0) (de_err_str D) (de_add D) (de_pick D) (de_net_parse D) (attachment_id cid ifname) req (dm_manager (cw_daemon w)) = (Some r, m)"
    "rq_container_id req = cid" "lookup_container_id cid m = Some eid" "lookup_ipv4 a m = Some eid" "de_faults D 0 = no_faults \<Longrightarrow> r = Ok ()"
    "\<forall>s'. api_create (daemon_api D d) (attachment_id cid ifname) req ((cw_daemon w)\<lparr>dm_ipam := svc\<rparr>) = (Ok (), s') \<longrightarrow>
       (\<exists>r w'. cni_add (mock_net ex) (daemon_api D d) E args spec w = (Ok r, w') \<and> cw_daemon w' = s')"
    "\<forall>e s'. api_create (daemon_api D d) (attachment_id cid ifname) req ((cw_daemon w)\<lparr>dm_ipam := svc\<rparr>) = (Err e, s') \<longrightarrow>
       (\<exists>w'. cni_add (mock_net ex) (daemon_api D d) E args spec w = (Err (PluginNotAvailable ''could not create endpoint''), w') \<and>
         cw_daemon w' = drop_lease (daemon_api D d) (ev_releases E) resp s')"
proof -
  have oc: "of_config (svc_state (dm_ipam (cw_daemon w))) (cw_daemon w)" using assms(13) by (simp add: of_config_def)
  have h: "host_ipv4 resp = Some (v4_str g)" using assms(9,14) by (auto simp: ipam_allocate_def Let_def split: result.splits prod.splits)
  have al: "allocated (svc_state (dm_ipam (cw_daemon w))) resp"
    using daemon_allocate_answer(2) [of D _ _ d, OF assms(10) oc delivered_allocate [of d D, OF assms(8,9)]] by blast
  have "\<exists>p. plan_addresses E resp 1500 = Ok p"
  proof -
    have "ia_from_str (ev_net_parse E) (ca_ip c) = Ok \<lparr>ia_ip = V4 a, ia_prefix_len = 32\<rparr>"
      using ia_from_ip_str [OF assms(11), of "V4 a"] assms(16) by simp
    moreover have "plan_ipv6 E resp 1500 q = Ok q" for q using al by (simp add: plan_ipv6_def allocated_def)
    ultimately show ?thesis by (simp add: plan_addresses_def plan_ipv4_def h assms(15) parse_v4_str plan_address_def to_ip_net_def)
  qed
  then obtain p where p: "plan_addresses E resp 1500 = Ok p" by blast
  note pl = plan_allocated [OF assms(11) al p]
  obtain b where b: "ca_ip c = ip_str (V4 b)" "pl_ipv4 p = Some \<lparr>ad_ip = net_str (NetV4 b 32), ad_pool = ca_pool c\<rparr>"
    using pl(3) [OF assms(15)] by blast
  have "b = a" using b(1) assms(16) inj_ip_str by (metis ip_addr.inject(1) injD)
  note v = host_net_parse [OF assms(12), of a "ca_pool c"]
  have ne: "lease_addresses resp \<noteq> []" "host_ipv4 resp \<noteq> None" using assms(15) h by (simp_all add: lease_addresses_def)
  obtain req where req: "rq_container_id req = cid" "rq_ipv4 req = pl_ipv4 p" "rq_ipv6 req = pl_ipv6 p"
    "rq_host_mac req = mac_display (mac_generate_rand (ev_host_rand E))" "rq_container_mac req = mac_display (mac_generate_rand (ev_peer_rand E))"
    "\<forall>s'. api_create (daemon_api D d) (attachment_id cid ifname) req ((cw_daemon w)\<lparr>dm_ipam := svc\<rparr>) = (Ok (), s') \<longrightarrow>
       (\<exists>r w'. cni_add (mock_net ex) (daemon_api D d) E args spec w = (Ok r, w') \<and> cw_daemon w' = s')"
    "\<forall>e s'. api_create (daemon_api D d) (attachment_id cid ifname) req ((cw_daemon w)\<lparr>dm_ipam := svc\<rparr>) = (Err e, s') \<longrightarrow>
       (\<exists>w'. cni_add (mock_net ex) (daemon_api D d) E args spec w = (Err (PluginNotAvailable ''could not create endpoint''), w') \<and>
         cw_daemon w' = drop_lease (daemon_api D d) (ev_releases E) resp s')"
    by (rule mock_add [of args nsp ifname cid ex E client d D spec w resp svc p, OF assms(1-9) ne p])
  have rp: "parse_ipv4_addr (de_net_parse D) (rq_ipv4 req) = Ok (Some a)" "rq_ipv6 req = None"
    using req(2,3) b(2) v pl(1) by (simp_all add: \<open>b = a\<close>)
  obtain r m eid where
    "service_create (de_json D) (de_faults D 0) (de_err_str D) (de_add D) (de_pick D) (de_net_parse D) (attachment_id cid ifname) req (dm_manager (cw_daemon w)) = (Some r, m)"
    "lookup_container_id (rq_container_id req) m = Some eid" "\<And>x. Some a = Some x \<Longrightarrow> lookup_ipv4 x m = Some eid" "de_faults D 0 = no_faults \<Longrightarrow> r = Ok ()"
    by (rule service_create_registers [OF assms(19-21) _ rp _
          generate_rand_wf [OF assms(17), folded req(4)] generate_rand_wf [OF assms(18), folded req(5)],
          of "de_json D" "de_faults D 0" "de_err_str D" "de_add D" "attachment_id cid ifname"])
       (use assms(22,23) req(1) in \<open>simp_all add: in_use_def\<close>)
  then show ?thesis using that [of req r m eid] req by blast
qed

section \<open>A daemon and a plugin\<close>

definition cni_ipam :: ipam_service where
  "cni_ipam = ipam_new ipnet_ref (V4 1) (Some (NetV4 0 30)) (Some (NetV6 0 126))"

definition cni_world0 :: "(unit daemon, mock_provisioner) cni_world" where
  "cni_world0 = \<lparr>cw_daemon = \<lparr>dm_ipam = cni_ipam, dm_manager = manager_new () no_entries\<rparr>, cw_net = mp_default\<rparr>"

definition sample_denv :: "unit daemon_env" where
  "sample_denv = \<lparr>de_lib = ipnet_ref, de_ipam_msg = \<lambda>_. [], de_endpoint_msg = \<lambda>_. [], de_enc = \<lambda>x. x, de_rnd6 = \<lambda>_ _. 0, de_rnd4 = \<lambda>_ _. 0,
     de_json = sample_json, de_faults = \<lambda>_. no_faults, de_err_str = \<lambda>_. [], de_add = refuse, de_pick = Min, de_net_parse = ref_net_parse\<rparr>"

definition sample_cenv :: cni_env where
  "sample_cenv = \<lparr>ev_show = \<lambda>_. [], ev_sha = \<lambda>x. x, ev_host_rand = replicate 6 0, ev_peer_rand = replicate 6 1, ev_net_parse = ref_net_parse,
     ev_uri_ok = \<lambda>_. True, ev_socket = None, ev_releases = 2\<rparr>"

definition sample_cargs :: cni_args where
  "sample_cargs = \<lparr>ca_netns = Some ''/ns'', ca_ifname = Some ''eth0'', ca_container_id = Some ''c1'', ca_args = None, ca_prev_result = None,
     ca_daemon_endpoint = None\<rparr>"

lemma cni_world0_simps [simp]:
  "dm_ipam (cw_daemon cni_world0) = cni_ipam" "dm_manager (cw_daemon cni_world0) = manager_new () no_entries"
  by (simp_all add: cni_world0_def)

lemma cni_world0_inv: "daemon_inv (cw_daemon cni_world0)" "daemon_used (cw_daemon cni_world0) = {}"
  unfolding cni_world0_simps cni_ipam_def by (rule ipam_new_inv; simp add: ipnet_docs_ref net_wf_def)+

lemma cni_ipam_grants:
  obtains resp svc c where "ipam_allocate ipnet_ref (\<lambda>_. 0) (\<lambda>_. 0) None (Some ''/'') None cni_ipam = (Ok resp, svc)"
    "resp_ipv4 resp = Some c" "ca_ip c = ip_str (V4 1)"
proof -
  have "case fst (ipam_allocate ipnet_ref (\<lambda>_. 0) (\<lambda>_. 0) None (Some ''/'') None cni_ipam) of
      Ok r \<Rightarrow> map_option ca_ip (resp_ipv4 r) = Some (ip_str (V4 1)) | Err _ \<Rightarrow> False" by code_simp
  then show ?thesis using that by (cases "ipam_allocate ipnet_ref (\<lambda>_. 0) (\<lambda>_. 0) None (Some ''/'') None cni_ipam") (auto split: result.splits)
qed

lemma sample_client: "build_api_client sample_cenv sample_cargs = Ok (UnixTransport ''/tmp/sarena.sock'', ''http://localhost/v1'')"
proof -
  have "split_once_str ''://'' ''unix:///tmp/sarena.sock'' = Some (''unix'', ''/tmp/sarena.sock'')" "ascii_lower ''unix'' = ''unix''" by code_simp+
  then show ?thesis by (simp add: build_api_client_def new_client_with_retry_def sample_cenv_def sample_cargs_def default_socket_path_protocol_def
        default_socket_path_def DEFAULT_BASE_PATH_def)
qed

lemma sample_fields:
  "de_lib sample_denv = ipnet_ref" "de_rnd6 sample_denv i j = 0" "de_rnd4 sample_denv i j = 0" "de_json sample_denv = sample_json"
  "de_faults sample_denv i = no_faults" "de_err_str sample_denv = (\<lambda>_. [])" "de_add sample_denv = refuse" "de_pick sample_denv = Min"
  "de_net_parse sample_denv = ref_net_parse" "ev_net_parse sample_cenv = ref_net_parse" "length (ev_host_rand sample_cenv) = 6"
  "length (ev_peer_rand sample_cenv) = 6" "ev_releases sample_cenv = 2" "ca_netns sample_cargs = Some ''/ns''" "ca_ifname sample_cargs = Some ''eth0''"
  "ca_container_id sample_cargs = Some ''c1''" "ca_prev_result sample_cargs = None" "ca_args sample_cargs = None"
  "as_pod_name args_default = []" "as_pod_namespace args_default = []" "gateway_ip cni_ipam = V4 1"
  "ix_container_id (manager_new l s) = []" "ix_ipv4 (manager_new l s) = []"
  by (simp_all add: sample_denv_def sample_cenv_def sample_cargs_def args_default_def cni_ipam_def ipam_new_def manager_new_def)

text \<open>The facts of a first ADD on this daemon that the lemmas above ask for.\<close>

lemma sample_add:
  assumes "d CallConfig 0 = Delivered" "d CallAllocate 0 = Delivered"
  obtains resp svc c req r m where
    "ipam_allocate ipnet_ref (\<lambda>_. 0) (\<lambda>_. 0) None (Some ''/'') None cni_ipam = (Ok resp, svc)" "resp_ipv4 resp = Some c" "ca_ip c = ip_str (V4 1)"
    "service_create sample_json no_faults (\<lambda>_. []) refuse Min ref_net_parse (attachment_id ''c1'' ''eth0'') req (manager_new () no_entries) = (Some (Ok ()), m)"
    "\<forall>s'. api_create (daemon_api sample_denv d) (attachment_id ''c1'' ''eth0'') req ((cw_daemon cni_world0)\<lparr>dm_ipam := svc\<rparr>) = (Ok (), s') \<longrightarrow>
       (\<exists>r w'. cni_add (mock_net (\<lambda>_. True)) (daemon_api sample_denv d) sample_cenv sample_cargs args_default cni_world0 = (Ok r, w') \<and> cw_daemon w' = s')"
    "\<forall>e s'. api_create (daemon_api sample_denv d) (attachment_id ''c1'' ''eth0'') req ((cw_daemon cni_world0)\<lparr>dm_ipam := svc\<rparr>) = (Err e, s') \<longrightarrow>
       (\<exists>e w'. cni_add (mock_net (\<lambda>_. True)) (daemon_api sample_denv d) sample_cenv sample_cargs args_default cni_world0 = (Err e, w'))"
proof -
  obtain resp svc c where a: "ipam_allocate ipnet_ref (\<lambda>_. 0) (\<lambda>_. 0) None (Some ''/'') None cni_ipam = (Ok resp, svc)"
    "resp_ipv4 resp = Some c" "ca_ip c = ip_str (V4 1)" by (rule cni_ipam_grants)
  have al: "ipam_allocate (de_lib sample_denv) (de_rnd6 sample_denv 0) (de_rnd4 sample_denv 0) None
      (Some (as_pod_namespace args_default @ ''/'' @ as_pod_name args_default)) None (dm_ipam (cw_daemon cni_world0)) = (Ok resp, svc)"
    using a(1) by (simp add: sample_fields sample_denv_def)
  obtain req r m eid where q:
    "service_create (de_json sample_denv) (de_faults sample_denv 0) (de_err_str sample_denv) (de_add sample_denv) (de_pick sample_denv) (de_net_parse sample_denv)
       (attachment_id ''c1'' ''eth0'') req (dm_manager (cw_daemon cni_world0)) = (Some r, m)"
    "de_faults sample_denv 0 = no_faults \<Longrightarrow> r = Ok ()"
    "\<forall>s'. api_create (daemon_api sample_denv d) (attachment_id ''c1'' ''eth0'') req ((cw_daemon cni_world0)\<lparr>dm_ipam := svc\<rparr>) = (Ok (), s') \<longrightarrow>
       (\<exists>r w'. cni_add (mock_net (\<lambda>_. True)) (daemon_api sample_denv d) sample_cenv sample_cargs args_default cni_world0 = (Ok r, w') \<and> cw_daemon w' = s')"
    "\<forall>e s'. api_create (daemon_api sample_denv d) (attachment_id ''c1'' ''eth0'') req ((cw_daemon cni_world0)\<lparr>dm_ipam := svc\<rparr>) = (Err e, s') \<longrightarrow>
       (\<exists>w'. cni_add (mock_net (\<lambda>_. True)) (daemon_api sample_denv d) sample_cenv sample_cargs args_default cni_world0 = (Err (PluginNotAvailable ''could not create endpoint''), w') \<and>
         cw_daemon w' = drop_lease (daemon_api sample_denv d) (ev_releases sample_cenv) resp s')"
    by (rule mock_add_creates [of sample_cargs "''/ns''" "''eth0''" "''c1''" "\<lambda>_. True" sample_cenv _ d sample_denv args_default cni_world0 resp svc 1 c 1,
          OF _ _ _ _ _ sample_client assms al _ _ _ cni_world0_inv(1) _ a(2,3)])
       (use sample_hyps(8,9) in \<open>simp_all add: sample_fields ipnet_docs_ref ref_net_parse_docs indexed_new\<close>)
  show ?thesis by (rule that [OF a, of req m]) (use q in \<open>auto simp: sample_fields\<close>)
qed

abbreviation "sample_cni d \<equiv> cni_add (mock_net (\<lambda>_. True)) (daemon_api sample_denv d) sample_cenv sample_cargs args_default cni_world0"

abbreviation "all_delivered \<equiv> (\<lambda>(_ :: api_call) (_ :: nat). Delivered)"

lemma sample_add_Ok: "\<exists>r w'. sample_cni all_delivered = (Ok r, w')"
proof -
  obtain svc req m where s:
    "service_create sample_json no_faults (\<lambda>_. []) refuse Min ref_net_parse (attachment_id ''c1'' ''eth0'') req (manager_new () no_entries) = (Some (Ok ()), m)"
    "\<forall>s'. api_create (daemon_api sample_denv all_delivered) (attachment_id ''c1'' ''eth0'') req ((cw_daemon cni_world0)\<lparr>dm_ipam := svc\<rparr>) = (Ok (), s') \<longrightarrow>
       (\<exists>r w'. sample_cni all_delivered = (Ok r, w') \<and> cw_daemon w' = s')"
    by (rule sample_add [of all_delivered]) simp_all
  have "api_create (daemon_api sample_denv all_delivered) (attachment_id ''c1'' ''eth0'') req ((cw_daemon cni_world0)\<lparr>dm_ipam := svc\<rparr>) =
      (Ok (), (cw_daemon cni_world0)\<lparr>dm_ipam := svc, dm_manager := m\<rparr>)"
    using delivered_creation [of all_delivered sample_denv "attachment_id ''c1'' ''eth0''" req "(cw_daemon cni_world0)\<lparr>dm_ipam := svc\<rparr>" m] s(1)
    by (simp add: sample_fields)
  then show ?thesis using s(2) by blast
qed

text \<open>A transport that cannot build the creation.\<close>

abbreviation "no_create \<equiv> (\<lambda>c (_ :: nat). if c = CallCreate then NotBuilt else Delivered)"

lemma sample_add_Err: "\<exists>e w'. sample_cni no_create = (Err e, w')"
proof -
  obtain svc req where s:
    "\<forall>e s'. api_create (daemon_api sample_denv no_create) (attachment_id ''c1'' ''eth0'') req ((cw_daemon cni_world0)\<lparr>dm_ipam := svc\<rparr>) = (Err e, s') \<longrightarrow>
       (\<exists>e w'. sample_cni no_create = (Err e, w'))"
    by (rule sample_add [of no_create]) simp_all
  have "api_create (daemon_api sample_denv no_create) att req s = (Err HttpError, s)" for att s
    unfolding daemon_api_def api_ops.simps client_create_def api_data_def send_and_check_def max_attempts_default numeral_2_eq_2
    by (simp add: try_send_def)
  then show ?thesis using s by blast
qed

text \<open>A transport that loses the first answer to the creation.\<close>

abbreviation "lost_create \<equiv> (\<lambda>c (i :: nat). if c = CallCreate \<and> i = 0 then ReplyLost else Delivered)"

section \<open>Properties\<close>

text \<open>C3: a pod that was added is registered. When ADD succeeds over a daemon, with any answers lost and any
  failures on the way, the daemon has an endpoint for the container, every address ADD reports leads to that endpoint, was
  free before and is in use now.\<close>

theorem added_pod_is_registered:
  assumes "ipnet_docs (de_lib D)" "net_parse_docs (ev_net_parse E)" "net_parse_docs (de_net_parse D)" "\<forall>S. S \<noteq> {} \<longrightarrow> de_pick D S \<in> S"
    "daemon_inv (cw_daemon w)" "indexed (dm_manager (cw_daemon w))" "ca_container_id args = Some cid"
    "cni_add N (daemon_api D d) E args spec w = (Ok r, w')"
  shows "\<exists>eid. lookup_container_id cid (dm_manager (cw_daemon w')) = Some eid \<and>
    (\<forall>c \<in> set (cn_ips r). lookup_ip (net_addr (ic_address c)) (dm_manager (cw_daemon w')) = Some eid \<and>
       net_addr (ic_address c) \<in> daemon_used (cw_daemon w') - daemon_used (cw_daemon w))"
  using assms(8)
proof (rule daemon_added [OF assms(1,2,5)])
  fix resp mtu p req cid' ifname s2
  assume a: "ca_container_id args = Some cid'" "lease_addresses resp \<noteq> []" "allocated (svc_state (dm_ipam (cw_daemon w))) resp"
    "granted_texts resp \<subseteq> ip_str ` (daemon_used (cw_daemon w') - daemon_used (cw_daemon w))"
    "plan_addresses E resp mtu = Ok p" "cn_ips r = pl_ips p" "dm_manager s2 = dm_manager (cw_daemon w)"
    "rq_container_id req = cid'" "rq_ipv4 req = pl_ipv4 p" "rq_ipv6 req = pl_ipv6 p"
    "api_create (daemon_api D d) (attachment_id cid' ifname) req s2 = (Ok (), cw_daemon w')"
  have "indexed (dm_manager s2)" using assms(6) a(7) by simp
  from daemon_create_Ok [OF this assms(4) a(11)] obtain eid v4 v6 where e: "parse_ipv4_addr (de_net_parse D) (pl_ipv4 p) = Ok v4"
    "lookup_container_id cid (dm_manager (cw_daemon w')) = Some eid" "\<And>a. v4 = Some a \<Longrightarrow> lookup_ipv4 a (dm_manager (cw_daemon w')) = Some eid"
    using a(1,8-10) assms(7) by (metis option.inject)
  note pl = plan_allocated [OF assms(2) a(3,5)]
  have "lookup_ip (net_addr (ic_address c)) (dm_manager (cw_daemon w')) = Some eid \<and>
      net_addr (ic_address c) \<in> daemon_used (cw_daemon w') - daemon_used (cw_daemon w)" if c: "c \<in> set (cn_ips r)" for c
  proof (cases "resp_ipv4 resp")
    case None
    then show ?thesis using c pl(2) a(6) by simp
  next
    case (Some x)
    obtain q g where q: "ca_ip x = ip_str (V4 q)" "pl_ips p = [\<lparr>ic_interface = Some 1, ic_address = NetV4 q 32, ic_gateway = Some (V4 g)\<rparr>]"
      "pl_ipv4 p = Some \<lparr>ad_ip = net_str (NetV4 q 32), ad_pool = ca_pool x\<rparr>" using pl(3) [OF Some] by blast
    have "de_net_parse D (net_str (NetV4 q 32)) = Some (NetV4 q 32)" using assms(3) by (simp add: net_parse_docs_def net_wf_def)
    then have "v4 = Some q" using e(1) by (simp add: q(3) parse_ipv4_addr_def parse_addr_def)
    moreover have "ip_str (V4 q) \<in> ip_str ` (daemon_used (cw_daemon w') - daemon_used (cw_daemon w))"
      using a(4) q(1) Some by (auto simp: granted_texts_def simp del: ip_str.simps)
    then have "V4 q \<in> daemon_used (cw_daemon w') - daemon_used (cw_daemon w)" using inj_ip_str by (simp only: inj_image_mem_iff)
    ultimately show ?thesis using c e(3) by (simp add: a(6) q(2) lookup_ip_def)
  qed
  with e(2) show ?thesis by blast
qed

theorem added_pod_is_registered_witness:
  "\<exists>r w' eid. sample_cni all_delivered = (Ok r, w') \<and> lookup_container_id ''c1'' (dm_manager (cw_daemon w')) = Some eid"
proof -
  obtain r w' where r: "sample_cni all_delivered = (Ok r, w')" using sample_add_Ok by blast
  have h: "ipnet_docs (de_lib sample_denv)" "net_parse_docs (ev_net_parse sample_cenv)" "net_parse_docs (de_net_parse sample_denv)"
    "\<forall>S. S \<noteq> {} \<longrightarrow> de_pick sample_denv S \<in> S" "indexed (dm_manager (cw_daemon cni_world0))"
    using Min_pick by (simp_all add: sample_fields ipnet_docs_ref ref_net_parse_docs indexed_new)
  from added_pod_is_registered [OF h(1-4) cni_world0_inv(1) h(5) _ r, of "''c1''"] r show ?thesis by (auto simp: sample_fields)
qed

text \<open>C4: a failed ADD gives its addresses back as far as its process lives. When the transport is dependable, an ADD that
  failed, whichever step of the network or the daemon failed, frees nothing that was in use before, and of the
  addresses granted to it at most those stay in use whose release the process did not complete before it
  exited: at most two minus the releases it completed, so none when it outlives both. Addresses the
  allocator skipped as excluded are not counted.\<close>

theorem failed_add_gives_addresses_back:
  assumes "ipnet_docs (de_lib D)" "dependable d" "daemon_inv (cw_daemon w)"
    "cni_add N (daemon_api D d) E args spec w = (Err e, w')"
  defines "kept \<equiv> {ip \<in> daemon_used (cw_daemon w') - daemon_used (cw_daemon w).
    \<not> excluded POOL_DEFAULT (svc_state (dm_ipam (cw_daemon w))) ip}"
  shows "daemon_used (cw_daemon w) \<subseteq> daemon_used (cw_daemon w') \<and> finite kept \<and> card kept \<le> 2 - ev_releases E"
proof -
  have oc: "of_config (svc_state (dm_ipam (cw_daemon w))) (cw_daemon w)" using assms(3) by (simp add: of_config_def)
  have "used_texts (cw_daemon w) \<subseteq> used_texts (cw_daemon w')"
    using lossy_api.add_keeps [OF daemon_lossy_api [OF assms(1)] oc assms(4)] by blast
  then have keeps: "daemon_used (cw_daemon w) \<subseteq> daemon_used (cw_daemon w')"
    unfolding used_texts_def inj_image_subset_iff [OF inj_ip_str] .
  obtain left where l: "used_texts (cw_daemon w') \<subseteq> used_texts (cw_daemon w) \<union> excl_texts (cw_daemon w) \<union> set left"
    "length left \<le> 2 - ev_releases E"
    using lease_api.failed_add_leftover [OF daemon_lease_api [OF assms(1,2)] oc assms(4)] by blast
  have "ip_str ` kept \<subseteq> set left"
  proof
    fix x assume "x \<in> ip_str ` kept"
    then obtain ip where ip: "x = ip_str ip" "ip \<in> kept" by blast
    then have "x \<in> used_texts (cw_daemon w) \<union> excl_texts (cw_daemon w) \<union> set left"
      using l(1) unfolding kept_def used_texts_def by blast
    moreover have "x \<notin> used_texts (cw_daemon w)" "x \<notin> excl_texts (cw_daemon w)"
      using ip inj_image_mem_iff [OF inj_ip_str] unfolding kept_def used_texts_def excl_texts_def by auto
    ultimately show "x \<in> set left" by blast
  qed
  then have "finite kept" "card kept \<le> card (set left)"
    using inj_on_subset [OF inj_ip_str subset_UNIV] inj_on_finite card_inj_on_le List.finite_set by metis+
  with keeps l(2) card_length [of left] show ?thesis by simp
qed

theorem failed_add_gives_addresses_back_witness:
  "\<exists>e w'. sample_cni no_create = (Err e, w') \<and> daemon_used (cw_daemon w') = {}"
proof -
  obtain e w' where r: "sample_cni no_create = (Err e, w')" using sample_add_Err by blast
  have h: "ipnet_docs (de_lib sample_denv)" "dependable no_create" "ev_releases sample_cenv = 2"
    by (simp_all add: sample_fields ipnet_docs_ref dependable_def arrives_def)
  have "\<not> excluded POOL_DEFAULT (svc_state (dm_ipam (cw_daemon cni_world0))) ip" for ip by (simp add: excluded_def cni_ipam_def ipam_new_def)
  with failed_add_gives_addresses_back [OF h(1,2) cni_world0_inv(1) r] cni_world0_inv(2) r h(3) show ?thesis by auto
qed

text \<open>Commands one after the other, each with its own process and transport; the number of ADDs that succeed.\<close>

type_synonym 'l invocation = "'l daemon_env \<times> (api_call \<Rightarrow> nat \<Rightarrow> delivery) \<times> cni_env \<times> cni_command \<times> cni_args"

fun cni_run :: "(string \<Rightarrow> json_value option) \<Rightarrow> ((string \<rightharpoonup> json_value) \<Rightarrow> string) \<Rightarrow> ('n, 'k) net_ops \<Rightarrow> 'l invocation list \<Rightarrow>
    ('l daemon, 'n) cni_world \<Rightarrow> nat \<times> ('l daemon, 'n) cni_world" where
  "cni_run jp jerr N [] w = (0, w)"
| "cni_run jp jerr N ((D, d, E, cmd, args) # is) w =
     (case plugin_run jp jerr N (daemon_api D d) E cmd args w of (r, w1) \<Rightarrow>
        (case cni_run jp jerr N is w1 of (n, w2) \<Rightarrow> ((case r of Ok (Some _) \<Rightarrow> 1 | _ \<Rightarrow> 0) + n, w2)))"

lemma cni_run_grows:
  fixes w :: "('l daemon, 'n) cni_world"
  assumes "of_config st (cw_daemon w)" "\<forall>(D, d, E, cmd, args) \<in> set is. ipnet_docs (de_lib D)" "cni_run jp jerr N is w = (n, w')"
    "finite U" "\<And>s :: 'l daemon. of_config st s \<Longrightarrow> used_texts s \<subseteq> U"
  shows "of_config st (cw_daemon w') \<and> n + card (used_texts (cw_daemon w)) \<le> card (used_texts (cw_daemon w'))"
  using assms(1-3)
proof (induction "is" arbitrary: w n w')
  case (Cons i "is")
  obtain D d E cmd args where i: "i = (D, d, E, cmd, args)" by (cases i) auto
  obtain r w1 where r: "plugin_run jp jerr N (daemon_api D d) E cmd args w = (r, w1)" by fastforce
  obtain k w2 where k: "cni_run jp jerr N is w1 = (k, w2)" by fastforce
  have L: "ipnet_docs (de_lib D)" using Cons.prems(2) i by auto
  note g = lossy_api.plugin_grows [OF daemon_lossy_api [OF L] Cons.prems(1) r]
  have f: "finite (used_texts (cw_daemon w1))" using finite_subset [OF assms(5) [OF conjunct1 [OF g]] assms(4)] .
  have "(case r of Ok (Some _) \<Rightarrow> 1 | _ \<Rightarrow> 0) + card (used_texts (cw_daemon w)) \<le> card (used_texts (cw_daemon w1))"
  proof (cases "\<exists>x. r = Ok (Some x)")
    case True
    then have "used_texts (cw_daemon w) \<subset> used_texts (cw_daemon w1)" using g by blast
    then have "card (used_texts (cw_daemon w)) < card (used_texts (cw_daemon w1))" using psubset_card_mono [OF f] by blast
    then show ?thesis using True by auto
  next
    case False
    then have "(case r of Ok (Some _) \<Rightarrow> 1 | _ \<Rightarrow> 0) = (0 :: nat)" by (auto split: result.splits option.splits)
    moreover have "card (used_texts (cw_daemon w)) \<le> card (used_texts (cw_daemon w1))" using g card_mono [OF f] by blast
    ultimately show ?thesis by simp
  qed
  moreover have "of_config st (cw_daemon w2) \<and> k + card (used_texts (cw_daemon w1)) \<le> card (used_texts (cw_daemon w2))"
    using Cons.IH [OF conjunct1 [OF g] _ k] Cons.prems(2) by auto
  moreover have "n = (case r of Ok (Some _) \<Rightarrow> 1 | _ \<Rightarrow> 0) + k" "w' = w2" using Cons.prems(3) by (simp_all add: i r k)
  ultimately show ?case by simp
qed simp

lemma usable_facts:
  assumes "of_config st s" shows "used_texts s \<subseteq> ip_str ` ipam_usable st" "finite (ipam_usable st)"
proof -
  let ?st = "svc_state (dm_ipam s)"
  have u: "ipam_usable ?st = ipam_usable st" using of_configD(2) [OF assms] by (simp add: same_config_def)
  have i: "ipam_inv ?st" using of_configD(1) [OF assms] .
  have "ipam_used ?st \<subseteq> ipam_usable ?st" using hs_used_usable i by (fastforce simp: ipam_used_def ipam_usable_def ipam_inv_def)
  then show "used_texts s \<subseteq> ip_str ` ipam_usable st" by (auto simp: used_texts_def u)
  have "ipam_usable ?st \<subseteq> (\<Union>f \<in> {Ipv4, Ipv6}. case allocator_of f ?st of None \<Rightarrow> {} | Some hs \<Rightarrow> hs_usable hs)"
  proof
    fix ip assume "ip \<in> ipam_usable ?st"
    then show "ip \<in> (\<Union>f \<in> {Ipv4, Ipv6}. case allocator_of f ?st of None \<Rightarrow> {} | Some hs \<Rightarrow> hs_usable hs)"
      by (cases "family_of ip") (auto simp: ipam_usable_def)
  qed
  moreover have "finite (\<Union>f \<in> {Ipv4, Ipv6}. case allocator_of f ?st of None \<Rightarrow> {} | Some hs \<Rightarrow> hs_usable hs)"
  proof -
    have "finite (case allocator_of f ?st of None \<Rightarrow> {} | Some hs \<Rightarrow> hs_usable hs)" for f
      using i finite_hs_usable by (cases "allocator_of f ?st") (auto simp: ipam_inv_def)
    then show ?thesis by (intro finite_UN_I) simp_all
  qed
  ultimately show "finite (ipam_usable st)" unfolding u by (rule finite_subset)
qed

text \<open>C5: addresses run out. Over any sequence of ADD, DEL, CHECK, STATUS and GC, with any failures of the network and the
  transport, no more ADDs succeed than there are free addresses at the start: DEL gives none back.\<close>

theorem successful_adds_bounded:
  assumes "daemon_inv (cw_daemon w)" "\<forall>(D, d, E, cmd, args) \<in> set is. ipnet_docs (de_lib D)" "cni_run jp jerr N is w = (n, w')"
  shows "n + card (daemon_used (cw_daemon w)) \<le> card (ipam_usable (svc_state (dm_ipam (cw_daemon w))))"
proof -
  let ?st = "svc_state (dm_ipam (cw_daemon w))"
  have oc: "of_config ?st (cw_daemon w)" using assms(1) by (simp add: of_config_def)
  note f = usable_facts(2) [OF oc]
  have "of_config ?st (cw_daemon w') \<and> n + card (used_texts (cw_daemon w)) \<le> card (used_texts (cw_daemon w'))"
    using cni_run_grows [OF oc assms(2,3), of "ip_str ` ipam_usable ?st"] usable_facts(1) f by blast
  then have "n + card (used_texts (cw_daemon w)) \<le> card (ip_str ` ipam_usable ?st)"
    using usable_facts(1) [of ?st "cw_daemon w'"] card_mono [of "ip_str ` ipam_usable ?st"] f by (meson finite_imageI le_trans)
  moreover have i: "inj_on ip_str X" for X using inj_on_subset [OF inj_ip_str subset_UNIV] .
  ultimately show ?thesis by (simp add: used_texts_def card_image)
qed

theorem successful_adds_bounded_witness:
  "fst (cni_run (\<lambda>_. None) (\<lambda>_. []) (mock_net (\<lambda>_. True))
     (replicate 9 (sample_denv, all_delivered, sample_cenv, CmdAdd, sample_cargs)) cni_world0) \<le>
   card (ipam_usable (svc_state cni_ipam))"
proof -
  let ?is = "replicate 9 (sample_denv, all_delivered, sample_cenv, CmdAdd, sample_cargs)"
  have "\<forall>(D, d, E, cmd, args) \<in> set ?is. ipnet_docs (de_lib D)" by (simp add: sample_fields ipnet_docs_ref)
  from successful_adds_bounded [OF cni_world0_inv(1) this prod.collapse [symmetric]] show ?thesis unfolding cni_world0_simps by (rule add_leD1)
qed

text \<open>CHECK accepts what ADD reported. Given to CHECK, the result of an ADD is accepted exactly when the interface in the
  namespace has every address the result lists.\<close>

lemma check_accepts_add:
  assumes "cni_add N A E args spec w = (Ok r, w')" "ca_netns args = Some nsp" "ca_ifname args = Some ifname"
    "open_ns N nsp n = Ok ()" "get_link_in_ns N nsp ifname n = Ok k" "lk_addresses N None k n = Ok addrs"
  shows "verify_interface N E nsp ifname r n = Ok () \<longleftrightarrow> (\<forall>c \<in> set (cn_ips r). ia_from_net (ic_address c) \<in> set addrs)"
  using assms(1)
proof (cases rule: cni_add_daemon)
  case (added r' cfg s1 own resp nsp' ifname' cid w2)
  from added(5) show ?thesis
  proof (cases rule: add_with_lease_Ok)
    case (1 p hostif peerif req)
    have e: "r' = r" "nsp' = nsp" "ifname' = ifname" using added assms(2,3) by simp_all
    have i: "c \<in> set (pl_ips p) \<Longrightarrow> ic_interface c = Some 1" for c
      using 1(1) by (auto simp: plan_addresses_def plan_ipv4_def plan_ipv6_def plan_address_def plan_empty_def
          split: result.splits option.splits)
    have "want_addresses ifname (cn_ips r) 0 (cn_interfaces r) = map (\<lambda>c. ia_from_net (ic_address c)) (cn_ips r)"
      using 1(2-6) i by (simp add: e filter_True)
    then show ?thesis using assms(4-6) by (auto simp: verify_interface_def find_None_iff find_Some_iff split: option.splits)
  qed
qed simp_all

lemma check_accepts_add_witness:
  "\<exists>r w'. sample_cni all_delivered = (Ok r, w') \<and>
     verify_interface (mock_net (\<lambda>_. True)) sample_cenv ''/ns'' ''eth0'' r
       (mp_add_link (mock_link_default\<lparr>ml_ifname := ''eth0'', ml_netns := Some ''/ns'',
          ml_addr_calls := map (\<lambda>c. ia_from_net (ic_address c)) (cn_ips r)\<rparr>) mp_default) = Ok ()"
proof -
  obtain r w' where r: "sample_cni all_delivered = (Ok r, w')" using sample_add_Ok by blast
  let ?addrs = "map (\<lambda>c. ia_from_net (ic_address c)) (cn_ips r)"
  let ?k = "mock_link_default\<lparr>ml_ifname := ''eth0'', ml_netns := Some ''/ns'', ml_addr_calls := ?addrs\<rparr>"
  let ?n = "mp_add_link ?k mp_default" and ?N = "mock_net (\<lambda>_. True)"
  have "open_ns ?N ''/ns'' ?n = Ok ()" "get_link_in_ns ?N ''/ns'' ''eth0'' ?n = Ok ?k" "lk_addresses ?N None ?k ?n = Ok ?addrs"
    by (simp_all add: mock_net_def mp_get_link_in_ns_def mp_add_link_def mp_default_def mock_addresses_def)
  from check_accepts_add [OF r _ _ this] have "verify_interface ?N sample_cenv ''/ns'' ''eth0'' r ?n = Ok ()"
    by (simp add: sample_fields)
  with r show ?thesis by blast
qed

text \<open>An IPv6 address is taken for nothing. The daemon never names an IPv6 gateway, so with an IPv6 range every successful ADD
  keeps an IPv6 address in use that is in none of the addresses it reports.\<close>

lemma ipv6_grant_unused:
  assumes "ipnet_docs (de_lib D)" "net_parse_docs (ev_net_parse E)" "daemon_inv (cw_daemon w)"
    "ipv6_allocator (svc_state (dm_ipam (cw_daemon w))) \<noteq> None" "cni_add N (daemon_api D d) E args spec w = (Ok r, w')"
  shows "\<exists>a. V6 a \<in> daemon_used (cw_daemon w') - daemon_used (cw_daemon w) \<and> (\<forall>c \<in> set (cn_ips r). \<exists>b. ic_address c = NetV4 b 32)"
  using assms(5)
proof (rule daemon_added [OF assms(1-3)])
  fix resp mtu p
  assume a: "allocated (svc_state (dm_ipam (cw_daemon w))) resp" "plan_addresses E resp mtu = Ok p" "cn_ips r = pl_ips p"
    "granted_texts resp \<subseteq> ip_str ` (daemon_used (cw_daemon w') - daemon_used (cw_daemon w))"
  note pl = plan_allocated [OF assms(2) a(1,2)]
  obtain c where c: "resp_ipv6 resp = Some c" using a(1) assms(4) by (auto simp: allocated_def)
  then obtain b where b: "ca_ip c = ip_str (V6 b)" using a(1) unfolding allocated_def by blast
  then have "ip_str (V6 b) \<in> ip_str ` (daemon_used (cw_daemon w') - daemon_used (cw_daemon w))"
    using a(4) c by (auto simp: granted_texts_def simp del: ip_str.simps)
  then have "V6 b \<in> daemon_used (cw_daemon w') - daemon_used (cw_daemon w)" using inj_ip_str by (simp only: inj_image_mem_iff)
  moreover have "\<exists>b. ic_address x = NetV4 b 32" if "x \<in> set (cn_ips r)" for x
    using that pl(2,3) a(3) by (cases "resp_ipv4 resp") fastforce+
  ultimately show ?thesis by blast
qed

lemma ipv6_grant_unused_witness:
  "\<exists>r w' a. sample_cni all_delivered = (Ok r, w') \<and> V6 a \<in> daemon_used (cw_daemon w') \<and> (\<forall>c \<in> set (cn_ips r). net_addr (ic_address c) \<noteq> V6 a)"
proof -
  obtain r w' where r: "sample_cni all_delivered = (Ok r, w')" using sample_add_Ok by blast
  have h: "ipnet_docs (de_lib sample_denv)" "net_parse_docs (ev_net_parse sample_cenv)"
    "ipv6_allocator (svc_state (dm_ipam (cw_daemon cni_world0))) \<noteq> None"
    by (simp_all add: sample_fields ipnet_docs_ref ref_net_parse_docs cni_ipam_def ipam_new_def)
  from ipv6_grant_unused [OF h(1,2) cni_world0_inv(1) h(3) r] obtain a where
    "V6 a \<in> daemon_used (cw_daemon w')" "\<forall>c \<in> set (cn_ips r). \<exists>b. ic_address c = NetV4 b 32" by blast
  with r show ?thesis by fastforce
qed

text \<open>C37: a lost answer to a creation frees the address of a live endpoint. The daemon has created the endpoint, the retries are
  refused because the container exists, ADD fails and its lease is released: the endpoint keeps an address that the address manager
  hands out again.\<close>

theorem lost_create_answer_frees_live_address:
  assumes "ca_netns args = Some nsp" "ca_ifname args = Some ifname" "ca_container_id args = Some cid" "ca_prev_result args = None"
    "ex nsp" "build_api_client E args = Ok client" "d CallConfig 0 = Delivered" "d CallAllocate 0 = Delivered"
    "ipam_allocate (de_lib D) (de_rnd6 D 0) (de_rnd4 D 0) None (Some (as_pod_namespace spec @ ''/'' @ as_pod_name spec)) None (dm_ipam (cw_daemon w)) = (Ok resp, svc)"
    "ipnet_docs (de_lib D)" "net_parse_docs (ev_net_parse E)" "net_parse_docs (de_net_parse D)"
    "daemon_inv (cw_daemon w)" "gateway_ip (dm_ipam (cw_daemon w)) = V4 g" "resp_ipv4 resp = Some c" "ca_ip c = ip_str (V4 a)"
    "length (ev_host_rand E) = 6" "length (ev_peer_rand E) = 6"
    "indexed (dm_manager (cw_daemon w))" "pick_ok (de_pick D) (mg_ids (dm_manager (cw_daemon w)))" "ids (mg_ids (dm_manager (cw_daemon w))) \<noteq> {}"
    "lookup_container_id cid (dm_manager (cw_daemon w)) = None" "lookup_ipv4 a (dm_manager (cw_daemon w)) = None"
    "d CallCreate 0 = ReplyLost" "d CallCreate 1 = Delivered" "d CallCreate 2 = Delivered" "dependable d" "2 \<le> ev_releases E"
    "cni_add (mock_net ex) (daemon_api D d) E args spec w = (res, w')"
  shows "res = Err (PluginNotAvailable ''could not create endpoint'') \<and> V4 a \<notin> daemon_used (cw_daemon w') \<and>
    (\<exists>eid. lookup_container_id cid (dm_manager (cw_daemon w')) = Some eid \<and> lookup_ipv4 a (dm_manager (cw_daemon w')) = Some eid)"
proof -
  obtain req r m eid where s:
    "service_create (de_json D) (de_faults D 0) (de_err_str D) (de_add D) (de_pick D) (de_net_parse D) (attachment_id cid ifname) req (dm_manager (cw_daemon w)) = (Some r, m)"
    "rq_container_id req = cid" "lookup_container_id cid m = Some eid" "lookup_ipv4 a m = Some eid"
    "\<forall>e s'. api_create (daemon_api D d) (attachment_id cid ifname) req ((cw_daemon w)\<lparr>dm_ipam := svc\<rparr>) = (Err e, s') \<longrightarrow>
       (\<exists>w'. cni_add (mock_net ex) (daemon_api D d) E args spec w = (Err (PluginNotAvailable ''could not create endpoint''), w') \<and>
         cw_daemon w' = drop_lease (daemon_api D d) (ev_releases E) resp s')"
    by (rule mock_add_creates [of args nsp ifname cid ex E client d D spec w resp svc g c a, OF assms(1-23)])
  let ?s = "(cw_daemon w)\<lparr>dm_ipam := svc, dm_manager := m\<rparr>"
  obtain e where e: "api_create (daemon_api D d) (attachment_id cid ifname) req ((cw_daemon w)\<lparr>dm_ipam := svc\<rparr>) = (Err e, ?s)"
    using lost_creation [of d D "attachment_id cid ifname" req "(cw_daemon w)\<lparr>dm_ipam := svc\<rparr>" r m, OF assms(24-26)] s(1-3) by auto
  have w': "res = Err (PluginNotAvailable ''could not create endpoint'')" "cw_daemon w' = drop_lease (daemon_api D d) (ev_releases E) resp ?s"
    using s(5) e assms(29) by auto
  have u: "daemon_used (cw_daemon w') \<subseteq> daemon_used (cw_daemon w) \<union> {ip. excluded POOL_DEFAULT (svc_state (dm_ipam (cw_daemon w))) ip}"
  proof -
    have oc: "of_config (svc_state (dm_ipam (cw_daemon w))) (cw_daemon w)" using assms(13) by (simp add: of_config_def)
    have "used_texts (cw_daemon w') \<subseteq> used_texts (cw_daemon w) \<union> excl_texts (cw_daemon w)"
      using lease_api.failed_add_gives_back [OF daemon_lease_api [of D d, OF assms(10,27)] oc assms(28) assms(29) [unfolded w'(1)]] .
    then show ?thesis unfolding used_texts_def excl_texts_def image_Un [symmetric] inj_image_subset_iff [OF inj_ip_str] .
  qed
  have "V4 a \<notin> daemon_used (cw_daemon w)" "\<not> excluded POOL_DEFAULT (svc_state (dm_ipam (cw_daemon w))) (V4 a)"
    using ipam_grant_free [OF assms(10,13,9,15,16)] by blast+
  then have "V4 a \<notin> daemon_used (cw_daemon w')" using u by blast
  moreover have "dm_manager (cw_daemon w') = m" by (simp add: w'(2) drop_lease_manager)
  ultimately show ?thesis using w'(1) s(3,4) by simp
qed

theorem lost_create_answer_frees_live_address_witness:
  "\<exists>e w' eid. sample_cni lost_create = (Err e, w') \<and> V4 1 \<notin> daemon_used (cw_daemon w') \<and>
     lookup_ipv4 1 (dm_manager (cw_daemon w')) = Some eid"
proof -
  obtain resp svc c where a: "ipam_allocate ipnet_ref (\<lambda>_. 0) (\<lambda>_. 0) None (Some ''/'') None cni_ipam = (Ok resp, svc)"
    "resp_ipv4 resp = Some c" "ca_ip c = ip_str (V4 1)" by (rule cni_ipam_grants)
  have al: "ipam_allocate (de_lib sample_denv) (de_rnd6 sample_denv 0) (de_rnd4 sample_denv 0) None
      (Some (as_pod_namespace args_default @ ''/'' @ as_pod_name args_default)) None (dm_ipam (cw_daemon cni_world0)) = (Ok resp, svc)"
    using a(1) by (simp add: sample_fields sample_denv_def)
  obtain res w' where r: "sample_cni lost_create = (res, w')" by fastforce
  have "res = Err (PluginNotAvailable ''could not create endpoint'') \<and> V4 1 \<notin> daemon_used (cw_daemon w') \<and>
      (\<exists>eid. lookup_container_id ''c1'' (dm_manager (cw_daemon w')) = Some eid \<and> lookup_ipv4 1 (dm_manager (cw_daemon w')) = Some eid)"
    by (rule lost_create_answer_frees_live_address [of sample_cargs "''/ns''" "''eth0''" "''c1''" "\<lambda>_. True" sample_cenv _ lost_create sample_denv
          args_default cni_world0 resp svc 1 c 1, OF _ _ _ _ _ sample_client _ _ al _ _ _ cni_world0_inv(1) _ a(2,3) _ _ _ _ _ _ _ _ _ _ _ _ r])
       (use sample_hyps(8,9) in \<open>simp_all add: sample_fields ipnet_docs_ref ref_net_parse_docs indexed_new dependable_def arrives_def\<close>)
  with r show ?thesis by blast
qed

text \<open>The names of the pod. From the arguments kubelet passes, the plugin reads the namespace, name and UID as they are when none of
  them is a JSON text; it refuses the pod when its name is one that is not a string, as a name of digits is.\<close>

lemma load_args_pod_names:
  assumes "CHR '';'' \<notin> set ns" "CHR '';'' \<notin> set nm" "CHR '';'' \<notin> set u"
  shows "(jp ns = None \<and> jp nm = None \<and> jp u = None \<longrightarrow>
    load_args jp jerr (Some (''IgnoreUnknown=1;K8S_POD_NAMESPACE='' @ ns @ '';K8S_POD_NAME='' @ nm @ '';K8S_POD_UID='' @ u)) =
      Ok \<lparr>as_pod_name = nm, as_pod_namespace = ns, as_pod_uid = u\<rparr>) \<and>
    (jp nm = Some JsonOther \<longrightarrow>
    (\<exists>m. load_args jp jerr (Some (''IgnoreUnknown=1;K8S_POD_NAMESPACE='' @ ns @ '';K8S_POD_NAME='' @ nm @ '';K8S_POD_UID='' @ u)) = Err (InvalidNetworkConfig m)))"
proof -
  let ?s = "''IgnoreUnknown=1;K8S_POD_NAMESPACE='' @ ns @ '';K8S_POD_NAME='' @ nm @ '';K8S_POD_UID='' @ u"
  let ?v = "\<lambda>x. case jp x of Some j \<Rightarrow> j | None \<Rightarrow> JsonString x"
  let ?m = "[''IgnoreUnknown'' \<mapsto> ?v ''1'', ''K8S_POD_NAMESPACE'' \<mapsto> ?v ns, ''K8S_POD_NAME'' \<mapsto> ?v nm, ''K8S_POD_UID'' \<mapsto> ?v u]"
  have "split_on CHR '';'' ?s = [''IgnoreUnknown=1'', ''K8S_POD_NAMESPACE='' @ ns, ''K8S_POD_NAME='' @ nm, ''K8S_POD_UID='' @ u]"
    using split_on_append_sep [of "CHR '';''" "''IgnoreUnknown=1''"] split_on_append_sep [of "CHR '';''" "''K8S_POD_NAMESPACE='' @ ns"]
      split_on_append_sep [of "CHR '';''" "''K8S_POD_NAME='' @ nm"] split_on_no_sep [of "CHR '';''" "''K8S_POD_UID='' @ u"] assms by simp
  then have "parse_pairs jp (split_on CHR '';'' ?s) Map.empty = Ok ?m" by simp
  then have l: "load_args jp jerr (Some ?s) = args_from_map jerr ?m" by (simp add: load_args_def is_blank_def)
  show ?thesis unfolding l by (simp add: args_from_map_def)
qed

lemma load_args_pod_names_witness:
  "\<exists>m. load_args (\<lambda>v. if v = ''123'' then Some JsonOther else None) (\<lambda>_. [])
     (Some (''IgnoreUnknown=1;K8S_POD_NAMESPACE='' @ ''ns'' @ '';K8S_POD_NAME='' @ ''123'' @ '';K8S_POD_UID='' @ ''u'')) = Err (InvalidNetworkConfig m)"
  using load_args_pod_names [of "''ns''" "''123''" "''u''" "\<lambda>v. if v = ''123'' then Some JsonOther else None" "\<lambda>_. []"] by simp

end
