(* ===== verification/Packet.thy ===== *)
theory Packet
  imports Net_Types "HOL-Library.Monad_Syntax"
begin

text \<open>
  The packet functions of \<open>sarena-data-plane/src/soft_dataplane.rs\<close>: parsing of Ethernet frames that
  carry IPv4, the internet checksum, the rewriting of addresses and ports with both checksums, and
  the VXLAN header. A frame is a list of bytes. Indexing and slicing outside a frame panics in the
  source and is \<open>None\<close> here; the \<open>u32\<close> sum of the checksum is a 32-bit word.
\<close>

section \<open>Slices\<close>

definition slice :: "nat \<Rightarrow> nat \<Rightarrow> 'a list \<Rightarrow> 'a list" where
  "slice a b xs = take (b - a) (drop a xs)"

definition put :: "nat \<Rightarrow> 'a list \<Rightarrow> 'a list \<Rightarrow> 'a list" where
  "put off bs xs = take off xs @ bs @ drop (off + length bs) xs"

text \<open>\<open>&frame[a..b]\<close> and \<open>frame[off..off + n].copy_from_slice(bs)\<close>.\<close>

definition get_slice :: "nat \<Rightarrow> nat \<Rightarrow> 'a list \<Rightarrow> 'a list option" where
  "get_slice a b xs = (if a \<le> b \<and> b \<le> length xs then Some (slice a b xs) else None)"

definition write_at :: "nat \<Rightarrow> 'a list \<Rightarrow> 'a list \<Rightarrow> 'a list option" where
  "write_at off bs xs = (if off + length bs \<le> length xs then Some (put off bs xs) else None)"

definition opt_write :: "nat \<Rightarrow> 'a list option \<Rightarrow> 'a list \<Rightarrow> 'a list option" where
  "opt_write off bs xs = (case bs of None \<Rightarrow> Some xs | Some b \<Rightarrow> write_at off b xs)"

section \<open>Parsing\<close>

definition ETH_HDR_LEN :: nat where
  "ETH_HDR_LEN = 14"

definition ETHERTYPE_IPV4 :: u16 where
  "ETHERTYPE_IPV4 = 0x0800"

record ipv4_info =
  ihl :: nat
  protocol :: u8
  ip_src :: u32
  ip_dst :: u32

definition parse_ipv4 :: "u8 list \<Rightarrow> ipv4_info option" where
  "parse_ipv4 frame =
     (if length frame < ETH_HDR_LEN + 20 then None
      else if from_be [frame ! 12, frame ! 13] \<noteq> ETHERTYPE_IPV4 then None
      else let ip = drop ETH_HDR_LEN frame
      in if drop_bit 4 (ip ! 0) \<noteq> 4 then None
         else let h = unat (ip ! 0 AND 0x0F) * 4
         in if length ip < h then None
            else Some \<lparr>ihl = h, protocol = ip ! 9, ip_src = from_be [ip ! 12, ip ! 13, ip ! 14, ip ! 15],
                       ip_dst = from_be [ip ! 16, ip ! 17, ip ! 18, ip ! 19]\<rparr>)"

definition parse_ports :: "u8 list \<Rightarrow> nat \<Rightarrow> (u16 \<times> u16) option" where
  "parse_ports frame off =
     (if length frame < off + 4 then None
      else Some (from_be [frame ! off, frame ! (off + 1)], from_be [frame ! (off + 2), frame ! (off + 3)]))"

text \<open>The protocols of \<open>network_types::ip::IpProto\<close> that the code names.\<close>

datatype ip_proto = Icmp | Tcp | Udp

definition ip_proto_from_byte :: "u8 \<Rightarrow> ip_proto option" where
  "ip_proto_from_byte b =
     (if b = 1 then Some Icmp else if b = 6 then Some Tcp else if b = 17 then Some Udp else None)"

definition VXLAN_HDR_LEN :: nat where
  "VXLAN_HDR_LEN = 8"

definition build_vxlan_header :: "u32 \<Rightarrow> u8 list" where
  "build_vxlan_header vni =
     (let hdr = (replicate VXLAN_HDR_LEN 0)[0 := 0x08]; vni_bytes = be_bytes 4 vni
      in hdr[4 := vni_bytes ! 1, 5 := vni_bytes ! 2, 6 := vni_bytes ! 3])"

section \<open>Checksums\<close>

fun add_chunks :: "u32 \<Rightarrow> u8 list \<Rightarrow> u32" where
  "add_chunks s (a # b # bs) = add_chunks (s + ucast (from_be [a, b] :: u16)) bs"
| "add_chunks s [a] = s + push_bit 8 (ucast a)"
| "add_chunks s [] = s"

lemma unat_low16: "unat (s AND 0xFFFF) = unat s mod 65536" for s :: u32
proof -
  have "s AND 0xFFFF = take_bit 16 s" by (simp add: take_bit_eq_mask mask_eq_exp_minus_1)
  then show ?thesis by (simp only: unsigned_take_bit_eq) (simp add: take_bit_eq_mod)
qed

lemma unat_high16: "unat (drop_bit 16 s) = unat s div 65536" for s :: u32
  by (simp only: unat_drop_bit_eq) (simp add: drop_bit_eq_div)

lemma unat_carry: "unat ((s AND 0xFFFF) + drop_bit 16 s) = unat s mod 65536 + unat s div 65536" for s :: u32
proof -
  have "unat s < 2 ^ 32" using unat_bound [of s] by simp
  then have "unat s mod 65536 + unat s div 65536 < 2 ^ 32" by simp
  then show ?thesis by (simp add: unat_word_ariths unat_low16 unat_high16)
qed

function fold_carry :: "u32 \<Rightarrow> u32" where
  "fold_carry s = (if drop_bit 16 s \<noteq> 0 then fold_carry ((s AND 0xFFFF) + drop_bit 16 s) else s)"
  by auto
termination fold_carry
proof (relation "measure unat")
  fix s :: u32
  assume "drop_bit 16 s \<noteq> 0"
  then have "unat s div 65536 > 0" using unat_high16 [of s] by (metis gr0I unat_eq_zero)
  then have "unat s mod 65536 + unat s div 65536 < unat s"
    using div_mult_mod_eq [of "unat s" 65536] by linarith
  then show "((s AND 0xFFFF) + drop_bit 16 s, s) \<in> measure unat" by (simp add: unat_carry)
qed simp

declare fold_carry.simps [simp del]

definition internet_checksum :: "u8 list \<Rightarrow> u16" where
  "internet_checksum bs = NOT (ucast (fold_carry (add_chunks 0 bs)))"

definition recompute_l4_checksum :: "u8 list \<Rightarrow> nat \<Rightarrow> nat \<Rightarrow> u8 \<Rightarrow> u8 list option" where
  "recompute_l4_checksum frame ip_off h proto = do {
     len_bytes \<leftarrow> get_slice (ip_off + 2) (ip_off + 4) frame;
     let total_len = unat (from_be len_bytes :: u16);
     let l4_off = ip_off + h;
     if total_len < h \<or> l4_off + (total_len - h) > length frame then Some frame
     else do {
       let l4_len = total_len - h;
       src \<leftarrow> get_slice (ip_off + 12) (ip_off + 16) frame;
       dst \<leftarrow> get_slice (ip_off + 16) (ip_off + 20) frame;
       let pseudo = src @ dst @ [0, proto] @ be_bytes 2 (of_nat l4_len :: u16);
       if proto = 6 then do {
         frame \<leftarrow> write_at (l4_off + 16) [0] frame;
         frame \<leftarrow> write_at (l4_off + 17) [0] frame;
         seg \<leftarrow> get_slice l4_off (l4_off + l4_len) frame;
         write_at (l4_off + 16) (be_bytes 2 (internet_checksum (pseudo @ seg))) frame }
       else if proto = 17 then do {
         frame \<leftarrow> write_at (l4_off + 6) [0] frame;
         frame \<leftarrow> write_at (l4_off + 7) [0] frame;
         seg \<leftarrow> get_slice l4_off (l4_off + l4_len) frame;
         let csum = internet_checksum (pseudo @ seg);
         write_at (l4_off + 6) (be_bytes 2 (if csum = 0 then 0xFFFF else csum)) frame }
       else Some frame } }"

definition rewrite_ipv4 ::
  "u8 list \<Rightarrow> nat \<Rightarrow> u32 option \<Rightarrow> u32 option \<Rightarrow> u16 option \<Rightarrow> u16 option \<Rightarrow> u8 list option" where
  "rewrite_ipv4 frame h new_src new_dst new_sport new_dport = do {
     let ip_off = ETH_HDR_LEN;
     frame \<leftarrow> opt_write (ip_off + 12) (map_option (be_bytes 4) new_src) frame;
     frame \<leftarrow> opt_write (ip_off + 16) (map_option (be_bytes 4) new_dst) frame;
     frame \<leftarrow> write_at (ip_off + 10) [0] frame;
     frame \<leftarrow> write_at (ip_off + 11) [0] frame;
     hdr \<leftarrow> get_slice ip_off (ip_off + h) frame;
     frame \<leftarrow> write_at (ip_off + 10) (be_bytes 2 (internet_checksum hdr)) frame;
     let proto = frame ! (ip_off + 9);
     let l4_off = ip_off + h;
     frame \<leftarrow> (if proto = 6 \<or> proto = 17
              then opt_write l4_off (map_option (be_bytes 2) new_sport) frame \<bind>
                   opt_write (l4_off + 2) (map_option (be_bytes 2) new_dport)
              else Some frame);
     recompute_l4_checksum frame ip_off h proto }"

section \<open>The checksum as arithmetic\<close>

fun sum16 :: "u8 list \<Rightarrow> nat" where
  "sum16 (a # b # bs) = 256 * unat a + unat b + sum16 bs"
| "sum16 [a] = 256 * unat a"
| "sum16 [] = 0"

definition ones_fold :: "nat \<Rightarrow> nat" where
  "ones_fold n = (if n = 0 then 0 else (n - 1) mod 65535 + 1)"

lemma unat_byte: "unat (b :: u8) \<le> 255"
  using unat_bound [of b] by simp

lemma unat_from_be2: "unat (from_be [a, b] :: u16) = 256 * unat a + unat b"
proof -
  have "(from_be [a, b] :: u16) = push_bit 8 (ucast a) OR ucast b" by (simp add: from_be_def)
  also have "\<dots> = push_bit 8 (ucast a) + ucast b"
    by (rule disjunctive_add [symmetric]) (auto simp: bit_simps dest!: bit_imp_le_length [of b])
  finally have "unat (from_be [a, b] :: u16) = unat (push_bit 8 (ucast a :: u16) + ucast b)" by simp
  also have "\<dots> = 256 * unat a + unat b"
    using unat_byte [of a] unat_byte [of b]
    by (simp add: unat_word_ariths push_bit_eq_mult unat_ucast_up)
  finally show ?thesis .
qed

lemma sum16_bound: "sum16 bs \<le> 65535 * ((length bs + 1) div 2)"
proof (induction bs rule: sum16.induct)
  case (1 a b bs)
  then show ?case using unat_byte [of a] unat_byte [of b] by simp
next
  case (2 a)
  then show ?case using unat_byte [of a] by simp
qed simp

lemma sum16_append: "even (length xs) \<Longrightarrow> sum16 (xs @ ys) = sum16 xs + sum16 ys"
  by (induction xs rule: sum16.induct) auto

lemma unat_add_chunks: "unat s + sum16 bs < 2 ^ 32 \<Longrightarrow> unat (add_chunks s bs) = unat s + sum16 bs"
proof (induction s bs rule: add_chunks.induct)
  case (1 s a b bs)
  have "unat (s + ucast (from_be [a, b] :: u16)) = unat s + (256 * unat a + unat b)"
    using 1(2) by (simp add: unat_word_ariths unat_ucast_up unat_from_be2)
  then show ?case using 1 by simp
next
  case (2 s a)
  then show ?case using unat_byte [of a] by (simp add: unat_word_ariths push_bit_eq_mult unat_ucast_up)
qed simp

lemma ones_fold_small: "n < 65536 \<Longrightarrow> ones_fold n = n"
  by (simp add: ones_fold_def)

lemma ones_fold_carry:
  assumes "65536 \<le> n"
  shows "ones_fold (n mod 65536 + n div 65536) = ones_fold n"
proof -
  let ?q = "n div 65536" and ?r = "n mod 65536"
  have q: "0 < ?q" using assms by simp
  have n: "n = ?q * 65536 + ?r" by simp
  have "n - 1 = (?r + ?q - 1) + ?q * 65535" using q n by linarith
  then have "(n - 1) mod 65535 = (?r + ?q - 1) mod 65535" by (metis mod_mult_self1)
  with q assms show ?thesis by (simp add: ones_fold_def)
qed

lemma unat_fold_carry: "unat (fold_carry s) = ones_fold (unat s)"
proof (induction s rule: fold_carry.induct)
  case (1 s)
  show ?case
  proof (cases "drop_bit 16 s = 0")
    case True
    then have "unat s div 65536 = 0" using unat_high16 [of s] by simp
    with True show ?thesis by (simp add: fold_carry.simps [of s] ones_fold_small div_eq_0_iff)
  next
    case False
    then have "65536 \<le> unat s" using unat_high16 [of s] by (metis div_less linorder_not_le unat_eq_zero)
    with False 1 [OF False] show ?thesis
      by (simp add: fold_carry.simps [of s] unat_carry ones_fold_carry)
  qed
qed

lemma ones_fold_bound: "ones_fold n \<le> 65535"
  using mod_less_divisor [of 65535 "n - 1"] by (simp add: ones_fold_def del: mod_less_divisor)

text \<open>The sum does not wrap for anything up to 128 KiB, so every packet.\<close>

lemma checksum_value:
  assumes "length bs \<le> 131000"
  shows "unat (internet_checksum bs) = 65535 - ones_fold (sum16 bs)"
proof -
  have "sum16 bs \<le> 65535 * ((131000 + 1) div 2)"
    using sum16_bound [of bs] assms by (meson add_le_mono1 div_le_mono le_trans mult_le_mono2)
  then have s: "unat (add_chunks 0 bs) = sum16 bs" using unat_add_chunks [of 0 bs] by simp
  have f: "unat (fold_carry (add_chunks 0 bs)) = ones_fold (sum16 bs)" by (simp add: unat_fold_carry s)
  have "unat (ucast (fold_carry (add_chunks 0 bs)) :: u16) = ones_fold (sum16 bs)"
    using ones_fold_bound [of "sum16 bs"] f by (simp add: unat_ucast_down)
  moreover have "unat (NOT w) = 65535 - unat w" for w :: u16
  proof -
    have "NOT w = - 1 - w" by (simp add: not_eq_complement)
    then show ?thesis by (simp add: unat_sub unsigned_minus_1_eq_mask mask_eq_exp_minus_1)
  qed
  ultimately show ?thesis by (simp add: internet_checksum_def)
qed

lemma checksum_zero_iff:
  "length bs \<le> 131000 \<Longrightarrow> internet_checksum bs = 0 \<longleftrightarrow> ones_fold (sum16 bs) = 65535"
  using checksum_value [of bs] ones_fold_bound [of "sum16 bs"] by (metis diff_diff_cancel diff_self_eq_0 diff_zero unat_eq_zero)

lemma ones_fold_cancel:
  assumes "c = 65535 - ones_fold n \<or> c = 65535 \<and> ones_fold n = 65535"
  shows "ones_fold (n + c) = 65535"
proof (cases "n = 0")
  case True
  with assms show ?thesis by (auto simp: ones_fold_def)
next
  case False
  let ?q = "(n - 1) div 65535" and ?r = "(n - 1) mod 65535"
  have r: "?r < 65535" by simp
  have n: "n = ?q * 65535 + ?r + 1" using False div_mult_mod_eq [of "n - 1" 65535] by linarith
  have "\<exists>k. n + c = Suc k * 65535"
  proof (cases "c = 65535 - ones_fold n")
    case True
    then have "c = 65535 - (?r + 1)" using False by (simp add: ones_fold_def)
    moreover have "n = q * 65535 + k + 1 \<Longrightarrow> k < 65535 \<Longrightarrow> c = 65535 - (k + 1) \<Longrightarrow> n + c = Suc q * 65535" for q k by simp
    ultimately have "n + c = Suc ?q * 65535" using n r by blast
    then show ?thesis by blast
  next
    case c: False
    then have "c = 65535" "?r = 65534" using assms False by (auto simp: ones_fold_def)
    then have "n + c = Suc (Suc ?q) * 65535" using n by simp
    then show ?thesis by blast
  qed
  then obtain k where k: "n + c = Suc k * 65535" by blast
  then have "n + c - 1 = 65534 + k * 65535" by simp
  then show ?thesis using k by (simp add: ones_fold_def)
qed

text \<open>Inserting the checksum at an even offset whose bytes were zero makes the whole sum up to zero.\<close>

lemma checksum_inserted:
  assumes "even (length a)" "length (a @ [0, 0] @ b) \<le> 131000"
    "c = internet_checksum (a @ [0, 0] @ b) \<or> c = 0xFFFF \<and> internet_checksum (a @ [0, 0] @ b) = 0"
  shows "internet_checksum (a @ be_bytes 2 c @ b) = 0"
proof -
  let ?z = "a @ [0, 0] @ b"
  obtain x y where xy: "be_bytes 2 c = [x, y]" by (simp add: numeral_2_eq_2)
  have "c = from_be [x, y]" using from_be_be_bytes [of 2 c] xy by simp
  then have c: "unat c = 256 * unat x + unat y" by (simp add: unat_from_be2)
  have z: "sum16 ?z = sum16 a + sum16 b" "sum16 (a @ be_bytes 2 c @ b) = sum16 ?z + unat c"
    using assms(1) c by (simp_all add: sum16_append xy)
  have "unat c = 65535 - ones_fold (sum16 ?z) \<or> unat c = 65535 \<and> ones_fold (sum16 ?z) = 65535"
    using assms(3) checksum_value [OF assms(2)] checksum_zero_iff [OF assms(2)] by auto
  then have "ones_fold (sum16 (a @ be_bytes 2 c @ b)) = 65535" unfolding z(2) by (rule ones_fold_cancel)
  then show ?thesis using checksum_zero_iff [of "a @ be_bytes 2 c @ b"] assms(2) by simp
qed

section \<open>Rewriting\<close>

text \<open>Two frames of the same length that differ only at positions of \<open>S\<close>.\<close>

definition same_except :: "nat set \<Rightarrow> 'a list \<Rightarrow> 'a list \<Rightarrow> bool" where
  "same_except S f g \<longleftrightarrow> length f = length g \<and> (\<forall>k < length f. k \<notin> S \<longrightarrow> f ! k = g ! k)"

lemma same_except_refl [simp]: "same_except S f f"
  by (simp add: same_except_def)

lemma same_except_trans: "same_except S f g \<Longrightarrow> same_except T g h \<Longrightarrow> same_except (S \<union> T) f h"
  by (simp add: same_except_def)

lemma same_except_mono: "same_except S f g \<Longrightarrow> S \<subseteq> T \<Longrightarrow> same_except T f g"
  by (auto simp: same_except_def)

lemma slice_same:
  assumes "same_except S f g" "{a..<b} \<inter> S = {}" "b \<le> length f"
  shows "slice a b g = slice a b f"
proof (rule nth_equalityI)
  show len: "length (slice a b g) = length (slice a b f)"
    using assms(1) by (simp add: slice_def same_except_def)
  fix i assume "i < length (slice a b g)"
  then have "i < b - a" by (simp add: slice_def)
  then have "a + i \<in> {a..<b}" by auto
  then have "a + i \<notin> S" using assms(2) by blast
  then show "slice a b g ! i = slice a b f ! i"
    using assms \<open>i < b - a\<close> by (simp add: slice_def same_except_def)
qed

lemma length_slice [simp]: "b \<le> length f \<Longrightarrow> length (slice a b f) = b - a"
  by (simp add: slice_def)

lemma length_put [simp]: "off + length bs \<le> length f \<Longrightarrow> length (put off bs f) = length f"
  by (simp add: put_def)

lemma same_put: "off + length bs \<le> length f \<Longrightarrow> same_except {off..<off + length bs} f (put off bs f)"
  by (auto simp: same_except_def put_def nth_append)

lemma slice_put_inside:
  assumes "a \<le> off" "off + length bs \<le> b" "b \<le> length f"
  shows "slice a b (put off bs f) = put (off - a) bs (slice a b f)"
proof -
  have "drop a (put off bs f) = take (off - a) (drop a f) @ bs @ drop (off + length bs) f"
    using assms by (simp add: put_def drop_take)
  then show ?thesis using assms by (simp add: slice_def put_def take_drop)
qed

lemma slice_put_same [simp]: "off + length bs \<le> length f \<Longrightarrow> slice off (off + length bs) (put off bs f) = bs"
  by (simp add: slice_def put_def)

lemma slice_two: "a + 2 \<le> length f \<Longrightarrow> slice a (a + 2) f = [f ! a, f ! (a + 1)]"
  by (simp add: slice_def take_Suc_conv_app_nth numeral_2_eq_2 flip: Cons_nth_drop_Suc)

lemma slice_four: "a + 4 \<le> length f \<Longrightarrow> slice a (a + 4) f = [f ! a, f ! (a + 1), f ! (a + 2), f ! (a + 3)]"
  by (simp add: slice_def take_Suc_conv_app_nth numeral_eq_Suc flip: Cons_nth_drop_Suc)

lemma split_two: "i + 2 \<le> length xs \<Longrightarrow> xs ! i = x \<Longrightarrow> xs ! (i + 1) = y \<Longrightarrow> xs = take i xs @ [x, y] @ drop (i + 2) xs"
  using Cons_nth_drop_Suc [of i xs] Cons_nth_drop_Suc [of "Suc i" xs] append_take_drop_id [of i xs] by simp

definition opt_put :: "nat \<Rightarrow> 'a list option \<Rightarrow> 'a list \<Rightarrow> 'a list" where
  "opt_put off o' f = (case o' of None \<Rightarrow> f | Some bs \<Rightarrow> put off bs f)"

lemma opt_put_facts:
  assumes "e = off + n" "e \<le> length f" "\<And>bs. o' = Some bs \<Longrightarrow> length bs = n"
  shows "opt_write off o' f = Some (opt_put off o' f)" "same_except {off..<e} f (opt_put off o' f)"
    "length (opt_put off o' f) = length f"
    "slice off e (opt_put off o' f) = (case o' of None \<Rightarrow> slice off e f | Some bs \<Rightarrow> bs)"
  using assms same_put [of off _ f] slice_put_same [of off _ f]
  by (auto simp: opt_write_def opt_put_def write_at_def split: option.split)

text \<open>Zeroing two bytes at an even offset of a block, summing the block after a prefix of even
  length, and writing the sum there, leaves a block that sums up to zero.\<close>

lemma write_checksum:
  assumes "even (length pre)" "even off" "l + off + 2 \<le> m" "m \<le> length f" "length pre + (m - l) \<le> 131000"
    and z: "z = put (l + off + 1) [0] (put (l + off) [0] f)"
    and c: "c = internet_checksum (pre @ slice l m z) \<or> c = 0xFFFF \<and> internet_checksum (pre @ slice l m z) = 0"
  shows "write_at (l + off) [0] f \<bind> write_at (l + off + 1) [0] = Some z"
    "get_slice l m z = Some (slice l m z)"
    "write_at (l + off) (be_bytes 2 c) z = Some (put (l + off) (be_bytes 2 c) z)"
    "same_except {l + off..<l + off + 2} f (put (l + off) (be_bytes 2 c) z)"
    "internet_checksum (pre @ slice l m (put (l + off) (be_bytes 2 c) z)) = 0"
proof -
  have len: "length z = length f" using assms by (simp add: z)
  show "write_at (l + off) [0] f \<bind> write_at (l + off + 1) [0] = Some z"
    "get_slice l m z = Some (slice l m z)"
    "write_at (l + off) (be_bytes 2 c) z = Some (put (l + off) (be_bytes 2 c) z)"
    using assms(3,4) by (simp_all add: z write_at_def get_slice_def)
  have "same_except {l + off..<l + off + 2} f z"
    using same_except_trans [OF same_put [of "l + off" "[0]" f] same_put [of "l + off + 1" "[0]" "put (l + off) [0] f"]]
      assms(3,4) by (auto simp: z elim!: same_except_mono)
  moreover have "same_except {l + off..<l + off + 2} z (put (l + off) (be_bytes 2 c) z)"
    using same_put [of "l + off" "be_bytes 2 c" z] assms(3,4) len by simp
  ultimately show "same_except {l + off..<l + off + 2} f (put (l + off) (be_bytes 2 c) z)"
    using same_except_trans by fastforce
  let ?s = "slice l m z"
  have ls: "length ?s = m - l" using len assms(4) by simp
  have "?s ! off = 0" "?s ! (off + 1) = 0"
    using assms(3,4) by (simp_all add: slice_def z put_def nth_append)
  then have s: "?s = take off ?s @ [0, 0] @ drop (off + 2) ?s"
    using ls assms(3,4) by (intro split_two) auto
  have "slice l m (put (l + off) (be_bytes 2 c) z) = take off ?s @ be_bytes 2 c @ drop (off + 2) ?s"
    using slice_put_inside [of l "l + off" "be_bytes 2 c" m z] assms(3,4) len by (simp add: put_def)
  moreover have "internet_checksum ((pre @ take off ?s) @ be_bytes 2 c @ drop (off + 2) ?s) = 0"
  proof (rule checksum_inserted)
    show "even (length (pre @ take off ?s))" using assms(1-3) ls by simp
    show "length ((pre @ take off ?s) @ [0, 0] @ drop (off + 2) ?s) \<le> 131000" using assms(3,5) ls by simp
    have "(pre @ take off ?s) @ [0, 0] @ drop (off + 2) ?s = pre @ ?s" using s by simp
    then show "c = internet_checksum ((pre @ take off ?s) @ [0, 0] @ drop (off + 2) ?s) \<or>
      c = 0xFFFF \<and> internet_checksum ((pre @ take off ?s) @ [0, 0] @ drop (off + 2) ?s) = 0" using c by simp
  qed
  ultimately show "internet_checksum (pre @ slice l m (put (l + off) (be_bytes 2 c) z)) = 0" by simp
qed

text \<open>The three parts of \<open>rewrite_ipv4\<close>.\<close>

definition rewrite_header :: "u8 list \<Rightarrow> nat \<Rightarrow> u32 option \<Rightarrow> u32 option \<Rightarrow> u8 list option" where
  "rewrite_header frame h new_src new_dst = do {
     frame \<leftarrow> opt_write 26 (map_option (be_bytes 4) new_src) frame;
     frame \<leftarrow> opt_write 30 (map_option (be_bytes 4) new_dst) frame;
     frame \<leftarrow> write_at 24 [0] frame;
     frame \<leftarrow> write_at 25 [0] frame;
     hdr \<leftarrow> get_slice 14 (14 + h) frame;
     write_at 24 (be_bytes 2 (internet_checksum hdr)) frame }"

definition rewrite_ports :: "u8 list \<Rightarrow> nat \<Rightarrow> u16 option \<Rightarrow> u16 option \<Rightarrow> u8 list option" where
  "rewrite_ports frame l4_off new_sport new_dport =
     opt_write l4_off (map_option (be_bytes 2) new_sport) frame \<bind>
     opt_write (l4_off + 2) (map_option (be_bytes 2) new_dport)"

lemma rewrite_ipv4_split:
  "rewrite_ipv4 frame h s d sp dp =
     rewrite_header frame h s d \<bind> (\<lambda>f.
     (if f ! 23 = 6 \<or> f ! 23 = 17 then rewrite_ports f (14 + h) sp dp else Some f) \<bind> (\<lambda>g.
     recompute_l4_checksum g 14 h (f ! 23)))"
  unfolding rewrite_ipv4_def rewrite_header_def rewrite_ports_def ETH_HDR_LEN_def Let_def by (simp add: bind_assoc)

abbreviation or_old :: "'a option \<Rightarrow> 'a \<Rightarrow> 'a" where
  "or_old o' x \<equiv> (case o' of None \<Rightarrow> x | Some y \<Rightarrow> y)"

lemma rewrite_header_effect:
  assumes "34 \<le> length frame" "20 \<le> h" "h \<le> 60" "14 + h \<le> length frame"
  obtains f where "rewrite_header frame h s d = Some f" "same_except {24..<34} frame f"
    "slice 26 30 f = or_old (map_option (be_bytes 4) s) (slice 26 30 frame)"
    "slice 30 34 f = or_old (map_option (be_bytes 4) d) (slice 30 34 frame)"
    "internet_checksum (slice 14 (14 + h) f) = 0"
proof -
  let ?s = "map_option (be_bytes 4) s" and ?d = "map_option (be_bytes 4) d"
  define f1 where "f1 = opt_put 26 ?s frame"
  define f2 where "f2 = opt_put 30 ?d f1"
  have b: "\<And>bs. ?s = Some bs \<Longrightarrow> length bs = 4" "\<And>bs. ?d = Some bs \<Longrightarrow> length bs = 4" by auto
  have w1: "opt_write 26 ?s frame = Some f1" "same_except {26..<30} frame f1" "length f1 = length frame"
    "slice 26 30 f1 = or_old ?s (slice 26 30 frame)"
    using opt_put_facts [of 30 26 4 frame ?s, OF _ _ b(1), folded f1_def] assms(1) by simp_all
  have w2: "opt_write 30 ?d f1 = Some f2" "same_except {30..<34} f1 f2" "length f2 = length f1"
    "slice 30 34 f2 = or_old ?d (slice 30 34 f1)"
    using opt_put_facts [of 34 30 4 f1 ?d, OF _ _ b(2), folded f2_def] assms(1) w1(3) by simp_all
  note l1 = w1(3) and l2 = w2(3) [unfolded w1(3)] and e1 = w1(2) and e2 = w2(2)
  define z where "z = put (14 + 10 + 1) [0] (put (14 + 10) [0] f2)"
  define c where "c = internet_checksum ([] @ slice 14 (14 + h) z)"
  define f where "f = put (14 + 10) (be_bytes 2 c) z"
  have wc: "write_at (14 + 10) [0] f2 \<bind> write_at (14 + 10 + 1) [0] = Some z"
    "get_slice 14 (14 + h) z = Some (slice 14 (14 + h) z)"
    "write_at (14 + 10) (be_bytes 2 c) z = Some f"
    "same_except {14 + 10..<14 + 10 + 2} f2 f"
    "internet_checksum ([] @ slice 14 (14 + h) f) = 0"
    unfolding f_def using assms l2
    by (intro write_checksum [of "[]" 10 14 "14 + h" f2 z c]; simp add: z_def c_def)+
  have r: "rewrite_header frame h s d = Some f"
    using w1(1) w2(1) wc(1-3) l1 assms(1) by (auto simp: rewrite_header_def c_def bind_eq_Some_conv)
  have e3: "same_except {24..<26} f2 f" using wc(4) by simp
  have a: "same_except {24..<34} frame f"
    using same_except_trans [OF same_except_trans [OF e1 e2] e3] by (rule same_except_mono) auto
  have p1: "slice 26 30 f = slice 26 30 f1"
    by (rule slice_same [OF same_except_trans [OF e2 e3]]) (use l1 assms(1) in auto)
  have p2: "slice 30 34 f = slice 30 34 f2" using slice_same [OF e3, of 30 34] l2 assms(1) by simp
  have p3: "slice 30 34 f1 = slice 30 34 frame" using slice_same [OF e1, of 30 34] assms(1) by simp
  show ?thesis
    by (rule that [OF r a p1 [unfolded w1(4)] p2 [unfolded w2(4) p3] wc(5) [unfolded append_Nil]])
qed

lemma rewrite_ports_effect:
  assumes "l4 + 4 \<le> length f"
  obtains g where "rewrite_ports f l4 sp dp = Some g" "same_except {l4..<l4 + 4} f g"
    "slice l4 (l4 + 2) g = or_old (map_option (be_bytes 2) sp) (slice l4 (l4 + 2) f)"
    "slice (l4 + 2) (l4 + 4) g = or_old (map_option (be_bytes 2) dp) (slice (l4 + 2) (l4 + 4) f)"
proof -
  let ?s = "map_option (be_bytes 2) sp" and ?d = "map_option (be_bytes 2) dp"
  define g1 where "g1 = opt_put l4 ?s f"
  define g where "g = opt_put (l4 + 2) ?d g1"
  have b: "\<And>bs. ?s = Some bs \<Longrightarrow> length bs = 2" "\<And>bs. ?d = Some bs \<Longrightarrow> length bs = 2" by auto
  have w1: "opt_write l4 ?s f = Some g1" "same_except {l4..<l4 + 2} f g1" "length g1 = length f"
    "slice l4 (l4 + 2) g1 = or_old ?s (slice l4 (l4 + 2) f)"
    using opt_put_facts [of "l4 + 2" l4 2 f ?s, OF _ _ b(1), folded g1_def] assms by simp_all
  have w2: "opt_write (l4 + 2) ?d g1 = Some g" "same_except {l4 + 2..<l4 + 4} g1 g" "length g = length g1"
    "slice (l4 + 2) (l4 + 4) g = or_old ?d (slice (l4 + 2) (l4 + 4) g1)"
    using opt_put_facts [of "l4 + 4" "l4 + 2" 2 g1 ?d, OF _ _ b(2), folded g_def] assms w1(3) by simp_all
  note l1 = w1(3) and e1 = w1(2) and e2 = w2(2)
  have p1: "rewrite_ports f l4 sp dp = Some g" using w1(1) w2(1) l1 assms by (simp add: rewrite_ports_def)
  have p2: "same_except {l4..<l4 + 4} f g"
    using same_except_trans [OF e1 e2] by (rule same_except_mono) auto
  have "slice l4 (l4 + 2) g = slice l4 (l4 + 2) g1"
    by (rule slice_same [OF e2]) (use l1 assms in auto)
  with w1(4) have p3: "slice l4 (l4 + 2) g = or_old ?s (slice l4 (l4 + 2) f)" by (rule trans [rotated])
  have "slice (l4 + 2) (l4 + 4) g1 = slice (l4 + 2) (l4 + 4) f"
    by (rule slice_same [OF e1]) (use assms in auto)
  then have p4: "slice (l4 + 2) (l4 + 4) g = or_old ?d (slice (l4 + 2) (l4 + 4) f)"
    using w2(4) by (simp only:)
  show ?thesis by (rule that [OF p1 p2 p3 p4])
qed

text \<open>The TCP or UDP segment with its pseudo header.\<close>

definition total_len :: "u8 list \<Rightarrow> nat" where
  "total_len f = unat (from_be (slice 16 18 f) :: u16)"

definition pseudo_header :: "u8 list \<Rightarrow> nat \<Rightarrow> u8 \<Rightarrow> u8 list" where
  "pseudo_header f h proto =
     slice 26 30 f @ slice 30 34 f @ [0, proto] @ be_bytes 2 (of_nat (total_len f - h) :: u16)"

definition l4_checksum_at :: "u8 \<Rightarrow> nat" where
  "l4_checksum_at proto = (if proto = 6 then 16 else 6)"

definition l4_sum :: "u8 list \<Rightarrow> nat \<Rightarrow> u8 \<Rightarrow> u16" where
  "l4_sum f h proto = internet_checksum (pseudo_header f h proto @ slice (14 + h) (14 + total_len f) f)"

lemma recompute_effect:
  assumes "34 \<le> length f" "20 \<le> h" "proto = 6 \<or> proto = 17" "h + l4_checksum_at proto + 2 \<le> total_len f"
    "14 + total_len f \<le> length f"
  obtains g where "recompute_l4_checksum f 14 h proto = Some g"
    "same_except {14 + h + l4_checksum_at proto..<14 + h + l4_checksum_at proto + 2} f g"
    "internet_checksum (pseudo_header f h proto @ slice (14 + h) (14 + total_len f) g) = 0"
proof -
  let ?o = "l4_checksum_at proto" and ?l = "14 + h" and ?m = "14 + total_len f" and ?p = "pseudo_header f h proto"
  have tl: "total_len f \<le> 65535" using unat_bound [of "from_be (slice 16 18 f) :: u16"] by (simp add: total_len_def)
  have pl: "length ?p = 12" using assms(1) by (simp add: pseudo_header_def)
  define z where "z = put (?l + ?o + 1) [0] (put (?l + ?o) [0] f)"
  define c0 where "c0 = internet_checksum (?p @ slice ?l ?m z)"
  define c where "c = (if proto = 17 \<and> c0 = 0 then 0xFFFF else c0)"
  have pre: "even (length ?p)" "even ?o" "?l + ?o + 2 \<le> ?m" "?m \<le> length f" "length ?p + (?m - ?l) \<le> 131000"
    "c = internet_checksum (?p @ slice ?l ?m z) \<or> c = 0xFFFF \<and> internet_checksum (?p @ slice ?l ?m z) = 0"
    using assms(4,5) tl pl by (auto simp: l4_checksum_at_def c_def c0_def)
  have wc: "write_at (?l + ?o) [0] f \<bind> write_at (?l + ?o + 1) [0] = Some z"
    "get_slice ?l ?m z = Some (slice ?l ?m z)"
    "write_at (?l + ?o) (be_bytes 2 c) z = Some (put (?l + ?o) (be_bytes 2 c) z)"
    "same_except {?l + ?o..<?l + ?o + 2} f (put (?l + ?o) (be_bytes 2 c) z)"
    "internet_checksum (?p @ slice ?l ?m (put (?l + ?o) (be_bytes 2 c) z)) = 0"
    by (rule write_checksum [OF pre(1-5) z_def pre(6)])+
  have len: "get_slice 16 18 f = Some (slice 16 18 f)" "get_slice 26 30 f = Some (slice 26 30 f)"
    "get_slice 30 34 f = Some (slice 30 34 f)" using assms(1) by (simp_all add: get_slice_def)
  have m: "14 + h + (total_len f - h) = ?m" using assms(4) by simp
  have "recompute_l4_checksum f 14 h proto = write_at (?l + ?o) [0] f \<bind> (\<lambda>f1. write_at (?l + ?o + 1) [0] f1 \<bind> (\<lambda>f2.
      get_slice ?l ?m f2 \<bind> (\<lambda>seg. write_at (?l + ?o) (be_bytes 2 (if proto = 17 \<and> internet_checksum (?p @ seg) = 0 then 0xFFFF
        else internet_checksum (?p @ seg))) f2)))"
    using assms(3)
  proof
    assume p: "proto = 6"
    show ?thesis using assms(4,5) len m
      by (simp add: p recompute_l4_checksum_def Let_def pseudo_header_def l4_checksum_at_def total_len_def [symmetric] cong: if_cong)
  next
    assume p: "proto = 17"
    show ?thesis using assms(4,5) len m
      by (simp add: p recompute_l4_checksum_def Let_def pseudo_header_def l4_checksum_at_def total_len_def [symmetric] cong: if_cong)
  qed
  also have "\<dots> = Some (put (?l + ?o) (be_bytes 2 c) z)"
    by (simp only: bind_assoc [symmetric] wc(1) Option.bind.simps wc(2) wc(3) [unfolded c_def c0_def]) (simp only: c_def c0_def)
  finally show ?thesis using that wc(4,5) by blast
qed

lemma parse_ipv4_slices:
  "34 \<le> length f \<Longrightarrow> parse_ipv4 f =
     (if from_be (slice 12 14 f) \<noteq> ETHERTYPE_IPV4 then None
      else if drop_bit 4 (f ! 14) \<noteq> 4 then None
      else if length f < 14 + unat (f ! 14 AND 0x0F) * 4 then None
      else Some \<lparr>ihl = unat (f ! 14 AND 0x0F) * 4, protocol = f ! 23, ip_src = from_be (slice 26 30 f),
                 ip_dst = from_be (slice 30 34 f)\<rparr>)"
  using slice_two [of 12 f] slice_four [of 26 f] slice_four [of 30 f]
  by (auto simp: parse_ipv4_def ETH_HDR_LEN_def Let_def)

lemma parse_ports_slices:
  "off + 4 \<le> length f \<Longrightarrow> parse_ports f off = Some (from_be (slice off (off + 2) f), from_be (slice (off + 2) (off + 4) f))"
proof -
  assume l: "off + 4 \<le> length f"
  have "off + 2 + 2 = off + 4" "off + 2 + 1 = off + 3" by simp_all
  then have "slice (off + 2) (off + 4) f = [f ! (off + 2), f ! (off + 3)]"
    using slice_two [of "off + 2" f] l by (metis add.assoc)
  with slice_two [of off f] l show ?thesis by (simp add: parse_ports_def)
qed

lemma parse_ipv4_SomeD:
  assumes "parse_ipv4 f = Some i"
  shows "34 \<le> length f" "14 + ihl i \<le> length f" "ihl i \<le> 60" "protocol i = f ! 23"
    "ip_src i = from_be (slice 26 30 f)" "ip_dst i = from_be (slice 30 34 f)"
proof -
  show l: "34 \<le> length f" using assms by (auto simp: parse_ipv4_def ETH_HDR_LEN_def split: if_splits)
  have "unat (b AND 0x0F) \<le> 15" for b :: u8
    using word_and_le1 [of b "0x0F"] by (simp add: word_le_nat_alt)
  then show "14 + ihl i \<le> length f" "ihl i \<le> 60" "protocol i = f ! 23"
    "ip_src i = from_be (slice 26 30 f)" "ip_dst i = from_be (slice 30 34 f)"
    using assms [unfolded parse_ipv4_slices [OF l]] by (auto split: if_splits)
qed

text \<open>A TCP or UDP packet that is all there: header, checksum field and declared length.\<close>

definition complete_l4 :: "u8 list \<Rightarrow> ipv4_info \<Rightarrow> bool" where
  "complete_l4 f i \<longleftrightarrow> (protocol i = 6 \<or> protocol i = 17) \<and> 20 \<le> ihl i \<and>
     ihl i + l4_checksum_at (protocol i) + 2 \<le> total_len f \<and> 14 + total_len f \<le> length f"

text \<open>The bytes a rewrite may touch: the two checksums and the fields that are given.\<close>

definition touched :: "ipv4_info \<Rightarrow> u32 option \<Rightarrow> u32 option \<Rightarrow> u16 option \<Rightarrow> u16 option \<Rightarrow> nat set" where
  "touched i s d sp dp =
     (let l = 14 + ihl i; o' = l4_checksum_at (protocol i)
      in {24..<26} \<union> (if s = None then {} else {26..<30}) \<union> (if d = None then {} else {30..<34}) \<union>
         (if sp = None then {} else {l..<l + 2}) \<union> (if dp = None then {} else {l + 2..<l + 4}) \<union> {l + o'..<l + o' + 2})"

text \<open>Every other byte stays, the given fields have the given values, both checksums are right.\<close>

definition rewritten :: "u8 list \<Rightarrow> ipv4_info \<Rightarrow> u32 option \<Rightarrow> u32 option \<Rightarrow> u16 option \<Rightarrow> u16 option \<Rightarrow> u8 list \<Rightarrow> bool" where
  "rewritten f i s d sp dp g \<longleftrightarrow>
     length g = length f \<and> take 14 g = take 14 f \<and>
     parse_ipv4 g = Some (i\<lparr>ip_src := or_old s (ip_src i), ip_dst := or_old d (ip_dst i)\<rparr>) \<and>
     (\<forall>p q. parse_ports f (14 + ihl i) = Some (p, q) \<longrightarrow> parse_ports g (14 + ihl i) = Some (or_old sp p, or_old dp q)) \<and>
     complete_l4 g i \<and> internet_checksum (slice 14 (14 + ihl i) g) = 0 \<and> l4_sum g (ihl i) (protocol i) = 0 \<and>
     drop (16 + ihl i + l4_checksum_at (protocol i)) g = drop (16 + ihl i + l4_checksum_at (protocol i)) f \<and>
     same_except (touched i s d sp dp) f g"

lemma same_take: "same_except S f g \<Longrightarrow> {0..<n} \<inter> S = {} \<Longrightarrow> n \<le> length f \<Longrightarrow> take n g = take n f"
  using slice_same [of S f g 0 n] by (simp add: slice_def)

lemma same_drop: "same_except S f g \<Longrightarrow> S \<subseteq> {0..<n} \<Longrightarrow> drop n g = drop n f"
proof (rule nth_equalityI)
  assume e: "same_except S f g" "S \<subseteq> {0..<n}"
  then show "length (drop n g) = length (drop n f)" by (simp add: same_except_def)
  fix k assume "k < length (drop n g)"
  moreover have "n + k \<notin> S" using e(2) by auto
  ultimately show "drop n g ! k = drop n f ! k" using e(1) by (simp add: same_except_def)
qed

lemma same_nth: "same_except S f g \<Longrightarrow> k \<notin> S \<Longrightarrow> k < length f \<Longrightarrow> g ! k = f ! k"
  by (simp add: same_except_def)

lemma from_be_or_old:
  "LENGTH('a) = 8 * n \<Longrightarrow> from_be (or_old (map_option (be_bytes n) x) bs) = or_old x (from_be bs :: 'a::len word)"
  by (cases x) (simp_all add: from_be_be_bytes)

lemma same_except_slice:
  assumes "same_except S f g" "slice a b g = or_old x (slice a b f)" "b \<le> length f"
  shows "same_except (S - (if x = None then {a..<b} else {})) f g"
proof (cases x)
  case None
  have "f ! k = g ! k" if "k \<in> {a..<b}" for k
  proof -
    have "k - a < b - a" "a + (k - a) = k" using that by auto
    then have "slice a b f ! (k - a) = f ! k" "slice a b g ! (k - a) = g ! k"
      using that assms(1,3) by (simp_all add: slice_def same_except_def)
    then show ?thesis using assms(2) None by simp
  qed
  then show ?thesis using assms(1) None by (auto simp: same_except_def)
qed (use assms(1) in simp)

lemma same_touched:
  fixes i s d sp dp
  defines "l \<equiv> 14 + ihl i" and "c \<equiv> l4_checksum_at (protocol i)"
  assumes e: "same_except ({24..<34} \<union> {l..<l + 4} \<union> {l + c..<l + c + 2}) f g"
    and sl: "slice 26 30 g = or_old (map_option (be_bytes 4) s) (slice 26 30 f)"
      "slice 30 34 g = or_old (map_option (be_bytes 4) d) (slice 30 34 f)"
      "slice l (l + 2) g = or_old (map_option (be_bytes 2) sp) (slice l (l + 2) f)"
      "slice (l + 2) (l + 4) g = or_old (map_option (be_bytes 2) dp) (slice (l + 2) (l + 4) f)"
    and len: "l + 4 \<le> length f" "34 \<le> length f"
  shows "same_except (touched i s d sp dp) f g"
proof -
  have "same_except ({24..<34} \<union> {l..<l + 4} \<union> {l + c..<l + c + 2} - (if s = None then {26..<30} else {}) -
      (if d = None then {30..<34} else {}) - (if sp = None then {l..<l + 2} else {}) - (if dp = None then {l + 2..<l + 4} else {})) f g"
    using same_except_slice [OF same_except_slice [OF same_except_slice [OF same_except_slice [OF e sl(1)] sl(2)] sl(3)] sl(4)] len
    by simp
  then show ?thesis by (rule same_except_mono) (auto simp: touched_def Let_def l_def c_def split: if_splits)
qed

lemma rewrite_ipv4_rewritten:
  assumes "parse_ipv4 f = Some i" "complete_l4 f i"
  obtains g where "rewrite_ipv4 f (ihl i) s d sp dp = Some g" "rewritten f i s d sp dp g"
proof -
  note p = parse_ipv4_SomeD [OF assms(1)] and c = assms(2) [unfolded complete_l4_def]
  let ?h = "ihl i" and ?o = "l4_checksum_at (protocol i)" and ?l = "14 + ihl i"
  have o: "6 \<le> ?o" by (simp add: l4_checksum_at_def)
  obtain f1 where f1: "rewrite_header f ?h s d = Some f1" "same_except {24..<34} f f1"
    "slice 26 30 f1 = or_old (map_option (be_bytes 4) s) (slice 26 30 f)"
    "slice 30 34 f1 = or_old (map_option (be_bytes 4) d) (slice 30 34 f)"
    "internet_checksum (slice 14 (14 + ?h) f1) = 0"
    using rewrite_header_effect [of f ?h s d] p c by blast
  have l1: "length f1 = length f" using f1(2) by (simp add: same_except_def)
  have b1: "f1 ! 23 = protocol i" using same_nth [OF f1(2), of 23] p by simp
  have "?l + 4 \<le> length f1" using l1 c o by linarith
  then obtain f2 where f2: "rewrite_ports f1 ?l sp dp = Some f2" "same_except {?l..<?l + 4} f1 f2"
    "slice ?l (?l + 2) f2 = or_old (map_option (be_bytes 2) sp) (slice ?l (?l + 2) f1)"
    "slice (?l + 2) (?l + 4) f2 = or_old (map_option (be_bytes 2) dp) (slice (?l + 2) (?l + 4) f1)"
    by (rule rewrite_ports_effect)
  have l2: "length f2 = length f" using f2(2) l1 by (simp add: same_except_def)
  have e2: "same_except ({24..<34} \<union> {?l..<?l + 4}) f f2" by (rule same_except_trans [OF f1(2) f2(2)])
  have t2: "slice 16 18 f2 = slice 16 18 f" by (rule slice_same [OF e2]) (use p c in auto)
  then have tl2: "total_len f2 = total_len f" by (simp add: total_len_def)
  obtain g where g: "recompute_l4_checksum f2 14 ?h (protocol i) = Some g"
    "same_except {?l + ?o..<?l + ?o + 2} f2 g"
    "internet_checksum (pseudo_header f2 ?h (protocol i) @ slice ?l (14 + total_len f2) g) = 0"
    by (rule recompute_effect [of f2 ?h "protocol i"]) (use l2 tl2 p(1) c in \<open>simp_all only:\<close>)
  have lg: "length g = length f" using g(2) l2 by (simp add: same_except_def)
  have e: "same_except ({24..<34} \<union> {?l..<?l + 4} \<union> {?l + ?o..<?l + ?o + 2}) f g"
    by (rule same_except_trans [OF e2 g(2)])
  have R: "rewrite_ipv4 f ?h s d sp dp = Some g"
    using f1(1) f2(1) g(1) b1 c by (simp add: rewrite_ipv4_split)
  note len = l1 l2 lg p(1,2)
  have l: "?l + 4 \<le> length f" using c o by linarith
  have y: "slice ?l (?l + 2) g = slice ?l (?l + 2) f2" "slice (?l + 2) (?l + 4) g = slice (?l + 2) (?l + 4) f2"
    by (rule slice_same [OF g(2)]; use l len o in auto)+
  have z: "slice ?l (?l + 2) f1 = slice ?l (?l + 2) f" "slice (?l + 2) (?l + 4) f1 = slice (?l + 2) (?l + 4) f"
    by (rule slice_same [OF f1(2)]; use l len c in auto)+
  note x = f2(3,4) [folded y, unfolded z]
  have sl: "slice 26 30 g = slice 26 30 f1" "slice 30 34 g = slice 30 34 f1" "slice 14 ?l g = slice 14 ?l f1"
    by (rule slice_same [OF same_except_trans [OF f2(2) g(2)]]; use len c in auto)+
  have s12: "slice 12 14 g = slice 12 14 f" and s16: "slice 16 18 g = slice 16 18 f"
    by (rule slice_same [OF e]; use len c in auto)+
  have n: "g ! 14 = f ! 14" "g ! 23 = f ! 23" by (rule same_nth [OF e]; use len c in auto)+
  have tk: "take 14 g = take 14 f" by (rule same_take [OF e]) (use len c in auto)
  have dr: "drop (16 + ?h + ?o) g = drop (16 + ?h + ?o) f" by (rule same_drop [OF e]) (use len c o in auto)
  have "parse_ipv4 g = Some (i\<lparr>ip_src := or_old s (ip_src i), ip_dst := or_old d (ip_dst i)\<rparr>)"
    using assms(1) len unfolding parse_ipv4_slices [OF p(1)] parse_ipv4_slices [OF p(1) [folded lg]] s12 n sl f1(3,4)
    by (cases s; cases d) (auto simp: from_be_be_bytes split: if_splits)
  moreover have "parse_ports g ?l = Some (or_old sp a, or_old dp b)" if "parse_ports f ?l = Some (a, b)" for a b
    using that unfolding parse_ports_slices [OF l] parse_ports_slices [OF l [folded lg]] x
    by (cases sp; cases dp) (auto simp: from_be_be_bytes)
  moreover have "total_len g = total_len f" by (simp add: total_len_def s16)
  moreover have "slice 26 30 f2 = slice 26 30 g" "slice 30 34 f2 = slice 30 34 g"
    by (rule slice_same [OF g(2), symmetric]; use len c in auto)+
  moreover have "same_except (touched i s d sp dp) f g"
    by (rule same_touched [OF e _ _ x l p(1)]) (simp_all only: sl f1(3,4))
  ultimately have "rewritten f i s d sp dp g"
    using c f1(5) sl(3) g(3) tl2 lg tk dr
    unfolding rewritten_def complete_l4_def l4_sum_def pseudo_header_def by auto
  with R show ?thesis by (rule that)
qed

lemma rewrite_short_segment:
  assumes "parse_ipv4 f = Some i" "protocol i = 6" "20 \<le> ihl i" "ihl i \<le> total_len f" "14 + total_len f \<le> length f"
    "length f < 14 + ihl i + 18"
  shows "rewrite_ipv4 f (ihl i) s d sp dp = None"
proof -
  note p = parse_ipv4_SomeD [OF assms(1)]
  obtain f1 where f1: "rewrite_header f (ihl i) s d = Some f1" "same_except {24..<34} f f1"
    using rewrite_header_effect [of f "ihl i" s d] p assms(3) by blast
  have b1: "f1 ! 23 = 6" using same_nth [OF f1(2), of 23] p assms(2) by simp
  show ?thesis
  proof (cases "rewrite_ports f1 (14 + ihl i) sp dp")
    case None
    then show ?thesis by (simp add: rewrite_ipv4_split f1(1) b1)
  next
    case (Some f2)
    have "length f1 = length f" using f1(2) by (simp add: same_except_def)
    moreover have "length g = length e \<and> (\<forall>k < off. k < length e \<longrightarrow> g ! k = e ! k)" if "opt_write off x e = Some g" for off x and e g :: "u8 list"
      using that by (auto simp: opt_write_def write_at_def put_def nth_append split: option.splits if_splits)
    ultimately have l2: "length f2 = length f" and "\<forall>k < 14 + ihl i. k < length f \<longrightarrow> f2 ! k = f1 ! k"
      using Some by (fastforce simp: rewrite_ports_def bind_eq_Some_conv)+
    then have "slice 16 18 f2 = slice 16 18 f"
      using slice_two [of 16 f] slice_two [of 16 f2] same_nth [OF f1(2), of 16] same_nth [OF f1(2), of 17] p(1) assms(3) by simp
    then have tl: "total_len f2 = total_len f" by (simp add: total_len_def)
    have "recompute_l4_checksum f2 14 (ihl i) 6 = None"
      using assms(4-6) l2 p(1) tl by (simp add: recompute_l4_checksum_def Let_def get_slice_def write_at_def total_len_def bind_eq_None_conv)
    then show ?thesis by (simp add: rewrite_ipv4_split f1(1) b1 Some)
  qed
qed

section \<open>Properties\<close>

text \<open>C27: the checksum is the one of RFC 1071 for every input up to 131000 bytes, which is more
  than an IPv4 packet can hold: the 32-bit accumulator never wraps and the result is the
  complement of the ones' complement sum of the 16-bit words.\<close>

theorem checksum_rfc1071:
  assumes "length bs \<le> 131000"
  shows "unat (add_chunks 0 bs) = sum16 bs \<and> sum16 bs < 2 ^ 32 \<and>
    unat (internet_checksum bs) = 65535 - ones_fold (sum16 bs)"
proof -
  have "sum16 bs \<le> 65535 * ((131000 + 1) div 2)"
    using sum16_bound [of bs] assms by (meson add_le_mono1 div_le_mono le_trans mult_le_mono2)
  then show ?thesis using unat_add_chunks [of 0 bs] checksum_value [OF assms] by simp
qed

theorem checksum_rfc1071_witness: "unat (internet_checksum [0x45, 0, 0xFF]) = 65535 - ones_fold (sum16 [0x45, 0, 0xFF])"
  using checksum_rfc1071 [of "[0x45, 0, 0xFF]"] by simp

text \<open>C28: the loop that folds the carries ends after at most two rounds, whatever the sum.\<close>

theorem fold_carry_two_rounds:
  "fold_carry s =
     (let carry = (\<lambda>s :: u32. (s AND 0xFFFF) + drop_bit 16 s)
      in if drop_bit 16 s = 0 then s else if drop_bit 16 (carry s) = 0 then carry s else carry (carry s))"
proof -
  let ?c = "\<lambda>s :: u32. (s AND 0xFFFF) + drop_bit 16 s"
  have b: "n mod 65536 + n div 65536 \<le> 65535" if n: "n \<le> (131070 :: nat)" for n
  proof -
    have "n div 65536 \<le> 1" using n by (simp add: div_le_mono [of n 131070 65536, simplified])
    then consider "n div 65536 = 0" | "n div 65536 = 1" by linarith
    then show ?thesis using n div_mult_mod_eq [of n 65536] mod_less_divisor [of 65536 n] by cases linarith+
  qed
  have "unat s < 2 ^ 32" using unat_bound [of s] by simp
  then have "unat s div 65536 \<le> 65535" "unat s mod 65536 \<le> 65535" by simp_all
  then have "unat (?c s) \<le> 131070" by (simp add: unat_carry)
  then have "unat (?c (?c s)) \<le> 65535" using b unat_carry [of "?c s"] by simp
  then have "unat (?c (?c s)) div 65536 = 0" by simp
  then have "drop_bit 16 (?c (?c s)) = 0" unfolding unat_high16 [symmetric] by (simp add: unat_eq_zero)
  then show ?thesis by (simp add: fold_carry.simps [of s] fold_carry.simps [of "?c s"] fold_carry.simps [of "?c (?c s)"])
qed

text \<open>C26: rewriting a TCP or UDP packet whose header and declared length are all there never panics.
  The result has the addresses and ports that are given, every byte outside those fields and the two
  checksum fields is the old one, and both checksums, the one of the IP header and the one over the
  pseudo header and the segment, are right for it.\<close>

theorem rewrite_keeps_packets_valid:
  assumes "parse_ipv4 f = Some i" "complete_l4 f i"
  shows "\<exists>g. rewrite_ipv4 f (ihl i) s d sp dp = Some g \<and> rewritten f i s d sp dp g"
  using rewrite_ipv4_rewritten [OF assms] by blast

definition sample_udp :: "u8 list" where
  "sample_udp = replicate 12 2 @ [8, 0] @ [0x45, 0, 0, 30, 0, 0, 0, 0, 64, 17, 0, 0, 10, 0, 0, 1, 10, 0, 0, 2] @
     [0, 7, 0, 80, 0, 10, 0, 0, 1, 2]"

theorem rewrite_keeps_packets_valid_witness:
  "\<exists>g. rewrite_ipv4 sample_udp 20 None (Some 0x0A000003) None (Some 81) = Some g \<and>
    internet_checksum (slice 14 34 g) = 0 \<and> l4_sum g 20 17 = 0 \<and> parse_ports g 34 = Some (7, 81) \<and>
    same_except ({24..<26} \<union> {30..<34} \<union> {36..<38} \<union> {40..<42}) sample_udp g"
proof -
  have "map_option ihl (parse_ipv4 sample_udp) = Some 20" "map_option protocol (parse_ipv4 sample_udp) = Some 17"
    by code_simp+
  then obtain i where i: "parse_ipv4 sample_udp = Some i" "ihl i = 20" "protocol i = 17" by auto
  have "total_len sample_udp = 30" "length sample_udp = 44" by code_simp+
  then have "complete_l4 sample_udp i" by (simp add: complete_l4_def i l4_checksum_at_def)
  moreover have "parse_ports sample_udp 34 = Some (7, 80)" by code_simp
  ultimately show ?thesis
    using rewrite_keeps_packets_valid [OF i(1), of None "Some 0x0A000003" None "Some 81"]
    by (auto simp: rewritten_def i touched_def l4_checksum_at_def Let_def)
qed

definition short_tcp :: "u8 list" where
  "short_tcp = replicate 12 2 @ [8, 0] @ [0x45, 0, 0, 24, 0, 0, 0, 0, 64, 6, 0, 0, 10, 0, 0, 1, 10, 0, 0, 2] @ [0, 7, 0, 80]"

lemma be_bytes_Cons: "be_bytes (Suc n) w = ucast (drop_bit (8 * n) w) # be_bytes n w"
proof (induction n arbitrary: w)
  case (Suc n)
  have "be_bytes (Suc (Suc n)) w = be_bytes (Suc n) (drop_bit 8 w) @ [ucast w]" by (rule be_bytes.simps)
  also have "\<dots> = ucast (drop_bit (8 * Suc n) w) # be_bytes (Suc n) w"
    by (simp only: Suc.IH [of "drop_bit 8 w"] append_Cons) (simp add: drop_bit_drop_bit add.commute)
  finally show ?case .
qed simp

text \<open>The VXLAN header is eight bytes with the flag that the network identifier is valid, and the
  low 24 bits of the identifier are read back from it.\<close>

lemma vxlan_header_roundtrip:
  "length (build_vxlan_header vni) = VXLAN_HDR_LEN \<and> build_vxlan_header vni ! 0 = 0x08 \<and>
    from_be (slice 4 7 (build_vxlan_header vni)) = take_bit 24 vni"
proof -
  obtain b c d where m: "be_bytes 3 vni = [b, c, d]" by (simp add: numeral_eq_Suc)
  then have v: "be_bytes 4 vni = [ucast (drop_bit 24 vni), b, c, d]"
    using be_bytes_Cons [of 3 vni] by (simp del: be_bytes.simps)
  from m have r: "from_be [b, c, d] = take_bit 24 vni" using from_be_be_bytes_take [of 3 vni] by simp
  have "build_vxlan_header vni = [8, 0, 0, 0, b, c, d, 0]"
    by (simp only: build_vxlan_header_def v Let_def) (simp add: VXLAN_HDR_LEN_def numeral_eq_Suc)
  with r show ?thesis by (simp add: VXLAN_HDR_LEN_def slice_def)
qed

end
