(* ===== verification/Soft_Dataplane.thy ===== *)
theory Soft_Dataplane
  imports Packet "HOL-Library.AList"
begin

text \<open>
  \<open>SoftDataplane\<close> of \<open>sarena-data-plane/src/soft_dataplane.rs\<close> with the resources of
  \<open>models.rs\<close>: the tables and their upserts, route and backend selection, connection tracking with
  destination NAT, and the forwarding decision. A \<open>HashMap\<close> is an association list in its iteration
  order, which no statement depends on. The hash of a flow (\<open>DefaultHasher\<close>) is the argument
  \<open>hash\<close>, the \<open>ipnet\<close> crate the argument \<open>L\<close>, the clock the argument \<open>now\<close>. The result of
  \<open>decide\<close> is \<open>None\<close> where the source panics.
\<close>

section \<open>Resources\<close>

type_synonym node_id = u32
type_synonym interface_id = u32
type_synonym workload_id = u32
type_synonym identity_id = u32
type_synonym policy_id = u64

record node =
  node_id :: node_id
  node_addresses :: "ip_addr list"

datatype interface_kind = Physical | Veth | Bridge | Loopback | TunnelDevice | Virtual

record interface =
  if_id :: interface_id
  if_node :: node_id
  if_kind :: interface_kind
  if_addresses :: "ip_net list"
  if_mac :: "mac_address option"
  if_mtu :: "u16 option"

datatype endpoint_location = LocalAt interface_id | RemoteLoc

record workload =
  wl_id :: workload_id
  wl_node :: node_id
  wl_addresses :: "ip_addr list"
  wl_identity :: identity_id
  wl_location :: endpoint_location

datatype next_hop = LocalHop interface_id | RemoteHop node_id | Gateway ip_addr | Blackhole

record route =
  rt_destination :: ip_net
  rt_next_hop :: next_hop
  rt_weight :: u8

record identity =
  idn_id :: identity_id
  idn_labels :: "(string \<times> string) list"

datatype identity_selector = SelIdentity identity_id | SelAny

datatype direction = IngressDir | EgressDir

record port_rule =
  pr_protocol :: ip_proto
  pr_port :: "u16 option"

datatype policy_action = Allow | Deny

record policy =
  pol_id :: policy_id
  pol_subject :: identity_selector
  pol_direction :: direction
  pol_peer :: identity_selector
  pol_ports :: "port_rule list"
  pol_action :: policy_action

datatype tunnel_kind = Vxlan u32

record tunnel =
  tn_local_node :: node_id
  tn_remote_node :: node_id
  tn_kind :: tunnel_kind
  tn_local_address :: ip_addr
  tn_remote_address :: ip_addr
  tn_mtu :: "u16 option"

record service_frontend =
  sf_address :: ip_addr
  sf_port :: u16
  sf_protocol :: ip_proto

datatype nat_kind = NatSource ip_addr | NatDestination ip_addr "u16 option" | Masquerade

record service_backend =
  sb_endpoint :: workload_id
  sb_port :: u16
  sb_nat :: nat_kind

record service =
  sv_frontend :: service_frontend
  sv_backends :: "service_backend list"

record flow_tuple =
  ft_src :: ip_addr
  ft_src_port :: u16
  ft_dst :: ip_addr
  ft_dst_port :: u16
  ft_protocol :: ip_proto

datatype connection_state = NewConn | Established | Closing | Closed

record conntrack_entry =
  ct_original :: flow_tuple
  ct_reply :: flow_tuple
  ct_state :: connection_state
  ct_last_seen :: nat

section \<open>State\<close>

record sd_state =
  sd_nodes :: "(node_id \<times> node) list"
  sd_interfaces :: "(interface_id \<times> interface) list"
  sd_endpoints :: "(workload_id \<times> workload) list"
  sd_routes :: "(ip_net \<times> route list) list"
  sd_identities :: "(identity_id \<times> identity) list"
  sd_tunnels :: "((node_id \<times> node_id) \<times> tunnel) list"
  sd_services :: "(service_frontend \<times> service) list"
  sd_policies :: "(policy_id \<times> policy) list"
  sd_conntrack :: "(flow_tuple \<times> conntrack_entry) list"
  sd_reply_index :: "(flow_tuple \<times> flow_tuple) list"

definition sd_default :: sd_state where
  "sd_default = \<lparr>sd_nodes = [], sd_interfaces = [], sd_endpoints = [], sd_routes = [], sd_identities = [],
     sd_tunnels = [], sd_services = [], sd_policies = [], sd_conntrack = [], sd_reply_index = []\<rparr>"

datatype decision =
    Deliver interface_id "u8 list"
  | Encapsulate ip_addr u32 "u8 list"
  | Drop

text \<open>The interfaces attached and whether the VXLAN socket is open stand for the I/O handles.\<close>

record soft_dataplane =
  sd_local_node :: node_id
  sd_vxlan_port :: u16
  sd_tables :: sd_state
  sd_interfaces_io :: "interface_id list"
  sd_vxlan_socket :: bool

datatype sent = SentFrame interface_id "u8 list" | SentDatagram ip_addr u16 "u8 list"

definition sd_new :: "node_id \<Rightarrow> u16 \<Rightarrow> soft_dataplane" where
  "sd_new n port = \<lparr>sd_local_node = n, sd_vxlan_port = port, sd_tables = sd_default, sd_interfaces_io = [],
     sd_vxlan_socket = False\<rparr>"

definition attach_interface :: "interface_id \<Rightarrow> soft_dataplane \<Rightarrow> soft_dataplane" where
  "attach_interface i sd = sd\<lparr>sd_interfaces_io := List.insert i (sd_interfaces_io sd)\<rparr>"

section \<open>Selection\<close>

definition route_weight :: "route \<Rightarrow> u32" where
  "route_weight r = ucast (max (rt_weight r) 1)"

fun pick_route :: "u32 \<Rightarrow> route list \<Rightarrow> route option" where
  "pick_route t [] = None"
| "pick_route t (r # rs) = (if t < route_weight r then Some r else pick_route (t - route_weight r) rs)"

definition select_route :: "(flow_tuple \<Rightarrow> u64) \<Rightarrow> route list \<Rightarrow> flow_tuple \<Rightarrow> route option" where
  "select_route hash routes flow =
     (if routes = [] then None
      else let total_weight = sum_list (map route_weight routes);
               target = ucast (hash flow mod ucast total_weight)
           in case pick_route target routes of Some r \<Rightarrow> Some r | None \<Rightarrow> Some (last routes))"

definition best_group ::
  "ipnet_lib \<Rightarrow> ip_addr \<Rightarrow> ip_net \<times> route list \<Rightarrow> (nat \<times> route list) option \<Rightarrow> (nat \<times> route list) option" where
  "best_group L dst entry best =
     (case entry of (net, grp) \<Rightarrow>
        if lib_contains L net dst \<and> (case best of None \<Rightarrow> True | Some (b, _) \<Rightarrow> b < prefix_len net)
        then Some (prefix_len net, grp) else best)"

definition lookup_route ::
  "ipnet_lib \<Rightarrow> (flow_tuple \<Rightarrow> u64) \<Rightarrow> (ip_net \<times> route list) list \<Rightarrow> ip_addr \<Rightarrow> flow_tuple \<Rightarrow> route option" where
  "lookup_route L hash routes dst flow =
     (case fold (best_group L dst) routes None of None \<Rightarrow> None
      | Some (_, grp) \<Rightarrow> select_route hash grp flow)"

definition select_backend :: "(flow_tuple \<Rightarrow> u64) \<Rightarrow> service_backend list \<Rightarrow> flow_tuple \<Rightarrow> service_backend option" where
  "select_backend hash backends flow =
     (if backends = [] then None
      else let i = unat (hash flow) mod length backends
           in if i < length backends then Some (backends ! i) else None)"

section \<open>Forwarding\<close>

definition flow_of :: "ip_proto \<Rightarrow> u8 list \<Rightarrow> ipv4_info \<Rightarrow> flow_tuple" where
  "flow_of proto frame ip =
     (case (if proto = Tcp \<or> proto = Udp
            then case parse_ports frame (ETH_HDR_LEN + ihl ip) of Some p \<Rightarrow> p | None \<Rightarrow> (0, 0)
            else (0, 0)) of
        (src_port, dst_port) \<Rightarrow>
          \<lparr>ft_src = V4 (ip_src ip), ft_src_port = src_port, ft_dst = V4 (ip_dst ip), ft_dst_port = dst_port,
           ft_protocol = proto\<rparr>)"

definition forward ::
  "ipnet_lib \<Rightarrow> (flow_tuple \<Rightarrow> u64) \<Rightarrow> node_id \<Rightarrow> sd_state \<Rightarrow> u8 list \<Rightarrow> decision option" where
  "forward L hash local_node s frame =
     (case parse_ipv4 frame of None \<Rightarrow> Some Drop
      | Some ip \<Rightarrow>
          (let proto = (case ip_proto_from_byte (protocol ip) of Some p \<Rightarrow> p | None \<Rightarrow> Icmp);
               flow = flow_of proto frame ip
           in case lookup_route L hash (sd_routes s) (V4 (ip_dst ip)) flow of
                None \<Rightarrow> Some Drop
              | Some route \<Rightarrow>
                  (case rt_next_hop route of
                     LocalHop iface_id \<Rightarrow>
                       (case map_of (sd_interfaces s) iface_id of
                          Some iface \<Rightarrow>
                            (case if_mac iface of
                               Some mac \<Rightarrow> map_option (Deliver iface_id) (write_at 0 (mac_bytes mac) frame)
                             | None \<Rightarrow> Some (Deliver iface_id frame))
                        | None \<Rightarrow> Some (Deliver iface_id frame))
                   | RemoteHop n \<Rightarrow>
                       (case map_of (sd_tunnels s) (local_node, n) of
                          Some t \<Rightarrow>
                            (case tn_kind t of Vxlan vni \<Rightarrow> Some (Encapsulate (tn_remote_address t) vni frame))
                        | None \<Rightarrow> Some Drop)
                   | Gateway _ \<Rightarrow> Some Drop
                   | Blackhole \<Rightarrow> Some Drop)))"

definition decide ::
  "ipnet_lib \<Rightarrow> (flow_tuple \<Rightarrow> u64) \<Rightarrow> nat \<Rightarrow> node_id \<Rightarrow> sd_state \<Rightarrow> u8 list \<Rightarrow> (decision \<times> sd_state) option" where
  "decide L hash now local_node s frame =
     (case parse_ipv4 frame of None \<Rightarrow> Some (Drop, s)
      | Some ip \<Rightarrow>
     (case ip_proto_from_byte (protocol ip) of None \<Rightarrow> Some (Drop, s)
      | Some proto \<Rightarrow>
     (let wire = flow_of proto frame ip
      in case map_of (sd_reply_index s) wire of
        Some original \<Rightarrow>
          (case map_of (sd_conntrack s) original of
             Some entry \<Rightarrow>
               (let entry' = entry\<lparr>ct_last_seen := now,
                      ct_state := (if ct_state entry = NewConn then Established else ct_state entry)\<rparr>;
                    s' = s\<lparr>sd_conntrack := AList.update original entry' (sd_conntrack s)\<rparr>
                in case ft_dst (ct_original entry') of
                     V4 frontend_addr \<Rightarrow>
                       do { frame' \<leftarrow> rewrite_ipv4 frame (ihl ip) (Some frontend_addr) None
                                      (Some (ft_dst_port (ct_original entry'))) None;
                            d \<leftarrow> forward L hash local_node s' frame'; Some (d, s') }
                   | V6 _ \<Rightarrow> do { d \<leftarrow> forward L hash local_node s' frame; Some (d, s') })
           | None \<Rightarrow> do { d \<leftarrow> forward L hash local_node s frame; Some (d, s) })
      | None \<Rightarrow>
          (case map_of (sd_services s)
                  \<lparr>sf_address = V4 (ip_dst ip), sf_port = ft_dst_port wire, sf_protocol = proto\<rparr> of
             None \<Rightarrow> do { d \<leftarrow> forward L hash local_node s frame; Some (d, s) }
           | Some svc \<Rightarrow>
               (case select_backend hash (sv_backends svc) wire of None \<Rightarrow> Some (Drop, s)
                | Some backend \<Rightarrow>
                    (case sb_nat backend of
                       NatDestination (V4 backend_addr) port \<Rightarrow>
                         (let backend_port = (case port of Some p \<Rightarrow> p | None \<Rightarrow> sb_port backend);
                              reply = \<lparr>ft_src = V4 backend_addr, ft_src_port = backend_port, ft_dst = ft_src wire,
                                       ft_dst_port = ft_src_port wire, ft_protocol = proto\<rparr>;
                              s' = s\<lparr>sd_conntrack := AList.update wire
                                        \<lparr>ct_original = wire, ct_reply = reply, ct_state = NewConn, ct_last_seen = now\<rparr>
                                        (sd_conntrack s),
                                     sd_reply_index := AList.update reply wire (sd_reply_index s)\<rparr>
                          in do { frame' \<leftarrow> rewrite_ipv4 frame (ihl ip) None (Some backend_addr) None (Some backend_port);
                                  d \<leftarrow> forward L hash local_node s' frame'; Some (d, s') })
                     | _ \<Rightarrow> Some (Drop, s)))))))"

definition handle_frame ::
  "ipnet_lib \<Rightarrow> (flow_tuple \<Rightarrow> u64) \<Rightarrow> nat \<Rightarrow> u8 list \<Rightarrow> soft_dataplane \<Rightarrow> (sent option \<times> soft_dataplane) option" where
  "handle_frame L hash now frame sd =
     (case decide L hash now (sd_local_node sd) (sd_tables sd) frame of None \<Rightarrow> None
      | Some (d, s) \<Rightarrow>
          Some (case d of
                  Deliver i out \<Rightarrow> if i \<in> set (sd_interfaces_io sd) then Some (SentFrame i out) else None
                | Encapsulate addr vni out \<Rightarrow>
                    if sd_vxlan_socket sd then Some (SentDatagram addr (sd_vxlan_port sd) (build_vxlan_header vni @ out)) else None
                | Drop \<Rightarrow> None,
                sd\<lparr>sd_tables := s\<rparr>))"

section \<open>Tables\<close>

definition add_node :: "node \<Rightarrow> sd_state \<Rightarrow> sd_state" where
  "add_node x s = s\<lparr>sd_nodes := AList.update (node_id x) x (sd_nodes s)\<rparr>"

definition remove_node :: "node_id \<Rightarrow> sd_state \<Rightarrow> sd_state" where
  "remove_node k s = s\<lparr>sd_nodes := AList.delete k (sd_nodes s)\<rparr>"

definition list_nodes :: "sd_state \<Rightarrow> node list" where
  "list_nodes s = map snd (sd_nodes s)"

definition add_interface :: "interface \<Rightarrow> sd_state \<Rightarrow> sd_state" where
  "add_interface x s = s\<lparr>sd_interfaces := AList.update (if_id x) x (sd_interfaces s)\<rparr>"

definition remove_interface :: "interface_id \<Rightarrow> sd_state \<Rightarrow> sd_state" where
  "remove_interface k s = s\<lparr>sd_interfaces := AList.delete k (sd_interfaces s)\<rparr>"

definition list_interfaces :: "sd_state \<Rightarrow> interface list" where
  "list_interfaces s = map snd (sd_interfaces s)"

definition sd_add_endpoint :: "workload \<Rightarrow> sd_state \<Rightarrow> sd_state" where
  "sd_add_endpoint x s = s\<lparr>sd_endpoints := AList.update (wl_id x) x (sd_endpoints s)\<rparr>"

definition sd_remove_endpoint :: "workload_id \<Rightarrow> sd_state \<Rightarrow> sd_state" where
  "sd_remove_endpoint k s = s\<lparr>sd_endpoints := AList.delete k (sd_endpoints s)\<rparr>"

definition sd_list_endpoints :: "sd_state \<Rightarrow> workload list" where
  "sd_list_endpoints s = map snd (sd_endpoints s)"

text \<open>\<open>add_route\<close> replaces the first route of the group with the same next hop, or appends.\<close>

fun upsert_group :: "route \<Rightarrow> route list \<Rightarrow> route list" where
  "upsert_group r [] = [r]"
| "upsert_group r (x # xs) = (if rt_next_hop x = rt_next_hop r then r # xs else x # upsert_group r xs)"

definition add_route :: "route \<Rightarrow> sd_state \<Rightarrow> sd_state" where
  "add_route r s =
     (let grp = (case map_of (sd_routes s) (rt_destination r) of Some g \<Rightarrow> g | None \<Rightarrow> [])
      in s\<lparr>sd_routes := AList.update (rt_destination r) (upsert_group r grp) (sd_routes s)\<rparr>)"

definition remove_route :: "ip_net \<Rightarrow> next_hop \<Rightarrow> sd_state \<Rightarrow> sd_state" where
  "remove_route dest nh s =
     (case map_of (sd_routes s) dest of None \<Rightarrow> s
      | Some grp \<Rightarrow>
          (let grp' = filter (\<lambda>r. rt_next_hop r \<noteq> nh) grp
           in s\<lparr>sd_routes := (if grp' = [] then AList.delete dest (sd_routes s)
                              else AList.update dest grp' (sd_routes s))\<rparr>))"

definition dump_routes :: "sd_state \<Rightarrow> route list" where
  "dump_routes s = concat (map snd (sd_routes s))"

definition add_identity :: "identity \<Rightarrow> sd_state \<Rightarrow> sd_state" where
  "add_identity x s = s\<lparr>sd_identities := AList.update (idn_id x) x (sd_identities s)\<rparr>"

definition remove_identity :: "identity_id \<Rightarrow> sd_state \<Rightarrow> sd_state" where
  "remove_identity k s = s\<lparr>sd_identities := AList.delete k (sd_identities s)\<rparr>"

definition list_identities :: "sd_state \<Rightarrow> identity list" where
  "list_identities s = map snd (sd_identities s)"

definition add_tunnel :: "tunnel \<Rightarrow> sd_state \<Rightarrow> sd_state" where
  "add_tunnel x s = s\<lparr>sd_tunnels := AList.update (tn_local_node x, tn_remote_node x) x (sd_tunnels s)\<rparr>"

definition remove_tunnel :: "node_id \<times> node_id \<Rightarrow> sd_state \<Rightarrow> sd_state" where
  "remove_tunnel k s = s\<lparr>sd_tunnels := AList.delete k (sd_tunnels s)\<rparr>"

definition list_tunnels :: "sd_state \<Rightarrow> tunnel list" where
  "list_tunnels s = map snd (sd_tunnels s)"

definition add_service :: "service \<Rightarrow> sd_state \<Rightarrow> sd_state" where
  "add_service x s = s\<lparr>sd_services := AList.update (sv_frontend x) x (sd_services s)\<rparr>"

definition remove_service :: "service_frontend \<Rightarrow> sd_state \<Rightarrow> sd_state" where
  "remove_service k s = s\<lparr>sd_services := AList.delete k (sd_services s)\<rparr>"

definition list_services :: "sd_state \<Rightarrow> service list" where
  "list_services s = map snd (sd_services s)"

definition add_policy :: "policy \<Rightarrow> sd_state \<Rightarrow> sd_state" where
  "add_policy x s = s\<lparr>sd_policies := AList.update (pol_id x) x (sd_policies s)\<rparr>"

definition remove_policy :: "policy_id \<Rightarrow> sd_state \<Rightarrow> sd_state" where
  "remove_policy k s = s\<lparr>sd_policies := AList.delete k (sd_policies s)\<rparr>"

definition list_policies :: "sd_state \<Rightarrow> policy list" where
  "list_policies s = map snd (sd_policies s)"

definition lookup_conntrack :: "flow_tuple \<Rightarrow> sd_state \<Rightarrow> conntrack_entry option" where
  "lookup_conntrack t s = map_of (sd_conntrack s) t"

definition dump_conntrack :: "sd_state \<Rightarrow> conntrack_entry list" where
  "dump_conntrack s = map snd (sd_conntrack s)"

fun remove_flows :: "flow_tuple list \<Rightarrow> sd_state \<Rightarrow> sd_state" where
  "remove_flows [] s = s"
| "remove_flows (k # ks) s =
     remove_flows ks
       (case map_of (sd_conntrack s) k of None \<Rightarrow> s
        | Some e \<Rightarrow> s\<lparr>sd_conntrack := AList.delete k (sd_conntrack s),
                      sd_reply_index := AList.delete (ct_reply e) (sd_reply_index s)\<rparr>)"

definition flush_conntrack :: "workload_id \<Rightarrow> sd_state \<Rightarrow> sd_state" where
  "flush_conntrack k s =
     (case map_of (sd_endpoints s) k of None \<Rightarrow> s
      | Some ep \<Rightarrow>
          (let addrs = set (wl_addresses ep);
               stale = map ct_original
                 (filter (\<lambda>e. ft_src (ct_original e) \<in> addrs \<or> ft_src (ct_reply e) \<in> addrs) (dump_conntrack s))
           in remove_flows stale s))"

section \<open>Tables as maps\<close>

datatype ('v, 'k) table_op = Upsert 'v | Remove 'k

text \<open>The specification of a table: a finite map from keys to the value last added.\<close>

fun map_run :: "('v \<Rightarrow> 'k) \<Rightarrow> ('v, 'k) table_op list \<Rightarrow> ('k \<Rightarrow> 'v option) \<Rightarrow> 'k \<Rightarrow> 'v option" where
  "map_run key [] m = m"
| "map_run key (Upsert x # ops) m = map_run key ops (m(key x \<mapsto> x))"
| "map_run key (Remove k # ops) m = map_run key ops (m(k := None))"

fun table_run :: "('v \<Rightarrow> 's \<Rightarrow> 's) \<Rightarrow> ('k \<Rightarrow> 's \<Rightarrow> 's) \<Rightarrow> ('v, 'k) table_op list \<Rightarrow> 's \<Rightarrow> 's" where
  "table_run add rem [] s = s"
| "table_run add rem (Upsert x # ops) s = table_run add rem ops (add x s)"
| "table_run add rem (Remove k # ops) s = table_run add rem ops (rem k s)"

text \<open>What a table promises: an upsert by key, a removal by key, and a listing of what is there.\<close>

locale keyed_table =
  fixes key :: "'v \<Rightarrow> 'k" and get :: "'k \<Rightarrow> 's \<Rightarrow> 'v option"
    and add :: "'v \<Rightarrow> 's \<Rightarrow> 's" and rem :: "'k \<Rightarrow> 's \<Rightarrow> 's" and lst :: "'s \<Rightarrow> 'v list" and ok :: "'s \<Rightarrow> bool"
  assumes get_add: "ok s \<Longrightarrow> get k (add x s) = (if k = key x then Some x else get k s)"
    and get_rem: "ok s \<Longrightarrow> get k (rem j s) = (if k = j then None else get k s)"
    and listed: "ok s \<Longrightarrow> distinct (map key (lst s)) \<and> set (lst s) = {x. get (key x) s = Some x}"
    and add_ok: "ok s \<Longrightarrow> ok (add x s)"
    and rem_ok: "ok s \<Longrightarrow> ok (rem j s)"
begin

lemma run_ok: "ok s \<Longrightarrow> ok (table_run add rem ops s)"
proof (induction ops arbitrary: s)
  case (Cons op ops)
  then show ?case by (cases op) (simp_all add: add_ok rem_ok)
qed simp

lemma run_refines: "ok s \<Longrightarrow> (\<lambda>k. get k (table_run add rem ops s)) = map_run key ops (\<lambda>k. get k s)"
proof (induction ops arbitrary: s)
  case (Cons op ops)
  show ?case
  proof (cases op)
    case (Upsert x)
    have "(\<lambda>k. get k (add x s)) = (\<lambda>k. get k s)(key x \<mapsto> x)" using get_add [OF Cons.prems] by auto
    with Cons.IH [OF add_ok [OF Cons.prems]] Upsert show ?thesis by simp
  next
    case (Remove j)
    have "(\<lambda>k. get k (rem j s)) = (\<lambda>k. get k s)(j := None)" using get_rem [OF Cons.prems] by auto
    with Cons.IH [OF rem_ok [OF Cons.prems]] Remove show ?thesis by simp
  qed
qed simp

lemma run_listed:
  "ok s \<Longrightarrow> distinct (map key (lst (table_run add rem ops s))) \<and>
    set (lst (table_run add rem ops s)) = {x. map_run key ops (\<lambda>k. get k s) (key x) = Some x}"
  using listed [OF run_ok, of s ops] fun_cong [OF run_refines [of s ops]] by simp

end

text \<open>An association list whose keys are those of its values.\<close>

definition keys_ok :: "('v \<Rightarrow> 'k) \<Rightarrow> ('k \<times> 'v) list \<Rightarrow> bool" where
  "keys_ok key al \<longleftrightarrow> distinct (map fst al) \<and> (\<forall>(k, v) \<in> set al. key v = k)"

lemma keys_ok_update: "keys_ok key al \<Longrightarrow> keys_ok key (AList.update (key x) x al)"
proof -
  assume ok: "keys_ok key al"
  have "key v = k" if "(k, v) \<in> set (AList.update (key x) x al)" for k v
  proof -
    have "distinct (map fst (AList.update (key x) x al))" using ok by (simp add: keys_ok_def distinct_update)
    with that have "map_of (AList.update (key x) x al) k = Some v" by simp
    then have "k = key x \<and> v = x \<or> map_of al k = Some v" by (auto simp: update_conv' split: if_splits)
    then show ?thesis using ok by (auto simp: keys_ok_def dest: map_of_SomeD)
  qed
  then show ?thesis using ok by (auto simp: keys_ok_def distinct_update)
qed

lemma keys_ok_delete: "keys_ok key al \<Longrightarrow> keys_ok key (AList.delete k al)"
  by (auto simp: keys_ok_def AList.delete_eq distinct_map_filter)

lemma keys_ok_values:
  assumes "keys_ok key al"
  shows "distinct (map key (map snd al)) \<and> set (map snd al) = {x. map_of al (key x) = Some x}"
proof -
  have "map key (map snd al) = map fst al" using assms by (auto simp: keys_ok_def)
  then have "distinct (map key (map snd al))" using assms by (metis keys_ok_def)
  moreover have "x \<in> snd ` set al \<longleftrightarrow> map_of al (key x) = Some x" for x
    using assms by (force simp: keys_ok_def dest: map_of_SomeD)
  ultimately show ?thesis by auto
qed

lemmas table_laws = keys_ok_update keys_ok_delete keys_ok_values [simplified] update_conv' delete_conv'

interpretation node_table: keyed_table node_id "\<lambda>k s. map_of (sd_nodes s) k" add_node remove_node list_nodes "\<lambda>s. keys_ok node_id (sd_nodes s)"
  by unfold_locales (simp_all add: add_node_def remove_node_def list_nodes_def table_laws)

interpretation interface_table: keyed_table if_id "\<lambda>k s. map_of (sd_interfaces s) k" add_interface remove_interface
  list_interfaces "\<lambda>s. keys_ok if_id (sd_interfaces s)"
  by unfold_locales (simp_all add: add_interface_def remove_interface_def list_interfaces_def table_laws)

interpretation endpoint_table: keyed_table wl_id "\<lambda>k s. map_of (sd_endpoints s) k" sd_add_endpoint sd_remove_endpoint
  sd_list_endpoints "\<lambda>s. keys_ok wl_id (sd_endpoints s)"
  by unfold_locales (simp_all add: sd_add_endpoint_def sd_remove_endpoint_def sd_list_endpoints_def table_laws)

interpretation identity_table: keyed_table idn_id "\<lambda>k s. map_of (sd_identities s) k" add_identity remove_identity
  list_identities "\<lambda>s. keys_ok idn_id (sd_identities s)"
  by unfold_locales (simp_all add: add_identity_def remove_identity_def list_identities_def table_laws)

definition tunnel_key :: "tunnel \<Rightarrow> node_id \<times> node_id" where
  "tunnel_key t = (tn_local_node t, tn_remote_node t)"

interpretation tunnel_table: keyed_table tunnel_key "\<lambda>k s. map_of (sd_tunnels s) k" add_tunnel remove_tunnel
  list_tunnels "\<lambda>s. keys_ok tunnel_key (sd_tunnels s)"
  by unfold_locales (simp_all add: add_tunnel_def remove_tunnel_def list_tunnels_def tunnel_key_def [symmetric] table_laws)

interpretation service_table: keyed_table sv_frontend "\<lambda>k s. map_of (sd_services s) k" add_service remove_service
  list_services "\<lambda>s. keys_ok sv_frontend (sd_services s)"
  by unfold_locales (simp_all add: add_service_def remove_service_def list_services_def table_laws)

interpretation policy_table: keyed_table pol_id "\<lambda>k s. map_of (sd_policies s) k" add_policy remove_policy
  list_policies "\<lambda>s. keys_ok pol_id (sd_policies s)"
  by unfold_locales (simp_all add: add_policy_def remove_policy_def list_policies_def table_laws)

section \<open>Routes\<close>

definition route_key :: "route \<Rightarrow> ip_net \<times> next_hop" where
  "route_key r = (rt_destination r, rt_next_hop r)"

definition group_ok :: "ip_net \<Rightarrow> route list \<Rightarrow> bool" where
  "group_ok n g \<longleftrightarrow> g \<noteq> [] \<and> distinct (map rt_next_hop g) \<and> (\<forall>r \<in> set g. rt_destination r = n)"

definition routes_ok :: "(ip_net \<times> route list) list \<Rightarrow> bool" where
  "routes_ok al \<longleftrightarrow> distinct (map fst al) \<and> (\<forall>(n, g) \<in> set al. group_ok n g)"

definition get_route :: "ip_net \<times> next_hop \<Rightarrow> sd_state \<Rightarrow> route option" where
  "get_route k s = (case map_of (sd_routes s) (fst k) of None \<Rightarrow> None | Some g \<Rightarrow> List.find (\<lambda>r. rt_next_hop r = snd k) g)"

definition remove_route_key :: "ip_net \<times> next_hop \<Rightarrow> sd_state \<Rightarrow> sd_state" where
  "remove_route_key k = remove_route (fst k) (snd k)"

lemma upsert_group_set:
  "distinct (map rt_next_hop g) \<Longrightarrow> set (upsert_group r g) = insert r {x \<in> set g. rt_next_hop x \<noteq> rt_next_hop r}"
  by (induction r g rule: upsert_group.induct) (auto simp: image_iff)

lemma upsert_group_distinct: "distinct (map rt_next_hop g) \<Longrightarrow> distinct (map rt_next_hop (upsert_group r g))"
  by (induction r g rule: upsert_group.induct) (auto simp: upsert_group_set)

lemma find_upsert: "List.find (\<lambda>x. rt_next_hop x = h) (upsert_group r g) =
    (if h = rt_next_hop r then Some r else List.find (\<lambda>x. rt_next_hop x = h) g)"
  by (induction r g rule: upsert_group.induct) auto

lemma find_hop_iff:
  "distinct (map rt_next_hop g) \<Longrightarrow> List.find (\<lambda>r. rt_next_hop r = h) g = Some x \<longleftrightarrow> x \<in> set g \<and> rt_next_hop x = h"
  by (induction g) (auto simp: image_iff)

lemma find_hop_None: "List.find (\<lambda>r. rt_next_hop r = h) g = None \<longleftrightarrow> h \<notin> rt_next_hop ` set g"
  by (auto simp: find_None_iff image_iff)

lemma routes_ok_get: "routes_ok al \<Longrightarrow> map_of al n = Some g \<Longrightarrow> group_ok n g"
  unfolding routes_ok_def by (auto dest: map_of_SomeD)

lemma routes_ok_update:
  assumes "routes_ok al" "group_ok n g"
  shows "routes_ok (AList.update n g al)"
proof -
  have d: "distinct (map fst (AList.update n g al))" using assms(1) by (simp add: routes_ok_def distinct_update)
  have "group_ok k v" if "(k, v) \<in> set (AList.update n g al)" for k v
  proof -
    have "map_of (AList.update n g al) k = Some v" using that d by simp
    then have "k = n \<and> v = g \<or> map_of al k = Some v" by (auto simp: update_conv' split: if_splits)
    then show ?thesis using assms routes_ok_get by auto
  qed
  with d show ?thesis by (auto simp: routes_ok_def)
qed

lemma routes_ok_delete: "routes_ok al \<Longrightarrow> routes_ok (AList.delete n al)"
  by (auto simp: routes_ok_def AList.delete_eq distinct_map_filter)

lemma get_route_iff:
  "routes_ok (sd_routes s) \<Longrightarrow> get_route k s = Some r \<longleftrightarrow>
     route_key r = k \<and> (\<exists>g. map_of (sd_routes s) (fst k) = Some g \<and> r \<in> set g)"
  using routes_ok_get [of "sd_routes s" "fst k"]
  by (cases k) (auto simp: get_route_def route_key_def group_ok_def find_hop_iff split: option.splits)

lemma add_route_ok: "routes_ok (sd_routes s) \<Longrightarrow> routes_ok (sd_routes (add_route r s))"
proof -
  assume ok: "routes_ok (sd_routes s)"
  let ?g = "case map_of (sd_routes s) (rt_destination r) of Some g \<Rightarrow> g | None \<Rightarrow> []"
  have d: "distinct (map rt_next_hop ?g)" and m: "\<forall>x \<in> set ?g. rt_destination x = rt_destination r"
    using routes_ok_get [OF ok, of "rt_destination r"]
    by (cases "map_of (sd_routes s) (rt_destination r)"; simp add: group_ok_def)+
  have "upsert_group r ?g \<noteq> []" by (cases ?g) auto
  moreover have "\<forall>x \<in> set (upsert_group r ?g). rt_destination x = rt_destination r"
    unfolding upsert_group_set [OF d] using bspec [OF m] by auto
  ultimately have "group_ok (rt_destination r) (upsert_group r ?g)"
    unfolding group_ok_def using upsert_group_distinct [OF d, of r] by (intro conjI)
  with ok show ?thesis by (simp add: add_route_def Let_def routes_ok_update)
qed

lemma remove_route_ok: "routes_ok (sd_routes s) \<Longrightarrow> routes_ok (sd_routes (remove_route n h s))"
proof -
  assume ok: "routes_ok (sd_routes s)"
  show ?thesis
  proof (cases "map_of (sd_routes s) n")
    case (Some g)
    then have "group_ok n g" using routes_ok_get [OF ok] by simp
    then have "filter (\<lambda>r. rt_next_hop r \<noteq> h) g \<noteq> [] \<Longrightarrow> group_ok n (filter (\<lambda>r. rt_next_hop r \<noteq> h) g)"
      by (auto simp: group_ok_def distinct_map_filter)
    with Some ok show ?thesis by (simp add: remove_route_def Let_def routes_ok_update routes_ok_delete)
  qed (simp add: remove_route_def ok)
qed

lemma get_add_route:
  assumes "routes_ok (sd_routes s)"
  shows "get_route k (add_route r s) = (if k = route_key r then Some r else get_route k s)"
proof -
  let ?g = "case map_of (sd_routes s) (rt_destination r) of Some g \<Rightarrow> g | None \<Rightarrow> []"
  note f = find_upsert [of _ r ?g]
  show ?thesis
    using f by (cases k) (auto simp: get_route_def add_route_def Let_def update_conv' route_key_def split: option.splits)
qed

lemma get_remove_route:
  assumes "routes_ok (sd_routes s)"
  shows "get_route k (remove_route_key j s) = (if k = j then None else get_route k s)"
proof (cases "map_of (sd_routes s) (fst j)")
  case None
  then show ?thesis by (cases k; cases j) (auto simp: get_route_def remove_route_key_def remove_route_def)
next
  case (Some g)
  let ?g = "filter (\<lambda>r. rt_next_hop r \<noteq> snd j) g"
  have f: "List.find (\<lambda>x. rt_next_hop x = h) ?g = (if h = snd j then None else List.find (\<lambda>x. rt_next_hop x = h) g)" for h
    by (induction g) auto
  have "?g = [] \<Longrightarrow> List.find (\<lambda>x. rt_next_hop x = h) g = None" if "h \<noteq> snd j" for h
    using that by (auto simp: find_hop_None filter_empty_conv)
  then show ?thesis using Some f
    by (cases k; cases j) (auto simp: get_route_def remove_route_key_def remove_route_def Let_def update_conv' delete_conv' split: if_splits)
qed

lemma dump_routes_iff:
  assumes "routes_ok (sd_routes s)"
  shows "distinct (map route_key (dump_routes s)) \<and> set (dump_routes s) = {r. get_route (route_key r) s = Some r}"
proof
  have "distinct (map route_key (concat (map snd al)))" if "routes_ok al" for al
    using that
  proof (induction al)
    case (Cons e al)
    obtain n g where e: "e = (n, g)" by fastforce
    have ok: "routes_ok al" "group_ok n g" "n \<notin> fst ` set al" using Cons.prems by (auto simp: routes_ok_def e)
    have k: "map route_key g = map (\<lambda>h. (n, h)) (map rt_next_hop g)" using ok(2) by (auto simp: group_ok_def route_key_def)
    have "distinct (map route_key g)" unfolding k using ok(2) by (auto simp: group_ok_def distinct_map inj_on_def)
    have "fst ` route_key ` set g \<subseteq> {n}" using ok(2) by (auto simp: group_ok_def route_key_def)
    moreover have "n \<notin> fst ` route_key ` set (concat (map snd al))"
      using ok(1,3) by (force simp: routes_ok_def group_ok_def route_key_def)
    ultimately have "route_key ` set g \<inter> route_key ` set (concat (map snd al)) = {}" by blast
    with Cons.IH [OF ok(1)] \<open>distinct (map route_key g)\<close> show ?case by (simp add: e)
  qed simp
  then show "distinct (map route_key (dump_routes s))" using assms by (simp add: dump_routes_def)
  show "set (dump_routes s) = {r. get_route (route_key r) s = Some r}"
  proof (rule set_eqI)
    fix r
    have "r \<in> set (dump_routes s) \<longleftrightarrow> (\<exists>e \<in> set (sd_routes s). r \<in> set (snd e))"
      by (simp add: dump_routes_def)
    also have "\<dots> \<longleftrightarrow> (\<exists>n g. (n, g) \<in> set (sd_routes s) \<and> r \<in> set g)" by (metis prod.exhaust_sel snd_conv)
    also have "\<dots> \<longleftrightarrow> (\<exists>n g. map_of (sd_routes s) n = Some g \<and> r \<in> set g)"
      using assms by (simp add: routes_ok_def map_of_eq_Some_iff)
    also have "\<dots> \<longleftrightarrow> (\<exists>g. map_of (sd_routes s) (rt_destination r) = Some g \<and> r \<in> set g)"
    proof -
      have "n = rt_destination r" if "map_of (sd_routes s) n = Some g" "r \<in> set g" for n g
        using routes_ok_get [OF assms that(1)] that(2) by (simp add: group_ok_def)
      then show ?thesis by metis
    qed
    also have "\<dots> \<longleftrightarrow> get_route (route_key r) s = Some r"
      by (simp add: get_route_iff [OF assms] route_key_def)
    finally show "r \<in> set (dump_routes s) \<longleftrightarrow> r \<in> {r. get_route (route_key r) s = Some r}" by simp
  qed
qed

interpretation route_table: keyed_table route_key get_route add_route remove_route_key dump_routes "\<lambda>s. routes_ok (sd_routes s)"
  by unfold_locales
    (simp_all add: get_add_route get_remove_route dump_routes_iff add_route_ok remove_route_key_def [abs_def] remove_route_ok
      get_remove_route [unfolded remove_route_key_def])

section \<open>Route selection\<close>

definition best_of :: "ipnet_lib \<Rightarrow> ip_addr \<Rightarrow> (ip_net \<times> route list) set \<Rightarrow> (nat \<times> route list) option \<Rightarrow> bool" where
  "best_of L dst E best \<longleftrightarrow>
     (case best of None \<Rightarrow> \<forall>(n, g) \<in> E. \<not> lib_contains L n dst
      | Some (b, g) \<Rightarrow> (\<exists>n. (n, g) \<in> E \<and> lib_contains L n dst \<and> prefix_len n = b) \<and>
          (\<forall>(n, _) \<in> E. lib_contains L n dst \<longrightarrow> prefix_len n \<le> b))"

lemma best_group_step: "best_of L dst E best \<Longrightarrow> best_of L dst (insert e E) (best_group L dst e best)"
  by (cases e; cases best) (auto simp: best_of_def best_group_def intro: order.strict_implies_order dest: order.strict_trans1)

lemma best_group_fold: "best_of L dst E best \<Longrightarrow> best_of L dst (E \<union> set al) (fold (best_group L dst) al best)"
proof (induction al arbitrary: E best)
  case (Cons e al)
  from Cons.IH [OF best_group_step [OF Cons.prems]] show ?case by simp
qed simp

lemma pick_route_member: "pick_route t g = Some r \<Longrightarrow> r \<in> set g"
  by (induction g arbitrary: t) (auto split: if_splits)

lemma select_route_member: "g \<noteq> [] \<Longrightarrow> \<exists>r \<in> set g. select_route hash g flow = Some r"
  by (auto simp: select_route_def Let_def dest: pick_route_member split: option.splits)

lemma lookup_route_correct:
  assumes "routes_ok (sd_routes s)"
  shows "case lookup_route L hash (sd_routes s) dst flow of
      None \<Rightarrow> \<forall>r \<in> set (dump_routes s). \<not> lib_contains L (rt_destination r) dst
    | Some r \<Rightarrow> r \<in> set (dump_routes s) \<and> lib_contains L (rt_destination r) dst \<and>
        (\<forall>r' \<in> set (dump_routes s). lib_contains L (rt_destination r') dst \<longrightarrow>
           prefix_len (rt_destination r') \<le> prefix_len (rt_destination r))"
proof -
  let ?b = "fold (best_group L dst) (sd_routes s) None"
  have b: "best_of L dst (set (sd_routes s)) ?b"
    using best_group_fold [of L dst "{}" None "sd_routes s"] by (simp add: best_of_def)
  have grp: "group_ok n g" if "(n, g) \<in> set (sd_routes s)" for n g using that assms by (auto simp: routes_ok_def)
  have dest: "\<exists>g. (rt_destination r, g) \<in> set (sd_routes s) \<and> r \<in> set g" if "r \<in> set (dump_routes s)" for r
  proof -
    from that obtain e where "e \<in> set (sd_routes s)" "r \<in> set (snd e)" unfolding dump_routes_def by fastforce
    then obtain n g where "(n, g) \<in> set (sd_routes s)" "r \<in> set g" by (metis prod.collapse)
    with grp [of n g] show ?thesis by (auto simp: group_ok_def)
  qed
  show ?thesis
  proof (cases ?b)
    case None
    then show ?thesis using b dest by (fastforce simp: lookup_route_def best_of_def)
  next
    case (Some p)
    obtain l g where p: "p = (l, g)" by fastforce
    obtain n where n: "(n, g) \<in> set (sd_routes s)" "lib_contains L n dst" "prefix_len n = l"
      and mx: "\<And>n' g'. (n', g') \<in> set (sd_routes s) \<Longrightarrow> lib_contains L n' dst \<Longrightarrow> prefix_len n' \<le> l"
      using b Some p by (auto simp: best_of_def)
    have g: "group_ok n g" by (rule grp [OF n(1)])
    then obtain r where r: "r \<in> set g" "select_route hash g flow = Some r"
      using select_route_member [of g hash flow] by (auto simp: group_ok_def)
    have "rt_destination r = n" using g r(1) by (simp add: group_ok_def)
    moreover have "r \<in> set (dump_routes s)" using n(1) r(1) by (force simp: dump_routes_def)
    moreover have "prefix_len (rt_destination r') \<le> l"
      if "r' \<in> set (dump_routes s)" "lib_contains L (rt_destination r') dst" for r'
      using dest [OF that(1)] mx that(2) by blast
    ultimately show ?thesis using Some p r(2) n by (simp add: lookup_route_def)
  qed
qed

text \<open>The weighted choice, on natural numbers.\<close>

definition weight_nat :: "route \<Rightarrow> nat" where
  "weight_nat r = max (unat (rt_weight r)) 1"

fun pick_nat :: "nat \<Rightarrow> route list \<Rightarrow> route option" where
  "pick_nat t [] = None"
| "pick_nat t (r # rs) = (if t < weight_nat r then Some r else pick_nat (t - weight_nat r) rs)"

lemma unat_route_weight: "unat (route_weight r) = weight_nat r"
  by (auto simp: route_weight_def weight_nat_def unat_ucast_up max_def word_le_nat_alt)

lemma weight_nat_bounds: "0 < weight_nat r" "weight_nat r \<le> 255"
  using unat_byte [of "rt_weight r"] by (auto simp: weight_nat_def)

lemma pick_route_nat: "pick_route t rs = pick_nat (unat t) rs"
proof (induction rs arbitrary: t)
  case (Cons r rs)
  show ?case
  proof (cases "t < route_weight r")
    case False
    then have "unat (t - route_weight r) = unat t - weight_nat r"
      using unat_sub [of "route_weight r" t] by (simp add: unat_route_weight not_less)
    with False Cons show ?thesis by (simp add: word_less_nat_alt unat_route_weight)
  qed (simp add: word_less_nat_alt unat_route_weight)
qed simp

lemma pick_nat_total: "t < sum_list (map weight_nat rs) \<Longrightarrow> \<exists>r \<in> set rs. pick_nat t rs = Some r"
  by (induction rs arbitrary: t) auto

lemma pick_nat_member: "pick_nat t rs = Some r \<Longrightarrow> r \<in> set rs \<and> t < sum_list (map weight_nat rs)"
  by (induction rs arbitrary: t) (fastforce split: if_splits)+

lemma pick_nat_share:
  "distinct rs \<Longrightarrow> r \<in> set rs \<Longrightarrow> card {t. pick_nat t rs = Some r} = weight_nat r \<and> finite {t. pick_nat t rs = Some r}"
proof (induction rs)
  case (Cons x rs)
  show ?case
  proof (cases "r = x")
    case True
    then have "{t. pick_nat t (x # rs) = Some r} = {..<weight_nat r}"
      using Cons.prems pick_nat_member by (auto split: if_splits)
    then show ?thesis by simp
  next
    case False
    then have "{t. pick_nat t (x # rs) = Some r} = (\<lambda>t. t + weight_nat x) ` {t. pick_nat t rs = Some r}"
      by (auto split: if_splits intro!: image_eqI [of _ "\<lambda>t. t + weight_nat x"])
    with Cons False show ?thesis by (simp add: card_image inj_on_def)
  qed
qed simp

lemma unat_total_weight:
  assumes "length rs \<le> 65536"
  shows "unat (sum_list (map route_weight rs)) = sum_list (map weight_nat rs) \<and> sum_list (map weight_nat rs) \<le> 255 * length rs"
  using assms
proof (induction rs)
  case (Cons r rs)
  then show ?case
    using weight_nat_bounds [of r] by (simp add: unat_word_ariths unat_route_weight)
qed simp

lemma select_route_nat:
  assumes "g \<noteq> []" "length g \<le> 65536"
  shows "select_route hash g flow = pick_nat (unat (hash flow) mod sum_list (map weight_nat g)) g"
proof -
  let ?w = "sum_list (map weight_nat g)"
  note u = unat_total_weight [OF assms(2)]
  have pos: "0 < ?w" using assms(1) weight_nat_bounds by (cases g) auto
  have w: "?w < 2 ^ 32" using u assms(2) by simp
  have "unat (ucast (sum_list (map route_weight g)) :: u64) = ?w" using u w by (simp add: unat_ucast_up)
  then have "unat (hash flow mod ucast (sum_list (map route_weight g))) = unat (hash flow) mod ?w"
    by (simp add: unat_mod_distrib)
  moreover have "unat (hash flow) mod ?w < 2 ^ 32" using w pos by (meson le_less_trans mod_less_divisor less_imp_le)
  ultimately have t: "unat (ucast (hash flow mod ucast (sum_list (map route_weight g))) :: u32) = unat (hash flow) mod ?w"
    by (simp add: unat_ucast_down)
  obtain r where "pick_nat (unat (hash flow) mod ?w) g = Some r" using pick_nat_total [of "unat (hash flow) mod ?w" g] pos by auto
  then show ?thesis using assms(1) by (simp add: select_route_def Let_def pick_route_nat t)
qed

section \<open>Translation\<close>

text \<open>Every hardware address has six bytes, which its type in the source guarantees.\<close>

definition macs_ok :: "sd_state \<Rightarrow> bool" where
  "macs_ok s \<longleftrightarrow> (\<forall>(_, i) \<in> set (sd_interfaces s). \<forall>m. if_mac i = Some m \<longrightarrow> mac_wf m)"

lemma forward_total:
  assumes "macs_ok s"
  shows "\<exists>d. forward L hash n s f = Some d"
proof (cases "parse_ipv4 f")
  case (Some i)
  have l: "34 \<le> length f" by (rule parse_ipv4_SomeD(1) [OF Some])
  have w: "write_at 0 (mac_bytes m) f \<noteq> None" if "map_of (sd_interfaces s) k = Some x" "if_mac x = Some m" for k x m
  proof -
    have "mac_wf m" using map_of_SomeD [OF that(1)] that(2) assms unfolding macs_ok_def by blast
    with l show ?thesis by (simp add: mac_wf_def write_at_def)
  qed
  show ?thesis
    using Some w by (auto simp: forward_def Let_def split: option.splits next_hop.splits tunnel_kind.splits)
qed (simp add: forward_def)

lemma l4_proto: "complete_l4 f i \<Longrightarrow> \<exists>proto. ip_proto_from_byte (protocol i) = Some proto \<and> (proto = Tcp \<or> proto = Udp)"
  by (auto simp: complete_l4_def ip_proto_from_byte_def)

lemma complete_ports: "complete_l4 f i \<Longrightarrow> parse_ipv4 f = Some i \<Longrightarrow> \<exists>p q. parse_ports f (14 + ihl i) = Some (p, q)"
  by (auto simp: complete_l4_def parse_ports_def l4_checksum_at_def split: if_splits)

text \<open>The flow of a rewritten frame.\<close>

lemma flow_of_rewritten:
  assumes "parse_ipv4 f = Some i" "complete_l4 f i" "proto = Tcp \<or> proto = Udp" "rewritten f i s d sp dp g"
  shows "flow_of proto g (i\<lparr>ip_src := or_old s (ip_src i), ip_dst := or_old d (ip_dst i)\<rparr>) =
    (flow_of proto f i)\<lparr>ft_src := V4 (or_old s (ip_src i)), ft_src_port := or_old sp (ft_src_port (flow_of proto f i)),
      ft_dst := V4 (or_old d (ip_dst i)), ft_dst_port := or_old dp (ft_dst_port (flow_of proto f i))\<rparr>"
proof -
  obtain p q where pq: "parse_ports f (14 + ihl i) = Some (p, q)" using complete_ports [OF assms(2,1)] by blast
  then have "parse_ports g (14 + ihl i) = Some (or_old sp p, or_old dp q)" using assms(4) by (simp add: rewritten_def)
  with pq assms(3) show ?thesis by (cases sp; cases dp) (auto simp: flow_of_def ETH_HDR_LEN_def)
qed

definition frontend_of :: "flow_tuple \<Rightarrow> service_frontend" where
  "frontend_of t = \<lparr>sf_address = ft_dst t, sf_port = ft_dst_port t, sf_protocol = ft_protocol t\<rparr>"

definition reply_of :: "u32 \<Rightarrow> u16 \<Rightarrow> flow_tuple \<Rightarrow> flow_tuple" where
  "reply_of addr port t = \<lparr>ft_src = V4 addr, ft_src_port = port, ft_dst = ft_src t, ft_dst_port = ft_src_port t,
     ft_protocol = ft_protocol t\<rparr>"

definition tracked :: "nat \<Rightarrow> u32 \<Rightarrow> u16 \<Rightarrow> flow_tuple \<Rightarrow> sd_state \<Rightarrow> sd_state" where
  "tracked now addr port t s =
     s\<lparr>sd_conntrack := AList.update t \<lparr>ct_original = t, ct_reply = reply_of addr port t, ct_state = NewConn, ct_last_seen = now\<rparr> (sd_conntrack s),
       sd_reply_index := AList.update (reply_of addr port t) t (sd_reply_index s)\<rparr>"

lemma flow_of_fields [simp]:
  "ft_src (flow_of proto f i) = V4 (ip_src i)" "ft_dst (flow_of proto f i) = V4 (ip_dst i)"
  "ft_protocol (flow_of proto f i) = proto"
  by (simp_all add: flow_of_def split: prod.split)

text \<open>Where a frame goes by the next hop of its route: out of a local interface, with the interface's
  hardware address as its destination if it has one, or whole into the tunnel to a remote node.
  A gateway, a black hole and a node without a tunnel take nothing.\<close>

fun usable_hop :: "node_id \<Rightarrow> sd_state \<Rightarrow> next_hop \<Rightarrow> bool" where
  "usable_hop n s (LocalHop i) = True"
| "usable_hop n s (RemoteHop m) = (map_of (sd_tunnels s) (n, m) \<noteq> None)"
| "usable_hop n s _ = False"

fun sent_to :: "node_id \<Rightarrow> sd_state \<Rightarrow> next_hop \<Rightarrow> u8 list \<Rightarrow> decision \<Rightarrow> bool" where
  "sent_to n s (LocalHop i) g d = (\<exists>out. d = Deliver i out \<and> length out = length g \<and> drop 6 out = drop 6 g \<and>
     take 6 out = (case map_of (sd_interfaces s) i of
       Some x \<Rightarrow> (case if_mac x of Some m \<Rightarrow> mac_bytes m | None \<Rightarrow> take 6 g) | None \<Rightarrow> take 6 g))"
| "sent_to n s (RemoteHop m) g d = (\<exists>tn vni. map_of (sd_tunnels s) (n, m) = Some tn \<and> tn_kind tn = Vxlan vni \<and>
     d = Encapsulate (tn_remote_address tn) vni g)"
| "sent_to n s _ g d = False"

lemma forward_sends:
  assumes "macs_ok s" "parse_ipv4 g = Some j" "ip_proto_from_byte (protocol j) = Some proto"
    "lookup_route L hash (sd_routes s) (V4 (ip_dst j)) (flow_of proto g j) = Some r" "usable_hop n s (rt_next_hop r)"
    "forward L hash n s g = Some d"
  shows "sent_to n s (rt_next_hop r) g d"
proof (cases "rt_next_hop r")
  case (LocalHop i)
  have l: "34 \<le> length g" by (rule parse_ipv4_SomeD(1) [OF assms(2)])
  have "mac_wf m" if "map_of (sd_interfaces s) i = Some x" "if_mac x = Some m" for x m
    using map_of_SomeD [OF that(1)] that(2) assms(1) unfolding macs_ok_def by blast
  then show ?thesis using assms(2-6) LocalHop l
    by (auto simp: forward_def Let_def write_at_def put_def mac_wf_def split: option.splits)
next
  case (RemoteHop m)
  then show ?thesis using assms(2-6)
    by (cases "tn_kind (the (map_of (sd_tunnels s) (n, m)))") (auto simp: forward_def Let_def split: tunnel_kind.splits)
qed (use assms(5) in simp_all)

text \<open>The first packet of a flow to a service.\<close>

lemma decide_service:
  assumes "parse_ipv4 f = Some i" "complete_l4 f i" "ip_proto_from_byte (protocol i) = Some proto" "macs_ok s"
    "flow_of proto f i = t" "map_of (sd_reply_index s) t = None"
    "map_of (sd_services s) (frontend_of t) = Some svc" "select_backend hash (sv_backends svc) t = Some b"
    "sb_nat b = NatDestination (V4 addr) port" "bp = or_old port (sb_port b)"
  shows "\<exists>g d. rewritten f i None (Some addr) None (Some bp) g \<and>
    forward L hash n (tracked now addr bp t s) g = Some d \<and>
    decide L hash now n s f = Some (d, tracked now addr bp t s)"
proof -
  obtain g where g: "rewrite_ipv4 f (ihl i) None (Some addr) None (Some bp) = Some g" "rewritten f i None (Some addr) None (Some bp) g"
    using rewrite_ipv4_rewritten [OF assms(1,2)] by blast
  have "macs_ok (tracked now addr bp t s)" using assms(4) by (simp add: macs_ok_def tracked_def)
  then obtain d where d: "forward L hash n (tracked now addr bp t s) g = Some d" using forward_total by blast
  have t: "ft_dst t = V4 (ip_dst i)" "ft_protocol t = proto" using assms(5) by auto
  have "decide L hash now n s f = Some (d, tracked now addr bp t s)"
    using assms(6-9) g(1) d
    by (simp add: decide_def assms(1,3,5,10) Let_def frontend_of_def t tracked_def reply_of_def)
  with g(2) d show ?thesis by blast
qed

text \<open>A packet of the reply direction.\<close>

lemma decide_reply:
  assumes "parse_ipv4 f = Some i" "complete_l4 f i" "ip_proto_from_byte (protocol i) = Some proto" "macs_ok s"
    "map_of (sd_reply_index s) (flow_of proto f i) = Some t" "map_of (sd_conntrack s) t = Some e"
    "ft_dst (ct_original e) = V4 addr"
    and s'_def: "s' = s\<lparr>sd_conntrack := AList.update t (e\<lparr>ct_last_seen := now,
    ct_state := (if ct_state e = NewConn then Established else ct_state e)\<rparr>) (sd_conntrack s)\<rparr>"
  shows "\<exists>g d. rewritten f i (Some addr) None (Some (ft_dst_port (ct_original e))) None g \<and>
    forward L hash n s' g = Some d \<and> decide L hash now n s f = Some (d, s')"
proof -
  obtain g where g: "rewrite_ipv4 f (ihl i) (Some addr) None (Some (ft_dst_port (ct_original e))) None = Some g"
    "rewritten f i (Some addr) None (Some (ft_dst_port (ct_original e))) None g"
    using rewrite_ipv4_rewritten [OF assms(1,2)] by blast
  have "macs_ok s'" using assms(4) by (simp add: macs_ok_def s'_def)
  then obtain d where d: "forward L hash n s' g = Some d" using forward_total by blast
  have "decide L hash now n s f = Some (d, s')"
    using assms(5-7) g(1) d by (simp add: decide_def assms(1,3) Let_def s'_def)
  with g(2) d show ?thesis by blast
qed

lemma tracked_simps [simp]:
  "map_of (sd_conntrack (tracked now a p t s)) t = Some \<lparr>ct_original = t, ct_reply = reply_of a p t, ct_state = NewConn, ct_last_seen = now\<rparr>"
  "map_of (sd_reply_index (tracked now a p t s)) k = (if k = reply_of a p t then Some t else map_of (sd_reply_index s) k)"
  "sd_services (tracked now a p t s) = sd_services s" "sd_interfaces (tracked now a p t s) = sd_interfaces s"
  "sd_routes (tracked now a p t s) = sd_routes s" "sd_tunnels (tracked now a p t s) = sd_tunnels s"
  by (simp_all add: tracked_def update_conv')

section \<open>Connection tracking\<close>

definition conntrack_ok :: "sd_state \<Rightarrow> bool" where
  "conntrack_ok s \<longleftrightarrow> keys_ok ct_original (sd_conntrack s)"

lemma bind_Some_cases: "x \<bind> f = Some y \<Longrightarrow> \<exists>a. x = Some a \<and> f a = Some y"
  by (cases x) auto

lemma decide_keeps_conntrack:
  assumes "conntrack_ok s" "decide L hash now n s f = Some (d, s')"
  shows "conntrack_ok s'"
proof -
  have up: "keys_ok ct_original (AList.update (ct_original e) e (sd_conntrack s))" for e
    by (rule keys_ok_update [OF assms(1) [unfolded conntrack_ok_def]])
  have key: "ct_original e = k" if "map_of (sd_conntrack s) k = Some e" for k e
    using map_of_SomeD [OF that] assms(1) unfolding conntrack_ok_def keys_ok_def by blast
  have old: "keys_ok ct_original (AList.update k (e\<lparr>ct_last_seen := now, ct_state := c\<rparr>) (sd_conntrack s))"
    if "map_of (sd_conntrack s) k = Some e" for k e c
    using up [of "e\<lparr>ct_last_seen := now, ct_state := c\<rparr>"] key [OF that] by simp
  have new: "keys_ok ct_original (AList.update k \<lparr>ct_original = k, ct_reply = r, ct_state = c, ct_last_seen = now\<rparr> (sd_conntrack s))" for k r c
    using up [of "\<lparr>ct_original = k, ct_reply = r, ct_state = c, ct_last_seen = now\<rparr>"] by simp
  show ?thesis
    using assms(2) assms(1) old new unfolding decide_def conntrack_ok_def Let_def
    by (auto split: option.splits ip_addr.splits nat_kind.splits dest!: bind_Some_cases)
qed

lemma remove_flows_effect:
  "map_of (sd_conntrack (remove_flows ks s)) k = (if k \<in> set ks then None else map_of (sd_conntrack s) k)"
  by (induction ks s rule: remove_flows.induct) (auto simp: delete_conv' split: option.splits)

section \<open>Properties\<close>

text \<open>The tables are maps. After any upserts and removals, the routes listed are exactly those
  last added under their destination and next hop and not removed since, each once; the same holds
  for services by frontend, tunnels by node pair and interfaces by id.\<close>

lemma tables_are_maps:
  "(let s = table_run add_route remove_route_key rops sd_default
    in distinct (map route_key (dump_routes s)) \<and> set (dump_routes s) = {r. map_run route_key rops Map.empty (route_key r) = Some r}) \<and>
   (let s = table_run add_service remove_service sops sd_default
    in distinct (map sv_frontend (list_services s)) \<and> set (list_services s) = {x. map_run sv_frontend sops Map.empty (sv_frontend x) = Some x}) \<and>
   (let s = table_run add_tunnel remove_tunnel tops sd_default
    in distinct (map tunnel_key (list_tunnels s)) \<and> set (list_tunnels s) = {x. map_run tunnel_key tops Map.empty (tunnel_key x) = Some x}) \<and>
   (let s = table_run add_interface remove_interface iops sd_default
    in distinct (map if_id (list_interfaces s)) \<and> set (list_interfaces s) = {x. map_run if_id iops Map.empty (if_id x) = Some x})"
proof -
  have e: "get_route k sd_default = None" for k by (simp add: get_route_def sd_default_def)
  have m: "(\<lambda>k. get_route k sd_default) = Map.empty" "(\<lambda>k. map_of (sd_services sd_default) k) = Map.empty"
    "(\<lambda>k. map_of (sd_tunnels sd_default) k) = Map.empty" "(\<lambda>k. map_of (sd_interfaces sd_default) k) = Map.empty"
    using e by (simp_all add: sd_default_def)
  have ok: "routes_ok (sd_routes sd_default)" "keys_ok sv_frontend (sd_services sd_default)"
    "keys_ok tunnel_key (sd_tunnels sd_default)" "keys_ok if_id (sd_interfaces sd_default)"
    by (simp_all add: routes_ok_def keys_ok_def sd_default_def)
  show ?thesis
    unfolding Let_def
    by (intro conjI route_table.run_listed [OF ok(1), unfolded m, THEN conjunct1] route_table.run_listed [OF ok(1), unfolded m, THEN conjunct2]
      service_table.run_listed [OF ok(2), unfolded m, THEN conjunct1] service_table.run_listed [OF ok(2), unfolded m, THEN conjunct2]
      tunnel_table.run_listed [OF ok(3), unfolded m, THEN conjunct1] tunnel_table.run_listed [OF ok(3), unfolded m, THEN conjunct2]
      interface_table.run_listed [OF ok(4), unfolded m, THEN conjunct1] interface_table.run_listed [OF ok(4), unfolded m, THEN conjunct2])
qed

text \<open>C25: longest prefix match. After any route updates, a lookup returns a route of the table whose
  network holds the destination, and no route of the table that holds it has a longer prefix; it
  returns nothing only when no route holds the destination, whatever the hash of the flow and the
  order of the table.\<close>

theorem longest_prefix_match:
  "let s = table_run add_route remove_route_key ops sd_default
   in case lookup_route L hash (sd_routes s) dst flow of
      None \<Rightarrow> \<not> (\<exists>r. r \<in> set (dump_routes s) \<and> lib_contains L (rt_destination r) dst)
    | Some r \<Rightarrow> r \<in> set (dump_routes s) \<and> lib_contains L (rt_destination r) dst \<and>
        \<not> (\<exists>r'. r' \<in> set (dump_routes s) \<and> lib_contains L (rt_destination r') dst \<and>
           prefix_len (rt_destination r) < prefix_len (rt_destination r'))"
proof -
  let ?s = "table_run add_route remove_route_key ops sd_default"
  have "routes_ok (sd_routes ?s)"
    by (rule route_table.run_ok) (simp add: routes_ok_def sd_default_def)
  note c = lookup_route_correct [OF this, where L = L and hash = hash and dst = dst and flow = flow]
  show ?thesis
    using c unfolding Let_def by (cases "lookup_route L hash (sd_routes ?s) dst flow") (auto simp: not_less)
qed

text \<open>Equal-cost routes share the traffic by weight. Of the hash values below the total weight of
  a group, as many select a route as its weight says (a weight of zero counts as one).\<close>

lemma ecmp_shares_by_weight:
  assumes "distinct g" "r \<in> set g" "length g \<le> 65536"
  shows "card {h. h < sum_list (map weight_nat g) \<and> select_route (\<lambda>_. of_nat h) g flow = Some r} = max (unat (rt_weight r)) 1"
proof -
  let ?w = "sum_list (map weight_nat g)"
  have ne: "g \<noteq> []" using assms(2) by auto
  have "?w \<le> 255 * 65536" using unat_total_weight [OF assms(3)] assms(3) by (meson le_trans mult_le_mono2)
  then have "unat (of_nat h :: u64) mod ?w = h" if "h < ?w" for h using that by (simp add: unat_of_nat)
  then have "{h. h < ?w \<and> select_route (\<lambda>_. of_nat h) g flow = Some r} = {h. h < ?w \<and> pick_nat h g = Some r}"
    by (auto simp: select_route_nat [OF ne assms(3)])
  also have "\<dots> = {h. pick_nat h g = Some r}" using pick_nat_member by blast
  finally show ?thesis using pick_nat_share [OF assms(1,2)] by (simp add: weight_nat_def)
qed

definition client_flow :: flow_tuple where
  "client_flow = \<lparr>ft_src = V4 0x0A000001, ft_src_port = 7, ft_dst = V4 0x0A000002, ft_dst_port = 80, ft_protocol = Udp\<rparr>"

definition sample_route :: "u32 \<Rightarrow> u8 \<Rightarrow> route" where
  "sample_route i w = \<lparr>rt_destination = NetV4 0 0, rt_next_hop = LocalHop i, rt_weight = w\<rparr>"

lemma ecmp_shares_by_weight_witness:
  "card {h. h < 4 \<and> select_route (\<lambda>_. of_nat h) [sample_route 1 3, sample_route 2 0] client_flow = Some (sample_route 1 3)} = 3"
  using ecmp_shares_by_weight [of "[sample_route 1 3, sample_route 2 0]" "sample_route 1 3" client_flow]
  by (simp add: sample_route_def weight_nat_def)

definition udp_frame :: "u8 \<Rightarrow> u8 \<Rightarrow> u8 \<Rightarrow> u8 \<Rightarrow> u8 list" where
  "udp_frame src sport dst dport = replicate 12 2 @ [8, 0] @
     [0x45, 0, 0, 30, 0, 0, 0, 0, 64, 17, 0, 0, 10, 0, 0, src, 10, 0, 0, dst] @ [0, sport, 0, dport, 0, 10, 0, 0, 1, 2]"

definition udp_info :: "u32 \<Rightarrow> u32 \<Rightarrow> ipv4_info" where
  "udp_info src dst = \<lparr>ihl = 20, protocol = 17, ip_src = src, ip_dst = dst\<rparr>"

definition sample_backend :: service_backend where
  "sample_backend = \<lparr>sb_endpoint = 1, sb_port = 81, sb_nat = NatDestination (V4 0x0A000003) None\<rparr>"

definition sample_service :: service where
  "sample_service = \<lparr>sv_frontend = frontend_of client_flow, sv_backends = [sample_backend]\<rparr>"

definition sample_sd :: sd_state where
  "sample_sd = add_service sample_service sd_default"

lemma sample_frames:
  "parse_ipv4 (udp_frame 1 7 2 80) = Some (udp_info 0x0A000001 0x0A000002)" "complete_l4 (udp_frame 1 7 2 80) (udp_info 0x0A000001 0x0A000002)"
  "flow_of Udp (udp_frame 1 7 2 80) (udp_info 0x0A000001 0x0A000002) = client_flow"
  "parse_ipv4 (udp_frame 3 81 1 7) = Some (udp_info 0x0A000003 0x0A000001)" "complete_l4 (udp_frame 3 81 1 7) (udp_info 0x0A000003 0x0A000001)"
  "flow_of Udp (udp_frame 3 81 1 7) (udp_info 0x0A000003 0x0A000001) = reply_of 0x0A000003 81 client_flow"
  by code_simp+

lemma sample_service_facts:
  "macs_ok sample_sd" "map_of (sd_reply_index sample_sd) client_flow = None"
  "map_of (sd_services sample_sd) (frontend_of client_flow) = Some sample_service"
  "select_backend (\<lambda>_. 0) (sv_backends sample_service) client_flow = Some sample_backend"
  "sb_nat sample_backend = NatDestination (V4 0x0A000003) None" "sb_port sample_backend = 81"
  "ip_proto_from_byte (protocol (udp_info a c)) = Some Udp"
  by (simp_all add: sample_sd_def add_service_def sd_default_def macs_ok_def sample_service_def select_backend_def
      sample_backend_def udp_info_def ip_proto_from_byte_def)

text \<open>A rewritten frame is sent by the route of its new flow.\<close>

lemma same_hops:
  "sd_interfaces s' = sd_interfaces s \<Longrightarrow> sd_tunnels s' = sd_tunnels s \<Longrightarrow>
     macs_ok s' = macs_ok s \<and> usable_hop n s' h = usable_hop n s h \<and> sent_to n s' h g d = sent_to n s h g d"
  by (cases h) (simp_all add: macs_ok_def)

lemma rewritten_sent:
  assumes "macs_ok s" "parse_ipv4 f = Some i" "complete_l4 f i" "ip_proto_from_byte (protocol i) = Some proto"
    "rewritten f i sr ds sp dp g" "flow_of proto f i = t"
    "t' = t\<lparr>ft_src := V4 (or_old sr (ip_src i)), ft_src_port := or_old sp (ft_src_port t),
       ft_dst := V4 (or_old ds (ip_dst i)), ft_dst_port := or_old dp (ft_dst_port t)\<rparr>"
    "lookup_route L hash (sd_routes s) (ft_dst t') t' = Some r" "usable_hop n s (rt_next_hop r)"
    "forward L hash n s' g = Some d"
    "sd_interfaces s' = sd_interfaces s" "sd_tunnels s' = sd_tunnels s" "sd_routes s' = sd_routes s"
  shows "sent_to n s (rt_next_hop r) g d"
proof -
  let ?j = "i\<lparr>ip_src := or_old sr (ip_src i), ip_dst := or_old ds (ip_dst i)\<rparr>"
  have p: "proto = Tcp \<or> proto = Udp" using l4_proto [OF assms(3)] assms(4) by auto
  have j: "parse_ipv4 g = Some ?j" using assms(5) by (simp add: rewritten_def)
  have fl: "flow_of proto g ?j = t'" unfolding assms(7) assms(6) [symmetric] by (rule flow_of_rewritten [OF assms(2,3) p assms(5)])
  note h = same_hops [OF assms(11,12)]
  have "sent_to n s' (rt_next_hop r) g d"
    using assms(1,4,7-10,13) h fl by (intro forward_sends [OF _ j, of s' proto L hash r n d]) simp_all
  then show ?thesis using h by simp
qed

text \<open>C24: a service is transparent to its clients. Where a route with a usable hop leads to the chosen backend and
  one back to the client, a complete packet to a frontend is sent out by the first, with the address
  and port of the backend as its destination, and a complete packet that the backend sends back is sent out by
  the second, with the address and port of the frontend as its source, so the client sees answers from
  where it sent its packet. Both packets keep every other byte up to the link-layer destination, their
  checksums are right, and the connection is tracked as new after the first and as established after the second.\<close>

theorem service_nat_roundtrip:
  assumes "macs_ok s"
    "parse_ipv4 f = Some i" "complete_l4 f i" "ip_proto_from_byte (protocol i) = Some proto" "flow_of proto f i = t"
    "map_of (sd_reply_index s) t = None" "map_of (sd_services s) (frontend_of t) = Some svc"
    "select_backend hash (sv_backends svc) t = Some b" "sb_nat b = NatDestination (V4 addr) port"
    "bp = or_old port (sb_port b)"
    "lookup_route L hash (sd_routes s) (V4 addr) (t\<lparr>ft_dst := V4 addr, ft_dst_port := bp\<rparr>) = Some r" "usable_hop n s (rt_next_hop r)"
    "parse_ipv4 f2 = Some i2" "complete_l4 f2 i2" "protocol i2 = protocol i" "flow_of proto f2 i2 = reply_of addr bp t"
    "lookup_route L hash (sd_routes s) (ft_src t) (reply_of addr bp t\<lparr>ft_src := ft_dst t, ft_src_port := ft_dst_port t\<rparr>) = Some r2"
    "usable_hop n s (rt_next_hop r2)"
  shows "\<exists>g d s1 g2 d2 s2.
    decide L hash now n s f = Some (d, s1) \<and> sent_to n s (rt_next_hop r) g d \<and>
    rewritten f i None (Some addr) None (Some bp) g \<and>
    map_option ct_state (lookup_conntrack t s1) = Some NewConn \<and>
    decide L hash now2 n s1 f2 = Some (d2, s2) \<and> sent_to n s (rt_next_hop r2) g2 d2 \<and>
    rewritten f2 i2 (Some (ip_dst i)) None (Some (ft_dst_port t)) None g2 \<and>
    map_option ct_state (lookup_conntrack t s2) = Some Established"
proof -
  let ?s1 = "tracked now addr bp t s"
  obtain g d where 1: "rewritten f i None (Some addr) None (Some bp) g" "forward L hash n ?s1 g = Some d"
    "decide L hash now n s f = Some (d, ?s1)"
    using decide_service [OF assms(2-4) assms(1) assms(5-10)] by blast
  define s2 where "s2 = ?s1\<lparr>sd_conntrack := AList.update t (\<lparr>ct_original = t, ct_reply = reply_of addr bp t, ct_state = NewConn, ct_last_seen = now\<rparr>
    \<lparr>ct_last_seen := now2, ct_state := Established\<rparr>) (sd_conntrack ?s1)\<rparr>"
  have p2: "ip_proto_from_byte (protocol i2) = Some proto" using assms(4,15) by simp
  have dst: "ft_dst t = V4 (ip_dst i)" "ft_src t = V4 (ip_src i)" using assms(5) by auto
  have "\<exists>g2 d2. rewritten f2 i2 (Some (ip_dst i)) None (Some (ft_dst_port t)) None g2 \<and> forward L hash n s2 g2 = Some d2 \<and>
      decide L hash now2 n ?s1 f2 = Some (d2, s2)"
    using decide_reply [OF assms(13,14) p2, of ?s1 t _ "ip_dst i" s2 now2 L hash n] assms(1,16) dst(1)
    by (simp add: s2_def macs_ok_def)
  then obtain g2 d2 where 2: "rewritten f2 i2 (Some (ip_dst i)) None (Some (ft_dst_port t)) None g2"
    "forward L hash n s2 g2 = Some d2" "decide L hash now2 n ?s1 f2 = Some (d2, s2)" by blast
  have "ft_dst (flow_of proto f2 i2) = ft_dst (reply_of addr bp t)" by (simp only: assms(16))
  then have i2: "V4 (ip_dst i2) = ft_src t" by (simp add: reply_of_def)
  have u: "t\<lparr>ft_src := V4 (ip_src i)\<rparr> = t" using dst(2) by (cases t) simp
  have "sent_to n s (rt_next_hop r) g d"
    by (rule rewritten_sent [OF assms(1-4) 1(1) assms(5) refl _ assms(12) 1(2)]) (use assms(11) u in simp_all)
  moreover have "sent_to n s (rt_next_hop r2) g2 d2"
    by (rule rewritten_sent [OF assms(1,13,14) p2 2(1) assms(16) refl _ assms(18) 2(2)])
      (use assms(17) dst i2 in \<open>simp_all add: s2_def reply_of_def\<close>)
  moreover have "map_option ct_state (lookup_conntrack t s2) = Some Established"
    by (simp add: s2_def lookup_conntrack_def update_conv')
  moreover have "map_option ct_state (lookup_conntrack t ?s1) = Some NewConn" by (simp add: lookup_conntrack_def)
  ultimately show ?thesis using 1(1,3) 2(1,3) by blast
qed

definition routed_sd :: sd_state where
  "routed_sd = add_route (sample_route 1 1) sample_sd"

lemma routed_sd_facts:
  "macs_ok routed_sd" "map_of (sd_reply_index routed_sd) client_flow = None"
  "map_of (sd_services routed_sd) (frontend_of client_flow) = Some sample_service"
  "lookup_route ipnet_ref (\<lambda>_. 0) (sd_routes routed_sd) (V4 a) fl = Some (sample_route 1 1)"
  "map_of (sd_interfaces routed_sd) 1 = None"
proof -
  have r: "sd_routes routed_sd = [(NetV4 0 0, [sample_route 1 1])]"
    by (simp add: routed_sd_def add_route_def sample_sd_def add_service_def sd_default_def sample_route_def)
  have "lib_contains ipnet_ref (NetV4 0 0) (V4 a)" using unat_bound [of a] by (simp add: ipnet_ref_def)
  then show "lookup_route ipnet_ref (\<lambda>_. 0) (sd_routes routed_sd) (V4 a) fl = Some (sample_route 1 1)"
    by (simp add: r lookup_route_def best_group_def select_route_def route_weight_def sample_route_def)
  show "macs_ok routed_sd" "map_of (sd_reply_index routed_sd) client_flow = None"
    "map_of (sd_services routed_sd) (frontend_of client_flow) = Some sample_service" "map_of (sd_interfaces routed_sd) 1 = None"
    using sample_service_facts(1-3)
    by (simp_all add: routed_sd_def add_route_def sample_sd_def add_service_def sd_default_def macs_ok_def)
qed

theorem service_nat_roundtrip_witness:
  "\<exists>g s1 g2 s2.
    decide ipnet_ref (\<lambda>_. 0) 1 9 routed_sd (udp_frame 1 7 2 80) = Some (Deliver 1 g, s1) \<and>
    rewritten (udp_frame 1 7 2 80) (udp_info 0x0A000001 0x0A000002) None (Some 0x0A000003) None (Some 81) g \<and>
    decide ipnet_ref (\<lambda>_. 0) 2 9 s1 (udp_frame 3 81 1 7) = Some (Deliver 1 g2, s2) \<and>
    rewritten (udp_frame 3 81 1 7) (udp_info 0x0A000003 0x0A000001) (Some 0x0A000002) None (Some 80) None g2 \<and>
    map_option ct_state (lookup_conntrack client_flow s2) = Some Established"
proof -
  have bp: "81 = or_old None (sb_port sample_backend)" by (simp add: sample_service_facts)
  have h: "usable_hop 9 routed_sd (rt_next_hop (sample_route 1 1))" by (simp add: sample_route_def)
  have src: "ft_src client_flow = V4 0x0A000001" by (simp add: client_flow_def)
  have pr: "protocol (udp_info 0x0A000003 0x0A000001) = protocol (udp_info 0x0A000001 0x0A000002)" by (simp add: udp_info_def)
  have same: "take 6 out = take 6 g \<Longrightarrow> drop 6 out = drop 6 g \<Longrightarrow> out = g" for out g :: "u8 list" by (metis append_take_drop_id)
  have "ft_dst_port client_flow = 80" "ip_dst (udp_info 0x0A000001 0x0A000002) = 0x0A000002" by (simp_all add: client_flow_def udp_info_def)
  with service_nat_roundtrip [OF routed_sd_facts(1) sample_frames(1,2) sample_service_facts(7) sample_frames(3) routed_sd_facts(2,3)
      sample_service_facts(4,5) bp routed_sd_facts(4) h sample_frames(4,5) pr sample_frames(6) routed_sd_facts(4) [where a = "0x0A000001", folded src] h,
      where now = 1 and ?now2.0 = 2]
  show ?thesis using same by (fastforce simp: sample_route_def routed_sd_facts(5))
qed

text \<open>Tracking forgets that a connection is established. The next packet of the client goes through
  the service lookup again and overwrites the entry with a new one.\<close>

lemma client_packet_resets_connection:
  assumes "macs_ok s"
    "parse_ipv4 f = Some i" "complete_l4 f i" "ip_proto_from_byte (protocol i) = Some proto" "flow_of proto f i = t"
    "map_of (sd_reply_index s) t = None" "map_of (sd_services s) (frontend_of t) = Some svc"
    "select_backend hash (sv_backends svc) t = Some b" "sb_nat b = NatDestination (V4 addr) port"
    "map_option ct_state (lookup_conntrack t s) = Some Established"
  shows "\<exists>d s'. decide L hash now n s f = Some (d, s') \<and> map_option ct_state (lookup_conntrack t s') = Some NewConn"
proof -
  let ?s = "tracked now addr (or_old port (sb_port b)) t s"
  have "\<exists>d. decide L hash now n s f = Some (d, ?s)"
    using decide_service [OF assms(2-4) assms(1) assms(5-9) refl] by blast
  moreover have "map_option ct_state (lookup_conntrack t ?s) = Some NewConn" by (simp add: lookup_conntrack_def)
  ultimately show ?thesis by blast
qed

definition established_sd :: sd_state where
  "established_sd = sample_sd\<lparr>sd_conntrack := [(client_flow, \<lparr>ct_original = client_flow,
     ct_reply = reply_of 0x0A000003 81 client_flow, ct_state = Established, ct_last_seen = 1\<rparr>)],
     sd_reply_index := [(reply_of 0x0A000003 81 client_flow, client_flow)]\<rparr>"

lemma client_packet_resets_connection_witness:
  "\<exists>d s'. decide ipnet_ref (\<lambda>_. 0) 2 9 established_sd (udp_frame 1 7 2 80) = Some (d, s') \<and>
    map_option ct_state (lookup_conntrack client_flow s') = Some NewConn"
proof -
  have e: "macs_ok established_sd" "map_of (sd_reply_index established_sd) client_flow = None"
    "map_of (sd_services established_sd) (frontend_of client_flow) = Some sample_service"
    "map_option ct_state (lookup_conntrack client_flow established_sd) = Some Established"
    using sample_service_facts(1,3)
    by (simp_all add: established_sd_def macs_ok_def lookup_conntrack_def reply_of_def client_flow_def)
  show ?thesis
    by (rule client_packet_resets_connection [OF e(1) sample_frames(1,2) sample_service_facts(7) sample_frames(3)
        e(2,3) sample_service_facts(4,5) e(4)])
qed

text \<open>A truncated TCP packet to a service crashes the data plane: the decision panics.\<close>

lemma short_packet_panics:
  assumes "parse_ipv4 f = Some i" "protocol i = 6" "20 \<le> ihl i" "ihl i \<le> total_len f" "14 + total_len f \<le> length f"
    "length f < 14 + ihl i + 18" "map_of (sd_reply_index s) (flow_of Tcp f i) = None"
    "map_of (sd_services s) (frontend_of (flow_of Tcp f i)) = Some svc"
    "select_backend hash (sv_backends svc) (flow_of Tcp f i) = Some b" "sb_nat b = NatDestination (V4 addr) port"
  shows "decide L hash now n s f = None"
proof -
  have "rewrite_ipv4 f (ihl i) None (Some addr) None (Some q) = None" for q
    by (rule rewrite_short_segment [OF assms(1-6)])
  then show ?thesis
    using assms(7-10) by (simp add: decide_def assms(1,2) ip_proto_from_byte_def Let_def frontend_of_def)
qed

definition tcp_backend :: service where
  "tcp_backend = sample_service\<lparr>sv_frontend := \<lparr>sf_address = V4 0x0A000002, sf_port = 80, sf_protocol = Tcp\<rparr>\<rparr>"

lemma short_packet_panics_witness:
  "decide ipnet_ref (\<lambda>_. 0) 1 9 (add_service tcp_backend sd_default) short_tcp = None"
proof -
  let ?i = "\<lparr>ihl = 20, protocol = 6, ip_src = 0x0A000001, ip_dst = 0x0A000002\<rparr>"
  have p: "parse_ipv4 short_tcp = Some ?i" "total_len short_tcp = 24" "length short_tcp = 38"
    "frontend_of (flow_of Tcp short_tcp ?i) = sv_frontend tcp_backend" by code_simp+
  have s: "map_of (sd_services (add_service tcp_backend sd_default)) (sv_frontend tcp_backend) = Some tcp_backend"
    "map_of (sd_reply_index (add_service tcp_backend sd_default)) (flow_of Tcp short_tcp ?i) = None"
    "select_backend (\<lambda>_. 0) (sv_backends tcp_backend) (flow_of Tcp short_tcp ?i) = Some sample_backend"
    by (simp_all add: add_service_def sd_default_def tcp_backend_def sample_service_def select_backend_def)
  show ?thesis
    by (rule short_packet_panics [OF p(1) _ _ _ _ _ s(2) _ s(3) sample_service_facts(5)])
      (simp_all add: p(2-4) s(1))
qed

text \<open>Flushing an endpoint removes exactly the connections that start at one of its addresses, in
  either direction, and connections stay stored under their own flow through every packet and flush.\<close>

lemma flush_removes_endpoint_flows:
  assumes "conntrack_ok s" "map_of (sd_endpoints s) k = Some ep"
  shows "conntrack_ok (flush_conntrack k s) \<and>
    lookup_conntrack t (flush_conntrack k s) =
      (case lookup_conntrack t s of
         Some e \<Rightarrow> if ft_src (ct_original e) \<in> set (wl_addresses ep) \<or> ft_src (ct_reply e) \<in> set (wl_addresses ep) then None else Some e
       | None \<Rightarrow> None)"
proof
  let ?A = "set (wl_addresses ep)"
  let ?stale = "map ct_original (filter (\<lambda>e. ft_src (ct_original e) \<in> ?A \<or> ft_src (ct_reply e) \<in> ?A) (dump_conntrack s))"
  have f: "flush_conntrack k s = remove_flows ?stale s" using assms(2) by (simp add: flush_conntrack_def Let_def)
  have vals: "set (dump_conntrack s) = {e. map_of (sd_conntrack s) (ct_original e) = Some e}"
    using keys_ok_values [OF assms(1) [unfolded conntrack_ok_def]] by (simp add: dump_conntrack_def)
  have keep: "keys_ok ct_original (sd_conntrack (remove_flows ks s'))" if "keys_ok ct_original (sd_conntrack s')" for ks s'
    using that by (induction ks s' rule: remove_flows.induct) (auto simp: keys_ok_delete split: option.splits)
  show "conntrack_ok (flush_conntrack k s)" using keep assms(1) by (simp add: f conntrack_ok_def)
  have key: "ct_original e = t" if "map_of (sd_conntrack s) t = Some e" for e
    using map_of_SomeD [OF that] assms(1) unfolding conntrack_ok_def keys_ok_def by blast
  have "t \<in> set ?stale \<longleftrightarrow> (\<exists>e. map_of (sd_conntrack s) t = Some e \<and> (ft_src (ct_original e) \<in> ?A \<or> ft_src (ct_reply e) \<in> ?A))"
    using vals key by (auto simp: image_iff)
  then show "lookup_conntrack t (flush_conntrack k s) =
      (case lookup_conntrack t s of
         Some e \<Rightarrow> if ft_src (ct_original e) \<in> ?A \<or> ft_src (ct_reply e) \<in> ?A then None else Some e | None \<Rightarrow> None)"
    by (auto simp: f lookup_conntrack_def remove_flows_effect split: option.splits)
qed

definition flush_sd :: sd_state where
  "flush_sd = sd_add_endpoint \<lparr>wl_id = 4, wl_node = 9, wl_addresses = [V4 0x0A000003], wl_identity = 0, wl_location = RemoteLoc\<rparr> established_sd"

lemma flush_removes_endpoint_flows_witness: "lookup_conntrack client_flow (flush_conntrack 4 flush_sd) = None"
proof -
  have "conntrack_ok flush_sd"
    by (simp add: conntrack_ok_def keys_ok_def flush_sd_def sd_add_endpoint_def established_sd_def)
  moreover have "map_of (sd_endpoints flush_sd) 4 = Some \<lparr>wl_id = 4, wl_node = 9, wl_addresses = [V4 0x0A000003], wl_identity = 0, wl_location = RemoteLoc\<rparr>"
    by (simp add: flush_sd_def sd_add_endpoint_def update_conv')
  ultimately show ?thesis
    using flush_removes_endpoint_flows [of flush_sd 4 _ client_flow]
    by (simp add: lookup_conntrack_def flush_sd_def sd_add_endpoint_def established_sd_def reply_of_def)
qed

end
