(* ===== verification/Test_Wire.thy ===== *)
theory Test_Wire
  imports Packet
begin

text \<open>
  The records in which an eBPF test reports its result (\<open>sarena-shared-test\<close>): the tags and status values
  (\<open>wire.rs\<close>), the writer the test programs use on a fixed buffer (\<open>tlv_writer.rs\<close>) and the reader of the
  test runner (\<open>tlv_reader.rs\<close>). Text is a list of bytes: a Rust string is one that is valid UTF-8. An index outside
  a slice panics in the source and is \<open>None\<close> here.
\<close>

section \<open>UTF-8\<close>

text \<open>One step of \<open>String::from_utf8_lossy\<close>: whether the next bytes are a character and how many bytes are taken. A byte
  past the end reads as zero.\<close>

definition byte_at :: "u8 list \<Rightarrow> nat \<Rightarrow> u8" where
  "byte_at bs i = (if i < length bs then bs ! i else 0)"

definition between :: "u8 \<Rightarrow> u8 \<Rightarrow> u8 \<Rightarrow> bool" where
  "between lo hi b \<longleftrightarrow> lo \<le> b \<and> b \<le> hi"

definition utf8_second :: "u8 \<Rightarrow> u8 \<Rightarrow> bool" where
  "utf8_second b c \<longleftrightarrow>
     (b = 0xE0 \<and> between 0xA0 0xBF c \<or> between 0xE1 0xEC b \<and> between 0x80 0xBF c \<or>
      b = 0xED \<and> between 0x80 0x9F c \<or> between 0xEE 0xEF b \<and> between 0x80 0xBF c \<or>
      b = 0xF0 \<and> between 0x90 0xBF c \<or> between 0xF1 0xF3 b \<and> between 0x80 0xBF c \<or>
      b = 0xF4 \<and> between 0x80 0x8F c)"

definition utf8_step :: "u8 list \<Rightarrow> bool \<times> nat" where
  "utf8_step bs =
     (let b = byte_at bs 0; cont = (\<lambda>i. between 0x80 0xBF (byte_at bs i))
      in if b < 0x80 then (True, 1)
         else if between 0xC2 0xDF b then if cont 1 then (True, 2) else (False, 1)
         else if between 0xE0 0xEF b
           then if \<not> utf8_second b (byte_at bs 1) then (False, 1)
                else if cont 2 then (True, 3) else (False, 2)
         else if between 0xF0 0xF4 b
           then if \<not> utf8_second b (byte_at bs 1) then (False, 1)
                else if \<not> cont 2 then (False, 2)
                else if cont 3 then (True, 4) else (False, 3)
         else (False, 1))"

lemma utf8_step_pos: "(ok, n) = utf8_step bs \<Longrightarrow> 0 < n"
  by (auto simp: utf8_step_def Let_def split: if_splits)

lemma utf8_step_shorter:
  assumes "bs \<noteq> []" "(ok, n) = utf8_step bs"
  shows "(drop n bs, bs) \<in> measure length"
  using assms utf8_step_pos [of ok n bs] by simp

function from_utf8_lossy :: "u8 list \<Rightarrow> u8 list" where
  "from_utf8_lossy bs =
     (if bs = [] then []
      else case utf8_step bs of (ok, n) \<Rightarrow>
        (if ok then take n bs else [0xEF, 0xBF, 0xBD]) @ from_utf8_lossy (drop n bs))"
  by auto
termination by (relation "measure length") (rule wf_measure, rule utf8_step_shorter)

function valid_utf8 :: "u8 list \<Rightarrow> bool" where
  "valid_utf8 bs \<longleftrightarrow>
     (if bs = [] then True else case utf8_step bs of (ok, n) \<Rightarrow> ok \<and> valid_utf8 (drop n bs))"
  by auto
termination by (relation "measure length") (rule wf_measure, rule utf8_step_shorter)

declare from_utf8_lossy.simps [simp del] valid_utf8.simps [simp del]

lemma lossy_valid: "valid_utf8 bs \<Longrightarrow> from_utf8_lossy bs = bs"
proof (induction bs rule: valid_utf8.induct)
  case (1 bs)
  obtain ok n where st: "utf8_step bs = (ok, n)" by fastforce
  show ?case
  proof (cases "bs = []")
    case True
    then show ?thesis by (subst from_utf8_lossy.simps) simp
  next
    case False
    have "ok \<and> valid_utf8 (drop n bs)" using 1(2) False st by (subst (asm) valid_utf8.simps) simp
    with 1(1) [OF False st [symmetric]] False st show ?thesis by (subst from_utf8_lossy.simps) simp
  qed
qed

lemma ascii_valid: "(\<forall>b \<in> set bs. b < 0x80) \<Longrightarrow> valid_utf8 bs"
proof (induction bs)
  case (Cons b bs)
  then have "utf8_step (b # bs) = (True, 1)" by (simp add: utf8_step_def byte_at_def)
  with Cons show ?case by (simp add: valid_utf8.simps [of "b # bs"])
qed (simp add: valid_utf8.simps [of "[]"])

section \<open>Tags and status\<close>

definition WIRE_VERSION :: u8 where
  "WIRE_VERSION = 1"

datatype tag = TVersion | TTestName | TTestFile | TTestStatus | TLogFmt | TLogArg | TLogLine

fun tag_u8 :: "tag \<Rightarrow> u8" where
  "tag_u8 TVersion = 0x01"
| "tag_u8 TTestName = 0x10"
| "tag_u8 TTestFile = 0x11"
| "tag_u8 TTestStatus = 0x13"
| "tag_u8 TLogFmt = 0x20"
| "tag_u8 TLogArg = 0x21"
| "tag_u8 TLogLine = 0x22"

definition tag_from_u8 :: "u8 \<Rightarrow> tag option" where
  "tag_from_u8 v =
     (if v = 0x01 then Some TVersion
      else if v = 0x10 then Some TTestName
      else if v = 0x11 then Some TTestFile
      else if v = 0x13 then Some TTestStatus
      else if v = 0x20 then Some TLogFmt
      else if v = 0x21 then Some TLogArg
      else if v = 0x22 then Some TLogLine
      else None)"

datatype test_status = Pass | Fail | Skip | FrameworkError

fun status_u8 :: "test_status \<Rightarrow> u8" where
  "status_u8 Pass = 101"
| "status_u8 Fail = 102"
| "status_u8 Skip = 103"
| "status_u8 FrameworkError = 105"

definition status_from_u8 :: "u8 \<Rightarrow> test_status" where
  "status_from_u8 v = (if v = 101 then Pass else if v = 102 then Fail else if v = 103 then Skip else FrameworkError)"

lemma tag_roundtrip [simp]: "tag_from_u8 (tag_u8 t) = Some t"
  by (cases t) (simp_all add: tag_from_u8_def)

lemma status_roundtrip [simp]: "status_from_u8 (status_u8 s) = s"
  by (cases s) (simp_all add: status_from_u8_def)

lemma status_nonzero: "status_u8 s \<noteq> 0"
  by (cases s) simp_all

section \<open>Writer\<close>

definition TEST_RESULT_MAP_SIZE :: nat where
  "TEST_RESULT_MAP_SIZE = 8192"

record tlv_writer =
  tw_buf :: "u8 list"
  tw_pos :: nat

text \<open>\<open>to_le_bytes\<close> and \<open>from_le_bytes\<close>.\<close>

definition le_bytes :: "nat \<Rightarrow> 'a::len word \<Rightarrow> u8 list" where
  "le_bytes n w = rev (be_bytes n w)"

definition from_le :: "u8 list \<Rightarrow> 'a::len word" where
  "from_le bs = from_be (rev bs)"

lemma from_le_le_bytes: "LENGTH('a) \<le> 8 * n \<Longrightarrow> from_le (le_bytes n w) = (w :: 'a::len word)"
  by (simp add: from_le_def le_bytes_def from_be_be_bytes)

lemma length_le_bytes [simp]: "length (le_bytes n w) = n"
  by (simp add: le_bytes_def)

definition tw_need :: "tlv_writer \<Rightarrow> nat \<Rightarrow> bool" where
  "tw_need w n \<longleftrightarrow> tw_pos w + n \<le> TEST_RESULT_MAP_SIZE"

text \<open>A write that is refused leaves the writer as it was.\<close>

definition write_u8 :: "tag \<Rightarrow> u8 \<Rightarrow> tlv_writer \<Rightarrow> tlv_writer option" where
  "write_u8 t v w =
     (if \<not> tw_need w 3 then None
      else Some (w\<lparr>tw_buf := put (tw_pos w) [tag_u8 t, 1, v] (tw_buf w), tw_pos := tw_pos w + 3\<rparr>))"

definition write_u16 :: "tag \<Rightarrow> u16 \<Rightarrow> tlv_writer \<Rightarrow> tlv_writer option" where
  "write_u16 t v w =
     (if \<not> tw_need w 4 then None
      else Some (w\<lparr>tw_buf := put (tw_pos w) ([tag_u8 t, 2] @ le_bytes 2 v) (tw_buf w), tw_pos := tw_pos w + 4\<rparr>))"

definition write_u32 :: "tag \<Rightarrow> u32 \<Rightarrow> tlv_writer \<Rightarrow> tlv_writer option" where
  "write_u32 t v w =
     (if \<not> tw_need w 6 then None
      else Some (w\<lparr>tw_buf := put (tw_pos w) ([tag_u8 t, 4] @ le_bytes 4 v) (tw_buf w), tw_pos := tw_pos w + 6\<rparr>))"

definition write_u64 :: "tag \<Rightarrow> u64 \<Rightarrow> tlv_writer \<Rightarrow> tlv_writer option" where
  "write_u64 t v w =
     (if \<not> tw_need w 10 then None
      else Some (w\<lparr>tw_buf := put (tw_pos w) ([tag_u8 t, 8] @ le_bytes 8 v) (tw_buf w), tw_pos := tw_pos w + 10\<rparr>))"

definition write_bytes :: "tag \<Rightarrow> u8 list \<Rightarrow> tlv_writer \<Rightarrow> tlv_writer option" where
  "write_bytes t data w =
     (let len = length data
      in if len > 255 then None
         else if \<not> tw_need w (2 + len) then None
         else Some (w\<lparr>tw_buf := put (tw_pos w) ([tag_u8 t, of_nat len] @ data) (tw_buf w), tw_pos := tw_pos w + 2 + len\<rparr>))"

definition tw_new :: "u8 list \<Rightarrow> tlv_writer option" where
  "tw_new buf = write_u8 TVersion WIRE_VERSION \<lparr>tw_buf = buf, tw_pos = 0\<rparr>"

definition tw_finish :: "tlv_writer \<Rightarrow> nat" where
  "tw_finish w = tw_pos w"

section \<open>Reader\<close>

record log_entry =
  le_fmt :: "u8 list"
  le_line :: u32
  le_args :: "u64 list"

record test_result =
  tr_name :: "u8 list"
  tr_file :: "u8 list"
  tr_status :: test_status
  tr_logs :: "log_entry list"

datatype parse_error =
    MissingVersionTag
  | IncompatibleVersion u8
  | TruncatedHeader nat
  | TruncatedValue nat nat
  | BadTagLength u8 nat nat
  | OrphanLogField nat

definition next_tlv :: "u8 list \<Rightarrow> nat \<Rightarrow> ((u8 \<times> u8 list) \<times> nat, parse_error) result" where
  "next_tlv data cur =
     (if cur + 2 > length data then Err (TruncatedHeader cur)
      else let tag = data ! cur; len = unat (data ! (cur + 1)); cur = cur + 2
      in if cur + len > length data then Err (TruncatedValue cur len)
         else Ok ((tag, slice cur (cur + len) data), cur + len))"

text \<open>What one record does to the result so far; \<open>offset\<close> is where it starts. \<open>last_mut\<close> is the last log entry.\<close>

definition on_last :: "(log_entry \<Rightarrow> log_entry) \<Rightarrow> test_result \<Rightarrow> test_result" where
  "on_last f r = r\<lparr>tr_logs := butlast (tr_logs r) @ [f (last (tr_logs r))]\<rparr>"

definition apply_record :: "nat \<Rightarrow> u8 \<Rightarrow> u8 list \<Rightarrow> test_result \<Rightarrow> (test_result, parse_error) result" where
  "apply_record offset tag value r =
     (case tag_from_u8 tag of
        Some TTestName \<Rightarrow> Ok (r\<lparr>tr_name := from_utf8_lossy value\<rparr>)
      | Some TTestFile \<Rightarrow> Ok (r\<lparr>tr_file := from_utf8_lossy value\<rparr>)
      | Some TTestStatus \<Rightarrow>
          if length value \<noteq> 1 then Err (BadTagLength (tag_u8 TTestStatus) 1 (length value))
          else Ok (r\<lparr>tr_status := status_from_u8 (value ! 0)\<rparr>)
      | Some TLogFmt \<Rightarrow>
          Ok (r\<lparr>tr_logs := tr_logs r @ [\<lparr>le_fmt = from_utf8_lossy value, le_line = 0, le_args = []\<rparr>]\<rparr>)
      | Some TLogLine \<Rightarrow>
          if length value \<noteq> 4 then Err (BadTagLength (tag_u8 TLogLine) 4 (length value))
          else if tr_logs r = [] then Err (OrphanLogField offset)
          else Ok (on_last (\<lambda>e. e\<lparr>le_line := from_le value\<rparr>) r)
      | Some TLogArg \<Rightarrow>
          if length value \<noteq> 8 then Err (BadTagLength (tag_u8 TLogArg) 8 (length value))
          else if tr_logs r = [] then Err (OrphanLogField offset)
          else Ok (on_last (\<lambda>e. e\<lparr>le_args := le_args e @ [from_le value]\<rparr>) r)
      | _ \<Rightarrow> Ok r)"

lemma next_tlv_Ok: "next_tlv data cur = Ok (tv, cur') \<Longrightarrow> cur < cur' \<and> cur' \<le> length data"
  by (auto simp: next_tlv_def Let_def split: if_splits)

lemma next_tlv_OkD:
  assumes "next_tlv data cur = Ok ((tag, val), cur')"
  shows "cur + 2 \<le> length data" "tag = data ! cur" "cur' = cur + 2 + unat (data ! (cur + 1))" "cur' \<le> length data"
  using assms by (auto simp: next_tlv_def Let_def split: if_splits)

function parse_loop :: "u8 list \<Rightarrow> nat \<Rightarrow> test_result \<Rightarrow> (test_result, parse_error) result" where
  "parse_loop data cur r =
     (if cur < length data
      then case next_tlv data cur of
             Err e \<Rightarrow> Err e
           | Ok ((tag, value), cur') \<Rightarrow>
               (case apply_record cur tag value r of Err e \<Rightarrow> Err e | Ok r \<Rightarrow> parse_loop data cur' r)
      else Ok r)"
  by pat_completeness auto
termination
  by (relation "measure (\<lambda>(data, cur, r). length data - cur)") (auto dest: next_tlv_Ok)

declare parse_loop.simps [simp del]

lemma parse_loop_end: "\<not> cur < length data \<Longrightarrow> parse_loop data cur r = Ok r"
  by (simp add: parse_loop.simps [of data cur r])

lemma parse_loop_OkE:
  assumes "parse_loop data cur r = Ok r'" "cur < length data"
  obtains tag val cur' r1 where "next_tlv data cur = Ok ((tag, val), cur')" "apply_record cur tag val r = Ok r1"
    "parse_loop data cur' r1 = Ok r'"
  using assms by (auto simp: parse_loop.simps [of data cur r] split: result.splits)

definition parse_test :: "u8 list \<Rightarrow> (test_result, parse_error) result option" where
  "parse_test data =
     (case next_tlv data 0 of
        Err e \<Rightarrow> Some (Err e)
      | Ok ((tag, value), cur) \<Rightarrow>
          if tag \<noteq> tag_u8 TVersion then Some (Err MissingVersionTag)
          else if value \<noteq> [WIRE_VERSION]
            then (if value = [] then None else Some (Err (IncompatibleVersion (value ! 0))))
          else Some (parse_loop data cur \<lparr>tr_name = [], tr_file = [], tr_status = FrameworkError, tr_logs = []\<rparr>))"

section \<open>Records\<close>

text \<open>A buffer as the records written to it, followed by zeros.\<close>

definition enc :: "u8 \<times> u8 list \<Rightarrow> u8 list" where
  "enc = (\<lambda>(t, v). [t, of_nat (length v)] @ v)"

definition enc_all :: "(u8 \<times> u8 list) list \<Rightarrow> u8 list" where
  "enc_all rs = concat (map enc rs)"

definition wrote :: "tlv_writer \<Rightarrow> (u8 \<times> u8 list) list \<Rightarrow> bool" where
  "wrote w rs \<longleftrightarrow> tw_pos w = length (enc_all rs) \<and> tw_pos w \<le> TEST_RESULT_MAP_SIZE \<and>
     tw_buf w = enc_all rs @ replicate (TEST_RESULT_MAP_SIZE - tw_pos w) 0 \<and> (\<forall>(t, v) \<in> set rs. length v \<le> 255)"

lemma enc_all_simps [simp]:
  "enc_all [] = []" "enc_all (r # rs) = enc r @ enc_all rs" "enc_all (rs @ qs) = enc_all rs @ enc_all qs"
  by (simp_all add: enc_all_def)

definition write_rec :: "tag \<Rightarrow> u8 list \<Rightarrow> tlv_writer \<Rightarrow> tlv_writer option" where
  "write_rec t v w =
     (if \<not> tw_need w (2 + length v) then None
      else Some (w\<lparr>tw_buf := put (tw_pos w) (enc (tag_u8 t, v)) (tw_buf w), tw_pos := tw_pos w + 2 + length v\<rparr>))"

lemma write_is_rec:
  "write_u8 t a = write_rec t [a]" "write_u16 t b = write_rec t (le_bytes 2 b)" "write_u32 t c = write_rec t (le_bytes 4 c)"
  "write_u64 t d = write_rec t (le_bytes 8 d)" "write_bytes t v w = (if length v > 255 then None else write_rec t v w)"
  by (auto simp: write_u8_def write_u16_def write_u32_def write_u64_def write_bytes_def write_rec_def enc_def Let_def fun_eq_iff)

lemma put_zeros:
  "length ys \<le> n \<Longrightarrow> put (length xs) ys (xs @ replicate n 0) = xs @ ys @ replicate (n - length ys) 0"
  by (simp add: put_def)

lemma write_rec_wrote:
  assumes "wrote w rs" "write_rec t v w = Some w'" "length v \<le> 255"
  shows "wrote w' (rs @ [(tag_u8 t, v)])"
proof -
  let ?n = "TEST_RESULT_MAP_SIZE - tw_pos w" and ?e = "enc (tag_u8 t, v)"
  have need: "tw_pos w + (2 + length v) \<le> TEST_RESULT_MAP_SIZE"
    and w': "w' = w\<lparr>tw_buf := put (tw_pos w) ?e (tw_buf w), tw_pos := tw_pos w + 2 + length v\<rparr>"
    using assms(2) by (auto simp: write_rec_def tw_need_def split: if_splits)
  have l: "length ?e = 2 + length v" by (simp add: enc_def)
  have "put (tw_pos w) ?e (tw_buf w) = enc_all rs @ ?e @ replicate (?n - length ?e) 0"
    using put_zeros [of ?e ?n "enc_all rs"] need l assms(1) by (simp add: wrote_def)
  with need assms(1,3) w' l show ?thesis by (auto simp: wrote_def)
qed

lemma tw_new_wrote:
  "\<exists>w. tw_new (replicate TEST_RESULT_MAP_SIZE 0) = Some w \<and> wrote w [(tag_u8 TVersion, [WIRE_VERSION])]"
proof -
  let ?w = "\<lparr>tw_buf = replicate TEST_RESULT_MAP_SIZE 0, tw_pos = 0\<rparr>"
  obtain w where w: "write_rec TVersion [WIRE_VERSION] ?w = Some w"
    by (simp add: write_rec_def tw_need_def TEST_RESULT_MAP_SIZE_def)
  have "wrote ?w []" by (simp add: wrote_def)
  from write_rec_wrote [OF this w] w show ?thesis by (simp add: tw_new_def write_is_rec)
qed

section \<open>Reading what was written\<close>

fun apply_all :: "nat \<Rightarrow> (u8 \<times> u8 list) list \<Rightarrow> test_result \<Rightarrow> (test_result, parse_error) result" where
  "apply_all off [] r = Ok r"
| "apply_all off ((t, v) # rs) r =
     (case apply_record off t v r of Err e \<Rightarrow> Err e | Ok r \<Rightarrow> apply_all (off + 2 + length v) rs r)"

lemma next_tlv_enc:
  assumes "length v \<le> 255"
  shows "next_tlv (pre @ enc (t, v) @ post) (length pre) = Ok ((t, v), length pre + 2 + length v)"
proof -
  have "unat (of_nat (length v) :: u8) = length v" using assms by (simp add: unat_of_nat)
  then show ?thesis by (simp add: next_tlv_def enc_def nth_append slice_def)
qed

lemma parse_loop_enc:
  "\<forall>(t, v) \<in> set rs. length v \<le> 255 \<Longrightarrow> parse_loop (pre @ enc_all rs) (length pre) r = apply_all (length pre) rs r"
proof (induction rs arbitrary: pre r)
  case Nil
  then show ?case by (simp add: parse_loop.simps)
next
  case (Cons x rs)
  obtain t v where x: "x = (t, v)" by fastforce
  have IH: "parse_loop (pre @ enc x @ enc_all rs) (length pre + 2 + length v) r' = apply_all (length pre + 2 + length v) rs r'" for r'
    using Cons.IH [of "pre @ enc x" r'] Cons.prems x by (simp add: enc_def)
  have "length pre < length (pre @ enc x @ enc_all rs)" by (simp add: enc_def x)
  with next_tlv_enc [of v pre t "enc_all rs"] Cons.prems IH x show ?case
    by (subst parse_loop.simps) (auto split: result.splits)
qed

text \<open>Cutting the buffer anywhere loses records or fails; it never makes up one.\<close>

lemma next_tlv_cut:
  assumes "length v \<le> 255" "next_tlv (pre @ take k (enc (t, v) @ post)) (length pre) = Ok ((t', v'), cur)"
  shows "t' = t \<and> v' = v \<and> cur = length pre + 2 + length v \<and>
    pre @ take k (enc (t, v) @ post) = (pre @ enc (t, v)) @ take (k - (2 + length v)) post"
proof -
  let ?d = "pre @ take k (enc (t, v) @ post)"
  have u: "unat (of_nat (length v) :: u8) = length v" using assms(1) by (simp add: unat_of_nat)
  note ok = next_tlv_OkD [OF assms(2)]
  have k2: "2 \<le> k" using ok(1) by simp
  then have "?d ! (length pre + 1) = of_nat (length v)"
    by (simp add: enc_def nth_append take_Cons split: nat.splits)
  then have "length pre + 2 + length v \<le> length ?d" using ok(3,4) u by (metis (no_types))
  then have k: "2 + length v \<le> k" by simp
  then have d: "?d = pre @ enc (t, v) @ take (k - (2 + length v)) post" by (simp add: enc_def take_Cons split: nat.splits)
  show ?thesis using assms(2) next_tlv_enc [OF assms(1), of pre t "take (k - (2 + length v)) post"] unfolding d by simp
qed

lemma apply_record_status:
  "apply_record off t v r = Ok r' \<Longrightarrow> t \<noteq> tag_u8 TTestStatus \<Longrightarrow> tr_status r' = tr_status r"
  by (auto simp: apply_record_def on_last_def tag_from_u8_def split: option.splits tag.splits if_splits)

lemma parse_cut_status:
  assumes "\<forall>(t, v) \<in> set rs. length v \<le> 255 \<and> t \<noteq> tag_u8 TTestStatus"
    "parse_loop (pre @ take k (enc_all rs)) (length pre) r = Ok r'"
  shows "tr_status r' = tr_status r"
  using assms
proof (induction rs arbitrary: pre k r)
  case Nil
  then show ?case by (simp add: parse_loop.simps [of "pre"])
next
  case (Cons x rs)
  obtain t v where x: "x = (t, v)" by fastforce
  let ?d = "pre @ take k (enc x @ enc_all rs)"
  have p: "parse_loop ?d (length pre) r = Ok r'" using Cons.prems(2) by simp
  show ?case
  proof (cases "length pre < length ?d")
    case False
    with p parse_loop_end [of "length pre" ?d r] show ?thesis by simp
  next
    case True
    from parse_loop_OkE [OF p True] obtain t' v' cur r1 where n: "next_tlv ?d (length pre) = Ok ((t', v'), cur)"
      "apply_record (length pre) t' v' r = Ok r1" "parse_loop ?d cur r1 = Ok r'" .
    have cut: "t' = t" "v' = v" "cur = length (pre @ enc x)" "?d = (pre @ enc x) @ take (k - (2 + length v)) (enc_all rs)"
      using next_tlv_cut [of v pre k t "enc_all rs" t' v' cur] n(1) Cons.prems(1) x by (auto simp: enc_def)
    have a: "apply_record (length pre) t v r = Ok r1" "parse_loop ?d cur r1 = Ok r'" using n(2,3) cut(1,2) by simp_all
    have "tr_status r' = tr_status r1"
      by (rule Cons.IH [of "pre @ enc x" "k - (2 + length v)"]) (use Cons.prems(1) a(2) cut(3,4) in auto)
    with apply_record_status [OF a(1)] Cons.prems(1) x show ?thesis by simp
  qed
qed

lemma apply_all_append:
  "apply_all off (rs @ qs) r = (case apply_all off rs r of Err e \<Rightarrow> Err e | Ok r \<Rightarrow> apply_all (off + length (enc_all rs)) qs r)"
  by (induction off rs r rule: apply_all.induct) (auto simp: enc_def algebra_simps split: result.splits)

end
