(* ===== verification/Test_Suite.thy ===== *)
theory Test_Suite
  imports Test_Wire
begin

text \<open>
  The eBPF test framework (\<open>sarena-ebpf-test-framework/src/suite.rs\<close>), the program the macro \<open>assert\<close> wraps around a test
  (\<open>sarena-test-macros/src/assert.rs\<close>) and the runner (\<open>sarena-test-runner\<close>): a test logs and asserts through a suite, which
  writes records into a map; the runner clears the map, runs the programs, reads the records back and decides
  whether the test failed.

  The body of a test is the list of calls it makes on its suite. A memory access outside an object, which Rust leaves
  undefined here, is \<open>None\<close>, and so is a panic of the runner. \<open>bpf_prog_test_run\<close> and the script that
  prints the packets that differ are arguments.
\<close>

section \<open>The suite\<close>

definition SCAPY_MAX_BUF :: nat where
  "SCAPY_MAX_BUF = 1518"

definition SCAPY_MAX_ASSERTS :: nat where
  "SCAPY_MAX_ASSERTS = 256"

definition SCAPY_MAX_STR_LEN :: nat where
  "SCAPY_MAX_STR_LEN = 128"

record scapy_assert =
  sa_name :: "u8 list"
  sa_file :: "u8 list"
  sa_line :: u32
  sa_first_layer :: "u8 list"
  sa_expected_len :: u64
  sa_expected_buf :: "u8 list"
  sa_actual_len :: u64
  sa_actual_buf :: "u8 list"

record test_suite =
  ts_writer :: tlv_writer
  ts_status :: test_status
  ts_asserts :: "scapy_assert list"
  ts_assert_count :: u32

text \<open>The maps of failed assertions are part of the suite's record here; \<open>asserts\<close> are the slots, all there from the start.\<close>

definition suite_new :: "u8 list \<Rightarrow> u8 list \<Rightarrow> u8 list \<Rightarrow> scapy_assert list \<Rightarrow> u32 \<Rightarrow> test_suite option \<times> u8 list" where
  "suite_new name file buf asserts count =
     (case tw_new buf of
        None \<Rightarrow> (None, buf)
      | Some w \<Rightarrow> (case write_bytes TTestName name w of
            None \<Rightarrow> (None, tw_buf w)
          | Some w \<Rightarrow> (case write_bytes TTestFile file w of
                None \<Rightarrow> (None, tw_buf w)
              | Some w \<Rightarrow> (Some \<lparr>ts_writer = w, ts_status = Pass, ts_asserts = asserts, ts_assert_count = count\<rparr>, tw_buf w))))"

fun write_args :: "u64 list \<Rightarrow> tlv_writer \<Rightarrow> bool \<times> tlv_writer" where
  "write_args [] w = (True, w)"
| "write_args (a # as) w = (case write_u64 TLogArg a w of None \<Rightarrow> (False, w) | Some w \<Rightarrow> write_args as w)"

definition write_log_inner :: "u32 \<Rightarrow> u8 list \<Rightarrow> u64 list \<Rightarrow> tlv_writer \<Rightarrow> bool \<times> tlv_writer" where
  "write_log_inner line fmt args w =
     (case write_bytes TLogFmt fmt w of
        None \<Rightarrow> (False, w)
      | Some w \<Rightarrow> (case write_u32 TLogLine line w of None \<Rightarrow> (False, w) | Some w \<Rightarrow> write_args args w))"

definition suite_log :: "u32 \<Rightarrow> u8 list \<Rightarrow> u64 list \<Rightarrow> test_suite \<Rightarrow> test_suite" where
  "suite_log line fmt args t =
     (case write_log_inner line fmt args (ts_writer t) of (ok, w) \<Rightarrow>
        t\<lparr>ts_writer := w, ts_status := if ok then ts_status t else FrameworkError\<rparr>)"

definition suite_log0 :: "u32 \<Rightarrow> u8 list \<Rightarrow> test_suite \<Rightarrow> test_suite" where
  "suite_log0 line fmt = suite_log line fmt []"

definition suite_log1 :: "u32 \<Rightarrow> u8 list \<Rightarrow> u64 \<Rightarrow> test_suite \<Rightarrow> test_suite" where
  "suite_log1 line fmt a0 = suite_log line fmt [a0]"

definition suite_log2 :: "u32 \<Rightarrow> u8 list \<Rightarrow> u64 \<Rightarrow> u64 \<Rightarrow> test_suite \<Rightarrow> test_suite" where
  "suite_log2 line fmt a0 a1 = suite_log line fmt [a0, a1]"

definition suite_log3 :: "u32 \<Rightarrow> u8 list \<Rightarrow> u64 \<Rightarrow> u64 \<Rightarrow> u64 \<Rightarrow> test_suite \<Rightarrow> test_suite" where
  "suite_log3 line fmt a0 a1 a2 = suite_log line fmt [a0, a1, a2]"

definition suite_set_status :: "test_status \<Rightarrow> test_suite \<Rightarrow> test_suite" where
  "suite_set_status st t = t\<lparr>ts_status := st\<rparr>"

definition suite_fail :: "test_suite \<Rightarrow> test_suite" where
  "suite_fail t = t\<lparr>ts_status := Fail\<rparr>"

definition suite_skip :: "test_suite \<Rightarrow> test_suite" where
  "suite_skip t = t\<lparr>ts_status := Skip\<rparr>"

definition copy_str :: "u8 list \<Rightarrow> u8 list" where
  "copy_str src =
     (let len = min (length src) (SCAPY_MAX_STR_LEN - 1)
      in take len src @ replicate (SCAPY_MAX_STR_LEN - len) 0)"

text \<open>\<open>memcpy\<close> of \<open>len\<close> bytes into a buffer of zeros of size \<open>SCAPY_MAX_BUF\<close>.\<close>

definition copy_zeroed :: "u8 list \<Rightarrow> nat \<Rightarrow> u8 list option" where
  "copy_zeroed src len =
     (if len \<le> length src \<and> len \<le> SCAPY_MAX_BUF then Some (take len src @ replicate (SCAPY_MAX_BUF - len) 0) else None)"

fun memcmp_loop :: "u8 list \<Rightarrow> u8 list \<Rightarrow> nat \<Rightarrow> bool" where
  "memcmp_loop (a # as) (b # bs) (Suc n) = (if a \<noteq> b then False else memcmp_loop as bs n)"
| "memcmp_loop _ _ _ = True"

text \<open>\<open>data\<close> is the linear packet; the position \<open>offset\<close> may lie past its end, then the length wraps around.\<close>

definition ascii :: "string \<Rightarrow> u8 list" where
  "ascii s = map of_char s"

definition add_failure ::
  "u8 list \<Rightarrow> u8 list \<Rightarrow> u32 \<Rightarrow> u8 list \<Rightarrow> u8 list \<Rightarrow> nat \<Rightarrow> u8 list \<Rightarrow> nat \<Rightarrow> test_suite \<Rightarrow> test_suite option" where
  "add_failure name file line first_layer buf len data offset t =
     (case copy_zeroed buf len of
        None \<Rightarrow> None
      | Some expected \<Rightarrow>
          (case (if offset + len \<le> length data then copy_zeroed (drop offset data) len
                 else copy_zeroed (replicate SCAPY_MAX_BUF 0) len) of
             None \<Rightarrow> None
           | Some actual \<Rightarrow>
               let entry = \<lparr>sa_name = copy_str name, sa_file = copy_str file, sa_line = line, sa_first_layer = copy_str first_layer,
                     sa_expected_len = of_nat len, sa_expected_buf = expected,
                     sa_actual_len = of_nat (length data) - of_nat offset, sa_actual_buf = actual\<rparr>;
                   idx = ts_assert_count t;
                   t = t\<lparr>ts_assert_count := idx + 1\<rparr>
               in if unat idx < length (ts_asserts t) then Some (t\<lparr>ts_asserts := (ts_asserts t)[unat idx := entry]\<rparr>)
                  else Some (suite_log0 207 (ascii ''ERROR: unable to push failed assert to map!'') t)))"

record assert_args =
  aa_file :: "u8 list"
  aa_line :: u32
  aa_name :: "u8 list"
  aa_first_layer :: "u8 list"
  aa_offset :: nat
  aa_buf :: "u8 list"
  aa_len :: nat
  aa_too_short :: "u8 list"
  aa_mismatch :: "u8 list"

definition assert_buffer_inner :: "u8 list \<Rightarrow> u32 \<Rightarrow> assert_args \<Rightarrow> test_suite \<Rightarrow> test_suite option" where
  "assert_buffer_inner data ctx_len a t =
     (let offset = aa_offset a; len = aa_len a; buf = aa_buf a;
          outside = offset + len > length data;
          t = (if outside then suite_log3 (aa_line a) (ascii ''CTX len (%d) - offset (%d) < LEN (%d)'')
                                 (ucast ctx_len) (of_nat offset) (of_nat len) t else t);
          short = length buf < len;
          t = (if short then suite_log2 (aa_line a) (aa_too_short a) (of_nat (length buf)) (of_nat len) t else t);
          differ = \<not> outside \<and> \<not> short \<and> \<not> memcmp_loop (drop offset data) buf len;
          t = (if differ then suite_log0 (aa_line a) (aa_mismatch a) t else t)
      in if outside \<or> short \<or> differ
         then map_option suite_fail
                (add_failure (aa_name a) (aa_file a) (aa_line a) (aa_first_layer a) buf len data offset t)
         else Some t)"

section \<open>Test programs\<close>

datatype suite_op =
    OpLog u32 "u8 list" "u64 list"
  | OpFail
  | OpSkip
  | OpSetStatus test_status
  | OpAssertBuffer assert_args

fun suite_do :: "u8 list \<Rightarrow> u32 \<Rightarrow> suite_op \<Rightarrow> test_suite \<Rightarrow> test_suite option" where
  "suite_do data ctx_len (OpLog line fmt args) t = Some (suite_log line fmt args t)"
| "suite_do data ctx_len OpFail t = Some (suite_fail t)"
| "suite_do data ctx_len OpSkip t = Some (suite_skip t)"
| "suite_do data ctx_len (OpSetStatus st) t = Some (suite_set_status st t)"
| "suite_do data ctx_len (OpAssertBuffer a) t = assert_buffer_inner data ctx_len a t"

fun suite_run :: "u8 list \<Rightarrow> u32 \<Rightarrow> suite_op list \<Rightarrow> test_suite \<Rightarrow> test_suite option" where
  "suite_run data ctx_len [] t = Some t"
| "suite_run data ctx_len (x # xs) t = (case suite_do data ctx_len x t of None \<Rightarrow> None | Some t \<Rightarrow> suite_run data ctx_len xs t)"

record test_maps =
  tm_result :: "u8 list"
  tm_status_code :: u32
  tm_asserts :: "scapy_assert list"
  tm_assert_count :: u32

text \<open>The program that \<open>assert(tc, name)\<close> generates: its return value and the maps it leaves.\<close>

definition assert_program ::
  "u8 list \<Rightarrow> u8 list \<Rightarrow> suite_op list \<Rightarrow> u8 list \<Rightarrow> u32 \<Rightarrow> test_maps \<Rightarrow> (u8 \<times> test_maps) option" where
  "assert_program name file body data ctx_len m =
     (case suite_new name file (tm_result m) (tm_asserts m) (tm_assert_count m) of
        (None, buf) \<Rightarrow> Some (status_u8 FrameworkError, m\<lparr>tm_result := buf\<rparr>)
      | (Some t, _) \<Rightarrow>
          (case suite_run data ctx_len body t of
             None \<Rightarrow> None
           | Some t \<Rightarrow>
               let m = m\<lparr>tm_asserts := ts_asserts t, tm_assert_count := ts_assert_count t\<rparr>
               in (case write_u8 TTestStatus (status_u8 (ts_status t)) (ts_writer t) of
                     None \<Rightarrow> Some (status_u8 FrameworkError, m\<lparr>tm_result := tw_buf (ts_writer t)\<rparr>)
                   | Some w \<Rightarrow> Some (status_u8 (ts_status t), m\<lparr>tm_result := tw_buf w\<rparr>))))"

section \<open>The runner\<close>

text \<open>The payloads of errors that come from other crates are left out.\<close>

datatype runner_error = MapAccess | ProgramRun | NoResult | ParseFailed parse_error | SerdeError | IoError

definition PAGE_SIZE :: nat where
  "PAGE_SIZE = 4096"

definition CTX_SIZE :: nat where
  "CTX_SIZE = 256"

definition HEADROOM :: nat where
  "HEADROOM = 256"

definition TAILROOM :: nat where
  "TAILROOM = 320"

text \<open>What a run of a program returns: its value, the packet and the context with the sizes that are valid in them.\<close>

record test_run =
  run_return :: u32
  run_data :: "u8 list"
  run_data_size :: nat
  run_ctx :: "u8 list"
  run_ctx_size :: nat

definition run_bpf_program :: "(u8 list \<Rightarrow> u8 list \<Rightarrow> test_run) \<Rightarrow> u8 list \<Rightarrow> u8 list \<Rightarrow> u32 \<times> u8 list \<times> u8 list" where
  "run_bpf_program prog data ctx =
     (let r = prog data ctx in (run_return r, take (run_data_size r) (run_data r), take (run_ctx_size r) (run_ctx r)))"

definition test_error :: "u32 \<Rightarrow> bool" where
  "test_error ret \<longleftrightarrow> ret = ucast (status_u8 Fail) \<or> ret = ucast (status_u8 FrameworkError)"

definition trim_zeros :: "u8 list \<Rightarrow> u8 list" where
  "trim_zeros raw = rev (dropWhile (\<lambda>b. b = 0) (rev raw))"

text \<open>\<open>ScapyAssert::serialize\<close>: text up to the first zero has to be UTF-8, and the slices of the buffers have to be inside.\<close>

definition c_str :: "u8 list \<Rightarrow> u8 list" where
  "c_str bs = takeWhile (\<lambda>b. b \<noteq> 0) bs"

definition encode_to_string :: "u8 list \<Rightarrow> string" where
  "encode_to_string bs = concat (map hex2 bs)"

record scapy_json =
  js_name :: "u8 list"
  js_file :: "u8 list"
  js_linenum :: u32
  js_first_layer :: "u8 list"
  js_exp_len :: u64
  js_exp_buf :: string
  js_got_len :: u64
  js_got_buf :: string

definition serialize_assert :: "scapy_assert \<Rightarrow> (scapy_json, runner_error) result option" where
  "serialize_assert a =
     (if \<not> valid_utf8 (c_str (sa_name a)) \<or> \<not> valid_utf8 (c_str (sa_file a)) \<or> \<not> valid_utf8 (c_str (sa_first_layer a))
      then Some (Err SerdeError)
      else if unat (sa_expected_len a) > length (sa_expected_buf a) \<or> unat (sa_actual_len a) > length (sa_actual_buf a) then None
      else Some (Ok \<lparr>js_name = c_str (sa_name a), js_file = c_str (sa_file a), js_linenum = sa_line a,
             js_first_layer = c_str (sa_first_layer a), js_exp_len = sa_expected_len a,
             js_exp_buf = encode_to_string (take (unat (sa_expected_len a)) (sa_expected_buf a)), js_got_len = sa_actual_len a,
             js_got_buf = encode_to_string (take (unat (sa_actual_len a)) (sa_actual_buf a))\<rparr>))"

fun serialize_all :: "scapy_assert list \<Rightarrow> (scapy_json list, runner_error) result option" where
  "serialize_all [] = Some (Ok [])"
| "serialize_all (a # as) =
     (case serialize_assert a of
        None \<Rightarrow> None
      | Some (Err e) \<Rightarrow> Some (Err e)
      | Some (Ok j) \<Rightarrow>
          (case serialize_all as of
             None \<Rightarrow> None
           | Some (Err e) \<Rightarrow> Some (Err e)
           | Some (Ok js) \<Rightarrow> Some (Ok (j # js))))"

datatype script_end = ScriptIo | ScriptFailed | ScriptDone

text \<open>\<open>fault n\<close> is the error of the \<open>n\<close>-th access to a map or program, if it fails.\<close>

fun get_asserts :: "(nat \<Rightarrow> runner_error option) \<Rightarrow> nat \<Rightarrow> nat \<Rightarrow> scapy_assert list \<Rightarrow> (scapy_assert list, runner_error) result" where
  "get_asserts fault i 0 as = Ok []"
| "get_asserts fault i (Suc n) as =
     (case fault (9 + i) of
        Some e \<Rightarrow> Err e
      | None \<Rightarrow> if i \<ge> length as then Err MapAccess
          else (case get_asserts fault (Suc i) n as of Err e \<Rightarrow> Err e | Ok xs \<Rightarrow> Ok (as ! i # xs)))"

definition process_asserts ::
  "(nat \<Rightarrow> runner_error option) \<Rightarrow> (scapy_json list \<Rightarrow> script_end) \<Rightarrow> test_maps \<Rightarrow> (unit, runner_error) result option" where
  "process_asserts fault script m =
     (case fault 8 of
        Some e \<Rightarrow> Some (Err e)
      | None \<Rightarrow> if tm_assert_count m = 0 then Some (Ok ())
          else (case get_asserts fault 0 (unat (tm_assert_count m)) (tm_asserts m) of
             Err e \<Rightarrow> Some (Err e)
           | Ok as \<Rightarrow> (case serialize_all as of
                 None \<Rightarrow> None
               | Some (Err e) \<Rightarrow> Some (Err e)
               | Some (Ok js) \<Rightarrow> (case script js of
                     ScriptIo \<Rightarrow> Some (Err IoError)
                   | ScriptFailed \<Rightarrow> None
                   | ScriptDone \<Rightarrow> Some (Ok ())))))"

text \<open>The part of \<open>sub_test\<close> from reading the result on.\<close>

definition judge_result ::
  "(nat \<Rightarrow> runner_error option) \<Rightarrow> (scapy_json list \<Rightarrow> script_end) \<Rightarrow> test_maps \<Rightarrow> (unit, runner_error) result option" where
  "judge_result fault script m =
     (case fault 7 of
        Some e \<Rightarrow> Some (Err e)
      | None \<Rightarrow>
          let raw = trim_zeros (tm_result m)
          in if raw = [] then Some (Err NoResult)
             else (case parse_test raw of
                None \<Rightarrow> None
              | Some (Err e) \<Rightarrow> Some (Err (ParseFailed e))
              | Some (Ok result) \<Rightarrow>
                  if tr_status result = FrameworkError then None
                  else (case process_asserts fault script m of
                     None \<Rightarrow> None
                   | Some (Err e) \<Rightarrow> Some (Err e)
                   | Some (Ok _) \<Rightarrow> if tr_status result = Fail then None else Some (Ok ()))))"

text \<open>A step that may be missing: the program and the accesses \<open>n\<close> that run it. \<open>Inl\<close> ends the test.\<close>

definition optional_step ::
  "(nat \<Rightarrow> runner_error option) \<Rightarrow> nat \<Rightarrow> (u8 list \<Rightarrow> u8 list \<Rightarrow> test_run) option \<Rightarrow> u8 list \<times> u8 list \<Rightarrow>
     (unit, runner_error) result option + u32 option \<times> u8 list \<times> u8 list" where
  "optional_step fault n prog dc =
     (case prog of
        None \<Rightarrow> Inr (None, dc)
      | Some p \<Rightarrow> (case fault n of
            Some e \<Rightarrow> Inl (Some (Err e))
          | None \<Rightarrow> (case run_bpf_program p (fst dc) (snd dc) of (ret, dc) \<Rightarrow>
               if test_error ret then Inl None else Inr (Some ret, dc))))"

definition sub_test ::
  "(nat \<Rightarrow> runner_error option) \<Rightarrow> (scapy_json list \<Rightarrow> script_end) \<Rightarrow>
     (u8 list \<Rightarrow> u8 list \<Rightarrow> test_run) option \<Rightarrow> (u8 list \<Rightarrow> u8 list \<Rightarrow> test_run) option \<Rightarrow>
     (u8 list \<Rightarrow> u32 \<Rightarrow> test_maps \<Rightarrow> (u8 \<times> test_maps) option) \<Rightarrow> test_maps \<Rightarrow> (unit, runner_error) result option" where
  "sub_test fault script arrange act assert m =
     (let data = replicate (PAGE_SIZE - HEADROOM - TAILROOM) 0; ctx = replicate CTX_SIZE 0
      in case fault 0 of Some e \<Rightarrow> Some (Err e) | None \<Rightarrow>
         (let m = m\<lparr>tm_result := replicate TEST_RESULT_MAP_SIZE 0\<rparr>
          in case fault 1 of Some e \<Rightarrow> Some (Err e) | None \<Rightarrow>
             (case fault 2 of Some e \<Rightarrow> Some (Err e) | None \<Rightarrow>
             (let m = m\<lparr>tm_assert_count := 0, tm_status_code := 0\<rparr>
              in case optional_step fault 3 arrange (data, ctx) of Inl r \<Rightarrow> r | Inr (_, dc) \<Rightarrow>
                 (case optional_step fault 4 act dc of Inl r \<Rightarrow> r | Inr (ret, dc) \<Rightarrow>
                  (case (if ret = None then None else fault 5) of Some e \<Rightarrow> Some (Err e) | None \<Rightarrow>
                   (let m = (case ret of None \<Rightarrow> m | Some c \<Rightarrow> m\<lparr>tm_status_code := c\<rparr>)
                    in case fault 6 of Some e \<Rightarrow> Some (Err e) | None \<Rightarrow>
                       (case assert (fst dc) (of_nat (length (fst dc))) m of None \<Rightarrow> None | Some (_, m) \<Rightarrow> judge_result fault script m))))))))"

section \<open>What a suite writes\<close>

lemma tag_u8_status: "tag_u8 t = tag_u8 TTestStatus \<longleftrightarrow> t = TTestStatus"
  by (cases t) simp_all

text \<open>A suite writes records of any kind but the status.\<close>

definition suite_inv :: "test_suite \<Rightarrow> (u8 \<times> u8 list) list \<Rightarrow> bool" where
  "suite_inv t rs \<longleftrightarrow> wrote (ts_writer t) rs \<and> (\<forall>(tg, v) \<in> set rs. tg \<noteq> tag_u8 TTestStatus)"

definition unfinished :: "tlv_writer \<Rightarrow> bool" where
  "unfinished w \<longleftrightarrow> (\<exists>rs. wrote w ((tag_u8 TVersion, [WIRE_VERSION]) # rs) \<and> (\<forall>(tg, v) \<in> set rs. tg \<noteq> tag_u8 TTestStatus))"

lemma unfinished_rec:
  assumes "unfinished w" "write_rec t v w = Some w'" "length v \<le> 255" "t \<noteq> TTestStatus"
  shows "unfinished w'"
proof -
  obtain rs where rs: "wrote w ((tag_u8 TVersion, [WIRE_VERSION]) # rs)" "\<forall>(tg, v) \<in> set rs. tg \<noteq> tag_u8 TTestStatus"
    using assms(1) by (auto simp: unfinished_def)
  have "wrote w' ((tag_u8 TVersion, [WIRE_VERSION]) # (rs @ [(tag_u8 t, v)]))"
    using write_rec_wrote [OF rs(1) assms(2,3)] by simp
  moreover have "\<forall>(tg, v) \<in> set (rs @ [(tag_u8 t, v)]). tg \<noteq> tag_u8 TTestStatus"
    using rs(2) assms(4) tag_u8_status [of t] by auto
  ultimately show ?thesis unfolding unfinished_def by blast
qed

lemma unfinished_writes:
  "unfinished w \<Longrightarrow> write_bytes TTestName v w = Some w' \<Longrightarrow> unfinished w'"
  "unfinished w \<Longrightarrow> write_bytes TTestFile v w = Some w' \<Longrightarrow> unfinished w'"
  "unfinished w \<Longrightarrow> write_bytes TLogFmt v w = Some w' \<Longrightarrow> unfinished w'"
  "unfinished w \<Longrightarrow> write_u32 TLogLine l w = Some w' \<Longrightarrow> unfinished w'"
  "unfinished w \<Longrightarrow> write_u64 TLogArg a w = Some w' \<Longrightarrow> unfinished w'"
  by (auto simp: write_is_rec intro: unfinished_rec split: if_splits)

lemma unfinished_args: "unfinished w \<Longrightarrow> unfinished (snd (write_args as w))"
  by (induction as w rule: write_args.induct) (auto intro: unfinished_writes split: option.splits)

lemma unfinished_log: "unfinished (ts_writer t) \<Longrightarrow> unfinished (ts_writer (suite_log l f as t))"
proof -
  assume "unfinished (ts_writer t)"
  then have "unfinished (snd (write_log_inner l f as (ts_writer t)))"
    by (auto simp: write_log_inner_def intro!: unfinished_args dest: unfinished_writes split: option.splits)
  then show ?thesis by (cases "write_log_inner l f as (ts_writer t)") (simp add: suite_log_def)
qed

lemma unfinished_do:
  assumes "suite_do data n x t = Some t'" "unfinished (ts_writer t)"
  shows "unfinished (ts_writer t')"
proof (cases x)
  case (OpAssertBuffer a)
  have add: "unfinished (ts_writer u')" if "add_failure nm fl l fi b k d off u = Some u'" "unfinished (ts_writer u)"
    for nm fl l fi b k d off u u'
    using that by (auto simp: add_failure_def Let_def suite_log0_def intro!: unfinished_log split: option.splits if_splits)
  show ?thesis
    using assms OpAssertBuffer
    by (auto simp: assert_buffer_inner_def Let_def suite_log0_def suite_log2_def suite_log3_def suite_fail_def
        intro!: unfinished_log dest!: add split: if_splits)
qed (use assms unfinished_log in \<open>auto simp: suite_fail_def suite_skip_def suite_set_status_def\<close>)

lemma unfinished_run:
  "suite_run data n xs t = Some t' \<Longrightarrow> unfinished (ts_writer t) \<Longrightarrow> unfinished (ts_writer t')"
  by (induction data n xs t rule: suite_run.induct) (auto dest: unfinished_do split: option.splits)

lemma suite_new_unfinished:
  "suite_new name file (replicate TEST_RESULT_MAP_SIZE 0) as c = (r, buf) \<Longrightarrow>
     \<exists>w. unfinished w \<and> tw_buf w = buf \<and> (\<forall>t. r = Some t \<longrightarrow> ts_writer t = w)"
proof -
  assume a: "suite_new name file (replicate TEST_RESULT_MAP_SIZE 0) as c = (r, buf)"
  obtain w where w: "tw_new (replicate TEST_RESULT_MAP_SIZE 0) = Some w" "wrote w [(tag_u8 TVersion, [WIRE_VERSION])]"
    using tw_new_wrote by blast
  then have "unfinished w" by (auto simp: unfinished_def)
  with a w(1) show ?thesis
    by (auto simp: suite_new_def intro: unfinished_writes(1) split: option.splits) (metis unfinished_writes(1,2))
qed

section \<open>Reading it back\<close>

lemma trim_zeros_append [simp]: "trim_zeros (xs @ replicate n 0) = trim_zeros xs"
proof -
  have "dropWhile (\<lambda>b. b = 0) (replicate n (0 :: u8) @ ys) = dropWhile (\<lambda>b. b = 0) ys" for ys by (induction n) simp_all
  then show ?thesis by (simp add: trim_zeros_def)
qed

lemma trim_zeros_last: "xs \<noteq> [] \<Longrightarrow> last xs \<noteq> 0 \<Longrightarrow> trim_zeros xs = xs"
  by (cases xs rule: rev_cases) (simp_all add: trim_zeros_def)

lemma trim_zeros_prefix:
  assumes "xs \<noteq> []" "last xs \<noteq> 0"
  shows "\<exists>k. trim_zeros (xs @ ys) = xs @ take k ys"
proof (cases "\<forall>y \<in> set ys. y = 0")
  case True
  then have "ys = replicate (length ys) 0" by (metis replicate_length_same)
  then have "trim_zeros (xs @ ys) = xs" using trim_zeros_last [OF assms] trim_zeros_append by metis
  then show ?thesis by (intro exI [of _ 0]) simp
next
  case False
  then obtain y where "y \<in> set (rev ys)" "\<not> y = 0" by auto
  then have t: "trim_zeros (xs @ ys) = xs @ trim_zeros ys" by (simp add: trim_zeros_def dropWhile_append1)
  have "rev ys = takeWhile (\<lambda>b. b = 0) (rev ys) @ rev (trim_zeros ys)" by (simp add: trim_zeros_def)
  then have "ys = trim_zeros ys @ rev (takeWhile (\<lambda>b. b = 0) (rev ys))" by (metis rev_append rev_rev_ident)
  then have "trim_zeros ys = take (length (trim_zeros ys)) ys" by (metis append_eq_conv_conj)
  with t show ?thesis by metis
qed

abbreviation blank_result :: test_result where
  "blank_result \<equiv> \<lparr>tr_name = [], tr_file = [], tr_status = FrameworkError, tr_logs = []\<rparr>"

lemma parse_test_version:
  "parse_test (enc (tag_u8 TVersion, [WIRE_VERSION]) @ post) = Some (parse_loop (enc (tag_u8 TVersion, [WIRE_VERSION]) @ post) 3 blank_result)"
  using next_tlv_enc [of "[WIRE_VERSION]" "[]" "tag_u8 TVersion" post] by (simp add: parse_test_def numeral_3_eq_3)

text \<open>Without a status record the result is never a success.\<close>

lemma unfinished_judged: "unfinished w \<Longrightarrow> judge_result fault script (m\<lparr>tm_result := tw_buf w\<rparr>) \<noteq> Some (Ok u)"
proof
  assume u: "unfinished w" and j: "judge_result fault script (m\<lparr>tm_result := tw_buf w\<rparr>) = Some (Ok u)"
  let ?v = "enc (tag_u8 TVersion, [WIRE_VERSION])"
  obtain rs where rs: "wrote w ((tag_u8 TVersion, [WIRE_VERSION]) # rs)" "\<forall>(tg, v) \<in> set rs. tg \<noteq> tag_u8 TTestStatus"
    using u by (auto simp: unfinished_def)
  then have b: "tw_buf w = (?v @ enc_all rs) @ replicate (TEST_RESULT_MAP_SIZE - tw_pos w) 0" by (simp add: wrote_def)
  have len: "length ?v = 3" by (simp add: enc_def)
  have "?v \<noteq> []" "last ?v \<noteq> 0" by (simp_all add: enc_def WIRE_VERSION_def)
  then obtain k where t: "trim_zeros (tw_buf w) = ?v @ take k (enc_all rs)"
    using trim_zeros_prefix [of ?v "enc_all rs"] b by (metis trim_zeros_append)
  from j obtain r where "parse_test (trim_zeros (tw_buf w)) = Some (Ok r)" "tr_status r \<noteq> FrameworkError"
    by (auto simp: judge_result_def Let_def split: option.splits result.splits if_splits)
  then have r: "parse_test (?v @ take k (enc_all rs)) = Some (Ok r)" "tr_status r \<noteq> FrameworkError" using t by simp_all
  then have p: "parse_loop (?v @ take k (enc_all rs)) (length ?v) blank_result = Ok r"
    unfolding parse_test_version len by simp
  have "tr_status r = tr_status blank_result"
    by (rule parse_cut_status [OF _ p]) (use rs in \<open>auto simp: wrote_def\<close>)
  with r(2) show False by simp
qed

text \<open>With a status record at the end, whose last byte is not zero, all records are read.\<close>

lemma parse_finished:
  assumes "wrote w ((tag_u8 TVersion, [WIRE_VERSION]) # rs @ [(tag_u8 TTestStatus, [status_u8 st])])"
  shows "parse_test (trim_zeros (tw_buf w)) = Some (apply_all 3 (rs @ [(tag_u8 TTestStatus, [status_u8 st])]) blank_result)"
proof -
  let ?v = "enc (tag_u8 TVersion, [WIRE_VERSION])" and ?rs = "rs @ [(tag_u8 TTestStatus, [status_u8 st])]"
  have "tw_buf w = (?v @ enc_all ?rs) @ replicate (TEST_RESULT_MAP_SIZE - tw_pos w) 0" using assms by (simp add: wrote_def)
  moreover have "trim_zeros (?v @ enc_all ?rs) = ?v @ enc_all ?rs"
    by (rule trim_zeros_last) (simp_all add: enc_def status_nonzero)
  ultimately have t: "trim_zeros (tw_buf w) = ?v @ enc_all ?rs" by (metis trim_zeros_append)
  have "parse_loop (?v @ enc_all ?rs) (length ?v) blank_result = apply_all (length ?v) ?rs blank_result"
    by (rule parse_loop_enc) (use assms in \<open>auto simp: wrote_def\<close>)
  moreover have "length ?v = 3" by (simp add: enc_def)
  ultimately show ?thesis unfolding t parse_test_version by simp
qed

lemma finished_judged:
  assumes "unfinished w" "write_u8 TTestStatus (status_u8 st) w = Some w'"
    "judge_result fault script (m\<lparr>tm_result := tw_buf w'\<rparr>) = Some (Ok u)"
  shows "st = Pass \<or> st = Skip"
proof -
  obtain rs where rs: "wrote w ((tag_u8 TVersion, [WIRE_VERSION]) # rs)" using assms(1) by (auto simp: unfinished_def)
  have "wrote w' ((tag_u8 TVersion, [WIRE_VERSION]) # rs @ [(tag_u8 TTestStatus, [status_u8 st])])"
    using write_rec_wrote [OF rs, of TTestStatus "[status_u8 st]" w'] assms(2) by (simp add: write_is_rec)
  note p = parse_finished [OF this]
  from assms(3) obtain r where "parse_test (trim_zeros (tw_buf w')) = Some (Ok r)" and st: "tr_status r \<noteq> FrameworkError" "tr_status r \<noteq> Fail"
    by (auto simp: judge_result_def Let_def split: option.splits result.splits if_splits)
  then have "tr_status r = st"
    unfolding p by (auto simp: apply_all_append apply_record_def tag_from_u8_def split: result.splits)
  with st show ?thesis by (cases st) auto
qed

section \<open>Reports that fit\<close>

definition log_recs :: "u32 \<times> u8 list \<times> u64 list \<Rightarrow> (u8 \<times> u8 list) list" where
  "log_recs = (\<lambda>(l, f, as). (tag_u8 TLogFmt, f) # (tag_u8 TLogLine, le_bytes 4 l) # map (\<lambda>a. (tag_u8 TLogArg, le_bytes 8 a)) as)"

definition log_size :: "u32 \<times> u8 list \<times> u64 list \<Rightarrow> nat" where
  "log_size = (\<lambda>(l, f, as). 8 + length f + 10 * length as)"

definition to_entry :: "u32 \<times> u8 list \<times> u64 list \<Rightarrow> log_entry" where
  "to_entry = (\<lambda>(l, f, as). \<lparr>le_fmt = f, le_line = l, le_args = as\<rparr>)"

lemma write_rec_fits:
  assumes "wrote w rs" "length (enc_all rs) + 2 + length v \<le> TEST_RESULT_MAP_SIZE" "length v \<le> 255"
  obtains w' where "write_rec t v w = Some w'" "wrote w' (rs @ [(tag_u8 t, v)])"
proof -
  have "tw_need w (2 + length v)" using assms(1,2) by (simp add: tw_need_def wrote_def)
  then obtain w' where "write_rec t v w = Some w'" by (simp add: write_rec_def)
  with that write_rec_wrote [OF assms(1) this assms(3)] show thesis by blast
qed

lemma write_args_fits:
  assumes "wrote w rs" "length (enc_all rs) + 10 * length as \<le> TEST_RESULT_MAP_SIZE"
  shows "\<exists>w'. write_args as w = (True, w') \<and> wrote w' (rs @ map (\<lambda>a. (tag_u8 TLogArg, le_bytes 8 a)) as)"
  using assms
proof (induction as arbitrary: w rs)
  case (Cons a as)
  have "length (enc_all rs) + 2 + length (le_bytes 8 a) \<le> TEST_RESULT_MAP_SIZE" using Cons.prems(2) by simp
  from write_rec_fits [OF Cons.prems(1) this, of TLogArg] obtain w1
    where w1: "write_rec TLogArg (le_bytes 8 a) w = Some w1" "wrote w1 (rs @ [(tag_u8 TLogArg, le_bytes 8 a)])" by auto
  from Cons.IH [OF w1(2)] Cons.prems(2) w1(1) show ?case by (simp add: write_is_rec enc_def)
qed simp

lemma suite_log_fits:
  assumes "wrote (ts_writer t) rs" "length (enc_all rs) + log_size (l, f, as) \<le> TEST_RESULT_MAP_SIZE" "length f \<le> 255"
  shows "\<exists>w'. suite_log l f as t = t\<lparr>ts_writer := w'\<rparr> \<and> wrote w' (rs @ log_recs (l, f, as))"
proof -
  have "length (enc_all rs) + 2 + length f \<le> TEST_RESULT_MAP_SIZE" using assms(2) by (simp add: log_size_def)
  from write_rec_fits [OF assms(1) this assms(3), of TLogFmt] obtain w1
    where w1: "write_rec TLogFmt f (ts_writer t) = Some w1" "wrote w1 (rs @ [(tag_u8 TLogFmt, f)])" by auto
  have "length (enc_all (rs @ [(tag_u8 TLogFmt, f)])) + 2 + length (le_bytes 4 l) \<le> TEST_RESULT_MAP_SIZE"
    using assms(2) by (simp add: log_size_def enc_def)
  from write_rec_fits [OF w1(2) this, of TLogLine] obtain w2
    where w2: "write_rec TLogLine (le_bytes 4 l) w1 = Some w2" "wrote w2 ((rs @ [(tag_u8 TLogFmt, f)]) @ [(tag_u8 TLogLine, le_bytes 4 l)])" by auto
  have "length (enc_all ((rs @ [(tag_u8 TLogFmt, f)]) @ [(tag_u8 TLogLine, le_bytes 4 l)])) + 10 * length as \<le> TEST_RESULT_MAP_SIZE"
    using assms(2) by (simp add: log_size_def enc_def)
  from write_args_fits [OF w2(2) this] w1(1) w2(1) assms(3) show ?thesis
    by (auto simp: suite_log_def write_log_inner_def write_is_rec log_recs_def)
qed

lemma log_recs_size: "length (enc_all (log_recs x)) = log_size x"
proof -
  have "length (enc_all (map (\<lambda>a. (tg, le_bytes 8 a)) as)) = 10 * length as" for tg and as :: "u64 list"
    by (induction as) (simp_all add: enc_def)
  then show ?thesis by (cases x) (simp add: log_recs_def log_size_def enc_def)
qed

lemma suite_run_logs:
  assumes "wrote (ts_writer t) rs" "length (enc_all rs) + sum_list (map log_size logs) \<le> TEST_RESULT_MAP_SIZE"
    "\<forall>(l, f, as) \<in> set logs. length f \<le> 255"
  shows "\<exists>w'. suite_run d n (map (\<lambda>(l, f, as). OpLog l f as) logs @ xs) t = suite_run d n xs (t\<lparr>ts_writer := w'\<rparr>) \<and>
    wrote w' (rs @ concat (map log_recs logs))"
  using assms
proof (induction logs arbitrary: t rs)
  case Nil
  then show ?case by (intro exI [of _ "ts_writer t"]) simp
next
  case (Cons x logs)
  obtain l f as where x: "x = (l, f, as)" by (cases x)
  obtain w1 where w1: "suite_log l f as t = t\<lparr>ts_writer := w1\<rparr>" "wrote w1 (rs @ log_recs (l, f, as))"
    using suite_log_fits [OF Cons.prems(1), of l f as] Cons.prems(2,3) x by auto
  have "wrote (ts_writer (t\<lparr>ts_writer := w1\<rparr>)) (rs @ log_recs (l, f, as))" using w1(2) by simp
  from Cons.IH [OF this] Cons.prems(2,3) x w1(1) show ?case by (simp add: log_recs_size)
qed

lemma apply_log_recs:
  assumes "valid_utf8 f"
  shows "apply_all off (log_recs (l, f, as)) r = Ok (r\<lparr>tr_logs := tr_logs r @ [to_entry (l, f, as)]\<rparr>)"
proof -
  have args: "apply_all off (map (\<lambda>a. (tag_u8 TLogArg, le_bytes 8 a)) as) (r\<lparr>tr_logs := ls @ [e]\<rparr>) =
      Ok (r\<lparr>tr_logs := ls @ [e\<lparr>le_args := le_args e @ as\<rparr>]\<rparr>)" for off e ls
    by (induction as arbitrary: off e) (simp_all add: apply_record_def tag_from_u8_def on_last_def from_le_le_bytes)
  show ?thesis
    using assms args [of "off + 2 + length f + 2 + 4" "tr_logs r" "\<lparr>le_fmt = f, le_line = l, le_args = []\<rparr>"]
    by (simp add: log_recs_def to_entry_def apply_record_def tag_from_u8_def on_last_def from_le_le_bytes lossy_valid)
qed

lemma apply_logs:
  assumes "\<forall>(l, f, as) \<in> set logs. valid_utf8 f"
  shows "apply_all off (concat (map log_recs logs)) r = Ok (r\<lparr>tr_logs := tr_logs r @ map to_entry logs\<rparr>)"
  using assms
proof (induction logs arbitrary: off r)
  case (Cons x logs)
  obtain l f as where x: "x = (l, f, as)" by (cases x)
  then show ?case using Cons by (simp add: apply_all_append apply_log_recs)
qed simp

lemma suite_new_fits:
  assumes "length name \<le> 255" "length file \<le> 255" "7 + length name + length file \<le> TEST_RESULT_MAP_SIZE"
    "buf = replicate TEST_RESULT_MAP_SIZE 0"
  obtains t where "suite_new name file buf as c = (Some t, tw_buf (ts_writer t))" "ts_asserts t = as" "ts_assert_count t = c"
    "wrote (ts_writer t) [(tag_u8 TVersion, [WIRE_VERSION]), (tag_u8 TTestName, name), (tag_u8 TTestFile, file)]"
proof -
  let ?v = "(tag_u8 TVersion, [WIRE_VERSION])" and ?n = "(tag_u8 TTestName, name)" and ?f = "(tag_u8 TTestFile, file)"
  obtain w0 where w0: "tw_new buf = Some w0" "wrote w0 [?v]" using tw_new_wrote assms(4) by auto
  have "length (enc_all [?v]) + 2 + length name \<le> TEST_RESULT_MAP_SIZE" using assms(3) by (simp add: enc_def)
  from write_rec_fits [OF w0(2) this assms(1), of TTestName] obtain w1
    where w1: "write_rec TTestName name w0 = Some w1" "wrote w1 ([?v] @ [?n])" .
  have "length (enc_all ([?v] @ [?n])) + 2 + length file \<le> TEST_RESULT_MAP_SIZE" using assms(3) by (simp add: enc_def)
  from write_rec_fits [OF w1(2) this assms(2), of TTestFile] obtain w2
    where w2: "write_rec TTestFile file w1 = Some w2" "wrote w2 (([?v] @ [?n]) @ [?f])" .
  show thesis
    by (rule that [of "\<lparr>ts_writer = w2, ts_status = Pass, ts_asserts = as, ts_assert_count = c\<rparr>"])
       (use w0(1) w1(1) w2 assms(1,2) in \<open>simp_all add: suite_new_def write_is_rec\<close>)
qed

lemma optional_step_Ok: "optional_step fault n p dc = Inl (Some (Ok u)) \<Longrightarrow> False"
  by (auto simp: optional_step_def split: option.splits prod.splits if_splits)

text \<open>The packet that the assert program of a test gets: the zeroed page after the arrange and the act program, where
  there is one.\<close>

definition step_output :: "(u8 list \<Rightarrow> u8 list \<Rightarrow> test_run) option \<Rightarrow> u8 list \<times> u8 list \<Rightarrow> u8 list \<times> u8 list" where
  "step_output prog dc = (case prog of None \<Rightarrow> dc | Some p \<Rightarrow> snd (run_bpf_program p (fst dc) (snd dc)))"

definition tested_packet :: "(u8 list \<Rightarrow> u8 list \<Rightarrow> test_run) option \<Rightarrow> (u8 list \<Rightarrow> u8 list \<Rightarrow> test_run) option \<Rightarrow> u8 list" where
  "tested_packet arrange act =
     fst (step_output act (step_output arrange (replicate (PAGE_SIZE - HEADROOM - TAILROOM) 0, replicate CTX_SIZE 0)))"

lemma optional_step_Inr: "optional_step fault n p dc = Inr (r, dc') \<Longrightarrow> dc' = step_output p dc"
  by (auto simp: optional_step_def step_output_def split: option.splits prod.splits if_splits)

text \<open>When a buffer assertion holds of a packet, and the calls that leave a failed suite failed.\<close>

definition assert_holds :: "u8 list \<Rightarrow> assert_args \<Rightarrow> bool" where
  "assert_holds data a \<longleftrightarrow> aa_offset a + aa_len a \<le> length data \<and> aa_len a \<le> length (aa_buf a) \<and>
     take (aa_len a) (drop (aa_offset a) data) = take (aa_len a) (aa_buf a)"

fun keeps_failure :: "suite_op \<Rightarrow> bool" where
  "keeps_failure OpSkip = False"
| "keeps_failure (OpSetStatus st) = (st \<notin> {Pass, Skip})"
| "keeps_failure _ = True"

lemma memcmp_loop_take: "n \<le> length xs \<Longrightarrow> n \<le> length ys \<Longrightarrow> memcmp_loop xs ys n \<longleftrightarrow> take n xs = take n ys"
  by (induction xs ys n rule: memcmp_loop.induct) auto

lemma failed_assert:
  assumes "assert_buffer_inner data n a t = Some t'"
  shows "ts_status t' = (if assert_holds data a then ts_status t else Fail)"
  using assms memcmp_loop_take [of "aa_len a" "drop (aa_offset a) data" "aa_buf a"]
  by (auto simp: assert_buffer_inner_def assert_holds_def Let_def suite_fail_def split: if_splits)

lemma failure_stays:
  assumes "suite_do data n x t = Some t'" "keeps_failure x" "ts_status t \<notin> {Pass, Skip}"
  shows "ts_status t' \<notin> {Pass, Skip}"
  using assms by (cases x) (auto simp: suite_log_def suite_fail_def suite_set_status_def dest: failed_assert split: prod.splits if_splits)

lemma failed_run:
  assumes "suite_run data n xs t = Some t'" "list_all keeps_failure xs" "ts_status t \<notin> {Pass, Skip}"
  shows "ts_status t' \<notin> {Pass, Skip}"
  using assms by (induction data n xs t rule: suite_run.induct) (auto dest: failure_stays split: option.splits)

lemma suite_run_append:
  "suite_run data n (xs @ ys) t = (case suite_run data n xs t of None \<Rightarrow> None | Some t \<Rightarrow> suite_run data n ys t)"
  by (induction data n xs t rule: suite_run.induct) (auto split: option.splits)

lemma failing_op:
  assumes "suite_run data n (pre @ x # post) t = Some t'" "list_all keeps_failure post" "ts_status t' \<in> {Pass, Skip}"
  shows "x \<noteq> OpFail \<and> (\<forall>a. x = OpAssertBuffer a \<longrightarrow> assert_holds data a)"
proof -
  obtain u v where u: "suite_do data n x u = Some v" "suite_run data n post v = Some t'"
    using assms(1) by (auto simp: suite_run_append split: option.splits)
  then have "ts_status v \<in> {Pass, Skip}" using failed_run [OF u(2) assms(2)] assms(3) by blast
  moreover have "assert_holds data a" if "x = OpAssertBuffer a" for a
    using u(1) that failed_assert [of data n a u v] calculation by (cases "assert_holds data a") simp_all
  ultimately show ?thesis using u(1) by (auto simp: suite_fail_def)
qed

section \<open>Properties\<close>

text \<open>C30: a report that fits is read back exactly. For a test that logs any number of lines and ends with any status, if
  names and formats are text of at most 255 bytes and all records fit into the map, the program succeeds and the
  runner reads from its buffer, whose length it does not know, the name, the file, the status and every log line
  with its arguments.\<close>

theorem report_roundtrip:
  assumes "valid_utf8 name" "length name \<le> 255" "valid_utf8 file" "length file \<le> 255"
    "\<forall>(l, f, as) \<in> set logs. valid_utf8 f \<and> length f \<le> 255"
    "10 + length name + length file + sum_list (map log_size logs) \<le> TEST_RESULT_MAP_SIZE"
    "tm_result m = replicate TEST_RESULT_MAP_SIZE 0"
  shows "\<exists>m'. assert_program name file (map (\<lambda>(l, f, as). OpLog l f as) logs @ [OpSetStatus st]) d n m = Some (status_u8 st, m') \<and>
    parse_test (trim_zeros (tm_result m')) =
      Some (Ok \<lparr>tr_name = name, tr_file = file, tr_status = st, tr_logs = map to_entry logs\<rparr>)"
proof -
  let ?v = "(tag_u8 TVersion, [WIRE_VERSION])" and ?n = "(tag_u8 TTestName, name)" and ?f = "(tag_u8 TTestFile, file)"
  let ?s = "(tag_u8 TTestStatus, [status_u8 st])" and ?ls = "concat (map log_recs logs)"
  have "7 + length name + length file \<le> TEST_RESULT_MAP_SIZE" using assms(6) by simp
  from suite_new_fits [OF assms(2,4) this assms(7)] obtain t
    where t: "suite_new name file (tm_result m) (tm_asserts m) (tm_assert_count m) = (Some t, tw_buf (ts_writer t))"
      "wrote (ts_writer t) [?v, ?n, ?f]" by metis
  have "length (enc_all [?v, ?n, ?f]) + sum_list (map log_size logs) \<le> TEST_RESULT_MAP_SIZE"
    using assms(6) by (simp add: enc_def)
  from suite_run_logs [OF t(2) this, of d n "[OpSetStatus st]"] assms(5) obtain w3
    where w3: "suite_run d n (map (\<lambda>(l, f, as). OpLog l f as) logs @ [OpSetStatus st]) t = Some (t\<lparr>ts_writer := w3, ts_status := st\<rparr>)"
      "wrote w3 ([?v, ?n, ?f] @ ?ls)" by (fastforce simp: suite_set_status_def)
  have "length (enc_all ?ls) = sum_list (map log_size logs)" by (induction logs) (simp_all add: log_recs_size)
  then have "length (enc_all ([?v, ?n, ?f] @ ?ls)) + 2 + length [status_u8 st] \<le> TEST_RESULT_MAP_SIZE"
    using assms(6) by (simp add: enc_def)
  from write_rec_fits [OF w3(2) this, of TTestStatus] obtain w4
    where w4: "write_rec TTestStatus [status_u8 st] w3 = Some w4" "wrote w4 (([?v, ?n, ?f] @ ?ls) @ [?s])" by auto
  have "parse_test (trim_zeros (tw_buf w4)) = Some (apply_all 3 ((?n # ?f # ?ls) @ [?s]) blank_result)"
    by (rule parse_finished) (use w4(2) in simp)
  also have "\<dots> = Some (Ok \<lparr>tr_name = name, tr_file = file, tr_status = st, tr_logs = map to_entry logs\<rparr>)"
    using apply_logs [of logs] assms(1,3,5)
    by (simp add: apply_record_def tag_from_u8_def lossy_valid apply_all_append case_prod_beta)
  finally show ?thesis using t(1) w3(1) w4(1) by (simp add: assert_program_def write_is_rec)
qed

definition sample_maps :: test_maps where
  "sample_maps = \<lparr>tm_result = replicate TEST_RESULT_MAP_SIZE 0, tm_status_code = 0, tm_asserts = [], tm_assert_count = 0\<rparr>"

theorem report_roundtrip_witness:
  "\<exists>m'. assert_program [97] [98] [OpLog 7 [99] [5], OpSetStatus Skip] [] 0 sample_maps = Some (103, m') \<and>
    parse_test (trim_zeros (tm_result m')) =
      Some (Ok \<lparr>tr_name = [97], tr_file = [98], tr_status = Skip, tr_logs = [\<lparr>le_fmt = [99], le_line = 7, le_args = [5]\<rparr>]\<rparr>)"
  using report_roundtrip [of "[97]" "[98]" "[(7, [99], [5])]" sample_maps Skip "[]" 0]
  by (simp add: ascii_valid log_size_def to_entry_def sample_maps_def TEST_RESULT_MAP_SIZE_def)

text \<open>C29: a test is not reported as a success if it failed. Whatever the body of a test does with its suite, whatever arrange
  and act programs do to the packet and whichever accesses fail, \<open>sub_test\<close> returns \<open>Ok\<close> only when the suite was set up and
  the body, run on the packet those programs left, came to its end with the status \<open>Pass\<close> or \<open>Skip\<close>. So no call
  of \<open>fail\<close> and no buffer assertion that is false of that packet went unnoticed, unless the body itself set another status
  after it; and a report that was cut off by the end of the map is no success.\<close>

theorem success_means_not_failed:
  assumes "sub_test fault script arrange act (assert_program name file body) m = Some (Ok u)"
  defines "packet \<equiv> tested_packet arrange act"
  shows "\<exists>t buf t'. suite_new name file (replicate TEST_RESULT_MAP_SIZE 0) (tm_asserts m) 0 = (Some t, buf) \<and>
    suite_run packet (of_nat (length packet)) body t = Some t' \<and> ts_status t' \<in> {Pass, Skip} \<and>
    (\<forall>pre x post. body = pre @ x # post \<and> list_all keeps_failure post \<longrightarrow>
       x \<noteq> OpFail \<and> (\<forall>a. x = OpAssertBuffer a \<longrightarrow> assert_holds packet a))"
proof -
  let ?n = "of_nat (length packet) :: u32"
  obtain c m1 where a: "assert_program name file body packet ?n (m\<lparr>tm_result := replicate TEST_RESULT_MAP_SIZE 0, tm_assert_count := 0, tm_status_code := c\<rparr>) = Some m1"
    and j: "judge_result fault script (snd m1) = Some (Ok u)"
    using assms(1) unfolding packet_def tested_packet_def
    by (auto simp: sub_test_def Let_def split: option.splits sum.splits prod.splits if_splits dest: optional_step_Ok dest!: optional_step_Inr)
  let ?m = "m\<lparr>tm_result := replicate TEST_RESULT_MAP_SIZE 0, tm_assert_count := 0, tm_status_code := c\<rparr>"
  obtain r buf where new: "suite_new name file (replicate TEST_RESULT_MAP_SIZE 0) (tm_asserts m) 0 = (r, buf)" by fastforce
  obtain w where w: "unfinished w" "tw_buf w = buf" "\<forall>t. r = Some t \<longrightarrow> ts_writer t = w"
    using suite_new_unfinished [OF new] by blast
  show ?thesis
  proof (cases r)
    case None
    with a new have "snd m1 = ?m\<lparr>tm_result := tw_buf w\<rparr>" using w(2) by (auto simp: assert_program_def)
    with j unfinished_judged [OF w(1), of fault script ?m u] show ?thesis by simp
  next
    case (Some t)
    have new': "suite_new name file (tm_result ?m) (tm_asserts ?m) (tm_assert_count ?m) = (Some t, buf)" using new Some by simp
    note a = a [unfolded assert_program_def new' prod.case option.case]
    obtain t' where t': "suite_run packet ?n body t = Some t'" using a by (cases "suite_run packet ?n body t") simp_all
    note a = a [unfolded t' option.case Let_def]
    have "ts_writer t = w" using w(3) Some by blast
    with unfinished_run [OF t'] w(1) have u: "unfinished (ts_writer t')" by simp
    let ?m' = "?m\<lparr>tm_asserts := ts_asserts t', tm_assert_count := ts_assert_count t'\<rparr>"
    have "ts_status t' = Pass \<or> ts_status t' = Skip"
    proof (cases "write_u8 TTestStatus (status_u8 (ts_status t')) (ts_writer t')")
      case None
      with a have "snd m1 = ?m'\<lparr>tm_result := tw_buf (ts_writer t')\<rparr>" by auto
      with j unfinished_judged [OF u, of fault script ?m' u] show ?thesis by simp
    next
      case w': (Some w')
      with a have "snd m1 = ?m'\<lparr>tm_result := tw_buf w'\<rparr>" by auto
      with j finished_judged [OF u w', of fault script ?m' u] show ?thesis by simp
    qed
    then have st: "ts_status t' \<in> {Pass, Skip}" by blast
    then have "\<forall>pre x post. body = pre @ x # post \<and> list_all keeps_failure post \<longrightarrow>
        x \<noteq> OpFail \<and> (\<forall>a. x = OpAssertBuffer a \<longrightarrow> assert_holds packet a)"
      using t' failing_op by blast
    with new Some t' st show ?thesis by blast
  qed
qed

definition zero_assert :: assert_args where
  "zero_assert = \<lparr>aa_file = [98], aa_line = 3, aa_name = [97], aa_first_layer = [], aa_offset = 4, aa_buf = [0, 0], aa_len = 2,
     aa_too_short = [], aa_mismatch = []\<rparr>"

lemma zero_packet: "tested_packet None None = replicate 3520 0"
  by (simp add: tested_packet_def step_output_def PAGE_SIZE_def HEADROOM_def TAILROOM_def)

lemma zero_assert_passes: "assert_buffer_inner (replicate 3520 0) n zero_assert t = Some t"
  by (simp add: assert_buffer_inner_def zero_assert_def Let_def memcmp_loop_take numeral_2_eq_2)

lemma success_sample:
  "sub_test (\<lambda>_. None) (\<lambda>_. ScriptDone) None None (assert_program [97] [98] [OpSkip, OpAssertBuffer zero_assert]) sample_maps = Some (Ok ())"
proof -
  let ?v = "(tag_u8 TVersion, [WIRE_VERSION])" and ?rs = "[(tag_u8 TTestName, [97]), (tag_u8 TTestFile, [98])]"
  have z: "tm_result sample_maps = replicate TEST_RESULT_MAP_SIZE 0" by (simp add: sample_maps_def)
  obtain t where t: "suite_new [97] [98] (tm_result sample_maps) [] 0 = (Some t, tw_buf (ts_writer t))"
      "ts_asserts t = []" "ts_assert_count t = 0" "wrote (ts_writer t) (?v # ?rs)"
    by (rule suite_new_fits [OF _ _ _ z, of "[97]" "[98]" "[]" 0]) (simp_all add: TEST_RESULT_MAP_SIZE_def)
  have "length (enc_all (?v # ?rs)) + 2 + length [status_u8 Skip] \<le> TEST_RESULT_MAP_SIZE"
    by (simp add: enc_def TEST_RESULT_MAP_SIZE_def)
  from write_rec_fits [OF t(4) this, of TTestStatus] obtain w
    where w: "write_u8 TTestStatus (status_u8 Skip) (ts_writer t) = Some w"
      "wrote w (?v # ?rs @ [(tag_u8 TTestStatus, [status_u8 Skip])])" by (auto simp: write_is_rec)
  let ?m = "sample_maps\<lparr>tm_asserts := [], tm_assert_count := 0, tm_result := tw_buf w\<rparr>"
  have "assert_program [97] [98] [OpSkip, OpAssertBuffer zero_assert] (replicate 3520 0) n sample_maps = Some (103, ?m)" for n
    using t w(1) by (simp add: assert_program_def suite_skip_def sample_maps_def zero_assert_passes)
  moreover have "parse_test (trim_zeros (tw_buf w)) = Some (Ok \<lparr>tr_name = [97], tr_file = [98], tr_status = Skip, tr_logs = []\<rparr>)"
    unfolding parse_finished [OF w(2)] by (simp add: apply_record_def tag_from_u8_def status_from_u8_def lossy_valid ascii_valid)
  then have "judge_result (\<lambda>_. None) (\<lambda>_. ScriptDone) ?m = Some (Ok ())"
    by (auto simp: judge_result_def Let_def process_asserts_def sample_maps_def parse_test_def next_tlv_def)
  ultimately show ?thesis by (simp add: sub_test_def Let_def optional_step_def sample_maps_def PAGE_SIZE_def HEADROOM_def TAILROOM_def)
qed

theorem success_means_not_failed_witness:
  "\<exists>t buf t'. suite_new [97] [98] (replicate TEST_RESULT_MAP_SIZE 0) [] 0 = (Some t, buf) \<and>
    suite_run (replicate 3520 0) 3520 [OpSkip, OpAssertBuffer zero_assert] t = Some t' \<and> ts_status t' \<in> {Pass, Skip} \<and>
    assert_holds (replicate 3520 0) zero_assert"
proof -
  have b: "[OpSkip, OpAssertBuffer zero_assert] = [OpSkip] @ OpAssertBuffer zero_assert # [] \<and> list_all keeps_failure []" by simp
  from success_means_not_failed [OF success_sample] obtain t buf t' where
    t: "suite_new [97] [98] (replicate TEST_RESULT_MAP_SIZE 0) [] 0 = (Some t, buf)"
      "suite_run (replicate 3520 0) 3520 [OpSkip, OpAssertBuffer zero_assert] t = Some t'" "ts_status t' \<in> {Pass, Skip}"
      "\<forall>pre x post. [OpSkip, OpAssertBuffer zero_assert] = pre @ x # post \<and> list_all keeps_failure post \<longrightarrow>
         x \<noteq> OpFail \<and> (\<forall>a. x = OpAssertBuffer a \<longrightarrow> assert_holds (replicate 3520 0) a)"
    by (auto simp only: zero_packet length_replicate of_nat_numeral sample_maps_def test_maps.simps)
  then show ?thesis using b by blast
qed

text \<open>The reader panics on a version record without a value.\<close>

lemma empty_version_panics: "parse_test [1, 0] = None"
  by code_simp

text \<open>An assertion that fails on a packet with more than \<open>SCAPY_MAX_BUF\<close> bytes behind the offset stores a length
  that reaches past the buffer: the runner cannot report it.\<close>

lemma large_packet_breaks_report:
  assumes "add_failure name file line layer buf len data offset t = Some t'"
    "unat (ts_assert_count t) < length (ts_asserts t)" "offset + SCAPY_MAX_BUF < length data" "length data < 2 ^ 64"
  shows "serialize_assert (ts_asserts t' ! unat (ts_assert_count t)) \<in> {None, Some (Err SerdeError)}"
proof -
  let ?e = "ts_asserts t' ! unat (ts_assert_count t)"
  obtain actual where a: "sa_actual_buf ?e = actual" "length actual = SCAPY_MAX_BUF"
    "sa_actual_len ?e = of_nat (length data) - of_nat offset"
    using assms(1,2) by (auto simp: add_failure_def Let_def copy_zeroed_def split: option.splits if_splits)
  have "(of_nat (length data) - of_nat offset :: u64) = of_nat (length data - offset)"
    using assms(3) by (simp add: of_nat_diff)
  then have "unat (sa_actual_len ?e) = length data - offset"
    using a(3) assms(4) by (simp add: unat_of_nat)
  then have "length (sa_actual_buf ?e) < unat (sa_actual_len ?e)" using a(1,2) assms(3) by simp
  then show ?thesis by (simp add: serialize_assert_def)
qed

end
