(* ===== verification/Test_Runner.thy ===== *)
theory Test_Runner
  imports Test_Suite "HOL-Library.AList" "HOL-Library.Sublist" "HOL-Library.Char_ord" "HOL-Library.List_Lexorder"
begin

text \<open>
  How the test runner finds its programs and prints its log lines: the grouping of programs by name in
  \<open>run_test\<close> (\<open>sarena-test-runner/src/ebpf_test_runner.rs\<close>) and the formatter of \<open>report.rs\<close>, with the equivalence of its repeated
  replacement and a single pass over the format.
\<close>

section \<open>Formatting\<close>

definition SPECS :: "(u8 list \<times> bool) list" where
  "SPECS =
     [(ascii ''%llu'', False), (ascii ''%lld'', True), (ascii ''%lu'', False), (ascii ''%ld'', True), (ascii ''%u'', False),
      (ascii ''%d'', True), (ascii ''%llx'', False), (ascii ''%lx'', False), (ascii ''%x'', False), (ascii ''%p'', False)]"

text \<open>\<open>str::find\<close> of a text that is not empty.\<close>

fun find_sub :: "u8 list \<Rightarrow> u8 list \<Rightarrow> nat option" where
  "find_sub pat [] = None"
| "find_sub pat (b # bs) = (if prefix pat (b # bs) then Some 0 else map_option Suc (find_sub pat bs))"

text \<open>\<open>filter_map\<close> and \<open>min_by_key\<close>: the first of the specifiers that occur at the smallest position.\<close>

fun best_spec :: "(u8 list \<times> bool) list \<Rightarrow> u8 list \<Rightarrow> (nat \<times> u8 list \<times> bool) option" where
  "best_spec [] out = None"
| "best_spec ((spec, sg) # ss) out =
     (case (find_sub spec out, best_spec ss out) of
        (None, r) \<Rightarrow> r
      | (Some pos, None) \<Rightarrow> Some (pos, spec, sg)
      | (Some pos, Some (pos', r)) \<Rightarrow> if pos' < pos then Some (pos', r) else Some (pos, spec, sg))"

definition zero_pad :: "nat \<Rightarrow> string \<Rightarrow> string" where
  "zero_pad n s = replicate (n - length s) CHR ''0'' @ s"

definition i64_str :: "u64 \<Rightarrow> string" where
  "i64_str w = (if sint w < 0 then ''-'' @ dec_str (nat (- sint w)) else dec_str (nat (sint w)))"

definition replacement :: "u8 list \<Rightarrow> bool \<Rightarrow> u64 \<Rightarrow> u8 list" where
  "replacement spec sg val =
     ascii (if spec = ascii ''%p'' then ''0x'' @ zero_pad 16 (hex_str (unat val))
            else if last spec = of_char (CHR ''x'') then ''0x'' @ hex_str (unat val)
            else if sg then i64_str val
            else dec_str (unat val))"

fun format_loop :: "u64 list \<Rightarrow> u8 list \<Rightarrow> u8 list" where
  "format_loop [] out = out"
| "format_loop (val # args) out =
     (case best_spec SPECS out of
        None \<Rightarrow> out
      | Some (pos, spec, sg) \<Rightarrow>
          format_loop args (take pos out @ replacement spec sg val @ drop (pos + length spec) out))"

definition format_log :: "log_entry \<Rightarrow> u8 list" where
  "format_log e = format_loop (le_args e) (le_fmt e)"

section \<open>A single pass\<close>

definition spec_at :: "u8 list \<Rightarrow> (u8 list \<times> bool) option" where
  "spec_at s = List.find (\<lambda>(spec, _). prefix spec s) SPECS"

function scan :: "u64 list \<Rightarrow> u8 list \<Rightarrow> u8 list" where
  "scan [] s = s"
| "scan (v # vs) [] = []"
| "scan (v # vs) (b # bs) =
     (case spec_at (b # bs) of
        None \<Rightarrow> b # scan (v # vs) bs
      | Some (spec, sg) \<Rightarrow> replacement spec sg v @ scan vs (drop (length spec) (b # bs)))"
  by pat_completeness auto
termination by (relation "measures [\<lambda>(vs, s). length vs, \<lambda>(vs, s). length s]") auto

lemma specs_prefixes: "\<forall>x \<in> set SPECS. \<forall>y \<in> set SPECS. prefix (fst x) (fst y) \<longrightarrow> x = y"
  by code_simp

lemma specs_prefix_free:
  assumes "(p, a) \<in> set SPECS" "(q, b) \<in> set SPECS" "prefix p s" "prefix q s"
  shows "(p, a) = (q, b)"
  using prefix_same_cases [OF assms(3,4)] specs_prefixes [rule_format, OF assms(1,2)] specs_prefixes [rule_format, OF assms(2,1)]
  by auto

lemma specs_shape:
  assumes "(p, a) \<in> set SPECS"
  shows "p \<noteq> [] \<and> hd p = 37 \<and> (\<forall>b \<in> set p. b \<in> {37, 108, 117, 100, 120, 112})"
proof -
  have "\<forall>(x, s) \<in> set SPECS. x \<noteq> [] \<and> hd x = 37 \<and> (\<forall>b \<in> set x. b \<in> {37, 108, 117, 100, 120, 112})" by code_simp
  with assms show ?thesis by blast
qed

lemma spec_at_Some: "spec_at s = Some (p, a) \<longleftrightarrow> (p, a) \<in> set SPECS \<and> prefix p s"
proof
  assume "spec_at s = Some (p, a)"
  then show "(p, a) \<in> set SPECS \<and> prefix p s" using find_SomeD by (fastforce simp: spec_at_def)
next
  assume a: "(p, a) \<in> set SPECS \<and> prefix p s"
  then obtain q b where q: "spec_at s = Some (q, b)" by (cases "spec_at s") (auto simp: spec_at_def find_None_iff)
  then have "(q, b) \<in> set SPECS \<and> prefix q s" using find_SomeD by (fastforce simp: spec_at_def)
  with a q specs_prefix_free [of q b p a s] show "spec_at s = Some (p, a)" by simp
qed

lemma find_sub_Some:
  "find_sub p s = Some k \<longleftrightarrow> k < length s \<and> prefix p (drop k s) \<and> (\<forall>i < k. \<not> prefix p (drop i s))"
proof (induction p s arbitrary: k rule: find_sub.induct)
  case (2 pat b bs)
  then show ?case by (cases k) (auto simp: All_less_Suc2)
qed simp

lemma find_sub_None: "find_sub p s = None \<longleftrightarrow> (\<forall>i < length s. \<not> prefix p (drop i s))"
  by (induction p s rule: find_sub.induct) (auto simp: All_less_Suc2)

lemma best_spec_None: "best_spec ss s = None \<longleftrightarrow> (\<forall>(p, a) \<in> set ss. find_sub p s = None)"
  by (induction ss s rule: best_spec.induct) (auto split: option.splits)

lemma best_spec_Some:
  "best_spec ss s = Some (k, p, a) \<Longrightarrow>
     (p, a) \<in> set ss \<and> find_sub p s = Some k \<and> (\<forall>(q, b) \<in> set ss. \<forall>j. find_sub q s = Some j \<longrightarrow> k \<le> j)"
proof (induction ss s arbitrary: k p a rule: best_spec.induct)
  case (2 spec sg ss out)
  then show ?case
    by (auto split: option.splits if_splits simp: best_spec_None) (fastforce simp: best_spec_None)+
qed simp

section \<open>Both agree\<close>

lemma best_None: "best_spec SPECS s = None \<longleftrightarrow> (\<forall>i < length s. spec_at (drop i s) = None)"
proof -
  have "spec_at t = None \<longleftrightarrow> (\<forall>(p, a) \<in> set SPECS. \<not> prefix p t)" for t
    by (auto simp: spec_at_def find_None_iff)
  then show ?thesis unfolding best_spec_None find_sub_None by blast
qed

lemma best_Some:
  "best_spec SPECS s = Some (k, p, a) \<longleftrightarrow>
     k < length s \<and> spec_at (drop k s) = Some (p, a) \<and> (\<forall>i < k. spec_at (drop i s) = None)"
proof -
  have sound: "k < length s \<and> spec_at (drop k s) = Some (p, a) \<and> (\<forall>i < k. spec_at (drop i s) = None)"
    if b: "best_spec SPECS s = Some (k, p, a)" for k p a
  proof -
    note bs = best_spec_Some [OF b]
    have k: "k < length s" "spec_at (drop k s) = Some (p, a)" using bs by (auto simp: find_sub_Some spec_at_Some)
    have "spec_at (drop i s) = None" if i: "i < k" for i
    proof (rule ccontr)
      assume "spec_at (drop i s) \<noteq> None"
      then obtain q c where q: "(q, c) \<in> set SPECS" "prefix q (drop i s)" by (auto simp: spec_at_Some)
      then obtain j where j: "find_sub q s = Some j" using i k(1) by (cases "find_sub q s") (auto simp: find_sub_None)
      then have "j \<le> i" using q(2) by (metis find_sub_Some linorder_not_le)
      with bs q(1) j i show False by fastforce
    qed
    with k show ?thesis by blast
  qed
  show ?thesis
  proof
    assume a: "k < length s \<and> spec_at (drop k s) = Some (p, a) \<and> (\<forall>i < k. spec_at (drop i s) = None)"
    then have "best_spec SPECS s \<noteq> None" unfolding best_None by (metis option.distinct(1))
    then obtain k' p' a' where b: "best_spec SPECS s = Some (k', p', a')" by auto
    from sound [OF b] a have "k' = k" by (metis linorder_neqE_nat option.distinct(1))
    with sound [OF b] a b show "best_spec SPECS s = Some (k, p, a)" by simp
  qed (rule sound)
qed

lemma scan_none: "\<forall>i < length s. spec_at (drop i s) = None \<Longrightarrow> scan vs s = s"
proof (induction s arbitrary: vs)
  case Nil
  then show ?case by (cases vs) simp_all
next
  case (Cons b bs)
  then show ?case by (cases vs) (auto simp: All_less_Suc2)
qed

lemma scan_first:
  assumes "k < length s" "spec_at (drop k s) = Some (p, a)" "\<forall>i < k. spec_at (drop i s) = None"
  shows "scan (v # vs) s = take k s @ replacement p a v @ scan vs (drop (k + length p) s)"
  using assms
proof (induction k arbitrary: s)
  case 0
  then show ?case by (cases s) auto
next
  case (Suc k)
  then show ?case by (cases s) (auto simp: All_less_Suc2)
qed

text \<open>Text in which no specifier starts, whatever follows it.\<close>

definition quiet :: "u8 list \<Rightarrow> bool" where
  "quiet p \<longleftrightarrow> (\<forall>i < length p. \<forall>rest. spec_at (drop i p @ rest) = None)"

lemma format_quiet:
  assumes "quiet p"
  shows "format_loop vs (p @ s) = p @ format_loop vs s"
proof (induction vs arbitrary: s)
  case (Cons v vs)
  have q: "spec_at (drop i (p @ s)) = None" if "i < length p" for i using assms that by (simp add: quiet_def)
  show ?case
  proof (cases "best_spec SPECS s")
    case None
    then have n: "spec_at (drop i s) = None" if "i < length s" for i using that by (simp add: best_None)
    have "spec_at (drop i (p @ s)) = None" if "i < length (p @ s)" for i
      using q [of i] n [of "i - length p"] that by (cases "i < length p") auto
    then have "best_spec SPECS (p @ s) = None" by (simp add: best_None)
    with None show ?thesis by simp
  next
    case (Some x)
    obtain k sp sg where x: "x = (k, sp, sg)" by (cases x)
    then have b: "k < length s" "spec_at (drop k s) = Some (sp, sg)" "\<forall>i < k. spec_at (drop i s) = None"
      using Some best_Some by auto
    have "spec_at (drop i (p @ s)) = None" if "i < length p + k" for i
      using q [of i] b(3) that by (cases "i < length p") auto
    then have "best_spec SPECS (p @ s) = Some (length p + k, sp, sg)" using b(1,2) by (simp add: best_Some)
    with Some x Cons.IH show ?thesis by simp
  qed
qed simp

definition number_chars :: "char set" where
  "number_chars = set ''0123456789abcdefx-''"

lemma digit_char_numbers:
  "d < 10 \<Longrightarrow> of_char (digit_char d) \<notin> {37, 108, 117, 100, 120, 112 :: u8}" "d < 16 \<Longrightarrow> digit_char d \<in> number_chars"
proof -
  have "list_all (\<lambda>d. of_char (digit_char d) \<notin> {37, 108, 117, 100, 120, 112 :: u8}) [0..<10]"
    "list_all (\<lambda>d. digit_char d \<in> number_chars) [0..<16]" by code_simp+
  then show "d < 10 \<Longrightarrow> of_char (digit_char d) \<notin> {37, 108, 117, 100, 120, 112 :: u8}" "d < 16 \<Longrightarrow> digit_char d \<in> number_chars"
    by (auto simp: list_all_iff)
qed

lemma radix_str_numbers: "set (dec_str n) \<subseteq> number_chars" "set (hex_str n) \<subseteq> number_chars"
  using radix_str_digits [of 10 _ n] radix_str_digits [of 16 _ n] digit_char_numbers(2) by fastforce+

lemma dec_str_hd: "of_char (hd (dec_str n)) \<notin> {37, 108, 117, 100, 120, 112 :: u8}"
  using radix_str_digits [OF _ hd_in_set [OF radix_str_nonempty], of 10 n] digit_char_numbers(1) by fastforce

lemma replacement_plain:
  "replacement sp sg v \<noteq> []" "hd (replacement sp sg v) \<notin> {37, 108, 117, 100, 120, 112}" "37 \<notin> set (replacement sp sg v)"
proof -
  let ?S = "if sp = ascii ''%p'' then ''0x'' @ zero_pad 16 (hex_str (unat v))
            else if last sp = of_char (CHR ''x'') then ''0x'' @ hex_str (unat v)
            else if sg then i64_str v
            else dec_str (unat v)"
  have r: "replacement sp sg v = map of_char ?S" by (simp add: replacement_def ascii_def)
  have ne: "?S \<noteq> []" by (simp add: i64_str_def)
  then show "replacement sp sg v \<noteq> []" unfolding r by simp
  have i: "i64_str v \<noteq> []" "of_char (hd (i64_str v)) \<notin> {37, 108, 117, 100, 120, 112 :: u8}"
    using dec_str_hd [of "nat (sint v)"] by (simp_all add: i64_str_def)
  then have "of_char (hd ?S) \<notin> {37, 108, 117, 100, 120, 112 :: u8}" using dec_str_hd [of "unat v"] by simp
  then show "hd (replacement sp sg v) \<notin> {37, 108, 117, 100, 120, 112}" 
    unfolding r hd_map [OF ne] .
  have c: "CHR ''0'' \<in> number_chars" "CHR ''x'' \<in> number_chars" "CHR ''-'' \<in> number_chars" by (simp_all add: number_chars_def)
  then have "set (i64_str v) \<subseteq> number_chars" using radix_str_numbers(1) by (simp add: i64_str_def)
  then have all: "set ?S \<subseteq> number_chars" using c radix_str_numbers by (auto simp: zero_pad_def)
  have "\<forall>c \<in> number_chars. of_char c \<noteq> (37 :: u8)" unfolding number_chars_def by code_simp
  with all show "37 \<notin> set (replacement sp sg v)" unfolding r by fastforce
qed

lemma prefix_nth: "prefix q t \<Longrightarrow> n < length q \<Longrightarrow> q ! n = t ! n"
  by (auto simp: prefix_def nth_append)

lemma quiet_replaced:
  assumes "\<forall>i < k. spec_at (drop i s) = None" "k \<le> length s"
  shows "quiet (take k s @ replacement sp sg v)"
  unfolding quiet_def
proof (intro allI impI, rule ccontr)
  fix i rest
  let ?r = "replacement sp sg v"
  let ?x = "drop i (take k s)"
  assume i: "i < length (take k s @ ?r)" and "spec_at (drop i (take k s @ ?r) @ rest) \<noteq> None"
  then obtain q b where q: "(q, b) \<in> set SPECS" "prefix q (drop i (take k s @ ?r) @ rest)"
    by (auto simp: spec_at_Some)
  note sh = specs_shape [OF q(1)]
  show False
  proof (cases "i < k")
    case False
    then have l: "i - k < length ?r" "drop i (take k s @ ?r) = drop (i - k) ?r" using i assms(2) by simp_all
    have "q ! 0 = (drop (i - k) ?r @ rest) ! 0" using prefix_nth [OF q(2) [unfolded l(2)], of 0] sh by simp
    moreover have "hd q = q ! 0" using sh hd_conv_nth by blast
    ultimately have "hd q = ?r ! (i - k)" using l(1) by (simp add: nth_append)
    then show False using sh l(1) replacement_plain(3) by (metis nth_mem)
  next
    case True
    then have d: "drop i (take k s @ ?r) = ?x @ ?r" using assms(2) by simp
    show False
    proof (cases "length q \<le> length ?x")
      case True
      then have "prefix q ?x" using q(2) d by (metis append.assoc prefix_length_prefix prefixI)
      moreover have "prefix ?x (drop i s)" by (simp add: drop_take take_is_prefix)
      ultimately have "spec_at (drop i s) = Some (q, b)" using q(1) by (meson prefix_order.trans spec_at_Some)
      with assms(1) \<open>i < k\<close> show False by simp
    next
      case False
      then have "q ! length ?x = ((?x @ ?r) @ rest) ! length ?x" using prefix_nth [OF q(2), of "length ?x"] d by simp
      also have "\<dots> = hd ?r" using replacement_plain(1) [of sp sg v] by (simp add: nth_append hd_conv_nth)
      finally have "hd ?r \<in> set q" using False by (metis linorder_not_le nth_mem)
      then show False using sh replacement_plain(2) by blast
    qed
  qed
qed

text \<open>C31: the formatter replaces specifiers one after the other, searching the text from its start each time; the result
  is that of a single pass that replaces each specifier by its argument and never looks at
  replaced text again, for every format and any arguments.\<close>

theorem format_log_single_pass: "format_log e = scan (le_args e) (le_fmt e)"
proof -
  have "format_loop vs s = scan vs s" for vs s
  proof (induction vs arbitrary: s)
    case (Cons v vs)
    show ?case
    proof (cases "best_spec SPECS s")
      case None
      then have "\<forall>i < length s. spec_at (drop i s) = None" by (simp add: best_None)
      from scan_none [OF this, of "v # vs"] None show ?thesis by simp
    next
      case (Some x)
      obtain k sp sg where x: "x = (k, sp, sg)" by (cases x)
      then have b: "k < length s" "spec_at (drop k s) = Some (sp, sg)" "\<forall>i < k. spec_at (drop i s) = None"
        using Some best_Some by auto
      have "quiet (take k s @ replacement sp sg v)" using quiet_replaced [OF b(3)] b(1) by simp
      from format_quiet [OF this, of vs "drop (k + length sp) s"] Some x Cons.IH scan_first [OF b, of v vs]
      show ?thesis by simp
    qed
  qed simp
  then show ?thesis by (simp add: format_log_def)
qed

section \<open>Finding and running the tests\<close>

datatype program_type = PArrange | PAct | PAssert

fun ptype_prefix :: "program_type \<Rightarrow> string" where
  "ptype_prefix PArrange = ''__test_fw_arrange_''"
| "ptype_prefix PAct = ''__test_fw_act_''"
| "ptype_prefix PAssert = ''__test_fw_assert_''"

text \<open>The expression \<open>^__test_fw_(arrange|act|assert)_(.+)$\<close>: no line break in the name.\<close>

definition captures :: "string \<Rightarrow> (program_type \<times> string) option" where
  "captures prog =
     (case List.find (\<lambda>pt. prefix (ptype_prefix pt) prog) [PArrange, PAct, PAssert] of
        None \<Rightarrow> None
      | Some pt \<Rightarrow>
          let name = drop (length (ptype_prefix pt)) prog
          in if name = [] \<or> CHR 0x0A \<in> set name then None else Some (pt, name))"

record program_set =
  arrange_name :: "string option"
  act_name :: "string option"
  assert_name :: "string option"

definition empty_set :: program_set where
  "empty_set = \<lparr>arrange_name = None, act_name = None, assert_name = None\<rparr>"

text \<open>A second program for the same slot is a panic.\<close>

fun put_program :: "program_type \<Rightarrow> string \<Rightarrow> program_set \<Rightarrow> program_set option" where
  "put_program PArrange p s = (if arrange_name s \<noteq> None then None else Some (s\<lparr>arrange_name := Some p\<rparr>))"
| "put_program PAct p s = (if act_name s \<noteq> None then None else Some (s\<lparr>act_name := Some p\<rparr>))"
| "put_program PAssert p s = (if assert_name s \<noteq> None then None else Some (s\<lparr>assert_name := Some p\<rparr>))"

fun collect_groups :: "string list \<Rightarrow> (string \<times> program_set) list \<Rightarrow> (string \<times> program_set) list option" where
  "collect_groups [] gs = Some gs"
| "collect_groups (p # ps) gs =
     (case captures p of
        None \<Rightarrow> collect_groups ps gs
      | Some (pt, name) \<Rightarrow>
          (case put_program pt p (case map_of gs name of None \<Rightarrow> empty_set | Some s \<Rightarrow> s) of
             None \<Rightarrow> None
           | Some s \<Rightarrow> collect_groups ps (AList.update name s gs)))"

datatype test_runner_error = MissingCheck string | MapNotFound string | LoadError string | Inner runner_error

fun first_error :: "('a \<Rightarrow> 'e option) \<Rightarrow> 'a list \<Rightarrow> 'e option" where
  "first_error f [] = None"
| "first_error f (x # xs) = (case f x of Some e \<Rightarrow> Some e | None \<Rightarrow> first_error f xs)"

definition set_programs :: "program_set \<Rightarrow> string list" where
  "set_programs s = List.map_filter (\<lambda>x. x) [arrange_name s, act_name s, assert_name s]"

fun run_all :: "(string \<Rightarrow> program_set \<Rightarrow> (unit, runner_error) result option) \<Rightarrow> (string \<times> program_set) list \<Rightarrow>
     (unit, test_runner_error) result option" where
  "run_all run [] = Some (Ok ())"
| "run_all run ((name, s) # gs) =
     (case run name s of
        None \<Rightarrow> None
      | Some (Err e) \<Rightarrow> Some (Err (Inner e))
      | Some (Ok _) \<Rightarrow> run_all run gs)"

text \<open>\<open>load\<close> and \<open>take_map\<close> say which programs and maps cannot be had, \<open>run\<close> is \<open>sub_test\<close> on the programs of a set.
  The \<open>BTreeMap\<close> yields the tests in the order of their names.\<close>

definition run_test ::
  "(string \<Rightarrow> test_runner_error option) \<Rightarrow> (string \<Rightarrow> test_runner_error option) \<Rightarrow>
     (string \<Rightarrow> program_set \<Rightarrow> (unit, runner_error) result option) \<Rightarrow> string list \<Rightarrow> (unit, test_runner_error) result option" where
  "run_test load take_map run progs =
     (case collect_groups progs [] of
        None \<Rightarrow> None
      | Some gs \<Rightarrow>
          let groups = sort_key fst gs
          in case first_error (\<lambda>(n, s). if assert_name s = None then Some (MissingCheck n) else None) groups of
               Some e \<Rightarrow> Some (Err e)
             | None \<Rightarrow> (case first_error load (concat (map (set_programs \<circ> snd) groups)) of
                   Some e \<Rightarrow> Some (Err e)
                 | None \<Rightarrow> (case first_error take_map
                       [''test_suite_result'', ''test_suite_status_code'', ''scapy_assert_map'', ''scapy_assert_map_count''] of
                       Some e \<Rightarrow> Some (Err e)
                     | None \<Rightarrow> run_all run groups)))"

fun slot :: "program_type \<Rightarrow> program_set \<Rightarrow> string option" where
  "slot PArrange s = arrange_name s"
| "slot PAct s = act_name s"
| "slot PAssert s = assert_name s"

lemma put_program_slot:
  assumes "put_program pt p s = Some s'"
  shows "slot pt s = None \<and> (\<forall>pt'. slot pt' s' = (if pt' = pt then Some p else slot pt' s))"
proof -
  have "slot pt' s' = (if pt' = pt then Some p else slot pt' s)" for pt'
    using assms by (cases pt; cases pt') (auto split: if_splits)
  moreover have "slot pt s = None" using assms by (cases pt) (auto split: if_splits)
  ultimately show ?thesis by blast
qed

text \<open>Every program found is in its slot, and the slots hold nothing else.\<close>

definition groups_ok :: "string set \<Rightarrow> (string \<times> program_set) list \<Rightarrow> bool" where
  "groups_ok P gs \<longleftrightarrow> distinct (map fst gs) \<and>
     (\<forall>p \<in> P. \<forall>pt n. captures p = Some (pt, n) \<longrightarrow> (\<exists>s. map_of gs n = Some s \<and> slot pt s = Some p)) \<and>
     (\<forall>n s pt q. map_of gs n = Some s \<longrightarrow> slot pt s = Some q \<longrightarrow> q \<in> P \<and> captures q = Some (pt, n))"

lemma groups_ok_put:
  assumes "groups_ok P gs" "captures p = Some (pt, n)"
    "put_program pt p (case map_of gs n of None \<Rightarrow> empty_set | Some s \<Rightarrow> s) = Some s'"
  shows "groups_ok (insert p P) (AList.update n s' gs)"
proof -
  note u = update_conv' [of n s' gs]
  have sl: "slot pt' s' = (if pt' = pt then Some p else case map_of gs n of None \<Rightarrow> None | Some s \<Rightarrow> slot pt' s)" for pt'
    using put_program_slot [OF assms(3)] by (cases pt') (auto simp: empty_set_def split: option.splits)
  have free: "map_of gs n = Some s \<Longrightarrow> slot pt s = None" for s using put_program_slot [OF assms(3)] by simp
  have "\<exists>s. map_of (AList.update n s' gs) m = Some s \<and> slot t s = Some q"
    if "q \<in> insert p P" "captures q = Some (t, m)" for q t m
    using that assms(1,2) free unfolding groups_ok_def u by (cases "q = p") (fastforce simp: sl)+
  moreover have "q \<in> insert p P \<and> captures q = Some (t, m)"
    if "map_of (AList.update n s' gs) m = Some s" "slot t s = Some q" for m s t q
    using that assms(1,2) sl [of t] unfolding groups_ok_def u by (cases "m = n") (auto split: if_splits option.splits)
  moreover have "distinct (map fst (AList.update n s' gs))" using assms(1) by (simp add: groups_ok_def distinct_update)
  ultimately show ?thesis unfolding groups_ok_def by blast
qed

lemma collect_groups_ok: "collect_groups ps gs = Some gs' \<Longrightarrow> groups_ok P gs \<Longrightarrow> groups_ok (P \<union> set ps) gs'"
proof (induction ps gs arbitrary: P rule: collect_groups.induct)
  case (2 p ps gs)
  show ?case
  proof (cases "captures p")
    case None
    with 2(4) have "groups_ok (insert p P) gs" by (auto simp: groups_ok_def)
    with 2(1) [OF None] 2(3) None show ?thesis by fastforce
  next
    case (Some x)
    obtain pt n where x: "x = (pt, n)" by fastforce
    with Some 2(3) obtain s where s: "put_program pt p (case map_of gs n of None \<Rightarrow> empty_set | Some s \<Rightarrow> s) = Some s"
      "collect_groups ps (AList.update n s gs) = Some gs'" by (auto split: option.splits)
    have "groups_ok (insert p P) (AList.update n s gs)" using groups_ok_put [OF 2(4) _ s(1)] Some x by simp
    from 2(2) [OF Some x [symmetric] s(1,2) this] show ?thesis by simp
  qed
qed simp

lemma first_error_None: "first_error f xs = None \<longleftrightarrow> (\<forall>x \<in> set xs. f x = None)"
  by (induction xs) (auto split: option.splits)

lemma run_all_Ok: "run_all run gs = Some (Ok u) \<Longrightarrow> (n, s) \<in> set gs \<Longrightarrow> run n s = Some (Ok ())"
  by (induction run gs rule: run_all.induct) (auto split: option.splits result.splits)

lemma captures_Some: "captures p = Some (pt, n) \<Longrightarrow> p = ptype_prefix pt @ n"
  by (auto simp: captures_def Let_def prefix_def dest!: find_SomeD split: option.splits if_splits)

text \<open>When a run of the tests ends without an error, every program that was found by its name belongs to a test whose
  assert program was found too, and that test was run with this program and succeeded.\<close>

lemma all_found_tests_ran:
  assumes "run_test load take_map run progs = Some (Ok u)" "p \<in> set progs" "captures p = Some (pt, n)"
  shows "\<exists>s. run n s = Some (Ok ()) \<and> slot pt s = Some p \<and> assert_name s = Some (''__test_fw_assert_'' @ n) \<and>
    ''__test_fw_assert_'' @ n \<in> set progs"
proof -
  obtain gs where gs: "collect_groups progs [] = Some gs"
    "first_error (\<lambda>(n, s). if assert_name s = None then Some (MissingCheck n) else None) (sort_key fst gs) = None"
    "run_all run (sort_key fst gs) = Some (Ok ())"
    using assms(1) by (auto simp: run_test_def Let_def split: option.splits)
  have "groups_ok {} []" by (simp add: groups_ok_def)
  from collect_groups_ok [OF gs(1) this] have ok: "groups_ok (set progs) gs" by simp
  then obtain s where s: "map_of gs n = Some s" "slot pt s = Some p" using assms(2,3) unfolding groups_ok_def by blast
  then have m: "(n, s) \<in> set (sort_key fst gs)" by (auto dest: map_of_SomeD)
  then have "assert_name s \<noteq> None" using gs(2) by (auto simp: first_error_None split: if_splits)
  then obtain q where q: "slot PAssert s = Some q" by auto
  then have "q \<in> set progs" "captures q = Some (PAssert, n)" using ok s(1) unfolding groups_ok_def by blast+
  with captures_Some q s(2) run_all_Ok [OF gs(3) m] show ?thesis by fastforce
qed

lemma all_found_tests_ran_witness:
  "\<exists>s. (\<lambda>n s. Some (Ok ())) ''a'' s = Some (Ok ()) \<and> slot PAct s = Some ''__test_fw_act_a'' \<and>
    assert_name s = Some ''__test_fw_assert_a''"
proof -
  have "run_test (\<lambda>_. None) (\<lambda>_. None) (\<lambda>n s. Some (Ok ())) [''__test_fw_act_a'', ''from_host'', ''__test_fw_assert_a''] = Some (Ok ())"
    "captures ''__test_fw_act_a'' = Some (PAct, ''a'')" by code_simp+
  from all_found_tests_ran [OF this(1) _ this(2)] show ?thesis by auto
qed

end
