(* ===== verification/Backoff.thy ===== *)
theory Backoff
  imports Complex_Main Sarena_Prelude
begin

text \<open>
  The retry delays of the controllers, \<open>controller/backoff.rs\<close>: \<open>Backoff\<close>, \<open>delay\<close> and
  \<open>jittered\<close>. A \<open>Duration\<close> is its number of nanoseconds. A finite \<open>f64\<close> is the rational it
  denotes; every floating-point operation rounds its exact result with \<open>rnd\<close>, which stands for
  the rounding of the hardware to the nearest double. A panic of \<open>mul_f64\<close> is \<open>None\<close>.
\<close>

section \<open>Durations and floating-point numbers\<close>

type_synonym duration = nat

definition NANOS_PER_SEC :: nat where
  "NANOS_PER_SEC = 1000000000"

definition DURATION_MAX :: duration where
  "DURATION_MAX = 2 ^ 64 * NANOS_PER_SEC - 1"

definition from_secs :: "nat \<Rightarrow> duration" where
  "from_secs s = s * NANOS_PER_SEC"

definition saturating_mul :: "duration \<Rightarrow> nat \<Rightarrow> duration" where
  "saturating_mul d n = min (d * n) DURATION_MAX"

datatype f64 = NaN | NegInf | PosInf | Num rat

definition round_half_even :: "rat \<Rightarrow> int" where
  "round_half_even x =
     (let f = \<lfloor>x\<rfloor>; d = x - of_int f in
      if d < 1 / 2 then f else if 1 / 2 < d then f + 1 else if even f then f else f + 1)"

definition as_secs_f64 :: "(rat \<Rightarrow> rat) \<Rightarrow> duration \<Rightarrow> rat" where
  "as_secs_f64 rnd d =
     rnd (rnd (of_nat (d div NANOS_PER_SEC)) + rnd (of_nat (d mod NANOS_PER_SEC) / of_nat NANOS_PER_SEC))"

definition from_secs_f64 :: "rat \<Rightarrow> duration option" where
  "from_secs_f64 x =
     (if x < 0 \<or> 2 ^ 64 \<le> x then None else Some (nat (round_half_even (x * of_nat NANOS_PER_SEC))))"

definition mul_f64 :: "(rat \<Rightarrow> rat) \<Rightarrow> duration \<Rightarrow> rat \<Rightarrow> duration option" where
  "mul_f64 rnd d x = from_secs_f64 (rnd (x * as_secs_f64 rnd d))"

section \<open>Backoff\<close>

datatype backoff =
    NoBackoff
  | Linear duration duration
  | Exponential duration duration f64

definition backoff_default :: backoff where
  "backoff_default = Exponential (from_secs 1) (from_secs 300) (Num (1 / 2))"

text \<open>The loop of the exponential branch, with its number of rounds and its early exit.\<close>

primrec exp_loop :: "nat \<Rightarrow> duration \<Rightarrow> duration \<Rightarrow> duration" where
  "exp_loop 0 mx d = d"
| "exp_loop (Suc k) mx d = (if mx \<le> d then d else exp_loop k mx (min (saturating_mul d 2) mx))"

fun delay :: "backoff \<Rightarrow> u32 \<Rightarrow> duration option" where
  "delay NoBackoff e = None"
| "delay (Linear base mx) e = Some (min (saturating_mul base (max (unat e) 1)) mx)"
| "delay (Exponential base mx _) e =
     (let d = min base mx in if d = 0 then Some d else Some (exp_loop (max (unat e) 1 - 1) mx d))"

fun f64_unit :: "f64 \<Rightarrow> rat" where
  "f64_unit NaN = 0"
| "f64_unit NegInf = 0"
| "f64_unit PosInf = 1"
| "f64_unit (Num x) = (if x < 0 then 0 else if 1 < x then 1 else x)"

fun jitter_of :: "backoff \<Rightarrow> rat" where
  "jitter_of (Exponential _ _ j) = f64_unit j"
| "jitter_of _ = 0"

text \<open>\<open>None\<close> is the panic of \<open>mul_f64\<close>, \<open>Some None\<close> the absence of a delay.\<close>

definition jittered :: "(rat \<Rightarrow> rat) \<Rightarrow> backoff \<Rightarrow> u32 \<Rightarrow> f64 \<Rightarrow> duration option option" where
  "jittered rnd b e r =
     (case delay b e of
        None \<Rightarrow> Some None
      | Some d \<Rightarrow> map_option Some (mul_f64 rnd d (rnd (1 - rnd (jitter_of b * f64_unit r)))))"

section \<open>Lemmas\<close>

lemma f64_unit_bounds: "0 \<le> f64_unit x" "f64_unit x \<le> 1"
  by (cases x; simp)+

lemma jitter_of_bounds: "0 \<le> jitter_of b" "jitter_of b \<le> 1"
  by (cases b; simp add: f64_unit_bounds)+

lemma saturating_mul_min: "m \<le> DURATION_MAX \<Longrightarrow> min (saturating_mul d n) m = min (d * n) m"
  by (simp add: saturating_mul_def)

lemma exp_loop_closed:
  "mx \<le> DURATION_MAX \<Longrightarrow> 0 < d \<Longrightarrow> exp_loop k mx (min d mx) = min (d * 2 ^ k) mx"
proof (induction k arbitrary: d)
  case (Suc k)
  show ?case
  proof (cases "mx \<le> d")
    case True
    then have "mx \<le> d * 2 ^ Suc k" using le_trans [OF True, of "d * 2 ^ Suc k"] by simp
    with True show ?thesis by (simp add: min_absorb2)
  next
    case False
    then have "exp_loop (Suc k) mx (min d mx) = exp_loop k mx (min (d * 2) mx)"
      by (simp add: saturating_mul_min [OF Suc.prems(1)] min_absorb1)
    also have "\<dots> = min (d * 2 ^ Suc k) mx" using Suc.IH [of "d * 2"] Suc.prems by (simp add: ac_simps)
    finally show ?thesis .
  qed
qed simp

lemma delay_linear: "mx \<le> DURATION_MAX \<Longrightarrow> delay (Linear base mx) e = Some (min (base * max (unat e) 1) mx)"
  by (simp add: saturating_mul_min)

lemma delay_exponential:
  assumes "mx \<le> DURATION_MAX"
  shows "delay (Exponential base mx j) e = Some (min (base * 2 ^ (unat e - 1)) mx)"
proof (cases "min base mx = 0")
  case True
  then show ?thesis by (auto simp: Let_def min_def split: if_splits)
next
  case False
  have "max (unat e) 1 - 1 = unat e - 1" by (simp add: max_def)
  moreover have "0 < base" using False by (auto simp: min_def split: if_splits)
  ultimately show ?thesis
    unfolding delay.simps Let_def if_not_P [OF False] by (simp only: exp_loop_closed [OF assms])
qed

lemma delay_exponential_mono:
  assumes "mx \<le> DURATION_MAX" "e \<le> e'"
  shows "the (delay (Exponential base mx j) e) \<le> the (delay (Exponential base mx j) e')"
  using assms(2) unfolding delay_exponential [OF assms(1)] word_le_nat_alt option.sel
  by (intro min.mono order_refl mult_le_mono2 power_increasing diff_le_mono) simp_all

lemma round_half_even_between: "\<lfloor>x\<rfloor> \<le> round_half_even x" "round_half_even x \<le> \<lfloor>x\<rfloor> + 1"
  by (simp_all add: round_half_even_def Let_def)

lemma round_half_even_mono:
  assumes "x \<le> y" shows "round_half_even x \<le> round_half_even y"
proof (cases "\<lfloor>x\<rfloor> = \<lfloor>y\<rfloor>")
  case True
  with assms show ?thesis by (simp add: round_half_even_def Let_def)
next
  case False
  with floor_mono [OF assms] have "\<lfloor>x\<rfloor> + 1 \<le> \<lfloor>y\<rfloor>" by linarith
  then show ?thesis using round_half_even_between [of x] round_half_even_between [of y] by linarith
qed

lemma from_secs_f64_mono:
  assumes "0 \<le> x" "x \<le> y" "from_secs_f64 y = Some d"
  shows "\<exists>d'. from_secs_f64 x = Some d' \<and> d' \<le> d"
  using assms round_half_even_mono [of "x * of_nat NANOS_PER_SEC" "y * of_nat NANOS_PER_SEC"]
  by (auto simp: from_secs_f64_def mult_right_mono intro!: nat_mono split: if_splits)

text \<open>The delay after \<open>n\<close> consecutive errors. A linear backoff waits \<open>n\<close> times its base and an
  exponential one doubles its base \<open>n - 1\<close> times, both capped at the maximum; the first error counts
  as one, the loop of the code gives the closed form whatever the saturation of \<open>Duration\<close>, and the delay never
  shrinks when errors accumulate.\<close>

lemma backoff_delay_closed_form:
  assumes "mx \<le> DURATION_MAX" "e \<le> e'"
  shows "delay (Linear base mx) e = Some (min (base * max (unat e) 1) mx) \<and>
    delay (Exponential base mx j) e = Some (min (base * 2 ^ (unat e - 1)) mx) \<and>
    the (delay (Exponential base mx j) e) \<le> the (delay (Exponential base mx j) e')"
  by (intro conjI delay_linear [OF assms(1)] delay_exponential [OF assms(1)] delay_exponential_mono [OF assms])

lemma backoff_delay_closed_form_witness:
  "delay (Linear 3 20) 3 = Some 9 \<and> delay (Exponential 3 20 NaN) 3 = Some 12 \<and>
   the (delay (Exponential 3 20 NaN) 3) \<le> the (delay (Exponential 3 20 NaN) 4)"
proof -
  have "(20 :: nat) \<le> DURATION_MAX" by (simp add: DURATION_MAX_def NANOS_PER_SEC_def)
  then show ?thesis using backoff_delay_closed_form [of 20 3 4 3 NaN] by simp
qed

text \<open>Jitter only shortens. With the rounding of floating-point numbers monotone and exact on 0 and 1,
  a jittered delay exists whenever the delay survives the conversion to seconds and back,
  and is never longer than that.\<close>

lemma jitter_only_shortens:
  assumes "mono rnd" "rnd 0 = 0" "rnd 1 = 1" "delay b e = Some d" "mul_f64 rnd d 1 = Some d1"
  shows "\<exists>d'. jittered rnd b e r = Some (Some d') \<and> d' \<le> d1"
proof -
  let ?s = "as_secs_f64 rnd d" and ?f = "rnd (1 - rnd (jitter_of b * f64_unit r))"
  have r: "0 \<le> x \<Longrightarrow> 0 \<le> rnd x" "x \<le> 1 \<Longrightarrow> rnd x \<le> 1" for x
    using monoD [OF assms(1), of 0 x] monoD [OF assms(1), of x 1] assms(2,3) by simp_all
  have s: "0 \<le> ?s" unfolding as_secs_f64_def by (intro r add_nonneg_nonneg) simp_all
  have "0 \<le> jitter_of b * f64_unit r" "jitter_of b * f64_unit r \<le> 1"
    using f64_unit_bounds jitter_of_bounds by (simp_all add: mult_le_one)
  then have f: "0 \<le> ?f" "?f \<le> 1" using r by simp_all
  then have "?f * ?s \<le> 1 * ?s" using s by (intro mult_right_mono)
  then have "rnd (?f * ?s) \<le> rnd (1 * ?s)" by (rule monoD [OF assms(1)])
  moreover have "0 \<le> rnd (?f * ?s)" using f s by (intro r) simp
  ultimately have "\<exists>d'. mul_f64 rnd d ?f = Some d' \<and> d' \<le> d1"
    using from_secs_f64_mono assms(5) unfolding mul_f64_def by blast
  then show ?thesis using assms(4) by (auto simp: jittered_def)
qed

lemma jitter_only_shortens_witness:
  "\<exists>d'. jittered (\<lambda>x. x) backoff_default 2 PosInf = Some (Some d') \<and> d' \<le> from_secs 2"
proof -
  have m: "from_secs 300 \<le> DURATION_MAX" by (simp add: DURATION_MAX_def from_secs_def NANOS_PER_SEC_def)
  have "delay backoff_default 2 = Some (from_secs 2)"
    unfolding backoff_default_def delay_exponential [OF m] by (simp add: from_secs_def NANOS_PER_SEC_def)
  moreover have "mul_f64 (\<lambda>x. x) (from_secs 2) 1 = Some (from_secs 2)"
    by (simp add: mul_f64_def as_secs_f64_def from_secs_f64_def from_secs_def NANOS_PER_SEC_def round_half_even_def)
  ultimately show ?thesis
    by (intro jitter_only_shortens [of "\<lambda>x. x"]) (simp_all add: mono_def)
qed

end
