(* ===== verification/Controller.thy ===== *)
theory Controller
  imports Backoff "HOL-Library.Char_ord" "HOL-Library.List_Lexorder" "HOL-Library.Product_Lexorder"
    "HOL-Library.Multiset"
begin

text \<open>
  Background controllers, \<open>controller/*.rs\<close>: a manager keeps named controllers, each a task that
  runs its job, waits and runs it again until it is stopped, and then runs its stop hook once.
  A task is a state machine whose steps are the \<open>await\<close> points of \<open>Runner::run\<close>; the manager's calls
  and the steps of the tasks interleave freely (\<open>reachable\<close>). What a job or a hook returns, how long it takes, the clock and the random
  number of the jitter come with the step. Jobs and hooks are opaque values, so that a trace
  shows which job and which hook ran. The \<open>watch\<close> channel of the specification is its last value
  and whether the task has seen it; a cancellation token is a flag.
\<close>

section \<open>Jobs, errors and specifications\<close>

datatype flow = Continue | Done

datatype run_error = Failed string | Panicked string | TimedOut duration

text \<open>How a future ends: it returns a value or an error, or panics with a payload.\<close>

datatype panic_payload = StrPayload string | StringPayload string | OtherPayload

datatype 'a outcome = Returns 'a | Fails string | Panics panic_payload

fun panic_message :: "panic_payload \<Rightarrow> string" where
  "panic_message (StrPayload s) = s"
| "panic_message (StringPayload s) = s"
| "panic_message OtherPayload = ''unknown panic payload''"

fun catch_panic :: "'a outcome \<Rightarrow> ('a, run_error) result" where
  "catch_panic (Returns v) = Ok v"
| "catch_panic (Fails e) = Err (Failed e)"
| "catch_panic (Panics p) = Err (Panicked (panic_message p))"

text \<open>\<open>None\<close> is a future that has not ended when the limit passes.\<close>

fun with_timeout :: "duration \<Rightarrow> 'a outcome option \<Rightarrow> ('a, run_error) result" where
  "with_timeout limit (Some out) = catch_panic out"
| "with_timeout limit None = Err (TimedOut limit)"

text \<open>The \<open>Debug\<close> text of a duration: the largest unit that is not zero and the fraction without
  trailing zeros. The micro sign is its two UTF-8 bytes.\<close>

definition pad_zeros :: "nat \<Rightarrow> string \<Rightarrow> string" where
  "pad_zeros k s = replicate (k - length s) (CHR ''0'') @ s"

definition fraction_str :: "nat \<Rightarrow> nat \<Rightarrow> string" where
  "fraction_str k f =
     (let ds = rev (dropWhile (\<lambda>c. c = CHR ''0'') (rev (pad_zeros k (dec_str f))))
      in if ds = [] then [] else CHR ''.'' # ds)"

definition duration_debug :: "duration \<Rightarrow> string" where
  "duration_debug d =
     (let secs = d div NANOS_PER_SEC; nanos = d mod NANOS_PER_SEC in
      if 0 < secs then dec_str secs @ fraction_str 9 nanos @ ''s''
      else if 1000000 \<le> nanos then dec_str (nanos div 1000000) @ fraction_str 6 (nanos mod 1000000) @ ''ms''
      else if 1000 \<le> nanos then dec_str (nanos div 1000) @ fraction_str 3 (nanos mod 1000) @ [CHR 0xC2, CHR 0xB5] @ ''s''
      else dec_str nanos @ ''ns'')"

fun error_text :: "run_error \<Rightarrow> string" where
  "error_text (Failed e) = e"
| "error_text (Panicked m) = ''panicked: '' @ m"
| "error_text (TimedOut d) = ''timed out after '' @ duration_debug d"

record ('j, 'h) spec =
  sp_job :: 'j
  sp_on_stop :: "'h option"
  sp_interval :: "duration option"
  sp_backoff :: backoff
  sp_stop_timeout :: duration

definition spec_new :: "'j \<Rightarrow> ('j, 'h) spec" where
  "spec_new j = \<lparr>sp_job = j, sp_on_stop = None, sp_interval = None, sp_backoff = backoff_default,
     sp_stop_timeout = from_secs 30\<rparr>"

definition spec_interval :: "duration \<Rightarrow> ('j, 'h) spec \<Rightarrow> ('j, 'h) spec" where
  "spec_interval d s = s\<lparr>sp_interval := Some d\<rparr>"

definition spec_backoff :: "backoff \<Rightarrow> ('j, 'h) spec \<Rightarrow> ('j, 'h) spec" where
  "spec_backoff b s = s\<lparr>sp_backoff := b\<rparr>"

definition spec_on_stop :: "'h \<Rightarrow> ('j, 'h) spec \<Rightarrow> ('j, 'h) spec" where
  "spec_on_stop h s = s\<lparr>sp_on_stop := Some h\<rparr>"

definition spec_stop_timeout :: "duration \<Rightarrow> ('j, 'h) spec \<Rightarrow> ('j, 'h) spec" where
  "spec_stop_timeout d s = s\<lparr>sp_stop_timeout := d\<rparr>"

section \<open>Status\<close>

type_synonym system_time = nat

record status =
  st_name :: string
  st_id :: nat
  st_interval :: "duration option"
  st_backoff :: backoff
  st_success_count :: u64
  st_failure_count :: u64
  st_consecutive_failures :: u64
  st_last_success :: "system_time option"
  st_last_failure :: "system_time option"
  st_last_error :: "string option"
  st_last_duration :: "duration option"

definition status_new :: "string \<Rightarrow> nat \<Rightarrow> ('j, 'h) spec \<Rightarrow> status" where
  "status_new name i sp = \<lparr>st_name = name, st_id = i, st_interval = sp_interval sp, st_backoff = sp_backoff sp,
     st_success_count = 0, st_failure_count = 0, st_consecutive_failures = 0, st_last_success = None,
     st_last_failure = None, st_last_error = None, st_last_duration = None\<rparr>"

definition status_configure :: "('j, 'h) spec \<Rightarrow> status \<Rightarrow> status" where
  "status_configure sp s = s\<lparr>st_interval := sp_interval sp, st_backoff := sp_backoff sp\<rparr>"

fun record_run :: "(flow, run_error) result \<Rightarrow> duration \<Rightarrow> system_time \<Rightarrow> status \<Rightarrow> status" where
  "record_run (Ok _) dur now s = s\<lparr>st_last_duration := Some dur, st_success_count := st_success_count s + 1,
     st_consecutive_failures := 0, st_last_success := Some now, st_last_error := None\<rparr>"
| "record_run (Err e) dur now s = s\<lparr>st_last_duration := Some dur, st_failure_count := st_failure_count s + 1,
     st_consecutive_failures := st_consecutive_failures s + 1, st_last_failure := Some now,
     st_last_error := Some (error_text e)\<rparr>"

fun stop_error_text :: "run_error \<Rightarrow> string" where
  "stop_error_text (TimedOut d) = ''stop timed out after '' @ duration_debug d"
| "stop_error_text e = error_text e"

definition record_stop_error :: "run_error \<Rightarrow> system_time \<Rightarrow> status \<Rightarrow> status" where
  "record_stop_error e now s = s\<lparr>st_failure_count := st_failure_count s + 1, st_last_failure := Some now,
     st_last_error := Some (stop_error_text e)\<rparr>"

section \<open>The runner\<close>

datatype wait = WaitFor duration | UntilUpdate

definition wait_from_delay :: "duration option \<Rightarrow> wait" where
  "wait_from_delay d = (case d of Some t \<Rightarrow> WaitFor t | None \<Rightarrow> UntilUpdate)"

datatype ('j, 'h) wake = Timer | SpecChanged "('j, 'h) spec" | Stopped

text \<open>Where a task is: spawned but not yet polled, awaiting its job, in \<open>wait\<close>, awaiting its stop
  hook, or ended (which fires \<open>terminated\<close>).\<close>

datatype phase = Spawned | Running | Waiting wait | Stopping | Terminated

record ('j, 'h) task =
  tk_name :: string
  tk_chan :: "('j, 'h) spec"
  tk_changed :: bool
  tk_sender :: bool
  tk_cancel :: bool
  tk_errors :: u32
  tk_spec :: "('j, 'h) spec"
  tk_phase :: phase
  tk_status :: status

datatype ('j, 'h) event =
    Ran nat 'j "(flow, run_error) result"
  | RunFinished string bool duration
  | HookRan nat 'h "(unit, run_error) result"
  | Ended nat
  | Crashed nat

definition runner_new :: "string \<Rightarrow> nat \<Rightarrow> ('j, 'h) spec \<Rightarrow> ('j, 'h) task" where
  "runner_new name i sp = \<lparr>tk_name = name, tk_chan = sp, tk_changed = False, tk_sender = True, tk_cancel = False,
     tk_errors = 0, tk_spec = sp, tk_phase = Spawned, tk_status = status_new name i sp\<rparr>"

definition saturating_succ :: "u32 \<Rightarrow> u32" where
  "saturating_succ e = (if e = - 1 then e else e + 1)"

definition runner_record :: "(flow, run_error) result \<Rightarrow> duration \<Rightarrow> system_time \<Rightarrow> ('j, 'h) task \<Rightarrow> ('j, 'h) task" where
  "runner_record res dur now tk = tk\<lparr>tk_status := record_run res dur now (tk_status tk),
     tk_errors := (if is_ok res then 0 else saturating_succ (tk_errors tk))\<rparr>"

fun next_wait :: "(rat \<Rightarrow> rat) \<Rightarrow> ('j, 'h) spec \<Rightarrow> (flow, run_error) result \<Rightarrow> u32 \<Rightarrow> f64 \<Rightarrow> wait option" where
  "next_wait rnd sp (Ok Continue) errs r = Some (wait_from_delay (sp_interval sp))"
| "next_wait rnd sp (Ok Done) errs r = Some UntilUpdate"
| "next_wait rnd sp (Err e) errs r =
     (case jittered rnd (sp_backoff sp) errs r of
        None \<Rightarrow> None
      | Some retry \<Rightarrow> Some (wait_from_delay (case retry of Some d \<Rightarrow> Some d | None \<Rightarrow> sp_interval sp)))"

text \<open>The biased \<open>select!\<close> of \<open>wait\<close>: cancellation first, then the channel (an unseen value before the
  loss of its sender), then the timer, which a wait without a limit never has.\<close>

definition select_wake :: "wait \<Rightarrow> bool \<Rightarrow> ('j, 'h) task \<Rightarrow> ('j, 'h) wake option" where
  "select_wake w elapsed tk =
     (if tk_cancel tk then Some Stopped
      else if tk_changed tk then Some (SpecChanged (tk_chan tk))
      else if \<not> tk_sender tk then Some Stopped
      else if elapsed \<and> w \<noteq> UntilUpdate then Some Timer
      else None)"

datatype task_act =
    Start
  | JobEnds "flow outcome" duration system_time f64
  | Wakes bool
  | HookEnds "unit outcome option" system_time

text \<open>The start of \<open>run\<close>, \<open>borrow_and_update\<close> included.\<close>

definition task_start :: "('j, 'h) task \<Rightarrow> ('j, 'h) task" where
  "task_start tk = tk\<lparr>tk_spec := tk_chan tk, tk_changed := False, tk_phase := Running\<rparr>"

text \<open>From the end of the job to \<open>wait\<close>. A panic in \<open>next_wait\<close> ends the task without its hook.\<close>

definition job_ends :: "(rat \<Rightarrow> rat) \<Rightarrow> bool \<Rightarrow> nat \<Rightarrow> flow outcome \<Rightarrow> duration \<Rightarrow> system_time \<Rightarrow> f64 \<Rightarrow>
    ('j, 'h) task \<Rightarrow> ('j, 'h) task \<times> ('j, 'h) event list" where
  "job_ends rnd obs i out dur now r tk =
     (let res = catch_panic out;
          tk1 = runner_record res dur now tk;
          evs = Ran i (sp_job (tk_spec tk)) res # (if obs then [RunFinished (tk_name tk) (is_ok res) dur] else [])
      in case next_wait rnd (tk_spec tk1) res (tk_errors tk1) r of
           Some w \<Rightarrow> (tk1\<lparr>tk_phase := Waiting w\<rparr>, evs)
         | None \<Rightarrow> (tk1\<lparr>tk_phase := Terminated\<rparr>, evs @ [Crashed i]))"

text \<open>From a wake-up to the next run or to the stop hook.\<close>

fun task_wakes :: "nat \<Rightarrow> ('j, 'h) wake \<Rightarrow> ('j, 'h) task \<Rightarrow> ('j, 'h) task \<times> ('j, 'h) event list" where
  "task_wakes i Timer tk = (tk\<lparr>tk_phase := Running\<rparr>, [])"
| "task_wakes i (SpecChanged sp) tk = (tk\<lparr>tk_changed := False, tk_spec := sp, tk_phase := Running\<rparr>, [])"
| "task_wakes i Stopped tk =
     (if sp_on_stop (tk_spec tk) = None then (tk\<lparr>tk_phase := Terminated\<rparr>, [Ended i])
      else (tk\<lparr>tk_phase := Stopping\<rparr>, []))"

definition run_stop_hook :: "nat \<Rightarrow> 'h \<Rightarrow> unit outcome option \<Rightarrow> system_time \<Rightarrow>
    ('j, 'h) task \<Rightarrow> ('j, 'h) task \<times> ('j, 'h) event list" where
  "run_stop_hook i h out now tk =
     (let res = with_timeout (sp_stop_timeout (tk_spec tk)) out
      in (tk\<lparr>tk_status := (case res of Ok _ \<Rightarrow> tk_status tk | Err e \<Rightarrow> record_stop_error e now (tk_status tk)),
             tk_phase := Terminated\<rparr>, [HookRan i h res, Ended i]))"

fun task_step :: "(rat \<Rightarrow> rat) \<Rightarrow> bool \<Rightarrow> nat \<Rightarrow> ('j, 'h) task \<Rightarrow> task_act \<Rightarrow>
    (('j, 'h) task \<times> ('j, 'h) event list) option" where
  "task_step rnd obs i tk Start = (if tk_phase tk = Spawned then Some (task_start tk, []) else None)"
| "task_step rnd obs i tk (JobEnds out dur now r) =
     (if tk_phase tk = Running then Some (job_ends rnd obs i out dur now r tk) else None)"
| "task_step rnd obs i tk (Wakes elapsed) =
     (case tk_phase tk of
        Waiting w \<Rightarrow> map_option (\<lambda>k. task_wakes i k tk) (select_wake w elapsed tk)
      | _ \<Rightarrow> None)"
| "task_step rnd obs i tk (HookEnds out now) =
     (if tk_phase tk = Stopping then map_option (\<lambda>h. run_stop_hook i h out now tk) (sp_on_stop (tk_spec tk)) else None)"

section \<open>The manager and the registry\<close>

text \<open>An entry is the id of its task: the sender, the tokens and the status cell it holds are the
  task's. The registry holds weak references, by id.\<close>

record ('j, 'h) world =
  w_next_id :: nat
  w_entries :: "(string \<times> nat) list"
  w_registry :: "nat list"
  w_max_interval :: "duration option"
  w_observer :: bool
  w_dropped :: bool
  w_tasks :: "nat \<Rightarrow> ('j, 'h) task option"

definition manager_build :: "nat \<Rightarrow> duration option \<Rightarrow> bool \<Rightarrow> ('j, 'h) world" where
  "manager_build first mx obs = \<lparr>w_next_id = first, w_entries = [], w_registry = [], w_max_interval = mx,
     w_observer = obs, w_dropped = False, w_tasks = Map.empty\<rparr>"

definition registry_insert :: "nat \<Rightarrow> nat list \<Rightarrow> nat list" where
  "registry_insert i r = i # removeAll i r"

definition registry_remove :: "nat \<Rightarrow> nat list \<Rightarrow> nat list" where
  "registry_remove i r = removeAll i r"

text \<open>A status cell is alive while an entry or a running task holds it.\<close>

definition cell_alive :: "('j, 'h) world \<Rightarrow> nat \<Rightarrow> bool" where
  "cell_alive w i \<longleftrightarrow> i \<in> snd ` set (w_entries w) \<or>
     (case w_tasks w i of Some tk \<Rightarrow> tk_phase tk \<noteq> Terminated | None \<Rightarrow> False)"

definition status_of :: "('j, 'h) world \<Rightarrow> nat \<Rightarrow> status option" where
  "status_of w i = map_option tk_status (w_tasks w i)"

definition registry_statuses :: "('j, 'h) world \<Rightarrow> status list \<times> ('j, 'h) world" where
  "registry_statuses w =
     (let live = filter (cell_alive w) (w_registry w)
      in (sort_key (\<lambda>s. (st_name s, st_id s)) (List.map_filter (status_of w) live), w\<lparr>w_registry := live\<rparr>))"

definition normalize_spec :: "duration option \<Rightarrow> ('j, 'h) spec \<Rightarrow> ('j, 'h) spec" where
  "normalize_spec mx sp =
     (let i = (case sp_interval sp of Some d \<Rightarrow> if d = 0 then None else Some d | None \<Rightarrow> None)
      in sp\<lparr>sp_interval := (case (i, mx) of (Some d, Some m) \<Rightarrow> if m < d then Some m else i | _ \<Rightarrow> i)\<rparr>)"

definition set_task :: "nat \<Rightarrow> ('j, 'h) task \<Rightarrow> ('j, 'h) world \<Rightarrow> ('j, 'h) world" where
  "set_task i tk w = w\<lparr>w_tasks := (w_tasks w)(i \<mapsto> tk)\<rparr>"

definition send_spec :: "('j, 'h) spec \<Rightarrow> ('j, 'h) task \<Rightarrow> ('j, 'h) task" where
  "send_spec sp tk = tk\<lparr>tk_status := status_configure sp (tk_status tk), tk_chan := sp, tk_changed := True\<rparr>"

definition manager_update :: "string \<Rightarrow> ('j, 'h) spec \<Rightarrow> ('j, 'h) world \<Rightarrow> ('j, 'h) world" where
  "manager_update name sp0 w =
     (let sp = normalize_spec (w_max_interval w) sp0 in
      case map_of (w_entries w) name of
        Some i \<Rightarrow> w\<lparr>w_tasks := (w_tasks w)(i := map_option (send_spec sp) (w_tasks w i))\<rparr>
      | None \<Rightarrow>
          let i = w_next_id w
          in w\<lparr>w_next_id := i + 1, w_registry := registry_insert i (w_registry w),
               w_tasks := (w_tasks w)(i \<mapsto> runner_new name i sp), w_entries := (name, i) # w_entries w\<rparr>)"

text \<open>\<open>stop_entry\<close> cancels the task and drops the entry, and with it the sender of its channel. A
  \<open>Termination\<close> is the list of the tasks it waits for.\<close>

definition cancel_task :: "('j, 'h) task \<Rightarrow> ('j, 'h) task" where
  "cancel_task tk = tk\<lparr>tk_cancel := True, tk_sender := False\<rparr>"

definition stop_entry :: "nat \<Rightarrow> ('j, 'h) world \<Rightarrow> ('j, 'h) world" where
  "stop_entry i w = w\<lparr>w_tasks := (w_tasks w)(i := map_option cancel_task (w_tasks w i)),
     w_registry := registry_remove i (w_registry w)\<rparr>"

definition manager_remove :: "string \<Rightarrow> ('j, 'h) world \<Rightarrow> nat list option \<times> ('j, 'h) world" where
  "manager_remove name w =
     (case map_of (w_entries w) name of
        None \<Rightarrow> (None, w)
      | Some i \<Rightarrow> (Some [i], stop_entry i (w\<lparr>w_entries := filter (\<lambda>e. fst e \<noteq> name) (w_entries w)\<rparr>)))"

definition manager_remove_all :: "('j, 'h) world \<Rightarrow> nat list \<times> ('j, 'h) world" where
  "manager_remove_all w = (map snd (w_entries w), fold (\<lambda>e. stop_entry (snd e)) (w_entries w) (w\<lparr>w_entries := []\<rparr>))"

definition manager_termination :: "string \<Rightarrow> ('j, 'h) world \<Rightarrow> nat list" where
  "manager_termination name w = (case map_of (w_entries w) name of Some i \<Rightarrow> [i] | None \<Rightarrow> [])"

definition terminated :: "('j, 'h) world \<Rightarrow> nat list \<Rightarrow> bool" where
  "terminated w is \<longleftrightarrow> list_all (\<lambda>i. map_option tk_phase (w_tasks w i) = Some Terminated) is"

definition manager_contains :: "string \<Rightarrow> ('j, 'h) world \<Rightarrow> bool" where
  "manager_contains name w \<longleftrightarrow> map_of (w_entries w) name \<noteq> None"

definition manager_statuses :: "('j, 'h) world \<Rightarrow> status list" where
  "manager_statuses w = sort_key st_name (List.map_filter (\<lambda>e. status_of w (snd e)) (w_entries w))"

text \<open>Dropping the manager: the root token cancels every task, the registry forgets the entries.\<close>

definition manager_drop :: "('j, 'h) world \<Rightarrow> ('j, 'h) world" where
  "manager_drop w = fold (\<lambda>e. stop_entry (snd e)) (w_entries w) (w\<lparr>w_entries := [], w_dropped := True\<rparr>)"

text \<open>Every interleaving of the manager's calls, the readers of the registry, the steps of the tasks and
  of other managers, which take ids from the same counter. The second argument is the trace.\<close>

inductive reachable :: "(rat \<Rightarrow> rat) \<Rightarrow> ('j, 'h) world \<Rightarrow> ('j, 'h) event list \<Rightarrow> bool" for rnd where
  built: "reachable rnd (manager_build first mx obs) []"
| update: "reachable rnd w tr \<Longrightarrow> \<not> w_dropped w \<Longrightarrow> reachable rnd (manager_update name sp w) tr"
| remove: "reachable rnd w tr \<Longrightarrow> \<not> w_dropped w \<Longrightarrow> reachable rnd (snd (manager_remove name w)) tr"
| remove_all: "reachable rnd w tr \<Longrightarrow> \<not> w_dropped w \<Longrightarrow> reachable rnd (snd (manager_remove_all w)) tr"
| dropped: "reachable rnd w tr \<Longrightarrow> \<not> w_dropped w \<Longrightarrow> reachable rnd (manager_drop w) tr"
| read_registry: "reachable rnd w tr \<Longrightarrow> reachable rnd (snd (registry_statuses w)) tr"
| other_manager: "reachable rnd w tr \<Longrightarrow> reachable rnd (w\<lparr>w_next_id := w_next_id w + 1\<rparr>) tr"
| task: "reachable rnd w tr \<Longrightarrow> w_tasks w i = Some tk \<Longrightarrow> task_step rnd (w_observer w) i tk a = Some (tk', evs) \<Longrightarrow>
    reachable rnd (set_task i tk' w) (tr @ evs)"

section \<open>What a trace says of one controller\<close>

fun event_id :: "('j, 'h) event \<Rightarrow> nat option" where
  "event_id (Ran i _ _) = Some i"
| "event_id (RunFinished _ _ _) = None"
| "event_id (HookRan i _ _) = Some i"
| "event_id (Ended i) = Some i"
| "event_id (Crashed i) = Some i"

definition events_of :: "nat \<Rightarrow> ('j, 'h) event list \<Rightarrow> ('j, 'h) event list" where
  "events_of i tr = filter (\<lambda>e. event_id e = Some i) tr"

fun is_run :: "('j, 'h) event \<Rightarrow> bool" where
  "is_run (Ran _ _ _) = True"
| "is_run _ = False"

fun run_succeeded :: "('j, 'h) event \<Rightarrow> bool" where
  "run_succeeded (Ran _ _ r) = is_ok r"
| "run_succeeded _ = False"

fun run_failed :: "('j, 'h) event \<Rightarrow> bool" where
  "run_failed (Ran _ _ r) = (\<not> is_ok r)"
| "run_failed _ = False"

fun hook_failed :: "('j, 'h) event \<Rightarrow> bool" where
  "hook_failed (HookRan _ _ r) = (\<not> is_ok r)"
| "hook_failed _ = False"

definition runs_of :: "('j, 'h) event list \<Rightarrow> ('j, 'h) event list" where
  "runs_of evs = filter is_run evs"

text \<open>The failed runs since the last successful one.\<close>

definition failing_streak :: "('j, 'h) event list \<Rightarrow> nat" where
  "failing_streak evs = length (takeWhile run_failed (rev (runs_of evs)))"

definition counts_ok :: "('j, 'h) task \<Rightarrow> ('j, 'h) event list \<Rightarrow> bool" where
  "counts_ok tk evs \<longleftrightarrow>
     st_success_count (tk_status tk) = of_nat (length (filter run_succeeded evs)) \<and>
     st_failure_count (tk_status tk) = of_nat (length (filter run_failed evs) + length (filter hook_failed evs)) \<and>
     st_consecutive_failures (tk_status tk) = of_nat (failing_streak evs) \<and>
     unat (tk_errors tk) = min (failing_streak evs) (2 ^ 32 - 1)"

definition stop_events :: "nat \<Rightarrow> 'h option \<Rightarrow> ('j, 'h) event list \<Rightarrow> bool" where
  "stop_events i hook evs \<longleftrightarrow>
     (case hook of None \<Rightarrow> evs = [Ended i] | Some h \<Rightarrow> \<exists>r. evs = [HookRan i h r, Ended i])"

text \<open>The other end of a task: its last run failed, and the delay that its backoff gives for its count of
  errors overflows a duration for some random number, where \<open>mul_f64\<close> panics.\<close>

definition delay_panics :: "(rat \<Rightarrow> rat) \<Rightarrow> ('j, 'h) task \<Rightarrow> bool" where
  "delay_panics rnd tk \<longleftrightarrow> (\<exists>r. jittered rnd (sp_backoff (tk_spec tk)) (tk_errors tk) r = None)"

definition task_ends :: "bool \<Rightarrow> nat \<Rightarrow> 'h option \<Rightarrow> ('j, 'h) event list \<Rightarrow> ('j, 'h) event list \<Rightarrow> bool" where
  "task_ends panics i hook runs stop \<longleftrightarrow>
     stop_events i hook stop \<or> panics \<and> run_failed (last runs) \<and> stop = [Crashed i]"

fun lifecycle_ok :: "bool \<Rightarrow> nat \<Rightarrow> 'h option \<Rightarrow> phase \<Rightarrow> ('j, 'h) event list \<Rightarrow> bool" where
  "lifecycle_ok p i hook Spawned evs = (evs = [])"
| "lifecycle_ok p i hook Running evs = list_all is_run evs"
| "lifecycle_ok p i hook (Waiting _) evs = (evs \<noteq> [] \<and> list_all is_run evs)"
| "lifecycle_ok p i hook Stopping evs = (hook \<noteq> None \<and> evs \<noteq> [] \<and> list_all is_run evs)"
| "lifecycle_ok p i hook Terminated evs =
     (\<exists>runs stop. evs = runs @ stop \<and> runs \<noteq> [] \<and> list_all is_run runs \<and> task_ends p i hook runs stop)"

text \<open>A task whose sender is gone is cancelled, and only a cancelled task runs its hook.\<close>

definition flags_ok :: "('j, 'h) task \<Rightarrow> bool" where
  "flags_ok tk \<longleftrightarrow> (tk_sender tk \<or> tk_cancel tk) \<and> (tk_phase tk = Stopping \<longrightarrow> tk_cancel tk)"

definition task_ok :: "(rat \<Rightarrow> rat) \<Rightarrow> nat \<Rightarrow> ('j, 'h) task \<Rightarrow> ('j, 'h) event list \<Rightarrow> bool" where
  "task_ok rnd i tk evs \<longleftrightarrow> flags_ok tk \<and> counts_ok tk evs \<and>
     lifecycle_ok (delay_panics rnd tk) i (sp_on_stop (tk_spec tk)) (tk_phase tk) evs"

lemma lifecycle_TerminatedI:
  "lifecycle_ok p i hook (Waiting w) runs \<Longrightarrow> task_ends p' i hook runs stop \<Longrightarrow> lifecycle_ok p' i hook Terminated (runs @ stop)"
  by auto

lemma events_of_append [simp]: "events_of i (tr @ evs) = events_of i tr @ events_of i evs"
  by (simp add: events_of_def)

lemma events_of_Cons [simp]: "events_of i (e # evs) = (if event_id e = Some i then e # events_of i evs else events_of i evs)"
  by (simp add: events_of_def)

lemma events_of_Nil [simp]: "events_of i [] = []"
  by (simp add: events_of_def)

lemma failing_streak_Ran:
  "failing_streak (evs @ [Ran i j r]) = (if is_ok r then 0 else Suc (failing_streak evs))"
  by (simp add: failing_streak_def runs_of_def)

lemma failing_streak_other: "\<not> is_run e \<Longrightarrow> failing_streak (evs @ [e]) = failing_streak evs"
  by (simp add: failing_streak_def runs_of_def)

lemma unat_saturating_succ:
  "unat e = min n (2 ^ 32 - 1) \<Longrightarrow> unat (saturating_succ e) = min (Suc n) (2 ^ 32 - 1)"
proof -
  have m: "unat (- 1 :: u32) = 2 ^ 32 - 1" by (simp add: unsigned_minus_1_eq_mask mask_eq_exp_minus_1)
  have "unat e = unat (- 1 :: u32) \<longleftrightarrow> e = - 1" by (rule word_unat_eq_iff [symmetric])
  moreover have "unat e < 2 ^ 32" using unat_bound [of e] by simp
  moreover have "unat (e + 1) = (unat e + 1) mod 2 ^ 32" by (simp add: unat_word_ariths)
  ultimately show "unat e = min n (2 ^ 32 - 1) \<Longrightarrow> ?thesis" unfolding m by (auto simp: saturating_succ_def)
qed

lemma counts_ok_Ran:
  assumes "counts_ok tk evs"
  shows "counts_ok (runner_record r dur now tk) (evs @ [Ran i j r])"
  using assms unat_saturating_succ
  by (cases r) (auto simp: counts_ok_def runner_record_def failing_streak_Ran)

lemma counts_ok_HookRan:
  assumes "counts_ok tk evs" "tk_errors tk' = tk_errors tk"
    "tk_status tk' = (case r of Ok _ \<Rightarrow> tk_status tk | Err e \<Rightarrow> record_stop_error e now (tk_status tk))"
  shows "counts_ok tk' (evs @ [HookRan i h r])"
  using assms by (cases r) (auto simp: counts_ok_def failing_streak_other record_stop_error_def)

lemma counts_ok_silent:
  assumes "counts_ok tk evs" "tk_errors tk' = tk_errors tk" "tk_status tk' = tk_status tk"
    "\<not> is_run e" "\<not> hook_failed e"
  shows "counts_ok tk' (evs @ [e])"
  using assms by (cases e) (auto simp: counts_ok_def failing_streak_other)

lemma counts_ok_cong:
  assumes "counts_ok tk evs" "tk_errors tk' = tk_errors tk" 
    "st_success_count (tk_status tk') = st_success_count (tk_status tk)"
    "st_failure_count (tk_status tk') = st_failure_count (tk_status tk)"
    "st_consecutive_failures (tk_status tk') = st_consecutive_failures (tk_status tk)"
  shows "counts_ok tk' evs"
  using assms by (simp add: counts_ok_def)

lemma job_ends_fields:
  assumes "job_ends rnd obs i out dur now r tk = (tk', new)"
  shows "tk_sender tk' = tk_sender tk" "tk_cancel tk' = tk_cancel tk" "tk_spec tk' = tk_spec tk" "tk_chan tk' = tk_chan tk"
    "tk_changed tk' = tk_changed tk" "tk_phase tk' = Terminated \<or> (\<exists>w. tk_phase tk' = Waiting w)"
  using assms by (auto simp: job_ends_def Let_def runner_record_def split: option.splits)

lemma next_wait_panics:
  "next_wait rnd sp res errs r = None \<Longrightarrow> jittered rnd (sp_backoff sp) errs r = None \<and> \<not> is_ok res"
  by (induction rnd sp res errs r rule: next_wait.induct) (auto split: option.splits)

lemma select_wake_Stopped: "flags_ok tk \<Longrightarrow> select_wake w b tk = Some Stopped \<longleftrightarrow> tk_cancel tk"
  by (auto simp: select_wake_def flags_ok_def)

lemma task_wakes_flags:
  "flags_ok tk \<Longrightarrow> select_wake w b tk = Some k \<Longrightarrow> task_wakes i k tk = (tk', new) \<Longrightarrow> flags_ok tk'"
  using select_wake_Stopped [of tk w b] by (cases k) (auto simp: flags_ok_def split: if_splits)

lemma job_ends_ok:
  assumes "task_ok rnd i tk evs" "tk_phase tk = Running" "job_ends rnd obs i out dur now r tk = (tk', new)"
  shows "task_ok rnd i tk' (evs @ events_of i new)"
proof -
  let ?res = "catch_panic out" and ?e = "Ran i (sp_job (tk_spec tk)) (catch_panic out)"
  let ?tk1 = "runner_record ?res dur now tk"
  have c: "counts_ok ?tk1 (evs @ [?e])" using assms(1) by (intro counts_ok_Ran) (simp add: task_ok_def)
  have f: "flags_ok tk'" using assms(1) job_ends_fields [OF assms(3)] by (auto simp: task_ok_def flags_ok_def)
  have l: "list_all is_run (evs @ [?e])" using assms(1,2) by (simp add: task_ok_def)
  show ?thesis
  proof (cases "next_wait rnd (tk_spec ?tk1) ?res (tk_errors ?tk1) r")
    case None
    have "counts_ok tk' ((evs @ [?e]) @ [Crashed i])"
      using assms(3) None by (intro counts_ok_silent [OF c]) (auto simp: job_ends_def Let_def)
    moreover have "events_of i new = [?e, Crashed i]" "tk_phase tk' = Terminated"
      using assms(3) None by (auto simp: job_ends_def Let_def)
    moreover have "delay_panics rnd tk'" "\<not> is_ok ?res"
      using assms(3) next_wait_panics [OF None] None by (auto simp: delay_panics_def job_ends_def Let_def)
    ultimately show ?thesis using l f lifecycle_TerminatedI [of True i _ w "evs @ [?e]" True "[Crashed i]"]
      by (simp add: task_ok_def task_ends_def del: lifecycle_ok.simps(5))
  next
    case (Some w)
    have "counts_ok tk' (evs @ [?e])"
      using assms(3) Some by (intro counts_ok_cong [OF c]) (auto simp: job_ends_def Let_def)
    moreover have "events_of i new = [?e]" "tk_phase tk' = Waiting w"
      using assms(3) Some by (auto simp: job_ends_def Let_def)
    ultimately show ?thesis using l f by (simp add: task_ok_def)
  qed
qed

lemma task_wakes_ok:
  assumes "task_ok rnd i tk evs" "tk_phase tk = Waiting w" "task_wakes i k tk = (tk', new)" "flags_ok tk'"
  shows "task_ok rnd i tk' (evs @ events_of i new)"
proof (cases "k = Stopped \<and> sp_on_stop (tk_spec tk) = None")
  case True
  have "counts_ok tk' (evs @ [Ended i])"
    using assms True by (intro counts_ok_silent [of tk]) (auto simp: task_ok_def)
  then show ?thesis using assms True lifecycle_TerminatedI [of _ i None w evs _ "[Ended i]"]
    by (auto simp: task_ok_def task_ends_def stop_events_def simp del: lifecycle_ok.simps(5))
next
  case False
  have "counts_ok tk' evs" using assms by (cases k) (auto simp: task_ok_def counts_ok_def split: if_splits)
  then show ?thesis using assms False by (cases k) (auto simp: task_ok_def split: if_splits)
qed

lemma run_stop_hook_ok:
  assumes "task_ok rnd i tk evs" "tk_phase tk = Stopping" "sp_on_stop (tk_spec tk) = Some h"
    "run_stop_hook i h out now tk = (tk', new)"
  shows "task_ok rnd i tk' (evs @ events_of i new)"
proof -
  let ?r = "with_timeout (sp_stop_timeout (tk_spec tk)) out"
  have "counts_ok tk' ((evs @ [HookRan i h ?r]) @ [Ended i])"
    using assms by (intro counts_ok_silent [OF counts_ok_HookRan [where tk = tk and r = ?r and now = now]])
      (auto simp: run_stop_hook_def Let_def task_ok_def)
  moreover have "events_of i new = [HookRan i h ?r, Ended i]" "tk_phase tk' = Terminated" "tk_spec tk' = tk_spec tk"
    "tk_cancel tk' = tk_cancel tk" "tk_sender tk' = tk_sender tk"
    using assms(4) by (auto simp: run_stop_hook_def Let_def)
  ultimately show ?thesis using assms lifecycle_TerminatedI [of _ i "Some h" w evs _ "[HookRan i h ?r, Ended i]"]
    by (auto simp: task_ok_def flags_ok_def task_ends_def stop_events_def simp del: lifecycle_ok.simps(5))
qed

lemma task_step_ok:
  assumes "task_ok rnd i tk evs" "task_step rnd obs i tk a = Some (tk', new)"
  shows "task_ok rnd i tk' (evs @ events_of i new)"
proof (cases a)
  case Start
  then show ?thesis using assms
    by (auto simp: task_ok_def flags_ok_def task_start_def counts_ok_def split: if_splits)
next
  case (JobEnds out dur now r)
  then show ?thesis using assms job_ends_ok by (auto split: if_splits)
next
  case (Wakes b)
  then obtain w k where k: "tk_phase tk = Waiting w" "select_wake w b tk = Some k" "task_wakes i k tk = (tk', new)"
    using assms(2) by (auto split: phase.splits)
  then show ?thesis using assms(1) task_wakes_flags [OF _ k(2,3)] by (intro task_wakes_ok) (auto simp: task_ok_def)
next
  case (HookEnds out now)
  then show ?thesis using assms run_stop_hook_ok by (auto split: if_splits)
qed

definition task_frame :: "('j, 'h) task \<Rightarrow> ('j, 'h) task \<Rightarrow> bool" where
  "task_frame tk tk' \<longleftrightarrow> tk_name tk' = tk_name tk \<and> tk_sender tk' = tk_sender tk \<and>
     tk_cancel tk' = tk_cancel tk \<and> st_name (tk_status tk') = st_name (tk_status tk) \<and>
     st_id (tk_status tk') = st_id (tk_status tk)"

definition own_events :: "nat \<Rightarrow> ('j, 'h) event list \<Rightarrow> bool" where
  "own_events i evs \<longleftrightarrow> list_all (\<lambda>e. event_id e = Some i \<or> event_id e = None) evs"

lemma own_events_other: "own_events i evs \<Longrightarrow> j \<noteq> i \<Longrightarrow> events_of j evs = []"
  by (auto simp: own_events_def events_of_def list_all_iff filter_empty_conv)

lemma record_run_frame: "st_name (record_run r d now s) = st_name s" "st_id (record_run r d now s) = st_id s"
  by (cases r; simp)+

lemma job_ends_frame:
  assumes "job_ends rnd obs i out dur now r tk = (tk', new)"
  shows "task_frame tk tk' \<and> own_events i new"
  using assms unfolding job_ends_def Let_def
  by (auto simp: task_frame_def own_events_def runner_record_def record_run_frame split: option.splits)

lemma task_wakes_frame: "task_wakes i k tk = (tk', new) \<Longrightarrow> task_frame tk tk' \<and> own_events i new"
  by (cases k) (auto simp: task_frame_def own_events_def split: if_splits)

lemma run_stop_hook_frame: "run_stop_hook i h out now tk = (tk', new) \<Longrightarrow> task_frame tk tk' \<and> own_events i new"
  by (auto simp: run_stop_hook_def Let_def task_frame_def own_events_def record_stop_error_def split: result.splits)

lemma task_step_frame:
  assumes "task_step rnd obs i tk a = Some (tk', new)"
  shows "task_frame tk tk' \<and> own_events i new"
proof (cases a)
  case Start
  then show ?thesis using assms by (auto simp: task_start_def task_frame_def own_events_def split: if_splits)
next
  case (JobEnds out dur now r)
  then show ?thesis using assms job_ends_frame [of rnd obs i out dur now r tk tk' new] by (auto split: if_splits)
next
  case (Wakes b)
  then show ?thesis using assms by (auto split: phase.splits dest: task_wakes_frame)
next
  case (HookEnds out now)
  then show ?thesis using assms by (auto split: if_splits dest: run_stop_hook_frame)
qed

section \<open>The invariant of the manager\<close>

definition entry_ok :: "('j, 'h) world \<Rightarrow> string \<Rightarrow> nat \<Rightarrow> bool" where
  "entry_ok w name i \<longleftrightarrow> (\<exists>tk. w_tasks w i = Some tk \<and> tk_name tk = name \<and> st_name (tk_status tk) = name \<and>
     st_id (tk_status tk) = i \<and> tk_sender tk \<and> \<not> tk_cancel tk)"

definition entries_ok :: "('j, 'h) world \<Rightarrow> bool" where
  "entries_ok w \<longleftrightarrow> distinct (map fst (w_entries w)) \<and> distinct (map snd (w_entries w)) \<and>
     (\<forall>(name, i) \<in> set (w_entries w). entry_ok w name i) \<and>
     (\<forall>i tk. w_tasks w i = Some tk \<and> i \<notin> snd ` set (w_entries w) \<longrightarrow> tk_cancel tk \<and> \<not> tk_sender tk)"

definition world_ok :: "('j, 'h) world \<Rightarrow> bool" where
  "world_ok w \<longleftrightarrow> entries_ok w \<and> dom (w_tasks w) \<subseteq> {..<w_next_id w} \<and>
     distinct (w_registry w) \<and> set (w_registry w) = snd ` set (w_entries w)"

definition trace_ok :: "(rat \<Rightarrow> rat) \<Rightarrow> ('j, 'h) world \<Rightarrow> ('j, 'h) event list \<Rightarrow> bool" where
  "trace_ok rnd w tr \<longleftrightarrow> (\<forall>i. case w_tasks w i of None \<Rightarrow> events_of i tr = [] | Some tk \<Rightarrow> task_ok rnd i tk (events_of i tr))"

text \<open>Stopping a set of entries.\<close>

definition stop_entries :: "nat set \<Rightarrow> ('j, 'h) world \<Rightarrow> ('j, 'h) world" where
  "stop_entries S w = w\<lparr>w_entries := filter (\<lambda>e. snd e \<notin> S) (w_entries w),
     w_registry := filter (\<lambda>i. i \<notin> S) (w_registry w),
     w_tasks := (\<lambda>i. if i \<in> S then map_option cancel_task (w_tasks w i) else w_tasks w i)\<rparr>"

lemma cancel_task_idem [simp]: "cancel_task (cancel_task tk) = cancel_task tk"
  by (simp add: cancel_task_def)

lemma fold_stop_entry:
  "fold (\<lambda>e. stop_entry (snd e)) es w = w\<lparr>w_registry := filter (\<lambda>i. i \<notin> snd ` set es) (w_registry w),
     w_tasks := (\<lambda>i. if i \<in> snd ` set es then map_option cancel_task (w_tasks w i) else w_tasks w i)\<rparr>"
proof (induction es arbitrary: w)
  case (Cons e es)
  show ?case unfolding fold_simps comp_apply Cons.IH
    by (auto simp: stop_entry_def registry_remove_def removeAll_filter_not_eq option.map_comp comp_def
        intro!: world.fold_congs filter_cong ext)
qed (simp add: fun_eq_iff)

lemma stop_entries_fields [simp]:
  "w_entries (stop_entries S w) = filter (\<lambda>e. snd e \<notin> S) (w_entries w)"
  "w_registry (stop_entries S w) = filter (\<lambda>i. i \<notin> S) (w_registry w)"
  "w_next_id (stop_entries S w) = w_next_id w"
  "w_tasks (stop_entries S w) i = (if i \<in> S then map_option cancel_task (w_tasks w i) else w_tasks w i)"
  by (simp_all add: stop_entries_def)

lemma entries_ok_stop_entries:
  assumes "entries_ok w" shows "entries_ok (stop_entries S w)"
proof -
  have "entry_ok (stop_entries S w) name i" if "(name, i) \<in> set (w_entries w)" "i \<notin> S" for name i
    using assms that unfolding entries_ok_def entry_ok_def by auto
  moreover have "tk_cancel tk \<and> \<not> tk_sender tk"
    if "w_tasks (stop_entries S w) i = Some tk" "i \<notin> snd ` set (w_entries w) \<or> i \<in> S" for i tk
    using assms that unfolding entries_ok_def by (auto simp: cancel_task_def split: if_splits)
  moreover have "snd ` set (w_entries (stop_entries S w)) = snd ` set (w_entries w) - S" by auto
  ultimately show ?thesis
    using assms unfolding entries_ok_def by (intro conjI) (auto simp: distinct_map_filter simp del: stop_entries_fields(4))
qed

lemma world_ok_stop_entries: "world_ok w \<Longrightarrow> world_ok (stop_entries S w)"
  unfolding world_ok_def by (auto simp: entries_ok_stop_entries subset_iff dom_def split: if_splits)

lemma task_ok_cong:
  "task_ok rnd i tk evs \<Longrightarrow> flags_ok tk' \<Longrightarrow> tk_errors tk' = tk_errors tk \<Longrightarrow> tk_spec tk' = tk_spec tk \<Longrightarrow> tk_phase tk' = tk_phase tk \<Longrightarrow>
   st_success_count (tk_status tk') = st_success_count (tk_status tk) \<Longrightarrow>
   st_failure_count (tk_status tk') = st_failure_count (tk_status tk) \<Longrightarrow>
   st_consecutive_failures (tk_status tk') = st_consecutive_failures (tk_status tk) \<Longrightarrow> task_ok rnd i tk' evs"
  by (simp add: task_ok_def counts_ok_def delay_panics_def)

lemma task_ok_cancel: "task_ok rnd i tk evs \<Longrightarrow> task_ok rnd i (cancel_task tk) evs"
  by (erule task_ok_cong) (simp_all add: cancel_task_def flags_ok_def)

lemma task_ok_send:
  assumes "task_ok rnd i tk evs" shows "task_ok rnd i (send_spec sp tk) evs"
proof -
  have "flags_ok (send_spec sp tk)" using assms by (simp add: task_ok_def flags_ok_def send_spec_def)
  then show ?thesis by (rule task_ok_cong [OF assms]) (simp_all add: send_spec_def status_configure_def)
qed

lemma task_ok_new: "task_ok rnd i (runner_new name i sp) []"
  by (simp add: task_ok_def flags_ok_def counts_ok_def runner_new_def status_new_def failing_streak_def runs_of_def)

lemma trace_ok_stop_entries: "trace_ok rnd w tr \<Longrightarrow> trace_ok rnd (stop_entries S w) tr"
  unfolding trace_ok_def
proof (intro allI)
  fix i
  assume "\<forall>i. case w_tasks w i of None \<Rightarrow> events_of i tr = [] | Some tk \<Rightarrow> task_ok rnd i tk (events_of i tr)"
  then have "case w_tasks w i of None \<Rightarrow> events_of i tr = [] | Some tk \<Rightarrow> task_ok rnd i tk (events_of i tr)" ..
  then show "case w_tasks (stop_entries S w) i of None \<Rightarrow> events_of i tr = [] | Some tk \<Rightarrow> task_ok rnd i tk (events_of i tr)"
    by (cases "w_tasks w i") (auto simp: task_ok_cancel)
qed

lemma manager_remove_stop_entries:
  assumes "world_ok w"
  shows "snd (manager_remove name w) = (case map_of (w_entries w) name of None \<Rightarrow> w | Some i \<Rightarrow> stop_entries {i} w)"
proof (cases "map_of (w_entries w) name")
  case (Some i)
  have d: "distinct (map fst (w_entries w))" "distinct (map snd (w_entries w))"
    using assms by (simp_all add: world_ok_def entries_ok_def)
  have m: "(name, i) \<in> set (w_entries w)" using Some by (rule map_of_SomeD)
  have "fst e \<noteq> name \<longleftrightarrow> snd e \<noteq> i" if "e \<in> set (w_entries w)" for e
    using that m d by (metis distinct_map fst_conv inj_onD snd_conv)
  then have "filter (\<lambda>e. fst e \<noteq> name) (w_entries w) = filter (\<lambda>e. snd e \<notin> {i}) (w_entries w)"
    by (intro filter_cong) simp_all
  then show ?thesis
    using Some by (intro world.equality) (auto simp: manager_remove_def stop_entry_def stop_entries_def registry_remove_def
        removeAll_filter_not_eq fun_eq_iff intro!: filter_cong)
qed (simp add: manager_remove_def)

lemma manager_remove_all_stop_entries:
  "snd (manager_remove_all w) = stop_entries (snd ` set (w_entries w)) w"
  by (auto simp: manager_remove_all_def fold_stop_entry stop_entries_def filter_empty_conv cong: if_cong)

lemma manager_drop_stop_entries:
  "manager_drop w = (stop_entries (snd ` set (w_entries w)) w)\<lparr>w_dropped := True\<rparr>"
  by (auto simp: manager_drop_def fold_stop_entry stop_entries_def filter_empty_conv cong: if_cong)

lemma entries_ok_set_task:
  assumes "entries_ok w" "w_tasks w i = Some tk" "task_frame tk tk'"
  shows "entries_ok (set_task i tk' w)"
proof -
  have "entry_ok (set_task i tk' w) name j" if "entry_ok w name j" for name j
    using that assms(2,3) by (cases "j = i") (auto simp: entry_ok_def set_task_def task_frame_def)
  moreover have "tk_cancel tk'' \<and> \<not> tk_sender tk''"
    if "w_tasks (set_task i tk' w) j = Some tk''" "j \<notin> snd ` set (w_entries w)" for j tk''
  proof (cases "j = i")
    case True
    with that assms show ?thesis unfolding entries_ok_def by (auto simp: set_task_def task_frame_def)
  next
    case False
    with that assms(1) show ?thesis unfolding entries_ok_def by (auto simp: set_task_def)
  qed
  moreover have "w_entries (set_task i tk' w) = w_entries w" by (simp add: set_task_def)
  ultimately show ?thesis using assms(1) unfolding entries_ok_def by (auto split: prod.splits)
qed

lemma world_ok_set_task:
  assumes "world_ok w" "w_tasks w i = Some tk" "task_frame tk tk'"
  shows "world_ok (set_task i tk' w)"
  using assms entries_ok_set_task [OF _ assms(2,3)] unfolding world_ok_def
  by (auto simp: set_task_def dom_def split: if_splits)

lemma trace_ok_set_task:
  assumes "trace_ok rnd w tr" "task_ok rnd i tk' (events_of i (tr @ evs))" "own_events i evs"
  shows "trace_ok rnd (set_task i tk' w) (tr @ evs)"
  unfolding trace_ok_def
proof (intro allI)
  fix j
  have "case w_tasks w j of None \<Rightarrow> events_of j tr = [] | Some tk \<Rightarrow> task_ok rnd j tk (events_of j tr)"
    using assms(1) unfolding trace_ok_def ..
  then show "case w_tasks (set_task i tk' w) j of None \<Rightarrow> events_of j (tr @ evs) = [] | Some tk \<Rightarrow> task_ok rnd j tk (events_of j (tr @ evs))"
    using assms(2) own_events_other [OF assms(3), of j] unfolding events_of_append
    by (cases "j = i"; cases "w_tasks w j") (auto simp: set_task_def)
qed

lemma trace_okD: "trace_ok rnd w tr \<Longrightarrow> w_tasks w i = Some tk \<Longrightarrow> task_ok rnd i tk (events_of i tr)"
  unfolding trace_ok_def by (metis option.simps(5))

lemma trace_ok_fresh: "trace_ok rnd w tr \<Longrightarrow> w_tasks w i = None \<Longrightarrow> events_of i tr = []"
  unfolding trace_ok_def by (metis option.simps(4))

lemma entry_task:
  assumes "world_ok w" "map_of (w_entries w) name = Some i"
  obtains tk where "w_tasks w i = Some tk" "tk_name tk = name" "tk_sender tk" "\<not> tk_cancel tk"
proof -
  have "entry_ok w name i" using assms map_of_SomeD [OF assms(2)] unfolding world_ok_def entries_ok_def by auto
  then show thesis using that unfolding entry_ok_def by blast
qed

lemma manager_update_existing:
  assumes "map_of (w_entries w) name = Some i" "w_tasks w i = Some tk"
  shows "manager_update name sp w = set_task i (send_spec (normalize_spec (w_max_interval w) sp) tk) w"
  using assms by (simp add: manager_update_def set_task_def)

lemma fresh_id: "world_ok w \<Longrightarrow> w_tasks w (w_next_id w) = None"
  unfolding world_ok_def by (metis domIff lessThan_iff less_irrefl subsetD)

lemma send_spec_frame: "task_frame tk (send_spec sp tk)"
  by (simp add: task_frame_def send_spec_def status_configure_def)

lemma world_ok_update_new:
  assumes "world_ok w" "map_of (w_entries w) name = None"
  shows "world_ok (manager_update name sp w)"
proof -
  let ?i = "w_next_id w" and ?w = "manager_update name sp w"
  have e: "w_entries ?w = (name, ?i) # w_entries w"
    "w_tasks ?w = (w_tasks w)(?i \<mapsto> runner_new name ?i (normalize_spec (w_max_interval w) sp))"
    "w_registry ?w = ?i # removeAll ?i (w_registry w)" "w_next_id ?w = Suc ?i"
    using assms(2) by (simp_all add: manager_update_def Let_def registry_insert_def)
  have k: "entry_ok w n j" if "(n, j) \<in> set (w_entries w)" for n j
    using that assms(1) unfolding world_ok_def entries_ok_def by auto
  have f: "?i \<notin> snd ` set (w_entries w)"
  proof
    assume "?i \<in> snd ` set (w_entries w)"
    then obtain n where "(n, ?i) \<in> set (w_entries w)" by auto
    from k [OF this] show False using fresh_id [OF assms(1)] by (simp add: entry_ok_def)
  qed
  have "entry_ok ?w n j" if "(n, j) \<in> set (w_entries w)" for n j
    using k [OF that] fresh_id [OF assms(1)] by (auto simp: entry_ok_def e)
  moreover have "entry_ok ?w name ?i" by (simp add: entry_ok_def e runner_new_def status_new_def)
  moreover have "tk_cancel tk \<and> \<not> tk_sender tk" if "w_tasks ?w j = Some tk" "j \<notin> snd ` set (w_entries ?w)" for j tk
    using that assms(1) unfolding world_ok_def entries_ok_def by (auto simp: e)
  moreover have "name \<notin> fst ` set (w_entries w)" using assms(2) by (simp add: map_of_eq_None_iff)
  ultimately have "entries_ok ?w"
    using assms(1) f unfolding world_ok_def entries_ok_def by (auto simp: e(1))
  then show ?thesis using assms(1) f unfolding world_ok_def by (auto simp: e subset_iff less_Suc_eq)
qed

lemma world_ok_update:
  assumes "world_ok w" shows "world_ok (manager_update name sp w)"
proof (cases "map_of (w_entries w) name")
  case None
  then show ?thesis by (rule world_ok_update_new [OF assms])
next
  case (Some i)
  then show ?thesis using entry_task [OF assms Some] world_ok_set_task [OF assms _ send_spec_frame] manager_update_existing
    by metis
qed

lemma trace_ok_update:
  assumes "world_ok w" "trace_ok rnd w tr" shows "trace_ok rnd (manager_update name sp w) tr"
proof (cases "map_of (w_entries w) name")
  case None
  let ?i = "w_next_id w"
  have "trace_ok rnd (set_task ?i (runner_new name ?i (normalize_spec (w_max_interval w) sp)) w) (tr @ [])"
    using trace_ok_fresh [OF assms(2) fresh_id [OF assms(1)]]
    by (intro trace_ok_set_task [OF assms(2)]) (simp_all add: task_ok_new own_events_def)
  then show ?thesis using None by (simp add: manager_update_def set_task_def trace_ok_def Let_def)
next
  case (Some i)
  then obtain tk where tk: "w_tasks w i = Some tk" using entry_task [OF assms(1)] by blast
  have "trace_ok rnd (set_task i (send_spec (normalize_spec (w_max_interval w) sp) tk) w) (tr @ [])"
    using trace_okD [OF assms(2) tk] by (intro trace_ok_set_task [OF assms(2)]) (simp_all add: task_ok_send own_events_def)
  then show ?thesis by (simp add: manager_update_existing [OF Some tk])
qed

lemma registry_live: "world_ok w \<Longrightarrow> filter (cell_alive w) (w_registry w) = w_registry w"
  by (simp add: world_ok_def cell_alive_def)

lemma registry_statuses_world: "world_ok w \<Longrightarrow> snd (registry_statuses w) = w"
  by (simp add: registry_statuses_def Let_def registry_live)

lemma world_ok_cong:
  "world_ok w \<Longrightarrow> w_entries w' = w_entries w \<Longrightarrow> w_registry w' = w_registry w \<Longrightarrow> w_tasks w' = w_tasks w \<Longrightarrow>
   w_next_id w \<le> w_next_id w' \<Longrightarrow> world_ok w'"
  by (auto simp: world_ok_def entries_ok_def entry_ok_def subset_iff)

lemma trace_ok_cong: "trace_ok rnd w tr \<Longrightarrow> w_tasks w' = w_tasks w \<Longrightarrow> trace_ok rnd w' tr"
  by (simp add: trace_ok_def)

lemma reachable_ok: "reachable rnd w tr \<Longrightarrow> world_ok w \<and> trace_ok rnd w tr"
proof (induction rule: reachable.induct)
  case (built first mx obs)
  then show ?case by (simp add: manager_build_def world_ok_def entries_ok_def trace_ok_def)
next
  case (task w tr i tk a tk' evs)
  have t: "task_ok rnd i tk' (events_of i (tr @ evs))"
    using task_step_ok [OF trace_okD [of rnd w tr] task.hyps(3)] task by simp
  show ?case using task.IH task_step_frame [OF task.hyps(3)]
    by (auto intro: world_ok_set_task [OF _ task.hyps(2)] trace_ok_set_task [OF _ t])
next
  case (dropped w tr)
  let ?v = "stop_entries (snd ` set (w_entries w)) w"
  let ?w = "?v\<lparr>w_dropped := True\<rparr>"
  show ?case unfolding manager_drop_stop_entries
    using dropped.IH world_ok_cong [of ?v ?w] trace_ok_cong [of rnd ?v tr ?w]
    by (simp add: world_ok_stop_entries trace_ok_stop_entries)
next
  case (other_manager w tr)
  let ?w = "w\<lparr>w_next_id := w_next_id w + 1\<rparr>"
  show ?case using other_manager.IH world_ok_cong [of w ?w] trace_ok_cong [of rnd w tr ?w] by simp
qed (auto simp: world_ok_update trace_ok_update world_ok_stop_entries trace_ok_stop_entries
    manager_remove_all_stop_entries manager_drop_stop_entries manager_remove_stop_entries registry_statuses_world
    split: option.splits)

section \<open>Runs of one task\<close>

fun task_run :: "(rat \<Rightarrow> rat) \<Rightarrow> bool \<Rightarrow> nat \<Rightarrow> ('j, 'h) task \<Rightarrow> task_act list \<Rightarrow> (('j, 'h) task \<times> ('j, 'h) event list) option" where
  "task_run rnd obs i tk [] = Some (tk, [])"
| "task_run rnd obs i tk (a # as) =
     (case task_step rnd obs i tk a of
        None \<Rightarrow> None
      | Some (tk1, e) \<Rightarrow> map_option (\<lambda>(tk2, es). (tk2, e @ es)) (task_run rnd obs i tk1 as))"

lemma task_run_ConsE:
  assumes "task_run rnd obs i tk (a # as) = Some (tk', evs)"
  obtains tk1 e es where "task_step rnd obs i tk a = Some (tk1, e)" "task_run rnd obs i tk1 as = Some (tk', es)" "evs = e @ es"
  using assms by (auto split: option.splits prod.splits)

text \<open>The steps a cancelled task has left.\<close>

fun stop_rank :: "phase \<Rightarrow> nat" where
  "stop_rank Spawned = 4"
| "stop_rank Running = 3"
| "stop_rank (Waiting _) = 2"
| "stop_rank Stopping = 1"
| "stop_rank Terminated = 0"

definition uses_spec :: "('j, 'h) spec \<Rightarrow> ('j, 'h) event \<Rightarrow> bool" where
  "uses_spec sp e = (case e of Ran _ j _ \<Rightarrow> j = sp_job sp | HookRan _ h _ \<Rightarrow> sp_on_stop sp = Some h | _ \<Rightarrow> True)"

lemma job_ends_uses: "list_all (uses_spec (tk_spec tk)) (snd (job_ends rnd obs i out dur now r tk))"
  by (auto simp: job_ends_def Let_def uses_spec_def split: option.splits)

lemma cancelled_step:
  assumes "tk_cancel tk" "task_step rnd obs i tk a = Some (tk', evs)"
  shows "tk_cancel tk' \<and> stop_rank (tk_phase tk') < stop_rank (tk_phase tk) \<and>
    (tk_phase tk \<noteq> Spawned \<longrightarrow> tk_phase tk' \<noteq> Spawned \<and> tk_spec tk' = tk_spec tk \<and> list_all (uses_spec (tk_spec tk)) evs)"
proof (cases a)
  case Start
  then show ?thesis using assms by (auto simp: task_start_def split: if_splits)
next
  case (JobEnds out dur now r)
  then have r: "tk_phase tk = Running" "job_ends rnd obs i out dur now r tk = (tk', evs)"
    using assms by (auto split: if_splits)
  then show ?thesis using assms job_ends_fields [OF r(2)] job_ends_uses [of tk rnd obs i out dur now r] by auto
next
  case (Wakes b)
  then show ?thesis using assms by (auto simp: select_wake_def uses_spec_def split: phase.splits if_splits)
next
  case (HookEnds out now)
  then show ?thesis using assms by (auto simp: run_stop_hook_def Let_def uses_spec_def split: if_splits)
qed

lemma cancelled_progress:
  assumes "task_ok rnd i tk evs" "tk_cancel tk" "tk_phase tk \<noteq> Terminated"
  shows "\<exists>a. task_step rnd obs i tk a \<noteq> None"
proof (cases "tk_phase tk")
  case Spawned
  then show ?thesis by (intro exI [of _ Start]) simp
next
  case Running
  then show ?thesis by (intro exI [of _ "JobEnds out dur now r" for out dur now r]) simp
next
  case (Waiting w)
  then show ?thesis using assms(2) by (intro exI [of _ "Wakes False"]) (simp add: select_wake_def)
next
  case Stopping
  then show ?thesis using assms(1) by (intro exI [of _ "HookEnds out now" for out now]) (auto simp: task_ok_def)
qed (use assms(3) in simp)

lemma cancelled_run:
  assumes "tk_cancel tk" "task_run rnd obs i tk as = Some (tk', evs)" "task_ok rnd i tk tr"
  shows "length as + stop_rank (tk_phase tk') \<le> stop_rank (tk_phase tk) \<and> tk_cancel tk' \<and>
    task_ok rnd i tk' (tr @ events_of i evs)"
  using assms
proof (induction as arbitrary: tk evs tr)
  case (Cons a as)
  obtain tk1 e es where s: "task_step rnd obs i tk a = Some (tk1, e)" "task_run rnd obs i tk1 as = Some (tk', es)" "evs = e @ es"
    using Cons.prems(2) by (rule task_run_ConsE)
  have c: "tk_cancel tk1" "stop_rank (tk_phase tk1) < stop_rank (tk_phase tk)" using cancelled_step [OF Cons.prems(1) s(1)] by auto
  show ?case using Cons.IH [OF c(1) s(2) task_step_ok [OF Cons.prems(3) s(1)]] c(2) s(3) by simp
qed simp

lemma cancelled_run_old_spec:
  assumes "tk_cancel tk" "tk_phase tk \<noteq> Spawned" "task_run rnd obs i tk as = Some (tk', evs)"
  shows "list_all (uses_spec (tk_spec tk)) evs"
  using assms
proof (induction as arbitrary: tk evs)
  case (Cons a as)
  obtain tk1 e es where s: "task_step rnd obs i tk a = Some (tk1, e)" "task_run rnd obs i tk1 as = Some (tk', es)" "evs = e @ es"
    using Cons.prems(3) by (rule task_run_ConsE)
  show ?case using Cons.IH [OF _ _ s(2)] cancelled_step [OF Cons.prems(1) s(1)] Cons.prems(2) s(3) by simp
qed simp

lemma lifecycle_split:
  assumes "lifecycle_ok p i hook ph evs"
  shows "\<exists>runs stop. evs = runs @ stop \<and> list_all is_run runs \<and>
    (if ph = Terminated then runs \<noteq> [] \<and> task_ends p i hook runs stop else stop = [])"
  using assms by (cases ph) auto

lemma entry_statuses:
  assumes "world_ok w"
  defines "S \<equiv> \<lambda>i. the (status_of w i)"
  shows "manager_statuses w = sort_key st_name (map (S \<circ> snd) (w_entries w))"
    and "fst (registry_statuses w) = sort_key (\<lambda>s. (st_name s, st_id s)) (map S (w_registry w))"
    and "map (st_name \<circ> (S \<circ> snd)) (w_entries w) = map fst (w_entries w)"
proof -
  have e: "entry_ok w n i" if "(n, i) \<in> set (w_entries w)" for n i
    using that assms(1) unfolding world_ok_def entries_ok_def by auto
  have "status_of w (snd e) = Some (S (snd e))" if "e \<in> set (w_entries w)" for e
    using e [of "fst e" "snd e"] that by (auto simp: entry_ok_def status_of_def S_def)
  then have s: "status_of w i = Some (S i)" if "i \<in> snd ` set (w_entries w)" for i using that by auto
  have "List.map_filter (\<lambda>e. status_of w (snd e)) (w_entries w) = map (S \<circ> snd) (w_entries w)"
    using s by (simp add: List.map_filter_def)
  then show "manager_statuses w = sort_key st_name (map (S \<circ> snd) (w_entries w))" by (simp add: manager_statuses_def)
  have "List.map_filter (status_of w) (w_registry w) = map S (w_registry w)"
    using s assms(1) by (simp add: List.map_filter_def world_ok_def)
  then show "fst (registry_statuses w) = sort_key (\<lambda>s. (st_name s, st_id s)) (map S (w_registry w))"
    by (simp add: registry_statuses_def Let_def registry_live [OF assms(1)])
  have "st_name (S i) = n" if "(n, i) \<in> set (w_entries w)" for n i
    using e [OF that] by (auto simp: entry_ok_def status_of_def S_def)
  then show "map (st_name \<circ> (S \<circ> snd)) (w_entries w) = map fst (w_entries w)" by auto
qed

lemma mset_statuses:
  assumes "world_ok w" shows "mset (map S (w_registry w)) = mset (map (S \<circ> snd) (w_entries w))"
proof -
  have "mset (w_registry w) = mset (map snd (w_entries w))"
    using assms by (subst set_eq_iff_mset_eq_distinct [symmetric]) (auto simp: world_ok_def entries_ok_def)
  then show ?thesis by (metis map_map mset_map)
qed

lemma statuses_equal:
  assumes "world_ok w" shows "fst (registry_statuses w) = manager_statuses w"
proof -
  let ?S = "\<lambda>i. the (status_of w i)" and ?k = "\<lambda>s. (st_name s, st_id s)"
  let ?r = "map ?S (w_registry w)" and ?e = "map (?S \<circ> snd) (w_entries w)"
  have "distinct (map (st_name \<circ> (?S \<circ> snd)) (w_entries w))"
    using assms unfolding entry_statuses(3) [OF assms] world_ok_def entries_ok_def by blast
  then have i: "inj_on st_name (set ?e)" by (metis distinct_map inj_on_imageI2 inj_on_imageI map_map list.set_map)
  have "sorted (map ?k (sort_key ?k ?r))" by simp
  then have "sorted (map st_name (sort_key ?k ?r))"
    unfolding sorted_map by (rule sorted_wrt_mono_rel [rotated]) (auto simp: less_eq_prod_def less_le)
  moreover have "mset ?e = mset (sort_key ?k ?r)" using mset_statuses [OF assms, of ?S] by simp
  ultimately have "sort_key st_name ?e = sort_key ?k ?r" by (intro sort_key_inj_key_eq [OF _ i])
  then show ?thesis using entry_statuses [OF assms] by simp
qed

lemma manager_status_names:
  assumes "world_ok w"
  shows "sorted (map st_name (manager_statuses w)) \<and> distinct (map st_name (manager_statuses w)) \<and>
    set (map st_name (manager_statuses w)) = {name. manager_contains name w}"
proof -
  let ?e = "map ((\<lambda>i. the (status_of w i)) \<circ> snd) (w_entries w)"
  have "mset (map st_name (manager_statuses w)) = mset (map st_name ?e)"
    unfolding entry_statuses(1) [OF assms] by (simp only: mset_map mset_sort)
  also have "\<dots> = mset (map fst (w_entries w))" unfolding map_map entry_statuses(3) [OF assms] ..
  finally have m: "mset (map st_name (manager_statuses w)) = mset (map fst (w_entries w))" .
  have "distinct (map fst (w_entries w))" using assms by (simp add: world_ok_def entries_ok_def)
  then have "distinct (map st_name (manager_statuses w))" using m by (metis mset_eq_imp_distinct_iff)
  moreover have "set (map st_name (manager_statuses w)) = fst ` set (w_entries w)" using m by (metis mset_eq_setD set_map)
  moreover have "fst ` set (w_entries w) = {name. manager_contains name w}"
    by (auto simp: manager_contains_def map_of_eq_None_iff [symmetric] weak_map_of_SomeI) (metis domI dom_map_of_conv_image_fst)
  ultimately show ?thesis by (simp add: manager_statuses_def)
qed

text \<open>The task of an entry after an update, and after an update and a removal.\<close>

lemma updated_task:
  assumes "reachable rnd w tr" "map_of (w_entries w) name = Some i" "w_tasks w i = Some tk"
  shows "w_tasks (manager_update name sp w) i = Some (send_spec (normalize_spec (w_max_interval w) sp) tk)"
    "w_tasks (snd (manager_remove name (manager_update name sp w))) i =
       Some (cancel_task (send_spec (normalize_spec (w_max_interval w) sp) tk))"
  using assms by (auto simp: manager_update_existing manager_remove_def stop_entry_def set_task_def)

lemma update_step:
  assumes "task_ok rnd i tk evs" "tk_changed tk" "\<not> tk_cancel tk" "task_step rnd obs i tk a = Some (tk', new)"
  shows "if tk_phase tk = Running
    then tk_phase tk' = Terminated \<or> tk_changed tk' \<and> tk_chan tk' = tk_chan tk \<and> tk_phase tk' \<noteq> Running \<and> \<not> tk_cancel tk'
    else tk_phase tk' = Running \<and> tk_spec tk' = tk_chan tk \<and> \<not> tk_changed tk'"
proof (cases a)
  case Start
  then show ?thesis using assms by (auto simp: task_start_def split: if_splits)
next
  case (JobEnds out dur now r)
  then have r: "tk_phase tk = Running" "job_ends rnd obs i out dur now r tk = (tk', new)"
    using assms by (auto split: if_splits)
  then show ?thesis using assms job_ends_fields [OF r(2)] by auto
next
  case (Wakes b)
  then show ?thesis using assms by (auto simp: select_wake_def split: phase.splits if_splits)
next
  case (HookEnds out now)
  then show ?thesis using assms by (auto simp: task_ok_def flags_ok_def split: if_splits)
qed

section \<open>Properties\<close>

text \<open>A controller that has run its job once and waits for an update, and the same after its removal.\<close>

definition sample_spec :: "(nat, nat) spec" where
  "sample_spec = spec_on_stop 9 (spec_new 7)"

definition sample_task :: "(nat, nat) task" where
  "sample_task = fst (job_ends (\<lambda>x. x) False 2 (Returns Done) 5 0 NaN (task_start (runner_new ''a'' 2 sample_spec)))"

definition sample_world :: "(nat, nat) world" where
  "sample_world = set_task 2 sample_task
     (set_task 2 (task_start (runner_new ''a'' 2 sample_spec)) (manager_update ''a'' sample_spec (manager_build 2 None False)))"

definition stopped_task :: "(nat, nat) task" where
  "stopped_task = (cancel_task sample_task)\<lparr>tk_phase := Terminated\<rparr>"

lemma sample_task_fields:
  "tk_phase sample_task = Waiting UntilUpdate" "tk_spec sample_task = sample_spec" "tk_name sample_task = ''a''"
  by (simp_all add: sample_task_def job_ends_def runner_record_def task_start_def runner_new_def)

lemma sample_world_fields:
  "w_tasks sample_world 2 = Some sample_task" "w_entries sample_world = [(''a'', 2)]" "w_max_interval sample_world = None"
  by (simp_all add: sample_world_def set_task_def manager_update_def manager_build_def Let_def)

lemma sample_reachable: "reachable (\<lambda>x. x) sample_world [Ran 2 7 (Ok Done)]"
proof -
  let ?w0 = "manager_build 2 None False :: (nat, nat) world"
  let ?w1 = "manager_update ''a'' sample_spec ?w0"
  let ?t = "runner_new ''a'' 2 sample_spec :: (nat, nat) task"
  have n: "normalize_spec None sample_spec = sample_spec" by (simp add: normalize_spec_def sample_spec_def spec_on_stop_def spec_new_def)
  have 1: "reachable (\<lambda>x. x) ?w1 []" by (intro reachable.intros) (simp add: manager_build_def)
  have w: "w_tasks ?w1 2 = Some ?t" "w_observer ?w1 = False"
    by (simp_all add: manager_update_def manager_build_def Let_def n)
  have 2: "reachable (\<lambda>x. x) (set_task 2 (task_start ?t) ?w1) ([] @ [])"
    by (rule reachable.task [OF 1 w(1), where a = Start]) (simp add: runner_new_def)
  have step: "task_step (\<lambda>x. x) False 2 (task_start ?t) (JobEnds (Returns Done) 5 0 NaN) = Some (sample_task, [Ran 2 7 (Ok Done)])"
    by (simp add: sample_task_def job_ends_def task_start_def runner_record_def runner_new_def
        sample_spec_def spec_on_stop_def spec_new_def)
  have "reachable (\<lambda>x. x) (set_task 2 sample_task (set_task 2 (task_start ?t) ?w1)) (([] @ []) @ [Ran 2 7 (Ok Done)])"
    by (rule reachable.task [OF 2, where i = 2 and tk = "task_start ?t" and a = "JobEnds (Returns Done) 5 0 NaN"])
      (simp add: set_task_def, use step w(2) in \<open>simp add: set_task_def\<close>)
  then show ?thesis by (simp add: sample_world_def)
qed

definition removed_world :: "(nat, nat) world" where
  "removed_world = snd (manager_remove ''a'' sample_world)"

lemma removed_world_task: "w_tasks removed_world 2 = Some (cancel_task sample_task)"
  by (simp add: removed_world_def manager_remove_def stop_entry_def sample_world_fields)

lemma removed_run:
  "task_run (\<lambda>x. x) False 2 (cancel_task sample_task) [Wakes False, HookEnds (Some (Returns ())) 3] =
     Some (stopped_task, [HookRan 2 9 (Ok ()), Ended 2])"
  by (simp add: cancel_task_def select_wake_def run_stop_hook_def Let_def stopped_task_def sample_task_fields
      sample_spec_def spec_on_stop_def spec_new_def)

lemma removed_reachable:
  "reachable (\<lambda>x. x) (set_task 2 stopped_task (set_task 2 ((cancel_task sample_task)\<lparr>tk_phase := Stopping\<rparr>) removed_world))
     [Ran 2 7 (Ok Done), HookRan 2 9 (Ok ()), Ended 2]"
proof -
  have d: "\<not> w_dropped sample_world" "w_observer removed_world = False"
    by (simp_all add: removed_world_def manager_remove_def stop_entry_def sample_world_fields)
      (simp_all add: sample_world_def set_task_def manager_update_def manager_build_def Let_def)
  have 1: "reachable (\<lambda>x. x) removed_world [Ran 2 7 (Ok Done)]"
    unfolding removed_world_def by (rule reachable.remove [OF sample_reachable d(1)])
  have 2: "reachable (\<lambda>x. x) (set_task 2 ((cancel_task sample_task)\<lparr>tk_phase := Stopping\<rparr>) removed_world) ([Ran 2 7 (Ok Done)] @ [])"
    by (rule reachable.task [OF 1 removed_world_task, where a = "Wakes False"])
      (simp add: cancel_task_def select_wake_def sample_task_fields sample_spec_def spec_on_stop_def)
  have "reachable (\<lambda>x. x) (set_task 2 stopped_task (set_task 2 ((cancel_task sample_task)\<lparr>tk_phase := Stopping\<rparr>) removed_world))
      (([Ran 2 7 (Ok Done)] @ []) @ [HookRan 2 9 (Ok ()), Ended 2])"
    by (rule reachable.task [OF 2, where i = 2 and a = "HookEnds (Some (Returns ())) 3" and tk = "(cancel_task sample_task)\<lparr>tk_phase := Stopping\<rparr>"])
      (simp_all add: set_task_def cancel_task_def run_stop_hook_def Let_def stopped_task_def sample_task_fields sample_spec_def
        spec_on_stop_def spec_new_def)
  then show ?thesis by simp
qed

text \<open>C32: the life of a controller, for every interleaving. The events of a controller are runs of its job,
  followed, once it has terminated, by the hook of its specification exactly once (if there is one) and
  its end. A task ends without its hook in one case only: its last run failed and the delay of its
  backoff, for the count of errors it then has, is too long for a duration, so that \<open>mul_f64\<close>
  panics. No controller stops before its job has run at least once.\<close>

theorem controller_lifecycle:
  assumes "reachable rnd w tr" "w_tasks w i = Some tk"
  shows "\<exists>runs stop. events_of i tr = runs @ stop \<and> list_all is_run runs \<and>
    (if tk_phase tk = Terminated
     then runs \<noteq> [] \<and> (stop_events i (sp_on_stop (tk_spec tk)) stop \<or>
       delay_panics rnd tk \<and> run_failed (last runs) \<and> stop = [Crashed i])
     else stop = [])"
proof -
  have "task_ok rnd i tk (events_of i tr)" using reachable_ok [OF assms(1)] trace_okD assms(2) by blast
  then have "lifecycle_ok (delay_panics rnd tk) i (sp_on_stop (tk_spec tk)) (tk_phase tk) (events_of i tr)"
    by (simp add: task_ok_def)
  then show ?thesis using lifecycle_split unfolding task_ends_def by blast
qed

theorem controller_lifecycle_witness:
  "\<exists>runs stop. [Ran 2 (7 :: nat) (Ok Done), HookRan 2 9 (Ok ()), Ended 2] = runs @ stop \<and> list_all is_run runs \<and>
    runs \<noteq> [] \<and> stop_events 2 (Some (9 :: nat)) stop"
proof -
  have e: "[Ran 2 (7 :: nat) (Ok Done), HookRan 2 (9 :: nat) (Ok ()), Ended 2] \<noteq> runs @ [Crashed 2]" for runs
    by (auto dest: arg_cong [where f = last])
  show ?thesis using controller_lifecycle [OF removed_reachable, of 2 stopped_task] e
    by (auto simp: set_task_def stopped_task_def cancel_task_def sample_task_fields sample_spec_def spec_on_stop_def)
qed

text \<open>The panic is that of delays near the largest duration. With the rounding of floating-point numbers
  monotone and exact on 0, 1 and two powers of two, no delay of up to \<open>2 ^ 62\<close> seconds panics; the
  largest delay does, and the task then ends without its hook.\<close>

lemma short_delay_never_panics:
  assumes "mono rnd" "rnd 0 = 0" "rnd 1 = 1" "rnd (2 ^ 62) = 2 ^ 62" "rnd (2 ^ 63) = 2 ^ 63"
    "delay (sp_backoff (tk_spec tk)) (tk_errors tk) = Some d" "d \<le> from_secs (2 ^ 62)"
  shows "\<not> delay_panics rnd tk"
proof -
  have m: "x \<le> y \<Longrightarrow> rnd x \<le> rnd y" for x y using assms(1) by (rule monoD)
  have "d div NANOS_PER_SEC \<le> 2 ^ 62" using div_le_mono [OF assms(7), of NANOS_PER_SEC] by (simp add: from_secs_def NANOS_PER_SEC_def)
  then have "(of_nat (d div NANOS_PER_SEC) :: rat) \<le> of_nat (2 ^ 62)" by (rule of_nat_mono)
  then have s: "rnd (of_nat (d div NANOS_PER_SEC)) \<le> 2 ^ 62" using m assms(4) by (metis of_nat_numeral of_nat_power)
  have "of_nat (d mod NANOS_PER_SEC) / of_nat NANOS_PER_SEC \<le> (1 :: rat)" by (simp add: NANOS_PER_SEC_def)
  then have "rnd (of_nat (d mod NANOS_PER_SEC) / of_nat NANOS_PER_SEC) \<le> 1" using m assms(3) by metis
  then have "as_secs_f64 rnd d \<le> rnd (2 ^ 63)" unfolding as_secs_f64_def using s by (intro m) simp
  then have u: "rnd (1 * as_secs_f64 rnd d) \<le> 2 ^ 63" using m assms(5) by (metis mult_1)
  have z: "0 \<le> x \<Longrightarrow> 0 \<le> rnd x" for x using m [of 0 x] assms(2) by simp
  have "0 \<le> rnd (1 * as_secs_f64 rnd d)" unfolding as_secs_f64_def by (intro z mult_nonneg_nonneg add_nonneg_nonneg) simp_all
  then have "mul_f64 rnd d 1 \<noteq> None" using u by (simp add: mul_f64_def from_secs_f64_def)
  then obtain d1 where "mul_f64 rnd d 1 = Some d1" by blast
  then have "jittered rnd (sp_backoff (tk_spec tk)) (tk_errors tk) r \<noteq> None" for r
    using jitter_only_shortens [OF assms(1,2,3,6)] by (metis option.distinct(1))
  then show ?thesis by (simp add: delay_panics_def)
qed

lemma longest_delay_skips_hook:
  assumes "mono rnd" "rnd 0 = 0" "rnd 1 = 1" "rnd (2 ^ 64 - 1) = 2 ^ 64" "rnd (2 ^ 64) = 2 ^ 64"
    "sp_backoff (tk_spec tk) = Linear DURATION_MAX DURATION_MAX" "\<not> is_ok (catch_panic out)"
  shows "\<exists>tk'. job_ends rnd obs i out dur now r tk = (tk', Ran i (sp_job (tk_spec tk)) (catch_panic out) #
    (if obs then [RunFinished (tk_name tk) False dur] else []) @ [Crashed i]) \<and> tk_phase tk' = Terminated"
proof -
  have d: "DURATION_MAX div NANOS_PER_SEC = 2 ^ 64 - 1" by (simp add: DURATION_MAX_def NANOS_PER_SEC_def)
  have m: "x \<le> y \<Longrightarrow> rnd x \<le> rnd y" for x y using assms(1) by (rule monoD)
  have "rnd 0 \<le> rnd (of_nat (DURATION_MAX mod NANOS_PER_SEC) / of_nat NANOS_PER_SEC)" by (rule m) simp
  moreover have "rnd (of_nat (DURATION_MAX div NANOS_PER_SEC)) = 2 ^ 64" unfolding d using assms(4) by simp
  ultimately have "rnd (2 ^ 64) \<le> as_secs_f64 rnd DURATION_MAX"
    unfolding as_secs_f64_def using assms(2) by (intro m) simp
  then have "2 ^ 64 \<le> rnd (1 * as_secs_f64 rnd DURATION_MAX)" using m [of "2 ^ 64"] assms(5) by simp
  then have p: "mul_f64 rnd DURATION_MAX 1 = None" by (simp add: mul_f64_def from_secs_f64_def)
  have "delay (Linear DURATION_MAX DURATION_MAX) e = Some DURATION_MAX" for e
    using delay_linear [of DURATION_MAX DURATION_MAX e] by (simp add: min_absorb2)
  then have "jittered rnd (Linear DURATION_MAX DURATION_MAX) e r = None" for e
    using p assms(2,3) by (simp add: jittered_def)
  then show ?thesis using assms(6,7)
    by (cases "catch_panic out") (auto simp: job_ends_def Let_def runner_record_def)
qed

text \<open>The status of a controller counts its trace. Successes, failures (of runs and of the stop hook) and
  the current streak of failed runs are those of the events, modulo the width of the counters, and
  the error count that selects the delay is the streak, saturated at \<open>u32::MAX\<close>.\<close>

lemma status_counts_runs:
  assumes "reachable rnd w tr" "w_tasks w i = Some tk"
  shows "st_success_count (tk_status tk) = of_nat (length (filter run_succeeded (events_of i tr))) \<and>
    st_failure_count (tk_status tk) =
      of_nat (length (filter run_failed (events_of i tr)) + length (filter hook_failed (events_of i tr))) \<and>
    st_consecutive_failures (tk_status tk) = of_nat (failing_streak (events_of i tr)) \<and>
    unat (tk_errors tk) = min (failing_streak (events_of i tr)) (2 ^ 32 - 1)"
proof -
  have "task_ok rnd i tk (events_of i tr)" using reachable_ok [OF assms(1)] trace_okD assms(2) by blast
  then show ?thesis unfolding task_ok_def counts_ok_def by blast
qed

lemma status_counts_runs_witness: "st_success_count (tk_status sample_task) = 1 \<and> st_failure_count (tk_status sample_task) = 0"
  using status_counts_runs [OF sample_reachable sample_world_fields(1)] by simp

text \<open>The registry and the manager agree. After any interleaving, what the registry reports is what the manager reports, one
  status per controller the manager contains, sorted by name.\<close>

lemma statuses_agree:
  assumes "reachable rnd w tr"
  shows "fst (registry_statuses w) = manager_statuses w \<and>
    sorted (map st_name (manager_statuses w)) \<and> distinct (map st_name (manager_statuses w)) \<and>
    set (map st_name (manager_statuses w)) = {name. manager_contains name w}"
  using reachable_ok [OF assms] statuses_equal manager_status_names by blast

lemma statuses_agree_witness:
  "fst (registry_statuses sample_world) = manager_statuses sample_world \<and>
   set (map st_name (manager_statuses sample_world)) = {''a''}"
proof -
  have "{name. manager_contains name sample_world} = {''a''}"
    by (auto simp: manager_contains_def sample_world_fields split: if_splits)
  then show ?thesis using statuses_agree [OF sample_reachable] by simp
qed

text \<open>C33: a removed controller terminates. After \<open>remove\<close> its task takes at most four more steps (start, end of the
  job, wake-up, end of the hook), is never stuck before it has terminated, and no later update reaches it.\<close>

theorem removed_controller_terminates:
  assumes "reachable rnd w tr" "map_of (w_entries w) name = Some i" "w' = snd (manager_remove name w)"
    "w_tasks w' i = Some tk" "task_run rnd obs i tk as = Some (tk', evs)"
  shows "length as \<le> 4 \<and> (length as = 4 \<longrightarrow> tk_phase tk' = Terminated) \<and>
    (tk_phase tk' = Terminated \<or> (\<exists>a. task_step rnd obs i tk' a \<noteq> None)) \<and> i \<notin> snd ` set (w_entries w')"
proof -
  have ok: "world_ok w" "trace_ok rnd w tr" using reachable_ok [OF assms(1)] by auto
  have w': "w' = stop_entries {i} w" using manager_remove_stop_entries [OF ok(1), of name] assms(2,3) by simp
  have t: "task_ok rnd i tk (events_of i tr)"
    using trace_okD [OF trace_ok_stop_entries [OF ok(2)], of "{i}"] assms(4) unfolding w' by blast
  have c: "tk_cancel tk" using assms(4) unfolding w' by (auto simp: cancel_task_def)
  note r = cancelled_run [OF c assms(5) t]
  have "stop_rank (tk_phase tk) \<le> 4" by (cases "tk_phase tk") auto
  moreover have "stop_rank (tk_phase tk') = 0 \<longleftrightarrow> tk_phase tk' = Terminated" by (cases "tk_phase tk'") auto
  moreover have "i \<notin> snd ` set (w_entries w')" by (auto simp: w')
  moreover have "tk_phase tk' = Terminated \<or> (\<exists>a. task_step rnd obs i tk' a \<noteq> None)"
    using r cancelled_progress by blast
  ultimately show ?thesis using r by auto
qed

theorem removed_controller_terminates_witness:
  "length [Wakes False, HookEnds (Some (Returns ())) 3] \<le> 4 \<and> tk_phase stopped_task = Terminated \<and>
   2 \<notin> snd ` set (w_entries removed_world)"
proof -
  have "map_of (w_entries sample_world) ''a'' = Some 2" by (simp add: sample_world_fields)
  from removed_controller_terminates [OF sample_reachable this removed_world_def removed_world_task removed_run]
  show ?thesis by (simp add: stopped_task_def)
qed

text \<open>An update takes effect at the next run. Updating a controller replaces its specification
  by the normalised new one: a waiting task wakes and runs the new job at once, a running one after its
  current run, and however many updates arrive meanwhile the last one is the one it runs.\<close>

lemma update_runs_new_spec:
  assumes "reachable rnd w tr" "map_of (w_entries w) name = Some i" "w_tasks (manager_update name sp w) i = Some tk"
    "task_run rnd obs i tk as = Some (tk', evs)" "length as = (if tk_phase tk = Running then 2 else 1)"
  shows "tk_phase tk' = Running \<and> tk_spec tk' = normalize_spec (w_max_interval w) sp \<and> \<not> tk_changed tk'"
proof -
  let ?n = "normalize_spec (w_max_interval w) sp"
  have ok: "world_ok w" "trace_ok rnd w tr" using reachable_ok [OF assms(1)] by auto
  obtain tk0 where tk0: "w_tasks w i = Some tk0" "\<not> tk_cancel tk0" using entry_task [OF ok(1) assms(2)] by blast
  have tk: "tk = send_spec ?n tk0" using updated_task(1) [OF assms(1,2) tk0(1)] assms(3) by simp
  have f: "tk_changed tk" "tk_chan tk = ?n" "\<not> tk_cancel tk" using tk0(2) by (simp_all add: tk send_spec_def)
  have t: "task_ok rnd i tk (events_of i tr)" unfolding tk by (rule task_ok_send [OF trace_okD [OF ok(2) tk0(1)]])
  obtain a as' where as: "as = a # as'" using assms(5) by (cases as) (auto split: if_splits)
  obtain tk1 e es where s: "task_step rnd obs i tk a = Some (tk1, e)" "task_run rnd obs i tk1 as' = Some (tk', es)"
    using assms(4) unfolding as by (rule task_run_ConsE)
  note u = update_step [OF t f(1,3) s(1)]
  show ?thesis
  proof (cases "tk_phase tk = Running")
    case False
    then show ?thesis using u s(2) assms(5) f(2) by (simp add: as)
  next
    case True
    then obtain b where b: "as' = [b]" using assms(5) by (cases as') (auto simp: as)
    obtain es' where s2: "task_step rnd obs i tk1 b = Some (tk', es')" using s(2) unfolding b by (auto split: option.splits)
    have "tk_phase tk1 \<noteq> Terminated" using s2 by (cases b) auto
    then show ?thesis using True u f(2) update_step [OF task_step_ok [OF t s(1)] _ _ s2] by auto
  qed
qed

lemma update_runs_new_spec_witness:
  "\<exists>tk'. task_run (\<lambda>x. x) False 2 (send_spec (spec_new 8) sample_task) [Wakes False] = Some (tk', []) \<and>
    tk_phase tk' = Running \<and> sp_job (tk_spec tk') = 8"
proof -
  have m: "map_of (w_entries sample_world) ''a'' = Some 2" by (simp add: sample_world_fields)
  have n: "normalize_spec (w_max_interval sample_world) (spec_new 8) = (spec_new 8 :: (nat, nat) spec)"
    by (simp add: sample_world_fields normalize_spec_def spec_new_def)
  have t: "w_tasks (manager_update ''a'' (spec_new 8) sample_world) 2 = Some (send_spec (spec_new 8) sample_task)"
    using updated_task(1) [OF sample_reachable m sample_world_fields(1), of "spec_new 8"] n by simp
  obtain tk' where r: "task_run (\<lambda>x. x) False 2 (send_spec (spec_new 8) sample_task) [Wakes False] = Some (tk', [])"
    by (cases "tk_cancel sample_task") (auto simp: send_spec_def select_wake_def sample_task_fields sample_spec_def spec_on_stop_def)
  have "tk_phase (send_spec (spec_new 8) sample_task) \<noteq> Running" by (simp add: send_spec_def sample_task_fields)
  then show ?thesis using update_runs_new_spec [OF sample_reachable m t r] r n by (simp add: spec_new_def)
qed

text \<open>An update that is followed by a removal before the task has seen it is lost. The task never runs the
  new job or the new stop hook: every event it still produces belongs to the old specification.\<close>

lemma update_then_remove_keeps_old_spec:
  assumes "reachable rnd w tr" "map_of (w_entries w) name = Some i" "w_tasks w i = Some tk0" "tk_phase tk0 \<noteq> Spawned"
    "w_tasks (snd (manager_remove name (manager_update name sp w))) i = Some tk"
    "task_run rnd obs i tk as = Some (tk', evs)"
  shows "list_all (uses_spec (tk_spec tk0)) evs"
proof -
  have tk: "tk = cancel_task (send_spec (normalize_spec (w_max_interval w) sp) tk0)"
    using updated_task(2) [OF assms(1-3)] assms(5) by simp
  have "tk_cancel tk" "tk_phase tk \<noteq> Spawned" "tk_spec tk = tk_spec tk0"
    using assms(4) by (simp_all add: tk cancel_task_def send_spec_def)
  then show ?thesis using cancelled_run_old_spec [OF _ _ assms(6)] by simp
qed

lemma update_then_remove_keeps_old_spec_witness:
  "\<exists>tk' evs. task_run (\<lambda>x. x) False 2 (cancel_task (send_spec (spec_on_stop 10 (spec_new 8)) sample_task))
      [Wakes False, HookEnds (Some (Returns ())) 3] = Some (tk', evs) \<and> HookRan 2 9 (Ok ()) \<in> set evs \<and> list_all (uses_spec sample_spec) evs"
proof -
  let ?sp = "spec_on_stop 10 (spec_new 8) :: (nat, nat) spec"
  have m: "map_of (w_entries sample_world) ''a'' = Some 2" by (simp add: sample_world_fields)
  have n: "normalize_spec (w_max_interval sample_world) ?sp = ?sp"
    by (simp add: sample_world_fields normalize_spec_def spec_new_def spec_on_stop_def)
  have t: "w_tasks (snd (manager_remove ''a'' (manager_update ''a'' ?sp sample_world))) 2 = Some (cancel_task (send_spec ?sp sample_task))"
    using updated_task(2) [OF sample_reachable m sample_world_fields(1), of ?sp] n by simp
  obtain tk' where r: "task_run (\<lambda>x. x) False 2 (cancel_task (send_spec ?sp sample_task)) [Wakes False, HookEnds (Some (Returns ())) 3] =
      Some (tk', [HookRan 2 9 (Ok ()), Ended 2])"
    by (simp add: cancel_task_def send_spec_def select_wake_def run_stop_hook_def Let_def sample_task_fields sample_spec_def
        spec_on_stop_def spec_new_def)
  have "tk_phase sample_task \<noteq> Spawned" by (simp add: sample_task_fields)
  from update_then_remove_keeps_old_spec [OF sample_reachable m sample_world_fields(1) this t r]
  show ?thesis using r by (intro exI conjI) (auto simp: sample_task_fields)
qed

end
