(* ===== verification/Loader.thy ===== *)
theory Loader
  imports Dataplane_Types
begin

text \<open>
  The eBPF loader: \<open>Loader\<close> of \<open>sarena-data-plane/src/loader/data_plane_loader.rs\<close>, the trait
  \<open>BpfBackend\<close> (\<open>backend.rs\<close>) it is generic over, the in-memory \<open>MockBackend\<close> (\<open>mock_backend.rs\<close>)
  and the actor that serialises the calls (\<open>actor.rs\<close>). The trait is a record of operations on a
  backend state; the locale \<open>bpf_backend\<close> states what the loader relies on, and the loader's lemmas
  are proved in it once. Its interpretation on the mock discharges the laws, injected
  failures included. Paths returned by \<open>list_pins\<close> are the components below the prefix.
\<close>

record link =
  link_ifname :: string
  link_ifindex :: u32

record ('b, 'i) backend_ops =
  b_resolve_link :: "string \<Rightarrow> 'b \<Rightarrow> (link, dp_error) result \<times> 'b"
  b_load_global_maps :: "(string \<times> string) list \<Rightarrow> 'b \<Rightarrow> ('i, dp_error) result \<times> 'b"
  b_load_instance :: "string \<Rightarrow> (string \<times> string) list \<Rightarrow> 'b \<Rightarrow> ('i, dp_error) result \<times> 'b"
  b_ensure_attached :: "'i \<Rightarrow> string \<Rightarrow> hook \<Rightarrow> link \<Rightarrow> string \<Rightarrow> 'b \<Rightarrow> (unit, dp_error) result \<times> 'b"
  b_unpin_map :: "string \<Rightarrow> 'b \<Rightarrow> (unit, dp_error) result \<times> 'b"
  b_remove_pin_dir :: "string \<Rightarrow> 'b \<Rightarrow> (unit, dp_error) result \<times> 'b"
  b_list_pins :: "string \<Rightarrow> 'b \<Rightarrow> (component list list, dp_error) result"
  b_set_endpoint_config :: "string \<Rightarrow> endpoint_config \<Rightarrow> 'b \<Rightarrow> (unit, dp_error) result \<times> 'b"
  b_upsert_endpoint_info :: "endpoint_persist \<Rightarrow> endpoint_info \<Rightarrow> 'b \<Rightarrow> (unit, dp_error) result \<times> 'b"
  b_remove_endpoint_info :: "ip_addr \<Rightarrow> 'b \<Rightarrow> (unit, dp_error) result \<times> 'b"
  b_list_endpoint_infos :: "'b \<Rightarrow> ((ip_addr \<times> endpoint_info) list, dp_error) result"
  b_stop_logging :: "string \<Rightarrow> 'b \<Rightarrow> 'b"
  b_stop_all_logging :: "'b \<Rightarrow> 'b"

record ('b, 'i) loader =
  ld_backend :: 'b
  ld_root :: string
  globals_holder :: "'i option"

section \<open>Loader\<close>

definition loader_new :: "'b \<Rightarrow> string \<Rightarrow> ('b, 'i) loader" where
  "loader_new b root = \<lparr>ld_backend = b, ld_root = root, globals_holder = None\<rparr>"

definition global_map_pins :: "string \<Rightarrow> (string \<times> string) list" where
  "global_map_pins root = map (\<lambda>m. (global_wire_name m, global_map_dir root m)) GLOBAL_MAPS"

definition load_global_maps ::
  "('b, 'i) backend_ops \<Rightarrow> ('b, 'i) loader \<Rightarrow> (unit, dp_error) result \<times> ('b, 'i) loader" where
  "load_global_maps B l =
     (case b_load_global_maps B (global_map_pins (ld_root l)) (ld_backend l) of
        (Err e, b) \<Rightarrow> (Err e, l\<lparr>ld_backend := b\<rparr>)
      | (Ok i, b) \<Rightarrow> (Ok (), l\<lparr>ld_backend := b, globals_holder := Some i\<rparr>))"

definition write_container_maps ::
  "('b, 'i) backend_ops \<Rightarrow> endpoint_persist \<Rightarrow> link \<Rightarrow> 'b \<Rightarrow> (unit, dp_error) result \<times> 'b" where
  "write_container_maps B ep lk b =
     (case b_set_endpoint_config B (link_ifname lk)
             \<lparr>cfg_endpoint_id = ep_id ep, cfg_host_mac = mac_bytes (host_mac (ep_spec ep)),
              cfg_ipv4 = ep_ipv4 (ep_spec ep), cfg_ipv6 = ep_ipv6 (ep_spec ep)\<rparr> b of
        (Err e, b) \<Rightarrow> (Err e, b)
      | (Ok _, b) \<Rightarrow>
          b_upsert_endpoint_info B ep
            \<lparr>info_endpoint_id = ep_id ep, info_if_index = link_ifindex lk,
             info_container_mac = mac_bytes (container_mac (ep_spec ep)),
             info_host_mac = mac_bytes (host_mac (ep_spec ep))\<rparr> b)"

text \<open>The loop over the hooks: the failures of required hooks, in order; others are only logged.\<close>

fun attach_hooks ::
  "('b, 'i) backend_ops \<Rightarrow> (dp_error \<Rightarrow> string) \<Rightarrow> 'i \<Rightarrow> link \<Rightarrow> string \<Rightarrow> hook_spec list \<Rightarrow> 'b \<Rightarrow> (string \<times> string) list \<times> 'b" where
  "attach_hooks B err_str i lk dir [] b = ([], b)"
| "attach_hooks B err_str i lk dir (h # hs) b =
     (case b_ensure_attached B i (program_name h) (hs_hook h) lk dir b of
        (Ok _, b) \<Rightarrow> attach_hooks B err_str i lk dir hs b
      | (Err e, b) \<Rightarrow>
          (case attach_hooks B err_str i lk dir hs b of (fs, b) \<Rightarrow>
             (if required h then (program_name h, err_str e) # fs else fs, b)))"

definition endpoint_maps :: "string \<Rightarrow> loader_endpoint_kind \<Rightarrow> string \<Rightarrow> (string \<times> string) list" where
  "endpoint_maps root kind lk =
     fold (\<lambda>m maps. AList.update (endpoint_wire_name m) (per_endpoint_map_dir root m lk) maps)
       (per_endpoint_map_names kind) (global_map_pins root)"

definition add_loader_endpoint ::
  "('b, 'i) backend_ops \<Rightarrow> (dp_error \<Rightarrow> string) \<Rightarrow> loader_endpoint \<Rightarrow> ('b, 'i) loader \<Rightarrow>
     (unit, dp_error) result \<times> ('b, 'i) loader" where
  "add_loader_endpoint B err_str ep l =
     (let kind = le_kind ep; lk = le_link ep; root = ld_root l
      in case b_resolve_link B lk (ld_backend l) of
           (Err e, b) \<Rightarrow> (Err e, l\<lparr>ld_backend := b\<rparr>)
         | (Ok resolved, b) \<Rightarrow>
             (case b_load_instance B lk (endpoint_maps root kind lk) b of
                (Err e, b) \<Rightarrow> (Err e, l\<lparr>ld_backend := b\<rparr>)
              | (Ok i, b) \<Rightarrow>
                  (case (case ep of Container p \<Rightarrow> write_container_maps B p resolved b | _ \<Rightarrow> (Ok (), b)) of
                     (Err e, b) \<Rightarrow> (Err e, l\<lparr>ld_backend := b\<rparr>)
                   | (Ok _, b) \<Rightarrow>
                       (case attach_hooks B err_str i resolved (endpoint_link_dir root kind lk) (hooks kind) b of
                          (failures, b) \<Rightarrow>
                            (if failures \<noteq> [] then Err (Partial failures) else Ok (), l\<lparr>ld_backend := b\<rparr>)))))"

text \<open>A loop of fallible calls that stops at the first error.\<close>

fun try_each :: "('a \<Rightarrow> 'b \<Rightarrow> (unit, dp_error) result \<times> 'b) \<Rightarrow> 'a list \<Rightarrow> 'b \<Rightarrow> (unit, dp_error) result \<times> 'b" where
  "try_each f [] b = (Ok (), b)"
| "try_each f (x # xs) b = (case f x b of (Ok _, b) \<Rightarrow> try_each f xs b | (Err e, b) \<Rightarrow> (Err e, b))"

definition detach_loader_endpoint ::
  "('b, 'i) backend_ops \<Rightarrow> loader_endpoint_kind \<Rightarrow> string \<Rightarrow> ('b, 'i) loader \<Rightarrow> (unit, dp_error) result \<times> ('b, 'i) loader" where
  "detach_loader_endpoint B kind lk l =
     (case b_remove_pin_dir B (endpoint_link_dir (ld_root l) kind lk) (b_stop_logging B lk (ld_backend l)) of
        (Err e, b) \<Rightarrow> (Err e, l\<lparr>ld_backend := b\<rparr>)
      | (Ok _, b) \<Rightarrow>
          (case try_each (\<lambda>m. b_unpin_map B (per_endpoint_map_dir (ld_root l) m lk)) (per_endpoint_map_names kind) b of
             (r, b) \<Rightarrow> (r, l\<lparr>ld_backend := b\<rparr>)))"

definition remove_loader_endpoint ::
  "('b, 'i) backend_ops \<Rightarrow> loader_endpoint \<Rightarrow> ('b, 'i) loader \<Rightarrow> (unit, dp_error) result \<times> ('b, 'i) loader" where
  "remove_loader_endpoint B ep l =
     (case (case ep of Container p \<Rightarrow> try_each (b_remove_endpoint_info B) (ips (ep_spec p)) (ld_backend l)
                     | _ \<Rightarrow> (Ok (), ld_backend l)) of
        (Err e, b) \<Rightarrow> (Err e, l\<lparr>ld_backend := b\<rparr>)
      | (Ok _, b) \<Rightarrow> detach_loader_endpoint B (le_kind ep) (le_link ep) (l\<lparr>ld_backend := b\<rparr>))"

definition match_pin :: "loader_endpoint_kind \<Rightarrow> string \<Rightarrow> hook_spec option" where
  "match_pin kind filename = List.find (\<lambda>h. program_name h = filename) (hooks kind)"

text \<open>One pin of the listing: the endpoint and the program it is for.\<close>

definition pin_entry :: "component list \<Rightarrow> ((loader_endpoint_kind \<times> string) \<times> string) option" where
  "pin_entry rel =
     (if rel = [] then None
      else case parse_pin_subpath (butlast rel) of None \<Rightarrow> None
      | Some (kind, lk) \<Rightarrow>
          (case last rel of
             Normal filename \<Rightarrow>
               (case match_pin kind filename of None \<Rightarrow> None | Some h \<Rightarrow> Some ((kind, lk), program_name h))
           | _ \<Rightarrow> None))"

definition list_loader_endpoints ::
  "('b, 'i) backend_ops \<Rightarrow> ('b, 'i) loader \<Rightarrow> ((loader_endpoint_kind \<times> string) list, dp_error) result" where
  "list_loader_endpoints B l =
     (case b_list_pins B (links_dir (ld_root l)) (ld_backend l) of
        Err e \<Rightarrow> Err e
      | Ok rels \<Rightarrow>
          (let matched = List.map_filter pin_entry rels
           in Ok (filter (\<lambda>(kind, lk). \<forall>h \<in> set (hooks kind). required h \<longrightarrow> ((kind, lk), program_name h) \<in> set matched)
                (remdups (map fst matched)))))"

text \<open>A loop that collects the errors of each element and goes on.\<close>

fun collect_errors ::
  "('a \<Rightarrow> 's \<Rightarrow> (unit, dp_error) result \<times> 's) \<Rightarrow> ('a \<Rightarrow> loader_endpoint_kind \<times> string) \<Rightarrow> 'a list \<Rightarrow> 's \<Rightarrow>
     (loader_endpoint_kind \<times> string \<times> dp_error) list \<times> 's" where
  "collect_errors f key [] s = ([], s)"
| "collect_errors f key (x # xs) s =
     (case f x s of (r, s) \<Rightarrow> (case collect_errors f key xs s of (es, s) \<Rightarrow>
        (case r of Ok _ \<Rightarrow> es | Err e \<Rightarrow> (fst (key x), snd (key x), e) # es, s)))"

definition le_key :: "loader_endpoint \<Rightarrow> loader_endpoint_kind \<times> string" where
  "le_key ep = (le_kind ep, le_link ep)"

definition wanted_ips :: "loader_endpoint list \<Rightarrow> ip_addr list" where
  "wanted_ips desired = concat (map (\<lambda>ep. case ep of Container p \<Rightarrow> ips (ep_spec p) | _ \<Rightarrow> []) desired)"

definition reconcile ::
  "('b, 'i) backend_ops \<Rightarrow> (dp_error \<Rightarrow> string) \<Rightarrow> loader_endpoint list \<Rightarrow> ('b, 'i) loader \<Rightarrow>
     ((loader_endpoint_kind \<times> string \<times> dp_error) list, dp_error) result \<times> ('b, 'i) loader" where
  "reconcile B err_str desired l =
     (case collect_errors (add_loader_endpoint B err_str) le_key desired l of (errs1, l) \<Rightarrow>
        (case list_loader_endpoints B l of
           Err e \<Rightarrow> (Err e, l)
         | Ok existing \<Rightarrow>
             (case collect_errors (\<lambda>(kind, lk). detach_loader_endpoint B kind lk) (\<lambda>x. x)
                     (filter (\<lambda>x. x \<notin> set (map le_key desired)) existing) l of (errs2, l) \<Rightarrow>
                (case b_list_endpoint_infos B (ld_backend l) of
                   Err e \<Rightarrow> (Err e, l)
                 | Ok infos \<Rightarrow>
                     (case try_each (b_remove_endpoint_info B)
                             (filter (\<lambda>ip. ip \<notin> set (wanted_ips desired)) (map fst infos)) (ld_backend l) of
                        (Err e, b) \<Rightarrow> (Err e, l\<lparr>ld_backend := b\<rparr>)
                      | (Ok _, b) \<Rightarrow> (Ok (errs1 @ errs2), l\<lparr>ld_backend := b\<rparr>))))))"

definition teardown_all ::
  "('b, 'i) backend_ops \<Rightarrow> ('b, 'i) loader \<Rightarrow> (unit, dp_error) result \<times> ('b, 'i) loader" where
  "teardown_all B l = (Ok (), l\<lparr>ld_backend := b_stop_all_logging B (ld_backend l), globals_holder := None\<rparr>)"

section \<open>Actor\<close>

datatype command =
    LoadGlobalMaps
  | AddLoaderEndpoint loader_endpoint
  | RemoveLoaderEndpoint loader_endpoint
  | ListLoaderEndpoints
  | Reconcile "loader_endpoint list"
  | TeardownAll
  | Shutdown

datatype reply =
    RUnit "(unit, dp_error) result"
  | RList "((loader_endpoint_kind \<times> string) list, dp_error) result"
  | RErrors "((loader_endpoint_kind \<times> string \<times> dp_error) list, dp_error) result"

text \<open>\<open>dispatch\<close>: the reply, whether to go on, and the loader afterwards.\<close>

fun dispatch ::
  "('b, 'i) backend_ops \<Rightarrow> (dp_error \<Rightarrow> string) \<Rightarrow> command \<Rightarrow> ('b, 'i) loader \<Rightarrow> reply \<times> bool \<times> ('b, 'i) loader" where
  "dispatch B es LoadGlobalMaps l = (case load_global_maps B l of (r, l) \<Rightarrow> (RUnit r, True, l))"
| "dispatch B es (AddLoaderEndpoint ep) l = (case add_loader_endpoint B es ep l of (r, l) \<Rightarrow> (RUnit r, True, l))"
| "dispatch B es (RemoveLoaderEndpoint ep) l = (case remove_loader_endpoint B ep l of (r, l) \<Rightarrow> (RUnit r, True, l))"
| "dispatch B es ListLoaderEndpoints l = (RList (list_loader_endpoints B l), True, l)"
| "dispatch B es (Reconcile desired) l = (case reconcile B es desired l of (r, l) \<Rightarrow> (RErrors r, True, l))"
| "dispatch B es TeardownAll l = (case teardown_all B l of (r, l) \<Rightarrow> (RUnit r, True, l))"
| "dispatch B es Shutdown l = (case teardown_all B l of (r, l) \<Rightarrow> (RUnit r, False, l))"

text \<open>The actor thread on the commands of its channel, in the order they were sent; a command that is
  never received gets no reply, which its caller sees as an error.\<close>

fun actor_run ::
  "('b, 'i) backend_ops \<Rightarrow> (dp_error \<Rightarrow> string) \<Rightarrow> command list \<Rightarrow> ('b, 'i) loader \<Rightarrow> reply option list \<times> ('b, 'i) loader" where
  "actor_run B es [] l = ([], l)"
| "actor_run B es (c # cs) l =
     (case dispatch B es c l of (r, go, l) \<Rightarrow>
        if go then (case actor_run B es cs l of (rs, l) \<Rightarrow> (Some r # rs, l))
        else (Some r # map (\<lambda>_. None) cs, l))"

section \<open>What the loader relies on\<close>

definition pins_of :: "loader_endpoint_kind \<Rightarrow> string \<Rightarrow> component list set" where
  "pins_of k lk = {[Normal (kind_str k), Normal lk, Normal (program_name h)] | h. h \<in> set (hooks k)}"

text \<open>All programs of the endpoint are pinned.\<close>

definition attached_in :: "component list set \<Rightarrow> loader_endpoint_kind \<Rightarrow> string \<Rightarrow> bool" where
  "attached_in P k lk \<longleftrightarrow> pins_of k lk \<subseteq> P"

definition pin_form :: "component list set \<Rightarrow> bool" where
  "pin_form P \<longleftrightarrow> (\<forall>q \<in> P. \<exists>k lk prog. plain_name lk \<and> q = [Normal (kind_str k), Normal lk, Normal prog])"

definition container_info :: "endpoint_persist \<Rightarrow> u32 \<Rightarrow> endpoint_info" where
  "container_info p ix =
     \<lparr>info_endpoint_id = ep_id p, info_if_index = ix, info_container_mac = mac_bytes (container_mac (ep_spec p)),
      info_host_mac = mac_bytes (host_mac (ep_spec p))\<rparr>"

definition ep_ips :: "loader_endpoint \<Rightarrow> ip_addr set" where
  "ep_ips ep = (case ep of Container p \<Rightarrow> set (ips (ep_spec p)) | _ \<Rightarrow> {})"

lemma hooks_plain: "h \<in> set (hooks k) \<Longrightarrow> plain_name (program_name h) \<and> required h"
  by (cases k) (auto simp: required_hook_def plain_name_def)

lemma match_pin_hook: "h \<in> set (hooks k) \<Longrightarrow> match_pin k (program_name h) \<noteq> None"
  using find_Some_ex [of h "hooks k" "\<lambda>h'. program_name h' = program_name h"] by (auto simp: match_pin_def)

lemma match_pin_Some: "match_pin k prog = Some h \<Longrightarrow> h \<in> set (hooks k) \<and> program_name h = prog"
  unfolding match_pin_def by (auto dest: find_SomeD)

lemma hooks_ne: "hooks k \<noteq> []"
  by (cases k) simp_all

lemma endpoint_maps_globals:
  assumes "CHR ''/'' \<notin> set lk" "q \<in> snd ` set (endpoint_maps root k lk)"
  shows "prefix (components (globals_dir root)) (components q)"
proof -
  have g: "\<forall>q \<in> snd ` set (global_map_pins root). prefix (components (globals_dir root)) (components q)"
    by (auto simp: global_map_pins_def components_map_dirs components_globals_dir)
  have step: "\<forall>q \<in> snd ` set (AList.update n (per_endpoint_map_dir root m lk) al). prefix (components (globals_dir root)) (components q)"
    if "\<forall>q \<in> snd ` set al. prefix (components (globals_dir root)) (components q)" for n m and al :: "(string \<times> string) list"
    using that
    by (induction al) (auto simp: components_map_dirs(1) [OF assms(1)] components_globals_dir)
  have "\<forall>q \<in> snd ` set (fold (\<lambda>m al. AList.update (endpoint_wire_name m) (per_endpoint_map_dir root m lk) al) ms al).
      prefix (components (globals_dir root)) (components q)"
    if "\<forall>q \<in> snd ` set al. prefix (components (globals_dir root)) (components q)" for ms al
    using that
  proof (induction ms arbitrary: al)
    case (Cons m ms)
    from Cons.IH [OF step [OF Cons.prems]] show ?case by simp
  qed simp
  from this [OF g, of "per_endpoint_map_names k"] assms(2) show ?thesis
    unfolding endpoint_maps_def by blast
qed

definition without :: "component list set \<Rightarrow> loader_endpoint_kind \<Rightarrow> string \<Rightarrow> component list set" where
  "without P k lk = {q \<in> P. \<not> prefix [Normal (kind_str k), Normal lk] q}"

lemma pin_entry_form:
  "pin_entry [Normal (kind_str k), Normal lk, Normal prog] =
     (if \<exists>h \<in> set (hooks k). program_name h = prog then Some ((k, lk), prog) else None)"
proof -
  have "pin_entry [Normal (kind_str k), Normal lk, Normal prog] =
      (case match_pin k prog of None \<Rightarrow> None | Some h \<Rightarrow> Some ((k, lk), program_name h))"
    by (simp add: pin_entry_def parse_pin_subpath_def)
  then show ?thesis
    using match_pin_hook [of _ k] match_pin_Some [of k prog]
    by (cases "match_pin k prog") fastforce+
qed

lemma pin_entry_some: "pin_form P \<Longrightarrow> q \<in> P \<Longrightarrow> pin_entry q = Some ((k, lk), prog) \<longleftrightarrow>
    q = [Normal (kind_str k), Normal lk, Normal prog] \<and> (\<exists>h \<in> set (hooks k). program_name h = prog)"
  by (auto simp: pin_form_def pin_entry_form split: if_splits)

lemma set_map_filter: "set (List.map_filter f xs) = {y. \<exists>x \<in> set xs. f x = Some y}"
  by (induction xs) (auto simp: List.map_filter_simps split: option.splits)

lemma matched_pins:
  assumes "pin_form (set ps)"
  shows "((k, lk), prog) \<in> set (List.map_filter pin_entry ps) \<longleftrightarrow>
    [Normal (kind_str k), Normal lk, Normal prog] \<in> set ps \<and> (\<exists>h \<in> set (hooks k). program_name h = prog)"
  using pin_entry_some [OF assms] by (auto simp: set_map_filter)

lemma attached_in_iff: "attached_in P k lk \<longleftrightarrow> (\<forall>h \<in> set (hooks k). [Normal (kind_str k), Normal lk, Normal (program_name h)] \<in> P)"
  by (auto simp: attached_in_def pins_of_def)

lemma attached_without: "attached_in (without P k lk) k' lk' \<longleftrightarrow> attached_in P k' lk' \<and> (k', lk') \<noteq> (k, lk)"
  using hooks_ne [of k'] by (fastforce simp: attached_in_iff without_def)

lemma pin_form_subset: "pin_form P \<Longrightarrow> Q \<subseteq> P \<Longrightarrow> pin_form Q"
  by (auto simp: pin_form_def)

lemma pin_form_plain: "pin_form P \<Longrightarrow> attached_in P k lk \<Longrightarrow> plain_name lk"
proof -
  assume P: "pin_form P" and a: "attached_in P k lk"
  obtain h where "h \<in> set (hooks k)" using hooks_ne [of k] by (meson list.set_sel(1))
  with a have "[Normal (kind_str k), Normal lk, Normal (program_name h)] \<in> P" by (simp add: attached_in_iff)
  with P show ?thesis unfolding pin_form_def by fastforce
qed

lemma pin_form_add: "pin_form P \<Longrightarrow> plain_name lk \<Longrightarrow> Q \<subseteq> P \<union> pins_of k lk \<Longrightarrow> pin_form Q"
proof -
  assume "pin_form P" "plain_name lk" "Q \<subseteq> P \<union> pins_of k lk"
  moreover from this have "pin_form (pins_of k lk)" unfolding pin_form_def pins_of_def by blast
  ultimately show ?thesis unfolding pin_form_def by blast
qed

text \<open>Adding programs of one endpoint only changes whether that endpoint is attached.\<close>

lemma attached_add:
  assumes "P \<subseteq> Q" "Q \<subseteq> P \<union> pins_of k lk" "attached_in Q k' lk'"
  shows "attached_in P k' lk' \<or> (k', lk') = (k, lk)"
  using assms by (fastforce simp: attached_in_def pins_of_def)

lemma global_pins_globals:
  "q \<in> snd ` set (global_map_pins root) \<Longrightarrow> prefix (components (globals_dir root)) (components q)"
  by (auto simp: global_map_pins_def components_map_dirs components_globals_dir)

text \<open>Commands about interfaces whose names are single path components.\<close>

fun command_ok :: "command \<Rightarrow> bool" where
  "command_ok (AddLoaderEndpoint ep) = plain_name (le_link ep)"
| "command_ok (RemoveLoaderEndpoint ep) = plain_name (le_link ep)"
| "command_ok (Reconcile desired) = (\<forall>ep \<in> set desired. plain_name (le_link ep))"
| "command_ok _ = True"

locale bpf_backend =
  fixes B :: "('b, 'i) backend_ops" and root :: string
    and inv :: "'b \<Rightarrow> bool"
    and lpins :: "'b \<Rightarrow> component list set"
    and infos :: "'b \<Rightarrow> ip_addr \<Rightarrow> endpoint_info option"
  assumes resolve_law: "inv s \<Longrightarrow> b_resolve_link B lk s = (r1, s') \<Longrightarrow>
        inv s' \<and> lpins s' = lpins s \<and> infos s' = infos s"
    and load_law: "inv s \<Longrightarrow> (\<And>q. q \<in> snd ` set ms \<Longrightarrow> prefix (components (globals_dir root)) (components q)) \<Longrightarrow>
        b_load_instance B lk ms s = (r2, s') \<Longrightarrow> inv s' \<and> lpins s' = lpins s \<and> infos s' = infos s"
    and attach_law: "inv s \<Longrightarrow> plain_name lk \<Longrightarrow> h \<in> set (hooks k) \<Longrightarrow> inv s0 \<Longrightarrow> b_resolve_link B lk s0 = (Ok lnk, s1) \<Longrightarrow>
        b_ensure_attached B i (program_name h) (hs_hook h) lnk (endpoint_link_dir root k lk) s = (r, s') \<Longrightarrow>
        inv s' \<and> infos s' = infos s \<and>
        (if r = Ok () then lpins s' = insert [Normal (kind_str k), Normal lk, Normal (program_name h)] (lpins s)
         else lpins s' \<subseteq> lpins s \<and> lpins s - {[Normal (kind_str k), Normal lk, Normal (program_name h)]} \<subseteq> lpins s')"
    and remove_dir_law: "inv s \<Longrightarrow> components dir = components (links_dir root) @ d \<Longrightarrow>
        b_remove_pin_dir B dir s = (r, s') \<Longrightarrow>
        inv s' \<and> infos s' = infos s \<and> {q \<in> lpins s. \<not> prefix d q} \<subseteq> lpins s' \<and> lpins s' \<subseteq> lpins s \<and>
        (r = Ok () \<longrightarrow> lpins s' = {q \<in> lpins s. \<not> prefix d q})"
    and unpin_law: "inv s \<Longrightarrow> CHR ''/'' \<notin> set lk \<Longrightarrow>
        b_unpin_map B (per_endpoint_map_dir root m lk) s = (r, s') \<Longrightarrow> inv s' \<and> lpins s' = lpins s \<and> infos s' = infos s"
    and list_pins_law: "inv s \<Longrightarrow> b_list_pins B (links_dir root) s = Ok ps \<Longrightarrow> set ps = lpins s"
    and config_law: "inv s \<Longrightarrow> b_set_endpoint_config B lk c s = (r, s') \<Longrightarrow>
        inv s' \<and> lpins s' = lpins s \<and> infos s' = infos s"
    and upsert_law: "inv s \<Longrightarrow> b_upsert_endpoint_info B p info s = (r, s') \<Longrightarrow>
        inv s' \<and> lpins s' = lpins s \<and> (\<forall>ip. ip \<notin> set (ips (ep_spec p)) \<longrightarrow> infos s' ip = infos s ip) \<and>
        (r = Ok () \<longrightarrow> (\<forall>ip \<in> set (ips (ep_spec p)). infos s' ip = Some info))"
    and remove_info_law: "inv s \<Longrightarrow> b_remove_endpoint_info B ip s = (r, s') \<Longrightarrow>
        inv s' \<and> lpins s' = lpins s \<and> infos s' = (if r = Ok () then (infos s)(ip := None) else infos s)"
    and list_infos_law: "inv s \<Longrightarrow> b_list_endpoint_infos B s = Ok al \<Longrightarrow> dom (infos s) = fst ` set al"
    and load_globals_law: "inv s \<Longrightarrow> (\<And>q. q \<in> snd ` set ms \<Longrightarrow> prefix (components (globals_dir root)) (components q)) \<Longrightarrow>
        b_load_global_maps B ms s = (r2, s') \<Longrightarrow> inv s' \<and> lpins s' = lpins s \<and> infos s' = infos s"
    and stop_all_law: "inv s \<Longrightarrow> inv (b_stop_all_logging B s) \<and> lpins (b_stop_all_logging B s) = lpins s \<and>
        infos (b_stop_all_logging B s) = infos s"
    and stop_law: "inv s \<Longrightarrow> inv (b_stop_logging B lk s) \<and> lpins (b_stop_logging B lk s) = lpins s \<and>
        infos (b_stop_logging B lk s) = infos s"
begin

lemma attach_hooks_effect:
  assumes "inv s" "plain_name lk" "inv s0" "b_resolve_link B lk s0 = (Ok lnk, s1)"
    "set hs \<subseteq> set (hooks k)" "attach_hooks B es i lnk (endpoint_link_dir root k lk) hs s = (fs, s')"
  defines "P \<equiv> \<lambda>h. [Normal (kind_str k), Normal lk, Normal (program_name h)]"
  shows "inv s' \<and> infos s' = infos s \<and> lpins s - P ` set hs \<subseteq> lpins s' \<and> lpins s' \<subseteq> lpins s \<union> P ` set hs \<and>
    (fs = [] \<longrightarrow> P ` set hs \<subseteq> lpins s')"
  using assms(1,5,6)
proof (induction hs arbitrary: s fs)
  case (Cons h hs)
  obtain r s1 where a: "b_ensure_attached B i (program_name h) (hs_hook h) lnk (endpoint_link_dir root k lk) s = (r, s1)" by fastforce
  have h: "h \<in> set (hooks k)" "set hs \<subseteq> set (hooks k)" using Cons.prems(2) by simp_all
  obtain gs where g: "attach_hooks B es i lnk (endpoint_link_dir root k lk) hs s1 = (gs, s')"
    "fs = (case r of Ok _ \<Rightarrow> gs | Err e \<Rightarrow> (program_name h, es e) # gs)"
    using Cons.prems(3) a hooks_plain [OF h(1)] by (auto split: result.splits prod.splits)
  have at: "inv s1 \<and> infos s1 = infos s \<and>
      (if r = Ok () then lpins s1 = insert (P h) (lpins s) else lpins s1 \<subseteq> lpins s \<and> lpins s - {P h} \<subseteq> lpins s1)"
    unfolding P_def by (rule attach_law [OF Cons.prems(1) assms(2) h(1) assms(3,4) a])
  have ih: "inv s' \<and> infos s' = infos s1 \<and> lpins s1 - P ` set hs \<subseteq> lpins s' \<and> lpins s' \<subseteq> lpins s1 \<union> P ` set hs \<and>
      (gs = [] \<longrightarrow> P ` set hs \<subseteq> lpins s')"
    using Cons.IH [OF _ h(2) g(1)] at by simp
  define H where "H = P ` set hs"
  have hs: "P ` set (h # hs) = insert (P h) H" by (simp add: H_def)
  note ih = ih [folded H_def]
  show ?case unfolding hs
  proof (cases r)
    case (Ok u)
    with at g(2) have "lpins s1 = insert (P h) (lpins s)" "fs = gs" by simp_all
    with ih at show "inv s' \<and> infos s' = infos s \<and> lpins s - insert (P h) H \<subseteq> lpins s' \<and>
      lpins s' \<subseteq> lpins s \<union> insert (P h) H \<and> (fs = [] \<longrightarrow> insert (P h) H \<subseteq> lpins s')" by auto
  next
    case (Err e)
    with at g(2) have "lpins s1 \<subseteq> lpins s \<and> lpins s - {P h} \<subseteq> lpins s1" "fs \<noteq> []" by simp_all
    with ih at show "inv s' \<and> infos s' = infos s \<and> lpins s - insert (P h) H \<subseteq> lpins s' \<and>
      lpins s' \<subseteq> lpins s \<union> insert (P h) H \<and> (fs = [] \<longrightarrow> insert (P h) H \<subseteq> lpins s')" by auto
  qed
qed simp

text \<open>Adding an endpoint.\<close>

lemma write_maps_effect:
  assumes "inv s" "write_container_maps B p lnk s = (r, s')"
  shows "inv s' \<and> lpins s' = lpins s \<and> (\<forall>ip. ip \<notin> set (ips (ep_spec p)) \<longrightarrow> infos s' ip = infos s ip) \<and>
    (r = Ok () \<longrightarrow> (\<forall>ip \<in> set (ips (ep_spec p)). infos s' ip = Some (container_info p (link_ifindex lnk))))"
proof -
  let ?c = "\<lparr>cfg_endpoint_id = ep_id p, cfg_host_mac = mac_bytes (host_mac (ep_spec p)),
    cfg_ipv4 = ep_ipv4 (ep_spec p), cfg_ipv6 = ep_ipv6 (ep_spec p)\<rparr>"
  obtain r1 s1 where c: "b_set_endpoint_config B (link_ifname lnk) ?c s = (r1, s1)" by fastforce
  note cl = config_law [OF assms(1) c]
  show ?thesis
  proof (cases r1)
    case (Err e)
    with assms(2) c cl show ?thesis by (auto simp: write_container_maps_def)
  next
    case (Ok u)
    with assms(2) c have "b_upsert_endpoint_info B p (container_info p (link_ifindex lnk)) s1 = (r, s')"
      by (simp add: write_container_maps_def container_info_def)
    with upsert_law [of s1 p _ r s'] cl show ?thesis by simp
  qed
qed

definition add_post :: "loader_endpoint \<Rightarrow> (unit, dp_error) result \<Rightarrow> 'b \<Rightarrow> 'b \<Rightarrow> bool" where
  "add_post ep r s s' \<longleftrightarrow> inv s' \<and> lpins s - pins_of (le_kind ep) (le_link ep) \<subseteq> lpins s' \<and>
     lpins s' \<subseteq> lpins s \<union> pins_of (le_kind ep) (le_link ep) \<and>
     (\<forall>ip. ip \<notin> ep_ips ep \<longrightarrow> infos s' ip = infos s ip) \<and>
     (r = Ok () \<longrightarrow> attached_in (lpins s') (le_kind ep) (le_link ep) \<and>
        (\<forall>p. ep = Container p \<longrightarrow> (\<exists>lnk s1. b_resolve_link B (le_link ep) s = (Ok lnk, s1) \<and>
          (\<forall>ip \<in> set (ips (ep_spec p)). infos s' ip = Some (container_info p (link_ifindex lnk))))))"

lemma add_post_Err:
  "inv s' \<and> lpins s' = lpins s \<and> (\<forall>ip. ip \<notin> ep_ips ep \<longrightarrow> infos s' ip = infos s ip) \<and> Q \<Longrightarrow> add_post ep (Err e) s s'"
  "inv s' \<and> lpins s' = lpins s \<and> infos s' = infos s \<Longrightarrow> add_post ep (Err e) s s'"
  by (auto simp: add_post_def)

lemma add_post_keeps: "add_post ep (Ok ()) s s' \<Longrightarrow> lpins s \<subseteq> lpins s'"
  unfolding add_post_def attached_in_def by blast

lemma add_effect:
  assumes "inv (ld_backend l)" "ld_root l = root" "plain_name (le_link ep)"
    "add_loader_endpoint B es ep l = (r, l')"
  shows "ld_root l' = root \<and> globals_holder l' = globals_holder l \<and> add_post ep r (ld_backend l) (ld_backend l')"
proof -
  let ?k = "le_kind ep" and ?lk = "le_link ep"
  have sep: "CHR ''/'' \<notin> set ?lk" using assms(3) by (simp add: plain_name_def)
  have pins: "(\<lambda>h. [Normal (kind_str ?k), Normal ?lk, Normal (program_name h)]) ` set (hooks ?k) = pins_of ?k ?lk"
    by (auto simp: pins_of_def)
  obtain r1 b1 where e1: "b_resolve_link B ?lk (ld_backend l) = (r1, b1)" by fastforce
  have u1: "inv b1 \<and> lpins b1 = lpins (ld_backend l) \<and> infos b1 = infos (ld_backend l)"
    using resolve_law [OF assms(1) e1] .
  note def = assms(4) [unfolded add_loader_endpoint_def Let_def e1 assms(2)]
  show ?thesis
  proof (cases r1)
    case (Err e)
    with def have "r = Err e" "l' = l\<lparr>ld_backend := b1\<rparr>" by simp_all
    with u1 assms(2) show ?thesis by (simp add: add_post_Err)
  next
    case resolved: (Ok resolved)
    obtain r2 b2 where e2: "b_load_instance B ?lk (endpoint_maps root ?k ?lk) b1 = (r2, b2)" by fastforce
    have u2: "inv b2 \<and> lpins b2 = lpins (ld_backend l) \<and> infos b2 = infos (ld_backend l)"
      using load_law [OF _ endpoint_maps_globals [OF sep] e2] u1 by simp
    note def = def [unfolded resolved prod.case result.case e2]
    show ?thesis
    proof (cases r2)
      case (Err e)
      with def have "r = Err e" "l' = l\<lparr>ld_backend := b2\<rparr>" by simp_all
      with u2 assms(2) show ?thesis by (simp add: add_post_Err)
    next
      case (Ok i)
      obtain r3 b3 where e3: "(case ep of Container p \<Rightarrow> write_container_maps B p resolved b2 | _ \<Rightarrow> (Ok (), b2)) = (r3, b3)"
        by fastforce
      have u3: "inv b3 \<and> lpins b3 = lpins (ld_backend l) \<and> (\<forall>ip. ip \<notin> ep_ips ep \<longrightarrow> infos b3 ip = infos (ld_backend l) ip) \<and>
          (r3 = Ok () \<longrightarrow> (\<forall>p. ep = Container p \<longrightarrow> (\<forall>ip \<in> set (ips (ep_spec p)). infos b3 ip = Some (container_info p (link_ifindex resolved)))))"
      proof (cases "\<exists>p. ep = Container p")
        case True
        then obtain p where p: "ep = Container p" by blast
        with e3 have "write_container_maps B p resolved b2 = (r3, b3)" by simp
        with write_maps_effect [of b2 p resolved r3 b3] u2 show ?thesis by (simp add: p ep_ips_def)
      next
        case False
        then have "b3 = b2" using e3 by (cases ep) simp_all
        with False u2 show ?thesis by simp
      qed
      note def = def [unfolded Ok prod.case result.case e3]
      show ?thesis
      proof (cases r3)
        case (Err e)
        with def have "r = Err e" "l' = l\<lparr>ld_backend := b3\<rparr>" by simp_all
        with u3 assms(2) show ?thesis by (simp add: add_post_Err)
      next
        case (Ok u)
        obtain fs b4 where e4: "attach_hooks B es i resolved (endpoint_link_dir root ?k ?lk) (hooks ?k) b3 = (fs, b4)" by fastforce
        from attach_hooks_effect [OF _ assms(3,1) e1 [unfolded resolved] subset_refl e4] u3
        have u4: "inv b4" "infos b4 = infos b3" "lpins (ld_backend l) - pins_of ?k ?lk \<subseteq> lpins b4"
          "lpins b4 \<subseteq> lpins (ld_backend l) \<union> pins_of ?k ?lk" "fs = [] \<longrightarrow> pins_of ?k ?lk \<subseteq> lpins b4"
          unfolding pins by auto
        have "r = (if fs \<noteq> [] then Err (Partial fs) else Ok ())" "l' = l\<lparr>ld_backend := b4\<rparr>"
          using def [unfolded Ok prod.case result.case e4] by auto
        moreover have "\<forall>p. ep = Container p \<longrightarrow> (\<exists>lnk s1. b_resolve_link B ?lk (ld_backend l) = (Ok lnk, s1) \<and>
            (\<forall>ip \<in> set (ips (ep_spec p)). infos b4 ip = Some (container_info p (link_ifindex lnk))))"
          using u3 Ok e1 resolved unfolding u4(2) by auto
        ultimately show ?thesis
          using u3 u4 assms(2) unfolding add_post_def attached_in_def by simp
      qed
    qed
  qed
qed

text \<open>Detaching and removing an endpoint.\<close>

lemma unpin_all:
  assumes "inv s" "CHR ''/'' \<notin> set lk"
    "try_each (\<lambda>m. b_unpin_map B (per_endpoint_map_dir root m lk)) ms s = (r, s')"
  shows "inv s' \<and> lpins s' = lpins s \<and> infos s' = infos s"
  using assms(1,3)
proof (induction ms arbitrary: s)
  case (Cons m ms)
  obtain r1 s1 where u: "b_unpin_map B (per_endpoint_map_dir root m lk) s = (r1, s1)" by fastforce
  from unpin_law [OF Cons.prems(1) assms(2) u] Cons.IH [of s1] Cons.prems(2) u show ?case
    by (cases r1) auto
qed simp

lemma detach_effect:
  assumes "inv (ld_backend l)" "ld_root l = root" "plain_name lk"
    "detach_loader_endpoint B k lk l = (r, l')"
  shows "ld_root l' = root \<and> inv (ld_backend l') \<and> infos (ld_backend l') = infos (ld_backend l) \<and>
    (lpins (ld_backend l') = without (lpins (ld_backend l)) k lk \<or>
      r \<noteq> Ok () \<and> without (lpins (ld_backend l)) k lk \<subseteq> lpins (ld_backend l') \<and>
        lpins (ld_backend l') \<subseteq> lpins (ld_backend l))"
proof -
  have sep: "CHR ''/'' \<notin> set lk" using assms(3) by (simp add: plain_name_def)
  have dir: "components (endpoint_link_dir root k lk) = components (links_dir root) @ [Normal (kind_str k), Normal lk]"
    using assms(3) by (simp add: components_endpoint_link_dir components_links_dir)
  obtain r1 b1 where e1: "b_remove_pin_dir B (endpoint_link_dir root k lk) (b_stop_logging B lk (ld_backend l)) = (r1, b1)"
    by fastforce
  note st = stop_law [OF assms(1), of lk]
  have u1: "inv b1 \<and> infos b1 = infos (ld_backend l) \<and>
      without (lpins (ld_backend l)) k lk \<subseteq> lpins b1 \<and> lpins b1 \<subseteq> lpins (ld_backend l) \<and>
      (r1 = Ok () \<longrightarrow> lpins b1 = without (lpins (ld_backend l)) k lk)"
    using remove_dir_law [OF _ dir e1] st by (simp add: without_def)
  note def = assms(4) [unfolded detach_loader_endpoint_def assms(2) e1]
  show ?thesis
  proof (cases r1)
    case (Err e)
    with def u1 assms(2) show ?thesis by auto
  next
    case (Ok u)
    obtain b2 where e2: "try_each (\<lambda>m. b_unpin_map B (per_endpoint_map_dir root m lk)) (per_endpoint_map_names k) b1 = (r, b2)"
      "l' = l\<lparr>ld_backend := b2\<rparr>"
      using def Ok by (auto split: prod.splits)
    from unpin_all [OF _ sep e2(1)] u1 Ok assms(2) e2(2) show ?thesis by simp
  qed
qed

lemma remove_infos:
  assumes "inv s" "try_each (b_remove_endpoint_info B) xs s = (r, s')"
  shows "inv s' \<and> lpins s' = lpins s \<and> (\<forall>ip. ip \<notin> set xs \<longrightarrow> infos s' ip = infos s ip) \<and>
    (r = Ok () \<longrightarrow> (\<forall>ip \<in> set xs. infos s' ip = None))"
  using assms
proof (induction xs arbitrary: s)
  case (Cons x xs)
  obtain r1 s1 where u: "b_remove_endpoint_info B x s = (r1, s1)" by fastforce
  note l = remove_info_law [OF Cons.prems(1) u]
  show ?case
  proof (cases r1)
    case (Ok v)
    with Cons.prems(2) u have "try_each (b_remove_endpoint_info B) xs s1 = (r, s')" by simp
    note ih = Cons.IH [OF _ this]
    from ih l Ok show ?thesis by (metis (mono_tags, lifting) fun_upd_apply list.set_intros set_ConsD unit.exhaust)
  next
    case (Err e)
    with Cons.prems(2) u l show ?thesis by auto
  qed
qed simp

lemma remove_effect:
  assumes "inv (ld_backend l)" "ld_root l = root" "plain_name (le_link ep)"
    "remove_loader_endpoint B ep l = (Ok (), l')"
  shows "inv (ld_backend l') \<and> ld_root l' = root \<and>
    lpins (ld_backend l') = without (lpins (ld_backend l)) (le_kind ep) (le_link ep) \<and>
    (\<forall>ip. infos (ld_backend l') ip = (if ip \<in> ep_ips ep then None else infos (ld_backend l) ip))"
proof -
  obtain r1 b1 where e1: "(case ep of Container p \<Rightarrow> try_each (b_remove_endpoint_info B) (ips (ep_spec p)) (ld_backend l)
                     | _ \<Rightarrow> (Ok (), ld_backend l)) = (r1, b1)" by fastforce
  have r1: "r1 = Ok ()" and d: "detach_loader_endpoint B (le_kind ep) (le_link ep) (l\<lparr>ld_backend := b1\<rparr>) = (Ok (), l')"
    using assms(4) unfolding remove_loader_endpoint_def e1 by (auto split: result.splits)
  have u: "inv b1 \<and> lpins b1 = lpins (ld_backend l) \<and>
      (\<forall>ip. infos b1 ip = (if ip \<in> ep_ips ep then None else infos (ld_backend l) ip))"
  proof (cases ep)
    case (Container p)
    with e1 r1 have "try_each (b_remove_endpoint_info B) (ips (ep_spec p)) (ld_backend l) = (Ok (), b1)" by simp
    from remove_infos [OF assms(1) this] Container show ?thesis by (simp add: ep_ips_def)
  qed (use e1 assms(1) in \<open>simp_all add: ep_ips_def\<close>)
  from detach_effect [OF _ _ assms(3) d] u assms(2) show ?thesis by simp
qed

text \<open>Listing: exactly the endpoints all of whose programs are pinned.\<close>

lemma list_exact:
  assumes "inv (ld_backend l)" "ld_root l = root" "pin_form (lpins (ld_backend l))"
    "list_loader_endpoints B l = Ok xs"
  shows "distinct xs \<and> set xs = {(k, lk). attached_in (lpins (ld_backend l)) k lk}"
proof -
  obtain ps where ps: "b_list_pins B (links_dir root) (ld_backend l) = Ok ps"
    using assms(2,4) by (auto simp: list_loader_endpoints_def split: result.splits)
  let ?m = "List.map_filter pin_entry ps"
  have P: "set ps = lpins (ld_backend l)" using list_pins_law [OF assms(1) ps] .
  then have f: "pin_form (set ps)" using assms(3) by simp
  have xs: "xs = filter (\<lambda>(kind, lk). \<forall>h \<in> set (hooks kind). required h \<longrightarrow> ((kind, lk), program_name h) \<in> set ?m)
      (remdups (map fst ?m))"
    using assms(2,4) ps by (simp add: list_loader_endpoints_def Let_def)
  have all: "(\<forall>h \<in> set (hooks k). required h \<longrightarrow> ((k, lk), program_name h) \<in> set ?m) \<longleftrightarrow> attached_in (set ps) k lk" for k lk
    using hooks_plain [of _ k] by (auto simp: matched_pins [OF f] attached_in_iff)
  have "(k, lk) \<in> fst ` set ?m" if a: "attached_in (set ps) k lk" for k lk
  proof -
    obtain h where "h \<in> set (hooks k)" using hooks_ne [of k] by (meson list.set_sel(1))
    with all [of k lk] a hooks_plain have "((k, lk), program_name h) \<in> set ?m" by blast
    then show ?thesis by force
  qed
  with all show ?thesis unfolding xs P [symmetric] by auto
qed

text \<open>Reconciling. The first loop: everything wanted is added.\<close>

lemma add_all:
  assumes "inv (ld_backend l)" "ld_root l = root" "pin_form (lpins (ld_backend l))"
    "\<forall>ep \<in> set eps. plain_name (le_link ep)"
    "collect_errors (add_loader_endpoint B es) le_key eps l = (errs, l')"
  shows "inv (ld_backend l') \<and> ld_root l' = root \<and> pin_form (lpins (ld_backend l')) \<and>
    (errs = [] \<longrightarrow> lpins (ld_backend l) \<subseteq> lpins (ld_backend l') \<and> (\<forall>ep \<in> set eps. attached_in (lpins (ld_backend l')) (le_kind ep) (le_link ep)) \<and>
      dom (infos (ld_backend l)) \<union> set (wanted_ips eps) \<subseteq> dom (infos (ld_backend l')))"
  using assms(1-3,4,5)
proof (induction eps arbitrary: l errs)
  case Nil
  then show ?case by (simp add: wanted_ips_def)
next
  case (Cons ep eps)
  obtain r l1 where a: "add_loader_endpoint B es ep l = (r, l1)" by fastforce
  obtain gs where g: "collect_errors (add_loader_endpoint B es) le_key eps l1 = (gs, l')"
    "errs = [] \<longrightarrow> gs = [] \<and> r = Ok ()"
    using Cons.prems(5) a by (cases r) (auto split: prod.splits)
  have pl: "plain_name (le_link ep)" using Cons.prems(4) by simp
  have ae: "ld_root l1 = root" "add_post ep r (ld_backend l) (ld_backend l1)"
    using add_effect [OF Cons.prems(1,2) pl a] by simp_all
  note ap = ae(2) [unfolded add_post_def]
  have "pin_form (lpins (ld_backend l1))"
    using pin_form_add [OF Cons.prems(3) pl] ap by blast
  then have ih: "inv (ld_backend l') \<and> ld_root l' = root \<and> pin_form (lpins (ld_backend l')) \<and>
      (gs = [] \<longrightarrow> lpins (ld_backend l1) \<subseteq> lpins (ld_backend l') \<and> (\<forall>ep \<in> set eps. attached_in (lpins (ld_backend l')) (le_kind ep) (le_link ep)) \<and>
        dom (infos (ld_backend l1)) \<union> set (wanted_ips eps) \<subseteq> dom (infos (ld_backend l')))"
    using Cons.IH [OF _ ae(1) _ _ g(1)] ap Cons.prems(4) by simp
  have "r = Ok () \<Longrightarrow> dom (infos (ld_backend l)) \<union> ep_ips ep \<subseteq> dom (infos (ld_backend l1))"
  proof -
    assume r: "r = Ok ()"
    have "ip \<in> dom (infos (ld_backend l1))" if "ip \<in> ep_ips ep" for ip
      using that ap r by (cases ep) (auto simp: ep_ips_def)
    moreover have "ip \<in> dom (infos (ld_backend l1))" if "ip \<in> dom (infos (ld_backend l))" "ip \<notin> ep_ips ep" for ip
      using that ap by (simp add: domIff)
    ultimately show ?thesis by blast
  qed
  moreover have "set (wanted_ips (ep # eps)) = ep_ips ep \<union> set (wanted_ips eps)"
    by (cases ep) (simp_all add: wanted_ips_def ep_ips_def)
  moreover have "attached_in (lpins (ld_backend l')) (le_kind ep) (le_link ep)" if "r = Ok ()" "gs = []"
    using that ap ih unfolding attached_in_def by blast
  moreover have "lpins (ld_backend l) \<subseteq> lpins (ld_backend l1)" if "r = Ok ()"
    using add_post_keeps ae(2) that by blast
  ultimately show ?case
    using g(2) ih ap by simp blast
qed

text \<open>The second loop: everything else is detached.\<close>

lemma detach_all:
  assumes "inv (ld_backend l)" "ld_root l = root" "pin_form (lpins (ld_backend l))"
    "\<forall>(k, lk) \<in> set xs. plain_name lk"
    "collect_errors (\<lambda>(k, lk). detach_loader_endpoint B k lk) (\<lambda>x. x) xs l = (errs, l')"
  shows "inv (ld_backend l') \<and> ld_root l' = root \<and> pin_form (lpins (ld_backend l')) \<and>
    infos (ld_backend l') = infos (ld_backend l) \<and>
    (errs = [] \<longrightarrow> (\<forall>k lk. attached_in (lpins (ld_backend l')) k lk \<longleftrightarrow>
      attached_in (lpins (ld_backend l)) k lk \<and> (k, lk) \<notin> set xs))"
  using assms
proof (induction xs arbitrary: l errs)
  case (Cons x xs)
  obtain k lk where x: "x = (k, lk)" by fastforce
  obtain r l1 where a: "detach_loader_endpoint B k lk l = (r, l1)" by fastforce
  obtain gs where g: "collect_errors (\<lambda>(k, lk). detach_loader_endpoint B k lk) (\<lambda>x. x) xs l1 = (gs, l')"
    "errs = [] \<longrightarrow> gs = [] \<and> r = Ok ()"
    using Cons.prems(5) a x by (cases r) (auto split: prod.splits)
  have pl: "plain_name lk" using Cons.prems(4) x by simp
  note de = detach_effect [OF Cons.prems(1,2) pl a]
  have "pin_form (lpins (ld_backend l1))"
    using de pin_form_subset [OF Cons.prems(3)] by (auto simp: without_def)
  from Cons.IH [OF _ _ this _ g(1)] de Cons.prems(4)
  have ih: "inv (ld_backend l') \<and> ld_root l' = root \<and> pin_form (lpins (ld_backend l')) \<and>
      infos (ld_backend l') = infos (ld_backend l1) \<and>
      (gs = [] \<longrightarrow> (\<forall>k lk. attached_in (lpins (ld_backend l')) k lk \<longleftrightarrow>
        attached_in (lpins (ld_backend l1)) k lk \<and> (k, lk) \<notin> set xs))"
    by simp
  show ?case
    using ih de g(2) by (auto simp: x attached_without)
qed simp

lemma reconcile_effect:
  assumes "inv (ld_backend l)" "ld_root l = root" "pin_form (lpins (ld_backend l))"
    "\<forall>ep \<in> set desired. plain_name (le_link ep)" "reconcile B es desired l = (Ok [], l')"
  shows "inv (ld_backend l') \<and> ld_root l' = root \<and> pin_form (lpins (ld_backend l')) \<and>
    (\<forall>k lk. attached_in (lpins (ld_backend l')) k lk \<longleftrightarrow> (k, lk) \<in> set (map le_key desired)) \<and>
    dom (infos (ld_backend l')) = set (wanted_ips desired)"
proof -
  obtain e1 l1 where a: "collect_errors (add_loader_endpoint B es) le_key desired l = (e1, l1)" by fastforce
  obtain xs where xs: "list_loader_endpoints B l1 = Ok xs"
    using assms(5) a by (auto simp: reconcile_def split: result.splits prod.splits)
  let ?ys = "filter (\<lambda>x. x \<notin> set (map le_key desired)) xs"
  obtain e2 l2 where d: "collect_errors (\<lambda>(k, lk). detach_loader_endpoint B k lk) (\<lambda>x. x) ?ys l1 = (e2, l2)" by fastforce
  obtain al where al: "b_list_endpoint_infos B (ld_backend l2) = Ok al"
    using assms(5) a xs d by (auto simp: reconcile_def split: result.splits prod.splits)
  let ?zs = "filter (\<lambda>ip. ip \<notin> set (wanted_ips desired)) (map fst al)"
  obtain b3 where t: "try_each (b_remove_endpoint_info B) ?zs (ld_backend l2) = (Ok (), b3)"
    and l': "l' = l2\<lparr>ld_backend := b3\<rparr>" and e: "e1 = []" "e2 = []"
    using assms(5) a xs d al by (auto simp: reconcile_def split: result.splits prod.splits)
  note A = add_all [OF assms(1-4) a]
  have L: "set xs = {(k, lk). attached_in (lpins (ld_backend l1)) k lk}"
    using list_exact [OF _ _ _ xs] A by simp
  have "\<forall>(k, lk) \<in> set ?ys. plain_name lk" using L pin_form_plain A by auto
  note D = detach_all [OF _ _ _ this d]
  have D': "inv (ld_backend l2) \<and> ld_root l2 = root \<and> pin_form (lpins (ld_backend l2)) \<and>
      infos (ld_backend l2) = infos (ld_backend l1) \<and>
      (\<forall>k lk. attached_in (lpins (ld_backend l2)) k lk \<longleftrightarrow> attached_in (lpins (ld_backend l1)) k lk \<and> (k, lk) \<notin> set ?ys)"
    using D A e by simp
  then have dom2: "dom (infos (ld_backend l2)) = fst ` set al" using list_infos_law [OF _ al] by blast
  have R: "inv b3 \<and> lpins b3 = lpins (ld_backend l2) \<and> (\<forall>ip. ip \<notin> set ?zs \<longrightarrow> infos b3 ip = infos (ld_backend l2) ip) \<and>
      (\<forall>ip \<in> set ?zs. infos b3 ip = None)"
    using remove_infos [OF _ t] D' by blast
  have "attached_in (lpins b3) k lk \<longleftrightarrow> (k, lk) \<in> set (map le_key desired)" for k lk
    using D' R A e L by (auto simp: le_key_def)
  moreover have "dom (infos b3) = set (wanted_ips desired)"
  proof (rule set_eqI)
    fix ip
    have "set (wanted_ips desired) \<subseteq> fst ` set al" using A e D' dom2 by auto
    with R dom2 show "ip \<in> dom (infos b3) \<longleftrightarrow> ip \<in> set (wanted_ips desired)"
      by (cases "ip \<in> set ?zs") (auto simp: domIff)
  qed
  ultimately show ?thesis using R D' l' by simp
qed

text \<open>The loader's invariant, kept by every command whether or not it succeeds.\<close>

definition loader_ok :: "('b, 'i) loader \<Rightarrow> bool" where
  "loader_ok l \<longleftrightarrow> inv (ld_backend l) \<and> ld_root l = root \<and> pin_form (lpins (ld_backend l))"

lemma add_ok: "loader_ok l \<Longrightarrow> plain_name (le_link ep) \<Longrightarrow> add_loader_endpoint B es ep l = (r, l') \<Longrightarrow> loader_ok l'"
  using add_effect [of l ep es r l'] pin_form_add [of "lpins (ld_backend l)" "le_link ep" "lpins (ld_backend l')" "le_kind ep"]
  by (simp add: loader_ok_def add_post_def)

lemma detach_ok: "loader_ok l \<Longrightarrow> plain_name lk \<Longrightarrow> detach_loader_endpoint B k lk l = (r, l') \<Longrightarrow> loader_ok l'"
  using detach_effect [of l lk k r l'] pin_form_subset [of "lpins (ld_backend l)" "lpins (ld_backend l')"]
  by (auto simp: loader_ok_def without_def)

lemma remove_ok:
  assumes "loader_ok l" "plain_name (le_link ep)" "remove_loader_endpoint B ep l = (r, l')"
  shows "loader_ok l'"
proof -
  obtain r1 b1 where e1: "(case ep of Container p \<Rightarrow> try_each (b_remove_endpoint_info B) (ips (ep_spec p)) (ld_backend l)
                     | _ \<Rightarrow> (Ok (), ld_backend l)) = (r1, b1)" by fastforce
  have "inv b1 \<and> lpins b1 = lpins (ld_backend l)"
    using e1 assms(1) remove_infos [of "ld_backend l"] by (cases ep) (auto simp: loader_ok_def)
  then have ok: "loader_ok (l\<lparr>ld_backend := b1\<rparr>)" using assms(1) by (simp add: loader_ok_def)
  show ?thesis
  proof (cases r1)
    case (Err e)
    with assms(3) ok show ?thesis unfolding remove_loader_endpoint_def e1 by auto
  next
    case (Ok u)
    with assms(3) have "detach_loader_endpoint B (le_kind ep) (le_link ep) (l\<lparr>ld_backend := b1\<rparr>) = (r, l')"
      unfolding remove_loader_endpoint_def e1 by simp
    with detach_ok [OF ok assms(2)] show ?thesis by blast
  qed
qed

lemma reconcile_ok:
  assumes "loader_ok l" "\<forall>ep \<in> set desired. plain_name (le_link ep)" "reconcile B es desired l = (r, l')"
  shows "loader_ok l'"
proof -
  obtain e1 l1 where a: "collect_errors (add_loader_endpoint B es) le_key desired l = (e1, l1)" by fastforce
  have l1: "loader_ok l1" using add_all [OF _ _ _ assms(2) a] assms(1) by (simp add: loader_ok_def)
  note def = assms(3) [unfolded reconcile_def a prod.case]
  show ?thesis
  proof (cases "list_loader_endpoints B l1")
    case (Err e)
    with def l1 show ?thesis by simp
  next
    case (Ok xs)
    let ?ys = "filter (\<lambda>x. x \<notin> set (map le_key desired)) xs"
    obtain e2 l2 where d: "collect_errors (\<lambda>(k, lk). detach_loader_endpoint B k lk) (\<lambda>x. x) ?ys l1 = (e2, l2)" by fastforce
    have "\<forall>(k, lk) \<in> set ?ys. plain_name lk"
      using list_exact [OF _ _ _ Ok] l1 pin_form_plain by (auto simp: loader_ok_def)
    from detach_all [OF _ _ _ this d] l1 have l2: "loader_ok l2" by (simp add: loader_ok_def)
    note def = def [unfolded Ok result.case d prod.case]
    show ?thesis
    proof (cases "b_list_endpoint_infos B (ld_backend l2)")
      case (Err e)
      with def l2 show ?thesis by simp
    next
      case (Ok al)
      obtain r3 b3 where t: "try_each (b_remove_endpoint_info B)
          (filter (\<lambda>ip. ip \<notin> set (wanted_ips desired)) (map fst al)) (ld_backend l2) = (r3, b3)" by fastforce
      from remove_infos [OF _ t] l2 have "loader_ok (l2\<lparr>ld_backend := b3\<rparr>)" by (simp add: loader_ok_def)
      with def t Ok show ?thesis by (cases r3) auto
    qed
  qed
qed

lemma load_globals_ok: "loader_ok l \<Longrightarrow> load_global_maps B l = (r, l') \<Longrightarrow> loader_ok l'"
proof -
  assume l: "loader_ok l" and e: "load_global_maps B l = (r, l')"
  obtain r1 b1 where b: "b_load_global_maps B (global_map_pins root) (ld_backend l) = (r1, b1)" by fastforce
  have "inv b1 \<and> lpins b1 = lpins (ld_backend l)"
    using load_globals_law [OF _ global_pins_globals b] l by (simp add: loader_ok_def)
  with e b l show ?thesis by (cases r1) (auto simp: load_global_maps_def loader_ok_def)
qed

lemma dispatch_ok:
  assumes "loader_ok l" "command_ok c" "dispatch B es c l = (rep, go, l')"
  shows "loader_ok l'"
proof (cases c)
  case LoadGlobalMaps
  with assms load_globals_ok [of l] show ?thesis by (auto split: prod.splits)
next
  case (AddLoaderEndpoint ep)
  with assms add_ok [of l ep es] show ?thesis by (auto split: prod.splits)
next
  case (RemoveLoaderEndpoint ep)
  with assms remove_ok [of l ep] show ?thesis by (auto split: prod.splits)
next
  case ListLoaderEndpoints
  with assms show ?thesis by simp
next
  case (Reconcile desired)
  with assms reconcile_ok [of l desired es] show ?thesis by (auto split: prod.splits)
qed (use assms stop_all_law in \<open>auto simp: teardown_all_def loader_ok_def\<close>)

lemma actor_ok:
  "loader_ok l \<Longrightarrow> \<forall>c \<in> set cs. command_ok c \<Longrightarrow> actor_run B es cs l = (rs, l') \<Longrightarrow> loader_ok l'"
proof (induction cs arbitrary: l rs)
  case (Cons c cs)
  obtain rep go l1 where d: "dispatch B es c l = (rep, go, l1)" by (metis prod_cases3)
  have "loader_ok l1" using dispatch_ok [OF Cons.prems(1) _ d] Cons.prems(2) by simp
  with Cons d show ?case by (auto split: if_splits prod.splits)
qed simp

end

section \<open>The in-memory backend\<close>

datatype call =
    ResolveLink string
  | CLoadGlobalMaps "(string \<times> string) list"
  | LoadInstance "(string \<times> string) list"
  | EnsureAttached string hook string
  | UnpinMap string
  | RemovePinDir string
  | SetEndpointConfig string
  | UpsertEndpointInfo endpoint_id
  | RemoveEndpointInfo ip_addr
  | StopLogging string
  | StopAllLogging

record mock_backend =
  calls :: "call list"
  mb_maps :: "(string \<times> string) list"
  mb_links :: "string list"
  endpoint_infos :: "(ip_addr \<times> endpoint_info) list"
  call_count :: nat
  fail_at :: "(nat \<times> string) option"

definition mock_new :: mock_backend where
  "mock_new = \<lparr>calls = [], mb_maps = [], mb_links = [], endpoint_infos = [], call_count = 0, fail_at = None\<rparr>"

definition tick :: "mock_backend \<Rightarrow> (unit, dp_error) result \<times> mock_backend" where
  "tick m =
     (let m' = m\<lparr>call_count := Suc (call_count m)\<rparr>
      in case fail_at m of
           None \<Rightarrow> (Ok (), m')
         | Some (n, msg) \<Rightarrow> if call_count m = n then (Err (Injected msg), m'\<lparr>fail_at := None\<rparr>) else (Ok (), m'))"

text \<open>Every operation ticks first and logs its call; \<open>eff\<close> is what it does then.\<close>

definition ticked :: "call \<Rightarrow> (mock_backend \<Rightarrow> mock_backend) \<Rightarrow> 'r \<Rightarrow> mock_backend \<Rightarrow> ('r, dp_error) result \<times> mock_backend" where
  "ticked c eff r m =
     (case tick m of (Err e, m) \<Rightarrow> (Err e, m)
      | (Ok _, m) \<Rightarrow> (Ok r, eff (m\<lparr>calls := calls m @ [c]\<rparr>)))"

definition mock_insert_maps :: "(string \<times> string) list \<Rightarrow> mock_backend \<Rightarrow> mock_backend" where
  "mock_insert_maps ms m = m\<lparr>mb_maps := fold (\<lambda>(n, p) al. AList.update n p al) ms (mb_maps m)\<rparr>"

text \<open>A set of paths; paths are equal when their components are.\<close>

definition insert_path :: "string \<Rightarrow> string list \<Rightarrow> string list" where
  "insert_path p ps = (if components p \<in> set (map components ps) then ps else p # ps)"

definition mock_list_pins :: "string \<Rightarrow> mock_backend \<Rightarrow> (component list list, dp_error) result" where
  "mock_list_pins d m =
     Ok (map (\<lambda>p. drop (length (components d)) (components p))
          (filter (\<lambda>p. path_starts_with p d) (map snd (mb_maps m) @ mb_links m)))"

definition mock_ops :: "(mock_backend, unit) backend_ops" where
  "mock_ops =
     \<lparr>b_resolve_link = (\<lambda>lk. ticked (ResolveLink lk) (\<lambda>m. m) \<lparr>link_ifname = lk, link_ifindex = 0\<rparr>),
      b_load_global_maps = (\<lambda>ms. ticked (CLoadGlobalMaps ms) (mock_insert_maps ms) ()),
      b_load_instance = (\<lambda>lk ms. ticked (LoadInstance ms) (mock_insert_maps ms) ()),
      b_ensure_attached = (\<lambda>i prog h lk dir. ticked (EnsureAttached prog h (link_ifname lk))
        (\<lambda>m. m\<lparr>mb_links := insert_path (path_join dir prog) (mb_links m)\<rparr>) ()),
      b_unpin_map = (\<lambda>p. ticked (UnpinMap p) (\<lambda>m. m\<lparr>mb_maps := filter (\<lambda>(_, q). components q \<noteq> components p) (mb_maps m)\<rparr>) ()),
      b_remove_pin_dir = (\<lambda>d. ticked (RemovePinDir d)
        (\<lambda>m. m\<lparr>mb_maps := filter (\<lambda>(_, p). \<not> path_starts_with p d) (mb_maps m),
               mb_links := filter (\<lambda>p. \<not> path_starts_with p d) (mb_links m)\<rparr>) ()),
      b_list_pins = mock_list_pins,
      b_set_endpoint_config = (\<lambda>lk c. ticked (SetEndpointConfig lk) (\<lambda>m. m) ()),
      b_upsert_endpoint_info = (\<lambda>ep info. ticked (UpsertEndpointInfo (ep_id ep))
        (\<lambda>m. m\<lparr>endpoint_infos := fold (\<lambda>ip al. AList.update ip info al) (ips (ep_spec ep)) (endpoint_infos m)\<rparr>) ()),
      b_remove_endpoint_info = (\<lambda>ip. ticked (RemoveEndpointInfo ip)
        (\<lambda>m. m\<lparr>endpoint_infos := AList.delete ip (endpoint_infos m)\<rparr>) ()),
      b_list_endpoint_infos = (\<lambda>m. Ok (endpoint_infos m)),
      b_stop_logging = (\<lambda>lk m. m\<lparr>calls := calls m @ [StopLogging lk]\<rparr>),
      b_stop_all_logging = (\<lambda>m. m\<lparr>calls := calls m @ [StopAllLogging]\<rparr>)\<rparr>"

definition mock_inv :: "string \<Rightarrow> mock_backend \<Rightarrow> bool" where
  "mock_inv root m \<longleftrightarrow> (\<forall>p \<in> snd ` set (mb_maps m). prefix (components (globals_dir root)) (components p))"

definition mock_pins :: "string \<Rightarrow> mock_backend \<Rightarrow> component list set" where
  "mock_pins root m = {q. \<exists>p \<in> set (mb_links m). components p = components (links_dir root) @ q}"

definition mock_infos :: "mock_backend \<Rightarrow> ip_addr \<Rightarrow> endpoint_info option" where
  "mock_infos m = map_of (endpoint_infos m)"

lemma tick_fields:
  assumes "tick m = (r, m')"
  shows "calls m' = calls m \<and> mb_maps m' = mb_maps m \<and> mb_links m' = mb_links m \<and> endpoint_infos m' = endpoint_infos m"
  using assms by (auto simp: tick_def Let_def split: option.splits if_splits)

text \<open>A ticked operation fails and changes nothing but the count, or has its effect.\<close>

lemma ticked_cases:
  assumes "ticked c eff r m = (res, m')"
  obtains (fail) e where "res = Err e" "mb_maps m' = mb_maps m" "mb_links m' = mb_links m" "endpoint_infos m' = endpoint_infos m"
  | (effect) m0 where "res = Ok r" "m' = eff m0" "mb_maps m0 = mb_maps m" "mb_links m0 = mb_links m" "endpoint_infos m0 = endpoint_infos m"
proof -
  obtain t m1 where t: "tick m = (t, m1)" by fastforce
  note f = tick_fields [OF t]
  show ?thesis
  proof (cases t)
    case (Ok u)
    with assms t f show ?thesis by (intro effect [of "m1\<lparr>calls := calls m1 @ [c]\<rparr>"]) (auto simp: ticked_def)
  next
    case (Err e)
    with assms t f show ?thesis by (intro fail [of e]) (auto simp: ticked_def)
  qed
qed

lemmas mock_view_defs = mock_inv_def mock_pins_def mock_infos_def

lemma insert_maps_inv:
  assumes "mock_inv root m" "\<And>q. q \<in> snd ` set ms \<Longrightarrow> prefix (components (globals_dir root)) (components q)"
  shows "mock_inv root (mock_insert_maps ms m)"
proof -
  let ?ok = "\<lambda>al. \<forall>q \<in> snd ` set al. prefix (components (globals_dir root)) (components q)"
  have up: "?ok (AList.update n p al)" if "?ok al" "prefix (components (globals_dir root)) (components p)" for n p
    and al :: "(string \<times> string) list"
    using that by (induction al) auto
  have "?ok (fold (\<lambda>(n, p) al. AList.update n p al) ms al)" if "?ok al" for al
    using that assms(2)
  proof (induction ms arbitrary: al)
    case (Cons x ms)
    obtain n p where x: "x = (n, p)" by fastforce
    have "?ok (AList.update n p al)" using up [OF Cons.prems(1)] Cons.prems(2) [of p] x by simp
    from Cons.IH [OF this] Cons.prems(2) x show ?case by simp
  qed simp
  from this [of "mb_maps m"] assms(1) show ?thesis by (simp add: mock_inv_def mock_insert_maps_def)
qed

lemma map_of_fold_update_keys:
  "map_of (fold (\<lambda>ip al. AList.update ip v al) xs al) k = (if k \<in> set xs then Some v else map_of al k)"
  by (induction xs arbitrary: al) (auto simp: update_conv')

text \<open>No path is both under the links and under the globals directory.\<close>

lemma links_globals_disjoint:
  "prefix (components (globals_dir root)) (components p) \<Longrightarrow> \<not> prefix (components (links_dir root)) (components p)"
  by (auto simp: components_globals_dir components_links_dir prefix_def)

text \<open>The mock keeps the promises the loader relies on, whichever call fails.\<close>

lemma mock_attach:
  assumes "mock_inv root m" "components dir = components (links_dir root) @ d" "plain_name prog"
    "b_ensure_attached mock_ops i prog h lnk dir m = (r, m')"
  shows "mock_inv root m' \<and> mock_infos m' = mock_infos m \<and>
    mock_pins root m' = (if r = Ok () then insert (d @ [Normal prog]) (mock_pins root m) else mock_pins root m)"
  using assms(4) [unfolded mock_ops_def, simplified]
proof (cases rule: ticked_cases)
  case (fail e)
  with assms(1) show ?thesis by (simp add: mock_view_defs)
next
  case (effect m0)
  have "components (path_join dir prog) = components (links_dir root) @ d @ [Normal prog]"
    using assms(2,3) by (simp add: components_join)
  then have "mock_pins root m' = insert (d @ [Normal prog]) (mock_pins root m)"
    using effect(3-5) by (auto simp: mock_pins_def insert_path_def effect(2))
  with effect(1,3-5) assms(1) show ?thesis by (simp add: mock_inv_def mock_infos_def effect(2))
qed

lemma mock_remove_dir:
  assumes "mock_inv root m" "components dir = components (links_dir root) @ d"
    "b_remove_pin_dir mock_ops dir m = (r, m')"
  shows "mock_inv root m' \<and> mock_infos m' = mock_infos m \<and>
    mock_pins root m' = (if r = Ok () then {q \<in> mock_pins root m. \<not> prefix d q} else mock_pins root m)"
  using assms(3) [unfolded mock_ops_def, simplified]
proof (cases rule: ticked_cases)
  case (fail e)
  with assms(1) show ?thesis by (simp add: mock_view_defs)
next
  case (effect m0)
  have "mock_pins root m' = {q \<in> mock_pins root m. \<not> prefix d q}"
    using effect(4) assms(2) by (auto simp: mock_pins_def path_starts_with_def effect(2))
  moreover have "mock_inv root m'"
    using effect(3) assms(1) by (auto simp: mock_inv_def effect(2))
  ultimately show ?thesis using effect(1,5) by (simp add: mock_infos_def effect(2))
qed

lemma mock_list:
  assumes "mock_inv root m" "b_list_pins mock_ops (links_dir root) m = Ok ps"
  shows "set ps = mock_pins root m"
proof -
  let ?d = "components (links_dir root)"
  have "set ps = (\<lambda>p. drop (length ?d) (components p)) ` {p \<in> set (mb_links m). prefix ?d (components p)}"
    using assms links_globals_disjoint [of root]
    by (fastforce simp: mock_ops_def mock_list_pins_def mock_inv_def path_starts_with_def)
  also have "\<dots> = mock_pins root m"
    by (force simp: mock_pins_def prefix_def image_iff)
  finally show ?thesis .
qed

lemma mock_upsert:
  assumes "mock_inv root m" "b_upsert_endpoint_info mock_ops p info m = (r, m')"
  shows "mock_inv root m' \<and> mock_pins root m' = mock_pins root m \<and>
    (\<forall>ip. ip \<notin> set (ips (ep_spec p)) \<longrightarrow> mock_infos m' ip = mock_infos m ip) \<and>
    (r = Ok () \<longrightarrow> (\<forall>ip \<in> set (ips (ep_spec p)). mock_infos m' ip = Some info))"
  using assms(2) [unfolded mock_ops_def, simplified]
proof (cases rule: ticked_cases)
  case (fail e)
  with assms(1) show ?thesis by (simp add: mock_view_defs)
next
  case (effect m0)
  show ?thesis
    using assms(1) effect(1,3-5) by (simp add: mock_view_defs map_of_fold_update_keys effect(2))
qed

lemma mock_remove_info:
  assumes "mock_inv root m" "b_remove_endpoint_info mock_ops ip m = (r, m')"
  shows "mock_inv root m' \<and> mock_pins root m' = mock_pins root m \<and>
    mock_infos m' = (if r = Ok () then (mock_infos m)(ip := None) else mock_infos m)"
  using assms(2) [unfolded mock_ops_def, simplified]
proof (cases rule: ticked_cases)
  case (fail e)
  with assms(1) show ?thesis by (simp add: mock_view_defs)
next
  case (effect m0)
  show ?thesis
    using assms(1) effect(1,3-5) by (simp add: mock_view_defs delete_conv' effect(2))
qed

lemma mock_load:
  assumes "mock_inv root m" "\<And>q. q \<in> snd ` set ms \<Longrightarrow> prefix (components (globals_dir root)) (components q)"
    "ticked c (mock_insert_maps ms) x m = (r, m')"
  shows "mock_inv root m' \<and> mock_pins root m' = mock_pins root m \<and> mock_infos m' = mock_infos m"
  using assms(3)
proof (cases rule: ticked_cases)
  case (fail e)
  with assms(1) show ?thesis by (simp add: mock_view_defs)
next
  case (effect m0)
  from effect(3) have "mock_inv root m0" using assms(1) by (simp add: mock_inv_def)
  from insert_maps_inv [OF this assms(2)] show ?thesis
    using effect(4,5) by (simp add: mock_insert_maps_def mock_pins_def mock_infos_def effect(2))
qed

lemma mock_quiet:
  assumes "mock_inv root m"
  shows "b_resolve_link mock_ops lk m = (r1, m') \<Longrightarrow>
      mock_inv root m' \<and> mock_pins root m' = mock_pins root m \<and> mock_infos m' = mock_infos m"
    and "b_set_endpoint_config mock_ops lk c m = (r2, m') \<Longrightarrow>
      mock_inv root m' \<and> mock_pins root m' = mock_pins root m \<and> mock_infos m' = mock_infos m"
    and "b_unpin_map mock_ops q m = (r2, m') \<Longrightarrow>
      mock_inv root m' \<and> mock_pins root m' = mock_pins root m \<and> mock_infos m' = mock_infos m"
  using assms
  by (auto simp: mock_ops_def mock_view_defs elim!: ticked_cases)

interpretation mock: bpf_backend mock_ops root "mock_inv root" "mock_pins root" mock_infos
proof (unfold_locales, goal_cases)
  case (1 s lk r s') then show ?case by (rule mock_quiet(1))
next
  case (2 s ms lk r s') from mock_load [OF 2(1,2) 2(3) [unfolded mock_ops_def, simplified]] show ?case .
next
  case (3 s lk h k s0 lnk s1 i r s') have p: "plain_name (program_name h)" using hooks_plain 3(3) by blast
  have d: "components (endpoint_link_dir root k lk) = components (links_dir root) @ [Normal (kind_str k), Normal lk]"
    using 3(2) by (simp add: components_endpoint_link_dir components_links_dir)
  from mock_attach [OF 3(1) d p 3(6)] show ?case by auto
next
  case (4 s dir d r s') from mock_remove_dir [OF 4] show ?case by auto
next
  case (5 s dir r s') from 5(1,3) show ?case by (rule mock_quiet(3))
next
  case (6 s ps) then show ?case by (rule mock_list)
next
  case (7 s lk c r s') then show ?case by (rule mock_quiet(2))
next
  case (8 s p info r s') then show ?case by (rule mock_upsert)
next
  case (9 s ip r s') then show ?case by (rule mock_remove_info)
next
  case (10 s al) then show ?case by (simp add: mock_ops_def mock_infos_def dom_map_of_conv_image_fst)
next
  case (11 s ms r s') from mock_load [OF 11(1,2) 11(3) [unfolded mock_ops_def, simplified]] show ?case .
next
  case (12 s) then show ?case by (simp add: mock_ops_def mock_inv_def mock_pins_def mock_infos_def)
next
  case (13 s lk) then show ?case by (simp add: mock_ops_def mock_inv_def mock_pins_def mock_infos_def)
qed

section \<open>Properties\<close>

definition mock_loader :: "(nat \<times> string) option \<Rightarrow> string \<Rightarrow> (mock_backend, unit) loader" where
  "mock_loader f root = loader_new (mock_new\<lparr>fail_at := f\<rparr>) root"

lemma mock_reachable:
  assumes "\<forall>c \<in> set cs. command_ok c" "actor_run mock_ops es cs (mock_loader f root) = (rs, l)"
  shows "mock.loader_ok root l"
proof (rule mock.actor_ok [OF _ assms])
  show "mock.loader_ok root (mock_loader f root)"
    by (simp add: mock.loader_ok_def mock_loader_def loader_new_def mock_new_def mock_inv_def mock_pins_def pin_form_def)
qed

lemma mock_lists: "\<exists>xs. list_loader_endpoints mock_ops l = Ok xs"
  by (simp add: list_loader_endpoints_def mock_ops_def mock_list_pins_def Let_def)

lemma mock_listed:
  assumes "mock.loader_ok root l" "list_loader_endpoints mock_ops l = Ok xs"
  shows "distinct xs \<and> set xs = {(k, lk). attached_in (mock_pins root (ld_backend l)) k lk}"
  using mock.list_exact [where root = root, OF _ _ _ assms(2)] assms(1) by (simp add: mock.loader_ok_def)

text \<open>C19: reconciliation converges. After any commands, with a failure injected anywhere, a
  \<open>reconcile\<close> that reports no error leaves exactly the desired endpoints attached, each listed once, and
  address entries for exactly the addresses of the desired containers.\<close>

theorem reconcile_exact:
  assumes "\<forall>c \<in> set cs. command_ok c" "command_ok (Reconcile desired)"
    "actor_run mock_ops es cs (mock_loader f root) = (rs, l)" "reconcile mock_ops es desired l = (Ok [], l')"
  shows "\<exists>xs. list_loader_endpoints mock_ops l' = Ok xs \<and> distinct xs \<and> set xs = set (map le_key desired) \<and>
    fst ` set (endpoint_infos (ld_backend l')) = set (wanted_ips desired)"
proof -
  note l = mock_reachable [OF assms(1,3)]
  have l': "mock.loader_ok root l'" using mock.reconcile_ok [OF l _ assms(4)] assms(2) by simp
  have "(\<forall>k lk. attached_in (mock_pins root (ld_backend l')) k lk \<longleftrightarrow> (k, lk) \<in> set (map le_key desired)) \<and>
      dom (mock_infos (ld_backend l')) = set (wanted_ips desired)"
    using mock.reconcile_effect [where root = root, OF _ _ _ _ assms(4)] l assms(2) by (simp add: mock.loader_ok_def)
  with mock_lists [of l'] mock_listed [OF l'] show ?thesis
    by (auto simp: mock_infos_def dom_map_of_conv_image_fst)
qed

theorem reconcile_exact_witness:
  "\<exists>xs. list_loader_endpoints mock_ops (snd (reconcile mock_ops (\<lambda>_. []) [Host ''h'']
      (snd (actor_run mock_ops (\<lambda>_. []) [AddLoaderEndpoint (NetDev ''e'')] (mock_loader (Some (1, ''x'')) ''/b''))))) = Ok xs \<and>
    set xs = {(KHost, ''h'')}"
proof -
  let ?l = "snd (actor_run mock_ops (\<lambda>_. []) [AddLoaderEndpoint (NetDev ''e'')] (mock_loader (Some (1, ''x'')) ''/b''))"
  have "fst (reconcile mock_ops (\<lambda>_. []) [Host ''h''] ?l) = Ok []" by code_simp
  then have "reconcile mock_ops (\<lambda>_. []) [Host ''h''] ?l = (Ok [], snd (reconcile mock_ops (\<lambda>_. []) [Host ''h''] ?l))"
    by (metis prod.collapse)
  from reconcile_exact [OF _ _ prod.collapse [symmetric] this] show ?thesis
    by (auto simp: plain_name_def le_key_def)
qed

text \<open>Adding and removing. After any commands, an endpoint that was added without error is
  listed, nothing that was listed is lost, and a container's addresses lead to its entry; once it
  is removed without error it is the only one gone and its addresses have no entry.\<close>

lemma add_then_remove:
  assumes "\<forall>c \<in> set cs. command_ok c" "plain_name (le_link ep)"
    "actor_run mock_ops es cs (mock_loader f root) = (rs, l)"
    "list_loader_endpoints mock_ops l = Ok xs"
    "add_loader_endpoint mock_ops es ep l = (Ok (), l1)" "remove_loader_endpoint mock_ops ep l1 = (Ok (), l2)"
  shows "\<exists>ys zs. list_loader_endpoints mock_ops l1 = Ok ys \<and> set ys = insert (le_key ep) (set xs) \<and>
    (\<forall>p. ep = Container p \<longrightarrow> (\<exists>ix. \<forall>ip \<in> set (ips (ep_spec p)).
       map_of (endpoint_infos (ld_backend l1)) ip = Some (container_info p ix))) \<and>
    list_loader_endpoints mock_ops l2 = Ok zs \<and> set zs = set xs - {le_key ep} \<and>
    (\<forall>ip. map_of (endpoint_infos (ld_backend l2)) ip =
       (if ip \<in> ep_ips ep then None else map_of (endpoint_infos (ld_backend l)) ip))"
proof -
  note l = mock_reachable [OF assms(1,3)]
  note l1 = mock.add_ok [OF l assms(2,5)]
  note l2 = mock.remove_ok [OF l1 assms(2,6)]
  let ?k = "le_kind ep" and ?lk = "le_link ep"
  have add: "mock.add_post root ep (Ok ()) (ld_backend l) (ld_backend l1)"
    using mock.add_effect [where root = root, OF _ _ assms(2,5)] l by (simp add: mock.loader_ok_def)
  note ap = add [unfolded mock.add_post_def]
  have inf: "\<forall>p. ep = Container p \<longrightarrow> (\<exists>ix. \<forall>ip \<in> set (ips (ep_spec p)). mock_infos (ld_backend l1) ip = Some (container_info p ix))"
    using ap by fastforce
  have pins: "mock_pins root (ld_backend l1) \<subseteq> mock_pins root (ld_backend l) \<union> pins_of ?k ?lk"
    "attached_in (mock_pins root (ld_backend l1)) ?k ?lk" using ap by simp_all
  have att: "attached_in (mock_pins root (ld_backend l1)) k lk \<longleftrightarrow>
      attached_in (mock_pins root (ld_backend l)) k lk \<or> (k, lk) = (?k, ?lk)" for k lk
    using pins mock.add_post_keeps [OF add] attached_add [of "mock_pins root (ld_backend l)" "mock_pins root (ld_backend l1)" ?k ?lk k lk]
    unfolding attached_in_def by blast
  have rem: "mock_pins root (ld_backend l2) = without (mock_pins root (ld_backend l1)) ?k ?lk"
    "\<forall>ip. mock_infos (ld_backend l2) ip = (if ip \<in> ep_ips ep then None else mock_infos (ld_backend l1) ip)"
    using mock.remove_effect [where root = root, OF _ _ assms(2,6)] l1 by (simp_all add: mock.loader_ok_def)
  obtain ys zs where y: "list_loader_endpoints mock_ops l1 = Ok ys" and z: "list_loader_endpoints mock_ops l2 = Ok zs"
    using mock_lists by blast
  have "set ys = insert (le_key ep) (set xs)"
    using mock_listed [OF l assms(4)] mock_listed [OF l1 y] by (auto simp: att le_key_def)
  moreover have "set zs = set xs - {le_key ep}"
    using mock_listed [OF l assms(4)] mock_listed [OF l2 z] by (auto simp: att rem(1) attached_without le_key_def)
  moreover have "\<forall>ip. mock_infos (ld_backend l2) ip = (if ip \<in> ep_ips ep then None else mock_infos (ld_backend l) ip)"
    using rem(2) ap by simp
  ultimately show ?thesis using y z inf unfolding mock_infos_def by blast
qed

definition sample_container :: loader_endpoint where
  "sample_container = Container \<lparr>ep_id = 5, ep_spec =
     \<lparr>container_name = None, container_id = None, docker_network_id = None, docker_endpoint = None,
      host_iface_name = ''v'', host_iface_index = 3, container_mac = MacAddress [2, 0, 0, 0, 0, 1],
      host_mac = MacAddress [2, 0, 0, 0, 0, 2], ep_ipv4 = Some 1, ep_ipv6 = None, k8s_ns = None, k8s_pod_name = None\<rparr>\<rparr>"

lemma add_then_remove_witness:
  "\<exists>ys zs. list_loader_endpoints mock_ops (snd (add_loader_endpoint mock_ops (\<lambda>_. []) sample_container (mock_loader None ''/b''))) = Ok ys \<and>
    set ys = {(KContainer, ''v'')} \<and>
    list_loader_endpoints mock_ops (snd (remove_loader_endpoint mock_ops sample_container
      (snd (add_loader_endpoint mock_ops (\<lambda>_. []) sample_container (mock_loader None ''/b''))))) = Ok zs \<and> set zs = {}"
proof -
  let ?l = "mock_loader None ''/b''"
  let ?l1 = "snd (add_loader_endpoint mock_ops (\<lambda>_. []) sample_container ?l)"
  let ?l2 = "snd (remove_loader_endpoint mock_ops sample_container ?l1)"
  have f: "fst (add_loader_endpoint mock_ops (\<lambda>_. []) sample_container ?l) = Ok ()"
    "fst (remove_loader_endpoint mock_ops sample_container ?l1) = Ok ()"
    "list_loader_endpoints mock_ops ?l = Ok []" by code_simp+
  have k: "plain_name (le_link sample_container)" "le_key sample_container = (KContainer, ''v'')"
    by (simp_all add: sample_container_def plain_name_def le_key_def)
  have a: "add_loader_endpoint mock_ops (\<lambda>_. []) sample_container ?l = (Ok (), ?l1)"
    and r: "remove_loader_endpoint mock_ops sample_container ?l1 = (Ok (), ?l2)"
    using f by (metis prod.collapse)+
  from add_then_remove [OF _ k(1) actor_run.simps(1) f(3) a r] k(2) show ?thesis by force
qed

text \<open>The actor answers every command up to and including the first \<open>Shutdown\<close> and none after
  it; what is queued behind a shutdown cannot change the loader any more.\<close>

lemma actor_stops_at_shutdown:
  assumes "Shutdown \<notin> set cs"
  shows "\<exists>rs l'. actor_run B es (cs @ Shutdown # ds) l =
      (map Some rs @ Some (RUnit (Ok ())) # replicate (length ds) None, l') \<and> length rs = length cs \<and>
    globals_holder l' = None \<and> actor_run B es (cs @ [Shutdown]) l = (map Some rs @ [Some (RUnit (Ok ()))], l')"
  using assms
proof (induction cs arbitrary: l)
  case Nil
  then show ?case by (simp add: teardown_all_def map_replicate_const)
next
  case (Cons c cs)
  obtain rep go l1 where d: "dispatch B es c l = (rep, go, l1)" by (metis prod_cases3)
  have "c \<noteq> Shutdown" using Cons.prems by auto
  with d have "go" by (cases c) (auto split: prod.splits)
  moreover obtain rs l' where "actor_run B es (cs @ Shutdown # ds) l1 =
      (map Some rs @ Some (RUnit (Ok ())) # replicate (length ds) None, l') \<and> length rs = length cs \<and>
    globals_holder l' = None \<and> actor_run B es (cs @ [Shutdown]) l1 = (map Some rs @ [Some (RUnit (Ok ()))], l')"
    using Cons.IH [of l1] Cons.prems by (metis list.set_intros(2))
  ultimately show ?case using d by (intro exI [of _ "rep # rs"] exI [of _ l']) simp
qed

lemma actor_stops_at_shutdown_witness:
  "\<exists>rs l'. actor_run mock_ops (\<lambda>_. []) [LoadGlobalMaps, Shutdown, ListLoaderEndpoints] (mock_loader None ''/b'') =
    (map Some rs @ [Some (RUnit (Ok ())), None], l') \<and> length rs = 1"
  using actor_stops_at_shutdown [of "[LoadGlobalMaps]" mock_ops "\<lambda>_. []" "[ListLoaderEndpoints]" "mock_loader None ''/b''"]
  by fastforce

end
