(* ===== verification/Ebpf.thy ===== *)
theory Ebpf
  imports Packet Dataplane_Types
begin

text \<open>
  The eBPF programs (\<open>sarena-ebpf-programs\<close>) with the helpers of \<open>sarena-ebpf-common\<close> they use: what is done
  with each packet that enters or leaves a container, the host, a network device, the overlay or
  the wireguard interface. A program runs on a state that holds the packet, the maps it reads and
  writes and the redirects it asked for; the maps of one CPU are enough, since a program runs on one.

  Code outside the repository is the record \<open>K\<close>: the numbers \<open>network_types\<close> knows as ether types, the kernel's
  helpers for the checksum and for redirects, and whether a new entry fits into the metrics map. The
  header structures of \<open>network_types\<close> are the wire formats of Ethernet, ARP and IPv4, read here at their offsets.
\<close>

section \<open>Verdicts and errors\<close>

type_synonym i32 = "32 word"
type_synonym i64 = "64 word"

datatype verdict = VPass | VDrop | VNext | VRedirect i32

fun verdict_code :: "verdict \<Rightarrow> i32" where
  "verdict_code VPass = 0"
| "verdict_code VDrop = 2"
| "verdict_code VNext = - 1"
| "verdict_code (VRedirect code) = code"

datatype common_error = PacketSizeError

text \<open>The payloads of two errors are types of \<open>network_types\<close> that the programs never look into.\<close>

typedecl ip_error
typedecl icmp_error

datatype ebpf_error =
    ECommon common_error
  | InternalError
  | EIpError ip_error
  | EIcmpError icmp_error
  | UnsupportedProtocol u8
  | MapError i32
  | TtlExceeded
  | CsumL3

fun error_verdict :: "ebpf_error \<Rightarrow> verdict" where
  "error_verdict (UnsupportedProtocol _) = VPass"
| "error_verdict _ = VDrop"

fun ebpf_error_code :: "ebpf_error \<Rightarrow> nat" where
  "ebpf_error_code (ECommon _) = 1"
| "ebpf_error_code InternalError = 2"
| "ebpf_error_code (EIpError _) = 3"
| "ebpf_error_code (UnsupportedProtocol _) = 4"
| "ebpf_error_code TtlExceeded = 5"
| "ebpf_error_code CsumL3 = 6"
| "ebpf_error_code (EIcmpError _) = 7"
| "ebpf_error_code (MapError _) = 8"

section \<open>The state of a program\<close>

record metrics_value =
  mv_packets :: u64
  mv_bytes :: u64

datatype redirect = ToInterface u32 u64 | ToPeer u32 u64

text \<open>\<open>skb_data\<close> is what lies between \<open>data\<close> and \<open>data_end\<close>; \<open>skb_len\<close> also counts what is not linear. The metrics
  map has \<open>obs_point\<close> as its key, the rest of \<open>MetricsKey\<close> is padding of zeros.\<close>

record bpf_state =
  skb_data :: "u8 list"
  skb_len :: u32
  skb_ifindex :: u32
  lxc_map :: "endpoint_key \<Rightarrow> endpoint_info option"
  config_slot :: "endpoint_config option"
  metrics_map :: "u8 \<Rightarrow> metrics_value option"
  prog_errors :: "u64 list"
  redirects :: "redirect list"

datatype ether_type = EtIpv4 | EtArp | EtOther u16

record kernel =
  k_ether_type :: "u16 \<Rightarrow> ether_type option"
  k_l3_csum_replace :: "u8 list \<Rightarrow> nat \<Rightarrow> u64 \<Rightarrow> u64 \<Rightarrow> u64 \<Rightarrow> u8 list option"
  k_redirect :: "u32 \<Rightarrow> u64 \<Rightarrow> i64"
  k_redirect_peer :: "u32 \<Rightarrow> u64 \<Rightarrow> i64"
  k_metrics_room :: bool

type_synonym 'a prog = "bpf_state \<Rightarrow> ('a, ebpf_error) result \<times> bpf_state"

text \<open>The operator \<open>?\<close>.\<close>

definition and_then :: "'a prog \<Rightarrow> ('a \<Rightarrow> 'b prog) \<Rightarrow> 'b prog" where
  "and_then p f s = (case p s of (Ok x, s) \<Rightarrow> f x s | (Err e, s) \<Rightarrow> (Err e, s))"

section \<open>Memory and packet access\<close>

text \<open>\<open>bpf_memcmp\<close> on arrays of at least \<open>n\<close> bytes.\<close>

fun bpf_memcmp :: "u8 list \<Rightarrow> u8 list \<Rightarrow> nat \<Rightarrow> int" where
  "bpf_memcmp (a # as) (b # bs) (Suc n) = (if a \<noteq> b then uint a - uint b else bpf_memcmp as bs n)"
| "bpf_memcmp _ _ _ = 0"

definition ref_at :: "nat \<Rightarrow> nat \<Rightarrow> (u8 list) prog" where
  "ref_at off len s =
     (if off + len > length (skb_data s) then (Err (ECommon PacketSizeError), s)
      else (Ok (slice off (off + len) (skb_data s)), s))"

text \<open>What is done through the reference \<open>ref_at_mut\<close> returns is the function \<open>f\<close> on the bytes of the structure.\<close>

definition ref_at_mut :: "nat \<Rightarrow> nat \<Rightarrow> (u8 list \<Rightarrow> u8 list) \<Rightarrow> unit prog" where
  "ref_at_mut off len f s =
     (if off + len > length (skb_data s) then (Err (ECommon PacketSizeError), s)
      else (Ok (), s\<lparr>skb_data := put off (f (slice off (off + len) (skb_data s))) (skb_data s)\<rparr>))"

abbreviation ETH_LEN :: nat where "ETH_LEN \<equiv> 14"
abbreviation ARP_LEN :: nat where "ARP_LEN \<equiv> 28"
abbreviation IPV4_LEN :: nat where "IPV4_LEN \<equiv> 20"

text \<open>Fields of the headers.\<close>

definition eth_dst :: "u8 list \<Rightarrow> u8 list" where
  "eth_dst h = slice 0 6 h"

definition eth_src :: "u8 list \<Rightarrow> u8 list" where
  "eth_src h = slice 6 12 h"

definition eth_type :: "u8 list \<Rightarrow> u16" where
  "eth_type h = from_be (slice 12 14 h)"

definition arp_htype :: "u8 list \<Rightarrow> u16" where
  "arp_htype h = from_be (slice 0 2 h)"

definition arp_oper :: "u8 list \<Rightarrow> u16" where
  "arp_oper h = from_be (slice 6 8 h)"

definition arp_sha :: "u8 list \<Rightarrow> u8 list" where
  "arp_sha h = slice 8 14 h"

definition arp_spa :: "u8 list \<Rightarrow> u8 list" where
  "arp_spa h = slice 14 18 h"

definition arp_tha :: "u8 list \<Rightarrow> u8 list" where
  "arp_tha h = slice 18 24 h"

definition arp_tpa :: "u8 list \<Rightarrow> u8 list" where
  "arp_tpa h = slice 24 28 h"

definition ip4_frag_flags :: "u8 list \<Rightarrow> u8" where
  "ip4_frag_flags h = drop_bit 5 (h ! 6)"

definition ip4_frag_offset :: "u8 list \<Rightarrow> u16" where
  "ip4_frag_offset h = from_be (slice 6 8 h) AND 0x1FFF"

definition ip4_ttl :: "u8 list \<Rightarrow> u8" where
  "ip4_ttl h = h ! 8"

definition ip4_dst :: "u8 list \<Rightarrow> u8 list" where
  "ip4_dst h = slice 16 20 h"

section \<open>Maps\<close>

definition lookup_endpoint :: "endpoint_key \<Rightarrow> bpf_state \<Rightarrow> endpoint_info option" where
  "lookup_endpoint k s = lxc_map s k"

definition get_endpoint_config :: "endpoint_config prog" where
  "get_endpoint_config s = (case config_slot s of Some c \<Rightarrow> (Ok c, s) | None \<Rightarrow> (Err InternalError, s))"

definition OBS_POINT_CONTAINER_FORWARD :: u8 where
  "OBS_POINT_CONTAINER_FORWARD = 0"

definition OBS_POINT_HOST_FORWARD :: u8 where
  "OBS_POINT_HOST_FORWARD = 1"

definition update_metrics :: "kernel \<Rightarrow> u64 \<Rightarrow> u8 \<Rightarrow> bpf_state \<Rightarrow> bpf_state" where
  "update_metrics K bytes obs s =
     (case metrics_map s obs of
        Some e \<Rightarrow> s\<lparr>metrics_map := (metrics_map s)(obs \<mapsto> \<lparr>mv_packets = mv_packets e + 1, mv_bytes = mv_bytes e + bytes\<rparr>)\<rparr>
      | None \<Rightarrow> if k_metrics_room K
          then s\<lparr>metrics_map := (metrics_map s)(obs \<mapsto> \<lparr>mv_packets = 1, mv_bytes = bytes\<rparr>)\<rparr> else s)"

definition ctx_redirect :: "kernel \<Rightarrow> u32 \<Rightarrow> u64 \<Rightarrow> bpf_state \<Rightarrow> i64 \<times> bpf_state" where
  "ctx_redirect K ifindex flags s = (k_redirect K ifindex flags, s\<lparr>redirects := redirects s @ [ToInterface ifindex flags]\<rparr>)"

definition ctx_redirect_peer :: "kernel \<Rightarrow> u32 \<Rightarrow> u64 \<Rightarrow> bpf_state \<Rightarrow> i64 \<times> bpf_state" where
  "ctx_redirect_peer K ifindex flags s = (k_redirect_peer K ifindex flags, s\<lparr>redirects := redirects s @ [ToPeer ifindex flags]\<rparr>)"

section \<open>Local delivery\<close>

definition is_fragmented :: "u8 list \<Rightarrow> bool" where
  "is_fragmented ip4 \<longleftrightarrow> ip4_frag_flags ip4 AND 1 \<noteq> 0 \<or> ip4_frag_offset ip4 \<noteq> 0"

definition IPV4_CSUM_OFF :: nat where
  "IPV4_CSUM_OFF = ETH_LEN + 10"

definition l3_csum_replace :: "kernel \<Rightarrow> nat \<Rightarrow> u64 \<Rightarrow> u64 \<Rightarrow> u64 \<Rightarrow> unit prog" where
  "l3_csum_replace K off old new n s =
     (case k_l3_csum_replace K (skb_data s) off old new n of
        None \<Rightarrow> (Err CsumL3, s)
      | Some d \<Rightarrow> (Ok (), s\<lparr>skb_data := d\<rparr>))"

definition ipv4_dec_ttl :: "kernel \<Rightarrow> unit prog" where
  "ipv4_dec_ttl K = and_then (ref_at ETH_LEN IPV4_LEN) (\<lambda>ip4.
     if ip4_ttl ip4 \<le> 1 then (\<lambda>s. (Err TtlExceeded, s))
     else let old = ip4_ttl ip4; new = old - 1
     in and_then (ref_at_mut ETH_LEN IPV4_LEN (put 8 [new]))
          (\<lambda>_. l3_csum_replace K IPV4_CSUM_OFF (ucast old) (ucast new) 2))"

definition rewrite_eth :: "u8 list \<Rightarrow> u8 list \<Rightarrow> unit prog" where
  "rewrite_eth src_mac dst_mac = ref_at_mut 0 ETH_LEN (\<lambda>eth. put 6 src_mac (put 0 dst_mac eth))"

definition local_delivery :: "kernel \<Rightarrow> endpoint_info \<Rightarrow> verdict prog" where
  "local_delivery K ep =
     and_then (ipv4_dec_ttl K) (\<lambda>_.
     and_then (rewrite_eth (info_host_mac ep) (info_container_mac ep)) (\<lambda>_ s.
       case ctx_redirect K (info_if_index ep) 0 s of (code, s) \<Rightarrow> (Ok (VRedirect (ucast code)), s)))"

section \<open>ARP\<close>

definition ARPOP_REQUEST :: u16 where
  "ARPOP_REQUEST = 1"

definition ARPOP_REPLY :: u16 where
  "ARPOP_REPLY = 2"

definition ARPHRD_ETHER :: u16 where
  "ARPHRD_ETHER = 1"

definition ETH_BROADCAST :: "u8 list" where
  "ETH_BROADCAST = replicate 6 0xFF"

definition eth_is_bcast :: "u8 list \<Rightarrow> bool" where
  "eth_is_bcast a \<longleftrightarrow> bpf_memcmp a ETH_BROADCAST (length ETH_BROADCAST) = 0"

definition write_arp_reply :: "u8 list \<Rightarrow> u8 list \<Rightarrow> u8 list \<Rightarrow> u8 list \<Rightarrow> unit prog" where
  "write_arp_reply our_mac requester_mac our_ip requester_ip =
     and_then (ref_at_mut 0 ETH_LEN (\<lambda>eth. put 0 requester_mac (put 6 our_mac eth))) (\<lambda>_.
       ref_at_mut ETH_LEN ARP_LEN (\<lambda>arp.
         put 24 requester_ip (put 18 requester_mac (put 14 our_ip (put 8 our_mac
           (put 6 (be_bytes 2 ARPOP_REPLY) arp))))))"

definition process_arp :: "kernel \<Rightarrow> endpoint_config \<Rightarrow> verdict prog" where
  "process_arp K config =
     and_then (ref_at 0 ETH_LEN) (\<lambda>eth.
     and_then (ref_at ETH_LEN ARP_LEN) (\<lambda>arp s.
       let is_request = arp_oper arp = ARPOP_REQUEST \<and> arp_htype arp = ARPHRD_ETHER;
           for_us = eth_is_bcast (eth_dst eth) \<or> bpf_memcmp (eth_dst eth) (cfg_host_mac config) 6 = 0
       in if \<not> is_request \<or> \<not> for_us then (Ok VPass, s)
          else if (case cfg_ipv4 config of Some a \<Rightarrow> arp_tpa arp = be_bytes 4 a | None \<Rightarrow> False) then (Ok VNext, s)
          else and_then (write_arp_reply (cfg_host_mac config) (eth_src eth) (arp_tpa arp) (arp_spa arp)) (\<lambda>_ s.
                 case ctx_redirect_peer K (skb_ifindex s) 0 s of (code, s) \<Rightarrow> (Ok (VRedirect (ucast code)), s)) s))"

section \<open>The programs\<close>

definition container_process_ipv4 :: "kernel \<Rightarrow> verdict prog" where
  "container_process_ipv4 K =
     and_then (ref_at ETH_LEN IPV4_LEN) (\<lambda>ip4.
       if is_fragmented ip4 then (\<lambda>s. (Ok VDrop, s))
       else and_then (ref_at 0 ETH_LEN) (\<lambda>_ s.
         case lookup_endpoint (from_ipv4_octets (ip4_dst ip4)) s of
           Some ep \<Rightarrow> local_delivery K ep (update_metrics K (ucast (skb_len s)) OBS_POINT_CONTAINER_FORWARD s)
         | None \<Rightarrow> (Ok VPass, s)))"

definition try_from_container :: "kernel \<Rightarrow> verdict prog" where
  "try_from_container K =
     and_then (ref_at 0 ETH_LEN) (\<lambda>eth.
       case k_ether_type K (eth_type eth) of
         None \<Rightarrow> (\<lambda>s. (Ok VPass, s))
       | Some et \<Rightarrow> and_then get_endpoint_config (\<lambda>config.
           case et of EtIpv4 \<Rightarrow> container_process_ipv4 K | EtArp \<Rightarrow> process_arp K config | _ \<Rightarrow> (\<lambda>s. (Ok VDrop, s))))"

definition host_process_ipv4 :: "kernel \<Rightarrow> verdict prog" where
  "host_process_ipv4 K =
     and_then (ref_at ETH_LEN IPV4_LEN) (\<lambda>ip4 s.
       if is_fragmented ip4 then (Ok VDrop, s)
       else case lookup_endpoint (from_ipv4_octets (ip4_dst ip4)) s of
           Some ep \<Rightarrow> local_delivery K ep (update_metrics K (ucast (skb_len s)) OBS_POINT_HOST_FORWARD s)
         | None \<Rightarrow> (Ok VPass, s))"

definition try_from_host :: "kernel \<Rightarrow> verdict prog" where
  "try_from_host K =
     and_then (ref_at 0 ETH_LEN) (\<lambda>eth.
       case k_ether_type K (eth_type eth) of
         None \<Rightarrow> (\<lambda>s. (Ok VPass, s))
       | Some et \<Rightarrow> (case et of EtIpv4 \<Rightarrow> host_process_ipv4 K | _ \<Rightarrow> (\<lambda>s. (Ok VPass, s))))"

definition try_to_container :: "verdict prog" where
  "try_to_container s = (Ok VPass, s)"

definition try_to_host :: "verdict prog" where
  "try_to_host s = (Ok VPass, s)"

definition try_from_netdev :: "verdict prog" where
  "try_from_netdev s = (Ok VPass, s)"

definition try_to_netdev :: "verdict prog" where
  "try_to_netdev s = (Ok VPass, s)"

definition try_from_overlay :: "verdict prog" where
  "try_from_overlay s = (Ok VPass, s)"

definition try_to_overlay :: "verdict prog" where
  "try_to_overlay s = (Ok VPass, s)"

definition try_from_wireguard :: "verdict prog" where
  "try_from_wireguard s = (Ok VPass, s)"

definition try_to_wireguard :: "verdict prog" where
  "try_to_wireguard s = (Ok VPass, s)"

definition ebpf_dispatch :: "verdict prog \<Rightarrow> bpf_state \<Rightarrow> i32 \<times> bpf_state" where
  "ebpf_dispatch p s =
     (case p s of
        (Ok v, s) \<Rightarrow> (verdict_code v, s)
      | (Err e, s) \<Rightarrow>
          (verdict_code (error_verdict e),
           if ebpf_error_code e < length (prog_errors s)
           then s\<lparr>prog_errors := (prog_errors s)[ebpf_error_code e := prog_errors s ! ebpf_error_code e + 1]\<rparr> else s))"

text \<open>The classifiers of \<open>main.rs\<close> by name.\<close>

definition classifiers :: "kernel \<Rightarrow> (string \<times> verdict prog) list" where
  "classifiers K =
     [(''from_container'', try_from_container K), (''to_container'', try_to_container),
      (''from_host'', try_from_host K), (''to_host'', try_to_host),
      (''from_netdev'', try_from_netdev), (''to_netdev'', try_to_netdev),
      (''from_overlay'', try_from_overlay), (''to_overlay'', try_to_overlay),
      (''from_wireguard'', try_from_wireguard), (''to_wireguard'', try_to_wireguard)]"

section \<open>Effects of the parts\<close>

lemma and_then_cases:
  assumes "and_then p f s = (r, s')"
  obtains (Ok) x s1 where "p s = (Ok x, s1)" "f x s1 = (r, s')" | (Err) e where "p s = (Err e, s')" "r = Err e"
  using assms by (auto simp: and_then_def split: prod.splits result.splits)

lemma and_then_Ok [simp]: "p s = (Ok x, s1) \<Longrightarrow> and_then p f s = f x s1"
  by (simp add: and_then_def)

lemma and_then_Err [simp]: "p s = (Err e, s1) \<Longrightarrow> and_then p f s = (Err e, s1)"
  by (simp add: and_then_def)

lemma ref_at_Ok [simp]: "off + len \<le> length (skb_data s) \<Longrightarrow> ref_at off len s = (Ok (slice off (off + len) (skb_data s)), s)"
  by (simp add: ref_at_def)

lemma ref_at_same: "ref_at off len s = (r, s') \<Longrightarrow> s' = s"
  by (auto simp: ref_at_def split: if_splits)

lemma ref_at_OkD: "ref_at off len s = (Ok x, s') \<Longrightarrow> s' = s \<and> x = slice off (off + len) (skb_data s) \<and> off + len \<le> length (skb_data s)"
  by (auto simp: ref_at_def split: if_splits)

lemma ref_at_mut_Ok [simp]:
  "off + len \<le> length (skb_data s) \<Longrightarrow>
     ref_at_mut off len f s = (Ok (), s\<lparr>skb_data := put off (f (slice off (off + len) (skb_data s))) (skb_data s)\<rparr>)"
  by (simp add: ref_at_mut_def)

lemma ref_at_mut_OkD:
  "ref_at_mut off len f s = (Ok x, s') \<Longrightarrow> off + len \<le> length (skb_data s) \<and>
     s' = s\<lparr>skb_data := put off (f (slice off (off + len) (skb_data s))) (skb_data s)\<rparr>"
  by (auto simp: ref_at_mut_def split: if_splits)

lemma slice_slice [simp]: "b \<le> d - c \<Longrightarrow> slice a b (slice c d f) = slice (c + a) (c + b) f"
  by (simp add: slice_def drop_take min_absorb1 add.commute)

lemma nth_slice [simp]: "a + i < b \<Longrightarrow> b \<le> length f \<Longrightarrow> slice a b f ! i = f ! (a + i)"
  by (simp add: slice_def)

lemma nth_put:
  "off + length bs \<le> length f \<Longrightarrow> k < length f \<Longrightarrow>
     put off bs f ! k = (if off \<le> k \<and> k < off + length bs then bs ! (k - off) else f ! k)"
  by (auto simp: put_def nth_append min_def)

text \<open>A field of a structure inside a frame is a field of the frame.\<close>

lemma put_put [simp]:
  assumes "i + length bs \<le> length g" "off + length g \<le> length f"
  shows "put off (put i bs g) f = put (off + i) bs (put off g f)"
proof (rule nth_equalityI)
  show "length (put off (put i bs g) f) = length (put (off + i) bs (put off g f))" using assms by simp
  fix k assume "k < length (put off (put i bs g) f)"
  then have "k < length f" using assms by simp
  then show "put off (put i bs g) f ! k = put (off + i) bs (put off g f) ! k"
    using assms by (auto simp: nth_put less_diff_conv2 add.commute)
qed

lemma put_slice [simp]: "off + len \<le> length f \<Longrightarrow> put off (slice off (off + len) f) f = f"
proof (rule nth_equalityI)
  assume a: "off + len \<le> length f"
  then show "length (put off (slice off (off + len) f) f) = length f" by simp
  fix k assume "k < length (put off (slice off (off + len) f) f)"
  with a show "put off (slice off (off + len) f) f ! k = f ! k" by (simp add: nth_put)
qed

lemma slice_put_other [simp]:
  assumes "off + length bs \<le> length f" "b \<le> length f" "b \<le> off \<or> off + length bs \<le> a"
  shows "slice a b (put off bs f) = slice a b f"
  by (rule slice_same [OF same_put]) (use assms in auto)

lemma slice_put_eq [simp]: "b = off + length bs \<Longrightarrow> b \<le> length f \<Longrightarrow> slice off b (put off bs f) = bs"
  by simp

lemma bpf_memcmp_eq: "length a = n \<Longrightarrow> length b = n \<Longrightarrow> bpf_memcmp a b n = 0 \<longleftrightarrow> a = b"
  by (induction a b n rule: bpf_memcmp.induct) (auto simp: length_Suc_conv word_uint_eq_iff)

text \<open>The documented behaviour of \<open>bpf_l3_csum_replace\<close> for a field of two bytes: an incremental update of the
  checksum at \<open>off\<close> (RFC 1624). The values are given as the program loads them, low byte first.\<close>

definition le_field :: "u64 \<Rightarrow> nat" where
  "le_field w = 256 * (unat w mod 256) + unat w div 256 mod 256"

definition csum_docs :: "kernel \<Rightarrow> bool" where
  "csum_docs K \<longleftrightarrow> (\<forall>d off old new d'. k_l3_csum_replace K d off old new 2 = Some d' \<longrightarrow>
     off + 2 \<le> length d \<and> same_except {off..<off + 2} d d' \<and>
     (sum16 (slice off (off + 2) d') + le_field new) mod 65535 = (sum16 (slice off (off + 2) d) + le_field old) mod 65535)"

lemma le_field_byte: "le_field (ucast (b :: u8)) = 256 * unat b"
  using unat_byte [of b] by (simp add: le_field_def unat_ucast_up)

definition ttl_decremented :: "u8 list \<Rightarrow> u8 list \<Rightarrow> bool" where
  "ttl_decremented d d' \<longleftrightarrow> same_except {22, 24, 25} d d' \<and> 1 < d ! 22 \<and> d' ! 22 = d ! 22 - 1 \<and>
     (sum16 (slice 24 26 d') + 256 * unat (d' ! 22)) mod 65535 = (sum16 (slice 24 26 d) + 256 * unat (d ! 22)) mod 65535"

lemma dec_ttl_Ok:
  assumes "csum_docs K" "ipv4_dec_ttl K s = (Ok u, s')"
  shows "\<exists>d'. s' = s\<lparr>skb_data := d'\<rparr> \<and> ttl_decremented (skb_data s) d' \<and> 34 \<le> length (skb_data s)"
  using assms(2) unfolding ipv4_dec_ttl_def
proof (cases rule: and_then_cases)
  case (Ok ip4 s1)
  let ?d = "skb_data s"
  have r: "s1 = s" "ip4 = slice 14 34 ?d" "34 \<le> length ?d" using ref_at_OkD [OF Ok(1)] by simp_all
  then have t: "ip4_ttl ip4 = ?d ! 22" by (simp add: ip4_ttl_def)
  let ?m = "put 22 [?d ! 22 - 1] ?d"
  have m: "put 14 (put 8 [?d ! 22 - 1] (slice 14 34 ?d)) ?d = ?m"
    using put_slice [of 14 20 ?d] r(3) by simp
  have gt: "1 < ?d ! 22" using Ok(2) t by (auto simp: Let_def not_le split: if_splits)
  then have "\<not> ?d ! 22 \<le> 1" by (simp add: not_le)
  then obtain d' where k: "k_l3_csum_replace K ?m 24 (ucast (?d ! 22)) (ucast (?d ! 22 - 1)) 2 = Some d'" "s' = s\<lparr>skb_data := d'\<rparr>"
    using Ok(2) r t m
    by (auto simp: Let_def l3_csum_replace_def IPV4_CSUM_OFF_def ref_at_mut_Ok and_then_def split: option.splits)
  have c: "same_except {24..<26} ?m d'"
    "(sum16 (slice 24 26 d') + 256 * unat (?d ! 22 - 1)) mod 65535 = (sum16 (slice 24 26 ?m) + 256 * unat (?d ! 22)) mod 65535"
    using assms(1) k(1) unfolding csum_docs_def by (fastforce simp: le_field_byte)+
  have pm: "same_except {22..<23} ?d ?m" using same_put [of 22 "[?d ! 22 - 1]" ?d] r(3) by simp
  have "?m ! 22 = d' ! 22" using c(1) r(3) by (simp add: same_except_def)
  then have "d' ! 22 = ?d ! 22 - 1" using r(3) nth_put [of 22 "[?d ! 22 - 1]" ?d 22] by simp
  moreover have "slice 24 26 ?m = slice 24 26 ?d" by (rule slice_same [OF pm]) (use r(3) in auto)
  moreover have "same_except {22, 24, 25} ?d d'"
    by (rule same_except_mono [OF same_except_trans [OF pm c(1)]]) auto
  ultimately show ?thesis using c(2) gt r(3) k(2) unfolding ttl_decremented_def by auto
qed simp

lemma ones_fold_full: "ones_fold n = 65535 \<longleftrightarrow> 0 < n \<and> n mod 65535 = 0"
  by (cases n) (auto simp: ones_fold_def mod_Suc)

text \<open>The header up to any even length keeps a valid checksum.\<close>

lemma ttl_checksum:
  assumes "ttl_decremented d d'" "20 \<le> h" "14 + h \<le> length d" "h \<le> 60" "internet_checksum (slice 14 (14 + h) d) = 0"
  shows "internet_checksum (slice 14 (14 + h) d') = 0"
proof -
  note td = assms(1) [unfolded ttl_decremented_def]
  have len: "length d' = length d" using td by (simp add: same_except_def)
  have split: "slice 14 (14 + h) f = slice 14 22 f @ [f ! 22, f ! 23] @ slice 24 26 f @ slice 26 (14 + h) f"
    if "length f = length d" for f :: "u8 list"
  proof -
    have s: "slice a c f = slice a b f @ slice b c f" if "a \<le> b" "b \<le> c" for a b c
      using that take_add [of "b - a" "c - b" "drop a f"] by (simp add: slice_def add.commute)
    show ?thesis using s [of 14 22 "14 + h"] s [of 22 24 "14 + h"] s [of 24 26 "14 + h"] slice_two [of 22 f] assms(2,3) that by simp
  qed
  have sum: "sum16 (slice 14 (14 + h) f) =
      sum16 (slice 14 22 f) + unat (f ! 23) + sum16 (slice 26 (14 + h) f) + (sum16 (slice 24 26 f) + 256 * unat (f ! 22))"
    if "length f = length d" for f
    unfolding split [OF that] using that assms(2,3) by (simp add: sum16_append)
  have se: "same_except {22, 24, 25} d d'" using td by blast
  have same: "slice 14 22 d' = slice 14 22 d" "slice 26 (14 + h) d' = slice 26 (14 + h) d"
    by (rule slice_same [OF se]; use assms(2,3) in auto)+
  have s23: "d' ! 23 = d ! 23" using se assms(2,3) by (simp add: same_except_def)
  have "sum16 (slice 14 (14 + h) d') mod 65535 = sum16 (slice 14 (14 + h) d) mod 65535"
    unfolding sum [OF len] sum [OF refl] same s23 by (rule mod_add_cong [OF refl]) (use td in blast)
  moreover have "0 < unat (d' ! 22)" using td by (metis diff_self gr_implies_not0 less_irrefl neq0_conv right_minus_eq unat_eq_zero)
  then have "0 < sum16 (slice 14 (14 + h) d')" unfolding sum [OF len] by simp
  moreover have small: "length (slice 14 (14 + h) f) \<le> 131000" if "length f = length d" for f :: "u8 list"
    using that assms(3,4) by simp
  ultimately show ?thesis using assms(5) small [OF len] small [OF refl] by (simp add: checksum_zero_iff ones_fold_full)
qed

text \<open>What a packet looks like after local delivery: the addresses of the endpoint's link, one hop less, a
  checksum that is as good as it was, everything else as it was.\<close>

definition delivered :: "endpoint_info \<Rightarrow> u8 list \<Rightarrow> u8 list \<Rightarrow> bool" where
  "delivered ep d d' \<longleftrightarrow> same_except ({0..<12} \<union> {22, 24, 25}) d d' \<and>
     eth_dst d' = info_container_mac ep \<and> eth_src d' = info_host_mac ep \<and> 1 < d ! 22 \<and> d' ! 22 = d ! 22 - 1 \<and>
     (\<forall>h. 20 \<le> h \<and> h \<le> 60 \<and> 14 + h \<le> length d \<and> internet_checksum (slice 14 (14 + h) d) = 0 \<longrightarrow>
        internet_checksum (slice 14 (14 + h) d') = 0)"

lemma delivered_checksum:
  "delivered ep d d' \<Longrightarrow> 20 \<le> h \<Longrightarrow> h \<le> 60 \<Longrightarrow> 14 + h \<le> length d \<Longrightarrow> internet_checksum (slice 14 (14 + h) d) = 0 \<Longrightarrow>
     internet_checksum (slice 14 (14 + h) d') = 0"
  by (simp add: delivered_def)

lemma deliveredI:
  assumes "ttl_decremented d d1" "length src = 6" "length dst = 6" "34 \<le> length d"
    "info_container_mac ep = dst" "info_host_mac ep = src"
  shows "delivered ep d (put 6 src (put 0 dst d1))"
proof -
  let ?d = "put 6 src (put 0 dst d1)"
  have s1: "same_except {22, 24, 25} d d1" using assms(1) by (simp add: ttl_decremented_def)
  then have len: "length d1 = length d" by (simp add: same_except_def)
  have s2: "same_except ({0..<6} \<union> {6..<12}) d1 ?d"
    using same_except_trans [OF same_put [of 0 dst d1] same_put [of 6 src "put 0 dst d1"]] assms len by simp
  have "same_except ({0..<12} \<union> {22, 24, 25}) d ?d"
    by (rule same_except_mono [OF same_except_trans [OF s1 s2]]) auto
  moreover have "eth_dst ?d = dst" "eth_src ?d = src" using assms len by (simp_all add: eth_dst_def eth_src_def)
  moreover have "?d ! 22 = d ! 22 - 1" using s2 assms len by (simp add: same_except_def ttl_decremented_def)
  moreover have "slice 14 (14 + h) ?d = slice 14 (14 + h) d1" if "14 + h \<le> length d" for h
    by (rule slice_same [OF s2]) (use that len in auto)
  ultimately show ?thesis
    using ttl_checksum [OF assms(1)] assms by (auto simp: delivered_def ttl_decremented_def)
qed

lemma rewrite_eth_Ok [simp]:
  assumes "length src = 6" "length dst = 6" "14 \<le> length (skb_data s)"
  shows "rewrite_eth src dst s = (Ok (), s\<lparr>skb_data := put 6 src (put 0 dst (skb_data s))\<rparr>)"
  using assms put_slice [of 0 14 "skb_data s"] by (simp add: rewrite_eth_def)

lemma local_delivery_Ok:
  assumes "csum_docs K" "length (info_host_mac ep) = 6" "length (info_container_mac ep) = 6"
    "local_delivery K ep s = (Ok v, s')"
  shows "\<exists>d'. delivered ep (skb_data s) d' \<and> v = VRedirect (ucast (k_redirect K (info_if_index ep) 0)) \<and>
    s' = s\<lparr>skb_data := d', redirects := redirects s @ [ToInterface (info_if_index ep) 0]\<rparr>"
  using assms(4) unfolding local_delivery_def
proof (cases rule: and_then_cases)
  case (Ok u s1)
  obtain d1 where d1: "s1 = s\<lparr>skb_data := d1\<rparr>" "ttl_decremented (skb_data s) d1" "34 \<le> length (skb_data s)"
    using dec_ttl_Ok [OF assms(1) Ok(1)] by blast
  then have "length d1 = length (skb_data s)" by (simp add: ttl_decremented_def same_except_def)
  with Ok(2) d1 assms(2,3) show ?thesis
    by (intro exI [of _ "put 6 (info_host_mac ep) (put 0 (info_container_mac ep) d1)"])
       (auto simp: ctx_redirect_def deliveredI)
qed simp

text \<open>When the helper succeeds on every frame of this size, a packet with hops left is delivered.\<close>

definition csum_works :: "kernel \<Rightarrow> nat \<Rightarrow> bool" where
  "csum_works K n \<longleftrightarrow> (\<forall>d old new. length d = n \<longrightarrow> k_l3_csum_replace K d 24 old new 2 \<noteq> None)"

lemma local_delivery_total:
  assumes "csum_docs K" "csum_works K (length (skb_data s))" "34 \<le> length (skb_data s)" "1 < skb_data s ! 22"
    "length (info_host_mac ep) = 6" "length (info_container_mac ep) = 6"
  shows "\<exists>v s'. local_delivery K ep s = (Ok v, s')"
proof -
  let ?d = "skb_data s"
  have t: "ip4_ttl (slice 14 34 ?d) = ?d ! 22" using assms(3) by (simp add: ip4_ttl_def)
  have m: "put 14 (put 8 [?d ! 22 - 1] (slice 14 34 ?d)) ?d = put 22 [?d ! 22 - 1] ?d"
    using put_slice [of 14 20 ?d] assms(3) by simp
  have "length (put 22 [?d ! 22 - 1] ?d) = length ?d" using assms(3) by simp
  then obtain d1 where k: "k_l3_csum_replace K (put 22 [?d ! 22 - 1] ?d) 24 (ucast (?d ! 22)) (ucast (?d ! 22 - 1)) 2 = Some d1"
    using assms(2) unfolding csum_works_def by blast
  then have "length d1 = length ?d" using assms(1,3) unfolding csum_docs_def same_except_def by fastforce
  moreover have "ipv4_dec_ttl K s = (Ok (), s\<lparr>skb_data := d1\<rparr>)"
    using assms(3,4) t m k by (simp add: ipv4_dec_ttl_def not_le Let_def l3_csum_replace_def IPV4_CSUM_OFF_def)
  ultimately show ?thesis using assms by (simp add: local_delivery_def ctx_redirect_def and_then_def)
qed

text \<open>What a step of a program leaves alone.\<close>

definition bpf_wf :: "bpf_state \<Rightarrow> bool" where
  "bpf_wf s \<longleftrightarrow> length (prog_errors s) = 16 \<and>
     (\<forall>k ep. lxc_map s k = Some ep \<longrightarrow> length (info_host_mac ep) = 6 \<and> length (info_container_mac ep) = 6) \<and>
     (\<forall>c. config_slot s = Some c \<longrightarrow> length (cfg_host_mac c) = 6)"

definition tables_kept :: "bpf_state \<Rightarrow> bpf_state \<Rightarrow> bool" where
  "tables_kept s s' \<longleftrightarrow> lxc_map s' = lxc_map s \<and> config_slot s' = config_slot s \<and> prog_errors s' = prog_errors s \<and>
     skb_ifindex s' = skb_ifindex s \<and> skb_len s' = skb_len s \<and> length (skb_data s') = length (skb_data s)"

text \<open>A packet that is not redirected is not changed; one that is redirected was sent to one place.\<close>

fun verdict_kept :: "(verdict, 'e) result \<Rightarrow> bpf_state \<Rightarrow> bpf_state \<Rightarrow> bool" where
  "verdict_kept (Ok (VRedirect c)) s s' \<longleftrightarrow> (\<exists>r. redirects s' = redirects s @ [r])"
| "verdict_kept (Ok v) s s' \<longleftrightarrow> skb_data s' = skb_data s \<and> redirects s' = redirects s"
| "verdict_kept (Err e) s s' \<longleftrightarrow> redirects s' = redirects s"

lemma tables_kept_refl [simp]: "tables_kept s s"
  by (simp add: tables_kept_def)

lemma bpf_wf_kept: "tables_kept s s' \<Longrightarrow> bpf_wf s \<Longrightarrow> bpf_wf s'"
  by (simp add: tables_kept_def bpf_wf_def)

lemma bpf_wf_counted: "bpf_wf s \<Longrightarrow> bpf_wf (s\<lparr>prog_errors := (prog_errors s)[i := x]\<rparr>)"
  by (simp add: bpf_wf_def)

lemma update_metrics_frame [simp]:
  "skb_data (update_metrics K n obs s) = skb_data s" "redirects (update_metrics K n obs s) = redirects s"
  "tables_kept (update_metrics K n obs s) s' = tables_kept s s'" "tables_kept s' (update_metrics K n obs s) = tables_kept s' s"
  by (auto simp: update_metrics_def tables_kept_def split: option.splits)

lemma dec_ttl_frame:
  assumes "csum_docs K" "ipv4_dec_ttl K s = (r, s')"
  shows "tables_kept s s' \<and> redirects s' = redirects s"
proof (cases r)
  case (Ok u)
  with assms(2) have "ipv4_dec_ttl K s = (Ok u, s')" by simp
  from dec_ttl_Ok [OF assms(1) this] show ?thesis
    by (auto simp: tables_kept_def ttl_decremented_def same_except_def)
next
  case (Err e)
  show ?thesis using assms(2) Err unfolding ipv4_dec_ttl_def
    by (auto simp: and_then_def ref_at_def ref_at_mut_def Let_def l3_csum_replace_def tables_kept_def split: if_splits option.splits)
qed

lemma local_delivery_frame:
  assumes "csum_docs K" "length (info_host_mac ep) = 6" "length (info_container_mac ep) = 6" "local_delivery K ep s = (r, s')"
  shows "tables_kept s s' \<and> verdict_kept r s s'"
proof (cases r)
  case (Ok v)
  with assms(4) have "local_delivery K ep s = (Ok v, s')" by simp
  from local_delivery_Ok [OF assms(1-3) this] Ok show ?thesis
    by (auto simp: tables_kept_def delivered_def same_except_def)
next
  case (Err e)
  from assms(4) show ?thesis unfolding local_delivery_def
  proof (cases rule: and_then_cases)
    case (Ok u s1)
    have "14 \<le> length (skb_data s1)"
      using dec_ttl_Ok [OF assms(1) Ok(1)] by (auto simp: ttl_decremented_def same_except_def)
    with Ok(2) Err assms(2,3) show ?thesis by (simp add: ctx_redirect_def)
  next
    case (Err e)
    with dec_ttl_frame [OF assms(1) Err(1)] show ?thesis by simp
  qed
qed

lemma eth_field_slice [simp]:
  "14 \<le> length d \<Longrightarrow> eth_dst (slice 0 14 d) = eth_dst d" "14 \<le> length d \<Longrightarrow> eth_src (slice 0 14 d) = eth_src d"
  "14 \<le> length d \<Longrightarrow> eth_type (slice 0 14 d) = eth_type d"
  by (simp_all add: eth_dst_def eth_src_def eth_type_def)

text \<open>The reply as a rewriting of the frame.\<close>

definition arp_reply :: "u8 list \<Rightarrow> u8 list \<Rightarrow> u8 list" where
  "arp_reply mac d =
     put 38 (slice 28 32 d) (put 32 (eth_src d) (put 28 (slice 38 42 d) (put 22 mac (put 20 [0, 2]
       (put 0 (eth_src d) (put 6 mac d))))))"

lemma write_arp_reply_Ok:
  assumes "42 \<le> length (skb_data s)" "length mac = 6"
  shows "write_arp_reply mac (eth_src (skb_data s)) (slice 38 42 (skb_data s)) (slice 28 32 (skb_data s)) s =
    (Ok (), s\<lparr>skb_data := arp_reply mac (skb_data s)\<rparr>)"
proof -
  let ?d = "skb_data s"
  let ?e = "put 0 (eth_src ?d) (put 6 mac ?d)"
  have l: "length (eth_src ?d) = 6" using assms by (simp add: eth_src_def)
  have e: "put 0 (put 0 (eth_src ?d) (put 6 mac (slice 0 14 ?d))) ?d = ?e"
    using put_slice [of 0 14 ?d] assms l by simp
  have le: "length ?e = length ?d" using assms l by simp
  have "put 14 (slice 14 42 ?e) ?e = ?e" using put_slice [of 14 28 ?e] assms(1) le by simp
  moreover have "be_bytes 2 ARPOP_REPLY = [0, 2]" by code_simp
  ultimately show ?thesis using assms l e le
    by (simp add: write_arp_reply_def arp_reply_def)
qed

lemma arp_reply_length [simp]: "42 \<le> length d \<Longrightarrow> length mac = 6 \<Longrightarrow> length (arp_reply mac d) = length d"
  by (simp add: arp_reply_def eth_src_def)

lemma process_arp_frame:
  assumes "length (cfg_host_mac c) = 6" "process_arp K c s = (r, s')"
  shows "tables_kept s s' \<and> verdict_kept r s s'"
  using assms(2) unfolding process_arp_def
proof (cases rule: and_then_cases)
  case (Ok eth s1)
  then have e: "s1 = s" "eth = slice 0 14 (skb_data s)" "14 \<le> length (skb_data s)" using ref_at_OkD by fastforce+
  from Ok(2) show ?thesis
  proof (cases rule: and_then_cases)
    case (Ok arp s2)
    then have a: "s2 = s" "arp = slice 14 42 (skb_data s)" "42 \<le> length (skb_data s)" using ref_at_OkD e by fastforce+
    have f: "arp_tpa arp = slice 38 42 (skb_data s)" "arp_spa arp = slice 28 32 (skb_data s)" "eth_src eth = eth_src (skb_data s)"
      using a e by (simp_all add: arp_tpa_def arp_spa_def)
    show ?thesis
      using Ok(2) a(1) write_arp_reply_Ok [OF a(3) assms(1)] unfolding f
      by (auto simp: Let_def ctx_redirect_peer_def tables_kept_def a assms(1) split: if_splits)
  next
    case (Err e)
    with e ref_at_same show ?thesis by fastforce
  qed
next
  case (Err e)
  with ref_at_same show ?thesis by fastforce
qed

lemma counted_delivery_frame:
  assumes "csum_docs K" "bpf_wf s" "lookup_endpoint k s = Some ep"
    "local_delivery K ep (update_metrics K n obs s) = (r, s')"
  shows "tables_kept s s' \<and> verdict_kept r s s'"
proof -
  have "length (info_host_mac ep) = 6" "length (info_container_mac ep) = 6"
    using assms(2,3) by (auto simp: bpf_wf_def lookup_endpoint_def)
  from local_delivery_frame [OF assms(1) this assms(4)] show ?thesis
    by (cases "(r, update_metrics K n obs s, s')" rule: verdict_kept.cases) auto
qed

lemma container_ipv4_frame:
  assumes "csum_docs K" "bpf_wf s" "container_process_ipv4 K s = (r, s')"
  shows "tables_kept s s' \<and> verdict_kept r s s'"
  using assms(3) unfolding container_process_ipv4_def
proof (cases rule: and_then_cases)
  case (Ok ip4 s1)
  then have e: "s1 = s" "34 \<le> length (skb_data s)" using ref_at_OkD by fastforce+
  with Ok(2) counted_delivery_frame [OF assms(1,2)] show ?thesis by (auto split: if_splits option.splits)
next
  case (Err e)
  with ref_at_same show ?thesis by fastforce
qed

lemma host_ipv4_frame:
  assumes "csum_docs K" "bpf_wf s" "host_process_ipv4 K s = (r, s')"
  shows "tables_kept s s' \<and> verdict_kept r s s'"
  using assms(3) unfolding host_process_ipv4_def
proof (cases rule: and_then_cases)
  case (Ok ip4 s1)
  then have "s1 = s" using ref_at_OkD by fastforce
  with Ok(2) counted_delivery_frame [OF assms(1,2)] show ?thesis by (auto split: if_splits option.splits)
next
  case (Err e)
  with ref_at_same show ?thesis by fastforce
qed

lemma from_container_frame:
  assumes "csum_docs K" "bpf_wf s" "try_from_container K s = (r, s')"
  shows "tables_kept s s' \<and> verdict_kept r s s'"
  using assms(3) unfolding try_from_container_def
proof (cases rule: and_then_cases)
  case (Ok eth s1)
  then have s1: "s1 = s" using ref_at_OkD by fastforce
  have mac: "length (cfg_host_mac c) = 6" if "config_slot s = Some c" for c using that assms(2) by (simp add: bpf_wf_def)
  show ?thesis
    using Ok(2) s1 container_ipv4_frame [OF assms(1,2)] process_arp_frame [OF mac]
    by (auto simp: get_endpoint_config_def and_then_def split: option.splits ether_type.splits)
next
  case (Err e)
  with ref_at_same show ?thesis by fastforce
qed

lemma from_host_frame:
  assumes "csum_docs K" "bpf_wf s" "try_from_host K s = (r, s')"
  shows "tables_kept s s' \<and> verdict_kept r s s'"
  using assms(3) unfolding try_from_host_def
proof (cases rule: and_then_cases)
  case (Ok eth s1)
  then have "s1 = s" using ref_at_OkD by fastforce
  with Ok(2) host_ipv4_frame [OF assms(1,2)] show ?thesis by (auto split: option.splits ether_type.splits)
next
  case (Err e)
  with ref_at_same show ?thesis by fastforce
qed

lemma classifier_frame:
  assumes "csum_docs K" "bpf_wf s" "(n, P) \<in> set (classifiers K)" "P s = (r, s')"
  shows "tables_kept s s' \<and> verdict_kept r s s'"
  using assms(3,4) from_container_frame [OF assms(1,2)] from_host_frame [OF assms(1,2)]
  by (auto simp: classifiers_def try_to_container_def try_to_host_def try_from_netdev_def try_to_netdev_def
      try_from_overlay_def try_to_overlay_def try_from_wireguard_def try_to_wireguard_def)

lemma from_container_ipv4:
  assumes "34 \<le> length (skb_data s)" "k_ether_type K (eth_type (skb_data s)) = Some EtIpv4" "config_slot s \<noteq> None"
    "\<not> is_fragmented (slice 14 34 (skb_data s))" "lookup_endpoint (from_ipv4_octets (slice 30 34 (skb_data s))) s = Some ep"
  shows "try_from_container K s = local_delivery K ep (update_metrics K (ucast (skb_len s)) OBS_POINT_CONTAINER_FORWARD s)"
  using assms by (auto simp: try_from_container_def container_process_ipv4_def get_endpoint_config_def ip4_dst_def)

lemma from_host_ipv4:
  assumes "34 \<le> length (skb_data s)" "k_ether_type K (eth_type (skb_data s)) = Some EtIpv4"
    "\<not> is_fragmented (slice 14 34 (skb_data s))" "lookup_endpoint (from_ipv4_octets (slice 30 34 (skb_data s))) s = Some ep"
  shows "try_from_host K s = local_delivery K ep (update_metrics K (ucast (skb_len s)) OBS_POINT_HOST_FORWARD s)"
  using assms by (simp add: try_from_host_def host_process_ipv4_def ip4_dst_def)

section \<open>An environment for examples\<close>

definition ref_csum_replace :: "u8 list \<Rightarrow> nat \<Rightarrow> u64 \<Rightarrow> u64 \<Rightarrow> u64 \<Rightarrow> u8 list option" where
  "ref_csum_replace d off old new n =
     (if n = 2 \<and> off + 2 \<le> length d
      then Some (put off (be_bytes 2 (of_nat ((sum16 (slice off (off + 2) d) + le_field old + 131070 - le_field new) mod 65535) :: u16)) d)
      else None)"

definition sample_kernel :: kernel where
  "sample_kernel =
     \<lparr>k_ether_type = (\<lambda>t. if t = 0x0800 then Some EtIpv4 else if t = 0x0806 then Some EtArp
        else if t = 0x86DD then Some (EtOther t) else None),
      k_l3_csum_replace = ref_csum_replace, k_redirect = (\<lambda>_ _. 7), k_redirect_peer = (\<lambda>_ _. 7), k_metrics_room = True\<rparr>"

lemma sum16_be_bytes: "sum16 (be_bytes 2 (w :: u16)) = unat w"
proof -
  obtain x y where xy: "be_bytes 2 w = [x, y]" by (simp add: numeral_2_eq_2)
  have "w = from_be [x, y]" using from_be_be_bytes [of 2 w] xy by simp
  then show ?thesis using xy by (simp add: unat_from_be2)
qed

lemma sample_csum_docs: "csum_docs sample_kernel"
  unfolding csum_docs_def
proof (intro allI impI)
  fix d off old new d'
  assume a: "k_l3_csum_replace sample_kernel d off old new 2 = Some d'"
  let ?c = "(sum16 (slice off (off + 2) d) + le_field old + 131070 - le_field new) mod 65535"
  have o: "off + 2 \<le> length d" and d': "d' = put off (be_bytes 2 (of_nat ?c :: u16)) d"
    using a by (simp_all add: sample_kernel_def ref_csum_replace_def split: if_splits)
  have "?c < 65535" by simp
  then have u: "unat (of_nat ?c :: u16) = ?c" by (simp add: unat_of_nat)
  have "unat new mod 256 < 256" "unat new div 256 mod 256 < 256" by simp_all
  then have "le_field new \<le> 131070" unfolding le_field_def by linarith
  then have "(sum16 (slice off (off + 2) d) + le_field old + 131070 - le_field new) + le_field new =
      sum16 (slice off (off + 2) d) + le_field old + 2 * 65535" by simp
  then have "(?c + le_field new) mod 65535 = (sum16 (slice off (off + 2) d) + le_field old) mod 65535"
    by (metis mod_add_left_eq mod_mult_self1)
  moreover have "slice off (off + 2) d' = be_bytes 2 (of_nat ?c :: u16)" using o d' by simp
  moreover have "same_except {off..<off + 2} d d'" using o d' same_put [of off "be_bytes 2 (of_nat ?c :: u16)" d] by simp
  ultimately show "off + 2 \<le> length d \<and> same_except {off..<off + 2} d d' \<and>
     (sum16 (slice off (off + 2) d') + le_field new) mod 65535 = (sum16 (slice off (off + 2) d) + le_field old) mod 65535"
    using o u by (simp add: sum16_be_bytes)
qed

lemma sample_csum_works: "26 \<le> n \<Longrightarrow> csum_works sample_kernel n"
  by (simp add: csum_works_def sample_kernel_def ref_csum_replace_def)

text \<open>A packet from 10.0.0.1 to 10.0.0.2 with 64 hops left, and an ARP request for 10.0.0.1.\<close>

definition sample_ipv4 :: "u8 list" where
  "sample_ipv4 =
     [2, 0, 0, 0, 0, 9, 2, 0, 0, 0, 0, 1, 8, 0,
      0x45, 0, 0, 20, 0, 0, 0, 0, 64, 17, 0x66, 0xD7, 10, 0, 0, 1, 10, 0, 0, 2]"

definition sample_arp :: "u8 list" where
  "sample_arp =
     [0xFF, 0xFF, 0xFF, 0xFF, 0xFF, 0xFF, 2, 0, 0, 0, 0, 1, 8, 6,
      0, 1, 8, 0, 6, 4, 0, 1, 2, 0, 0, 0, 0, 1, 10, 0, 0, 5, 0, 0, 0, 0, 0, 0, 10, 0, 0, 1]"

definition sample_info :: endpoint_info where
  "sample_info = \<lparr>info_endpoint_id = 5, info_if_index = 7, info_container_mac = [2, 0, 0, 0, 0, 2], info_host_mac = [2, 0, 0, 0, 0, 3]\<rparr>"

definition sample_state :: "u8 list \<Rightarrow> bpf_state" where
  "sample_state d =
     \<lparr>skb_data = d, skb_len = 34, skb_ifindex = 4,
      lxc_map = (\<lambda>k. if k = key_of_ip (V4 0x0A000002) then Some sample_info else None),
      config_slot = Some \<lparr>cfg_endpoint_id = 4, cfg_host_mac = [2, 0, 0, 0, 0, 9], cfg_ipv4 = Some 0x0A000005, cfg_ipv6 = None\<rparr>,
      metrics_map = (\<lambda>_. None), prog_errors = replicate 16 0, redirects = []\<rparr>"

lemma sample_wf: "bpf_wf (sample_state d)"
  by (auto simp: bpf_wf_def sample_state_def sample_info_def split: if_splits)

section \<open>Properties\<close>

text \<open>C9: a packet for a pod of the node is delivered. An IPv4 packet with hops left, no fragment, whose destination
  has an entry in the endpoint table, whether it comes from a container or from the host, is counted once and
  redirected to the interface of that entry, with the MAC addresses of the entry, one hop less, a header
  checksum that is valid if it was, and no other byte changed.\<close>

theorem local_packet_delivered:
  assumes "csum_docs K" "csum_works K (length (skb_data s))" "bpf_wf s" "config_slot s \<noteq> None"
    "k_ether_type K (eth_type (skb_data s)) = Some EtIpv4" "34 \<le> length (skb_data s)"
    "\<not> is_fragmented (slice 14 34 (skb_data s))" "1 < skb_data s ! 22"
    "lookup_endpoint (from_ipv4_octets (slice 30 34 (skb_data s))) s = Some ep"
    "(P, obs) \<in> {(try_from_container K, OBS_POINT_CONTAINER_FORWARD), (try_from_host K, OBS_POINT_HOST_FORWARD)}"
  shows "\<exists>d'. delivered ep (skb_data s) d' \<and>
    ebpf_dispatch P s = (ucast (k_redirect K (info_if_index ep) 0), (update_metrics K (ucast (skb_len s)) obs s)
      \<lparr>skb_data := d', redirects := redirects s @ [ToInterface (info_if_index ep) 0]\<rparr>)"
proof -
  let ?s = "update_metrics K (ucast (skb_len s)) obs s"
  have mac: "length (info_host_mac ep) = 6" "length (info_container_mac ep) = 6"
    using assms(3,9) by (auto simp: bpf_wf_def lookup_endpoint_def)
  have P: "P s = local_delivery K ep ?s"
    using assms(10) from_container_ipv4 [OF assms(6,5,4,7,9)] from_host_ipv4 [OF assms(6,5,7,9)] by auto
  obtain v s' where d: "local_delivery K ep ?s = (Ok v, s')"
    using local_delivery_total [OF assms(1) _ _ _ mac, of ?s] assms(2,6,8) by auto
  from local_delivery_Ok [OF assms(1) mac d] P d show ?thesis by (auto simp: ebpf_dispatch_def)
qed

theorem local_packet_delivered_witness:
  "\<exists>d'. delivered sample_info sample_ipv4 d' \<and> internet_checksum (slice 14 34 d') = 0 \<and>
    fst (ebpf_dispatch (try_from_host sample_kernel) (sample_state sample_ipv4)) = 7 \<and>
    redirects (snd (ebpf_dispatch (try_from_host sample_kernel) (sample_state sample_ipv4))) = [ToInterface 7 0]"
proof -
  let ?s = "sample_state sample_ipv4"
  have d: "skb_data ?s = sample_ipv4" "redirects ?s = []" "config_slot ?s \<noteq> None" by (simp_all add: sample_state_def)
  have l: "length sample_ipv4 = 34" "sample_ipv4 ! 22 = 64" by (simp_all add: sample_ipv4_def)
  have e: "k_ether_type sample_kernel (eth_type sample_ipv4) = Some EtIpv4" "\<not> is_fragmented (slice 14 34 sample_ipv4)"
    "lookup_endpoint (from_ipv4_octets (slice 30 34 sample_ipv4)) ?s = Some sample_info"
    "internet_checksum (slice 14 34 sample_ipv4) = 0" "info_if_index sample_info = 7" by code_simp+
  have w: "csum_works sample_kernel (length sample_ipv4)" using sample_csum_works l by simp
  have "\<exists>d'. delivered sample_info sample_ipv4 d' \<and>
    ebpf_dispatch (try_from_host sample_kernel) ?s = (ucast (k_redirect sample_kernel 7 0),
      (update_metrics sample_kernel (ucast (skb_len ?s)) OBS_POINT_HOST_FORWARD ?s)\<lparr>skb_data := d', redirects := [ToInterface 7 0]\<rparr>)"
    using local_packet_delivered [of sample_kernel ?s sample_info "try_from_host sample_kernel" OBS_POINT_HOST_FORWARD,
        unfolded d e(5), OF sample_csum_docs w sample_wf] d l e by simp
  then obtain d' where *: "delivered sample_info sample_ipv4 d'"
    "ebpf_dispatch (try_from_host sample_kernel) ?s = (ucast (k_redirect sample_kernel 7 0),
      (update_metrics sample_kernel (ucast (skb_len ?s)) OBS_POINT_HOST_FORWARD ?s)\<lparr>skb_data := d', redirects := [ToInterface 7 0]\<rparr>)"
    by blast
  moreover have "internet_checksum (slice 14 (14 + 20) d') = 0"
    by (rule delivered_checksum [OF *(1)]) (use l e(4) in simp_all)
  ultimately show ?thesis by (intro exI [of _ d']) (simp add: sample_kernel_def)
qed

text \<open>C10: an ARP request of a container, broadcast or sent to the host side of its link, for an address that is not the
  container's own, is answered in place: the frame becomes a reply in which the host's MAC address
  answers for the requested address, addressed to the sender, and is sent back on the same link.\<close>

theorem arp_request_answered:
  assumes "42 \<le> length (skb_data s)" "k_ether_type K (eth_type (skb_data s)) = Some EtArp" "config_slot s = Some c"
    "length (cfg_host_mac c) = 6" "arp_oper (slice 14 42 (skb_data s)) = 1" "arp_htype (slice 14 42 (skb_data s)) = 1"
    "eth_dst (skb_data s) \<in> {replicate 6 0xFF, cfg_host_mac c}"
    "map_option (be_bytes 4) (cfg_ipv4 c) \<noteq> Some (arp_tpa (slice 14 42 (skb_data s)))"
  shows "\<exists>d'. ebpf_dispatch (try_from_container K) s = (ucast (k_redirect_peer K (skb_ifindex s) 0),
      s\<lparr>skb_data := d', redirects := redirects s @ [ToPeer (skb_ifindex s) 0]\<rparr>) \<and>
    same_except ({0..<12} \<union> {20..<42}) (skb_data s) d' \<and>
    eth_dst d' = eth_src (skb_data s) \<and> eth_src d' = cfg_host_mac c \<and>
    arp_oper (slice 14 42 d') = 2 \<and>
    arp_sha (slice 14 42 d') = cfg_host_mac c \<and> arp_spa (slice 14 42 d') = arp_tpa (slice 14 42 (skb_data s)) \<and>
    arp_tha (slice 14 42 d') = eth_src (skb_data s) \<and> arp_tpa (slice 14 42 d') = arp_spa (slice 14 42 (skb_data s))"
proof -
  let ?d = "skb_data s" and ?m = "cfg_host_mac c"
  let ?a = "slice 14 42 ?d" and ?r = "arp_reply ?m ?d"
  have l: "length (eth_src ?d) = 6" "length (eth_dst ?d) = 6" using assms(1) by (simp_all add: eth_src_def eth_dst_def)
  have "eth_is_bcast (eth_dst ?d) \<or> bpf_memcmp (eth_dst ?d) ?m 6 = 0"
    using assms(4,7) l by (auto simp: eth_is_bcast_def ETH_BROADCAST_def bpf_memcmp_eq)
  moreover have "\<not> (case cfg_ipv4 c of Some a \<Rightarrow> arp_tpa ?a = be_bytes 4 a | None \<Rightarrow> False)"
    using assms(8) by (auto split: option.splits)
  moreover have "arp_tpa ?a = slice 38 42 ?d" "arp_spa ?a = slice 28 32 ?d" by (simp_all add: arp_tpa_def arp_spa_def)
  ultimately have "process_arp K c s = (Ok (VRedirect (ucast (k_redirect_peer K (skb_ifindex s) 0))),
      s\<lparr>skb_data := ?r, redirects := redirects s @ [ToPeer (skb_ifindex s) 0]\<rparr>)"
    using assms(1,5,6) write_arp_reply_Ok [OF assms(1,4)]
    by (simp add: process_arp_def Let_def ARPOP_REQUEST_def ARPHRD_ETHER_def ctx_redirect_peer_def)
  then have "ebpf_dispatch (try_from_container K) s = (ucast (k_redirect_peer K (skb_ifindex s) 0),
      s\<lparr>skb_data := ?r, redirects := redirects s @ [ToPeer (skb_ifindex s) 0]\<rparr>)"
    using assms(1-3) by (simp add: try_from_container_def get_endpoint_config_def ebpf_dispatch_def)
  moreover have "same_except ({0..<12} \<union> {20..<42}) ?d ?r"
    using assms(1,4) l by (auto simp: same_except_def arp_reply_def nth_put)
  moreover have "eth_dst ?r = eth_src ?d" "eth_src ?r = ?m" "arp_oper (slice 14 42 ?r) = 2" "arp_sha (slice 14 42 ?r) = ?m"
    "arp_spa (slice 14 42 ?r) = arp_tpa ?a" "arp_tha (slice 14 42 ?r) = eth_src ?d" "arp_tpa (slice 14 42 ?r) = arp_spa ?a"
    using assms(1,4) l
    by (simp_all add: arp_reply_def eth_dst_def [of "put _ _ _"] eth_src_def [of "put _ _ _"] arp_oper_def arp_sha_def arp_spa_def
        arp_tpa_def arp_tha_def from_be_def)
  ultimately show ?thesis by blast
qed

theorem arp_request_answered_witness:
  "\<exists>d'. skb_data (snd (ebpf_dispatch (try_from_container sample_kernel) (sample_state sample_arp))) = d' \<and>
    arp_oper (slice 14 42 d') = 2 \<and> arp_spa (slice 14 42 d') = [10, 0, 0, 1] \<and> eth_dst d' = [2, 0, 0, 0, 0, 1]"
proof -
  let ?s = "sample_state sample_arp"
  let ?c = "\<lparr>cfg_endpoint_id = 4, cfg_host_mac = [2, 0, 0, 0, 0, 9], cfg_ipv4 = Some 0x0A000005, cfg_ipv6 = None\<rparr>"
  have d: "skb_data ?s = sample_arp" "config_slot ?s = Some ?c" by (simp_all add: sample_state_def)
  have e: "k_ether_type sample_kernel (eth_type sample_arp) = Some EtArp"
    "arp_oper (slice 14 42 sample_arp) = 1" "arp_htype (slice 14 42 sample_arp) = 1"
    "eth_dst sample_arp = replicate 6 0xFF" "arp_tpa (slice 14 42 sample_arp) = [10, 0, 0, 1]"
    "eth_src sample_arp = [2, 0, 0, 0, 0, 1]" "be_bytes 4 (0x0A000005 :: u32) = [10, 0, 0, 5]" by code_simp+
  have l: "42 \<le> length sample_arp" by (simp add: sample_arp_def)
  obtain d' where "snd (ebpf_dispatch (try_from_container sample_kernel) ?s) =
        ?s\<lparr>skb_data := d', redirects := redirects ?s @ [ToPeer (skb_ifindex ?s) 0]\<rparr>"
      "arp_oper (slice 14 42 d') = 2" "arp_spa (slice 14 42 d') = [10, 0, 0, 1]" "eth_dst d' = [2, 0, 0, 0, 0, 1]"
    using arp_request_answered [of ?s sample_kernel ?c, unfolded d e] l e(7) by auto
  then show ?thesis by simp
qed

text \<open>C11: what the programs leave alone. For each of the ten programs and every packet, a packet that is passed, handed
  on or dropped by verdict is not changed and not redirected, a failing program redirects nothing, a redirected packet is sent
  to one place; the tables, the length of the packet and the well-formedness of the maps are kept.\<close>

theorem classifiers_preserve:
  assumes "csum_docs K" "bpf_wf s" "(n, P) \<in> set (classifiers K)" "ebpf_dispatch P s = (code, s')"
  shows "bpf_wf s' \<and> lxc_map s' = lxc_map s \<and> config_slot s' = config_slot s \<and> length (skb_data s') = length (skb_data s) \<and>
    (case fst (P s) of
       Ok (VRedirect c) \<Rightarrow> code = c \<and> (\<exists>r. redirects s' = redirects s @ [r])
     | Ok v \<Rightarrow> code = verdict_code v \<and> skb_data s' = skb_data s \<and> redirects s' = redirects s
     | Err e \<Rightarrow> code = verdict_code (error_verdict e) \<and> redirects s' = redirects s)"
proof -
  obtain r s1 where P: "P s = (r, s1)" by fastforce
  note f = classifier_frame [OF assms(1-3) P]
  have "bpf_wf s1" using f bpf_wf_kept assms(2) by blast
  then have "bpf_wf s'" using assms(4) P bpf_wf_counted by (auto simp: ebpf_dispatch_def split: result.splits if_splits)
  then show ?thesis using f assms(4) P
    by (cases "(r, s, s1)" rule: verdict_kept.cases) (auto simp: ebpf_dispatch_def tables_kept_def split: if_splits)
qed

theorem classifiers_preserve_witness:
  "bpf_wf (snd (ebpf_dispatch (try_from_container sample_kernel) (sample_state sample_ipv4)))"
  using classifiers_preserve [OF sample_csum_docs sample_wf _ prod.collapse [symmetric], of "''from_container''"
      "try_from_container sample_kernel" sample_ipv4]
  by (simp add: classifiers_def)

text \<open>A packet that runs out of hops is dropped and counted as an error, and yet the metrics count it as
  forwarded.\<close>

lemma expired_packet_counted_as_forwarded:
  assumes "bpf_wf s" "config_slot s \<noteq> None"
    "k_ether_type K (eth_type (skb_data s)) = Some EtIpv4" "34 \<le> length (skb_data s)"
    "\<not> is_fragmented (slice 14 34 (skb_data s))" "skb_data s ! 22 \<le> 1"
    "lookup_endpoint (from_ipv4_octets (slice 30 34 (skb_data s))) s = Some ep"
    "(P, obs) \<in> {(try_from_container K, OBS_POINT_CONTAINER_FORWARD), (try_from_host K, OBS_POINT_HOST_FORWARD)}"
  shows "ebpf_dispatch P s = (verdict_code VDrop, (update_metrics K (ucast (skb_len s)) obs s)
      \<lparr>prog_errors := (prog_errors s)[5 := prog_errors s ! 5 + 1]\<rparr>)"
proof -
  let ?s = "update_metrics K (ucast (skb_len s)) obs s"
  have P: "P s = local_delivery K ep ?s"
    using assms(8) from_container_ipv4 [OF assms(4,3,2,5,7)] from_host_ipv4 [OF assms(4,3,5,7)] by auto
  have "ip4_ttl (slice 14 34 (skb_data s)) = skb_data s ! 22" using assms(4) by (simp add: ip4_ttl_def)
  then have "local_delivery K ep ?s = (Err TtlExceeded, ?s)"
    using assms(4,6) by (simp add: local_delivery_def ipv4_dec_ttl_def)
  moreover have "prog_errors ?s = prog_errors s" using update_metrics_frame(4) [of s K _ obs s] by (simp add: tables_kept_def)
  ultimately show ?thesis using P assms(1) by (simp add: ebpf_dispatch_def bpf_wf_def)
qed

lemma expired_packet_counted_as_forwarded_witness:
  "fst (ebpf_dispatch (try_from_host sample_kernel) (sample_state (sample_ipv4[22 := 1]))) = 2 \<and>
   metrics_map (snd (ebpf_dispatch (try_from_host sample_kernel) (sample_state (sample_ipv4[22 := 1])))) 1 =
     Some \<lparr>mv_packets = 1, mv_bytes = 34\<rparr>"
proof -
  let ?d = "sample_ipv4[22 := 1]"
  let ?s = "sample_state ?d"
  have d: "skb_data ?s = ?d" "config_slot ?s \<noteq> None" by (simp_all add: sample_state_def)
  have l: "34 \<le> length ?d" "?d ! 22 \<le> 1" by (simp_all add: sample_ipv4_def)
  have e: "k_ether_type sample_kernel (eth_type ?d) = Some EtIpv4" "\<not> is_fragmented (slice 14 34 ?d)"
    "lookup_endpoint (from_ipv4_octets (slice 30 34 ?d)) ?s = Some sample_info" by code_simp+
  have "ebpf_dispatch (try_from_host sample_kernel) ?s = (verdict_code VDrop,
      (update_metrics sample_kernel (ucast (skb_len ?s)) OBS_POINT_HOST_FORWARD ?s)\<lparr>prog_errors := (prog_errors ?s)[5 := prog_errors ?s ! 5 + 1]\<rparr>)"
    using expired_packet_counted_as_forwarded [of ?s sample_kernel sample_info "try_from_host sample_kernel", OF sample_wf d(2)] d l e
    by simp
  then show ?thesis by (simp add: update_metrics_def OBS_POINT_HOST_FORWARD_def sample_state_def sample_kernel_def)
qed

end
