(* ===== verification/Bpffs.thy ===== *)
theory Bpffs
  imports Dataplane_Types "HOL-Library.Sublist"
begin

text \<open>
  The file system \<open>bpffs\<close> in which the loader pins maps and links: a tree of directories and pinned objects, the calls
  of \<open>std::fs\<close> the sources use on it, and \<open>walk_dir\<close> of \<open>sarena-data-plane/src/loader/aya_backend.rs\<close>. Paths are their
  components, symbolic links are not modelled. Any call may fail at any time (\<open>fs_faults\<close>), a recursive one half way.
  Shown: the tree stays a tree; \<open>walk_dir\<close> finds exactly the pins below a directory.
\<close>

section \<open>The file system\<close>

datatype bpf_object = MapObj nat | LinkObj nat

datatype node = DirNode | PinNode bpf_object

type_synonym path = "component list"

datatype io_error = IoNotFound | IoError string

datatype fs_call = FsRemoveFile path | FsRemoveDirAll path | FsCreateDirAll path | FsReadDir path

record 'k world =
  w_tree :: "(path \<times> node) list"
  w_clock :: nat
  w_kern :: 'k

definition node_at :: "'k world \<Rightarrow> path \<Rightarrow> node option" where
  "node_at w p = map_of (w_tree w) p"

text \<open>A fault of a call at a time: its message, and the entries a recursive call dealt with before it.\<close>

type_synonym fs_faults = "nat \<Rightarrow> fs_call \<Rightarrow> (string \<times> path list) option"

definition w_tick :: "'k world \<Rightarrow> 'k world" where
  "w_tick w = w\<lparr>w_clock := Suc (w_clock w)\<rparr>"

definition fs_remove_file :: "fs_faults \<Rightarrow> path \<Rightarrow> 'k world \<Rightarrow> (unit, io_error) result \<times> 'k world" where
  "fs_remove_file F p w =
     (case F (w_clock w) (FsRemoveFile p) of
        Some (e, _) \<Rightarrow> (Err (IoError e), w_tick w)
      | None \<Rightarrow>
          (case node_at w p of
             None \<Rightarrow> (Err IoNotFound, w_tick w)
           | Some DirNode \<Rightarrow> (Err (IoError ''Is a directory''), w_tick w)
           | Some (PinNode _) \<Rightarrow> (Ok (), w_tick (w\<lparr>w_tree := filter (\<lambda>(q, _). q \<noteq> p) (w_tree w)\<rparr>))))"

text \<open>Removing bottom up: an entry goes when all below it has gone.\<close>

definition remove_some :: "path list \<Rightarrow> path \<Rightarrow> (path \<times> node) list \<Rightarrow> (path \<times> node) list" where
  "remove_some ps p t =
     filter (\<lambda>(q, _). \<not> (prefix p q \<and> (\<forall>q' \<in> fst ` set t. prefix q q' \<longrightarrow> q' \<in> set ps))) t"

definition fs_remove_dir_all :: "fs_faults \<Rightarrow> path \<Rightarrow> 'k world \<Rightarrow> (unit, io_error) result \<times> 'k world" where
  "fs_remove_dir_all F p w =
     (case F (w_clock w) (FsRemoveDirAll p) of
        Some (e, ps) \<Rightarrow> (Err (IoError e),
          w_tick (if node_at w p = Some DirNode then w\<lparr>w_tree := remove_some ps p (w_tree w)\<rparr> else w))
      | None \<Rightarrow>
          (case node_at w p of
             None \<Rightarrow> (Err IoNotFound, w_tick w)
           | Some (PinNode _) \<Rightarrow> (Err (IoError ''Not a directory''), w_tick w)
           | Some DirNode \<Rightarrow> (Ok (), w_tick (w\<lparr>w_tree := filter (\<lambda>(q, _). \<not> prefix p q) (w_tree w)\<rparr>))))"

fun make_dirs :: "path list \<Rightarrow> (path \<times> node) list \<Rightarrow> bool \<times> (path \<times> node) list" where
  "make_dirs [] t = (True, t)"
| "make_dirs (p # ps) t =
     (case map_of t p of
        None \<Rightarrow> make_dirs ps ((p, DirNode) # t)
      | Some DirNode \<Rightarrow> make_dirs ps t
      | Some (PinNode _) \<Rightarrow> (False, t))"

definition fs_create_dir_all :: "fs_faults \<Rightarrow> path \<Rightarrow> 'k world \<Rightarrow> (unit, io_error) result \<times> 'k world" where
  "fs_create_dir_all F p w =
     (case F (w_clock w) (FsCreateDirAll p) of
        Some (e, ps) \<Rightarrow> (Err (IoError e),
          w_tick (w\<lparr>w_tree := snd (make_dirs (takeWhile (\<lambda>q. q \<in> set ps) (tl (prefixes p))) (w_tree w))\<rparr>))
      | None \<Rightarrow>
          (case make_dirs (tl (prefixes p)) (w_tree w) of (ok, t) \<Rightarrow>
             (if ok then Ok () else Err (IoError ''Not a directory''), w_tick (w\<lparr>w_tree := t\<rparr>))))"

definition entries_of :: "'k world \<Rightarrow> path \<Rightarrow> path list" where
  "entries_of w p = filter (\<lambda>q. q \<noteq> [] \<and> butlast q = p) (remdups (map fst (w_tree w)))"

definition strip_path :: "path \<Rightarrow> path \<Rightarrow> path option" where
  "strip_path p q = (if prefix p q then Some (drop (length p) q) else None)"

section \<open>Listing\<close>

text \<open>A loop that stops at the first error.\<close>

fun try_fold :: "('a \<Rightarrow> 's \<Rightarrow> ('s, 'e) result) \<Rightarrow> 'a list \<Rightarrow> 's \<Rightarrow> ('s, 'e) result" where
  "try_fold f [] s = Ok s"
| "try_fold f (x # xs) s = (case f x s of Err e \<Rightarrow> Err e | Ok s \<Rightarrow> try_fold f xs s)"

lemma try_fold_cong [fundef_cong]:
  assumes "xs = ys" "s = s'" "\<And>x s. x \<in> set ys \<Longrightarrow> f x s = g x s"
  shows "try_fold f xs s = try_fold g ys s'"
  using assms(3) unfolding assms(1,2) by (induction ys arbitrary: s') (auto split: result.splits)

text \<open>\<open>walk_dir\<close>; what lies below shrinks at each level.\<close>

definition below :: "'k world \<Rightarrow> path \<Rightarrow> path set" where
  "below w p = {q \<in> fst ` set (w_tree w). strict_prefix p q}"

lemma entries_below: "c \<in> set (entries_of w dir) \<Longrightarrow> c \<in> below w dir"
proof -
  assume "c \<in> set (entries_of w dir)"
  then have c: "c \<noteq> []" "dir = butlast c" "c \<in> fst ` set (w_tree w)" by (auto simp: entries_of_def)
  have "strict_prefix (butlast c) (butlast c @ [last c])" by (simp add: strict_prefix_def)
  with c show ?thesis by (simp add: below_def)
qed

lemma below_entry: "c \<in> set (entries_of w dir) \<Longrightarrow> card (below w c) < card (below w dir)"
proof (rule psubset_card_mono)
  assume "c \<in> set (entries_of w dir)"
  then have c: "c \<in> below w dir" by (rule entries_below)
  then have "below w c \<subseteq> below w dir" by (auto simp: below_def)
  moreover have "c \<notin> below w c" by (simp add: below_def)
  ultimately show "below w c \<subset> below w dir" using c by blast
qed (simp add: below_def)

function walk_dir :: "fs_faults \<Rightarrow> 'k world \<Rightarrow> path \<Rightarrow> path \<Rightarrow> path list \<Rightarrow> (path list, string) result" where
  "walk_dir F w dir pre out =
     (if node_at w dir \<noteq> Some DirNode then Ok out
      else case F (w_clock w) (FsReadDir dir) of
             Some (e, _) \<Rightarrow> Err e
           | None \<Rightarrow>
               try_fold (\<lambda>c out.
                 if node_at w c = Some DirNode then walk_dir F w c pre out
                 else (case strip_path pre c of Some rel \<Rightarrow> Ok (out @ [rel]) | None \<Rightarrow> Ok out))
                 (entries_of w dir) out)"
  by pat_completeness auto
termination
  by (relation "measure (\<lambda>(F, w, dir, pre, out). card (below w dir))") (auto simp: below_entry)

declare walk_dir.simps [simp del]

section \<open>Trees\<close>

text \<open>The directories of a tree: what is above an entry is a directory.\<close>

definition tree_ok :: "'k world \<Rightarrow> bool" where
  "tree_ok w \<longleftrightarrow> (\<forall>p q. node_at w q \<noteq> None \<longrightarrow> strict_prefix p q \<longrightarrow> p \<noteq> [] \<longrightarrow> node_at w p = Some DirNode)"

text \<open>What is pinned where.\<close>

definition pin_at :: "'k world \<Rightarrow> path \<Rightarrow> bpf_object option" where
  "pin_at w p = (case node_at w p of Some (PinNode obj) \<Rightarrow> Some obj | _ \<Rightarrow> None)"

section \<open>What the calls do\<close>

lemma node_at_simps [simp]:
  "node_at (w\<lparr>w_kern := k\<rparr>) = node_at w" "node_at (w_tick w) = node_at w" "w_kern (w_tick w) = w_kern w"
  by (simp_all add: node_at_def w_tick_def fun_eq_iff)

lemma map_of_filter_key: "map_of (filter (\<lambda>(q, _). P q) t) = (\<lambda>q. if P q then map_of t q else None)"
  by (induction t) (auto simp: fun_eq_iff)

lemma tree_okD: "tree_ok w \<Longrightarrow> node_at w q \<noteq> None \<Longrightarrow> strict_prefix p q \<Longrightarrow> p \<noteq> [] \<Longrightarrow> node_at w p = Some DirNode"
  by (simp add: tree_ok_def)

lemma tree_ok_cong: "node_at w' = node_at w \<Longrightarrow> tree_ok w' = tree_ok w"
  by (simp add: tree_ok_def)

lemma remove_file_effect:
  assumes "fs_remove_file F p w = (r, w')"
  shows "w_kern w' = w_kern w \<and> (r = Err IoNotFound \<longrightarrow> node_at w p = None) \<and>
    (if r = Ok () then (\<exists>obj. node_at w p = Some (PinNode obj)) \<and> node_at w' = (node_at w)(p := None) else node_at w' = node_at w)"
proof -
  have "node_at (w\<lparr>w_tree := filter (\<lambda>(q, _). q \<noteq> p) (w_tree w)\<rparr>) = (node_at w)(p := None)"
    by (auto simp: node_at_def map_of_filter_key fun_eq_iff)
  with assms show ?thesis
    by (auto simp: fs_remove_file_def split: option.splits node.splits)
qed

lemma remove_file_tree:
  assumes "tree_ok w" "fs_remove_file F p w = (r, w')"
  shows "tree_ok w'"
proof (cases "r = Ok ()")
  case True
  then have r: "\<exists>obj. node_at w p = Some (PinNode obj)" "node_at w' = (node_at w)(p := None)"
    using remove_file_effect [OF assms(2)] by simp_all
  have "node_at w' p' = Some DirNode" if "node_at w' q \<noteq> None" "strict_prefix p' q" "p' \<noteq> []" for p' q
    using tree_okD [OF assms(1) _ that(2,3)] that(1) r by (auto split: if_splits)
  then show ?thesis unfolding tree_ok_def by blast
next
  case False
  with remove_file_effect [OF assms(2)] assms(1) show ?thesis by (simp add: tree_ok_def)
qed

lemma remove_some_at:
  "map_of (remove_some ps p t) q = (if prefix p q \<and> (\<forall>q' \<in> dom (map_of t). prefix q q' \<longrightarrow> q' \<in> set ps) then None else map_of t q)"
  unfolding remove_some_def map_of_filter_key dom_map_of_conv_image_fst by auto

lemma remove_dir_all_effect:
  assumes "fs_remove_dir_all F p w = (r, w')"
  shows "w_kern w' = w_kern w \<and> (\<forall>q. \<not> prefix p q \<longrightarrow> node_at w' q = node_at w q) \<and>
    (\<forall>q. node_at w' q = node_at w q \<or> node_at w' q = None) \<and> (r = Ok () \<longrightarrow> (\<forall>q. prefix p q \<longrightarrow> node_at w' q = None)) \<and>
    (r = Err IoNotFound \<longrightarrow> node_at w p = None \<and> node_at w' = node_at w)"
  using assms
  by (auto simp: fs_remove_dir_all_def node_at_def [abs_def] w_tick_def map_of_filter_key remove_some_at split: option.splits node.splits if_splits)

lemma remove_dir_all_tree:
  assumes "tree_ok w" "fs_remove_dir_all F p w = (r, w')"
  shows "tree_ok w'"
proof -
  have "node_at w' q \<noteq> None \<Longrightarrow> strict_prefix q' q \<Longrightarrow> node_at w' q' = node_at w q' \<and> node_at w q \<noteq> None" for q q'
  proof -
    assume q: "node_at w' q \<noteq> None" "strict_prefix q' q"
    have "prefix p q' \<Longrightarrow> prefix p q" using q(2) by (meson prefix_order.order_trans strict_prefixE)
    moreover have "prefix q x \<Longrightarrow> prefix q' x" for x using q(2) by (meson prefix_order.order_trans strict_prefixE)
    ultimately show ?thesis using assms(2) q(1)
      by (auto simp: fs_remove_dir_all_def node_at_def [abs_def] w_tick_def map_of_filter_key remove_some_at Ball_def
          split: option.splits node.splits if_splits) blast
  qed
  with assms(1) show ?thesis unfolding tree_ok_def by metis
qed

lemma make_dirs_effect:
  assumes "make_dirs ps t = (ok, t')"
  shows "(\<forall>q. map_of t q \<noteq> None \<longrightarrow> map_of t' q = map_of t q) \<and>
    (\<forall>q. map_of t q = None \<longrightarrow> map_of t' q \<noteq> None \<longrightarrow> map_of t' q = Some DirNode \<and> q \<in> set ps) \<and>
    (ok \<longrightarrow> (\<forall>q \<in> set ps. map_of t' q = Some DirNode))"
  using assms
proof (induction ps arbitrary: t)
  case (Cons p ps)
  show ?case
  proof (cases "map_of t p")
    case None
    with Cons.IH [of "(p, DirNode) # t"] Cons.prems show ?thesis by (auto split: if_splits)
  next
    case (Some n)
    with Cons.IH [of t] Cons.prems show ?thesis by (cases n) auto
  qed
qed simp

definition tree_dirs :: "(path \<times> node) list \<Rightarrow> bool" where
  "tree_dirs t \<longleftrightarrow> (\<forall>p q. map_of t q \<noteq> None \<longrightarrow> strict_prefix p q \<longrightarrow> p \<noteq> [] \<longrightarrow> map_of t p = Some DirNode)"

lemma make_dirs_tree:
  assumes "tree_dirs t" "sorted_wrt strict_prefix ps"
    "\<forall>q \<in> set ps. \<forall>p. strict_prefix p q \<longrightarrow> p \<noteq> [] \<longrightarrow> p \<in> set ps \<or> map_of t p = Some DirNode"
  shows "tree_dirs (snd (make_dirs ps t))"
  using assms
proof (induction ps arbitrary: t)
  case (Cons p ps)
  have up: "map_of t q = Some DirNode" if "strict_prefix q p" "q \<noteq> []" for q
    using Cons.prems(2,3) that by (auto dest: prefix_order.less_trans)
  have rest: "\<forall>q \<in> set ps. \<forall>p'. strict_prefix p' q \<longrightarrow> p' \<noteq> [] \<longrightarrow> p' \<in> set ps \<or> map_of t p' = Some DirNode \<or> p' = p"
    using Cons.prems(3) by auto
  show ?case
  proof (cases "map_of t p")
    case None
    have "tree_dirs ((p, DirNode) # t)" using Cons.prems(1) up by (auto simp: tree_dirs_def)
    moreover have "\<forall>q \<in> set ps. \<forall>p'. strict_prefix p' q \<longrightarrow> p' \<noteq> [] \<longrightarrow> p' \<in> set ps \<or> map_of ((p, DirNode) # t) p' = Some DirNode"
      using rest by auto
    ultimately show ?thesis using Cons.IH [of "(p, DirNode) # t"] Cons.prems(2) None by simp
  next
    case (Some n)
    show ?thesis
    proof (cases n)
      case DirNode
      have "\<forall>q \<in> set ps. \<forall>p'. strict_prefix p' q \<longrightarrow> p' \<noteq> [] \<longrightarrow> p' \<in> set ps \<or> map_of t p' = Some DirNode"
        using rest Some DirNode by auto
      with Cons.IH [OF Cons.prems(1)] Cons.prems(2) Some DirNode show ?thesis by simp
    qed (use Some Cons.prems(1) in simp)
  qed
qed simp

lemma sorted_prefixes: "sorted_wrt strict_prefix (prefixes p)"
  by (induction p) (auto simp: sorted_wrt_map)

lemma takeWhile_below:
  "sorted_wrt strict_prefix ps \<Longrightarrow> q \<in> set (takeWhile P ps) \<Longrightarrow> p \<in> set ps \<Longrightarrow> strict_prefix p q \<Longrightarrow> p \<in> set (takeWhile P ps)"
  by (induction ps) (auto split: if_splits dest: set_takeWhileD prefix_order.less_asym)

lemma tl_prefixes: "set (tl (prefixes p)) = {q. prefix q p \<and> q \<noteq> []}" "sorted_wrt strict_prefix (tl (prefixes p))"
proof -
  obtain ps where p: "prefixes p = [] # ps" by (cases p) auto
  then have s: "sorted_wrt strict_prefix ([] # ps)" using sorted_prefixes [of p] by simp
  then have "[] \<notin> set ps" by auto
  moreover have "set ([] # ps) = {q. prefix q p}" using p in_set_prefixes [of _ p] by auto
  ultimately show "set (tl (prefixes p)) = {q. prefix q p \<and> q \<noteq> []}" unfolding p by auto
  from s show "sorted_wrt strict_prefix (tl (prefixes p))" unfolding p by simp
qed

lemma create_dir_all_effect:
  assumes "tree_ok w" "fs_create_dir_all F p w = (r, w')"
  shows "tree_ok w' \<and> w_kern w' = w_kern w \<and> (\<forall>q. node_at w q \<noteq> None \<longrightarrow> node_at w' q = node_at w q) \<and>
    (\<forall>q. node_at w q = None \<longrightarrow> node_at w' q \<noteq> None \<longrightarrow> node_at w' q = Some DirNode \<and> prefix q p) \<and>
    (r = Ok () \<longrightarrow> (\<forall>q. prefix q p \<longrightarrow> q \<noteq> [] \<longrightarrow> node_at w' q = Some DirNode))"
proof -
  let ?ps = "tl (prefixes p)"
  have td: "tree_dirs (w_tree w)" using assms(1) by (simp add: tree_dirs_def tree_ok_def node_at_def)
  define qs where "qs = (case F (w_clock w) (FsCreateDirAll p) of Some (e, ps) \<Rightarrow> takeWhile (\<lambda>q. q \<in> set ps) ?ps | None \<Rightarrow> ?ps)"
  have "\<exists>n. qs = take n ?ps"
    by (cases "F (w_clock w) (FsCreateDirAll p)") (auto simp: qs_def intro: takeWhile_eq_take exI [of _ "length ?ps"])
  then have sub: "set qs \<subseteq> set ?ps" "sorted_wrt strict_prefix qs"
    using tl_prefixes(2) [of p] by (auto simp: sorted_wrt_take dest: in_set_takeD)
  have cl: "\<forall>q \<in> set qs. \<forall>p'. strict_prefix p' q \<longrightarrow> p' \<noteq> [] \<longrightarrow> p' \<in> set qs \<or> map_of (w_tree w) p' = Some DirNode"
  proof (intro ballI allI impI)
    fix q p' assume q: "q \<in> set qs" "strict_prefix p' q" "p' \<noteq> []"
    then have "prefix q p" using sub(1) by (auto simp: tl_prefixes)
    then have "p' \<in> set ?ps" using q by (auto simp: tl_prefixes strict_prefix_def)
    with q takeWhile_below [OF tl_prefixes(2) _ this] show "p' \<in> set qs \<or> map_of (w_tree w) p' = Some DirNode"
      by (auto simp: qs_def split: option.splits)
  qed
  obtain ok t where m: "make_dirs qs (w_tree w) = (ok, t)" by fastforce
  have w': "w' = w_tick (w\<lparr>w_tree := t\<rparr>)" "r = Ok () \<longrightarrow> ok \<and> qs = ?ps"
    using assms(2) m by (auto simp: fs_create_dir_all_def qs_def split: option.splits prod.splits if_splits)
  have "tree_dirs t" using make_dirs_tree [OF td sub(2) cl] m by simp
  moreover have n: "node_at w' = map_of t" "w_kern w' = w_kern w" "node_at w = map_of (w_tree w)"
    by (simp_all add: w' node_at_def fun_eq_iff)
  ultimately have tr: "tree_ok w'" by (simp add: tree_ok_def tree_dirs_def)
  note eff = make_dirs_effect [OF m, folded n(1,3)]
  have "\<forall>q. node_at w q = None \<longrightarrow> node_at w' q \<noteq> None \<longrightarrow> node_at w' q = Some DirNode \<and> prefix q p"
    using conjunct1 [OF conjunct2 [OF eff]] sub(1) tl_prefixes(1) [of p] by blast
  moreover have "node_at w' q = Some DirNode" if "r = Ok ()" "prefix q p" "q \<noteq> []" for q
    using conjunct2 [OF conjunct2 [OF eff]] that w'(2) by (simp add: tl_prefixes)
  ultimately show ?thesis using tr n(2) conjunct1 [OF eff] by blast
qed

lemma pin_at_Some: "pin_at w p = Some obj \<longleftrightarrow> node_at w p = Some (PinNode obj)"
  by (auto simp: pin_at_def split: option.splits node.splits)

text \<open>\<open>walk_dir\<close> finds the pins below a directory.\<close>

definition found :: "'k world \<Rightarrow> path \<Rightarrow> path set" where
  "found w dir = {q. strict_prefix dir q \<and> pin_at w q \<noteq> None}"

lemma node_at_keys: "node_at w q \<noteq> None \<longleftrightarrow> q \<in> fst ` set (w_tree w)"
  by (auto simp: node_at_def map_of_eq_None_iff)

lemma in_entries: "c \<in> set (entries_of w dir) \<longleftrightarrow> node_at w c \<noteq> None \<and> c \<noteq> [] \<and> butlast c = dir"
  unfolding node_at_keys by (auto simp: entries_of_def)

lemma found_step:
  assumes "tree_ok w" "q \<in> found w dir"
  obtains c where "c \<in> set (entries_of w dir)" "node_at w c = Some DirNode \<and> q \<in> found w c \<or> node_at w c \<noteq> Some DirNode \<and> q = c"
proof -
  obtain x ys where q: "q = dir @ x # ys"
    using assms(2) by (auto simp: found_def elim!: strict_prefixE')
  let ?c = "dir @ [x]"
  have n: "node_at w q \<noteq> None" "\<exists>obj. node_at w q = Some (PinNode obj)" using assms(2) by (auto simp: found_def pin_at_Some)
  show ?thesis
  proof (cases ys)
    case Nil
    with q n that [of ?c] show ?thesis by (auto simp: in_entries)
  next
    case (Cons y zs)
    then have s: "strict_prefix ?c q" unfolding q by (simp add: strict_prefix_def)
    with tree_okD [OF assms(1) n(1) s] n(2) that [of ?c] show ?thesis by (auto simp: in_entries found_def pin_at_Some)
  qed
qed

lemma found_entry:
  assumes "c \<in> set (entries_of w dir)"
  shows "(if node_at w c = Some DirNode then found w c else {c}) \<subseteq> found w dir"
proof -
  have s: "strict_prefix dir c" using entries_below [OF assms] by (simp add: below_def)
  have "\<exists>obj. node_at w c = Some (PinNode obj)" if "node_at w c \<noteq> Some DirNode"
    using assms that by (cases "node_at w c"; cases "the (node_at w c)") (auto simp: in_entries)
  with s show ?thesis by (auto simp: found_def pin_at_Some)
qed

lemma walk_dir_found:
  assumes "tree_ok w" "dir \<noteq> []" "prefix pre dir" "walk_dir F w dir pre out = Ok res"
  shows "set res = set out \<union> drop (length pre) ` found w dir"
  using assms
proof (induction F w dir pre out arbitrary: res rule: walk_dir.induct)
  case (1 F w dir pre out)
  show ?case
  proof (cases "node_at w dir = Some DirNode")
    case False
    have "found w dir = {}" using tree_okD [OF 1(2) _ _ 1(3)] False by (auto simp: found_def pin_at_Some)
    with 1(5) False show ?thesis by (simp add: walk_dir.simps)
  next
    case True
    let ?f = "\<lambda>c out. if node_at w c = Some DirNode then walk_dir F w c pre out
                 else (case strip_path pre c of Some rel \<Rightarrow> Ok (out @ [rel]) | None \<Rightarrow> Ok out)"
    have nf: "F (w_clock w) (FsReadDir dir) = None" and tf: "try_fold ?f (entries_of w dir) out = Ok res"
      using 1(5) True by (auto simp: walk_dir.simps [of F w dir] split: option.splits)
    have one: "set o2 = set o1 \<union> drop (length pre) ` (if node_at w c = Some DirNode then found w c else {c})"
      if c: "c \<in> set (entries_of w dir)" and o: "?f c o1 = Ok o2" for c o1 o2
    proof -
      have p: "prefix pre c" "c \<noteq> []"
        using entries_below [OF c] 1(4) by (auto simp: below_def strict_prefix_def)
      show ?thesis
      proof (cases "node_at w c = Some DirNode")
        case t: True
        from 1(1) [OF _ nf c t 1(2) p(2,1), of o1 o2] True o t show ?thesis by simp
      next
        case False
        with o p show ?thesis by (auto simp: strip_path_def)
      qed
    qed
    have "set o2 = set o1 \<union> (\<Union>c \<in> set cs. drop (length pre) ` (if node_at w c = Some DirNode then found w c else {c}))"
      if "set cs \<subseteq> set (entries_of w dir)" "try_fold ?f cs o1 = Ok o2" for cs o1 o2
      using that
    proof (induction cs arbitrary: o1)
      case (Cons c cs)
      obtain o3 where o3: "?f c o1 = Ok o3" "try_fold ?f cs o3 = Ok o2"
        using Cons.prems(2) by (cases "?f c o1") simp_all
      from one [OF _ o3(1)] Cons.IH [OF _ o3(2)] Cons.prems(1) show ?case by auto
    qed simp
    from this [OF subset_refl tf] have "set res = set out \<union>
        drop (length pre) ` (\<Union>c \<in> set (entries_of w dir). if node_at w c = Some DirNode then found w c else {c})"
      unfolding image_UN .
    moreover have "(\<Union>c \<in> set (entries_of w dir). if node_at w c = Some DirNode then found w c else {c}) = found w dir"
    proof (intro subset_antisym subsetI)
      fix q assume "q \<in> found w dir"
      then obtain c where c: "c \<in> set (entries_of w dir)"
          "node_at w c = Some DirNode \<and> q \<in> found w c \<or> node_at w c \<noteq> Some DirNode \<and> q = c"
        by (rule found_step [OF 1(2)])
      then show "q \<in> (\<Union>c \<in> set (entries_of w dir). if node_at w c = Some DirNode then found w c else {c})"
        by (intro UN_I [of c]) auto
    qed (use found_entry in fastforce)
    ultimately show ?thesis by simp
  qed
qed

lemma pin_at_cong: "node_at w' = node_at w \<Longrightarrow> pin_at w' = pin_at w"
  by (simp add: pin_at_def fun_eq_iff)

lemma pin_at_upd: "node_at w' = (node_at w)(p := x) \<Longrightarrow> pin_at w' = (pin_at w)(p := (case x of Some (PinNode obj) \<Rightarrow> Some obj | _ \<Rightarrow> None))"
  by (simp add: pin_at_def fun_eq_iff)

lemma remove_file_pins:
  "fs_remove_file F p w = (r, w') \<Longrightarrow> pin_at w' = (if r = Ok () then (pin_at w)(p := None) else pin_at w)"
  using remove_file_effect [of F p w r w'] pin_at_upd [of w' w p None] pin_at_cong [of w' w] by (auto split: if_splits)

lemma create_dir_pins:
  assumes "tree_ok w" "fs_create_dir_all F p w = (r, w')"
  shows "pin_at w' = pin_at w"
proof
  fix q
  show "pin_at w' q = pin_at w q"
    using create_dir_all_effect [OF assms] by (cases "node_at w q"; cases "node_at w' q") (force simp: pin_at_def)+
qed

end
