(* ===== verification/Aya_Backend.thy ===== *)
theory Aya_Backend
  imports Loader Ebpf Network Bpffs
begin

text \<open>
  The backend of the loader on a real kernel: \<open>sarena-data-plane/src/loader/aya_backend.rs\<close>, the wrappers of pinned
  maps (\<open>sarena-data-plane/src/maps\<close>) and the attachment of classifiers to interfaces (\<open>sarena-infra/src/tcx.rs\<close>). The
  calls into the crate aya, the kernel and netlink are the record \<open>A\<close> over a kernel state \<open>'k\<close>; what is relied on of
  them are the predicates \<open>load_docs\<close>, \<open>tcx_docs\<close>, \<open>map_docs\<close> and \<open>link_docs\<close>. Log threads are the set of links that
  have one; what they print is not modelled, nor is the closing of descriptors. \<open>SchedClassifier::info\<close>, whose error
  the code unwraps, answers after a load. Shown here: the counters of the metrics saturate.
\<close>

section \<open>The calls into the kernel\<close>

datatype prog_type = SchedClassifier | OtherProgram

datatype bpf_errno = ErrNoEnt | ErrNoLink | ErrOther string

datatype log_error = LogMapNotFound | LogOther string

datatype map_error = KeyNotFound | MapErr string

datatype map_type = HashMapT | ArrayT | PerCpuHashT

record metrics_key =
  mk_obs_point :: u8
  mk_pad :: "u8 list"

record ('k, 'i) aya =
  a_fs_fails :: fs_faults
  a_infra_str :: "infra_error \<Rightarrow> string"
  a_runtime :: "'k \<Rightarrow> (unit, string) result"
  a_get_link :: "string \<Rightarrow> 'k \<Rightarrow> (link, infra_error) result"
  a_load :: "string \<Rightarrow> (string \<times> string) list \<Rightarrow> 'k world \<Rightarrow> ('i, string) result \<times> 'k world"
  a_map :: "'i \<Rightarrow> string \<Rightarrow> bool"
  a_logger_init :: "'i \<Rightarrow> 'k \<Rightarrow> (unit, log_error) result \<times> 'k"
  a_program :: "'i \<Rightarrow> string \<Rightarrow> prog_type option"
  a_prog_load :: "'i \<Rightarrow> string \<Rightarrow> 'k \<Rightarrow> (unit, string) result \<times> 'k"
  a_prog_name :: "'i \<Rightarrow> string \<Rightarrow> 'k \<Rightarrow> string option"
  a_link_from_pin :: "string \<Rightarrow> 'k world \<Rightarrow> (nat, bpf_errno) result"
  a_link_id :: "nat \<Rightarrow> 'k \<Rightarrow> (u32, string) result"
  a_as_classifier_link :: "nat \<Rightarrow> 'k \<Rightarrow> (unit, string) result"
  a_as_fd_link :: "nat \<Rightarrow> 'k \<Rightarrow> (unit, string) result"
  a_attach_to_link :: "'i \<Rightarrow> string \<Rightarrow> nat \<Rightarrow> 'k \<Rightarrow> (nat, bpf_errno) result \<times> 'k"
  a_attach :: "'i \<Rightarrow> string \<Rightarrow> string \<Rightarrow> hook \<Rightarrow> 'k \<Rightarrow> (nat, string) result \<times> 'k"
  a_take_link :: "'i \<Rightarrow> string \<Rightarrow> nat \<Rightarrow> 'k \<Rightarrow> (nat, string) result \<times> 'k"
  a_pin_link :: "nat \<Rightarrow> string \<Rightarrow> 'k world \<Rightarrow> (unit, string) result \<times> 'k world"
  a_unpin_link :: "nat \<Rightarrow> string \<Rightarrow> 'k world \<Rightarrow> (unit, string) result \<times> 'k world"
  a_query_tcx :: "string \<Rightarrow> hook \<Rightarrow> 'k \<Rightarrow> (string option list, string) result"
  a_map_from_pin :: "string \<Rightarrow> 'k world \<Rightarrow> (nat, string) result"
  a_map_data :: "nat \<Rightarrow> 'k \<Rightarrow> (unit, string) result"
  a_try_from :: "map_type \<Rightarrow> nat \<Rightarrow> 'k \<Rightarrow> (unit, string) result"
  a_lxc_insert :: "nat \<Rightarrow> endpoint_key \<Rightarrow> endpoint_info \<Rightarrow> 'k \<Rightarrow> (unit, string) result \<times> 'k"
  a_lxc_remove :: "nat \<Rightarrow> endpoint_key \<Rightarrow> 'k \<Rightarrow> (unit, map_error) result \<times> 'k"
  a_lxc_get :: "nat \<Rightarrow> endpoint_key \<Rightarrow> 'k \<Rightarrow> (endpoint_info, map_error) result"
  a_lxc_iter :: "nat \<Rightarrow> 'k \<Rightarrow> (endpoint_key \<times> endpoint_info, string) result list"
  a_config_set :: "nat \<Rightarrow> u32 \<Rightarrow> endpoint_config \<Rightarrow> 'k \<Rightarrow> (unit, string) result \<times> 'k"
  a_config_get :: "nat \<Rightarrow> u32 \<Rightarrow> 'k \<Rightarrow> (endpoint_config, string) result"
  a_calls_set :: "nat \<Rightarrow> u32 \<Rightarrow> u32 \<Rightarrow> 'k \<Rightarrow> (unit, string) result \<times> 'k"
  a_calls_get :: "nat \<Rightarrow> u32 \<Rightarrow> 'k \<Rightarrow> (u32, string) result"
  a_metrics_iter :: "nat \<Rightarrow> 'k \<Rightarrow> (metrics_key \<times> metrics_value list, string) result list"
  a_metrics_keys :: "nat \<Rightarrow> 'k \<Rightarrow> (metrics_key, string) result list"
  a_metrics_remove :: "nat \<Rightarrow> metrics_key \<Rightarrow> 'k \<Rightarrow> (unit, map_error) result \<times> 'k"

section \<open>Pinned maps\<close>

text \<open>\<open>from_pin\<close>, the same in the four wrappers.\<close>

definition open_map :: "('k, 'i) aya \<Rightarrow> map_type \<Rightarrow> string \<Rightarrow> string \<Rightarrow> 'k world \<Rightarrow> (nat, dp_error) result" where
  "open_map A ty name path w =
     (case a_map_from_pin A path w of
        Err e \<Rightarrow> Err (MapOpen path e)
      | Ok m \<Rightarrow>
          (case a_map_data A m (w_kern w) of
             Err e \<Rightarrow> Err (MapAccess name e)
           | Ok _ \<Rightarrow>
               (case a_try_from A ty m (w_kern w) of
                  Err e \<Rightarrow> Err (MapAccess name e)
                | Ok _ \<Rightarrow> Ok m)))"

definition lxc_open :: "('k, 'i) aya \<Rightarrow> string \<Rightarrow> 'k world \<Rightarrow> (nat, dp_error) result" where
  "lxc_open A root = open_map A HashMapT (global_wire_name LxcMap) (global_map_dir root LxcMap)"

fun lxc_insert_all ::
  "('k, 'i) aya \<Rightarrow> nat \<Rightarrow> endpoint_info \<Rightarrow> ip_addr list \<Rightarrow> 'k \<Rightarrow> (unit, dp_error) result \<times> 'k" where
  "lxc_insert_all A m info [] k = (Ok (), k)"
| "lxc_insert_all A m info (ip # xs) k =
     (case a_lxc_insert A m (key_of_ip ip) info k of
        (Err e, k) \<Rightarrow> (Err (MapAccess (global_wire_name LxcMap) e), k)
      | (Ok _, k) \<Rightarrow> lxc_insert_all A m info xs k)"

definition lxc_upsert_endpoint ::
  "('k, 'i) aya \<Rightarrow> nat \<Rightarrow> endpoint_persist \<Rightarrow> endpoint_info \<Rightarrow> 'k \<Rightarrow> (unit, dp_error) result \<times> 'k" where
  "lxc_upsert_endpoint A m ep info = lxc_insert_all A m info (ips (ep_spec ep))"

definition lxc_remove_key :: "('k, 'i) aya \<Rightarrow> nat \<Rightarrow> endpoint_key \<Rightarrow> 'k \<Rightarrow> (unit, dp_error) result \<times> 'k" where
  "lxc_remove_key A m key k =
     (case a_lxc_remove A m key k of
        (Ok _, k) \<Rightarrow> (Ok (), k)
      | (Err KeyNotFound, k) \<Rightarrow> (Ok (), k)
      | (Err (MapErr e), k) \<Rightarrow> (Err (MapAccess (global_wire_name LxcMap) e), k))"

definition lxc_remove_endpoint ::
  "('k, 'i) aya \<Rightarrow> nat \<Rightarrow> endpoint_persist \<Rightarrow> 'k \<Rightarrow> (unit, dp_error) result \<times> 'k" where
  "lxc_remove_endpoint A m ep = try_each (\<lambda>ip. lxc_remove_key A m (key_of_ip ip)) (ips (ep_spec ep))"

definition lxc_remove_endpoint_by_ip :: "('k, 'i) aya \<Rightarrow> nat \<Rightarrow> ip_addr \<Rightarrow> 'k \<Rightarrow> (unit, dp_error) result \<times> 'k" where
  "lxc_remove_endpoint_by_ip A m ip = lxc_remove_key A m (key_of_ip ip)"

definition lxc_get_endpoint ::
  "('k, 'i) aya \<Rightarrow> nat \<Rightarrow> ip_addr \<Rightarrow> 'k \<Rightarrow> (endpoint_info option, dp_error) result" where
  "lxc_get_endpoint A m ip k =
     (case a_lxc_get A m (key_of_ip ip) k of
        Ok info \<Rightarrow> Ok (Some info)
      | Err KeyNotFound \<Rightarrow> Ok None
      | Err (MapErr e) \<Rightarrow> Err (MapAccess (global_wire_name LxcMap) e))"

text \<open>Collecting into a hash map: a later entry for an address replaces an earlier one.\<close>

fun lxc_collect ::
  "(endpoint_key \<times> endpoint_info, string) result list \<Rightarrow> (ip_addr \<times> endpoint_info) list \<Rightarrow>
     ((ip_addr \<times> endpoint_info) list, dp_error) result" where
  "lxc_collect [] al = Ok al"
| "lxc_collect (Err e # rs) al = Err (MapAccess (global_wire_name LxcMap) e)"
| "lxc_collect (Ok (key, info) # rs) al =
     (case ip_of_key key of
        Err e \<Rightarrow> Err (MapAccess (global_wire_name LxcMap) e)
      | Ok ip \<Rightarrow> lxc_collect rs (AList.update ip info al))"

definition lxc_endpoints :: "('k, 'i) aya \<Rightarrow> nat \<Rightarrow> 'k \<Rightarrow> ((ip_addr \<times> endpoint_info) list, dp_error) result" where
  "lxc_endpoints A m k = lxc_collect (a_lxc_iter A m k) []"

definition config_for_link :: "('k, 'i) aya \<Rightarrow> string \<Rightarrow> string \<Rightarrow> 'k world \<Rightarrow> (nat, dp_error) result" where
  "config_for_link A root lk =
     open_map A ArrayT (endpoint_wire_name EndpointConfigMap) (per_endpoint_map_dir root EndpointConfigMap lk)"

definition config_set :: "('k, 'i) aya \<Rightarrow> nat \<Rightarrow> endpoint_config \<Rightarrow> 'k \<Rightarrow> (unit, dp_error) result \<times> 'k" where
  "config_set A m c k =
     (case a_config_set A m 0 c k of (r, k) \<Rightarrow> (map_err (MapAccess (endpoint_wire_name EndpointConfigMap)) r, k))"

definition config_get :: "('k, 'i) aya \<Rightarrow> nat \<Rightarrow> 'k \<Rightarrow> (endpoint_config, dp_error) result" where
  "config_get A m k = map_err (MapAccess (endpoint_wire_name EndpointConfigMap)) (a_config_get A m 0 k)"

definition calls_for_link :: "('k, 'i) aya \<Rightarrow> string \<Rightarrow> string \<Rightarrow> 'k world \<Rightarrow> (nat, dp_error) result" where
  "calls_for_link A root lk =
     open_map A ArrayT (endpoint_wire_name CallsMap) (per_endpoint_map_dir root CallsMap lk)"

definition calls_set :: "('k, 'i) aya \<Rightarrow> nat \<Rightarrow> u32 \<Rightarrow> u32 \<Rightarrow> 'k \<Rightarrow> (unit, dp_error) result \<times> 'k" where
  "calls_set A m i v k =
     (case a_calls_set A m i v k of (r, k) \<Rightarrow> (map_err (MapAccess (endpoint_wire_name CallsMap)) r, k))"

definition calls_get :: "('k, 'i) aya \<Rightarrow> nat \<Rightarrow> u32 \<Rightarrow> 'k \<Rightarrow> (u32, dp_error) result" where
  "calls_get A m i k = map_err (MapAccess (endpoint_wire_name CallsMap)) (a_calls_get A m i k)"

definition metrics_open :: "('k, 'i) aya \<Rightarrow> string \<Rightarrow> 'k world \<Rightarrow> (nat, dp_error) result" where
  "metrics_open A root = open_map A PerCpuHashT (global_wire_name MetricsMap) (global_map_dir root MetricsMap)"

definition saturating_add :: "u64 \<Rightarrow> u64 \<Rightarrow> u64" where
  "saturating_add a b = (if unat a + unat b < 2 ^ 64 then a + b else - 1)"

definition metrics_sum :: "metrics_value list \<Rightarrow> metrics_value" where
  "metrics_sum vs =
     fold (\<lambda>cpu acc. \<lparr>mv_packets = saturating_add (mv_packets acc) (mv_packets cpu),
                      mv_bytes = saturating_add (mv_bytes acc) (mv_bytes cpu)\<rparr>) vs \<lparr>mv_packets = 0, mv_bytes = 0\<rparr>"

definition metrics_entries ::
  "('k, 'i) aya \<Rightarrow> nat \<Rightarrow> 'k \<Rightarrow> (metrics_key \<times> metrics_value, dp_error) result list" where
  "metrics_entries A m k =
     map (\<lambda>res. case res of
            Err e \<Rightarrow> Err (MapAccess (global_wire_name MetricsMap) e)
          | Ok (key, per_cpu) \<Rightarrow> Ok (key, metrics_sum per_cpu)) (a_metrics_iter A m k)"

fun collect_results :: "('a, 'e) result list \<Rightarrow> ('a list, 'e) result" where
  "collect_results [] = Ok []"
| "collect_results (Err e # rs) = Err e"
| "collect_results (Ok x # rs) = (case collect_results rs of Err e \<Rightarrow> Err e | Ok xs \<Rightarrow> Ok (x # xs))"

definition metrics_remove :: "('k, 'i) aya \<Rightarrow> nat \<Rightarrow> metrics_key \<Rightarrow> 'k \<Rightarrow> (unit, dp_error) result \<times> 'k" where
  "metrics_remove A m key k =
     (case a_metrics_remove A m key k of
        (Err (MapErr e), k) \<Rightarrow> (Err (MapAccess (global_wire_name MetricsMap) e), k)
      | (_, k) \<Rightarrow> (Ok (), k))"

definition metrics_clear :: "('k, 'i) aya \<Rightarrow> nat \<Rightarrow> 'k \<Rightarrow> (unit, dp_error) result \<times> 'k" where
  "metrics_clear A m k =
     (case collect_results (a_metrics_keys A m k) of
        Err e \<Rightarrow> (Err (MapAccess (global_wire_name MetricsMap) e), k)
      | Ok ks \<Rightarrow> try_each (metrics_remove A m) ks k)"

section \<open>Attaching classifiers\<close>

definition update_link ::
  "('k, 'i) aya \<Rightarrow> string \<Rightarrow> 'i \<Rightarrow> string \<Rightarrow> 'k world \<Rightarrow> (u32, infra_error) result \<times> 'k world" where
  "update_link A pin i prog w =
     (case a_link_from_pin A pin w of
        Err ErrNoEnt \<Rightarrow> (Err (NotExist pin), w)
      | Err ErrNoLink \<Rightarrow> (Err (LinkError ''ENOLINK''), w)
      | Err (ErrOther e) \<Rightarrow> (Err (LinkError e), w)
      | Ok l \<Rightarrow>
          (case a_link_id A l (w_kern w) of
             Err e \<Rightarrow> (Err (LinkError e), w)
           | Ok lid \<Rightarrow>
               (case a_as_classifier_link A l (w_kern w) of
                  Err e \<Rightarrow> (Err (LinkError e), w)
                | Ok _ \<Rightarrow>
                    (case a_attach_to_link A i prog l (w_kern w) of
                       (Err ErrNoLink, k) \<Rightarrow> (Err (NoLink pin), w\<lparr>w_kern := k\<rparr>)
                     | (Err ErrNoEnt, k) \<Rightarrow> (Err (InfraProgramError ''ENOENT''), w\<lparr>w_kern := k\<rparr>)
                     | (Err (ErrOther e), k) \<Rightarrow> (Err (InfraProgramError e), w\<lparr>w_kern := k\<rparr>)
                     | (Ok n, k) \<Rightarrow>
                         (case a_take_link A i prog n k of
                            (Err e, k) \<Rightarrow> (Err (InfraProgramError e), w\<lparr>w_kern := k\<rparr>)
                          | (Ok _, k) \<Rightarrow> (Ok lid, w\<lparr>w_kern := k\<rparr>))))))"

definition update_tcx ::
  "('k, 'i) aya \<Rightarrow> 'i \<Rightarrow> string \<Rightarrow> string \<Rightarrow> string \<Rightarrow> 'k world \<Rightarrow> (pinned_tcx_program, infra_error) result \<times> 'k world" where
  "update_tcx A i prog prog_name dir w =
     (let pin = path_join dir prog_name
      in case update_link A pin i prog w of
           (Ok lid, w) \<Rightarrow> (Ok \<lparr>pt_name = prog_name, pt_link_id = lid\<rparr>, w)
         | (Err (NoLink _), w) \<Rightarrow>
             (case fs_remove_file (a_fs_fails A) (components pin) w of
                (Err _, w) \<Rightarrow> (Err (InfraIo (''unpinning defunct link '' @ pin)), w)
              | (Ok _, w) \<Rightarrow> (Err (NotExist pin), w))
         | (Err e, w) \<Rightarrow> (Err e, w))"

definition attach_tcx ::
  "('k, 'i) aya \<Rightarrow> string \<Rightarrow> 'i \<Rightarrow> string \<Rightarrow> string \<Rightarrow> string \<Rightarrow> hook \<Rightarrow> 'k world \<Rightarrow>
     (pinned_tcx_program, infra_error) result \<times> 'k world" where
  "attach_tcx A ifname i prog prog_name dir h w =
     (case fs_create_dir_all (a_fs_fails A) (components dir) w of
        (Err _, w) \<Rightarrow> (Err (InfraIo (''creating bpffs link dir for tcx attachment to device '' @ dir)), w)
      | (Ok _, w) \<Rightarrow>
          (case a_attach A i prog ifname h (w_kern w) of
             (Err e, k) \<Rightarrow> (Err (InfraProgramError e), w\<lparr>w_kern := k\<rparr>)
           | (Ok n, k) \<Rightarrow>
               (case a_take_link A i prog n k of
                  (Err e, k) \<Rightarrow> (Err (InfraProgramError e), w\<lparr>w_kern := k\<rparr>)
                | (Ok l, k) \<Rightarrow>
                    (case a_as_fd_link A l k of
                       Err e \<Rightarrow> (Err (LinkError e), w\<lparr>w_kern := k\<rparr>)
                     | Ok _ \<Rightarrow>
                         (case a_link_id A l k of
                            Err e \<Rightarrow> (Err (LinkError e), w\<lparr>w_kern := k\<rparr>)
                          | Ok lid \<Rightarrow>
                              (case a_pin_link A l (path_join dir prog_name) (w\<lparr>w_kern := k\<rparr>) of
                                 (Err e, w) \<Rightarrow> (Err (PinError e), w)
                               | (Ok _, w) \<Rightarrow> (Ok \<lparr>pt_name = prog_name, pt_link_id = lid\<rparr>, w)))))))"

definition upsert_tcx ::
  "('k, 'i) aya \<Rightarrow> string \<Rightarrow> 'i \<Rightarrow> string \<Rightarrow> string \<Rightarrow> hook \<Rightarrow> 'k world \<Rightarrow>
     (pinned_tcx_program, infra_error) result \<times> 'k world" where
  "upsert_tcx A ifname i prog dir h w =
     (let prog_name = (case a_prog_name A i prog (w_kern w) of Some n \<Rightarrow> n | None \<Rightarrow> ''[unknown]'')
      in case update_tcx A i prog prog_name dir w of
           (Ok p, w) \<Rightarrow> (Ok p, w)
         | (Err (NotExist _), w) \<Rightarrow> attach_tcx A ifname i prog prog_name dir h w
         | (Err e, w) \<Rightarrow> (Err e, w))"

text \<open>Nothing is attached to a link in another namespace.\<close>

definition upsert_tcx_program ::
  "('k, 'i) aya \<Rightarrow> string option \<Rightarrow> string \<Rightarrow> 'i \<Rightarrow> string \<Rightarrow> string \<Rightarrow> hook \<Rightarrow> 'k world \<Rightarrow>
     (pinned_tcx_program, infra_error) result \<times> 'k world" where
  "upsert_tcx_program A netns ifname i prog dir h w =
     (case netns of
        Some ns \<Rightarrow> (Err (TcxRequiresLocalLink ifname ns), w)
      | None \<Rightarrow> upsert_tcx A ifname i prog dir h w)"

definition has_tcx :: "('k, 'i) aya \<Rightarrow> string \<Rightarrow> string \<Rightarrow> hook \<Rightarrow> 'k world \<Rightarrow> (bool, infra_error) result" where
  "has_tcx A ifname prog h w =
     (case a_query_tcx A ifname h (w_kern w) of
        Err e \<Rightarrow> Err (InfraProgramError e)
      | Ok names \<Rightarrow> Ok (Some prog \<in> set names))"

definition unpin_link :: "('k, 'i) aya \<Rightarrow> string \<Rightarrow> 'k world \<Rightarrow> (unit, infra_error) result \<times> 'k world" where
  "unpin_link A pin w =
     (case a_link_from_pin A pin w of
        Err e \<Rightarrow> (Err (LinkError (case e of ErrOther m \<Rightarrow> m | ErrNoEnt \<Rightarrow> ''ENOENT'' | ErrNoLink \<Rightarrow> ''ENOLINK'')),
                  snd (fs_remove_file (a_fs_fails A) (components pin) w))
      | Ok l \<Rightarrow>
          (case a_unpin_link A l pin w of
             (Err _, w) \<Rightarrow> (Err (InfraIo (''unpin link '' @ pin)), w)
           | (Ok _, w) \<Rightarrow> (Ok (), w)))"

definition detach_tcx_program :: "('k, 'i) aya \<Rightarrow> string \<Rightarrow> string \<Rightarrow> 'k world \<Rightarrow> (unit, infra_error) result \<times> 'k world" where
  "detach_tcx_program A dir prog_name w = unpin_link A (path_join dir prog_name) w"

section \<open>The backend\<close>

record 'k aya_backend =
  ab_world :: "'k world"
  ab_loggers :: "string list"

definition sched_classifier :: "('k, 'i) aya \<Rightarrow> 'i \<Rightarrow> string \<Rightarrow> (unit, dp_error) result" where
  "sched_classifier A i name =
     (case a_program A i name of
        None \<Rightarrow> Err (ProgramNotFound name)
      | Some OtherProgram \<Rightarrow> Err (ProgramLoad name ''program section exists but is not a SchedClassifier (tc) program'')
      | Some SchedClassifier \<Rightarrow> Ok ())"

definition load_with_pins ::
  "('k, 'i) aya \<Rightarrow> string \<Rightarrow> (string \<times> string) list \<Rightarrow> 'k aya_backend \<Rightarrow> ('i, dp_error) result \<times> 'k aya_backend" where
  "load_with_pins A root maps b =
     (case a_load A (globals_dir root) maps (ab_world b) of
        (Err e, w) \<Rightarrow> (Err (ObjectLoad e), b\<lparr>ab_world := w\<rparr>)
      | (Ok i, w) \<Rightarrow>
          (case List.find (\<lambda>(name, _). \<not> a_map A i name) maps of
             Some (name, _) \<Rightarrow> (Err (MapNotFound name), b\<lparr>ab_world := w\<rparr>)
           | None \<Rightarrow> (Ok i, b\<lparr>ab_world := w\<rparr>)))"

definition aya_stop_logging :: "string \<Rightarrow> 'k aya_backend \<Rightarrow> 'k aya_backend" where
  "aya_stop_logging lk b = b\<lparr>ab_loggers := filter (\<lambda>x. x \<noteq> lk) (ab_loggers b)\<rparr>"

definition aya_stop_all_logging :: "'k aya_backend \<Rightarrow> 'k aya_backend" where
  "aya_stop_all_logging b = b\<lparr>ab_loggers := []\<rparr>"

definition start_logging :: "('k, 'i) aya \<Rightarrow> string \<Rightarrow> 'i \<Rightarrow> 'k aya_backend \<Rightarrow> 'k aya_backend" where
  "start_logging A lk i b =
     (let b = aya_stop_logging lk b
      in case a_logger_init A i (w_kern (ab_world b)) of
           (Err _, k) \<Rightarrow> b\<lparr>ab_world := (ab_world b)\<lparr>w_kern := k\<rparr>\<rparr>
         | (Ok _, k) \<Rightarrow> b\<lparr>ab_world := (ab_world b)\<lparr>w_kern := k\<rparr>, ab_loggers := lk # ab_loggers b\<rparr>)"

definition aya_resolve_link :: "('k, 'i) aya \<Rightarrow> string \<Rightarrow> 'k aya_backend \<Rightarrow> (link, dp_error) result \<times> 'k aya_backend" where
  "aya_resolve_link A lk b =
     (case a_runtime A (w_kern (ab_world b)) of
        Err e \<Rightarrow> (Err (LinkResolve lk (''failed to build link-resolution runtime: '' @ e)), b)
      | Ok _ \<Rightarrow>
          (case a_get_link A lk (w_kern (ab_world b)) of
             Err e \<Rightarrow> (Err (LinkResolve lk (a_infra_str A e)), b)
           | Ok l \<Rightarrow> (Ok l, b)))"

definition aya_load_instance ::
  "('k, 'i) aya \<Rightarrow> string \<Rightarrow> string \<Rightarrow> (string \<times> string) list \<Rightarrow> 'k aya_backend \<Rightarrow> ('i, dp_error) result \<times> 'k aya_backend" where
  "aya_load_instance A root lk maps b =
     (case load_with_pins A root maps b of
        (Err e, b) \<Rightarrow> (Err e, b)
      | (Ok i, b) \<Rightarrow> (Ok i, start_logging A lk i b))"

text \<open>The links of \<open>get_link\<close> are in the namespace of the caller.\<close>

definition aya_ensure_attached ::
  "('k, 'i) aya \<Rightarrow> 'i \<Rightarrow> string \<Rightarrow> hook \<Rightarrow> link \<Rightarrow> string \<Rightarrow> 'k aya_backend \<Rightarrow> (unit, dp_error) result \<times> 'k aya_backend" where
  "aya_ensure_attached A i prog h lk dir b =
     (case sched_classifier A i prog of
        Err e \<Rightarrow> (Err e, b)
      | Ok _ \<Rightarrow>
          (case a_prog_load A i prog (w_kern (ab_world b)) of
             (Err e, k) \<Rightarrow> (Err (ProgramLoad prog e), b\<lparr>ab_world := (ab_world b)\<lparr>w_kern := k\<rparr>\<rparr>)
           | (Ok _, k) \<Rightarrow>
               (case upsert_tcx_program A None (link_ifname lk) i prog dir h ((ab_world b)\<lparr>w_kern := k\<rparr>) of
                  (Err e, w) \<Rightarrow> (Err (AttachError prog (link_ifname lk) (a_infra_str A e)), b\<lparr>ab_world := w\<rparr>)
                | (Ok _, w) \<Rightarrow> (Ok (), b\<lparr>ab_world := w\<rparr>))))"

text \<open>Removal is idempotent: what is not there is gone.\<close>

definition gone_is_ok :: "string \<Rightarrow> (unit, io_error) result \<times> 'k world \<Rightarrow> 'k aya_backend \<Rightarrow> (unit, dp_error) result \<times> 'k aya_backend" where
  "gone_is_ok p rw b =
     (case rw of
        (Ok _, w) \<Rightarrow> (Ok (), b\<lparr>ab_world := w\<rparr>)
      | (Err IoNotFound, w) \<Rightarrow> (Ok (), b\<lparr>ab_world := w\<rparr>)
      | (Err (IoError e), w) \<Rightarrow> (Err (UnpinError p e), b\<lparr>ab_world := w\<rparr>))"

definition aya_unpin_map :: "('k, 'i) aya \<Rightarrow> string \<Rightarrow> 'k aya_backend \<Rightarrow> (unit, dp_error) result \<times> 'k aya_backend" where
  "aya_unpin_map A p b = gone_is_ok p (fs_remove_file (a_fs_fails A) (components p) (ab_world b)) b"

definition aya_remove_pin_dir :: "('k, 'i) aya \<Rightarrow> string \<Rightarrow> 'k aya_backend \<Rightarrow> (unit, dp_error) result \<times> 'k aya_backend" where
  "aya_remove_pin_dir A p b = gone_is_ok p (fs_remove_dir_all (a_fs_fails A) (components p) (ab_world b)) b"

definition aya_list_pins :: "('k, 'i) aya \<Rightarrow> string \<Rightarrow> 'k aya_backend \<Rightarrow> (path list, dp_error) result" where
  "aya_list_pins A pre b =
     map_err (ListPins pre) (walk_dir (a_fs_fails A) (ab_world b) (components pre) (components pre) [])"

definition on_kern :: "'k aya_backend \<Rightarrow> 'r \<times> 'k \<Rightarrow> 'r \<times> 'k aya_backend" where
  "on_kern b rk = (case rk of (r, k) \<Rightarrow> (r, b\<lparr>ab_world := (ab_world b)\<lparr>w_kern := k\<rparr>\<rparr>))"

definition aya_set_endpoint_config ::
  "('k, 'i) aya \<Rightarrow> string \<Rightarrow> string \<Rightarrow> endpoint_config \<Rightarrow> 'k aya_backend \<Rightarrow> (unit, dp_error) result \<times> 'k aya_backend" where
  "aya_set_endpoint_config A root lk c b =
     (case config_for_link A root lk (ab_world b) of
        Err e \<Rightarrow> (Err e, b)
      | Ok m \<Rightarrow> on_kern b (config_set A m c (w_kern (ab_world b))))"

definition aya_upsert_endpoint_info ::
  "('k, 'i) aya \<Rightarrow> string \<Rightarrow> endpoint_persist \<Rightarrow> endpoint_info \<Rightarrow> 'k aya_backend \<Rightarrow> (unit, dp_error) result \<times> 'k aya_backend" where
  "aya_upsert_endpoint_info A root ep info b =
     (case lxc_open A root (ab_world b) of
        Err e \<Rightarrow> (Err e, b)
      | Ok m \<Rightarrow> on_kern b (lxc_upsert_endpoint A m ep info (w_kern (ab_world b))))"

definition aya_remove_endpoint_info ::
  "('k, 'i) aya \<Rightarrow> string \<Rightarrow> ip_addr \<Rightarrow> 'k aya_backend \<Rightarrow> (unit, dp_error) result \<times> 'k aya_backend" where
  "aya_remove_endpoint_info A root ip b =
     (case lxc_open A root (ab_world b) of
        Err e \<Rightarrow> (Err e, b)
      | Ok m \<Rightarrow> on_kern b (lxc_remove_endpoint_by_ip A m ip (w_kern (ab_world b))))"

definition aya_list_endpoint_infos ::
  "('k, 'i) aya \<Rightarrow> string \<Rightarrow> 'k aya_backend \<Rightarrow> ((ip_addr \<times> endpoint_info) list, dp_error) result" where
  "aya_list_endpoint_infos A root b =
     (case lxc_open A root (ab_world b) of
        Err e \<Rightarrow> Err e
      | Ok m \<Rightarrow> lxc_endpoints A m (w_kern (ab_world b)))"

definition aya_ops :: "('k, 'i) aya \<Rightarrow> string \<Rightarrow> ('k aya_backend, 'i) backend_ops" where
  "aya_ops A root =
     \<lparr>b_resolve_link = aya_resolve_link A,
      b_load_global_maps = load_with_pins A root,
      b_load_instance = aya_load_instance A root,
      b_ensure_attached = aya_ensure_attached A,
      b_unpin_map = aya_unpin_map A,
      b_remove_pin_dir = aya_remove_pin_dir A,
      b_list_pins = aya_list_pins A,
      b_set_endpoint_config = aya_set_endpoint_config A root,
      b_upsert_endpoint_info = aya_upsert_endpoint_info A root,
      b_remove_endpoint_info = aya_remove_endpoint_info A root,
      b_list_endpoint_infos = aya_list_endpoint_infos A root,
      b_stop_logging = aya_stop_logging,
      b_stop_all_logging = aya_stop_all_logging\<rparr>"

section \<open>What is relied on\<close>

type_synonym 'k tables = "'k \<Rightarrow> nat \<Rightarrow> endpoint_key \<Rightarrow> endpoint_info option"

type_synonym 'k runs = "'k \<Rightarrow> nat \<Rightarrow> (string \<times> string \<times> hook) option"

text \<open>Loading an object: maps that are pinned at the given paths are used as they are; others are created empty and pinned at
  these paths or in the directory of the global maps; nothing else changes. \<open>tab\<close> is the content of the endpoint
  tables by the kernel's id, \<open>run\<close> says which program a link runs on which interface and hook.\<close>

definition load_docs :: "('k, 'i) aya \<Rightarrow> 'k tables \<Rightarrow> 'k runs \<Rightarrow> bool" where
  "load_docs A tab run \<longleftrightarrow>
     (\<forall>g maps w r w'. a_load A g maps w = (r, w') \<longrightarrow>
        (tree_ok w \<longrightarrow> tree_ok w') \<and>
        (\<forall>p. if node_at w p \<noteq> None \<or> \<not> prefix (components g) p \<and> p \<notin> components ` snd ` set maps
              then node_at w' p = node_at w p
              else \<forall>obj. node_at w' p = Some (PinNode obj) \<longrightarrow> (\<exists>m. obj = MapObj m \<and> tab (w_kern w') m = Map.empty)) \<and>
        (\<forall>p m. node_at w p = Some (PinNode (MapObj m)) \<longrightarrow> tab (w_kern w') m = tab (w_kern w) m) \<and>
        run (w_kern w') = run (w_kern w)) \<and>
     (\<forall>i k r k'. a_logger_init A i k = (r, k') \<longrightarrow> tab k' = tab k \<and> run k' = run k)"

text \<open>Programs and links. The kernel keeps at most 15 characters of a program's name. Updating a link replaces its program
  where it is attached, unless its interface is gone; a new link runs the program on the interface and hook it was
  made for and is not any link there was; pinning needs a free name.\<close>

definition tcx_docs :: "('k, 'i) aya \<Rightarrow> 'k tables \<Rightarrow> 'k runs \<Rightarrow> bool" where
  "tcx_docs A tab run \<longleftrightarrow>
     (\<forall>i prog k r k'. a_prog_load A i prog k = (r, k') \<longrightarrow> tab k' = tab k \<and> run k' = run k) \<and>
     (\<forall>i prog k. prog \<noteq> [] \<longrightarrow> a_prog_name A i prog k = Some (take 15 prog)) \<and>
     (\<forall>path w l. a_link_from_pin A path w = Ok l \<longrightarrow> node_at w (components path) = Some (PinNode (LinkObj l))) \<and>
     (\<forall>i prog l k r k'. a_attach_to_link A i prog l k = (r, k') \<longrightarrow> tab k' = tab k \<and>
        (case r of Ok _ \<Rightarrow> \<exists>old ifn h. run k l = Some (old, ifn, h) \<and> run k' = (run k)(l \<mapsto> (prog, ifn, h))
         | Err _ \<Rightarrow> run k' = run k)) \<and>
     (\<forall>i prog ifn h k n k1 l k2. a_attach A i prog ifn h k = (Ok n, k1) \<longrightarrow> a_take_link A i prog n k1 = (Ok l, k2) \<longrightarrow>
        run k l = None \<and> run k2 l = Some (prog, ifn, h)) \<and>
     (\<forall>i prog ifn h k r k'. a_attach A i prog ifn h k = (r, k') \<longrightarrow> tab k' = tab k \<and> (run k \<subseteq>\<^sub>m run k')) \<and>
     (\<forall>i prog n k r k'. a_take_link A i prog n k = (r, k') \<longrightarrow> tab k' = tab k \<and> (run k \<subseteq>\<^sub>m run k')) \<and>
     (\<forall>l path w r w'. a_pin_link A l path w = (r, w') \<longrightarrow> tab (w_kern w') = tab (w_kern w) \<and> run (w_kern w') = run (w_kern w) \<and>
        (if r = Ok () then node_at w (components path) = None \<and> node_at w' = (node_at w)(components path \<mapsto> PinNode (LinkObj l))
         else node_at w' = node_at w))"

text \<open>Maps. An insertion or a removal that fails changes nothing; an iteration without errors gives the entries.\<close>

definition map_docs :: "('k, 'i) aya \<Rightarrow> 'k tables \<Rightarrow> 'k runs \<Rightarrow> bool" where
  "map_docs A tab run \<longleftrightarrow>
     (\<forall>path w m. a_map_from_pin A path w = Ok m \<longrightarrow> node_at w (components path) = Some (PinNode (MapObj m))) \<and>
     (\<forall>m key info k r k'. a_lxc_insert A m key info k = (r, k') \<longrightarrow> run k' = run k \<and>
        tab k' = (if r = Ok () then (tab k)(m := (tab k m)(key \<mapsto> info)) else tab k)) \<and>
     (\<forall>m key k r k'. a_lxc_remove A m key k = (r, k') \<longrightarrow> run k' = run k \<and>
        tab k' = (if r = Ok () then (tab k)(m := (tab k m)(key := None)) else tab k) \<and>
        (r = Err KeyNotFound \<longrightarrow> tab k m key = None)) \<and>
     (\<forall>m k. (\<forall>e. Err e \<notin> set (a_lxc_iter A m k)) \<longrightarrow>
        (\<forall>key info. Ok (key, info) \<in> set (a_lxc_iter A m k) \<longleftrightarrow> tab k m key = Some info)) \<and>
     (\<forall>m ix c k r k'. a_config_set A m ix c k = (r, k') \<longrightarrow> tab k' = tab k \<and> run k' = run k)"

text \<open>A link that was asked for by name has this name.\<close>

definition link_docs :: "('k, 'i) aya \<Rightarrow> bool" where
  "link_docs A \<longleftrightarrow> (\<forall>name k lnk. a_get_link A name k = Ok lnk \<longrightarrow> link_ifname lnk = name)"

definition aya_docs :: "('k, 'i) aya \<Rightarrow> 'k tables \<Rightarrow> 'k runs \<Rightarrow> bool" where
  "aya_docs A tab run \<longleftrightarrow> load_docs A tab run \<and> tcx_docs A tab run \<and> map_docs A tab run \<and> link_docs A"

text \<open>What is pinned below the directory of links: links of the kernel, each under one name, that run the program of that
  name on the interface and the hook it is for.\<close>

definition links_ok :: "string \<Rightarrow> 'k runs \<Rightarrow> 'k world \<Rightarrow> bool" where
  "links_ok root run w \<longleftrightarrow>
     (\<forall>p l. pin_at w p = Some (LinkObj l) \<longrightarrow> run (w_kern w) l \<noteq> None) \<and>
     (\<forall>p q l. pin_at w p = Some (LinkObj l) \<longrightarrow> pin_at w q = Some (LinkObj l) \<longrightarrow> p = q) \<and>
     (\<forall>k lk h l. h \<in> set (hooks k) \<longrightarrow>
        pin_at w (components (links_dir root) @ [Normal (kind_str k), Normal lk, Normal (program_name h)]) = Some (LinkObj l) \<longrightarrow>
        run (w_kern w) l = Some (program_name h, lk, hs_hook h))"

text \<open>The views of the backend: the table of endpoints, the pins below the directory of links.\<close>

definition lxc_table :: "string \<Rightarrow> 'k tables \<Rightarrow> 'k world \<Rightarrow> endpoint_key \<Rightarrow> endpoint_info option" where
  "lxc_table root tab w =
     (case pin_at w (components (global_map_dir root LxcMap)) of
        Some (MapObj m) \<Rightarrow> tab (w_kern w) m
      | _ \<Rightarrow> Map.empty)"

definition aya_infos :: "string \<Rightarrow> 'k tables \<Rightarrow> 'k aya_backend \<Rightarrow> ip_addr \<Rightarrow> endpoint_info option" where
  "aya_infos root tab b ip = lxc_table root tab (ab_world b) (key_of_ip ip)"

definition aya_pins :: "string \<Rightarrow> 'k aya_backend \<Rightarrow> path set" where
  "aya_pins root b = {q. q \<noteq> [] \<and> pin_at (ab_world b) (components (links_dir root) @ q) \<noteq> None}"

definition aya_inv :: "string \<Rightarrow> 'k tables \<Rightarrow> 'k aya_backend \<Rightarrow> bool" where
  "aya_inv root tab b \<longleftrightarrow> tree_ok (ab_world b) \<and> dom (lxc_table root tab (ab_world b)) \<subseteq> range key_of_ip"

definition aya_ok :: "string \<Rightarrow> 'k tables \<Rightarrow> 'k runs \<Rightarrow> 'k aya_backend \<Rightarrow> bool" where
  "aya_ok root tab run b \<longleftrightarrow> aya_inv root tab b \<and> links_ok root run (ab_world b)"

section \<open>Counters of all processors\<close>

lemma saturating_add_val: "unat (saturating_add a b) = min (unat a + unat b) (2 ^ 64 - 1)"
proof (cases "unat a + unat b < 2 ^ 64")
  case True
  then have "unat (a + b) = unat a + unat b" by (simp add: unat_word_ariths)
  with True show ?thesis by (simp add: saturating_add_def)
next
  case False
  moreover have "unat (- 1 :: u64) = 2 ^ 64 - 1" by (simp add: unsigned_minus_1_eq_mask mask_eq_exp_minus_1)
  ultimately show ?thesis by (simp add: saturating_add_def)
qed

text \<open>The value of a counter is the sum over the processors, up to the largest number there is.\<close>

lemma metrics_sum_saturates:
  "unat (mv_packets (metrics_sum vs)) = min (\<Sum>v \<leftarrow> vs. unat (mv_packets v)) (2 ^ 64 - 1) \<and>
   unat (mv_bytes (metrics_sum vs)) = min (\<Sum>v \<leftarrow> vs. unat (mv_bytes v)) (2 ^ 64 - 1)"
proof -
  let ?f = "\<lambda>cpu acc. \<lparr>mv_packets = saturating_add (mv_packets acc) (mv_packets cpu), mv_bytes = saturating_add (mv_bytes acc) (mv_bytes cpu)\<rparr>"
  have "unat (mv_packets (fold ?f vs acc)) = min (unat (mv_packets acc) + (\<Sum>v \<leftarrow> vs. unat (mv_packets v))) (2 ^ 64 - 1) \<and>
        unat (mv_bytes (fold ?f vs acc)) = min (unat (mv_bytes acc) + (\<Sum>v \<leftarrow> vs. unat (mv_bytes v))) (2 ^ 64 - 1)" for acc
  proof (induction vs arbitrary: acc)
    case Nil
    have "unat (mv_packets acc) < 2 ^ 64" "unat (mv_bytes acc) < 2 ^ 64" using unat_bound [of "mv_packets acc"] unat_bound [of "mv_bytes acc"] by simp_all
    then show ?case by simp
  next
    case (Cons v vs)
    show ?case using Cons.IH [of "?f v acc"] by (simp add: saturating_add_val min_def)
  qed
  from this [of "\<lparr>mv_packets = 0, mv_bytes = 0\<rparr>"] show ?thesis by (simp add: metrics_sum_def)
qed

end
