(* ===== verification/Aya_Contract.thy ===== *)
theory Aya_Contract
  imports Aya_Backend
begin

text \<open>
  The backend of \<open>Aya_Backend\<close> keeps the contract \<open>bpf_backend\<close> the loader relies on, for any kernel with the documented behaviour, so
  all that is shown of the loader holds of it. Beyond the contract: every pinned link runs the program of its name
  on the interface and hook it belongs to, and a packet to an endpoint that was added reaches its interface.
\<close>

section \<open>The contract of the loader\<close>

text \<open>The laws one by one.\<close>

lemmas docs_prog_load = tcx_docs_def [THEN iffD1, THEN conjunct1, rule_format]
lemmas docs_prog_name = tcx_docs_def [THEN iffD1, THEN conjunct2, THEN conjunct1, rule_format]
lemmas docs_link_from_pin = tcx_docs_def [THEN iffD1, THEN conjunct2, THEN conjunct2, THEN conjunct1, rule_format]
lemmas docs_attach_to_link = tcx_docs_def [THEN iffD1, THEN conjunct2, THEN conjunct2, THEN conjunct2, THEN conjunct1, rule_format]
lemmas docs_attached = tcx_docs_def [THEN iffD1, THEN conjunct2, THEN conjunct2, THEN conjunct2, THEN conjunct2, THEN conjunct1, rule_format]
lemmas docs_attach = tcx_docs_def [THEN iffD1, THEN conjunct2, THEN conjunct2, THEN conjunct2, THEN conjunct2, THEN conjunct2, THEN conjunct1, rule_format]
lemmas docs_take_link = tcx_docs_def [THEN iffD1, THEN conjunct2, THEN conjunct2, THEN conjunct2, THEN conjunct2, THEN conjunct2, THEN conjunct2, THEN conjunct1, rule_format]
lemmas docs_pin_link = tcx_docs_def [THEN iffD1, THEN conjunct2, THEN conjunct2, THEN conjunct2, THEN conjunct2, THEN conjunct2, THEN conjunct2, THEN conjunct2, rule_format]

lemmas docs_map_from_pin = map_docs_def [THEN iffD1, THEN conjunct1, rule_format]
lemmas docs_insert = map_docs_def [THEN iffD1, THEN conjunct2, THEN conjunct1, rule_format]
lemmas docs_remove = map_docs_def [THEN iffD1, THEN conjunct2, THEN conjunct2, THEN conjunct1, rule_format]
lemmas docs_iter = map_docs_def [THEN iffD1, THEN conjunct2, THEN conjunct2, THEN conjunct2, THEN conjunct1, rule_format]
lemmas docs_config = map_docs_def [THEN iffD1, THEN conjunct2, THEN conjunct2, THEN conjunct2, THEN conjunct2, rule_format]

text \<open>Changes as the loader sees them.\<close>

lemma lxc_cong: "pin_at w' (components (global_map_dir root LxcMap)) = pin_at w (components (global_map_dir root LxcMap)) \<Longrightarrow>
    tab (w_kern w') = tab (w_kern w) \<Longrightarrow> lxc_table root tab w' = lxc_table root tab w"
  by (auto simp: lxc_table_def split: option.splits bpf_object.splits)

lemma links_globals: "components (links_dir root) @ q \<noteq> components (global_map_dir root g)"
  "\<not> prefix (components (globals_dir root)) (components (links_dir root) @ q)"
  "CHR ''/'' \<notin> set lk \<Longrightarrow> components (links_dir root) @ q \<noteq> components (per_endpoint_map_dir root m lk)"
  by (auto simp: components_links_dir components_map_dirs components_globals_dir)

text \<open>What only changes the kernel, and neither tables nor pins.\<close>

lemma quiet_step:
  assumes "aya_inv root tab b" "pin_at (ab_world b') = pin_at (ab_world b)" "tree_ok (ab_world b')"
    "tab (w_kern (ab_world b')) = tab (w_kern (ab_world b))"
  shows "aya_inv root tab b' \<and> aya_pins root b' = aya_pins root b \<and> aya_infos root tab b' = aya_infos root tab b"
proof -
  have "lxc_table root tab (ab_world b') = lxc_table root tab (ab_world b)" using assms(2,4) by (intro lxc_cong) simp_all
  then show ?thesis using assms unfolding aya_inv_def aya_pins_def aya_infos_def [abs_def] by simp
qed

lemma kern_step:
  assumes "aya_inv root tab b" "ab_world b' = (ab_world b)\<lparr>w_kern := k\<rparr>" "tab k = tab (w_kern (ab_world b))"
  shows "aya_inv root tab b' \<and> aya_pins root b' = aya_pins root b \<and> aya_infos root tab b' = aya_infos root tab b"
  by (rule quiet_step) (use assms in \<open>auto simp: aya_inv_def tree_ok_def intro: pin_at_cong\<close>)

lemma aya_load_effect:
  assumes "load_docs A tab run" "aya_inv root tab b"
    "\<And>q. q \<in> snd ` set ms \<Longrightarrow> prefix (components (globals_dir root)) (components q)"
    "load_with_pins A root ms b = (r, b')"
  shows "aya_inv root tab b' \<and> aya_pins root b' = aya_pins root b \<and> aya_infos root tab b' = aya_infos root tab b"
proof -
  let ?w = "ab_world b" and ?lxc = "components (global_map_dir root LxcMap)"
  obtain r1 w' where l: "a_load A (globals_dir root) ms ?w = (r1, w')" by fastforce
  have b': "b' = b\<lparr>ab_world := w'\<rparr>"
    using assms(4) l by (auto simp: load_with_pins_def split: result.splits option.splits)
  have L: "tree_ok ?w \<longrightarrow> tree_ok w'"
    "\<forall>p. if node_at ?w p \<noteq> None \<or> \<not> prefix (components (globals_dir root)) p \<and> p \<notin> components ` snd ` set ms
         then node_at w' p = node_at ?w p
         else \<forall>obj. node_at w' p = Some (PinNode obj) \<longrightarrow> (\<exists>m. obj = MapObj m \<and> tab (w_kern w') m = Map.empty)"
    "\<forall>p m. node_at ?w p = Some (PinNode (MapObj m)) \<longrightarrow> tab (w_kern w') m = tab (w_kern ?w) m"
    using assms(1) l unfolding load_docs_def by blast+
  have "node_at w' (components (links_dir root) @ q) = node_at ?w (components (links_dir root) @ q)" for q
  proof -
    have "components (links_dir root) @ q \<notin> components ` snd ` set ms"
      using links_globals(2) [of root q] assms(3) by (metis imageE)
    then show ?thesis using L(2) [rule_format, of "components (links_dir root) @ q"] links_globals(2) [of root q] by simp
  qed
  then have p: "aya_pins root b' = aya_pins root b" by (simp add: b' aya_pins_def pin_at_def)
  have "lxc_table root tab w' = lxc_table root tab ?w"
  proof (cases "node_at ?w ?lxc")
    case None
    then have "\<forall>m. node_at w' ?lxc = Some (PinNode (MapObj m)) \<longrightarrow> tab (w_kern w') m = Map.empty"
      using L(2) [rule_format, of ?lxc] by (auto split: if_splits)
    then show ?thesis using None by (simp add: lxc_table_def pin_at_def split: option.splits node.splits bpf_object.splits)
  next
    case (Some n)
    then have "node_at w' ?lxc = Some n" using L(2) [rule_format, of ?lxc] by simp
    then show ?thesis using Some L(3) by (auto simp: lxc_table_def pin_at_def split: node.splits bpf_object.splits)
  qed
  with p L(1) assms(2) show ?thesis unfolding b' aya_inv_def aya_infos_def [abs_def] by simp
qed

lemma aya_load_instance_effect:
  assumes "load_docs A tab run" "aya_inv root tab b"
    "\<And>q. q \<in> snd ` set ms \<Longrightarrow> prefix (components (globals_dir root)) (components q)"
    "aya_load_instance A root lk ms b = (r, b')"
  shows "aya_inv root tab b' \<and> aya_pins root b' = aya_pins root b \<and> aya_infos root tab b' = aya_infos root tab b"
proof -
  obtain r1 b1 where l: "load_with_pins A root ms b = (r1, b1)" by fastforce
  note e = aya_load_effect [OF assms(1-3) l]
  show ?thesis
  proof (cases r1)
    case (Err x)
    with assms(4) l e show ?thesis by (simp add: aya_load_instance_def)
  next
    case (Ok i)
    obtain r2 k where k: "a_logger_init A i (w_kern (ab_world b1)) = (r2, k)" by fastforce
    with Ok l assms(4) have "ab_world b' = (ab_world b1)\<lparr>w_kern := k\<rparr>"
      by (cases r2) (auto simp: aya_load_instance_def start_logging_def aya_stop_logging_def)
    moreover have "tab k = tab (w_kern (ab_world b1))" using assms(1) k unfolding load_docs_def by blast
    ultimately show ?thesis using kern_step [of root tab b1 b' k] e by simp
  qed
qed

text \<open>Attaching: where the program is pinned and what the link there runs. A link that exists keeps its program, only the
  one that is pinned for the program gets it.\<close>

definition run_kept :: "'k runs \<Rightarrow> 'k world \<Rightarrow> path \<Rightarrow> string \<Rightarrow> 'k world \<Rightarrow> bool" where
  "run_kept run w p prog w' \<longleftrightarrow> (\<forall>l v. run (w_kern w) l = Some v \<longrightarrow> run (w_kern w') l = Some v \<or>
     pin_at w p = Some (LinkObj l) \<and> run (w_kern w') l = Some (prog, snd v))"

lemma map_le_Some: "m \<subseteq>\<^sub>m m' \<Longrightarrow> m x = Some v \<Longrightarrow> m' x = Some v"
  unfolding map_le_def by (metis domI)

lemma run_kept_le: "run (w_kern w) \<subseteq>\<^sub>m run (w_kern w') \<Longrightarrow> run_kept run w p prog w'"
  by (simp add: run_kept_def map_le_Some)

lemma update_link_effect:
  assumes "tcx_docs A tab run" "update_link A pin i prog w = (r, w')"
  shows "node_at w' = node_at w \<and> tab (w_kern w') = tab (w_kern w) \<and>
    (\<forall>p. r = Err (NoLink p) \<or> r = Err (NotExist p) \<longrightarrow> run (w_kern w') = run (w_kern w)) \<and> run_kept run w (components pin) prog w' \<and>
    (\<forall>lid. r = Ok lid \<longrightarrow> (\<exists>l old place. node_at w (components pin) = Some (PinNode (LinkObj l)) \<and>
       run (w_kern w) l = Some (old, place) \<and> (run (w_kern w))(l \<mapsto> (prog, place)) \<subseteq>\<^sub>m run (w_kern w')))"
proof (cases "a_link_from_pin A pin w")
  case (Err e)
  with assms(2) show ?thesis by (cases e) (auto simp: update_link_def run_kept_def)
next
  case (Ok l)
  obtain r1 k1 where a: "a_attach_to_link A i prog l (w_kern w) = (r1, k1)" by fastforce
  note a1 = docs_attach_to_link [OF assms(1) a]
  have p: "node_at w (components pin) = Some (PinNode (LinkObj l))" by (rule docs_link_from_pin [OF assms(1) Ok])
  note def = assms(2) [unfolded update_link_def Ok result.case a prod.case]
  show ?thesis
  proof (cases r1)
    case (Err e)
    with def a1 show ?thesis by (cases e) (auto simp: run_kept_def split: result.splits)
  next
    case r1: (Ok n)
    obtain r2 k2 where t: "a_take_link A i prog n k1 = (r2, k2)" by fastforce
    have t1: "tab k2 = tab k1" "run k1 \<subseteq>\<^sub>m run k2" using docs_take_link [OF assms(1) t] by simp_all
    obtain old place where o: "run (w_kern w) l = Some (old, place)" "run k1 = (run (w_kern w))(l \<mapsto> (prog, place))"
      using a1 r1 by auto
    then have le: "(run (w_kern w))(l \<mapsto> (prog, place)) \<subseteq>\<^sub>m run k2" using t1(2) by simp
    have w': "w' = w \<or> w' = w\<lparr>w_kern := k2\<rparr>" "\<exists>lid. r = Ok lid \<Longrightarrow> w' = w\<lparr>w_kern := k2\<rparr>"
      "\<forall>p. r \<noteq> Err (NoLink p) \<and> r \<noteq> Err (NotExist p)"
      using def [unfolded r1 result.case t prod.case] by (auto split: result.splits)
    have "run_kept run w (components pin) prog (w\<lparr>w_kern := k2\<rparr>)"
      unfolding run_kept_def
    proof (intro allI impI)
      fix l' v assume "run (w_kern w) l' = Some v"
      with map_le_Some [OF le, of l'] o(1) p show "run (w_kern (w\<lparr>w_kern := k2\<rparr>)) l' = Some v \<or>
          pin_at w (components pin) = Some (LinkObj l') \<and> run (w_kern (w\<lparr>w_kern := k2\<rparr>)) l' = Some (prog, snd v)"
        by (cases "l' = l") (auto simp: pin_at_Some)
    qed
    moreover have "run_kept run w (components pin) prog w" by (simp add: run_kept_def)
    ultimately show ?thesis using w' t1(1) a1 p o(1) le by (cases place) auto
  qed
qed

definition pin_post :: "'k runs \<Rightarrow> 'k world \<Rightarrow> path \<Rightarrow> string \<Rightarrow> nat \<Rightarrow> string \<times> hook \<Rightarrow> 'k world \<Rightarrow> bool" where
  "pin_post run w p prog l place w' \<longleftrightarrow> pin_at w' = (pin_at w)(p \<mapsto> LinkObj l) \<and> run (w_kern w') l = Some (prog, place) \<and>
     (\<forall>l'. l' \<noteq> l \<longrightarrow> run (w_kern w) l' \<noteq> None \<longrightarrow> run (w_kern w') l' = run (w_kern w) l')"

lemma pin_postI:
  assumes "pin_at w' = (pin_at w)(p \<mapsto> LinkObj l)" "(run (w_kern w))(l \<mapsto> (prog, place)) \<subseteq>\<^sub>m run (w_kern w')"
  shows "pin_post run w p prog l place w'"
  using assms unfolding pin_post_def by (auto simp: map_le_def dom_def split: if_splits)

lemma update_tcx_effect:
  assumes "tcx_docs A tab run" "tree_ok w" "plain_name pn" "update_tcx A i prog pn dir w = (r, w')"
  shows "tree_ok w' \<and> tab (w_kern w') = tab (w_kern w) \<and>
    (case r of Ok _ \<Rightarrow> \<exists>l old place. pin_at w (components dir @ [Normal pn]) = Some (LinkObj l) \<and> run (w_kern w) l = Some (old, place) \<and>
         pin_post run w (components dir @ [Normal pn]) prog l place w'
     | Err e \<Rightarrow> run_kept run w (components dir @ [Normal pn]) prog w' \<and> (pin_at w' = pin_at w \<or> pin_at w' = (pin_at w)(components dir @ [Normal pn] := None)) \<and>
         (\<forall>p. e = NotExist p \<longrightarrow> run (w_kern w') = run (w_kern w)))"
proof -
  let ?pin = "path_join dir pn" and ?P = "components dir @ [Normal pn]"
  have P: "components ?pin = ?P" by (rule components_join [OF assms(3)])
  obtain r1 w1 where u: "update_link A ?pin i prog w = (r1, w1)" by fastforce
  note e = update_link_effect [OF assms(1) u]
  then have e1: "tree_ok w1" "pin_at w1 = pin_at w" "tab (w_kern w1) = tab (w_kern w)"
    using assms(2) tree_ok_cong [of w1 w] pin_at_cong [of w1 w] by simp_all
  note def = assms(4) [unfolded update_tcx_def Let_def u]
  show ?thesis
  proof (cases r1)
    case (Ok lid)
    with def have r: "w' = w1" "\<exists>x. r = Ok x" by auto
    obtain l old place where l: "node_at w ?P = Some (PinNode (LinkObj l))" "run (w_kern w) l = Some (old, place)"
      "(run (w_kern w))(l \<mapsto> (prog, place)) \<subseteq>\<^sub>m run (w_kern w1)" using e Ok by (auto simp: P)
    have "pin_at w1 = (pin_at w)(?P \<mapsto> LinkObj l)" using e1(2) l(1) by (auto simp: fun_eq_iff pin_at_def)
    from pin_postI [OF this l(3)] l r e1 show ?thesis by (cases place) (auto simp: pin_at_Some)
  next
    case (Err x)
    show ?thesis
    proof (cases "\<exists>p. x = NoLink p")
      case True
      obtain r2 w2 where f: "fs_remove_file (a_fs_fails A) ?P w1 = (r2, w2)" by fastforce
      have f1: "tree_ok w2" "w_kern w2 = w_kern w1" "pin_at w2 = (if r2 = Ok () then (pin_at w1)(?P := None) else pin_at w1)"
        using remove_file_tree [OF e1(1) f] remove_file_effect [OF f] remove_file_pins [OF f] by simp_all
      from def Err True f have "w' = w2" "\<exists>y. r = Err y" by (auto simp: P split: result.splits)
      with f1 e e1 Err True show ?thesis by (auto simp: run_kept_def)
    next
      case False
      with def Err have "r = Err x" "w' = w1" by (auto split: infra_error.splits)
      with e e1 Err show ?thesis by (auto simp: P)
    qed
  qed
qed

lemma pin_tree:
  assumes "tree_ok w" "node_at w (d @ [c]) = None" "\<And>q. prefix q d \<Longrightarrow> q \<noteq> [] \<Longrightarrow> node_at w q = Some DirNode"
    "node_at w' = (node_at w)(d @ [c] \<mapsto> PinNode obj)"
  shows "tree_ok w'"
proof -
  have "node_at w' p = Some DirNode" if q: "node_at w' q \<noteq> None" "strict_prefix p q" "p \<noteq> []" for p q
  proof (cases "q = d @ [c]")
    case True
    then have "prefix p d" "p \<noteq> d @ [c]" using q(2) by (auto simp: strict_prefix_def prefix_snoc)
    with assms(3,4) q(3) show ?thesis by simp
  next
    case False
    then have "node_at w p = Some DirNode" using tree_okD [OF assms(1) _ q(2,3)] q(1) assms(4) by simp
    moreover from this have "p \<noteq> d @ [c]" using assms(2) by auto
    ultimately show ?thesis using assms(4) by simp
  qed
  then show ?thesis unfolding tree_ok_def by blast
qed

lemma attach_tcx_effect:
  assumes "tcx_docs A tab run" "tree_ok w" "plain_name pn" "attach_tcx A ifn i prog pn dir h w = (r, w')"
  shows "tree_ok w' \<and> tab (w_kern w') = tab (w_kern w) \<and> run (w_kern w) \<subseteq>\<^sub>m run (w_kern w') \<and>
    (case r of Ok _ \<Rightarrow> \<exists>l. run (w_kern w) l = None \<and> pin_post run w (components dir @ [Normal pn]) prog l (ifn, h) w'
     | Err e \<Rightarrow> pin_at w' = pin_at w)"
proof -
  let ?pin = "path_join dir pn" and ?P = "components dir @ [Normal pn]"
  have P: "components ?pin = ?P" by (rule components_join [OF assms(3)])
  obtain r1 w1 where c: "fs_create_dir_all (a_fs_fails A) (components dir) w = (r1, w1)" by fastforce
  note c1 = create_dir_all_effect [OF assms(2) c] and c2 = create_dir_pins [OF assms(2) c]
  have same: "tree_ok (w1\<lparr>w_kern := k\<rparr>)" "pin_at (w1\<lparr>w_kern := k\<rparr>) = pin_at w" for k
    using c1 c2 tree_ok_cong [of "w1\<lparr>w_kern := k\<rparr>" w1] pin_at_cong [of "w1\<lparr>w_kern := k\<rparr>" w1] by simp_all
  note def = assms(4) [unfolded attach_tcx_def c prod.case]
  show ?thesis
  proof (cases r1)
    case (Err e)
    with def c1 c2 show ?thesis by auto
  next
    case r1: (Ok u)
    obtain r2 k2 where a: "a_attach A i prog ifn h (w_kern w1) = (r2, k2)" by fastforce
    have a1: "tab k2 = tab (w_kern w)" "run (w_kern w) \<subseteq>\<^sub>m run k2" using docs_attach [OF assms(1) a] c1 by simp_all
    note def = def [unfolded r1 result.case a prod.case]
    show ?thesis
    proof (cases r2)
      case (Err e)
      with def a1 same [of k2] show ?thesis by auto
    next
      case r2: (Ok n)
      obtain r3 k3 where t: "a_take_link A i prog n k2 = (r3, k3)" by fastforce
      have t1: "tab k3 = tab (w_kern w)" "run (w_kern w) \<subseteq>\<^sub>m run k3"
        using docs_take_link [OF assms(1) t] a1 by (auto intro: map_le_trans)
      note def = def [unfolded r2 result.case t prod.case]
      show ?thesis
      proof (cases "\<exists>x. r = Ok x")
        case False
        obtain l r4 w4 where "r3 = Ok l \<and> a_pin_link A l ?pin (w1\<lparr>w_kern := k3\<rparr>) = (r4, w4) \<and> r4 \<noteq> Ok () \<and> w' = w4 \<or> w' = w1\<lparr>w_kern := k3\<rparr>"
          using def False by (cases r3) (auto split: result.splits prod.splits)
        then show ?thesis
        proof (elim disjE conjE)
          assume p: "a_pin_link A l ?pin (w1\<lparr>w_kern := k3\<rparr>) = (r4, w4)" "r4 \<noteq> Ok ()" "w' = w4"
          from docs_pin_link [OF assms(1) p(1)] p(2) have "node_at w4 = node_at (w1\<lparr>w_kern := k3\<rparr>)" "tab (w_kern w4) = tab k3"
            "run (w_kern w4) = run k3" by simp_all
          with p(3) False same [of k3] tree_ok_cong [of w4 "w1\<lparr>w_kern := k3\<rparr>"] pin_at_cong [of w4 "w1\<lparr>w_kern := k3\<rparr>"] t1
          show ?thesis by (cases r) auto
        next
          assume "w' = w1\<lparr>w_kern := k3\<rparr>"
          with False same [of k3] t1 show ?thesis by (cases r) auto
        qed
      next
        case True
        then obtain l w4 where l: "r3 = Ok l" "a_pin_link A l ?pin (w1\<lparr>w_kern := k3\<rparr>) = (Ok (), w4)" "w' = w4"
          using def by (cases r3) (auto split: result.splits prod.splits)
        have new: "run (w_kern w) l = None" "run k3 l = Some (prog, ifn, h)"
          using docs_attached [OF assms(1) a [unfolded r2] t [unfolded l(1)]] c1 by simp_all
        have pl: "tab (w_kern w4) = tab k3" "run (w_kern w4) = run k3" "node_at w1 ?P = None"
          "node_at w4 = (node_at (w1\<lparr>w_kern := k3\<rparr>))(?P \<mapsto> PinNode (LinkObj l))"
          using docs_pin_link [OF assms(1) l(2)] by (simp_all add: P)
        have "tree_ok w4"
          by (rule pin_tree [of "w1\<lparr>w_kern := k3\<rparr>"]) (use pl same c1 r1 in auto)
        moreover have "pin_at w4 = (pin_at w)(?P \<mapsto> LinkObj l)" using pin_at_upd [OF pl(4)] same [of k3] by simp
        moreover have "(run (w_kern w))(l \<mapsto> (prog, ifn, h)) \<subseteq>\<^sub>m run (w_kern w4)"
          using t1(2) new pl(2) by (auto simp: map_le_def)
        ultimately show ?thesis using True l(3) t1 pl new pin_postI [of w4 w ?P l run prog "(ifn, h)"] by auto
      qed
    qed
  qed
qed

lemma upsert_tcx_effect:
  assumes "tcx_docs A tab run" "tree_ok w" "plain_name prog" "length prog \<le> 15" "upsert_tcx A ifn i prog dir h w = (r, w')"
  shows "tree_ok w' \<and> tab (w_kern w') = tab (w_kern w) \<and>
    (case r of Ok _ \<Rightarrow> \<exists>l place. pin_post run w (components dir @ [Normal prog]) prog l place w' \<and>
         (run (w_kern w) l = None \<and> place = (ifn, h) \<or>
          pin_at w (components dir @ [Normal prog]) = Some (LinkObj l) \<and> (\<exists>old. run (w_kern w) l = Some (old, place)))
     | Err e \<Rightarrow> run_kept run w (components dir @ [Normal prog]) prog w' \<and>
         (pin_at w' = pin_at w \<or> pin_at w' = (pin_at w)(components dir @ [Normal prog] := None)))"
proof -
  let ?P = "components dir @ [Normal prog]"
  have "prog \<noteq> []" using assms(3) by (simp add: plain_name_def)
  then have n: "a_prog_name A i prog (w_kern w) = Some prog"
    using docs_prog_name [OF assms(1)] assms(4) by simp
  obtain r1 w1 where u: "update_tcx A i prog prog dir w = (r1, w1)" by fastforce
  note e = update_tcx_effect [OF assms(1-3) u]
  note def = assms(5) [unfolded upsert_tcx_def Let_def n option.case u]
  show ?thesis
  proof (cases "\<exists>p. r1 = Err (NotExist p)")
    case True
    then have a: "attach_tcx A ifn i prog prog dir h w1 = (r, w')" using def by auto
    have e1: "tree_ok w1" "tab (w_kern w1) = tab (w_kern w)" "run (w_kern w1) = run (w_kern w)"
      "pin_at w1 = pin_at w \<or> pin_at w1 = (pin_at w)(?P := None)" using e True by auto
    note f = attach_tcx_effect [OF assms(1) e1(1) assms(3) a]
    show ?thesis
    proof (cases r)
      case (Ok x)
      then obtain l where l: "run (w_kern w) l = None" "pin_post run w1 ?P prog l (ifn, h) w'" using f e1(3) by auto
      then have "pin_post run w ?P prog l (ifn, h) w'" using e1(3,4) by (auto simp: pin_post_def)
      with l(1) f e1 Ok show ?thesis by auto
    qed (use f e1 run_kept_le [of run w w'] in auto)
  next
    case False
    then have "(r, w') = (r1, w1)" using def by (auto split: result.splits infra_error.splits)
    with e show ?thesis by (auto split: result.splits)
  qed
qed

lemma aya_attach_effect:
  assumes "tcx_docs A tab run" "aya_inv root tab b" "plain_name prog" "length prog \<le> 15"
    "components dir = components (links_dir root) @ d" "aya_ensure_attached A i prog h lnk dir b = (r, b')"
  shows "aya_inv root tab b' \<and> aya_infos root tab b' = aya_infos root tab b \<and>
    (if r = Ok () then aya_pins root b' = insert (d @ [Normal prog]) (aya_pins root b)
     else aya_pins root b' \<subseteq> aya_pins root b \<and> aya_pins root b - {d @ [Normal prog]} \<subseteq> aya_pins root b')"
proof -
  let ?P = "components dir @ [Normal prog]"
  obtain r1 k where k: "a_prog_load A i prog (w_kern (ab_world b)) = (r1, k)" by fastforce
  have k1: "tab k = tab (w_kern (ab_world b))" using docs_prog_load [OF assms(1) k] by simp
  let ?w = "(ab_world b)\<lparr>w_kern := k\<rparr>"
  obtain r2 w2 where u: "upsert_tcx A (link_ifname lnk) i prog dir h ?w = (r2, w2)" by fastforce
  have t: "tree_ok ?w" using assms(2) tree_ok_cong [of ?w "ab_world b"] by (simp add: aya_inv_def)
  have pw: "pin_at ?w = pin_at (ab_world b)" by (rule pin_at_cong) simp
  note e = upsert_tcx_effect [OF assms(1) t assms(3,4) u, unfolded pin_post_def pw]
  obtain r0 where sc: "sched_classifier A i prog = r0" by blast
  note def = assms(6) [unfolded aya_ensure_attached_def upsert_tcx_program_def k option.case u prod.case sc]
  consider "b' = b" "r \<noteq> Ok ()" | "b' = b\<lparr>ab_world := ?w\<rparr>" "r \<noteq> Ok ()"
    | "b' = b\<lparr>ab_world := w2\<rparr>" "r = Ok () \<longleftrightarrow> (\<exists>x. r2 = Ok x)"
    using def by (cases r0; cases r1; cases r2) auto
  then show ?thesis
  proof cases
    case 1
    with assms(2) show ?thesis by simp
  next
    case 2
    with kern_step [OF assms(2), of b' k] k1 show ?thesis by simp
  next
    case 3
    have "pin_at w2 q = pin_at (ab_world b) q" if "q \<noteq> ?P" for q
      using e that by (cases r2) auto
    then have "lxc_table root tab w2 = lxc_table root tab (ab_world b)"
      using e k1 links_globals(1) [of root "d @ [Normal prog]" LxcMap] assms(5) by (intro lxc_cong) auto
    then have v: "aya_inv root tab b' \<and> aya_infos root tab b' = aya_infos root tab b"
      using assms(2) e 3(1) by (simp add: aya_inv_def aya_infos_def [abs_def])
    show ?thesis
    proof (cases r2)
      case (Ok x)
      then have "\<exists>obj. pin_at w2 = (pin_at (ab_world b))(?P \<mapsto> obj)" using e by auto
      then have "aya_pins root b' = insert (d @ [Normal prog]) (aya_pins root b)" unfolding 3(1) aya_pins_def by (auto simp: assms(5))
      with v Ok 3(2) show ?thesis by simp
    next
      case (Err x)
      then have "pin_at w2 = pin_at (ab_world b) \<or> pin_at w2 = (pin_at (ab_world b))(?P := None)" using e by simp
      then have "aya_pins root b' \<subseteq> aya_pins root b \<and> aya_pins root b - {d @ [Normal prog]} \<subseteq> aya_pins root b'"
        unfolding 3(1) aya_pins_def by (auto simp: assms(5) split: if_splits)
      with v Err 3(2) show ?thesis by simp
    qed
  qed
qed

text \<open>Removing pins and directories.\<close>

lemma aya_unpin_effect:
  assumes "aya_inv root tab b" "CHR ''/'' \<notin> set lk" "aya_unpin_map A (per_endpoint_map_dir root m lk) b = (r, b')"
  shows "aya_inv root tab b' \<and> aya_pins root b' = aya_pins root b \<and> aya_infos root tab b' = aya_infos root tab b"
proof -
  let ?P = "components (per_endpoint_map_dir root m lk)"
  obtain r1 w1 where f: "fs_remove_file (a_fs_fails A) ?P (ab_world b) = (r1, w1)" by fastforce
  have b': "b' = b\<lparr>ab_world := w1\<rparr>"
    using assms(3) f by (auto simp: aya_unpin_map_def gone_is_ok_def split: result.splits io_error.splits)
  have p: "pin_at w1 q = pin_at (ab_world b) q" if "q \<noteq> ?P" for q using remove_file_pins [OF f] that by simp
  have "components (global_map_dir root LxcMap) \<noteq> ?P"
    using wire_names_disjoint [of m lk LxcMap] by (auto simp: components_map_dirs assms(2))
  then have "lxc_table root tab w1 = lxc_table root tab (ab_world b)"
    using p remove_file_effect [OF f] by (intro lxc_cong) auto
  moreover have "aya_pins root b' = aya_pins root b"
    using p links_globals(3) [OF assms(2)] unfolding b' aya_pins_def by simp
  moreover have "tree_ok w1" using remove_file_tree [OF _ f] assms(1) by (simp add: aya_inv_def)
  ultimately show ?thesis using assms(1) unfolding b' aya_inv_def aya_infos_def [abs_def] by simp
qed

lemma aya_remove_dir_effect:
  assumes "aya_inv root tab b" "components dir = components (links_dir root) @ d" "aya_remove_pin_dir A dir b = (r, b')"
  shows "aya_inv root tab b' \<and> aya_infos root tab b' = aya_infos root tab b \<and>
    {q \<in> aya_pins root b. \<not> prefix d q} \<subseteq> aya_pins root b' \<and> aya_pins root b' \<subseteq> aya_pins root b \<and>
    (r = Ok () \<longrightarrow> aya_pins root b' = {q \<in> aya_pins root b. \<not> prefix d q})"
proof -
  obtain r1 w1 where f: "fs_remove_dir_all (a_fs_fails A) (components dir) (ab_world b) = (r1, w1)" by fastforce
  have b': "b' = b\<lparr>ab_world := w1\<rparr>" "r = Ok () \<longleftrightarrow> r1 = Ok () \<or> r1 = Err IoNotFound"
    using assms(3) f by (auto simp: aya_remove_pin_dir_def gone_is_ok_def split: result.splits io_error.splits)
  note e = remove_dir_all_effect [OF f]
  have t: "tree_ok (ab_world b)" using assms(1) by (simp add: aya_inv_def)
  have pf: "prefix (components dir) (components (links_dir root) @ q) \<longleftrightarrow> prefix d q" for q by (simp add: assms(2))
  have keep: "\<not> prefix d q \<Longrightarrow> pin_at w1 (components (links_dir root) @ q) = pin_at (ab_world b) (components (links_dir root) @ q)" for q
    using e pf by (simp add: pin_at_def)
  have less: "pin_at w1 q \<noteq> None \<Longrightarrow> pin_at w1 q = pin_at (ab_world b) q" for q
    using e by (metis (no_types, lifting) option.case(1) pin_at_def)
  have gone: "pin_at w1 (components (links_dir root) @ q) = None" if "r = Ok ()" "prefix d q" for q
  proof (cases "r1 = Ok ()")
    case True
    then show ?thesis using e that(2) pf by (simp add: pin_at_def)
  next
    case False
    then have n: "node_at (ab_world b) (components dir) = None" "node_at w1 = node_at (ab_world b)" using e b'(2) that(1) by auto
    have ne: "components dir \<noteq> []" by (simp add: assms(2) components_links_dir)
    have "node_at (ab_world b) (components (links_dir root) @ q) = None"
      using tree_okD [OF t _ _ ne, of "components (links_dir root) @ q"] n(1) that(2) pf [of q]
      by (cases "components dir = components (links_dir root) @ q"; cases "node_at (ab_world b) (components (links_dir root) @ q)")
        (auto simp: strict_prefix_def)
    then show ?thesis using n(2) by (simp add: pin_at_def)
  qed
  have "\<not> prefix (components dir) (components (global_map_dir root LxcMap))"
    by (simp add: assms(2) components_links_dir components_map_dirs)
  then have "lxc_table root tab w1 = lxc_table root tab (ab_world b)"
    using e by (intro lxc_cong) (auto simp: pin_at_def)
  moreover have "tree_ok w1" by (rule remove_dir_all_tree [OF t f])
  moreover have "{q \<in> aya_pins root b. \<not> prefix d q} \<subseteq> aya_pins root b'" "aya_pins root b' \<subseteq> aya_pins root b"
    "r = Ok () \<longrightarrow> aya_pins root b' = {q \<in> aya_pins root b. \<not> prefix d q}"
    using keep less gone unfolding b'(1) aya_pins_def by auto
  ultimately show ?thesis using assms(1) unfolding b'(1) aya_inv_def aya_infos_def [abs_def] by simp
qed

lemma aya_list_effect:
  assumes "aya_inv root tab b" "aya_list_pins A (links_dir root) b = Ok ps"
  shows "set ps = aya_pins root b"
proof -
  let ?d = "components (links_dir root)"
  have w: "walk_dir (a_fs_fails A) (ab_world b) ?d ?d [] = Ok ps"
    using assms(2) by (cases "walk_dir (a_fs_fails A) (ab_world b) ?d ?d []") (auto simp: aya_list_pins_def)
  have "?d \<noteq> []" by (simp add: components_links_dir)
  with walk_dir_found [OF _ this _ w] assms(1) have "set ps = drop (length ?d) ` found (ab_world b) ?d" by (simp add: aya_inv_def)
  also have "\<dots> = aya_pins root b"
  proof (intro subset_antisym subsetI)
    fix q assume "q \<in> drop (length ?d) ` found (ab_world b) ?d"
    then show "q \<in> aya_pins root b" by (auto simp: found_def aya_pins_def strict_prefix_def prefix_def)
  next
    fix q assume "q \<in> aya_pins root b"
    then have "?d @ q \<in> found (ab_world b) ?d" by (simp add: found_def aya_pins_def strict_prefix_def)
    then show "q \<in> drop (length ?d) ` found (ab_world b) ?d" by (metis append_eq_conv_conj image_eqI)
  qed
  finally show ?thesis .
qed

text \<open>The endpoint table.\<close>

lemma lxc_open_Ok:
  assumes "map_docs A tab run" "lxc_open A root w = Ok m"
  shows "lxc_table root tab w = tab (w_kern w) m"
proof -
  have "a_map_from_pin A (global_map_dir root LxcMap) w = Ok m"
    using assms(2) by (auto simp: lxc_open_def open_map_def split: result.splits)
  from docs_map_from_pin [OF assms(1) this] show ?thesis by (simp add: lxc_table_def pin_at_def)
qed

lemma lxc_table_kern:
  assumes "map_docs A tab run" "lxc_open A root w = Ok m"
  shows "lxc_table root tab (w\<lparr>w_kern := k\<rparr>) = tab k m"
proof -
  have "a_map_from_pin A (global_map_dir root LxcMap) w = Ok m"
    using assms(2) by (auto simp: lxc_open_def open_map_def split: result.splits)
  from docs_map_from_pin [OF assms(1) this] show ?thesis by (simp add: lxc_table_def pin_at_def)
qed

lemma insert_all_effect:
  assumes "map_docs A tab run" "lxc_insert_all A m info xs k = (r, k')"
  shows "(\<forall>key. key \<notin> key_of_ip ` set xs \<longrightarrow> tab k' m key = tab k m key) \<and>
    (\<forall>ip \<in> set xs. tab k' m (key_of_ip ip) = Some info \<or> tab k' m (key_of_ip ip) = tab k m (key_of_ip ip)) \<and>
    (r = Ok () \<longrightarrow> (\<forall>ip \<in> set xs. tab k' m (key_of_ip ip) = Some info)) \<and> run k' = run k"
  using assms(2)
proof (induction xs arbitrary: k)
  case (Cons x xs)
  obtain r1 k1 where i: "a_lxc_insert A m (key_of_ip x) info k = (r1, k1)" by fastforce
  note i1 = docs_insert [OF assms(1) i]
  show ?case
  proof (cases r1)
    case (Err e)
    with Cons.prems i i1 show ?thesis by auto
  next
    case (Ok u)
    with Cons.prems i have "lxc_insert_all A m info xs k1 = (r, k')" by simp
    note ih = Cons.IH [OF this]
    have k1: "tab k1 m = (tab k m)(key_of_ip x \<mapsto> info)" "run k1 = run k" using i1 Ok by simp_all
    have "tab k' m (key_of_ip x) = Some info"
      using ih k1 by (cases "key_of_ip x \<in> key_of_ip ` set xs") (auto simp: endpoint_key_roundtrip)
    with ih k1 show ?thesis by (auto simp: endpoint_key_roundtrip split: if_splits)
  qed
qed simp

lemma aya_upsert_effect:
  assumes "map_docs A tab run" "aya_inv root tab b" "aya_upsert_endpoint_info A root p info b = (r, b')"
  shows "aya_inv root tab b' \<and> aya_pins root b' = aya_pins root b \<and>
    (\<forall>ip. ip \<notin> set (ips (ep_spec p)) \<longrightarrow> aya_infos root tab b' ip = aya_infos root tab b ip) \<and>
    (r = Ok () \<longrightarrow> (\<forall>ip \<in> set (ips (ep_spec p)). aya_infos root tab b' ip = Some info))"
proof (cases "lxc_open A root (ab_world b)")
  case (Err e)
  with assms show ?thesis by (auto simp: aya_upsert_endpoint_info_def)
next
  case (Ok m)
  obtain k where k: "lxc_insert_all A m info (ips (ep_spec p)) (w_kern (ab_world b)) = (r, k)" "b' = b\<lparr>ab_world := (ab_world b)\<lparr>w_kern := k\<rparr>\<rparr>"
    using assms(3) Ok by (auto simp: aya_upsert_endpoint_info_def lxc_upsert_endpoint_def on_kern_def split: prod.splits)
  note e = insert_all_effect [OF assms(1) k(1)]
  have T: "lxc_table root tab (ab_world b) = tab (w_kern (ab_world b)) m" "lxc_table root tab (ab_world b') = tab k m"
    using lxc_open_Ok [OF assms(1) Ok] lxc_table_kern [OF assms(1) Ok] k(2) by simp_all
  have "dom (tab k m) \<subseteq> dom (tab (w_kern (ab_world b)) m) \<union> key_of_ip ` set (ips (ep_spec p))"
    using e by (metis (mono_tags, lifting) UnCI domIff subsetI)
  then have "dom (tab k m) \<subseteq> range key_of_ip" using assms(2) T by (auto simp: aya_inv_def)
  moreover have "tree_ok (ab_world b')" using assms(2) k(2) tree_ok_cong [of "ab_world b'" "ab_world b"] by (simp add: aya_inv_def)
  ultimately have "aya_inv root tab b'" by (simp add: aya_inv_def T)
  moreover have "aya_pins root b' = aya_pins root b" by (simp add: aya_pins_def pin_at_def k(2))
  moreover have "aya_infos root tab b' ip = aya_infos root tab b ip" if "ip \<notin> set (ips (ep_spec p))" for ip
  proof -
    have "key_of_ip ip \<notin> key_of_ip ` set (ips (ep_spec p))" using that by (auto simp: endpoint_key_roundtrip)
    then show ?thesis using e by (simp add: aya_infos_def T)
  qed
  ultimately show ?thesis using e by (simp add: aya_infos_def T)
qed

lemma aya_remove_info_effect:
  assumes "map_docs A tab run" "aya_inv root tab b" "aya_remove_endpoint_info A root ip b = (r, b')"
  shows "aya_inv root tab b' \<and> aya_pins root b' = aya_pins root b \<and>
    aya_infos root tab b' = (if r = Ok () then (aya_infos root tab b)(ip := None) else aya_infos root tab b)"
proof (cases "lxc_open A root (ab_world b)")
  case (Err e)
  with assms show ?thesis by (auto simp: aya_remove_endpoint_info_def)
next
  case (Ok m)
  obtain r1 k where k: "a_lxc_remove A m (key_of_ip ip) (w_kern (ab_world b)) = (r1, k)" by fastforce
  have b': "b' = b\<lparr>ab_world := (ab_world b)\<lparr>w_kern := k\<rparr>\<rparr>" "r = Ok () \<longleftrightarrow> r1 = Ok () \<or> r1 = Err KeyNotFound"
    using assms(3) Ok k
    by (auto simp: aya_remove_endpoint_info_def lxc_remove_endpoint_by_ip_def lxc_remove_key_def on_kern_def split: result.splits map_error.splits)
  note e = docs_remove [OF assms(1) k]
  have T: "lxc_table root tab (ab_world b) = tab (w_kern (ab_world b)) m" "lxc_table root tab (ab_world b') = tab k m"
    using lxc_open_Ok [OF assms(1) Ok] lxc_table_kern [OF assms(1) Ok] b'(1) by simp_all
  have "tab k m = (if r = Ok () then (tab (w_kern (ab_world b)) m)(key_of_ip ip := None) else tab (w_kern (ab_world b)) m)"
    using e b'(2) by (auto simp: fun_eq_iff)
  note T = T(1) T(2) [unfolded this]
  have "tree_ok (ab_world b')" using assms(2) b'(1) tree_ok_cong [of "ab_world b'" "ab_world b"] by (simp add: aya_inv_def)
  moreover have "dom (lxc_table root tab (ab_world b')) \<subseteq> range key_of_ip" using assms(2) by (auto simp: aya_inv_def T split: if_splits)
  moreover have "aya_pins root b' = aya_pins root b" by (simp add: aya_pins_def pin_at_def b'(1))
  ultimately show ?thesis by (auto simp: aya_inv_def aya_infos_def T fun_eq_iff endpoint_key_roundtrip)
qed

lemma lxc_collect_Ok:
  assumes "lxc_collect rs al = Ok al'"
  shows "(\<forall>e. Err e \<notin> set rs) \<and> fst ` set al' = fst ` set al \<union> {ip. \<exists>key info. Ok (key, info) \<in> set rs \<and> ip_of_key key = Ok ip}"
  using assms
proof (induction rs al rule: lxc_collect.induct)
  case (3 key info rs al)
  obtain ip where ip: "ip_of_key key = Ok ip" using 3(2) by (auto split: result.splits)
  with 3 have "(\<forall>e. Err e \<notin> set rs) \<and> fst ` set al' = fst ` set (AList.update ip info al) \<union>
      {ip. \<exists>key info. Ok (key, info) \<in> set rs \<and> ip_of_key key = Ok ip}" by simp
  then show ?case using ip by (auto simp: dom_update)
qed auto

lemma aya_list_infos_effect:
  assumes "map_docs A tab run" "aya_inv root tab b" "aya_list_endpoint_infos A root b = Ok al"
  shows "dom (aya_infos root tab b) = fst ` set al"
proof -
  obtain m where m: "lxc_open A root (ab_world b) = Ok m" "lxc_collect (a_lxc_iter A m (w_kern (ab_world b))) [] = Ok al"
    using assms(3) by (auto simp: aya_list_endpoint_infos_def lxc_endpoints_def split: result.splits)
  note T = lxc_open_Ok [OF assms(1) m(1)] and c = lxc_collect_Ok [OF m(2)]
  have it: "Ok (key, info) \<in> set (a_lxc_iter A m (w_kern (ab_world b))) \<longleftrightarrow> lxc_table root tab (ab_world b) key = Some info" for key info
    using docs_iter [OF assms(1)] c T by simp
  have "ip \<in> fst ` set al \<longleftrightarrow> (\<exists>key info. lxc_table root tab (ab_world b) key = Some info \<and> ip_of_key key = Ok ip)" for ip
    using c it by simp
  moreover have "ip_of_key key = Ok ip \<longleftrightarrow> key = key_of_ip ip" if "lxc_table root tab (ab_world b) key = Some info" for key info ip
  proof -
    have "key \<in> range key_of_ip" using assms(2) that unfolding aya_inv_def by blast
    then show ?thesis using ip_of_key_of_ip by auto
  qed
  ultimately have "ip \<in> fst ` set al \<longleftrightarrow> (\<exists>info. lxc_table root tab (ab_world b) (key_of_ip ip) = Some info)" for ip by metis
  then have "ip \<in> dom (aya_infos root tab b) \<longleftrightarrow> ip \<in> fst ` set al" for ip by (simp add: aya_infos_def domIff)
  then show ?thesis by blast
qed

lemma aya_config_effect:
  assumes "map_docs A tab run" "aya_inv root tab b" "aya_set_endpoint_config A root lk c b = (r, b')"
  shows "aya_inv root tab b' \<and> aya_pins root b' = aya_pins root b \<and> aya_infos root tab b' = aya_infos root tab b"
proof (cases "config_for_link A root lk (ab_world b)")
  case (Err e)
  with assms show ?thesis by (simp add: aya_set_endpoint_config_def)
next
  case (Ok m)
  obtain r1 k where k: "a_config_set A m 0 c (w_kern (ab_world b)) = (r1, k)" by fastforce
  with assms(3) Ok have "b' = b\<lparr>ab_world := (ab_world b)\<lparr>w_kern := k\<rparr>\<rparr>"
    by (simp add: aya_set_endpoint_config_def config_set_def on_kern_def)
  with kern_step [OF assms(2), of b' k] docs_config [OF assms(1) k] show ?thesis by simp
qed

text \<open>The links that are pinned: every operation but the attachment leaves them alone or removes them.\<close>

definition links_kept :: "'k runs \<Rightarrow> 'k world \<Rightarrow> 'k world \<Rightarrow> bool" where
  "links_kept run w w' \<longleftrightarrow> (\<forall>p l. pin_at w' p = Some (LinkObj l) \<longrightarrow> pin_at w p = Some (LinkObj l)) \<and> run (w_kern w') = run (w_kern w)"

lemma links_ok_kept: "links_ok root run w \<Longrightarrow> links_kept run w w' \<Longrightarrow> links_ok root run w'"
  unfolding links_ok_def links_kept_def by (simp, blast)

lemma links_kept_kern: "run k = run (w_kern w) \<Longrightarrow> links_kept run w (w\<lparr>w_kern := k\<rparr>)"
  by (simp add: links_kept_def pin_at_def)

lemma load_links:
  assumes "load_docs A tab run" "load_with_pins A root ms b = (r, b')"
  shows "links_kept run (ab_world b) (ab_world b')"
proof -
  let ?w = "ab_world b"
  obtain r1 w' where l: "a_load A (globals_dir root) ms ?w = (r1, w')" by fastforce
  have b': "ab_world b' = w'"
    using assms(2) l by (auto simp: load_with_pins_def split: result.splits option.splits)
  have L: "if node_at ?w p \<noteq> None \<or> \<not> prefix (components (globals_dir root)) p \<and> p \<notin> components ` snd ` set ms
         then node_at w' p = node_at ?w p
         else \<forall>obj. node_at w' p = Some (PinNode obj) \<longrightarrow> (\<exists>m. obj = MapObj m \<and> tab (w_kern w') m = Map.empty)"
    "run (w_kern w') = run (w_kern ?w)" for p
    using assms(1) l unfolding load_docs_def by blast+
  have "pin_at w' p = Some (LinkObj n) \<Longrightarrow> pin_at ?w p = Some (LinkObj n)" for p n
    using L(1) [of p] by (auto simp: pin_at_Some split: if_splits)
  then show ?thesis using L(2) by (simp add: links_kept_def b')
qed

lemma load_instance_links:
  assumes "load_docs A tab run" "aya_load_instance A root lk ms b = (r, b')"
  shows "links_kept run (ab_world b) (ab_world b')"
proof -
  obtain r1 b1 where l: "load_with_pins A root ms b = (r1, b1)" by fastforce
  note e = load_links [OF assms(1) l]
  show ?thesis
  proof (cases r1)
    case (Err x)
    with assms(2) l e show ?thesis by (simp add: aya_load_instance_def)
  next
    case (Ok i)
    obtain r2 k where k: "a_logger_init A i (w_kern (ab_world b1)) = (r2, k)" by fastforce
    with Ok l assms(2) have "ab_world b' = (ab_world b1)\<lparr>w_kern := k\<rparr>"
      by (cases r2) (auto simp: aya_load_instance_def start_logging_def aya_stop_logging_def)
    moreover have "run k = run (w_kern (ab_world b1))" using assms(1) k unfolding load_docs_def by blast
    ultimately show ?thesis using e by (simp add: links_kept_def pin_at_def)
  qed
qed

lemma gone_links:
  assumes "gone_is_ok p (r1, w1) b = (r, b')" "w_kern w1 = w_kern (ab_world b)" "\<And>q. pin_at w1 q = pin_at (ab_world b) q \<or> pin_at w1 q = None"
  shows "links_kept run (ab_world b) (ab_world b')"
proof -
  have "ab_world b' = w1" using assms(1) by (auto simp: gone_is_ok_def split: result.splits io_error.splits)
  then show ?thesis using assms(2,3) unfolding links_kept_def by (metis option.distinct(1))
qed

lemma removal_links:
  "aya_unpin_map A p b = (r, b') \<Longrightarrow> links_kept run (ab_world b) (ab_world b')"
  "aya_remove_pin_dir A p b = (r, b') \<Longrightarrow> links_kept run (ab_world b) (ab_world b')"
proof -
  obtain r1 w1 where f: "fs_remove_file (a_fs_fails A) (components p) (ab_world b) = (r1, w1)" by fastforce
  have "pin_at w1 q = pin_at (ab_world b) q \<or> pin_at w1 q = None" for q using remove_file_pins [OF f] by simp
  then show "aya_unpin_map A p b = (r, b') \<Longrightarrow> links_kept run (ab_world b) (ab_world b')"
    using gone_links [of p r1 w1 b r b' run] remove_file_effect [OF f] by (simp add: aya_unpin_map_def f)
  obtain r2 w2 where g: "fs_remove_dir_all (a_fs_fails A) (components p) (ab_world b) = (r2, w2)" by fastforce
  have "pin_at w2 q = pin_at (ab_world b) q \<or> pin_at w2 q = None" for q
  proof -
    have "node_at w2 q = node_at (ab_world b) q \<or> node_at w2 q = None"
      using conjunct1 [OF conjunct2 [OF conjunct2 [OF remove_dir_all_effect [OF g]]]] ..
    then show ?thesis by (auto simp: pin_at_def)
  qed
  then show "aya_remove_pin_dir A p b = (r, b') \<Longrightarrow> links_kept run (ab_world b) (ab_world b')"
    using gone_links [of p r2 w2 b r b' run] remove_dir_all_effect [OF g] by (simp add: aya_remove_pin_dir_def g)
qed

lemma map_links:
  assumes "map_docs A tab run"
  shows "aya_set_endpoint_config A root lk c b = (r, b') \<Longrightarrow> links_kept run (ab_world b) (ab_world b')"
    and "aya_upsert_endpoint_info A root p info b = (r, b') \<Longrightarrow> links_kept run (ab_world b) (ab_world b')"
    and "aya_remove_endpoint_info A root ip b = (r, b') \<Longrightarrow> links_kept run (ab_world b) (ab_world b')"
proof -
  have refl: "links_kept run (ab_world b) (ab_world b)" by (simp add: links_kept_def)
  have "run k = run (w_kern (ab_world b))" if "config_set A m c (w_kern (ab_world b)) = (r, k)" for m k
    using that docs_config [OF assms] by (auto simp: config_set_def split: prod.splits)
  with refl show "aya_set_endpoint_config A root lk c b = (r, b') \<Longrightarrow> links_kept run (ab_world b) (ab_world b')"
    by (auto simp: aya_set_endpoint_config_def on_kern_def links_kept_kern split: result.splits prod.splits)
  have "run k = run (w_kern (ab_world b))" if "lxc_upsert_endpoint A m p info (w_kern (ab_world b)) = (r, k)" for m k
    using that insert_all_effect [OF assms] by (auto simp: lxc_upsert_endpoint_def)
  with refl show "aya_upsert_endpoint_info A root p info b = (r, b') \<Longrightarrow> links_kept run (ab_world b) (ab_world b')"
    by (auto simp: aya_upsert_endpoint_info_def on_kern_def links_kept_kern split: result.splits prod.splits)
  have "run k = run (w_kern (ab_world b))" if "lxc_remove_endpoint_by_ip A m ip (w_kern (ab_world b)) = (r, k)" for m k
    using that docs_remove [OF assms]
    by (auto simp: lxc_remove_endpoint_by_ip_def lxc_remove_key_def split: prod.splits result.splits map_error.splits)
  with refl show "aya_remove_endpoint_info A root ip b = (r, b') \<Longrightarrow> links_kept run (ab_world b) (ab_world b')"
    by (auto simp: aya_remove_endpoint_info_def on_kern_def links_kept_kern split: result.splits prod.splits)
qed

text \<open>An attachment puts the program where it belongs.\<close>

text \<open>The kernel keeps 15 characters of a program's name; the names of the hooks fit.\<close>

lemma hooks_short: "h \<in> set (hooks k) \<Longrightarrow> length (program_name h) \<le> 15"
  by (cases k) (auto simp: required_hook_def)

lemma hook_unique: "h \<in> set (hooks k) \<Longrightarrow> h' \<in> set (hooks k) \<Longrightarrow> program_name h' = program_name h \<Longrightarrow> hs_hook h' = hs_hook h"
  by (cases k) (auto simp: required_hook_def)

lemma links_okD:
  assumes "links_ok root run w"
  shows "pin_at w p = Some (LinkObj l) \<Longrightarrow> run (w_kern w) l \<noteq> None"
    and "pin_at w p = Some (LinkObj l) \<Longrightarrow> pin_at w q = Some (LinkObj l) \<Longrightarrow> p = q"
    and "h \<in> set (hooks k) \<Longrightarrow>
      pin_at w (components (links_dir root) @ [Normal (kind_str k), Normal lk, Normal (program_name h)]) = Some (LinkObj l) \<Longrightarrow>
      run (w_kern w) l = Some (program_name h, lk, hs_hook h)"
  using assms unfolding links_ok_def by blast+

lemma links_ok_pinned:
  assumes "links_ok root run w" "h \<in> set (hooks k)"
    "P = components (links_dir root) @ [Normal (kind_str k), Normal lk, Normal (program_name h)]"
    "pin_post run w P (program_name h) l place w'"
    "run (w_kern w) l = None \<and> place = (lk, hs_hook h) \<or> pin_at w P = Some (LinkObj l) \<and> (\<exists>old. run (w_kern w) l = Some (old, place))"
  shows "links_ok root run w'"
proof -
  note ok = links_okD [OF assms(1)]
  have pl: "place = (lk, hs_hook h)" using assms(5) ok(3) [OF assms(2), of lk l] assms(3) by auto
  have pin: "pin_at w' = (pin_at w)(P \<mapsto> LinkObj l)" and new: "run (w_kern w') l = Some (program_name h, place)"
    and old: "\<And>l'. l' \<noteq> l \<Longrightarrow> run (w_kern w) l' \<noteq> None \<Longrightarrow> run (w_kern w') l' = run (w_kern w) l'"
    using assms(4) by (auto simp: pin_post_def)
  have other: "l' \<noteq> l" if "pin_at w q = Some (LinkObj l')" "q \<noteq> P" for q l'
    using assms(5) ok(1,2) that by blast
  have kept: "run (w_kern w') l' = run (w_kern w) l'" if "pin_at w q = Some (LinkObj l')" "q \<noteq> P" for q l'
    using old [OF other [OF that]] ok(1) [OF that(1)] by blast
  have "run (w_kern w') l' \<noteq> None" if "pin_at w' q = Some (LinkObj l')" for q l'
    using that kept ok(1) new by (cases "q = P") (auto simp: pin)
  moreover have "q = q'" if "pin_at w' q = Some (LinkObj l')" "pin_at w' q' = Some (LinkObj l')" for q q' l'
    using that other ok(2) by (cases "q = P"; cases "q' = P") (auto simp: pin)
  moreover have "run (w_kern w') l' = Some (program_name h', lk', hs_hook h')"
    if "h' \<in> set (hooks k')" "pin_at w' (components (links_dir root) @ [Normal (kind_str k'), Normal lk', Normal (program_name h')]) = Some (LinkObj l')"
    for k' lk' h' l'
  proof (cases "components (links_dir root) @ [Normal (kind_str k'), Normal lk', Normal (program_name h')] = P")
    case True
    then have "k' = k" "lk' = lk" "program_name h' = program_name h" "l' = l" using that(2) by (auto simp: assms(3) pin)
    with new pl hook_unique [OF assms(2)] that(1) show ?thesis by simp
  next
    case False
    with that kept ok(3) show ?thesis by (simp add: pin)
  qed
  ultimately show ?thesis unfolding links_ok_def by blast
qed

lemma links_ok_failed:
  assumes "links_ok root run w" "h \<in> set (hooks k)"
    "P = components (links_dir root) @ [Normal (kind_str k), Normal lk, Normal (program_name h)]"
    "run_kept run w P (program_name h) w'" "pin_at w' = pin_at w \<or> pin_at w' = (pin_at w)(P := None)"
  shows "links_ok root run w'"
proof -
  note ok = links_okD [OF assms(1)]
  have sub: "pin_at w q = Some (LinkObj l)" if "pin_at w' q = Some (LinkObj l)" for q l
    using assms(5) that by (auto split: if_splits)
  have kept: "run (w_kern w') l = Some v \<or> q = P \<and> run (w_kern w') l = Some (program_name h, snd v)"
    if "pin_at w q = Some (LinkObj l)" "run (w_kern w) l = Some v" for q l v
    using assms(4) that ok(2) unfolding run_kept_def by blast
  have "run (w_kern w') l \<noteq> None" if "pin_at w' q = Some (LinkObj l)" for q l
    using kept [OF sub [OF that]] ok(1) [OF sub [OF that]] by auto
  moreover have "run (w_kern w') l = Some (program_name h', lk', hs_hook h')"
    if "h' \<in> set (hooks k')" "pin_at w' (components (links_dir root) @ [Normal (kind_str k'), Normal lk', Normal (program_name h')]) = Some (LinkObj l)"
    for k' lk' h' l
    using kept [OF sub [OF that(2)] ok(3) [OF that(1) sub [OF that(2)]]] by (auto simp: assms(3))
  ultimately show ?thesis unfolding links_ok_def using sub ok(2) by blast
qed

lemma attach_links:
  assumes "tcx_docs A tab run" "aya_ok root tab run b" "h \<in> set (hooks k)" "plain_name lk" "link_ifname lnk = lk"
    "aya_ensure_attached A i (program_name h) (hs_hook h) lnk (endpoint_link_dir root k lk) b = (r, b')"
  shows "links_ok root run (ab_world b')"
proof -
  let ?dir = "endpoint_link_dir root k lk" and ?prog = "program_name h"
  let ?P = "components (links_dir root) @ [Normal (kind_str k), Normal lk, Normal ?prog]"
  have P: "components ?dir @ [Normal ?prog] = ?P"
    using assms(4) by (simp add: components_endpoint_link_dir components_links_dir)
  have prog: "plain_name ?prog" "length ?prog \<le> 15" using assms(3) hooks_short hooks_plain by blast+
  obtain r1 kk where kk: "a_prog_load A i ?prog (w_kern (ab_world b)) = (r1, kk)" by fastforce
  let ?w = "(ab_world b)\<lparr>w_kern := kk\<rparr>"
  have lo: "links_ok root run ?w"
    using links_ok_kept [OF _ links_kept_kern, of root run "ab_world b" kk] docs_prog_load [OF assms(1) kk] assms(2)
    by (simp add: aya_ok_def)
  have t: "tree_ok ?w" using assms(2) tree_ok_cong [of ?w "ab_world b"] by (simp add: aya_ok_def aya_inv_def)
  obtain r2 w2 where u: "upsert_tcx A lk i ?prog ?dir (hs_hook h) ?w = (r2, w2)" by fastforce
  note e = upsert_tcx_effect [OF assms(1) t prog u, unfolded P]
  have w2: "links_ok root run w2"
  proof (cases r2)
    case (Ok x)
    with e obtain l place where "pin_post run ?w ?P ?prog l place w2" "run (w_kern ?w) l = None \<and> place = (lk, hs_hook h) \<or>
      pin_at ?w ?P = Some (LinkObj l) \<and> (\<exists>old. run (w_kern ?w) l = Some (old, place))" by auto
    then show ?thesis by (rule links_ok_pinned [OF lo assms(3) refl])
  next
    case (Err x)
    with e have "run_kept run ?w ?P ?prog w2" "pin_at w2 = pin_at ?w \<or> pin_at w2 = (pin_at ?w)(?P := None)" by simp_all
    then show ?thesis by (rule links_ok_failed [OF lo assms(3) refl])
  qed
  obtain r0 where sc: "sched_classifier A i ?prog = r0" by blast
  have "ab_world b' = ab_world b \<or> ab_world b' = ?w \<or> ab_world b' = w2"
    using assms(6) [unfolded aya_ensure_attached_def upsert_tcx_program_def kk option.case prod.case sc assms(5) u]
    by (cases r0; cases r1; cases r2) auto
  with lo w2 assms(2) show ?thesis by (auto simp: aya_ok_def)
qed

text \<open>With the documented behaviour of aya and the kernel, the backend keeps the promises the loader relies on.\<close>

lemma aya_is_backend:
  assumes "aya_docs A tab run"
  shows "bpf_backend (aya_ops A root) root (aya_ok root tab run) (aya_pins root) (aya_infos root tab)"
proof (unfold_locales, goal_cases)
  have D: "load_docs A tab run" "tcx_docs A tab run" "map_docs A tab run" "link_docs A" using assms by (simp_all add: aya_docs_def)
  {
    case (1 s lk r s')
    then show ?case by (auto simp: aya_ops_def aya_resolve_link_def split: result.splits)
  next
    case (2 s ms lk r s')
    then have l: "aya_load_instance A root lk ms s = (r, s')" and i: "aya_inv root tab s" "links_ok root run (ab_world s)"
      by (simp_all add: aya_ops_def aya_ok_def)
    from aya_load_instance_effect [OF D(1) i(1) 2(2) l] links_ok_kept [OF i(2) load_instance_links [OF D(1) l]]
    show ?case by (simp add: aya_ok_def)
  next
    case (3 s lk h k s0 lnk s1 i r s')
    have n: "link_ifname lnk = lk" using 3(5) D(4) by (auto simp: aya_ops_def aya_resolve_link_def link_docs_def split: result.splits)
    have a: "aya_ensure_attached A i (program_name h) (hs_hook h) lnk (endpoint_link_dir root k lk) s = (r, s')"
      using 3(6) by (simp add: aya_ops_def)
    have d: "components (endpoint_link_dir root k lk) = components (links_dir root) @ [Normal (kind_str k), Normal lk]"
      using 3(2) by (simp add: components_endpoint_link_dir components_links_dir)
    have p: "plain_name (program_name h)" "length (program_name h) \<le> 15" using 3(3) hooks_short hooks_plain by blast+
    from 3(1) have i: "aya_inv root tab s" by (simp add: aya_ok_def)
    from aya_attach_effect [OF D(2) i p d a] attach_links [OF D(2) 3(1,3,2) n a] show ?case
      unfolding aya_ok_def append.simps by (metis (no_types, lifting))
  next
    case (4 s dir d r s')
    then have a: "aya_remove_pin_dir A dir s = (r, s')" and i: "aya_inv root tab s" "links_ok root run (ab_world s)"
      by (simp_all add: aya_ops_def aya_ok_def)
    from aya_remove_dir_effect [OF i(1) 4(2) a] links_ok_kept [OF i(2) removal_links(2) [OF a]] show ?case by (simp add: aya_ok_def)
  next
    case (5 s lk m r s')
    then have a: "aya_unpin_map A (per_endpoint_map_dir root m lk) s = (r, s')" and i: "aya_inv root tab s" "links_ok root run (ab_world s)"
      by (simp_all add: aya_ops_def aya_ok_def)
    from aya_unpin_effect [OF i(1) 5(2) a] links_ok_kept [OF i(2) removal_links(1) [OF a]] show ?case by (simp add: aya_ok_def)
  next
    case (6 s ps)
    then show ?case using aya_list_effect [of root tab s A ps] by (simp add: aya_ops_def aya_ok_def)
  next
    case (7 s lk c r s')
    then have a: "aya_set_endpoint_config A root lk c s = (r, s')" and i: "aya_inv root tab s" "links_ok root run (ab_world s)"
      by (simp_all add: aya_ops_def aya_ok_def)
    from aya_config_effect [OF D(3) i(1) a] links_ok_kept [OF i(2) map_links(1) [OF D(3) a]] show ?case by (simp add: aya_ok_def)
  next
    case (8 s p info r s')
    then have a: "aya_upsert_endpoint_info A root p info s = (r, s')" and i: "aya_inv root tab s" "links_ok root run (ab_world s)"
      by (simp_all add: aya_ops_def aya_ok_def)
    from aya_upsert_effect [OF D(3) i(1) a] links_ok_kept [OF i(2) map_links(2) [OF D(3) a]] show ?case by (simp add: aya_ok_def)
  next
    case (9 s ip r s')
    then have a: "aya_remove_endpoint_info A root ip s = (r, s')" and i: "aya_inv root tab s" "links_ok root run (ab_world s)"
      by (simp_all add: aya_ops_def aya_ok_def)
    from aya_remove_info_effect [OF D(3) i(1) a] links_ok_kept [OF i(2) map_links(3) [OF D(3) a]] show ?case by (simp add: aya_ok_def)
  next
    case (10 s al)
    then show ?case using aya_list_infos_effect [OF D(3), of root s al] by (simp add: aya_ops_def aya_ok_def)
  next
    case (11 s ms r s')
    then have l: "load_with_pins A root ms s = (r, s')" and i: "aya_inv root tab s" "links_ok root run (ab_world s)"
      by (simp_all add: aya_ops_def aya_ok_def)
    from aya_load_effect [OF D(1) i(1) 11(2) l] links_ok_kept [OF i(2) load_links [OF D(1) l]] show ?case by (simp add: aya_ok_def)
  next
    case (12 s)
    then show ?case by (simp add: aya_ops_def aya_stop_all_logging_def aya_ok_def aya_inv_def aya_pins_def aya_infos_def fun_eq_iff)
  next
    case (13 s lk)
    then show ?case by (simp add: aya_ops_def aya_stop_logging_def aya_ok_def aya_inv_def aya_pins_def aya_infos_def fun_eq_iff)
  }
qed

section \<open>A kernel for examples\<close>

text \<open>It has tables and links, uses the maps that are pinned and creates none; no call on the file system fails.\<close>

record mem_kernel =
  mk_tables :: "(nat \<times> (endpoint_key \<times> endpoint_info) list) list"
  mk_links :: "(nat \<times> string \<times> string \<times> hook) list"

definition mem_entries :: "mem_kernel \<Rightarrow> nat \<Rightarrow> (endpoint_key \<times> endpoint_info) list" where
  "mem_entries k m = (case map_of (mk_tables k) m of Some al \<Rightarrow> al | None \<Rightarrow> [])"

definition mem_tab :: "mem_kernel tables" where
  "mem_tab k m = map_of (mem_entries k m)"

definition mem_run :: "mem_kernel runs" where
  "mem_run k = map_of (mk_links k)"

definition mem_map_at :: "string \<Rightarrow> mem_kernel world \<Rightarrow> (nat, string) result" where
  "mem_map_at path w = (case node_at w (components path) of Some (PinNode (MapObj m)) \<Rightarrow> Ok m | _ \<Rightarrow> Err ''ENOENT'')"

definition mem_attach_to_link :: "string \<Rightarrow> nat \<Rightarrow> mem_kernel \<Rightarrow> (nat, bpf_errno) result \<times> mem_kernel" where
  "mem_attach_to_link prog l k =
     (case mem_run k l of
        None \<Rightarrow> (Err ErrNoLink, k)
      | Some (_, place) \<Rightarrow> (Ok l, k\<lparr>mk_links := (l, prog, place) # mk_links k\<rparr>))"

definition mem_attach :: "string \<Rightarrow> string \<Rightarrow> hook \<Rightarrow> mem_kernel \<Rightarrow> (nat, string) result \<times> mem_kernel" where
  "mem_attach prog ifn h k = (let l = Suc (sum_list (map fst (mk_links k))) in (Ok l, k\<lparr>mk_links := (l, prog, ifn, h) # mk_links k\<rparr>))"

definition mem_aya :: "(mem_kernel, unit) aya" where
  "mem_aya =
     \<lparr>a_fs_fails = (\<lambda>_ _. None),
      a_infra_str = (\<lambda>_. []),
      a_runtime = (\<lambda>_. Ok ()),
      a_get_link = (\<lambda>name _. Ok \<lparr>link_ifname = name, link_ifindex = 7\<rparr>),
      a_load = (\<lambda>g maps w. (if \<forall>(_, p) \<in> set maps. is_ok (mem_map_at p w) then Ok () else Err ''no map'', w)),
      a_map = (\<lambda>_ _. True),
      a_logger_init = (\<lambda>_ k. (Err LogMapNotFound, k)),
      a_program = (\<lambda>_ _. Some SchedClassifier),
      a_prog_load = (\<lambda>_ _ k. (Ok (), k)),
      a_prog_name = (\<lambda>_ prog _. Some (take 15 prog)),
      a_link_from_pin = (\<lambda>path w. case node_at w (components path) of
         Some (PinNode (LinkObj l)) \<Rightarrow> Ok l | None \<Rightarrow> Err ErrNoEnt | _ \<Rightarrow> Err (ErrOther ''EINVAL'')),
      a_link_id = (\<lambda>l _. Ok (of_nat l)),
      a_as_classifier_link = (\<lambda>_ _. Ok ()),
      a_as_fd_link = (\<lambda>_ _. Ok ()),
      a_attach_to_link = (\<lambda>_. mem_attach_to_link),
      a_attach = (\<lambda>_. mem_attach),
      a_take_link = (\<lambda>_ _ l k. (Ok l, k)),
      a_pin_link = (\<lambda>l path w. if node_at w (components path) = None
         then (Ok (), w\<lparr>w_tree := (components path, PinNode (LinkObj l)) # w_tree w\<rparr>) else (Err ''EEXIST'', w)),
      a_unpin_link = (\<lambda>l path w. (Ok (), w\<lparr>w_tree := filter (\<lambda>(q, _). q \<noteq> components path) (w_tree w)\<rparr>)),
      a_query_tcx = (\<lambda>ifn h k. Ok (map (\<lambda>(_, prog, _). Some prog) (filter (\<lambda>(_, _, place). place = (ifn, h)) (mk_links k)))),
      a_map_from_pin = mem_map_at,
      a_map_data = (\<lambda>_ _. Ok ()),
      a_try_from = (\<lambda>_ _ _. Ok ()),
      a_lxc_insert = (\<lambda>m key info k. (Ok (), k\<lparr>mk_tables := (m, (key, info) # mem_entries k m) # mk_tables k\<rparr>)),
      a_lxc_remove = (\<lambda>m key k. if mem_tab k m key = None then (Err KeyNotFound, k)
         else (Ok (), k\<lparr>mk_tables := (m, filter (\<lambda>(q, _). q \<noteq> key) (mem_entries k m)) # mk_tables k\<rparr>)),
      a_lxc_get = (\<lambda>m key k. ok_or (mem_tab k m key) KeyNotFound),
      a_lxc_iter = (\<lambda>m k. map (\<lambda>key. Ok (key, the (mem_tab k m key))) (remdups (map fst (mem_entries k m)))),
      a_config_set = (\<lambda>_ _ _ k. (Ok (), k)),
      a_config_get = (\<lambda>_ _ _. Err ''not kept''),
      a_calls_set = (\<lambda>_ _ _ k. (Ok (), k)),
      a_calls_get = (\<lambda>_ _ _. Err ''not kept''),
      a_metrics_iter = (\<lambda>_ _. []),
      a_metrics_keys = (\<lambda>_ _. []),
      a_metrics_remove = (\<lambda>_ _ k. (Err KeyNotFound, k))\<rparr>"

lemma mem_load_docs: "load_docs mem_aya mem_tab mem_run"
  by (auto simp: load_docs_def mem_aya_def)

lemma mem_tcx_docs: "tcx_docs mem_aya mem_tab mem_run"
proof -
  have fresh: "map_of al (Suc (sum_list (map fst al))) = None" for al :: "(nat \<times> string \<times> string \<times> hook) list"
    using member_le_sum_list [of _ "map fst al"] by (force simp: map_of_eq_None_iff)
  have t [simp]: "mem_tab (k\<lparr>mk_links := x\<rparr>) = mem_tab k" for k x by (simp add: mem_tab_def mem_entries_def fun_eq_iff)
  have "\<exists>old ifn h. mem_run k l = Some (old, ifn, h) \<and> mem_run k' = (mem_run k)(l \<mapsto> (prog, ifn, h))"
    if "mem_attach_to_link prog l k = (Ok n, k')" for prog l k n k'
    using that by (auto simp: mem_attach_to_link_def mem_run_def split: option.splits)
  moreover have "mem_run k' = mem_run k" if "mem_attach_to_link prog l k = (Err e, k')" for prog l k e k'
    using that by (auto simp: mem_attach_to_link_def split: option.splits)
  moreover have "mem_tab k' = mem_tab k" if "mem_attach_to_link prog l k = (r, k')" for prog l k r k'
    using that by (auto simp: mem_attach_to_link_def split: option.splits)
  moreover have "mem_run k l = None \<and> mem_run k' l = Some (prog, ifn, h) \<and> mem_tab k' = mem_tab k \<and> mem_run k \<subseteq>\<^sub>m mem_run k'"
    if "mem_attach prog ifn h k = (r, k')" "r = Ok l" for prog ifn h k l k' r
    using that fresh [of "mk_links k"] by (auto simp: mem_attach_def mem_run_def Let_def map_le_def)
  moreover have "\<exists>l. fst (mem_attach prog ifn h k) = Ok l" for prog ifn h k by (simp add: mem_attach_def Let_def)
  ultimately show ?thesis unfolding tcx_docs_def
    by (auto simp: mem_aya_def node_at_def fun_eq_iff split: result.splits option.splits node.splits bpf_object.splits if_splits) (metis fst_conv)+
qed

lemma mem_map_docs: "map_docs mem_aya mem_tab mem_run"
proof -
  have "Ok (key, info) \<in> set (a_lxc_iter mem_aya m k) \<longleftrightarrow> mem_tab k m key = Some info" for m k key info
  proof -
    have "map_of (mem_entries k m) key \<noteq> None \<longleftrightarrow> key \<in> fst ` set (mem_entries k m)" by (simp add: map_of_eq_None_iff)
    then show ?thesis by (auto simp: mem_aya_def mem_tab_def)
  qed
  then show ?thesis unfolding map_docs_def
    by (auto simp: mem_aya_def mem_map_at_def mem_tab_def mem_run_def mem_entries_def map_of_filter_key fun_eq_iff
        split: option.splits node.splits bpf_object.splits if_splits)
qed

lemma mem_docs: "aya_docs mem_aya mem_tab mem_run"
  by (simp add: aya_docs_def mem_load_docs mem_tcx_docs mem_map_docs link_docs_def) (simp add: mem_aya_def)

interpretation mem: bpf_backend "aya_ops mem_aya root" root "aya_ok root mem_tab mem_run" "aya_pins root" "aya_infos root mem_tab" for root
  by (rule aya_is_backend [OF mem_docs])

text \<open>A file system in which the maps of an interface \<open>v\<close> are pinned.\<close>

definition sample_backend :: "mem_kernel aya_backend" where
  "sample_backend = \<lparr>ab_world =
     \<lparr>w_tree =
        [([RootDir], DirNode), ([RootDir, Normal ''b''], DirNode), ([RootDir, Normal ''b'', Normal ''globals''], DirNode),
         ([RootDir, Normal ''b'', Normal ''globals'', Normal ''lxc_map''], PinNode (MapObj 1)),
         ([RootDir, Normal ''b'', Normal ''globals'', Normal ''metrics_map''], PinNode (MapObj 2)),
         ([RootDir, Normal ''b'', Normal ''globals'', Normal ''calls_map_v''], PinNode (MapObj 3)),
         ([RootDir, Normal ''b'', Normal ''globals'', Normal ''endpoint_config_v''], PinNode (MapObj 4))],
      w_clock = 0, w_kern = \<lparr>mk_tables = [], mk_links = []\<rparr>\<rparr>, ab_loggers = []\<rparr>"

lemma sample_backend_pin: "pin_at (ab_world sample_backend) p = Some obj \<Longrightarrow>
    (\<exists>m. obj = MapObj m) \<and> prefix (components (globals_dir ''/b'')) p"
proof -
  have "components (globals_dir ''/b'') = [RootDir, Normal ''b'', Normal ''globals'']" by code_simp
  then show "pin_at (ab_world sample_backend) p = Some obj \<Longrightarrow> (\<exists>m. obj = MapObj m) \<and> prefix (components (globals_dir ''/b'')) p"
    by (auto simp: sample_backend_def pin_at_def node_at_def split: if_splits)
qed

lemma sample_tree: "tree_ok (ab_world sample_backend)"
  unfolding tree_ok_def
proof (intro allI impI)
  fix p q assume a: "node_at (ab_world sample_backend) q \<noteq> None" "strict_prefix p q" "p \<noteq> []"
  obtain zs where "q = p @ zs" "zs \<noteq> []" using a(2) by (auto simp: strict_prefix_def prefix_def)
  then have "length p < length q" "p = take (length p) q" by simp_all
  then obtain n where "n < length q" "p = take n q" by blast
  with a(1,3) show "node_at (ab_world sample_backend) p = Some DirNode"
    by (auto simp: sample_backend_def node_at_def less_Suc_eq numeral_eq_Suc split: if_splits)
qed

lemma sample_backend_ok: "aya_ok ''/b'' mem_tab mem_run sample_backend" "aya_pins ''/b'' sample_backend = {}"
proof -
  have "lxc_table ''/b'' mem_tab (ab_world sample_backend) = Map.empty"
    by (auto simp: lxc_table_def mem_tab_def mem_entries_def sample_backend_def split: option.splits bpf_object.splits)
  moreover have "links_ok ''/b'' mem_run (ab_world sample_backend)"
    using sample_backend_pin unfolding links_ok_def by blast
  ultimately show "aya_ok ''/b'' mem_tab mem_run sample_backend" using sample_tree by (simp add: aya_ok_def aya_inv_def)
  show "aya_pins ''/b'' sample_backend = {}"
    using sample_backend_pin links_globals(2) [of "''/b''"] by (fastforce simp: aya_pins_def)
qed

section \<open>Properties\<close>

text \<open>C8: the right program runs at the right place. Whatever commands the loader of a daemon was given, and
  whichever calls failed, a link that is pinned for a program of an endpoint runs this program, on the interface and at the
  hook of the endpoint; and an endpoint that is listed has all its programs pinned.\<close>

theorem pinned_programs_match:
  fixes A :: "('k, 'i) aya"
  assumes "aya_docs A tab run" "aya_ok root tab run b" "pin_form (aya_pins root b)" "\<forall>c \<in> set cs. command_ok c"
    "actor_run (aya_ops A root) es cs (loader_new b root) = (rs, l)" "h \<in> set (hooks k)"
    "q = components (endpoint_link_dir root k lk) @ [Normal (program_name h)]"
  shows "(\<forall>n. plain_name lk \<longrightarrow> pin_at (ab_world (ld_backend l)) q = Some (LinkObj n) \<longrightarrow> run (w_kern (ab_world (ld_backend l))) n = Some (program_name h, lk, hs_hook h)) \<and>
    (\<forall>eps. list_loader_endpoints (aya_ops A root) l = Ok eps \<longrightarrow> (k, lk) \<in> set eps \<longrightarrow> pin_at (ab_world (ld_backend l)) q \<noteq> None)"
proof -
  note B = aya_is_backend [OF assms(1), of root]
  have "bpf_backend.loader_ok root (aya_ok root tab run) (aya_pins root) (loader_new b root :: ('k aya_backend, 'i) loader)"
    using assms(2,3) by (simp add: bpf_backend.loader_ok_def [OF B] loader_new_def)
  from bpf_backend.actor_ok [OF B this assms(4,5)]
  have ok: "aya_ok root tab run (ld_backend l)" "ld_root l = root" "pin_form (aya_pins root (ld_backend l))"
    by (simp_all add: bpf_backend.loader_ok_def [OF B])
  have P: "q = components (links_dir root) @ [Normal (kind_str k), Normal lk, Normal (program_name h)]" if "plain_name lk"
    using that by (simp add: assms(7) components_endpoint_link_dir components_links_dir)
  have "pin_at (ab_world (ld_backend l)) q \<noteq> None" if "list_loader_endpoints (aya_ops A root) l = Ok eps" "(k, lk) \<in> set eps" for eps
  proof -
    have a: "attached_in (aya_pins root (ld_backend l)) k lk"
      using bpf_backend.list_exact [OF B ok that(1)] that(2) by auto
    then show ?thesis
      using P [OF pin_form_plain [OF ok(3) a]] assms(6) a unfolding attached_in_iff by (auto simp: aya_pins_def)
  qed
  moreover have "run (w_kern (ab_world (ld_backend l))) n = Some (program_name h, lk, hs_hook h)"
    if "plain_name lk" "pin_at (ab_world (ld_backend l)) q = Some (LinkObj n)" for n
    using links_okD(3) [OF _ assms(6)] ok(1) that P unfolding aya_ok_def by metis
  ultimately show ?thesis by blast
qed

theorem pinned_programs_match_witness:
  "\<exists>n. mem_run (w_kern (ab_world (ld_backend (snd (actor_run (aya_ops mem_aya ''/b'') (\<lambda>_. [])
     [AddLoaderEndpoint sample_container] (loader_new sample_backend ''/b'')))))) n = Some (''to_container'', ''v'', TcxEgress)"
proof -
  let ?cs = "[AddLoaderEndpoint sample_container]"
  let ?h = "required_hook TcxEgress ''to_container''"
  obtain rs l where r: "actor_run (aya_ops mem_aya ''/b'') (\<lambda>_. []) ?cs (loader_new sample_backend ''/b'') = (rs, l)" by fastforce
  have l: "l = snd (actor_run (aya_ops mem_aya ''/b'') (\<lambda>_. []) ?cs (loader_new sample_backend ''/b''))" using r by simp
  have c: "\<forall>c \<in> set ?cs. command_ok c" by (simp add: sample_container_def plain_name_def)
  have h: "?h \<in> set (hooks KContainer)" "program_name ?h = ''to_container''" "hs_hook ?h = TcxEgress" by (simp_all add: required_hook_def)
  have p: "pin_at (ab_world (ld_backend l)) (components (endpoint_link_dir ''/b'' KContainer ''v'') @ [Normal ''to_container'']) = Some (LinkObj 2)"
    unfolding l by code_simp
  have f: "pin_form (aya_pins ''/b'' sample_backend)" by (simp add: sample_backend_ok(2) pin_form_def)
  have "plain_name ''v''" by (simp add: plain_name_def)
  with pinned_programs_match [OF mem_docs sample_backend_ok(1) f c r h(1) refl, of "''v''"] p h
  have "mem_run (w_kern (ab_world (ld_backend l))) 2 = Some (''to_container'', ''v'', TcxEgress)" by simp
  then show ?thesis unfolding l by blast
qed

text \<open>C7: an endpoint that was added is reachable. After the loader has added a container's endpoint without error, a packet from
  another container or from the host to its IPv4 address, with hops left and no fragment, is redirected to the interface of
  that name, carries the MAC addresses of the endpoint and has one hop less; all this with the table the loader wrote.\<close>

theorem added_endpoint_reachable:
  assumes "aya_docs A tab run" "aya_ok root tab run (ld_backend l)" "ld_root l = root" "plain_name (host_iface_name (ep_spec p))"
    "add_loader_endpoint (aya_ops A root) es (Container p) l = (Ok (), l')"
    "ep_ipv4 (ep_spec p) = Some a" "mac_wf (container_mac (ep_spec p))" "mac_wf (host_mac (ep_spec p))"
    "csum_docs K" "csum_works K (length (skb_data s))" "config_slot s \<noteq> None"
    "k_ether_type K (eth_type (skb_data s)) = Some EtIpv4" "34 \<le> length (skb_data s)"
    "\<not> is_fragmented (slice 14 34 (skb_data s))" "1 < skb_data s ! 22" "slice 30 34 (skb_data s) = be_bytes 4 a"
    "lxc_map s = lxc_table root tab (ab_world (ld_backend l'))" "P \<in> {try_from_container K, try_from_host K}"
  shows "\<exists>lnk. a_get_link A (host_iface_name (ep_spec p)) (w_kern (ab_world (ld_backend l))) = Ok lnk \<and>
    delivered (container_info p (link_ifindex lnk)) (skb_data s) (skb_data (snd (ebpf_dispatch P s))) \<and>
    redirects (snd (ebpf_dispatch P s)) = redirects s @ [ToInterface (link_ifindex lnk) 0] \<and>
    fst (ebpf_dispatch P s) = ucast (k_redirect K (link_ifindex lnk) 0)"
proof -
  note B = aya_is_backend [OF assms(1), of root]
  have pl: "plain_name (le_link (Container p))" using assms(4) by simp
  have ip: "V4 a \<in> set (ips (ep_spec p))" using assms(6) by (simp add: ips_def)
  obtain lnk s1 where lnk: "b_resolve_link (aya_ops A root) (host_iface_name (ep_spec p)) (ld_backend l) = (Ok lnk, s1)"
    "aya_infos root tab (ld_backend l') (V4 a) = Some (container_info p (link_ifindex lnk))"
    using bpf_backend.add_effect [OF B assms(2,3) pl assms(5)] ip unfolding bpf_backend.add_post_def [OF B] by auto
  have g: "a_get_link A (host_iface_name (ep_spec p)) (w_kern (ab_world (ld_backend l))) = Ok lnk"
    using lnk(1) by (auto simp: aya_ops_def aya_resolve_link_def split: result.splits)
  let ?ep = "container_info p (link_ifindex lnk)"
  have mac: "length (info_host_mac ?ep) = 6" "length (info_container_mac ?ep) = 6"
    using assms(7,8) by (simp_all add: container_info_def mac_wf_def)
  have look: "lookup_endpoint (from_ipv4_octets (slice 30 34 (skb_data s))) s = Some ?ep"
    using lnk(2) by (simp add: lookup_endpoint_def assms(16,17) aya_infos_def)
  obtain obs where P: "P s = local_delivery K ?ep (update_metrics K (ucast (skb_len s)) obs s)"
    using assms(18) from_container_ipv4 [OF assms(13,12,11,14) look] from_host_ipv4 [OF assms(13,12,14) look] by auto
  obtain v s' where d: "local_delivery K ?ep (update_metrics K (ucast (skb_len s)) obs s) = (Ok v, s')"
    using local_delivery_total [OF assms(9) _ _ _ mac, of "update_metrics K (ucast (skb_len s)) obs s"] assms(10,13,15) by auto
  from local_delivery_Ok [OF assms(9) mac d] P d g show ?thesis
    by (intro exI [of _ lnk]) (auto simp: ebpf_dispatch_def container_info_def)
qed

definition sample_pod :: endpoint_persist where
  "sample_pod = \<lparr>ep_id = 5, ep_spec =
     \<lparr>container_name = None, container_id = None, docker_network_id = None, docker_endpoint = None,
      host_iface_name = ''v'', host_iface_index = 3, container_mac = MacAddress [2, 0, 0, 0, 0, 1],
      host_mac = MacAddress [2, 0, 0, 0, 0, 2], ep_ipv4 = Some 0x0A000002, ep_ipv6 = None, k8s_ns = None, k8s_pod_name = None\<rparr>\<rparr>"

theorem added_endpoint_reachable_witness:
  "\<exists>l' s. add_loader_endpoint (aya_ops mem_aya ''/b'') (\<lambda>_. []) (Container sample_pod) (loader_new sample_backend ''/b'') = (Ok (), l') \<and>
    lxc_map s = lxc_table ''/b'' mem_tab (ab_world (ld_backend l')) \<and>
    redirects (snd (ebpf_dispatch (try_from_host sample_kernel) s)) = [ToInterface 7 0]"
proof -
  let ?l = "loader_new sample_backend ''/b'' :: (mem_kernel aya_backend, unit) loader"
  let ?add = "add_loader_endpoint (aya_ops mem_aya ''/b'') (\<lambda>_. []) (Container sample_pod) ?l"
  define l' where "l' = snd ?add"
  have "fst ?add = Ok ()" by code_simp
  then have r: "?add = (Ok (), l')" unfolding l'_def by (metis prod.collapse)
  define s where "s = (sample_state sample_ipv4)\<lparr>lxc_map := lxc_table ''/b'' mem_tab (ab_world (ld_backend l'))\<rparr>"
  have s: "skb_data s = sample_ipv4" "redirects s = []" "config_slot s \<noteq> None" "lxc_map s = lxc_table ''/b'' mem_tab (ab_world (ld_backend l'))"
    by (simp_all add: s_def sample_state_def)
  have len: "length sample_ipv4 = 34" "sample_ipv4 ! 22 = 64" by (simp_all add: sample_ipv4_def)
  have e: "k_ether_type sample_kernel (eth_type sample_ipv4) = Some EtIpv4" "\<not> is_fragmented (slice 14 34 sample_ipv4)"
    "slice 30 34 sample_ipv4 = be_bytes 4 (0x0A000002 :: u32)" by code_simp+
  have w: "csum_works sample_kernel (length sample_ipv4)" using sample_csum_works len by simp
  have b: "aya_ok ''/b'' mem_tab mem_run (ld_backend ?l)" "ld_root ?l = ''/b''" "ld_backend ?l = sample_backend"
    using sample_backend_ok by (simp_all add: loader_new_def)
  have pod: "plain_name (host_iface_name (ep_spec sample_pod))" "ep_ipv4 (ep_spec sample_pod) = Some 0x0A000002"
    "mac_wf (container_mac (ep_spec sample_pod))" "mac_wf (host_mac (ep_spec sample_pod))"
    by (simp_all add: sample_pod_def plain_name_def mac_wf_def)
  have "\<exists>lnk. a_get_link mem_aya ''v'' (w_kern (ab_world sample_backend)) = Ok lnk \<and>
      redirects (snd (ebpf_dispatch (try_from_host sample_kernel) s)) = [ToInterface (link_ifindex lnk) 0]"
    using added_endpoint_reachable [OF mem_docs b(1,2) pod(1) r pod(2-4) sample_csum_docs, of s "try_from_host sample_kernel",
        unfolded s(1), OF w s(3) e(1) _ e(2) _ e(3) s(4)] len s(2) b(3)
    by (auto simp: sample_pod_def)
  then have "redirects (snd (ebpf_dispatch (try_from_host sample_kernel) s)) = [ToInterface 7 0]" by (auto simp: mem_aya_def)
  with r s(4) show ?thesis by blast
qed

end
