(* ===== verification/Mock_Loader.thy ===== *)
theory Mock_Loader
  imports Aya_Contract
begin

text \<open>
  The loader in memory that the tests of the endpoint manager use (\<open>loader/mock_dataplane_loader.rs\<close>): it records the
  calls and keeps the list of endpoints, fails once on request, and refuses calls after a shutdown. Shown: as long as the actor
  over the aya backend reports no error, the loader in memory gives the same answers, so what holds of its clients holds with
  the actor in its place.
\<close>

section \<open>State and operations\<close>

datatype loader_call =
    LcLoadGlobalMaps
  | LcAddLoaderEndpoint loader_endpoint_kind string
  | LcRemoveLoaderEndpoint loader_endpoint_kind string
  | LcListLoaderEndpoints
  | LcReconcile "(loader_endpoint_kind \<times> string) list"
  | LcTeardownAll
  | LcShutdown

record mock_state =
  ml_calls :: "loader_call list"
  ml_endpoints :: "(loader_endpoint_kind \<times> string) list"
  ml_fail_next :: "string option"
  ml_shut_down :: bool

definition ml_new :: mock_state where
  "ml_new = \<lparr>ml_calls = [], ml_endpoints = [], ml_fail_next = None, ml_shut_down = False\<rparr>"

definition fail_next :: "string \<Rightarrow> mock_state \<Rightarrow> mock_state" where
  "fail_next msg s = s\<lparr>ml_fail_next := Some msg\<rparr>"

definition ml_record :: "loader_call \<Rightarrow> mock_state \<Rightarrow> (unit, dp_error) result \<times> mock_state" where
  "ml_record c s =
     (let s = s\<lparr>ml_calls := ml_calls s @ [c]\<rparr>
      in if ml_shut_down s then (Err ActorGone, s)
         else case ml_fail_next s of
                Some msg \<Rightarrow> (Err (Injected msg), s\<lparr>ml_fail_next := None\<rparr>)
              | None \<Rightarrow> (Ok (), s))"

text \<open>An operation is recorded first; what it does to the state is \<open>f\<close>.\<close>

definition recorded :: "loader_call \<Rightarrow> (mock_state \<Rightarrow> 'r \<times> mock_state) \<Rightarrow> mock_state \<Rightarrow> ('r, dp_error) result \<times> mock_state" where
  "recorded c f s =
     (case ml_record c s of
        (Err e, s) \<Rightarrow> (Err e, s)
      | (Ok _, s) \<Rightarrow> (case f s of (r, s) \<Rightarrow> (Ok r, s)))"

definition push_new :: "'a \<Rightarrow> 'a list \<Rightarrow> 'a list" where
  "push_new x xs = (if x \<in> set xs then xs else xs @ [x])"

definition ml_load_global_maps :: "mock_state \<Rightarrow> (unit, dp_error) result \<times> mock_state" where
  "ml_load_global_maps = recorded LcLoadGlobalMaps (\<lambda>s. ((), s))"

definition ml_add_loader_endpoint :: "loader_endpoint \<Rightarrow> mock_state \<Rightarrow> (unit, dp_error) result \<times> mock_state" where
  "ml_add_loader_endpoint ep =
     recorded (LcAddLoaderEndpoint (le_kind ep) (le_link ep))
       (\<lambda>s. ((), s\<lparr>ml_endpoints := push_new (le_kind ep, le_link ep) (ml_endpoints s)\<rparr>))"

definition ml_remove_loader_endpoint :: "loader_endpoint \<Rightarrow> mock_state \<Rightarrow> (unit, dp_error) result \<times> mock_state" where
  "ml_remove_loader_endpoint ep =
     recorded (LcRemoveLoaderEndpoint (le_kind ep) (le_link ep))
       (\<lambda>s. ((), s\<lparr>ml_endpoints := filter (\<lambda>(k, lk). \<not> (k = le_kind ep \<and> lk = le_link ep)) (ml_endpoints s)\<rparr>))"

definition ml_list_loader_endpoints :: "mock_state \<Rightarrow> ((loader_endpoint_kind \<times> string) list, dp_error) result \<times> mock_state" where
  "ml_list_loader_endpoints = recorded LcListLoaderEndpoints (\<lambda>s. (ml_endpoints s, s))"

definition ml_reconcile ::
  "loader_endpoint list \<Rightarrow> mock_state \<Rightarrow> ((loader_endpoint_kind \<times> string \<times> dp_error) list, dp_error) result \<times> mock_state" where
  "ml_reconcile desired =
     (let desired = map (\<lambda>ep. (le_kind ep, le_link ep)) desired
      in recorded (LcReconcile desired) (\<lambda>s. ([], s\<lparr>ml_endpoints := fold push_new desired []\<rparr>)))"

definition ml_teardown_all :: "mock_state \<Rightarrow> (unit, dp_error) result \<times> mock_state" where
  "ml_teardown_all = recorded LcTeardownAll (\<lambda>s. ((), s))"

definition ml_shutdown :: "mock_state \<Rightarrow> (unit, dp_error) result \<times> mock_state" where
  "ml_shutdown = recorded LcShutdown (\<lambda>s. ((), s\<lparr>ml_shut_down := True\<rparr>))"

text \<open>The methods of the trait, named by the commands of the actor.\<close>

fun ml_dispatch :: "command \<Rightarrow> mock_state \<Rightarrow> reply \<times> mock_state" where
  "ml_dispatch LoadGlobalMaps s = map_prod RUnit id (ml_load_global_maps s)"
| "ml_dispatch (AddLoaderEndpoint ep) s = map_prod RUnit id (ml_add_loader_endpoint ep s)"
| "ml_dispatch (RemoveLoaderEndpoint ep) s = map_prod RUnit id (ml_remove_loader_endpoint ep s)"
| "ml_dispatch ListLoaderEndpoints s = map_prod RList id (ml_list_loader_endpoints s)"
| "ml_dispatch (Reconcile desired) s = map_prod RErrors id (ml_reconcile desired s)"
| "ml_dispatch TeardownAll s = map_prod RUnit id (ml_teardown_all s)"
| "ml_dispatch Shutdown s = map_prod RUnit id (ml_shutdown s)"

fun ml_run :: "command list \<Rightarrow> mock_state \<Rightarrow> reply list \<times> mock_state" where
  "ml_run [] s = ([], s)"
| "ml_run (c # cs) s = (case ml_dispatch c s of (r, s) \<Rightarrow> (case ml_run cs s of (rs, s) \<Rightarrow> (r # rs, s)))"

fun call_of :: "command \<Rightarrow> loader_call" where
  "call_of LoadGlobalMaps = LcLoadGlobalMaps"
| "call_of (AddLoaderEndpoint ep) = LcAddLoaderEndpoint (le_kind ep) (le_link ep)"
| "call_of (RemoveLoaderEndpoint ep) = LcRemoveLoaderEndpoint (le_kind ep) (le_link ep)"
| "call_of ListLoaderEndpoints = LcListLoaderEndpoints"
| "call_of (Reconcile desired) = LcReconcile (map le_key desired)"
| "call_of TeardownAll = LcTeardownAll"
| "call_of Shutdown = LcShutdown"

section \<open>Answers\<close>

text \<open>An answer without any error, and when two answers agree: a listing may come in another order. An actor that is gone gives no
  answer, and its caller gets an error.\<close>

fun answer_ok :: "reply \<Rightarrow> bool" where
  "answer_ok (RUnit r) = (r = Ok ())"
| "answer_ok (RList r) = (\<exists>xs. r = Ok xs)"
| "answer_ok (RErrors r) = (r = Ok [])"

fun answer_gone :: "reply \<Rightarrow> bool" where
  "answer_gone (RUnit r) = (r = Err ActorGone)"
| "answer_gone (RList r) = (r = Err ActorGone)"
| "answer_gone (RErrors r) = (r = Err ActorGone)"

fun answers_agree :: "reply option \<Rightarrow> reply \<Rightarrow> bool" where
  "answers_agree None r = answer_gone r"
| "answers_agree (Some (RList (Ok xs))) (RList (Ok ys)) = (distinct xs \<and> distinct ys \<and> set xs = set ys)"
| "answers_agree (Some r) r' = (r = r')"

definition mirrors :: "component list set \<Rightarrow> mock_state \<Rightarrow> bool" where
  "mirrors P s \<longleftrightarrow> \<not> ml_shut_down s \<and> ml_fail_next s = None \<and> distinct (ml_endpoints s) \<and>
     set (ml_endpoints s) = {(k, lk). attached_in P k lk}"

lemmas ml_defs = ml_load_global_maps_def ml_add_loader_endpoint_def ml_remove_loader_endpoint_def ml_list_loader_endpoints_def
  ml_reconcile_def ml_teardown_all_def ml_shutdown_def recorded_def ml_record_def Let_def

lemma push_new_set [simp]: "set (push_new x xs) = insert x (set xs)"
  by (auto simp: push_new_def)

lemma push_new_distinct [simp]: "distinct (push_new x xs) \<longleftrightarrow> distinct xs"
  by (auto simp: push_new_def)

lemma fold_push_new: "set (fold push_new ys xs) = set xs \<union> set ys" "distinct (fold push_new ys xs) \<longleftrightarrow> distinct xs"
  by (induction ys arbitrary: xs) auto

text \<open>After a shutdown every call is refused, and still recorded.\<close>

lemma ml_refuses: "ml_shut_down s \<Longrightarrow> ml_dispatch c s = (r, s') \<Longrightarrow> answer_gone r \<and> s' = s\<lparr>ml_calls := ml_calls s @ [call_of c]\<rparr>"
  by (cases c) (auto simp: ml_defs le_key_def)

lemma ml_gone: "ml_shut_down s \<Longrightarrow> ml_run cs s = (rs, s') \<Longrightarrow>
    list_all2 answers_agree (map (\<lambda>_. None) cs) rs \<and> s' = s\<lparr>ml_calls := ml_calls s @ map call_of cs\<rparr>"
proof (induction cs arbitrary: s rs)
  case (Cons c cs)
  obtain r s1 rs1 where d: "ml_dispatch c s = (r, s1)" "ml_run cs s1 = (rs1, s')" "rs = r # rs1"
    using Cons.prems(2) by (auto split: prod.splits)
  with ml_refuses [OF Cons.prems(1) d(1)] Cons.IH [OF _ d(2)] Cons.prems(1) show ?case by simp
qed simp

lemma injected_once:
  assumes "ml_dispatch c (fail_next msg s) = (r, s')" "\<not> ml_shut_down s"
  shows "\<not> answer_ok r \<and> s' = s\<lparr>ml_calls := ml_calls s @ [call_of c], ml_fail_next := None\<rparr>"
  using assms by (cases c) (auto simp: ml_defs fail_next_def le_key_def)

context bpf_backend
begin

lemma dispatch_mirrored:
  assumes "loader_ok l" "command_ok c" "mirrors (lpins (ld_backend l)) s" "dispatch B es c l = (r, go, l')" "answer_ok r"
    "ml_dispatch c s = (r', s')"
  shows "answers_agree (Some r) r' \<and> ml_calls s' = ml_calls s @ [call_of c] \<and>
    set (ml_endpoints s') = {(k, lk). attached_in (lpins (ld_backend l')) k lk} \<and>
    (if go then mirrors (lpins (ld_backend l')) s' else ml_shut_down s')"
proof -
  have l: "inv (ld_backend l)" "ld_root l = root" "pin_form (lpins (ld_backend l))" using assms(1) by (simp_all add: loader_ok_def)
  have m: "\<not> ml_shut_down s" "ml_fail_next s = None" "distinct (ml_endpoints s)"
    "set (ml_endpoints s) = {(k, lk). attached_in (lpins (ld_backend l)) k lk}" using assms(3) by (simp_all add: mirrors_def)
  show ?thesis
  proof (cases c)
    case LoadGlobalMaps
    then have e: "load_global_maps B l = (Ok (), l')" "r = RUnit (Ok ())" "go" using assms(4,5) by (auto split: prod.splits)
    obtain r1 b1 where b: "b_load_global_maps B (global_map_pins root) (ld_backend l) = (r1, b1)" by fastforce
    have "lpins b1 = lpins (ld_backend l)" using load_globals_law [OF l(1) global_pins_globals b] by simp
    moreover have "ld_backend l' = b1" using e(1) unfolding load_global_maps_def l(2) b by (auto split: result.splits)
    ultimately have "lpins (ld_backend l') = lpins (ld_backend l)" by simp
    with m e assms(6) LoadGlobalMaps show ?thesis by (auto simp: ml_defs mirrors_def)
  next
    case (AddLoaderEndpoint ep)
    then have e: "add_loader_endpoint B es ep l = (Ok (), l')" "r = RUnit (Ok ())" "go" using assms(4,5) by (auto split: prod.splits)
    have p: "add_post ep (Ok ()) (ld_backend l) (ld_backend l')" using add_effect [OF l(1,2) _ e(1)] assms(2) AddLoaderEndpoint by simp
    have "{(k, lk). attached_in (lpins (ld_backend l')) k lk} = insert (le_kind ep, le_link ep) (set (ml_endpoints s))"
      using p add_post_keeps [OF p] attached_add [of "lpins (ld_backend l)" "lpins (ld_backend l')" "le_kind ep" "le_link ep"]
      unfolding m(4) add_post_def attached_in_def by blast
    with m e assms(6) AddLoaderEndpoint show ?thesis by (auto simp: ml_defs mirrors_def)
  next
    case (RemoveLoaderEndpoint ep)
    then have e: "remove_loader_endpoint B ep l = (Ok (), l')" "r = RUnit (Ok ())" "go" using assms(4,5) by (auto split: prod.splits)
    have "lpins (ld_backend l') = without (lpins (ld_backend l)) (le_kind ep) (le_link ep)"
      using remove_effect [OF l(1,2) _ e(1)] assms(2) RemoveLoaderEndpoint by simp
    with m e assms(6) RemoveLoaderEndpoint show ?thesis by (auto simp: ml_defs mirrors_def attached_without)
  next
    case ListLoaderEndpoints
    then have g: "r = RList (list_loader_endpoints B l) \<and> go \<and> l' = l" using assms(4) by auto
    then obtain xs where e: "list_loader_endpoints B l = Ok xs" using assms(5) by (cases "list_loader_endpoints B l") simp_all
    have "r' = RList (Ok (ml_endpoints s))" "s' = s\<lparr>ml_calls := ml_calls s @ [call_of c]\<rparr>"
      using assms(6) m(1,2) ListLoaderEndpoints by (simp_all add: ml_defs)
    with list_exact [OF l e] m g e assms(3) show ?thesis by (simp add: mirrors_def)
  next
    case (Reconcile desired)
    then have e: "reconcile B es desired l = (Ok [], l')" "r = RErrors (Ok [])" "go" using assms(4,5) by (auto split: prod.splits)
    have "{(k, lk). attached_in (lpins (ld_backend l')) k lk} = le_key ` set desired"
      using reconcile_effect [OF l _ e(1)] assms(2) Reconcile by auto
    with m e assms(6) Reconcile show ?thesis by (auto simp: ml_defs mirrors_def fold_push_new le_key_def)
  qed (use m assms(4,6) stop_all_law [OF l(1)] in \<open>auto simp: ml_defs mirrors_def teardown_all_def\<close>)
qed

lemma run_mirrored:
  "loader_ok l \<Longrightarrow> \<forall>c \<in> set cs. command_ok c \<Longrightarrow> mirrors (lpins (ld_backend l)) s \<Longrightarrow> actor_run B es cs l = (rs, l') \<Longrightarrow>
    (\<And>r. Some r \<in> set rs \<Longrightarrow> answer_ok r) \<Longrightarrow> ml_run cs s = (rs', s') \<Longrightarrow>
    list_all2 answers_agree rs rs' \<and> ml_calls s' = ml_calls s @ map call_of cs \<and>
    set (ml_endpoints s') = {(k, lk). attached_in (lpins (ld_backend l')) k lk}"
proof (induction cs arbitrary: l s rs rs')
  case Nil
  then show ?case by (auto simp: mirrors_def)
next
  case (Cons c cs)
  obtain r go l1 where d: "dispatch B es c l = (r, go, l1)" by (metis prod_cases3)
  obtain r' s1 rs1' where m: "ml_dispatch c s = (r', s1)" "ml_run cs s1 = (rs1', s')" "rs' = r' # rs1'"
    using Cons.prems(6) by (auto split: prod.splits)
  have "Some r \<in> set rs" using Cons.prems(4) d by (auto split: if_splits prod.splits)
  then have ok: "answer_ok r" using Cons.prems(5) by blast
  have c: "command_ok c" "\<forall>c \<in> set cs. command_ok c" using Cons.prems(2) by simp_all
  note D = dispatch_mirrored [OF Cons.prems(1) c(1) Cons.prems(3) d ok m(1)]
  show ?case
  proof (cases go)
    case True
    then obtain rs1 where a: "actor_run B es cs l1 = (rs1, l')" "rs = Some r # rs1" using Cons.prems(4) d by (auto split: prod.splits)
    have "answer_ok q" if "Some q \<in> set rs1" for q using Cons.prems(5) a(2) that by simp
    from Cons.IH [OF dispatch_ok [OF Cons.prems(1) c(1) d] c(2) _ a(1) this m(2)] D True a(2) m(3) show ?thesis by simp
  next
    case False
    then have "l' = l1" "rs = Some r # map (\<lambda>_. None) cs" using Cons.prems(4) d by auto
    with ml_gone [OF _ m(2)] D False m(3) show ?thesis by simp
  qed
qed

end

section \<open>Properties\<close>

text \<open>C38: the loader in memory stands for the real one. Give the same commands to the actor over the aya backend, started on a tree without pinned
  programs, and to the loader in memory: as long as no answer of the actor reports an error, every answer is the same (a listing up
  to its order), calls after a shutdown fail on both sides, the calls are recorded in order, and the endpoints the loader in memory has are those
  whose programs are pinned.\<close>

theorem mock_loader_agrees:
  fixes A :: "('k, 'i) aya"
  assumes "aya_docs A tab run" "aya_ok root tab run b" "aya_pins root b = {}" "\<forall>c \<in> set cs. command_ok c"
    "actor_run (aya_ops A root) es cs (loader_new b root) = (rs, l)" "\<forall>r. Some r \<in> set rs \<longrightarrow> answer_ok r"
    "ml_run cs ml_new = (rs', s)"
  shows "list_all2 answers_agree rs rs' \<and> ml_calls s = map call_of cs \<and>
    set (ml_endpoints s) = {(k, lk). attached_in (aya_pins root (ld_backend l)) k lk}"
proof -
  note B = aya_is_backend [OF assms(1), of root]
  have "bpf_backend.loader_ok root (aya_ok root tab run) (aya_pins root) (loader_new b root :: ('k aya_backend, 'i) loader)"
    using assms(2,3) by (simp add: bpf_backend.loader_ok_def [OF B] loader_new_def pin_form_def)
  moreover have "mirrors (aya_pins root (ld_backend (loader_new b root :: ('k aya_backend, 'i) loader))) ml_new"
    using hooks_ne by (auto simp: mirrors_def ml_new_def loader_new_def assms(3) attached_in_iff)
  ultimately show ?thesis
    using bpf_backend.run_mirrored [OF B _ assms(4) _ assms(5) _ assms(7)] assms(6) by (simp add: ml_new_def)
qed

theorem mock_loader_agrees_witness:
  "set (ml_endpoints (snd (ml_run [AddLoaderEndpoint sample_container, ListLoaderEndpoints, Shutdown, ListLoaderEndpoints] ml_new))) =
    {(k, lk). attached_in (aya_pins ''/b'' (ld_backend (snd (actor_run (aya_ops mem_aya ''/b'') (\<lambda>_. [])
      [AddLoaderEndpoint sample_container, ListLoaderEndpoints, Shutdown, ListLoaderEndpoints] (loader_new sample_backend ''/b''))))) k lk}"
proof -
  let ?cs = "[AddLoaderEndpoint sample_container, ListLoaderEndpoints, Shutdown, ListLoaderEndpoints]"
  let ?run = "actor_run (aya_ops mem_aya ''/b'') (\<lambda>_. []) ?cs (loader_new sample_backend ''/b'')"
  have c: "\<forall>c \<in> set ?cs. command_ok c" by (simp add: sample_container_def plain_name_def)
  have f: "fst ?run = [Some (RUnit (Ok ())), Some (RList (Ok [(KContainer, ''v'')])), Some (RUnit (Ok ())), None]" by code_simp
  then have o: "\<forall>r. Some r \<in> set (fst ?run) \<longrightarrow> answer_ok r" by (auto simp: f)
  show ?thesis
    using mock_loader_agrees [OF mem_docs sample_backend_ok c prod.collapse [symmetric] o prod.collapse [symmetric]] by blast
qed

end
