(* ===== verification/Packet_Builder.thy ===== *)
theory Packet_Builder
  imports Ebpf
begin

text \<open>
  The packet builder of the test programs (\<open>sarena-ebpf-common/src/pktbld.rs\<close>): a stack of at most seven layers that grows the
  packet of a context. The kernel's \<open>bpf_skb_change_tail\<close> is the argument \<open>tail\<close>, \<open>None\<close> for a refusal. An address inside the packet is given as its
  offset, and the address 0 of a failure as \<open>None\<close>; arithmetic wraps as in the release build the programs are compiled with.
\<close>

section \<open>The builder\<close>

definition PKT_BUILDER_LAYERS :: nat where
  "PKT_BUILDER_LAYERS = 7"

definition MAX_PACKET_OFF :: nat where
  "MAX_PACKET_OFF = 0xffff"

datatype pkt_layer =
    LyNone | LyEth | LyDot1Q | LyIpv4 | LyIpv6 | LyArp
  | LyIpv6HopByHop | LyIpv6Routing | LyIpv6Auth | LyIpv6Dest | LyIpv6Fragment
  | LyTcp | LyUdp | LyIcmp | LyIcmpv6 | LySctp | LyEsp | LyIgmp
  | LyGeneve | LyVxlan | LyData

record packet_builder =
  pk_cur_off :: u64
  pk_offsets :: "u64 list"
  pk_layers :: "pkt_layer list"

definition packet_builder_new :: packet_builder where
  "packet_builder_new = \<lparr>pk_cur_off = 0, pk_offsets = replicate PKT_BUILDER_LAYERS 0, pk_layers = replicate PKT_BUILDER_LAYERS LyNone\<rparr>"

fun free_layer_from :: "pkt_layer list \<Rightarrow> nat \<Rightarrow> int" where
  "free_layer_from [] i = - 1"
| "free_layer_from (y # ys) i = (if y = LyNone then int i else free_layer_from ys (i + 1))"

definition free_layer :: "packet_builder \<Rightarrow> int" where
  "free_layer b = free_layer_from (pk_layers b) 0"

definition ctx_adjust_room :: "(u32 \<Rightarrow> bpf_state \<Rightarrow> bpf_state option) \<Rightarrow> i32 \<Rightarrow> bpf_state \<Rightarrow> bpf_state option" where
  "ctx_adjust_room tail len_diff s = tail (skb_len s + len_diff) s"

definition push_data_room ::
  "(u32 \<Rightarrow> bpf_state \<Rightarrow> bpf_state option) \<Rightarrow> i32 \<Rightarrow> packet_builder \<times> bpf_state \<Rightarrow> nat option \<times> packet_builder \<times> bpf_state" where
  "push_data_room tail len = (\<lambda>(b, s).
     let needed = ucast (pk_cur_off b + scast len - ucast (skb_len s)) :: i32
     in case ctx_adjust_room tail needed s of
          None \<Rightarrow> (None, b, s)
        | Some s \<Rightarrow>
            if sint (pk_cur_off b) \<ge> int MAX_PACKET_OFF - sint len then (None, b, s)
            else (let idx = free_layer b
                  in if idx < 0 then (None, b, s)
                     else (Some (unat (pk_cur_off b)),
                           b\<lparr>pk_layers := (pk_layers b)[nat idx := LyData], pk_offsets := (pk_offsets b)[nat idx := pk_cur_off b],
                             pk_cur_off := pk_cur_off b + scast len\<rparr>, s)))"

definition push_data ::
  "(u32 \<Rightarrow> bpf_state \<Rightarrow> bpf_state option) \<Rightarrow> u8 list \<Rightarrow> packet_builder \<times> bpf_state \<Rightarrow> nat option \<times> packet_builder \<times> bpf_state" where
  "push_data tail data bs =
     (case push_data_room tail (of_nat (length data)) bs of
        (None, bs) \<Rightarrow> (None, bs)
      | (Some off, b, s) \<Rightarrow>
          if off + length data > length (skb_data s) then (None, b, s)
          else (Some off, b, s\<lparr>skb_data := put off data (skb_data s)\<rparr>))"

definition finish_eth :: "packet_builder \<Rightarrow> nat \<Rightarrow> bpf_state \<Rightarrow> bpf_state" where
  "finish_eth b i s =
     (let off = unat (pk_offsets b ! i)
      in if off \<ge> MAX_PACKET_OFF - ETH_LEN then s
         else if off + ETH_LEN > length (skb_data s) then s
         else if i + 1 \<ge> PKT_BUILDER_LAYERS then s
         else case (case pk_layers b ! (i + 1) of
                      LyIpv4 \<Rightarrow> Some (0x0800 :: u16)
                    | LyIpv6 \<Rightarrow> Some 0x86DD
                    | LyArp \<Rightarrow> Some 0x0806
                    | _ \<Rightarrow> None) of
                None \<Rightarrow> s
              | Some t \<Rightarrow> s\<lparr>skb_data := put (off + 12) (be_bytes 2 t) (skb_data s)\<rparr>)"

fun build_layers :: "packet_builder \<Rightarrow> pkt_layer list \<Rightarrow> nat \<Rightarrow> bpf_state \<Rightarrow> bpf_state" where
  "build_layers b [] i s = s"
| "build_layers b (LyNone # _) i s = s"
| "build_layers b (LyEth # ys) i s = build_layers b ys (i + 1) (finish_eth b i s)"
| "build_layers b (_ # ys) i s = build_layers b ys (i + 1) s"

definition build_packet :: "packet_builder \<Rightarrow> bpf_state \<Rightarrow> bpf_state" where
  "build_packet b = build_layers b (pk_layers b) 0"

text \<open>A test that pushes several pieces of data.\<close>

fun push_all ::
  "(u32 \<Rightarrow> bpf_state \<Rightarrow> bpf_state option) \<Rightarrow> u8 list list \<Rightarrow> packet_builder \<times> bpf_state \<Rightarrow> nat option list \<times> packet_builder \<times> bpf_state" where
  "push_all tail [] bs = ([], bs)"
| "push_all tail (d # ds) bs =
     (case push_data tail d bs of (r, bs) \<Rightarrow> (case push_all tail ds bs of (rs, bs) \<Rightarrow> (r # rs, bs)))"

text \<open>What the manual says of \<open>bpf_skb_change_tail\<close>, for packets that are linear: the packet is trimmed or grown to the new length.\<close>

definition tail_docs :: "(u32 \<Rightarrow> bpf_state \<Rightarrow> bpf_state option) \<Rightarrow> bool" where
  "tail_docs tail \<longleftrightarrow>
     (\<forall>n s s'. tail n s = Some s' \<longrightarrow> skb_len s' = n \<and> length (skb_data s') = unat n \<and>
        (\<forall>i. i < unat n \<longrightarrow> i < length (skb_data s) \<longrightarrow> skb_data s' ! i = skb_data s ! i))"

section \<open>Lemmas\<close>

lemma tail_docsD:
  assumes "tail_docs tail" "tail n s = Some s'"
  shows "length (skb_data s') = unat n" "m \<le> unat n \<Longrightarrow> m \<le> length (skb_data s) \<Longrightarrow> take m (skb_data s') = take m (skb_data s)"
  using assms unfolding tail_docs_def by (auto intro!: nth_equalityI)

lemma len_cast: "n < 2 ^ 31 \<Longrightarrow> sint (of_nat n :: i32) = int n" "n < 2 ^ 31 \<Longrightarrow> (scast (of_nat n :: i32) :: u64) = of_nat n"
proof -
  assume n: "n < 2 ^ 31"
  then show "sint (of_nat n :: i32) = int n"
    by (simp add: signed_of_nat signed_take_bit_int_eq_self)
  then show "(scast (of_nat n :: i32) :: u64) = of_nat n" by (metis of_int_of_nat_eq of_int_sint)
qed

lemma new_length: "len + (ucast (of_nat m - ucast len :: u64) :: i32) = (of_nat m :: u32)"
proof -
  have "take_bit 32 (x - y) = take_bit 32 (take_bit 64 x - take_bit 64 y)" for x y :: int
    using take_bit_diff [of 32 x y] take_bit_diff [of 32 "take_bit 64 x" "take_bit 64 y"] by simp
  then have "(ucast (x - y :: u64) :: u32) = ucast x - ucast y" for x y by transfer (simp add: take_bit_diff)
  moreover have "(ucast (of_nat m :: u64) :: u32) = of_nat m" "(ucast (ucast len :: u64) :: u32) = len" by (transfer; simp)+
  ultimately show ?thesis by simp
qed

lemma free_layer_data: "free_layer_from (replicate n LyData @ ys) i = free_layer_from ys (i + n)"
  by (induction n arbitrary: i) auto

text \<open>A builder after \<open>n\<close> pushes that gave the bytes \<open>c\<close>.\<close>

definition builder_at :: "nat \<Rightarrow> u8 list \<Rightarrow> packet_builder \<Rightarrow> bpf_state \<Rightarrow> bool" where
  "builder_at n c b s \<longleftrightarrow> n \<le> 7 \<and> pk_layers b = replicate n LyData @ replicate (7 - n) LyNone \<and> pk_cur_off b = of_nat (length c) \<and>
     take (length c) (skb_data s) = c \<and> length c < 0xffff"

lemma builder_at_free: "builder_at n c b s \<Longrightarrow> free_layer b = (if n < 7 then int n else - 1)"
  using free_layer_data [of n "[]" 0] by (cases "7 - n") (auto simp: builder_at_def free_layer_def free_layer_data)

lemma push_data_effect:
  assumes "builder_at n c b s" "tail_docs tail" "\<And>m s. unat m \<le> 0xffff \<Longrightarrow> tail m s \<noteq> None" "length c + length d \<le> 0xffff"
  obtains b' s' where "push_data tail d (b, s) = (if n < 7 \<and> length c + length d < 0xffff then Some (length c) else None, b', s')"
    "n < 7 \<Longrightarrow> length c + length d < 0xffff \<Longrightarrow> skb_data s' = c @ d \<and> builder_at (Suc n) (c @ d) b' s'"
    "\<not> (n < 7 \<and> length c + length d < 0xffff) \<Longrightarrow> b' = b \<and> length (skb_data s') = length c + length d"
proof -
  let ?m = "length c + length d"
  have b: "n \<le> 7" "pk_cur_off b = of_nat (length c)" "take (length c) (skb_data s) = c" "length c < 0xffff"
    "pk_layers b = replicate n LyData @ replicate (7 - n) LyNone" using assms(1) by (auto simp: builder_at_def)
  have cast: "sint (of_nat (length d) :: i32) = int (length d)" "(scast (of_nat (length d) :: i32) :: u64) = of_nat (length d)"
    using len_cast [of "length d"] assms(4) by simp_all
  have off: "sint (of_nat (length c) :: u64) = int (length c)" "unat (of_nat (length c) :: u64) = length c"
    using b(4) by (simp_all add: signed_of_nat signed_take_bit_int_eq_self unsigned_of_nat take_bit_nat_eq_self)
  have u: "unat (of_nat ?m :: u32) = ?m" using assms(4) by (simp add: unsigned_of_nat take_bit_nat_eq_self del: of_nat_add)
  obtain s1 where s1: "tail (of_nat ?m) s = Some s1" using assms(3) [of "of_nat ?m" s] u assms(4) by auto
  note t = tail_docsD [OF assms(2) s1, unfolded u]
  have "length c \<le> length (skb_data s)" using b(3) by (metis length_take min.absorb_iff2 min.commute nat_le_linear)
  then have t2: "take (length c) (skb_data s1) = c" using t(2) [of "length c"] b(3) by simp
  have room: "ctx_adjust_room tail (ucast (pk_cur_off b + scast (of_nat (length d) :: i32) - ucast (skb_len s))) s = Some s1"
    using new_length [of "skb_len s" ?m] s1 by (simp add: ctx_adjust_room_def b(2) cast)
  have lim: "int MAX_PACKET_OFF - int (length d) \<le> int (length c) \<longleftrightarrow> \<not> ?m < 0xffff" by (auto simp: MAX_PACKET_OFF_def)
  have f: "free_layer b = (if n < 7 then int n else - 1)" by (rule builder_at_free [OF assms(1)])
  show thesis
  proof (cases "n < 7 \<and> ?m < 0xffff")
    case True
    let ?b = "b\<lparr>pk_layers := (pk_layers b)[n := LyData], pk_offsets := (pk_offsets b)[n := pk_cur_off b], pk_cur_off := pk_cur_off b + of_nat (length d)\<rparr>"
    have e: "put (length c) d (skb_data s1) = c @ d" using t2 t(1) by (simp add: put_def)
    have p: "push_data tail d (b, s) = (Some (length c), ?b, s1\<lparr>skb_data := c @ d\<rparr>)"
      using True t(1) unfolding push_data_def push_data_room_def prod.case Let_def room option.case f
      by (simp add: b(2) cast off lim e)
    have "(replicate n LyData @ replicate (7 - n) LyNone)[n := LyData] = replicate (Suc n) LyData @ replicate (7 - Suc n) LyNone"
    proof -
      obtain k where "7 - n = Suc k" "7 - Suc n = k" using True by (cases "7 - n") auto
      then show ?thesis by (simp add: list_update_append replicate_app_Cons_same)
    qed
    then have "builder_at (Suc n) (c @ d) ?b (s1\<lparr>skb_data := c @ d\<rparr>)" using True by (simp add: builder_at_def b(2,5))
    with p True show ?thesis by (intro that [of ?b "s1\<lparr>skb_data := c @ d\<rparr>"]) simp_all
  next
    case False
    then have "push_data tail d (b, s) = (None, b, s1)"
      unfolding push_data_def push_data_room_def prod.case Let_def room option.case f by (auto simp: b(2) cast off lim)
    with False t(1) show ?thesis by (intro that [of b s1]) simp_all
  qed
qed

lemma build_data: "LyEth \<notin> set ys \<Longrightarrow> build_layers b ys i s = s"
  by (induction b ys i s rule: build_layers.induct) auto

lemma build_length: "length (skb_data (build_packet b s)) = length (skb_data s)"
proof -
  have "length (skb_data (finish_eth b i s)) = length (skb_data s)" for i s
    by (auto simp: finish_eth_def Let_def split: pkt_layer.splits)
  then have "length (skb_data (build_layers b ys i s)) = length (skb_data s)" for ys i
    by (induction b ys i s rule: build_layers.induct) auto
  then show ?thesis by (simp add: build_packet_def)
qed

text \<open>The offsets at which the pieces of a list begin.\<close>

definition piece_offsets :: "nat \<Rightarrow> 'a list list \<Rightarrow> nat list" where
  "piece_offsets c ds = map (\<lambda>i. c + length (concat (take i ds))) [0..<length ds]"

lemma piece_offsets_Cons: "piece_offsets c (d # ds) = c # piece_offsets (c + length d) ds"
  by (simp add: piece_offsets_def upt_conv_Cons map_Suc_upt [symmetric] del: upt_Suc)

lemma push_all_effect:
  assumes "tail_docs tail" "\<And>m s. unat m \<le> 0xffff \<Longrightarrow> tail m s \<noteq> None"
  shows "builder_at n c b s \<Longrightarrow> n + length ds \<le> 7 \<Longrightarrow> length c + length (concat ds) < 0xffff \<Longrightarrow> push_all tail ds (b, s) = (rs, b', s') \<Longrightarrow>
    rs = map Some (piece_offsets (length c) ds) \<and> builder_at (n + length ds) (c @ concat ds) b' s' \<and> (ds \<noteq> [] \<longrightarrow> skb_data s' = c @ concat ds)"
proof (induction ds arbitrary: n c b s rs)
  case Nil
  then show ?case by (simp add: piece_offsets_def)
next
  case (Cons d ds)
  obtain b1 s1 where p: "push_data tail d (b, s) = (Some (length c), b1, s1)" "skb_data s1 = c @ d" "builder_at (Suc n) (c @ d) b1 s1"
    using push_data_effect [OF Cons.prems(1) assms, of d] Cons.prems(2,3) by (auto; metis)
  obtain rs1 where r: "push_all tail ds (b1, s1) = (rs1, b', s')" "rs = Some (length c) # rs1"
    using Cons.prems(4) p(1) by (auto split: prod.splits)
  have "skb_data s' = c @ d @ concat ds" if "ds = []" using that r(1) p(2) by simp
  with Cons.IH [OF p(3) _ _ r(1)] Cons.prems(2,3) r(2) show ?case by (auto simp: piece_offsets_Cons)
qed

text \<open>A push that is refused, for want of a layer, has already changed the length of the packet.\<close>

lemma refused_push_resizes:
  assumes "tail_docs tail" "\<And>m s. unat m \<le> 0xffff \<Longrightarrow> tail m s \<noteq> None" "builder_at 7 c b s" "length c + length d \<le> 0xffff"
  obtains s' where "push_data tail d (b, s) = (None, b, s')" "length (skb_data s') = length c + length d"
  using push_data_effect [OF assms(3,1,2,4)] by auto

section \<open>Properties\<close>

text \<open>A built packet is what was pushed. With a kernel that resizes packets of up to 65535 bytes, at most seven pieces of data of less than
  65535 bytes together, pushed into the packet of any context, leave exactly the pieces one after the other, whatever the packet held before; every push
  returns the offset of its piece, and building leaves the packet as it is.\<close>

lemma built_packet:
  assumes "tail_docs tail" "\<forall>m s. unat m \<le> 0xffff \<longrightarrow> tail m s \<noteq> None" "ds \<noteq> []" "length ds \<le> 7" "length (concat ds) < 0xffff"
    "push_all tail ds (packet_builder_new, s) = (rs, b, s')"
  shows "skb_data (build_packet b s') = concat ds \<and> rs = map Some (piece_offsets 0 ds)"
proof -
  have "builder_at 0 [] packet_builder_new s"
    by (simp add: builder_at_def packet_builder_new_def PKT_BUILDER_LAYERS_def)
  from push_all_effect [OF assms(1) _ this _ _ assms(6)] assms(2-5)
  have e: "rs = map Some (piece_offsets 0 ds)" "builder_at (length ds) (concat ds) b s'" "skb_data s' = concat ds" by simp_all
  have "LyEth \<notin> set (pk_layers b)" using e(2) by (auto simp: builder_at_def)
  with e show ?thesis by (simp add: build_packet_def build_data)
qed

text \<open>A kernel that resizes every packet, with zeros at its end.\<close>

definition resize :: "u32 \<Rightarrow> bpf_state \<Rightarrow> bpf_state option" where
  "resize n s = Some (s\<lparr>skb_data := take (unat n) (skb_data s) @ replicate (unat n - length (skb_data s)) 0, skb_len := n\<rparr>)"

definition sample_skb :: bpf_state where
  "sample_skb = \<lparr>skb_data = [9, 9, 9, 9, 9], skb_len = 5, skb_ifindex = 1, lxc_map = Map.empty, config_slot = None, metrics_map = Map.empty,
     prog_errors = [], redirects = []\<rparr>"

lemma built_packet_witness:
  "skb_data (build_packet (fst (snd (push_all resize [[1, 2], [3]] (packet_builder_new, sample_skb))))
     (snd (snd (push_all resize [[1, 2], [3]] (packet_builder_new, sample_skb))))) = [1, 2, 3]"
proof -
  have "tail_docs resize" by (auto simp: tail_docs_def resize_def nth_append)
  moreover have "\<forall>m s. unat m \<le> 0xffff \<longrightarrow> resize m s \<noteq> None" by (simp add: resize_def)
  ultimately show ?thesis
    using built_packet [of resize "[[1, 2], [3]]" sample_skb "fst (push_all resize [[1, 2], [3]] (packet_builder_new, sample_skb))"
        "fst (snd (push_all resize [[1, 2], [3]] (packet_builder_new, sample_skb)))"] by simp
qed

end
