(* ===== verification/Netns.thy ===== *)
theory Netns
  imports Network
begin

text \<open>
  Network namespaces: \<open>sarena-infra/src/netns.rs\<close>. The system calls and the crates \<open>rtnetlink\<close> and \<open>nix\<close> are the
  fields of \<open>sys\<close> over a kernel state \<open>'k\<close>; what the code relies on is the locale \<open>netns_sys\<close>. A call that
  depends on the namespace of its thread takes it as an argument; a function that changes it returns it.
  A netlink connection belongs to the namespace it was opened in, so a handle is a namespace. A panic is the
  outcome \<open>Panicked\<close>. The mutex and the file lock around the set-up of the directory make it atomic.
\<close>

section \<open>Netlink messages\<close>

type_synonym nsid = nat

text \<open>An open file is a namespace or some other file.\<close>

datatype file_obj = NsFile nsid | PlainFile

text \<open>The messages of \<open>netlink_packet_route\<close> with the attributes the sources name; \<open>IkOther\<close> carries the debug text of the kind.\<close>

datatype info_kind =
    IkVeth | IkBridge | IkDummy | IkTun | IkVlan | IkMacVlan | IkIpVlan | IkVxlan | IkGeneve | IkOther string

datatype link_attribute =
    AIfName string
  | AMtu u32
  | AController u32
  | AAddress "u8 list"
  | ALinkInfo "link_info list"
  | ANetNsFd file_obj
  | AOther string
and link_info = LiKind info_kind | LiVethPeer link_message | LiOther string
and link_message = LinkMessage (lm_index: u32) (lm_flags: u32) (lm_change_mask: u32) (lm_attributes: "link_attribute list")

definition IFF_UP :: u32 where
  "IFF_UP = 1"

definition IFF_LOOPBACK :: u32 where
  "IFF_LOOPBACK = 8"

definition IFF_RUNNING :: u32 where
  "IFF_RUNNING = 64"

definition IFF_NOARP :: u32 where
  "IFF_NOARP = 128"

definition flags_contain :: "u32 \<Rightarrow> u32 \<Rightarrow> bool" where
  "flags_contain fl b \<longleftrightarrow> and fl b = b"

datatype address_attribute = AaLocal ip_addr | AaAddress ip_addr | AaOther

record address_message =
  am_prefix_len :: nat
  am_attributes :: "address_attribute list"

text \<open>The request an address builder sends, and the calls made on a route builder.\<close>

record address_request =
  aq_index :: u32
  aq_ip :: ip_addr
  aq_prefix_len :: nat
  aq_header_nodad :: bool
  aq_flags_nodad :: bool
  aq_replace :: bool

record route_request =
  rr_destination :: "(ip_addr \<times> nat) option"
  rr_output_interface :: u32
  rr_gateway :: "ip_addr option"
  rr_link_scope :: bool
  rr_pref_source :: "ip_addr option"
  rr_table :: "u32 option"
  rr_mtu :: "u32 option"

datatype nl_request =
    LinkSet link_message
  | LinkAdd link_message
  | LinkDel u32
  | AddrAdd address_request
  | AddrDel u32 ip_addr nat
  | RouteReplace route_request

text \<open>An error with the code the kernel answered, or another one.\<close>

datatype nl_error = NlCode int | NlOther string

section \<open>System calls\<close>

datatype create_error = AlreadyExists | CreateOther string

datatype mount_flag = MsBind | MsPrivate

record 'k sys =
  sy_open :: "string \<Rightarrow> 'k \<Rightarrow> (file_obj, string) result"
  sy_open_self :: "nsid \<Rightarrow> 'k \<Rightarrow> (file_obj, string) result"
  sy_setns :: "file_obj \<Rightarrow> 'k \<Rightarrow> (nsid, string) result"
  sy_unshare :: "'k \<Rightarrow> (nsid, string) result \<times> 'k"
  sy_create_new :: "string \<Rightarrow> 'k \<Rightarrow> (unit, create_error) result \<times> 'k"
  sy_create_dir_all :: "string \<Rightarrow> 'k \<Rightarrow> (unit, string) result \<times> 'k"
  sy_open_lock :: "string \<Rightarrow> 'k \<Rightarrow> (unit, string) result \<times> 'k"
  sy_flock :: "string \<Rightarrow> 'k \<Rightarrow> (unit, string) result"
  sy_canonicalize :: "string \<Rightarrow> 'k \<Rightarrow> (string, string) result"
  sy_mountinfo :: "'k \<Rightarrow> (string, string) result"
  sy_mount :: "nsid \<Rightarrow> string option \<Rightarrow> string \<Rightarrow> mount_flag \<Rightarrow> 'k \<Rightarrow> (unit, string) result \<times> 'k"
  sy_umount :: "string \<Rightarrow> 'k \<Rightarrow> (unit, string) result \<times> 'k"
  sy_exists :: "string \<Rightarrow> 'k \<Rightarrow> bool"
  sy_remove_file :: "string \<Rightarrow> 'k \<Rightarrow> (unit, string) result \<times> 'k"
  sy_read_dir :: "string \<Rightarrow> 'k \<Rightarrow> ((string, string) result list, string) result"
  sy_write :: "nsid \<Rightarrow> string \<Rightarrow> string \<Rightarrow> 'k \<Rightarrow> (unit, string) result \<times> 'k"
  sy_spawn :: "string \<Rightarrow> 'k \<Rightarrow> (unit, string) result"
  sy_runtime :: "'k \<Rightarrow> (unit, string) result"
  rt_connect :: "nsid \<Rightarrow> 'k \<Rightarrow> (unit, string) result"
  rt_get_link :: "nsid \<Rightarrow> string \<Rightarrow> 'k \<Rightarrow> (link_message option, nl_error) result"
  rt_list_links :: "nsid \<Rightarrow> 'k \<Rightarrow> (link_message, nl_error) result list"
  rt_list_addresses :: "nsid \<Rightarrow> u32 \<Rightarrow> 'k \<Rightarrow> (address_message, nl_error) result list"
  rt_request :: "nsid \<Rightarrow> nl_request \<Rightarrow> 'k \<Rightarrow> (unit, nl_error) result \<times> 'k"
  rt_destination_prefix :: "ip_addr \<Rightarrow> nat \<Rightarrow> (unit, string) result"
  rt_gateway :: "route_request \<Rightarrow> ip_addr \<Rightarrow> (unit, string) result"
  rt_pref_source :: "route_request \<Rightarrow> ip_addr \<Rightarrow> (unit, string) result"
  rt_error_str :: "nl_error \<Rightarrow> string"

definition rt_execute :: "'k sys \<Rightarrow> nsid \<Rightarrow> nl_request \<Rightarrow> 'k \<Rightarrow> (unit, infra_error) result \<times> 'k" where
  "rt_execute S ns q k = (case rt_request S ns q k of (r, k) \<Rightarrow> (map_err (\<lambda>e. NetlinkError (rt_error_str S e)) r, k))"

section \<open>Running inside a namespace\<close>

definition NETNS_PATH :: string where
  "NETNS_PATH = ''/run/netns''"

definition THREAD_SELF_NS_PATH :: string where
  "THREAD_SELF_NS_PATH = ''/proc/thread-self/ns/net''"

datatype 'r outcome = Returned 'r | Panicked

record netns =
  ns_path :: string
  ns_fd :: file_obj

definition path_for :: "string \<Rightarrow> string" where
  "path_for name = path_join NETNS_PATH name"

definition netns_open :: "'k sys \<Rightarrow> string \<Rightarrow> 'k \<Rightarrow> (netns, infra_error) result" where
  "netns_open S name k =
     (case sy_open S (path_for name) k of
        Err _ \<Rightarrow> Err (OpenNamespace name)
      | Ok fd \<Rightarrow> Ok \<lparr>ns_path = path_for name, ns_fd = fd\<rparr>)"

definition netns_open_path :: "'k sys \<Rightarrow> string \<Rightarrow> 'k \<Rightarrow> (netns, infra_error) result" where
  "netns_open_path S p k =
     (case sy_open S p k of
        Err _ \<Rightarrow> Err (OpenNamespace p)
      | Ok fd \<Rightarrow> Ok \<lparr>ns_path = p, ns_fd = fd\<rparr>)"

text \<open>A thread of its own starts in the namespace of its creator; the namespace it ends in goes with it.\<close>

definition spawn_thread ::
  "'k sys \<Rightarrow> string \<Rightarrow> (nsid \<Rightarrow> 'k \<Rightarrow> ('a, infra_error) result outcome \<times> nsid \<times> 'k) \<Rightarrow> nsid \<Rightarrow> 'k \<Rightarrow> ('a, infra_error) result \<times> 'k" where
  "spawn_thread S name f ns k =
     (case sy_spawn S name k of
        Err e \<Rightarrow> (Err (SpawnThread e), k)
      | Ok _ \<Rightarrow>
          (case f ns k of
             (Returned r, _, k) \<Rightarrow> (r, k)
           | (Panicked, _, k) \<Rightarrow> (Err ThreadPanicked, k)))"

definition enter_and_run ::
  "'k sys \<Rightarrow> netns \<Rightarrow> (nsid \<Rightarrow> 'k \<Rightarrow> ('a, infra_error) result outcome \<times> 'k) \<Rightarrow> nsid \<Rightarrow> 'k \<Rightarrow>
     ('a, infra_error) result outcome \<times> nsid \<times> 'k" where
  "enter_and_run S n f ns k =
     (case sy_open_self S ns k of
        Err _ \<Rightarrow> (Returned (Err (OpenNamespace THREAD_SELF_NS_PATH)), ns, k)
      | Ok current \<Rightarrow>
          (case sy_setns S (ns_fd n) k of
             Err _ \<Rightarrow> (Returned (Err (SetNs (ns_path n))), ns, k)
           | Ok inside \<Rightarrow>
               (case f inside k of
                  (result, k) \<Rightarrow>
                    (case (result, sy_setns S current k) of
                       (Returned inner, Err _) \<Rightarrow> (Returned (Err (RestoreNamespace THREAD_SELF_NS_PATH)), inside, k)
                     | (Returned inner, Ok ns) \<Rightarrow> (Returned inner, ns, k)
                     | (Panicked, Err _) \<Rightarrow> (Panicked, inside, k)
                     | (Panicked, Ok ns) \<Rightarrow> (Panicked, ns, k)))))"

definition netns_run ::
  "'k sys \<Rightarrow> netns \<Rightarrow> (nsid \<Rightarrow> 'k \<Rightarrow> ('a, infra_error) result outcome \<times> 'k) \<Rightarrow> nsid \<Rightarrow> 'k \<Rightarrow> ('a, infra_error) result \<times> 'k" where
  "netns_run S n f =
     spawn_thread S (''netns-run-'' @ ns_path n)
       (enter_and_run S n (\<lambda>ns k.
          case sy_runtime S k of
            Err e \<Rightarrow> (Returned (Err (RuntimeError e)), k)
          | Ok _ \<Rightarrow>
              (case rt_connect S ns k of
                 Err e \<Rightarrow> (Returned (Err (RuntimeError e)), k)
               | Ok _ \<Rightarrow> f ns k)))"

section \<open>Creating and deleting namespaces\<close>

text \<open>\<open>str::lines\<close> and \<open>str::split_whitespace\<close>, for ASCII white space.\<close>

definition str_lines :: "string \<Rightarrow> string list" where
  "str_lines s =
     (let ps = split_on (CHR 0x0A) s; ps = (if last ps = [] then butlast ps else ps)
      in map (\<lambda>l. if l \<noteq> [] \<and> last l = CHR 0x0D then butlast l else l) ps)"

definition is_white :: "char \<Rightarrow> bool" where
  "is_white c \<longleftrightarrow> c \<in> set [CHR 0x09, CHR 0x0A, CHR 0x0B, CHR 0x0C, CHR 0x0D, CHR 0x20]"

fun white_parts :: "string \<Rightarrow> string list" where
  "white_parts [] = [[]]"
| "white_parts (c # s) =
     (if is_white c then [] # white_parts s
      else (case white_parts s of [] \<Rightarrow> [[c]] | p # ps \<Rightarrow> (c # p) # ps))"

definition split_whitespace :: "string \<Rightarrow> string list" where
  "split_whitespace s = filter (\<lambda>p. p \<noteq> []) (white_parts s)"

definition is_mountpoint :: "'k sys \<Rightarrow> string \<Rightarrow> 'k \<Rightarrow> (bool, infra_error) result" where
  "is_mountpoint S p k =
     (case sy_canonicalize S p k of
        Err _ \<Rightarrow> Err (InfraIo (''canonicalize '' @ p))
      | Ok canonical \<Rightarrow>
          (case sy_mountinfo S k of
             Err _ \<Rightarrow> Err (InfraIo ''read /proc/self/mountinfo'')
           | Ok info \<Rightarrow>
               Ok (list_ex (\<lambda>line. let fs = split_whitespace line in 4 < length fs \<and> components (fs ! 4) = components canonical)
                     (str_lines info))))"

definition ensure_netns_dir :: "'k sys \<Rightarrow> nsid \<Rightarrow> 'k \<Rightarrow> (unit, infra_error) result \<times> 'k" where
  "ensure_netns_dir S ns k =
     (case sy_create_dir_all S NETNS_PATH k of
        (Err _, k) \<Rightarrow> (Err (InfraIo (''create '' @ NETNS_PATH)), k)
      | (Ok _, k) \<Rightarrow>
          (let lock = path_join NETNS_PATH ''.lock''
           in case sy_open_lock S lock k of
                (Err _, k) \<Rightarrow> (Err (InfraIo (''open '' @ lock)), k)
              | (Ok _, k) \<Rightarrow>
                  (case sy_flock S lock k of
                     Err e \<Rightarrow> (Err (FlockError e), k)
                   | Ok _ \<Rightarrow>
                       (case is_mountpoint S NETNS_PATH k of
                          Err e \<Rightarrow> (Err e, k)
                        | Ok True \<Rightarrow> (Ok (), k)
                        | Ok False \<Rightarrow>
                            (case sy_mount S ns (Some NETNS_PATH) NETNS_PATH MsBind k of
                               (Err _, k) \<Rightarrow> (Err (MountError NETNS_PATH), k)
                             | (Ok _, k) \<Rightarrow>
                                 (case sy_mount S ns None NETNS_PATH MsPrivate k of
                                    (Err _, k) \<Rightarrow> (Err (MountError NETNS_PATH), k)
                                  | (Ok _, k) \<Rightarrow> (Ok (), k)))))))"

definition bring_up_loopback :: "'k sys \<Rightarrow> nsid \<Rightarrow> 'k \<Rightarrow> (unit, infra_error) result \<times> 'k" where
  "bring_up_loopback S ns k =
     (case rt_get_link S ns ''lo'' k of
        Err e \<Rightarrow> (Err (NetlinkError (rt_error_str S e)), k)
      | Ok None \<Rightarrow> (Err (LinkNotFound ''lo''), k)
      | Ok (Some lo) \<Rightarrow> rt_execute S ns (LinkSet (LinkMessage (lm_index lo) IFF_UP IFF_UP [])) k)"

definition create_netns_on_thread ::
  "'k sys \<Rightarrow> string \<Rightarrow> nsid \<Rightarrow> 'k \<Rightarrow> (unit, infra_error) result outcome \<times> nsid \<times> 'k" where
  "create_netns_on_thread S p ns k =
     (case sy_unshare S k of
        (Err e, k) \<Rightarrow> (Returned (Err (CreateNamespace e)), ns, k)
      | (Ok ns, k) \<Rightarrow>
          (case sy_mount S ns (Some THREAD_SELF_NS_PATH) p MsBind k of
             (Err _, k) \<Rightarrow> (Returned (Err (MountError p)), ns, k)
           | (Ok _, k) \<Rightarrow>
               (case sy_runtime S k of
                  Err e \<Rightarrow> (Returned (Err (RuntimeError e)), ns, k)
                | Ok _ \<Rightarrow>
                    (case rt_connect S ns k of
                       Err e \<Rightarrow> (Returned (Err (RuntimeError e)), ns, k)
                     | Ok _ \<Rightarrow> (case bring_up_loopback S ns k of (r, k) \<Rightarrow> (Returned r, ns, k))))))"

definition rollback_netns_file :: "'k sys \<Rightarrow> string \<Rightarrow> 'k \<Rightarrow> 'k" where
  "rollback_netns_file S p k = snd (sy_remove_file S p (snd (sy_umount S p k)))"

definition netns_create :: "'k sys \<Rightarrow> string \<Rightarrow> nsid \<Rightarrow> 'k \<Rightarrow> (unit, infra_error) result \<times> 'k" where
  "netns_create S name ns k =
     (case ensure_netns_dir S ns k of
        (Err e, k) \<Rightarrow> (Err e, k)
      | (Ok _, k) \<Rightarrow>
          (let p = path_for name
           in case sy_create_new S p k of
                (Err AlreadyExists, k) \<Rightarrow> (Err (NamespaceExists name), k)
              | (Err (CreateOther _), k) \<Rightarrow> (Err (InfraIo (''create '' @ p)), k)
              | (Ok _, k) \<Rightarrow>
                  (case spawn_thread S (''netns-create-'' @ name) (create_netns_on_thread S p) ns k of
                     (Err e, k) \<Rightarrow> (Err e, rollback_netns_file S p k)
                   | (Ok _, k) \<Rightarrow> (Ok (), k))))"

definition netns_delete :: "'k sys \<Rightarrow> string \<Rightarrow> 'k \<Rightarrow> (unit, infra_error) result \<times> 'k" where
  "netns_delete S name k =
     (let p = path_for name
      in if \<not> sy_exists S p k then (Err (NamespaceNotFound name), k)
         else case sy_umount S p k of
                (Err _, k) \<Rightarrow> (Err (UnmountError p), k)
              | (Ok _, k) \<Rightarrow>
                  (case sy_remove_file S p k of
                     (Err _, k) \<Rightarrow> (Err (InfraIo (''remove '' @ p)), k)
                   | (Ok _, k) \<Rightarrow> (Ok (), k)))"

fun collect_names :: "(string, string) result list \<Rightarrow> (string list, infra_error) result" where
  "collect_names [] = Ok []"
| "collect_names (Err _ # es) = Err (InfraIo (''read_dir entry in '' @ NETNS_PATH))"
| "collect_names (Ok name # es) =
     (case collect_names es of
        Err e \<Rightarrow> Err e
      | Ok names \<Rightarrow> Ok (if name = ''.lock'' then names else name # names))"

definition netns_list :: "'k sys \<Rightarrow> 'k \<Rightarrow> (string list, infra_error) result" where
  "netns_list S k =
     (case sy_read_dir S NETNS_PATH k of
        Err _ \<Rightarrow> Err (InfraIo (''read_dir '' @ NETNS_PATH))
      | Ok entries \<Rightarrow> collect_names entries)"

text \<open>The calling thread stays in the new namespace.\<close>

definition unshare_self :: "'k sys \<Rightarrow> nsid \<Rightarrow> 'k \<Rightarrow> (unit, infra_error) result \<times> nsid \<times> 'k" where
  "unshare_self S ns k =
     (case sy_unshare S k of
        (Err e, k) \<Rightarrow> (Err (CreateNamespace e), ns, k)
      | (Ok ns, k) \<Rightarrow>
          (case rt_connect S ns k of
             Err e \<Rightarrow> (Err (RuntimeError e), ns, k)
           | Ok _ \<Rightarrow> (case bring_up_loopback S ns k of (r, k) \<Rightarrow> (r, ns, k))))"

text \<open>The guard deletes its namespace when it is dropped and only logs a failure.\<close>

definition guard_drop :: "'k sys \<Rightarrow> string \<Rightarrow> 'k \<Rightarrow> 'k" where
  "guard_drop S name k = snd (netns_delete S name k)"

section \<open>What is relied on\<close>

text \<open>An interface of a namespace. A path is a stack: the file and the mounts on it, the visible one first; no file is the
  empty stack. A plain bind mount of a directory (\<open>mount(2)\<close>) does not take the mounts below it along.\<close>

record iface =
  if_name :: string
  if_up :: bool
  if_mtu :: u32
  if_mac :: mac_address

definition inside_dir :: "string \<Rightarrow> string \<Rightarrow> bool" where
  "inside_dir d p \<longleftrightarrow> length d + 1 < length p \<and> take (length d + 1) p = d @ ''/''"

definition bare :: "file_obj list \<Rightarrow> file_obj list" where
  "bare fs = (if fs = [] then [] else [last fs])"

text \<open>A link message that describes an interface.\<close>

definition describes :: "u32 \<Rightarrow> iface \<Rightarrow> link_message \<Rightarrow> bool" where
  "describes i f m \<longleftrightarrow> lm_index m = i \<and> flags_contain (lm_flags m) IFF_UP = if_up f \<and>
     [n. AIfName n \<leftarrow> lm_attributes m] = [if_name f] \<and> [x. AMtu x \<leftarrow> lm_attributes m] = [if_mtu f] \<and>
     (\<exists>bs. [b. AAddress b \<leftarrow> lm_attributes m] = [bs] \<and> (length bs = 6 \<longrightarrow> if_mac f = MacAddress bs))"

text \<open>Whether a creation would bind the directory onto itself: it can be made and locked and is no mount point.\<close>

definition first_use :: "'k sys \<Rightarrow> 'k \<Rightarrow> bool" where
  "first_use S k \<longleftrightarrow> (case sy_create_dir_all S NETNS_PATH k of (Err _, _) \<Rightarrow> False
     | (Ok _, k1) \<Rightarrow> (case sy_open_lock S (path_for ''.lock'') k1 of (Err _, _) \<Rightarrow> False
         | (Ok _, k2) \<Rightarrow> is_mountpoint S NETNS_PATH k2 = Ok False))"

locale netns_sys =
  fixes S :: "'k sys"
    and at :: "'k \<Rightarrow> string \<Rightarrow> file_obj list"
    and ifs :: "'k \<Rightarrow> nsid \<Rightarrow> u32 \<Rightarrow> iface option"
  assumes open_law: "sy_open S p k = Ok fd \<Longrightarrow> \<exists>fs. at k p = fd # fs"
    and exists_law: "sy_exists S p k \<longleftrightarrow> at k p \<noteq> []"
    and open_self_law: "sy_open_self S ns k = Ok fd \<Longrightarrow> fd = NsFile ns"
    and setns_law: "sy_setns S fd k = Ok ns \<Longrightarrow> fd = NsFile ns"
    and unshare_law: "sy_unshare S k = (Ok ns, k') \<Longrightarrow> (\<forall>p. NsFile ns \<notin> set (at k p)) \<and> ifs k ns = Map.empty \<and>
      (\<exists>i f. if_name f = ''lo'' \<and> ifs k' = (ifs k)(ns := [i \<mapsto> f]))"
    and unshare_files: "sy_unshare S k = (ru, k') \<Longrightarrow> at k' = at k"
    and create_law: "sy_create_new S p k = (rc, k') \<Longrightarrow> ifs k' = ifs k \<and>
      (case rc of Ok _ \<Rightarrow> at k p = [] \<and> at k' = (at k)(p := [PlainFile])
       | Err AlreadyExists \<Rightarrow> at k p \<noteq> [] \<and> at k' = at k
       | Err (CreateOther _) \<Rightarrow> at k' = at k)"
    and mount_ns_law: "sy_mount S ns (Some THREAD_SELF_NS_PATH) p MsBind k = (r, k') \<Longrightarrow> ifs k' = ifs k \<and>
      (case r of Ok _ \<Rightarrow> at k p \<noteq> [] \<and> at k' = (at k)(p := NsFile ns # at k p) | Err _ \<Rightarrow> at k' = at k)"
    and bind_law: "sy_mount S ns (Some NETNS_PATH) NETNS_PATH MsBind k = (Ok (), k') \<Longrightarrow> ifs k' = ifs k \<and>
      (\<forall>p. p \<noteq> NETNS_PATH \<longrightarrow> at k' p = (if inside_dir NETNS_PATH p then bare (at k p) else at k p))"
    and private_law: "sy_mount S ns None p MsPrivate k = (r, k') \<Longrightarrow> ifs k' = ifs k \<and> at k' = at k"
    and mkdir_law: "sy_create_dir_all S p k = (r, k') \<Longrightarrow> ifs k' = ifs k \<and> (\<forall>q. inside_dir p q \<longrightarrow> at k' q = at k q)"
    and lock_law: "sy_open_lock S p k = (r, k') \<Longrightarrow> ifs k' = ifs k \<and> (\<forall>q. q \<noteq> p \<longrightarrow> at k' q = at k q)"
    and umount_law: "sy_umount S p k = (r, k') \<Longrightarrow>
      (case r of Ok _ \<Rightarrow> \<exists>f g fs. at k p = f # g # fs \<and> at k' = (at k)(p := g # fs) | Err _ \<Rightarrow> at k' = at k)"
    and remove_law: "sy_remove_file S p k = (r, k') \<Longrightarrow>
      (case r of Ok _ \<Rightarrow> (\<exists>f. at k p = [f]) \<and> at k' = (at k)(p := []) | Err _ \<Rightarrow> at k' = at k)"
    and get_law: "rt_get_link S ns name k = Ok (Some m) \<Longrightarrow> \<exists>i f. ifs k ns i = Some f \<and> if_name f = name \<and> describes i f m"
    and request_files: "rt_request S ns rq k = (rr, k') \<Longrightarrow> at k' = at k"
    and up_law: "rt_request S ns (LinkSet (LinkMessage i IFF_UP IFF_UP [])) k = (Ok (), k') \<Longrightarrow>
      \<exists>f. ifs k ns i = Some f \<and> ifs k' = (ifs k)(ns := (ifs k ns)(i \<mapsto> f\<lparr>if_up := True\<rparr>))"
    and bind_fail: "sy_mount S ns (Some NETNS_PATH) NETNS_PATH MsBind k = (Err eb, k') \<Longrightarrow> ifs k' = ifs k \<and> at k' = at k"
begin

lemma run_inside:
  assumes "enter_and_run S n f ns k = (out, ns', k')"
  shows "(k' = k \<and> ns' = ns \<and> (\<exists>e. out = Returned (Err e))) \<or>
    (\<exists>m out0. ns_fd n = NsFile m \<and> f m k = (out0, k') \<and>
       (ns' = ns \<and> out = out0 \<or> ns' = m \<and> out = (if out0 = Panicked then Panicked else Returned (Err (RestoreNamespace THREAD_SELF_NS_PATH)))))"
proof (cases "sy_open_self S ns k")
  case c: (Ok current)
  show ?thesis
  proof (cases "sy_setns S (ns_fd n) k")
    case m: (Ok m)
    obtain out0 k1 where f: "f m k = (out0, k1)" by fastforce
    have n: "ns_fd n = NsFile m" "current = NsFile ns" using setns_law [OF m] open_self_law [OF c] by simp_all
    have "k1 = k'" "ns' = ns \<and> out = out0 \<or> ns' = m \<and> out = (if out0 = Panicked then Panicked else Returned (Err (RestoreNamespace THREAD_SELF_NS_PATH)))"
      using assms c m f setns_law [of "NsFile ns" k1] n(2)
      by (auto simp: enter_and_run_def split: result.splits outcome.splits)
    then show ?thesis using n(1) f by blast
  qed (use assms c in \<open>auto simp: enter_and_run_def\<close>)
qed (use assms in \<open>auto simp: enter_and_run_def\<close>)

lemma run_Ok:
  assumes "netns_run S n f ns k = (Ok x, k')"
  shows "\<exists>m. ns_fd n = NsFile m \<and> f m k = (Returned (Ok x), k')"
proof -
  obtain out ns' where e: "enter_and_run S n (\<lambda>ns k. case sy_runtime S k of Err e \<Rightarrow> (Returned (Err (RuntimeError e)), k)
      | Ok _ \<Rightarrow> (case rt_connect S ns k of Err e \<Rightarrow> (Returned (Err (RuntimeError e)), k) | Ok _ \<Rightarrow> f ns k)) ns k = (out, ns', k')"
    "out = Returned (Ok x)"
    using assms by (auto simp: netns_run_def spawn_thread_def split: result.splits outcome.splits prod.splits)
  have u: "r = Ok ()" if "\<forall>e. r \<noteq> Err e" for r :: "(unit, string) result" using that by (cases r) auto
  from run_inside [OF e(1)] e(2) show ?thesis
    by (cases "sy_runtime S k") (auto split: result.splits if_splits dest!: u)
qed

lemma execute_Ok: "rt_execute S ns q k = (Ok (), k') \<longleftrightarrow> rt_request S ns q k = (Ok (), k')"
  by (auto simp: rt_execute_def split: prod.splits elim: map_err.elims)

lemma execute_files: "rt_execute S ns q k = (r, k') \<Longrightarrow> at k' = at k"
  using request_files by (auto simp: rt_execute_def split: prod.splits)

lemma loopback_files: "bring_up_loopback S ns k = (r, k') \<Longrightarrow> at k' = at k"
  using execute_files by (auto simp: bring_up_loopback_def split: result.splits option.splits)

lemma loopback_Ok:
  assumes "bring_up_loopback S ns k = (Ok (), k')" "ifs k ns = [i \<mapsto> f]"
  shows "ifs k' = (ifs k)(ns := [i \<mapsto> f\<lparr>if_up := True\<rparr>])"
proof -
  obtain m where m: "rt_get_link S ns ''lo'' k = Ok (Some m)" "rt_request S ns (LinkSet (LinkMessage (lm_index m) IFF_UP IFF_UP [])) k = (Ok (), k')"
    using assms(1) by (auto simp: bring_up_loopback_def execute_Ok split: result.splits option.splits)
  have "lm_index m = i" using get_law [OF m(1)] assms(2) by (auto simp: describes_def split: if_splits)
  with up_law [OF m(2)] assms(2) show ?thesis by (auto split: if_splits)
qed

text \<open>What the thread that creates a namespace leaves behind.\<close>

lemma on_thread:
  assumes "create_netns_on_thread S p ns k = (out, ns', k')" "at k p = [PlainFile]"
  shows "out \<noteq> Panicked"
    "\<exists>fs. (fs = [PlainFile] \<or> (\<exists>m. fs = [NsFile m, PlainFile])) \<and> at k' = (at k)(p := fs)"
    "out = Returned (Ok ()) \<Longrightarrow> (\<forall>q. NsFile ns' \<notin> set (at k q)) \<and> ifs k ns' = Map.empty \<and>
      at k' = (at k)(p := [NsFile ns', PlainFile]) \<and> (\<exists>i f. if_name f = ''lo'' \<and> if_up f \<and> ifs k' = (ifs k)(ns' := [i \<mapsto> f]))"
proof -
  obtain r1 k1 where u: "sy_unshare S k = (r1, k1)" by fastforce
  note a1 = unshare_files [OF u]
  have same: "at k = (at k)(p := [PlainFile])" using assms(2) by (metis fun_upd_triv)
  have "out \<noteq> Panicked \<and> (\<exists>fs. (fs = [PlainFile] \<or> (\<exists>m. fs = [NsFile m, PlainFile])) \<and> at k' = (at k)(p := fs)) \<and>
    (out = Returned (Ok ()) \<longrightarrow> (\<forall>q. NsFile ns' \<notin> set (at k q)) \<and> ifs k ns' = Map.empty \<and>
      at k' = (at k)(p := [NsFile ns', PlainFile]) \<and> (\<exists>i f. if_name f = ''lo'' \<and> if_up f \<and> ifs k' = (ifs k)(ns' := [i \<mapsto> f])))"
  proof (cases r1)
    case (Err e)
    then show ?thesis using assms u a1 same by (auto simp: create_netns_on_thread_def)
  next
    case (Ok m)
    obtain r2 k2 where t: "sy_mount S m (Some THREAD_SELF_NS_PATH) p MsBind k1 = (r2, k2)" by fastforce
    note a2 = mount_ns_law [OF t]
    show ?thesis
    proof (cases r2)
      case e: (Err e)
      then show ?thesis using assms u a1 a2 t Ok same by (auto simp: create_netns_on_thread_def)
    next
      case o: (Ok x)
      have f: "at k2 = (at k)(p := [NsFile m, PlainFile])" "ifs k2 = ifs k1" using a1 a2 o assms(2) by auto
      obtain r3 k3 where l: "bring_up_loopback S m k2 = (r3, k3)" by fastforce
      note a3 = loopback_files [OF l]
      have n: "ns' = m" "k' = k2 \<or> k' = k3" "out \<noteq> Panicked" "out = Returned (Ok ()) \<Longrightarrow> r3 = Ok () \<and> k' = k3"
        using assms(1) u t l Ok o by (auto simp: create_netns_on_thread_def split: result.splits)
      have g: "at k' = (at k)(p := [NsFile m, PlainFile])" using n(2) a3 f(1) by auto
      show ?thesis
      proof (cases "out = Returned (Ok ())")
        case True
        note w = unshare_law [OF u [unfolded Ok]]
        then obtain i h where h: "if_name h = ''lo''" "ifs k1 = (ifs k)(m := [i \<mapsto> h])" by blast
        have "ifs k3 = (ifs k)(m := [i \<mapsto> h\<lparr>if_up := True\<rparr>])"
          using loopback_Ok [of m k2 k3 i h] l n(4) [OF True] f(2) h(2) by simp
        then have "\<exists>i f. if_name f = ''lo'' \<and> if_up f \<and> ifs k3 = (ifs k)(m := [i \<mapsto> f])"
          using h(1) by (intro exI [of _ i] exI [of _ "h\<lparr>if_up := True\<rparr>"]) simp
        then show ?thesis using True n(1) n(4) [OF True] g w by auto
      qed (use g n(3) in auto)
    qed
  qed
  then show "out \<noteq> Panicked"
    "\<exists>fs. (fs = [PlainFile] \<or> (\<exists>m. fs = [NsFile m, PlainFile])) \<and> at k' = (at k)(p := fs)"
    "out = Returned (Ok ()) \<Longrightarrow> (\<forall>q. NsFile ns' \<notin> set (at k q)) \<and> ifs k ns' = Map.empty \<and>
      at k' = (at k)(p := [NsFile ns', PlainFile]) \<and> (\<exists>i f. if_name f = ''lo'' \<and> if_up f \<and> ifs k' = (ifs k)(ns' := [i \<mapsto> f]))"
    by blast+
qed

definition undo_works :: "string \<Rightarrow> bool" where
  "undo_works p \<longleftrightarrow> (\<forall>k m. at k p = [NsFile m, PlainFile] \<longrightarrow> fst (sy_umount S p k) = Ok ()) \<and>
     (\<forall>k. at k p = [PlainFile] \<longrightarrow> fst (sy_remove_file S p k) = Ok ())"

lemma rollback_files:
  assumes "at k = (at k0)(p := fs)" "fs = [PlainFile] \<or> (\<exists>m. fs = [NsFile m, PlainFile])"
  shows "\<exists>gs. at (rollback_netns_file S p k) = (at k0)(p := gs)"
    "undo_works p \<Longrightarrow> at (rollback_netns_file S p k) = (at k0)(p := [])"
proof -
  obtain r1 k1 r2 k2 where u: "sy_umount S p k = (r1, k1)" "sy_remove_file S p k1 = (r2, k2)" by fastforce
  have e: "rollback_netns_file S p k = k2" by (simp add: rollback_netns_file_def u)
  note a = umount_law [OF u(1)] remove_law [OF u(2)]
  have c: "at k1 = (at k0)(p := gs)" if "r1 = Ok ()" "fs = [NsFile m, PlainFile]" "gs = [PlainFile]" for m gs using a(1) that assms(1) by auto
  show "\<exists>gs. at (rollback_netns_file S p k) = (at k0)(p := gs)"
    using a assms(1) unfolding e by (cases r1; cases r2) auto
  show "at (rollback_netns_file S p k) = (at k0)(p := [])" if w: "undo_works p"
  proof -
    have k1: "at k1 = (at k0)(p := [PlainFile])"
    proof (cases "fs = [PlainFile]")
      case True
      then show ?thesis using a(1) assms(1) by (cases r1) auto
    next
      case False
      then obtain m where m: "fs = [NsFile m, PlainFile]" using assms(2) by blast
      then have "r1 = Ok ()" using w assms(1) u(1) unfolding undo_works_def by (metis fst_conv fun_upd_same)
      then show ?thesis using c m by blast
    qed
    then have "r2 = Ok ()" using w u(2) unfolding undo_works_def by (metis fst_conv fun_upd_same)
    then show ?thesis using a(2) k1 unfolding e by auto
  qed
qed

lemma create_outcome:
  assumes "ensure_netns_dir S ns k0 = (Ok (), k)" "netns_create S name ns k0 = (r, k')"
  shows "r = Ok () \<Longrightarrow> at k (path_for name) = [] \<and> (\<exists>m. (\<forall>q. NsFile m \<notin> set (at k q)) \<and> ifs k m = Map.empty \<and>
      at k' = (at k)(path_for name := [NsFile m, PlainFile]) \<and> (\<exists>i f. if_name f = ''lo'' \<and> if_up f \<and> ifs k' = (ifs k)(m := [i \<mapsto> f])))"
    "r = Err e \<Longrightarrow> q \<noteq> path_for name \<or> at k q \<noteq> [] \<or> undo_works q \<Longrightarrow> at k' q = at k q"
    "r = Err (NamespaceExists nm) \<Longrightarrow> at k (path_for name) \<noteq> []"
proof -
  obtain c k1 where c: "sy_create_new S (path_for name) k = (c, k1)" by fastforce
  note a = create_law [OF c]
  have fail: "r = (case c of Err AlreadyExists \<Rightarrow> Err (NamespaceExists name) | _ \<Rightarrow> Err (InfraIo (''create '' @ path_for name))) \<and> k' = k1"
    if "c \<noteq> Ok ()"
    using that assms c by (cases c) (auto simp: netns_create_def Let_def split: create_error.splits)
  have go: "c = Ok () \<Longrightarrow>
    (case spawn_thread S (''netns-create-'' @ name) (create_netns_on_thread S (path_for name)) ns k1 of
       (Err e, k2) \<Rightarrow> (Err e, rollback_netns_file S (path_for name) k2) | (Ok _, k2) \<Rightarrow> (Ok (), k2)) = (r, k')"
    using assms c by (simp add: netns_create_def Let_def)
  obtain out ns' k2 where t: "create_netns_on_thread S (path_for name) ns k1 = (out, ns', k2)" by (metis prod_cases3)
  have p: "at k (path_for name) = []" "at k1 = (at k)(path_for name := [PlainFile])" "ifs k1 = ifs k" if "c = Ok ()"
    using a that by auto
  show "at k (path_for name) = [] \<and> (\<exists>m. (\<forall>q. NsFile m \<notin> set (at k q)) \<and> ifs k m = Map.empty \<and>
      at k' = (at k)(path_for name := [NsFile m, PlainFile]) \<and> (\<exists>i f. if_name f = ''lo'' \<and> if_up f \<and> ifs k' = (ifs k)(m := [i \<mapsto> f])))" if "r = Ok ()"
  proof -
    have c': "c = Ok ()" using fail that by (cases c) (auto split: create_error.splits)
    have "out = Returned (Ok ())" "k' = k2"
      using go [OF c'] that t by (auto simp: spawn_thread_def split: result.splits outcome.splits)
    then have T: "(\<forall>q. NsFile ns' \<notin> set (at k1 q)) \<and> ifs k1 ns' = Map.empty \<and>
        at k' = (at k1)(path_for name := [NsFile ns', PlainFile]) \<and> (\<exists>i f. if_name f = ''lo'' \<and> if_up f \<and> ifs k' = (ifs k1)(ns' := [i \<mapsto> f]))"
      using on_thread(3) [OF t] p(2) [OF c'] by simp
    have "NsFile ns' \<notin> set (at k q)" for q using T p [OF c'] by (cases "q = path_for name") (auto dest: spec [of _ q])
    with T p [OF c'] show ?thesis by auto
  qed
  show "at k' q = at k q" if e: "r = Err e" and q: "q \<noteq> path_for name \<or> at k q \<noteq> [] \<or> undo_works q"
  proof (cases "c = Ok ()")
    case True
    note p = p [OF True]
    obtain k3 fs where k3: "k' = rollback_netns_file S (path_for name) k3" "at k3 = (at k)(path_for name := fs)"
      "fs = [PlainFile] \<or> (\<exists>m. fs = [NsFile m, PlainFile])"
    proof (cases "sy_spawn S (''netns-create-'' @ name) k1")
      case (Err x)
      then have "k' = rollback_netns_file S (path_for name) k1" using go [OF True] e by (simp add: spawn_thread_def)
      with p that show ?thesis by blast
    next
      case (Ok u)
      then have "k' = rollback_netns_file S (path_for name) k2"
        using go [OF True] e t on_thread(1) [OF t] p(2) by (auto simp: spawn_thread_def split: result.splits outcome.splits)
      with on_thread(2) [OF t] p that show ?thesis by auto
    qed
    note w = rollback_files [OF k3(2,3)]
    show ?thesis using w q p(1) unfolding k3(1) by (metis fun_upd_apply)
  next
    case False
    then have "k' = k1" "at k1 = at k" using fail a by (cases c; auto split: create_error.splits)+
    then show ?thesis by simp
  qed
  show "at k (path_for name) \<noteq> []" if "r = Err (NamespaceExists nm)"
  proof (cases c)
    case (Err x)
    then show ?thesis using fail a that by (cases x) auto
  next
    case (Ok u)
    have "out \<noteq> Returned (Err (NamespaceExists nm))"
      using t by (auto simp: create_netns_on_thread_def bring_up_loopback_def rt_execute_def elim: map_err.elims
          split: result.splits option.splits prod.splits)
    then show ?thesis using go t Ok that by (auto simp: spawn_thread_def split: result.splits outcome.splits)
  qed
qed

lemma ensure_any:
  assumes "ensure_netns_dir S ns k = (r, k')"
  shows "ifs k' = ifs k"
    "inside_dir NETNS_PATH p \<Longrightarrow> p \<noteq> path_for ''.lock'' \<Longrightarrow> at k' p = at k p \<or> first_use S k \<and> at k' p = bare (at k p)"
proof -
  obtain r1 k1 r2 k2 where s: "sy_create_dir_all S NETNS_PATH k = (r1, k1)" "sy_open_lock S (path_for ''.lock'') k1 = (r2, k2)" by fastforce
  obtain r3 k3 r4 k4 where m: "sy_mount S ns (Some NETNS_PATH) NETNS_PATH MsBind k2 = (r3, k3)" "sy_mount S ns None NETNS_PATH MsPrivate k3 = (r4, k4)" by fastforce
  note a = mkdir_law [OF s(1)] lock_law [OF s(2)]
  have b: "ifs k3 = ifs k2 \<and> (inside_dir NETNS_PATH p \<longrightarrow> at k3 p = at k2 p \<or> at k3 p = bare (at k2 p))" for p
  proof (cases r3)
    case (Ok u)
    have "inside_dir NETNS_PATH p \<Longrightarrow> p \<noteq> NETNS_PATH" by (auto simp: inside_dir_def)
    then show ?thesis using bind_law [of ns k2 k3] m(1) Ok by auto
  qed (use bind_fail m(1) in auto)
  note v = private_law [OF m(2)]
  have c: "k' = k1 \<or> k' = k2 \<or> first_use S k \<and> (k' = k3 \<or> k' = k4)"
    using assms s m by (auto simp: ensure_netns_dir_def first_use_def path_for_def Let_def split: prod.splits result.splits bool.splits)
  then show "ifs k' = ifs k" using a b v by auto
  assume "inside_dir NETNS_PATH p" "p \<noteq> path_for ''.lock''"
  then show "at k' p = at k p \<or> first_use S k \<and> at k' p = bare (at k p)" using a b [of p] v c by auto
qed

text \<open>The first namespace created in a directory that is no mount point takes the mounts in it out of sight.\<close>

lemma ensure_hides:
  assumes "sy_create_dir_all S NETNS_PATH k = (Ok (), k1)" "sy_open_lock S (path_for ''.lock'') k1 = (Ok (), k2)"
    "is_mountpoint S NETNS_PATH k2 = Ok False" "ensure_netns_dir S ns k = (Ok (), k')"
    "inside_dir NETNS_PATH p" "p \<noteq> path_for ''.lock''"
  shows "at k' p = bare (at k p)"
proof -
  obtain k3 where m: "sy_mount S ns (Some NETNS_PATH) NETNS_PATH MsBind k2 = (Ok (), k3)" "sy_mount S ns None NETNS_PATH MsPrivate k3 = (Ok (), k')"
    using assms(4,1-3) by (auto simp: ensure_netns_dir_def path_for_def Let_def split: prod.splits result.splits)
  have "p \<noteq> NETNS_PATH" using assms(5) by (auto simp: inside_dir_def)
  then show ?thesis
    using mkdir_law [OF assms(1)] lock_law [OF assms(2)] bind_law [OF m(1)] private_law [OF m(2)] assms(5,6) by simp
qed

text \<open>A deleted namespace is gone from its path.\<close>

lemma delete_Ok:
  assumes "netns_delete S name k = (Ok (), k')"
  shows "\<exists>f g. at k (path_for name) = [f, g]" "at k' = (at k)(path_for name := [])"
proof -
  obtain k1 where u: "sy_umount S (path_for name) k = (Ok (), k1)" "sy_remove_file S (path_for name) k1 = (Ok (), k')"
    using assms by (auto simp: netns_delete_def Let_def split: if_splits prod.splits result.splits)
  note a = umount_law [OF u(1)] remove_law [OF u(2)]
  then obtain f g fs where f: "at k (path_for name) = f # g # fs" "at k1 = (at k)(path_for name := g # fs)" by auto
  then show "\<exists>f g. at k (path_for name) = [f, g]" "at k' = (at k)(path_for name := [])" using a(2) by auto
qed

end

lemma collect_names_Ok: "collect_names es = Ok names \<Longrightarrow> names = [n. Ok n \<leftarrow> es, n \<noteq> ''.lock''] \<and> (\<forall>e. Err e \<notin> set es)"
  by (induction es arbitrary: names rule: collect_names.induct) (auto split: result.splits if_splits)

end
