(* ===== verification/Netlink.thy ===== *)
theory Netlink
  imports Netns
begin

text \<open>
  Links over netlink: \<open>sarena-infra/src/netlink_link.rs\<close> and \<open>netlink_provisioner.rs\<close>. A link is a snapshot of an interface with the path
  of its namespace; each operation opens that namespace again and sends its request from there, or from the namespace \<open>dns\<close> of
  the process for a link without one. The operations the plugin uses are \<open>netlink_ops\<close>.
\<close>

section \<open>Links\<close>

datatype link_kind =
    LkVeth | LkBridge | LkDummy | LkLoopback | LkTun | LkVlan | LkMacvlan | LkIpvlan | LkVxlan | LkGeneve | LkOther string | LkUnknown

definition char_lower :: "char \<Rightarrow> char" where
  "char_lower c = (let n = of_char c :: nat in if 65 \<le> n \<and> n \<le> 90 then char_of (n + 32) else c)"

fun link_kind_from :: "info_kind \<Rightarrow> link_kind" where
  "link_kind_from IkVeth = LkVeth"
| "link_kind_from IkBridge = LkBridge"
| "link_kind_from IkDummy = LkDummy"
| "link_kind_from IkTun = LkTun"
| "link_kind_from IkVlan = LkVlan"
| "link_kind_from IkMacVlan = LkMacvlan"
| "link_kind_from IkIpVlan = LkIpvlan"
| "link_kind_from IkVxlan = LkVxlan"
| "link_kind_from IkGeneve = LkGeneve"
| "link_kind_from (IkOther s) = LkOther (map char_lower s)"

record netlink_link =
  nl_index :: u32
  nl_name :: string
  nl_flags :: u32
  nl_kind :: link_kind
  nl_mac_opt :: "mac_address option"
  nl_mtu :: "u32 option"
  nl_master_index :: "u32 option"
  nl_netns :: "string option"

definition is_up :: "netlink_link \<Rightarrow> bool" where
  "is_up l = flags_contain (nl_flags l) IFF_UP"

definition is_running :: "netlink_link \<Rightarrow> bool" where
  "is_running l = flags_contain (nl_flags l) IFF_RUNNING"

text \<open>\<open>None\<close> is the panic of \<open>expect\<close>.\<close>

definition nl_mac :: "netlink_link \<Rightarrow> mac_address option" where
  "nl_mac l = nl_mac_opt l"

section \<open>Messages from the kernel\<close>

fun info_step :: "link_info \<Rightarrow> link_kind \<Rightarrow> link_kind" where
  "info_step (LiKind ik) k = link_kind_from ik"
| "info_step _ k = k"

fun attr_step :: "link_attribute \<Rightarrow> netlink_link \<Rightarrow> netlink_link" where
  "attr_step (AIfName n) l = l\<lparr>nl_name := n\<rparr>"
| "attr_step (AMtu m) l = l\<lparr>nl_mtu := Some m\<rparr>"
| "attr_step (AController i) l = l\<lparr>nl_master_index := Some i\<rparr>"
| "attr_step (AAddress bytes) l = (if length bytes = 6 then l\<lparr>nl_mac_opt := Some (MacAddress bytes)\<rparr> else l)"
| "attr_step (ALinkInfo infos) l = l\<lparr>nl_kind := fold info_step infos (nl_kind l)\<rparr>"
| "attr_step _ l = l"

definition parse_link :: "link_message \<Rightarrow> netlink_link" where
  "parse_link m =
     (let l = fold attr_step (lm_attributes m)
        \<lparr>nl_index = lm_index m, nl_name = [], nl_flags = lm_flags m, nl_kind = LkUnknown, nl_mac_opt = None, nl_mtu = None,
         nl_master_index = None, nl_netns = None\<rparr>
      in if nl_kind l = LkUnknown \<and> flags_contain (lm_flags m) IFF_LOOPBACK then l\<lparr>nl_kind := LkLoopback\<rparr> else l)"

definition parse_address :: "address_message \<Rightarrow> interface_address option" where
  "parse_address m =
     (case [ip. AaLocal ip \<leftarrow> am_attributes m] @ [ip. AaAddress ip \<leftarrow> am_attributes m] of
        [] \<Rightarrow> None
      | ip # _ \<Rightarrow> (case ia_new ip (am_prefix_len m) of Ok a \<Rightarrow> Some a | Err _ \<Rightarrow> None))"

section \<open>Requests\<close>

definition ENODEV :: int where
  "ENODEV = 19"

definition nl_err :: "'k sys \<Rightarrow> nl_error \<Rightarrow> infra_error" where
  "nl_err S e = NetlinkError (rt_error_str S e)"

definition default_handle :: "'k sys \<Rightarrow> nsid \<Rightarrow> 'k \<Rightarrow> (unit, infra_error) result" where
  "default_handle S ns k = map_err RuntimeError (rt_connect S ns k)"

definition get_link_impl :: "'k sys \<Rightarrow> string \<Rightarrow> nsid \<Rightarrow> 'k \<Rightarrow> (netlink_link, infra_error) result" where
  "get_link_impl S name ns k =
     (case rt_get_link S ns name k of
        Ok msg \<Rightarrow> (case msg of Some m \<Rightarrow> Ok (parse_link m) | None \<Rightarrow> Err (LinkNotFound name))
      | Err e \<Rightarrow> if e = NlCode (- ENODEV) then Err (LinkNotFound name) else Err (nl_err S e))"

text \<open>\<open>try_collect\<close>: the first error ends the stream.\<close>

fun try_collect :: "('a, 'e) result list \<Rightarrow> ('a list, 'e) result" where
  "try_collect [] = Ok []"
| "try_collect (Err e # rs) = Err e"
| "try_collect (Ok x # rs) = (case try_collect rs of Err e \<Rightarrow> Err e | Ok xs \<Rightarrow> Ok (x # xs))"

definition list_links_impl :: "'k sys \<Rightarrow> nsid \<Rightarrow> 'k \<Rightarrow> (netlink_link list, infra_error) result" where
  "list_links_impl S ns k =
     (case try_collect (rt_list_links S ns k) of Err e \<Rightarrow> Err (nl_err S e) | Ok ms \<Rightarrow> Ok (map parse_link ms))"

definition link_set_up_impl :: "'k sys \<Rightarrow> u32 \<Rightarrow> nsid \<Rightarrow> 'k \<Rightarrow> (unit, infra_error) result \<times> 'k" where
  "link_set_up_impl S i ns = rt_execute S ns (LinkSet (LinkMessage i IFF_UP IFF_UP []))"

definition link_set_down_impl :: "'k sys \<Rightarrow> u32 \<Rightarrow> nsid \<Rightarrow> 'k \<Rightarrow> (unit, infra_error) result \<times> 'k" where
  "link_set_down_impl S i ns = rt_execute S ns (LinkSet (LinkMessage i 0 IFF_UP []))"

definition link_set_arp_impl :: "'k sys \<Rightarrow> u32 \<Rightarrow> bool \<Rightarrow> nsid \<Rightarrow> 'k \<Rightarrow> (unit, infra_error) result \<times> 'k" where
  "link_set_arp_impl S i enabled ns = rt_execute S ns (LinkSet (LinkMessage i (if enabled then 0 else IFF_NOARP) IFF_NOARP []))"

definition link_set_mtu_impl :: "'k sys \<Rightarrow> u32 \<Rightarrow> u32 \<Rightarrow> nsid \<Rightarrow> 'k \<Rightarrow> (unit, infra_error) result \<times> 'k" where
  "link_set_mtu_impl S i mtu ns = rt_execute S ns (LinkSet (LinkMessage i 0 0 [AMtu mtu]))"

definition link_set_mac_impl :: "'k sys \<Rightarrow> u32 \<Rightarrow> mac_address \<Rightarrow> nsid \<Rightarrow> 'k \<Rightarrow> (unit, infra_error) result \<times> 'k" where
  "link_set_mac_impl S i mac ns = rt_execute S ns (LinkSet (LinkMessage i 0 0 [AAddress (mac_bytes mac)]))"

definition build_add_addr_request :: "u32 \<Rightarrow> interface_address \<Rightarrow> address_request" where
  "build_add_addr_request i a =
     (let q = \<lparr>aq_index = i, aq_ip = ia_ip a, aq_prefix_len = ia_prefix_len a, aq_header_nodad = False, aq_flags_nodad = False, aq_replace = False\<rparr>
      in case ia_ip a of V6 _ \<Rightarrow> q\<lparr>aq_header_nodad := True, aq_flags_nodad := True\<rparr> | V4 _ \<Rightarrow> q)"

definition link_add_addr_impl :: "'k sys \<Rightarrow> u32 \<Rightarrow> interface_address \<Rightarrow> nsid \<Rightarrow> 'k \<Rightarrow> (unit, infra_error) result \<times> 'k" where
  "link_add_addr_impl S i a ns = rt_execute S ns (AddrAdd (build_add_addr_request i a))"

definition link_replace_addr_impl :: "'k sys \<Rightarrow> u32 \<Rightarrow> interface_address \<Rightarrow> nsid \<Rightarrow> 'k \<Rightarrow> (unit, infra_error) result \<times> 'k" where
  "link_replace_addr_impl S i a ns = rt_execute S ns (AddrAdd ((build_add_addr_request i a)\<lparr>aq_replace := True\<rparr>))"

definition link_del_addr_impl :: "'k sys \<Rightarrow> u32 \<Rightarrow> interface_address \<Rightarrow> nsid \<Rightarrow> 'k \<Rightarrow> (unit, infra_error) result \<times> 'k" where
  "link_del_addr_impl S i a ns = rt_execute S ns (AddrDel i (ia_ip a) (ia_prefix_len a))"

definition link_addresses_impl ::
  "'k sys \<Rightarrow> u32 \<Rightarrow> address_family option \<Rightarrow> nsid \<Rightarrow> 'k \<Rightarrow> (interface_address list, infra_error) result" where
  "link_addresses_impl S i family ns k =
     (case try_collect (rt_list_addresses S ns i k) of
        Err e \<Rightarrow> Err (nl_err S e)
      | Ok ms \<Rightarrow> Ok (filter (\<lambda>a. case family of None \<Rightarrow> True | Some f \<Rightarrow> family_matches f (ia_ip a)) (List.map_filter parse_address ms)))"

definition route_message :: "u32 \<Rightarrow> route_request" where
  "route_message i = \<lparr>rr_destination = None, rr_output_interface = i, rr_gateway = None, rr_link_scope = False, rr_pref_source = None,
     rr_table = None, rr_mtu = None\<rparr>"

definition link_add_gateway_impl :: "'k sys \<Rightarrow> u32 \<Rightarrow> u32 \<Rightarrow> nsid \<Rightarrow> 'k \<Rightarrow> (unit, infra_error) result \<times> 'k" where
  "link_add_gateway_impl S i gw ns = rt_execute S ns (RouteReplace ((route_message i)\<lparr>rr_gateway := Some (V4 gw)\<rparr>))"

definition build_route :: "'k sys \<Rightarrow> u32 \<Rightarrow> ip_route \<Rightarrow> (route_request, infra_error) result" where
  "build_route S i r =
     (case rt_destination_prefix S (net_addr (ro_prefix r)) (prefix_len (ro_prefix r)) of
        Err e \<Rightarrow> Err (InvalidRoute e)
      | Ok _ \<Rightarrow>
          (let q = (route_message i)\<lparr>rr_destination := Some (net_addr (ro_prefix r), prefix_len (ro_prefix r))\<rparr>
           in case (case ro_nexthop r of
                      Some nh \<Rightarrow> (case rt_gateway S q nh of Err e \<Rightarrow> Err (InvalidRoute e) | Ok _ \<Rightarrow> Ok (q\<lparr>rr_gateway := Some nh\<rparr>))
                    | None \<Rightarrow> Ok (q\<lparr>rr_link_scope := True\<rparr>)) of
                Err e \<Rightarrow> Err e
              | Ok q \<Rightarrow>
                  (case (case ro_local r of
                           None \<Rightarrow> Ok q
                         | Some src \<Rightarrow> (case rt_pref_source S q src of Err e \<Rightarrow> Err (InvalidRoute e) | Ok _ \<Rightarrow> Ok (q\<lparr>rr_pref_source := Some src\<rparr>))) of
                     Err e \<Rightarrow> Err e
                   | Ok q \<Rightarrow> Ok (q\<lparr>rr_table := ro_table r, rr_mtu := ro_mtu r\<rparr>))))"

definition link_add_route_impl :: "'k sys \<Rightarrow> u32 \<Rightarrow> ip_route \<Rightarrow> nsid \<Rightarrow> 'k \<Rightarrow> (unit, infra_error) result \<times> 'k" where
  "link_add_route_impl S i r ns k =
     (case build_route S i r of Err e \<Rightarrow> (Err e, k) | Ok q \<Rightarrow> rt_execute S ns (RouteReplace q) k)"

definition link_rename_impl :: "'k sys \<Rightarrow> u32 \<Rightarrow> string \<Rightarrow> nsid \<Rightarrow> 'k \<Rightarrow> (unit, infra_error) result \<times> 'k" where
  "link_rename_impl S i name ns = rt_execute S ns (LinkSet (LinkMessage i 0 0 [AIfName name]))"

definition link_delete_impl :: "'k sys \<Rightarrow> u32 \<Rightarrow> nsid \<Rightarrow> 'k \<Rightarrow> (unit, infra_error) result \<times> 'k" where
  "link_delete_impl S i ns = rt_execute S ns (LinkDel i)"

definition link_setns_impl :: "'k sys \<Rightarrow> u32 \<Rightarrow> file_obj \<Rightarrow> nsid \<Rightarrow> 'k \<Rightarrow> (unit, infra_error) result \<times> 'k" where
  "link_setns_impl S i fd ns = rt_execute S ns (LinkSet (LinkMessage i 0 0 [ANetNsFd fd]))"

definition sysctl_write :: "'k sys \<Rightarrow> string \<Rightarrow> string \<Rightarrow> nsid \<Rightarrow> 'k \<Rightarrow> (unit, infra_error) result \<times> 'k" where
  "sysctl_write S p v ns k = (case sy_write S ns p v k of (r, k) \<Rightarrow> (map_err (\<lambda>_. InfraIo (''write '' @ p)) r, k))"

section \<open>Operations on a link\<close>

text \<open>A request is sent inside the namespace of the link, by a thread of its own, or by the caller.\<close>

definition returns :: "(nsid \<Rightarrow> 'k \<Rightarrow> 'r \<times> 'k) \<Rightarrow> nsid \<Rightarrow> 'k \<Rightarrow> 'r outcome \<times> 'k" where
  "returns f ns k = (case f ns k of (r, k) \<Rightarrow> (Returned r, k))"

definition in_netns ::
  "'k sys \<Rightarrow> nsid \<Rightarrow> string \<Rightarrow> (nsid \<Rightarrow> 'k \<Rightarrow> ('a, infra_error) result \<times> 'k) \<Rightarrow> 'k \<Rightarrow> ('a, infra_error) result \<times> 'k" where
  "in_netns S dns p f k =
     (case netns_open_path S p k of Err e \<Rightarrow> (Err e, k) | Ok n \<Rightarrow> netns_run S n (returns f) dns k)"

definition on_link ::
  "'k sys \<Rightarrow> nsid \<Rightarrow> netlink_link \<Rightarrow> (nsid \<Rightarrow> 'k \<Rightarrow> ('a, infra_error) result \<times> 'k) \<Rightarrow> 'k \<Rightarrow> ('a, infra_error) result \<times> 'k" where
  "on_link S dns l f k =
     (case nl_netns l of
        Some p \<Rightarrow> in_netns S dns p f k
      | None \<Rightarrow> (case default_handle S dns k of Err e \<Rightarrow> (Err e, k) | Ok _ \<Rightarrow> f dns k))"

definition on_sysctl ::
  "'k sys \<Rightarrow> nsid \<Rightarrow> netlink_link \<Rightarrow> (nsid \<Rightarrow> 'k \<Rightarrow> (unit, infra_error) result \<times> 'k) \<Rightarrow> 'k \<Rightarrow> (unit, infra_error) result \<times> 'k" where
  "on_sysctl S dns l f k = (case nl_netns l of Some p \<Rightarrow> in_netns S dns p f k | None \<Rightarrow> f dns k)"

text \<open>The link after a request that was granted.\<close>

definition then_link :: "netlink_link \<Rightarrow> (unit, infra_error) result \<times> 'k \<Rightarrow> (netlink_link, infra_error) result \<times> 'k" where
  "then_link l rk = (case rk of (Ok _, k) \<Rightarrow> (Ok l, k) | (Err e, k) \<Rightarrow> (Err e, k))"

definition nl_set_up :: "'k sys \<Rightarrow> nsid \<Rightarrow> ('k, netlink_link) link_op" where
  "nl_set_up S dns l k = then_link l (on_link S dns l (link_set_up_impl S (nl_index l)) k)"

definition nl_set_down :: "'k sys \<Rightarrow> nsid \<Rightarrow> ('k, netlink_link) link_op" where
  "nl_set_down S dns l k = then_link l (on_link S dns l (link_set_down_impl S (nl_index l)) k)"

definition nl_set_mtu :: "'k sys \<Rightarrow> nsid \<Rightarrow> u32 \<Rightarrow> ('k, netlink_link) link_op" where
  "nl_set_mtu S dns mtu l k = then_link (l\<lparr>nl_mtu := Some mtu\<rparr>) (on_link S dns l (link_set_mtu_impl S (nl_index l) mtu) k)"

definition nl_set_mac :: "'k sys \<Rightarrow> nsid \<Rightarrow> mac_address \<Rightarrow> ('k, netlink_link) link_op" where
  "nl_set_mac S dns mac l k = then_link (l\<lparr>nl_mac_opt := Some mac\<rparr>) (on_link S dns l (link_set_mac_impl S (nl_index l) mac) k)"

definition nl_set_ns :: "'k sys \<Rightarrow> nsid \<Rightarrow> netns \<Rightarrow> ('k, netlink_link) link_op" where
  "nl_set_ns S dns target l k =
     then_link (l\<lparr>nl_netns := Some (ns_path target)\<rparr>) (on_link S dns l (link_setns_impl S (nl_index l) (ns_fd target)) k)"

definition nl_rename :: "'k sys \<Rightarrow> nsid \<Rightarrow> string \<Rightarrow> ('k, netlink_link) link_op" where
  "nl_rename S dns name l k = then_link (l\<lparr>nl_name := name\<rparr>) (on_link S dns l (link_rename_impl S (nl_index l) name) k)"

definition nl_delete :: "'k sys \<Rightarrow> nsid \<Rightarrow> netlink_link \<Rightarrow> 'k \<Rightarrow> (unit, infra_error) result \<times> 'k" where
  "nl_delete S dns l k = on_link S dns l (link_delete_impl S (nl_index l)) k"

definition nl_add_addr :: "'k sys \<Rightarrow> nsid \<Rightarrow> interface_address \<Rightarrow> ('k, netlink_link) link_op" where
  "nl_add_addr S dns a l k = then_link l (on_link S dns l (link_add_addr_impl S (nl_index l) a) k)"

definition nl_replace_addr :: "'k sys \<Rightarrow> nsid \<Rightarrow> interface_address \<Rightarrow> ('k, netlink_link) link_op" where
  "nl_replace_addr S dns a l k = then_link l (on_link S dns l (link_replace_addr_impl S (nl_index l) a) k)"

definition nl_delete_addr :: "'k sys \<Rightarrow> nsid \<Rightarrow> interface_address \<Rightarrow> ('k, netlink_link) link_op" where
  "nl_delete_addr S dns a l k = then_link l (on_link S dns l (link_del_addr_impl S (nl_index l) a) k)"

definition nl_addresses :: "'k sys \<Rightarrow> nsid \<Rightarrow> address_family option \<Rightarrow> netlink_link \<Rightarrow> 'k \<Rightarrow> (interface_address list, infra_error) result" where
  "nl_addresses S dns family l k = fst (on_link S dns l (\<lambda>ns k. (link_addresses_impl S (nl_index l) family ns k, k)) k)"

definition nl_add_gateway :: "'k sys \<Rightarrow> nsid \<Rightarrow> u32 \<Rightarrow> ('k, netlink_link) link_op" where
  "nl_add_gateway S dns gw l k = then_link l (on_link S dns l (link_add_gateway_impl S (nl_index l) gw) k)"

definition nl_add_route :: "'k sys \<Rightarrow> nsid \<Rightarrow> ip_route \<Rightarrow> ('k, netlink_link) link_op" where
  "nl_add_route S dns r l k = then_link l (on_link S dns l (link_add_route_impl S (nl_index l) r) k)"

definition conf_path :: "string \<Rightarrow> string \<Rightarrow> string \<Rightarrow> string" where
  "conf_path fam name key = ''/proc/sys/net/'' @ fam @ ''/conf/'' @ name @ ''/'' @ key"

definition bool_text :: "bool \<Rightarrow> string" where
  "bool_text b = (if b then ''1'' else ''0'')"

definition nl_set_ipv4_forwarding :: "'k sys \<Rightarrow> nsid \<Rightarrow> bool \<Rightarrow> ('k, netlink_link) link_op" where
  "nl_set_ipv4_forwarding S dns b l k =
     then_link l (on_sysctl S dns l (sysctl_write S (conf_path ''ipv4'' (nl_name l) ''forwarding'') (bool_text b)) k)"

definition nl_set_ipv6_forwarding :: "'k sys \<Rightarrow> nsid \<Rightarrow> bool \<Rightarrow> ('k, netlink_link) link_op" where
  "nl_set_ipv6_forwarding S dns b l k =
     then_link l (on_sysctl S dns l (sysctl_write S (conf_path ''ipv6'' (nl_name l) ''forwarding'') (bool_text b)) k)"

definition nl_set_ipv6_disable :: "'k sys \<Rightarrow> nsid \<Rightarrow> bool \<Rightarrow> ('k, netlink_link) link_op" where
  "nl_set_ipv6_disable S dns b l k =
     then_link l (on_sysctl S dns l (sysctl_write S (conf_path ''ipv6'' (nl_name l) ''disable_ipv6'') (bool_text b)) k)"

definition nl_set_rp_filter :: "'k sys \<Rightarrow> nsid \<Rightarrow> u8 \<Rightarrow> ('k, netlink_link) link_op" where
  "nl_set_rp_filter S dns v l k =
     then_link l (on_sysctl S dns l (sysctl_write S (conf_path ''ipv4'' (nl_name l) ''rp_filter'') (dec_str (unat v))) k)"

definition nl_set_accept_local :: "'k sys \<Rightarrow> nsid \<Rightarrow> bool \<Rightarrow> ('k, netlink_link) link_op" where
  "nl_set_accept_local S dns b l k =
     then_link l (on_sysctl S dns l (sysctl_write S (conf_path ''ipv4'' (nl_name l) ''accept_local'') (bool_text b)) k)"

definition nl_set_send_redirects :: "'k sys \<Rightarrow> nsid \<Rightarrow> bool \<Rightarrow> ('k, netlink_link) link_op" where
  "nl_set_send_redirects S dns b l k =
     then_link l (on_sysctl S dns l (sysctl_write S (conf_path ''ipv4'' (nl_name l) ''send_redirects'') (bool_text b)) k)"

definition nl_set_arp :: "'k sys \<Rightarrow> nsid \<Rightarrow> bool \<Rightarrow> ('k, netlink_link) link_op" where
  "nl_set_arp S dns b l k = then_link l (on_link S dns l (link_set_arp_impl S (nl_index l) b) k)"

section \<open>The provisioner\<close>

definition mac_attribute :: "mac_address option \<Rightarrow> link_attribute list" where
  "mac_attribute m = (case m of None \<Rightarrow> [] | Some mac \<Rightarrow> [AAddress (mac_bytes mac)])"

definition veth_message :: "string \<Rightarrow> string \<Rightarrow> mac_address option \<Rightarrow> mac_address option \<Rightarrow> link_message" where
  "veth_message name peer_name mac peer_mac =
     LinkMessage 0 0 0 (AIfName name # mac_attribute mac @
       [ALinkInfo [LiKind IkVeth, LiVethPeer (LinkMessage 0 0 0 (AIfName peer_name # mac_attribute peer_mac))]])"

definition create_veth_pair ::
  "'k sys \<Rightarrow> string \<Rightarrow> string \<Rightarrow> mac_address option \<Rightarrow> mac_address option \<Rightarrow> nsid \<Rightarrow> 'k \<Rightarrow>
     (netlink_link \<times> netlink_link, infra_error) result \<times> 'k" where
  "create_veth_pair S name peer_name mac peer_mac dns k =
     (case default_handle S dns k of
        Err e \<Rightarrow> (Err e, k)
      | Ok _ \<Rightarrow>
          (case rt_execute S dns (LinkAdd (veth_message name peer_name mac peer_mac)) k of
             (Err e, k) \<Rightarrow> (Err e, k)
           | (Ok _, k) \<Rightarrow>
               (case get_link_impl S name dns k of
                  Err e \<Rightarrow> (Err e, k)
                | Ok link \<Rightarrow>
                    (case get_link_impl S peer_name dns k of
                       Err e \<Rightarrow> (Err e, k)
                     | Ok peer \<Rightarrow> (Ok (link, peer), k)))))"

definition nl_get_link :: "'k sys \<Rightarrow> nsid \<Rightarrow> string \<Rightarrow> 'k \<Rightarrow> (netlink_link, infra_error) result" where
  "nl_get_link S dns name k =
     (case default_handle S dns k of Err e \<Rightarrow> Err e | Ok _ \<Rightarrow> get_link_impl S name dns k)"

definition nl_get_link_in_ns :: "'k sys \<Rightarrow> nsid \<Rightarrow> string \<Rightarrow> string \<Rightarrow> 'k \<Rightarrow> (netlink_link, infra_error) result" where
  "nl_get_link_in_ns S dns p name k =
     (case fst (in_netns S dns p (\<lambda>ns k. (get_link_impl S name ns k, k)) k) of
        Err e \<Rightarrow> Err e
      | Ok l \<Rightarrow> Ok (l\<lparr>nl_netns := Some p\<rparr>))"

definition nl_list_links :: "'k sys \<Rightarrow> nsid \<Rightarrow> 'k \<Rightarrow> (netlink_link list, infra_error) result" where
  "nl_list_links S dns k = (case default_handle S dns k of Err e \<Rightarrow> Err e | Ok _ \<Rightarrow> list_links_impl S dns k)"

definition nl_list_links_in_ns :: "'k sys \<Rightarrow> nsid \<Rightarrow> string \<Rightarrow> 'k \<Rightarrow> (netlink_link list, infra_error) result" where
  "nl_list_links_in_ns S dns p k =
     (case fst (in_netns S dns p (\<lambda>ns k. (list_links_impl S ns k, k)) k) of
        Err e \<Rightarrow> Err e
      | Ok ls \<Rightarrow> Ok (map (\<lambda>l. l\<lparr>nl_netns := Some p\<rparr>) ls))"

definition nl_create_veth :: "'k sys \<Rightarrow> nsid \<Rightarrow> veth_spec \<Rightarrow> 'k \<Rightarrow> (netlink_link veth_pair, infra_error) result \<times> 'k" where
  "nl_create_veth S dns sp k =
     (case create_veth_pair S (vs_host_ifname sp) (vs_peer_ifname sp) (vs_host_mac sp) (vs_peer_mac sp) dns k of
        (Err e, k) \<Rightarrow> (Err e, k)
      | (Ok (host, peer), k) \<Rightarrow> (Ok \<lparr>vp_host = host, vp_peer = peer\<rparr>, k))"

definition nl_delete_veth :: "'k sys \<Rightarrow> nsid \<Rightarrow> netlink_link veth_pair \<Rightarrow> 'k \<Rightarrow> (unit, infra_error) result \<times> 'k" where
  "nl_delete_veth S dns pair k = nl_delete S dns (vp_host pair) k"

definition nl_delete_link :: "'k sys \<Rightarrow> nsid \<Rightarrow> string \<Rightarrow> 'k \<Rightarrow> (unit, infra_error) result \<times> 'k" where
  "nl_delete_link S dns name k =
     (case nl_get_link S dns name k of Err e \<Rightarrow> (Err e, k) | Ok l \<Rightarrow> nl_delete S dns l k)"

definition nl_delete_link_in_ns :: "'k sys \<Rightarrow> nsid \<Rightarrow> string \<Rightarrow> string \<Rightarrow> 'k \<Rightarrow> (unit, infra_error) result \<times> 'k" where
  "nl_delete_link_in_ns S dns p name k =
     (case nl_get_link_in_ns S dns p name k of Err e \<Rightarrow> (Err e, k) | Ok l \<Rightarrow> nl_delete S dns l k)"

definition nl_enable_ip_forwarding :: "'k sys \<Rightarrow> nsid \<Rightarrow> bool \<Rightarrow> 'k \<Rightarrow> (unit, infra_error) result \<times> 'k" where
  "nl_enable_ip_forwarding S dns v6 k =
     (case sysctl_write S ''/proc/sys/net/ipv4/ip_forward'' ''1'' dns k of
        (Err e, k) \<Rightarrow> (Err e, k)
      | (Ok _, k) \<Rightarrow>
          (case sysctl_write S (conf_path ''ipv4'' ''all'' ''forwarding'') ''1'' dns k of
             (Err e, k) \<Rightarrow> (Err e, k)
           | (Ok _, k) \<Rightarrow> if v6 then sysctl_write S (conf_path ''ipv6'' ''all'' ''forwarding'') ''1'' dns k else (Ok (), k)))"

definition nl_set_rp_filter_all :: "'k sys \<Rightarrow> nsid \<Rightarrow> u8 \<Rightarrow> 'k \<Rightarrow> (unit, infra_error) result \<times> 'k" where
  "nl_set_rp_filter_all S dns v k = sysctl_write S (conf_path ''ipv4'' ''all'' ''rp_filter'') (dec_str (unat v)) dns k"

text \<open>The operations of the plugin. In \<open>net_ops\<close> a namespace is its path, which the plugin opens before it moves a link there.\<close>

definition netlink_ops :: "'k sys \<Rightarrow> nsid \<Rightarrow> ('k, netlink_link) net_ops" where
  "netlink_ops S dns = \<lparr>
     open_ns = (\<lambda>p k. case netns_open_path S p k of Err e \<Rightarrow> Err e | Ok _ \<Rightarrow> Ok ()),
     create_veth = nl_create_veth S dns,
     delete_link_in_ns = nl_delete_link_in_ns S dns,
     get_link_in_ns = nl_get_link_in_ns S dns,
     lk_ifname = nl_name, lk_ifindex = nl_index, lk_mac = nl_mac,
     lk_addresses = nl_addresses S dns,
     lk_set_up = nl_set_up S dns,
     lk_set_mtu = nl_set_mtu S dns,
     lk_set_ns = (\<lambda>p l k. case netns_open_path S p k of Err e \<Rightarrow> (Err e, k) | Ok n \<Rightarrow> nl_set_ns S dns n l k),
     lk_rename = nl_rename S dns,
     lk_add_addr = nl_add_addr S dns,
     lk_add_route = nl_add_route S dns,
     lk_set_rp_filter = nl_set_rp_filter S dns\<rparr>"

section \<open>Lemmas\<close>

lemma netlink_ops_simps [simp]:
  "open_ns (netlink_ops S dns) p k = (case netns_open_path S p k of Err e \<Rightarrow> Err e | Ok _ \<Rightarrow> Ok ())"
  "create_veth (netlink_ops S dns) = nl_create_veth S dns" "delete_link_in_ns (netlink_ops S dns) = nl_delete_link_in_ns S dns"
  "get_link_in_ns (netlink_ops S dns) = nl_get_link_in_ns S dns" "lk_addresses (netlink_ops S dns) = nl_addresses S dns"
  "lk_ifname (netlink_ops S dns) = nl_name" "lk_ifindex (netlink_ops S dns) = nl_index"
  by (simp_all add: netlink_ops_def)

lemma attr_step_keeps:
  "nl_index (attr_step a l) = nl_index l" "nl_flags (attr_step a l) = nl_flags l" "nl_netns (attr_step a l) = nl_netns l"
  by (cases a; simp)+

lemma fold_attrs:
  "nl_name (fold attr_step as l) = last (nl_name l # [n. AIfName n \<leftarrow> as])"
  "nl_mac_opt (fold attr_step as l) = last (nl_mac_opt l # [Some (MacAddress b). AAddress b \<leftarrow> as, length b = 6])"
  "nl_mtu (fold attr_step as l) = last (nl_mtu l # [Some m. AMtu m \<leftarrow> as])"
  "nl_index (fold attr_step as l) = nl_index l" "nl_flags (fold attr_step as l) = nl_flags l" "nl_netns (fold attr_step as l) = nl_netns l"
  by (induction "as" arbitrary: l; simp add: attr_step_keeps split: link_attribute.splits)+

text \<open>A message that describes an interface is read as a link with its index, name, state and MTU.\<close>

lemma parse_described:
  assumes "describes i f m"
  shows "nl_index (parse_link m) = i" "nl_name (parse_link m) = if_name f" "is_up (parse_link m) = if_up f"
    "nl_mtu (parse_link m) = Some (if_mtu f)" "nl_netns (parse_link m) = None"
    "nl_mac_opt (parse_link m) \<noteq> None \<Longrightarrow> nl_mac_opt (parse_link m) = Some (if_mac f)"
proof -
  have m: "[Some x. AMtu x \<leftarrow> as] = map Some [x. AMtu x \<leftarrow> as]" for "as" by (induction "as") (auto split: link_attribute.splits)
  have b: "[Some (MacAddress b). AAddress b \<leftarrow> as, length b = 6] = map (\<lambda>b. Some (MacAddress b)) (filter (\<lambda>b. length b = 6) [b. AAddress b \<leftarrow> as])" for "as"
    by (induction "as") (auto split: link_attribute.splits)
  show "nl_index (parse_link m) = i" "nl_name (parse_link m) = if_name f" "is_up (parse_link m) = if_up f"
    "nl_mtu (parse_link m) = Some (if_mtu f)" "nl_netns (parse_link m) = None"
    "nl_mac_opt (parse_link m) \<noteq> None \<Longrightarrow> nl_mac_opt (parse_link m) = Some (if_mac f)"
    using assms by (auto simp: describes_def parse_link_def Let_def fold_attrs is_up_def m b split: if_splits)
qed

lemma try_collect_Ok: "try_collect rs = Ok xs \<Longrightarrow> rs = map Ok xs"
  by (induction rs arbitrary: xs rule: try_collect.induct) (auto split: result.splits)

end
