(* ===== verification/Netlink_Contract.thy ===== *)
theory Netlink_Contract
  imports Netlink Cni_Add
begin

text \<open>
  What links over netlink do to the interfaces of the namespaces. The locale \<open>rtnetlink\<close> adds to \<open>netns_sys\<close> the documented effect of
  the requests (\<open>rtnetlink(7)\<close>, \<open>veth(4)\<close>): a granted request changes the interface with its index; an interface that moves to
  another namespace keeps its index there if it is free and is given another one if it is not. Over it, ADD of the
  plugin is followed from its first request to CHECK. The reference kernel \<open>mem_sys\<close> shows that the laws can hold.
\<close>

section \<open>The effect of requests\<close>

fun attr_set :: "link_attribute \<Rightarrow> iface \<Rightarrow> iface" where
  "attr_set (AIfName n) f = f\<lparr>if_name := n\<rparr>"
| "attr_set (AMtu m) f = f\<lparr>if_mtu := m\<rparr>"
| "attr_set (AAddress b) f = f\<lparr>if_mac := MacAddress b\<rparr>"
| "attr_set _ f = f"

definition changed :: "u32 \<Rightarrow> u32 \<Rightarrow> link_attribute list \<Rightarrow> iface \<Rightarrow> iface" where
  "changed fl cm attrs f = fold attr_set attrs (if flags_contain cm IFF_UP then f\<lparr>if_up := flags_contain fl IFF_UP\<rparr> else f)"

text \<open>\<open>IFA_LOCAL\<close> is the address of the interface; without it \<open>IFA_ADDRESS\<close> is.\<close>

definition shows_address :: "interface_address \<Rightarrow> address_message \<Rightarrow> bool" where
  "shows_address a m \<longleftrightarrow> am_prefix_len m = ia_prefix_len a \<and>
     ([x. AaLocal x \<leftarrow> am_attributes m] = [ia_ip a] \<or>
      [x. AaLocal x \<leftarrow> am_attributes m] = [] \<and> [x. AaAddress x \<leftarrow> am_attributes m] = [ia_ip a])"

definition name_free :: "(u32 \<Rightarrow> iface option) \<Rightarrow> string \<Rightarrow> bool" where
  "name_free fs name \<longleftrightarrow> (\<forall>i f. fs i = Some f \<longrightarrow> if_name f \<noteq> name)"

lemma attempt_Ok: "attempt f m g w = (Ok y, w') \<longleftrightarrow> (\<exists>x w1. m w = (Ok x, w1) \<and> g x w1 = (Ok y, w'))"
  by (auto simp: attempt_def split: prod.splits result.splits)

locale rtnetlink = netns_sys S at ifs
  for S :: "'k sys" and at :: "'k \<Rightarrow> string \<Rightarrow> file_obj list" and ifs :: "'k \<Rightarrow> nsid \<Rightarrow> u32 \<Rightarrow> iface option" +
  fixes adrs :: "'k \<Rightarrow> nsid \<Rightarrow> u32 \<Rightarrow> interface_address set"
  assumes set_law: "rt_request S ns (LinkSet (LinkMessage i fl cm attrs)) k = (Ok (), k') \<Longrightarrow> (\<And>fd. ANetNsFd fd \<notin> set attrs) \<Longrightarrow>
      \<exists>f. ifs k ns i = Some f \<and> ifs k' = (ifs k)(ns := (ifs k ns)(i \<mapsto> changed fl cm attrs f)) \<and>
        (\<forall>name. AIfName name \<in> set attrs \<longrightarrow> name_free ((ifs k ns)(i := None)) name)"
    and move_law: "rt_request S ns (LinkSet (LinkMessage i 0 0 [ANetNsFd (NsFile m)])) k = (Ok (), k') \<Longrightarrow> m \<noteq> ns \<Longrightarrow>
      \<exists>f j. ifs k ns i = Some f \<and> ifs k m j = None \<and> (ifs k m i = None \<longrightarrow> j = i) \<and>
        ifs k' = (ifs k)(ns := (ifs k ns)(i := None), m := (ifs k m)(j \<mapsto> f\<lparr>if_up := False\<rparr>))"
    and veth_law: "rt_request S ns (LinkAdd (veth_message name peer_name mac peer_mac)) k = (Ok (), k') \<Longrightarrow>
      \<exists>i j f g. i \<noteq> j \<and> ifs k ns i = None \<and> ifs k ns j = None \<and> name \<noteq> peer_name \<and> name_free (ifs k ns) name \<and> name_free (ifs k ns) peer_name \<and>
        ifs k' = (ifs k)(ns := (ifs k ns)(i \<mapsto> f, j \<mapsto> g)) \<and> if_name f = name \<and> if_name g = peer_name \<and>
        (\<forall>x. mac = Some x \<longrightarrow> if_mac f = x) \<and> (\<forall>x. peer_mac = Some x \<longrightarrow> if_mac g = x)"
    and addr_law: "rt_request S ns (AddrAdd q) k = (Ok (), k') \<Longrightarrow> ifs k' = ifs k \<and> (\<forall>m j. adrs k m j \<subseteq> adrs k' m j) \<and>
      \<lparr>ia_ip = aq_ip q, ia_prefix_len = aq_prefix_len q\<rparr> \<in> adrs k' ns (aq_index q)"
    and route_law: "rt_request S ns (RouteReplace rq) k = (Ok (), k') \<Longrightarrow> ifs k' = ifs k \<and> (\<forall>m j. adrs k m j \<subseteq> adrs k' m j)"
    and sysctl_law: "key \<in> {''forwarding'', ''rp_filter'', ''accept_local'', ''send_redirects''} \<Longrightarrow>
      sy_write S ns (conf_path ''ipv4'' name key) v k = (r, k') \<Longrightarrow> ifs k' = ifs k \<and> at k' = at k"
    and list_law: "try_collect (rt_list_addresses S ns i k) = Ok ms \<Longrightarrow> adrs k ns i = {a. \<exists>m \<in> set ms. shows_address a m}"
begin

text \<open>The namespace a link is in.\<close>

definition lives :: "nsid \<Rightarrow> netlink_link \<Rightarrow> 'k \<Rightarrow> nsid \<Rightarrow> bool" where
  "lives dns l k ns \<longleftrightarrow> (case nl_netns l of None \<Rightarrow> ns = dns | Some p \<Rightarrow> \<exists>fs. at k p = NsFile ns # fs)"

lemma lives_unique: "lives dns l k ns \<Longrightarrow> lives dns l k ns' \<Longrightarrow> ns' = ns"
  by (auto simp: lives_def split: option.splits)

lemma in_netns_Ok: "in_netns S dns p f k = (Ok x, k') \<Longrightarrow> \<exists>ns fs. at k p = NsFile ns # fs \<and> f ns k = (Ok x, k')"
  using open_law [of p k] by (force simp: in_netns_def netns_open_path_def returns_def split: result.splits prod.splits dest!: run_Ok)

lemma on_link_Ok: "on_link S dns l f k = (Ok x, k') \<Longrightarrow> lives dns l k ns \<Longrightarrow> f ns k = (Ok x, k')"
  by (auto simp: on_link_def lives_def split: option.splits result.splits dest: in_netns_Ok)

lemma then_link_Ok: "then_link l rk = (Ok l', k') \<longleftrightarrow> l' = l \<and> rk = (Ok (), k')"
  by (auto simp: then_link_def split: prod.splits result.splits)

text \<open>A granted change of a link: the files stay, and the interface with its index is changed in its namespace.\<close>

definition set_effect :: "nsid \<Rightarrow> u32 \<Rightarrow> (iface \<Rightarrow> iface) \<Rightarrow> 'k \<Rightarrow> 'k \<Rightarrow> bool" where
  "set_effect ns i h k k' \<longleftrightarrow> at k' = at k \<and> (\<exists>f. ifs k ns i = Some f \<and> ifs k' = (ifs k)(ns := (ifs k ns)(i \<mapsto> h f)))"

lemma set_Ok:
  assumes "rt_execute S ns (LinkSet (LinkMessage i fl cm attrs)) k = (Ok (), k')" "\<And>fd. ANetNsFd fd \<notin> set attrs"
  shows "set_effect ns i (changed fl cm attrs) k k'" "AIfName name \<in> set attrs \<Longrightarrow> name_free ((ifs k ns)(i := None)) name"
  using set_law [OF assms(1) [unfolded execute_Ok] assms(2)] execute_files [OF assms(1)] by (auto simp: set_effect_def)

lemma link_ops_Ok:
  assumes "lives dns l k ns"
  shows "nl_set_up S dns l k = (Ok l', k') \<Longrightarrow> l' = l \<and> set_effect ns (nl_index l) (\<lambda>f. f\<lparr>if_up := True\<rparr>) k k'"
    "nl_set_mtu S dns mtu l k = (Ok l', k') \<Longrightarrow> l' = l\<lparr>nl_mtu := Some mtu\<rparr> \<and> set_effect ns (nl_index l) (\<lambda>f. f\<lparr>if_mtu := mtu\<rparr>) k k'"
    "nl_rename S dns name l k = (Ok l', k') \<Longrightarrow> l' = l\<lparr>nl_name := name\<rparr> \<and> set_effect ns (nl_index l) (\<lambda>f. f\<lparr>if_name := name\<rparr>) k k' \<and>
      name_free ((ifs k ns)(nl_index l := None)) name"
proof -
  have up: "changed IFF_UP IFF_UP [] = (\<lambda>f. f\<lparr>if_up := True\<rparr>)" "changed 0 0 [AMtu mtu] = (\<lambda>f. f\<lparr>if_mtu := mtu\<rparr>)"
    "changed 0 0 [AIfName name] = (\<lambda>f. f\<lparr>if_name := name\<rparr>)"
    by (auto simp: changed_def flags_contain_def IFF_UP_def)
  note on = on_link_Ok [OF _ assms]
  show "l' = l \<and> set_effect ns (nl_index l) (\<lambda>f. f\<lparr>if_up := True\<rparr>) k k'" if "nl_set_up S dns l k = (Ok l', k')"
  proof -
    have "l' = l" "link_set_up_impl S (nl_index l) ns k = (Ok (), k')" using that on by (auto simp: nl_set_up_def then_link_Ok)
    then show ?thesis using set_Ok(1) [of ns "nl_index l" IFF_UP IFF_UP "[]" k k'] up by (simp add: link_set_up_impl_def)
  qed
  show "l' = l\<lparr>nl_mtu := Some mtu\<rparr> \<and> set_effect ns (nl_index l) (\<lambda>f. f\<lparr>if_mtu := mtu\<rparr>) k k'" if "nl_set_mtu S dns mtu l k = (Ok l', k')"
  proof -
    have "l' = l\<lparr>nl_mtu := Some mtu\<rparr>" "link_set_mtu_impl S (nl_index l) mtu ns k = (Ok (), k')"
      using that on by (auto simp: nl_set_mtu_def then_link_Ok)
    then show ?thesis using set_Ok(1) [of ns "nl_index l" 0 0 "[AMtu mtu]" k k'] up by (simp add: link_set_mtu_impl_def)
  qed
  show "l' = l\<lparr>nl_name := name\<rparr> \<and> set_effect ns (nl_index l) (\<lambda>f. f\<lparr>if_name := name\<rparr>) k k' \<and>
      name_free ((ifs k ns)(nl_index l := None)) name" if "nl_rename S dns name l k = (Ok l', k')"
  proof -
    have "l' = l\<lparr>nl_name := name\<rparr>" "link_rename_impl S (nl_index l) name ns k = (Ok (), k')"
      using that on by (auto simp: nl_rename_def then_link_Ok)
    then show ?thesis using set_Ok [of ns "nl_index l" 0 0 "[AIfName name]" k k'] up by (simp add: link_rename_impl_def)
  qed
qed

lemma set_ns_Ok:
  assumes "lives dns l k ns" "nl_set_ns S dns \<lparr>ns_path = p, ns_fd = NsFile m\<rparr> l k = (Ok l', k')" "m \<noteq> ns"
  shows "l' = l\<lparr>nl_netns := Some p\<rparr>" "at k' = at k"
    "\<exists>f j. ifs k ns (nl_index l) = Some f \<and> ifs k m j = None \<and> (ifs k m (nl_index l) = None \<longrightarrow> j = nl_index l) \<and>
      ifs k' = (ifs k)(ns := (ifs k ns)(nl_index l := None), m := (ifs k m)(j \<mapsto> f\<lparr>if_up := False\<rparr>))"
proof -
  have e: "l' = l\<lparr>nl_netns := Some p\<rparr>" "on_link S dns l (link_setns_impl S (nl_index l) (NsFile m)) k = (Ok (), k')"
    using assms(2) by (auto simp: nl_set_ns_def then_link_Ok)
  have x: "rt_execute S ns (LinkSet (LinkMessage (nl_index l) 0 0 [ANetNsFd (NsFile m)])) k = (Ok (), k')"
    using on_link_Ok [OF e(2) assms(1)] by (simp add: link_setns_impl_def)
  show "l' = l\<lparr>nl_netns := Some p\<rparr>" "at k' = at k" using e(1) execute_files [OF x] by simp_all
  show "\<exists>f j. ifs k ns (nl_index l) = Some f \<and> ifs k m j = None \<and> (ifs k m (nl_index l) = None \<longrightarrow> j = nl_index l) \<and>
      ifs k' = (ifs k)(ns := (ifs k ns)(nl_index l := None), m := (ifs k m)(j \<mapsto> f\<lparr>if_up := False\<rparr>))"
    using move_law [OF x [unfolded execute_Ok] assms(3)] .
qed

lemma get_link_Ok:
  assumes "get_link_impl S name ns k = Ok l"
  shows "\<exists>f. ifs k ns (nl_index l) = Some f \<and> if_name f = name \<and> nl_name l = name \<and> nl_netns l = None"
proof -
  obtain m where m: "rt_get_link S ns name k = Ok (Some m)" "l = parse_link m"
    using assms by (auto simp: get_link_impl_def split: result.splits option.splits if_splits)
  obtain i f where f: "ifs k ns i = Some f" "if_name f = name" "describes i f m" using get_law [OF m(1)] by blast
  then show ?thesis using parse_described [OF f(3)] m(2) by simp
qed

lemma create_veth_Ok:
  assumes "nl_create_veth S dns sp k = (Ok pr, k')"
  shows "at k' = at k"
    "\<exists>i j f g. i \<noteq> j \<and> nl_index (vp_host pr) = i \<and> nl_index (vp_peer pr) = j \<and> nl_netns (vp_host pr) = None \<and> nl_netns (vp_peer pr) = None \<and>
       nl_name (vp_host pr) = vs_host_ifname sp \<and> ifs k dns i = None \<and> ifs k dns j = None \<and> ifs k' = (ifs k)(dns := (ifs k dns)(i \<mapsto> f, j \<mapsto> g)) \<and>
       if_name f = vs_host_ifname sp \<and> (\<forall>x. vs_host_mac sp = Some x \<longrightarrow> if_mac f = x) \<and> (\<forall>x. vs_peer_mac sp = Some x \<longrightarrow> if_mac g = x)"
proof -
  obtain h p where e: "rt_execute S dns (LinkAdd (veth_message (vs_host_ifname sp) (vs_peer_ifname sp) (vs_host_mac sp) (vs_peer_mac sp))) k = (Ok (), k')"
    and g: "get_link_impl S (vs_host_ifname sp) dns k' = Ok h" "get_link_impl S (vs_peer_ifname sp) dns k' = Ok p"
    and pr: "pr = \<lparr>vp_host = h, vp_peer = p\<rparr>"
    using assms by (auto simp: nl_create_veth_def create_veth_pair_def split: result.splits prod.splits)
  obtain i j f1 f2 where v: "i \<noteq> j" "ifs k dns i = None" "ifs k dns j = None" "vs_host_ifname sp \<noteq> vs_peer_ifname sp"
    "name_free (ifs k dns) (vs_host_ifname sp)" "name_free (ifs k dns) (vs_peer_ifname sp)"
    "ifs k' = (ifs k)(dns := (ifs k dns)(i \<mapsto> f1, j \<mapsto> f2))" "if_name f1 = vs_host_ifname sp" "if_name f2 = vs_peer_ifname sp"
    "\<forall>x. vs_host_mac sp = Some x \<longrightarrow> if_mac f1 = x" "\<forall>x. vs_peer_mac sp = Some x \<longrightarrow> if_mac f2 = x"
    using veth_law [OF e [unfolded execute_Ok]] by blast
  have "nl_index h = i" "nl_index p = j"
    using get_link_Ok [OF g(1)] get_link_Ok [OF g(2)] v(4-9) by (auto simp: name_free_def split: if_splits)
  moreover have "nl_netns h = None" "nl_name h = vs_host_ifname sp" "nl_netns p = None"
    using get_link_Ok [OF g(1)] get_link_Ok [OF g(2)] by blast+
  ultimately show "at k' = at k" "\<exists>i j f g. i \<noteq> j \<and> nl_index (vp_host pr) = i \<and> nl_index (vp_peer pr) = j \<and> nl_netns (vp_host pr) = None \<and> nl_netns (vp_peer pr) = None \<and>
       nl_name (vp_host pr) = vs_host_ifname sp \<and> ifs k dns i = None \<and> ifs k dns j = None \<and> ifs k' = (ifs k)(dns := (ifs k dns)(i \<mapsto> f, j \<mapsto> g)) \<and>
       if_name f = vs_host_ifname sp \<and> (\<forall>x. vs_host_mac sp = Some x \<longrightarrow> if_mac f = x) \<and> (\<forall>x. vs_peer_mac sp = Some x \<longrightarrow> if_mac g = x)"
    using execute_files [OF e] v pr by auto
qed

text \<open>The kernel variables of IPv4 change no interface.\<close>

lemma sysctl_Ok:
  assumes "then_link l (on_sysctl S dns l (sysctl_write S (conf_path ''ipv4'' (nl_name l) key) v) k) = (Ok l', k')" "nl_netns l = None"
    "key \<in> {''forwarding'', ''rp_filter'', ''accept_local'', ''send_redirects''}"
  shows "l' = l \<and> ifs k' = ifs k \<and> at k' = at k"
  using assms(1,2) sysctl_law [OF assms(3), of dns "nl_name l" v k]
  by (auto simp: then_link_Ok on_sysctl_def sysctl_write_def split: prod.splits)

lemma sysctls_Ok:
  assumes "nl_netns l = None"
  shows "nl_set_rp_filter S dns n l k = (Ok l', k') \<Longrightarrow> l' = l \<and> ifs k' = ifs k \<and> at k' = at k"
    "nl_set_ipv4_forwarding S dns b l k = (Ok l', k') \<Longrightarrow> l' = l \<and> ifs k' = ifs k \<and> at k' = at k"
    "nl_set_accept_local S dns b l k = (Ok l', k') \<Longrightarrow> l' = l \<and> ifs k' = ifs k \<and> at k' = at k"
    "nl_set_send_redirects S dns b l k = (Ok l', k') \<Longrightarrow> l' = l \<and> ifs k' = ifs k \<and> at k' = at k"
  using sysctl_Ok [OF _ assms]
  by (auto simp: nl_set_rp_filter_def nl_set_ipv4_forwarding_def nl_set_accept_local_def nl_set_send_redirects_def)

text \<open>A pair that was set up: the host side in the namespace of the process and the peer in the target, with their MTU; nothing else
  has changed. The indexes used in the target are also used by the process, so the peer keeps its own.\<close>

lemma setup_veth_Ok:
  assumes "setup_veth (netlink_ops S dns) E cid ifname nsp mtu k = (Ok (host, peer), k')" "at k nsp = NsFile m # fs" "m \<noteq> dns"
    "\<And>i. ifs k m i \<noteq> None \<Longrightarrow> ifs k dns i \<noteq> None"
  shows "at k' = at k" "nl_netns peer = Some nsp"
    "\<exists>f g. ifs k dns (nl_index host) = None \<and> ifs k m (nl_index peer) = None \<and> name_free (ifs k m) ifname \<and>
      ifs k' = (ifs k)(dns := (ifs k dns)(nl_index host \<mapsto> f), m := (ifs k m)(nl_index peer \<mapsto> g)) \<and>
      if_name f = nl_name host \<and> if_up f \<and> if_mtu f = mtu \<and> if_mac f = mac_generate_rand (ev_host_rand E) \<and>
      if_name g = ifname \<and> if_mtu g = mtu \<and> if_mac g = mac_generate_rand (ev_peer_rand E)"
proof -
  obtain pr k1 n0 p1 k2 p2 k3 h1 k4 h2 k5 k6 where s:
    "nl_create_veth S dns \<lparr>vs_host_ifname = endpoint_to_ifname (ev_sha E) (cid @ '':'' @ ifname), vs_host_mac = Some (mac_generate_rand (ev_host_rand E)),
       vs_peer_ifname = endpoint_to_temp_ifname (cid @ '':'' @ ifname), vs_peer_mac = Some (mac_generate_rand (ev_peer_rand E))\<rparr> k = (Ok pr, k1)"
    "netns_open_path S nsp k1 = Ok n0" "nl_set_ns S dns n0 (vp_peer pr) k1 = (Ok p1, k2)" "nl_rename S dns ifname p1 k2 = (Ok p2, k3)"
    "nl_set_rp_filter S dns 0 (vp_host pr) k3 = (Ok h1, k4)" "nl_set_mtu S dns mtu h1 k4 = (Ok h2, k5)" "nl_set_mtu S dns mtu p2 k5 = (Ok peer, k6)"
    "nl_set_up S dns h2 k6 = (Ok host, k')"
    using assms(1) by (auto simp: setup_veth_def Let_def attempt_Ok netlink_ops_def split: result.splits)
  obtain i j f g where v: "at k1 = at k" "i \<noteq> j" "nl_index (vp_host pr) = i" "nl_index (vp_peer pr) = j" "nl_netns (vp_host pr) = None" "nl_netns (vp_peer pr) = None"
    "ifs k dns i = None" "ifs k dns j = None" "ifs k1 = (ifs k)(dns := (ifs k dns)(i \<mapsto> f, j \<mapsto> g))" "if_name f = nl_name (vp_host pr)"
    "if_mac f = mac_generate_rand (ev_host_rand E)" "if_mac g = mac_generate_rand (ev_peer_rand E)"
    using create_veth_Ok [OF s(1)] by auto
  have n0: "n0 = \<lparr>ns_path = nsp, ns_fd = NsFile m\<rparr>"
    using s(2) open_law [of nsp k1] assms(2) v(1) by (auto simp: netns_open_path_def split: result.splits)
  have m: "ifs k m j = None" using assms(4) v(8) by blast
  note t = set_ns_Ok [OF _ s(3) [unfolded n0] assms(3), unfolded lives_def v(6), simplified]
  have k2: "p1 = (vp_peer pr)\<lparr>nl_netns := Some nsp\<rparr>" "at k2 = at k"
    "ifs k2 = (ifs k)(dns := (ifs k dns)(i \<mapsto> f), m := (ifs k m)(j \<mapsto> g\<lparr>if_up := False\<rparr>))"
    using t v m assms(3) by (auto simp: fun_eq_iff)
  have l1: "lives dns p1 k2 m" using k2(1,2) assms(2) by (simp add: lives_def)
  note r = link_ops_Ok(3) [OF l1 s(4)]
  have u: "(ifs k2 m)(nl_index p1 := None) = ifs k m" using k2(1,3) v(4) m by (auto simp: fun_eq_iff)
  have k3: "p2 = (vp_peer pr)\<lparr>nl_netns := Some nsp, nl_name := ifname\<rparr>" "at k3 = at k" "name_free (ifs k m) ifname"
    "ifs k3 = (ifs k)(dns := (ifs k dns)(i \<mapsto> f), m := (ifs k m)(j \<mapsto> g\<lparr>if_up := False, if_name := ifname\<rparr>))"
    using r k2 v(4) m u by (auto simp: set_effect_def)
  note rp = sysctls_Ok(1) [OF v(5) s(5)]
  have l2: "lives dns h1 k4 dns" using rp v(5) by (simp add: lives_def)
  note a = link_ops_Ok(2) [OF l2 s(6)]
  have l3: "lives dns p2 k5 m" using a rp k3(1,2) assms(2) by (simp add: lives_def set_effect_def)
  note b = link_ops_Ok(2) [OF l3 s(7)]
  have l4: "lives dns h2 k6 dns" using a rp v(5) by (simp add: lives_def)
  note c = link_ops_Ok(1) [OF l4 s(8)]
  have e: "at k' = at k" "nl_index host = i" "nl_index peer = j" "nl_netns peer = Some nsp" "nl_name host = nl_name (vp_host pr)"
    using a b c rp k3(1,2) v(3,4) by (auto simp: set_effect_def)
  have "ifs k' = (ifs k)(dns := (ifs k dns)(i \<mapsto> f\<lparr>if_mtu := mtu, if_up := True\<rparr>), m := (ifs k m)(j \<mapsto> g\<lparr>if_up := False, if_name := ifname, if_mtu := mtu\<rparr>))"
    using a b c rp k3(1,4) v(3,4) assms(3) by (auto simp: set_effect_def fun_eq_iff)
  then show "at k' = at k" "nl_netns peer = Some nsp" "\<exists>f g. ifs k dns (nl_index host) = None \<and> ifs k m (nl_index peer) = None \<and> name_free (ifs k m) ifname \<and>
      ifs k' = (ifs k)(dns := (ifs k dns)(nl_index host \<mapsto> f), m := (ifs k m)(nl_index peer \<mapsto> g)) \<and>
      if_name f = nl_name host \<and> if_up f \<and> if_mtu f = mtu \<and> if_mac f = mac_generate_rand (ev_host_rand E) \<and>
      if_name g = ifname \<and> if_mtu g = mtu \<and> if_mac g = mac_generate_rand (ev_peer_rand E)"
    using e v(7,10-12) m k3(3) by fastforce+
qed

lemma add_addr_Ok:
  assumes "lives dns l k ns" "nl_add_addr S dns a l k = (Ok l', k')"
  shows "l' = l \<and> at k' = at k \<and> ifs k' = ifs k \<and> (\<forall>m j. adrs k m j \<subseteq> adrs k' m j) \<and> a \<in> adrs k' ns (nl_index l)"
proof -
  have l: "l' = l" "link_add_addr_impl S (nl_index l) a ns k = (Ok (), k')"
    using assms on_link_Ok [OF _ assms(1)] by (auto simp: nl_add_addr_def then_link_Ok)
  note x = l(2) [unfolded link_add_addr_impl_def]
  have "\<lparr>ia_ip = aq_ip (build_add_addr_request (nl_index l) a), ia_prefix_len = aq_prefix_len (build_add_addr_request (nl_index l) a)\<rparr> = a"
    "aq_index (build_add_addr_request (nl_index l) a) = nl_index l"
    by (simp_all add: build_add_addr_request_def Let_def split: ip_addr.splits)
  then show ?thesis using addr_law [OF x [unfolded execute_Ok]] execute_files [OF x] l(1) by simp
qed

lemma replace_addr_Ok:
  assumes "lives dns l k ns" "nl_replace_addr S dns a l k = (Ok l', k')"
  shows "l' = l \<and> at k' = at k \<and> ifs k' = ifs k \<and> a \<in> adrs k' ns (nl_index l)"
proof -
  have l: "l' = l" "link_replace_addr_impl S (nl_index l) a ns k = (Ok (), k')"
    using assms on_link_Ok [OF _ assms(1)] by (auto simp: nl_replace_addr_def then_link_Ok)
  note x = l(2) [unfolded link_replace_addr_impl_def]
  let ?q = "(build_add_addr_request (nl_index l) a)\<lparr>aq_replace := True\<rparr>"
  have "\<lparr>ia_ip = aq_ip ?q, ia_prefix_len = aq_prefix_len ?q\<rparr> = a" "aq_index ?q = nl_index l"
    by (simp_all add: build_add_addr_request_def Let_def split: ip_addr.splits)
  then show ?thesis using addr_law [OF x [unfolded execute_Ok]] execute_files [OF x] l(1) by simp
qed

lemma set_arp_Ok:
  assumes "lives dns l k ns" "nl_set_arp S dns b l k = (Ok l', k')"
  shows "l' = l \<and> set_effect ns (nl_index l) (\<lambda>f. f) k k'"
proof -
  have l: "l' = l" "link_set_arp_impl S (nl_index l) b ns k = (Ok (), k')"
    using assms on_link_Ok [OF _ assms(1)] by (auto simp: nl_set_arp_def then_link_Ok)
  have "changed fl IFF_NOARP [] = (\<lambda>f. f)" for fl by (auto simp: changed_def flags_contain_def IFF_NOARP_def IFF_UP_def)
  then show ?thesis using set_Ok(1) [of ns "nl_index l" "if b then 0 else IFF_NOARP" IFF_NOARP "[]" k k'] l by (simp add: link_set_arp_impl_def)
qed

lemma add_route_Ok:
  assumes "lives dns l k ns" "nl_add_route S dns r l k = (Ok l', k')"
  shows "l' = l \<and> at k' = at k \<and> ifs k' = ifs k \<and> (\<forall>m j. adrs k m j \<subseteq> adrs k' m j)"
proof -
  have l: "l' = l" "link_add_route_impl S (nl_index l) r ns k = (Ok (), k')"
    using assms on_link_Ok [OF _ assms(1)] by (auto simp: nl_add_route_def then_link_Ok)
  then obtain q where x: "rt_execute S ns (RouteReplace q) k = (Ok (), k')" by (auto simp: link_add_route_impl_def split: result.splits)
  show ?thesis using route_law [OF x [unfolded execute_Ok]] execute_files [OF x] l(1) by simp
qed

lemma lives_cong: "at k' = at k \<Longrightarrow> lives dns l k' ns = lives dns l k ns"
  by (simp add: lives_def split: option.splits)

lemma add_addrs_Ok:
  "link_each fe (nl_add_addr S dns) as l k = (Ok l', k') \<Longrightarrow> lives dns l k ns \<Longrightarrow>
    l' = l \<and> at k' = at k \<and> ifs k' = ifs k \<and> (\<forall>m j. adrs k m j \<subseteq> adrs k' m j) \<and> set as \<subseteq> adrs k' ns (nl_index l)"
proof (induction "as" arbitrary: l k)
  case (Cons a as)
  obtain l1 k1 where s: "nl_add_addr S dns a l k = (Ok l1, k1)" "link_each fe (nl_add_addr S dns) as l1 k1 = (Ok l', k')"
    using Cons.prems(1) by (auto simp: attempt_Ok)
  note a = add_addr_Ok [OF Cons.prems(2) s(1)]
  have "lives dns l1 k1 ns" using a Cons.prems(2) lives_cong [of k1 k] by simp
  from Cons.IH [OF s(2) this] a show ?case by (simp, meson order_trans subsetD)
qed simp

lemma add_routes_Ok:
  "link_each fe (nl_add_route S dns) rs l k = (Ok l', k') \<Longrightarrow> lives dns l k ns \<Longrightarrow>
    l' = l \<and> at k' = at k \<and> ifs k' = ifs k \<and> (\<forall>m j. adrs k m j \<subseteq> adrs k' m j)"
proof (induction rs arbitrary: l k)
  case (Cons r rs)
  obtain l1 k1 where s: "nl_add_route S dns r l k = (Ok l1, k1)" "link_each fe (nl_add_route S dns) rs l1 k1 = (Ok l', k')"
    using Cons.prems(1) by (auto simp: attempt_Ok)
  note a = add_route_Ok [OF Cons.prems(2) s(1)]
  have "lives dns l1 k1 ns" using a Cons.prems(2) lives_cong [of k1 k] by simp
  from Cons.IH [OF s(2) this] a show ?case by (simp, meson order_trans)
qed simp

text \<open>An interface that was configured is up and has the addresses.\<close>

lemma configure_Ok:
  assumes "configure_iface (netlink_ops S dns) E as routes l k = (Ok l', k')" "lives dns l k ns"
  shows "l' = l" "set_effect ns (nl_index l) (\<lambda>f. f\<lparr>if_up := True\<rparr>) k k'" "set as \<subseteq> adrs k' ns (nl_index l)"
proof -
  let ?fe = "\<lambda>e. InvalidNetworkConfig (''failed to add route: '' @ ev_show E e)"
  obtain l1 k1 l2 k2 where s: "nl_set_up S dns l k = (Ok l1, k1)" "link_each (infra_err E) (nl_add_addr S dns) as l1 k1 = (Ok l2, k2)"
    "link_each ?fe (nl_add_route S dns) (sort_by_mask_narrowest_first routes) l2 k2 = (Ok l', k')"
    using assms(1) by (auto simp: configure_iface_def netlink_ops_def attempt_Ok)
  note u = link_ops_Ok(1) [OF assms(2) s(1)]
  have l1: "lives dns l1 k1 ns" using u assms(2) lives_cong [of k1 k] by (simp add: set_effect_def)
  note a = add_addrs_Ok [OF s(2) l1]
  have l2: "lives dns l2 k2 ns" using a l1 lives_cong [of k2 k1] by simp
  note r = add_routes_Ok [OF s(3) l2]
  show "l' = l" "set_effect ns (nl_index l) (\<lambda>f. f\<lparr>if_up := True\<rparr>) k k'" using u a r by (simp_all add: set_effect_def)
  show "set as \<subseteq> adrs k' ns (nl_index l)" using u a r by (simp, meson order_trans)
qed

lemma get_in_ns_Ok:
  assumes "nl_get_link_in_ns S dns p name k = Ok l" "at k p = NsFile m # fs"
  shows "nl_netns l = Some p" "\<exists>f. ifs k m (nl_index l) = Some f \<and> if_name f = name"
proof -
  obtain l0 k1 where "in_netns S dns p (\<lambda>ns k. (get_link_impl S name ns k, k)) k = (Ok l0, k1)" "l = l0\<lparr>nl_netns := Some p\<rparr>"
    using assms(1) by (auto simp: nl_get_link_in_ns_def fst_def split: result.splits prod.splits)
  then show "nl_netns l = Some p" "\<exists>f. ifs k m (nl_index l) = Some f \<and> if_name f = name"
    using in_netns_Ok assms(2) get_link_Ok by fastforce+
qed

lemma parse_shown: "shows_address a m \<Longrightarrow> ia_wf a \<Longrightarrow> parse_address m = Some a"
  by (auto simp: shows_address_def parse_address_def ia_new_def ia_wf_def Let_def simp del: concat_eq_Nil_conv)

lemma addresses_Ok:
  assumes "nl_addresses S dns None l k = Ok as" "lives dns l k ns" "a \<in> adrs k ns (nl_index l)" "ia_wf a"
  shows "a \<in> set as"
proof -
  obtain k1 where "on_link S dns l (\<lambda>ns k. (link_addresses_impl S (nl_index l) None ns k, k)) k = (Ok as, k1)"
    using assms(1) by (auto simp: nl_addresses_def fst_def split: prod.splits)
  from on_link_Ok [OF this assms(2)]
  obtain ms where ms: "try_collect (rt_list_addresses S ns (nl_index l) k) = Ok ms" "as = List.map_filter parse_address ms"
    by (auto simp: link_addresses_impl_def split: result.splits)
  obtain x where "x \<in> set ms" "shows_address a x" using list_law [OF ms(1)] assms(3) by blast
  then show ?thesis using parse_shown [OF _ assms(4)] ms(2) by (force simp: map_filter_def)
qed

end

section \<open>A reference kernel\<close>

record mem_net =
  mn_files :: "(string \<times> file_obj list) list"
  mn_ifs :: "((nsid \<times> u32) \<times> iface) list"
  mn_adrs :: "((nsid \<times> u32) \<times> interface_address) list"
  mn_bound :: bool

definition mem_at :: "mem_net \<Rightarrow> string \<Rightarrow> file_obj list" where
  "mem_at k p = (case map_of (mn_files k) p of None \<Rightarrow> [] | Some fs \<Rightarrow> fs)"

definition mem_ifs :: "mem_net \<Rightarrow> nsid \<Rightarrow> u32 \<Rightarrow> iface option" where
  "mem_ifs k ns i = map_of (mn_ifs k) (ns, i)"

definition mem_adrs :: "mem_net \<Rightarrow> nsid \<Rightarrow> u32 \<Rightarrow> interface_address set" where
  "mem_adrs k ns i = {a. ((ns, i), a) \<in> set (mn_adrs k)}"

definition put_file :: "string \<Rightarrow> file_obj list \<Rightarrow> mem_net \<Rightarrow> mem_net" where
  "put_file p fs k = k\<lparr>mn_files := AList.update p fs (mn_files k)\<rparr>"

definition put_if :: "nsid \<Rightarrow> u32 \<Rightarrow> iface \<Rightarrow> mem_net \<Rightarrow> mem_net" where
  "put_if ns i f k = k\<lparr>mn_ifs := AList.update (ns, i) f (mn_ifs k)\<rparr>"

definition drop_if :: "nsid \<Rightarrow> u32 \<Rightarrow> mem_net \<Rightarrow> mem_net" where
  "drop_if ns i k = k\<lparr>mn_ifs := AList.delete (ns, i) (mn_ifs k)\<rparr>"

definition ns_ids :: "mem_net \<Rightarrow> nat list" where
  "ns_ids k = concat (map (\<lambda>(_, fs). [n. NsFile n \<leftarrow> fs]) (mn_files k)) @ map (\<lambda>((n, _), _). n) (mn_ifs k)"

definition mem_name_free :: "mem_net \<Rightarrow> nsid \<Rightarrow> u32 option \<Rightarrow> string \<Rightarrow> bool" where
  "mem_name_free k ns i name = list_all (\<lambda>((n, j), g). n = ns \<longrightarrow> i \<noteq> Some j \<longrightarrow> if_name g \<noteq> name) (mn_ifs k)"

definition free_indexes :: "mem_net \<Rightarrow> nsid \<Rightarrow> u32 list" where
  "free_indexes k ns = filter (\<lambda>i. mem_ifs k ns i = None) (map of_nat [1..<length (mn_ifs k) + 4])"

definition denied :: "mem_net \<Rightarrow> (unit, nl_error) result \<times> mem_net" where
  "denied k = (Err (NlOther ''refused''), k)"

definition mem_move :: "nsid \<Rightarrow> u32 \<Rightarrow> nsid \<Rightarrow> mem_net \<Rightarrow> (unit, nl_error) result \<times> mem_net" where
  "mem_move ns i m k =
     (case (mem_ifs k ns i, if mem_ifs k m i = None then [i] else free_indexes k m) of
        (Some f, j # _) \<Rightarrow> (Ok (), put_if m j (f\<lparr>if_up := False\<rparr>) (drop_if ns i k))
      | _ \<Rightarrow> denied k)"

definition mem_change :: "nsid \<Rightarrow> u32 \<Rightarrow> u32 \<Rightarrow> u32 \<Rightarrow> link_attribute list \<Rightarrow> mem_net \<Rightarrow> (unit, nl_error) result \<times> mem_net" where
  "mem_change ns i fl cm attrs k =
     (case mem_ifs k ns i of
        Some f \<Rightarrow>
          if list_all (mem_name_free k ns (Some i)) [n. AIfName n \<leftarrow> attrs] then (Ok (), put_if ns i (changed fl cm attrs f) k) else denied k
      | None \<Rightarrow> denied k)"

definition new_if :: "link_attribute list \<Rightarrow> iface" where
  "new_if attrs = fold attr_set attrs \<lparr>if_name = [], if_up = False, if_mtu = 1500, if_mac = MacAddress (replicate 6 2)\<rparr>"

definition mem_add :: "nsid \<Rightarrow> link_attribute list \<Rightarrow> mem_net \<Rightarrow> (unit, nl_error) result \<times> mem_net" where
  "mem_add ns attrs k =
     (case ([p. ALinkInfo li \<leftarrow> attrs, LiVethPeer p \<leftarrow> li], free_indexes k ns) of
        (p # _, i # j # _) \<Rightarrow>
          (let f = new_if attrs; g = new_if (lm_attributes p)
           in if i \<noteq> j \<and> if_name f \<noteq> if_name g \<and> mem_name_free k ns None (if_name f) \<and> mem_name_free k ns None (if_name g)
              then (Ok (), put_if ns j g (put_if ns i f k)) else denied k)
      | _ \<Rightarrow> denied k)"

fun mem_request :: "nsid \<Rightarrow> nl_request \<Rightarrow> mem_net \<Rightarrow> (unit, nl_error) result \<times> mem_net" where
  "mem_request ns (LinkSet (LinkMessage i fl cm attrs)) k =
     (case [f. ANetNsFd f \<leftarrow> attrs] of
        [] \<Rightarrow> mem_change ns i fl cm attrs k
      | [NsFile m] \<Rightarrow> if m = ns then denied k else mem_move ns i m k
      | _ \<Rightarrow> denied k)"
| "mem_request ns (LinkAdd m) k = mem_add ns (lm_attributes m) k"
| "mem_request ns (LinkDel i) k = (Ok (), drop_if ns i k)"
| "mem_request ns (AddrAdd q) k =
     (Ok (), k\<lparr>mn_adrs := ((ns, aq_index q), \<lparr>ia_ip = aq_ip q, ia_prefix_len = aq_prefix_len q\<rparr>) # mn_adrs k\<rparr>)"
| "mem_request ns (AddrDel i ip n) k = denied k"
| "mem_request ns (RouteReplace q) k = (Ok (), k)"

definition mem_message :: "u32 \<Rightarrow> iface \<Rightarrow> link_message" where
  "mem_message i f = LinkMessage i (if if_up f then IFF_UP else 0) 0 [AIfName (if_name f), AMtu (if_mtu f), AAddress (mac_bytes (if_mac f))]"

definition mem_get :: "nsid \<Rightarrow> string \<Rightarrow> mem_net \<Rightarrow> (link_message option, nl_error) result" where
  "mem_get ns name k =
     (case List.find (\<lambda>((n, i), f). n = ns \<and> if_name f = name \<and> mem_ifs k ns i = Some f) (mn_ifs k) of
        None \<Rightarrow> Err (NlCode (- ENODEV))
      | Some ((_, i), f) \<Rightarrow> Ok (Some (mem_message i f)))"

definition mem_mount :: "nsid \<Rightarrow> string option \<Rightarrow> string \<Rightarrow> mount_flag \<Rightarrow> mem_net \<Rightarrow> (unit, string) result \<times> mem_net" where
  "mem_mount ns src p fl k =
     (if fl = MsPrivate then (Ok (), k)
      else if src = Some THREAD_SELF_NS_PATH \<and> mem_at k p \<noteq> [] then (Ok (), put_file p (NsFile ns # mem_at k p) k)
      else if src = Some NETNS_PATH \<and> p = NETNS_PATH
      then (Ok (), k\<lparr>mn_files := map (\<lambda>(q, fs). (q, if inside_dir p q then bare fs else fs)) (mn_files k), mn_bound := True\<rparr>)
      else (Err ''refused'', k))"

definition mem_sys :: "mem_net sys" where
  "mem_sys = \<lparr>
     sy_open = (\<lambda>p k. case mem_at k p of [] \<Rightarrow> Err ''not found'' | f # _ \<Rightarrow> Ok f),
     sy_open_self = (\<lambda>ns k. Ok (NsFile ns)),
     sy_setns = (\<lambda>f k. case f of NsFile n \<Rightarrow> Ok n | PlainFile \<Rightarrow> Err ''invalid argument''),
     sy_unshare = (\<lambda>k. let ns = Suc (sum_list (ns_ids k))
        in (Ok ns, put_if ns 1 \<lparr>if_name = ''lo'', if_up = False, if_mtu = 65535, if_mac = MacAddress (replicate 6 0)\<rparr> k)),
     sy_create_new = (\<lambda>p k. if mem_at k p = [] then (Ok (), put_file p [PlainFile] k) else (Err AlreadyExists, k)),
     sy_create_dir_all = (\<lambda>p k. (Ok (), k)),
     sy_open_lock = (\<lambda>p k. (Ok (), put_file p [PlainFile] k)),
     sy_flock = (\<lambda>p k. Ok ()),
     sy_canonicalize = (\<lambda>p k. Ok p),
     sy_mountinfo = (\<lambda>k. Ok (if mn_bound k then ''36 35 98:0 / '' @ NETNS_PATH @ '' rw'' else [])),
     sy_mount = mem_mount,
     sy_umount = (\<lambda>p k. case mem_at k p of f # g # fs \<Rightarrow> (Ok (), put_file p (g # fs) k) | _ \<Rightarrow> (Err ''not mounted'', k)),
     sy_exists = (\<lambda>p k. mem_at k p \<noteq> []),
     sy_remove_file = (\<lambda>p k. case mem_at k p of [f] \<Rightarrow> (Ok (), put_file p [] k) | _ \<Rightarrow> (Err ''busy'', k)),
     sy_read_dir = (\<lambda>p k. Ok []),
     sy_write = (\<lambda>ns p v k. (Ok (), k)),
     sy_spawn = (\<lambda>name k. Ok ()),
     sy_runtime = (\<lambda>k. Ok ()),
     rt_connect = (\<lambda>ns k. Ok ()),
     rt_get_link = mem_get,
     rt_list_links = (\<lambda>ns k. map (\<lambda>((_, i), f). Ok (mem_message i f)) (filter (\<lambda>((n, _), _). n = ns) (mn_ifs k))),
     rt_list_addresses = (\<lambda>ns i k. map (\<lambda>(_, a). Ok \<lparr>am_prefix_len = ia_prefix_len a, am_attributes = [AaLocal (ia_ip a), AaAddress (ia_ip a)]\<rparr>)
        (filter (\<lambda>(x, _). x = (ns, i)) (mn_adrs k))),
     rt_request = mem_request,
     rt_destination_prefix = (\<lambda>ip n. Ok ()),
     rt_gateway = (\<lambda>q ip. Ok ()),
     rt_pref_source = (\<lambda>q ip. Ok ()),
     rt_error_str = (\<lambda>e. ''netlink error'')\<rparr>"

lemma mem_put_file [simp]: "mem_at (put_file p fs k) = (mem_at k)(p := fs)" "mem_ifs (put_file p fs k) = mem_ifs k"
  by (auto simp: fun_eq_iff mem_at_def mem_ifs_def put_file_def update_conv')

lemma mem_put_if [simp]: "mem_at (put_if ns i f k) = mem_at k" "mem_ifs (put_if ns i f k) = (mem_ifs k)(ns := (mem_ifs k ns)(i \<mapsto> f))"
  by (auto simp: fun_eq_iff mem_at_def mem_ifs_def put_if_def update_conv')

lemma mem_drop_if [simp]: "mem_at (drop_if ns i k) = mem_at k" "mem_ifs (drop_if ns i k) = (mem_ifs k)(ns := (mem_ifs k ns)(i := None))"
  by (auto simp: fun_eq_iff mem_at_def mem_ifs_def drop_if_def AList.delete_conv')

lemma mem_name_freeD: "mem_name_free k ns i name \<Longrightarrow> name_free (\<lambda>j. if i = Some j then None else mem_ifs k ns j) name"
  by (auto simp: mem_name_free_def name_free_def mem_ifs_def list_all_iff dest: map_of_SomeD split: if_splits)

lemma ns_fresh: "mem_ifs k (Suc (sum_list (ns_ids k))) = Map.empty" "NsFile (Suc (sum_list (ns_ids k))) \<notin> set (mem_at k p)"
proof -
  let ?n = "Suc (sum_list (ns_ids k))"
  have f: "?n \<notin> set (ns_ids k)" using member_le_sum_list [of ?n "ns_ids k"] by auto
  have "(?n, i) \<notin> fst ` set (mn_ifs k)" for i using f by (force simp: ns_ids_def)
  then show "mem_ifs k ?n = Map.empty" by (simp add: fun_eq_iff mem_ifs_def map_of_eq_None_iff)
  show "NsFile ?n \<notin> set (mem_at k p)"
  proof
    assume "NsFile ?n \<in> set (mem_at k p)"
    then obtain fs where "(p, fs) \<in> set (mn_files k)" "NsFile ?n \<in> set fs" by (cases "map_of (mn_files k) p") (auto simp: mem_at_def dest: map_of_SomeD)
    then have "?n \<in> set (ns_ids k)" by (force simp: ns_ids_def)
    with f show False ..
  qed
qed

lemma mem_get_Ok: "mem_get ns name k = Ok (Some m) \<Longrightarrow> \<exists>i f. mem_ifs k ns i = Some f \<and> if_name f = name \<and> describes i f m"
  by (auto simp: mem_get_def find_Some_iff describes_def mem_message_def flags_contain_def IFF_UP_def split: option.splits)

lemma mem_change_files: "mem_change ns i fl cm attrs k = (r, k') \<Longrightarrow> mem_at k' = mem_at k"
  by (auto simp: mem_change_def denied_def split: option.splits if_splits)

lemma mem_move_files: "mem_move ns i m k = (r, k') \<Longrightarrow> mem_at k' = mem_at k"
  by (auto simp: mem_move_def denied_def split: option.splits list.splits if_splits)

lemma mem_add_files: "mem_add ns attrs k = (r, k') \<Longrightarrow> mem_at k' = mem_at k"
  by (auto simp: mem_add_def denied_def Let_def split: list.splits if_splits)

lemma mem_request_files: "mem_request ns q k = (r, k') \<Longrightarrow> mem_at k' = mem_at k"
  by (cases "(ns, q, k)" rule: mem_request.cases)
    (auto simp: mem_at_def [of "mn_adrs_update _ _"] mem_at_def [of k] denied_def
      dest: mem_change_files mem_move_files mem_add_files split: list.splits file_obj.splits if_splits)

lemma mem_change_Ok:
  assumes "mem_change ns i fl cm attrs k = (Ok (), k')"
  shows "\<exists>f. mem_ifs k ns i = Some f \<and> mem_ifs k' = (mem_ifs k)(ns := (mem_ifs k ns)(i \<mapsto> changed fl cm attrs f)) \<and>
    (\<forall>name. AIfName name \<in> set attrs \<longrightarrow> name_free ((mem_ifs k ns)(i := None)) name)"
proof -
  obtain f where f: "mem_ifs k ns i = Some f" "list_all (mem_name_free k ns (Some i)) [n. AIfName n \<leftarrow> attrs]"
    "k' = put_if ns i (changed fl cm attrs f) k"
    using assms by (auto simp: mem_change_def denied_def split: option.splits if_splits)
  have "name_free ((mem_ifs k ns)(i := None)) name" if "AIfName name \<in> set attrs" for name
  proof -
    have "mem_name_free k ns (Some i) name" using f(2) that by (force simp: list_all_iff)
    from mem_name_freeD [OF this] show ?thesis by (auto simp: name_free_def split: if_splits)
  qed
  with f show ?thesis by simp
qed

lemma no_netns_attrs: "(\<And>fd. ANetNsFd fd \<notin> set attrs) \<Longrightarrow> [f. ANetNsFd f \<leftarrow> attrs] = []"
  by (auto split: link_attribute.splits)

lemma mem_move_Ok:
  assumes "mem_move ns i m k = (Ok (), k')" "m \<noteq> ns"
  shows "\<exists>f j. mem_ifs k ns i = Some f \<and> mem_ifs k m j = None \<and> (mem_ifs k m i = None \<longrightarrow> j = i) \<and>
    mem_ifs k' = (mem_ifs k)(ns := (mem_ifs k ns)(i := None), m := (mem_ifs k m)(j \<mapsto> f\<lparr>if_up := False\<rparr>))"
proof -
  obtain f j js where f: "mem_ifs k ns i = Some f" "(if mem_ifs k m i = None then [i] else free_indexes k m) = j # js"
    "k' = put_if m j (f\<lparr>if_up := False\<rparr>) (drop_if ns i k)"
    using assms(1) by (auto simp: mem_move_def denied_def split: option.splits list.splits)
  have "mem_ifs k m j = None"
  proof (cases "mem_ifs k m i = None")
    case False
    then have "j \<in> set (free_indexes k m)" using f(2) by auto
    then show ?thesis by (simp add: free_indexes_def)
  qed (use f(2) in simp)
  with f assms(2) show ?thesis by (auto simp: fun_eq_iff split: if_splits)
qed

lemma fold_attr_set:
  "if_name (fold attr_set as f) = last (if_name f # [n. AIfName n \<leftarrow> as])"
  "if_mac (fold attr_set as f) = last (if_mac f # [MacAddress b. AAddress b \<leftarrow> as])"
  by (induction "as" arbitrary: f; simp split: link_attribute.splits)+

lemma mem_add_Ok:
  assumes "mem_add ns (lm_attributes (veth_message name peer_name mac peer_mac)) k = (Ok (), k')"
  shows "\<exists>i j f g. i \<noteq> j \<and> mem_ifs k ns i = None \<and> mem_ifs k ns j = None \<and> name \<noteq> peer_name \<and> name_free (mem_ifs k ns) name \<and>
    name_free (mem_ifs k ns) peer_name \<and> mem_ifs k' = (mem_ifs k)(ns := (mem_ifs k ns)(i \<mapsto> f, j \<mapsto> g)) \<and> if_name f = name \<and>
    if_name g = peer_name \<and> (\<forall>x. mac = Some x \<longrightarrow> if_mac f = x) \<and> (\<forall>x. peer_mac = Some x \<longrightarrow> if_mac g = x)"
proof -
  let ?as = "lm_attributes (veth_message name peer_name mac peer_mac)" and ?bs = "AIfName peer_name # mac_attribute peer_mac"
  have p: "[p. ALinkInfo li \<leftarrow> ?as, LiVethPeer p \<leftarrow> li] = [LinkMessage 0 0 0 ?bs]"
    by (cases mac) (simp_all add: veth_message_def mac_attribute_def)
  have n: "if_name (new_if ?as) = name" "if_name (new_if ?bs) = peer_name"
    "\<forall>x. mac = Some x \<longrightarrow> if_mac (new_if ?as) = x" "\<forall>x. peer_mac = Some x \<longrightarrow> if_mac (new_if ?bs) = x"
    by (cases mac; cases peer_mac; simp add: new_if_def fold_attr_set veth_message_def mac_attribute_def)+
  obtain i j js where f: "free_indexes k ns = i # j # js" "i \<noteq> j" "name \<noteq> peer_name" "mem_name_free k ns None name" "mem_name_free k ns None peer_name"
    "k' = put_if ns j (new_if ?bs) (put_if ns i (new_if ?as) k)"
    using assms by (auto simp: mem_add_def p n Let_def denied_def split: list.splits if_splits)
  have "i \<in> set (free_indexes k ns)" "j \<in> set (free_indexes k ns)" using f(1) by simp_all
  then have "mem_ifs k ns i = None" "mem_ifs k ns j = None" by (simp_all add: free_indexes_def)
  then show ?thesis using f mem_name_freeD [OF f(4)] mem_name_freeD [OF f(5)] n
    by (intro exI [of _ i] exI [of _ j] exI [of _ "new_if ?as"] exI [of _ "new_if ?bs"]) simp
qed

lemma mem_shows: "mem_adrs k ns i = {a. \<exists>m \<in> set ms. shows_address a m}"
  if "map (\<lambda>(_, a). Ok \<lparr>am_prefix_len = ia_prefix_len a, am_attributes = [AaLocal (ia_ip a), AaAddress (ia_ip a)]\<rparr>)
      (filter (\<lambda>(x, _). x = (ns, i)) (mn_adrs k)) = (map Ok ms :: (address_message, nl_error) result list)"
proof -
  let ?msg = "\<lambda>a. \<lparr>am_prefix_len = ia_prefix_len a, am_attributes = [AaLocal (ia_ip a), AaAddress (ia_ip a)]\<rparr> :: address_message"
  have a: "mem_adrs k ns i = snd ` set (filter (\<lambda>(x, _). x = (ns, i)) (mn_adrs k))" by (force simp: mem_adrs_def)
  have "set (map Ok ms :: (address_message, nl_error) result list) = (\<lambda>a. Ok (?msg a)) ` mem_adrs k ns i"
    using arg_cong [OF that, of set] by (simp add: a image_image case_prod_unfold eq_commute)
  then have "m \<in> set ms \<longleftrightarrow> (\<exists>b \<in> mem_adrs k ns i. m = ?msg b)" for m
    by (auto simp: set_eq_iff image_iff dest!: spec [of _ "Ok m"])
  moreover have "shows_address a (?msg b) \<longleftrightarrow> a = b" for a b by (cases a; cases b) (auto simp: shows_address_def)
  ultimately show ?thesis by auto
qed

lemma mem_bind: "mem_at (k\<lparr>mn_files := map (\<lambda>(q, fs). (q, if inside_dir d q then bare fs else fs)) (mn_files k), mn_bound := b\<rparr>) p =
    (if inside_dir d p then bare (mem_at k p) else mem_at k p)"
proof -
  have "map_of (map (\<lambda>(q, fs). (q, if inside_dir d q then bare fs else fs)) xs) p =
      map_option (\<lambda>fs. if inside_dir d p then bare fs else fs) (map_of xs p)" for xs :: "(string \<times> file_obj list) list"
    by (induction xs) auto
  then show ?thesis by (simp add: mem_at_def bare_def split: option.splits)
qed

lemma mem_mount_law:
  "mem_mount ns (Some THREAD_SELF_NS_PATH) p MsBind k = (r, k') \<Longrightarrow> mem_ifs k' = mem_ifs k \<and>
     (case r of Ok _ \<Rightarrow> mem_at k p \<noteq> [] \<and> mem_at k' = (mem_at k)(p := NsFile ns # mem_at k p) | Err _ \<Rightarrow> mem_at k' = mem_at k)"
  "mem_mount ns (Some NETNS_PATH) NETNS_PATH MsBind k = (Ok (), k') \<Longrightarrow> mem_ifs k' = mem_ifs k \<and>
     (\<forall>p. p \<noteq> NETNS_PATH \<longrightarrow> mem_at k' p = (if inside_dir NETNS_PATH p then bare (mem_at k p) else mem_at k p))"
  "mem_mount ns None p MsPrivate k = (r, k') \<Longrightarrow> k' = k"
  "mem_mount ns src p fl k = (Err x, k') \<Longrightarrow> k' = k"
proof -
  have d: "NETNS_PATH \<noteq> THREAD_SELF_NS_PATH" by (simp add: NETNS_PATH_def THREAD_SELF_NS_PATH_def)
  show "mem_mount ns (Some THREAD_SELF_NS_PATH) p MsBind k = (r, k') \<Longrightarrow> mem_ifs k' = mem_ifs k \<and>
     (case r of Ok _ \<Rightarrow> mem_at k p \<noteq> [] \<and> mem_at k' = (mem_at k)(p := NsFile ns # mem_at k p) | Err _ \<Rightarrow> mem_at k' = mem_at k)"
    using d by (auto simp: mem_mount_def split: if_splits)
  show "mem_mount ns (Some NETNS_PATH) NETNS_PATH MsBind k = (Ok (), k') \<Longrightarrow> mem_ifs k' = mem_ifs k \<and>
     (\<forall>p. p \<noteq> NETNS_PATH \<longrightarrow> mem_at k' p = (if inside_dir NETNS_PATH p then bare (mem_at k p) else mem_at k p))"
    using d by (auto simp: mem_mount_def mem_bind mem_ifs_def fun_eq_iff split: if_splits)
qed (auto simp: mem_mount_def split: if_splits)

lemma mem_netns_sys: "netns_sys mem_sys mem_at mem_ifs"
proof (unfold_locales, goal_cases)
  case (5 k ns k')
  let ?lo = "\<lparr>if_name = ''lo'', if_up = False, if_mtu = 65535, if_mac = MacAddress (replicate 6 0)\<rparr>"
  have "\<exists>i f. if_name f = ''lo'' \<and> mem_ifs k' = (mem_ifs k)(ns := [i \<mapsto> f])"
    using 5 ns_fresh [of k] by (intro exI [of _ 1] exI [of _ ?lo]) (auto simp: mem_sys_def Let_def)
  then show ?case using 5 ns_fresh [of k] by (auto simp: mem_sys_def Let_def)
next
  case (15 ns name k m)
  then show ?case using mem_get_Ok by (simp add: mem_sys_def)
next
  case (16 ns rq k rr k')
  then show ?case using mem_request_files by (simp add: mem_sys_def)
next
  case (17 ns i k k')
  then have "mem_change ns i IFF_UP IFF_UP [] k = (Ok (), k')" by (simp add: mem_sys_def)
  from mem_change_Ok [OF this] show ?case by (auto simp: changed_def flags_contain_def)
next
  case (8 ns p k r k')
  then show ?case using mem_mount_law(1) by (simp add: mem_sys_def)
next
  case (9 ns k k')
  then show ?case using mem_mount_law(2) by (simp add: mem_sys_def)
next
  case (10 ns p k r k')
  then have "k' = k" using mem_mount_law(3) by (simp add: mem_sys_def)
  then show ?case by simp
next
  case (18 ns k x k')
  then have "k' = k" using mem_mount_law(4) by (simp add: mem_sys_def)
  then show ?case by simp
qed (auto simp: mem_sys_def Let_def split: list.splits file_obj.splits if_splits)

interpretation mem_net: rtnetlink mem_sys mem_at mem_ifs mem_adrs
proof (intro rtnetlink.intro mem_netns_sys, unfold_locales, goal_cases)
  case (1 ns i fl cm attrs k k')
  then have "mem_change ns i fl cm attrs k = (Ok (), k')" by (simp add: mem_sys_def no_netns_attrs [OF 1(2)] del: concat_eq_Nil_conv)
  from mem_change_Ok [OF this] show ?case .
next
  case (2 ns i m k k')
  then have "mem_move ns i m k = (Ok (), k')" by (simp add: mem_sys_def)
  from mem_move_Ok [OF this 2(2)] show ?case .
next
  case (3 ns name peer_name mac peer_mac k k')
  then show ?case using mem_add_Ok by (simp add: mem_sys_def)
next
  case (7 ns i k ms)
  then show ?case using mem_shows [OF try_collect_Ok, of ns i k ms] by (simp add: mem_sys_def)
qed (auto simp: mem_sys_def mem_adrs_def mem_ifs_def fun_eq_iff)

section \<open>ADD over netlink\<close>

lemma on_net_Ok: "on_net f w = (Ok x, w') \<longleftrightarrow> (\<exists>n. f (cw_net w) = (Ok x, n) \<and> w' = w\<lparr>cw_net := n\<rparr>)"
  by (auto simp: on_net_def split: prod.splits)

lemma on_daemon_Ok: "on_daemon f w = (Ok x, w') \<longleftrightarrow> (\<exists>s. f (cw_daemon w) = (Ok x, s) \<and> w' = w\<lparr>cw_daemon := s\<rparr>)"
  by (auto simp: on_daemon_def split: prod.splits)

lemma lease_net:
  assumes "add_with_lease N A E spec nsp ifname cid cfg resp w = (Ok r, w')"
  obtains host peer k1 p peer' where "setup_veth N E cid ifname nsp (device_mtu cfg) (cw_net w) = (Ok (host, peer), k1)"
    "plan_addresses E resp (route_mtu cfg) = Ok p" "configure_iface N E (pl_endpoints p) (pl_routes p) peer k1 = (Ok peer', cw_net w')"
    "cn_ips r = pl_ips p" "ci_name (hd (cn_interfaces r)) = lk_ifname N host"
  using assms unfolding add_with_lease_def by (auto simp: attempt_Ok on_net_Ok on_daemon_Ok split: if_splits prod.splits)

lemma add_net:
  assumes "cni_add N A E args spec w = (Ok r, w')" "ca_netns args = Some nsp" "ca_ifname args = Some ifname"
  obtains cid cfg resp w1 where "cw_net w1 = snd (delete_link_in_ns N nsp ifname (cw_net w))"
    "add_with_lease N A E spec nsp ifname cid cfg resp w1 = (Ok r, w')" "ca_container_id args = Some cid" "is_ok (build_api_client E args)"
proof -
  define D where "D = (\<lambda>n. case delete_link_in_ns N nsp ifname n of (Err (LinkNotFound _), n') \<Rightarrow> (Ok (), n') | r \<Rightarrow> r)"
  obtain cid where "add_checked N A E args spec nsp ifname cid w = (Ok r, w')" and id: "ca_container_id args = Some cid"
    using assms by (auto simp: cni_add_def split: option.splits if_splits)
  from this(1) have c: "attempt (\<lambda>e. InvalidNetworkConfig (''could not open namespace '' @ nsp @ '': '' @ ev_show E e))
       (on_net (\<lambda>n. (open_ns N nsp n, n))) (\<lambda>_.
     attempt (\<lambda>e. InvalidNetworkConfig (''could not delete link '' @ ifname @ '': '' @ ev_show E e)) (on_net D) (\<lambda>_.
     attempt (\<lambda>e. e) (\<lambda>w. (build_api_client E args, w)) (\<lambda>_.
     attempt (\<lambda>_. PluginNotAvailable ''could not read config'') (on_daemon (api_config A)) (\<lambda>cfg.
     attempt (\<lambda>_. PluginNotAvailable ''could not allocate ip'')
       (on_daemon (api_allocate A None (Some (as_pod_namespace spec @ ''/'' @ as_pod_name spec)) None)) (\<lambda>resp w.
       if resp_ipv4 resp = None \<and> resp_ipv6 resp = None
       then (Err (PluginNotAvailable ''ipam should return valid addressing''), w)
       else (case add_with_lease N A E spec nsp ifname cid cfg resp w of
               (Ok r, w') \<Rightarrow> (Ok r, w')
             | (Err e, w') \<Rightarrow> (Err e, w'\<lparr>cw_daemon := drop_lease A (ev_releases E) resp (cw_daemon w')\<rparr>))))))) w = (Ok r, w')"
    unfolding add_checked_def D_def .
  obtain w0 w1 w2 w3 w4 u cfg resp where t: "on_net (\<lambda>n. (open_ns N nsp n, n)) w = (Ok (), w0)" "on_net D w0 = (Ok (), w1)"
    "build_api_client E args = Ok u" "on_daemon (api_config A) w1 = (Ok cfg, w2)"
    "on_daemon (api_allocate A None (Some (as_pod_namespace spec @ ''/'' @ as_pod_name spec)) None) w2 = (Ok resp, w3)"
    "add_with_lease N A E spec nsp ifname cid cfg resp w3 = (Ok r, w')"
    using c unfolding attempt_Ok by (auto split: if_splits prod.splits result.splits)
  have "cw_net w3 = snd (D (cw_net w))" using t(1,2,4,5) by (auto simp: on_net_Ok on_daemon_Ok)
  moreover have "snd (D n) = snd (delete_link_in_ns N nsp ifname n)" for n
    by (auto simp: D_def split: prod.splits result.splits infra_error.splits)
  ultimately show ?thesis using t(3,6) id by (intro that) simp_all
qed

lemma plan_listed:
  assumes "plan_addresses E resp mtu = Ok p" "c \<in> set (pl_ips p)"
  shows "ia_from_net (ic_address c) \<in> set (pl_endpoints p)" "ia_wf (ia_from_net (ic_address c))"
proof -
  have "\<forall>c \<in> set (pl_ips p). ia_from_net (ic_address c) \<in> set (pl_endpoints p) \<and> ia_wf (ia_from_net (ic_address c))"
    using assms(1) by (auto simp: plan_addresses_def plan_ipv4_def plan_ipv6_def plan_empty_def plan_address_def to_ip_net_def ia_from_net_def ia_wf_def
        split: option.splits result.splits if_splits)
  with assms(2) show "ia_from_net (ic_address c) \<in> set (pl_endpoints p)" "ia_wf (ia_from_net (ic_address c))" by blast+
qed

lemma check_with_result:
  assumes "ca_netns args = Some nsp" "ca_ifname args = Some ifname" "is_ok (build_api_client E args)" "ca_container_id args = Some cid"
    "api_endpoint_health A (attachment_id cid ifname) (cw_daemon w) = (Ok h, s)" "h \<noteq> HealthFailure"
    "verify_interface N E nsp ifname r (cw_net w) = Ok ()"
  shows "cni_check N A E (args\<lparr>ca_prev_result := Some r\<rparr>) w = (Ok (), w\<lparr>cw_daemon := s\<rparr>)"
proof -
  obtain c where "build_api_client E args = Ok c" using assms(3) by (auto simp: is_ok_iff)
  then have "build_api_client E (args\<lparr>ca_prev_result := Some r\<rparr>) = Ok c" by (simp add: build_api_client_def)
  then show ?thesis using assms by (simp add: cni_check_def attempt_def on_daemon_def)
qed

section \<open>Properties\<close>

lemma verified_over_netlink:
  assumes R: "rtnetlink S at ifs adrs" and add: "cni_add (netlink_ops S dns) A E args spec w = (Ok r, w')"
    "ca_netns args = Some nsp" "ca_ifname args = Some ifname" and a: "at k nsp = NsFile m # fs"
    and uniq: "\<And>j h. ifs k m j = Some h \<Longrightarrow> if_name h = ifname \<Longrightarrow> j = i"
    and ads: "\<And>c. c \<in> set (cn_ips r) \<Longrightarrow> ia_from_net (ic_address c) \<in> adrs k m i \<and> ia_wf (ia_from_net (ic_address c))"
    and g: "nl_get_link_in_ns S dns nsp ifname k = Ok l" "nl_addresses S dns None l k = Ok as"
  shows "verify_interface (netlink_ops S dns) E nsp ifname r k = Ok ()"
proof -
  note gl = rtnetlink.get_in_ns_Ok [OF R g(1) a]
  have i: "nl_index l = i" using gl(2) uniq by blast
  have lv: "rtnetlink.lives at dns l k m" using gl(1) a by (simp add: rtnetlink.lives_def [OF R])
  have "\<forall>c \<in> set (cn_ips r). ia_from_net (ic_address c) \<in> set as"
    using rtnetlink.addresses_Ok [OF R g(2) lv] ads i by auto
  moreover have "open_ns (netlink_ops S dns) nsp k = Ok ()"
    using g(1) by (auto simp: nl_get_link_in_ns_def in_netns_def split: result.splits)
  ultimately show ?thesis using check_accepts_add [OF add, of k l as] g by simp
qed

text \<open>C6: the interface of a pod. When ADD has succeeded over netlink, whatever failed before, the namespace of the pod has exactly one
  interface of the wanted name; it is up and has every address the result lists, the host side is up under the name the result
  gives, and a CHECK with this result that reaches the daemon, hears that the endpoint is healthy and has its two queries of the
  interface answered returns \<open>Ok\<close>. This holds when the pod has a namespace of its own and every index in use there is in use on
  the host too, so that the new link keeps its index when it is moved; what happens otherwise is \<open>moved_link_loses_index\<close>.\<close>

theorem check_after_add:
  assumes "rtnetlink S at ifs adrs" "cni_add (netlink_ops S dns) A E args spec w = (Ok r, w')"
    "ca_netns args = Some nsp" "ca_ifname args = Some ifname" "k0 = snd (nl_delete_link_in_ns S dns nsp ifname (cw_net w))"
    "at k0 nsp = NsFile m # fs" "m \<noteq> dns" "\<forall>i. ifs k0 m i \<noteq> None \<longrightarrow> ifs k0 dns i \<noteq> None"
  shows "(\<exists>i f. ifs (cw_net w') m i = Some f \<and> if_name f = ifname \<and> if_up f \<and>
      (\<forall>j g. ifs (cw_net w') m j = Some g \<and> if_name g = ifname \<longrightarrow> j = i) \<and>
      (\<forall>c \<in> set (cn_ips r). ia_from_net (ic_address c) \<in> adrs (cw_net w') m i)) \<and>
    (\<exists>i f. ifs (cw_net w') dns i = Some f \<and> if_up f \<and> if_name f = ci_name (hd (cn_interfaces r))) \<and>
    (\<forall>cid h s l as. ca_container_id args = Some cid \<longrightarrow>
      api_endpoint_health A (attachment_id cid ifname) (cw_daemon w') = (Ok h, s) \<longrightarrow> h \<noteq> HealthFailure \<longrightarrow>
      nl_get_link_in_ns S dns nsp ifname (cw_net w') = Ok l \<longrightarrow> nl_addresses S dns None l (cw_net w') = Ok as \<longrightarrow>
      cni_check (netlink_ops S dns) A E (args\<lparr>ca_prev_result := Some r\<rparr>) w' = (Ok (), w'\<lparr>cw_daemon := s\<rparr>))"
proof -
  note R = assms(1)
  let ?k = "cw_net w'"
  obtain cid cfg resp w1 where w1: "cw_net w1 = k0" "add_with_lease (netlink_ops S dns) A E spec nsp ifname cid cfg resp w1 = (Ok r, w')"
    "ca_container_id args = Some cid" "is_ok (build_api_client E args)"
    by (rule add_net [OF assms(2-4)]) (simp add: assms(5))
  from w1(2) obtain host peer k1 p peer' where s: "setup_veth (netlink_ops S dns) E cid ifname nsp (device_mtu cfg) k0 = (Ok (host, peer), k1)"
    "plan_addresses E resp (route_mtu cfg) = Ok p" "configure_iface (netlink_ops S dns) E (pl_endpoints p) (pl_routes p) peer k1 = (Ok peer', ?k)"
    "cn_ips r = pl_ips p" "ci_name (hd (cn_interfaces r)) = nl_name host"
    by (rule lease_net) (simp add: w1(1))
  note v = rtnetlink.setup_veth_Ok [OF R s(1) assms(6,7)]
  obtain f g where fg: "ifs k0 m (nl_index peer) = None" "name_free (ifs k0 m) ifname" "if_name f = nl_name host" "if_up f" "if_name g = ifname"
    "ifs k1 = (ifs k0)(dns := (ifs k0 dns)(nl_index host \<mapsto> f), m := (ifs k0 m)(nl_index peer \<mapsto> g))"
    using v(3) assms(8) by blast
  have at1: "at k1 = at k0" "nl_netns peer = Some nsp" using v(1,2) assms(8) by blast+
  have "rtnetlink.lives at dns peer k1 m" using at1 assms(6) by (simp add: rtnetlink.lives_def [OF R])
  note c = rtnetlink.configure_Ok [OF R s(3) this]
  have k: "at ?k = at k0" "ifs ?k = (ifs k0)(dns := (ifs k0 dns)(nl_index host \<mapsto> f), m := (ifs k0 m)(nl_index peer \<mapsto> g\<lparr>if_up := True\<rparr>))"
    using c(2) fg(6) at1(1) assms(7) by (auto simp: rtnetlink.set_effect_def [OF R] fun_eq_iff)
  have uniq: "j = nl_index peer" if "ifs ?k m j = Some h" "if_name h = ifname" for j h
    using that k(2) fg(2) by (auto simp: name_free_def split: if_splits)
  have ads: "ia_from_net (ic_address c) \<in> adrs ?k m (nl_index peer)" "ia_wf (ia_from_net (ic_address c))" if "c \<in> set (cn_ips r)" for c
    using plan_listed [OF s(2)] c(3) that s(4) by auto
  have V: "verify_interface (netlink_ops S dns) E nsp ifname r ?k = Ok ()"
    if "nl_get_link_in_ns S dns nsp ifname ?k = Ok l" "nl_addresses S dns None l ?k = Ok as" for l as
    by (rule verified_over_netlink [OF R assms(2-4) _ uniq _ that]) (use k(1) assms(6) ads in simp_all)
  have P: "ifs ?k m (nl_index peer) = Some (g\<lparr>if_up := True\<rparr>)" "ifs ?k dns (nl_index host) = Some f" using k(2) assms(7) by simp_all
  have U: "\<forall>j g. ifs ?k m j = Some g \<and> if_name g = ifname \<longrightarrow> j = nl_index peer" using uniq by blast
  have "\<exists>i f. ifs ?k m i = Some f \<and> if_name f = ifname \<and> if_up f \<and> (\<forall>j g. ifs ?k m j = Some g \<and> if_name g = ifname \<longrightarrow> j = i) \<and>
      (\<forall>c \<in> set (cn_ips r). ia_from_net (ic_address c) \<in> adrs ?k m i)"
    by (intro exI [of _ "nl_index peer"] exI [of _ "g\<lparr>if_up := True\<rparr>"] conjI P(1) U) (use ads(1) in \<open>simp_all add: fg(5)\<close>)
  moreover have "\<exists>i f. ifs ?k dns i = Some f \<and> if_up f \<and> if_name f = ci_name (hd (cn_interfaces r))"
    using P(2) fg(3,4) s(5) by auto
  moreover have "\<forall>cid h s l as. ca_container_id args = Some cid \<longrightarrow>
      api_endpoint_health A (attachment_id cid ifname) (cw_daemon w') = (Ok h, s) \<longrightarrow> h \<noteq> HealthFailure \<longrightarrow>
      nl_get_link_in_ns S dns nsp ifname ?k = Ok l \<longrightarrow> nl_addresses S dns None l ?k = Ok as \<longrightarrow>
      cni_check (netlink_ops S dns) A E (args\<lparr>ca_prev_result := Some r\<rparr>) w' = (Ok (), w'\<lparr>cw_daemon := s\<rparr>)"
    by (intro allI impI check_with_result [OF assms(3,4) w1(4)] V)
  ultimately show ?thesis by (intro conjI)
qed

text \<open>A daemon that always grants the same address, and a host with its loopback and uplink next to an empty pod.\<close>

definition fixed_api :: "unit api_ops" where
  "fixed_api = \<lparr>api_config = \<lambda>s. (Ok \<lparr>device_mtu = 1400, route_mtu = 1400\<rparr>, s),
     api_allocate = \<lambda>_ _ _ s. (Ok \<lparr>host_ipv4 = Some ''10.0.0.1'', host_ipv6 = None,
       resp_ipv4 = Some \<lparr>ca_ip = ''10.0.0.7'', ca_pool = None\<rparr>, resp_ipv6 = None\<rparr>, s),
     api_release = \<lambda>_ _ s. (Ok (), s), api_create = \<lambda>_ _ s. (Ok (), s), api_delete = \<lambda>_ s. (Ok (), s),
     api_endpoint_health = \<lambda>_ s. (Ok HealthOk, s), api_daemon_health = \<lambda>s. (Ok (), s)\<rparr>"

definition plain_if :: "string \<Rightarrow> iface" where
  "plain_if name = \<lparr>if_name = name, if_up = True, if_mtu = 1500, if_mac = MacAddress (replicate 6 9)\<rparr>"

definition pod_host :: mem_net where
  "pod_host = \<lparr>mn_files = [(''/ns'', [NsFile 1, PlainFile])],
     mn_ifs = [((0, 1), plain_if ''lo''), ((0, 2), plain_if ''ens3''), ((1, 1), plain_if ''lo'')], mn_adrs = [], mn_bound = True\<rparr>"

abbreviation "pod_add \<equiv> cni_add (netlink_ops mem_sys 0) fixed_api sample_cenv sample_cargs args_default \<lparr>cw_daemon = (), cw_net = pod_host\<rparr>"

lemma pod_add_Ok: "is_ok (fst pod_add)"
  by code_simp

theorem check_after_add_witness:
  "\<exists>r w'. pod_add = (Ok r, w') \<and>
     cni_check (netlink_ops mem_sys 0) fixed_api sample_cenv (sample_cargs\<lparr>ca_prev_result := Some r\<rparr>) w' = (Ok (), w')"
proof -
  obtain r w' where r: "pod_add = (Ok r, w')" using pod_add_Ok by (cases pod_add; cases "fst pod_add") auto
  have w: "w' = snd pod_add" by (simp add: r)
  have k0: "snd (nl_delete_link_in_ns mem_sys 0 ''/ns'' ''eth0'' pod_host) = pod_host" by code_simp
  have f: "mem_at pod_host ''/ns'' = [NsFile 1, PlainFile]" by (simp add: mem_at_def pod_host_def)
  have i: "\<forall>i. mem_ifs pod_host 1 i \<noteq> None \<longrightarrow> mem_ifs pod_host 0 i \<noteq> None" by (simp add: mem_ifs_def pod_host_def)
  have g: "is_ok (nl_get_link_in_ns mem_sys 0 ''/ns'' ''eth0'' (cw_net w'))" unfolding w by code_simp
  then obtain l where l: "nl_get_link_in_ns mem_sys 0 ''/ns'' ''eth0'' (cw_net w') = Ok l" by (auto simp: is_ok_iff)
  have "is_ok (case nl_get_link_in_ns mem_sys 0 ''/ns'' ''eth0'' (cw_net w') of Ok l \<Rightarrow> nl_addresses mem_sys 0 None l (cw_net w') | Err e \<Rightarrow> Err e)"
    unfolding w by code_simp
  then obtain as where "nl_addresses mem_sys 0 None l (cw_net w') = Ok as" using l by (auto simp: is_ok_iff)
  with check_after_add [OF mem_net.rtnetlink_axioms r, of "''/ns''" "''eth0''", unfolded cni_world.simps k0, OF _ _ refl f _ i] l r
  show ?thesis by (simp add: sample_cargs_def fixed_api_def)
qed

text \<open>C34: the wrong interface. A link that is moved to a namespace where its index is taken keeps the old index in its handle: the next
  operation, the renaming of the peer, changes the interface of that namespace that had the index before, and the moved link keeps its
  temporary name.\<close>

theorem moved_link_loses_index:
  assumes "rtnetlink S at ifs adrs" "nl_netns l = None" "at k p = NsFile m # fs" "m \<noteq> dns" "ifs k m (nl_index l) = Some other"
    "nl_set_ns S dns \<lparr>ns_path = p, ns_fd = NsFile m\<rparr> l k = (Ok l', k1)" "nl_rename S dns name l' k1 = (Ok l'', k2)"
  shows "ifs k2 m (nl_index l) = Some (other\<lparr>if_name := name\<rparr>) \<and>
    (\<exists>f j. ifs k dns (nl_index l) = Some f \<and> j \<noteq> nl_index l \<and> ifs k2 m j = Some (f\<lparr>if_up := False\<rparr>))"
proof -
  note R = assms(1)
  have l: "rtnetlink.lives at dns l k dns" using assms(2) by (simp add: rtnetlink.lives_def [OF R])
  note s = rtnetlink.set_ns_Ok [OF R l assms(6,4)]
  have l': "rtnetlink.lives at dns l' k1 m" using s(1,2) assms(3) by (simp add: rtnetlink.lives_def [OF R])
  note n = rtnetlink.link_ops_Ok(3) [OF R l' assms(7)]
  have i: "nl_index l' = nl_index l" using s(1) by simp
  obtain f j where f: "ifs k dns (nl_index l) = Some f" "ifs k m j = None"
    "ifs k1 = (ifs k)(dns := (ifs k dns)(nl_index l := None), m := (ifs k m)(j \<mapsto> f\<lparr>if_up := False\<rparr>))" using s(3) by blast
  have "j \<noteq> nl_index l" using f(2) assms(5) by auto
  moreover have "ifs k2 = (ifs k1)(m := (ifs k1 m)(nl_index l \<mapsto> other\<lparr>if_name := name\<rparr>))"
    using n i f(3) assms(5) calculation by (auto simp: rtnetlink.set_effect_def [OF R])
  ultimately show ?thesis using f(1,3) by auto
qed

definition crowded_pod :: mem_net where
  "crowded_pod = \<lparr>mn_files = [(''/ns'', [NsFile 1, PlainFile])],
     mn_ifs = [((0, 1), plain_if ''lo''), ((0, 2), plain_if ''tmpc1''), ((1, 1), plain_if ''lo''), ((1, 2), plain_if ''net1'')], mn_adrs = [], mn_bound = True\<rparr>"

definition crowded_link :: netlink_link where
  "crowded_link = parse_link (mem_message 2 (plain_if ''tmpc1''))"

theorem moved_link_loses_index_witness:
  "\<exists>l' k1 l'' k2. nl_set_ns mem_sys 0 \<lparr>ns_path = ''/ns'', ns_fd = NsFile 1\<rparr> crowded_link crowded_pod = (Ok l', k1) \<and>
    nl_rename mem_sys 0 ''eth0'' l' k1 = (Ok l'', k2) \<and> mem_ifs k2 1 2 = Some ((plain_if ''net1'')\<lparr>if_name := ''eth0''\<rparr>)"
proof -
  let ?s = "nl_set_ns mem_sys 0 \<lparr>ns_path = ''/ns'', ns_fd = NsFile 1\<rparr> crowded_link crowded_pod"
  have o1: "is_ok (fst ?s)" by code_simp
  then obtain l' k1 where s: "?s = (Ok l', k1)" by (cases ?s; cases "fst ?s") auto
  have "is_ok (fst (case ?s of (Ok l', k1) \<Rightarrow> nl_rename mem_sys 0 ''eth0'' l' k1 | (Err e, k1) \<Rightarrow> (Err e, k1)))" by code_simp
  then have o2: "is_ok (fst (nl_rename mem_sys 0 ''eth0'' l' k1))" unfolding s by simp
  then obtain l'' k2 where r: "nl_rename mem_sys 0 ''eth0'' l' k1 = (Ok l'', k2)"
    by (cases "nl_rename mem_sys 0 ''eth0'' l' k1"; cases "fst (nl_rename mem_sys 0 ''eth0'' l' k1)") auto
  have n: "nl_netns crowded_link = None" "nl_index crowded_link = 2" by code_simp+
  have "mem_at crowded_pod ''/ns'' = [NsFile 1, PlainFile]" "mem_ifs crowded_pod 1 (nl_index crowded_link) = Some (plain_if ''net1'')"
    by (simp_all add: n mem_at_def mem_ifs_def crowded_pod_def)
  with moved_link_loses_index [OF mem_net.rtnetlink_axioms n(1) _ _ _ s r] n(2) s r show ?thesis by auto
qed

text \<open>C18: a namespace is created or not. A creation that succeeds found no file of that name and leaves there a namespace that no
  other path leads to, with only a loopback that is up; the other namespaces keep their interfaces. Whether it succeeds or fails, at
  whichever step, every file of the directory that existed before is as it was, or, when this was the first use of a directory that is no
  mount point, has lost the mounts on it (\<open>first_create_hides_others\<close>). A creation that fails leaves nothing under a new
  name if the file it made can be unmounted and removed. The lock file of the directory is left aside.\<close>

theorem create_all_or_nothing:
  assumes "netns_sys S at ifs" "netns_create S name ns k = (r, k')" "p = path_for name" "inside_dir NETNS_PATH p" "p \<noteq> path_for ''.lock''"
  shows "(r = Ok () \<longrightarrow> at k p = [] \<and> (\<exists>m i f. at k' p = [NsFile m, PlainFile] \<and> (\<forall>q. q \<noteq> p \<longrightarrow> NsFile m \<notin> set (at k' q)) \<and>
      ifs k m = Map.empty \<and> if_name f = ''lo'' \<and> if_up f \<and> ifs k' = (ifs k)(m := [i \<mapsto> f]))) \<and>
    (\<forall>q. inside_dir NETNS_PATH q \<and> q \<noteq> path_for ''.lock'' \<and> (q \<noteq> p \<or> at k q \<noteq> []) \<longrightarrow>
      at k' q = at k q \<or> first_use S k \<and> at k' q = bare (at k q)) \<and>
    (r \<noteq> Ok () \<longrightarrow> at k p = [] \<longrightarrow> (\<forall>j m. at j p = [NsFile m, PlainFile] \<longrightarrow> fst (sy_umount S p j) = Ok ()) \<longrightarrow>
       (\<forall>j. at j p = [PlainFile] \<longrightarrow> fst (sy_remove_file S p j) = Ok ()) \<longrightarrow> at k' p = [])"
proof -
  note N = assms(1)
  obtain e k1 where e: "ensure_netns_dir S ns k = (e, k1)" by fastforce
  note E = netns_sys.ensure_any [OF N e]
  have P: "at k1 p = [] \<longleftrightarrow> at k p = []" using E(2) [OF assms(4,5)] by (auto simp: bare_def split: if_splits)
  show ?thesis
  proof (cases e)
    case (Err x)
    then have "r = Err x" "k' = k1" using assms(2) e by (simp_all add: netns_create_def)
    then show ?thesis using E(2) P by auto
  next
    case (Ok u)
    then have "ensure_netns_dir S ns k = (Ok (), k1)" using e by simp
    note c = netns_sys.create_outcome [OF N this assms(2), folded assms(3)]
    have 1: "at k p = [] \<and> (\<exists>m i f. at k' p = [NsFile m, PlainFile] \<and> (\<forall>q. q \<noteq> p \<longrightarrow> NsFile m \<notin> set (at k' q)) \<and>
      ifs k m = Map.empty \<and> if_name f = ''lo'' \<and> if_up f \<and> ifs k' = (ifs k)(m := [i \<mapsto> f]))" if "r = Ok ()"
      using c(1) [OF that] E(1) P by (metis fun_upd_apply)
    have 2: "at k' q = at k1 q" if "q \<noteq> p \<or> at k1 q \<noteq> [] \<or> r \<noteq> Ok () \<and> netns_sys.undo_works S at q" for q
      using c(1,2) that by (cases r) (metis (full_types) fun_upd_apply unit.exhaust, blast)
    have 3: "at k' q = at k q \<or> first_use S k \<and> at k' q = bare (at k q)"
      if "inside_dir NETNS_PATH q" "q \<noteq> path_for ''.lock''" "q \<noteq> p \<or> at k q \<noteq> []" for q
      using E(2) [OF that(1,2)] 2 [of q] P that(3) by metis
    have "at k' p = []" if "r \<noteq> Ok ()" "at k p = []" "\<forall>j m. at j p = [NsFile m, PlainFile] \<longrightarrow> fst (sy_umount S p j) = Ok ()"
      "\<forall>j. at j p = [PlainFile] \<longrightarrow> fst (sy_remove_file S p j) = Ok ()"
      using 2 [of p] that P by (simp add: netns_sys.undo_works_def [OF N])
    with 1 3 show ?thesis by blast
  qed
qed

lemma unit_Ok: "is_ok (fst x) \<Longrightarrow> \<exists>s. x = (Ok (), s)" for x :: "(unit, 'e) result \<times> 's"
  by (cases x; cases "fst x") auto

definition run_ns :: mem_net where
  "run_ns = \<lparr>mn_files = [(''/run/netns/cni-1'', [NsFile 1, PlainFile])], mn_ifs = [((1, 1), plain_if ''lo'')], mn_adrs = [], mn_bound = False\<rparr>"

theorem create_all_or_nothing_witness:
  "\<exists>k' m. netns_create mem_sys ''a'' 0 run_ns = (Ok (), k') \<and> mem_at k' ''/run/netns/a'' = [NsFile m, PlainFile] \<and>
    mem_at k' ''/run/netns/cni-1'' \<in> {[NsFile 1, PlainFile], [PlainFile]}"
proof -
  have "is_ok (fst (netns_create mem_sys ''a'' 0 run_ns))" by code_simp
  then obtain k' where k': "netns_create mem_sys ''a'' 0 run_ns = (Ok (), k')" using unit_Ok by metis
  have p: "''/run/netns/a'' = path_for ''a''" "inside_dir NETNS_PATH ''/run/netns/a''" "''/run/netns/a'' \<noteq> path_for ''.lock''"
    "inside_dir NETNS_PATH ''/run/netns/cni-1''" "''/run/netns/cni-1'' \<noteq> path_for ''.lock''" by code_simp+
  have "mem_at run_ns ''/run/netns/cni-1'' = [NsFile 1, PlainFile]" by (simp add: mem_at_def run_ns_def)
  then show ?thesis using create_all_or_nothing [OF mem_netns_sys k' p(1-3)] p(4,5) k' by (auto simp: bare_def)
qed

text \<open>C35: the first creation takes other namespaces away. When the directory of the namespaces is not a mount point yet, creating a namespace binds it onto
  itself without the mounts below it. A namespace another program had mounted there is out of reach: its path
  leads to an ordinary file, and nothing can be run in it.\<close>

theorem first_create_hides_others:
  assumes "netns_sys S at ifs" "sy_create_dir_all S NETNS_PATH k = (Ok (), k1)" "sy_open_lock S (path_for ''.lock'') k1 = (Ok (), k2)"
    "is_mountpoint S NETNS_PATH k2 = Ok False" "netns_create S name ns k = (Ok (), k')"
    "inside_dir NETNS_PATH p" "p \<noteq> path_for ''.lock''" "p \<noteq> path_for name" "at k p = [NsFile m, PlainFile]"
  shows "at k' p = [PlainFile] \<and>
    (\<forall>n. netns_open_path S p k' = Ok n \<longrightarrow> (\<exists>e. netns_run S n (\<lambda>_ k. (Returned (Ok ()), k)) ns k' = (Err e, k')))"
proof -
  obtain k3 where e: "ensure_netns_dir S ns k = (Ok (), k3)"
    using assms(5) by (auto simp: netns_create_def split: prod.splits result.splits)
  have "at k3 p = [PlainFile]"
    using netns_sys.ensure_hides [OF assms(1-4) e assms(6,7)] assms(9) by (simp add: bare_def)
  then have a: "at k' p = [PlainFile]" using netns_sys.create_outcome(1) [OF assms(1) e assms(5) refl] assms(8) by auto
  have "\<exists>e. netns_run S n (\<lambda>_ k. (Returned (Ok ()), k)) ns k' = (Err e, k')" if "netns_open_path S p k' = Ok n" for n
  proof -
    have "ns_fd n = PlainFile" using that netns_sys.open_law [OF assms(1), of p k'] a by (auto simp: netns_open_path_def split: result.splits)
    then show ?thesis using netns_sys.setns_law [OF assms(1), of PlainFile k']
      by (auto simp: netns_run_def spawn_thread_def enter_and_run_def split: result.splits)
  qed
  with a show ?thesis by blast
qed

theorem first_create_hides_others_witness:
  "mem_at (snd (netns_create mem_sys ''a'' 0 run_ns)) ''/run/netns/cni-1'' = [PlainFile]"
proof -
  have "is_ok (fst (netns_create mem_sys ''a'' 0 run_ns))" by code_simp
  then obtain k' where c: "netns_create mem_sys ''a'' 0 run_ns = (Ok (), k')" using unit_Ok by metis
  define k2 where "k2 = put_file (path_for ''.lock'') [PlainFile] run_ns"
  have s: "sy_create_dir_all mem_sys NETNS_PATH run_ns = (Ok (), run_ns)" "sy_open_lock mem_sys (path_for ''.lock'') run_ns = (Ok (), k2)"
    by (simp_all add: mem_sys_def k2_def)
  have m: "is_mountpoint mem_sys NETNS_PATH k2 = Ok False" unfolding k2_def by code_simp
  have p: "inside_dir NETNS_PATH ''/run/netns/cni-1''" "''/run/netns/cni-1'' \<noteq> path_for ''.lock''" "''/run/netns/cni-1'' \<noteq> path_for ''a''" by code_simp+
  have "mem_at run_ns ''/run/netns/cni-1'' = [NsFile 1, PlainFile]" by (simp add: mem_at_def run_ns_def)
  then show ?thesis using first_create_hides_others [OF mem_netns_sys s m c p] c by simp
qed

end
