(* ===== verification/Daemon.thy ===== *)
theory Daemon
  imports Netlink_Contract Aya_Contract
begin

text \<open>
  The start and the end of the daemon: the host device and the start of the data plane (\<open>sarena-data-plane/src/netlink.rs\<close>,
  \<open>setup.rs\<close>), the configuration (\<open>sarena-daemon/src/config.rs\<close>), the services, the signals and the shutdown
  (\<open>sarena-daemon/src/init.rs\<close>) and its time measurements (\<open>sarena-utils/src/spans.rs\<close>). The loader and the links
  work on one kernel. Times are natural numbers of milliseconds; how long a step of the shutdown takes is an
  argument, \<open>None\<close> for ever.
\<close>

section \<open>The host device\<close>

definition SARENA_HOST :: string where
  "SARENA_HOST = ''sarena_host''"

definition SARENA_NET :: string where
  "SARENA_NET = ''sarena_net''"

text \<open>\<open>show\<close> is the text of an error. The name in the first error is the one the source has.\<close>

definition setup_link ::
  "'k sys \<Rightarrow> nsid \<Rightarrow> (infra_error \<Rightarrow> string) \<Rightarrow> string \<Rightarrow> u32 \<Rightarrow> 'k \<Rightarrow> (netlink_link, dp_error) result \<times> 'k" where
  "setup_link S dns shw name mtu =
     (let infra = (\<lambda>e. InfraError (shw e))
      in attempt (\<lambda>e. LinkLookup SARENA_HOST (shw e)) (\<lambda>k. (nl_get_link S dns name k, k)) (\<lambda>l.
         attempt infra (nl_set_up S dns l) (\<lambda>l.
         attempt infra (nl_set_ipv4_forwarding S dns True l) (\<lambda>l.
         attempt infra (nl_set_rp_filter S dns 0 l) (\<lambda>l.
         attempt infra (nl_set_accept_local S dns True l) (\<lambda>l.
         attempt infra (nl_set_send_redirects S dns False l) (\<lambda>l.
         attempt infra (nl_set_arp S dns False l) (\<lambda>l.
         attempt infra (nl_set_mtu S dns mtu l) (\<lambda>l k. (Ok l, k))))))))))"

definition setup_host_links ::
  "'k sys \<Rightarrow> nsid \<Rightarrow> (infra_error \<Rightarrow> string) \<Rightarrow> u32 \<Rightarrow> interface_address \<Rightarrow> 'k \<Rightarrow> (netlink_link \<times> netlink_link, dp_error) result \<times> 'k" where
  "setup_host_links S dns shw mtu addr =
     attempt (\<lambda>e. e) (setup_link S dns shw SARENA_HOST mtu) (\<lambda>host.
     attempt (\<lambda>e. e) (setup_link S dns shw SARENA_NET mtu) (\<lambda>net.
     attempt (\<lambda>e. InfraError (shw e)) (nl_replace_addr S dns addr host) (\<lambda>host k. (Ok (host, net), k))))"

definition setup_host_device ::
  "'k sys \<Rightarrow> nsid \<Rightarrow> (infra_error \<Rightarrow> string) \<Rightarrow> u8 list \<Rightarrow> u8 list \<Rightarrow> u32 \<Rightarrow> interface_address \<Rightarrow> 'k \<Rightarrow>
     (netlink_link \<times> netlink_link, dp_error) result \<times> 'k" where
  "setup_host_device S dns shw host_rand peer_rand mtu addr k =
     (case nl_get_link S dns SARENA_HOST k of
        Err (LinkNotFound _) \<Rightarrow>
          attempt (\<lambda>e. CouldNotCreateVethPair (shw e))
            (nl_create_veth S dns \<lparr>vs_host_ifname = SARENA_HOST, vs_host_mac = Some (mac_generate_rand host_rand),
               vs_peer_ifname = SARENA_NET, vs_peer_mac = Some (mac_generate_rand peer_rand)\<rparr>)
            (\<lambda>_. setup_host_links S dns shw mtu addr) k
      | Err e \<Rightarrow> (Err (LinkLookup SARENA_HOST (shw e)), k)
      | Ok _ \<Rightarrow> setup_host_links S dns shw mtu addr k)"

section \<open>The data plane\<close>

record data_plane_config =
  dc_gateway_ip :: ip_addr
  dc_internal_ip :: ip_addr
  dc_ipam_ipv4_subnet :: "ip_net option"
  dc_ipam_ipv6_subnet :: "ip_net option"
  dc_pin_root :: string

text \<open>A network operation of the process that holds the loader.\<close>

definition on_kernel ::
  "('k \<Rightarrow> 'r \<times> 'k) \<Rightarrow> ('k aya_backend, 'i) loader \<Rightarrow> 'r \<times> ('k aya_backend, 'i) loader" where
  "on_kernel f l =
     (case f (w_kern (ab_world (ld_backend l))) of
        (r, k) \<Rightarrow> (r, l\<lparr>ld_backend := (ld_backend l)\<lparr>ab_world := (ab_world (ld_backend l))\<lparr>w_kern := k\<rparr>\<rparr>\<rparr>))"

definition set_endpoint_config ::
  "('k, 'i) aya \<Rightarrow> string \<Rightarrow> mac_address \<Rightarrow> ip_addr \<Rightarrow> ('k aya_backend, 'i) loader \<Rightarrow> unit outcome \<times> ('k aya_backend, 'i) loader" where
  "set_endpoint_config A root mac addr l =
     (case addr of
        V6 _ \<Rightarrow> (Panicked, l)
      | V4 ip \<Rightarrow>
          (case aya_set_endpoint_config A root SARENA_HOST
                  \<lparr>cfg_endpoint_id = 0, cfg_host_mac = mac_bytes mac, cfg_ipv4 = Some ip, cfg_ipv6 = None\<rparr> (ld_backend l) of
             (Err _, b) \<Rightarrow> (Panicked, l\<lparr>ld_backend := b\<rparr>)
           | (Ok _, b) \<Rightarrow> (Returned (), l\<lparr>ld_backend := b\<rparr>)))"

definition start_links ::
  "'k sys \<Rightarrow> ('k, 'i) aya \<Rightarrow> nsid \<Rightarrow> (infra_error \<Rightarrow> string) \<Rightarrow> (dp_error \<Rightarrow> string) \<Rightarrow> u8 list \<Rightarrow> u8 list \<Rightarrow> data_plane_config \<Rightarrow>
     ('k aya_backend, 'i) loader \<Rightarrow> (netlink_link, dp_error) result \<times> ('k aya_backend, 'i) loader" where
  "start_links S A dns shw es host_rand peer_rand cfg =
     (let infra = (\<lambda>e. InfraError (shw e))
      in attempt (\<lambda>e. e) (load_global_maps (aya_ops A (dc_pin_root cfg))) (\<lambda>_.
         attempt infra (on_kernel (nl_set_rp_filter_all S dns 0)) (\<lambda>_.
         attempt (\<lambda>e. e) (on_kernel (setup_host_device S dns shw host_rand peer_rand 1500 \<lparr>ia_ip = dc_internal_ip cfg, ia_prefix_len = 32\<rparr>)) (\<lambda>(host, _).
         attempt infra
           (case dc_ipam_ipv4_subnet cfg of
              None \<Rightarrow> Pair (Ok host)
            | Some pre \<Rightarrow> on_kernel (nl_add_route S dns (route_default\<lparr>ro_prefix := pre, ro_nexthop := Some (dc_internal_ip cfg),
                ro_local := Some (dc_internal_ip cfg), ro_mtu := Some 1500\<rparr>) host)) (\<lambda>host.
         attempt (\<lambda>e. e) (add_loader_endpoint (aya_ops A (dc_pin_root cfg)) es (Host SARENA_HOST)) (\<lambda>_ l. (Ok host, l)))))))"

definition start_control_plane ::
  "'k sys \<Rightarrow> ('k, 'i) aya \<Rightarrow> nsid \<Rightarrow> (infra_error \<Rightarrow> string) \<Rightarrow> (dp_error \<Rightarrow> string) \<Rightarrow> u8 list \<Rightarrow> u8 list \<Rightarrow> data_plane_config \<Rightarrow>
     'k aya_backend \<Rightarrow> (unit, dp_error) result outcome \<times> ('k aya_backend, 'i) loader" where
  "start_control_plane S A dns shw es host_rand peer_rand cfg b =
     (case fs_create_dir_all (a_fs_fails A) (components (globals_dir (dc_pin_root cfg))) (ab_world b) of
        (Err _, w) \<Rightarrow> (Panicked, loader_new (b\<lparr>ab_world := w\<rparr>) (dc_pin_root cfg))
      | (Ok _, w) \<Rightarrow>
          (case start_links S A dns shw es host_rand peer_rand cfg (loader_new (b\<lparr>ab_world := w\<rparr>) (dc_pin_root cfg)) of
             (Err e, l) \<Rightarrow> (Returned (Err e), l)
           | (Ok host, l) \<Rightarrow>
               (case nl_mac host of
                  None \<Rightarrow> (Panicked, l)
                | Some mac \<Rightarrow>
                    (case set_endpoint_config A (dc_pin_root cfg) mac (dc_internal_ip cfg) l of
                       (Panicked, l) \<Rightarrow> (Panicked, l)
                     | (Returned _, l) \<Rightarrow> (Returned (Ok ()), l)))))"

section \<open>Configuration and services\<close>

datatype log_format = LogText | LogJson

definition parse_log_format :: "string \<Rightarrow> log_format option" where
  "parse_log_format s = (if s = ''text'' then Some LogText else if s = ''json'' then Some LogJson else None)"

record daemon_settings =
  ds_debug :: bool
  ds_log_file :: "string option"
  ds_log_format :: log_format
  ds_pin_root :: string

record daemon_cli =
  dl_config :: "string option"
  dl_debug :: bool
  dl_log_file :: "string option"
  dl_log_format :: "string option"

text \<open>Errors keep what the text of the source is made of.\<close>

datatype config_error = ConfigLoadError string | InvalidLogFormat string

text \<open>\<open>build\<close> is the crate that reads the file, if any, and the environment; \<open>is_file\<close> and \<open>home\<close> are those of the system.\<close>

definition config_path :: "(string \<Rightarrow> bool) \<Rightarrow> string option \<Rightarrow> daemon_cli \<Rightarrow> string option" where
  "config_path is_file home cli =
     (case dl_config cli of
        Some p \<Rightarrow> Some p
      | None \<Rightarrow>
          (case home of
             None \<Rightarrow> None
           | Some h \<Rightarrow>
               List.find is_file (map (\<lambda>ext. path_join (path_join h ''.sarena'') (''sarena-daemon.'' @ ext)) [''toml'', ''json'', ''yaml'', ''yml''])))"

definition load_config ::
  "(string option \<Rightarrow> (daemon_settings, string) result) \<Rightarrow> (string \<Rightarrow> bool) \<Rightarrow> string option \<Rightarrow> daemon_cli \<Rightarrow> (daemon_settings, config_error) result" where
  "load_config build is_file home cli =
     (case build (config_path is_file home cli) of
        Err e \<Rightarrow> Err (ConfigLoadError e)
      | Ok c \<Rightarrow>
          (let c = (if dl_debug cli then c\<lparr>ds_debug := True\<rparr> else c);
               c = (if dl_log_file cli \<noteq> None then c\<lparr>ds_log_file := dl_log_file cli\<rparr> else c)
           in case dl_log_format cli of
                None \<Rightarrow> Ok c
              | Some s \<Rightarrow>
                  (case parse_log_format s of
                     None \<Rightarrow> Err (InvalidLogFormat s)
                   | Some f \<Rightarrow> Ok (c\<lparr>ds_log_format := f\<rparr>))))"

definition daemon_data_plane :: "string \<Rightarrow> data_plane_config" where
  "daemon_data_plane root = \<lparr>dc_gateway_ip = V4 0x0A000005, dc_internal_ip = V4 0x0A000007,
     dc_ipam_ipv4_subnet = Some (NetV4 0x0A000A00 24), dc_ipam_ipv6_subnet = None, dc_pin_root = root\<rparr>"

definition setup_services :: "ipnet_lib \<Rightarrow> data_plane_config \<Rightarrow> 'l manager \<Rightarrow> 'l daemon" where
  "setup_services L cfg m = \<lparr>dm_ipam = ipam_new L (dc_gateway_ip cfg) (dc_ipam_ipv4_subnet cfg) (dc_ipam_ipv6_subnet cfg), dm_manager = m\<rparr>"

section \<open>Spans\<close>

record span_stat =
  sp_start :: "nat option"
  sp_success :: nat
  sp_failure :: nat

definition span_default :: span_stat where
  "span_default = \<lparr>sp_start = None, sp_success = 0, sp_failure = 0\<rparr>"

text \<open>\<open>None\<close> is the panic of a span that is started twice.\<close>

definition span_begin :: "nat \<Rightarrow> span_stat \<Rightarrow> span_stat option" where
  "span_begin now s = (if sp_start s = None then Some (s\<lparr>sp_start := Some now\<rparr>) else None)"

definition end_span :: "nat \<Rightarrow> bool \<Rightarrow> span_stat \<Rightarrow> span_stat" where
  "end_span now ok s =
     (case sp_start s of
        None \<Rightarrow> s
      | Some t \<Rightarrow>
          if ok then s\<lparr>sp_start := None, sp_success := sp_success s + (now - t)\<rparr>
          else s\<lparr>sp_start := None, sp_failure := sp_failure s + (now - t)\<rparr>)"

definition span_total :: "nat \<Rightarrow> span_stat \<Rightarrow> nat \<times> span_stat" where
  "span_total now s = (let s = end_span now True s in (sp_success s + sp_failure s, s))"

definition span_seconds :: "nat \<Rightarrow> span_stat \<Rightarrow> nat \<times> span_stat" where
  "span_seconds now s = (case span_total now s of (d, s) \<Rightarrow> (d div 1000, s))"

definition span_reset :: "span_stat \<Rightarrow> span_stat" where
  "span_reset s = span_default"

text \<open>The histogram of the bootstrap: scope, outcome and duration of each record.\<close>

definition record_duration :: "string \<Rightarrow> string \<Rightarrow> nat \<Rightarrow> (string \<times> string \<times> nat) list" where
  "record_duration scope outcome d = (if d = 0 then [] else [(scope, outcome, d)])"

definition bootstrap_metrics :: "span_stat \<Rightarrow> (string \<times> string \<times> nat) list" where
  "bootstrap_metrics overall =
     concat (map (\<lambda>(scope, s). record_duration scope ''success'' (sp_success s) @ record_duration scope ''failure'' (sp_failure s))
       [(''overall'', overall)])"

section \<open>Shutdown\<close>

definition SHUTDOWN_TIMEOUT :: nat where
  "SHUTDOWN_TIMEOUT = 10000"

definition TELEMETRY_SHUTDOWN_TIMEOUT :: nat where
  "TELEMETRY_SHUTDOWN_TIMEOUT = 5000"

definition SHUTDOWN_BUDGET :: nat where
  "SHUTDOWN_BUDGET = 25000"

text \<open>One step that begins at \<open>now\<close> and needs \<open>d\<close>: whether it was done and when the next one begins.\<close>

definition shutdown_step :: "nat \<Rightarrow> nat \<Rightarrow> nat option \<Rightarrow> nat \<Rightarrow> bool \<times> nat" where
  "shutdown_step timeout deadline d now =
     (let limit = max now (min deadline (now + timeout))
      in case d of
           Some x \<Rightarrow> if now + x \<le> limit then (True, now + x) else (False, limit)
         | None \<Rightarrow> (False, limit))"

text \<open>The signals SIGINT and SIGTERM, by number, in the order they arrive: whether the shutdown was asked for, and the code of a forced exit.\<close>

fun signal_handler :: "nat list \<Rightarrow> bool \<times> nat option" where
  "signal_handler [] = (False, None)"
| "signal_handler [_] = (True, None)"
| "signal_handler (_ # n # _) = (True, Some (128 + n))"

text \<open>\<open>DefaultDataPlane::shutdown\<close>: only the last owner may stop the actor. \<open>owners\<close> counts the clones of the data plane.\<close>

definition data_plane_shutdown ::
  "('k, 'i) aya \<Rightarrow> (dp_error \<Rightarrow> string) \<Rightarrow> nat \<Rightarrow> ('k aya_backend, 'i) loader \<Rightarrow> (unit, dp_error) result \<times> ('k aya_backend, 'i) loader" where
  "data_plane_shutdown A es owners l =
     (if owners \<noteq> 1 then (Err StillShared, l)
      else case dispatch (aya_ops A (ld_root l)) es Shutdown l of (RUnit r, _, l) \<Rightarrow> (r, l) | (_, _, l) \<Rightarrow> (Ok (), l))"

text \<open>A task is finished under its id; the tasks that are left in the list of names are still running.\<close>

definition log_task_result :: "(nat \<times> string) list \<Rightarrow> nat \<Rightarrow> string \<times> (nat \<times> string) list" where
  "log_task_result names i = ((case map_of names i of Some n \<Rightarrow> n | None \<Rightarrow> ''unknown''), AList.delete i names)"

text \<open>The end of \<open>init_daemon\<close>: \<open>early\<close> is the task that exited before a signal, \<open>ended\<close> the tasks that ended while the daemon waited for them.
  The result is whether the daemon fails, the names of the tasks it aborts, and the time it ends.\<close>

definition shutdown_daemon ::
  "(nat \<times> string) list \<Rightarrow> nat option \<Rightarrow> nat list \<Rightarrow> nat option \<Rightarrow> nat option \<Rightarrow> nat option \<Rightarrow> nat \<Rightarrow> bool \<times> string list \<times> nat" where
  "shutdown_daemon names early ended tasks plane tracer now =
     (let names = (case early of None \<Rightarrow> names | Some i \<Rightarrow> snd (log_task_result names i));
          names = fold (\<lambda>i ns. snd (log_task_result ns i)) ended names;
          deadline = now + SHUTDOWN_BUDGET
      in case shutdown_step SHUTDOWN_TIMEOUT deadline tasks now of (finished, now) \<Rightarrow>
         case shutdown_step SHUTDOWN_TIMEOUT deadline plane now of (_, now) \<Rightarrow>
         case shutdown_step TELEMETRY_SHUTDOWN_TIMEOUT deadline tracer now of (_, now) \<Rightarrow>
           (early \<noteq> None, if finished then [] else map snd names, now))"

section \<open>Lemmas\<close>

lemma shutdown_step_time:
  assumes "shutdown_step timeout deadline d now = (ok, t)" "now + timeout \<le> deadline"
  shows "now \<le> t" "t \<le> now + timeout" "\<not> ok \<Longrightarrow> t = now + timeout \<and> (\<forall>x. d = Some x \<longrightarrow> timeout < x)" "ok \<Longrightarrow> d = Some (t - now)"
  using assms by (auto simp: shutdown_step_def Let_def split: option.splits if_splits)

lemma remaining_tasks:
  "fold (\<lambda>i ns. snd (log_task_result ns i)) ended names = filter (\<lambda>(i, _). i \<notin> set ended) names"
  by (induction ended arbitrary: names) (auto simp: log_task_result_def AList.delete_eq filter_filter intro!: filter_cong)

text \<open>Time that was measured: for spans that follow each other the totals are the sums of their lengths.\<close>

fun measure_spans :: "(nat \<times> nat \<times> bool) list \<Rightarrow> span_stat \<Rightarrow> span_stat option" where
  "measure_spans [] s = Some s"
| "measure_spans ((a, b, ok) # xs) s = (case span_begin a s of None \<Rightarrow> None | Some s \<Rightarrow> measure_spans xs (end_span b ok s))"

lemma spans_add_up:
  "sp_start s = None \<Longrightarrow> \<exists>s'. measure_spans xs s = Some s' \<and> sp_start s' = None \<and>
     sp_success s' = sp_success s + (\<Sum>(a, b, ok) \<leftarrow> xs. if ok then b - a else 0) \<and>
     sp_failure s' = sp_failure s + (\<Sum>(a, b, ok) \<leftarrow> xs. if ok then 0 else b - a)"
  by (induction xs s rule: measure_spans.induct) (auto simp: span_begin_def end_span_def)

text \<open>The shutdown of the only owner succeeds and keeps every pin: the programs go on running.\<close>

lemma shutdown_keeps_pins:
  "data_plane_shutdown A es 1 l = (r, l') \<Longrightarrow> r = Ok () \<and> globals_holder l' = None \<and> w_tree (ab_world (ld_backend l')) = w_tree (ab_world (ld_backend l))"
  by (auto simp: data_plane_shutdown_def teardown_all_def aya_ops_def aya_stop_all_logging_def)

text \<open>Flags of the command line win over the file and the environment.\<close>

lemma load_config_flags:
  assumes "load_config build is_file home cli = Ok c" "build (config_path is_file home cli) = Ok c0"
  shows "ds_debug c \<longleftrightarrow> dl_debug cli \<or> ds_debug c0" "ds_log_file c = (if dl_log_file cli = None then ds_log_file c0 else dl_log_file cli)"
    "ds_log_format c = (case dl_log_format cli of None \<Rightarrow> ds_log_format c0 | Some s \<Rightarrow> the (parse_log_format s))" "ds_pin_root c = ds_pin_root c0"
  using assms by (auto simp: load_config_def Let_def split: option.splits if_splits)

text \<open>A data plane with an IPv6 address never starts: it fails or panics, after the programs of the host were attached.\<close>

lemma start_needs_ipv4:
  "dc_internal_ip cfg = V6 a \<Longrightarrow> fst (start_control_plane S A dns shw es hr pr cfg b) \<noteq> Returned (Ok ())"
  by (auto simp: start_control_plane_def set_endpoint_config_def split: prod.splits result.splits option.splits)

context rtnetlink
begin

lemma get_default_Ok: "nl_get_link S dns name k = Ok l \<Longrightarrow> \<exists>f. ifs k dns (nl_index l) = Some f \<and> if_name f = name \<and> nl_netns l = None"
  using get_link_Ok by (fastforce simp: nl_get_link_def split: result.splits)

lemma setup_link_Ok:
  assumes "setup_link S dns shw name mtu k = (Ok l, k')"
  shows "nl_netns l = None" "at k' = at k"
    "\<exists>f. ifs k dns (nl_index l) = Some f \<and> if_name f = name \<and>
      ifs k' = (ifs k)(dns := (ifs k dns)(nl_index l \<mapsto> f\<lparr>if_up := True, if_mtu := mtu\<rparr>))"
proof -
  obtain l0 l1 k1 l2 k2 l3 k3 l4 k4 l5 k5 l6 k6 where s: "nl_get_link S dns name k = Ok l0" "nl_set_up S dns l0 k = (Ok l1, k1)"
    "nl_set_ipv4_forwarding S dns True l1 k1 = (Ok l2, k2)" "nl_set_rp_filter S dns 0 l2 k2 = (Ok l3, k3)"
    "nl_set_accept_local S dns True l3 k3 = (Ok l4, k4)" "nl_set_send_redirects S dns False l4 k4 = (Ok l5, k5)"
    "nl_set_arp S dns False l5 k5 = (Ok l6, k6)" "nl_set_mtu S dns mtu l6 k6 = (Ok l, k')"
    using assms by (auto simp: setup_link_def Let_def attempt_Ok)
  obtain f where f: "ifs k dns (nl_index l0) = Some f" "if_name f = name" "nl_netns l0 = None" using get_default_Ok [OF s(1)] by blast
  have L: "lives dns l0 k dns" for k using f(3) by (simp add: lives_def)
  note u = link_ops_Ok(1) [OF L s(2)]
  have e1: "l1 = l0" "set_effect dns (nl_index l0) (\<lambda>f. f\<lparr>if_up := True\<rparr>) k k1" using u by auto
  note a = sysctls_Ok(2) [OF f(3) s(3) [unfolded e1(1)]]
  have e2: "l2 = l0" using a by simp
  note b = sysctls_Ok(1) [OF f(3) s(4) [unfolded e2]]
  have e3: "l3 = l0" using b by simp
  note c = sysctls_Ok(3) [OF f(3) s(5) [unfolded e3]]
  have e4: "l4 = l0" using c by simp
  note d = sysctls_Ok(4) [OF f(3) s(6) [unfolded e4]]
  have e5: "l5 = l0" using d by simp
  note g = set_arp_Ok [OF L s(7) [unfolded e5]]
  have e6: "l6 = l0" using g by simp
  note h = link_ops_Ok(2) [OF L s(8) [unfolded e6]]
  show "nl_netns l = None" "at k' = at k" using f(3) h e1 a b c d g by (auto simp: set_effect_def)
  have "ifs k6 = (ifs k)(dns := (ifs k dns)(nl_index l0 \<mapsto> f\<lparr>if_up := True\<rparr>))"
    using e1(2) a b c d g f(1) by (auto simp: set_effect_def)
  then have "ifs k' = (ifs k)(dns := (ifs k dns)(nl_index l \<mapsto> f\<lparr>if_up := True, if_mtu := mtu\<rparr>))" "nl_index l = nl_index l0"
    using h by (auto simp: set_effect_def)
  with f show "\<exists>f. ifs k dns (nl_index l) = Some f \<and> if_name f = name \<and>
      ifs k' = (ifs k)(dns := (ifs k dns)(nl_index l \<mapsto> f\<lparr>if_up := True, if_mtu := mtu\<rparr>))" by auto
qed

lemma setup_links_Ok:
  assumes "setup_host_links S dns shw mtu addr k = (Ok (host, net), k')"
  shows "\<exists>f g. ifs k dns (nl_index host) = Some f \<and> ifs k dns (nl_index net) = Some g \<and> nl_index host \<noteq> nl_index net \<and>
    if_name f = SARENA_HOST \<and> if_name g = SARENA_NET \<and> addr \<in> adrs k' dns (nl_index host) \<and>
    ifs k' = (ifs k)(dns := (ifs k dns)(nl_index host \<mapsto> f\<lparr>if_up := True, if_mtu := mtu\<rparr>, nl_index net \<mapsto> g\<lparr>if_up := True, if_mtu := mtu\<rparr>))"
proof -
  obtain h0 k1 k2 where s: "setup_link S dns shw SARENA_HOST mtu k = (Ok h0, k1)" "setup_link S dns shw SARENA_NET mtu k1 = (Ok net, k2)"
    "nl_replace_addr S dns addr h0 k2 = (Ok host, k')"
    using assms by (auto simp: setup_host_links_def attempt_Ok)
  note a = setup_link_Ok [OF s(1)] and b = setup_link_Ok [OF s(2)]
  have "lives dns h0 k2 dns" using a(1) by (simp add: lives_def)
  note c = replace_addr_Ok [OF this s(3)]
  obtain f where f: "ifs k dns (nl_index h0) = Some f" "if_name f = SARENA_HOST"
    "ifs k1 = (ifs k)(dns := (ifs k dns)(nl_index h0 \<mapsto> f\<lparr>if_up := True, if_mtu := mtu\<rparr>))" using a(3) by blast
  obtain g where g: "ifs k1 dns (nl_index net) = Some g" "if_name g = SARENA_NET"
    "ifs k2 = (ifs k1)(dns := (ifs k1 dns)(nl_index net \<mapsto> g\<lparr>if_up := True, if_mtu := mtu\<rparr>))" using b(3) by blast
  have n: "nl_index h0 \<noteq> nl_index net" using f g(1,2) by (auto simp: SARENA_HOST_def SARENA_NET_def)
  then have "ifs k dns (nl_index net) = Some g" using g(1) f(3) by simp
  with f g n c show ?thesis by (intro exI [of _ f] exI [of _ g]) (simp add: fun_upd_twist)
qed

text \<open>The host device is ready: both ends are up with their MTU, the host end has the address; when it was there before, no interface
  is added.\<close>

lemma host_device_ready:
  assumes "setup_host_device S dns shw hr pr mtu addr k = (Ok (host, net), k')"
  shows "\<exists>f. ifs k' dns (nl_index host) = Some f \<and> if_name f = SARENA_HOST \<and> if_up f \<and> if_mtu f = mtu"
    "\<exists>g. ifs k' dns (nl_index net) = Some g \<and> if_name g = SARENA_NET \<and> if_up g \<and> if_mtu g = mtu"
    "addr \<in> adrs k' dns (nl_index host)" "nl_get_link S dns SARENA_HOST k = Ok l \<Longrightarrow> dom (ifs k' ns) = dom (ifs k ns)"
proof -
  obtain k1 where k1: "setup_host_links S dns shw mtu addr k1 = (Ok (host, net), k')" "nl_get_link S dns SARENA_HOST k = Ok l \<Longrightarrow> k1 = k" for l
    using assms by (auto simp: setup_host_device_def attempt_Ok split: result.splits infra_error.splits)
  obtain f g where r: "ifs k1 dns (nl_index host) = Some f" "ifs k1 dns (nl_index net) = Some g" "nl_index host \<noteq> nl_index net"
    "if_name f = SARENA_HOST" "if_name g = SARENA_NET" "addr \<in> adrs k' dns (nl_index host)"
    "ifs k' = (ifs k1)(dns := (ifs k1 dns)(nl_index host \<mapsto> f\<lparr>if_up := True, if_mtu := mtu\<rparr>, nl_index net \<mapsto> g\<lparr>if_up := True, if_mtu := mtu\<rparr>))"
    using setup_links_Ok [OF k1(1)] by blast
  show "\<exists>f. ifs k' dns (nl_index host) = Some f \<and> if_name f = SARENA_HOST \<and> if_up f \<and> if_mtu f = mtu"
    "\<exists>g. ifs k' dns (nl_index net) = Some g \<and> if_name g = SARENA_NET \<and> if_up g \<and> if_mtu g = mtu"
    "addr \<in> adrs k' dns (nl_index host)" using r by simp_all
  show "dom (ifs k' ns) = dom (ifs k ns)" if "nl_get_link S dns SARENA_HOST k = Ok l"
    using k1(2) [OF that] r(1,2,7) by (auto simp: dom_def)
qed

end

section \<open>Properties\<close>

text \<open>C40: the daemon stops in time. However long the tasks, the data plane and the tracer take to stop, each of them is given its full
  timeout, none is cut short by the steps before it, and the shutdown is over 25 seconds after it began; a shutdown in which
  all three stop within their timeouts takes just as long as they do.\<close>

theorem shutdown_in_time:
  assumes "shutdown_daemon names early ended d1 d2 d3 now = (failed, aborted, t)"
  shows "t \<le> now + 25000 \<and>
    t = now + (case d1 of Some x \<Rightarrow> min x 10000 | None \<Rightarrow> 10000) + (case d2 of Some x \<Rightarrow> min x 10000 | None \<Rightarrow> 10000) +
      (case d3 of Some x \<Rightarrow> min x 5000 | None \<Rightarrow> 5000) \<and>
    (failed \<longleftrightarrow> early \<noteq> None) \<and>
    set aborted = (case d1 of Some x \<Rightarrow> if x \<le> 10000 then {} else snd ` {(i, n). (i, n) \<in> set names \<and> Some i \<noteq> early \<and> i \<notin> set ended}
                   | None \<Rightarrow> snd ` {(i, n). (i, n) \<in> set names \<and> Some i \<noteq> early \<and> i \<notin> set ended})"
proof -
  define ns where "ns = filter (\<lambda>(i, _). i \<notin> set ended) (case early of None \<Rightarrow> names | Some i \<Rightarrow> snd (log_task_result names i))"
  have ns: "set ns = {(i, n). (i, n) \<in> set names \<and> Some i \<noteq> early \<and> i \<notin> set ended}"
    by (auto simp: ns_def log_task_result_def AList.delete_eq split: option.splits)
  have step: "shutdown_step timeout deadline d at0 = ((\<exists>x. d = Some x \<and> x \<le> timeout), at0 + (case d of Some x \<Rightarrow> min x timeout | None \<Rightarrow> timeout))"
    if "at0 + timeout \<le> deadline" for timeout deadline d at0
    using that by (auto simp: shutdown_step_def Let_def split: option.splits)
  have b: "(case d of Some x \<Rightarrow> min x (n :: nat) | None \<Rightarrow> n) \<le> n" for d n by (auto split: option.splits)
  note q = b [of 10000 d1] b [of 10000 d2] b [of 5000 d3]
  have "(failed, aborted, t) = (early \<noteq> None, if \<exists>x. d1 = Some x \<and> x \<le> 10000 then [] else map snd ns,
      now + (case d1 of Some x \<Rightarrow> min x 10000 | None \<Rightarrow> 10000) + (case d2 of Some x \<Rightarrow> min x 10000 | None \<Rightarrow> 10000) +
      (case d3 of Some x \<Rightarrow> min x 5000 | None \<Rightarrow> 5000))"
    using assms q unfolding shutdown_daemon_def remaining_tasks SHUTDOWN_TIMEOUT_def TELEMETRY_SHUTDOWN_TIMEOUT_def SHUTDOWN_BUDGET_def
    by (auto simp: Let_def step ns_def)
  then show ?thesis using q ns by (auto split: option.splits if_splits)
qed

theorem shutdown_in_time_witness:
  "snd (snd (shutdown_daemon [(1, ''API server''), (2, ''metrics upkeep'')] None [2] None (Some 300) (Some 9000) 100)) = 100 + 10000 + 300 + 5000"
proof -
  obtain f a t where e: "shutdown_daemon [(1, ''API server''), (2, ''metrics upkeep'')] None [2] None (Some 300) (Some 9000) 100 = (f, a, t)"
    by (metis prod_cases3)
  from shutdown_in_time [OF e] e show ?thesis by simp
qed

end
