(* ===== verification/Cli.thy ===== *)
theory Cli
  imports Daemon "HOL-Library.Char_ord" "HOL-Library.List_Lexorder"
begin

text \<open>
  The command line tool (\<open>sarena-cli\<close>): its configuration, and the commands that read and change the pinned maps of the data
  plane, \<open>bpf endpoint\<close> and \<open>bpf metrics\<close>. The maps are opened as the daemon opens them (\<open>Aya_Backend\<close>), by another process on the same
  kernel. What is written is the list of rows; how the crates lay rows out as a table, JSON or YAML is not modelled. Shown: the listing of
  endpoints is the endpoint table, and a deletion removes one address from it.
\<close>

section \<open>Configuration\<close>

record cli_settings =
  cs_host :: "string option"
  cs_debug :: bool
  cs_log_file :: "string option"
  cs_log_format :: log_format
  cs_pin_root :: string

record cli_flags =
  cf_config :: "string option"
  cf_debug :: bool
  cf_host :: "string option"
  cf_log_file :: "string option"
  cf_log_format :: "string option"

definition cli_config_path :: "(string \<Rightarrow> bool) \<Rightarrow> string option \<Rightarrow> cli_flags \<Rightarrow> string option" where
  "cli_config_path is_file home cli =
     (case cf_config cli of
        Some p \<Rightarrow> Some p
      | None \<Rightarrow>
          (case home of
             None \<Rightarrow> None
           | Some h \<Rightarrow>
               List.find is_file (map (\<lambda>ext. path_join (path_join h ''.sarena'') (''sarena-cli.'' @ ext)) [''toml'', ''json'', ''yaml'', ''yml''])))"

definition cli_load_config ::
  "(string option \<Rightarrow> (cli_settings, string) result) \<Rightarrow> (string \<Rightarrow> bool) \<Rightarrow> string option \<Rightarrow> cli_flags \<Rightarrow> (cli_settings, config_error) result" where
  "cli_load_config build is_file home cli =
     (case build (cli_config_path is_file home cli) of
        Err e \<Rightarrow> Err (ConfigLoadError e)
      | Ok c \<Rightarrow>
          (let c = (if cf_debug cli then c\<lparr>cs_debug := True\<rparr> else c);
               c = (if cf_log_file cli \<noteq> None then c\<lparr>cs_log_file := cf_log_file cli\<rparr> else c)
           in case (case cf_log_format cli of
                      None \<Rightarrow> Ok c
                    | Some s \<Rightarrow>
                        (case parse_log_format s of
                           None \<Rightarrow> Err (InvalidLogFormat s)
                         | Some f \<Rightarrow> Ok (c\<lparr>cs_log_format := f\<rparr>))) of
                Err e \<Rightarrow> Err e
              | Ok c \<Rightarrow> Ok (if cf_host cli \<noteq> None then c\<lparr>cs_host := cf_host cli\<rparr> else c)))"

section \<open>Output\<close>

datatype output_format = OutJson | OutYaml | OutJsonPath string

definition parse_output_format :: "string \<Rightarrow> (output_format, string) result" where
  "parse_output_format v =
     (if v = ''json'' then Ok OutJson
      else if v = ''yaml'' then Ok OutYaml
      else if prefix ''jsonpath='' v then Ok (OutJsonPath (drop (length ''jsonpath='') v))
      else Err (''invalid output format: '' @ v @ ''; expected json, yaml, or jsonpath=<expression>''))"

definition endpoint_info_str :: "endpoint_info \<Rightarrow> string" where
  "endpoint_info_str i =
     ''if_index='' @ dec_str (unat (info_if_index i)) @ '' container_mac='' @ join_with '':'' (map hex2 (info_container_mac i)) @
     '' host_mac='' @ join_with '':'' (map hex2 (info_host_mac i))"

definition write_obs_point :: "u8 \<Rightarrow> string" where
  "write_obs_point p =
     (if p = OBS_POINT_CONTAINER_FORWARD then ''CONT FWD''
      else if p = OBS_POINT_HOST_FORWARD then ''HOST FWD''
      else ''UNKNOWN'')"

text \<open>A \<open>BTreeMap\<close> collected from pairs, as the list of its entries: sorted by key, the last entry of a key.\<close>

definition btree_of :: "('a :: linorder \<times> 'b) list \<Rightarrow> ('a \<times> 'b) list" where
  "btree_of xs = map (\<lambda>k. (k, the (map_of (rev xs) k))) (sort (remdups (map fst xs)))"

section \<open>Commands\<close>

text \<open>\<open>root\<close> is whether the user is the superuser; others make the program panic.\<close>

definition list_endpoints ::
  "('k, 'i) aya \<Rightarrow> bool \<Rightarrow> string \<Rightarrow> 'k world \<Rightarrow> ((string \<times> string) list, dp_error) result outcome" where
  "list_endpoints A is_root pin_root w =
     (if \<not> is_root then Panicked
      else Returned (case lxc_open A pin_root w of
        Err e \<Rightarrow> Err e
      | Ok m \<Rightarrow>
          (case lxc_endpoints A m (w_kern w) of
             Err e \<Rightarrow> Err e
           | Ok al \<Rightarrow> Ok (btree_of (map (\<lambda>(ip, info). (ip_str ip, endpoint_info_str info)) al)))))"

definition cli_delete_endpoint ::
  "('k, 'i) aya \<Rightarrow> bool \<Rightarrow> string \<Rightarrow> ip_addr \<Rightarrow> 'k world \<Rightarrow> (unit, dp_error) result outcome \<times> 'k world" where
  "cli_delete_endpoint A is_root pin_root ip w =
     (if \<not> is_root then (Panicked, w)
      else case lxc_open A pin_root w of
        Err e \<Rightarrow> (Returned (Err e), w)
      | Ok m \<Rightarrow> (case lxc_remove_endpoint_by_ip A m ip (w_kern w) of (r, k) \<Rightarrow> (Returned r, w\<lparr>w_kern := k\<rparr>)))"

record metric_row =
  mr_obs_point :: string
  mr_packets :: u64
  mr_bytes :: u64

text \<open>An unstable sort may put rows of the same key in any order; the stable one is taken here.\<close>

definition list_metrics :: "('k, 'i) aya \<Rightarrow> bool \<Rightarrow> string \<Rightarrow> 'k world \<Rightarrow> (metric_row list, dp_error) result outcome" where
  "list_metrics A is_root pin_root w =
     (if \<not> is_root then Panicked
      else Returned (case metrics_open A pin_root w of
        Err e \<Rightarrow> Err e
      | Ok m \<Rightarrow>
          (case collect_results (metrics_entries A m (w_kern w)) of
             Err e \<Rightarrow> Err e
           | Ok es \<Rightarrow>
               Ok (sort_key mr_obs_point (map (\<lambda>(key, v).
                 \<lparr>mr_obs_point = write_obs_point (mk_obs_point key), mr_packets = mv_packets v, mr_bytes = mv_bytes v\<rparr>) es)))))"

definition flush_metrics :: "('k, 'i) aya \<Rightarrow> bool \<Rightarrow> string \<Rightarrow> 'k world \<Rightarrow> (unit, dp_error) result outcome \<times> 'k world" where
  "flush_metrics A is_root pin_root w =
     (if \<not> is_root then (Panicked, w)
      else case metrics_open A pin_root w of
        Err e \<Rightarrow> (Returned (Err e), w)
      | Ok m \<Rightarrow> (case metrics_clear A m (w_kern w) of (r, k) \<Rightarrow> (Returned r, w\<lparr>w_kern := k\<rparr>)))"

text \<open>The lines of the two tables, with tabs between their columns.\<close>

definition endpoint_table :: "(string \<times> string) list \<Rightarrow> string list" where
  "endpoint_table rows = (''IP-ADDRESS'' @ [CHR 0x09] @ ''LOCAL-ENDPOINT-INFO'') # map (\<lambda>(ip, info). ip @ [CHR 0x09] @ info) rows"

definition metrics_table :: "metric_row list \<Rightarrow> string list" where
  "metrics_table rows =
     (''OBS-POINT'' @ [CHR 0x09] @ ''PACKETS'' @ [CHR 0x09] @ ''BYTES'') #
     map (\<lambda>r. mr_obs_point r @ [CHR 0x09] @ dec_str (unat (mr_packets r)) @ [CHR 0x09] @ dec_str (unat (mr_bytes r))) rows"

section \<open>Lemmas\<close>

lemma btree_of_facts:
  "sorted (map fst (btree_of xs))" "distinct (map fst (btree_of xs))" "set (map fst (btree_of xs)) = fst ` set xs"
  by (simp_all add: btree_of_def comp_def)

lemma btree_of_map: "map_of (btree_of xs) = map_of (rev xs)"
proof (rule ext)
  fix k
  show "map_of (btree_of xs) k = map_of (rev xs) k"
  proof (cases "k \<in> fst ` set xs")
    case True
    then obtain v where "map_of (rev xs) k = Some v" by (metis domD dom_map_of_conv_image_fst set_rev)
    moreover have "(k, the (map_of (rev xs) k)) \<in> set (btree_of xs)" using True by (auto simp: btree_of_def)
    ultimately show ?thesis using map_of_is_SomeI [OF btree_of_facts(2)] by simp
  next
    case False
    then show ?thesis using btree_of_facts(3) [of xs] by (metis dom_map_of_conv_image_fst domIff list.set_map set_rev)
  qed
qed

lemma btree_of_distinct: "distinct (map fst xs) \<Longrightarrow> set (btree_of xs) = set xs"
proof -
  assume "distinct (map fst xs)"
  then have "distinct (map fst (rev xs))" by (simp add: rev_map [symmetric])
  then have "(k, v) \<in> set (btree_of xs) \<longleftrightarrow> (k, v) \<in> set xs" for k v
    using map_of_eq_Some_iff [OF btree_of_facts(2), of xs k v] map_of_eq_Some_iff [of "rev xs" k v] by (simp add: btree_of_map)
  then show ?thesis by auto
qed

lemma lxc_collect_map:
  assumes "lxc_collect rs al = Ok al'" "map_of al' ip = Some info"
  shows "map_of al ip = Some info \<or> (\<exists>key. Ok (key, info) \<in> set rs \<and> ip_of_key key = Ok ip)"
  using assms
proof (induction rs al rule: lxc_collect.induct)
  case (3 key i rs al)
  then obtain ip1 where ip: "ip_of_key key = Ok ip1" by (auto split: result.splits)
  with 3 show ?case by (fastforce simp: update_conv' split: if_splits)
qed auto

lemma lxc_collect_distinct: "lxc_collect rs al = Ok al' \<Longrightarrow> distinct (map fst al) \<Longrightarrow> distinct (map fst al')"
  by (induction rs al rule: lxc_collect.induct) (auto split: result.splits simp: distinct_update)

text \<open>A listing of the map is its contents.\<close>

lemma listed_infos:
  assumes "map_docs A tab run" "aya_inv root tab b" "aya_list_endpoint_infos A root b = Ok al"
  shows "map_of al = aya_infos root tab b" "distinct (map fst al)"
proof -
  obtain m where m: "lxc_open A root (ab_world b) = Ok m" "lxc_collect (a_lxc_iter A m (w_kern (ab_world b))) [] = Ok al"
    using assms(3) by (auto simp: aya_list_endpoint_infos_def lxc_endpoints_def split: result.splits)
  note T = lxc_open_Ok [OF assms(1) m(1)] and c = lxc_collect_Ok [OF m(2)]
  have d: "dom (map_of al) = dom (aya_infos root tab b)"
    using aya_list_infos_effect [OF assms] by (simp add: dom_map_of_conv_image_fst)
  have "aya_infos root tab b ip = Some info" if a: "map_of al ip = Some info" for ip info
  proof -
    obtain key where k: "Ok (key, info) \<in> set (a_lxc_iter A m (w_kern (ab_world b)))" "ip_of_key key = Ok ip"
      using lxc_collect_map [OF m(2) a] by auto
    then have t: "lxc_table root tab (ab_world b) key = Some info" using docs_iter [OF assms(1)] c T by simp
    then have "key \<in> range key_of_ip" using assms(2) unfolding aya_inv_def by blast
    then have "key = key_of_ip ip" using k(2) ip_of_key_of_ip by auto
    with t show ?thesis by (simp add: aya_infos_def)
  qed
  with d show "map_of al = aya_infos root tab b" by (metis (no_types, lifting) domD domIff ext not_None_eq option.exhaust)
  show "distinct (map fst al)" using lxc_collect_distinct [OF m(2)] by simp
qed

lemma listed_rows:
  assumes "map_docs A tab run" "aya_inv root tab b" "list_endpoints A u root (ab_world b) = Returned (Ok rows)"
  shows "sorted (map fst rows)" "distinct (map fst rows)"
    "set rows = {(ip_str ip, endpoint_info_str info) | ip info. aya_infos root tab b ip = Some info}"
proof -
  obtain al where al: "aya_list_endpoint_infos A root b = Ok al"
    "rows = btree_of (map (\<lambda>(ip, info). (ip_str ip, endpoint_info_str info)) al)"
    using assms(3) by (auto simp: list_endpoints_def aya_list_endpoint_infos_def split: if_splits result.splits)
  note I = listed_infos [OF assms(1,2) al(1)]
  let ?xs = "map (\<lambda>(ip, info). (ip_str ip, endpoint_info_str info)) al"
  show "sorted (map fst rows)" "distinct (map fst rows)" by (simp_all add: al(2) btree_of_facts del: set_map)
  have "map fst ?xs = map ip_str (map fst al)" by auto
  then have dx: "distinct (map fst ?xs)" using I(2) inj_ip_str by (simp only: distinct_map)
  then have "set rows = set ?xs" unfolding al(2) by (rule btree_of_distinct)
  also have "\<dots> = {(ip_str ip, endpoint_info_str info) | ip info. aya_infos root tab b ip = Some info}"
    unfolding I(1) [symmetric] using map_of_eq_Some_iff [OF I(2)] by auto
  finally show "set rows = {(ip_str ip, endpoint_info_str info) | ip info. aya_infos root tab b ip = Some info}" .
qed

lemma cli_delete_is_remove:
  "cli_delete_endpoint A True root ip (ab_world b) = (Returned r, w) \<longleftrightarrow>
    (\<exists>b'. aya_remove_endpoint_info A root ip b = (r, b') \<and> w = ab_world b' \<and> ab_loggers b' = ab_loggers b)"
proof -
  have "b' = b\<lparr>ab_world := w\<rparr>" if "w = ab_world b'" "ab_loggers b' = ab_loggers b" for b' using that by (cases b; cases b') simp
  then show ?thesis
    by (fastforce simp: cli_delete_endpoint_def aya_remove_endpoint_info_def on_kern_def split: result.splits prod.splits)
qed

section \<open>Properties\<close>

text \<open>C39: the tool shows the table and changes what it is asked to. For the superuser, \<open>bpf endpoint list\<close> gives one row for each address in the endpoint
  table of the kernel, sorted, with the entry of the address; after \<open>bpf endpoint delete\<close> of an address the listing has the same rows but for
  the row of this address.\<close>

theorem cli_endpoint_table:
  assumes "aya_docs A tab run" "aya_ok root tab run b" "list_endpoints A True root (ab_world b) = Returned (Ok rows)"
    "cli_delete_endpoint A True root ip (ab_world b) = (Returned (Ok ()), w)" "list_endpoints A True root w = Returned (Ok rows')"
  shows "sorted (map fst rows) \<and> distinct (map fst rows) \<and>
    set rows = {(ip_str ip, endpoint_info_str info) | ip info. aya_infos root tab b ip = Some info} \<and>
    set rows' = {row \<in> set rows. fst row \<noteq> ip_str ip}"
proof -
  have d: "map_docs A tab run" "aya_inv root tab b" using assms(1,2) by (simp_all add: aya_docs_def aya_ok_def)
  obtain b' where b': "aya_remove_endpoint_info A root ip b = (Ok (), b')" "w = ab_world b'"
    using assms(4) by (auto simp: cli_delete_is_remove)
  note e = aya_remove_info_effect [OF d b'(1)]
  have "set rows' = {(ip_str a, endpoint_info_str info) | a info. aya_infos root tab b' a = Some info}"
    using listed_rows(3) [OF d(1) _ assms(5) [unfolded b'(2)]] e by blast
  also have "\<dots> = {row \<in> {(ip_str a, endpoint_info_str info) | a info. aya_infos root tab b a = Some info}. fst row \<noteq> ip_str ip}"
    using e by (auto split: if_splits)
  finally show ?thesis using listed_rows [OF d assms(3)] by simp
qed

theorem cli_endpoint_table_witness:
  "\<exists>info. (''0.0.0.1'', info) \<in> {(ip_str ip, endpoint_info_str info) | ip info. aya_infos ''/b'' mem_tab
      (ld_backend (snd (actor_run (aya_ops mem_aya ''/b'') (\<lambda>_. []) [AddLoaderEndpoint sample_container] (loader_new sample_backend ''/b'')))) ip = Some info}"
proof -
  let ?r = "actor_run (aya_ops mem_aya ''/b'') (\<lambda>_. []) [AddLoaderEndpoint sample_container] (loader_new sample_backend ''/b'')"
  let ?b = "ld_backend (snd ?r)"
  have "mem.loader_ok ''/b'' (loader_new sample_backend ''/b'')"
    by (simp add: mem.loader_ok_def loader_new_def sample_backend_ok pin_form_def)
  from mem.actor_ok [OF this _ prod.collapse [symmetric], of "[AddLoaderEndpoint sample_container]" "\<lambda>_. []"]
  have ok: "aya_ok ''/b'' mem_tab mem_run ?b" by (simp add: mem.loader_ok_def sample_container_def plain_name_def)
  have l: "list_endpoints mem_aya True ''/b'' (ab_world ?b) = Returned (Ok [(''0.0.0.1'', ''if_index=7 container_mac=02:00:00:00:00:01 host_mac=02:00:00:00:00:02'')])"
    by code_simp
  have d: "fst (cli_delete_endpoint mem_aya True ''/b'' (V4 1) (ab_world ?b)) = Returned (Ok ())"
    "list_endpoints mem_aya True ''/b'' (snd (cli_delete_endpoint mem_aya True ''/b'' (V4 1) (ab_world ?b))) = Returned (Ok [])" by code_simp+
  have "cli_delete_endpoint mem_aya True ''/b'' (V4 1) (ab_world ?b) = (Returned (Ok ()), snd (cli_delete_endpoint mem_aya True ''/b'' (V4 1) (ab_world ?b)))"
    using d(1) by (metis prod.collapse)
  from cli_endpoint_table [OF mem_docs ok l this d(2)] show ?thesis
    by (intro exI [of _ "''if_index=7 container_mac=02:00:00:00:00:01 host_mac=02:00:00:00:00:02''"]) (metis (no_types, lifting) list.set_intros(1))
qed

end
