(* ===== verification/Kubernetes.thy ===== *)
theory Kubernetes
  imports Daemon
begin

text \<open>
  The Kubernetes side of the daemon (\<open>sarena-kubernetes\<close>): the task that runs two controllers and a webhook, how it ends, the loop that waits for
  the certificate, and the validation of address pools. The cluster, the TLS server and the parser of networks are arguments. Shown: which failures
  of the webhook end the daemon and which do not.
\<close>

datatype kubernetes_error = KubeError string | JoinPanicked string | ControllerExited | AllControllersExited

datatype task_end = TaskFinished | TaskPanicked string

text \<open>The end of \<open>server::start\<close>. \<open>tasks\<close> are the tasks that were spawned; \<open>ends\<close> says how the first of them ended before the shutdown, if one did.\<close>

definition kube_start :: "(unit, string) result \<Rightarrow> nat \<Rightarrow> task_end option \<Rightarrow> (unit, kubernetes_error) result" where
  "kube_start client tasks ends =
     (case client of
        Err e \<Rightarrow> Err (KubeError e)
      | Ok _ \<Rightarrow>
          if tasks = 0 then Err AllControllersExited
          else case ends of
                 None \<Rightarrow> Ok ()
               | Some TaskFinished \<Rightarrow> Err ControllerExited
               | Some (TaskPanicked m) \<Rightarrow> Err (JoinPanicked m))"

definition DEFAULT_ADDR :: string where
  "DEFAULT_ADDR = ''0.0.0.0:8443''"

text \<open>The attempts to load the certificate, one every five seconds until the shutdown: the number of the one that succeeded.\<close>

fun load_tls_config :: "nat \<Rightarrow> (unit, string) result list \<Rightarrow> nat option" where
  "load_tls_config n [] = None"
| "load_tls_config n (Ok _ # _) = Some n"
| "load_tls_config n (Err _ # rs) = load_tls_config (n + 1) rs"

text \<open>\<open>webhook::run\<close>: how it ends, \<open>None\<close> when it goes on until the shutdown. \<open>serve\<close> is the result of the server, which ends without an error only when it is
  shut down.\<close>

definition webhook_run :: "(string \<Rightarrow> bool) \<Rightarrow> string option \<Rightarrow> (unit, string) result list \<Rightarrow> (unit, string) result \<Rightarrow> task_end option" where
  "webhook_run is_addr env certs serve =
     (let addr = (case env of Some a \<Rightarrow> a | None \<Rightarrow> DEFAULT_ADDR)
      in if \<not> is_addr addr then None
         else case load_tls_config 0 certs of
                None \<Rightarrow> None
              | Some _ \<Rightarrow> (case serve of Ok _ \<Rightarrow> None | Err _ \<Rightarrow> Some TaskFinished))"

text \<open>The two controllers look at their resources every 30 seconds, after an error every 5.\<close>

definition controller_requeue :: "bool \<Rightarrow> nat" where
  "controller_requeue failed = (if failed then 5 else 30)"

text \<open>The validation: the answer to a review. \<open>review\<close> is \<open>None\<close> for a review without a request; its request has an object or not.\<close>

datatype admission = Allowed | Denied string string | Malformed

definition validate_pool :: "(string \<Rightarrow> (ip_net, string) result) \<Rightarrow> string option option \<Rightarrow> admission" where
  "validate_pool parse review =
     (case review of
        None \<Rightarrow> Malformed
      | Some None \<Rightarrow> Allowed
      | Some (Some cidr) \<Rightarrow> (case parse cidr of Ok _ \<Rightarrow> Allowed | Err e \<Rightarrow> Denied cidr e))"

section \<open>Lemmas\<close>

lemma load_tls_first:
  "load_tls_config a rs = Some n \<longleftrightarrow> a \<le> n \<and> n - a < length rs \<and> (\<exists>u. rs ! (n - a) = Ok u) \<and> (\<forall>i < n - a. \<exists>e. rs ! i = Err e)"
proof (induction a rs rule: load_tls_config.induct)
  case (2 a u rs)
  have "n = a" if "a \<le> n" "\<forall>i < n - a. \<exists>e. (Ok u # rs) ! i = Err e" using that by (cases "n - a") auto
  then show ?case by auto
next
  case (3 a e rs)
  show ?case
  proof (cases "n - a")
    case 0
    then show ?thesis using 3 by auto
  next
    case (Suc m)
    then have "n - Suc a = m" by simp
    with 3 Suc show ?thesis by (auto simp: less_Suc_eq_0_disj all_conj_distrib)
  qed
qed simp

text \<open>A pool is accepted exactly if its range parses, or if the request has no object.\<close>

lemma validate_pool_allows: "validate_pool parse review = Allowed \<longleftrightarrow> (\<exists>obj. review = Some obj \<and> (\<forall>cidr. obj = Some cidr \<longrightarrow> (\<exists>n. parse cidr = Ok n)))"
  by (auto simp: validate_pool_def split: option.splits result.splits)

section \<open>Properties\<close>

text \<open>A webhook that cannot serve stops the node's daemon. While both controllers run, a wrong address or a certificate that never comes only means that there is no
  webhook; but when the server fails, for instance because its port is taken, the Kubernetes task ends with \<open>ControllerExited\<close>, and the daemon shuts
  everything down and fails.\<close>

lemma webhook_failure_stops_daemon:
  assumes "webhook_run is_addr env certs serve = ends"
    "early = (case kube_start (Ok ()) 3 ends of Ok _ \<Rightarrow> None | Err _ \<Rightarrow> Some i)"
    "shutdown_daemon names early ended d1 d2 d3 now = (failed, aborted, t)"
  shows "failed \<longleftrightarrow> is_addr (case env of Some a \<Rightarrow> a | None \<Rightarrow> DEFAULT_ADDR) \<and> (\<exists>u. Ok u \<in> set certs) \<and> (\<exists>e. serve = Err e)"
proof -
  have "load_tls_config a certs \<noteq> None \<longleftrightarrow> (\<exists>u. Ok u \<in> set certs)" for a
    by (induction a certs rule: load_tls_config.induct) auto
  from this [of 0] have "ends \<noteq> None \<longleftrightarrow> is_addr (case env of Some a \<Rightarrow> a | None \<Rightarrow> DEFAULT_ADDR) \<and> (\<exists>u. Ok u \<in> set certs) \<and> (\<exists>e. serve = Err e)"
    using assms(1) by (auto simp: webhook_run_def Let_def split: if_splits option.splits result.splits)
  moreover have "early \<noteq> None \<longleftrightarrow> ends \<noteq> None" using assms(2) by (auto simp: kube_start_def split: option.splits task_end.splits)
  moreover have "failed \<longleftrightarrow> early \<noteq> None" using assms(3) by (auto simp: shutdown_daemon_def Let_def split: prod.splits)
  ultimately show ?thesis by blast
qed

lemma webhook_failure_stops_daemon_witness:
  "fst (shutdown_daemon [(1, ''API server''), (2, ''Kubernetes controllers'')] (Some 2) [1] (Some 5) (Some 5) (Some 5) 0)"
proof -
  let ?s = "shutdown_daemon [(1, ''API server''), (2, ''Kubernetes controllers'')] (Some 2) [1] (Some 5) (Some 5) (Some 5) 0"
  have e: "Some 2 = (case kube_start (Ok ()) 3 (webhook_run (\<lambda>_. True) None [Err ''no file'', Ok ()] (Err ''address in use'')) of Ok _ \<Rightarrow> None | Err _ \<Rightarrow> Some (2 :: nat))"
    by (simp add: webhook_run_def kube_start_def)
  obtain f a t where s: "?s = (f, a, t)" by (metis prod_cases3)
  have "f" using webhook_failure_stops_daemon [OF refl e s] by simp
  with s show ?thesis by simp
qed

end
