(* ===== verification/Spec2Isabelle.thy ===== *)
theory Spec2Isabelle
  imports Ipam_Concurrent Endpoint_Concurrent Endpoint_Id Cni_Add Soft_Dataplane Test_Runner Controller Mock_Loader Packet_Builder Cli Kubernetes
begin

text \<open>
  \<^bold>\<open>Sarena\<close>: a Kubernetes network plugin in Rust. A daemon on each node hands out pod
  addresses, keeps one endpoint per pod, attaches eBPF programs to its interface and fills the
  maps those programs read; a CNI binary asks it for addresses and endpoints.

  \<^bold>\<open>The program and its parts.\<close>
  \<^item> \<open>sarena-services/src/ipam\<close>: the address manager. A bitmap of offsets (\<open>bitmap.rs\<close>) inside an
    allocator for one network (\<open>host_scope.rs\<close>), two of them, one per address family, inside the
    service (\<open>service.rs\<close>), which also records owners and excluded addresses.
  \<^item> \<open>sarena-data-plane/src/endpoint\<close>: the endpoint manager. Ids come from \<open>id_allocator.rs\<close>, names
    are parsed by \<open>id.rs\<close>, each endpoint has a worker task (\<open>worker.rs\<close>, \<open>regenerate.rs\<close>) that
    writes its state to disk (\<open>directory.rs\<close>, \<open>persist.rs\<close>) and calls the loader; \<open>manager.rs\<close> and
    \<open>handle.rs\<close> keep the indexes and restore the endpoints after a restart.
  \<^item> \<open>sarena-data-plane/src/loader\<close>: the loader attaches programs and writes maps through the trait
    \<open>BpfBackend\<close> (\<open>backend.rs\<close>); an actor (\<open>actor.rs\<close>) runs its commands one at a time, and
    \<open>mock_backend.rs\<close> is a backend in memory, \<open>aya_backend.rs\<close> the one that uses the kernel: it pins maps and links below a directory of the
    bpf file system, through \<open>maps\<close> and \<open>sarena-infra/src/tcx.rs\<close>. \<open>mock_dataplane_loader.rs\<close> is a loader in memory for tests.
  \<^item> \<open>sarena-data-plane/src/soft_dataplane.rs\<close>, \<open>models.rs\<close>: a data plane in software, with routes, services,
    tunnels, connection tracking and address translation on packets.
  \<^item> \<open>sarena-data-plane/src/controller\<close>: named background controllers that run a job, wait and retry
    with a backoff, and run a stop hook when they are removed.
  \<^item> \<open>sarena-infra/src/mac_address.rs\<close>, \<open>sarena-shared/src/endpoint.rs\<close>: MAC addresses and the keys of the
    endpoint table shared with the eBPF programs.
  \<^item> \<open>sarena-api\<close>, \<open>sarena-services/src/endpoint\<close>: the REST interface of the daemon (handlers, error bodies) and its client,
    which repeats a request it has no answer for; the service creates and lists endpoints.
  \<^item> \<open>sarena-cni-plugin\<close>: the binary the container runtime starts for ADD, DEL, CHECK and STATUS. It leases addresses
    through the client, provisions a pair of links through the traits of \<open>sarena-infra\<close> and registers the endpoint;
    \<open>sarena-infra\<close> has an implementation of those traits in memory (\<open>mock_link.rs\<close>, \<open>mock_provisioner.rs\<close>) and one over
    netlink (\<open>netlink_link.rs\<close>, \<open>netlink_provisioner.rs\<close>), with threads that enter network namespaces (\<open>netns.rs\<close>).
  \<^item> \<open>sarena-daemon\<close>, \<open>sarena-data-plane/src/setup.rs\<close>, \<open>netlink.rs\<close>: the daemon reads its configuration, creates the host device, starts the
    data plane, the services and three tasks, and stops them in order. \<open>sarena-kubernetes\<close> is one of the tasks: controllers and a webhook.
  \<^item> \<open>sarena-cli\<close>: a tool that reads and changes the pinned maps.
  \<^item> \<open>sarena-ebpf/programs\<close>, \<open>sarena-ebpf/common\<close>, \<open>sarena-shared\<close>: the classifiers the loader attaches. They answer ARP requests, look the
    destination up in the endpoint table, rewrite addresses, lifetime and checksum, redirect, and count packets.
  \<^item> \<open>sarena-shared-test\<close>, \<open>sarena-ebpf/test-framework\<close>, \<open>sarena-test-runner\<close>: tests that run inside the kernel write records into a buffer; the runner reads
    the buffer, and reports.

  \<^bold>\<open>The theories.\<close>
  \<^item> \<open>Sarena_Prelude\<close>: \<open>Result\<close>, the pieces of \<open>core::str\<close> and \<open>core::num\<close> the sources use, words and
    big-endian bytes, and the collections of the development.
  \<^item> \<open>Net_Types\<close>: IP addresses and their text, networks (the \<open>ipnet\<close> crate is the argument \<open>L\<close>,
    with \<open>ipnet_docs\<close> its documented laws), MAC addresses. \<open>Ip_Parse\<close>: the address parsers of the standard library.
  \<^item> \<open>Resource_Pool\<close>: the locales of a pool that grants what is free and takes it back. Interpreted by
    \<open>Bitmap\<close>, \<open>Host_Scope\<close> and \<open>Id_Allocator\<close>, whose counting properties come from it.
  \<^item> \<open>Bitmap\<close>, \<open>Host_Scope\<close>, \<open>Ipam_Service\<close>: the address manager, one theory per file. The random start of
    each scan is an argument, so a theorem holds for every choice. Shown: the bitmap refines a set of
    offsets; an allocator hands out every usable address exactly once; no address is granted twice before
    it is released, for any sequence of requests; allocations are all or nothing; the dump lists what is in use.
    \<open>Ipam_Concurrent\<close> takes \<open>allocate_next\<close> apart into its critical sections. Shown: the sections without interruption are the call, and
    exclusion holds for every interleaving of the sections of any requests.
  \<^item> \<open>Dataplane_Types\<close>: persisted endpoints, errors, the hook and map tables, pin paths and table keys.
    Shown: pin paths identify endpoint, kind and map.
  \<^item> \<open>Id_Allocator\<close>, \<open>Endpoint_Id\<close>, \<open>Endpoint_Directory\<close>, \<open>Endpoint_Worker\<close>, \<open>Endpoint_Manager\<close>: the endpoint manager. The file
    system is a map of directories whose every call may fail (\<open>faults\<close>, one entry per call, also a crash in the
    middle), \<open>serde_json\<close> is the argument \<open>J\<close>. Shown: ids are conserved, whatever ids clients pass; the parser recognises
    exactly the names the program writes; a restart restores the best state on disk; whatever
    fails during a regeneration, a restart finds the old or the new state; the outcome of a
    regeneration; which lookups hold after any operations, and which go stale.
  \<^item> \<open>Interface_Address\<close>, \<open>Endpoint_Service\<close>: interface addresses, routes and interface names; the endpoint service over
    the endpoint manager. Shown: what a created endpoint looks like and which lookups find it. \<open>Endpoint_Concurrent\<close> takes the creation
    of an endpoint apart into its critical sections. Shown: in every interleaving ids are never shared, and container ids and addresses
    only between creations that overlap; such a race exists.
  \<^item> \<open>Api\<close>: handlers, error bodies and client. The transport is the argument \<open>d\<close>, which says of every attempt whether the
    request or its answer is lost. Shown: the number of attempts is bounded; a lost answer repeats an allocation that took place.
  \<^item> \<open>Network\<close>, \<open>Cni\<close>, \<open>Cni_Lease\<close>, \<open>Cni_Add\<close>: the traits as a record of operations and their implementation in
    memory; the four commands; the contract of the daemon the commands rely on, as the locales \<open>lossy_api\<close> (any transport)
    and \<open>lease_api\<close> (a transport whose answers arrive), both interpreted by client, transport, handlers and services together. How many
    releases a failed ADD completes before its process exits is the argument \<open>ev_releases\<close>. Shown: a pod that was added is registered with
    the addresses in its result; when answers arrive, a failed ADD keeps only those addresses whose release its process did not complete; successful ADDs are bounded by
    the pool; the interface test of CHECK passes exactly when every reported address is on the interface.
  \<^item> \<open>Loader\<close>: the loader over the locale \<open>bpf_backend\<close>, interpreted by the backend in memory with
    injected failures. Shown: a reconcile without errors leaves exactly the desired endpoints and
    addresses; adding and removing are inverse.
  \<^item> \<open>Bpffs\<close>, \<open>Aya_Backend\<close>, \<open>Aya_Contract\<close>: the bpf file system as a tree of directories and pins whose every call may fail, and the backend, the
    map wrappers and the attachment of programs over it. The aya crate is the argument \<open>A\<close>, with \<open>aya_docs\<close> its documented behaviour and that of the
    kernel. Shown: the backend keeps the contract \<open>bpf_backend\<close>, so everything shown of the loader holds over it (\<open>mem\<close> is the interpretation on a
    kernel in memory); a pinned link runs the right program at the right place; a packet for an endpoint that was added reaches it.
  \<^item> \<open>Mock_Loader\<close>: the loader in memory. Shown: it answers as the actor over the aya backend does when no call fails.
  \<^item> \<open>Netns\<close>, \<open>Netlink\<close>, \<open>Netlink_Contract\<close>: namespaces and links over system calls and rtnetlink requests, the record \<open>S\<close>; the locales \<open>netns_sys\<close> and
    \<open>rtnetlink\<close> are their documented behaviour, interpreted by a kernel in memory. Shown: a namespace is created completely, or
    what the creation made is undone if the calls that undo it succeed, and no file that existed is lost, mounts on the first use of the directory apart; after an ADD
    over netlink that did not change the index of the link the pod has its interface, up and with its addresses, and a CHECK that reaches a healthy
    daemon accepts it; two behaviours that are not intended (below).
  \<^item> \<open>Daemon\<close>, \<open>Kubernetes\<close>, \<open>Cli\<close>: start, configuration and shutdown; the end of the Kubernetes task; the commands on pinned maps. Shown: the host device is
    ready after the start; the shutdown takes 25 seconds at most and cuts no step short; which failures of the webhook stop the daemon; the tool lists
    the endpoint table and deletes from it what it is asked to.
  \<^item> \<open>Packet\<close>: frames as byte lists, a panic as \<open>None\<close>. Shown: the checksum is that of RFC 1071, never overflows and
    ends after two folds; rewriting a complete packet changes the given fields and the
    checksums, no other byte, and leaves both checksums right.
  \<^item> \<open>Soft_Dataplane\<close>: the tables over the locale \<open>keyed_table\<close> (eight interpretations), route selection,
    decisions. Shown: tables are maps; the longest prefix wins; weights share the traffic; a packet to a service is sent
    to its backend, its reply is sent back under the address of the service; two behaviours that are not intended (below).
  \<^item> \<open>Ebpf\<close>: the ten classifiers and what they call, as functions of a packet and the tables. The helpers of the kernel
    are the record \<open>K\<close>; of them the theorems use only the documented checksum helper (\<open>csum_docs\<close>). Shown: a packet for a local
    endpoint leaves by its interface with the right addresses, one hop less and a correct checksum; an ARP request gets its reply;
    every classifier leaves a well-formed packet.
  \<^item> \<open>Test_Wire\<close>, \<open>Test_Suite\<close>, \<open>Test_Runner\<close>: the records, writer and reader of the test protocol, the suite that runs in
    the kernel, and the runner's grouping, verdicts and messages. Shown: what the suite writes is what the runner reads; a test
    that is reported as passed did not fail on the packet it ran on; the message formatter is the substitution it means to be. \<open>Packet_Builder\<close>: the builder of test packets. Shown:
    it leaves exactly what was pushed.
  \<^item> \<open>Backoff\<close>, \<open>Controller\<close>: the delays and the controllers. Every interleaving of the manager's calls and
    the tasks' steps is the inductive predicate \<open>reachable\<close> with its trace. Shown: delays have a
    closed form; the life of a controller ends with its hook, run once, unless the computation of a delay panics; counters match the trace; a removed
    controller terminates; the registry agrees with the manager; an update is what runs next.

  \<^bold>\<open>Parameters and bounds.\<close> Code outside the repository is an argument: \<open>ipnet\<close>, \<open>serde_json\<close>, the iteration order of
  hash sets (\<open>pick\<close>), hashes of flows, the clock, floating-point rounding (\<open>rnd\<close>), the aya crate, system calls and rtnetlink, the helpers of the kernel. Nothing uses fuel: loops are
  recursions with termination proofs. Integers whose width matters are words; ids and counters
  of the controllers' manager that would need \<open>2^64\<close> steps to wrap are naturals. Locks: an operation that the sources run under one lock,
  or in an actor or worker that takes its commands one by one, is one function. Two operations take a lock several times: \<open>create\<close> of the endpoint service and
  \<open>allocate_next\<close>. For them \<open>service_create\<close> and \<open>allocate_next\<close> are the call that no other call interrupts, which the properties of one request
  speak of, and \<open>Endpoint_Concurrent\<close> and \<open>Ipam_Concurrent\<close> have every interleaving of their sections. The controllers, where tasks run between calls, are modelled with
  interleaving throughout.

  \<^bold>\<open>What the model shows of the code.\<close> Theorems also record behaviour that is not what the code means to do: an owner entry that
  outlives a rolled back address, stale names after a deletion, an id outside the range that enters the pool,
  a short packet that panics, a client packet that resets a connection's state, a lost answer that leaks an address, a lost
  answer to a creation after which the address of a live endpoint is freed, two creations at a time that share a container id or an address, a failed ADD whose process exits
  before it has released its addresses, a delay too long for a duration that ends a controller without its stop hook, an IPv6 address that is granted and never configured,
  pod names that are read as numbers, a packet dropped for its lifetime that is counted as forwarded, IPv6 packets of containers that
  are dropped, a record that the test reader cannot survive, a skipped test that hides its failure, a packet too
  large for the report, a moved link that keeps a stale index and then changes another interface, a first namespace that hides those mounted
  before it, a webhook whose port is taken and that stops the daemon. DEL frees neither address nor endpoint.

  \<^bold>\<open>Not modelled.\<close> The HTTP transport and the sockets of the daemon (\<open>api_server.rs\<close>, \<open>transport.rs\<close>: axum and hyper; what a transport may lose is an argument of
  \<open>Api\<close>), logging and the metrics exporter, the parsing of arguments and the layout of output (clap, serde, tabwriter), the watch on the cluster and the
  generators of certificates and resource definitions (the kube crates), the procedural macros of the tests, the test programs themselves and the runner's loading of object
  files, and the build tooling. What is left there is code of other crates or output; the decisions the sources take around it are modelled.
\<close>

end
